(* ===== verification/GFM_Prelude.thy ===== *)
theory GFM_Prelude
  imports Main
begin

text \<open>
  Shared ground of the development: Python exceptions as values, the monad the stateful
  Python code is embedded in, its Hoare rules, and the loop combinators.

  A Python procedure that reads and changes the outside world (Redis, the module globals, the
  clock) is a function \<open>'w \<Rightarrow> (exn + 'a) \<times> 'w\<close>: it always hands back a world, and either a
  value (\<open>Inr\<close>) or the exception that escaped (\<open>Inl\<close>). \<open>bnd\<close> is statement sequencing,
  \<open>catch\<close> is \<^verbatim>\<open>try ... except Exception\<close>, \<open>for_each\<close> is a \<^verbatim>\<open>for\<close> loop that threads an
  accumulator.
\<close>

section \<open>Exceptions and the program monad\<close>

datatype exn =
    ValueError
  | OverflowError
  | KeyError
  | TypeError
  | RuntimeError string
  | RedisError
  | SqlError
  | HTTPException int string
  | DbLoadOverloaded string
  | StagingDuplicateUnrecoverable string
  | BulkImportCancelled
  | MultipleResultsFound
  | ClientDisconnected
  | CancelledError
  | RequestError
  | TimeoutError
  | DbError string
  | IntegrityError string
  | GeometryTooLargeError int int
  | CogPathOutsideStorageError string
  | AssertionError
  | RecursionError

type_synonym ('w, 'a) prog = "'w \<Rightarrow> (exn + 'a) \<times> 'w"

definition ret :: "'a \<Rightarrow> ('w, 'a) prog" where
  "ret a w = (Inr a, w)"

definition raise :: "exn \<Rightarrow> ('w, 'a) prog" where
  "raise e w = (Inl e, w)"

definition bnd :: "('w, 'a) prog \<Rightarrow> ('a \<Rightarrow> ('w, 'b) prog) \<Rightarrow> ('w, 'b) prog" where
  "bnd m f w = (case fst (m w) of Inl e \<Rightarrow> (Inl e, snd (m w)) | Inr a \<Rightarrow> f a (snd (m w)))"

definition catch :: "('w, 'a) prog \<Rightarrow> (exn \<Rightarrow> ('w, 'a) prog) \<Rightarrow> ('w, 'a) prog" where
  "catch m h w = (case fst (m w) of Inl e \<Rightarrow> h e (snd (m w)) | Inr a \<Rightarrow> (Inr a, snd (m w)))"

definition gets :: "('w \<Rightarrow> 'a) \<Rightarrow> ('w, 'a) prog" where
  "gets f w = (Inr (f w), w)"

definition modify :: "('w \<Rightarrow> 'w) \<Rightarrow> ('w, unit) prog" where
  "modify f w = (Inr (), f w)"

definition lift_exn :: "exn + 'a \<Rightarrow> ('w, 'a) prog" where
  "lift_exn r w = (r, w)"

definition sbind :: "exn + 'a \<Rightarrow> ('a \<Rightarrow> exn + 'b) \<Rightarrow> exn + 'b" where
  "sbind r f = (case r of Inl e \<Rightarrow> Inl e | Inr a \<Rightarrow> f a)"

lemma sbind_simps [simp]: "sbind (Inl e) f = Inl e" "sbind (Inr a) f = f a"
  by (simp_all add: sbind_def)

primrec for_each :: "'x list \<Rightarrow> ('x \<Rightarrow> 'a \<Rightarrow> ('w, 'a) prog) \<Rightarrow> 'a \<Rightarrow> ('w, 'a) prog" where
  "for_each [] body acc = ret acc"
| "for_each (x # xs) body acc = bnd (body x acc) (for_each xs body)"

section \<open>Evaluation rules\<close>

named_theorems prog_simps \<open>evaluation of the program combinators\<close>

lemma ret_eval [prog_simps]: "fst (ret a w) = Inr a" "snd (ret a w) = w"
  by (simp_all add: ret_def)

lemma raise_eval [prog_simps]: "fst (raise e w) = Inl e" "snd (raise e w) = w"
  by (simp_all add: raise_def)

lemma gets_eval [prog_simps]: "fst (gets f w) = Inr (f w)" "snd (gets f w) = w"
  by (simp_all add: gets_def)

lemma modify_eval [prog_simps]: "fst (modify f w) = Inr ()" "snd (modify f w) = f w"
  by (simp_all add: modify_def)

lemma lift_exn_eval [prog_simps]: "fst (lift_exn r w) = r" "snd (lift_exn r w) = w"
  by (simp_all add: lift_exn_def)

lemma bnd_eval [prog_simps]:
  "fst (bnd m f w) = (case fst (m w) of Inl e \<Rightarrow> Inl e | Inr a \<Rightarrow> fst (f a (snd (m w))))"
  "snd (bnd m f w) = (case fst (m w) of Inl e \<Rightarrow> snd (m w) | Inr a \<Rightarrow> snd (f a (snd (m w))))"
  by (simp_all add: bnd_def split: sum.split)

lemma catch_eval [prog_simps]:
  "fst (catch m h w) = (case fst (m w) of Inl e \<Rightarrow> fst (h e (snd (m w))) | Inr a \<Rightarrow> Inr a)"
  "snd (catch m h w) = (case fst (m w) of Inl e \<Rightarrow> snd (h e (snd (m w))) | Inr a \<Rightarrow> snd (m w))"
  by (simp_all add: catch_def split: sum.split)

text \<open>For execution: the program is run once and its result inspected.\<close>

lemma bnd_code [code]: "bnd m f w = (case m w of (Inl e, w') \<Rightarrow> (Inl e, w') | (Inr a, w') \<Rightarrow> f a w')"
  by (simp add: bnd_def split: sum.split prod.split)

lemma catch_code [code]: "catch m h w = (case m w of (Inl e, w') \<Rightarrow> h e w' | (Inr a, w') \<Rightarrow> (Inr a, w'))"
  by (simp add: catch_def split: sum.split prod.split)

lemma bnd_ret [simp]: "bnd (ret a) f = f a"
  by (simp add: fun_eq_iff bnd_def ret_def)

lemma bnd_raise [simp]: "bnd (raise e) f = raise e"
  by (simp add: fun_eq_iff bnd_def raise_def)

lemma bnd_ret_right [simp]: "bnd m ret = m"
  by (simp add: fun_eq_iff bnd_def ret_def prod_eq_iff split: sum.split)

lemma bnd_assoc: "bnd (bnd m f) g = bnd m (\<lambda>x. bnd (f x) g)"
  by (simp add: fun_eq_iff bnd_def split: sum.split)

lemma catch_raise [simp]: "catch (raise e) h = h e"
  by (simp add: fun_eq_iff catch_def raise_def)

lemma catch_ret [simp]: "catch (ret a) h = ret a"
  by (simp add: fun_eq_iff catch_def ret_def)

section \<open>Hoare triples with an exceptional postcondition\<close>

text \<open>
  \<open>triple P m Q E\<close>: from every world satisfying \<open>P\<close>, if \<open>m\<close> returns \<open>a\<close> the final world
  satisfies \<open>Q a\<close>, and if \<open>m\<close> raises \<open>e\<close> it satisfies \<open>E e\<close>. Programs are total functions, so
  there is no third outcome.
\<close>

definition triple ::
  "('w \<Rightarrow> bool) \<Rightarrow> ('w, 'a) prog \<Rightarrow> ('a \<Rightarrow> 'w \<Rightarrow> bool) \<Rightarrow> (exn \<Rightarrow> 'w \<Rightarrow> bool) \<Rightarrow> bool" where
  "triple P m Q E \<longleftrightarrow>
     (\<forall>w. P w \<longrightarrow> (case fst (m w) of Inl e \<Rightarrow> E e (snd (m w)) | Inr a \<Rightarrow> Q a (snd (m w))))"

abbreviation preserves :: "('w \<Rightarrow> bool) \<Rightarrow> ('w, 'a) prog \<Rightarrow> bool" where
  "preserves I m \<equiv> triple I m (\<lambda>_. I) (\<lambda>_. I)"

named_theorems triple_intros \<open>Hoare rules, one per combinator\<close>

lemma tripleD_ret:
  "triple P m Q E \<Longrightarrow> P w \<Longrightarrow> m w = (Inr a, w') \<Longrightarrow> Q a w'"
  by (fastforce simp: triple_def split: sum.splits)

lemma tripleD_exn:
  "triple P m Q E \<Longrightarrow> P w \<Longrightarrow> m w = (Inl e, w') \<Longrightarrow> E e w'"
  by (fastforce simp: triple_def split: sum.splits)

lemma tripleD_fst: "triple P m Q E \<Longrightarrow> P w \<Longrightarrow> fst (m w) = Inr a \<Longrightarrow> Q a (snd (m w))"
  by (simp add: triple_def split: sum.splits)

lemma tripleD_fst_exn: "triple P m Q E \<Longrightarrow> P w \<Longrightarrow> fst (m w) = Inl e \<Longrightarrow> E e (snd (m w))"
  by (simp add: triple_def split: sum.splits)

lemma preservesD: "preserves I m \<Longrightarrow> I w \<Longrightarrow> I (snd (m w))"
  by (fastforce simp: triple_def split: sum.splits)

lemma preservesI: "(\<And>w. I w \<Longrightarrow> I (snd (m w))) \<Longrightarrow> preserves I m"
  by (auto simp: triple_def split: sum.split)

lemma triple_any: "triple (\<lambda>_. True) m (\<lambda>_ _. True) (\<lambda>_ _. True)"
  by (simp add: triple_def split: sum.split)

lemma triple_weaken:
  "triple P' m Q' E' \<Longrightarrow> (\<And>w. P w \<Longrightarrow> P' w) \<Longrightarrow> (\<And>a w. Q' a w \<Longrightarrow> Q a w) \<Longrightarrow>
     (\<And>e w. E' e w \<Longrightarrow> E e w) \<Longrightarrow> triple P m Q E"
  by (fastforce simp: triple_def split: sum.splits)

lemma triple_ret [triple_intros]: "(\<And>w. P w \<Longrightarrow> Q a w) \<Longrightarrow> triple P (ret a) Q E"
  by (simp add: triple_def ret_def)

lemma triple_raise [triple_intros]: "(\<And>w. P w \<Longrightarrow> E e w) \<Longrightarrow> triple P (raise e) Q E"
  by (simp add: triple_def raise_def)

lemma triple_gets [triple_intros]: "(\<And>w. P w \<Longrightarrow> Q (f w) w) \<Longrightarrow> triple P (gets f) Q E"
  by (simp add: triple_def gets_def)

lemma triple_modify [triple_intros]: "(\<And>w. P w \<Longrightarrow> Q () (f w)) \<Longrightarrow> triple P (modify f) Q E"
  by (simp add: triple_def modify_def)

lemma triple_lift_exn [triple_intros]:
  "(\<And>w e. P w \<Longrightarrow> r = Inl e \<Longrightarrow> E e w) \<Longrightarrow> (\<And>w a. P w \<Longrightarrow> r = Inr a \<Longrightarrow> Q a w) \<Longrightarrow>
     triple P (lift_exn r) Q E"
  by (simp add: triple_def lift_exn_def split: sum.split)

lemma triple_bnd [triple_intros]:
  assumes "triple P m R E" and "\<And>a. triple (R a) (f a) Q E"
  shows "triple P (bnd m f) Q E"
  using assms by (fastforce simp: triple_def bnd_def split: sum.splits)

lemma triple_catch [triple_intros]:
  assumes "triple P m Q R" and "\<And>e. triple (R e) (h e) Q E"
  shows "triple P (catch m h) Q E"
  using assms by (fastforce simp: triple_def catch_def split: sum.splits)

lemma triple_if [triple_intros]:
  assumes "c \<Longrightarrow> triple P m Q E" and "\<not> c \<Longrightarrow> triple P n Q E"
  shows "triple P (if c then m else n) Q E"
  using assms by auto

lemma triple_case_option [triple_intros]:
  assumes "x = None \<Longrightarrow> triple P m Q E" and "\<And>y. x = Some y \<Longrightarrow> triple P (f y) Q E"
  shows "triple P (case x of None \<Rightarrow> m | Some y \<Rightarrow> f y) Q E"
  using assms by (cases x) auto

lemma triple_for_each [triple_intros]:
  assumes "\<And>x acc. x \<in> set xs \<Longrightarrow> triple (I acc) (body x acc) I E"
  shows "triple (I acc) (for_each xs body acc) I E"
  using assms
proof (induction xs arbitrary: acc)
  case Nil
  show ?case by (simp add: triple_ret)
next
  case (Cons x xs)
  have "triple (I a) (for_each xs body a) I E" for a
    using Cons by simp
  then show ?case
    using Cons.prems[of x acc] by (auto intro: triple_bnd)
qed

section \<open>Frames\<close>

text \<open>What a program keeps of the world.\<close>

definition keeps :: "('w \<Rightarrow> 'b) \<Rightarrow> ('w, 'a) prog \<Rightarrow> bool" where
  "keeps f m \<longleftrightarrow> (\<forall>w. f (snd (m w)) = f w)"

named_theorems keeps_intros \<open>what a program keeps of the world, one rule per combinator\<close>

lemma keepsD: "keeps f m \<Longrightarrow> f (snd (m w)) = f w"
  by (simp add: keeps_def)

lemma keeps_ret [keeps_intros]: "keeps f (ret a)" "keeps f (raise e)" "keeps f (gets g)" "keeps f (lift_exn r)"
  by (simp_all add: keeps_def prog_simps)

lemma keeps_bnd [keeps_intros]: "keeps f m \<Longrightarrow> (\<And>a. keeps f (k a)) \<Longrightarrow> keeps f (bnd m k)"
  by (simp add: keeps_def bnd_def split: sum.split)

lemma keeps_catch [keeps_intros]: "keeps f m \<Longrightarrow> (\<And>e. keeps f (h e)) \<Longrightarrow> keeps f (catch m h)"
  by (simp add: keeps_def catch_def split: sum.split)

lemma keeps_if [keeps_intros]: "keeps f m \<Longrightarrow> keeps f n \<Longrightarrow> keeps f (if c then m else n)"
  by simp

lemma keeps_let [keeps_intros]: "(\<And>x. keeps f (k x)) \<Longrightarrow> keeps f (let x = a in k x)"
  by simp

lemma keeps_case_option [keeps_intros]: "keeps f m \<Longrightarrow> (\<And>y. keeps f (k y)) \<Longrightarrow> keeps f (case x of None \<Rightarrow> m | Some y \<Rightarrow> k y)"
  by (cases x) simp_all

lemma keeps_case_sum [keeps_intros]: "(\<And>y. keeps f (h y)) \<Longrightarrow> (\<And>y. keeps f (k y)) \<Longrightarrow> keeps f (case x of Inl y \<Rightarrow> h y | Inr y \<Rightarrow> k y)"
  by (cases x) simp_all

lemma keeps_case_prod [keeps_intros]: "(\<And>y z. keeps f (k y z)) \<Longrightarrow> keeps f (case x of (y, z) \<Rightarrow> k y z)"
  by (cases x) simp

lemma keeps_for_each [keeps_intros]: "(\<And>x a. keeps f (body x a)) \<Longrightarrow> keeps f (for_each xs body acc)"
  by (induction xs arbitrary: acc) (simp_all add: keeps_intros)

section \<open>Generic list and option facts\<close>

definition or_else :: "'a option \<Rightarrow> 'a \<Rightarrow> 'a" where
  "or_else x d = (case x of None \<Rightarrow> d | Some v \<Rightarrow> v)"

lemma or_else_simps [simp]: "or_else None d = d" "or_else (Some v) d = v"
  by (simp_all add: or_else_def)

lemma filter_key:
  "distinct (map f xs) \<Longrightarrow> filter (\<lambda>x. f x = k) xs = (case find (\<lambda>x. f x = k) xs of None \<Rightarrow> [] | Some x \<Rightarrow> [x])"
proof (induction xs)
  case (Cons x xs)
  show ?case
  proof (cases "f x = k")
    case True
    then have "filter (\<lambda>x. f x = k) xs = []" using Cons.prems by (auto simp: filter_empty_conv image_iff)
    with True show ?thesis by simp
  qed (use Cons in simp)
qed simp

lemma find_SomeD: "find P xs = Some x \<Longrightarrow> x \<in> set xs \<and> P x"
  by (induction xs) (auto split: if_splits)

lemma find_NoneD: "find P xs = None \<Longrightarrow> x \<in> set xs \<Longrightarrow> \<not> P x"
  by (induction xs) (auto split: if_splits)

lemma find_key_Some:
  assumes "distinct (map f xs)" and "x \<in> set xs" and "f x = k"
  shows "find (\<lambda>y. f y = k) xs = Some x"
proof (cases "find (\<lambda>y. f y = k) xs")
  case None
  then show ?thesis using find_NoneD [OF None assms(2)] assms(3) by simp
next
  case (Some y)
  then have "y \<in> set xs" "f y = k" using find_SomeD [OF Some] by simp_all
  then show ?thesis using Some assms by (auto simp: distinct_map dest: inj_onD)
qed

end
