(* ===== verification/Py_Text.thy ===== *)
theory Py_Text
  imports GFM_Prelude
begin

text \<open>
  The parts of Python's \<^verbatim>\<open>str\<close>, \<^verbatim>\<open>int\<close> and sequence slicing that the modelled code uses.
  A Python string is a list of characters; HOL's \<open>char\<close> is a code point below 256, so the model
  covers the strings of the Latin-1 range, with Python's classification of those code points
  (\<open>isspace\<close>, \<open>isalnum\<close>, \<open>isdigit\<close>, \<open>lower\<close>). The main results are the round trip of
  \<^verbatim>\<open>int(str(n))\<close> and the splitting lemmas.
\<close>

section \<open>Characters\<close>

definition is_ascii_digit :: "char \<Rightarrow> bool" where
  "is_ascii_digit c \<longleftrightarrow> 48 \<le> (of_char c :: nat) \<and> (of_char c :: nat) \<le> 57"

definition py_isspace_char :: "char \<Rightarrow> bool" where
  "py_isspace_char c \<longleftrightarrow> (let n = (of_char c :: nat) in
     (9 \<le> n \<and> n \<le> 13) \<or> (28 \<le> n \<and> n \<le> 32) \<or> n = 133 \<or> n = 160)"

definition is_latin_letter :: "char \<Rightarrow> bool" where
  "is_latin_letter c \<longleftrightarrow> (let n = (of_char c :: nat) in
     (65 \<le> n \<and> n \<le> 90) \<or> (97 \<le> n \<and> n \<le> 122) \<or> n = 170 \<or> n = 181 \<or> n = 186 \<or>
     (192 \<le> n \<and> n \<noteq> 215 \<and> n \<noteq> 247))"

definition py_isdigit_char :: "char \<Rightarrow> bool" where
  "py_isdigit_char c \<longleftrightarrow> is_ascii_digit c \<or> (of_char c :: nat) \<in> {178, 179, 185}"

definition py_isalnum_char :: "char \<Rightarrow> bool" where
  "py_isalnum_char c \<longleftrightarrow> is_latin_letter c \<or> py_isdigit_char c \<or> (of_char c :: nat) \<in> {188, 189, 190}"

definition py_lower_char :: "char \<Rightarrow> char" where
  "py_lower_char c = (let n = (of_char c :: nat) in
     if (65 \<le> n \<and> n \<le> 90) \<or> (192 \<le> n \<and> n \<le> 222 \<and> n \<noteq> 215) then char_of (n + 32) else c)"

definition py_lower :: "string \<Rightarrow> string" where
  "py_lower = map py_lower_char"

definition py_isdigit :: "string \<Rightarrow> bool" where
  "py_isdigit s \<longleftrightarrow> s \<noteq> [] \<and> list_all py_isdigit_char s"

definition strip_with :: "(char \<Rightarrow> bool) \<Rightarrow> string \<Rightarrow> string" where
  "strip_with p s = rev (dropWhile p (rev (dropWhile p s)))"

definition py_strip :: "string \<Rightarrow> string" where
  "py_strip = strip_with py_isspace_char"

section \<open>Substrings, splitting and slices\<close>

definition starts_with :: "string \<Rightarrow> string \<Rightarrow> bool" where
  "starts_with p s \<longleftrightarrow> take (length p) s = p"

fun is_sub :: "string \<Rightarrow> string \<Rightarrow> bool" where
  "is_sub p [] \<longleftrightarrow> p = []"
| "is_sub p (c # cs) \<longleftrightarrow> starts_with p (c # cs) \<or> is_sub p cs"

fun before_sub :: "string \<Rightarrow> string \<Rightarrow> string" where
  "before_sub p [] = []"
| "before_sub p (c # cs) = (if starts_with p (c # cs) then [] else c # before_sub p cs)"

definition replace_char :: "char \<Rightarrow> string \<Rightarrow> string \<Rightarrow> string" where
  "replace_char x r s = concat (map (\<lambda>c. if c = x then r else [c]) s)"

fun split_max :: "nat \<Rightarrow> char \<Rightarrow> string \<Rightarrow> string list" where
  "split_max 0 x s = [s]"
| "split_max (Suc n) x s =
     (case dropWhile (\<lambda>c. c \<noteq> x) s of
        [] \<Rightarrow> [s]
      | _ # r \<Rightarrow> takeWhile (\<lambda>c. c \<noteq> x) s # split_max n x r)"

fun join_with :: "string \<Rightarrow> string list \<Rightarrow> string" where
  "join_with sep [] = []"
| "join_with sep [x] = x"
| "join_with sep (x # y # zs) = x @ sep @ join_with sep (y # zs)"

definition is_line_break :: "char \<Rightarrow> bool" where
  "is_line_break c \<longleftrightarrow> (let n = (of_char c :: nat) in
     (10 \<le> n \<and> n \<le> 13) \<or> (28 \<le> n \<and> n \<le> 30) \<or> n = 133)"

fun splitlines_acc :: "string \<Rightarrow> string \<Rightarrow> string list" where
  "splitlines_acc cur [] = (if cur = [] then [] else [rev cur])"
| "splitlines_acc cur (c # cs) =
     (if is_line_break c then
        rev cur # (case cs of
            d # ds \<Rightarrow> if c = CHR 0x0D \<and> d = CHR 0x0A then splitlines_acc [] ds
                        else splitlines_acc [] (d # ds)
          | [] \<Rightarrow> [])
      else splitlines_acc (c # cur) cs)"

definition py_splitlines :: "string \<Rightarrow> string list" where
  "py_splitlines = splitlines_acc []"

text \<open>\<^verbatim>\<open>xs[:n]\<close> and \<^verbatim>\<open>xs[a:b]\<close> with Python's treatment of negative and out-of-range bounds.\<close>

definition slice_index :: "nat \<Rightarrow> int \<Rightarrow> nat" where
  "slice_index len i = (if i < 0 then nat (int len + i) else min len (nat i))"

definition py_slice :: "int \<Rightarrow> int \<Rightarrow> 'a list \<Rightarrow> 'a list" where
  "py_slice a b xs =
     (let i = slice_index (length xs) a; j = slice_index (length xs) b in take (j - i) (drop i xs))"

definition py_take :: "int \<Rightarrow> 'a list \<Rightarrow> 'a list" where
  "py_take b xs = take (slice_index (length xs) b) xs"

section \<open>Integers as text\<close>

definition digit_char :: "nat \<Rightarrow> char" where
  "digit_char d = char_of (48 + d)"

text \<open>For execution: a table.\<close>

lemma digit_char_code [code]:
  "digit_char d =
     (if d = 0 then CHR ''0'' else if d = 1 then CHR ''1'' else if d = 2 then CHR ''2''
      else if d = 3 then CHR ''3'' else if d = 4 then CHR ''4'' else if d = 5 then CHR ''5''
      else if d = 6 then CHR ''6'' else if d = 7 then CHR ''7'' else if d = 8 then CHR ''8''
      else if d = 9 then CHR ''9'' else char_of (48 + d))"
  by (simp add: digit_char_def char_of_def bit_0)

fun nat_str :: "nat \<Rightarrow> string" where
  "nat_str n = (if n < 10 then [digit_char n] else nat_str (n div 10) @ [digit_char (n mod 10)])"

declare nat_str.simps [simp del]

definition int_str :: "int \<Rightarrow> string" where
  "int_str i = (if i < 0 then CHR ''-'' # nat_str (nat (- i)) else nat_str (nat i))"

definition digit_val :: "nat \<Rightarrow> char \<Rightarrow> nat option" where
  "digit_val base c = (let n = (of_char c :: nat);
       d = (if 48 \<le> n \<and> n \<le> 57 then n - 48
            else if 97 \<le> n \<and> n \<le> 122 then n - 87
            else if 65 \<le> n \<and> n \<le> 90 then n - 55 else 99)
     in if d < base then Some d else None)"

text \<open>Digits with single underscores between them; \<open>p\<close> says that the last character was a digit.\<close>

fun digits_us :: "nat \<Rightarrow> bool \<Rightarrow> nat \<Rightarrow> string \<Rightarrow> nat option" where
  "digits_us base p acc [] = (if p then Some acc else None)"
| "digits_us base p acc (c # cs) =
     (if c = CHR ''_'' then (if p then digits_us base False acc cs else None)
      else case digit_val base c of
             None \<Rightarrow> None
           | Some d \<Rightarrow> digits_us base True (base * acc + d) cs)"

definition strip_hex_prefix :: "nat \<Rightarrow> string \<Rightarrow> string" where
  "strip_hex_prefix base s =
     (if base = 16 \<and> (starts_with ''0x'' s \<or> starts_with ''0X'' s)
      then (case drop 2 s of c # cs \<Rightarrow> if c = CHR ''_'' then cs else c # cs | [] \<Rightarrow> [])
      else s)"

definition py_int_base :: "nat \<Rightarrow> string \<Rightarrow> int option" where
  "py_int_base base s =
     (case py_strip s of
        [] \<Rightarrow> None
      | c # cs \<Rightarrow>
          if c = CHR ''-'' then map_option (\<lambda>n. - int n) (digits_us base False 0 (strip_hex_prefix base cs))
          else if c = CHR ''+'' then map_option int (digits_us base False 0 (strip_hex_prefix base cs))
          else map_option int (digits_us base False 0 (strip_hex_prefix base (c # cs))))"

definition py_int :: "string \<Rightarrow> exn + int" where
  "py_int s = (case py_int_base 10 s of None \<Rightarrow> Inl ValueError | Some i \<Rightarrow> Inr i)"

section \<open>Lemmas\<close>

lemma of_char_digit_char [simp]: "d < 10 \<Longrightarrow> (of_char (digit_char d) :: nat) = 48 + d"
  by (simp add: digit_char_def)

lemma digit_char_ascii [simp]: "d < 10 \<Longrightarrow> is_ascii_digit (digit_char d)"
  by (simp add: is_ascii_digit_def)

lemma digit_val_digit_char [simp]: "d < 10 \<Longrightarrow> digit_val 10 (digit_char d) = Some d"
  by (simp add: digit_val_def Let_def)

lemma ascii_digit_not_special:
  assumes "is_ascii_digit c"
  shows "c \<noteq> CHR ''-''" "c \<noteq> CHR ''+''" "c \<noteq> CHR ''_''" "\<not> py_isspace_char c" "c \<noteq> CHR ''.''"
    "c \<noteq> CHR 0x22" "c \<noteq> CHR '':''"
  using assms by (auto simp: is_ascii_digit_def py_isspace_char_def Let_def)

lemma nat_str_nonempty [simp]: "nat_str n \<noteq> []"
  by (subst nat_str.simps) simp

lemma nat_str_digits: "c \<in> set (nat_str n) \<Longrightarrow> is_ascii_digit c"
proof (induction n rule: nat_str.induct)
  case (1 n)
  show ?case
  proof (cases "n < 10")
    case True
    with "1.prems" show ?thesis by (simp add: nat_str.simps [of n])
  next
    case False
    with 1 show ?thesis by (auto simp: nat_str.simps [of n])
  qed
qed

lemma digits_us_append_digit:
  assumes "digits_us 10 p acc s = Some n" and "s \<noteq> []" and "d < 10"
    and "\<And>c. c \<in> set s \<Longrightarrow> is_ascii_digit c"
  shows "digits_us 10 p acc (s @ [digit_char d]) = Some (10 * n + d)"
  using assms
proof (induction s arbitrary: p acc)
  case Nil
  then show ?case by simp
next
  case (Cons c cs)
  have c: "c \<noteq> CHR ''_''" using Cons.prems(4)[of c] ascii_digit_not_special by auto
  have dc: "digit_char d \<noteq> CHR ''_''"
    using Cons.prems(3) digit_char_ascii ascii_digit_not_special by blast
  show ?case
  proof (cases cs)
    case Nil
    with Cons.prems c dc show ?thesis by (auto split: option.splits if_splits)
  next
    case (Cons c' cs')
    from Cons.prems(1) c obtain x where x: "digit_val 10 c = Some x"
      and n: "digits_us 10 True (10 * acc + x) cs = Some n"
      by (auto split: option.splits)
    have "digits_us 10 True (10 * acc + x) (cs @ [digit_char d]) = Some (10 * n + d)"
      using n Cons Cons.prems(3,4) by (intro Cons.IH) auto
    with c x show ?thesis by simp
  qed
qed

lemma digits_us_nat_str: "digits_us 10 p 0 (nat_str n) = Some n"
proof (induction n rule: nat_str.induct)
  case (1 n)
  show ?case
  proof (cases "n < 10")
    case True
    then have "digit_char n \<noteq> CHR ''_''"
      using digit_char_ascii ascii_digit_not_special by blast
    with True show ?thesis by (simp add: nat_str.simps [of n])
  next
    case False
    then have "digits_us 10 p 0 (nat_str (n div 10)) = Some (n div 10)" using 1 by simp
    then have "digits_us 10 p 0 (nat_str (n div 10) @ [digit_char (n mod 10)]) =
        Some (10 * (n div 10) + n mod 10)"
      by (rule digits_us_append_digit) (auto dest: nat_str_digits)
    with False show ?thesis by (simp add: nat_str.simps [of n])
  qed
qed

lemma dropWhile_hd: "xs \<noteq> [] \<Longrightarrow> \<not> p (hd xs) \<Longrightarrow> dropWhile p xs = xs"
  by (cases xs) auto

lemma strip_with_id:
  "(s \<noteq> [] \<Longrightarrow> \<not> p (hd s) \<and> \<not> p (last s)) \<Longrightarrow> strip_with p s = s"
  by (cases "s = []") (auto simp: strip_with_def dropWhile_hd hd_rev)

lemma int_str_nonempty [simp]: "int_str i \<noteq> []"
  by (simp add: int_str_def)

lemma int_str_no_space: "c \<in> set (int_str i) \<Longrightarrow> \<not> py_isspace_char c"
  by (auto simp: int_str_def py_isspace_char_def Let_def dest!: nat_str_digits split: if_splits)
     (auto simp: is_ascii_digit_def)

lemma strip_with_ends:
  assumes "strip_with p s \<noteq> []"
  shows "\<not> p (hd (strip_with p s))" "\<not> p (last (strip_with p s))"
proof -
  let ?d = "dropWhile p s"
  have r: "rev (strip_with p s) = dropWhile p (rev ?d)" by (simp add: strip_with_def)
  then have ne: "dropWhile p (rev ?d) \<noteq> []" using assms by (metis rev_is_Nil_conv)
  show "\<not> p (last (strip_with p s))"
    using hd_dropWhile [OF ne] unfolding r [symmetric] by (simp add: hd_rev assms)
  have d: "?d \<noteq> []" using ne by (metis dropWhile.simps(1) rev.simps(1))
  have "?d = rev (takeWhile p (rev ?d) @ dropWhile p (rev ?d))" by simp
  then have "?d = strip_with p s @ rev (takeWhile p (rev ?d))" by (simp only: rev_append r [symmetric] rev_rev_ident)
  then have "hd ?d = hd (strip_with p s)" using assms by (metis hd_append2)
  then show "\<not> p (hd (strip_with p s))" using hd_dropWhile [OF d] by simp
qed

lemma strip_with_idem [simp]: "strip_with p (strip_with p s) = strip_with p s"
  by (rule strip_with_id) (use strip_with_ends in blast)

lemma py_strip_idem [simp]: "py_strip (py_strip s) = py_strip s"
  by (simp add: py_strip_def)

lemma py_strip_int_str [simp]: "py_strip (int_str i) = int_str i"
  unfolding py_strip_def
  by (rule strip_with_id) (simp add: int_str_no_space [of _ i])

lemma nat_str_hd: "is_ascii_digit (hd (nat_str n))"
  by (rule nat_str_digits [of _ n]) simp

lemma py_int_int_str [simp]: "py_int (int_str i) = Inr i"
proof (cases "i < 0")
  case True
  then have strip: "py_strip (int_str i) = CHR ''-'' # nat_str (nat (- i))"
    by (simp only: py_strip_int_str) (simp add: int_str_def)
  have "py_int_base 10 (int_str i) = Some i"
    using True digits_us_nat_str [of False "nat (- i)"]
    unfolding py_int_base_def strip by (simp add: strip_hex_prefix_def)
  then show ?thesis by (simp add: py_int_def)
next
  case False
  then obtain c cs where n: "nat_str (nat i) = c # cs" by (cases "nat_str (nat i)") auto
  then have "is_ascii_digit c" using nat_str_hd [of "nat i"] by simp
  then have "c \<noteq> CHR ''-''" "c \<noteq> CHR ''+''" using ascii_digit_not_special by blast+
  moreover have strip: "py_strip (int_str i) = c # cs"
    using False n by (simp only: py_strip_int_str) (simp add: int_str_def)
  ultimately have "py_int_base 10 (int_str i) = Some i"
    using False digits_us_nat_str [of False "nat i"] n
    unfolding py_int_base_def strip by (simp add: strip_hex_prefix_def)
  then show ?thesis by (simp add: py_int_def)
qed

lemma int_str_inj: "int_str i = int_str j \<longleftrightarrow> i = j"
  by (metis py_int_int_str sum.inject(2))

lemma starts_with_append [simp]: "starts_with p (p @ s)"
  by (simp add: starts_with_def)

lemma starts_with_iff: "starts_with p s \<longleftrightarrow> (\<exists>t. s = p @ t)"
  by (auto simp: starts_with_def) (metis append_take_drop_id)

lemma py_take_nonneg: "0 \<le> n \<Longrightarrow> py_take n xs = take (nat n) xs"
  by (simp add: py_take_def slice_index_def min_def)

lemma set_py_take: "set (py_take n xs) \<subseteq> set xs"
  by (simp add: py_take_def set_take_subset)

lemma length_py_take: "0 \<le> n \<Longrightarrow> length (py_take n xs) \<le> nat n"
  by (simp add: py_take_nonneg)

lemma dropWhile_neq_notin: "x \<notin> set s \<Longrightarrow> dropWhile (\<lambda>c. c \<noteq> x) s = []"
  by (induction s) auto

lemma takeWhile_neq_sep: "x \<notin> set s \<Longrightarrow> takeWhile (\<lambda>c. c \<noteq> x) (s @ x # r) = s"
  by (induction s) auto

lemma dropWhile_neq_sep: "x \<notin> set s \<Longrightarrow> dropWhile (\<lambda>c. c \<noteq> x) (s @ x # r) = x # r"
  by (induction s) auto

lemma split_max_no_sep: "x \<notin> set s \<Longrightarrow> split_max n x s = [s]"
  by (cases n) (simp_all add: dropWhile_neq_notin)

lemma split_max_sep: "x \<notin> set s \<Longrightarrow> split_max (Suc n) x (s @ x # r) = s # split_max n x r"
  by (simp only: split_max.simps dropWhile_neq_sep takeWhile_neq_sep list.case simp_thms)

end
