(* ===== verification/Py_Datetime.thy ===== *)
theory Py_Datetime
  imports Py_Text Complex_Main "HOL-Library.Monad_Syntax"
begin

text \<open>
  Python \<^verbatim>\<open>datetime\<close> values as the job store uses them: the calendar fields, and the UTC offset
  in minutes for an aware value (\<open>None\<close> for a naive one, as \<^verbatim>\<open>datetime.utcnow()\<close> returns).
  \<open>isoformat\<close> prints as CPython does (the microseconds are left out when they are 0) and
  \<open>fromisoformat\<close> reads exactly the shapes \<open>isoformat\<close> writes, validating every field. Time
  differences go through the proleptic Gregorian day count of \<^verbatim>\<open>date.toordinal\<close>, in
  microseconds; seconds are rationals.
\<close>

record datetime =
  dt_year :: nat
  dt_month :: nat
  dt_day :: nat
  dt_hour :: nat
  dt_minute :: nat
  dt_second :: nat
  dt_micro :: nat
  dt_offset :: "int option"

definition is_leap :: "nat \<Rightarrow> bool" where
  "is_leap y \<longleftrightarrow> y mod 4 = 0 \<and> (y mod 100 \<noteq> 0 \<or> y mod 400 = 0)"

definition days_in_month :: "nat \<Rightarrow> nat \<Rightarrow> nat" where
  "days_in_month y m =
     (if m = 2 then (if is_leap y then 29 else 28)
      else if m \<in> {4, 6, 9, 11} then 30 else 31)"

definition dt_valid :: "datetime \<Rightarrow> bool" where
  "dt_valid d \<longleftrightarrow>
     1 \<le> dt_year d \<and> dt_year d \<le> 9999 \<and> 1 \<le> dt_month d \<and> dt_month d \<le> 12 \<and>
     1 \<le> dt_day d \<and> dt_day d \<le> days_in_month (dt_year d) (dt_month d) \<and>
     dt_hour d < 24 \<and> dt_minute d < 60 \<and> dt_second d < 60 \<and> dt_micro d < 1000000 \<and>
     (case dt_offset d of None \<Rightarrow> True | Some z \<Rightarrow> \<bar>z\<bar> < 1440)"

definition days_before_year :: "nat \<Rightarrow> nat" where
  "days_before_year y = (y - 1) * 365 + (y - 1) div 4 - (y - 1) div 100 + (y - 1) div 400"

definition days_before_month :: "nat \<Rightarrow> nat \<Rightarrow> nat" where
  "days_before_month y m = sum_list (map (days_in_month y) [1..<m])"

definition toordinal :: "datetime \<Rightarrow> nat" where
  "toordinal d = days_before_year (dt_year d) + days_before_month (dt_year d) (dt_month d) + dt_day d"

text \<open>Microseconds since 0001-01-01 minus one day; an aware value is moved to UTC.\<close>

definition dt_micros :: "datetime \<Rightarrow> int" where
  "dt_micros d =
     ((int (toordinal d) * 24 + int (dt_hour d)) * 60 + int (dt_minute d) -
       (case dt_offset d of None \<Rightarrow> 0 | Some z \<Rightarrow> z)) * 60000000
     + int (dt_second d) * 1000000 + int (dt_micro d)"

definition total_seconds :: "int \<Rightarrow> rat" where
  "total_seconds us = of_int us / 1000000"

text \<open>\<^verbatim>\<open>x.replace(tzinfo=timezone.utc)\<close>, applied by the code to naive values only.\<close>

definition assume_utc :: "datetime \<Rightarrow> datetime" where
  "assume_utc d = (case dt_offset d of None \<Rightarrow> d\<lparr>dt_offset := Some 0\<rparr> | Some _ \<Rightarrow> d)"

definition epoch :: datetime where
  "epoch = \<lparr>dt_year = 1970, dt_month = 1, dt_day = 1, dt_hour = 0, dt_minute = 0, dt_second = 0, dt_micro = 0, dt_offset = None\<rparr>"

section \<open>Printing and parsing\<close>

fun pad :: "nat \<Rightarrow> nat \<Rightarrow> string" where
  "pad 0 n = []"
| "pad (Suc k) n = pad k (n div 10) @ [digit_char (n mod 10)]"

definition iso_offset :: "int option \<Rightarrow> string" where
  "iso_offset z =
     (case z of
        None \<Rightarrow> []
      | Some m \<Rightarrow> (if m < 0 then ''-'' else ''+'') @ pad 2 (nat \<bar>m\<bar> div 60) @ '':'' @ pad 2 (nat \<bar>m\<bar> mod 60))"

definition isoformat :: "datetime \<Rightarrow> string" where
  "isoformat d =
     pad 4 (dt_year d) @ ''-'' @ pad 2 (dt_month d) @ ''-'' @ pad 2 (dt_day d) @ ''T'' @
     pad 2 (dt_hour d) @ '':'' @ pad 2 (dt_minute d) @ '':'' @ pad 2 (dt_second d) @
     (if dt_micro d = 0 then [] else ''.'' @ pad 6 (dt_micro d)) @ iso_offset (dt_offset d)"

definition p_digits :: "nat \<Rightarrow> string \<Rightarrow> (nat \<times> string) option" where
  "p_digits k s =
     (if k \<le> length s \<and> list_all is_ascii_digit (take k s)
      then map_option (\<lambda>n. (n, drop k s)) (digits_us 10 False 0 (take k s)) else None)"

definition p_char :: "char \<Rightarrow> string \<Rightarrow> string option" where
  "p_char c s = (case s of [] \<Rightarrow> None | d # ds \<Rightarrow> if d = c then Some ds else None)"

definition p_micro :: "string \<Rightarrow> (nat \<times> string) option" where
  "p_micro s =
     (case s of
        [] \<Rightarrow> Some (0, [])
      | c # cs \<Rightarrow> if c = CHR ''.'' then p_digits 6 cs else Some (0, s))"

definition p_offset :: "string \<Rightarrow> int option option" where
  "p_offset s =
     (case s of
        [] \<Rightarrow> Some None
      | c # cs \<Rightarrow>
          if c = CHR ''+'' \<or> c = CHR ''-'' then
            do { (h, r) \<leftarrow> p_digits 2 cs; r \<leftarrow> p_char CHR '':'' r; (m, r) \<leftarrow> p_digits 2 r;
                 if r = [] \<and> m < 60
                 then Some (Some (if c = CHR ''-'' then - int (h * 60 + m) else int (h * 60 + m)))
                 else None }
          else None)"

definition p_datetime :: "string \<Rightarrow> datetime option" where
  "p_datetime s =
     do { (y, s) \<leftarrow> p_digits 4 s; s \<leftarrow> p_char CHR ''-'' s; (mo, s) \<leftarrow> p_digits 2 s; s \<leftarrow> p_char CHR ''-'' s;
          (d, s) \<leftarrow> p_digits 2 s; s \<leftarrow> p_char CHR ''T'' s; (h, s) \<leftarrow> p_digits 2 s; s \<leftarrow> p_char CHR '':'' s;
          (mi, s) \<leftarrow> p_digits 2 s; s \<leftarrow> p_char CHR '':'' s; (sec, s) \<leftarrow> p_digits 2 s;
          (us, s) \<leftarrow> p_micro s; z \<leftarrow> p_offset s;
          Some \<lparr>dt_year = y, dt_month = mo, dt_day = d, dt_hour = h, dt_minute = mi, dt_second = sec,
                dt_micro = us, dt_offset = z\<rparr> }"

definition fromisoformat :: "string \<Rightarrow> exn + datetime" where
  "fromisoformat s =
     (case p_datetime s of
        None \<Rightarrow> Inl ValueError
      | Some d \<Rightarrow> if dt_valid d then Inr d else Inl ValueError)"

section \<open>Round trip\<close>

lemma length_pad [simp]: "length (pad k n) = k"
  by (induction k arbitrary: n) auto

lemma pad_digits: "c \<in> set (pad k n) \<Longrightarrow> is_ascii_digit c"
  by (induction k arbitrary: n) auto

lemma digits_us_pad: "0 < k \<Longrightarrow> n < 10 ^ k \<Longrightarrow> digits_us 10 False 0 (pad k n) = Some n"
proof (induction k arbitrary: n)
  case 0
  then show ?case by simp
next
  case (Suc k)
  show ?case
  proof (cases "k = 0")
    case True
    then have n: "n < 10" using Suc.prems by simp
    then have "digit_char n \<noteq> CHR ''_''" using digit_char_ascii ascii_digit_not_special by blast
    with True n show ?thesis by simp
  next
    case False
    have "digits_us 10 False 0 (pad k (n div 10)) = Some (n div 10)"
      using Suc False by (auto simp: less_mult_imp_div_less mult.commute)
    then have "digits_us 10 False 0 (pad k (n div 10) @ [digit_char (n mod 10)]) =
        Some (10 * (n div 10) + n mod 10)"
      using False by (intro digits_us_append_digit) (auto dest: pad_digits simp flip: length_greater_0_conv)
    then show ?thesis by simp
  qed
qed

lemma p_digits_pad: "0 < k \<Longrightarrow> n < 10 ^ k \<Longrightarrow> p_digits k (pad k n @ r) = Some (n, r)"
  by (auto simp: p_digits_def digits_us_pad list_all_iff dest: pad_digits)

lemma p_char_Cons [simp]: "p_char c (c # s) = Some s"
  by (simp add: p_char_def)

lemma p_offset_iso:
  assumes "case z of None \<Rightarrow> True | Some m \<Rightarrow> \<bar>m\<bar> < 1440"
  shows "p_offset (iso_offset z) = Some z"
proof (cases z)
  case None
  then show ?thesis by (simp add: p_offset_def iso_offset_def)
next
  case (Some m)
  let ?n = "nat \<bar>m\<bar>"
  have b: "?n div 60 < 10 ^ 2" "?n mod 60 < 10 ^ 2" using assms Some by auto
  have "p_digits 2 (pad 2 (?n div 60) @ r) = Some (?n div 60, r)" for r
    by (rule p_digits_pad) (use b in auto)
  moreover have "p_digits 2 (pad 2 (?n mod 60)) = Some (?n mod 60, [])"
    using p_digits_pad [of 2 "?n mod 60" "[]"] b by simp
  moreover have "int (?n div 60 * 60 + ?n mod 60) = \<bar>m\<bar>" by simp
  ultimately show ?thesis
    using Some unfolding p_offset_def iso_offset_def by (cases "m < 0") (auto simp del: pad.simps)
qed

lemma iso_offset_hd: "iso_offset z = [] \<or> hd (iso_offset z) \<noteq> CHR ''.''"
  by (auto simp: iso_offset_def split: option.split)

lemma p_micro_iso:
  assumes "us < 1000000" and "r = [] \<or> hd r \<noteq> CHR ''.''"
  shows "p_micro ((if us = 0 then [] else ''.'' @ pad 6 us) @ r) = Some (us, r)"
proof (cases "us = 0")
  case True
  then show ?thesis using assms(2) by (cases r) (auto simp: p_micro_def)
next
  case False
  then show ?thesis
    using p_digits_pad [of 6 us r] assms by (simp add: p_micro_def del: pad.simps)
qed

text \<open>Reading a printed datetime with a suffix comes down to reading the suffix as an offset.\<close>

lemma p_datetime_suffix:
  assumes "dt_valid d" and "dt_offset d = None" and "r = [] \<or> hd r \<noteq> CHR ''.''"
  shows "p_datetime (isoformat d @ r) = map_option (\<lambda>z. d\<lparr>dt_offset := z\<rparr>) (p_offset r)"
proof -
  have dm: "days_in_month y m < 10 ^ 2" for y m by (simp add: days_in_month_def)
  have b: "dt_year d < 10 ^ 4" "dt_month d < 10 ^ 2" "dt_hour d < 10 ^ 2"
      "dt_minute d < 10 ^ 2" "dt_second d < 10 ^ 2" "dt_micro d < 1000000"
    and day: "dt_day d < 10 ^ 2"
    using assms(1) dm [of "dt_year d" "dt_month d"] unfolding dt_valid_def by auto
  have off: "iso_offset (dt_offset d) = []" by (simp add: assms(2) iso_offset_def)
  note mi = p_micro_iso [OF b(6) assms(3)]
  show ?thesis
    unfolding p_datetime_def isoformat_def off
    by (simp add: p_digits_pad b day mi del: pad.simps power_numeral split: Option.bind_split)
qed

lemma fromisoformat_isoformat:
  assumes "dt_valid d"
  shows "fromisoformat (isoformat d) = Inr d"
proof -
  have off: "p_offset (iso_offset (dt_offset d)) = Some (dt_offset d)"
    using assms by (intro p_offset_iso) (simp add: dt_valid_def)
  have "isoformat d = isoformat (d\<lparr>dt_offset := None\<rparr>) @ iso_offset (dt_offset d)"
    by (simp add: isoformat_def iso_offset_def [of None] del: pad.simps)
  moreover have "dt_valid (d\<lparr>dt_offset := None\<rparr>)" using assms by (simp add: dt_valid_def)
  ultimately have "p_datetime (isoformat d) = Some d"
    using p_datetime_suffix [of "d\<lparr>dt_offset := None\<rparr>", OF _ _ iso_offset_hd] off by simp
  then show ?thesis using assms by (simp add: fromisoformat_def)
qed

end
