(* ===== verification/App_Settings.thy ===== *)
theory App_Settings
  imports Complex_Main
begin

text \<open>
  The fields of \<^verbatim>\<open>app.core.config.Settings\<close> that the modelled code reads. The settings object is
  cached by \<^verbatim>\<open>get_settings()\<close> and never changes, so the model passes it as an argument. Floats of
  the configuration are rationals. \<open>or_default v d\<close> is the idiom \<^verbatim>\<open>getattr(settings, name, d) or d\<close>
  for a numeric field: a zero value falls back to the default.
\<close>

record settings =
  features_max_geometry_bytes :: int
  bulk_upload_session_ttl_seconds :: int
  bulk_copy_ingest_enabled :: bool
  bulk_finalize_queue_enabled :: bool
  bulk_finalize_retry_base_seconds :: rat
  bulk_finalize_retry_max_seconds :: rat
  bulk_job_stale_seconds :: rat
  bulk_watchdog_fail_stale_running :: "bool option"
  bulk_finalize_stale_seconds :: rat
  bulk_finalize_duplicate_give_up_attempts :: int
  bulk_running_recover_staging_seconds :: rat
  bulk_job_pending_stale_seconds :: rat
  bulk_collection_mutex_ttl_seconds :: int
  bulk_queue_type :: string
  redis_retry_base_seconds :: rat
  redis_retry_max_seconds :: rat
  redis_retry_enqueue_max_attempts :: int
  redis_retry_read_max_attempts :: int
  process_queue_type :: string
  tiles_dynamic_cache_ttl_seconds :: int
  tiles_dynamic_cache_with_params :: bool
  tiles_dynamic_cache_params_ttl_seconds :: int
  tiles_dynamic_max_concurrent :: int
  tiles_dynamic_gate_wait_seconds :: rat
  tiles_dynamic_queue_max_jobs :: int
  tiles_dynamic_queue_job_max_age_seconds :: rat
  tiles_search_result_cache_ttl_seconds :: int
  collections_items_cache_ttl_seconds :: int
  items_list_max_concurrent :: int
  items_list_gate_wait_seconds :: rat
  titiler_retry_max_attempts :: int
  titiler_retry_base_seconds :: rat
  titiler_retry_max_seconds :: rat
  titiler_upstream_max_concurrent :: int
  stac_search_cache_ttl_seconds :: int
  bulk_extent_update_mode :: string
  bulk_skip_features_touch_trigger :: bool
  bulk_db_retry_max_attempts :: int
  bulk_auto_tile_build_collections :: string
  features_subdivide_max_vertices :: int
  bulk_replace_shadow_import :: bool
  composite_tiles_cache_ttl_seconds :: int
  raster_storage_path :: string
  titiler_tile_cache_ttl_seconds :: int
  titiler_tile_cache_max_body_bytes :: int
  mosaic_job_heartbeat_seconds :: int
  mosaic_worker_max_concurrent :: int
  mosaic_stac_initial_split_threshold_degrees :: rat
  mosaic_stac_initial_split_grid :: int
  mosaic_stac_fetch_limit :: int
  mosaic_stac_max_split_depth :: int
  mosaic_stac_min_bbox_degrees :: rat
  mosaic_stac_max_bbox_tasks_per_round :: int
  mosaic_stac_large_bbox_limit :: int
  mosaic_void_fill_max_rounds :: int
  mosaic_void_pinpoint_max_parts :: int
  mosaic_void_fill_min_uncovered :: rat
  mosaic_same_pass_num_strips :: int
  mosaic_greedy_min_marginal_coverage_fraction :: rat
  mosaic_footprint_max_items :: int
  mosaic_footprint_distributed_enabled :: bool
  mosaic_footprint_distributed_wave :: int
  mosaic_footprint_subjob_worker_concurrency :: int
  mosaic_subjob_queue_enabled :: bool
  mosaic_subjob_worker_concurrency :: int
  mosaic_subjob_consume_subtasks_while_parent_active :: bool
  mosaic_subjob_bbox_datetime_parallelism :: int
  mosaic_subjob_result_ttl_seconds :: int
  mosaic_parent_fail_on_partial :: bool
  mosaic_queue_type :: string

definition default_settings :: settings where
  "default_settings = \<lparr>
     features_max_geometry_bytes = 50 * 1024 * 1024,
     bulk_upload_session_ttl_seconds = 86400,
     bulk_copy_ingest_enabled = True,
     bulk_finalize_queue_enabled = True,
     bulk_finalize_retry_base_seconds = 2,
     bulk_finalize_retry_max_seconds = 120,
     bulk_job_stale_seconds = 14400,
     bulk_watchdog_fail_stale_running = None,
     bulk_finalize_stale_seconds = 86400,
     bulk_finalize_duplicate_give_up_attempts = 3,
     bulk_running_recover_staging_seconds = 600,
     bulk_job_pending_stale_seconds = 600,
     bulk_collection_mutex_ttl_seconds = 86400 * 2,
     bulk_queue_type = ''redis'',
     redis_retry_base_seconds = 1,
     redis_retry_max_seconds = 30,
     redis_retry_enqueue_max_attempts = 5,
     redis_retry_read_max_attempts = 20,
     process_queue_type = ''redis'',
     tiles_dynamic_cache_ttl_seconds = 60,
     tiles_dynamic_cache_with_params = True,
     tiles_dynamic_cache_params_ttl_seconds = 60,
     tiles_dynamic_max_concurrent = 8,
     tiles_dynamic_gate_wait_seconds = 5,
     tiles_dynamic_queue_max_jobs = 512,
     tiles_dynamic_queue_job_max_age_seconds = 30,
     tiles_search_result_cache_ttl_seconds = 60,
     collections_items_cache_ttl_seconds = 600,
     items_list_max_concurrent = 3,
     items_list_gate_wait_seconds = 2,
     titiler_retry_max_attempts = 3,
     titiler_retry_base_seconds = 15 / 100,
     titiler_retry_max_seconds = 2,
     titiler_upstream_max_concurrent = 8,
     stac_search_cache_ttl_seconds = 3600,
     bulk_extent_update_mode = ''deferred'',
     bulk_skip_features_touch_trigger = True,
     bulk_db_retry_max_attempts = 4,
     bulk_auto_tile_build_collections = '''',
     features_subdivide_max_vertices = 256,
     bulk_replace_shadow_import = False,
     composite_tiles_cache_ttl_seconds = 3600,
     raster_storage_path = ''/data/rasters'',
     titiler_tile_cache_ttl_seconds = 3600,
     titiler_tile_cache_max_body_bytes = 4 * 1024 * 1024,
     mosaic_job_heartbeat_seconds = 10,
     mosaic_worker_max_concurrent = 1,
     mosaic_stac_initial_split_threshold_degrees = 6,
     mosaic_stac_initial_split_grid = 0,
     mosaic_stac_fetch_limit = 500,
     mosaic_stac_max_split_depth = 2,
     mosaic_stac_min_bbox_degrees = 1 / 2,
     mosaic_stac_max_bbox_tasks_per_round = 64,
     mosaic_stac_large_bbox_limit = 250,
     mosaic_void_fill_max_rounds = 6,
     mosaic_void_pinpoint_max_parts = 16,
     mosaic_void_fill_min_uncovered = 1 / 1000,
     mosaic_same_pass_num_strips = 8,
     mosaic_greedy_min_marginal_coverage_fraction = 5 / 1000,
     mosaic_footprint_max_items = 200,
     mosaic_footprint_distributed_enabled = False,
     mosaic_footprint_distributed_wave = 16,
     mosaic_footprint_subjob_worker_concurrency = 0,
     mosaic_subjob_queue_enabled = False,
     mosaic_subjob_worker_concurrency = 2,
     mosaic_subjob_consume_subtasks_while_parent_active = True,
     mosaic_subjob_bbox_datetime_parallelism = 8,
     mosaic_subjob_result_ttl_seconds = 3600,
     mosaic_parent_fail_on_partial = False,
     mosaic_queue_type = ''redis''\<rparr>"

definition or_default :: "'a::zero \<Rightarrow> 'a \<Rightarrow> 'a" where
  "or_default v d = (if v = 0 then d else v)"

definition uses_redis :: "settings \<Rightarrow> bool" where
  "uses_redis cfg \<longleftrightarrow> bulk_queue_type cfg = ''redis''"

lemma uses_redis_default [simp]: "uses_redis default_settings"
  by (simp add: uses_redis_def default_settings_def)

lemma process_queue_default [simp]: "process_queue_type default_settings = ''redis''"
  by (simp add: default_settings_def)

end
