(* ===== verification/Redis.thy ===== *)
theory Redis
  imports Py_Datetime App_Settings "HOL-Library.AList"
begin

text \<open>
  Redis as the application sees it. The server is a parameter of the model: a function
  \<open>srv\<close> from a request and the server's own state to a reply and the next state, any of whose
  calls may fail. What the code relies on is the documented effect of each command on the key
  space, written as the executable \<open>redis_spec\<close>; the locale \<open>redis_server\<close> says that a
  successful call has exactly that effect on the keys seen through \<open>view\<close> and that a failed one
  either did nothing or had already been applied (the reply was lost). \<open>redis_up\<close> adds that
  calls succeed. \<open>mem_srv\<close> (an association list) and \<open>flaky_srv\<close> (the same, failing a given
  number of times) and \<open>lossy_srv\<close> (the same, losing replies) interpret the two locales.
\<close>

section \<open>Requests, replies and their documented effect\<close>

datatype rval = RString string | RHash "(string \<times> string) list" | RList "string list"

type_synonym rentry = "rval \<times> int option"
type_synonym store = "string \<rightharpoonup> rentry"

datatype rcmd =
    Get string
  | SetV string string "int option" bool
  | Del "string list"
  | Exists string
  | IncrBy string int
  | Expire string int
  | HSet string "(string \<times> string) list"
  | HGet string string
  | HGetAll string
  | HIncrBy string string int
  | LPush string string
  | LTrim string int int
  | LRange string int int
  | LRem string int string
  | LLen string
  | BLPop string
  | RPush string string
  | BRPop "string list"
  | Scan string

datatype rreq = One rcmd | Pipe "rcmd list"

datatype reply =
    RNil
  | ROk
  | RInt int
  | RBulk string
  | RMulti "string list"
  | RMap "(string \<times> string) list"
  | RReplies "reply list"

subsection \<open>Glob patterns\<close>

fun class_scan :: "bool \<Rightarrow> string \<Rightarrow> char \<Rightarrow> bool \<times> string" where
  "class_scan m [] x = (m, [])"
| "class_scan m [c] x = (if c = CHR '']'' then (m, []) else (m \<or> c = x, []))"
| "class_scan m [c, d] x =
     (if c = CHR '']'' then (m, [d])
      else if c = CHR 0x5C then (m \<or> d = x, [])
      else class_scan (m \<or> c = x) [d] x)"
| "class_scan m (c # d # e # r) x =
     (if c = CHR '']'' then (m, d # e # r)
      else if c = CHR 0x5C then class_scan (m \<or> d = x) (e # r) x
      else if d = CHR ''-'' then
        class_scan (m \<or> (min (of_char c) (of_char e) \<le> (of_char x :: nat) \<and>
                         (of_char x :: nat) \<le> max (of_char c) (of_char e))) r x
      else class_scan (m \<or> c = x) (d # e # r) x)"

definition glob_class :: "string \<Rightarrow> char \<Rightarrow> bool \<times> string" where
  "glob_class p x =
     (case p of
        [] \<Rightarrow> (False, [])
      | c # q \<Rightarrow> if c = CHR ''^'' then map_prod Not id (class_scan False q x) else class_scan False p x)"

lemma class_scan_len: "length (snd (class_scan m p x)) \<le> length p"
  by (induction m p x rule: class_scan.induct) (simp_all add: le_SucI)

lemma glob_class_len: "length (snd (glob_class p x)) \<le> length p"
proof (cases p)
  case (Cons c q)
  then show ?thesis
    using class_scan_len [of False q x] class_scan_len [of False p x] by (simp add: glob_class_def)
qed (simp add: glob_class_def)

function glob :: "string \<Rightarrow> string \<Rightarrow> bool" where
  "glob [] s \<longleftrightarrow> s = []"
| "glob (c # p) s \<longleftrightarrow>
     (if c = CHR ''*'' then glob p s \<or> (case s of [] \<Rightarrow> False | _ # t \<Rightarrow> glob (c # p) t)
      else case s of
        [] \<Rightarrow> False
      | x # t \<Rightarrow>
          if c = CHR ''?'' then glob p t
          else if c = CHR ''['' then fst (glob_class p x) \<and> glob (snd (glob_class p x)) t
          else if c = CHR 0x5C then (case p of [] \<Rightarrow> c = x \<and> glob [] t | d # q \<Rightarrow> d = x \<and> glob q t)
          else c = x \<and> glob p t)"
  by pat_completeness auto
termination
  by (relation "measure (\<lambda>(p, s). length p + length s)") (auto simp: less_Suc_eq_le glob_class_len le_SucI)

subsection \<open>List and integer commands\<close>

definition lrange_list :: "int \<Rightarrow> int \<Rightarrow> 'a list \<Rightarrow> 'a list" where
  "lrange_list a b xs =
     (let n = int (length xs);
          i = (if a < 0 then max 0 (n + a) else a);
          j = (if b < 0 then n + b else min b (n - 1))
      in if j < i then [] else take (nat (j - i + 1)) (drop (nat i) xs))"

fun remove_n :: "nat \<Rightarrow> 'a \<Rightarrow> 'a list \<Rightarrow> 'a list" where
  "remove_n n v [] = []"
| "remove_n 0 v xs = xs"
| "remove_n (Suc n) v (x # xs) = (if x = v then remove_n n v xs else x # remove_n (Suc n) v xs)"

definition lrem_list :: "int \<Rightarrow> 'a \<Rightarrow> 'a list \<Rightarrow> 'a list" where
  "lrem_list n v xs =
     (if n = 0 then filter (\<lambda>x. x \<noteq> v) xs
      else if n > 0 then remove_n (nat n) v xs
      else rev (remove_n (nat (- n)) v (rev xs)))"

definition redis_int :: "string \<Rightarrow> int option" where
  "redis_int s = (case py_int_base 10 s of
      None \<Rightarrow> None
    | Some i \<Rightarrow> if int_str i = s \<and> - (2 ^ 63) \<le> i \<and> i < 2 ^ 63 then Some i else None)"

definition add64 :: "int \<Rightarrow> int \<Rightarrow> int option" where
  "add64 i n = (if - (2 ^ 63) \<le> i + n \<and> i + n < 2 ^ 63 then Some (i + n) else None)"

definition as_hash :: "rentry option \<Rightarrow> ((string \<times> string) list \<times> int option) option" where
  "as_hash e = (case e of None \<Rightarrow> Some ([], None) | Some (RHash h, t) \<Rightarrow> Some (h, t) | _ \<Rightarrow> None)"

definition hash_updates :: "(string \<times> string) list \<Rightarrow> (string \<times> string) list \<Rightarrow> (string \<times> string) list" where
  "hash_updates ps h = foldl (\<lambda>m (f, v). AList.update f v m) h ps"

definition as_list :: "rentry option \<Rightarrow> (string list \<times> int option) option" where
  "as_list e = (case e of None \<Rightarrow> Some ([], None) | Some (RList l, t) \<Rightarrow> Some (l, t) | _ \<Rightarrow> None)"

definition as_string :: "rentry option \<Rightarrow> (string option \<times> int option) option" where
  "as_string e = (case e of None \<Rightarrow> Some (None, None) | Some (RString v, t) \<Rightarrow> Some (Some v, t) | _ \<Rightarrow> None)"

definition put_list :: "string \<Rightarrow> string list \<Rightarrow> int option \<Rightarrow> (string \<times> rentry option) list" where
  "put_list k l t = [(k, if l = [] then None else Some (RList l, t))]"

subsection \<open>The specification\<close>

type_synonym effect = "(exn + reply) \<times> (string \<times> rentry option) list"

definition wrong :: effect where
  "wrong = (Inl RedisError, [])"

definition spec_incr :: "string \<Rightarrow> int \<Rightarrow> store \<Rightarrow> effect" where
  "spec_incr k n st =
     (case as_string (st k) of
        None \<Rightarrow> wrong
      | Some (v, t) \<Rightarrow>
          (case (case v of None \<Rightarrow> Some 0 | Some s \<Rightarrow> redis_int s) of
             None \<Rightarrow> wrong
           | Some i \<Rightarrow> (case add64 i n of
                None \<Rightarrow> wrong
              | Some j \<Rightarrow> (Inr (RInt j), [(k, Some (RString (int_str j), t))]))))"

definition spec_hincr :: "string \<Rightarrow> string \<Rightarrow> int \<Rightarrow> store \<Rightarrow> effect" where
  "spec_hincr k f n st =
     (case as_hash (st k) of
        None \<Rightarrow> wrong
      | Some (h, t) \<Rightarrow>
          (case (case map_of h f of None \<Rightarrow> Some 0 | Some s \<Rightarrow> redis_int s) of
             None \<Rightarrow> wrong
           | Some i \<Rightarrow> (case add64 i n of
                None \<Rightarrow> wrong
              | Some j \<Rightarrow> (Inr (RInt j), [(k, Some (RHash (AList.update f (int_str j) h), t))]))))"

text \<open>BRPOP looks at its keys in order and takes from the first list that has an entry.\<close>

fun spec_brpop :: "string list \<Rightarrow> store \<Rightarrow> effect" where
  "spec_brpop [] st = (Inr RNil, [])"
| "spec_brpop (k # ks) st =
     (case as_list (st k) of None \<Rightarrow> wrong
      | Some (l, t) \<Rightarrow> (if l = [] then spec_brpop ks st else (Inr (RMulti [k, last l]), put_list k (butlast l) t)))"

lemma spec_brpop_error: "fst (spec_brpop ks st) = Inl e \<Longrightarrow> e = RedisError \<and> snd (spec_brpop ks st) = []"
  by (induction ks) (auto simp: wrong_def split: option.splits if_splits)

fun spec1 :: "rcmd \<Rightarrow> store \<Rightarrow> effect" where
  "spec1 (Get k) st =
     (case as_string (st k) of None \<Rightarrow> wrong
      | Some (v, _) \<Rightarrow> (Inr (case v of None \<Rightarrow> RNil | Some s \<Rightarrow> RBulk s), []))"
| "spec1 (SetV k v ex nx) st =
     (if (case ex of None \<Rightarrow> False | Some t \<Rightarrow> t \<le> 0) then wrong
      else if nx \<and> st k \<noteq> None then (Inr RNil, [])
      else (Inr ROk, [(k, Some (RString v, ex))]))"
| "spec1 (Del ks) st =
     (Inr (RInt (int (length (filter (\<lambda>k. st k \<noteq> None) (remdups ks))))), map (\<lambda>k. (k, None)) ks)"
| "spec1 (Exists k) st = (Inr (RInt (if st k = None then 0 else 1)), [])"
| "spec1 (IncrBy k n) st = spec_incr k n st"
| "spec1 (Expire k t) st =
     (case st k of
        None \<Rightarrow> (Inr (RInt 0), [])
      | Some (v, _) \<Rightarrow> (Inr (RInt 1), [(k, if t \<le> 0 then None else Some (v, Some t))]))"
| "spec1 (HSet k ps) st =
     (if ps = [] then wrong
      else case as_hash (st k) of
        None \<Rightarrow> wrong
      | Some (h, t) \<Rightarrow>
          (Inr (RInt (int (length (filter (\<lambda>f. map_of h f = None) (remdups (map fst ps)))))),
           [(k, Some (RHash (hash_updates ps h), t))]))"
| "spec1 (HGet k f) st =
     (case as_hash (st k) of None \<Rightarrow> wrong
      | Some (h, _) \<Rightarrow> (Inr (case map_of h f of None \<Rightarrow> RNil | Some v \<Rightarrow> RBulk v), []))"
| "spec1 (HGetAll k) st =
     (case as_hash (st k) of None \<Rightarrow> wrong | Some (h, _) \<Rightarrow> (Inr (RMap h), []))"
| "spec1 (HIncrBy k f n) st = spec_hincr k f n st"
| "spec1 (LPush k v) st =
     (case as_list (st k) of None \<Rightarrow> wrong
      | Some (l, t) \<Rightarrow> (Inr (RInt (int (length l) + 1)), [(k, Some (RList (v # l), t))]))"
| "spec1 (LTrim k a b) st =
     (case as_list (st k) of None \<Rightarrow> wrong
      | Some (l, t) \<Rightarrow> (Inr ROk, put_list k (lrange_list a b l) t))"
| "spec1 (LRange k a b) st =
     (case as_list (st k) of None \<Rightarrow> wrong
      | Some (l, _) \<Rightarrow> (Inr (RMulti (lrange_list a b l)), []))"
| "spec1 (LRem k n v) st =
     (case as_list (st k) of None \<Rightarrow> wrong
      | Some (l, t) \<Rightarrow>
          (Inr (RInt (int (length l) - int (length (lrem_list n v l)))), put_list k (lrem_list n v l) t))"
| "spec1 (LLen k) st =
     (case as_list (st k) of None \<Rightarrow> wrong | Some (l, _) \<Rightarrow> (Inr (RInt (int (length l))), []))"
| "spec1 (BLPop k) st =
     (case as_list (st k) of None \<Rightarrow> wrong
      | Some (l, t) \<Rightarrow> (case l of [] \<Rightarrow> (Inr RNil, []) | x # xs \<Rightarrow> (Inr (RBulk x), put_list k xs t)))"
| "spec1 (RPush k v) st =
     (case as_list (st k) of None \<Rightarrow> wrong
      | Some (l, t) \<Rightarrow> (Inr (RInt (int (length l) + 1)), [(k, Some (RList (l @ [v]), t))]))"
| "spec1 (BRPop ks) st = spec_brpop ks st"
| "spec1 (Scan p) st = (Inr RNil, [])"

definition apply_writes :: "(string \<times> rentry option) list \<Rightarrow> store \<Rightarrow> store" where
  "apply_writes ws st = foldl (\<lambda>m (k, e). m(k := e)) st ws"

fun spec_pipe :: "rcmd list \<Rightarrow> store \<Rightarrow> (exn + reply list) \<times> (string \<times> rentry option) list" where
  "spec_pipe [] st = (Inr [], [])"
| "spec_pipe (c # cs) st =
     (let (r, ws) = spec1 c st; (rs, ws') = spec_pipe cs (apply_writes ws st)
      in ((case r of Inl e \<Rightarrow> Inl e | Inr v \<Rightarrow> (case rs of Inl e \<Rightarrow> Inl e | Inr vs \<Rightarrow> Inr (v # vs))), ws @ ws'))"

definition redis_spec :: "rreq \<Rightarrow> store \<Rightarrow> effect" where
  "redis_spec q st =
     (case q of
        One c \<Rightarrow> spec1 c st
      | Pipe cs \<Rightarrow> (case spec_pipe cs st of (Inl e, ws) \<Rightarrow> (Inl e, ws) | (Inr vs, ws) \<Rightarrow> (Inr (RReplies vs), ws)))"

definition after :: "rreq \<Rightarrow> store \<Rightarrow> store" where
  "after q st = apply_writes (snd (redis_spec q st)) st"

text \<open>Which replies a successful call may give: SCAN enumerates the matching keys in no
  particular order, possibly with repetitions; every other reply is determined.\<close>

definition reply_for :: "rreq \<Rightarrow> store \<Rightarrow> reply \<Rightarrow> bool" where
  "reply_for q st v =
     (case q of
        One (Scan p) \<Rightarrow> (case v of RMulti ks \<Rightarrow> set ks = {k. st k \<noteq> None \<and> glob p k} | _ \<Rightarrow> False)
      | _ \<Rightarrow> fst (redis_spec q st) = Inr v)"

lemma map_of_update [simp]: "map_of (AList.update f v h) = (map_of h)(f \<mapsto> v)"
  by (simp add: update_conv')

lemma hash_updates_simps [simp]:
  "hash_updates [] h = h"
  "hash_updates ((f, v) # ps) h = hash_updates ps (AList.update f v h)"
  by (simp_all add: hash_updates_def)

lemma map_of_hash_updates: "map_of (hash_updates ps h) = foldl (\<lambda>m (f, v). m(f \<mapsto> v)) (map_of h) ps"
  by (induction ps arbitrary: h) (auto simp: hash_updates_def)

lemma hash_updates_nonempty [simp]: "ps \<noteq> [] \<Longrightarrow> hash_updates ps h \<noteq> []"
proof (induction ps arbitrary: h)
  case (Cons p ps)
  obtain f v where p: "p = (f, v)" by (cases p)
  have "AList.update f v h \<noteq> []" by (cases h) auto
  then show ?case using Cons.IH p by (cases "ps = []") auto
qed simp

section \<open>The server as a parameter\<close>

type_synonym 's redis = "rreq \<Rightarrow> 's \<Rightarrow> (exn + reply) \<times> 's"

locale redis_server =
  fixes srv :: "'s redis" and view :: "'s \<Rightarrow> store"
  assumes reply_ok: "srv q s = (Inr v, s') \<Longrightarrow> reply_for q (view s) v \<and> view s' = after q (view s)"
    and reply_err: "srv q s = (Inl e, s') \<Longrightarrow> e = RedisError \<and> (view s' = view s \<or> view s' = after q (view s))"

locale redis_up = redis_server +
  assumes answers: "fst (redis_spec q (view s)) = Inr v \<Longrightarrow> \<exists>v' s'. srv q s = (Inr v', s')"

text \<open>Requests whose reply the specification determines.\<close>

definition determined :: "rreq \<Rightarrow> bool" where
  "determined q \<longleftrightarrow> (case q of One (Scan p) \<Rightarrow> False | _ \<Rightarrow> True)"

lemma determined_simps [simp]:
  "\<not> determined (One (Scan p))" "determined (Pipe cs)" "determined (One (Get k))"
  "determined (One (SetV k v ex nx))" "determined (One (Del ks))" "determined (One (Exists k))"
  "determined (One (IncrBy k n))" "determined (One (Expire k n))" "determined (One (HSet k ps))"
  "determined (One (HGet k f))" "determined (One (HGetAll k))" "determined (One (HIncrBy k f n))"
  "determined (One (LPush k v))" "determined (One (LTrim k a b))" "determined (One (LRange k a b))"
  "determined (One (LRem k n v))" "determined (One (LLen k))" "determined (One (BLPop k))"
  "determined (One (RPush k v))" "determined (One (BRPop ks))"
  by (simp_all add: determined_def)

lemma reply_for_determined: "determined q \<Longrightarrow> reply_for q st v \<longleftrightarrow> fst (redis_spec q st) = Inr v"
  by (auto simp: determined_def reply_for_def split: rreq.splits rcmd.splits)

lemma reply_for_scan:
  "reply_for (One (Scan p)) st v \<longleftrightarrow> (\<exists>ks. v = RMulti ks \<and> set ks = {k. st k \<noteq> None \<and> glob p k})"
  by (cases v) (auto simp: reply_for_def)

lemma after_scan [simp]: "after (One (Scan p)) st = st"
  by (simp add: after_def redis_spec_def apply_writes_def)

context redis_server
begin

lemma view_after: "view (snd (srv q s)) = view s \<or> view (snd (srv q s)) = after q (view s)"
proof (cases "fst (srv q s)")
  case (Inl e)
  then have "srv q s = (Inl e, snd (srv q s))" by (simp add: prod_eq_iff)
  then show ?thesis using reply_err by metis
next
  case (Inr v)
  then have "srv q s = (Inr v, snd (srv q s))" by (simp add: prod_eq_iff)
  then show ?thesis using reply_ok by metis
qed

lemma ok_reply: "fst (srv q s) = Inr v \<Longrightarrow> reply_for q (view s) v"
  using reply_ok [of q s v "snd (srv q s)"] by (simp add: prod_eq_iff)

lemma ok_view: "fst (srv q s) = Inr v \<Longrightarrow> view (snd (srv q s)) = after q (view s)"
  using reply_ok [of q s v "snd (srv q s)"] by (simp add: prod_eq_iff)

lemma err_kind: "fst (srv q s) = Inl e \<Longrightarrow> e = RedisError"
  using reply_err [of q s e "snd (srv q s)"] by (simp add: prod_eq_iff)

text \<open>An invariant of the key space that a request's effect keeps is kept by the request,
  answered or not.\<close>

lemma view_keeps: "P (view s) \<Longrightarrow> P (after q (view s)) \<Longrightarrow> P (view (snd (srv q s)))"
  using view_after [of q s] by auto

end

lemma spec1_error: "fst (spec1 c st) = Inl e \<Longrightarrow> e = RedisError"
  by (cases c) (auto simp: spec_brpop_error wrong_def spec_incr_def spec_hincr_def split: option.splits list.splits if_splits)

lemma spec_pipe_error: "fst (spec_pipe cs st) = Inl e \<Longrightarrow> e = RedisError"
  by (induction cs arbitrary: st)
     (auto simp: Let_def split: prod.splits sum.splits dest: spec1_error, (metis fst_conv spec1_error)+)

lemma redis_spec_error: "fst (redis_spec q st) = Inl e \<Longrightarrow> e = RedisError"
  by (cases q) (auto simp: redis_spec_def split: prod.splits sum.splits dest: spec1_error,
      metis fst_conv spec_pipe_error)

context redis_up
begin

lemma up_reply:
  assumes "determined q"
  shows "fst (srv q s) = fst (redis_spec q (view s))"
proof (cases "fst (redis_spec q (view s))")
  case (Inr v)
  then obtain v' s' where srv: "srv q s = (Inr v', s')" using answers by blast
  then have "fst (redis_spec q (view s)) = Inr v'"
    using reply_ok [OF srv] assms by (simp add: reply_for_determined)
  with srv show ?thesis by simp
next
  case (Inl e)
  show ?thesis
  proof (cases "fst (srv q s)")
    case (Inl e')
    then show ?thesis using err_kind redis_spec_error \<open>fst (redis_spec q (view s)) = Inl e\<close> by metis
  next
    case (Inr v')
    then show ?thesis using ok_reply [OF Inr] assms \<open>fst (redis_spec q (view s)) = Inl e\<close>
      by (simp add: reply_for_determined)
  qed
qed

lemma up_view: "fst (redis_spec q (view s)) = Inr v \<Longrightarrow> view (snd (srv q s)) = after q (view s)"
  using answers ok_view by (metis fst_conv)

lemma up_view':
  "\<not> isl (fst (redis_spec q (view s))) \<Longrightarrow> view (snd (srv q s)) = after q (view s)"
  using up_view by (metis isl_def sum.exhaust_sel)

lemma up_scan: "\<exists>ks. fst (srv (One (Scan p)) s) = Inr (RMulti ks) \<and> set ks = {k. view s k \<noteq> None \<and> glob p k}"
proof -
  have "fst (redis_spec (One (Scan p)) (view s)) = Inr RNil" by (simp add: redis_spec_def)
  then obtain v s' where "srv (One (Scan p)) s = (Inr v, s')" using answers by blast
  with reply_ok [OF this] show ?thesis by (auto simp: reply_for_scan)
qed

end

section \<open>Two concrete servers\<close>

text \<open>A key space held in an association list; keys are dropped by filtering.\<close>

definition mem_writes :: "(string \<times> rentry option) list \<Rightarrow> (string \<times> rentry) list \<Rightarrow> (string \<times> rentry) list" where
  "mem_writes ws db = foldl (\<lambda>d (k, e).
     (case e of None \<Rightarrow> filter (\<lambda>p. fst p \<noteq> k) d | Some v \<Rightarrow> (k, v) # filter (\<lambda>p. fst p \<noteq> k) d)) db ws"

definition mem_srv :: "(string \<times> rentry) list redis" where
  "mem_srv q db =
     (case q of
        One (Scan p) \<Rightarrow> (Inr (RMulti (filter (glob p) (map fst db))), db)
      | _ \<Rightarrow> (case redis_spec q (map_of db) of
                 (Inl e, ws) \<Rightarrow> (Inl e, mem_writes ws db)
               | (Inr v, ws) \<Rightarrow> (Inr v, mem_writes ws db)))"

text \<open>The same server behind a connection that drops the first \<open>n\<close> requests.\<close>

definition flaky_srv :: "(nat \<times> (string \<times> rentry) list) redis" where
  "flaky_srv q = (\<lambda>(n, db). case n of
      Suc m \<Rightarrow> (Inl RedisError, (m, db))
    | 0 \<Rightarrow> (let (r, db') = mem_srv q db in (r, (0, db'))))"

text \<open>The same server behind a connection that loses the replies to the first \<open>n\<close> requests: they are
  carried out, but the client sees an error.\<close>

definition lossy_srv :: "(nat \<times> (string \<times> rentry) list) redis" where
  "lossy_srv q = (\<lambda>(n, db). case n of
      Suc m \<Rightarrow> (Inl RedisError, (m, snd (mem_srv q db)))
    | 0 \<Rightarrow> (let (r, db') = mem_srv q db in (r, (0, db'))))"

text \<open>The same server behind a connection whose fate is scripted request by request; once the script
  is used up every request is answered.\<close>

datatype fault = Fine | Dropped | Lost

definition script_srv :: "(fault list \<times> (string \<times> rentry) list) redis" where
  "script_srv q = (\<lambda>(fs, db).
     case fs of
       [] \<Rightarrow> (let (r, db') = mem_srv q db in (r, ([], db')))
     | f # fs' \<Rightarrow>
         (case f of
            Fine \<Rightarrow> (let (r, db') = mem_srv q db in (r, (fs', db')))
          | Dropped \<Rightarrow> (Inl RedisError, (fs', db))
          | Lost \<Rightarrow> (Inl RedisError, (fs', snd (mem_srv q db)))))"

lemma map_of_filter_neq: "map_of (filter (\<lambda>p. fst p \<noteq> k) d) = (map_of d)(k := None)"
  by (induction d) (auto simp: fun_eq_iff)

lemma apply_writes_simps [simp]:
  "apply_writes [] st = st"
  "apply_writes ((k, e) # ws) st = apply_writes ws (st(k := e))"
  by (simp_all add: apply_writes_def)

lemma map_of_mem_writes: "map_of (mem_writes ws db) = apply_writes ws (map_of db)"
proof (induction ws arbitrary: db)
  case Nil
  show ?case by (simp add: mem_writes_def)
next
  case (Cons w ws)
  obtain k e where w: "w = (k, e)" by (cases w)
  define db' where "db' = (case e of None \<Rightarrow> filter (\<lambda>p. fst p \<noteq> k) db
      | Some v \<Rightarrow> (k, v) # filter (\<lambda>p. fst p \<noteq> k) db)"
  have "map_of db' = (map_of db)(k := e)"
    by (auto simp: db'_def map_of_filter_neq split: option.split)
  moreover have "mem_writes (w # ws) db = mem_writes ws db'"
    by (simp add: mem_writes_def db'_def w)
  ultimately show ?case using Cons.IH [of db'] w by (simp del: fun_upd_apply)
qed

lemma mem_srv_determined:
  "determined q \<Longrightarrow> mem_srv q db = (fst (redis_spec q (map_of db)), mem_writes (snd (redis_spec q (map_of db))) db)"
  by (auto simp: mem_srv_def determined_def split: rreq.splits rcmd.splits prod.splits sum.splits)

lemma mem_srv_scan: "mem_srv (One (Scan p)) db = (Inr (RMulti (filter (glob p) (map fst db))), db)"
  by (simp add: mem_srv_def)

lemma not_determined: "\<not> determined q \<Longrightarrow> \<exists>p. q = One (Scan p)"
  by (auto simp: determined_def split: rreq.splits rcmd.splits)

lemma mem_srv_laws:
  "mem_srv q s = (Inr v, s') \<Longrightarrow> reply_for q (map_of s) v \<and> map_of s' = after q (map_of s)"
  "mem_srv q s = (Inl e, s') \<Longrightarrow> e = RedisError \<and> map_of s' = after q (map_of s)"
proof -
  show "reply_for q (map_of s) v \<and> map_of s' = after q (map_of s)" if "mem_srv q s = (Inr v, s')"
  proof (cases "determined q")
    case True
    with that show ?thesis by (auto simp: mem_srv_determined reply_for_determined map_of_mem_writes after_def)
  next
    case False
    then obtain p where q: "q = One (Scan p)" using not_determined by blast
    have "set (filter (glob p) (map fst s)) = {k. map_of s k \<noteq> None \<and> glob p k}"
      by (auto simp: map_of_eq_None_iff)
    with that show ?thesis unfolding q by (auto simp: mem_srv_scan reply_for_scan)
  qed
  show "e = RedisError \<and> map_of s' = after q (map_of s)" if "mem_srv q s = (Inl e, s')"
  proof (cases "determined q")
    case True
    with that show ?thesis
      by (auto simp: mem_srv_determined map_of_mem_writes after_def dest: redis_spec_error)
  next
    case False
    with that show ?thesis by (auto dest!: not_determined simp: mem_srv_scan)
  qed
qed

interpretation mem: redis_up mem_srv map_of
proof unfold_locales
  fix q s v s' assume "mem_srv q s = (Inr v, s')"
  then show "reply_for q (map_of s) v \<and> map_of s' = after q (map_of s)" by (rule mem_srv_laws)
next
  fix q s e s' assume "mem_srv q s = (Inl e, s')"
  then show "e = RedisError \<and> (map_of s' = map_of s \<or> map_of s' = after q (map_of s))"
    using mem_srv_laws(2) by blast
next
  fix q s v assume "fst (redis_spec q (map_of s)) = Inr v"
  then show "\<exists>v' s'. mem_srv q s = (Inr v', s')"
    by (cases "determined q") (auto simp: mem_srv_determined mem_srv_scan dest!: not_determined)
qed

interpretation flaky: redis_server flaky_srv "\<lambda>s. map_of (snd s)"
proof unfold_locales
  fix q s v s' assume "flaky_srv q s = (Inr v, s')"
  then show "reply_for q (map_of (snd s)) v \<and> map_of (snd s') = after q (map_of (snd s))"
    by (auto simp: flaky_srv_def split: prod.splits nat.splits dest: mem_srv_laws(1))
next
  fix q s e s' assume "flaky_srv q s = (Inl e, s')"
  then show "e = RedisError \<and> (map_of (snd s') = map_of (snd s) \<or> map_of (snd s') = after q (map_of (snd s)))"
    by (auto simp: flaky_srv_def split: prod.splits nat.splits dest: mem_srv_laws(2))
qed

interpretation lossy: redis_server lossy_srv "\<lambda>s. map_of (snd s)"
proof unfold_locales
  fix q s v s' assume "lossy_srv q s = (Inr v, s')"
  then show "reply_for q (map_of (snd s)) v \<and> map_of (snd s') = after q (map_of (snd s))"
    by (auto simp: lossy_srv_def split: prod.splits nat.splits dest: mem_srv_laws(1))
next
  fix q s e s' assume l: "lossy_srv q s = (Inl e, s')"
  obtain r db' where m: "mem_srv q (snd s) = (r, db')" by (cases "mem_srv q (snd s)")
  then have "map_of db' = after q (map_of (snd s))"
    using mem_srv_laws [of q "snd s"] by (cases r) auto
  with l m show "e = RedisError \<and> (map_of (snd s') = map_of (snd s) \<or> map_of (snd s') = after q (map_of (snd s)))"
    by (cases s) (auto simp: lossy_srv_def split: nat.splits dest: mem_srv_laws(2))
qed

interpretation script: redis_server script_srv "\<lambda>s. map_of (snd s)"
proof unfold_locales
  fix q s v s' assume "script_srv q s = (Inr v, s')"
  then show "reply_for q (map_of (snd s)) v \<and> map_of (snd s') = after q (map_of (snd s))"
    by (auto simp: script_srv_def split: prod.splits list.splits fault.splits dest: mem_srv_laws(1))
next
  fix q s e s' assume l: "script_srv q s = (Inl e, s')"
  obtain r db' where m: "mem_srv q (snd s) = (r, db')" by (cases "mem_srv q (snd s)")
  then have "map_of db' = after q (map_of (snd s))"
    using mem_srv_laws [of q "snd s"] by (cases r) auto
  with l m show "e = RedisError \<and> (map_of (snd s') = map_of (snd s) \<or> map_of (snd s') = after q (map_of (snd s)))"
    by (cases s) (auto simp: script_srv_def split: list.splits fault.splits dest: mem_srv_laws(2))
qed

end
