(* ===== verification/Redis_Client.thy ===== *)
theory Redis_Client
  imports Redis
begin

text \<open>
  The world a request of the application runs in (\<open>env\<close>: the Redis server's state, the readings
  of the wall clock, the source of UUIDs), the redis-py calls the code makes, and
  \<^verbatim>\<open>app/services/redis_resilience.py\<close>. Components extend \<open>env\<close> with their module globals, so
  every operation here works on any extension. \<open>utcnow\<close> consumes one clock reading per call and
  \<open>uuid4\<close> one identifier.

  In the locale \<open>redis_up\<close> each call gets an evaluation rule (collection \<open>redis_simps\<close>) that
  reads its reply and its effect off \<open>view\<close>; component proofs run on these rules.
\<close>

section \<open>The world\<close>

record 's env =
  rds :: 's
  clock :: "nat \<Rightarrow> datetime"
  ticks :: nat
  uuids :: "nat \<Rightarrow> string"
  uuid_n :: nat

text \<open>A concrete world for examples: every clock reading is noon of 1 January 2024 plus the reading's
  number in microseconds, and the identifiers are \<^verbatim>\<open>job0\<close>, \<^verbatim>\<open>job1\<close>, ...\<close>

definition noon :: "nat \<Rightarrow> datetime" where
  "noon n = \<lparr>dt_year = 2024, dt_month = 1, dt_day = 1, dt_hour = 12, dt_minute = 0, dt_second = 0,
     dt_micro = n mod 1000000, dt_offset = None\<rparr>"

definition env0 :: "'s \<Rightarrow> 's env" where
  "env0 s = \<lparr>rds = s, clock = noon, ticks = 0, uuids = (\<lambda>n. ''job'' @ nat_str n), uuid_n = 0\<rparr>"

lemma env0_simps [simp]:
  "rds (env0 s) = s" "clock (env0 s) = noon" "ticks (env0 s) = 0" "uuid_n (env0 s) = 0"
  "uuids (env0 s) n = ''job'' @ nat_str n"
  by (simp_all add: env0_def)

lemma dt_valid_noon [simp]: "dt_valid (noon n)"
  by (simp add: dt_valid_def noon_def days_in_month_def)

definition utcnow :: "(('s, 'z) env_scheme, datetime) prog" where
  "utcnow w = (Inr (clock w (ticks w)), w\<lparr>ticks := Suc (ticks w)\<rparr>)"

definition uuid4 :: "(('s, 'z) env_scheme, string) prog" where
  "uuid4 w = (Inr (uuids w (uuid_n w)), w\<lparr>uuid_n := Suc (uuid_n w)\<rparr>)"

definition rcall :: "'s redis \<Rightarrow> rreq \<Rightarrow> (('s, 'z) env_scheme, reply) prog" where
  "rcall srv q w = (fst (srv q (rds w)), w\<lparr>rds := snd (srv q (rds w))\<rparr>)"

lemma utcnow_eval [prog_simps]:
  "fst (utcnow w) = Inr (clock w (ticks w))" "snd (utcnow w) = w\<lparr>ticks := Suc (ticks w)\<rparr>"
  by (simp_all add: utcnow_def)

lemma uuid4_eval [prog_simps]:
  "fst (uuid4 w) = Inr (uuids w (uuid_n w))" "snd (uuid4 w) = w\<lparr>uuid_n := Suc (uuid_n w)\<rparr>"
  by (simp_all add: uuid4_def)

lemma rcall_eval [prog_simps]:
  "fst (rcall srv q w) = fst (srv q (rds w))" "snd (rcall srv q w) = w\<lparr>rds := snd (srv q (rds w))\<rparr>"
  by (simp_all add: rcall_def)

lemma rcall_code [code]: "rcall srv q w = (case srv q (rds w) of (r, s) \<Rightarrow> (r, w\<lparr>rds := s\<rparr>))"
  by (simp add: rcall_def split: prod.split)

section \<open>Client calls\<close>

definition r_get :: "'s redis \<Rightarrow> string \<Rightarrow> (('s, 'z) env_scheme, string option) prog" where
  "r_get srv k = bnd (rcall srv (One (Get k))) (\<lambda>v. ret (case v of RBulk s \<Rightarrow> Some s | _ \<Rightarrow> None))"

definition r_set :: "'s redis \<Rightarrow> string \<Rightarrow> string \<Rightarrow> int option \<Rightarrow> bool \<Rightarrow> (('s, 'z) env_scheme, bool) prog" where
  "r_set srv k v ex nx = bnd (rcall srv (One (SetV k v ex nx))) (\<lambda>x. ret (case x of ROk \<Rightarrow> True | _ \<Rightarrow> False))"

definition r_int :: "'s redis \<Rightarrow> rreq \<Rightarrow> (('s, 'z) env_scheme, int) prog" where
  "r_int srv q = bnd (rcall srv q) (\<lambda>v. ret (case v of RInt i \<Rightarrow> i | _ \<Rightarrow> 0))"

definition r_unit :: "'s redis \<Rightarrow> rreq \<Rightarrow> (('s, 'z) env_scheme, unit) prog" where
  "r_unit srv q = bnd (rcall srv q) (\<lambda>_. ret ())"

abbreviation r_delete :: "'s redis \<Rightarrow> string list \<Rightarrow> (('s, 'z) env_scheme, int) prog" where
  "r_delete srv ks \<equiv> r_int srv (One (Del ks))"

abbreviation r_exists :: "'s redis \<Rightarrow> string \<Rightarrow> (('s, 'z) env_scheme, int) prog" where
  "r_exists srv k \<equiv> r_int srv (One (Exists k))"

abbreviation r_incr :: "'s redis \<Rightarrow> string \<Rightarrow> (('s, 'z) env_scheme, int) prog" where
  "r_incr srv k \<equiv> r_int srv (One (IncrBy k 1))"

abbreviation r_decr :: "'s redis \<Rightarrow> string \<Rightarrow> (('s, 'z) env_scheme, int) prog" where
  "r_decr srv k \<equiv> r_int srv (One (IncrBy k (- 1)))"

abbreviation r_expire :: "'s redis \<Rightarrow> string \<Rightarrow> int \<Rightarrow> (('s, 'z) env_scheme, int) prog" where
  "r_expire srv k t \<equiv> r_int srv (One (Expire k t))"

abbreviation r_hset :: "'s redis \<Rightarrow> string \<Rightarrow> (string \<times> string) list \<Rightarrow> (('s, 'z) env_scheme, int) prog" where
  "r_hset srv k ps \<equiv> r_int srv (One (HSet k ps))"

abbreviation r_lpush :: "'s redis \<Rightarrow> string \<Rightarrow> string \<Rightarrow> (('s, 'z) env_scheme, int) prog" where
  "r_lpush srv k v \<equiv> r_int srv (One (LPush k v))"

abbreviation r_rpush :: "'s redis \<Rightarrow> string \<Rightarrow> string \<Rightarrow> (('s, 'z) env_scheme, int) prog" where
  "r_rpush srv k v \<equiv> r_int srv (One (RPush k v))"

abbreviation r_ltrim :: "'s redis \<Rightarrow> string \<Rightarrow> int \<Rightarrow> int \<Rightarrow> (('s, 'z) env_scheme, unit) prog" where
  "r_ltrim srv k a b \<equiv> r_unit srv (One (LTrim k a b))"

abbreviation r_lrem :: "'s redis \<Rightarrow> string \<Rightarrow> int \<Rightarrow> string \<Rightarrow> (('s, 'z) env_scheme, int) prog" where
  "r_lrem srv k n v \<equiv> r_int srv (One (LRem k n v))"

abbreviation r_llen :: "'s redis \<Rightarrow> string \<Rightarrow> (('s, 'z) env_scheme, int) prog" where
  "r_llen srv k \<equiv> r_int srv (One (LLen k))"

abbreviation r_pipe :: "'s redis \<Rightarrow> rcmd list \<Rightarrow> (('s, 'z) env_scheme, unit) prog" where
  "r_pipe srv cs \<equiv> r_unit srv (Pipe cs)"

definition r_hget :: "'s redis \<Rightarrow> string \<Rightarrow> string \<Rightarrow> (('s, 'z) env_scheme, string option) prog" where
  "r_hget srv k f = bnd (rcall srv (One (HGet k f))) (\<lambda>v. ret (case v of RBulk s \<Rightarrow> Some s | _ \<Rightarrow> None))"

definition r_hgetall :: "'s redis \<Rightarrow> string \<Rightarrow> (('s, 'z) env_scheme, (string \<times> string) list) prog" where
  "r_hgetall srv k = bnd (rcall srv (One (HGetAll k))) (\<lambda>v. ret (case v of RMap m \<Rightarrow> m | _ \<Rightarrow> []))"

definition r_lrange :: "'s redis \<Rightarrow> string \<Rightarrow> int \<Rightarrow> int \<Rightarrow> (('s, 'z) env_scheme, string list) prog" where
  "r_lrange srv k a b = bnd (rcall srv (One (LRange k a b))) (\<lambda>v. ret (case v of RMulti l \<Rightarrow> l | _ \<Rightarrow> []))"

definition r_blpop :: "'s redis \<Rightarrow> string \<Rightarrow> (('s, 'z) env_scheme, string option) prog" where
  "r_blpop srv k = bnd (rcall srv (One (BLPop k))) (\<lambda>v. ret (case v of RBulk s \<Rightarrow> Some s | _ \<Rightarrow> None))"

definition r_brpop :: "'s redis \<Rightarrow> string list \<Rightarrow> (('s, 'z) env_scheme, (string \<times> string) option) prog" where
  "r_brpop srv ks = bnd (rcall srv (One (BRPop ks))) (\<lambda>v. ret (case v of RMulti [k, s] \<Rightarrow> Some (k, s) | _ \<Rightarrow> None))"

definition r_scan :: "'s redis \<Rightarrow> string \<Rightarrow> (('s, 'z) env_scheme, string list) prog" where
  "r_scan srv p = bnd (rcall srv (One (Scan p))) (\<lambda>v. ret (case v of RMulti l \<Rightarrow> l | _ \<Rightarrow> []))"

lemmas client_defs = r_get_def r_set_def r_int_def r_unit_def r_hget_def r_hgetall_def r_lrange_def
  r_blpop_def r_brpop_def r_scan_def

section \<open>Retries (redis_resilience.py)\<close>

text \<open>The pause before the next attempt; \<open>u\<close> is the drawn jitter of \<^verbatim>\<open>random.uniform(0.0, 0.15)\<close>.\<close>

definition retry_wait_seconds :: "int \<Rightarrow> rat \<Rightarrow> rat \<Rightarrow> rat \<Rightarrow> rat" where
  "retry_wait_seconds attempt_idx base max_seconds u =
     (let raw = base * 2 ^ nat (max 0 (attempt_idx - 1)); wait = min max_seconds raw in wait * (1 + u))"

text \<open>\<open>retry_loop n m\<close> makes at most \<open>n + 1\<close> attempts; the last failure escapes. The waiting between
  attempts leaves the modelled world alone. The callers in the modelled code pass neither
  \<^verbatim>\<open>forever\<close> nor \<^verbatim>\<open>on_retry\<close>.\<close>

primrec retry_loop :: "nat \<Rightarrow> ('w, 'a) prog \<Rightarrow> ('w, 'a) prog" where
  "retry_loop 0 m = m"
| "retry_loop (Suc n) m = catch m (\<lambda>_. retry_loop n m)"

definition run_redis_retry :: "settings \<Rightarrow> int option \<Rightarrow> ('w, 'a) prog \<Rightarrow> ('w, 'a) prog" where
  "run_redis_retry cfg max_attempts fn =
     (let limit = (case max_attempts of
            Some n \<Rightarrow> n
          | None \<Rightarrow> max 1 (or_default (redis_retry_enqueue_max_attempts cfg) 5))
      in retry_loop (nat (limit - 1)) fn)"

definition read_attempts :: "settings \<Rightarrow> int" where
  "read_attempts cfg = max 1 (or_default (redis_retry_read_max_attempts cfg) 15)"

lemma retry_loop_code [code]:
  "retry_loop n m w =
     (case m w of
        (Inl e, w') \<Rightarrow> (if n = 0 then (Inl e, w') else retry_loop (n - 1) m w')
      | (Inr a, w') \<Rightarrow> (Inr a, w'))"
  by (cases n) (auto simp: catch_def split: sum.split prod.split)

lemma retry_loop_ok: "\<not> isl (fst (m w)) \<Longrightarrow> retry_loop n m w = m w"
  by (cases n) (auto simp: catch_def isl_def prod_eq_iff split: sum.split)

lemma retry_ok [prog_simps]: "\<not> isl (fst (m w)) \<Longrightarrow> run_redis_retry cfg a m w = m w"
  by (simp add: run_redis_retry_def Let_def retry_loop_ok)

lemma triple_retry_loop:
  assumes "triple P m Q E" and "\<And>e w. E e w \<Longrightarrow> P w"
  shows "triple P (retry_loop n m) Q E"
proof (induction n)
  case 0
  show ?case using assms(1) by simp
next
  case (Suc n)
  have "triple (E e) (retry_loop n m) Q E" for e
    by (rule triple_weaken [OF Suc]) (use assms(2) in auto)
  then show ?case using assms(1) by (auto intro: triple_catch)
qed

lemma triple_retry [triple_intros]:
  assumes "triple P m Q E" and "\<And>e w. E e w \<Longrightarrow> P w"
  shows "triple P (run_redis_retry cfg a m) Q E"
  unfolding run_redis_retry_def Let_def by (rule triple_retry_loop [OF assms])

lemma preserves_retry:
  assumes "preserves I m"
  shows "preserves I (run_redis_retry cfg a m)"
  using assms by (rule triple_retry)

lemma keeps_retry [keeps_intros]: "keeps f m \<Longrightarrow> keeps f (run_redis_retry cfg n m)"
proof -
  assume m: "keeps f m"
  have "keeps f (retry_loop k m)" for k
    by (induction k) (simp_all add: m keeps_catch)
  then show ?thesis by (simp add: run_redis_retry_def Let_def)
qed

section \<open>Evaluation when the server answers\<close>

named_theorems redis_simps \<open>replies and effects of client calls\<close>

definition eff :: "rcmd \<Rightarrow> store \<Rightarrow> store" where
  "eff c st = apply_writes (snd (spec1 c st)) st"

definition rep :: "rcmd \<Rightarrow> store \<Rightarrow> exn + reply" where
  "rep c st = fst (spec1 c st)"

lemma spec1_error_writes: "fst (spec1 c st) = Inl e \<Longrightarrow> snd (spec1 c st) = []"
  by (cases c) (auto simp: wrong_def spec_incr_def spec_hincr_def spec_brpop_error split: option.splits list.splits if_splits)

lemma eff_reads [redis_simps]:
  "eff (Get k) st = st" "eff (HGet k f) st = st" "eff (HGetAll k) st = st" "eff (LRange k a b) st = st"
  "eff (Scan p) st = st" "eff (Exists k) st = st" "eff (LLen k) st = st"
  by (simp_all add: eff_def wrong_def split: option.split)

lemma eff_set [redis_simps]:
  "eff (SetV k v ex nx) st =
     (if (case ex of None \<Rightarrow> False | Some t \<Rightarrow> t \<le> 0) \<or> (nx \<and> st k \<noteq> None) then st
      else st(k \<mapsto> (RString v, ex)))"
  by (auto simp: eff_def wrong_def split: option.split)

lemma eff_del_list: "apply_writes (map (\<lambda>k. (k, None)) ks) st = (\<lambda>k. if k \<in> set ks then None else st k)"
  by (induction ks arbitrary: st) (auto simp: fun_eq_iff)

lemma eff_del [redis_simps]: "eff (Del ks) st = (\<lambda>k. if k \<in> set ks then None else st k)"
  by (simp add: eff_def eff_del_list)

lemma eff_expire [redis_simps]:
  "eff (Expire k t) st =
     (case st k of None \<Rightarrow> st | Some (v, _) \<Rightarrow> st(k := if t \<le> 0 then None else Some (v, Some t)))"
  by (auto simp: eff_def split: option.split)

lemma eff_hset [redis_simps]:
  "eff (HSet k ps) st =
     (if ps = [] then st
      else case as_hash (st k) of None \<Rightarrow> st
        | Some (h, t) \<Rightarrow> st(k \<mapsto> (RHash (hash_updates ps h), t)))"
  by (auto simp: eff_def wrong_def split: option.split)

lemma eff_list [redis_simps]:
  "eff (LPush k v) st = (case as_list (st k) of None \<Rightarrow> st | Some (l, t) \<Rightarrow> st(k \<mapsto> (RList (v # l), t)))"
  "eff (LTrim k a b) st = (case as_list (st k) of None \<Rightarrow> st
     | Some (l, t) \<Rightarrow> st(k := if lrange_list a b l = [] then None else Some (RList (lrange_list a b l), t)))"
  "eff (LRem k n v) st = (case as_list (st k) of None \<Rightarrow> st
     | Some (l, t) \<Rightarrow> st(k := if lrem_list n v l = [] then None else Some (RList (lrem_list n v l), t)))"
  "eff (BLPop k) st = (case as_list (st k) of None \<Rightarrow> st
     | Some (l, t) \<Rightarrow> (case l of [] \<Rightarrow> st | x # xs \<Rightarrow> st(k := if xs = [] then None else Some (RList xs, t))))"
  "eff (RPush k v) st = (case as_list (st k) of None \<Rightarrow> st | Some (l, t) \<Rightarrow> st(k \<mapsto> (RList (l @ [v]), t)))"
  "eff (BRPop [k]) st = (case as_list (st k) of None \<Rightarrow> st
     | Some (l, t) \<Rightarrow> (if l = [] then st else st(k := if butlast l = [] then None else Some (RList (butlast l), t))))"
  by (auto simp: eff_def wrong_def put_list_def split: option.split list.split)

lemma eff_incr [redis_simps]:
  "eff (IncrBy k n) st = (case as_string (st k) of None \<Rightarrow> st
     | Some (v, t) \<Rightarrow> (case (case v of None \<Rightarrow> Some 0 | Some s \<Rightarrow> redis_int s) of None \<Rightarrow> st
         | Some i \<Rightarrow> (case add64 i n of None \<Rightarrow> st | Some j \<Rightarrow> st(k \<mapsto> (RString (int_str j), t)))))"
  "eff (HIncrBy k f n) st = (case as_hash (st k) of None \<Rightarrow> st
     | Some (h, t) \<Rightarrow> (case (case map_of h f of None \<Rightarrow> Some 0 | Some s \<Rightarrow> redis_int s) of None \<Rightarrow> st
         | Some i \<Rightarrow> (case add64 i n of None \<Rightarrow> st | Some j \<Rightarrow> st(k \<mapsto> (RHash (AList.update f (int_str j) h), t)))))"
  by (auto simp: eff_def wrong_def spec_incr_def spec_hincr_def split: option.split)

lemma rep_simps [redis_simps]:
  "rep (Del ks) st = Inr (RInt (int (length (filter (\<lambda>k. st k \<noteq> None) (remdups ks)))))"
  "rep (Exists k) st = Inr (RInt (if st k = None then 0 else 1))"
  "rep (Expire k t) st = Inr (RInt (if st k = None then 0 else 1))"
  "rep (HSet k ps) st = (if ps = [] \<or> as_hash (st k) = None then Inl RedisError
     else Inr (RInt (int (length (filter (\<lambda>f. map_of (fst (the (as_hash (st k)))) f = None) (remdups (map fst ps)))))))"
  "rep (LPush k v) st = (case as_list (st k) of None \<Rightarrow> Inl RedisError | Some (l, t) \<Rightarrow> Inr (RInt (int (length l) + 1)))"
  "rep (LTrim k a b) st = (case as_list (st k) of None \<Rightarrow> Inl RedisError | Some (l, t) \<Rightarrow> Inr ROk)"
  "rep (LRem k n v) st = (case as_list (st k) of None \<Rightarrow> Inl RedisError
     | Some (l, t) \<Rightarrow> Inr (RInt (int (length l) - int (length (lrem_list n v l)))))"
  "rep (LLen k) st = (case as_list (st k) of None \<Rightarrow> Inl RedisError | Some (l, t) \<Rightarrow> Inr (RInt (int (length l))))"
  "rep (BLPop k) st = (case as_list (st k) of None \<Rightarrow> Inl RedisError
     | Some (l, t) \<Rightarrow> Inr (case l of [] \<Rightarrow> RNil | x # xs \<Rightarrow> RBulk x))"
  "rep (RPush k v) st = (case as_list (st k) of None \<Rightarrow> Inl RedisError | Some (l, t) \<Rightarrow> Inr (RInt (int (length l) + 1)))"
  "rep (IncrBy k n) st = (case as_string (st k) of None \<Rightarrow> Inl RedisError
     | Some (v, t) \<Rightarrow> (case (case v of None \<Rightarrow> Some 0 | Some s \<Rightarrow> redis_int s) of None \<Rightarrow> Inl RedisError
         | Some i \<Rightarrow> (case add64 i n of None \<Rightarrow> Inl RedisError | Some j \<Rightarrow> Inr (RInt j))))"
  by (auto simp: rep_def wrong_def spec_incr_def split: option.split list.split)

lemma as_simps [redis_simps]:
  "as_string None = Some (None, None)" "as_string (Some (RString v, t)) = Some (Some v, t)"
  "as_string (Some (RHash h, t)) = None" "as_string (Some (RList l, t)) = None"
  "as_hash None = Some ([], None)" "as_hash (Some (RHash h, t)) = Some (h, t)"
  "as_hash (Some (RString v, t)) = None" "as_hash (Some (RList l, t)) = None"
  "as_list None = Some ([], None)" "as_list (Some (RList l, t)) = Some (l, t)"
  "as_list (Some (RString v, t)) = None" "as_list (Some (RHash h, t)) = None"
  by (simp_all add: as_string_def as_hash_def as_list_def)

lemma client_frame [prog_simps]:
  "snd (r_get srv k w) = w\<lparr>rds := snd (srv (One (Get k)) (rds w))\<rparr>"
  "snd (r_set srv k v ex nx w) = w\<lparr>rds := snd (srv (One (SetV k v ex nx)) (rds w))\<rparr>"
  "snd (r_int srv q w) = w\<lparr>rds := snd (srv q (rds w))\<rparr>"
  "snd (r_unit srv q w) = w\<lparr>rds := snd (srv q (rds w))\<rparr>"
  "snd (r_hget srv k f w) = w\<lparr>rds := snd (srv (One (HGet k f)) (rds w))\<rparr>"
  "snd (r_hgetall srv k w) = w\<lparr>rds := snd (srv (One (HGetAll k)) (rds w))\<rparr>"
  "snd (r_lrange srv k a b w) = w\<lparr>rds := snd (srv (One (LRange k a b)) (rds w))\<rparr>"
  "snd (r_blpop srv k w) = w\<lparr>rds := snd (srv (One (BLPop k)) (rds w))\<rparr>"
  "snd (r_brpop srv ks w) = w\<lparr>rds := snd (srv (One (BRPop ks)) (rds w))\<rparr>"
  "snd (r_scan srv p w) = w\<lparr>rds := snd (srv (One (Scan p)) (rds w))\<rparr>"
  by (simp_all add: client_defs prog_simps split: sum.split)

context redis_up
begin

lemma up_view1 [redis_simps]: "view (snd (srv (One c) s)) = eff c (view s)"
proof (cases "fst (spec1 c (view s))")
  case (Inl e)
  then have "snd (spec1 c (view s)) = []" by (rule spec1_error_writes)
  then show ?thesis using view_after [of "One c" s] by (auto simp: after_def redis_spec_def eff_def)
next
  case (Inr v)
  then have "view (snd (srv (One c) s)) = after (One c) (view s)"
    by (intro up_view [of _ _ v]) (simp add: redis_spec_def)
  then show ?thesis by (simp add: after_def redis_spec_def eff_def)
qed

lemma up_rep: "determined (One c) \<Longrightarrow> fst (srv (One c) s) = rep c (view s)"
  by (simp add: up_reply redis_spec_def rep_def)

lemma eval_get [redis_simps]:
  "fst (r_get srv k w) = (case as_string (view (rds w) k) of None \<Rightarrow> Inl RedisError | Some (v, _) \<Rightarrow> Inr v)"
  by (simp add: client_defs prog_simps up_reply redis_spec_def wrong_def split: option.split)

lemma eval_set [redis_simps]:
  "fst (r_set srv k v ex nx w) =
     (if (case ex of None \<Rightarrow> False | Some t \<Rightarrow> t \<le> 0) then Inl RedisError
      else Inr (\<not> (nx \<and> view (rds w) k \<noteq> None)))"
  by (simp add: client_defs prog_simps up_reply redis_spec_def wrong_def split: option.split)

lemma eval_hget [redis_simps]:
  "fst (r_hget srv k f w) = (case as_hash (view (rds w) k) of None \<Rightarrow> Inl RedisError | Some (h, _) \<Rightarrow> Inr (map_of h f))"
  by (simp add: client_defs prog_simps up_reply redis_spec_def wrong_def split: option.split)

lemma eval_hgetall [redis_simps]:
  "fst (r_hgetall srv k w) = (case as_hash (view (rds w) k) of None \<Rightarrow> Inl RedisError | Some (h, _) \<Rightarrow> Inr h)"
  by (simp add: client_defs prog_simps up_reply redis_spec_def wrong_def split: option.split)

lemma eval_lrange [redis_simps]:
  "fst (r_lrange srv k a b w) =
     (case as_list (view (rds w) k) of None \<Rightarrow> Inl RedisError | Some (l, _) \<Rightarrow> Inr (lrange_list a b l))"
  by (simp add: client_defs prog_simps up_reply redis_spec_def wrong_def split: option.split)

lemma eval_blpop [redis_simps]:
  "fst (r_blpop srv k w) =
     (case as_list (view (rds w) k) of None \<Rightarrow> Inl RedisError
      | Some (l, _) \<Rightarrow> Inr (case l of [] \<Rightarrow> None | x # xs \<Rightarrow> Some x))"
  by (simp add: client_defs prog_simps up_reply redis_spec_def wrong_def split: option.split list.split)

lemma eval_brpop1 [redis_simps]:
  "fst (r_brpop srv [k] w) =
     (case as_list (view (rds w) k) of None \<Rightarrow> Inl RedisError
      | Some (l, _) \<Rightarrow> Inr (if l = [] then None else Some (k, last l)))"
  by (simp add: client_defs prog_simps up_reply redis_spec_def wrong_def split: option.split)

lemma eval_int [redis_simps]:
  "determined (One c) \<Longrightarrow> fst (r_int srv (One c) w) =
     (case rep c (view (rds w)) of Inl e \<Rightarrow> Inl e | Inr v \<Rightarrow> Inr (case v of RInt i \<Rightarrow> i | _ \<Rightarrow> 0))"
  by (simp add: client_defs prog_simps up_rep split: sum.split)

lemma eval_unit [redis_simps]:
  "determined (One c) \<Longrightarrow> fst (r_unit srv (One c) w) =
     (case rep c (view (rds w)) of Inl e \<Rightarrow> Inl e | Inr v \<Rightarrow> Inr ())"
  by (simp add: client_defs prog_simps up_rep split: sum.split)

lemma eval_scan:
  "\<exists>ks. fst (r_scan srv p w) = Inr ks \<and> set ks = {k. view (rds w) k \<noteq> None \<and> glob p k}"
  using up_scan [of p "rds w"] by (auto simp: client_defs prog_simps)

end

lemma redis_int_int_str [simp]:
  assumes "- (2 ^ 63) \<le> i" and "i < 2 ^ 63"
  shows "redis_int (int_str i) = Some i"
proof -
  have "py_int_base 10 (int_str i) = Some i"
    using py_int_int_str [of i] by (simp add: py_int_def split: option.splits)
  with assms show ?thesis by (simp add: redis_int_def)
qed

section \<open>Pipelines and hash counters\<close>

fun effs :: "rcmd list \<Rightarrow> store \<Rightarrow> store" where
  "effs [] st = st"
| "effs (c # cs) st = effs cs (eff c st)"

fun pipe_fine :: "rcmd list \<Rightarrow> store \<Rightarrow> bool" where
  "pipe_fine [] st \<longleftrightarrow> True"
| "pipe_fine (c # cs) st \<longleftrightarrow> \<not> isl (rep c st) \<and> pipe_fine cs (eff c st)"

lemma effs_append: "effs (a @ b) st = effs b (effs a st)"
  by (induction a arbitrary: st) simp_all

lemma pipe_fine_append: "pipe_fine (a @ b) st \<longleftrightarrow> pipe_fine a st \<and> pipe_fine b (effs a st)"
  by (induction a arbitrary: st) auto

lemma apply_writes_append: "apply_writes (a @ b) st = apply_writes b (apply_writes a st)"
  by (simp add: apply_writes_def)

lemma spec_pipe_fine:
  "pipe_fine cs st \<Longrightarrow> \<exists>vs ws. spec_pipe cs st = (Inr vs, ws) \<and> apply_writes ws st = effs cs st"
proof (induction cs arbitrary: st)
  case (Cons c cs)
  obtain v where v: "fst (spec1 c st) = Inr v" using Cons.prems by (auto simp: rep_def isl_def) (metis sum.exhaust)
  obtain vs ws where "spec_pipe cs (eff c st) = (Inr vs, ws)" "apply_writes ws (eff c st) = effs cs (eff c st)"
    using Cons.IH [of "eff c st"] Cons.prems by auto
  with v show ?case by (auto simp: eff_def apply_writes_append split: prod.split)
qed simp

context redis_up
begin

lemma eval_pipe:
  assumes "pipe_fine cs (view (rds w))"
  shows "fst (r_unit srv (Pipe cs) w) = Inr ()" and "view (snd (srv (Pipe cs) (rds w))) = effs cs (view (rds w))"
proof -
  obtain vs ws where s: "spec_pipe cs (view (rds w)) = (Inr vs, ws)" "apply_writes ws (view (rds w)) = effs cs (view (rds w))"
    using spec_pipe_fine [OF assms] by blast
  then have f: "fst (redis_spec (Pipe cs) (view (rds w))) = Inr (RReplies vs)" by (simp add: redis_spec_def)
  show "fst (r_unit srv (Pipe cs) w) = Inr ()" using f by (simp add: client_defs prog_simps up_reply)
  show "view (snd (srv (Pipe cs) (rds w))) = effs cs (view (rds w))"
    using up_view [OF f] s by (simp add: after_def redis_spec_def)
qed

end

lemma hincr_counter:
  assumes "st k = Some (RHash h, t)" and "map_of h f = Some (int_str i)"
    and "- (2 ^ 63) \<le> i" "i < 2 ^ 63" "- (2 ^ 63) \<le> i + n" "i + n < 2 ^ 63"
  shows "eff (HIncrBy k f n) st = st(k \<mapsto> (RHash (AList.update f (int_str (i + n)) h), t))"
    and "\<not> isl (rep (HIncrBy k f n) st)"
  using assms by (simp_all add: redis_simps add64_def) (simp add: rep_def spec_hincr_def redis_simps add64_def)

section \<open>Hoare rules when calls may fail\<close>

text \<open>Triples whose assertions speak of the key space only. After a failed call the key space is
  the old one or the one the call would have left.\<close>

abbreviation vtriple ::
  "('s \<Rightarrow> store) \<Rightarrow> (store \<Rightarrow> bool) \<Rightarrow> (('s, 'z) env_scheme, 'a) prog \<Rightarrow> ('a \<Rightarrow> store \<Rightarrow> bool) \<Rightarrow> (store \<Rightarrow> bool) \<Rightarrow> bool"
  where "vtriple view I m Q E \<equiv>
    triple (\<lambda>w. I (view (rds w))) m (\<lambda>a w. Q a (view (rds w))) (\<lambda>_ w. E (view (rds w)))"

abbreviation vpreserves :: "('s \<Rightarrow> store) \<Rightarrow> (store \<Rightarrow> bool) \<Rightarrow> (('s, 'z) env_scheme, 'a) prog \<Rightarrow> bool"
  where "vpreserves view I m \<equiv> vtriple view I m (\<lambda>_. I) I"

context redis_server
begin

lemma ok_rep: "determined (One c) \<Longrightarrow> fst (srv (One c) s) = Inr v \<Longrightarrow> rep c (view s) = Inr v"
  using ok_reply by (fastforce simp: reply_for_determined redis_spec_def rep_def)

lemma ok_eff: "fst (srv (One c) s) = Inr v \<Longrightarrow> view (snd (srv (One c) s)) = eff c (view s)"
  using ok_view by (fastforce simp: after_def redis_spec_def eff_def)

lemma any_eff: "view (snd (srv (One c) s)) = view s \<or> view (snd (srv (One c) s)) = eff c (view s)"
  using view_after [of "One c" s] by (simp add: after_def redis_spec_def eff_def)

lemma vtriple_rcall:
  assumes "\<And>st. I st \<Longrightarrow> E st \<and> E (eff c st)"
    and "\<And>st v. I st \<Longrightarrow> (determined (One c) \<longrightarrow> rep c st = Inr v) \<Longrightarrow> Q v (eff c st)"
  shows "vtriple view I (rcall srv (One c)) Q E"
  unfolding triple_def
proof (intro allI impI)
  fix w assume w: "I (view (rds w))"
  show "case fst (rcall srv (One c) w) of
      Inl e \<Rightarrow> E (view (rds (snd (rcall srv (One c) w))))
    | Inr a \<Rightarrow> Q a (view (rds (snd (rcall srv (One c) w))))"
  proof (cases "fst (srv (One c) (rds w))")
    case (Inl e)
    then show ?thesis using any_eff [of c "rds w"] assms(1) [OF w] by (auto simp: prog_simps)
  next
    case (Inr v)
    then have "determined (One c) \<longrightarrow> rep c (view (rds w)) = Inr v" by (auto intro: ok_rep)
    then have "Q v (eff c (view (rds w)))" by (rule assms(2) [OF w])
    with Inr show ?thesis using ok_eff [OF Inr] by (simp add: prog_simps)
  qed
qed

lemma vtriple_get:
  assumes "\<And>st. I st \<Longrightarrow> E st" and "\<And>st v t. I st \<Longrightarrow> as_string (st k) = Some (v, t) \<Longrightarrow> Q v st"
  shows "vtriple view I (r_get srv k) Q E"
  unfolding r_get_def
proof (rule triple_bnd [where R = "\<lambda>r w. Q (case r of RBulk s \<Rightarrow> Some s | _ \<Rightarrow> None) (view (rds w))"])
  show "vtriple view I (rcall srv (One (Get k))) (\<lambda>r. Q (case r of RBulk s \<Rightarrow> Some s | _ \<Rightarrow> None)) E"
    by (rule vtriple_rcall)
       (use assms in \<open>auto simp: redis_simps rep_def wrong_def split: option.splits\<close>)
qed (simp add: triple_ret)

lemma vtriple_set:
  assumes "\<And>st. I st \<Longrightarrow> E st \<and> E (eff (SetV k v ex nx) st)"
    and "\<And>st. I st \<Longrightarrow> \<not> (nx \<and> st k \<noteq> None) \<Longrightarrow> Q True (st(k \<mapsto> (RString v, ex)))"
    and "\<And>st. I st \<Longrightarrow> nx \<Longrightarrow> st k \<noteq> None \<Longrightarrow> Q False st"
  shows "vtriple view I (r_set srv k v ex nx) Q E"
  unfolding r_set_def
proof (rule triple_bnd [where R = "\<lambda>r w. Q (case r of ROk \<Rightarrow> True | _ \<Rightarrow> False) (view (rds w))"])
  show "vtriple view I (rcall srv (One (SetV k v ex nx))) (\<lambda>r. Q (case r of ROk \<Rightarrow> True | _ \<Rightarrow> False)) E"
    by (rule vtriple_rcall)
       (use assms in \<open>auto simp: redis_simps rep_def wrong_def split: option.splits if_splits\<close>)
qed (simp add: triple_ret)

lemma vtriple_int:
  assumes "\<And>st. I st \<Longrightarrow> E st \<and> E (eff c st)"
    and "\<And>st v. I st \<Longrightarrow> (determined (One c) \<longrightarrow> rep c st = Inr v) \<Longrightarrow> Q (case v of RInt i \<Rightarrow> i | _ \<Rightarrow> 0) (eff c st)"
  shows "vtriple view I (r_int srv (One c)) Q E"
  unfolding r_int_def
proof (rule triple_bnd [where R = "\<lambda>r w. Q (case r of RInt i \<Rightarrow> i | _ \<Rightarrow> 0) (view (rds w))"])
  show "vtriple view I (rcall srv (One c)) (\<lambda>r. Q (case r of RInt i \<Rightarrow> i | _ \<Rightarrow> 0)) E"
    by (rule vtriple_rcall) (use assms in auto)
qed (simp add: triple_ret)

lemma vpreserves_int: "(\<And>st. I st \<Longrightarrow> I (eff c st)) \<Longrightarrow> vpreserves view I (r_int srv (One c))"
  by (rule vtriple_int) auto

end

end
