(* ===== verification/Bulk_Mutex.thy ===== *)
theory Bulk_Mutex
  imports Redis_Client "HOL-Library.Multiset"
begin

text \<open>
  The first half of \<^verbatim>\<open>app/services/bulk_collection_activity.py\<close>: the per-collection counters of bulk
  work in flight and of destructive bulk work, and the per-collection bulk mutex (a Redis key
  holding the owner's job id, taken with \<^verbatim>\<open>SET NX EX\<close>). The reclaiming of stale locks, which
  needs the job store, is in \<open>Bulk_Activity\<close>.

  Shown here, for any server that keeps the documented laws even if it drops requests or loses
  replies: a successful acquire leaves the key with the acquirer and another job's lock survives
  every operation. Mutual exclusion is shown for interleavings of the single requests of these
  calls by any number of processes, under the discipline \<open>orderly\<close> (no key expires while it is in
  use; while a release of a job is between its \<^verbatim>\<open>GET\<close> and its \<^verbatim>\<open>DELETE\<close>, no other call of that job on
  the collection runs), and shown to fail without that discipline. For a server that answers, the
  counters refine a natural number.
\<close>

section \<open>Definitions\<close>

definition BULK_COLLECTION_INFLIGHT_PREFIX :: string where
  "BULK_COLLECTION_INFLIGHT_PREFIX = ''geofastmap:bulk_collection_inflight:''"

definition BULK_COLLECTION_DESTRUCTIVE_PREFIX :: string where
  "BULK_COLLECTION_DESTRUCTIVE_PREFIX = ''geofastmap:bulk_collection_destructive:''"

definition BULK_COLLECTION_MUTEX_PREFIX :: string where
  "BULK_COLLECTION_MUTEX_PREFIX = ''geofastmap:bulk_collection_mutex:''"

definition DEFAULT_INFLIGHT_TTL_SECONDS :: int where
  "DEFAULT_INFLIGHT_TTL_SECONDS = 86400 * 2"

definition DEFAULT_MUTEX_TTL_SECONDS :: int where
  "DEFAULT_MUTEX_TTL_SECONDS = 86400 * 2"

definition TERMINAL_JOB_STATUSES :: "string list" where
  "TERMINAL_JOB_STATUSES =
     [''completed'', ''failed'', ''cancelled'', ''error'', ''success'', ''done'', ''succeeded'']"

definition is_terminal_job_status :: "string option \<Rightarrow> bool" where
  "is_terminal_job_status st \<longleftrightarrow> py_lower (or_else st []) \<in> set TERMINAL_JOB_STATUSES"

definition mutex_key :: "string \<Rightarrow> string" where
  "mutex_key collection_id = BULK_COLLECTION_MUTEX_PREFIX @ collection_id"

definition inflight_key :: "string \<Rightarrow> string" where
  "inflight_key collection_id = BULK_COLLECTION_INFLIGHT_PREFIX @ collection_id"

definition destructive_key :: "string \<Rightarrow> string" where
  "destructive_key collection_id = BULK_COLLECTION_DESTRUCTIVE_PREFIX @ collection_id"

subsection \<open>Activity counters\<close>

definition incr_counter :: "'s redis \<Rightarrow> settings \<Rightarrow> string \<Rightarrow> (('s, 'z) env_scheme, unit) prog" where
  "incr_counter srv cfg key =
     run_redis_retry cfg None
       (bnd (r_incr srv key) (\<lambda>_.
        bnd (r_expire srv key DEFAULT_INFLIGHT_TTL_SECONDS) (\<lambda>_. ret ())))"

definition decr_counter :: "'s redis \<Rightarrow> settings \<Rightarrow> string \<Rightarrow> (('s, 'z) env_scheme, unit) prog" where
  "decr_counter srv cfg key =
     run_redis_retry cfg None
       (bnd (r_decr srv key) (\<lambda>n.
        if n \<le> 0 then bnd (r_delete srv [key]) (\<lambda>_. ret ()) else ret ()))"

definition counter_positive :: "'s redis \<Rightarrow> settings \<Rightarrow> string \<Rightarrow> (('s, 'z) env_scheme, bool) prog" where
  "counter_positive srv cfg key =
     run_redis_retry cfg (Some (read_attempts cfg))
       (bnd (r_get srv key) (\<lambda>v.
        case v of
          None \<Rightarrow> ret False
        | Some s \<Rightarrow> if s = [] then ret False else bnd (lift_exn (py_int s)) (\<lambda>n. ret (0 < n))))"

definition incr_collection_bulk_activity :: "'s redis \<Rightarrow> settings \<Rightarrow> string \<Rightarrow> (('s, 'z) env_scheme, unit) prog" where
  "incr_collection_bulk_activity srv cfg cid =
     (if bulk_queue_type cfg \<noteq> ''redis'' then ret () else incr_counter srv cfg (inflight_key cid))"

definition decr_collection_bulk_activity :: "'s redis \<Rightarrow> settings \<Rightarrow> string \<Rightarrow> (('s, 'z) env_scheme, unit) prog" where
  "decr_collection_bulk_activity srv cfg cid =
     (if bulk_queue_type cfg \<noteq> ''redis'' then ret () else decr_counter srv cfg (inflight_key cid))"

definition incr_collection_destructive_bulk_activity ::
    "'s redis \<Rightarrow> settings \<Rightarrow> string \<Rightarrow> (('s, 'z) env_scheme, unit) prog" where
  "incr_collection_destructive_bulk_activity srv cfg cid =
     (if bulk_queue_type cfg \<noteq> ''redis'' then ret () else incr_counter srv cfg (destructive_key cid))"

definition decr_collection_destructive_bulk_activity ::
    "'s redis \<Rightarrow> settings \<Rightarrow> string \<Rightarrow> (('s, 'z) env_scheme, unit) prog" where
  "decr_collection_destructive_bulk_activity srv cfg cid =
     (if bulk_queue_type cfg \<noteq> ''redis'' then ret () else decr_counter srv cfg (destructive_key cid))"

definition collection_has_destructive_bulk_activity ::
    "'s redis \<Rightarrow> settings \<Rightarrow> string \<Rightarrow> (('s, 'z) env_scheme, bool) prog" where
  "collection_has_destructive_bulk_activity srv cfg cid =
     (if bulk_queue_type cfg \<noteq> ''redis'' then ret False else counter_positive srv cfg (destructive_key cid))"

definition collection_has_bulk_activity ::
    "'s redis \<Rightarrow> settings \<Rightarrow> string \<Rightarrow> (('s, 'z) env_scheme, bool) prog" where
  "collection_has_bulk_activity srv cfg cid =
     (if bulk_queue_type cfg \<noteq> ''redis'' then ret False else counter_positive srv cfg (inflight_key cid))"

subsection \<open>The collection mutex\<close>

definition get_collection_bulk_mutex_holder ::
    "'s redis \<Rightarrow> settings \<Rightarrow> string \<Rightarrow> (('s, 'z) env_scheme, string option) prog" where
  "get_collection_bulk_mutex_holder srv cfg cid =
     (if bulk_queue_type cfg \<noteq> ''redis'' then ret None
      else run_redis_retry cfg (Some (read_attempts cfg))
        (bnd (r_get srv (mutex_key cid)) (\<lambda>v.
         ret (case v of None \<Rightarrow> None | Some s \<Rightarrow> if s = [] then None else Some s))))"

definition holds_collection_bulk_mutex ::
    "'s redis \<Rightarrow> settings \<Rightarrow> string \<Rightarrow> string \<Rightarrow> (('s, 'z) env_scheme, bool) prog" where
  "holds_collection_bulk_mutex srv cfg cid owner_job_id =
     bnd (get_collection_bulk_mutex_holder srv cfg cid) (\<lambda>holder. ret (holder = Some owner_job_id))"

definition mutex_ttl :: "settings \<Rightarrow> int" where
  "mutex_ttl cfg = max 300 (or_default (bulk_collection_mutex_ttl_seconds cfg) DEFAULT_MUTEX_TTL_SECONDS)"

text \<open>The calls on the mutex are sequences of single requests, each a definition of its own, since
  other processes' requests run between them.\<close>

definition acquire_set :: "'s redis \<Rightarrow> settings \<Rightarrow> string \<Rightarrow> string \<Rightarrow> (('s, 'z) env_scheme, bool) prog" where
  "acquire_set srv cfg cid owner_job_id = r_set srv (mutex_key cid) owner_job_id (Some (mutex_ttl cfg)) True"

definition acquire_check :: "'s redis \<Rightarrow> string \<Rightarrow> string \<Rightarrow> (('s, 'z) env_scheme, bool) prog" where
  "acquire_check srv cid owner_job_id = bnd (r_get srv (mutex_key cid)) (\<lambda>v. ret (or_else v [] = owner_job_id))"

definition owner_check :: "'s redis \<Rightarrow> string \<Rightarrow> string \<Rightarrow> (('s, 'z) env_scheme, bool) prog" where
  "owner_check srv cid owner_job_id = bnd (r_get srv (mutex_key cid)) (\<lambda>v. ret (v = Some owner_job_id))"

definition release_delete :: "'s redis \<Rightarrow> string \<Rightarrow> (('s, 'z) env_scheme, unit) prog" where
  "release_delete srv cid = bnd (r_delete srv [mutex_key cid]) (\<lambda>_. ret ())"

definition refresh_expire :: "'s redis \<Rightarrow> settings \<Rightarrow> string \<Rightarrow> (('s, 'z) env_scheme, unit) prog" where
  "refresh_expire srv cfg cid = bnd (r_expire srv (mutex_key cid) (mutex_ttl cfg)) (\<lambda>_. ret ())"

definition acquire_attempt :: "'s redis \<Rightarrow> settings \<Rightarrow> string \<Rightarrow> string \<Rightarrow> (('s, 'z) env_scheme, bool) prog" where
  "acquire_attempt srv cfg cid owner_job_id =
     bnd (acquire_set srv cfg cid owner_job_id) (\<lambda>ok.
       if ok then ret True else acquire_check srv cid owner_job_id)"

definition try_acquire_collection_bulk_mutex ::
    "'s redis \<Rightarrow> settings \<Rightarrow> string \<Rightarrow> string \<Rightarrow> (('s, 'z) env_scheme, bool) prog" where
  "try_acquire_collection_bulk_mutex srv cfg cid owner_job_id =
     (if bulk_queue_type cfg \<noteq> ''redis'' then ret True
      else run_redis_retry cfg (Some (read_attempts cfg)) (acquire_attempt srv cfg cid owner_job_id))"

definition release_collection_bulk_mutex ::
    "'s redis \<Rightarrow> settings \<Rightarrow> string \<Rightarrow> string \<Rightarrow> (('s, 'z) env_scheme, unit) prog" where
  "release_collection_bulk_mutex srv cfg cid owner_job_id =
     (if bulk_queue_type cfg \<noteq> ''redis'' then ret ()
      else run_redis_retry cfg None
        (bnd (owner_check srv cid owner_job_id) (\<lambda>own. if own then release_delete srv cid else ret ())))"

definition release_bulk_mutex_for_job ::
    "'s redis \<Rightarrow> settings \<Rightarrow> string \<Rightarrow> string \<Rightarrow> (('s, 'z) env_scheme, unit) prog" where
  "release_bulk_mutex_for_job srv cfg cid job_id = release_collection_bulk_mutex srv cfg cid job_id"

definition refresh_collection_bulk_mutex ::
    "'s redis \<Rightarrow> settings \<Rightarrow> string \<Rightarrow> string \<Rightarrow> (('s, 'z) env_scheme, unit) prog" where
  "refresh_collection_bulk_mutex srv cfg cid owner_job_id =
     (if bulk_queue_type cfg \<noteq> ''redis'' then ret ()
      else run_redis_retry cfg None
        (bnd (owner_check srv cid owner_job_id) (\<lambda>own. if own then refresh_expire srv cfg cid else ret ())))"

section \<open>The mutex under an unreliable server\<close>

text \<open>The calls with their requests written out.\<close>

lemma acquire_attempt_eq:
  "acquire_attempt srv cfg cid i =
     bnd (r_set srv (mutex_key cid) i (Some (mutex_ttl cfg)) True) (\<lambda>ok.
       if ok then ret True
       else bnd (r_get srv (mutex_key cid)) (\<lambda>v. ret (or_else v [] = i)))"
  unfolding acquire_attempt_def acquire_set_def acquire_check_def ..

lemma owner_check_bnd: "bnd (owner_check srv cid i) f = bnd (r_get srv (mutex_key cid)) (\<lambda>v. f (v = Some i))"
  by (simp add: owner_check_def bnd_assoc)

lemma release_eq:
  "release_collection_bulk_mutex srv cfg cid i =
     (if bulk_queue_type cfg \<noteq> ''redis'' then ret ()
      else run_redis_retry cfg None
        (bnd (r_get srv (mutex_key cid)) (\<lambda>v.
         if v = Some i then bnd (r_delete srv [mutex_key cid]) (\<lambda>_. ret ()) else ret ())))"
  unfolding release_collection_bulk_mutex_def owner_check_bnd release_delete_def ..

lemma refresh_eq:
  "refresh_collection_bulk_mutex srv cfg cid i =
     (if bulk_queue_type cfg \<noteq> ''redis'' then ret ()
      else run_redis_retry cfg None
        (bnd (r_get srv (mutex_key cid)) (\<lambda>v.
         if v = Some i then bnd (r_expire srv (mutex_key cid) (mutex_ttl cfg)) (\<lambda>_. ret ()) else ret ())))"
  unfolding refresh_collection_bulk_mutex_def owner_check_bnd refresh_expire_def ..

definition held_by :: "store \<Rightarrow> string \<Rightarrow> string \<Rightarrow> bool" where
  "held_by st cid j \<longleftrightarrow> (\<exists>t. st (mutex_key cid) = Some (RString j, t))"

lemma mutex_ttl_pos [simp]: "0 < mutex_ttl cfg" "\<not> mutex_ttl cfg \<le> 0"
  by (simp_all add: mutex_ttl_def)

lemma held_by_unique: "held_by st c i \<Longrightarrow> held_by st c j \<Longrightarrow> i = j"
  by (auto simp: held_by_def)

lemma mutex_key_inj [simp]: "mutex_key c = mutex_key d \<longleftrightarrow> c = d"
  by (simp add: mutex_key_def)

lemma as_string_held: "as_string (st (mutex_key c)) = Some (Some j, t) \<Longrightarrow> held_by st c j"
  by (auto simp: as_string_def held_by_def split: option.splits rval.splits prod.splits)

context redis_server
begin

lemma acquire_sound:
  assumes "uses_redis cfg"
  shows "vtriple view (\<lambda>_. True) (try_acquire_collection_bulk_mutex srv cfg c j)
           (\<lambda>b st. b \<longrightarrow> held_by st c j) (\<lambda>_. True)"
proof -
  have "vtriple view (\<lambda>_. True) (acquire_attempt srv cfg c j) (\<lambda>b st. b \<longrightarrow> held_by st c j) (\<lambda>_. True)"
    unfolding acquire_attempt_eq
  proof (rule triple_bnd)
    show "vtriple view (\<lambda>_. True) (r_set srv (mutex_key c) j (Some (mutex_ttl cfg)) True)
        (\<lambda>b st. if b then held_by st c j else st (mutex_key c) \<noteq> None) (\<lambda>_. True)"
      by (rule vtriple_set) (auto simp: held_by_def)
    show "vtriple view (\<lambda>st. if ok then held_by st c j else st (mutex_key c) \<noteq> None)
        (if ok then ret True else bnd (r_get srv (mutex_key c)) (\<lambda>v. ret (or_else v [] = j)))
        (\<lambda>b st. b \<longrightarrow> held_by st c j) (\<lambda>_. True)" for ok
    proof (cases ok)
      case True
      then show ?thesis by (simp add: triple_ret)
    next
      case False
      have "vtriple view (\<lambda>st. st (mutex_key c) \<noteq> None)
          (bnd (r_get srv (mutex_key c)) (\<lambda>v. ret (or_else v [] = j))) (\<lambda>b st. b \<longrightarrow> held_by st c j) (\<lambda>_. True)"
      proof (rule triple_bnd)
        show "vtriple view (\<lambda>st. st (mutex_key c) \<noteq> None) (r_get srv (mutex_key c))
            (\<lambda>v st. \<exists>s. v = Some s \<and> held_by st c s) (\<lambda>_. True)"
          by (rule vtriple_get)
             (auto simp: as_string_def held_by_def split: option.splits rval.splits prod.splits)
      qed (auto intro: triple_ret)
      with False show ?thesis by simp
    qed
  qed
  then show ?thesis
    using assms unfolding try_acquire_collection_bulk_mutex_def uses_redis_def
    by (auto intro: triple_retry)
qed

lemma acquire_excluded:
  assumes "uses_redis cfg" and "i \<noteq> j"
  shows "vtriple view (\<lambda>st. held_by st c i) (try_acquire_collection_bulk_mutex srv cfg c j)
           (\<lambda>b st. \<not> b \<and> held_by st c i) (\<lambda>st. held_by st c i)"
proof -
  have "vtriple view (\<lambda>st. held_by st c i) (acquire_attempt srv cfg c j)
      (\<lambda>b st. \<not> b \<and> held_by st c i) (\<lambda>st. held_by st c i)"
    unfolding acquire_attempt_eq
  proof (rule triple_bnd)
    show "vtriple view (\<lambda>st. held_by st c i) (r_set srv (mutex_key c) j (Some (mutex_ttl cfg)) True)
        (\<lambda>b st. \<not> b \<and> held_by st c i) (\<lambda>st. held_by st c i)"
      by (rule vtriple_set) (auto simp: held_by_def redis_simps)
    have "vtriple view (\<lambda>st. held_by st c i)
        (bnd (r_get srv (mutex_key c)) (\<lambda>v. ret (or_else v [] = j)))
        (\<lambda>b st. \<not> b \<and> held_by st c i) (\<lambda>st. held_by st c i)"
    proof (rule triple_bnd)
      show "vtriple view (\<lambda>st. held_by st c i) (r_get srv (mutex_key c))
          (\<lambda>v st. v = Some i \<and> held_by st c i) (\<lambda>st. held_by st c i)"
        by (rule vtriple_get) (auto simp: held_by_def redis_simps)
    qed (use assms(2) in \<open>auto intro: triple_ret\<close>)
    then show "vtriple view (\<lambda>st. \<not> ok \<and> held_by st c i)
        (if ok then ret True else bnd (r_get srv (mutex_key c)) (\<lambda>v. ret (or_else v [] = j)))
        (\<lambda>b st. \<not> b \<and> held_by st c i) (\<lambda>st. held_by st c i)" for ok
      by (cases ok) (auto intro: triple_ret)
  qed
  then show ?thesis
    using assms unfolding try_acquire_collection_bulk_mutex_def uses_redis_def
    by (auto intro: triple_retry)
qed

lemma release_keeps_other:
  assumes "i \<noteq> j"
  shows "vpreserves view (\<lambda>st. held_by st c i) (release_collection_bulk_mutex srv cfg d j)"
proof -
  have "vpreserves view (\<lambda>st. held_by st c i)
      (bnd (r_get srv (mutex_key d)) (\<lambda>v.
         if v = Some j then bnd (r_delete srv [mutex_key d]) (\<lambda>_. ret ()) else ret ()))"
  proof (rule triple_bnd)
    show "vtriple view (\<lambda>st. held_by st c i) (r_get srv (mutex_key d))
        (\<lambda>v st. held_by st c i \<and> (v = Some j \<longrightarrow> c \<noteq> d)) (\<lambda>st. held_by st c i)"
      by (rule vtriple_get) (use assms in \<open>auto dest!: as_string_held dest: held_by_unique\<close>)
    show "vtriple view (\<lambda>st. held_by st c i \<and> (v = Some j \<longrightarrow> c \<noteq> d))
        (if v = Some j then bnd (r_delete srv [mutex_key d]) (\<lambda>_. ret ()) else ret ())
        (\<lambda>_ st. held_by st c i) (\<lambda>st. held_by st c i)" for v
      by (auto intro!: triple_if triple_bnd [where R = "\<lambda>_ w. held_by (view (rds w)) c i"] triple_ret vtriple_int
          simp: redis_simps held_by_def)
  qed
  then show ?thesis
    unfolding release_eq by (auto intro: triple_ret preserves_retry)
qed

lemma release_keeps_elsewhere:
  assumes "c \<noteq> d"
  shows "vpreserves view (\<lambda>st. held_by st c i) (release_collection_bulk_mutex srv cfg d j)"
proof -
  have "vpreserves view (\<lambda>st. held_by st c i)
      (bnd (r_get srv (mutex_key d)) (\<lambda>v.
         if v = Some j then bnd (r_delete srv [mutex_key d]) (\<lambda>_. ret ()) else ret ()))"
  proof (rule triple_bnd)
    show "vpreserves view (\<lambda>st. held_by st c i) (r_get srv (mutex_key d))"
      by (rule vtriple_get) auto
    show "vpreserves view (\<lambda>st. held_by st c i)
        (if v = Some j then bnd (r_delete srv [mutex_key d]) (\<lambda>_. ret ()) else ret ())" for v
      using assms
      by (auto intro!: triple_if triple_bnd [where R = "\<lambda>_ w. held_by (view (rds w)) c i"] triple_ret vtriple_int
          simp: redis_simps held_by_def)
  qed
  then show ?thesis
    unfolding release_eq by (auto intro: triple_ret preserves_retry)
qed

lemma refresh_keeps:
  "vpreserves view (\<lambda>st. held_by st c i) (refresh_collection_bulk_mutex srv cfg d j)"
proof -
  have "vpreserves view (\<lambda>st. held_by st c i)
      (bnd (r_get srv (mutex_key d)) (\<lambda>v.
         if v = Some j then bnd (r_expire srv (mutex_key d) (mutex_ttl cfg)) (\<lambda>_. ret ()) else ret ()))"
  proof (rule triple_bnd)
    show "vtriple view (\<lambda>st. held_by st c i) (r_get srv (mutex_key d))
        (\<lambda>_ st. held_by st c i) (\<lambda>st. held_by st c i)"
      by (rule vtriple_get) auto
    show "vtriple view (\<lambda>st. held_by st c i)
        (if v = Some j then bnd (r_expire srv (mutex_key d) (mutex_ttl cfg)) (\<lambda>_. ret ()) else ret ())
        (\<lambda>_ st. held_by st c i) (\<lambda>st. held_by st c i)" for v
      by (auto intro!: triple_if triple_bnd [where R = "\<lambda>_ w. held_by (view (rds w)) c i"] triple_ret vtriple_int
          simp: redis_simps held_by_def split: option.split)
  qed
  then show ?thesis
    unfolding refresh_eq by (auto intro: triple_ret preserves_retry)
qed

lemma acquire_keeps:
  "vpreserves view (\<lambda>st. held_by st c i) (try_acquire_collection_bulk_mutex srv cfg d j)"
proof -
  have "vpreserves view (\<lambda>st. held_by st c i) (acquire_attempt srv cfg d j)"
    unfolding acquire_attempt_eq
  proof (rule triple_bnd)
    show "vpreserves view (\<lambda>st. held_by st c i) (r_set srv (mutex_key d) j (Some (mutex_ttl cfg)) True)"
      by (rule vtriple_set) (auto simp: held_by_def redis_simps)
    have "vpreserves view (\<lambda>st. held_by st c i) (bnd (r_get srv (mutex_key d)) (\<lambda>v. ret (or_else v [] = j)))"
      by (rule triple_bnd [where R = "\<lambda>_ w. held_by (view (rds w)) c i"])
         (auto intro: triple_ret vtriple_get)
    then show "vpreserves view (\<lambda>st. held_by st c i)
        (if ok then ret True else bnd (r_get srv (mutex_key d)) (\<lambda>v. ret (or_else v [] = j)))" for ok
      by (auto intro: triple_if triple_ret)
  qed
  then show ?thesis
    unfolding try_acquire_collection_bulk_mutex_def by (auto intro: triple_ret preserves_retry)
qed

end

section \<open>Interleaved requests of several processes\<close>

text \<open>A run is an interleaving of the single Redis requests that the calls above make, by any processes
  for any jobs, together with the expiry of keys. The ghost state records which jobs believe they hold
  which collection (a job starts to believe it when the \<^verbatim>\<open>SET\<close> or the check of an acquire succeeds and
  stops when a release on its behalf starts, its own or the one of a process that reclaims its lock),
  and the releases that have read the job's id and not yet sent their \<^verbatim>\<open>DELETE\<close>. A request that fails
  is retried from the start of its call, which is a new request of the run.\<close>

datatype mutex_request =
    Acquire_set string string
  | Acquire_check string string
  | Release_get string string
  | Release_delete string string
  | Look string string
  | Refresh_expire string
  | Expiry string

type_synonym ('s, 'z) mutex_state =
  "('s, 'z) env_scheme \<times> (string \<times> string) set \<times> (string \<times> string) multiset"

inductive mutex_step ::
    "'s redis \<Rightarrow> ('s \<Rightarrow> store) \<Rightarrow> settings \<Rightarrow> mutex_request \<Rightarrow> ('s, 'z) mutex_state \<Rightarrow> ('s, 'z) mutex_state \<Rightarrow> bool"
  for srv view cfg where
  acquire_set: "acquire_set srv cfg c j w = (r, w') \<Longrightarrow>
     mutex_step srv view cfg (Acquire_set c j) (w, H, R) (w', if r = Inr True then insert (c, j) H else H, R)"
| acquire_check: "acquire_check srv c j w = (r, w') \<Longrightarrow>
     mutex_step srv view cfg (Acquire_check c j) (w, H, R) (w', if r = Inr True then insert (c, j) H else H, R)"
| release_get: "owner_check srv c j w = (r, w') \<Longrightarrow>
     mutex_step srv view cfg (Release_get c j) (w, H, R)
       (w', H - {(c, j)}, if r = Inr True then add_mset (c, j) R else R)"
| release_delete: "(c, j) \<in># R \<Longrightarrow> release_delete srv c w = (r, w') \<Longrightarrow>
     mutex_step srv view cfg (Release_delete c j) (w, H, R) (w', H, R - {#(c, j)#})"
| look: "owner_check srv c j w = (r, w') \<Longrightarrow> mutex_step srv view cfg (Look c j) (w, H, R) (w', H, R)"
| refresh_expire: "refresh_expire srv cfg c w = (r, w') \<Longrightarrow>
     mutex_step srv view cfg (Refresh_expire c) (w, H, R) (w', H, R)"
| expiry: "view (rds w') = (view (rds w))(mutex_key c := None) \<Longrightarrow>
     mutex_step srv view cfg (Expiry c) (w, H, R) (w', H, R)"

text \<open>The discipline under which exclusion holds. Job ids are not empty.\<close>

fun orderly :: "mutex_request \<Rightarrow> ('s, 'z) mutex_state \<Rightarrow> bool" where
  "orderly (Acquire_set c j) (w, H, R) \<longleftrightarrow> (c, j) \<notin># R"
| "orderly (Acquire_check c j) (w, H, R) \<longleftrightarrow> (c, j) \<notin># R \<and> j \<noteq> []"
| "orderly (Release_get c j) (w, H, R) \<longleftrightarrow> (c, j) \<notin># R"
| "orderly (Expiry c) (w, H, R) \<longleftrightarrow> (\<forall>(d, j) \<in> H \<union> set_mset R. d \<noteq> c)"
| "orderly _ _ \<longleftrightarrow> True"

inductive mutex_run ::
    "(mutex_request \<Rightarrow> ('s, 'z) mutex_state \<Rightarrow> bool) \<Rightarrow> 's redis \<Rightarrow> ('s \<Rightarrow> store) \<Rightarrow> settings \<Rightarrow>
     mutex_request list \<Rightarrow> ('s, 'z) mutex_state \<Rightarrow> ('s, 'z) mutex_state \<Rightarrow> bool"
  for disc srv view cfg where
  run_nil: "mutex_run disc srv view cfg [] s s"
| run_step: "disc e s \<Longrightarrow> mutex_step srv view cfg e s s' \<Longrightarrow> mutex_run disc srv view cfg es s' s'' \<Longrightarrow>
     mutex_run disc srv view cfg (e # es) s s''"

inductive_simps mutex_step_simps [simp]:
  "mutex_step srv view cfg (Acquire_set c j) (w, H, R) t"
  "mutex_step srv view cfg (Acquire_check c j) (w, H, R) t"
  "mutex_step srv view cfg (Release_get c j) (w, H, R) t"
  "mutex_step srv view cfg (Release_delete c j) (w, H, R) t"

inductive_simps mutex_run_simps [simp]:
  "mutex_run disc srv view cfg [] s t"
  "mutex_run disc srv view cfg (e # es) s t"

text \<open>The invariant: every believing job and every release under way has its id in the key, no job is
  in both, and no release is under way twice.\<close>

definition mutex_inv :: "('s \<Rightarrow> store) \<Rightarrow> ('s, 'z) mutex_state \<Rightarrow> bool" where
  "mutex_inv view s \<longleftrightarrow> (case s of (w, H, R) \<Rightarrow>
     (\<forall>c j. (c, j) \<in> H \<or> (c, j) \<in># R \<longrightarrow> held_by (view (rds w)) c j) \<and>
     (\<forall>x \<in># R. x \<notin> H \<and> count R x = 1))"

lemma mutex_inv_once:
  assumes "mutex_inv view (w, H, R)" and "x \<in># R - {#p#}"
  shows "x \<notin> H \<and> count (R - {#p#}) x = 1"
proof -
  have x: "x \<in># R" using assms(2) by (rule in_diffD)
  then have c: "x \<notin> H" "count R x = 1" using assms(1) by (auto simp: mutex_inv_def)
  have "x \<noteq> p" using assms(2) c(2) by (auto simp: in_diff_count)
  with c show ?thesis by simp
qed

lemma mutex_inv_step:
  assumes "mutex_inv view (w, H, R)"
    and "\<And>c j. (c, j) \<in> H' \<or> (c, j) \<in># R' \<Longrightarrow> held_by (view (rds w)) c j \<Longrightarrow> held_by (view (rds w')) c j"
    and "\<And>c j. (c, j) \<in> H' - H \<or> (c, j) \<in># R' - R \<Longrightarrow> held_by (view (rds w')) c j"
    and "\<And>x. x \<in># R' \<Longrightarrow> x \<notin> H' \<and> count R' x = 1"
  shows "mutex_inv view (w', H', R')"
proof -
  have "held_by (view (rds w')) c j" if "(c, j) \<in> H' \<or> (c, j) \<in># R'" for c j
  proof (cases "(c, j) \<in> H \<or> (c, j) \<in># R")
    case True
    then show ?thesis using assms(1) assms(2) [OF that] by (auto simp: mutex_inv_def)
  next
    case False
    then show ?thesis using that assms(3) [of c j] by (auto simp: in_diff_count not_in_iff)
  qed
  with assms(4) show ?thesis by (auto simp: mutex_inv_def)
qed

context redis_server
begin

lemma acquire_set_keeps: "vpreserves view (\<lambda>st. held_by st d i) (acquire_set srv cfg c j)"
  unfolding acquire_set_def by (rule vtriple_set) (auto simp: held_by_def redis_simps)

lemma acquire_set_sound:
  "vtriple view (\<lambda>_. True) (acquire_set srv cfg c j) (\<lambda>b st. b \<longrightarrow> held_by st c j) (\<lambda>_. True)"
  unfolding acquire_set_def by (rule vtriple_set) (auto simp: held_by_def)

lemma get_keeps: "vpreserves view I (bnd (r_get srv k) (\<lambda>v. ret (f v)))"
proof (rule triple_bnd)
  show "vpreserves view I (r_get srv k)" by (rule vtriple_get) auto
qed (simp add: triple_ret)

lemma owner_check_sound:
  "vtriple view (\<lambda>_. True) (owner_check srv c j) (\<lambda>b st. b \<longrightarrow> held_by st c j) (\<lambda>_. True)"
  unfolding owner_check_def
proof (rule triple_bnd)
  show "vtriple view (\<lambda>_. True) (r_get srv (mutex_key c)) (\<lambda>v st. v = Some j \<longrightarrow> held_by st c j) (\<lambda>_. True)"
    by (rule vtriple_get) (auto dest: as_string_held)
qed (auto simp: triple_def prog_simps)

lemma acquire_check_sound:
  assumes "j \<noteq> []"
  shows "vtriple view (\<lambda>_. True) (acquire_check srv c j) (\<lambda>b st. b \<longrightarrow> held_by st c j) (\<lambda>_. True)"
  unfolding acquire_check_def
proof (rule triple_bnd)
  show "vtriple view (\<lambda>_. True) (r_get srv (mutex_key c)) (\<lambda>v st. v = Some j \<longrightarrow> held_by st c j) (\<lambda>_. True)"
    by (rule vtriple_get) (auto dest: as_string_held)
qed (use assms in \<open>auto simp: triple_def prog_simps or_else_def split: option.splits\<close>)

lemma release_delete_keeps:
  "c \<noteq> d \<Longrightarrow> vpreserves view (\<lambda>st. held_by st d i) (release_delete srv c)"
  unfolding release_delete_def
  by (auto intro!: triple_bnd [where R = "\<lambda>_ w. held_by (view (rds w)) d i"] triple_ret vtriple_int
      simp: redis_simps held_by_def)

lemma refresh_expire_keeps: "vpreserves view (\<lambda>st. held_by st d i) (refresh_expire srv cfg c)"
  unfolding refresh_expire_def
  by (auto intro!: triple_bnd [where R = "\<lambda>_ w. held_by (view (rds w)) d i"] triple_ret vtriple_int
      simp: redis_simps held_by_def split: option.split)

lemma mutex_step_inv:
  assumes "mutex_step srv view cfg e s s'" and "orderly e s" and "mutex_inv view s"
  shows "mutex_inv view s'"
  using assms
proof (induction rule: mutex_step.induct)
  case (acquire_set c j w r w' H R)
  show ?case
  proof (rule mutex_inv_step [OF acquire_set(3)])
    show "held_by (view (rds w')) d i" if "held_by (view (rds w)) d i" for d i
      using preservesD [OF acquire_set_keeps that] acquire_set(1) by (metis snd_conv)
    show "held_by (view (rds w')) d i"
      if "(d, i) \<in> (if r = Inr True then insert (c, j) H else H) - H \<or> (d, i) \<in># R - R" for d i
      using that tripleD_ret [OF acquire_set_sound, where w = w] acquire_set(1) by (auto split: if_splits)
  qed (use acquire_set(2,3) in \<open>auto simp: mutex_inv_def\<close>)
next
  case (acquire_check c j w r w' H R)
  show ?case
  proof (rule mutex_inv_step [OF acquire_check(3)])
    show "held_by (view (rds w')) d i" if "held_by (view (rds w)) d i" for d i
      using preservesD [OF get_keeps [of "\<lambda>st. held_by st d i", folded acquire_check_def] that] acquire_check(1)
      by (metis acquire_check_def snd_conv)
    show "held_by (view (rds w')) d i"
      if "(d, i) \<in> (if r = Inr True then insert (c, j) H else H) - H \<or> (d, i) \<in># R - R" for d i
      using that tripleD_ret [OF acquire_check_sound, where w = w] acquire_check(1,2) by (auto split: if_splits)
  qed (use acquire_check(2,3) in \<open>auto simp: mutex_inv_def\<close>)
next
  case (release_get c j w r w' H R)
  show ?case
  proof (rule mutex_inv_step [OF release_get(3)])
    show "held_by (view (rds w')) d i" if "held_by (view (rds w)) d i" for d i
      using preservesD [OF get_keeps [of "\<lambda>st. held_by st d i"] that] release_get(1)
      by (metis owner_check_def snd_conv)
    show "held_by (view (rds w')) d i"
      if "(d, i) \<in> H - {(c, j)} - H \<or> (d, i) \<in># (if r = Inr True then add_mset (c, j) R else R) - R" for d i
      using that tripleD_ret [OF owner_check_sound, where w = w] release_get(1) by (auto split: if_splits)
  qed (use release_get(2,3) in \<open>auto simp: mutex_inv_def not_in_iff split: if_splits\<close>)
next
  case (release_delete c j R w r w' H)
  have u: "d \<noteq> c" if "(d, i) \<in> H \<or> (d, i) \<in># R - {#(c, j)#}" for d i
  proof
    assume "d = c"
    with that have "(c, i) \<in> H \<or> (c, i) \<in># R" by (auto dest: in_diffD)
    with release_delete(1,4) have "held_by (view (rds w)) c i" "held_by (view (rds w)) c j"
      by (auto simp: mutex_inv_def)
    then have "i = j" by (rule held_by_unique)
    with that \<open>d = c\<close> release_delete(1,4) show False by (auto simp: mutex_inv_def in_diff_count)
  qed
  show ?case
  proof (rule mutex_inv_step [OF release_delete(4)])
    show "held_by (view (rds w')) d i"
      if "(d, i) \<in> H \<or> (d, i) \<in># R - {#(c, j)#}" "held_by (view (rds w)) d i" for d i
      using preservesD [OF release_delete_keeps [of c d i] that(2)] u [OF that(1)] release_delete(2)
      by (metis snd_conv)
    show "held_by (view (rds w')) d i" if "(d, i) \<in> H - H \<or> (d, i) \<in># R - {#(c, j)#} - R" for d i
      using that by (auto simp: in_diff_count)
  qed (rule mutex_inv_once [OF release_delete(4)])
next
  case (look c j w r w' H R)
  show ?case
  proof (rule mutex_inv_step [OF look(3)])
    show "held_by (view (rds w')) d i" if "held_by (view (rds w)) d i" for d i
      using preservesD [OF get_keeps [of "\<lambda>st. held_by st d i"] that] look(1) by (metis owner_check_def snd_conv)
  qed (use look(3) in \<open>auto simp: mutex_inv_def\<close>)
next
  case (refresh_expire c w r w' H R)
  show ?case
  proof (rule mutex_inv_step [OF refresh_expire(3)])
    show "held_by (view (rds w')) d i" if "held_by (view (rds w)) d i" for d i
      using preservesD [OF refresh_expire_keeps that] refresh_expire(1) by (metis snd_conv)
  qed (use refresh_expire(3) in \<open>auto simp: mutex_inv_def\<close>)
next
  case (expiry w' w c H R)
  then show ?case by (auto simp: mutex_inv_def held_by_def)
qed

lemma mutex_run_inv:
  assumes "mutex_run orderly srv view cfg es s s'" and "mutex_inv view s"
  shows "mutex_inv view s'"
  using assms by (induction rule: mutex_run.induct) (auto intro: mutex_step_inv)

end

section \<open>The counters when the server answers\<close>

definition counter_is :: "store \<Rightarrow> string \<Rightarrow> nat \<Rightarrow> bool" where
  "counter_is st key n \<longleftrightarrow>
     (if n = 0 then st key = None else \<exists>t. st key = Some (RString (int_str (int n)), t))"

context redis_up
begin

lemma incr_counter_refines:
  assumes "counter_is (view (rds w)) key n" and "int n + 1 < 2 ^ 63"
  shows "fst (incr_counter srv cfg key w) = Inr ()"
    and "counter_is (view (rds (snd (incr_counter srv cfg key w)))) key (Suc n)"
    and "k \<noteq> key \<Longrightarrow> view (rds (snd (incr_counter srv cfg key w))) k = view (rds w) k"
proof -
  have a: "add64 (int n) 1 = Some (int (Suc n))" using assms(2) by (simp add: add64_def)
  have z: "add64 0 1 = Some 1" by (simp add: add64_def)
  have r: "redis_int (int_str (int n)) = Some (int n)" using assms(2) by simp
  have "\<exists>t. view (rds w) key = (if n = 0 then None else Some (RString (int_str (int n)), t))"
    using assms(1) by (auto simp: counter_is_def)
  then obtain t where v: "view (rds w) key = (if n = 0 then None else Some (RString (int_str (int n)), t))" ..
  show "fst (incr_counter srv cfg key w) = Inr ()"
    "counter_is (view (rds (snd (incr_counter srv cfg key w)))) key (Suc n)"
    "k \<noteq> key \<Longrightarrow> view (rds (snd (incr_counter srv cfg key w))) k = view (rds w) k"
    using a z r v
    by (cases "n = 0"; simp add: incr_counter_def prog_simps redis_simps counter_is_def DEFAULT_INFLIGHT_TTL_SECONDS_def)+
qed

lemma decr_counter_refines:
  assumes "counter_is (view (rds w)) key n" and "int n < 2 ^ 63"
  shows "fst (decr_counter srv cfg key w) = Inr ()"
    and "counter_is (view (rds (snd (decr_counter srv cfg key w)))) key (n - 1)"
    and "k \<noteq> key \<Longrightarrow> view (rds (snd (decr_counter srv cfg key w))) k = view (rds w) k"
proof -
  have a: "add64 (int n) (- 1) = Some (int n - 1)" using assms(2) by (simp add: add64_def)
  have z: "add64 0 (- 1) = Some (- 1)" by (simp add: add64_def)
  have r: "redis_int (int_str (int n)) = Some (int n)" using assms(2) by simp
  have "\<exists>t. view (rds w) key = (if n = 0 then None else Some (RString (int_str (int n)), t))"
    using assms(1) by (auto simp: counter_is_def)
  then obtain t where v: "view (rds w) key = (if n = 0 then None else Some (RString (int_str (int n)), t))" ..
  consider "n = 0" | "n = 1" | m where "n = Suc (Suc m)" by (cases n rule: nat.exhaust) (metis One_nat_def not0_implies_Suc)+
  then show "fst (decr_counter srv cfg key w) = Inr ()"
    "counter_is (view (rds (snd (decr_counter srv cfg key w)))) key (n - 1)"
    "k \<noteq> key \<Longrightarrow> view (rds (snd (decr_counter srv cfg key w))) k = view (rds w) k"
    using a z r v
    by (cases; simp add: decr_counter_def prog_simps redis_simps counter_is_def)+
qed

lemma counter_positive_refines:
  assumes "counter_is (view (rds w)) key n"
  shows "fst (counter_positive srv cfg key w) = Inr (0 < n)"
    and "view (rds (snd (counter_positive srv cfg key w))) = view (rds w)"
proof -
  have "\<exists>t. view (rds w) key = (if n = 0 then None else Some (RString (int_str (int n)), t))"
    using assms by (auto simp: counter_is_def)
  then obtain t where v: "view (rds w) key = (if n = 0 then None else Some (RString (int_str (int n)), t))" ..
  then show "fst (counter_positive srv cfg key w) = Inr (0 < n)"
    "view (rds (snd (counter_positive srv cfg key w))) = view (rds w)"
    by (cases "n = 0"; simp add: counter_positive_def prog_simps redis_simps)+
qed

end

text \<open>The abstract counter: work started adds one, work finished takes one away but not below zero.\<close>

datatype activity_op = Started | Finished

fun activity_spec :: "activity_op list \<Rightarrow> nat \<Rightarrow> nat" where
  "activity_spec [] n = n"
| "activity_spec (Started # es) n = activity_spec es (Suc n)"
| "activity_spec (Finished # es) n = activity_spec es (n - 1)"

fun activity_run :: "'s redis \<Rightarrow> settings \<Rightarrow> string \<Rightarrow> activity_op list \<Rightarrow> (('s, 'z) env_scheme, unit) prog" where
  "activity_run srv cfg c [] = ret ()"
| "activity_run srv cfg c (Started # es) =
     bnd (incr_collection_bulk_activity srv cfg c) (\<lambda>_. activity_run srv cfg c es)"
| "activity_run srv cfg c (Finished # es) =
     bnd (decr_collection_bulk_activity srv cfg c) (\<lambda>_. activity_run srv cfg c es)"

context redis_up
begin

lemma activity_run_refines:
  assumes "uses_redis cfg" and "counter_is (view (rds w)) (inflight_key c) n"
    and "int n + int (length es) < 2 ^ 63"
  shows "counter_is (view (rds (snd (activity_run srv cfg c es w)))) (inflight_key c) (activity_spec es n)"
  using assms(2,3)
proof (induction es arbitrary: w n)
  case Nil
  then show ?case by (simp add: prog_simps)
next
  case (Cons e es)
  show ?case
  proof (cases e)
    case Started
    note i = incr_counter_refines [OF Cons.prems(1), where cfg = cfg]
    show ?thesis
      using i Cons.prems Cons.IH [OF i(2)] assms(1) Started
      by (simp add: incr_collection_bulk_activity_def uses_redis_def prog_simps)
  next
    case Finished
    note d = decr_counter_refines [OF Cons.prems(1), where cfg = cfg]
    show ?thesis
      using d Cons.prems Cons.IH [OF d(2)] assms(1) Finished
      by (simp add: decr_collection_bulk_activity_def uses_redis_def prog_simps)
  qed
qed

end

section \<open>Properties\<close>

text \<open>C4: Mutual exclusion. Over any interleaving of the single requests of acquires, releases, refreshes
  and look-ups by any processes, against any server that keeps the documented laws (it may drop
  requests and lose replies), two jobs that both believe they hold the bulk mutex of the same
  collection are the same job, and the key holds its id. Other jobs' requests may fall between the \<^verbatim>\<open>GET\<close>
  and the \<^verbatim>\<open>DELETE\<close> of a release. The run is taken to be \<^term>\<open>orderly\<close>: a collection's key does not expire while
  a job believes it holds the collection or a release of it is under way; while a release on behalf
  of a job is between its \<^verbatim>\<open>GET\<close> and its \<^verbatim>\<open>DELETE\<close> no other acquire or release for the same job and
  collection sends a request; and job ids are not empty.\<close>

theorem bulk_mutex_exclusive:
  assumes "redis_server srv view"
    and "mutex_run orderly srv view cfg es (w, {}, {#}) (w', H, R)" and "(c, i) \<in> H" and "(c, j) \<in> H"
  shows "i = j \<and> held_by (view (rds w')) c i"
proof -
  have "mutex_inv view (w', H, R)"
    by (rule redis_server.mutex_run_inv [OF assms(1,2)]) (simp add: mutex_inv_def)
  then have "held_by (view (rds w')) c i" "held_by (view (rds w')) c j"
    using assms(3,4) by (auto simp: mutex_inv_def)
  then show ?thesis by (auto dest: held_by_unique)
qed

text \<open>In the witness job \<^verbatim>\<open>b\<close> asks while the release of job \<^verbatim>\<open>a\<close> is between its two requests, is refused,
  and gets the lock after the \<^verbatim>\<open>DELETE\<close>.\<close>

definition handover :: "mutex_request list" where
  "handover = [Acquire_set ''c'' ''a'', Acquire_set ''c'' ''b'', Acquire_check ''c'' ''b'', Release_get ''c'' ''a'',
     Acquire_set ''c'' ''b'', Release_delete ''c'' ''a'', Acquire_set ''c'' ''b'']"

definition lock_state :: "string \<Rightarrow> (string \<times> rval \<times> int option) list env" where
  "lock_state j = env0 [(mutex_key ''c'', RString j, Some (mutex_ttl default_settings))]"

lemma lock_state_steps:
  "acquire_set mem_srv default_settings ''c'' j (env0 []) = (Inr True, lock_state j)"
  "acquire_set mem_srv default_settings ''c'' j (lock_state i) = (Inr False, lock_state i)"
  "acquire_check mem_srv ''c'' j (lock_state i) = (Inr (i = j), lock_state i)"
  "owner_check mem_srv ''c'' j (lock_state i) = (Inr (i = j), lock_state i)"
  "release_delete mem_srv ''c'' (lock_state i) = (Inr (), env0 [])"
  by (simp_all add: acquire_set_def acquire_check_def owner_check_def release_delete_def lock_state_def env0_def
      client_defs rcall_def bnd_def ret_def mem_srv_determined redis_spec_def mem_writes_def as_string_def or_else_def)

theorem bulk_mutex_exclusive_witness:
  "mutex_run orderly mem_srv map_of default_settings handover (env0 [], {}, {#}) (lock_state ''b'', {(''c'', ''b'')}, {#})
   \<and> held_by (map_of (rds (lock_state ''b''))) ''c'' ''b''"
proof -
  have r: "mutex_run orderly mem_srv map_of default_settings handover (env0 [], {}, {#}) (lock_state ''b'', {(''c'', ''b'')}, {#})"
    by (simp add: handover_def lock_state_steps)
  from bulk_mutex_exclusive [OF mem.redis_server_axioms r, of "''c''" "''b''" "''b''"]
  show ?thesis using r by simp
qed

text \<open>The discipline is needed. When two processes release the same job's lock at the same time (its
  own, and one that reclaims it, say), both can read the job's id before either deletes; if another
  job acquires the lock after the first \<^verbatim>\<open>DELETE\<close>, the second takes it away, and a third job acquires
  it while the other still believes it holds it.\<close>

theorem concurrent_releases_break_exclusion:
  "\<exists>es. mutex_run (\<lambda>_ _. True) mem_srv map_of default_settings es (env0 [], {}, {#})
     (lock_state ''d'', {(''c'', ''b''), (''c'', ''d'')}, {#})"
  by (rule exI [of _ "[Acquire_set ''c'' ''a'', Release_get ''c'' ''a'', Release_get ''c'' ''a'', Release_delete ''c'' ''a'',
       Acquire_set ''c'' ''b'', Release_delete ''c'' ''a'', Acquire_set ''c'' ''d'']"])
     (simp add: lock_state_steps insert_commute)

text \<open>The acquire is safe to retry. Whatever requests are dropped or replies lost on the way, if
  \<^verbatim>\<open>try_acquire_collection_bulk_mutex\<close> returns \<^verbatim>\<open>True\<close> then the key holds the caller's job id, and while
  another job holds the key it never returns \<^verbatim>\<open>True\<close> and never takes the key away.\<close>

theorem bulk_mutex_acquire_safe:
  assumes "redis_server srv view" and "uses_redis cfg"
  shows "(fst (try_acquire_collection_bulk_mutex srv cfg c j w) = Inr True \<longrightarrow>
            held_by (view (rds (snd (try_acquire_collection_bulk_mutex srv cfg c j w)))) c j) \<and>
         (held_by (view (rds w)) c i \<and> i \<noteq> j \<longrightarrow>
            fst (try_acquire_collection_bulk_mutex srv cfg c j w) \<noteq> Inr True \<and>
            held_by (view (rds (snd (try_acquire_collection_bulk_mutex srv cfg c j w)))) c i)"
proof (intro conjI impI)
  let ?m = "try_acquire_collection_bulk_mutex srv cfg c j"
  show "held_by (view (rds (snd (?m w)))) c j" if "fst (?m w) = Inr True"
    using tripleD_fst [OF redis_server.acquire_sound [OF assms] _ that] by simp
  assume h: "held_by (view (rds w)) c i \<and> i \<noteq> j"
  then have t: "vtriple view (\<lambda>st. held_by st c i) ?m (\<lambda>b st. \<not> b \<and> held_by st c i) (\<lambda>st. held_by st c i)"
    using redis_server.acquire_excluded [OF assms] by blast
  show "fst (?m w) \<noteq> Inr True" using tripleD_fst [OF t, of w True] h by auto
  show "held_by (view (rds (snd (?m w)))) c i"
    using tripleD_fst [OF t, of w] tripleD_fst_exn [OF t, of w] h by (cases "fst (?m w)") auto
qed

theorem bulk_mutex_acquire_safe_witness:
  "fst (try_acquire_collection_bulk_mutex lossy_srv default_settings ''c'' ''a'' (env0 (1, []))) = Inr True
   \<and> held_by (map_of (snd (rds (snd (try_acquire_collection_bulk_mutex lossy_srv default_settings ''c'' ''a''
        (env0 (1, [])))))) ) ''c'' ''a''"
proof -
  have "fst (try_acquire_collection_bulk_mutex lossy_srv default_settings ''c'' ''a'' (env0 (1, []))) = Inr True"
    by code_simp
  with bulk_mutex_acquire_safe [OF lossy.redis_server_axioms uses_redis_default, of "''c''" "''a''" "env0 (1, [])"]
  show ?thesis by blast
qed

text \<open>The life of a free lock, when the server answers: the first job to ask gets it and becomes the
  holder, a second job is refused, and after the holder's release the collection is free again.\<close>

theorem bulk_mutex_life_cycle:
  assumes "redis_up srv view" and "uses_redis cfg" and "view (rds w) (mutex_key c) = None"
    and "i \<noteq> []" and "i \<noteq> j"
  defines "w1 \<equiv> snd (try_acquire_collection_bulk_mutex srv cfg c i w)"
  defines "w2 \<equiv> snd (try_acquire_collection_bulk_mutex srv cfg c j w1)"
  defines "w3 \<equiv> snd (release_collection_bulk_mutex srv cfg c i w2)"
  shows "fst (try_acquire_collection_bulk_mutex srv cfg c i w) = Inr True \<and>
         fst (get_collection_bulk_mutex_holder srv cfg c w1) = Inr (Some i) \<and>
         fst (try_acquire_collection_bulk_mutex srv cfg c j w1) = Inr False \<and>
         fst (release_collection_bulk_mutex srv cfg c i w2) = Inr () \<and>
         view (rds w3) = view (rds w)"
  using assms(2-5) unfolding w1_def w2_def w3_def
  by (simp add: try_acquire_collection_bulk_mutex_def acquire_attempt_eq get_collection_bulk_mutex_holder_def
      release_eq uses_redis_def prog_simps redis_simps
      redis_up.eval_get [OF assms(1)] redis_up.eval_set [OF assms(1)] redis_up.up_view1 [OF assms(1)]
      redis_up.eval_int [OF assms(1)] fun_eq_iff)

theorem bulk_mutex_life_cycle_witness:
  "fst (try_acquire_collection_bulk_mutex mem_srv default_settings ''c'' ''a'' (env0 [])) = Inr True"
  using bulk_mutex_life_cycle [OF mem.redis_up_axioms uses_redis_default, of "env0 []" "''c''" "''a''" "''b''"]
  by simp

text \<open>The in-flight counter of a collection refines a natural number: after any sequence of starts
  and finishes of bulk work the key holds exactly the abstract count (and is absent at zero), and
  \<^verbatim>\<open>collection_has_bulk_activity\<close> answers whether that count is positive.\<close>

theorem bulk_activity_refines_counter:
  assumes "redis_up srv view" and "uses_redis cfg" and "counter_is (view (rds w)) (inflight_key c) n"
    and "int n + int (length es) < 2 ^ 63"
  defines "w' \<equiv> snd (activity_run srv cfg c es w)"
  shows "counter_is (view (rds w')) (inflight_key c) (activity_spec es n) \<and>
         fst (collection_has_bulk_activity srv cfg c w') = Inr (0 < activity_spec es n)"
proof -
  have c: "counter_is (view (rds w')) (inflight_key c) (activity_spec es n)"
    unfolding w'_def by (rule redis_up.activity_run_refines [OF assms(1-4)])
  then show ?thesis
    using redis_up.counter_positive_refines(1) [OF assms(1) c] assms(2)
    by (simp add: collection_has_bulk_activity_def uses_redis_def)
qed

theorem bulk_activity_refines_counter_witness:
  "fst (collection_has_bulk_activity mem_srv default_settings ''c''
     (snd (activity_run mem_srv default_settings ''c'' [Started, Started, Finished] (env0 [])))) = Inr True"
  using bulk_activity_refines_counter [OF mem.redis_up_axioms uses_redis_default,
      of "env0 []" "''c''" 0 "[Started, Started, Finished]"]
  by (simp add: counter_is_def)

text \<open>The counter is not safe to retry: when the reply to the \<^verbatim>\<open>INCR\<close> is lost after the server
  carried it out, the retry counts the same piece of work twice, and the one matching finish leaves
  the collection busy.\<close>

theorem bulk_activity_lost_reply_counts_twice:
  "let w1 = snd (incr_collection_bulk_activity lossy_srv default_settings ''c'' (env0 (1, [])));
       w2 = snd (decr_collection_bulk_activity lossy_srv default_settings ''c'' w1)
   in fst (incr_collection_bulk_activity lossy_srv default_settings ''c'' (env0 (1, []))) = Inr () \<and>
      fst (decr_collection_bulk_activity lossy_srv default_settings ''c'' w1) = Inr () \<and>
      fst (collection_has_bulk_activity lossy_srv default_settings ''c'' w2) = Inr True"
  by code_simp

end
