(* ===== verification/Py_Json.thy ===== *)
theory Py_Json
  imports Py_Text "HOL-Library.AList"
begin

text \<open>
  Python's \<^verbatim>\<open>json.dumps\<close> and \<^verbatim>\<open>json.loads\<close> on the documents the queues exchange.
  A document is null, a boolean, an integer, a float, a string, a list or a dict (an
  association list with distinct keys, in insertion order). A float is kept as its positional
  literal: sign, integral part and the digits after the point, which is what \<^verbatim>\<open>repr\<close> prints for
  magnitudes between \<^verbatim>\<open>1e-4\<close> and \<^verbatim>\<open>1e16\<close>; literals with an exponent are outside the model.
  \<open>dumps\<close> escapes as \<^verbatim>\<open>ensure_ascii\<close> does. The parser spends one unit of fuel per nested call
  and \<open>loads\<close> gives it one more than the text is long; \<open>loads_dumps\<close> shows that this is enough
  for every printed document.
\<close>

datatype json =
    JNull
  | JBool bool
  | JInt int
  | JDec bool nat string
  | JStr string
  | JArr "json list"
  | JObj "(string \<times> json) list"

section \<open>Printing\<close>

definition hex_char :: "nat \<Rightarrow> char" where
  "hex_char d = (if d < 10 then char_of (48 + d) else char_of (87 + d))"

definition json_escape_char :: "char \<Rightarrow> string" where
  "json_escape_char c = (let n = (of_char c :: nat) in
     if c = CHR 0x22 then [CHR 0x5C, CHR 0x22]
     else if c = CHR 0x5C then [CHR 0x5C, CHR 0x5C]
     else if c = CHR 0x0A then [CHR 0x5C, CHR ''n'']
     else if c = CHR 0x0D then [CHR 0x5C, CHR ''r'']
     else if c = CHR 0x09 then [CHR 0x5C, CHR ''t'']
     else if c = CHR 0x0C then [CHR 0x5C, CHR ''f'']
     else if c = CHR 0x08 then [CHR 0x5C, CHR ''b'']
     else if 32 \<le> n \<and> n \<le> 126 then [c]
     else [CHR 0x5C, CHR ''u'', CHR ''0'', CHR ''0'', hex_char (n div 16), hex_char (n mod 16)])"

definition json_string :: "string \<Rightarrow> string" where
  "json_string s = [CHR 0x22] @ concat (map json_escape_char s) @ [CHR 0x22]"

fun dumps_sep :: "string \<Rightarrow> string \<Rightarrow> json \<Rightarrow> string"
  and dumps_elems :: "string \<Rightarrow> string \<Rightarrow> json list \<Rightarrow> string"
  and dumps_pairs :: "string \<Rightarrow> string \<Rightarrow> (string \<times> json) list \<Rightarrow> string" where
  "dumps_sep i k JNull = ''null''"
| "dumps_sep i k (JBool b) = (if b then ''true'' else ''false'')"
| "dumps_sep i k (JInt n) = int_str n"
| "dumps_sep i k (JDec neg n f) = (if neg then ''-'' else []) @ nat_str n @ ''.'' @ f"
| "dumps_sep i k (JStr s) = json_string s"
| "dumps_sep i k (JArr xs) = ''['' @ dumps_elems i k xs @ '']''"
| "dumps_sep i k (JObj ps) = ''{'' @ dumps_pairs i k ps @ ''}''"
| "dumps_elems i k [] = []"
| "dumps_elems i k [x] = dumps_sep i k x"
| "dumps_elems i k (x # y # zs) = dumps_sep i k x @ i @ dumps_elems i k (y # zs)"
| "dumps_pairs i k [] = []"
| "dumps_pairs i k [(n, x)] = json_string n @ k @ dumps_sep i k x"
| "dumps_pairs i k ((n, x) # y # zs) = json_string n @ k @ dumps_sep i k x @ i @ dumps_pairs i k (y # zs)"

text \<open>\<^verbatim>\<open>json.dumps(x)\<close> and \<^verbatim>\<open>json.dumps(x, separators=(",", ":"))\<close>.\<close>

definition dumps :: "json \<Rightarrow> string" where
  "dumps = dumps_sep '', '' '': ''"

definition dumps_compact :: "json \<Rightarrow> string" where
  "dumps_compact = dumps_sep '','' '':''"

section \<open>Parsing\<close>

definition is_json_ws :: "char \<Rightarrow> bool" where
  "is_json_ws c \<longleftrightarrow> (of_char c :: nat) \<in> {32, 9, 10, 13}"

definition skip_ws :: "string \<Rightarrow> string" where
  "skip_ws = dropWhile is_json_ws"

definition json_unescape :: "char \<Rightarrow> char option" where
  "json_unescape d =
     (if d = CHR 0x22 then Some (CHR 0x22) else if d = CHR 0x5C then Some (CHR 0x5C)
      else if d = CHR ''/'' then Some (CHR ''/'') else if d = CHR ''n'' then Some (CHR 0x0A)
      else if d = CHR ''r'' then Some (CHR 0x0D) else if d = CHR ''t'' then Some (CHR 0x09)
      else if d = CHR ''f'' then Some (CHR 0x0C) else if d = CHR ''b'' then Some (CHR 0x08)
      else None)"

definition hex4 :: "char \<Rightarrow> char \<Rightarrow> char \<Rightarrow> char \<Rightarrow> char option" where
  "hex4 a b c d =
     (case (digit_val 16 a, digit_val 16 b, digit_val 16 c, digit_val 16 d) of
        (Some 0, Some 0, Some x, Some y) \<Rightarrow> Some (char_of (16 * x + y))
      | _ \<Rightarrow> None)"

fun p_str :: "string \<Rightarrow> (string \<times> string) option" where
  "p_str [] = None"
| "p_str (c # cs) =
     (if c = CHR 0x22 then Some ([], cs)
      else if c = CHR 0x5C then
        (case cs of
           [] \<Rightarrow> None
         | d # ds \<Rightarrow>
             if d = CHR ''u'' then
               (case ds of
                  h1 # h2 # h3 # h4 # r \<Rightarrow>
                    (case hex4 h1 h2 h3 h4 of
                       None \<Rightarrow> None
                     | Some e \<Rightarrow> map_option (map_prod (Cons e) id) (p_str r))
                | _ \<Rightarrow> None)
             else (case json_unescape d of
                     None \<Rightarrow> None
                   | Some e \<Rightarrow> map_option (map_prod (Cons e) id) (p_str ds)))
      else if (of_char c :: nat) < 32 then None
      else map_option (map_prod (Cons c) id) (p_str cs))"

definition p_nat :: "string \<Rightarrow> (nat \<times> string) option" where
  "p_nat s =
     (case s of
        [] \<Rightarrow> None
      | c # cs \<Rightarrow>
          if c = CHR ''0'' then Some (0, cs)
          else if is_ascii_digit c then
            map_option (\<lambda>n. (n, dropWhile is_ascii_digit s)) (digits_us 10 False 0 (takeWhile is_ascii_digit s))
          else None)"

definition p_frac :: "string \<Rightarrow> (string \<times> string) option" where
  "p_frac s =
     (case s of
        [] \<Rightarrow> None
      | c # cs \<Rightarrow>
          if c = CHR ''.'' \<and> takeWhile is_ascii_digit cs \<noteq> []
          then Some (takeWhile is_ascii_digit cs, dropWhile is_ascii_digit cs) else None)"

definition p_num_signed :: "bool \<Rightarrow> string \<Rightarrow> (json \<times> string) option" where
  "p_num_signed neg s =
     (case p_nat s of
        None \<Rightarrow> None
      | Some (n, r) \<Rightarrow>
          (case p_frac r of
             None \<Rightarrow> Some (JInt (if neg then - int n else int n), r)
           | Some (f, r') \<Rightarrow> Some (JDec neg n f, r')))"

definition p_num :: "string \<Rightarrow> (json \<times> string) option" where
  "p_num s =
     (case s of
        [] \<Rightarrow> None
      | c # cs \<Rightarrow> if c = CHR ''-'' then p_num_signed True cs else p_num_signed False s)"

definition mk_dict :: "(string \<times> 'v) list \<Rightarrow> (string \<times> 'v) list" where
  "mk_dict ps = foldl (\<lambda>d (k, v). AList.update k v d) [] ps"

fun p_value :: "nat \<Rightarrow> string \<Rightarrow> (json \<times> string) option"
  and p_elems :: "nat \<Rightarrow> string \<Rightarrow> (json list \<times> string) option"
  and p_pairs :: "nat \<Rightarrow> string \<Rightarrow> ((string \<times> json) list \<times> string) option" where
  "p_value 0 s = None"
| "p_value (Suc n) s =
     (case skip_ws s of
        [] \<Rightarrow> None
      | c # cs \<Rightarrow>
          if c = CHR 0x22 then map_option (map_prod JStr id) (p_str cs)
          else if c = CHR ''['' then
            (case skip_ws cs of
               [] \<Rightarrow> None
             | d # ds \<Rightarrow> if d = CHR '']'' then Some (JArr [], ds)
                         else map_option (map_prod JArr id) (p_elems n cs))
          else if c = CHR ''{'' then
            (case skip_ws cs of
               [] \<Rightarrow> None
             | d # ds \<Rightarrow> if d = CHR ''}'' then Some (JObj [], ds)
                         else map_option (map_prod (\<lambda>ps. JObj (mk_dict ps)) id) (p_pairs n cs))
          else if starts_with ''null'' (c # cs) then Some (JNull, drop 4 (c # cs))
          else if starts_with ''true'' (c # cs) then Some (JBool True, drop 4 (c # cs))
          else if starts_with ''false'' (c # cs) then Some (JBool False, drop 5 (c # cs))
          else p_num (c # cs))"
| "p_elems 0 s = None"
| "p_elems (Suc n) s =
     (case p_value n s of
        None \<Rightarrow> None
      | Some (v, r) \<Rightarrow>
          (case skip_ws r of
             [] \<Rightarrow> None
           | d # ds \<Rightarrow>
               if d = CHR '']'' then Some ([v], ds)
               else if d = CHR '','' then map_option (map_prod (Cons v) id) (p_elems n ds)
               else None))"
| "p_pairs 0 s = None"
| "p_pairs (Suc n) s =
     (case skip_ws s of
        [] \<Rightarrow> None
      | q # qs \<Rightarrow>
          if q \<noteq> CHR 0x22 then None
          else (case p_str qs of
             None \<Rightarrow> None
           | Some (key, r) \<Rightarrow>
               (case skip_ws r of
                  [] \<Rightarrow> None
                | col # cr \<Rightarrow>
                    if col \<noteq> CHR '':'' then None
                    else (case p_value n cr of
                       None \<Rightarrow> None
                     | Some (v, r2) \<Rightarrow>
                         (case skip_ws r2 of
                            [] \<Rightarrow> None
                          | d # ds \<Rightarrow>
                              if d = CHR ''}'' then Some ([(key, v)], ds)
                              else if d = CHR '','' then map_option (map_prod (Cons (key, v)) id) (p_pairs n ds)
                              else None)))))"

definition loads :: "string \<Rightarrow> exn + json" where
  "loads s =
     (case p_value (Suc (length s)) s of
        None \<Rightarrow> Inl ValueError
      | Some (j, r) \<Rightarrow> if skip_ws r = [] then Inr j else Inl ValueError)"

section \<open>Reading decoded documents\<close>

text \<open>Python truth value of a decoded document, and \<^verbatim>\<open>d[key]\<close> / \<^verbatim>\<open>d.get(key)\<close> on a decoded dict.\<close>

fun truthy :: "json \<Rightarrow> bool" where
  "truthy JNull = False"
| "truthy (JBool b) = b"
| "truthy (JInt i) = (i \<noteq> 0)"
| "truthy (JDec neg n f) = (n \<noteq> 0 \<or> \<not> list_all (\<lambda>c. c = CHR ''0'') f)"
| "truthy (JStr s) = (s \<noteq> [])"
| "truthy (JArr xs) = (xs \<noteq> [])"
| "truthy (JObj ps) = (ps \<noteq> [])"

definition json_obj :: "json \<Rightarrow> exn + (string \<times> json) list" where
  "json_obj j = (case j of JObj ps \<Rightarrow> Inr ps | _ \<Rightarrow> Inl TypeError)"

definition jget :: "(string \<times> json) list \<Rightarrow> string \<Rightarrow> json" where
  "jget d k = (case map_of d k of None \<Rightarrow> JNull | Some v \<Rightarrow> v)"

definition jreq :: "(string \<times> json) list \<Rightarrow> string \<Rightarrow> exn + json" where
  "jreq d k = (case map_of d k of None \<Rightarrow> Inl KeyError | Some v \<Rightarrow> Inr v)"

section \<open>Round trip\<close>

fun json_ok :: "json \<Rightarrow> bool" where
  "json_ok (JDec neg n f) \<longleftrightarrow> f \<noteq> [] \<and> list_all is_ascii_digit f"
| "json_ok (JArr xs) \<longleftrightarrow> (\<forall>x\<in>set xs. json_ok x)"
| "json_ok (JObj ps) \<longleftrightarrow> distinct (map fst ps) \<and> (\<forall>p\<in>set ps. json_ok (snd p))"
| "json_ok _ \<longleftrightarrow> True"

definition stops :: "string \<Rightarrow> bool" where
  "stops r \<longleftrightarrow> r = [] \<or> (\<not> is_ascii_digit (hd r) \<and> hd r \<noteq> CHR ''.'')"

lemma hex4_hex_char:
  assumes "n < 256"
  shows "hex4 CHR ''0'' CHR ''0'' (hex_char (n div 16)) (hex_char (n mod 16)) = Some (char_of n)"
proof -
  have *: "digit_val 16 (hex_char d) = Some d" if "d < 16" for d
    using that by (auto simp: digit_val_def hex_char_def Let_def)
  have "digit_val 16 CHR ''0'' = Some 0" by (simp add: digit_val_def)
  moreover have "n div 16 < 16" using assms by auto
  ultimately show ?thesis by (simp add: hex4_def *)
qed

lemma p_str_escape:
  "p_str (json_escape_char c @ r) = map_option (map_prod (Cons c) id) (p_str r)"
  using hex4_hex_char [OF nat_of_char_less_256, of c]
  by (auto simp: json_escape_char_def Let_def json_unescape_def)

lemma p_str_body: "p_str (concat (map json_escape_char s) @ CHR 0x22 # r) = Some (s, r)"
  by (induction s) (simp_all add: p_str_escape)

lemma skip_ws_app: "list_all is_json_ws w \<Longrightarrow> skip_ws (w @ s) = skip_ws s"
  by (induction w) (auto simp: skip_ws_def)

lemma skip_ws_id: "s = [] \<or> \<not> is_json_ws (hd s) \<Longrightarrow> skip_ws s = s"
  by (cases s) (auto simp: skip_ws_def)

lemma p_value_ws: "list_all is_json_ws w \<Longrightarrow> p_value n (w @ s) = p_value n s"
  by (cases n) (simp_all add: skip_ws_app)

lemma p_elems_ws: "list_all is_json_ws w \<Longrightarrow> p_elems n (w @ s) = p_elems n s"
  by (cases n) (simp_all add: p_value_ws)

lemma p_pairs_ws: "list_all is_json_ws w \<Longrightarrow> p_pairs n (w @ s) = p_pairs n s"
  by (cases n) (simp_all add: skip_ws_app)

lemma nat_str_zero: "nat_str 0 = ''0''"
  by code_simp

lemma nat_str_hd_nonzero: "0 < n \<Longrightarrow> hd (nat_str n) \<noteq> CHR ''0''"
proof (induction n rule: nat_str.induct)
  case (1 n)
  show ?case
  proof (cases "n < 10")
    case True
    have "hd (nat_str n) = digit_char n" using True by (simp add: nat_str.simps [of n])
    moreover have "(of_char (digit_char n) :: nat) \<noteq> of_char CHR ''0''"
      using True "1.prems" by (simp add: of_char_digit_char)
    ultimately show ?thesis by metis
  next
    case False
    with 1 show ?thesis by (simp add: nat_str.simps [of n])
  qed
qed

lemma takeWhile_digits:
  assumes "list_all is_ascii_digit ds" and "r = [] \<or> \<not> is_ascii_digit (hd r)"
  shows "takeWhile is_ascii_digit (ds @ r) = ds" "dropWhile is_ascii_digit (ds @ r) = r"
proof -
  have "takeWhile is_ascii_digit r = []" "dropWhile is_ascii_digit r = r"
    using assms(2) by (cases r; auto)+
  with assms(1) show "takeWhile is_ascii_digit (ds @ r) = ds" "dropWhile is_ascii_digit (ds @ r) = r"
    by (induction ds) auto
qed

lemma p_nat_nat_str:
  assumes "r = [] \<or> \<not> is_ascii_digit (hd r)"
  shows "p_nat (nat_str n @ r) = Some (n, r)"
proof (cases "n = 0")
  case True
  then show ?thesis by (simp add: p_nat_def nat_str_zero)
next
  case False
  obtain c cs where s: "nat_str n = c # cs" by (cases "nat_str n") auto
  have c: "is_ascii_digit c" "c \<noteq> CHR ''0''"
    using nat_str_hd [of n] nat_str_hd_nonzero [of n] False s by auto
  have "list_all is_ascii_digit (nat_str n)" by (auto simp: list_all_iff dest: nat_str_digits)
  from takeWhile_digits [OF this assms]
  have "takeWhile is_ascii_digit (c # cs @ r) = nat_str n" "dropWhile is_ascii_digit (c # cs @ r) = r"
    using s by auto
  with c digits_us_nat_str [of False n] s show ?thesis
    by (simp add: p_nat_def del: takeWhile.simps dropWhile.simps digits_us.simps)
qed

lemma p_frac_stops: "stops r \<Longrightarrow> p_frac r = None"
  by (cases r) (auto simp: p_frac_def stops_def)

lemma p_num_int: "stops r \<Longrightarrow> p_num (int_str i @ r) = Some (JInt i, r)"
proof (cases "i < 0")
  case True
  assume "stops r"
  then have "p_nat (nat_str (nat (- i)) @ r) = Some (nat (- i), r)"
    by (intro p_nat_nat_str) (auto simp: stops_def)
  with True \<open>stops r\<close> show ?thesis
    by (simp add: int_str_def p_num_def p_num_signed_def p_frac_stops)
next
  case False
  assume "stops r"
  then have *: "p_nat (nat_str (nat i) @ r) = Some (nat i, r)"
    by (intro p_nat_nat_str) (auto simp: stops_def)
  obtain c cs where s: "nat_str (nat i) = c # cs" by (cases "nat_str (nat i)") auto
  then have "c \<noteq> CHR ''-''" using nat_str_hd [of "nat i"] ascii_digit_not_special by auto
  with False \<open>stops r\<close> * s show ?thesis
    by (simp add: int_str_def p_num_def p_num_signed_def p_frac_stops)
qed

lemma p_num_signed_dec:
  assumes "stops r" and "f \<noteq> []" and "list_all is_ascii_digit f"
  shows "p_num_signed neg (nat_str n @ CHR ''.'' # f @ r) = Some (JDec neg n f, r)"
proof -
  have "p_nat (nat_str n @ CHR ''.'' # f @ r) = Some (n, CHR ''.'' # f @ r)"
    by (rule p_nat_nat_str) (simp add: is_ascii_digit_def)
  moreover have "r = [] \<or> \<not> is_ascii_digit (hd r)" using assms(1) by (auto simp: stops_def)
  ultimately show ?thesis
    using assms takeWhile_digits [OF assms(3), of r] by (simp add: p_num_signed_def p_frac_def)
qed

lemma p_num_dec:
  assumes "stops r" and "f \<noteq> []" and "list_all is_ascii_digit f"
  shows "p_num ((if neg then ''-'' else []) @ nat_str n @ CHR ''.'' # f @ r) = Some (JDec neg n f, r)"
proof (cases neg)
  case True
  then show ?thesis using p_num_signed_dec [OF assms, of True n] by (simp add: p_num_def)
next
  case False
  obtain c cs where s: "nat_str n = c # cs" by (cases "nat_str n") auto
  then have "c \<noteq> CHR ''-''" using nat_str_hd [of n] ascii_digit_not_special by auto
  with False s show ?thesis
    using p_num_signed_dec [OF assms, of False n] by (simp add: p_num_def)
qed

lemma p_value_num:
  assumes "s \<noteq> []" and "is_ascii_digit (hd s) \<or> hd s = CHR ''-''"
  shows "p_value (Suc n) s = p_num s"
proof -
  obtain c cs where s: "s = c # cs" using assms(1) by (cases s) auto
  have c: "is_ascii_digit c \<or> c = CHR ''-''" using assms(2) s by simp
  then have "\<not> is_json_ws c" by (auto simp: is_json_ws_def is_ascii_digit_def)
  then have "skip_ws s = c # cs" using s by (simp add: skip_ws_def)
  moreover have "c \<noteq> CHR 0x22" "c \<noteq> CHR ''[''" "c \<noteq> CHR ''{''" "c \<noteq> CHR ''n''" "c \<noteq> CHR ''t''" "c \<noteq> CHR ''f''"
    using c by (auto simp: is_ascii_digit_def)
  ultimately show ?thesis using s by (simp add: starts_with_def)
qed

lemma hd_json: "dumps_sep i k j \<noteq> [] \<and> \<not> is_json_ws (hd (dumps_sep i k j)) \<and>
    hd (dumps_sep i k j) \<noteq> CHR '']'' \<and> hd (dumps_sep i k j) \<noteq> CHR ''}''"
proof -
  have d: "\<not> is_json_ws c \<and> c \<noteq> CHR '']'' \<and> c \<noteq> CHR ''}''" if "is_ascii_digit c \<or> c = CHR ''-''" for c
    using that by (auto simp: is_ascii_digit_def is_json_ws_def)
  have h: "hd (nat_str n @ r) = hd (nat_str n)" for n r by simp
  show ?thesis
    by (cases j)
       (use d nat_str_hd in \<open>auto simp: h is_json_ws_def json_string_def int_str_def\<close>)
qed

lemma dumps_sep_len: "0 < length (dumps_sep i k j)"
  using hd_json by simp

definition seps_ok :: "string \<Rightarrow> string \<Rightarrow> bool" where
  "seps_ok i k \<longleftrightarrow> i \<noteq> [] \<and> hd i = CHR '','' \<and> list_all is_json_ws (tl i) \<and>
     k \<noteq> [] \<and> hd k = CHR '':'' \<and> list_all is_json_ws (tl k)"

definition reads_back :: "string \<Rightarrow> string \<Rightarrow> json \<Rightarrow> bool" where
  "reads_back i k j \<longleftrightarrow> (\<forall>n r. length (dumps_sep i k j) \<le> n \<longrightarrow> stops r \<longrightarrow>
     p_value n (dumps_sep i k j @ r) = Some (j, r))"

lemma reads_backD:
  "reads_back i k j \<Longrightarrow> length (dumps_sep i k j) \<le> n \<Longrightarrow> stops r \<Longrightarrow>
     p_value n (dumps_sep i k j @ r) = Some (j, r)"
  by (simp add: reads_back_def)

lemma seps_cases:
  assumes "seps_ok i k"
  obtains wi wk where "i = CHR '','' # wi" "k = CHR '':'' # wk" "list_all is_json_ws wi" "list_all is_json_ws wk"
  using assms by (cases i; cases k) (auto simp: seps_ok_def)

lemma stops_delim: "stops (CHR '','' # r)" "stops (CHR '']'' # r)" "stops (CHR ''}'' # r)"
  by (auto simp: stops_def is_ascii_digit_def)

lemma skip_ws_delim:
  "skip_ws (CHR '','' # r) = CHR '','' # r" "skip_ws (CHR '']'' # r) = CHR '']'' # r"
  "skip_ws (CHR ''}'' # r) = CHR ''}'' # r" "skip_ws (CHR '':'' # r) = CHR '':'' # r"
  "skip_ws (CHR 0x22 # r) = CHR 0x22 # r"
  by (simp_all add: skip_ws_def is_json_ws_def)

lemma p_elems_dumps:
  assumes "seps_ok i k" and "xs \<noteq> []" and "\<And>x. x \<in> set xs \<Longrightarrow> reads_back i k x"
    and "length (dumps_elems i k xs) < n"
  shows "p_elems n (dumps_elems i k xs @ CHR '']'' # r) = Some (xs, r)"
  using assms(2-)
proof (induction xs arbitrary: n)
  case Nil
  then show ?case by simp
next
  case (Cons x xs)
  obtain m where n: "n = Suc m" using Cons.prems(3) by (cases n) auto
  obtain wi wk where sep: "i = CHR '','' # wi" "list_all is_json_ws wi"
    using seps_cases [OF assms(1)] by metis
  have x: "reads_back i k x" using Cons.prems(2) by simp
  show ?case
  proof (cases xs)
    case Nil
    then have "p_value m (dumps_sep i k x @ CHR '']'' # r) = Some (x, CHR '']'' # r)"
      using x Cons.prems(3) n by (intro reads_backD) (auto simp: stops_delim)
    with Nil n show ?thesis by (simp add: skip_ws_delim)
  next
    case (Cons y ys)
    have len: "length (dumps_sep i k x) \<le> m" "length (dumps_elems i k xs) < m"
      using Cons.prems(3) n sep Cons dumps_sep_len [of i k x] by auto
    have "p_value m (dumps_sep i k x @ CHR '','' # wi @ dumps_elems i k xs @ CHR '']'' # r) =
        Some (x, CHR '','' # wi @ dumps_elems i k xs @ CHR '']'' # r)"
      using x len by (intro reads_backD) (auto simp: stops_delim)
    moreover have "p_elems m (dumps_elems i k xs @ CHR '']'' # r) = Some (xs, r)"
      using Cons.IH Cons.prems(2) len Cons by simp
    ultimately show ?thesis
      using n sep Cons by (simp add: skip_ws_delim p_elems_ws)
  qed
qed

lemma p_pairs_dumps:
  assumes "seps_ok i k" and "ps \<noteq> []" and "\<And>p. p \<in> set ps \<Longrightarrow> reads_back i k (snd p)"
    and "length (dumps_pairs i k ps) < n"
  shows "p_pairs n (dumps_pairs i k ps @ CHR ''}'' # r) = Some (ps, r)"
  using assms(2-)
proof (induction ps arbitrary: n)
  case Nil
  then show ?case by simp
next
  case (Cons p ps)
  obtain m where n: "n = Suc m" using Cons.prems(3) by (cases n) auto
  obtain wi wk where sep: "i = CHR '','' # wi" "list_all is_json_ws wi"
      "k = CHR '':'' # wk" "list_all is_json_ws wk"
    using seps_cases [OF assms(1)] by metis
  obtain key x where p: "p = (key, x)" by (cases p)
  have x: "reads_back i k x" using Cons.prems(2) [of p] p by simp
  have str: "p_str (concat (map json_escape_char key) @ CHR 0x22 # t) = Some (key, t)" for t
    by (rule p_str_body)
  show ?case
  proof (cases ps)
    case Nil
    then have "p_value m (dumps_sep i k x @ CHR ''}'' # r) = Some (x, CHR ''}'' # r)"
      using x Cons.prems(3) n p by (intro reads_backD) (auto simp: stops_delim)
    with Nil n p sep str show ?thesis by (simp add: skip_ws_delim json_string_def p_value_ws)
  next
    case (Cons y ys)
    have len: "length (dumps_sep i k x) \<le> m" "length (dumps_pairs i k ps) < m"
      using Cons.prems(3) n sep Cons p dumps_sep_len [of i k x] by auto
    have "p_value m (dumps_sep i k x @ CHR '','' # wi @ dumps_pairs i k ps @ CHR ''}'' # r) =
        Some (x, CHR '','' # wi @ dumps_pairs i k ps @ CHR ''}'' # r)"
      using x len by (intro reads_backD) (auto simp: stops_delim)
    moreover have "p_pairs m (dumps_pairs i k ps @ CHR ''}'' # r) = Some (ps, r)"
      using Cons.IH Cons.prems(2) len Cons by simp
    ultimately show ?thesis
      using n sep Cons p str by (simp add: skip_ws_delim json_string_def p_value_ws p_pairs_ws)
  qed
qed

lemma update_fresh: "k \<notin> fst ` set d \<Longrightarrow> AList.update k v d = d @ [(k, v)]"
  by (induction d) auto

lemma foldl_update_distinct:
  "distinct (map fst d @ map fst ps) \<Longrightarrow> foldl (\<lambda>d (k, v). AList.update k v d) d ps = d @ ps"
proof (induction ps arbitrary: d)
  case Nil
  then show ?case by simp
next
  case (Cons p ps)
  obtain k v where p: "p = (k, v)" by (cases p)
  have "AList.update k v d = d @ [(k, v)]"
    using Cons.prems p by (intro update_fresh) auto
  then show ?case using Cons.IH [of "d @ [(k, v)]"] Cons.prems p by simp
qed

lemma mk_dict_distinct: "distinct (map fst ps) \<Longrightarrow> mk_dict ps = ps"
  unfolding mk_dict_def using foldl_update_distinct [of "[]" ps] by simp

lemma hd_dumps_elems:
  "xs \<noteq> [] \<Longrightarrow> \<exists>c cs. dumps_elems i k xs @ r = c # cs \<and> \<not> is_json_ws c \<and> c \<noteq> CHR '']''"
proof (induction xs)
  case (Cons x xs)
  obtain c cs where "dumps_sep i k x = c # cs" "\<not> is_json_ws c" "c \<noteq> CHR '']''"
    using hd_json [of i k x] by (cases "dumps_sep i k x") auto
  then show ?case by (cases xs) auto
qed simp

lemma hd_dumps_pairs:
  "ps \<noteq> [] \<Longrightarrow> \<exists>cs. dumps_pairs i k ps @ r = CHR 0x22 # cs"
  by (cases "(i, k, ps)" rule: dumps_pairs.cases) (auto simp: json_string_def)

lemma reads_back_json:
  assumes sep: "seps_ok i k" and ok: "json_ok j"
  shows "reads_back i k j"
  using ok
proof (induction j)
  case (JArr xs)
  have IH: "\<And>x. x \<in> set xs \<Longrightarrow> reads_back i k x" using JArr by simp
  show ?case unfolding reads_back_def
  proof (intro allI impI)
    fix n r assume n: "length (dumps_sep i k (JArr xs)) \<le> n" and r: "stops r"
    then obtain m where m: "n = Suc m" "length (dumps_elems i k xs) < m" by (cases n) auto
    show "p_value n (dumps_sep i k (JArr xs) @ r) = Some (JArr xs, r)"
    proof (cases "xs = []")
      case True
      then show ?thesis using m by (simp add: skip_ws_def is_json_ws_def)
    next
      case False
      obtain c cs where c: "dumps_elems i k xs @ CHR '']'' # r = c # cs" "\<not> is_json_ws c" "c \<noteq> CHR '']''"
        using hd_dumps_elems [OF False] by metis
      then have "skip_ws (dumps_elems i k xs @ CHR '']'' # r) = c # cs" by (simp add: skip_ws_def)
      moreover have "p_elems m (dumps_elems i k xs @ CHR '']'' # r) = Some (xs, r)"
        using p_elems_dumps [OF sep False IH m(2)] by simp
      ultimately show ?thesis using m c by (simp add: skip_ws_def is_json_ws_def)
    qed
  qed
next
  case (JObj ps)
  have IH: "\<And>p. p \<in> set ps \<Longrightarrow> reads_back i k (snd p)" using JObj by (auto simp: prod_set_defs)
  show ?case unfolding reads_back_def
  proof (intro allI impI)
    fix n r assume n: "length (dumps_sep i k (JObj ps)) \<le> n" and r: "stops r"
    then obtain m where m: "n = Suc m" "length (dumps_pairs i k ps) < m" by (cases n) auto
    show "p_value n (dumps_sep i k (JObj ps) @ r) = Some (JObj ps, r)"
    proof (cases "ps = []")
      case True
      then show ?thesis using m by (simp add: skip_ws_def is_json_ws_def)
    next
      case False
      obtain cs where c: "dumps_pairs i k ps @ CHR ''}'' # r = CHR 0x22 # cs"
        using hd_dumps_pairs [OF False] by metis
      have "p_pairs m (dumps_pairs i k ps @ CHR ''}'' # r) = Some (ps, r)"
        using p_pairs_dumps [OF sep False IH m(2)] by simp
      with m c JObj.prems show ?thesis by (simp add: skip_ws_def is_json_ws_def mk_dict_distinct)
    qed
  qed
next
  case JNull
  show ?case by (auto simp: reads_back_def skip_ws_def is_json_ws_def starts_with_def
      gr0_conv_Suc numeral_eq_Suc dest!: Suc_le_D)
next
  case (JBool b)
  show ?case by (cases b) (auto simp: reads_back_def skip_ws_def is_json_ws_def starts_with_def
      numeral_eq_Suc dest!: Suc_le_D)
next
  case (JInt z)
  have "is_ascii_digit (hd (int_str z @ r)) \<or> hd (int_str z @ r) = CHR ''-''" for r
    using nat_str_hd by (simp add: int_str_def)
  then have "p_value (Suc m) (int_str z @ r) = Some (JInt z, r)" if "stops r" for m r
    using that p_value_num [of "int_str z @ r" m] p_num_int by simp
  then show ?case unfolding reads_back_def
    by (metis dumps_sep.simps(3) int_str_nonempty length_0_conv le_zero_eq not0_implies_Suc)
next
  case (JDec neg m f)
  let ?s = "\<lambda>r. (if neg then ''-'' else []) @ nat_str m @ CHR ''.'' # f @ r"
  have "is_ascii_digit (hd (?s r)) \<or> hd (?s r) = CHR ''-''" "?s r \<noteq> []" for r
    using nat_str_hd by simp_all
  then have "p_value (Suc n) (?s r) = Some (JDec neg m f, r)" if "stops r" for n r
    using that p_value_num [of "?s r" n] p_num_dec [OF that] JDec by simp
  then show ?case unfolding reads_back_def
    by (intro allI impI) (case_tac n; simp)
next
  case (JStr s)
  have "p_str (concat (map json_escape_char s) @ CHR 0x22 # r) = Some (s, r)" for r
    by (rule p_str_body)
  then have "p_value (Suc m) (json_string s @ r) = Some (JStr s, r)" for m r
    by (simp add: json_string_def skip_ws_delim)
  then show ?case unfolding reads_back_def
    by (intro allI impI) (case_tac n; simp add: json_string_def)
qed

lemma loads_dumps_sep:
  assumes "seps_ok i k" and "json_ok j"
  shows "loads (dumps_sep i k j) = Inr j"
proof -
  have "p_value (Suc (length (dumps_sep i k j))) (dumps_sep i k j @ []) = Some (j, [])"
    by (rule reads_backD [OF reads_back_json [OF assms]]) (simp_all add: stops_def)
  then show ?thesis by (simp add: loads_def skip_ws_def)
qed

lemma loads_dumps [simp]: "json_ok j \<Longrightarrow> loads (dumps j) = Inr j"
  unfolding dumps_def by (rule loads_dumps_sep) (simp_all add: seps_ok_def is_json_ws_def)

lemma loads_dumps_compact [simp]: "json_ok j \<Longrightarrow> loads (dumps_compact j) = Inr j"
  unfolding dumps_compact_def by (rule loads_dumps_sep) (simp_all add: seps_ok_def)

end
