(* ===== verification/Json_Fields.thy ===== *)
theory Json_Fields
  imports Py_Json
begin

text \<open>
  Reading the fields of a decoded queue message into typed records. The queue payloads are dataclasses
  whose annotations Python does not enforce; the model's records have the annotated types, so a message
  whose field has another type than its annotation gives \<open>TypeError\<close> here, where the code would keep
  the odd value. Messages written by the modelled code are never affected.

  \<open>opt_pair\<close> is the idiom \<^verbatim>\<open>if x: out[key] = x\<close> of the printers.
\<close>

text \<open>\<^verbatim>\<open>str(value)\<close>; for decimals, arrays and objects the text is only ever compared with a few words it
  never equals.\<close>

definition py_str :: "json \<Rightarrow> string" where
  "py_str v = (case v of
      JNull \<Rightarrow> ''None'' | JBool b \<Rightarrow> (if b then ''True'' else ''False'') | JInt i \<Rightarrow> int_str i | JStr s \<Rightarrow> s
    | x \<Rightarrow> dumps x)"

definition not_falsey :: "string \<Rightarrow> bool" where
  "not_falsey s \<longleftrightarrow> py_lower s \<notin> set [''false'', ''0'', ''no'', []]"

text \<open>\<^verbatim>\<open>int(value)\<close>.\<close>

definition json_int :: "json \<Rightarrow> exn + int" where
  "json_int v = (case v of
      JInt i \<Rightarrow> Inr i
    | JBool b \<Rightarrow> Inr (if b then 1 else 0)
    | JDec neg n f \<Rightarrow> Inr (if neg then - int n else int n)
    | JStr s \<Rightarrow> py_int s
    | _ \<Rightarrow> Inl TypeError)"

definition j_str :: "json \<Rightarrow> exn + string" where
  "j_str v = (case v of JStr s \<Rightarrow> Inr s | _ \<Rightarrow> Inl TypeError)"

definition j_opt :: "(json \<Rightarrow> exn + 'a) \<Rightarrow> json \<Rightarrow> exn + 'a option" where
  "j_opt f v = (case v of JNull \<Rightarrow> Inr None | x \<Rightarrow> sbind (f x) (\<lambda>a. Inr (Some a)))"

definition j_int :: "json \<Rightarrow> exn + int" where
  "j_int v = (case v of JInt i \<Rightarrow> Inr i | _ \<Rightarrow> Inl TypeError)"

fun j_list :: "(json \<Rightarrow> exn + 'a) \<Rightarrow> json list \<Rightarrow> exn + 'a list" where
  "j_list f [] = Inr []"
| "j_list f (x # xs) = sbind (f x) (\<lambda>a. sbind (j_list f xs) (\<lambda>as. Inr (a # as)))"

definition j_strs :: "json \<Rightarrow> exn + string list" where
  "j_strs v = (case v of JArr xs \<Rightarrow> j_list j_str xs | _ \<Rightarrow> Inl TypeError)"

definition jget_default :: "(string \<times> json) list \<Rightarrow> string \<Rightarrow> json \<Rightarrow> json" where
  "jget_default d k v = or_else (map_of d k) v"

definition JStrs :: "string list \<Rightarrow> json" where
  "JStrs xs = JArr (map JStr xs)"

definition opt_json :: "('a \<Rightarrow> json) \<Rightarrow> 'a option \<Rightarrow> json" where
  "opt_json f x = (case x of None \<Rightarrow> JNull | Some v \<Rightarrow> f v)"

definition opt_pair :: "string \<Rightarrow> json option \<Rightarrow> (string \<times> json) list" where
  "opt_pair k x = (case x of None \<Rightarrow> [] | Some v \<Rightarrow> [(k, v)])"

section \<open>Lemmas\<close>

named_theorems json_simps \<open>reading back what was printed\<close>

lemma j_list_map [json_simps]: "(\<And>x. f (g x) = Inr x) \<Longrightarrow> j_list f (map g xs) = Inr xs"
  by (induction xs) simp_all

lemma j_simps [json_simps]:
  "j_str (JStr s) = Inr s" "j_int (JInt i) = Inr i" "json_int (JInt i) = Inr i"
  "j_strs (JStrs xs) = Inr xs" "j_opt f JNull = Inr None"
  "j_opt j_str (JStr s) = Inr (Some s)" "j_opt j_int (JInt i) = Inr (Some i)" "j_opt json_int (JInt i) = Inr (Some i)"
  "j_opt j_strs (JStrs xs) = Inr (Some xs)"
  by (simp_all add: j_str_def j_int_def json_int_def j_strs_def JStrs_def j_opt_def j_list_map)

lemma opt_json_simps [json_simps]: "opt_json f None = JNull" "opt_json f (Some v) = f v"
  by (simp_all add: opt_json_def)

lemma j_opt_opt_json [json_simps]:
  "j_opt j_str (opt_json JStr x) = Inr x" "j_opt j_int (opt_json JInt y) = Inr y"
  by (cases x; simp add: json_simps; fail)+ (cases y; simp add: json_simps; fail)+

lemma json_ok_opt_json [simp]: "(\<And>v. json_ok (f v)) \<Longrightarrow> json_ok (opt_json f x)"
  by (simp add: opt_json_def split: option.split)

lemma json_ok_JStrs [simp]: "json_ok (JStrs xs)"
  by (auto simp: JStrs_def)

lemma map_of_opt_json [json_simps]: "map_of (opt_pair k x) k' = (if k' = k then x else None)"
  by (simp add: opt_pair_def split: option.split)

text \<open>A printed dict has distinct keys, each piece checked against the rest.\<close>

definition key_free :: "string \<Rightarrow> (string \<times> json) list \<Rightarrow> bool" where
  "key_free k d \<longleftrightarrow> k \<notin> fst ` set d"

lemma key_free_simps [json_simps]:
  "key_free k []" "key_free k ((k', v) # d) \<longleftrightarrow> k \<noteq> k' \<and> key_free k d"
  "key_free k (opt_pair k' x @ d) \<longleftrightarrow> (x = None \<or> k \<noteq> k') \<and> key_free k d"
  "key_free k (opt_pair k' x) \<longleftrightarrow> x = None \<or> k \<noteq> k'"
  by (auto simp: key_free_def opt_pair_def split: option.split)

lemma json_ok_obj_simps [json_simps]:
  "json_ok (JObj [])"
  "json_ok (JObj ((k, v) # d)) \<longleftrightarrow> json_ok v \<and> key_free k d \<and> json_ok (JObj d)"
  "json_ok (JObj (opt_pair k x @ d)) \<longleftrightarrow> (\<forall>v. x = Some v \<longrightarrow> json_ok v \<and> key_free k d) \<and> json_ok (JObj d)"
  "json_ok (JObj (opt_pair k x)) \<longleftrightarrow> (\<forall>v. x = Some v \<longrightarrow> json_ok v)"
  by (auto simp: key_free_def opt_pair_def split: option.split)

end
