(* ===== verification/Job_Store.thy ===== *)
theory Job_Store
  imports Bulk_Mutex Json_Fields "HOL-Library.Code_Target_Nat"
begin

text \<open>
  \<^verbatim>\<open>app/services/job_store.py\<close>: the job records shown by \<^verbatim>\<open>GET /jobs\<close>, in a process-local dict or in
  Redis (one hash per job, one capped list of job ids per collection), chosen by
  \<^verbatim>\<open>bulk_queue_type\<close>. The in-memory dict is the field \<open>mem_jobs\<close> added to the world.

  Shown: what is created is what is read back (timestamps come back timezone aware), an update writes
  exactly its fields and keeps the first finishing time, a terminal status frees the collection mutex
  of its job, and listings are newest first, owned and bounded. A job read from Redis prints
  timestamps the module itself cannot read back.
\<close>

section \<open>Job records\<close>

record jobinfo =
  j_job_id :: string
  j_collection_id :: string
  j_status :: string
  j_message :: "string option"
  j_items_in :: int
  j_items_created :: int
  j_items_failed :: int
  j_created_at :: datetime
  j_updated_at :: datetime
  j_finished_at :: "datetime option"
  j_last_progress_at :: "datetime option"
  j_owner_id :: "int option"
  j_job_label :: "string option"

record 's jenv = "'s env" +
  mem_jobs :: "(string \<times> jobinfo) list"

text \<open>A concrete world for examples, with no job in memory.\<close>

definition jenv0 :: "'s \<Rightarrow> 's jenv" where
  "jenv0 s = \<lparr>rds = s, clock = noon, ticks = 0, uuids = (\<lambda>n. ''job'' @ nat_str n), uuid_n = 0, mem_jobs = []\<rparr>"

lemma jenv0_simps [simp]:
  "rds (jenv0 s) = s" "clock (jenv0 s) = noon" "ticks (jenv0 s) = 0" "uuid_n (jenv0 s) = 0"
  "uuids (jenv0 s) n = ''job'' @ nat_str n" "mem_jobs (jenv0 s) = []"
  by (simp_all add: jenv0_def)

text \<open>The keyword arguments of \<^verbatim>\<open>update_job\<close>; \<open>None\<close> leaves the field alone.\<close>

record job_update =
  u_status :: "string option"
  u_message :: "string option"
  u_items_in :: "int option"
  u_items_created :: "int option"
  u_items_failed :: "int option"
  u_finished_at :: "datetime option"

definition no_update :: job_update where
  "no_update = \<lparr>u_status = None, u_message = None, u_items_in = None, u_items_created = None,
     u_items_failed = None, u_finished_at = None\<rparr>"

definition TERMINAL_STATUSES_FOR_FINISHED :: "string list" where
  "TERMINAL_STATUSES_FOR_FINISHED =
     [''completed'', ''failed'', ''cancelled'', ''error'', ''success'', ''done'', ''succeeded'']"

definition iso_z :: "datetime \<Rightarrow> string" where
  "iso_z d = isoformat d @ ''Z''"

definition JobInfo_to_dict :: "jobinfo \<Rightarrow> (string \<times> json) list" where
  "JobInfo_to_dict j =
     [(''job_id'', JStr (j_job_id j)),
      (''collection_id'', JStr (j_collection_id j)),
      (''status'', JStr (j_status j)),
      (''message'', opt_json JStr (j_message j)),
      (''items_in'', JInt (j_items_in j)),
      (''items_created'', JInt (j_items_created j)),
      (''items_failed'', JInt (j_items_failed j)),
      (''created_at'', JStr (iso_z (j_created_at j))),
      (''updated_at'', JStr (iso_z (j_updated_at j))),
      (''finished_at'', opt_json (\<lambda>d. JStr (iso_z d)) (j_finished_at j)),
      (''last_progress_at'', opt_json (\<lambda>d. JStr (iso_z d)) (j_last_progress_at j))]
     @ (case j_owner_id j of None \<Rightarrow> [] | Some o' \<Rightarrow> [(''owner_id'', JInt o')])
     @ (case j_job_label j of None \<Rightarrow> [] | Some l \<Rightarrow> if l = [] then [] else [(''job_label'', JStr l)])"

definition release_bulk_mutex_on_terminal ::
    "'s redis \<Rightarrow> settings \<Rightarrow> string \<Rightarrow> string option \<Rightarrow> string option \<Rightarrow> (('s, 'z) env_scheme, unit) prog" where
  "release_bulk_mutex_on_terminal srv cfg job_id collection_id st =
     (case (collection_id, st) of
        (Some c, Some s) \<Rightarrow>
          if c = [] \<or> s = [] then ret ()
          else if py_lower s \<notin> set TERMINAL_STATUSES_FOR_FINISHED then ret ()
          else catch (release_bulk_mutex_for_job srv cfg c job_id) (\<lambda>_. ret ())
      | _ \<Rightarrow> ret ())"

section \<open>In-memory backend\<close>

definition new_job :: "string \<Rightarrow> string \<Rightarrow> datetime \<Rightarrow> datetime \<Rightarrow> int option \<Rightarrow> string option \<Rightarrow> jobinfo" where
  "new_job job_id collection_id t1 t2 owner_id job_label =
     \<lparr>j_job_id = job_id, j_collection_id = collection_id, j_status = ''pending'', j_message = None,
      j_items_in = 0, j_items_created = 0, j_items_failed = 0, j_created_at = t1, j_updated_at = t2,
      j_finished_at = None, j_last_progress_at = None, j_owner_id = owner_id, j_job_label = job_label\<rparr>"

definition create_job_memory ::
    "string \<Rightarrow> int option \<Rightarrow> string option \<Rightarrow> (('s, 'z) jenv_scheme, jobinfo) prog" where
  "create_job_memory collection_id owner_id job_label =
     bnd uuid4 (\<lambda>job_id. bnd utcnow (\<lambda>t1. bnd utcnow (\<lambda>t2.
       let job = new_job job_id collection_id t1 t2 owner_id job_label in
       bnd (modify (\<lambda>w. w\<lparr>mem_jobs := AList.update job_id job (mem_jobs w)\<rparr>)) (\<lambda>_. ret job))))"

definition get_job_memory :: "string \<Rightarrow> (('s, 'z) jenv_scheme, jobinfo option) prog" where
  "get_job_memory job_id = gets (\<lambda>w. map_of (mem_jobs w) job_id)"

definition upd :: "'a option \<Rightarrow> 'a \<Rightarrow> 'a" where
  "upd x old = or_else x old"

definition apply_update_memory :: "datetime \<Rightarrow> job_update \<Rightarrow> jobinfo \<Rightarrow> jobinfo" where
  "apply_update_memory now u job =
     (let fin1 = (case u_status u of
                    None \<Rightarrow> j_finished_at job
                  | Some s \<Rightarrow> if py_lower s \<in> set TERMINAL_STATUSES_FOR_FINISHED \<and> j_finished_at job = None
                              then Some now else j_finished_at job)
      in job\<lparr>j_status := upd (u_status u) (j_status job),
             j_message := (case u_message u of None \<Rightarrow> j_message job | Some m \<Rightarrow> Some m),
             j_items_in := upd (u_items_in u) (j_items_in job),
             j_items_created := upd (u_items_created u) (j_items_created job),
             j_items_failed := upd (u_items_failed u) (j_items_failed job),
             j_finished_at := (case u_finished_at u of None \<Rightarrow> fin1 | Some f \<Rightarrow> Some f),
             j_updated_at := now,
             j_last_progress_at :=
               (if u_status u \<noteq> None \<or> u_items_created u \<noteq> None \<or> u_message u \<noteq> None
                then Some now else j_last_progress_at job)\<rparr>)"

definition update_job_memory ::
    "'s redis \<Rightarrow> settings \<Rightarrow> string \<Rightarrow> job_update \<Rightarrow> (('s, 'z) jenv_scheme, jobinfo option) prog" where
  "update_job_memory srv cfg job_id u =
     bnd (get_job_memory job_id) (\<lambda>found.
       case found of
         None \<Rightarrow> ret None
       | Some job \<Rightarrow>
           bnd utcnow (\<lambda>now.
             let job' = apply_update_memory now u job in
             bnd (modify (\<lambda>w. w\<lparr>mem_jobs := AList.update job_id job' (mem_jobs w)\<rparr>)) (\<lambda>_.
             bnd (if u_status u \<noteq> None
                  then release_bulk_mutex_on_terminal srv cfg job_id (Some (j_collection_id job')) (u_status u)
                  else ret ()) (\<lambda>_.
             ret (Some job')))))"

section \<open>Redis backend\<close>

definition redis_key :: "string \<Rightarrow> string" where
  "redis_key job_id = ''geofastmap:job:'' @ job_id"

definition jobs_by_collection_key :: "string \<Rightarrow> string" where
  "jobs_by_collection_key collection_id = ''geofastmap:jobs_by_collection:'' @ collection_id"

definition job_mapping :: "jobinfo \<Rightarrow> (string \<times> string) list" where
  "job_mapping job =
     [(''job_id'', j_job_id job),
      (''collection_id'', j_collection_id job),
      (''status'', j_status job),
      (''message'', or_else (j_message job) []),
      (''items_in'', int_str (j_items_in job)),
      (''items_created'', int_str (j_items_created job)),
      (''items_failed'', int_str (j_items_failed job)),
      (''created_at'', iso_z (j_created_at job)),
      (''updated_at'', iso_z (j_updated_at job))]
     @ (case j_finished_at job of None \<Rightarrow> [] | Some d \<Rightarrow> [(''finished_at'', iso_z d)])
     @ (case j_last_progress_at job of None \<Rightarrow> [] | Some d \<Rightarrow> [(''last_progress_at'', iso_z d)])
     @ (case j_owner_id job of None \<Rightarrow> [] | Some o' \<Rightarrow> [(''owner_id'', int_str o')])
     @ (case j_job_label job of None \<Rightarrow> [] | Some l \<Rightarrow> if l = [] then [] else [(''job_label'', l)])"

definition create_job_redis ::
    "'s redis \<Rightarrow> settings \<Rightarrow> string \<Rightarrow> int option \<Rightarrow> string option \<Rightarrow> (('s, 'z) env_scheme, jobinfo) prog" where
  "create_job_redis srv cfg collection_id owner_id job_label =
     bnd uuid4 (\<lambda>job_id. bnd utcnow (\<lambda>t1. bnd utcnow (\<lambda>t2.
       let job = new_job job_id collection_id t1 t2 owner_id job_label;
           key = redis_key job_id;
           coll_key = jobs_by_collection_key collection_id in
       bnd (run_redis_retry cfg None
         (bnd (r_hset srv key (job_mapping job)) (\<lambda>_.
          bnd (r_expire srv key (86400 * 7)) (\<lambda>_.
          bnd (r_lpush srv coll_key job_id) (\<lambda>_.
          bnd (r_ltrim srv coll_key 0 49) (\<lambda>_.
          bnd (r_expire srv coll_key (86400 * 7)) (\<lambda>_. ret ()))))))) (\<lambda>_.
       ret job))))"

text \<open>A hash field that is absent or empty counts as missing (\<^verbatim>\<open>if raw.get(name)\<close>).\<close>

definition field_of :: "(string \<times> string) list \<Rightarrow> string \<Rightarrow> string option" where
  "field_of raw f = (case map_of raw f of None \<Rightarrow> None | Some s \<Rightarrow> if s = [] then None else Some s)"

definition need_field :: "(string \<times> string) list \<Rightarrow> string \<Rightarrow> exn + string" where
  "need_field raw f = (case map_of raw f of None \<Rightarrow> Inl KeyError | Some s \<Rightarrow> Inr s)"

definition parse_iso_z :: "string \<Rightarrow> exn + datetime" where
  "parse_iso_z s = fromisoformat (replace_char CHR ''Z'' ''+00:00'' s)"

definition opt_datetime :: "string option \<Rightarrow> exn + datetime option" where
  "opt_datetime x = (case x of None \<Rightarrow> Inr None | Some s \<Rightarrow> sbind (parse_iso_z s) (\<lambda>d. Inr (Some d)))"

definition int_field :: "(string \<times> string) list \<Rightarrow> string \<Rightarrow> exn + int" where
  "int_field raw f = (case map_of raw f of None \<Rightarrow> Inr 0 | Some s \<Rightarrow> py_int s)"

definition decode_job :: "(string \<times> string) list \<Rightarrow> exn + jobinfo" where
  "decode_job raw =
     sbind (opt_datetime (field_of raw ''finished_at'')) (\<lambda>finished_at.
     sbind (opt_datetime (field_of raw ''last_progress_at'')) (\<lambda>last_progress_at.
     let owner_id = (case field_of raw ''owner_id'' of
             None \<Rightarrow> None | Some s \<Rightarrow> (case py_int s of Inl _ \<Rightarrow> None | Inr i \<Rightarrow> Some i)) in
     sbind (need_field raw ''job_id'') (\<lambda>job_id.
     sbind (need_field raw ''collection_id'') (\<lambda>collection_id.
     sbind (need_field raw ''status'') (\<lambda>status.
     sbind (int_field raw ''items_in'') (\<lambda>items_in.
     sbind (int_field raw ''items_created'') (\<lambda>items_created.
     sbind (int_field raw ''items_failed'') (\<lambda>items_failed.
     sbind (sbind (need_field raw ''created_at'') parse_iso_z) (\<lambda>created_at.
     sbind (sbind (need_field raw ''updated_at'') parse_iso_z) (\<lambda>updated_at.
     Inr \<lparr>j_job_id = job_id, j_collection_id = collection_id, j_status = status,
          j_message = field_of raw ''message'', j_items_in = items_in, j_items_created = items_created,
          j_items_failed = items_failed, j_created_at = created_at, j_updated_at = updated_at,
          j_finished_at = finished_at, j_last_progress_at = last_progress_at, j_owner_id = owner_id,
          j_job_label = field_of raw ''job_label''\<rparr>))))))))))"

definition get_job_redis :: "'s redis \<Rightarrow> settings \<Rightarrow> string \<Rightarrow> (('s, 'z) env_scheme, jobinfo option) prog" where
  "get_job_redis srv cfg job_id =
     bnd (run_redis_retry cfg (Some (read_attempts cfg)) (r_hgetall srv (redis_key job_id))) (\<lambda>raw.
       if raw = [] then ret None
       else bnd (lift_exn (decode_job raw)) (\<lambda>job. ret (Some job)))"

definition update_fields :: "bool \<Rightarrow> string \<Rightarrow> job_update \<Rightarrow> (string \<times> string) list" where
  "update_fields set_finished now u =
     (case u_status u of None \<Rightarrow> [] | Some s \<Rightarrow>
        (''status'', s) # (if set_finished then [(''finished_at'', now)] else []))
     @ (case u_message u of None \<Rightarrow> [] | Some m \<Rightarrow> [(''message'', m)])
     @ (case u_items_in u of None \<Rightarrow> [] | Some n \<Rightarrow> [(''items_in'', int_str n)])
     @ (case u_items_created u of None \<Rightarrow> [] | Some n \<Rightarrow> [(''items_created'', int_str n)])
     @ (case u_items_failed u of None \<Rightarrow> [] | Some n \<Rightarrow> [(''items_failed'', int_str n)])
     @ (case u_finished_at u of None \<Rightarrow> [] | Some d \<Rightarrow> [(''finished_at'', iso_z d)])"

definition update_mapping :: "bool \<Rightarrow> string \<Rightarrow> job_update \<Rightarrow> (string \<times> string) list" where
  "update_mapping set_finished now u =
     (let ups = update_fields set_finished now u
      in if ups = [] then [] else ups @ [(''updated_at'', now), (''last_progress_at'', now)])"

text \<open>The part of \<^verbatim>\<open>_update_job_redis\<close> between the existence test and the release of the mutex
  (\<open>sets_finished\<close>: whether this update stamps the finishing time); it hands on the collection id
  read from the hash.\<close>

definition sets_finished :: "'s redis \<Rightarrow> string \<Rightarrow> string option \<Rightarrow> (('s, 'z) env_scheme, bool) prog" where
  "sets_finished srv key st =
     (case st of
        None \<Rightarrow> ret False
      | Some s \<Rightarrow>
          if py_lower s \<in> set TERMINAL_STATUSES_FOR_FINISHED
          then bnd (r_hget srv key ''finished_at'') (\<lambda>f. ret (or_else f [] = []))
          else ret False)"

definition write_job_update ::
    "'s redis \<Rightarrow> settings \<Rightarrow> string \<Rightarrow> job_update \<Rightarrow> (('s, 'z) env_scheme, string option) prog" where
  "write_job_update srv cfg key u =
     bnd (run_redis_retry cfg None (r_hget srv key ''collection_id'')) (\<lambda>collection_id.
     bnd utcnow (\<lambda>t. let now = iso_z t in
     bnd (sets_finished srv key (u_status u)) (\<lambda>set_finished.
     let ups = update_mapping set_finished now u in
     bnd (if ups = [] then ret () else bnd (run_redis_retry cfg None (r_hset srv key ups)) (\<lambda>_. ret ())) (\<lambda>_.
     ret collection_id))))"

definition update_job_redis ::
    "'s redis \<Rightarrow> settings \<Rightarrow> string \<Rightarrow> job_update \<Rightarrow> (('s, 'z) env_scheme, jobinfo option) prog" where
  "update_job_redis srv cfg job_id u =
     bnd (run_redis_retry cfg None (r_exists srv (redis_key job_id))) (\<lambda>n.
     if n = 0 then ret None
     else
       bnd (write_job_update srv cfg (redis_key job_id) u) (\<lambda>collection_id.
       bnd (if u_status u \<noteq> None then release_bulk_mutex_on_terminal srv cfg job_id collection_id (u_status u)
            else ret ()) (\<lambda>_.
       get_job_redis srv cfg job_id)))"

section \<open>Public API\<close>

definition create_job ::
    "'s redis \<Rightarrow> settings \<Rightarrow> string \<Rightarrow> int option \<Rightarrow> string option \<Rightarrow> (('s, 'z) jenv_scheme, jobinfo) prog" where
  "create_job srv cfg collection_id owner_id job_label =
     (if bulk_queue_type cfg = ''redis'' then create_job_redis srv cfg collection_id owner_id job_label
      else create_job_memory collection_id owner_id job_label)"

definition get_job :: "'s redis \<Rightarrow> settings \<Rightarrow> string \<Rightarrow> (('s, 'z) jenv_scheme, jobinfo option) prog" where
  "get_job srv cfg job_id =
     (if bulk_queue_type cfg = ''redis'' then get_job_redis srv cfg job_id else get_job_memory job_id)"

definition update_job ::
    "'s redis \<Rightarrow> settings \<Rightarrow> string \<Rightarrow> job_update \<Rightarrow> (('s, 'z) jenv_scheme, jobinfo option) prog" where
  "update_job srv cfg job_id u =
     (if bulk_queue_type cfg = ''redis'' then update_job_redis srv cfg job_id u
      else update_job_memory srv cfg job_id u)"

text \<open>\<^verbatim>\<open>jobs.sort(key=lambda j: j.updated_at, reverse=True)\<close>: stable, newest first; comparing a naive with an
  aware datetime raises.\<close>

definition sort_jobs :: "jobinfo list \<Rightarrow> exn + jobinfo list" where
  "sort_jobs js =
     (if (\<exists>a\<in>set js. \<exists>b\<in>set js. (dt_offset (j_updated_at a) = None) \<noteq> (dt_offset (j_updated_at b) = None))
      then Inl TypeError
      else Inr (sort_key (\<lambda>j. - dt_micros (j_updated_at j)) js))"

definition list_jobs_for_collection_memory :: "string \<Rightarrow> int \<Rightarrow> (('s, 'z) jenv_scheme, jobinfo list) prog" where
  "list_jobs_for_collection_memory collection_id limit =
     bnd (gets (\<lambda>w. filter (\<lambda>j. j_collection_id j = collection_id) (map snd (mem_jobs w)))) (\<lambda>jobs.
     bnd (lift_exn (sort_jobs jobs)) (\<lambda>jobs. ret (py_take limit jobs)))"

definition get_jobs_redis :: "'s redis \<Rightarrow> settings \<Rightarrow> string list \<Rightarrow> (('s, 'z) env_scheme, jobinfo list) prog" where
  "get_jobs_redis srv cfg job_ids =
     for_each job_ids (\<lambda>jid jobs.
       bnd (get_job_redis srv cfg jid) (\<lambda>job. ret (case job of None \<Rightarrow> jobs | Some j \<Rightarrow> jobs @ [j]))) []"

definition list_jobs_for_collection_redis ::
    "'s redis \<Rightarrow> settings \<Rightarrow> string \<Rightarrow> int \<Rightarrow> (('s, 'z) env_scheme, jobinfo list) prog" where
  "list_jobs_for_collection_redis srv cfg collection_id limit =
     bnd (r_lrange srv (jobs_by_collection_key collection_id) 0 (limit - 1)) (\<lambda>job_ids.
     bnd (get_jobs_redis srv cfg job_ids) (\<lambda>jobs.
     bnd (lift_exn (sort_jobs jobs)) (\<lambda>jobs. ret (py_take limit jobs))))"

definition owned_by :: "int option \<Rightarrow> jobinfo list \<Rightarrow> jobinfo list" where
  "owned_by owner_id js = (case owner_id of None \<Rightarrow> js | Some o' \<Rightarrow> filter (\<lambda>j. j_owner_id j = Some o') js)"

definition list_jobs_for_collection ::
    "'s redis \<Rightarrow> settings \<Rightarrow> string \<Rightarrow> int \<Rightarrow> int option \<Rightarrow> (('s, 'z) jenv_scheme, jobinfo list) prog" where
  "list_jobs_for_collection srv cfg collection_id limit owner_id =
     (let n = (if owner_id \<noteq> None then limit * 2 else limit) in
      bnd (if bulk_queue_type cfg = ''redis'' then list_jobs_for_collection_redis srv cfg collection_id n
           else list_jobs_for_collection_memory collection_id n) (\<lambda>raw.
      ret (py_take limit (owned_by owner_id raw))))"

definition list_all_jobs_memory :: "int \<Rightarrow> (('s, 'z) jenv_scheme, jobinfo list) prog" where
  "list_all_jobs_memory limit =
     bnd (gets (\<lambda>w. map snd (mem_jobs w))) (\<lambda>jobs.
     bnd (lift_exn (sort_jobs jobs)) (\<lambda>jobs. ret (py_take limit jobs)))"

definition list_all_jobs_redis :: "'s redis \<Rightarrow> settings \<Rightarrow> int \<Rightarrow> (('s, 'z) env_scheme, jobinfo list) prog" where
  "list_all_jobs_redis srv cfg limit =
     (let prefix = ''geofastmap:job:'' in
      bnd (r_scan srv (prefix @ ''*'')) (\<lambda>keys.
      let job_ids = map (drop (length prefix)) (filter (\<lambda>k. starts_with prefix k \<and> k \<noteq> prefix) keys) in
      bnd (get_jobs_redis srv cfg job_ids) (\<lambda>jobs.
      bnd (lift_exn (sort_jobs jobs)) (\<lambda>jobs. ret (py_take limit jobs)))))"

definition list_all_jobs ::
    "'s redis \<Rightarrow> settings \<Rightarrow> int \<Rightarrow> int option \<Rightarrow> int \<Rightarrow> (('s, 'z) jenv_scheme, jobinfo list) prog" where
  "list_all_jobs srv cfg limit owner_id offset =
     (let fetch0 = max (limit + offset) 1;
          fetch = (if owner_id \<noteq> None then min (max (fetch0 * 2) (fetch0 + 50)) 10000 else min fetch0 10000) in
      bnd (if bulk_queue_type cfg = ''redis'' then list_all_jobs_redis srv cfg fetch
           else list_all_jobs_memory fetch) (\<lambda>raw.
      ret (py_slice offset (offset + limit) (owned_by owner_id raw))))"

definition list_all_jobs_unpaginated ::
    "'s redis \<Rightarrow> settings \<Rightarrow> int option \<Rightarrow> int \<Rightarrow> (('s, 'z) jenv_scheme, jobinfo list) prog" where
  "list_all_jobs_unpaginated srv cfg owner_id max_jobs =
     (let cap = max 1 (min max_jobs 10000) in
      bnd (if bulk_queue_type cfg = ''redis'' then list_all_jobs_redis srv cfg cap
           else list_all_jobs_memory cap) (\<lambda>raw.
      ret (py_take cap (owned_by owner_id raw))))"

section \<open>Timestamps\<close>

abbreviation utc :: "datetime \<Rightarrow> datetime" where
  "utc d \<equiv> d\<lparr>dt_offset := Some 0\<rparr>"

definition naive :: "datetime \<Rightarrow> bool" where
  "naive d \<longleftrightarrow> dt_valid d \<and> dt_offset d = None"

lemma replace_char_append [simp]: "replace_char x r (a @ b) = replace_char x r a @ replace_char x r b"
  by (simp add: replace_char_def)

lemma replace_char_absent: "x \<notin> set s \<Longrightarrow> replace_char x r s = s"
  by (induction s) (auto simp: replace_char_def)

lemma isoformat_no_Z: "CHR ''Z'' \<notin> set (isoformat d)"
proof -
  have "CHR ''Z'' \<notin> set (pad k n)" for k n
    using pad_digits [of "CHR ''Z''" k n] by (auto simp: is_ascii_digit_def)
  then show ?thesis by (auto simp: isoformat_def iso_offset_def split: option.split)
qed

lemma replace_Z_iso_z: "replace_char CHR ''Z'' ''+00:00'' (iso_z d) = isoformat d @ ''+00:00''"
  by (simp add: iso_z_def replace_char_absent isoformat_no_Z) (simp add: replace_char_def)

lemma iso_offset_zero: "iso_offset (Some 0) = ''+00:00''"
  by code_simp

lemma iso_offset_None: "iso_offset None = []"
  by (simp add: iso_offset_def)

lemma isoformat_utc: "dt_offset d = None \<Longrightarrow> isoformat (utc d) = isoformat d @ ''+00:00''"
  by (simp add: isoformat_def iso_offset_zero iso_offset_None del: pad.simps)

lemma dt_valid_utc: "dt_valid d \<Longrightarrow> dt_valid (utc d)"
  by (simp add: dt_valid_def)

lemma parse_iso_z_naive [simp]: "naive d \<Longrightarrow> parse_iso_z (iso_z d) = Inr (utc d)"
  by (simp add: parse_iso_z_def replace_Z_iso_z naive_def dt_valid_utc isoformat_utc [symmetric]
      fromisoformat_isoformat)

lemma iso_z_nonempty [simp]: "iso_z d \<noteq> []"
  by (simp add: iso_z_def)

lemma naive_noon [simp]: "naive (noon n)"
  by (simp add: naive_def) (simp add: noon_def)

section \<open>Reading back a job hash\<close>

lemma field_of_Some: "field_of raw f = Some s \<longleftrightarrow> map_of raw f = Some s \<and> s \<noteq> []"
  by (auto simp: field_of_def split: option.splits if_splits)

lemma map_of_hash_updates_rev: "map_of (hash_updates ps h) f = (map_of h ++ map_of (rev ps)) f"
  by (induction ps arbitrary: h) (auto simp: map_add_def split: option.split)

lemma job_mapping_fields:
  "map_of (hash_updates (job_mapping j) []) ''job_id'' = Some (j_job_id j)"
  "map_of (hash_updates (job_mapping j) []) ''collection_id'' = Some (j_collection_id j)"
  "map_of (hash_updates (job_mapping j) []) ''status'' = Some (j_status j)"
  "map_of (hash_updates (job_mapping j) []) ''message'' = Some (or_else (j_message j) [])"
  "map_of (hash_updates (job_mapping j) []) ''items_in'' = Some (int_str (j_items_in j))"
  "map_of (hash_updates (job_mapping j) []) ''items_created'' = Some (int_str (j_items_created j))"
  "map_of (hash_updates (job_mapping j) []) ''items_failed'' = Some (int_str (j_items_failed j))"
  "map_of (hash_updates (job_mapping j) []) ''created_at'' = Some (iso_z (j_created_at j))"
  "map_of (hash_updates (job_mapping j) []) ''updated_at'' = Some (iso_z (j_updated_at j))"
  "map_of (hash_updates (job_mapping j) []) ''finished_at'' = map_option iso_z (j_finished_at j)"
  "map_of (hash_updates (job_mapping j) []) ''last_progress_at'' = map_option iso_z (j_last_progress_at j)"
  "map_of (hash_updates (job_mapping j) []) ''owner_id'' = map_option int_str (j_owner_id j)"
  "field_of (hash_updates (job_mapping j) []) ''job_label'' =
     (case j_job_label j of None \<Rightarrow> None | Some l \<Rightarrow> if l = [] then None else Some l)"
  by (simp add: job_mapping_def map_of_hash_updates_rev map_add_def field_of_def split: option.split)+

text \<open>What a job looks like after a trip through its hash: timestamps are aware, empty texts are gone.\<close>

definition drop_empty :: "string option \<Rightarrow> string option" where
  "drop_empty x = (case x of None \<Rightarrow> None | Some s \<Rightarrow> if s = [] then None else Some s)"

definition as_read :: "jobinfo \<Rightarrow> jobinfo" where
  "as_read j = j\<lparr>j_message := drop_empty (j_message j), j_created_at := utc (j_created_at j),
     j_updated_at := utc (j_updated_at j), j_finished_at := map_option utc (j_finished_at j),
     j_last_progress_at := map_option utc (j_last_progress_at j), j_job_label := drop_empty (j_job_label j)\<rparr>"

definition naive_job :: "jobinfo \<Rightarrow> bool" where
  "naive_job j \<longleftrightarrow> naive (j_created_at j) \<and> naive (j_updated_at j) \<and>
     pred_option naive (j_finished_at j) \<and> pred_option naive (j_last_progress_at j)"

lemma decode_job_mapping: "naive_job j \<Longrightarrow> decode_job (hash_updates (job_mapping j) []) = Inr (as_read j)"
  unfolding decode_job_def
  by (cases "j_message j"; cases "j_finished_at j"; cases "j_last_progress_at j"; cases "j_owner_id j")
     (simp_all add: job_mapping_fields field_of_def [of _ "''finished_at''"] field_of_def [of _ "''last_progress_at''"]
      field_of_def [of _ "''message''"] field_of_def [of _ "''owner_id''"]
      need_field_def int_field_def opt_datetime_def naive_job_def as_read_def drop_empty_def)

section \<open>Updates of a job hash\<close>

definition is_terminal :: "string option \<Rightarrow> bool" where
  "is_terminal st \<longleftrightarrow> (case st of None \<Rightarrow> False | Some s \<Rightarrow> py_lower s \<in> set TERMINAL_STATUSES_FOR_FINISHED)"

definition empty_update :: "job_update \<Rightarrow> bool" where
  "empty_update u \<longleftrightarrow> u_status u = None \<and> u_message u = None \<and> u_items_in u = None \<and>
     u_items_created u = None \<and> u_items_failed u = None \<and> u_finished_at u = None"

text \<open>The specification of an update: what each field is afterwards.\<close>

definition job_after :: "datetime \<Rightarrow> job_update \<Rightarrow> jobinfo \<Rightarrow> jobinfo" where
  "job_after now u job =
     (if empty_update u then job
      else job\<lparr>j_status := or_else (u_status u) (j_status job),
               j_message := (case u_message u of None \<Rightarrow> j_message job | Some m \<Rightarrow> drop_empty (Some m)),
               j_items_in := or_else (u_items_in u) (j_items_in job),
               j_items_created := or_else (u_items_created u) (j_items_created job),
               j_items_failed := or_else (u_items_failed u) (j_items_failed job),
               j_finished_at := (case u_finished_at u of
                   Some f \<Rightarrow> Some (utc f)
                 | None \<Rightarrow> if is_terminal (u_status u) \<and> j_finished_at job = None then Some (utc now)
                           else j_finished_at job),
               j_updated_at := utc now, j_last_progress_at := Some (utc now)\<rparr>)"

lemma update_mapping_empty: "update_mapping sf now u = [] \<longleftrightarrow> empty_update u"
  by (auto simp: update_mapping_def update_fields_def empty_update_def Let_def split: option.splits)

lemma map_of_opt_pair:
  "map_of (rev (case x of None \<Rightarrow> [] | Some v \<Rightarrow> [(f, g v)])) k = (if k = f then map_option g x else None)"
  by (simp split: option.split)

lemma map_of_status_pair:
  "map_of (rev (case st of None \<Rightarrow> [] | Some s \<Rightarrow> (f, s) # (if sf then [(f', now)] else []))) k =
     (if sf \<and> st \<noteq> None \<and> k = f' then Some now else if k = f then st else None)"
  by (simp split: option.split)

definition entry_if :: "string \<Rightarrow> string option \<Rightarrow> (string \<rightharpoonup> string)" where
  "entry_if f x = (\<lambda>k. if k = f then x else None)"

lemma entry_if_pair: "map_of (rev (case x of None \<Rightarrow> [] | Some v \<Rightarrow> [(f, g v)])) = entry_if f (map_option g x)"
  by (simp add: entry_if_def fun_eq_iff map_of_opt_pair)

lemma entry_if_status:
  "map_of (rev (case st of None \<Rightarrow> [] | Some s \<Rightarrow> (f, s) # (if sf then [(f', now)] else []))) =
     entry_if f st ++ entry_if f' (if sf \<and> st \<noteq> None then Some now else None)"
  by (auto simp: entry_if_def fun_eq_iff map_of_status_pair map_add_def split: option.split)

lemma update_mapping_lookup:
  assumes "\<not> empty_update u"
  shows "map_of (hash_updates (update_mapping sf now u) h) =
    map_of h ++ (entry_if ''status'' (u_status u) ++
      entry_if ''finished_at'' (if sf \<and> u_status u \<noteq> None then Some now else None)) ++
    entry_if ''message'' (u_message u) ++
    entry_if ''items_in'' (map_option int_str (u_items_in u)) ++
    entry_if ''items_created'' (map_option int_str (u_items_created u)) ++
    entry_if ''items_failed'' (map_option int_str (u_items_failed u)) ++
    entry_if ''finished_at'' (map_option iso_z (u_finished_at u)) ++
    map_of [(''last_progress_at'', now), (''updated_at'', now)]"
proof -
  have "map_of (rev (update_fields sf now u)) =
    (entry_if ''status'' (u_status u) ++
      entry_if ''finished_at'' (if sf \<and> u_status u \<noteq> None then Some now else None)) ++
    entry_if ''message'' (u_message u) ++
    entry_if ''items_in'' (map_option int_str (u_items_in u)) ++
    entry_if ''items_created'' (map_option int_str (u_items_created u)) ++
    entry_if ''items_failed'' (map_option int_str (u_items_failed u)) ++
    entry_if ''finished_at'' (map_option iso_z (u_finished_at u))"
    by (simp only: update_fields_def rev_append map_of_append entry_if_status entry_if_pair
        entry_if_pair [where g = "\<lambda>x. x"] option.map_ident map_add_assoc)
  moreover have "rev (update_mapping sf now u) =
      [(''last_progress_at'', now), (''updated_at'', now)] @ rev (update_fields sf now u)"
    using assms update_mapping_empty [of sf now u] by (auto simp: update_mapping_def Let_def)
  ultimately show ?thesis
    by (intro ext) (simp only: map_of_hash_updates_rev map_of_append map_add_assoc)
qed

lemma update_mapping_fields:
  assumes "\<not> empty_update u" and "sf \<longrightarrow> u_status u \<noteq> None"
  shows "map_of (hash_updates (update_mapping sf now u) h) ''job_id'' = map_of h ''job_id''"
    "map_of (hash_updates (update_mapping sf now u) h) ''collection_id'' = map_of h ''collection_id''"
    "map_of (hash_updates (update_mapping sf now u) h) ''created_at'' = map_of h ''created_at''"
    "map_of (hash_updates (update_mapping sf now u) h) ''owner_id'' = map_of h ''owner_id''"
    "map_of (hash_updates (update_mapping sf now u) h) ''job_label'' = map_of h ''job_label''"
    "map_of (hash_updates (update_mapping sf now u) h) ''updated_at'' = Some now"
    "map_of (hash_updates (update_mapping sf now u) h) ''last_progress_at'' = Some now"
    "map_of (hash_updates (update_mapping sf now u) h) ''status'' =
       (case u_status u of None \<Rightarrow> map_of h ''status'' | Some s \<Rightarrow> Some s)"
    "map_of (hash_updates (update_mapping sf now u) h) ''message'' =
       (case u_message u of None \<Rightarrow> map_of h ''message'' | Some s \<Rightarrow> Some s)"
    "map_of (hash_updates (update_mapping sf now u) h) ''items_in'' =
       (case u_items_in u of None \<Rightarrow> map_of h ''items_in'' | Some n \<Rightarrow> Some (int_str n))"
    "map_of (hash_updates (update_mapping sf now u) h) ''items_created'' =
       (case u_items_created u of None \<Rightarrow> map_of h ''items_created'' | Some n \<Rightarrow> Some (int_str n))"
    "map_of (hash_updates (update_mapping sf now u) h) ''items_failed'' =
       (case u_items_failed u of None \<Rightarrow> map_of h ''items_failed'' | Some n \<Rightarrow> Some (int_str n))"
    "map_of (hash_updates (update_mapping sf now u) h) ''finished_at'' =
       (case u_finished_at u of Some f \<Rightarrow> Some (iso_z f) | None \<Rightarrow> if sf then Some now else map_of h ''finished_at'')"
  using assms by (simp_all add: update_mapping_lookup entry_if_def map_add_def split: option.split) auto

text \<open>Decoding is a function of the field lookups, so an updated hash decodes to the updated job.\<close>

lemma decode_job_iff:
  "decode_job h = Inr job \<longleftrightarrow>
     opt_datetime (field_of h ''finished_at'') = Inr (j_finished_at job) \<and>
     opt_datetime (field_of h ''last_progress_at'') = Inr (j_last_progress_at job) \<and>
     j_owner_id job = (case field_of h ''owner_id'' of None \<Rightarrow> None
       | Some s \<Rightarrow> (case py_int s of Inl _ \<Rightarrow> None | Inr i \<Rightarrow> Some i)) \<and>
     need_field h ''job_id'' = Inr (j_job_id job) \<and>
     need_field h ''collection_id'' = Inr (j_collection_id job) \<and>
     need_field h ''status'' = Inr (j_status job) \<and>
     int_field h ''items_in'' = Inr (j_items_in job) \<and>
     int_field h ''items_created'' = Inr (j_items_created job) \<and>
     int_field h ''items_failed'' = Inr (j_items_failed job) \<and>
     sbind (need_field h ''created_at'') parse_iso_z = Inr (j_created_at job) \<and>
     sbind (need_field h ''updated_at'') parse_iso_z = Inr (j_updated_at job) \<and>
     j_message job = field_of h ''message'' \<and> j_job_label job = field_of h ''job_label''"
proof -
  have bind: "sbind r f = Inr x \<longleftrightarrow> (\<exists>a. r = Inr a \<and> f a = Inr x)" for r :: "exn + 'a" and f :: "'a \<Rightarrow> exn + jobinfo" and x
    by (cases r) auto
  show ?thesis
    unfolding decode_job_def Let_def by (cases job) (simp only: bind sum.inject jobinfo.simps jobinfo.select_convs; blast)
qed

lemma opt_datetime_None: "opt_datetime x = Inr y \<Longrightarrow> y = None \<longleftrightarrow> x = None"
  by (cases x) (auto simp: opt_datetime_def sbind_def split: sum.splits)

lemma decode_job_updated:
  assumes "decode_job h = Inr job" and "\<not> empty_update u" and "naive now" and "pred_option naive (u_finished_at u)"
    and sf: "sf \<longleftrightarrow> is_terminal (u_status u) \<and> field_of h ''finished_at'' = None"
  shows "decode_job (hash_updates (update_mapping sf (iso_z now) u) h) = Inr (job_after now u job)"
proof -
  have st: "sf \<longrightarrow> u_status u \<noteq> None" using sf by (auto simp: is_terminal_def split: option.splits)
  define H where "H = hash_updates (update_mapping sf (iso_z now) u) h"
  note f = update_mapping_fields [OF assms(2) st, where h = h and now = "iso_z now", folded H_def]
  have d: "opt_datetime (field_of h ''finished_at'') = Inr (j_finished_at job)"
    using assms(1) by (simp add: decode_job_iff)
  note fin = opt_datetime_None [OF d]
  have fa: "opt_datetime (field_of H ''finished_at'') = Inr (j_finished_at (job_after now u job))"
  proof (cases "u_finished_at u")
    case (Some t)
    then have "field_of H ''finished_at'' = Some (iso_z t)" by (simp add: field_of_def f(13))
    with Some show ?thesis using assms(2,4) by (simp add: opt_datetime_def job_after_def)
  next
    case None
    have "field_of H ''finished_at'' = (if sf then Some (iso_z now) else field_of h ''finished_at'')"
      by (simp add: field_of_def f(13) None)
    with None show ?thesis
      using assms(2,3) sf fin d by (auto simp: opt_datetime_def [of "Some _"] job_after_def)
  qed
  have "field_of H ''owner_id'' = field_of h ''owner_id''" "field_of H ''job_label'' = field_of h ''job_label''"
    "field_of H ''last_progress_at'' = Some (iso_z now)"
    "field_of H ''message'' = (case u_message u of None \<Rightarrow> field_of h ''message'' | Some m \<Rightarrow> drop_empty (Some m))"
    by (simp_all add: field_of_def f drop_empty_def split: option.split)
  moreover have "need_field H ''job_id'' = need_field h ''job_id''" "need_field H ''collection_id'' = need_field h ''collection_id''"
    "need_field H ''created_at'' = need_field h ''created_at''" "need_field H ''updated_at'' = Inr (iso_z now)"
    "need_field H ''status'' = (case u_status u of None \<Rightarrow> need_field h ''status'' | Some s \<Rightarrow> Inr s)"
    by (simp_all add: need_field_def f split: option.split)
  moreover have "int_field H ''items_in'' = (case u_items_in u of None \<Rightarrow> int_field h ''items_in'' | Some n \<Rightarrow> Inr n)"
    "int_field H ''items_created'' = (case u_items_created u of None \<Rightarrow> int_field h ''items_created'' | Some n \<Rightarrow> Inr n)"
    "int_field H ''items_failed'' = (case u_items_failed u of None \<Rightarrow> int_field h ''items_failed'' | Some n \<Rightarrow> Inr n)"
    by (simp_all add: int_field_def f split: option.split)
  ultimately show ?thesis
    using assms(1,2,3) fa unfolding decode_job_iff H_def [symmetric]
    by (simp add: job_after_def opt_datetime_def [of "Some _"] split: option.split)
qed

section \<open>The Redis backend when the server answers\<close>

lemma job_keys_distinct [simp]:
  "redis_key i \<noteq> jobs_by_collection_key c" "jobs_by_collection_key c \<noteq> redis_key i"
  "redis_key i \<noteq> mutex_key c" "mutex_key c \<noteq> redis_key i"
  "jobs_by_collection_key d \<noteq> mutex_key c" "mutex_key c \<noteq> jobs_by_collection_key d"
  "redis_key i = redis_key j \<longleftrightarrow> i = j"
  by (auto simp: redis_key_def jobs_by_collection_key_def mutex_key_def BULK_COLLECTION_MUTEX_PREFIX_def)

lemma decode_job_nonempty: "decode_job h = Inr job \<Longrightarrow> h \<noteq> []"
  by (auto simp: decode_job_iff need_field_def)

definition stored :: "store \<Rightarrow> string \<Rightarrow> jobinfo \<Rightarrow> bool" where
  "stored st i job \<longleftrightarrow> (\<exists>h t. st (redis_key i) = Some (RHash h, t) \<and> decode_job h = Inr job)"

context redis_server
begin

lemma release_noop:
  assumes "\<not> held_by st0 c j"
  shows "vpreserves view (\<lambda>st. st = st0) (release_collection_bulk_mutex srv cfg c j)"
proof -
  have "vpreserves view (\<lambda>st. st = st0)
      (bnd (r_get srv (mutex_key c)) (\<lambda>v.
         if v = Some j then bnd (r_delete srv [mutex_key c]) (\<lambda>_. ret ()) else ret ()))"
  proof (rule triple_bnd)
    show "vtriple view (\<lambda>st. st = st0) (r_get srv (mutex_key c)) (\<lambda>v st. st = st0 \<and> v \<noteq> Some j) (\<lambda>st. st = st0)"
      by (rule vtriple_get) (use assms in \<open>auto dest: as_string_held\<close>)
  qed (auto intro!: triple_if triple_ret simp: triple_def prog_simps)
  then show ?thesis
    unfolding release_eq by (auto intro: triple_ret preserves_retry)
qed

end

context redis_up
begin

lemma get_job_redis_stored:
  assumes "stored (view (rds w)) i job"
  shows "fst (get_job_redis srv cfg i w) = Inr (Some job)"
    and "view (rds (snd (get_job_redis srv cfg i w))) = view (rds w)"
proof -
  obtain h t where h: "view (rds w) (redis_key i) = Some (RHash h, t)" "decode_job h = Inr job"
    using assms by (auto simp: stored_def)
  show "fst (get_job_redis srv cfg i w) = Inr (Some job)"
    "view (rds (snd (get_job_redis srv cfg i w))) = view (rds w)"
    using h decode_job_nonempty [OF h(2)] by (simp_all add: get_job_redis_def prog_simps redis_simps)
qed

lemma release_on_terminal_eval:
  assumes "uses_redis cfg"
  shows "fst (release_bulk_mutex_on_terminal srv cfg i (Some c) st w) = Inr ()"
    and "view (rds (snd (release_bulk_mutex_on_terminal srv cfg i (Some c) st w))) =
      (if is_terminal st \<and> c \<noteq> [] \<and> held_by (view (rds w)) c i then (view (rds w))(mutex_key c := None)
       else view (rds w))"
proof -
  let ?rel = "release_collection_bulk_mutex srv cfg c i"
  have nt: "py_lower [] \<notin> set TERMINAL_STATUSES_FOR_FINISHED"
    by (simp add: py_lower_def TERMINAL_STATUSES_FOR_FINISHED_def)
  have r: "release_bulk_mutex_on_terminal srv cfg i (Some c) st =
      (if is_terminal st \<and> c \<noteq> [] then catch ?rel (\<lambda>_. ret ()) else ret ())"
    using nt by (auto simp: release_bulk_mutex_on_terminal_def is_terminal_def release_bulk_mutex_for_job_def split: option.split)
  show "fst (release_bulk_mutex_on_terminal srv cfg i (Some c) st w) = Inr ()"
    unfolding r by (simp add: prog_simps split: sum.split)
  have "view (rds (snd (?rel w))) = (if held_by (view (rds w)) c i then (view (rds w))(mutex_key c := None) else view (rds w))"
  proof (cases "held_by (view (rds w)) c i")
    case True
    then obtain t where "view (rds w) (mutex_key c) = Some (RString i, t)" by (auto simp: held_by_def)
    with assms True show ?thesis
      by (auto simp: release_eq uses_redis_def prog_simps redis_simps)
  next
    case False
    then show ?thesis using preservesD [OF release_noop [OF False], of w] by simp
  qed
  then show "view (rds (snd (release_bulk_mutex_on_terminal srv cfg i (Some c) st w))) =
      (if is_terminal st \<and> c \<noteq> [] \<and> held_by (view (rds w)) c i then (view (rds w))(mutex_key c := None)
       else view (rds w))"
    unfolding r by (cases "is_terminal st \<and> c \<noteq> []") (auto simp: prog_simps split: sum.split)
qed

lemma sets_finished_eval:
  assumes "view (rds w) key = Some (RHash h, t)"
  shows "fst (sets_finished srv key st w) = Inr (is_terminal st \<and> field_of h ''finished_at'' = None)"
    and "view (rds (snd (sets_finished srv key st w))) = view (rds w)"
proof -
  have "(or_else (map_of h ''finished_at'') [] = []) = (field_of h ''finished_at'' = None)"
    by (simp add: field_of_def split: option.split)
  then show "fst (sets_finished srv key st w) = Inr (is_terminal st \<and> field_of h ''finished_at'' = None)"
    "view (rds (snd (sets_finished srv key st w))) = view (rds w)"
    using assms by (auto simp: sets_finished_def is_terminal_def prog_simps redis_simps split: option.split)
qed

lemma write_job_update_eval:
  assumes "view (rds w) key = Some (RHash h, t)"
  shows "fst (write_job_update srv cfg key u w) = Inr (map_of h ''collection_id'')"
    and "view (rds (snd (write_job_update srv cfg key u w))) = (view (rds w))(key \<mapsto>
      (RHash (hash_updates (update_mapping (is_terminal (u_status u) \<and> field_of h ''finished_at'' = None)
         (iso_z (clock w (ticks w))) u) h), t))"
proof -
  define sf where "sf \<longleftrightarrow> is_terminal (u_status u) \<and> field_of h ''finished_at'' = None"
  define w1 where "w1 = w\<lparr>rds := snd (srv (One (HGet key ''collection_id'')) (rds w)), ticks := Suc (ticks w)\<rparr>"
  define ups where "ups = update_mapping sf (iso_z (clock w (ticks w))) u"
  have v1: "view (rds w1) key = Some (RHash h, t)" "view (rds w1) = view (rds w)"
    using assms by (simp_all add: w1_def redis_simps)
  note sf1 = sets_finished_eval [OF v1(1), of "u_status u", folded sf_def]
  have run: "write_job_update srv cfg key u w =
      bnd (if ups = [] then ret () else bnd (run_redis_retry cfg None (r_hset srv key ups)) (\<lambda>_. ret ()))
        (\<lambda>_. ret (map_of h ''collection_id'')) (snd (sets_finished srv key (u_status u) w1))"
    using assms sf1(1)
    by (simp add: write_job_update_def bnd_def [of "run_redis_retry _ _ (r_hget _ _ _)"] bnd_def [of utcnow]
        bnd_def [of "sets_finished _ _ _"] prog_simps redis_simps w1_def [symmetric] ups_def Let_def)
  show "fst (write_job_update srv cfg key u w) = Inr (map_of h ''collection_id'')"
    "view (rds (snd (write_job_update srv cfg key u w))) = (view (rds w))(key \<mapsto>
      (RHash (hash_updates (update_mapping (is_terminal (u_status u) \<and> field_of h ''finished_at'' = None)
         (iso_z (clock w (ticks w))) u) h), t))"
    using sf1(2) v1 assms unfolding run sf_def [symmetric] ups_def [symmetric]
    by (cases "ups = []"; auto simp: prog_simps redis_simps)+
qed

lemma update_job_redis_stored:
  assumes "uses_redis cfg" and "stored (view (rds w)) i job" and "naive (clock w (ticks w))"
    and "pred_option naive (u_finished_at u)"
  shows "fst (update_job_redis srv cfg i u w) = Inr (Some (job_after (clock w (ticks w)) u job))"
    and "k \<noteq> redis_key i \<Longrightarrow> view (rds (snd (update_job_redis srv cfg i u w))) k =
      (if is_terminal (u_status u) \<and> k = mutex_key (j_collection_id job) \<and> j_collection_id job \<noteq> [] \<and>
          held_by (view (rds w)) (j_collection_id job) i
       then None else view (rds w) k)"
    and "stored (view (rds (snd (update_job_redis srv cfg i u w)))) i (job_after (clock w (ticks w)) u job)"
proof -
  define now where "now = clock w (ticks w)"
  define c where "c = j_collection_id job"
  obtain h t where h: "view (rds w) (redis_key i) = Some (RHash h, t)" "decode_job h = Inr job"
    using assms(2) by (auto simp: stored_def)
  have hc: "map_of h ''collection_id'' = Some c"
    using h(2) by (auto simp: decode_job_iff need_field_def c_def split: option.splits)
  define sf where "sf \<longleftrightarrow> is_terminal (u_status u) \<and> field_of h ''finished_at'' = None"
  define h' where "h' = hash_updates (update_mapping sf (iso_z now) u) h"
  have dec: "decode_job h' = Inr (job_after now u job)"
    using decode_job_updated [OF h(2) _ assms(3,4) sf_def] h(2) update_mapping_empty [of sf "iso_z now" u]
    by (cases "empty_update u") (auto simp: now_def h'_def job_after_def)
  define w0 where "w0 = w\<lparr>rds := snd (srv (One (Exists (redis_key i))) (rds w))\<rparr>"
  define w1 where "w1 = snd (write_job_update srv cfg (redis_key i) u w0)"
  have w0: "view (rds w0) = view (rds w)" "clock w0 (ticks w0) = now"
    by (simp_all add: w0_def redis_simps now_def)
  have wr: "fst (write_job_update srv cfg (redis_key i) u w0) = Inr (Some c)"
    "view (rds w1) = (view (rds w))(redis_key i \<mapsto> (RHash h', t))"
    using write_job_update_eval [of w0 "redis_key i" h t cfg u] h w0 hc
    by (simp_all add: w1_def h'_def sf_def)
  let ?m = "if u_status u \<noteq> None then release_bulk_mutex_on_terminal srv cfg i (Some c) (u_status u) else ret ()"
  define w2 where "w2 = snd (?m w1)"
  have rel: "fst (?m w1) = Inr ()"
    "view (rds w2) = (if is_terminal (u_status u) \<and> c \<noteq> [] \<and> held_by (view (rds w)) c i
      then (view (rds w1))(mutex_key c := None) else view (rds w1))"
    using release_on_terminal_eval [OF assms(1), of i c "u_status u" w1] wr(2)
    by (auto simp: w2_def prog_simps held_by_def is_terminal_def)
  have st2: "stored (view (rds w2)) i (job_after now u job)"
    using dec by (auto simp: stored_def rel(2) wr(2))
  have run: "update_job_redis srv cfg i u w = get_job_redis srv cfg i w2"
    unfolding update_job_redis_def using h(1) wr rel(1)
    by (cases "u_status u") (simp_all add: bnd_def prog_simps redis_simps w0_def [symmetric] w1_def [symmetric] w2_def)
  show "fst (update_job_redis srv cfg i u w) = Inr (Some (job_after (clock w (ticks w)) u job))"
    "stored (view (rds (snd (update_job_redis srv cfg i u w)))) i (job_after (clock w (ticks w)) u job)"
    using get_job_redis_stored [OF st2] st2 by (simp_all add: run now_def)
  show "view (rds (snd (update_job_redis srv cfg i u w))) k =
      (if is_terminal (u_status u) \<and> k = mutex_key (j_collection_id job) \<and> j_collection_id job \<noteq> [] \<and>
          held_by (view (rds w)) (j_collection_id job) i
       then None else view (rds w) k)" if "k \<noteq> redis_key i"
    using get_job_redis_stored [OF st2] that by (auto simp: run rel(2) wr(2) c_def)
qed

lemma lrange_first: "0 \<le> b \<Longrightarrow> lrange_list 0 b l = take (Suc (nat b)) l"
  by (cases l) (auto simp: lrange_list_def Let_def min_def nat_add_distrib)

lemma create_job_redis_eval:
  fixes w :: "('a, 'z) env_scheme" and owner :: "int option" and label :: "string option"
  assumes "uses_redis cfg" and "view (rds w) (redis_key (uuids w (uuid_n w))) = None"
    and "as_list (view (rds w) (jobs_by_collection_key c)) = Some (l, t)"
    and "naive (clock w (ticks w))" and "naive (clock w (Suc (ticks w)))"
  defines "i \<equiv> uuids w (uuid_n w)"
  defines "job \<equiv> new_job i c (clock w (ticks w)) (clock w (Suc (ticks w))) owner label"
  shows "fst (create_job_redis srv cfg c owner label w) = Inr job"
    and "view (rds (snd (create_job_redis srv cfg c owner label w))) (jobs_by_collection_key c) =
      Some (RList (take 50 (i # l)), Some (86400 * 7))"
    and "stored (view (rds (snd (create_job_redis srv cfg c owner label w)))) i (as_read job)"
proof -
  have n: "naive_job job" using assms(4,5) by (simp add: naive_job_def job_def new_job_def)
  have m: "job_mapping job \<noteq> []" by (simp add: job_mapping_def)
  show "fst (create_job_redis srv cfg c owner label w) = Inr job"
    "view (rds (snd (create_job_redis srv cfg c owner label w))) (jobs_by_collection_key c) =
      Some (RList (take 50 (i # l)), Some (86400 * 7))"
    "stored (view (rds (snd (create_job_redis srv cfg c owner label w)))) i (as_read job)"
    using assms(1-3) m decode_job_mapping [OF n]
    by (simp_all add: create_job_redis_def prog_simps redis_simps Let_def i_def [symmetric] job_def [symmetric]
        lrange_first stored_def)
qed

end

section \<open>Listings\<close>

definition newest_first :: "jobinfo list \<Rightarrow> bool" where
  "newest_first js \<longleftrightarrow> sorted_wrt (\<lambda>a b. dt_micros (j_updated_at b) \<le> dt_micros (j_updated_at a)) js"

lemma sort_jobs_sorted: "sort_jobs js = Inr ks \<Longrightarrow> newest_first ks \<and> set ks = set js"
proof -
  have "sorted_wrt (\<lambda>a b. - dt_micros (j_updated_at a) \<le> - dt_micros (j_updated_at b))
      (sort_key (\<lambda>j. - dt_micros (j_updated_at j)) js)" for js
    using sorted_sort_key [of "\<lambda>j. - dt_micros (j_updated_at j)" js] by (simp only: sorted_map)
  then show "sort_jobs js = Inr ks \<Longrightarrow> newest_first ks \<and> set ks = set js"
    by (auto simp: sort_jobs_def newest_first_def split: if_splits)
qed

lemma newest_first_filter: "newest_first js \<Longrightarrow> newest_first (filter p js)"
  by (simp add: newest_first_def sorted_wrt_filter)

lemma newest_first_take: "newest_first js \<Longrightarrow> newest_first (take n js)"
  unfolding newest_first_def by (rule sorted_wrt_take)

lemma newest_first_drop: "newest_first js \<Longrightarrow> newest_first (drop n js)"
  unfolding newest_first_def by (rule sorted_wrt_drop)

lemma newest_first_owned: "newest_first js \<Longrightarrow> newest_first (owned_by o' js)"
  by (simp add: owned_by_def newest_first_filter split: option.split)

lemma bnd_Inr: "fst (bnd m f w) = Inr y \<longleftrightarrow> (\<exists>x. fst (m w) = Inr x \<and> fst (f x (snd (m w))) = Inr y)"
  by (auto simp: prog_simps split: sum.splits)

lemma fst_simps:
  "fst (ret a w) = Inr b \<longleftrightarrow> a = b" "fst (lift_exn r w) = Inr b \<longleftrightarrow> r = Inr b" "fst (gets f w) = Inr b \<longleftrightarrow> f w = b"
  by (auto simp: prog_simps)

lemma list_collection_redis_sorted:
  "fst (list_jobs_for_collection_redis srv cfg c n w) = Inr js \<Longrightarrow> newest_first js"
  by (auto simp: list_jobs_for_collection_redis_def bnd_Inr fst_simps py_take_def
      dest!: sort_jobs_sorted intro: newest_first_take)

lemma list_collection_memory_sorted:
  "fst (list_jobs_for_collection_memory c n w) = Inr js \<Longrightarrow>
     newest_first js \<and> (\<forall>j\<in>set js. j_collection_id j = c)"
  using set_py_take
  by (fastforce simp: list_jobs_for_collection_memory_def bnd_Inr fst_simps py_take_def
      dest!: sort_jobs_sorted intro: newest_first_take dest: in_set_takeD)

lemma list_all_redis_sorted: "fst (list_all_jobs_redis srv cfg n w) = Inr js \<Longrightarrow> newest_first js"
  by (auto simp: list_all_jobs_redis_def bnd_Inr fst_simps py_take_def Let_def
      dest!: sort_jobs_sorted intro: newest_first_take)

lemma list_all_memory_sorted: "fst (list_all_jobs_memory n w) = Inr js \<Longrightarrow> newest_first js"
  by (auto simp: list_all_jobs_memory_def bnd_Inr fst_simps py_take_def
      dest!: sort_jobs_sorted intro: newest_first_take)

section \<open>Properties\<close>

text \<open>Create and get. When the server answers and the new identifier is unused, \<^verbatim>\<open>create_job\<close> returns
  the pending job, \<^verbatim>\<open>get_job\<close> on its id returns the same job with its two timestamps marked UTC (and an
  empty label dropped), and the id heads the collection's list, cut to fifty.\<close>

theorem job_create_get:
  fixes w :: "('s, 'z) jenv_scheme" and owner :: "int option" and label :: "string option"
  assumes "redis_up srv view" and "uses_redis cfg"
    and "view (rds w) (redis_key (uuids w (uuid_n w))) = None"
    and "as_list (view (rds w) (jobs_by_collection_key c)) = Some (l, t)"
    and "naive (clock w (ticks w))" and "naive (clock w (Suc (ticks w)))"
  defines "i \<equiv> uuids w (uuid_n w)"
  defines "job \<equiv> new_job i c (clock w (ticks w)) (clock w (Suc (ticks w))) owner label"
  defines "w' \<equiv> snd (create_job srv cfg c owner label w)"
  shows "fst (create_job srv cfg c owner label w) = Inr job \<and>
         fst (get_job srv cfg i w') = Inr (Some (as_read job)) \<and>
         view (rds w') (jobs_by_collection_key c) = Some (RList (take 50 (i # l)), Some (86400 * 7))"
  using redis_up.create_job_redis_eval [OF assms(1-6), of owner label] assms(2)
    redis_up.get_job_redis_stored(1) [OF assms(1)]
  by (simp add: create_job_def get_job_def uses_redis_def w'_def job_def i_def)

theorem job_create_get_witness:
  "fst (get_job mem_srv default_settings ''job0''
      (snd (create_job mem_srv default_settings ''c'' (Some 7) None (jenv0 [])))) =
    Inr (Some (as_read (new_job ''job0'' ''c'' (noon 0) (noon 1) (Some 7) None)))"
  using job_create_get [OF mem.redis_up_axioms uses_redis_default, of "jenv0 []" "''c''" "[]" None "Some 7" None]
  by (simp add: redis_simps nat_str_zero)

text \<open>C16: Updates. On a stored job, when the server answers, \<^verbatim>\<open>update_job\<close> returns the job with exactly the
  given fields replaced, both progress timestamps set to now, and the finishing time set by the first
  terminal status only; a later \<^verbatim>\<open>get_job\<close> returns the same. An update with no field changes nothing.\<close>

theorem job_update_refines:
  fixes w :: "('s, 'z) jenv_scheme"
  assumes "redis_up srv view" and "uses_redis cfg" and "stored (view (rds w)) i job"
    and "naive (clock w (ticks w))" and "pred_option naive (u_finished_at u)"
  defines "w' \<equiv> snd (update_job srv cfg i u w)"
  shows "fst (update_job srv cfg i u w) = Inr (Some (job_after (clock w (ticks w)) u job)) \<and>
         fst (get_job srv cfg i w') = Inr (Some (job_after (clock w (ticks w)) u job))"
  using redis_up.update_job_redis_stored(1,3) [OF assms(1-5)] assms(2) redis_up.get_job_redis_stored(1) [OF assms(1)]
  by (simp add: update_job_def get_job_def uses_redis_def w'_def)

theorem job_update_refines_witness:
  "fst (update_job mem_srv default_settings ''j'' (no_update\<lparr>u_status := Some ''failed''\<rparr>)
     (jenv0 [(redis_key ''j'', (RHash (hash_updates (job_mapping (new_job ''j'' ''c'' (noon 0) (noon 0) None None)) []), None))])) =
   Inr (Some (job_after (noon 0) (no_update\<lparr>u_status := Some ''failed''\<rparr>)
     (as_read (new_job ''j'' ''c'' (noon 0) (noon 0) None None))))"
proof -
  let ?j = "new_job ''j'' ''c'' (noon 0) (noon 0) None None"
  let ?w = "jenv0 [(redis_key ''j'', (RHash (hash_updates (job_mapping ?j) []), None))]"
  have "naive_job ?j" by (simp add: naive_job_def new_job_def)
  then have "stored (map_of (rds ?w)) ''j'' (as_read ?j)" by (simp add: stored_def decode_job_mapping)
  from job_update_refines [OF mem.redis_up_axioms uses_redis_default this, of "no_update\<lparr>u_status := Some ''failed''\<rparr>"]
  show ?thesis by (simp add: no_update_def)
qed

text \<open>The two backends agree. An update that sets the status, the created count or a non-empty message
  gives, in Redis, the job the in-memory backend computes from the same job at the same time, timestamps
  read as UTC.\<close>

theorem job_backends_agree:
  fixes w :: "('s, 'z) jenv_scheme"
  assumes "redis_up srv view" and "uses_redis cfg" and "stored (view (rds w)) i job"
    and "naive (clock w (ticks w))" and "pred_option naive (u_finished_at u)"
    and "u_status u \<noteq> None \<or> u_items_created u \<noteq> None \<or> u_message u \<noteq> None" and "u_message u \<noteq> Some []"
  shows "fst (update_job srv cfg i u w) =
    Inr (Some (apply_update_memory (utc (clock w (ticks w))) (u\<lparr>u_finished_at := map_option utc (u_finished_at u)\<rparr>) job))"
proof -
  have "job_after (clock w (ticks w)) u job =
      apply_update_memory (utc (clock w (ticks w))) (u\<lparr>u_finished_at := map_option utc (u_finished_at u)\<rparr>) job"
    using assms(6,7)
    by (auto simp: job_after_def apply_update_memory_def empty_update_def is_terminal_def upd_def drop_empty_def Let_def
        split: option.splits)
  then show ?thesis
    using redis_up.update_job_redis_stored(1) [OF assms(1-5)] assms(2) by (simp add: update_job_def uses_redis_def)
qed

theorem job_backends_agree_witness:
  "fst (update_job mem_srv default_settings ''j'' (no_update\<lparr>u_status := Some ''running''\<rparr>)
     (jenv0 [(redis_key ''j'', (RHash (hash_updates (job_mapping (new_job ''j'' ''c'' (noon 0) (noon 0) None None)) []), None))])) =
   Inr (Some (apply_update_memory (utc (noon 0)) (no_update\<lparr>u_status := Some ''running''\<rparr>)
     (as_read (new_job ''j'' ''c'' (noon 0) (noon 0) None None))))"
proof -
  let ?j = "new_job ''j'' ''c'' (noon 0) (noon 0) None None"
  let ?w = "jenv0 [(redis_key ''j'', (RHash (hash_updates (job_mapping ?j) []), None))]"
  have "naive_job ?j" by (simp add: naive_job_def new_job_def)
  then have "stored (map_of (rds ?w)) ''j'' (as_read ?j)" by (simp add: stored_def decode_job_mapping)
  from job_backends_agree [OF mem.redis_up_axioms uses_redis_default this, of "no_update\<lparr>u_status := Some ''running''\<rparr>"]
  show ?thesis by (simp add: no_update_def)
qed

text \<open>The backends do not treat an update that only sets the count of items read alike: the Redis
  backend records progress, the in-memory backend does not.\<close>

theorem job_backends_differ_on_items_in:
  fixes w :: "('s, 'z) jenv_scheme" and n :: int
  assumes "redis_up srv view" and "uses_redis cfg" and "stored (view (rds w)) i job" and "naive (clock w (ticks w))"
  defines "u \<equiv> no_update\<lparr>u_items_in := Some n\<rparr>"
  shows "\<exists>job'. fst (update_job srv cfg i u w) = Inr (Some job') \<and>
           j_last_progress_at job' = Some (utc (clock w (ticks w))) \<and>
           j_last_progress_at (apply_update_memory (clock w (ticks w)) u job) = j_last_progress_at job"
  using redis_up.update_job_redis_stored(1) [OF assms(1-4), of u] assms(2)
  by (simp add: update_job_def uses_redis_def u_def no_update_def job_after_def empty_update_def
      apply_update_memory_def Let_def)

theorem job_backends_differ_on_items_in_witness:
  "\<exists>job'. fst (update_job mem_srv default_settings ''j'' (no_update\<lparr>u_items_in := Some 5\<rparr>)
     (jenv0 [(redis_key ''j'', (RHash (hash_updates (job_mapping (new_job ''j'' ''c'' (noon 0) (noon 0) None None)) []), None))])) =
       Inr (Some job') \<and> j_last_progress_at job' = Some (utc (noon 0))"
proof -
  let ?j = "new_job ''j'' ''c'' (noon 0) (noon 0) None None"
  let ?w = "jenv0 [(redis_key ''j'', (RHash (hash_updates (job_mapping ?j) []), None))]"
  have "naive_job ?j" by (simp add: naive_job_def new_job_def)
  then have "stored (map_of (rds ?w)) ''j'' (as_read ?j)" by (simp add: stored_def decode_job_mapping)
  from job_backends_differ_on_items_in [OF mem.redis_up_axioms uses_redis_default this, of 5]
  show ?thesis by auto
qed

text \<open>C15: Finishing a job frees its collection. When the server answers and the status written is terminal,
  the mutex of the job's collection is free afterwards if the job held it and is left as it was if it
  did not; a non-terminal update leaves it, and no other job's hash is touched.\<close>

theorem job_terminal_update_releases_mutex:
  fixes w :: "('s, 'z) jenv_scheme"
  assumes "redis_up srv view" and "uses_redis cfg" and "stored (view (rds w)) i job"
    and "naive (clock w (ticks w))" and "pred_option naive (u_finished_at u)" and "j_collection_id job \<noteq> []"
  defines "w' \<equiv> snd (update_job srv cfg i u w)" and "key \<equiv> mutex_key (j_collection_id job)"
  shows "view (rds w') key =
           (if is_terminal (u_status u) \<and> held_by (view (rds w)) (j_collection_id job) i then None
            else view (rds w) key) \<and>
         (\<forall>j. j \<noteq> i \<longrightarrow> view (rds w') (redis_key j) = view (rds w) (redis_key j))"
  using redis_up.update_job_redis_stored(2) [OF assms(1-5)] assms(2,6)
  by (simp add: update_job_def uses_redis_def w'_def key_def)

theorem job_terminal_update_releases_mutex_witness:
  "map_of (rds (snd (update_job mem_srv default_settings ''j'' (no_update\<lparr>u_status := Some ''Failed''\<rparr>)
     (jenv0 [(redis_key ''j'', (RHash (hash_updates (job_mapping (new_job ''j'' ''c'' (noon 0) (noon 0) None None)) []), None)),
             (mutex_key ''c'', (RString ''j'', None))])))) (mutex_key ''c'') = None"
proof -
  let ?j = "new_job ''j'' ''c'' (noon 0) (noon 0) None None"
  let ?w = "jenv0 [(redis_key ''j'', (RHash (hash_updates (job_mapping ?j) []), None)), (mutex_key ''c'', (RString ''j'', None))]"
  have "naive_job ?j" by (simp add: naive_job_def new_job_def)
  then have st: "stored (map_of (rds ?w)) ''j'' (as_read ?j)" by (simp add: stored_def decode_job_mapping)
  have c: "j_collection_id (as_read ?j) = ''c''" by (simp add: as_read_def new_job_def)
  have h: "held_by (map_of (rds ?w)) ''c'' ''j''" by (simp add: held_by_def)
  have t: "is_terminal (Some ''Failed'')" by code_simp
  from job_terminal_update_releases_mutex [OF mem.redis_up_axioms uses_redis_default st,
      of "no_update\<lparr>u_status := Some ''Failed''\<rparr>"]
  show ?thesis using h t c by (simp only: job_update.simps) (simp add: no_update_def)
qed

text \<open>Listings. Whatever the server does, a listing of a collection's jobs that returns has at most
  \<^verbatim>\<open>limit\<close> jobs, newest update first, and only the owner's when an owner is given.\<close>

theorem job_listing_ordered:
  assumes "fst (list_jobs_for_collection srv cfg c limit owner w) = Inr js" and "0 \<le> limit"
  shows "length js \<le> nat limit \<and> newest_first js \<and> (\<forall>o'. owner = Some o' \<longrightarrow> (\<forall>j\<in>set js. j_owner_id j = Some o'))"
proof -
  let ?n = "if owner \<noteq> None then limit * 2 else limit"
  obtain raw where raw: "newest_first raw" and js: "js = py_take limit (owned_by owner raw)"
    using assms(1)
    by (auto simp: list_jobs_for_collection_def bnd_Inr fst_simps Let_def
        dest: list_collection_redis_sorted list_collection_memory_sorted split: if_splits)
  show ?thesis
    unfolding js using newest_first_owned [OF raw, of owner] assms(2)
    by (auto simp: py_take_nonneg newest_first_take owned_by_def dest!: in_set_takeD)
qed

theorem job_listing_ordered_witness:
  "\<exists>j. fst (list_jobs_for_collection mem_srv default_settings ''c'' 20 None
     (snd (create_job mem_srv default_settings ''c'' None None (jenv0 [])))) = Inr [j] \<and> newest_first [j]"
proof -
  let ?w = "snd (create_job mem_srv default_settings ''c'' None None (jenv0 []))"
  have "fst (list_jobs_for_collection mem_srv default_settings ''c'' 20 None ?w) =
      Inr [as_read (new_job ''job0'' ''c'' (noon 0) (noon 1) None None)]"
    by code_simp
  moreover from job_listing_ordered [OF this]
  have "newest_first [as_read (new_job ''job0'' ''c'' (noon 0) (noon 1) None None)]" by simp
  ultimately show ?thesis by blast
qed

text \<open>The owner's listing can miss the owner's jobs: the filter runs on the newest \<^verbatim>\<open>2 * limit\<close> jobs of
  everyone, so with limit 1 and two newer jobs of somebody else the owner sees an empty list.\<close>

theorem job_owner_listing_misses:
  "let cfg = default_settings\<lparr>bulk_queue_type := ''memory''\<rparr>;
       w1 = snd (create_job mem_srv cfg ''c'' (Some 1) None (jenv0 []));
       w2 = snd (create_job mem_srv cfg ''c'' (Some 2) None w1);
       w3 = snd (create_job mem_srv cfg ''c'' (Some 2) None w2)
   in map_option j_owner_id (map_of (mem_jobs w3) ''job0'') = Some (Some 1) \<and>
      fst (list_jobs_for_collection mem_srv cfg ''c'' 1 (Some 1) w3) = Inr []"
  by code_simp

text \<open>The text \<^verbatim>\<open>to_dict\<close> prints for the creation time of a job read from Redis ends in \<^verbatim>\<open>+00:00Z\<close>, an
  offset twice, and the reader of this module rejects it.\<close>

theorem job_dict_of_redis_job_has_bad_timestamps:
  fixes w :: "('s, 'z) jenv_scheme" and owner :: "int option" and label :: "string option"
  assumes "redis_up srv view" and "uses_redis cfg"
    and "view (rds w) (redis_key (uuids w (uuid_n w))) = None"
    and "as_list (view (rds w) (jobs_by_collection_key c)) = Some (l, t)"
    and "naive (clock w (ticks w))" and "naive (clock w (Suc (ticks w)))"
  defines "d \<equiv> clock w (ticks w)"
  defines "w' \<equiv> snd (create_job srv cfg c owner label w)"
  shows "\<exists>job. fst (get_job srv cfg (uuids w (uuid_n w)) w') = Inr (Some job) \<and>
     map_of (JobInfo_to_dict job) ''created_at'' = Some (JStr (isoformat d @ ''+00:00Z'')) \<and>
     parse_iso_z (isoformat d @ ''+00:00Z'') = Inl ValueError"
proof -
  let ?j = "as_read (new_job (uuids w (uuid_n w)) c d (clock w (Suc (ticks w))) owner label)"
  have "fst (get_job srv cfg (uuids w (uuid_n w)) w') = Inr (Some ?j)"
    using redis_up.create_job_redis_eval(3) [OF assms(1-6), of owner label] assms(2)
      redis_up.get_job_redis_stored(1) [OF assms(1)]
    by (simp add: create_job_def get_job_def uses_redis_def w'_def d_def)
  moreover have i: "iso_z (utc d) = isoformat d @ ''+00:00Z''"
    using assms(5) by (simp add: d_def naive_def iso_z_def isoformat_utc)
  have "map_of (JobInfo_to_dict ?j) ''created_at'' = Some (JStr (isoformat d @ ''+00:00Z''))"
    by (simp add: JobInfo_to_dict_def i as_read_def new_job_def)
  moreover have "p_offset (''+00:00'' @ ''+00:00'') = None" by code_simp
  then have "parse_iso_z (iso_z (utc d)) = Inl ValueError"
    using p_datetime_suffix [of d "''+00:00'' @ ''+00:00''"] assms(5)
    by (simp add: parse_iso_z_def replace_Z_iso_z isoformat_utc naive_def d_def fromisoformat_def)
  ultimately show ?thesis by (auto simp: i)
qed

theorem job_dict_of_redis_job_has_bad_timestamps_witness:
  "\<exists>job. fst (get_job mem_srv default_settings ''job0''
      (snd (create_job mem_srv default_settings ''c'' None None (jenv0 [])))) = Inr (Some job) \<and>
     map_of (JobInfo_to_dict job) ''created_at'' = Some (JStr ''2024-01-01T12:00:00+00:00Z'') \<and>
     parse_iso_z ''2024-01-01T12:00:00+00:00Z'' = Inl ValueError"
proof -
  have t: "isoformat (noon 0) @ ''+00:00Z'' = ''2024-01-01T12:00:00+00:00Z''" by code_simp
  show ?thesis
    using job_dict_of_redis_job_has_bad_timestamps [OF mem.redis_up_axioms uses_redis_default,
        of "jenv0 []" "''c''" "[]" None None None] t
    by (simp add: redis_simps nat_str_zero)
qed

end
