(* ===== verification/Bulk_Activity.thy ===== *)
theory Bulk_Activity
  imports Job_Store "HOL-Library.List_Lexorder" "HOL-Library.Char_ord"
begin

text \<open>
  The second half of \<^verbatim>\<open>app/services/bulk_collection_activity.py\<close>: which jobs are active on a collection,
  reclaiming the mutex of a holder that is gone, finished or stuck in \<^verbatim>\<open>pending\<close>, and waiting for a
  collection to become idle. \<^verbatim>\<open>datetime.now(timezone.utc)\<close> is a clock reading marked UTC.

  Shown: reclaiming frees the mutex exactly when the holder's job is missing, terminal, finished or
  has been pending too long, and otherwise changes nothing.
\<close>

section \<open>Definitions\<close>

definition now_utc :: "(('s, 'z) env_scheme, datetime) prog" where
  "now_utc = bnd utcnow (\<lambda>t. ret (assume_utc t))"

definition pending_stale_seconds :: "settings \<Rightarrow> rat" where
  "pending_stale_seconds cfg = max 120 (or_default (bulk_job_pending_stale_seconds cfg) 600)"

definition job_age_seconds :: "datetime \<Rightarrow> jobinfo \<Rightarrow> rat" where
  "job_age_seconds current job =
     max 0 (total_seconds (dt_micros current - dt_micros (assume_utc (j_updated_at job))))"

definition pending_mutex_holder_is_stale :: "settings \<Rightarrow> jobinfo \<Rightarrow> (('s, 'z) env_scheme, bool) prog" where
  "pending_mutex_holder_is_stale cfg job =
     (if py_lower (j_status job) \<noteq> ''pending'' then ret False
      else bnd now_utc (\<lambda>current. ret (pending_stale_seconds cfg \<le> job_age_seconds current job)))"

definition active_statuses :: "string list" where
  "active_statuses = [''pending'', ''running'', ''replacing'', ''finalizing'', ''cancelling'']"

definition get_active_bulk_job_ids ::
    "'s redis \<Rightarrow> settings \<Rightarrow> string \<Rightarrow> (('s, 'z) jenv_scheme, string list) prog" where
  "get_active_bulk_job_ids srv cfg cid =
     bnd (get_collection_bulk_mutex_holder srv cfg cid) (\<lambda>holder.
     bnd (list_jobs_for_collection srv cfg cid 20 None) (\<lambda>jobs.
     ret (sort (remdups
       ((case holder of None \<Rightarrow> [] | Some h \<Rightarrow> [h]) @
        map (\<lambda>j. before_sub '':shard:'' (j_job_id j))
          (filter (\<lambda>j. py_lower (j_status j) \<in> set active_statuses \<and> j_job_id j \<noteq> []) jobs))))))"

definition reclaim_stale_collection_bulk_mutex ::
    "'s redis \<Rightarrow> settings \<Rightarrow> string \<Rightarrow> (('s, 'z) jenv_scheme, string option) prog" where
  "reclaim_stale_collection_bulk_mutex srv cfg cid =
     bnd (get_collection_bulk_mutex_holder srv cfg cid) (\<lambda>holder.
     case holder of
       None \<Rightarrow> ret None
     | Some h \<Rightarrow>
         bnd (get_job srv cfg h) (\<lambda>job.
         if (case job of None \<Rightarrow> True | Some j \<Rightarrow> is_terminal_job_status (Some (j_status j)) \<or> j_finished_at j \<noteq> None)
         then bnd (release_collection_bulk_mutex srv cfg cid h) (\<lambda>_. ret (Some h))
         else
           bnd (pending_mutex_holder_is_stale cfg (the job)) (\<lambda>stale.
           if stale then bnd (release_collection_bulk_mutex srv cfg cid h) (\<lambda>_. ret (Some h))
           else ret None)))"

definition reclaim_all_stale_bulk_mutexes ::
    "'s redis \<Rightarrow> settings \<Rightarrow> (('s, 'z) jenv_scheme, (string \<times> string) list) prog" where
  "reclaim_all_stale_bulk_mutexes srv cfg =
     (if bulk_queue_type cfg \<noteq> ''redis'' then ret []
      else
        bnd (catch (bnd (run_redis_retry cfg None (r_scan srv (BULK_COLLECTION_MUTEX_PREFIX @ ''*''))) (\<lambda>ks. ret (Some ks)))
               (\<lambda>_. ret None)) (\<lambda>keys.
        case keys of
          None \<Rightarrow> ret []
        | Some ks \<Rightarrow>
            for_each ks (\<lambda>key reclaimed.
              let cid = drop (length BULK_COLLECTION_MUTEX_PREFIX) key in
              if cid = [] then ret reclaimed
              else
                bnd (reclaim_stale_collection_bulk_mutex srv cfg cid) (\<lambda>holder.
                ret (case holder of None \<Rightarrow> reclaimed
                     | Some h \<Rightarrow> if h = [] then reclaimed else reclaimed @ [(cid, h)]))) []))"

text \<open>The waiting loop, run for at most \<open>n\<close> polls: \<open>None\<close> when it is still waiting. \<open>monotonic i\<close> is the
  \<open>i\<close>-th reading of \<^verbatim>\<open>time.monotonic()\<close>, \<open>stop_check\<close> and \<open>on_waiting\<close> are the caller's callbacks.\<close>

fun wait_until_collection_bulk_idle ::
    "nat \<Rightarrow> 's redis \<Rightarrow> settings \<Rightarrow> string \<Rightarrow> (nat \<Rightarrow> rat) \<Rightarrow> (('s, 'z) env_scheme, bool) prog option \<Rightarrow>
     (('s, 'z) env_scheme, unit) prog option \<Rightarrow> nat \<Rightarrow> rat \<Rightarrow> (('s, 'z) env_scheme, bool option) prog" where
  "wait_until_collection_bulk_idle 0 srv cfg cid monotonic stop_check on_waiting i last_msg =
     (if bulk_queue_type cfg \<noteq> ''redis'' then ret (Some True) else ret None)"
| "wait_until_collection_bulk_idle (Suc n) srv cfg cid monotonic stop_check on_waiting i last_msg =
     (if bulk_queue_type cfg \<noteq> ''redis'' then ret (Some True)
      else
        bnd (collection_has_bulk_activity srv cfg cid) (\<lambda>busy.
        if \<not> busy then ret (Some True)
        else
          bnd (case stop_check of None \<Rightarrow> ret False | Some m \<Rightarrow> m) (\<lambda>stop.
          if stop then ret (Some False)
          else
            let now = monotonic i; due = (on_waiting \<noteq> None \<and> (30 \<le> now - last_msg \<or> last_msg = 0)) in
            bnd (if due then the on_waiting else ret ()) (\<lambda>_.
            wait_until_collection_bulk_idle n srv cfg cid monotonic stop_check on_waiting (Suc i)
              (if due then now else last_msg)))))"

section \<open>When a lock may be reclaimed\<close>

definition reclaimable :: "settings \<Rightarrow> datetime \<Rightarrow> jobinfo option \<Rightarrow> bool" where
  "reclaimable cfg now job \<longleftrightarrow>
     (case job of
        None \<Rightarrow> True
      | Some j \<Rightarrow> py_lower (j_status j) \<in> set TERMINAL_JOB_STATUSES \<or> j_finished_at j \<noteq> None \<or>
          (py_lower (j_status j) = ''pending'' \<and> pending_stale_seconds cfg \<le> job_age_seconds now j))"

definition lookup_is :: "store \<Rightarrow> string \<Rightarrow> jobinfo option \<Rightarrow> bool" where
  "lookup_is st i job \<longleftrightarrow> (case job of None \<Rightarrow> st (redis_key i) = None | Some j \<Rightarrow> stored st i j)"

context redis_up
begin

lemma get_job_lookup:
  assumes "lookup_is (view (rds w)) i job"
  shows "fst (get_job_redis srv cfg i w) = Inr job"
    and "view (rds (snd (get_job_redis srv cfg i w))) = view (rds w)"
    and "clock (snd (get_job_redis srv cfg i w)) = clock w \<and> ticks (snd (get_job_redis srv cfg i w)) = ticks w"
proof -
  show "fst (get_job_redis srv cfg i w) = Inr job" "view (rds (snd (get_job_redis srv cfg i w))) = view (rds w)"
    using assms get_job_redis_stored [of w i]
    by (auto simp: lookup_is_def get_job_redis_def prog_simps redis_simps split: option.splits)
  show "clock (snd (get_job_redis srv cfg i w)) = clock w \<and> ticks (snd (get_job_redis srv cfg i w)) = ticks w"
    using assms
    by (auto simp: lookup_is_def stored_def get_job_redis_def prog_simps redis_simps split: option.splits sum.splits)
qed

lemma reclaim_eval:
  assumes "uses_redis cfg" and "view (rds w) (mutex_key c) = Some (RString h, t)" and "h \<noteq> []"
    and "lookup_is (view (rds w)) h job"
  defines "b \<equiv> reclaimable cfg (assume_utc (clock w (ticks w))) job"
  shows "fst (reclaim_stale_collection_bulk_mutex srv cfg c w) = Inr (if b then Some h else None)"
    and "view (rds (snd (reclaim_stale_collection_bulk_mutex srv cfg c w))) =
      (if b then (view (rds w))(mutex_key c := None) else view (rds w))"
proof -
  define w1 where "w1 = w\<lparr>rds := snd (srv (One (Get (mutex_key c))) (rds w))\<rparr>"
  define w2 where "w2 = snd (get_job_redis srv cfg h w1)"
  have w1: "view (rds w1) = view (rds w)" "clock w1 = clock w" "ticks w1 = ticks w"
    by (simp_all add: w1_def redis_simps)
  have "lookup_is (view (rds w1)) h job" using assms(4) w1 by simp
  note g = get_job_lookup [OF this, of cfg, folded w2_def]
  have w2: "view (rds w2) = view (rds w)" "clock w2 = clock w" "ticks w2 = ticks w"
    using g w1 by simp_all
  let ?rest = "\<lambda>job. if (case job of None \<Rightarrow> True | Some j \<Rightarrow> is_terminal_job_status (Some (j_status j)) \<or> j_finished_at j \<noteq> None)
     then bnd (release_collection_bulk_mutex srv cfg c h) (\<lambda>_. ret (Some h))
     else bnd (pending_mutex_holder_is_stale cfg (the job)) (\<lambda>stale.
       if stale then bnd (release_collection_bulk_mutex srv cfg c h) (\<lambda>_. ret (Some h)) else ret None)"
  have run: "reclaim_stale_collection_bulk_mutex srv cfg c w = ?rest job w2"
    using assms(1-3) g(1)
    by (simp add: reclaim_stale_collection_bulk_mutex_def get_collection_bulk_mutex_holder_def get_job_def
        uses_redis_def bnd_def [of "run_redis_retry _ _ _"] bnd_def [of "get_job_redis _ _ _"]
        prog_simps redis_simps w1_def [symmetric] w2_def [symmetric])
  have b: "b \<longleftrightarrow> (case job of None \<Rightarrow> True | Some j \<Rightarrow> is_terminal_job_status (Some (j_status j)) \<or> j_finished_at j \<noteq> None) \<or>
      (py_lower (j_status (the job)) = ''pending'' \<and>
       pending_stale_seconds cfg \<le> job_age_seconds (assume_utc (clock w (ticks w))) (the job))"
    by (auto simp: b_def reclaimable_def is_terminal_job_status_def split: option.split)
  have s: "view (rds (snd (pending_mutex_holder_is_stale cfg j w2))) = view (rds w)"
    "fst (pending_mutex_holder_is_stale cfg j w2) = Inr (py_lower (j_status j) = ''pending'' \<and>
       pending_stale_seconds cfg \<le> job_age_seconds (assume_utc (clock w (ticks w))) j)" for j
    using w2 by (auto simp: pending_mutex_holder_is_stale_def now_utc_def prog_simps)
  have r: "fst (release_collection_bulk_mutex srv cfg c h v) = Inr ()"
    "view (rds (snd (release_collection_bulk_mutex srv cfg c h v))) = (view (rds w))(mutex_key c := None)"
    if "view (rds v) = view (rds w)" for v :: "('a, 'z) jenv_scheme"
    using that assms(1,2) by (auto simp: release_eq uses_redis_def prog_simps redis_simps)
  show "fst (reclaim_stale_collection_bulk_mutex srv cfg c w) = Inr (if b then Some h else None)"
    "view (rds (snd (reclaim_stale_collection_bulk_mutex srv cfg c w))) =
      (if b then (view (rds w))(mutex_key c := None) else view (rds w))"
    unfolding run b using r [OF w2(1)] r [OF s(1)] w2(1) s
    by (auto simp: prog_simps split: option.split)
qed

end

section \<open>Properties\<close>

text \<open>C20: Reclaiming a stale lock. When the server answers and a job holds a collection's mutex, the mutex is
  freed (and the holder returned) exactly when that job is missing, terminal, finished, or has been
  pending for at least the configured time; otherwise nothing changes and nothing is returned.\<close>

theorem reclaim_frees_exactly_stale_locks:
  fixes w :: "('s, 'z) jenv_scheme"
  assumes "redis_up srv view" and "uses_redis cfg"
    and "view (rds w) (mutex_key c) = Some (RString h, t)" and "h \<noteq> []" and "lookup_is (view (rds w)) h job"
  defines "b \<equiv> reclaimable cfg (assume_utc (clock w (ticks w))) job"
  shows "fst (reclaim_stale_collection_bulk_mutex srv cfg c w) = Inr (if b then Some h else None) \<and>
         view (rds (snd (reclaim_stale_collection_bulk_mutex srv cfg c w))) =
           (if b then (view (rds w))(mutex_key c := None) else view (rds w))"
  using redis_up.reclaim_eval [OF assms(1-5)] by (simp add: b_def)

theorem reclaim_frees_exactly_stale_locks_witness:
  "fst (reclaim_stale_collection_bulk_mutex mem_srv default_settings ''c''
     (jenv0 [(mutex_key ''c'', (RString ''gone'', None))])) = Inr (Some ''gone'')"
  using reclaim_frees_exactly_stale_locks [OF mem.redis_up_axioms uses_redis_default,
      of "jenv0 [(mutex_key ''c'', (RString ''gone'', None))]" "''c''" "''gone''" None None]
  by (simp add: lookup_is_def reclaimable_def)

end
