(* ===== verification/Property_Filters.thy ===== *)
theory Property_Filters
  imports App_Settings Json_Fields "HOL-Library.Code_Target_Nat"
begin

text \<open>
  \<^verbatim>\<open>app/utils/property_filters.py\<close>, \<^verbatim>\<open>app/utils/property_filter.py\<close> and \<^verbatim>\<open>app/services/bulk_import_params.py\<close>:
  reading \<^verbatim>\<open>key:op:value\<close> filters, the keys that may go into SQL, the translation of a filter value with
  \<^verbatim>\<open>*\<close> wildcards to an SQL \<^verbatim>\<open>LIKE\<close> pattern, and the validation of the mode and filters of a bulk import.

  Shown: the validated filter lines parse back to the filters they were printed from and validate to
  themselves; a key made safe holds nothing but letters, digits and underscores; the \<^verbatim>\<open>LIKE\<close> pattern
  matches exactly the texts the wildcard value describes.
\<close>

section \<open>Filters\<close>

datatype PropertyOp = EQ | NE | GT | GTE | LT | LTE | LIKE | ILIKE

record PropertyFilter =
  pf_key :: string
  pf_op :: PropertyOp
  pf_value :: string

fun op_value :: "PropertyOp \<Rightarrow> string" where
  "op_value EQ = ''eq''" | "op_value NE = ''ne''" | "op_value GT = ''gt''" | "op_value GTE = ''gte''"
| "op_value LT = ''lt''" | "op_value LTE = ''lte''" | "op_value LIKE = ''like''" | "op_value ILIKE = ''ilike''"

definition OPS :: "(string \<times> PropertyOp) list" where
  "OPS = map (\<lambda>p. (op_value p, p)) [EQ, NE, GT, GTE, LT, LTE, LIKE, ILIKE]"

definition safe_json_key :: "string \<Rightarrow> string" where
  "safe_json_key s = take 200 (filter (\<lambda>c. py_isalnum_char c \<or> c = CHR ''_'') s)"

definition parse_one_filter :: "string \<Rightarrow> PropertyFilter option" where
  "parse_one_filter s0 =
     (let s = py_strip s0 in
      if s = [] then None
      else case split_max 2 CHR '':'' s of
        [k, p, v] \<Rightarrow>
          (let key = py_strip k; op = py_lower (py_strip p) in
           if key = [] then None
           else case map_of OPS op of
             None \<Rightarrow> None
           | Some p' \<Rightarrow> Some \<lparr>pf_key = key, pf_op = p', pf_value = v\<rparr>)
      | _ \<Rightarrow> None)"

definition parse_filter_param :: "string list option \<Rightarrow> PropertyFilter list" where
  "parse_filter_param filters = List.map_filter parse_one_filter (or_else filters [])"

section \<open>LIKE patterns\<close>

definition property_value_to_like_pattern :: "string \<Rightarrow> string \<times> bool" where
  "property_value_to_like_pattern v =
     (if CHR ''*'' \<notin> set v then (v, False)
      else (replace_char CHR ''*'' ''%''
              (replace_char CHR ''_'' [CHR 0x5C, CHR ''_'']
                (replace_char CHR ''%'' [CHR 0x5C, CHR ''%'']
                  (replace_char CHR 0x5C [CHR 0x5C, CHR 0x5C] v))), True))"

section \<open>Validation of a bulk import\<close>

datatype raw_filters = RawNone | RawText string | RawList "string option list"

definition lines_of :: "string \<Rightarrow> string list" where
  "lines_of s = filter (\<lambda>l. l \<noteq> []) (map py_strip (py_splitlines s))"

definition normalize_replace_filters_raw :: "raw_filters \<Rightarrow> string list" where
  "normalize_replace_filters_raw raw =
     (case raw of
        RawNone \<Rightarrow> []
      | RawText s \<Rightarrow> lines_of s
      | RawList xs \<Rightarrow> concat (map (\<lambda>x. case x of
            None \<Rightarrow> []
          | Some s \<Rightarrow> if s = [] then [] else if CHR 0x0A \<in> set s then lines_of s
                      else if py_strip s \<noteq> [] then [py_strip s] else []) xs))"

definition BULK_IMPORT_MODES :: "string list" where
  "BULK_IMPORT_MODES = [''append'', ''replace'', ''replace_filtered'']"

definition BULK_COPY_MODES :: "string list" where
  "BULK_COPY_MODES = [''append'', ''replace'']"

definition filter_line :: "PropertyFilter \<Rightarrow> string" where
  "filter_line pf = pf_key pf @ '':'' @ op_value (pf_op pf) @ '':'' @ pf_value pf"

definition quoted :: "string \<Rightarrow> string" where
  "quoted s = [CHR 0x27] @ s @ [CHR 0x27]"

definition validate_bulk_import_mode_and_filters ::
    "settings \<Rightarrow> string option \<Rightarrow> raw_filters \<Rightarrow> exn + string \<times> string list" where
  "validate_bulk_import_mode_and_filters cfg mode0 raw =
     (let mode = py_strip (if or_else mode0 [] = [] then ''append'' else or_else mode0 []) in
      if mode \<notin> set BULK_IMPORT_MODES
      then Inl (HTTPException 400 (''mode must be '' @ quoted ''append'' @ '', '' @ quoted ''replace'' @ '', or '' @ quoted ''replace_filtered''))
      else if bulk_copy_ingest_enabled cfg \<and> mode \<notin> set BULK_COPY_MODES
      then Inl (HTTPException 400 (''mode must be '' @ quoted ''append'' @ '' or '' @ quoted ''replace'' @
          '' for bulk file upload (replace_filtered is not supported)''))
      else
        let lines = normalize_replace_filters_raw raw in
        if mode = ''replace_filtered'' then
          (let parsed = parse_filter_param (Some lines) in
           if parsed = []
           then Inl (HTTPException 400 ''replace_filtered requires at least one valid filter (key:op:value per line)'')
           else Inr (mode, map filter_line parsed))
        else if lines \<noteq> []
        then Inl (HTTPException 400 ''replace_filters is only allowed when mode is replace_filtered'')
        else Inr (mode, []))"

definition parsed_replace_filters :: "string list \<Rightarrow> PropertyFilter list" where
  "parsed_replace_filters lines = parse_filter_param (Some lines)"

definition parse_queue_compute_tiles :: "json \<Rightarrow> bool \<Rightarrow> bool" where
  "parse_queue_compute_tiles v dflt =
     (case v of JNull \<Rightarrow> dflt | JBool b \<Rightarrow> b | x \<Rightarrow> not_falsey (py_str x))"

section \<open>The LIKE pattern is right\<close>

text \<open>The documented meaning of \<^verbatim>\<open>LIKE\<close> (percent: any text, underscore: any character, backslash: the next
  character itself), and the meaning of a filter value (star: any text).\<close>

fun like_match :: "string \<Rightarrow> string \<Rightarrow> bool" where
  "like_match [] s \<longleftrightarrow> s = []"
| "like_match (p # ps) s \<longleftrightarrow>
     (if p = CHR ''%'' then like_match ps s \<or> (case s of [] \<Rightarrow> False | c # cs \<Rightarrow> like_match (p # ps) cs)
      else if p = CHR ''_'' then (case s of [] \<Rightarrow> False | c # cs \<Rightarrow> like_match ps cs)
      else if p = CHR 0x5C then (case (ps, s) of (q # qs, c # cs) \<Rightarrow> c = q \<and> like_match qs cs | _ \<Rightarrow> False)
      else (case s of [] \<Rightarrow> False | c # cs \<Rightarrow> c = p \<and> like_match ps cs))"

fun star_match :: "string \<Rightarrow> string \<Rightarrow> bool" where
  "star_match [] s \<longleftrightarrow> s = []"
| "star_match (p # ps) s \<longleftrightarrow>
     (if p = CHR ''*'' then star_match ps s \<or> (case s of [] \<Rightarrow> False | c # cs \<Rightarrow> star_match (p # ps) cs)
      else (case s of [] \<Rightarrow> False | c # cs \<Rightarrow> c = p \<and> star_match ps cs))"

definition like_enc :: "char \<Rightarrow> string" where
  "like_enc c =
     (if c = CHR 0x5C then [CHR 0x5C, CHR 0x5C] else if c = CHR ''%'' then [CHR 0x5C, CHR ''%'']
      else if c = CHR ''_'' then [CHR 0x5C, CHR ''_''] else if c = CHR ''*'' then ''%'' else [c])"

lemma like_pattern_enc:
  "fst (property_value_to_like_pattern v) = (if CHR ''*'' \<in> set v then concat (map like_enc v) else v)"
proof -
  have "replace_char CHR ''*'' ''%'' (replace_char CHR ''_'' [CHR 0x5C, CHR ''_'']
      (replace_char CHR ''%'' [CHR 0x5C, CHR ''%''] (replace_char CHR 0x5C [CHR 0x5C, CHR 0x5C] v))) = concat (map like_enc v)"
    by (induction v) (auto simp: replace_char_def like_enc_def)
  then show ?thesis by (simp add: property_value_to_like_pattern_def)
qed

lemma like_enc_match: "like_match (concat (map like_enc v)) s \<longleftrightarrow> star_match v s"
proof (induction v arbitrary: s)
  case Nil
  show ?case by simp
next
  case (Cons c v)
  show ?case
  proof (cases "c = CHR ''*''")
    case True
    have "like_match (CHR ''%'' # concat (map like_enc v)) s \<longleftrightarrow> star_match (CHR ''*'' # v) s"
      by (induction s) (simp_all add: Cons.IH)
    moreover have "like_enc CHR ''*'' = ''%''" by (simp add: like_enc_def)
    ultimately show ?thesis using True by (simp only: list.map concat.simps append.simps)
  next
    case False
    then show ?thesis by (cases s) (simp_all add: like_enc_def [of c] Cons.IH)
  qed
qed

section \<open>Filter lines parse back\<close>

lemma map_of_OPS: "map_of OPS s = Some p \<longleftrightarrow> s = op_value p"
  by (cases p) (auto simp: OPS_def)

lemma op_value_props:
  "py_strip (op_value p) = op_value p" "py_lower (op_value p) = op_value p" "CHR '':'' \<notin> set (op_value p)"
  by (cases p; simp add: py_strip_def strip_with_def py_isspace_char_def py_lower_def py_lower_char_def)+

text \<open>What a parsed filter looks like: its key is stripped, non-empty and free of colons, and its value
  does not end in blank space.\<close>

definition well_read :: "PropertyFilter \<Rightarrow> bool" where
  "well_read pf \<longleftrightarrow> pf_key pf \<noteq> [] \<and> CHR '':'' \<notin> set (pf_key pf) \<and> py_strip (pf_key pf) = pf_key pf \<and>
     (pf_value pf \<noteq> [] \<longrightarrow> \<not> py_isspace_char (last (pf_value pf)))"

lemma set_strip_with: "set (strip_with p s) \<subseteq> set s"
  by (auto simp: strip_with_def dest!: set_dropWhileD)

lemma split_max_2:
  assumes "split_max 2 x s = [a, b, c]"
  shows "s = a @ x # b @ x # c \<and> x \<notin> set a \<and> x \<notin> set b"
proof -
  have cut: "u = takeWhile (\<lambda>c. c \<noteq> x) u @ x # ys" if "dropWhile (\<lambda>c. c \<noteq> x) u = y # ys" for u y ys
    using that takeWhile_dropWhile_id [of "\<lambda>c. c \<noteq> x" u] hd_dropWhile [of "\<lambda>c. c \<noteq> x" u] by simp
  have nt: "x \<notin> set (takeWhile (\<lambda>c. c \<noteq> x) u)" for u by (auto dest: set_takeWhileD)
  obtain y ys where 1: "dropWhile (\<lambda>c. c \<noteq> x) s = y # ys" "a = takeWhile (\<lambda>c. c \<noteq> x) s" "split_max (Suc 0) x ys = [b, c]"
    using assms unfolding numeral_2_eq_2 split_max.simps(2) [of "Suc 0"]
    by (cases "dropWhile (\<lambda>c. c \<noteq> x) s") (simp_all del: split_max.simps)
  then obtain z zs where 2: "dropWhile (\<lambda>c. c \<noteq> x) ys = z # zs" "b = takeWhile (\<lambda>c. c \<noteq> x) ys" "c = zs"
    using 1(3) by (cases "dropWhile (\<lambda>c. c \<noteq> x) ys") simp_all
  have "x \<notin> set a" "x \<notin> set b" using nt 1(2) 2(2) by simp_all
  moreover have "s = a @ x # ys" using cut [OF 1(1)] 1(2) by simp
  moreover have "ys = b @ x # c" using cut [OF 2(1)] 2(2,3) by simp
  ultimately show ?thesis by blast
qed

lemma parse_one_filter_well_read:
  assumes "parse_one_filter s = Some pf"
  shows "well_read pf"
proof -
  obtain k p v where sp: "split_max 2 CHR '':'' (py_strip s) = [k, p, v]" and ne: "py_strip s \<noteq> []"
    and pf: "pf_key pf = py_strip k" "py_strip k \<noteq> []" "pf_value pf = v"
    using assms by (auto simp: parse_one_filter_def Let_def split: if_splits list.splits option.splits)
  have eq: "py_strip s = k @ CHR '':'' # p @ CHR '':'' # v" and nk: "CHR '':'' \<notin> set k"
    using split_max_2 [OF sp] by auto
  have "\<not> py_isspace_char (last (py_strip s))"
    using strip_with_ends(2) [of py_isspace_char s] ne by (simp add: py_strip_def)
  then have "v \<noteq> [] \<longrightarrow> \<not> py_isspace_char (last v)" by (simp add: eq split: if_splits)
  moreover have "CHR '':'' \<notin> set (py_strip k)"
    using nk set_strip_with [of py_isspace_char k] by (auto simp: py_strip_def)
  ultimately show ?thesis using pf by (simp add: well_read_def)
qed

lemma parse_filter_line:
  assumes "well_read pf"
  shows "parse_one_filter (filter_line pf) = Some pf"
proof -
  let ?s = "filter_line pf"
  have k: "pf_key pf \<noteq> []" "CHR '':'' \<notin> set (pf_key pf)" "py_strip (pf_key pf) = pf_key pf"
    "pf_value pf \<noteq> [] \<Longrightarrow> \<not> py_isspace_char (last (pf_value pf))"
    using assms by (auto simp: well_read_def)
  have "hd ?s = hd (py_strip (pf_key pf))" using k by (simp add: filter_line_def)
  then have h: "\<not> py_isspace_char (hd ?s)"
    using strip_with_ends(1) [of py_isspace_char "pf_key pf"] k by (simp add: py_strip_def)
  have l: "\<not> py_isspace_char (last ?s)"
    using k(4) by (cases "pf_value pf = []") (simp_all add: filter_line_def, simp add: py_isspace_char_def)
  have strip: "py_strip ?s = ?s"
    unfolding py_strip_def by (rule strip_with_id) (use h l in blast)
  have "split_max 2 CHR '':'' ?s = [pf_key pf, op_value (pf_op pf), pf_value pf]"
    using k(2) op_value_props(3) [of "pf_op pf"]
    by (simp add: filter_line_def numeral_2_eq_2 split_max_sep del: split_max.simps)
       (simp add: split_max_sep split_max.simps(1) del: split_max.simps(2))
  then show ?thesis
    using k strip by (simp add: parse_one_filter_def Let_def op_value_props map_of_OPS [THEN iffD2, OF refl])
       (simp add: filter_line_def)
qed

lemma map_filter_map_some: "(\<And>x. x \<in> set xs \<Longrightarrow> f (g x) = Some x) \<Longrightarrow> List.map_filter f (map g xs) = xs"
  by (induction xs) (simp_all add: List.map_filter_simps)

lemma set_map_filter: "x \<in> set (List.map_filter f xs) \<Longrightarrow> \<exists>y\<in>set xs. f y = Some x"
  by (induction xs) (auto simp: List.map_filter_simps split: option.splits)

lemma parse_filter_lines: "(\<And>pf. pf \<in> set pfs \<Longrightarrow> well_read pf) \<Longrightarrow> parse_filter_param (Some (map filter_line pfs)) = pfs"
  by (simp add: parse_filter_param_def map_filter_map_some parse_filter_line)

lemma parsed_well_read: "pf \<in> set (parse_filter_param fs) \<Longrightarrow> well_read pf"
  by (auto simp: parse_filter_param_def dest!: set_map_filter parse_one_filter_well_read)

section \<open>Validation is idempotent\<close>

lemma splitlines_acc_no_break:
  "l \<in> set (splitlines_acc cur s) \<Longrightarrow> CHR 0x0A \<notin> set cur \<Longrightarrow> CHR 0x0A \<notin> set l"
proof (induction cur s rule: splitlines_acc.induct)
  case (2 cur c cs)
  have nb: "c \<noteq> CHR 0x0A" if "\<not> is_line_break c" using that by (auto simp: is_line_break_def)
  show ?case
  proof (cases "is_line_break c")
    case True
    then have "l = rev cur \<or> (\<exists>d ds. cs = d # ds \<and>
        (if c = CHR 0x0D \<and> d = CHR 0x0A then l \<in> set (splitlines_acc [] ds) else l \<in> set (splitlines_acc [] (d # ds))))"
      using 2(4) unfolding splitlines_acc.simps(2) [of cur]
      by (cases cs) (auto simp del: splitlines_acc.simps split: if_splits)
    then show ?thesis using 2(1,2) [OF True] 2(5) by (auto simp del: splitlines_acc.simps split: if_splits)
  next
    case False
    then show ?thesis using 2(3) 2(4,5) nb by simp
  qed
qed (auto split: if_splits)

definition clean :: "string \<Rightarrow> bool" where
  "clean l \<longleftrightarrow> l \<noteq> [] \<and> py_strip l = l \<and> CHR 0x0A \<notin> set l"

lemma clean_strip: "CHR 0x0A \<notin> set l \<Longrightarrow> py_strip l \<noteq> [] \<Longrightarrow> clean (py_strip l)"
  using set_strip_with [of py_isspace_char l] by (auto simp: clean_def py_strip_def)

lemma lines_of_clean: "l \<in> set (lines_of s) \<Longrightarrow> clean l"
  using splitlines_acc_no_break [of _ "[]" s] by (auto simp: lines_of_def py_splitlines_def intro: clean_strip)

lemma normalized_clean: "l \<in> set (normalize_replace_filters_raw raw) \<Longrightarrow> clean l"
  by (cases raw) (auto simp: normalize_replace_filters_raw_def intro: lines_of_clean clean_strip split: option.splits if_splits)

lemma normalize_clean_id:
  "(\<And>l. l \<in> set ls \<Longrightarrow> clean l) \<Longrightarrow> normalize_replace_filters_raw (RawList (map Some ls)) = ls"
  by (induction ls) (auto simp: normalize_replace_filters_raw_def clean_def)

lemma filter_line_chars:
  assumes "parse_one_filter s = Some pf" and "CHR 0x0A \<notin> set s"
  shows "clean (filter_line pf)"
proof -
  obtain k p v where sp: "split_max 2 CHR '':'' (py_strip s) = [k, p, v]"
    and pf: "pf_key pf = py_strip k" "pf_value pf = v"
    using assms(1) by (auto simp: parse_one_filter_def Let_def split: if_splits list.splits option.splits)
  have eq: "py_strip s = k @ CHR '':'' # p @ CHR '':'' # v" using split_max_2 [OF sp] by auto
  have "CHR 0x0A \<notin> set (py_strip s)" using assms(2) set_strip_with [of py_isspace_char s] by (auto simp: py_strip_def)
  then have "CHR 0x0A \<notin> set k" "CHR 0x0A \<notin> set v" by (simp_all add: eq)
  moreover have "CHR 0x0A \<notin> set (op_value p')" for p' by (cases p') simp_all
  ultimately have "CHR 0x0A \<notin> set (filter_line pf)"
    using set_strip_with [of py_isspace_char k] by (auto simp: filter_line_def pf py_strip_def)
  moreover have "py_strip (filter_line pf) = filter_line pf"
  proof -
    have w: "well_read pf" by (rule parse_one_filter_well_read [OF assms(1)])
    have "hd (filter_line pf) = hd (py_strip (pf_key pf))" using w by (simp add: filter_line_def well_read_def)
    then have "\<not> py_isspace_char (hd (filter_line pf))"
      using strip_with_ends(1) [of py_isspace_char "pf_key pf"] w by (simp add: py_strip_def well_read_def)
    moreover have "\<not> py_isspace_char (last (filter_line pf))"
      using w by (cases "pf_value pf = []") (simp_all add: filter_line_def well_read_def, simp add: py_isspace_char_def)
    ultimately show ?thesis unfolding py_strip_def by (intro strip_with_id) blast
  qed
  moreover have "filter_line pf \<noteq> []" by (simp add: filter_line_def)
  ultimately show ?thesis by (simp add: clean_def)
qed

lemma validated_lines_clean:
  assumes "l \<in> set (map filter_line (parse_filter_param (Some (normalize_replace_filters_raw raw))))"
  shows "clean l"
proof -
  obtain s pf where "s \<in> set (normalize_replace_filters_raw raw)" "parse_one_filter s = Some pf" "l = filter_line pf"
    using assms by (auto simp: parse_filter_param_def dest!: set_map_filter)
  then show ?thesis using filter_line_chars [of s pf] normalized_clean [of s raw] by (simp add: clean_def [of s])
qed

section \<open>Properties\<close>

text \<open>Validated filters survive storage. If validation of a bulk import succeeds, the mode is a known one,
  the stored lines parse to exactly the filters parsed from the input (at least one when the mode is
  \<^verbatim>\<open>replace_filtered\<close>, none otherwise), and validating the stored mode and lines again gives them back.\<close>

theorem bulk_import_filters_roundtrip:
  assumes "validate_bulk_import_mode_and_filters cfg mode raw = Inr (m, ls)"
  shows "m \<in> set BULK_IMPORT_MODES \<and>
         parsed_replace_filters ls =
           (if m = ''replace_filtered'' then parse_filter_param (Some (normalize_replace_filters_raw raw)) else []) \<and>
         (m = ''replace_filtered'' \<longleftrightarrow> ls \<noteq> []) \<and>
         validate_bulk_import_mode_and_filters cfg (Some m) (RawList (map Some ls)) = Inr (m, ls)"
proof -
  let ?p = "parse_filter_param (Some (normalize_replace_filters_raw raw))"
  have m: "m \<in> set BULK_IMPORT_MODES" "bulk_copy_ingest_enabled cfg \<longrightarrow> m \<in> set BULK_COPY_MODES"
    and ls: "if m = ''replace_filtered'' then ls = map filter_line ?p \<and> ?p \<noteq> [] else ls = []"
    using assms by (auto simp: validate_bulk_import_mode_and_filters_def Let_def split: if_splits)
  have pp: "parsed_replace_filters (map filter_line ?p) = ?p"
    unfolding parsed_replace_filters_def by (rule parse_filter_lines) (rule parsed_well_read)
  have strip: "py_strip m = m" "m \<noteq> []"
    using m(1) by (auto simp: BULK_IMPORT_MODES_def py_strip_def strip_with_def py_isspace_char_def)
  have n: "normalize_replace_filters_raw (RawList (map Some ls)) = ls"
    by (rule normalize_clean_id) (use ls validated_lines_clean [of _ raw] in \<open>auto split: if_splits\<close>)
  show ?thesis
  proof (cases "m = ''replace_filtered''")
    case True
    then show ?thesis
      using m strip ls pp n
      by (simp add: validate_bulk_import_mode_and_filters_def Let_def) (simp add: parsed_replace_filters_def)
  next
    case False
    then show ?thesis
      using m strip ls n
      by (simp add: validate_bulk_import_mode_and_filters_def Let_def parsed_replace_filters_def parse_filter_param_def List.map_filter_simps)
  qed
qed

theorem bulk_import_filters_roundtrip_witness:
  "parsed_replace_filters [''name:eq:a:b'', ''pop:gte:5''] =
     parse_filter_param (Some (normalize_replace_filters_raw (RawText ('' name :EQ:a:b'' @ [CHR 0x0A] @ ''bad'' @ [CHR 0x0A] @ ''pop:gte:5''))))"
proof -
  have "validate_bulk_import_mode_and_filters (default_settings\<lparr>bulk_copy_ingest_enabled := False\<rparr>) (Some ''replace_filtered'')
      (RawText ('' name :EQ:a:b'' @ [CHR 0x0A] @ ''bad'' @ [CHR 0x0A] @ ''pop:gte:5'')) =
      Inr (''replace_filtered'', [''name:eq:a:b'', ''pop:gte:5''])"
    by code_simp
  from bulk_import_filters_roundtrip [OF this] show ?thesis by simp
qed

text \<open>The \<^verbatim>\<open>LIKE\<close> pattern is right: with the returned pattern and flag, a text passes the SQL test exactly
  when it matches the filter value read with \<^verbatim>\<open>*\<close> standing for any text and everything else literally.\<close>

theorem like_pattern_matches_wildcards:
  "(if snd (property_value_to_like_pattern v) then like_match (fst (property_value_to_like_pattern v)) s
    else s = fst (property_value_to_like_pattern v)) \<longleftrightarrow> star_match v s"
proof -
  have lit: "star_match v s \<longleftrightarrow> s = v" if "CHR ''*'' \<notin> set v"
    using that
  proof (induction v arbitrary: s)
    case (Cons a v)
    then have "a \<noteq> CHR ''*''" by auto
    with Cons show ?case by (cases s) simp_all
  qed simp
  show ?thesis
    using lit like_enc_match [of v s] by (simp add: like_pattern_enc) (simp add: property_value_to_like_pattern_def)
qed

text \<open>A key made safe for SQL is made of letters, digits and underscores only, is at most 200 characters
  long, holds no quote, and making it safe again changes nothing.\<close>

theorem safe_json_key_is_safe:
  "list_all (\<lambda>c. py_isalnum_char c \<or> c = CHR ''_'') (safe_json_key s) \<and> length (safe_json_key s) \<le> 200 \<and>
   CHR 0x27 \<notin> set (safe_json_key s) \<and> CHR 0x22 \<notin> set (safe_json_key s) \<and> safe_json_key (safe_json_key s) = safe_json_key s"
proof -
  have q: "\<not> py_isalnum_char CHR 0x27" "\<not> py_isalnum_char CHR 0x22"
    by (simp_all add: py_isalnum_char_def is_latin_letter_def py_isdigit_char_def is_ascii_digit_def)
  have all: "\<And>c. c \<in> set (safe_json_key s) \<Longrightarrow> py_isalnum_char c \<or> c = CHR ''_''"
    by (auto simp: safe_json_key_def dest!: in_set_takeD)
  then have "filter (\<lambda>c. py_isalnum_char c \<or> c = CHR ''_'') (safe_json_key s) = safe_json_key s"
    by (simp add: filter_id_conv)
  then have "safe_json_key (safe_json_key s) = take 200 (safe_json_key s)"
    unfolding safe_json_key_def [of "safe_json_key s"] by (rule arg_cong)
  then have idem: "safe_json_key (safe_json_key s) = safe_json_key s" by (simp add: safe_json_key_def [of s])
  have "length (safe_json_key s) \<le> 200" by (simp add: safe_json_key_def)
  moreover have "CHR 0x27 \<notin> set (safe_json_key s)" "CHR 0x22 \<notin> set (safe_json_key s)"
    using all [of "CHR 0x27"] all [of "CHR 0x22"] q by auto
  ultimately show ?thesis using idem all by (simp only: list_all_iff simp_thms) blast
qed

end
