(* ===== verification/Bulk_Queue.thy ===== *)
theory Bulk_Queue
  imports Bulk_Activity Property_Filters
begin

text \<open>
  \<^verbatim>\<open>app/services/bulk_queue.py\<close>: the messages of the bulk import queue, the state a parent job keeps of its
  shards, the registry of uploads, and the queue itself, in Redis or in the process. The module globals
  \<^verbatim>\<open>_mem_bulk_storage\<close> and \<^verbatim>\<open>_memory_queue\<close> extend the world; one turn of the consumer thread is
  \<open>memory_consumer_turn\<close>.

  Shown: a message survives the queue; recording shard results adds up exactly when the server answers
  (and counts a shard twice when a reply is lost); cancelling removes exactly the cancelled job's entry.
\<close>

section \<open>Messages\<close>

record BulkJobPayload =
  b_job_id :: string
  b_collection_id :: string
  b_storage_key :: string
  b_mode :: string
  b_batch_size :: int
  b_owner_id :: "int option"
  b_queue_compute_tiles :: bool
  b_zip_inner_shp_paths :: "string list option"
  b_job_kind :: string
  b_parent_job_id :: "string option"
  b_shard_index :: "int option"
  b_shard_total :: "int option"
  b_finalize_collection :: bool
  b_replace_filters :: "string list option"

definition BulkJobPayload_parsed_replace_filters :: "BulkJobPayload \<Rightarrow> PropertyFilter list" where
  "BulkJobPayload_parsed_replace_filters p = parse_filter_param (b_replace_filters p)"

text \<open>A list, text or \<^verbatim>\<open>None\<close> that is falsy when empty.\<close>

definition nonempty :: "'a list option \<Rightarrow> 'a list option" where
  "nonempty x = (case x of None \<Rightarrow> None | Some xs \<Rightarrow> if xs = [] then None else Some xs)"

definition BulkJobPayload_to_json :: "BulkJobPayload \<Rightarrow> string" where
  "BulkJobPayload_to_json p = dumps (JObj (
     [(''job_id'', JStr (b_job_id p)),
      (''collection_id'', JStr (b_collection_id p)),
      (''owner_id'', opt_json JInt (b_owner_id p)),
      (''storage_key'', JStr (b_storage_key p)),
      (''mode'', JStr (b_mode p)),
      (''batch_size'', JInt (b_batch_size p)),
      (''queue_compute_tiles'', JBool (b_queue_compute_tiles p))]
     @ opt_pair ''zip_inner_shp_paths'' (map_option JStrs (nonempty (b_zip_inner_shp_paths p)))
     @ opt_pair ''job_kind'' (if b_job_kind p \<noteq> ''single'' then Some (JStr (b_job_kind p)) else None)
     @ opt_pair ''parent_job_id'' (map_option JStr (nonempty (b_parent_job_id p)))
     @ opt_pair ''shard_index'' (map_option JInt (b_shard_index p))
     @ opt_pair ''shard_total'' (map_option JInt (b_shard_total p))
     @ opt_pair ''finalize_collection'' (if b_finalize_collection p then None else Some (JBool False))
     @ opt_pair ''replace_filters'' (map_option JStrs (nonempty (b_replace_filters p)))))"

definition read_flag :: "json \<Rightarrow> bool" where
  "read_flag v = (case v of JBool b \<Rightarrow> b | x \<Rightarrow> not_falsey (py_str x))"

definition list_or_none :: "json \<Rightarrow> json" where
  "list_or_none v = (case v of JArr xs \<Rightarrow> JArr xs | _ \<Rightarrow> JNull)"

definition BulkJobPayload_from_json :: "string \<Rightarrow> exn + BulkJobPayload" where
  "BulkJobPayload_from_json s =
     sbind (sbind (loads s) json_obj) (\<lambda>d.
     sbind (sbind (jreq d ''job_id'') j_str) (\<lambda>job_id.
     sbind (sbind (jreq d ''collection_id'') j_str) (\<lambda>collection_id.
     sbind (j_opt j_int (jget d ''owner_id'')) (\<lambda>owner_id.
     sbind (sbind (jreq d ''storage_key'') j_str) (\<lambda>storage_key.
     sbind (sbind (jreq d ''mode'') j_str) (\<lambda>mode.
     sbind (sbind (jreq d ''batch_size'') json_int) (\<lambda>batch_size.
     sbind (j_opt j_strs (list_or_none (jget d ''zip_inner_shp_paths''))) (\<lambda>zip_inner.
     sbind (j_opt j_str (jget d ''parent_job_id'')) (\<lambda>parent_job_id.
     sbind (j_opt json_int (jget d ''shard_index'')) (\<lambda>shard_index.
     sbind (j_opt json_int (jget d ''shard_total'')) (\<lambda>shard_total.
     sbind (j_opt j_strs (jget d ''replace_filters'')) (\<lambda>replace_filters.
     Inr \<lparr>b_job_id = job_id, b_collection_id = collection_id, b_storage_key = storage_key, b_mode = mode,
          b_batch_size = batch_size, b_owner_id = owner_id,
          b_queue_compute_tiles = read_flag (jget_default d ''queue_compute_tiles'' (JBool False)),
          b_zip_inner_shp_paths = zip_inner,
          b_job_kind = (if truthy (jget d ''job_kind'') then py_str (jget d ''job_kind'') else ''single''),
          b_parent_job_id = parent_job_id, b_shard_index = shard_index, b_shard_total = shard_total,
          b_finalize_collection = truthy (jget_default d ''finalize_collection'' (JBool True)),
          b_replace_filters = replace_filters\<rparr>))))))))))))"

section \<open>The world\<close>

record 's qenv = "'s jenv" +
  mem_bulk_storage :: "(string \<times> string) list"
  memory_queue :: "BulkJobPayload list"

definition qenv0 :: "'s \<Rightarrow> 's qenv" where
  "qenv0 s = \<lparr>rds = s, clock = noon, ticks = 0, uuids = (\<lambda>n. ''job'' @ nat_str n), uuid_n = 0, mem_jobs = [],
     mem_bulk_storage = [], memory_queue = []\<rparr>"

section \<open>State of a parent job\<close>

definition QUEUE_KEY :: string where
  "QUEUE_KEY = ''geofastmap:bulk_import_queue''"

definition BULK_IMPORT_REG_PREFIX :: string where
  "BULK_IMPORT_REG_PREFIX = ''geofastmap:bulk_import_meta:''"

definition BULK_PARENT_STATE_PREFIX :: string where
  "BULK_PARENT_STATE_PREFIX = ''geofastmap:bulk_parent_state:''"

definition parent_state_key :: "string \<Rightarrow> string" where
  "parent_state_key job_id = BULK_PARENT_STATE_PREFIX @ job_id"

definition parent_state_mapping ::
    "string \<Rightarrow> string \<Rightarrow> string \<Rightarrow> int \<Rightarrow> string \<Rightarrow> bool \<Rightarrow> string list option \<Rightarrow> (string \<times> string) list" where
  "parent_state_mapping now parent_job_id collection_id expected_shards mode queue_compute_tiles replace_filters =
     [(''parent_job_id'', parent_job_id),
      (''collection_id'', collection_id),
      (''mode'', mode),
      (''expected_shards'', int_str (max 0 expected_shards)),
      (''completed_shards'', ''0''),
      (''failed_shards'', ''0''),
      (''items_created'', ''0''),
      (''items_failed'', ''0''),
      (''status'', ''running''),
      (''created_at'', now),
      (''updated_at'', now),
      (''error_samples'', ''[]''),
      (''queue_compute_tiles'', if queue_compute_tiles then ''1'' else ''0'')]
     @ (case nonempty replace_filters of None \<Rightarrow> [] | Some fs \<Rightarrow> [(''replace_filters'', join_with [CHR 0x0A] fs)])"

definition init_parent_state ::
    "'s redis \<Rightarrow> settings \<Rightarrow> string \<Rightarrow> string \<Rightarrow> int \<Rightarrow> string \<Rightarrow> bool \<Rightarrow> string list option \<Rightarrow>
     (('s, 'z) env_scheme, unit) prog" where
  "init_parent_state srv cfg parent_job_id collection_id expected_shards mode queue_compute_tiles replace_filters =
     (if bulk_queue_type cfg \<noteq> ''redis'' then ret ()
      else bnd utcnow (\<lambda>t.
        bnd (run_redis_retry cfg None (r_hset srv (parent_state_key parent_job_id)
          (parent_state_mapping (iso_z t) parent_job_id collection_id expected_shards mode queue_compute_tiles
             replace_filters))) (\<lambda>_. ret ())))"

definition int_or_zero :: "(string \<times> string) list \<Rightarrow> string \<Rightarrow> exn + int" where
  "int_or_zero raw f = (case field_of raw f of None \<Rightarrow> Inr 0 | Some s \<Rightarrow> py_int s)"

record shard_state =
  expected_shards :: int
  completed_shards :: int
  failed_shards :: int
  items_created :: int
  items_failed :: int

definition read_shard_state :: "(string \<times> string) list \<Rightarrow> exn + shard_state" where
  "read_shard_state raw =
     sbind (int_or_zero raw ''expected_shards'') (\<lambda>e.
     sbind (int_or_zero raw ''completed_shards'') (\<lambda>c.
     sbind (int_or_zero raw ''failed_shards'') (\<lambda>f.
     sbind (int_or_zero raw ''items_created'') (\<lambda>ic.
     sbind (int_or_zero raw ''items_failed'') (\<lambda>fi.
     Inr \<lparr>expected_shards = e, completed_shards = c, failed_shards = f, items_created = ic, items_failed = fi\<rparr>)))))"

definition get_parent_shard_state ::
    "'s redis \<Rightarrow> settings \<Rightarrow> string \<Rightarrow> (('s, 'z) env_scheme, shard_state option) prog" where
  "get_parent_shard_state srv cfg parent_job_id =
     (if bulk_queue_type cfg \<noteq> ''redis'' then ret None
      else run_redis_retry cfg (Some (read_attempts cfg))
        (bnd (r_hgetall srv (parent_state_key parent_job_id)) (\<lambda>raw.
         if raw = [] then ret None
         else bnd (lift_exn (read_shard_state raw)) (\<lambda>st. ret (Some st)))))"

definition get_parent_import_meta ::
    "'s redis \<Rightarrow> settings \<Rightarrow> string \<Rightarrow> (('s, 'z) env_scheme, (string \<times> string) list) prog" where
  "get_parent_import_meta srv cfg parent_job_id =
     (if bulk_queue_type cfg \<noteq> ''redis'' then ret []
      else run_redis_retry cfg (Some (read_attempts cfg)) (r_hgetall srv (parent_state_key parent_job_id)))"

definition add_error_sample :: "string option \<Rightarrow> int option \<Rightarrow> string \<Rightarrow> string" where
  "add_error_sample old shard_index error_message =
     (let text = (case old of None \<Rightarrow> ''[]'' | Some s \<Rightarrow> if s = [] then ''[]'' else s);
          samples = (case loads text of Inr (JArr xs) \<Rightarrow> xs | _ \<Rightarrow> []);
          entry = JObj [(''shard_index'', opt_json JInt shard_index), (''error'', JStr (take 500 error_message))]
      in dumps_compact (JArr (if length samples < 12 then samples @ [entry] else samples)))"

definition shard_increments :: "string \<Rightarrow> int \<Rightarrow> int \<Rightarrow> bool \<Rightarrow> rcmd list" where
  "shard_increments key created failed shard_failed =
     [HIncrBy key ''completed_shards'' 1, HIncrBy key ''items_created'' created, HIncrBy key ''items_failed'' failed]
     @ (if shard_failed then [HIncrBy key ''failed_shards'' 1] else [])"

definition error_sample_update ::
    "'s redis \<Rightarrow> string \<Rightarrow> bool \<Rightarrow> int option \<Rightarrow> string option \<Rightarrow> (('s, 'z) env_scheme, (string \<times> string) list) prog" where
  "error_sample_update srv key shard_failed shard_index error_message =
     (case (shard_failed, nonempty error_message) of
        (True, Some msg) \<Rightarrow>
          bnd (catch (r_hget srv key ''error_samples'') (\<lambda>_. ret None)) (\<lambda>old.
          ret [(''error_samples'', add_error_sample old shard_index msg)])
      | _ \<Rightarrow> ret [])"

definition mutate_parent ::
    "'s redis \<Rightarrow> string \<Rightarrow> int \<Rightarrow> int \<Rightarrow> bool \<Rightarrow> int option \<Rightarrow> string option \<Rightarrow> (('s, 'z) env_scheme, bool) prog" where
  "mutate_parent srv key created failed shard_failed shard_index error_message =
     bnd (r_exists srv key) (\<lambda>n.
     if n = 0 then ret False
     else bnd utcnow (\<lambda>t.
       bnd (error_sample_update srv key shard_failed shard_index error_message) (\<lambda>extra.
       bnd (r_pipe srv (shard_increments key created failed shard_failed
              @ [HSet key ((''updated_at'', iso_z t) # extra)])) (\<lambda>_.
       ret True))))"

record shard_out = shard_state +
  error_samples_json :: string
  out_queue_compute_tiles :: bool

definition read_parent_out :: "(string \<times> string) list \<Rightarrow> exn + shard_out" where
  "read_parent_out raw =
     sbind (read_shard_state raw) (\<lambda>st.
     Inr (shard_state.extend st
       \<lparr>error_samples_json = or_else (map_of raw ''error_samples'') ''[]'',
        out_queue_compute_tiles = not_falsey (or_else (map_of raw ''queue_compute_tiles'') ''0'')\<rparr>))"

definition record_parent_shard_result ::
    "'s redis \<Rightarrow> settings \<Rightarrow> string \<Rightarrow> int \<Rightarrow> int \<Rightarrow> bool \<Rightarrow> int option \<Rightarrow> string option \<Rightarrow>
     (('s, 'z) env_scheme, shard_out option) prog" where
  "record_parent_shard_result srv cfg parent_job_id created failed shard_failed shard_index error_message =
     (if bulk_queue_type cfg \<noteq> ''redis'' then ret None
      else
        let key = parent_state_key parent_job_id in
        bnd (run_redis_retry cfg (Some (read_attempts cfg))
          (mutate_parent srv key created failed shard_failed shard_index error_message)) (\<lambda>ok.
        if \<not> ok then ret None
        else bnd (run_redis_retry cfg (Some (read_attempts cfg))
          (bnd (r_hgetall srv key) (\<lambda>raw. lift_exn (read_parent_out raw)))) (\<lambda>out. ret (Some out))))"

definition clear_parent_state :: "'s redis \<Rightarrow> settings \<Rightarrow> string \<Rightarrow> (('s, 'z) env_scheme, unit) prog" where
  "clear_parent_state srv cfg parent_job_id =
     (if bulk_queue_type cfg \<noteq> ''redis'' then ret ()
      else bnd (run_redis_retry cfg None (r_delete srv [parent_state_key parent_job_id])) (\<lambda>_. ret ()))"

section \<open>Registry of uploads\<close>

definition reg_key :: "string \<Rightarrow> string" where
  "reg_key job_id = BULK_IMPORT_REG_PREFIX @ job_id"

definition register_bulk_import_job ::
    "'s redis \<Rightarrow> settings \<Rightarrow> string \<Rightarrow> string \<Rightarrow> (('s, 'z) qenv_scheme, unit) prog" where
  "register_bulk_import_job srv cfg job_id storage_key =
     (if bulk_queue_type cfg = ''redis''
      then bnd (run_redis_retry cfg None (r_set srv (reg_key job_id) storage_key (Some (86400 * 8)) False)) (\<lambda>_. ret ())
      else modify (\<lambda>w. w\<lparr>mem_bulk_storage := AList.update job_id storage_key (mem_bulk_storage w)\<rparr>))"

definition unregister_bulk_import_job ::
    "'s redis \<Rightarrow> settings \<Rightarrow> string \<Rightarrow> (('s, 'z) qenv_scheme, unit) prog" where
  "unregister_bulk_import_job srv cfg job_id =
     (if bulk_queue_type cfg = ''redis''
      then catch (bnd (r_delete srv [reg_key job_id]) (\<lambda>_. ret ())) (\<lambda>_. ret ())
      else modify (\<lambda>w. w\<lparr>mem_bulk_storage := AList.delete job_id (mem_bulk_storage w)\<rparr>))"

definition get_bulk_import_storage_key ::
    "'s redis \<Rightarrow> settings \<Rightarrow> string \<Rightarrow> (('s, 'z) qenv_scheme, string option) prog" where
  "get_bulk_import_storage_key srv cfg job_id =
     (if bulk_queue_type cfg = ''redis'' then catch (r_get srv (reg_key job_id)) (\<lambda>_. ret None)
      else gets (\<lambda>w. map_of (mem_bulk_storage w) job_id))"

definition is_registered_bulk_import_job ::
    "'s redis \<Rightarrow> settings \<Rightarrow> string \<Rightarrow> (('s, 'z) qenv_scheme, bool) prog" where
  "is_registered_bulk_import_job srv cfg job_id =
     bnd (get_bulk_import_storage_key srv cfg job_id) (\<lambda>k. ret (k \<noteq> None))"

section \<open>The queue\<close>

text \<open>The loop of \<^verbatim>\<open>remove_bulk_job_from_redis_queue\<close>: it stops at the first matching entry whose removal
  does not raise.\<close>

fun remove_first_match ::
    "'s redis \<Rightarrow> string \<Rightarrow> string \<Rightarrow> string list \<Rightarrow> (('s, 'z) env_scheme, int) prog" where
  "remove_first_match srv key job_id [] = ret 0"
| "remove_first_match srv key job_id (p # ps) =
     (case BulkJobPayload_from_json p of
        Inl _ \<Rightarrow> remove_first_match srv key job_id ps
      | Inr pl \<Rightarrow>
          if b_job_id pl = job_id
          then bnd (catch (bnd (r_lrem srv key 1 p) (\<lambda>n. ret (Some n))) (\<lambda>_. ret None)) (\<lambda>r.
               case r of None \<Rightarrow> remove_first_match srv key job_id ps | Some n \<Rightarrow> ret n)
          else remove_first_match srv key job_id ps)"

definition remove_bulk_job_from_redis_queue ::
    "'s redis \<Rightarrow> settings \<Rightarrow> string \<Rightarrow> (('s, 'z) env_scheme, int) prog" where
  "remove_bulk_job_from_redis_queue srv cfg job_id =
     (if bulk_queue_type cfg \<noteq> ''redis'' then ret 0
      else bnd (r_lrange srv QUEUE_KEY 0 (- 1)) (\<lambda>payloads. remove_first_match srv QUEUE_KEY job_id payloads))"

definition memory_queue_put :: "BulkJobPayload \<Rightarrow> (('s, 'z) qenv_scheme, unit) prog" where
  "memory_queue_put p = modify (\<lambda>w. w\<lparr>memory_queue := memory_queue w @ [p]\<rparr>)"

definition memory_queue_get :: "(('s, 'z) qenv_scheme, BulkJobPayload option) prog" where
  "memory_queue_get =
     bnd (gets memory_queue) (\<lambda>q.
     case q of [] \<Rightarrow> ret None | p # ps \<Rightarrow> bnd (modify (\<lambda>w. w\<lparr>memory_queue := ps\<rparr>)) (\<lambda>_. ret (Some p)))"

text \<open>The text of the exception that ended the retries is not part of the model's message.\<close>

definition enqueue :: "'s redis \<Rightarrow> settings \<Rightarrow> BulkJobPayload \<Rightarrow> (('s, 'z) qenv_scheme, unit) prog" where
  "enqueue srv cfg payload =
     (if bulk_queue_type cfg = ''redis''
      then catch (bnd (run_redis_retry cfg None (r_lpush srv QUEUE_KEY (BulkJobPayload_to_json payload))) (\<lambda>_. ret ()))
             (\<lambda>_. raise (RuntimeError ''Failed to enqueue bulk job after retries''))
      else memory_queue_put payload)"

definition memory_consumer_turn ::
    "(BulkJobPayload \<Rightarrow> (('s, 'z) qenv_scheme, unit) prog) \<Rightarrow> (('s, 'z) qenv_scheme, unit) prog" where
  "memory_consumer_turn processor =
     bnd memory_queue_get (\<lambda>payload.
     case payload of None \<Rightarrow> ret () | Some p \<Rightarrow> catch (processor p) (\<lambda>_. ret ()))"

section \<open>A message survives the queue\<close>

text \<open>What the consumer reads: empty lists and an empty parent id become \<^verbatim>\<open>None\<close>, an empty kind \<^verbatim>\<open>single\<close>.\<close>

definition as_queued :: "BulkJobPayload \<Rightarrow> BulkJobPayload" where
  "as_queued p = p\<lparr>b_zip_inner_shp_paths := nonempty (b_zip_inner_shp_paths p),
     b_job_kind := (if b_job_kind p = [] then ''single'' else b_job_kind p),
     b_parent_job_id := nonempty (b_parent_job_id p), b_replace_filters := nonempty (b_replace_filters p)\<rparr>"

lemma payload_roundtrip: "BulkJobPayload_from_json (BulkJobPayload_to_json p) = Inr (as_queued p)"
proof -
  let ?d = "[(''job_id'', JStr (b_job_id p)),
      (''collection_id'', JStr (b_collection_id p)),
      (''owner_id'', opt_json JInt (b_owner_id p)),
      (''storage_key'', JStr (b_storage_key p)),
      (''mode'', JStr (b_mode p)),
      (''batch_size'', JInt (b_batch_size p)),
      (''queue_compute_tiles'', JBool (b_queue_compute_tiles p))]
     @ opt_pair ''zip_inner_shp_paths'' (map_option JStrs (nonempty (b_zip_inner_shp_paths p)))
     @ opt_pair ''job_kind'' (if b_job_kind p \<noteq> ''single'' then Some (JStr (b_job_kind p)) else None)
     @ opt_pair ''parent_job_id'' (map_option JStr (nonempty (b_parent_job_id p)))
     @ opt_pair ''shard_index'' (map_option JInt (b_shard_index p))
     @ opt_pair ''shard_total'' (map_option JInt (b_shard_total p))
     @ opt_pair ''finalize_collection'' (if b_finalize_collection p then None else Some (JBool False))
     @ opt_pair ''replace_filters'' (map_option JStrs (nonempty (b_replace_filters p)))"
  have "json_ok (JObj ?d)"
    unfolding append.simps by (simp add: json_simps del: json_ok.simps(3)) (auto split: if_splits)
  then have l: "loads (BulkJobPayload_to_json p) = Inr (JObj ?d)"
    by (simp only: BulkJobPayload_to_json_def loads_dumps)
  define d where "d = ?d"
  have req: "jreq d ''job_id'' = Inr (JStr (b_job_id p))" "jreq d ''collection_id'' = Inr (JStr (b_collection_id p))"
    "jreq d ''storage_key'' = Inr (JStr (b_storage_key p))" "jreq d ''mode'' = Inr (JStr (b_mode p))"
    "jreq d ''batch_size'' = Inr (JInt (b_batch_size p))"
    by (simp_all add: d_def jreq_def)
  have get: "jget d ''owner_id'' = opt_json JInt (b_owner_id p)"
    "list_or_none (jget d ''zip_inner_shp_paths'') = opt_json JStrs (nonempty (b_zip_inner_shp_paths p))"
    "jget d ''parent_job_id'' = opt_json JStr (nonempty (b_parent_job_id p))"
    "jget d ''shard_index'' = opt_json JInt (b_shard_index p)"
    "jget d ''shard_total'' = opt_json JInt (b_shard_total p)"
    "jget d ''replace_filters'' = opt_json JStrs (nonempty (b_replace_filters p))"
    "jget d ''job_kind'' = (if b_job_kind p \<noteq> ''single'' then JStr (b_job_kind p) else JNull)"
    "jget_default d ''queue_compute_tiles'' (JBool False) = JBool (b_queue_compute_tiles p)"
    "jget_default d ''finalize_collection'' (JBool True) = JBool (b_finalize_collection p)"
    by (simp_all add: d_def jget_def jget_default_def json_simps map_add_def opt_json_def list_or_none_def JStrs_def
        split: option.split)
  have o: "j_opt json_int (opt_json JInt x) = Inr x" "j_opt j_strs (opt_json JStrs y) = Inr y" for x y
    by (cases x; cases y; simp add: json_simps)+
  show ?thesis
    unfolding BulkJobPayload_from_json_def l sbind_simps json_obj_def json.case d_def [symmetric]
    by (simp add: req get o json_simps read_flag_def as_queued_def py_str_def)
qed

section \<open>Shard results add up\<close>

record shard_result =
  r_created :: int
  r_failed :: int
  r_shard_failed :: bool
  r_shard_index :: "int option"
  r_error :: "string option"

text \<open>The abstract effect of one shard result, and the states in which no counter leaves 64 bits.\<close>

definition add_result :: "shard_result \<Rightarrow> shard_state \<Rightarrow> shard_state" where
  "add_result r s = s\<lparr>completed_shards := completed_shards s + 1,
     failed_shards := failed_shards s + (if r_shard_failed r then 1 else 0),
     items_created := items_created s + r_created r, items_failed := items_failed s + r_failed r\<rparr>"

definition in64 :: "int \<Rightarrow> bool" where
  "in64 i \<longleftrightarrow> - (2 ^ 63) \<le> i \<and> i < 2 ^ 63"

definition fits :: "shard_state \<Rightarrow> bool" where
  "fits s \<longleftrightarrow> in64 (completed_shards s) \<and> in64 (failed_shards s) \<and> in64 (items_created s) \<and> in64 (items_failed s)"

definition shard_fields :: "(string \<times> string) list \<Rightarrow> shard_state \<Rightarrow> bool" where
  "shard_fields h s \<longleftrightarrow>
     map_of h ''expected_shards'' = Some (int_str (expected_shards s)) \<and>
     map_of h ''completed_shards'' = Some (int_str (completed_shards s)) \<and>
     map_of h ''failed_shards'' = Some (int_str (failed_shards s)) \<and>
     map_of h ''items_created'' = Some (int_str (items_created s)) \<and>
     map_of h ''items_failed'' = Some (int_str (items_failed s))"

definition parent_is :: "store \<Rightarrow> string \<Rightarrow> shard_state \<Rightarrow> bool" where
  "parent_is st key s \<longleftrightarrow> (\<exists>h t. st key = Some (RHash h, t) \<and> shard_fields h s)"

fun record_all ::
    "'s redis \<Rightarrow> settings \<Rightarrow> string \<Rightarrow> shard_result list \<Rightarrow> (('s, 'z) env_scheme, unit) prog" where
  "record_all srv cfg job_id [] = ret ()"
| "record_all srv cfg job_id (r # rs) =
     bnd (record_parent_shard_result srv cfg job_id (r_created r) (r_failed r) (r_shard_failed r) (r_shard_index r) (r_error r))
       (\<lambda>_. record_all srv cfg job_id rs)"

lemma shard_fields_nonempty: "shard_fields h s \<Longrightarrow> h \<noteq> []"
  by (auto simp: shard_fields_def)

lemma read_shard_state_fields: "shard_fields h s \<Longrightarrow> read_shard_state h = Inr s"
  by (cases s) (simp add: read_shard_state_def int_or_zero_def field_of_def shard_fields_def)

lemma increments_effect:
  assumes "st key = Some (RHash h, t)" and "shard_fields h s" and "fits s" and "fits (add_result r s)"
  defines "cs \<equiv> shard_increments key (r_created r) (r_failed r) (r_shard_failed r)"
  shows "\<exists>h'. effs cs st = st(key \<mapsto> (RHash h', t)) \<and> shard_fields h' (add_result r s) \<and> pipe_fine cs st"
proof -
  define h1 where "h1 = AList.update ''completed_shards'' (int_str (completed_shards s + 1)) h"
  define h2 where "h2 = AList.update ''items_created'' (int_str (items_created s + r_created r)) h1"
  define h3 where "h3 = AList.update ''items_failed'' (int_str (items_failed s + r_failed r)) h2"
  define h4 where "h4 = AList.update ''failed_shards'' (int_str (failed_shards s + 1)) h3"
  have 1: "eff (HIncrBy key ''completed_shards'' 1) st = st(key \<mapsto> (RHash h1, t))" "\<not> isl (rep (HIncrBy key ''completed_shards'' 1) st)"
    unfolding h1_def using assms(2-4)
    by (intro hincr_counter [of st key h t _ "completed_shards s", OF assms(1)]; simp add: shard_fields_def fits_def in64_def add_result_def)+
  have 2: "eff (HIncrBy key ''items_created'' (r_created r)) (st(key \<mapsto> (RHash h1, t))) = st(key \<mapsto> (RHash h2, t))"
    "\<not> isl (rep (HIncrBy key ''items_created'' (r_created r)) (st(key \<mapsto> (RHash h1, t))))"
    using hincr_counter [of "st(key \<mapsto> (RHash h1, t))" key h1 t "''items_created''" "items_created s" "r_created r"] assms(2-4)
    by (simp_all add: h1_def h2_def shard_fields_def fits_def in64_def add_result_def)
  have 3: "eff (HIncrBy key ''items_failed'' (r_failed r)) (st(key \<mapsto> (RHash h2, t))) = st(key \<mapsto> (RHash h3, t))"
    "\<not> isl (rep (HIncrBy key ''items_failed'' (r_failed r)) (st(key \<mapsto> (RHash h2, t))))"
    using hincr_counter [of "st(key \<mapsto> (RHash h2, t))" key h2 t "''items_failed''" "items_failed s" "r_failed r"] assms(2-4)
    by (simp_all add: h1_def h2_def h3_def shard_fields_def fits_def in64_def add_result_def)
  have 4: "eff (HIncrBy key ''failed_shards'' 1) (st(key \<mapsto> (RHash h3, t))) = st(key \<mapsto> (RHash h4, t))"
    "\<not> isl (rep (HIncrBy key ''failed_shards'' 1) (st(key \<mapsto> (RHash h3, t))))" if "r_shard_failed r"
    using hincr_counter [of "st(key \<mapsto> (RHash h3, t))" key h3 t "''failed_shards''" "failed_shards s" 1] assms(2-4) that
    by (simp_all add: h1_def h2_def h3_def h4_def shard_fields_def fits_def in64_def add_result_def)
  let ?h = "if r_shard_failed r then h4 else h3"
  have "shard_fields ?h (add_result r s)"
    using assms(2) by (simp add: shard_fields_def add_result_def h1_def h2_def h3_def h4_def)
  moreover have "effs cs st = st(key \<mapsto> (RHash ?h, t))" "pipe_fine cs st"
    using 1 2 3 4 by (simp_all add: cs_def shard_increments_def)
  ultimately show ?thesis by blast
qed

lemma shard_fields_stamp:
  assumes "shard_fields h s" and "extra = [] \<or> (\<exists>x. extra = [(''error_samples'', x)])"
  shows "shard_fields (hash_updates ((''updated_at'', now) # extra) h) s"
  using assms by (auto simp: shard_fields_def)

context redis_up
begin

lemma mutate_parent_eval:
  assumes "parent_is (view (rds w)) key s" and "fits s" and "fits (add_result r s)"
  shows "fst (mutate_parent srv key (r_created r) (r_failed r) (r_shard_failed r) (r_shard_index r) (r_error r) w) = Inr True"
    and "parent_is (view (rds (snd (mutate_parent srv key (r_created r) (r_failed r) (r_shard_failed r) (r_shard_index r) (r_error r) w))))
      key (add_result r s)"
    and "k \<noteq> key \<Longrightarrow> view (rds (snd (mutate_parent srv key (r_created r) (r_failed r) (r_shard_failed r) (r_shard_index r) (r_error r) w))) k
      = view (rds w) k"
proof -
  obtain h t where h: "view (rds w) key = Some (RHash h, t)" "shard_fields h s" using assms(1) by (auto simp: parent_is_def)
  let ?incs = "shard_increments key (r_created r) (r_failed r) (r_shard_failed r)"
  define w1 where "w1 = w\<lparr>rds := snd (srv (One (Exists key)) (rds w)), ticks := Suc (ticks w)\<rparr>"
  define ex :: "(('a, 'b) env_scheme, (string \<times> string) list) prog" where
    "ex = error_sample_update srv key (r_shard_failed r) (r_shard_index r) (r_error r)"
  define now where "now = iso_z (clock w (ticks w))"
  have v1: "view (rds w1) = view (rds w)" by (simp add: w1_def redis_simps)
  obtain extra where ex: "fst (ex w1) = Inr extra" "extra = [] \<or> (\<exists>x. extra = [(''error_samples'', x)])"
    and vx: "view (rds (snd (ex w1))) = view (rds w)"
    using h v1 by (cases "r_shard_failed r"; cases "nonempty (r_error r)") (auto simp: ex_def error_sample_update_def prog_simps redis_simps)
  define w2 where "w2 = snd (ex w1)"
  obtain h' where h': "effs ?incs (view (rds w)) = (view (rds w))(key \<mapsto> (RHash h', t))" "shard_fields h' (add_result r s)"
    "pipe_fine ?incs (view (rds w))"
    using increments_effect [of "view (rds w)" key h t s r] h assms(2,3) by blast
  let ?cs = "?incs @ [HSet key ((''updated_at'', now) # extra)]"
  let ?h = "hash_updates ((''updated_at'', now) # extra) h'"
  have p: "pipe_fine ?cs (view (rds w2))" "effs ?cs (view (rds w2)) = (view (rds w))(key \<mapsto> (RHash ?h, t))"
    using h' vx by (simp_all add: w2_def pipe_fine_append effs_append redis_simps)
  note pe = eval_pipe [OF p(1)]
  have run: "mutate_parent srv key (r_created r) (r_failed r) (r_shard_failed r) (r_shard_index r) (r_error r) w =
      bnd (r_pipe srv ?cs) (\<lambda>_. ret True) w2"
    using h ex(1)
    by (simp add: mutate_parent_def ex_def [symmetric] bnd_def [of "r_int _ _"] bnd_def [of utcnow] bnd_def [of ex]
        prog_simps redis_simps w1_def [symmetric] w2_def [symmetric] now_def [symmetric])
  show "fst (mutate_parent srv key (r_created r) (r_failed r) (r_shard_failed r) (r_shard_index r) (r_error r) w) = Inr True"
    unfolding run by (simp add: prog_simps pe)
  show "parent_is (view (rds (snd (mutate_parent srv key (r_created r) (r_failed r) (r_shard_failed r) (r_shard_index r) (r_error r) w))))
      key (add_result r s)"
    unfolding run using shard_fields_stamp [OF h'(2) ex(2), of now]
    by (simp add: prog_simps pe p parent_is_def)
  show "view (rds (snd (mutate_parent srv key (r_created r) (r_failed r) (r_shard_failed r) (r_shard_index r) (r_error r) w))) k
      = view (rds w) k" if "k \<noteq> key"
    unfolding run using that by (simp add: prog_simps pe p)
qed

lemma record_result_eval:
  assumes "uses_redis cfg" and "parent_is (view (rds w)) (parent_state_key i) s" and "fits s" and "fits (add_result r s)"
  shows "\<exists>out. fst (record_parent_shard_result srv cfg i (r_created r) (r_failed r) (r_shard_failed r) (r_shard_index r) (r_error r) w)
      = Inr (Some out) \<and> shard_state.truncate out = add_result r s"
    and "parent_is (view (rds (snd (record_parent_shard_result srv cfg i (r_created r) (r_failed r) (r_shard_failed r) (r_shard_index r) (r_error r) w))))
      (parent_state_key i) (add_result r s)"
proof -
  note m = mutate_parent_eval [OF assms(2-4)]
  obtain h t where h: "view (rds (snd (mutate_parent srv (parent_state_key i) (r_created r) (r_failed r) (r_shard_failed r) (r_shard_index r) (r_error r) w)))
      (parent_state_key i) = Some (RHash h, t)" "shard_fields h (add_result r s)"
    using m(2) by (auto simp: parent_is_def)
  show "\<exists>out. fst (record_parent_shard_result srv cfg i (r_created r) (r_failed r) (r_shard_failed r) (r_shard_index r) (r_error r) w)
      = Inr (Some out) \<and> shard_state.truncate out = add_result r s"
    "parent_is (view (rds (snd (record_parent_shard_result srv cfg i (r_created r) (r_failed r) (r_shard_failed r) (r_shard_index r) (r_error r) w))))
      (parent_state_key i) (add_result r s)"
    using assms(1) m h
    by (simp_all add: record_parent_shard_result_def uses_redis_def prog_simps redis_simps read_parent_out_def
        read_shard_state_fields Let_def shard_state.defs)
qed

lemma record_all_eval:
  assumes "uses_redis cfg" and "parent_is (view (rds w)) (parent_state_key i) s"
    and "\<And>n. n \<le> length rs \<Longrightarrow> fits (fold add_result (take n rs) s)"
  shows "parent_is (view (rds (snd (record_all srv cfg i rs w)))) (parent_state_key i) (fold add_result rs s)"
  using assms(2,3)
proof (induction rs arbitrary: w s)
  case Nil
  then show ?case by (simp add: prog_simps)
next
  case (Cons r rs)
  have f: "fits s" "fits (add_result r s)" using Cons.prems(2) [of 0] Cons.prems(2) [of 1] by simp_all
  have "fits (fold add_result (take n rs) (add_result r s))" if "n \<le> length rs" for n
    using Cons.prems(2) [of "Suc n"] that by simp
  from Cons.IH [OF _ this] record_result_eval [OF assms(1) Cons.prems(1) f]
  show ?case by (auto simp: prog_simps)
qed

lemma shard_state_eval:
  assumes "uses_redis cfg" and "parent_is (view (rds w)) (parent_state_key i) s"
  shows "fst (get_parent_shard_state srv cfg i w) = Inr (Some s)"
proof -
  obtain h t where "view (rds w) (parent_state_key i) = Some (RHash h, t)" "shard_fields h s"
    using assms(2) by (auto simp: parent_is_def)
  with assms(1) show ?thesis
    by (simp add: get_parent_shard_state_def uses_redis_def prog_simps redis_simps read_shard_state_fields shard_fields_nonempty)
qed

lemma init_parent_eval:
  assumes "uses_redis cfg" and "as_hash (view (rds w) (parent_state_key i)) \<noteq> None"
  shows "parent_is (view (rds (snd (init_parent_state srv cfg i c n mode q fs w)))) (parent_state_key i)
    \<lparr>expected_shards = max 0 n, completed_shards = 0, failed_shards = 0, items_created = 0, items_failed = 0\<rparr>"
proof -
  obtain h t where h: "as_hash (view (rds w) (parent_state_key i)) = Some (h, t)" using assms(2) by auto
  have z: "int_str 0 = ''0''" by code_simp
  have m: "parent_state_mapping now i c n mode q fs \<noteq> []" for now by (simp add: parent_state_mapping_def)
  have "shard_fields (hash_updates (parent_state_mapping now i c n mode q fs) h)
    \<lparr>expected_shards = max 0 n, completed_shards = 0, failed_shards = 0, items_created = 0, items_failed = 0\<rparr>" for now
    by (cases "nonempty fs")
       (simp_all add: shard_fields_def parent_state_mapping_def map_of_hash_updates_rev map_add_def z)
  then show ?thesis
    using assms(1) h m by (simp add: init_parent_state_def uses_redis_def prog_simps redis_simps parent_is_def)
qed

end

section \<open>Cancelling removes one entry\<close>

definition is_entry_of :: "string \<Rightarrow> string \<Rightarrow> bool" where
  "is_entry_of job_id p \<longleftrightarrow> (case BulkJobPayload_from_json p of Inl _ \<Rightarrow> False | Inr pl \<Rightarrow> b_job_id pl = job_id)"

text \<open>The queue without the first entry of the job.\<close>

fun drop_first_entry :: "string \<Rightarrow> string list \<Rightarrow> string list" where
  "drop_first_entry job_id [] = []"
| "drop_first_entry job_id (p # ps) = (if is_entry_of job_id p then ps else p # drop_first_entry job_id ps)"

lemma remove1_first_entry:
  assumes "find (is_entry_of i) l = Some p"
  shows "remove1 p l = drop_first_entry i l" and "p \<in> set l"
proof -
  have "is_entry_of i p" using assms by (auto simp: find_Some_iff)
  then show "remove1 p l = drop_first_entry i l" "p \<in> set l"
    using assms by (induction l) (auto split: if_splits)
qed

lemma lrem_one: "lrem_list 1 v xs = remove1 v xs"
proof -
  have "remove_n (Suc 0) v xs = remove1 v xs" by (induction xs) (auto simp: neq_Nil_conv, case_tac xs, simp_all)
  then show ?thesis by (simp add: lrem_list_def)
qed

lemma drop_first_entry_none: "find (is_entry_of i) l = None \<Longrightarrow> drop_first_entry i l = l"
  by (induction l) (auto split: if_splits)

context redis_up
begin

lemma remove_first_match_none:
  "find (is_entry_of i) ps = None \<Longrightarrow> remove_first_match srv key i ps w = (Inr 0, w)"
  by (induction ps) (auto simp: ret_def is_entry_of_def split: if_splits sum.splits)

lemma remove_first_match_some:
  assumes "find (is_entry_of i) ps = Some p" and "as_list (view (rds w) key) = Some (l, t)"
  shows "fst (remove_first_match srv key i ps w) = Inr (int (length l) - int (length (remove1 p l)))"
    and "view (rds (snd (remove_first_match srv key i ps w))) = (view (rds w))(key :=
      if remove1 p l = [] then None else Some (RList (remove1 p l), t))"
  using assms
proof (induction ps)
  case (Cons q ps)
  { case 1
    with Cons show ?case
      by (cases "is_entry_of i q") (auto simp: is_entry_of_def prog_simps redis_simps lrem_one split: sum.splits)
  next
    case 2
    with Cons show ?case
      by (cases "is_entry_of i q") (auto simp: is_entry_of_def prog_simps redis_simps lrem_one split: sum.splits)
  }
qed simp_all

end

section \<open>Properties\<close>

text \<open>Shard results add up. When the server answers, after a parent is set up for \<open>n\<close> shards and any
  results are recorded, the state read back has that many completed shards, the number of failed ones and
  the sums of created and failed items (as long as no counter leaves 64 bits).\<close>

theorem parent_shard_results_add_up:
  fixes n :: int and rs :: "shard_result list" and c mode :: string and q :: bool and fs :: "string list option"
  assumes "redis_up srv view" and "uses_redis cfg" and "as_hash (view (rds w) (parent_state_key i)) \<noteq> None"
  defines "s0 \<equiv> \<lparr>expected_shards = max 0 n, completed_shards = 0, failed_shards = 0, items_created = 0, items_failed = 0\<rparr>"
  assumes "\<And>k. k \<le> length rs \<Longrightarrow> fits (fold add_result (take k rs) s0)"
  defines "w' \<equiv> snd (record_all srv cfg i rs (snd (init_parent_state srv cfg i c n mode q fs w)))"
  shows "fst (get_parent_shard_state srv cfg i w') = Inr (Some
    \<lparr>expected_shards = max 0 n, completed_shards = int (length rs),
     failed_shards = int (length (filter r_shard_failed rs)),
     items_created = sum_list (map r_created rs), items_failed = sum_list (map r_failed rs)\<rparr>)"
proof -
  have "parent_is (view (rds w')) (parent_state_key i) (fold add_result rs s0)"
    unfolding w'_def
    by (rule redis_up.record_all_eval [OF assms(1,2) _ assms(5)])
       (use redis_up.init_parent_eval [OF assms(1-3)] in \<open>simp add: s0_def\<close>)
  moreover have "fold add_result rs \<lparr>expected_shards = e, completed_shards = a, failed_shards = b, items_created = x, items_failed = y\<rparr> =
      \<lparr>expected_shards = e, completed_shards = a + int (length rs), failed_shards = b + int (length (filter r_shard_failed rs)),
       items_created = x + sum_list (map r_created rs), items_failed = y + sum_list (map r_failed rs)\<rparr>" for e a b x y
    by (induction rs arbitrary: a b x y) (simp_all add: add_result_def)
  ultimately show ?thesis using redis_up.shard_state_eval [OF assms(1,2)] by (simp add: s0_def)
qed

definition example_results :: "shard_result list" where
  "example_results =
     [\<lparr>r_created = 5, r_failed = 0, r_shard_failed = False, r_shard_index = Some 0, r_error = None\<rparr>,
      \<lparr>r_created = 2, r_failed = 3, r_shard_failed = True, r_shard_index = Some 1, r_error = Some ''bad row''\<rparr>]"

theorem parent_shard_results_add_up_witness:
  "fst (get_parent_shard_state mem_srv default_settings ''j'' (snd (record_all mem_srv default_settings ''j'' example_results
     (snd (init_parent_state mem_srv default_settings ''j'' ''c'' 2 ''append'' False None (env0 [])))))) = Inr (Some
    \<lparr>expected_shards = 2, completed_shards = 2, failed_shards = 1, items_created = 7, items_failed = 3\<rparr>)"
proof -
  have "fits (fold add_result (take k example_results)
     \<lparr>expected_shards = max 0 2, completed_shards = 0, failed_shards = 0, items_created = 0, items_failed = 0\<rparr>)"
    if "k \<le> length example_results" for k
  proof -
    have "k = 0 \<or> k = 1 \<or> k = 2" using that by (auto simp: example_results_def)
    then show ?thesis by (elim disjE) (simp_all add: example_results_def add_result_def fits_def in64_def)
  qed
  from parent_shard_results_add_up [OF mem.redis_up_axioms uses_redis_default _ this, where w = "env0 []" and i = "''j''"]
  show ?thesis by (simp add: redis_simps example_results_def)
qed

text \<open>Recording a shard result is not safe to retry: when the reply to the transaction is lost after the
  server carried it out, one result of five items counts as two results of ten.\<close>

theorem parent_shard_result_counted_twice:
  "map_sum id (map_option shard_state.truncate)
     (fst (record_parent_shard_result script_srv default_settings ''j'' 5 0 False None None
        (env0 ([Fine, Lost], [(parent_state_key ''j'', (RHash [(''expected_shards'', ''2''), (''completed_shards'', ''0''),
           (''failed_shards'', ''0''), (''items_created'', ''0''), (''items_failed'', ''0'')], None))])))) =
   Inr (Some \<lparr>expected_shards = 2, completed_shards = 2, failed_shards = 0, items_created = 10, items_failed = 0\<rparr>)"
  by code_simp

text \<open>Cancelling a queued import, when the server answers: exactly the first entry of that job leaves the
  queue and one is returned; without such an entry nothing changes and zero is returned. Entries that do
  not parse are never touched.\<close>

theorem remove_bulk_job_exact:
  fixes i :: string
  assumes "redis_up srv view" and "uses_redis cfg" and "as_list (view (rds w) QUEUE_KEY) = Some (l, t)"
  defines "w' \<equiv> snd (remove_bulk_job_from_redis_queue srv cfg i w)"
  shows "fst (remove_bulk_job_from_redis_queue srv cfg i w) = Inr (if list_ex (is_entry_of i) l then 1 else 0) \<and>
         map_option fst (as_list (view (rds w') QUEUE_KEY)) = Some (drop_first_entry i l) \<and>
         (\<forall>k. k \<noteq> QUEUE_KEY \<longrightarrow> view (rds w') k = view (rds w) k)"
proof -
  let ?w1 = "w\<lparr>rds := snd (srv (One (LRange QUEUE_KEY 0 (- 1))) (rds w))\<rparr>"
  have all: "lrange_list 0 (- 1) l = l" by (cases l) (simp_all add: lrange_list_def)
  have v1: "view (rds ?w1) = view (rds w)" using redis_up.up_view1 [OF assms(1)] by (simp add: redis_simps)
  have run: "remove_bulk_job_from_redis_queue srv cfg i w = remove_first_match srv QUEUE_KEY i l ?w1"
    using assms(2,3) redis_up.eval_lrange [OF assms(1), of QUEUE_KEY 0 "- 1" w]
    by (simp add: remove_bulk_job_from_redis_queue_def uses_redis_def bnd_def prog_simps all)
  show ?thesis
  proof (cases "find (is_entry_of i) l")
    case None
    then have "\<not> list_ex (is_entry_of i) l" by (auto simp: find_None_iff list_ex_iff)
    then show ?thesis
      using redis_up.remove_first_match_none [OF assms(1) None, of QUEUE_KEY ?w1] assms(3) v1 drop_first_entry_none [OF None]
      by (auto simp: run w'_def)
  next
    case (Some p)
    note r = remove1_first_entry [OF Some]
    have "list_ex (is_entry_of i) l" using Some by (auto simp: find_Some_iff list_ex_iff)
    moreover have "int (length l) - int (length (drop_first_entry i l)) = 1"
      using r length_remove1 [of p l] by (cases l) auto
    ultimately show ?thesis
      using redis_up.remove_first_match_some [OF assms(1) Some, of ?w1 QUEUE_KEY l t] assms(3) v1 r
      by (simp add: run w'_def redis_simps)
  qed
qed

theorem remove_bulk_job_exact_witness:
  "fst (remove_bulk_job_from_redis_queue mem_srv default_settings ''j'' (env0 [(QUEUE_KEY, (RList [''junk''], None))])) = Inr 0"
proof -
  have "\<not> is_entry_of ''j'' ''junk''" by code_simp
  with remove_bulk_job_exact [OF mem.redis_up_axioms uses_redis_default, of "env0 [(QUEUE_KEY, (RList [''junk''], None))]" "[''junk'']" None "''j''"]
  show ?thesis by (simp add: redis_simps)
qed

end
