(* ===== verification/Tile_Build_Queue.thy ===== *)
theory Tile_Build_Queue
  imports Bulk_Queue
begin

text \<open>
  \<^verbatim>\<open>app/services/tile_build_queue.py\<close>: the queue of static tile builds, one pending build per collection, its
  options and messages, and the lease a running build keeps.

  Shown: messages survive the queue with every option; when the server answers a collection is queued
  once and the lease only ever moves on behalf of its owner. The check and the reservation are separate
  commands, so two requests that interleave both queue the collection.
\<close>

section \<open>Messages\<close>

record TileBuildOptions =
  o_min_zoom :: "int option"
  o_max_zoom :: "int option"
  o_include_attributes :: "string list option"
  o_exclude_attributes :: "string list option"
  o_densest :: "string option"
  o_smallest :: "string option"
  o_no_line_simplification :: "bool option"
  o_simplify_only_low_zooms :: "bool option"
  o_no_shared_node_simplification :: "bool option"
  o_no_tiny_polygon_reduction :: "bool option"
  o_no_point_dropping :: "bool option"

definition no_options :: TileBuildOptions where
  "no_options = \<lparr>o_min_zoom = None, o_max_zoom = None, o_include_attributes = None, o_exclude_attributes = None,
     o_densest = None, o_smallest = None, o_no_line_simplification = None, o_simplify_only_low_zooms = None,
     o_no_shared_node_simplification = None, o_no_tiny_polygon_reduction = None, o_no_point_dropping = None\<rparr>"

definition TileBuildOptions_to_dict :: "TileBuildOptions \<Rightarrow> (string \<times> json) list" where
  "TileBuildOptions_to_dict p =
     opt_pair ''min_zoom'' (map_option JInt (o_min_zoom p))
     @ opt_pair ''max_zoom'' (map_option JInt (o_max_zoom p))
     @ opt_pair ''include_attributes'' (map_option JStrs (o_include_attributes p))
     @ opt_pair ''exclude_attributes'' (map_option JStrs (o_exclude_attributes p))
     @ opt_pair ''densest'' (map_option JStr (o_densest p))
     @ opt_pair ''smallest'' (map_option JStr (o_smallest p))
     @ opt_pair ''no_line_simplification'' (map_option JBool (o_no_line_simplification p))
     @ opt_pair ''simplify_only_low_zooms'' (map_option JBool (o_simplify_only_low_zooms p))
     @ opt_pair ''no_shared_node_simplification'' (map_option JBool (o_no_shared_node_simplification p))
     @ opt_pair ''no_tiny_polygon_reduction'' (map_option JBool (o_no_tiny_polygon_reduction p))
     @ opt_pair ''no_point_dropping'' (map_option JBool (o_no_point_dropping p))"

definition j_bool :: "json \<Rightarrow> exn + bool" where
  "j_bool v = (case v of JBool b \<Rightarrow> Inr b | _ \<Rightarrow> Inl TypeError)"

definition TileBuildOptions_from_dict :: "json \<Rightarrow> exn + TileBuildOptions" where
  "TileBuildOptions_from_dict v =
     (if \<not> truthy v then Inr no_options
      else
        sbind (json_obj v) (\<lambda>d.
        sbind (j_opt j_int (jget d ''min_zoom'')) (\<lambda>min_zoom.
        sbind (j_opt j_int (jget d ''max_zoom'')) (\<lambda>max_zoom.
        sbind (j_opt j_strs (jget d ''include_attributes'')) (\<lambda>include_attributes.
        sbind (j_opt j_strs (jget d ''exclude_attributes'')) (\<lambda>exclude_attributes.
        sbind (j_opt j_str (jget d ''densest'')) (\<lambda>densest.
        sbind (j_opt j_str (jget d ''smallest'')) (\<lambda>smallest.
        sbind (j_opt j_bool (jget d ''no_line_simplification'')) (\<lambda>no_line_simplification.
        sbind (j_opt j_bool (jget d ''simplify_only_low_zooms'')) (\<lambda>simplify_only_low_zooms.
        sbind (j_opt j_bool (jget d ''no_shared_node_simplification'')) (\<lambda>no_shared_node_simplification.
        sbind (j_opt j_bool (jget d ''no_tiny_polygon_reduction'')) (\<lambda>no_tiny_polygon_reduction.
        sbind (j_opt j_bool (jget d ''no_point_dropping'')) (\<lambda>no_point_dropping.
        Inr \<lparr>o_min_zoom = min_zoom, o_max_zoom = max_zoom, o_include_attributes = include_attributes,
             o_exclude_attributes = exclude_attributes, o_densest = densest, o_smallest = smallest,
             o_no_line_simplification = no_line_simplification,
             o_simplify_only_low_zooms = simplify_only_low_zooms,
             o_no_shared_node_simplification = no_shared_node_simplification,
             o_no_tiny_polygon_reduction = no_tiny_polygon_reduction,
             o_no_point_dropping = no_point_dropping\<rparr>)))))))))))))"

record TileBuildPayload =
  t_collection_id :: string
  t_job_id :: string
  t_options :: TileBuildOptions
  t_is_composite :: bool

definition TileBuildPayload_to_json :: "TileBuildPayload \<Rightarrow> string" where
  "TileBuildPayload_to_json p =
     (let opts = TileBuildOptions_to_dict (t_options p) in
      dumps (JObj ([(''collection_id'', JStr (t_collection_id p)), (''job_id'', JStr (t_job_id p)),
                    (''is_composite'', JBool (t_is_composite p))]
                   @ opt_pair ''options'' (if opts = [] then None else Some (JObj opts)))))"

definition TileBuildPayload_from_json :: "string \<Rightarrow> exn + TileBuildPayload" where
  "TileBuildPayload_from_json s =
     sbind (sbind (loads s) json_obj) (\<lambda>d.
     sbind (TileBuildOptions_from_dict (jget d ''options'')) (\<lambda>opts.
     sbind (sbind (jreq d ''collection_id'') j_str) (\<lambda>collection_id.
     sbind (sbind (jreq d ''job_id'') j_str) (\<lambda>job_id.
     Inr \<lparr>t_collection_id = collection_id, t_job_id = job_id, t_options = opts,
          t_is_composite = truthy (jget d ''is_composite'')\<rparr>))))"

section \<open>Operations\<close>

definition TILE_BUILD_QUEUE_KEY :: string where
  "TILE_BUILD_QUEUE_KEY = ''geofastmap:tile_build_queue''"

definition TILE_BUILD_LATEST_PREFIX :: string where
  "TILE_BUILD_LATEST_PREFIX = ''geofastmap:tile_build_latest:''"

definition TILE_BUILD_PENDING_PREFIX :: string where
  "TILE_BUILD_PENDING_PREFIX = ''geofastmap:tile_build_pending:''"

definition TILE_BUILD_JOB_TTL :: int where
  "TILE_BUILD_JOB_TTL = 86400 * 7"

definition TILE_BUILD_PENDING_TTL :: int where
  "TILE_BUILD_PENDING_TTL = 12 * 3600"

definition latest_key :: "string \<Rightarrow> string" where
  "latest_key collection_id = TILE_BUILD_LATEST_PREFIX @ collection_id"

definition pending_key :: "string \<Rightarrow> string" where
  "pending_key collection_id = TILE_BUILD_PENDING_PREFIX @ collection_id"

definition create_tile_build_job ::
    "'s redis \<Rightarrow> settings \<Rightarrow> string \<Rightarrow> int option \<Rightarrow> (('s, 'z) jenv_scheme, jobinfo) prog" where
  "create_tile_build_job srv cfg collection_id owner_id =
     bnd (create_job srv cfg collection_id owner_id None) (\<lambda>job.
     bnd (r_set srv (latest_key collection_id) (j_job_id job) (Some TILE_BUILD_JOB_TTL) False) (\<lambda>_.
     ret job))"

definition get_tile_build_job :: "'s redis \<Rightarrow> settings \<Rightarrow> string \<Rightarrow> (('s, 'z) jenv_scheme, jobinfo option) prog" where
  "get_tile_build_job srv cfg job_id = get_job srv cfg job_id"

definition get_latest_tile_build_job ::
    "'s redis \<Rightarrow> settings \<Rightarrow> string \<Rightarrow> (('s, 'z) jenv_scheme, jobinfo option) prog" where
  "get_latest_tile_build_job srv cfg collection_id =
     bnd (r_get srv (latest_key collection_id)) (\<lambda>job_id.
     case nonempty job_id of None \<Rightarrow> ret None | Some i \<Rightarrow> get_tile_build_job srv cfg i)"

definition update_tile_build_job ::
    "'s redis \<Rightarrow> settings \<Rightarrow> string \<Rightarrow> string option \<Rightarrow> string option \<Rightarrow> (('s, 'z) jenv_scheme, jobinfo option) prog" where
  "update_tile_build_job srv cfg job_id st message =
     (let st' = (if st = Some ''building'' then Some ''running'' else if st = Some ''queued'' then Some ''pending'' else st)
      in update_job srv cfg job_id (no_update\<lparr>u_status := st', u_message := message\<rparr>))"

definition get_pending_job_id :: "'s redis \<Rightarrow> string \<Rightarrow> (('s, 'z) env_scheme, string option) prog" where
  "get_pending_job_id srv collection_id = r_get srv (pending_key collection_id)"

definition pending_ttl :: "int option \<Rightarrow> int" where
  "pending_ttl ttl_seconds = max 60 (or_else ttl_seconds TILE_BUILD_PENDING_TTL)"

definition set_pending :: "'s redis \<Rightarrow> string \<Rightarrow> string \<Rightarrow> int option \<Rightarrow> (('s, 'z) env_scheme, unit) prog" where
  "set_pending srv collection_id job_id ttl_seconds =
     bnd (r_set srv (pending_key collection_id) job_id (Some (pending_ttl ttl_seconds)) False) (\<lambda>_. ret ())"

definition refresh_pending :: "'s redis \<Rightarrow> string \<Rightarrow> string \<Rightarrow> int option \<Rightarrow> (('s, 'z) env_scheme, bool) prog" where
  "refresh_pending srv collection_id job_id ttl_seconds =
     bnd (r_get srv (pending_key collection_id)) (\<lambda>current.
     if current \<noteq> Some job_id then ret False
     else bnd (r_set srv (pending_key collection_id) job_id (Some (pending_ttl ttl_seconds)) False) (\<lambda>_. ret True))"

definition clear_pending :: "'s redis \<Rightarrow> string \<Rightarrow> (('s, 'z) env_scheme, unit) prog" where
  "clear_pending srv collection_id = bnd (r_delete srv [pending_key collection_id]) (\<lambda>_. ret ())"

text \<open>\<^verbatim>\<open>enqueue_tile_build\<close> in its two steps, between which other processes run: the look at the reservation
  and, if there is none, the reservation and the push.\<close>

definition tile_build_is_pending :: "'s redis \<Rightarrow> string \<Rightarrow> (('s, 'z) env_scheme, bool) prog" where
  "tile_build_is_pending srv collection_id =
     bnd (r_get srv (pending_key collection_id)) (\<lambda>v. ret (nonempty v \<noteq> None))"

definition push_tile_build :: "'s redis \<Rightarrow> TileBuildPayload \<Rightarrow> (('s, 'z) env_scheme, bool) prog" where
  "push_tile_build srv p =
     bnd (r_set srv (pending_key (t_collection_id p)) (t_job_id p) (Some TILE_BUILD_PENDING_TTL) False) (\<lambda>_.
     bnd (r_lpush srv TILE_BUILD_QUEUE_KEY (TileBuildPayload_to_json p)) (\<lambda>_.
     ret True))"

definition enqueue_tile_build ::
    "'s redis \<Rightarrow> settings \<Rightarrow> string \<Rightarrow> string \<Rightarrow> TileBuildOptions option \<Rightarrow> bool \<Rightarrow> (('s, 'z) env_scheme, bool) prog" where
  "enqueue_tile_build srv cfg collection_id job_id options is_composite =
     (if bulk_queue_type cfg \<noteq> ''redis'' then ret False
      else
        bnd (tile_build_is_pending srv collection_id) (\<lambda>pending.
        if pending then ret False
        else push_tile_build srv \<lparr>t_collection_id = collection_id, t_job_id = job_id,
               t_options = or_else options no_options, t_is_composite = is_composite\<rparr>))"

section \<open>Messages survive the queue\<close>

lemma j_bool_simps [json_simps]: "j_bool (JBool b) = Inr b" "j_opt j_bool (JBool b) = Inr (Some b)"
  by (simp_all add: j_bool_def j_opt_def)

lemma options_ok: "json_ok (JObj (TileBuildOptions_to_dict p))"
  unfolding TileBuildOptions_to_dict_def by (simp add: json_simps del: json_ok.simps(3)) auto

lemma options_roundtrip:
  "TileBuildOptions_from_dict (let opts = TileBuildOptions_to_dict p in if opts = [] then JNull else JObj opts) = Inr p"
proof (cases "TileBuildOptions_to_dict p = []")
  case True
  then have "p = no_options"
    by (cases p) (auto simp: TileBuildOptions_to_dict_def no_options_def opt_pair_def split: option.splits)
  with True show ?thesis by (simp add: TileBuildOptions_from_dict_def)
next
  case False
  define d where "d = TileBuildOptions_to_dict p"
  have get: "j_opt j_int (jget d ''min_zoom'') = Inr (o_min_zoom p)" "j_opt j_int (jget d ''max_zoom'') = Inr (o_max_zoom p)"
    "j_opt j_strs (jget d ''include_attributes'') = Inr (o_include_attributes p)"
    "j_opt j_strs (jget d ''exclude_attributes'') = Inr (o_exclude_attributes p)"
    "j_opt j_str (jget d ''densest'') = Inr (o_densest p)" "j_opt j_str (jget d ''smallest'') = Inr (o_smallest p)"
    "j_opt j_bool (jget d ''no_line_simplification'') = Inr (o_no_line_simplification p)"
    "j_opt j_bool (jget d ''simplify_only_low_zooms'') = Inr (o_simplify_only_low_zooms p)"
    "j_opt j_bool (jget d ''no_shared_node_simplification'') = Inr (o_no_shared_node_simplification p)"
    "j_opt j_bool (jget d ''no_tiny_polygon_reduction'') = Inr (o_no_tiny_polygon_reduction p)"
    "j_opt j_bool (jget d ''no_point_dropping'') = Inr (o_no_point_dropping p)"
    by (simp_all add: d_def TileBuildOptions_to_dict_def jget_def json_simps map_add_def split: option.split)
  with False show ?thesis
    unfolding TileBuildOptions_from_dict_def d_def [symmetric] by (simp add: json_obj_def)
qed

lemma tile_payload_roundtrip: "TileBuildPayload_from_json (TileBuildPayload_to_json p) = Inr p"
proof -
  let ?o = "TileBuildOptions_to_dict (t_options p)"
  let ?d = "[(''collection_id'', JStr (t_collection_id p)), (''job_id'', JStr (t_job_id p)), (''is_composite'', JBool (t_is_composite p))]
      @ opt_pair ''options'' (if ?o = [] then None else Some (JObj ?o))"
  have "json_ok (JObj ?d)"
    unfolding append.simps using options_ok [of "t_options p"] by (simp add: json_simps del: json_ok.simps(3))
  then have l: "loads (TileBuildPayload_to_json p) = Inr (JObj ?d)"
    by (simp only: TileBuildPayload_to_json_def Let_def loads_dumps)
  have "jget ?d ''options'' = (let opts = ?o in if opts = [] then JNull else JObj opts)"
    by (simp add: jget_def json_simps Let_def)
  with options_roundtrip [of "t_options p"] show ?thesis
    unfolding TileBuildPayload_from_json_def l by (simp add: json_obj_def jreq_def json_simps) (simp add: jget_def)
qed

section \<open>Queueing when the server answers\<close>

lemma tile_keys [simp]:
  "pending_key c \<noteq> TILE_BUILD_QUEUE_KEY" "TILE_BUILD_QUEUE_KEY \<noteq> pending_key c"
  "pending_key c = pending_key d \<longleftrightarrow> c = d"
  by (simp_all add: pending_key_def TILE_BUILD_QUEUE_KEY_def TILE_BUILD_PENDING_PREFIX_def)

context redis_up
begin

lemma enqueue_tile_new:
  fixes i :: string and opts :: "TileBuildOptions option" and cmp :: bool
  assumes "uses_redis cfg" and "as_list (view (rds w) TILE_BUILD_QUEUE_KEY) = Some (l, t)"
    and "view (rds w) (pending_key c) = None"
  defines "p \<equiv> \<lparr>t_collection_id = c, t_job_id = i, t_options = or_else opts no_options, t_is_composite = cmp\<rparr>"
  shows "fst (enqueue_tile_build srv cfg c i opts cmp w) = Inr True"
    and "view (rds (snd (enqueue_tile_build srv cfg c i opts cmp w))) =
      (view (rds w))(pending_key c \<mapsto> (RString i, Some TILE_BUILD_PENDING_TTL),
                     TILE_BUILD_QUEUE_KEY \<mapsto> (RList (TileBuildPayload_to_json p # l), t))"
  using assms(1-3) unfolding p_def
  by (simp_all add: enqueue_tile_build_def tile_build_is_pending_def push_tile_build_def uses_redis_def nonempty_def
      TILE_BUILD_PENDING_TTL_def prog_simps redis_simps)

lemma enqueue_tile_again:
  assumes "uses_redis cfg" and "view (rds w) (pending_key c) = Some (RString j, t)" and "j \<noteq> []"
  shows "fst (enqueue_tile_build srv cfg c i opts cmp w) = Inr False"
    and "view (rds (snd (enqueue_tile_build srv cfg c i opts cmp w))) = view (rds w)"
  using assms
  by (simp_all add: enqueue_tile_build_def tile_build_is_pending_def uses_redis_def nonempty_def prog_simps redis_simps)

end

section \<open>Properties\<close>

text \<open>When the server answers and requests do not interleave, a collection without a pending build is queued
  and reserved for the job, a second request for it is refused and changes nothing, a refresh by the owner
  keeps the reservation and one by another job is refused without touching it, and after the reservation is
  cleared the collection can be queued again.\<close>

theorem tile_build_queued_once:
  fixes opts opts' :: "TileBuildOptions option" and cmp cmp' :: bool
  assumes "redis_up srv view" and "uses_redis cfg" and "as_list (view (rds w) TILE_BUILD_QUEUE_KEY) = Some (l, t)"
    and "view (rds w) (pending_key c) = None" and "i \<noteq> []" and "j \<noteq> i"
  defines "w1 \<equiv> snd (enqueue_tile_build srv cfg c i opts cmp w)"
  defines "w2 \<equiv> snd (enqueue_tile_build srv cfg c j opts' cmp' w1)"
  defines "w3 \<equiv> snd (clear_pending srv c w2)"
  shows "fst (enqueue_tile_build srv cfg c i opts cmp w) = Inr True \<and>
         fst (get_pending_job_id srv c w1) = Inr (Some i) \<and>
         fst (enqueue_tile_build srv cfg c j opts' cmp' w1) = Inr False \<and> view (rds w2) = view (rds w1) \<and>
         fst (refresh_pending srv c i None w2) = Inr True \<and>
         fst (refresh_pending srv c j None w2) = Inr False \<and> view (rds (snd (refresh_pending srv c j None w2))) = view (rds w2) \<and>
         fst (enqueue_tile_build srv cfg c j opts' cmp' w3) = Inr True"
proof -
  note n = redis_up.enqueue_tile_new [OF assms(1-4), where i = i and opts = opts and cmp = cmp, folded w1_def]
  have p1: "view (rds w1) (pending_key c) = Some (RString i, Some TILE_BUILD_PENDING_TTL)" by (simp add: n(2))
  note a = redis_up.enqueue_tile_again [OF assms(1,2) p1 assms(5), where i = j and opts = opts' and cmp = cmp', folded w2_def]
  have p2: "view (rds w2) (pending_key c) = Some (RString i, Some TILE_BUILD_PENDING_TTL)" using a(2) p1 by simp
  note up = redis_up.eval_get [OF assms(1)] redis_up.eval_set [OF assms(1)] redis_up.eval_int [OF assms(1)] redis_up.up_view1 [OF assms(1)]
  have c3: "view (rds w3) (pending_key c) = None" "\<exists>l' t'. as_list (view (rds w3) TILE_BUILD_QUEUE_KEY) = Some (l', t')"
    using a(2) by (simp_all add: w3_def clear_pending_def prog_simps redis_simps up n(2))
  then obtain l' t' where "as_list (view (rds w3) TILE_BUILD_QUEUE_KEY) = Some (l', t')" by blast
  from redis_up.enqueue_tile_new(1) [OF assms(1,2) this c3(1)]
  show ?thesis
    using n(1) a p1 p2 assms(6)
    by (simp add: get_pending_job_id_def refresh_pending_def pending_ttl_def TILE_BUILD_PENDING_TTL_def prog_simps redis_simps up)
qed

theorem tile_build_queued_once_witness:
  "fst (enqueue_tile_build mem_srv default_settings ''c'' ''a'' None False (env0 [])) = Inr True"
  using tile_build_queued_once [OF mem.redis_up_axioms uses_redis_default, of "env0 []" "[]" None "''c''" "''a''" "''b''" None False]
  by (simp add: redis_simps)

text \<open>The reservation does not exclude interleaved requests: when a second request looks before the first one
  reserves, both jobs are pushed and the collection is queued twice.\<close>

theorem tile_build_race_queues_twice:
  "let p = (\<lambda>i. \<lparr>t_collection_id = ''c'', t_job_id = i, t_options = no_options, t_is_composite = False\<rparr>);
       look1 = tile_build_is_pending mem_srv ''c'' (env0 []);
       look2 = tile_build_is_pending mem_srv ''c'' (snd look1);
       push1 = push_tile_build mem_srv (p ''a'') (snd look2);
       push2 = push_tile_build mem_srv (p ''b'') (snd push1)
   in fst look1 = Inr False \<and> fst look2 = Inr False \<and> fst push1 = Inr True \<and> fst push2 = Inr True \<and>
      map_option (\<lambda>e. case fst e of RList l \<Rightarrow> length l | _ \<Rightarrow> 0) (map_of (rds (snd push2)) TILE_BUILD_QUEUE_KEY) = Some 2"
  by code_simp

end
