(* ===== verification/Process_Queue.thy ===== *)
theory Process_Queue
  imports Tile_Build_Queue
begin

text \<open>
  \<^verbatim>\<open>app/services/process_queue.py\<close>: the messages of the OGC Processes queue, the metadata kept per process
  job and the list of recent process jobs. Dicts inside a message (feature reference, GeoJSON, tile
  options) stay JSON objects, the buffer distance stays a JSON number.

  Shown: a message survives the queue up to the parts the printer leaves out, and queueing a message
  never raises, whatever the server does.
\<close>

section \<open>Messages\<close>

type_synonym dict = "(string \<times> json) list"

record ProcessJobPayload =
  p_job_id :: string
  p_process_id :: string
  p_collection_id_a :: string
  p_collection_id_b :: string
  p_feature_ref :: "dict option"
  p_feature_geojson :: "dict option"
  p_collection_ids :: "string list"
  p_feature_ids :: "string list"
  p_buffer_distance_degrees :: "json option"
  p_group_by_property :: "string option"
  p_measure_op :: "string option"
  p_measure_unit :: "string option"
  p_measure_field :: "string option"
  p_queue_compute_tiles :: bool
  p_tile_build_options :: "dict option"
  p_result_collection_id :: "string option"
  p_update_existing :: bool

definition ProcessJobPayload_to_json :: "ProcessJobPayload \<Rightarrow> string" where
  "ProcessJobPayload_to_json p = dumps (JObj (
     [(''job_id'', JStr (p_job_id p)),
      (''process_id'', JStr (p_process_id p)),
      (''collection_id_a'', JStr (p_collection_id_a p)),
      (''collection_id_b'', JStr (p_collection_id_b p))]
     @ opt_pair ''collection_ids'' (if p_collection_ids p = [] then None else Some (JStrs (p_collection_ids p)))
     @ opt_pair ''feature_ref''
         (if p_collection_ids p = [] then None else map_option JObj (nonempty (p_feature_ref p)))
     @ opt_pair ''feature_geojson''
         (if p_collection_ids p = [] then None else map_option JObj (nonempty (p_feature_geojson p)))
     @ opt_pair ''feature_ids'' (if p_feature_ids p = [] then None else Some (JStrs (p_feature_ids p)))
     @ opt_pair ''buffer_distance_degrees'' (p_buffer_distance_degrees p)
     @ opt_pair ''group_by_property'' (map_option JStr (p_group_by_property p))
     @ opt_pair ''measure_op'' (map_option JStr (p_measure_op p))
     @ opt_pair ''measure_unit'' (map_option JStr (p_measure_unit p))
     @ opt_pair ''measure_field'' (map_option JStr (p_measure_field p))
     @ opt_pair ''queue_compute_tiles'' (if p_queue_compute_tiles p then None else Some (JBool False))
     @ opt_pair ''tile_build_options'' (map_option JObj (nonempty (p_tile_build_options p)))
     @ opt_pair ''result_collection_id'' (map_option JStr (nonempty (p_result_collection_id p)))
     @ opt_pair ''update_existing'' (if p_update_existing p then Some (JBool True) else None)))"

definition j_num :: "json \<Rightarrow> exn + json" where
  "j_num v = (case v of JInt i \<Rightarrow> Inr v | JDec s n f \<Rightarrow> Inr v | _ \<Rightarrow> Inl TypeError)"

definition strs_or_empty :: "json \<Rightarrow> exn + string list" where
  "strs_or_empty v = (if truthy v then j_strs v else Inr [])"

definition ProcessJobPayload_from_json :: "string \<Rightarrow> exn + ProcessJobPayload" where
  "ProcessJobPayload_from_json s =
     sbind (sbind (loads s) json_obj) (\<lambda>d.
     sbind (sbind (jreq d ''job_id'') j_str) (\<lambda>job_id.
     sbind (sbind (jreq d ''process_id'') j_str) (\<lambda>process_id.
     sbind (j_str (jget_default d ''collection_id_a'' (JStr []))) (\<lambda>collection_id_a.
     sbind (j_str (jget_default d ''collection_id_b'' (JStr []))) (\<lambda>collection_id_b.
     sbind (j_opt json_obj (jget d ''feature_ref'')) (\<lambda>feature_ref.
     sbind (j_opt json_obj (jget d ''feature_geojson'')) (\<lambda>feature_geojson.
     sbind (strs_or_empty (jget d ''collection_ids'')) (\<lambda>collection_ids.
     sbind (strs_or_empty (jget d ''feature_ids'')) (\<lambda>feature_ids.
     sbind (j_opt j_num (jget d ''buffer_distance_degrees'')) (\<lambda>buffer_distance_degrees.
     sbind (j_opt j_str (jget d ''group_by_property'')) (\<lambda>group_by_property.
     sbind (j_opt j_str (jget d ''measure_op'')) (\<lambda>measure_op.
     sbind (j_opt j_str (jget d ''measure_unit'')) (\<lambda>measure_unit.
     sbind (j_opt j_str (jget d ''measure_field'')) (\<lambda>measure_field.
     sbind (j_bool (jget_default d ''queue_compute_tiles'' (JBool True))) (\<lambda>queue_compute_tiles.
     sbind (j_opt json_obj (jget d ''tile_build_options'')) (\<lambda>tile_build_options.
     sbind (j_opt j_str (jget d ''result_collection_id'')) (\<lambda>result_collection_id.
     sbind (j_bool (jget_default d ''update_existing'' (JBool False))) (\<lambda>update_existing.
     Inr \<lparr>p_job_id = job_id, p_process_id = process_id, p_collection_id_a = collection_id_a,
          p_collection_id_b = collection_id_b, p_feature_ref = feature_ref, p_feature_geojson = feature_geojson,
          p_collection_ids = collection_ids, p_feature_ids = feature_ids,
          p_buffer_distance_degrees = buffer_distance_degrees, p_group_by_property = group_by_property,
          p_measure_op = measure_op, p_measure_unit = measure_unit, p_measure_field = measure_field,
          p_queue_compute_tiles = queue_compute_tiles, p_tile_build_options = tile_build_options,
          p_result_collection_id = result_collection_id, p_update_existing = update_existing\<rparr>))))))))))))))))))"

definition is_feature_vs_layers :: "ProcessJobPayload \<Rightarrow> bool" where
  "is_feature_vs_layers p \<longleftrightarrow>
     p_collection_ids p \<noteq> [] \<and> (nonempty (p_feature_ref p) \<noteq> None \<or> nonempty (p_feature_geojson p) \<noteq> None)"

section \<open>Metadata and queue\<close>

definition PROCESS_QUEUE_KEY :: string where
  "PROCESS_QUEUE_KEY = ''geofastmap:process_queue''"

definition PROCESS_JOB_IDS_KEY :: string where
  "PROCESS_JOB_IDS_KEY = ''geofastmap:process_job_ids''"

definition PROCESS_JOB_META_PREFIX :: string where
  "PROCESS_JOB_META_PREFIX = ''geofastmap:process_job_meta:''"

definition meta_key :: "string \<Rightarrow> string" where
  "meta_key job_id = PROCESS_JOB_META_PREFIX @ job_id"

definition meta_mapping ::
    "string \<Rightarrow> string \<Rightarrow> string \<Rightarrow> string \<Rightarrow> string list option \<Rightarrow> string \<Rightarrow> string option \<Rightarrow> string option \<Rightarrow> bool \<Rightarrow>
     (string \<times> string) list" where
  "meta_mapping job_id process_id a b collection_ids feature_source feature_id result_collection_id update_existing =
     [(''job_id'', job_id), (''process_id'', process_id), (''collection_id_a'', a), (''collection_id_b'', b)]
     @ (case collection_ids of None \<Rightarrow> [] | Some xs \<Rightarrow> [(''collection_ids'', dumps (JStrs xs))])
     @ (if feature_source = [] then [] else [(''feature_source'', take 500 feature_source)])
     @ (case nonempty feature_id of None \<Rightarrow> [] | Some i \<Rightarrow> [(''feature_id'', take 200 i)])
     @ (case nonempty result_collection_id of None \<Rightarrow> [] | Some r \<Rightarrow> [(''result_collection_id'', take 200 r)])
     @ (if update_existing then [(''update_existing'', ''1'')] else [])"

definition store_process_job_meta ::
    "'s redis \<Rightarrow> settings \<Rightarrow> string \<Rightarrow> string \<Rightarrow> string \<Rightarrow> string \<Rightarrow> string list option \<Rightarrow> string \<Rightarrow> string option \<Rightarrow>
     string option \<Rightarrow> bool \<Rightarrow> (('s, 'z) env_scheme, unit) prog" where
  "store_process_job_meta srv cfg job_id process_id a b collection_ids feature_source feature_id result_collection_id update_existing =
     (if process_queue_type cfg \<noteq> ''redis'' then ret ()
      else catch
        (bnd (r_hset srv (meta_key job_id)
           (meta_mapping job_id process_id a b collection_ids feature_source feature_id result_collection_id update_existing)) (\<lambda>_.
         bnd (r_expire srv (meta_key job_id) (86400 * 7)) (\<lambda>_.
         bnd (r_lpush srv PROCESS_JOB_IDS_KEY job_id) (\<lambda>_.
         bnd (r_ltrim srv PROCESS_JOB_IDS_KEY 0 99) (\<lambda>_.
         bnd (r_expire srv PROCESS_JOB_IDS_KEY (86400 * 7)) (\<lambda>_. ret ()))))))
        (\<lambda>_. ret ()))"

definition decode_meta :: "(string \<times> string) list \<Rightarrow> dict" where
  "decode_meta raw = map (\<lambda>(k, v).
     (k, if k = ''collection_ids'' then (case loads v of Inl _ \<Rightarrow> JArr [] | Inr j \<Rightarrow> j) else JStr v)) raw"

definition get_process_job_meta :: "'s redis \<Rightarrow> settings \<Rightarrow> string \<Rightarrow> (('s, 'z) env_scheme, dict option) prog" where
  "get_process_job_meta srv cfg job_id =
     (if process_queue_type cfg \<noteq> ''redis'' then ret None
      else catch
        (bnd (r_hgetall srv (meta_key job_id)) (\<lambda>raw. ret (if raw = [] then None else Some (decode_meta raw))))
        (\<lambda>_. ret None))"

definition set_process_job_result :: "'s redis \<Rightarrow> settings \<Rightarrow> string \<Rightarrow> string \<Rightarrow> (('s, 'z) env_scheme, unit) prog" where
  "set_process_job_result srv cfg job_id result_collection_id =
     (if process_queue_type cfg \<noteq> ''redis'' then ret ()
      else catch (bnd (r_hset srv (meta_key job_id) [(''result_collection_id'', result_collection_id)]) (\<lambda>_. ret ()))
        (\<lambda>_. ret ()))"

definition list_process_job_ids :: "'s redis \<Rightarrow> settings \<Rightarrow> int \<Rightarrow> (('s, 'z) env_scheme, string list) prog" where
  "list_process_job_ids srv cfg limit =
     (if process_queue_type cfg \<noteq> ''redis'' then ret []
      else catch (r_lrange srv PROCESS_JOB_IDS_KEY 0 (limit - 1)) (\<lambda>_. ret []))"

definition feature_source :: "ProcessJobPayload \<Rightarrow> exn + string" where
  "feature_source p =
     (case nonempty (p_feature_ref p) of
        None \<Rightarrow> Inr ''GeoJSON''
      | Some d \<Rightarrow>
          sbind (j_str (jget_default d ''collection_id'' (JStr []))) (\<lambda>c.
          sbind (j_str (jget_default d ''feature_id'' (JStr []))) (\<lambda>f.
          Inr (''reference '' @ c @ ''/'' @ f))))"

definition feature_ref_id :: "ProcessJobPayload \<Rightarrow> exn + string option" where
  "feature_ref_id p =
     (case nonempty (p_feature_ref p) of None \<Rightarrow> Inr None | Some d \<Rightarrow> j_opt j_str (jget d ''feature_id''))"

definition enqueue_process_job :: "'s redis \<Rightarrow> settings \<Rightarrow> ProcessJobPayload \<Rightarrow> (('s, 'z) env_scheme, bool) prog" where
  "enqueue_process_job srv cfg p =
     (if process_queue_type cfg \<noteq> ''redis'' then ret False
      else
        bnd (catch (bnd (run_redis_retry cfg None (r_lpush srv PROCESS_QUEUE_KEY (ProcessJobPayload_to_json p))) (\<lambda>_. ret True))
               (\<lambda>_. ret False)) (\<lambda>pushed.
        if \<not> pushed then ret False
        else
          bnd (if is_feature_vs_layers p then
                 bnd (lift_exn (feature_source p)) (\<lambda>src.
                 bnd (lift_exn (feature_ref_id p)) (\<lambda>fid.
                 store_process_job_meta srv cfg (p_job_id p) (p_process_id p) [] [] (Some (p_collection_ids p)) src fid
                   (p_result_collection_id p) (p_update_existing p)))
               else
                 store_process_job_meta srv cfg (p_job_id p) (p_process_id p) (p_collection_id_a p) (p_collection_id_b p) None [] None
                   (p_result_collection_id p) (p_update_existing p)) (\<lambda>_.
          ret True)))"

section \<open>Messages survive the queue\<close>

text \<open>Documents Python can hold: every embedded dict has distinct keys and the distance is a number.\<close>

definition payload_ok :: "ProcessJobPayload \<Rightarrow> bool" where
  "payload_ok p \<longleftrightarrow> pred_option (\<lambda>d. json_ok (JObj d)) (p_feature_ref p) \<and>
     pred_option (\<lambda>d. json_ok (JObj d)) (p_feature_geojson p) \<and>
     pred_option (\<lambda>d. json_ok (JObj d)) (p_tile_build_options p) \<and>
     pred_option (\<lambda>v. json_ok v \<and> j_num v = Inr v) (p_buffer_distance_degrees p)"

definition as_sent :: "ProcessJobPayload \<Rightarrow> ProcessJobPayload" where
  "as_sent p = p\<lparr>p_feature_ref := if p_collection_ids p = [] then None else nonempty (p_feature_ref p),
     p_feature_geojson := if p_collection_ids p = [] then None else nonempty (p_feature_geojson p),
     p_tile_build_options := nonempty (p_tile_build_options p),
     p_result_collection_id := nonempty (p_result_collection_id p)\<rparr>"

lemma j_opt_obj [json_simps]: "j_opt json_obj (JObj d) = Inr (Some d)"
  by (simp add: j_opt_def json_obj_def)

lemma truthy_JStrs [simp]: "truthy (JStrs xs) \<longleftrightarrow> xs \<noteq> []"
  by (simp add: JStrs_def)

lemma nonempty_pred: "pred_option P x \<Longrightarrow> nonempty x = Some v \<Longrightarrow> P v"
  by (auto simp: nonempty_def split: option.splits if_splits)

lemma j_opt_num: "pred_option (\<lambda>v. json_ok v \<and> j_num v = Inr v) x \<Longrightarrow> j_opt j_num (case x of None \<Rightarrow> JNull | Some v \<Rightarrow> v) = Inr x"
  by (cases x) (auto simp: j_opt_def j_num_def split: json.splits)

lemma process_payload_roundtrip:
  assumes "payload_ok p"
  shows "ProcessJobPayload_from_json (ProcessJobPayload_to_json p) = Inr (as_sent p)"
proof -
  let ?d = "[(''job_id'', JStr (p_job_id p)),
      (''process_id'', JStr (p_process_id p)),
      (''collection_id_a'', JStr (p_collection_id_a p)),
      (''collection_id_b'', JStr (p_collection_id_b p))]
     @ opt_pair ''collection_ids'' (if p_collection_ids p = [] then None else Some (JStrs (p_collection_ids p)))
     @ opt_pair ''feature_ref''
         (if p_collection_ids p = [] then None else map_option JObj (nonempty (p_feature_ref p)))
     @ opt_pair ''feature_geojson''
         (if p_collection_ids p = [] then None else map_option JObj (nonempty (p_feature_geojson p)))
     @ opt_pair ''feature_ids'' (if p_feature_ids p = [] then None else Some (JStrs (p_feature_ids p)))
     @ opt_pair ''buffer_distance_degrees'' (p_buffer_distance_degrees p)
     @ opt_pair ''group_by_property'' (map_option JStr (p_group_by_property p))
     @ opt_pair ''measure_op'' (map_option JStr (p_measure_op p))
     @ opt_pair ''measure_unit'' (map_option JStr (p_measure_unit p))
     @ opt_pair ''measure_field'' (map_option JStr (p_measure_field p))
     @ opt_pair ''queue_compute_tiles'' (if p_queue_compute_tiles p then None else Some (JBool False))
     @ opt_pair ''tile_build_options'' (map_option JObj (nonempty (p_tile_build_options p)))
     @ opt_pair ''result_collection_id'' (map_option JStr (nonempty (p_result_collection_id p)))
     @ opt_pair ''update_existing'' (if p_update_existing p then Some (JBool True) else None)"
  have ok: "pred_option (\<lambda>d. json_ok (JObj d)) (p_feature_ref p)" "pred_option (\<lambda>d. json_ok (JObj d)) (p_feature_geojson p)"
    "pred_option (\<lambda>d. json_ok (JObj d)) (p_tile_build_options p)"
    and num: "pred_option (\<lambda>v. json_ok v \<and> j_num v = Inr v) (p_buffer_distance_degrees p)"
    using assms by (simp_all add: payload_ok_def)
  note okd = nonempty_pred [OF ok(1)] nonempty_pred [OF ok(2)] nonempty_pred [OF ok(3)]
  have "json_ok (JObj ?d)"
    unfolding append.simps using okd num
    by (simp add: json_simps del: json_ok.simps(3)) (auto simp del: json_ok.simps(3) split: if_splits)
  then have l: "loads (ProcessJobPayload_to_json p) = Inr (JObj ?d)"
    by (simp only: ProcessJobPayload_to_json_def loads_dumps)
  define d where "d = ?d"
  have req: "jreq d ''job_id'' = Inr (JStr (p_job_id p))" "jreq d ''process_id'' = Inr (JStr (p_process_id p))"
    "jget_default d ''collection_id_a'' (JStr []) = JStr (p_collection_id_a p)"
    "jget_default d ''collection_id_b'' (JStr []) = JStr (p_collection_id_b p)"
    "jget_default d ''queue_compute_tiles'' (JBool True) = JBool (p_queue_compute_tiles p)"
    "jget_default d ''update_existing'' (JBool False) = JBool (p_update_existing p)"
    by (simp_all add: d_def jreq_def jget_default_def json_simps map_add_def split: option.split)
  have strs: "strs_or_empty (jget d ''collection_ids'') = Inr (p_collection_ids p)"
    "strs_or_empty (jget d ''feature_ids'') = Inr (p_feature_ids p)"
    by (simp_all add: d_def jget_def strs_or_empty_def json_simps map_add_def split: option.split)
  have objs: "j_opt json_obj (jget d ''feature_ref'') = Inr (if p_collection_ids p = [] then None else nonempty (p_feature_ref p))"
    "j_opt json_obj (jget d ''feature_geojson'') = Inr (if p_collection_ids p = [] then None else nonempty (p_feature_geojson p))"
    "j_opt json_obj (jget d ''tile_build_options'') = Inr (nonempty (p_tile_build_options p))"
    by (simp_all add: d_def jget_def json_simps map_add_def split: option.split)
  have texts: "j_opt j_str (jget d ''group_by_property'') = Inr (p_group_by_property p)"
    "j_opt j_str (jget d ''measure_op'') = Inr (p_measure_op p)" "j_opt j_str (jget d ''measure_unit'') = Inr (p_measure_unit p)"
    "j_opt j_str (jget d ''measure_field'') = Inr (p_measure_field p)"
    "j_opt j_str (jget d ''result_collection_id'') = Inr (nonempty (p_result_collection_id p))"
    by (simp_all add: d_def jget_def json_simps map_add_def split: option.split)
  have "jget d ''buffer_distance_degrees'' = (case p_buffer_distance_degrees p of None \<Rightarrow> JNull | Some v \<Rightarrow> v)"
    by (simp add: d_def jget_def json_simps map_add_def split: option.split)
  with j_opt_num [OF num] have buf: "j_opt j_num (jget d ''buffer_distance_degrees'') = Inr (p_buffer_distance_degrees p)" by simp
  show ?thesis
    unfolding ProcessJobPayload_from_json_def l sbind_simps json_obj_def json.case d_def [symmetric]
    by (simp only: json_obj_def [symmetric] req strs objs texts buf sbind_simps j_simps j_bool_simps) (simp add: as_sent_def)
qed

section \<open>Properties\<close>

definition example_process :: ProcessJobPayload where
  "example_process = \<lparr>p_job_id = ''j'', p_process_id = ''buffer'', p_collection_id_a = ''a'', p_collection_id_b = [],
     p_feature_ref = None, p_feature_geojson = None, p_collection_ids = [], p_feature_ids = [''f1''],
     p_buffer_distance_degrees = Some (JDec False 0 ''25''), p_group_by_property = None, p_measure_op = None,
     p_measure_unit = None, p_measure_field = None, p_queue_compute_tiles = True, p_tile_build_options = None,
     p_result_collection_id = None, p_update_existing = False\<rparr>"

text \<open>Queueing a process job never raises, whatever the server does, as long as a feature reference names its
  collection and feature by text; and it reports success only if the push was answered.\<close>

theorem process_enqueue_never_raises:
  assumes "\<not> isl (feature_source p)" and "\<not> isl (feature_ref_id p)"
  shows "\<not> isl (fst (enqueue_process_job srv cfg p w)) \<and>
         (fst (enqueue_process_job srv cfg p w) = Inr True \<longrightarrow>
            \<not> isl (fst (run_redis_retry cfg None (r_lpush srv PROCESS_QUEUE_KEY (ProcessJobPayload_to_json p)) w)))"
proof -
  obtain src fid where s: "feature_source p = Inr src" "feature_ref_id p = Inr fid"
    using assms by (metis isl_def sum.exhaust_sel)
  have meta: "fst (store_process_job_meta srv cfg i q a b c f g r u v) = Inr ()" for i q a b c f g r u v
    by (simp add: store_process_job_meta_def prog_simps split: sum.split)
  show ?thesis
    by (simp add: enqueue_process_job_def prog_simps s meta split: sum.split)
qed

theorem process_enqueue_never_raises_witness:
  "\<not> isl (fst (enqueue_process_job flaky_srv default_settings example_process (env0 (99, []))))"
proof -
  have "\<not> isl (feature_source example_process)" "\<not> isl (feature_ref_id example_process)" by code_simp+
  from process_enqueue_never_raises [OF this] show ?thesis by blast
qed

end
