(* ===== verification/Upload_Sessions.thy ===== *)
theory Upload_Sessions
  imports Process_Queue
begin

text \<open>
  \<^verbatim>\<open>app/services/bulk_upload_sessions.py\<close>: the session of a chunked upload, one JSON document per session in
  Redis, read, changed and written back as a whole.

  Shown: when the server answers and requests do not interleave, the parts recorded are exactly those
  uploaded, sorted and without repetition, in whatever order they came. The read and the write are separate
  requests (\<^verbatim>\<open>prepare_part\<close> and \<^verbatim>\<open>update_upload_session\<close>), so two parts recorded at the same time can
  overwrite each other.
\<close>

section \<open>Definitions\<close>

definition UPLOAD_SESSION_PREFIX :: string where
  "UPLOAD_SESSION_PREFIX = ''geofastmap:bulk_upload_session:''"

definition session_key :: "string \<Rightarrow> string" where
  "session_key upload_id = UPLOAD_SESSION_PREFIX @ upload_id"

definition dict_update :: "dict \<Rightarrow> dict \<Rightarrow> dict" where
  "dict_update d patch = foldl (\<lambda>d (k, v). AList.update k v d) d patch"

definition write_session ::
    "'s redis \<Rightarrow> settings \<Rightarrow> string \<Rightarrow> dict \<Rightarrow> (('s, 'z) env_scheme, unit) prog" where
  "write_session srv cfg upload_id s =
     run_redis_retry cfg None
       (bnd (r_set srv (session_key upload_id) (dumps_compact (JObj s)) (Some (bulk_upload_session_ttl_seconds cfg)) False)
         (\<lambda>_. ret ()))"

definition new_session ::
    "string \<Rightarrow> string \<Rightarrow> string \<Rightarrow> int option \<Rightarrow> string \<Rightarrow> string \<Rightarrow> int \<Rightarrow> bool \<Rightarrow> string \<Rightarrow> dict" where
  "new_session upload_id now collection_id owner_id filename mode batch_size queue_compute_tiles upload_kind =
     [(''upload_id'', JStr upload_id),
      (''collection_id'', JStr collection_id),
      (''owner_id'', opt_json JInt owner_id),
      (''filename'', JStr filename),
      (''mode'', JStr mode),
      (''batch_size'', JInt batch_size),
      (''queue_compute_tiles'', JBool queue_compute_tiles),
      (''created_at'', JStr now),
      (''updated_at'', JStr now),
      (''status'', JStr ''pending_parts''),
      (''parts'', JArr []),
      (''upload_kind'', JStr upload_kind)]"

definition create_upload_session ::
    "'s redis \<Rightarrow> settings \<Rightarrow> string \<Rightarrow> int option \<Rightarrow> string \<Rightarrow> string \<Rightarrow> int \<Rightarrow> bool \<Rightarrow> string \<Rightarrow> dict option \<Rightarrow>
     (('s, 'z) env_scheme, dict) prog" where
  "create_upload_session srv cfg collection_id owner_id filename mode batch_size queue_compute_tiles upload_kind extra =
     bnd uuid4 (\<lambda>upload_id. bnd utcnow (\<lambda>t.
       let payload = dict_update
             (new_session upload_id (iso_z t) collection_id owner_id filename mode batch_size queue_compute_tiles upload_kind)
             (or_else (nonempty extra) []) in
       bnd (write_session srv cfg upload_id payload) (\<lambda>_. ret payload)))"

definition get_upload_session :: "'s redis \<Rightarrow> settings \<Rightarrow> string \<Rightarrow> (('s, 'z) env_scheme, json option) prog" where
  "get_upload_session srv cfg upload_id =
     bnd (run_redis_retry cfg None (r_get srv (session_key upload_id))) (\<lambda>raw.
     ret (case nonempty raw of None \<Rightarrow> None | Some s \<Rightarrow> (case loads s of Inl _ \<Rightarrow> None | Inr j \<Rightarrow> Some j)))"

text \<open>A session that is missing or falsy counts as absent; a document that is not a dict has no fields.\<close>

definition the_session :: "json option \<Rightarrow> exn + dict option" where
  "the_session x = (case x of None \<Rightarrow> Inr None
     | Some j \<Rightarrow> if truthy j then sbind (json_obj j) (\<lambda>d. Inr (Some d)) else Inr None)"

definition update_upload_session ::
    "'s redis \<Rightarrow> settings \<Rightarrow> string \<Rightarrow> dict \<Rightarrow> (('s, 'z) env_scheme, dict option) prog" where
  "update_upload_session srv cfg upload_id patch =
     bnd (get_upload_session srv cfg upload_id) (\<lambda>j.
     bnd (lift_exn (the_session j)) (\<lambda>found.
     case found of
       None \<Rightarrow> ret None
     | Some s \<Rightarrow>
         bnd utcnow (\<lambda>t.
         let s' = dict_update s (patch @ [(''updated_at'', JStr (iso_z t))]) in
         bnd (write_session srv cfg upload_id s') (\<lambda>_. ret (Some s')))))"

definition add_part :: "dict \<Rightarrow> int \<Rightarrow> exn + dict" where
  "add_part s part_no =
     (let old = jget s ''parts'' in
      sbind (if truthy old then (case old of JArr xs \<Rightarrow> j_list json_int xs | _ \<Rightarrow> Inl TypeError) else Inr []) (\<lambda>xs.
      Inr (dict_update s
        [(''parts'', JArr (map JInt (sort (remdups (part_no # xs))))), (''status'', JStr ''pending_parts'')])))"

text \<open>The first half of \<^verbatim>\<open>add_uploaded_part\<close>: read the session and compute the changed one.\<close>

definition prepare_part :: "'s redis \<Rightarrow> settings \<Rightarrow> string \<Rightarrow> int \<Rightarrow> (('s, 'z) env_scheme, dict option) prog" where
  "prepare_part srv cfg upload_id part_no =
     bnd (get_upload_session srv cfg upload_id) (\<lambda>j.
     bnd (lift_exn (the_session j)) (\<lambda>found.
     case found of
       None \<Rightarrow> ret None
     | Some s \<Rightarrow> bnd (lift_exn (add_part s part_no)) (\<lambda>s'. ret (Some s'))))"

definition add_uploaded_part :: "'s redis \<Rightarrow> settings \<Rightarrow> string \<Rightarrow> int \<Rightarrow> (('s, 'z) env_scheme, dict option) prog" where
  "add_uploaded_part srv cfg upload_id part_no =
     bnd (prepare_part srv cfg upload_id part_no) (\<lambda>r.
     case r of None \<Rightarrow> ret None | Some s \<Rightarrow> update_upload_session srv cfg upload_id s)"

definition delete_upload_session :: "'s redis \<Rightarrow> settings \<Rightarrow> string \<Rightarrow> (('s, 'z) env_scheme, unit) prog" where
  "delete_upload_session srv cfg upload_id =
     bnd (run_redis_retry cfg None (r_delete srv [session_key upload_id])) (\<lambda>_. ret ())"

section \<open>Lemmas\<close>

lemma dict_update_simps [simp]:
  "dict_update d [] = d" "dict_update d ((k, v) # ps) = dict_update (AList.update k v d) ps"
  by (simp_all add: dict_update_def)

lemma json_ok_update:
  assumes "json_ok (JObj d)" and "json_ok v"
  shows "json_ok (JObj (AList.update k v d))"
proof -
  have "\<forall>p\<in>set d. json_ok (snd p) \<Longrightarrow> \<forall>p\<in>set (AList.update k v d). json_ok (snd p)"
    using assms(2) by (induction d) (auto split: if_splits)
  with assms show ?thesis by (simp add: distinct_update)
qed

lemma json_ok_dict_update_list:
  "json_ok (JObj d) \<Longrightarrow> (\<And>k v. (k, v) \<in> set ps \<Longrightarrow> json_ok v) \<Longrightarrow> json_ok (JObj (dict_update d ps))"
proof (induction ps arbitrary: d)
  case (Cons p ps)
  obtain k v where p: "p = (k, v)" by (cases p)
  then have "json_ok v" using Cons.prems(2) by auto
  then have "json_ok (JObj (dict_update (AList.update k v d) ps))"
    using Cons.prems(2) by (intro Cons.IH json_ok_update [OF Cons.prems(1)]) auto
  then show ?case using p by simp
qed simp

lemma map_of_rev_distinct: "distinct (map fst s) \<Longrightarrow> map_of (rev s) = map_of s"
  by (rule map_of_inject_set [THEN iffD2]) (simp_all add: rev_map [symmetric])

lemma map_of_dict_update: "map_of (dict_update d ps) k = (map_of d ++ map_of (rev ps)) k"
proof (induction ps arbitrary: d)
  case (Cons p ps)
  obtain k' v where p: "p = (k', v)" by (cases p)
  show ?case using Cons.IH [of "AList.update k' v d"] p by (auto simp: map_add_def split: option.split)
qed simp

definition session_is :: "store \<Rightarrow> string \<Rightarrow> dict \<Rightarrow> bool" where
  "session_is st i d \<longleftrightarrow> (\<exists>t. st (session_key i) = Some (RString (dumps_compact (JObj d)), t)) \<and> json_ok (JObj d) \<and> d \<noteq> []"

definition parts_are :: "dict \<Rightarrow> int list \<Rightarrow> bool" where
  "parts_are d xs \<longleftrightarrow> map_of d ''parts'' = Some (JArr (map JInt xs))"

lemma dumps_compact_nonempty [simp]: "dumps_compact (JObj d) \<noteq> []"
  by (simp add: dumps_compact_def)

lemma dict_update_nonempty: "d \<noteq> [] \<Longrightarrow> dict_update d ps \<noteq> []"
proof (induction ps arbitrary: d)
  case (Cons p ps)
  obtain k v where p: "p = (k, v)" by (cases p)
  have "AList.update k v d \<noteq> []" by (cases d) auto
  then show ?case using Cons.IH p by simp
qed simp

lemma add_part_parts:
  assumes "parts_are s xs" and "json_ok (JObj s)" and "s \<noteq> []"
  obtains s' where "add_part s n = Inr s'" "parts_are s' (sort (remdups (n # xs)))" "json_ok (JObj s')" "s' \<noteq> []"
proof -
  have j: "j_list json_int (map JInt xs) = Inr xs" by (rule j_list_map) (simp add: json_simps)
  let ?s = "dict_update s [(''parts'', JArr (map JInt (sort (remdups (n # xs))))), (''status'', JStr ''pending_parts'')]"
  have "add_part s n = Inr ?s"
    using assms(1) j by (cases "xs = []") (simp_all add: add_part_def parts_are_def jget_def)
  moreover have "parts_are ?s (sort (remdups (n # xs)))"
    by (simp only: parts_are_def map_of_dict_update) simp
  moreover have "json_ok (JObj ?s)" by (rule json_ok_dict_update_list [OF assms(2)]) auto
  moreover have "?s \<noteq> []" using assms(3) by (rule dict_update_nonempty)
  ultimately show ?thesis using that by blast
qed

context redis_up
begin

lemma get_session_eval:
  assumes "session_is (view (rds w)) i d"
  shows "fst (get_upload_session srv cfg i w) = Inr (Some (JObj d))"
    and "view (rds (snd (get_upload_session srv cfg i w))) = view (rds w)"
proof -
  obtain t where t: "view (rds w) (session_key i) = Some (RString (dumps_compact (JObj d)), t)" and ok: "json_ok (JObj d)"
    using assms by (auto simp: session_is_def simp del: json_ok.simps(3))
  show "fst (get_upload_session srv cfg i w) = Inr (Some (JObj d))"
    using t loads_dumps_compact [OF ok] by (simp add: get_upload_session_def prog_simps redis_simps nonempty_def)
  show "view (rds (snd (get_upload_session srv cfg i w))) = view (rds w)"
    using t by (simp add: get_upload_session_def prog_simps redis_simps)
qed

lemma update_session_eval:
  assumes "session_is (view (rds w)) i d" and "0 < bulk_upload_session_ttl_seconds cfg"
    and "json_ok (JObj s)" and "s \<noteq> []" and "parts_are s xs"
  obtains d' where "fst (update_upload_session srv cfg i s w) = Inr (Some d')" "parts_are d' xs"
    "session_is (view (rds (snd (update_upload_session srv cfg i s w)))) i d'"
proof -
  note g = get_session_eval [OF assms(1), of cfg]
  define w1 where "w1 = snd (get_upload_session srv cfg i w)"
  let ?d = "dict_update d (s @ [(''updated_at'', JStr (iso_z (clock w1 (ticks w1))))])"
  have ok: "json_ok (JObj d)" "d \<noteq> []" using assms(1) by (auto simp: session_is_def simp del: json_ok.simps(3))
  have okd: "json_ok (JObj ?d)"
    using assms(3) by (intro json_ok_dict_update_list [OF ok(1)]) fastforce
  have p: "parts_are ?d xs"
  proof -
    have "distinct (map fst s)" using assms(3) by simp
    then have "map_of (rev s) ''parts'' = map_of s ''parts''" by (simp add: map_of_rev_distinct)
    then show ?thesis using assms(5) by (simp add: parts_are_def map_of_dict_update map_add_def)
  qed
  have "fst (update_upload_session srv cfg i s w) = Inr (Some ?d) \<and>
      session_is (view (rds (snd (update_upload_session srv cfg i s w)))) i ?d"
    using g ok assms(2) okd dict_update_nonempty [OF ok(2)]
    by (simp add: update_upload_session_def write_session_def the_session_def json_obj_def session_is_def w1_def
        prog_simps redis_simps Let_def del: json_ok.simps(3))
  then show ?thesis using that p by blast
qed

lemma add_uploaded_part_eval:
  assumes "session_is (view (rds w)) i d" and "parts_are d xs" and "0 < bulk_upload_session_ttl_seconds cfg"
  obtains d' where "fst (add_uploaded_part srv cfg i n w) = Inr (Some d')" "parts_are d' (sort (remdups (n # xs)))"
    "session_is (view (rds (snd (add_uploaded_part srv cfg i n w)))) i d'"
proof -
  have ok: "json_ok (JObj d)" "d \<noteq> []" using assms(1) by (auto simp: session_is_def simp del: json_ok.simps(3))
  obtain s where s: "add_part d n = Inr s" "parts_are s (sort (remdups (n # xs)))" "json_ok (JObj s)" "s \<noteq> []"
    using add_part_parts [OF assms(2) ok] .
  note g = get_session_eval [OF assms(1), of cfg]
  define w1 where "w1 = snd (prepare_part srv cfg i n w)"
  have p: "fst (prepare_part srv cfg i n w) = Inr (Some s)" "view (rds w1) = view (rds w)"
    using g s(1) ok(2) by (simp_all add: w1_def prepare_part_def the_session_def json_obj_def prog_simps)
  have "session_is (view (rds w1)) i d" using assms(1) p(2) by simp
  from update_session_eval [OF this assms(3) s(3,4,2)] obtain d' where
    "fst (update_upload_session srv cfg i s w1) = Inr (Some d')" "parts_are d' (sort (remdups (n # xs)))"
    "session_is (view (rds (snd (update_upload_session srv cfg i s w1)))) i d'" by blast
  moreover have "add_uploaded_part srv cfg i n w = update_upload_session srv cfg i s w1"
    using p(1) by (simp add: add_uploaded_part_def bnd_def w1_def)
  ultimately show ?thesis using that by simp
qed

end

text \<open>Uploading several parts one after the other.\<close>

fun upload_parts :: "'s redis \<Rightarrow> settings \<Rightarrow> string \<Rightarrow> int list \<Rightarrow> (('s, 'z) env_scheme, unit) prog" where
  "upload_parts srv cfg i [] = ret ()"
| "upload_parts srv cfg i (n # ns) = bnd (add_uploaded_part srv cfg i n) (\<lambda>_. upload_parts srv cfg i ns)"

lemma sort_remdups_conv: "sort (remdups xs) = sorted_list_of_set (set xs)" for xs :: "int list"
  by (simp add: sorted_list_of_set_sort_remdups)

context redis_up
begin

lemma upload_parts_eval:
  assumes "session_is (view (rds w)) i d" and "parts_are d (sorted_list_of_set A)" and "finite A"
    and "0 < bulk_upload_session_ttl_seconds cfg"
  shows "\<exists>d'. session_is (view (rds (snd (upload_parts srv cfg i ns w)))) i d' \<and>
    parts_are d' (sorted_list_of_set (A \<union> set ns)) \<and> fst (upload_parts srv cfg i ns w) = Inr ()"
  using assms(1-3)
proof (induction ns arbitrary: w d A)
  case Nil
  then show ?case by (auto simp: prog_simps)
next
  case (Cons n ns)
  obtain d' where d': "fst (add_uploaded_part srv cfg i n w) = Inr (Some d')"
    "parts_are d' (sort (remdups (n # sorted_list_of_set A)))"
    "session_is (view (rds (snd (add_uploaded_part srv cfg i n w)))) i d'"
    using add_uploaded_part_eval [OF Cons.prems(1,2) assms(4)] .
  have "parts_are d' (sorted_list_of_set (insert n A))"
    using d'(2) Cons.prems(3) unfolding sort_remdups_conv by simp
  from Cons.IH [OF d'(3) this] Cons.prems(3) d'(1) show ?case by (simp add: prog_simps)
qed

end

section \<open>Properties\<close>

text \<open>Uploaded parts are recorded. When the server answers and requests do not interleave, after a session is
  created and any parts are uploaded in any order, repeated or not, reading the session gives exactly the
  uploaded part numbers, sorted and without repetition.\<close>

theorem uploaded_parts_recorded:
  fixes w :: "('s,'z) env_scheme" and cid fname mode kind :: string and owner :: "int option" and size :: int and q :: bool and ns :: "int list"
  assumes "redis_up srv view" and "0 < bulk_upload_session_ttl_seconds cfg"
  defines "i \<equiv> uuids w (uuid_n w)"
  defines "w1 \<equiv> snd (create_upload_session srv cfg cid owner fname mode size q kind None w)"
  defines "w2 \<equiv> snd (upload_parts srv cfg i ns w1)"
  shows "\<exists>d. fst (get_upload_session srv cfg i w2) = Inr (Some (JObj d)) \<and>
     map_of d ''parts'' = Some (JArr (map JInt (sorted_list_of_set (set ns))))"
proof -
  let ?d = "new_session i (iso_z (clock w (ticks w))) cid owner fname mode size q kind"
  have ok: "json_ok (JObj ?d)" by (simp add: new_session_def)
  have "session_is (view (rds w1)) i ?d"
    using assms(2) ok
    by (simp add: w1_def create_upload_session_def write_session_def session_is_def nonempty_def i_def prog_simps redis_simps Let_def
        redis_up.eval_set [OF assms(1)] redis_up.up_view1 [OF assms(1)] del: json_ok.simps(3)) (simp add: new_session_def)
  moreover have "parts_are ?d (sorted_list_of_set {})" by (simp add: parts_are_def new_session_def)
  ultimately obtain d' where "session_is (view (rds w2)) i d'" "parts_are d' (sorted_list_of_set (set ns))"
    using redis_up.upload_parts_eval [OF assms(1) _ _ _ assms(2), of w1 i ?d "{}" ns] by (auto simp: w2_def)
  then show ?thesis using redis_up.get_session_eval(1) [OF assms(1), of w2 i d' cfg] by (auto simp: parts_are_def)
qed

theorem uploaded_parts_recorded_witness:
  "\<exists>d. fst (get_upload_session mem_srv default_settings ''job0'' (snd (upload_parts mem_srv default_settings ''job0'' [2, 1, 2]
      (snd (create_upload_session mem_srv default_settings ''c'' None ''f'' ''append'' 100 False ''vector_bulk'' None (env0 [])))))) =
      Inr (Some (JObj d)) \<and> map_of d ''parts'' = Some (JArr [JInt 1, JInt 2])"
proof -
  have "0 < bulk_upload_session_ttl_seconds default_settings" by (simp add: default_settings_def)
  moreover have "sorted_list_of_set (set [2, 1, 2 :: int]) = [1, 2]" by code_simp
  ultimately show ?thesis
    using uploaded_parts_recorded [OF mem.redis_up_axioms, where cfg = default_settings and w = "env0 []" and cid = "''c''"
        and owner = None and fname = "''f''" and mode = "''append''" and size = 100 and q = False and kind = "''vector_bulk''"
        and ns = "[2, 1, 2]"]
    by (simp add: nat_str_zero)
qed

end
