(* ===== verification/Finalize_Queue.thy ===== *)
theory Finalize_Queue
  imports Bulk_Queue
begin

text \<open>
  \<^verbatim>\<open>app/services/bulk_finalize_queue.py\<close>: the queue of staging tables to promote, with a per-job marker that
  keeps a job from being queued twice and a per-job state hash.

  Shown: messages survive the queue; when the server answers, a job is queued once however often it is
  asked for, and removal takes out every entry of the job and nothing else. When only the push is
  dropped, the retry sees the job's own marker and reports success with nothing queued.
\<close>

section \<open>Definitions\<close>

definition FINALIZE_QUEUE_KEY :: string where
  "FINALIZE_QUEUE_KEY = ''geofastmap:bulk_finalize_queue''"

definition FINALIZE_DEDUPE_PREFIX :: string where
  "FINALIZE_DEDUPE_PREFIX = ''geofastmap:bulk_finalize_pending:''"

definition FINALIZE_STATE_PREFIX :: string where
  "FINALIZE_STATE_PREFIX = ''geofastmap:bulk_finalize_state:''"

record BulkFinalizePayload =
  f_job_id :: string
  f_collection_id :: string
  f_mode :: string
  f_items_created :: int
  f_items_failed :: int
  f_owner_id :: "int option"
  f_queue_compute_tiles :: bool
  f_attempt :: int

definition BulkFinalizePayload_to_json :: "BulkFinalizePayload \<Rightarrow> string" where
  "BulkFinalizePayload_to_json p = dumps_compact (JObj
     [(''job_id'', JStr (f_job_id p)),
      (''collection_id'', JStr (f_collection_id p)),
      (''mode'', JStr (f_mode p)),
      (''items_created'', JInt (f_items_created p)),
      (''items_failed'', JInt (f_items_failed p)),
      (''owner_id'', opt_json JInt (f_owner_id p)),
      (''queue_compute_tiles'', JBool (f_queue_compute_tiles p)),
      (''attempt'', JInt (f_attempt p))])"

text \<open>\<^verbatim>\<open>int(d.get(k) or 0)\<close> and \<^verbatim>\<open>str(d.get(k) or default)\<close>.\<close>

definition int_or_0 :: "(string \<times> json) list \<Rightarrow> string \<Rightarrow> exn + int" where
  "int_or_0 d k = (if truthy (jget d k) then json_int (jget d k) else Inr 0)"

definition str_or :: "(string \<times> json) list \<Rightarrow> string \<Rightarrow> string \<Rightarrow> string" where
  "str_or d k dflt = (if truthy (jget d k) then py_str (jget d k) else dflt)"

definition BulkFinalizePayload_from_json :: "string \<Rightarrow> exn + BulkFinalizePayload" where
  "BulkFinalizePayload_from_json raw =
     sbind (sbind (loads raw) json_obj) (\<lambda>d.
     sbind (sbind (jreq d ''job_id'') j_str) (\<lambda>job_id.
     sbind (sbind (jreq d ''collection_id'') j_str) (\<lambda>collection_id.
     sbind (int_or_0 d ''items_created'') (\<lambda>items_created.
     sbind (int_or_0 d ''items_failed'') (\<lambda>items_failed.
     sbind (j_opt j_int (jget d ''owner_id'')) (\<lambda>owner_id.
     sbind (int_or_0 d ''attempt'') (\<lambda>attempt.
     Inr \<lparr>f_job_id = job_id, f_collection_id = collection_id, f_mode = str_or d ''mode'' ''append'',
          f_items_created = items_created, f_items_failed = items_failed, f_owner_id = owner_id,
          f_queue_compute_tiles = truthy (jget d ''queue_compute_tiles''), f_attempt = attempt\<rparr>)))))))"

definition dedupe_key :: "string \<Rightarrow> string" where
  "dedupe_key job_id = FINALIZE_DEDUPE_PREFIX @ job_id"

definition state_key :: "string \<Rightarrow> string" where
  "state_key job_id = FINALIZE_STATE_PREFIX @ job_id"

definition is_finalize_pending :: "'s redis \<Rightarrow> settings \<Rightarrow> string \<Rightarrow> (('s, 'z) env_scheme, bool) prog" where
  "is_finalize_pending srv cfg job_id =
     (if bulk_queue_type cfg \<noteq> ''redis'' then ret False
      else run_redis_retry cfg (Some 5) (bnd (r_exists srv (dedupe_key job_id)) (\<lambda>n. ret (n \<noteq> 0))))"

definition pending_mapping :: "string \<Rightarrow> BulkFinalizePayload \<Rightarrow> (string \<times> string) list" where
  "pending_mapping now p =
     [(''job_id'', f_job_id p),
      (''collection_id'', f_collection_id p),
      (''mode'', f_mode p),
      (''items_created'', int_str (f_items_created p)),
      (''items_failed'', int_str (f_items_failed p)),
      (''owner_id'', case f_owner_id p of None \<Rightarrow> [] | Some i \<Rightarrow> int_str i),
      (''queue_compute_tiles'', if f_queue_compute_tiles p then ''1'' else ''0''),
      (''updated_at'', now)]"

definition mark_finalize_pending ::
    "'s redis \<Rightarrow> settings \<Rightarrow> BulkFinalizePayload \<Rightarrow> (('s, 'z) env_scheme, unit) prog" where
  "mark_finalize_pending srv cfg p =
     (if bulk_queue_type cfg \<noteq> ''redis'' then ret ()
      else bnd utcnow (\<lambda>t.
        run_redis_retry cfg None
          (bnd (r_set srv (dedupe_key (f_job_id p)) ''1'' (Some (86400 * 7)) False) (\<lambda>_.
           bnd (r_hset srv (state_key (f_job_id p)) (pending_mapping (iso_z t) p)) (\<lambda>_.
           bnd (r_expire srv (state_key (f_job_id p)) (86400 * 7)) (\<lambda>_. ret ()))))))"

definition get_finalize_state ::
    "'s redis \<Rightarrow> settings \<Rightarrow> string \<Rightarrow> (('s, 'z) env_scheme, (string \<times> string) list) prog" where
  "get_finalize_state srv cfg job_id =
     (if bulk_queue_type cfg \<noteq> ''redis'' then ret []
      else run_redis_retry cfg (Some 5) (r_hgetall srv (state_key job_id)))"

definition mark_finalize_pending_job :: "'s redis \<Rightarrow> settings \<Rightarrow> string \<Rightarrow> (('s, 'z) env_scheme, unit) prog" where
  "mark_finalize_pending_job srv cfg job_id =
     (if bulk_queue_type cfg \<noteq> ''redis'' then ret ()
      else bnd (run_redis_retry cfg None (r_set srv (dedupe_key job_id) ''1'' (Some (86400 * 7)) False)) (\<lambda>_. ret ()))"

definition clear_finalize_pending :: "'s redis \<Rightarrow> settings \<Rightarrow> string \<Rightarrow> (('s, 'z) env_scheme, unit) prog" where
  "clear_finalize_pending srv cfg job_id =
     (if bulk_queue_type cfg \<noteq> ''redis'' then ret ()
      else catch (bnd (r_delete srv [dedupe_key job_id, state_key job_id]) (\<lambda>_. ret ())) (\<lambda>_. ret ()))"

definition record_finalize_error ::
    "'s redis \<Rightarrow> settings \<Rightarrow> string \<Rightarrow> string \<Rightarrow> int \<Rightarrow> (('s, 'z) env_scheme, unit) prog" where
  "record_finalize_error srv cfg job_id message attempt =
     (if bulk_queue_type cfg \<noteq> ''redis'' then ret ()
      else bnd utcnow (\<lambda>t.
        bnd (run_redis_retry cfg None (r_hset srv (state_key job_id)
          [(''job_id'', job_id), (''attempt'', int_str attempt), (''error'', take 2000 message),
           (''updated_at'', iso_z t)])) (\<lambda>_. ret ())))"

definition enqueue_finalize ::
    "'s redis \<Rightarrow> settings \<Rightarrow> BulkFinalizePayload \<Rightarrow> bool \<Rightarrow> (('s, 'z) env_scheme, bool) prog" where
  "enqueue_finalize srv cfg payload force =
     (if bulk_queue_type cfg \<noteq> ''redis'' then ret False
      else run_redis_retry cfg None
        (bnd (if force then ret 0 else r_exists srv (dedupe_key (f_job_id payload))) (\<lambda>n.
         if n \<noteq> 0 then ret True
         else
           bnd (mark_finalize_pending srv cfg payload) (\<lambda>_.
           bnd (r_lpush srv FINALIZE_QUEUE_KEY (BulkFinalizePayload_to_json payload)) (\<lambda>_.
           ret True)))))"

definition remove_one_finalize ::
    "'s redis \<Rightarrow> string \<Rightarrow> string \<Rightarrow> int \<Rightarrow> (('s, 'z) env_scheme, int) prog" where
  "remove_one_finalize srv job_id raw removed =
     catch
       (case BulkFinalizePayload_from_json raw of
          Inl e \<Rightarrow> raise e
        | Inr p \<Rightarrow>
            if f_job_id p = job_id
            then bnd (r_lrem srv FINALIZE_QUEUE_KEY 1 raw) (\<lambda>n. ret (removed + n))
            else ret removed)
       (\<lambda>_. ret removed)"

definition remove_finalize_from_queue :: "'s redis \<Rightarrow> settings \<Rightarrow> string \<Rightarrow> (('s, 'z) env_scheme, int) prog" where
  "remove_finalize_from_queue srv cfg job_id =
     (if bulk_queue_type cfg \<noteq> ''redis'' then ret 0
      else
        bnd (r_lrange srv FINALIZE_QUEUE_KEY 0 (- 1)) (\<lambda>raws.
        for_each raws (remove_one_finalize srv job_id) 0))"

definition finalize_queue_length :: "'s redis \<Rightarrow> settings \<Rightarrow> (('s, 'z) env_scheme, int) prog" where
  "finalize_queue_length srv cfg =
     (if bulk_queue_type cfg \<noteq> ''redis'' then ret 0
      else catch (r_llen srv FINALIZE_QUEUE_KEY) (\<lambda>_. ret 0))"

section \<open>Keys and messages\<close>

lemma finalize_keys [simp]:
  "dedupe_key i \<noteq> state_key j" "state_key j \<noteq> dedupe_key i"
  "dedupe_key i \<noteq> FINALIZE_QUEUE_KEY" "FINALIZE_QUEUE_KEY \<noteq> dedupe_key i"
  "state_key i \<noteq> FINALIZE_QUEUE_KEY" "FINALIZE_QUEUE_KEY \<noteq> state_key i"
  "dedupe_key i = dedupe_key j \<longleftrightarrow> i = j" "state_key i = state_key j \<longleftrightarrow> i = j"
  by (simp_all add: dedupe_key_def state_key_def FINALIZE_QUEUE_KEY_def FINALIZE_DEDUPE_PREFIX_def FINALIZE_STATE_PREFIX_def)

lemma finalize_payload_roundtrip:
  "BulkFinalizePayload_from_json (BulkFinalizePayload_to_json p) =
     Inr (p\<lparr>f_mode := if f_mode p = [] then ''append'' else f_mode p\<rparr>)"
proof -
  have l: "loads (BulkFinalizePayload_to_json p) = Inr (JObj
     [(''job_id'', JStr (f_job_id p)), (''collection_id'', JStr (f_collection_id p)), (''mode'', JStr (f_mode p)),
      (''items_created'', JInt (f_items_created p)), (''items_failed'', JInt (f_items_failed p)),
      (''owner_id'', opt_json JInt (f_owner_id p)), (''queue_compute_tiles'', JBool (f_queue_compute_tiles p)),
      (''attempt'', JInt (f_attempt p))])"
    unfolding BulkFinalizePayload_to_json_def by (rule loads_dumps_compact) (simp add: json_simps del: json_ok.simps(3))
  show ?thesis
    unfolding BulkFinalizePayload_from_json_def l
    by (simp add: json_obj_def jreq_def jget_def json_simps int_or_0_def str_or_def py_str_def)
qed

section \<open>The queue when the server answers\<close>

context redis_up
begin

lemma mark_eval:
  assumes "uses_redis cfg" and "as_hash (view (rds w) (state_key (f_job_id p))) = Some (h, t)"
  shows "fst (mark_finalize_pending srv cfg p w) = Inr ()"
    and "k \<noteq> dedupe_key (f_job_id p) \<Longrightarrow> k \<noteq> state_key (f_job_id p) \<Longrightarrow>
      view (rds (snd (mark_finalize_pending srv cfg p w))) k = view (rds w) k"
    and "view (rds (snd (mark_finalize_pending srv cfg p w))) (dedupe_key (f_job_id p)) \<noteq> None"
proof -
  have m: "pending_mapping now p \<noteq> []" for now by (simp add: pending_mapping_def)
  show "fst (mark_finalize_pending srv cfg p w) = Inr ()"
    "k \<noteq> dedupe_key (f_job_id p) \<Longrightarrow> k \<noteq> state_key (f_job_id p) \<Longrightarrow>
      view (rds (snd (mark_finalize_pending srv cfg p w))) k = view (rds w) k"
    "view (rds (snd (mark_finalize_pending srv cfg p w))) (dedupe_key (f_job_id p)) \<noteq> None"
    using assms m by (simp_all add: mark_finalize_pending_def uses_redis_def prog_simps redis_simps)
qed

lemma enqueue_finalize_new:
  assumes "uses_redis cfg" and "as_hash (view (rds w) (state_key (f_job_id p))) = Some (h, t)"
    and "as_list (view (rds w) FINALIZE_QUEUE_KEY) = Some (l, t')" and "view (rds w) (dedupe_key (f_job_id p)) = None"
  shows "fst (enqueue_finalize srv cfg p False w) = Inr True"
    and "view (rds (snd (enqueue_finalize srv cfg p False w))) FINALIZE_QUEUE_KEY =
      Some (RList (BulkFinalizePayload_to_json p # l), t')"
    and "view (rds (snd (enqueue_finalize srv cfg p False w))) (dedupe_key (f_job_id p)) \<noteq> None"
proof -
  define w1 where "w1 = w\<lparr>rds := snd (srv (One (Exists (dedupe_key (f_job_id p)))) (rds w))\<rparr>"
  define w2 where "w2 = snd (mark_finalize_pending srv cfg p w1)"
  have v1: "view (rds w1) = view (rds w)" by (simp add: w1_def redis_simps)
  have h1: "as_hash (view (rds w1) (state_key (f_job_id p))) = Some (h, t)" using assms(2) v1 by simp
  note m = mark_eval [OF assms(1) h1, folded w2_def]
  have q2: "as_list (view (rds w2) FINALIZE_QUEUE_KEY) = Some (l, t')" using m(2) assms(3) v1 by simp
  have run: "enqueue_finalize srv cfg p False w =
      bnd (r_lpush srv FINALIZE_QUEUE_KEY (BulkFinalizePayload_to_json p)) (\<lambda>_. ret True) w2"
  proof -
    let ?b = "bnd (r_exists srv (dedupe_key (f_job_id p))) (\<lambda>n. if n \<noteq> 0 then ret True
         else bnd (mark_finalize_pending srv cfg p) (\<lambda>_.
           bnd (r_lpush srv FINALIZE_QUEUE_KEY (BulkFinalizePayload_to_json p)) (\<lambda>_. ret True)))"
    have b: "?b w = bnd (r_lpush srv FINALIZE_QUEUE_KEY (BulkFinalizePayload_to_json p)) (\<lambda>_. ret True) w2"
      using assms(4) m(1)
      by (simp add: bnd_def [of "r_int _ (One (Exists _))"] bnd_def [of "mark_finalize_pending _ _ _"] prog_simps redis_simps
          w1_def [symmetric] w2_def [symmetric])
    moreover have "\<not> isl (fst (?b w))" unfolding b using q2 by (simp add: prog_simps redis_simps)
    ultimately show ?thesis using assms(1) retry_ok [of ?b w cfg None] by (simp add: enqueue_finalize_def uses_redis_def)
  qed
  show "fst (enqueue_finalize srv cfg p False w) = Inr True"
    "view (rds (snd (enqueue_finalize srv cfg p False w))) FINALIZE_QUEUE_KEY = Some (RList (BulkFinalizePayload_to_json p # l), t')"
    "view (rds (snd (enqueue_finalize srv cfg p False w))) (dedupe_key (f_job_id p)) \<noteq> None"
    unfolding run using q2 m(3) by (simp_all add: prog_simps redis_simps)
qed

lemma enqueue_finalize_again:
  assumes "uses_redis cfg" and "view (rds w) (dedupe_key (f_job_id p)) \<noteq> None"
  shows "fst (enqueue_finalize srv cfg p False w) = Inr True"
    and "view (rds (snd (enqueue_finalize srv cfg p False w))) = view (rds w)"
proof -
  obtain e where "view (rds w) (dedupe_key (f_job_id p)) = Some e" using assms(2) by auto
  then show "fst (enqueue_finalize srv cfg p False w) = Inr True"
    "view (rds (snd (enqueue_finalize srv cfg p False w))) = view (rds w)"
    using assms(1) by (simp_all add: enqueue_finalize_def uses_redis_def prog_simps redis_simps)
qed

end

section \<open>Removal\<close>

definition is_finalize_of :: "string \<Rightarrow> string \<Rightarrow> bool" where
  "is_finalize_of job_id raw \<longleftrightarrow>
     (case BulkFinalizePayload_from_json raw of Inl _ \<Rightarrow> False | Inr p \<Rightarrow> f_job_id p = job_id)"

lemma fold_remove1_filter:
  "(\<And>x. x \<in> set xs \<Longrightarrow> \<not> P x) \<Longrightarrow> fold remove1 (filter P ys) (xs @ ys) = xs @ filter (\<lambda>y. \<not> P y) ys"
proof (induction ys arbitrary: xs)
  case (Cons y ys)
  show ?case
  proof (cases "P y")
    case True
    then have "remove1 y (xs @ y # ys) = xs @ ys" using Cons.prems by (auto simp: remove1_append)
    then show ?thesis using Cons True by simp
  next
    case False
    then have "fold remove1 (filter P ys) ((xs @ [y]) @ ys) = (xs @ [y]) @ filter (\<lambda>y. \<not> P y) ys"
      using Cons.prems by (intro Cons.IH) auto
    then show ?thesis using False by simp
  qed
qed simp

context redis_up
begin

lemma remove_loop_eval:
  fixes i :: string
  assumes "as_list (view (rds w) FINALIZE_QUEUE_KEY) = Some (l, t)"
  defines "body \<equiv> remove_one_finalize srv i"
  shows "let l' = fold remove1 (filter (is_finalize_of i) raws) l in
    fst (for_each raws body m w) = Inr (m + int (length l) - int (length l')) \<and>
    map_option fst (as_list (view (rds (snd (for_each raws body m w))) FINALIZE_QUEUE_KEY)) = Some l' \<and>
    (\<forall>k. k \<noteq> FINALIZE_QUEUE_KEY \<longrightarrow> view (rds (snd (for_each raws body m w))) k = view (rds w) k)"
  using assms(1)
proof (induction raws arbitrary: w l t m)
  case Nil
  then show ?case by (simp add: prog_simps)
next
  case (Cons raw raws)
  show ?case
  proof (cases "is_finalize_of i raw")
    case False
    then have "body raw m w = (Inr m, w)"
      by (auto simp: body_def remove_one_finalize_def is_finalize_of_def catch_def ret_def raise_def split: sum.splits)
    then show ?thesis using Cons.IH [OF Cons.prems] False by (simp add: prog_simps)
  next
    case True
    then have b: "fst (body raw m w) = Inr (m + (int (length l) - int (length (remove1 raw l))))"
      "view (rds (snd (body raw m w))) = (view (rds w))(FINALIZE_QUEUE_KEY :=
         if remove1 raw l = [] then None else Some (RList (remove1 raw l), t))"
      using Cons.prems
      by (auto simp: body_def remove_one_finalize_def is_finalize_of_def prog_simps redis_simps lrem_one split: sum.splits)
    have "\<exists>t'. as_list (view (rds (snd (body raw m w))) FINALIZE_QUEUE_KEY) = Some (remove1 raw l, t')"
      by (simp add: b(2) redis_simps)
    then obtain t' where "as_list (view (rds (snd (body raw m w))) FINALIZE_QUEUE_KEY) = Some (remove1 raw l, t')" ..
    from Cons.IH [OF this, of "m + (int (length l) - int (length (remove1 raw l)))"]
    show ?thesis using True b by (simp add: prog_simps Let_def)
  qed
qed

end

section \<open>Properties\<close>

text \<open>Queued once. When the server answers and the job is not pending, the first request puts its message at
  the head of the queue; a second request for the job reports success and changes nothing.\<close>

theorem finalize_enqueued_once:
  fixes p p' :: BulkFinalizePayload
  assumes "redis_up srv view" and "uses_redis cfg"
    and "as_hash (view (rds w) (state_key (f_job_id p))) = Some (h, t)"
    and "as_list (view (rds w) FINALIZE_QUEUE_KEY) = Some (l, t')"
    and "view (rds w) (dedupe_key (f_job_id p)) = None" and "f_job_id p' = f_job_id p"
  defines "w1 \<equiv> snd (enqueue_finalize srv cfg p False w)"
  defines "w2 \<equiv> snd (enqueue_finalize srv cfg p' False w1)"
  shows "fst (enqueue_finalize srv cfg p False w) = Inr True \<and> fst (is_finalize_pending srv cfg (f_job_id p) w1) = Inr True \<and>
         view (rds w1) FINALIZE_QUEUE_KEY = Some (RList (BulkFinalizePayload_to_json p # l), t') \<and>
         fst (enqueue_finalize srv cfg p' False w1) = Inr True \<and> view (rds w2) = view (rds w1)"
proof -
  note n = redis_up.enqueue_finalize_new [OF assms(1-5), folded w1_def]
  have d: "view (rds w1) (dedupe_key (f_job_id p')) \<noteq> None" using n(3) assms(6) by simp
  obtain e where "view (rds w1) (dedupe_key (f_job_id p)) = Some e" using n(3) by auto
  then have "fst (is_finalize_pending srv cfg (f_job_id p) w1) = Inr True"
    using assms(2) redis_up.eval_int [OF assms(1), of "Exists (dedupe_key (f_job_id p))" w1]
    by (simp add: is_finalize_pending_def uses_redis_def prog_simps redis_simps)
  then show ?thesis
    using n redis_up.enqueue_finalize_again [OF assms(1,2) d, folded w2_def] by simp
qed

definition example_finalize :: BulkFinalizePayload where
  "example_finalize = \<lparr>f_job_id = ''j'', f_collection_id = ''c'', f_mode = ''append'', f_items_created = 3, f_items_failed = 0,
     f_owner_id = None, f_queue_compute_tiles = False, f_attempt = 0\<rparr>"

theorem finalize_enqueued_once_witness:
  "fst (is_finalize_pending mem_srv default_settings ''j'' (snd (enqueue_finalize mem_srv default_settings example_finalize False (env0 []))))
     = Inr True"
  using finalize_enqueued_once [OF mem.redis_up_axioms uses_redis_default, of "env0 []" example_finalize "[]" None "[]" None example_finalize]
  by (simp add: redis_simps example_finalize_def)

text \<open>A finalize request can be lost. When only the push to the queue is dropped, the retry finds the marker
  the first attempt left and returns success, although nothing is queued and the job now counts as pending.\<close>

theorem finalize_enqueue_can_be_lost:
  "let r = enqueue_finalize script_srv default_settings example_finalize False (env0 ([Fine, Fine, Fine, Fine, Dropped], []))
   in fst r = Inr True \<and> map_of (snd (rds (snd r))) FINALIZE_QUEUE_KEY = None \<and>
      map_of (snd (rds (snd r))) (dedupe_key ''j'') \<noteq> None"
  by code_simp

text \<open>Removal. When the server answers, all queue entries of the job are removed, their number is returned,
  the other entries stay in order, and no other key changes.\<close>

theorem finalize_removal_exact:
  fixes i :: string
  assumes "redis_up srv view" and "uses_redis cfg" and "as_list (view (rds w) FINALIZE_QUEUE_KEY) = Some (l, t)"
  defines "w' \<equiv> snd (remove_finalize_from_queue srv cfg i w)"
  shows "fst (remove_finalize_from_queue srv cfg i w) = Inr (int (length (filter (is_finalize_of i) l))) \<and>
         map_option fst (as_list (view (rds w') FINALIZE_QUEUE_KEY)) = Some (filter (\<lambda>x. \<not> is_finalize_of i x) l) \<and>
         (\<forall>k. k \<noteq> FINALIZE_QUEUE_KEY \<longrightarrow> view (rds w') k = view (rds w) k)"
proof -
  let ?w1 = "w\<lparr>rds := snd (srv (One (LRange FINALIZE_QUEUE_KEY 0 (- 1))) (rds w))\<rparr>"
  have all: "lrange_list 0 (- 1) l = l" by (cases l) (simp_all add: lrange_list_def)
  have v1: "view (rds ?w1) = view (rds w)" using redis_up.up_view1 [OF assms(1)] by (simp add: redis_simps)
  then have l1: "as_list (view (rds ?w1) FINALIZE_QUEUE_KEY) = Some (l, t)" using assms(3) by simp
  have f: "fold remove1 (filter (is_finalize_of i) l) l = filter (\<lambda>x. \<not> is_finalize_of i x) l"
    using fold_remove1_filter [of "[]" "is_finalize_of i" l] by simp
  have n: "int (length l) - int (length (filter (\<lambda>x. \<not> is_finalize_of i x) l)) = int (length (filter (is_finalize_of i) l))"
    using sum_length_filter_compl [of "is_finalize_of i" l] by simp
  show ?thesis
    using redis_up.remove_loop_eval [OF assms(1) l1, of i l 0] assms(2,3) v1 f n
      redis_up.eval_lrange [OF assms(1), of FINALIZE_QUEUE_KEY 0 "- 1" w]
    by (simp add: remove_finalize_from_queue_def uses_redis_def w'_def bnd_def [of "r_lrange _ _ _ _"] prog_simps all Let_def)
qed

theorem finalize_removal_exact_witness:
  "fst (remove_finalize_from_queue mem_srv default_settings ''j''
     (env0 [(FINALIZE_QUEUE_KEY, (RList [BulkFinalizePayload_to_json example_finalize, ''junk''], None))])) = Inr 1"
proof -
  have "is_finalize_of ''j'' (BulkFinalizePayload_to_json example_finalize)"
    by (simp add: is_finalize_of_def finalize_payload_roundtrip) (simp add: example_finalize_def)
  moreover have "\<not> is_finalize_of ''j'' ''junk''" by code_simp
  ultimately show ?thesis
    using finalize_removal_exact [OF mem.redis_up_axioms uses_redis_default,
        of "env0 [(FINALIZE_QUEUE_KEY, (RList [BulkFinalizePayload_to_json example_finalize, ''junk''], None))]" _ None "''j''"]
    by (simp add: redis_simps)
qed

end
