(* ===== verification/Load_Gates.thy ===== *)
theory Load_Gates
  imports GFM_Prelude App_Settings
begin

text \<open>
  \<^verbatim>\<open>app/services/titiler_gate.py\<close> and \<^verbatim>\<open>app/services/db_load_gate.py\<close>: the limits on concurrent
  upstream tile requests and on heavy database reads, one gate per worker process.

  Both modules run on one event loop, and their locks protect sections without an \<^verbatim>\<open>await\<close>, so each
  section is one atomic event of a call: it arrives, resumes after its event was set, finishes,
  gives up at its deadline, or leaves because the client went away or the task was cancelled. A
  call is named by a value of \<open>'t\<close> and owns at most one \<^verbatim>\<open>asyncio.Event\<close>. What happens between the
  events (the polling with \<^verbatim>\<open>wait_for\<close>) changes no shared state.

  Shown for both gates, over every interleaving: the counter is the number of running calls; the
  cap is exceeded by at most the number of arrivals that overtook a woken waiter; no slot is idle
  while a call waits unless a woken waiter left; and without such losses the waiting calls are all
  served. Two concrete runs show that both exceptions happen.
\<close>

section \<open>Definitions\<close>

datatype phase = Fresh | Bypass | InFn | Waiting | Finished | Overloaded | Abandoned

record 't gate =
  active :: int
  waiters :: "'t list"
  is_set :: "'t set"
  phase :: "'t \<Rightarrow> phase"

definition new_gate :: "'t gate" where
  "new_gate = \<lparr>active = 0, waiters = [], is_set = {}, phase = (\<lambda>_. Fresh)\<rparr>"

definition set_phase :: "'t \<Rightarrow> phase \<Rightarrow> 't gate \<Rightarrow> 't gate" where
  "set_phase t p g = g\<lparr>phase := (phase g)(t := p)\<rparr>"

text \<open>The first locked section: take a slot, or queue an event on the left.\<close>

definition arrive :: "int \<Rightarrow> 't \<Rightarrow> 't gate \<Rightarrow> 't gate" where
  "arrive max_c t g =
     (if max_c \<le> 0 then set_phase t Bypass g
      else if active g < max_c then set_phase t InFn (g\<lparr>active := active g + 1\<rparr>)
      else set_phase t Waiting (g\<lparr>waiters := t # waiters g\<rparr>))"

definition wake_next :: "'t gate \<Rightarrow> 't gate" where
  "wake_next g = (case waiters g of [] \<Rightarrow> g | t # ts \<Rightarrow> g\<lparr>waiters := ts, is_set := insert t (is_set g)\<rparr>)"

definition release_slot :: "int \<Rightarrow> 't gate \<Rightarrow> 't gate" where
  "release_slot max_c g = (if max_c \<le> 0 then g else wake_next (g\<lparr>active := active g - 1\<rparr>))"

definition db_release :: "int \<Rightarrow> 't gate \<Rightarrow> 't gate" where
  "db_release max_c g = wake_next (g\<lparr>active := max 0 (active g - 1)\<rparr>)"

definition abandon_waiter :: "'t \<Rightarrow> 't gate \<Rightarrow> 't gate" where
  "abandon_waiter t g = g\<lparr>waiters := remove1 t (waiters g)\<rparr>"

text \<open>The section after the waiting loop.\<close>

definition take_slot :: "'t \<Rightarrow> 't gate \<Rightarrow> 't gate" where
  "take_slot t g = set_phase t InFn (g\<lparr>active := active g + 1\<rparr>)"

datatype 't event = Arrive 't | Resume 't | Finish 't | Expire 't | Leave 't

text \<open>
  The effect of an event, \<open>None\<close> where the call is not at that point. \<open>rel\<close> is the section that
  releases the slot, \<open>dl\<close> says whether waiting has a deadline. The deadline is looked at when the
  event is not set, with no \<^verbatim>\<open>await\<close> before the waiter is removed; a disconnect or a
  cancellation can come after the event was set.
\<close>

fun gate_event :: "int \<Rightarrow> ('t gate \<Rightarrow> 't gate) \<Rightarrow> bool \<Rightarrow> 't event \<Rightarrow> 't gate \<Rightarrow> 't gate option" where
  "gate_event max_c rel dl (Arrive t) g = (if phase g t = Fresh then Some (arrive max_c t g) else None)"
| "gate_event max_c rel dl (Resume t) g =
     (if phase g t = Waiting \<and> t \<in> is_set g then Some (take_slot t g) else None)"
| "gate_event max_c rel dl (Finish t) g =
     (if phase g t = InFn then Some (set_phase t Finished (rel g))
      else if phase g t = Bypass then Some (set_phase t Finished g)
      else None)"
| "gate_event max_c rel dl (Expire t) g =
     (if dl \<and> phase g t = Waiting \<and> t \<notin> is_set g then Some (set_phase t Overloaded (abandon_waiter t g)) else None)"
| "gate_event max_c rel dl (Leave t) g =
     (if phase g t = Waiting then Some (set_phase t Abandoned (abandon_waiter t g)) else None)"

definition titiler_upstream_gate_run :: "int \<Rightarrow> 't event \<Rightarrow> 't gate \<Rightarrow> 't gate option" where
  "titiler_upstream_gate_run max_c = gate_event max_c (release_slot max_c) False"

definition run_gated :: "int \<Rightarrow> 't event \<Rightarrow> 't gate \<Rightarrow> 't gate option" where
  "run_gated max_c = gate_event max_c (db_release max_c) True"

text \<open>The gates of the database module are created on first use, one per name.\<close>

definition named_gate :: "(string \<rightharpoonup> 't gate) \<Rightarrow> string \<Rightarrow> 't gate" where
  "named_gate gates name = (case gates name of None \<Rightarrow> new_gate | Some g \<Rightarrow> g)"

definition named_event ::
    "string \<Rightarrow> int \<Rightarrow> 't event \<Rightarrow> (string \<rightharpoonup> 't gate) \<Rightarrow> (string \<rightharpoonup> 't gate) option" where
  "named_event name max_c e gates =
     map_option (\<lambda>g. gates(name \<mapsto> g)) (run_gated max_c e (named_gate gates name))"

text \<open>A waiting call that reaches its deadline.\<close>

definition wait_budget :: "rat \<Rightarrow> rat" where
  "wait_budget wait_seconds = max (5 / 100) wait_seconds"

definition overload_result :: "string \<Rightarrow> ('w, 'a) prog option \<Rightarrow> ('w, 'a) prog" where
  "overload_result name on_overload =
     (case on_overload of Some h \<Rightarrow> h | None \<Rightarrow> raise (DbLoadOverloaded name))"

definition run_dynamic_tile_db :: "settings \<Rightarrow> string \<times> int \<times> rat" where
  "run_dynamic_tile_db cfg =
     (''dyn_tile'', or_default (tiles_dynamic_max_concurrent cfg) 2, or_default (tiles_dynamic_gate_wait_seconds cfg) (3 / 2))"

definition run_items_list_db :: "settings \<Rightarrow> string \<times> int \<times> rat" where
  "run_items_list_db cfg =
     (''items_list'', or_default (items_list_max_concurrent cfg) 3, or_default (items_list_gate_wait_seconds cfg) 2)"

section \<open>Runs\<close>

definition woken :: "'t gate \<Rightarrow> 't set" where
  "woken g = {t. phase g t = Waiting \<and> t \<in> is_set g}"

definition running :: "'t gate \<Rightarrow> 't set" where
  "running g = {t. phase g t = InFn}"

text \<open>An arrival overtakes when it takes a slot while a woken call has yet to resume.\<close>

fun overtakes :: "int \<Rightarrow> 't gate \<Rightarrow> 't event \<Rightarrow> bool" where
  "overtakes m g (Arrive t) \<longleftrightarrow> active g < m \<and> woken g \<noteq> {}"
| "overtakes m g _ \<longleftrightarrow> False"

fun loses :: "'t gate \<Rightarrow> 't event \<Rightarrow> bool" where
  "loses g (Leave t) \<longleftrightarrow> t \<in> woken g"
| "loses g _ \<longleftrightarrow> False"

text \<open>
  \<open>gate_reach m run b l g\<close>: the gate gets to \<open>g\<close> by events of any calls, \<open>b\<close> arrivals of which
  overtook a woken call and \<open>l\<close> woken calls of which left.
\<close>

inductive gate_reach :: "int \<Rightarrow> ('t event \<Rightarrow> 't gate \<Rightarrow> 't gate option) \<Rightarrow> nat \<Rightarrow> nat \<Rightarrow> 't gate \<Rightarrow> bool"
  for m run where
  reach_new: "gate_reach m run 0 0 new_gate"
| reach_event: "gate_reach m run b l g \<Longrightarrow> run e g = Some g' \<Longrightarrow>
    gate_reach m run (b + of_bool (overtakes m g e)) (l + of_bool (loses g e)) g'"

fun run_events :: "('t event \<Rightarrow> 't gate \<Rightarrow> 't gate option) \<Rightarrow> 't event list \<Rightarrow> 't gate \<Rightarrow> 't gate option" where
  "run_events run [] g = Some g"
| "run_events run (e # es) g = Option.bind (run e g) (run_events run es)"

text \<open>The events that serve calls: no new call, nobody gives up.\<close>

fun serving :: "'t event \<Rightarrow> bool" where
  "serving (Resume t) \<longleftrightarrow> True"
| "serving (Finish t) \<longleftrightarrow> True"
| "serving _ \<longleftrightarrow> False"

section \<open>The invariant of a gate\<close>

definition gate_ok :: "'t gate \<Rightarrow> bool" where
  "gate_ok g \<longleftrightarrow> finite {t. phase g t \<noteq> Fresh} \<and> active g = int (card (running g)) \<and>
     distinct (waiters g) \<and> set (waiters g) = {t. phase g t = Waiting \<and> t \<notin> is_set g} \<and>
     (\<forall>t\<in>is_set g. phase g t \<noteq> Fresh) \<and> (\<forall>t. phase g t \<noteq> Bypass)"

lemma gate_ok_finite [simp]: "gate_ok g \<Longrightarrow> finite (running g)" "gate_ok g \<Longrightarrow> finite (woken g)"
  unfolding gate_ok_def running_def woken_def
  by (auto elim: finite_subset [rotated])

lemma set_phase_simps [simp]:
  "active (set_phase t p g) = active g" "waiters (set_phase t p g) = waiters g"
  "is_set (set_phase t p g) = is_set g" "phase (set_phase t p g) = (phase g)(t := p)"
  by (simp_all add: set_phase_def)

lemma running_set_phase:
  "running (set_phase t p g) = (if p = InFn then insert t (running g) else running g - {t})"
  by (auto simp: running_def)

lemma woken_set_phase:
  "woken (set_phase t p g) = (if p = Waiting \<and> t \<in> is_set g then insert t (woken g) else woken g - {t})"
  by (auto simp: woken_def)

lemma finite_set_phase: "finite {s. phase g s \<noteq> Fresh} \<Longrightarrow> finite {s. ((phase g)(t := p)) s \<noteq> Fresh}"
  by (rule finite_subset [of _ "insert t {s. phase g s \<noteq> Fresh}"]) auto

lemma wake_next_simps [simp]: "active (wake_next g) = active g" "phase (wake_next g) = phase g"
  by (simp_all add: wake_next_def split: list.split)

lemma running_eq_phase: "phase g = phase g' \<Longrightarrow> running g = running g'"
  by (simp add: running_def)

lemma card_running_pos: "gate_ok g \<Longrightarrow> phase g t = InFn \<Longrightarrow> 0 < active g"
  using gate_ok_finite(1) [of g] by (auto simp: gate_ok_def running_def card_gt_0_iff)

lemma gate_okI:
  assumes "gate_ok g" and "phase g' = (phase g)(t := p)" and "p \<noteq> Bypass"
    and "active g' = int (card (running g'))" and "distinct (waiters g')"
    and "\<And>s. s \<in> set (waiters g') \<longleftrightarrow> phase g' s = Waiting \<and> s \<notin> is_set g'"
    and "\<And>s. s \<in> is_set g' \<Longrightarrow> phase g' s \<noteq> Fresh"
  shows "gate_ok g'"
proof -
  have "finite {s. phase g s \<noteq> Fresh}" using assms(1) by (simp add: gate_ok_def)
  then have "finite {s. phase g' s \<noteq> Fresh}" unfolding assms(2) by (rule finite_set_phase)
  moreover have "phase g' s \<noteq> Bypass" for s using assms(1-3) by (simp add: gate_ok_def)
  ultimately show ?thesis unfolding gate_ok_def using assms(4-7) by blast
qed

lemma gate_okD:
  assumes "gate_ok g"
  shows "active g = int (card (running g))" and "distinct (waiters g)"
    and "s \<in> set (waiters g) \<longleftrightarrow> phase g s = Waiting \<and> s \<notin> is_set g" and "s \<in> is_set g \<Longrightarrow> phase g s \<noteq> Fresh"
    and "phase g s \<noteq> Bypass"
proof -
  note ok = assms [unfolded gate_ok_def]
  show "active g = int (card (running g))" "distinct (waiters g)" using ok by blast+
  show "s \<in> set (waiters g) \<longleftrightarrow> phase g s = Waiting \<and> s \<notin> is_set g" using ok by (metis (mono_tags, lifting) mem_Collect_eq)
  show "s \<in> is_set g \<Longrightarrow> phase g s \<noteq> Fresh" "phase g s \<noteq> Bypass" using ok by blast+
qed

definition committed :: "'t gate \<Rightarrow> int" where
  "committed g = active g + int (card (woken g))"

lemma arrive_running:
  assumes "gate_ok g" and "phase g t = Fresh" and "0 < m" and "active g < m"
  shows "gate_ok (arrive m t g) \<and> committed (arrive m t g) = committed g + 1 \<and> waiters (arrive m t g) = waiters g \<and>
    woken (arrive m t g) = woken g"
proof -
  let ?g = "arrive m t g"
  have g': "?g = set_phase t InFn (g\<lparr>active := active g + 1\<rparr>)" using assms(3,4) by (simp add: arrive_def)
  have r: "running ?g = insert t (running g)" and w: "woken ?g = woken g"
    using assms(2) by (auto simp: g' running_def woken_def)
  have "t \<notin> running g" using assms(2) by (simp add: running_def)
  then have "card (running ?g) = card (running g) + 1" using assms(1) by (simp add: r)
  moreover have "active ?g = active g + 1" by (simp add: g')
  ultimately have "active ?g = int (card (running ?g))" using gate_okD(1) [OF assms(1)] by simp
  then have "gate_ok ?g"
    using gate_okD [OF assms(1)] assms(2) by (intro gate_okI [OF assms(1), of _ t InFn]) (simp_all add: g')
  then show ?thesis using w by (simp add: committed_def) (simp add: g')
qed

lemma arrive_waiting:
  assumes "gate_ok g" and "phase g t = Fresh" and "0 < m" and "\<not> active g < m"
  shows "gate_ok (arrive m t g) \<and> committed (arrive m t g) = committed g \<and> m \<le> committed g"
proof -
  let ?g = "arrive m t g"
  have g': "?g = set_phase t Waiting (g\<lparr>waiters := t # waiters g\<rparr>)" using assms(3,4) by (simp add: arrive_def)
  have "t \<notin> is_set g" using assms(1,2) by (auto simp: gate_ok_def)
  moreover from this have r: "running ?g = running g" and w: "woken ?g = woken g"
    using assms(2) by (auto simp: g' running_def woken_def)
  ultimately have "gate_ok ?g"
    using gate_okD [OF assms(1)] assms(2) by (intro gate_okI [OF assms(1), of _ t Waiting]) (simp_all add: g' r [unfolded g'])
  then show ?thesis using assms(4) w by (simp add: committed_def) (simp add: g')
qed

lemma take_slot_ok:
  assumes "gate_ok g" and "t \<in> woken g"
  shows "gate_ok (take_slot t g) \<and> committed (take_slot t g) = committed g \<and> waiters (take_slot t g) = waiters g \<and>
    card (woken (take_slot t g)) + 1 = card (woken g) \<and> card (running (take_slot t g)) = card (running g) + 1"
proof -
  let ?g = "take_slot t g"
  have g': "?g = set_phase t InFn (g\<lparr>active := active g + 1\<rparr>)" by (simp add: take_slot_def)
  have r: "running ?g = insert t (running g)" and w: "woken ?g = woken g - {t}"
    using assms(2) by (auto simp: g' running_def woken_def)
  have "t \<notin> running g" using assms(2) by (simp add: running_def woken_def)
  then have cr: "card (running ?g) = card (running g) + 1" using assms(1) by (simp add: r)
  have cw: "card (woken ?g) + 1 = card (woken g)" using assms card_Suc_Diff1 [of "woken g" t] by (simp add: w)
  have "gate_ok ?g"
    using gate_okD [OF assms(1)] assms(2) cr
    by (intro gate_okI [OF assms(1), of _ t InFn]) (simp_all add: g' woken_def)
  then show ?thesis using cr cw by (simp add: committed_def g')
qed

lemma finish_ok:
  assumes "gate_ok g" and "phase g t = InFn"
  defines "g' \<equiv> set_phase t Finished (wake_next (g\<lparr>active := active g - 1\<rparr>))"
  shows "gate_ok g' \<and> waiters g' = tl (waiters g) \<and> card (running g') + 1 = card (running g) \<and>
    card (woken g') = card (woken g) + of_bool (waiters g \<noteq> [])"
proof -
  have r: "running g' = running g - {t}" by (auto simp: g'_def running_def)
  have "t \<in> running g" using assms(2) by (simp add: running_def)
  then have cr: "card (running g') + 1 = card (running g)" using assms(1) card_Suc_Diff1 [of "running g" t] by (simp add: r)
  have w: "woken g' = (case waiters g of [] \<Rightarrow> woken g | h # _ \<Rightarrow> insert h (woken g))"
  proof (cases "waiters g")
    case (Cons h ts)
    then have "phase g h = Waiting" using gate_okD(3) [OF assms(1), of h] by simp
    then show ?thesis using Cons assms(2) by (auto simp: g'_def woken_def wake_next_def)
  qed (use assms(2) in \<open>auto simp: g'_def woken_def wake_next_def\<close>)
  have h: "h \<notin> woken g" if "h \<in> set (waiters g)" for h using gate_okD(3) [OF assms(1), of h] that by (simp add: woken_def)
  have cw: "card (woken g') = card (woken g) + of_bool (waiters g \<noteq> [])"
    using assms(1) h by (cases "waiters g") (simp_all add: w)
  have ws: "waiters g' = tl (waiters g)" by (cases "waiters g") (simp_all add: g'_def wake_next_def)
  have i: "is_set g' = set (take 1 (waiters g)) \<union> is_set g" by (cases "waiters g") (simp_all add: g'_def wake_next_def)
  have "gate_ok g'"
  proof (rule gate_okI [OF assms(1), of g' t Finished])
    show ph: "phase g' = (phase g)(t := Finished)" "Finished \<noteq> Bypass" by (simp_all add: g'_def)
    have "active g' = active g - 1" by (simp add: g'_def)
    then show "active g' = int (card (running g'))" using cr gate_okD(1) [OF assms(1)] by simp
    show "distinct (waiters g')" using gate_okD(2) [OF assms(1)] by (simp add: ws distinct_tl)
    fix s
    show "s \<in> set (waiters g') \<longleftrightarrow> phase g' s = Waiting \<and> s \<notin> is_set g'"
      using gate_okD(2) [OF assms(1)] gate_okD(3) [OF assms(1), of s] assms(2) by (cases "waiters g") (auto simp: ws i ph)
    show "phase g' s \<noteq> Fresh" if "s \<in> is_set g'"
      using that gate_okD(3) [OF assms(1), of s] gate_okD(4) [OF assms(1), of s] by (cases "waiters g") (auto simp: i ph)
  qed
  then show ?thesis using cr cw ws by simp
qed

lemma leave_ok:
  assumes "gate_ok g" and "phase g t = Waiting" and "p \<notin> {Fresh, Bypass, InFn, Waiting}"
  defines "g' \<equiv> set_phase t p (abandon_waiter t g)"
  shows "gate_ok g' \<and> running g' = running g \<and> active g' = active g \<and> woken g' = woken g - {t} \<and>
    waiters g' = remove1 t (waiters g)"
proof -
  have r: "running g' = running g" and w: "woken g' = woken g - {t}"
    using assms(2,3) by (auto simp: g'_def running_def woken_def abandon_waiter_def)
  have "gate_ok g'"
    using gate_okD [OF assms(1)] assms(3)
    by (intro gate_okI [OF assms(1), of _ t p]) (simp_all add: g'_def abandon_waiter_def r [unfolded g'_def abandon_waiter_def])
  then show ?thesis using r w by (simp add: g'_def abandon_waiter_def)
qed

lemma committed_finish:
  assumes "gate_ok g" and "phase g t = InFn"
  defines "g' \<equiv> set_phase t Finished (wake_next (g\<lparr>active := active g - 1\<rparr>))"
  shows "committed g' = committed g - of_bool (waiters g = [])"
  using finish_ok [OF assms(1,2)] by (auto simp: committed_def g'_def)

lemma committed_leave:
  assumes "gate_ok g" and "phase g t = Waiting" and "p \<notin> {Fresh, Bypass, InFn, Waiting}"
  defines "g' \<equiv> set_phase t p (abandon_waiter t g)"
  shows "committed g' = committed g - of_bool (t \<in> woken g)"
  using leave_ok [OF assms(1-3)] gate_ok_finite(2) [OF assms(1)] card_Suc_Diff1 [of "woken g" t]
  by (auto simp: committed_def g'_def)

text \<open>
  What the two modules share: a slot is taken back by decrementing the counter and waking the
  newest waiter, as long as some call holds a slot.
\<close>

locale slot_gate =
  fixes rel :: "int \<Rightarrow> 't gate \<Rightarrow> 't gate" and dl :: bool
  assumes release_wakes: "0 < m \<Longrightarrow> 0 < active g \<Longrightarrow> rel m g = wake_next (g\<lparr>active := active g - 1\<rparr>)"
begin

abbreviation run :: "int \<Rightarrow> 't event \<Rightarrow> 't gate \<Rightarrow> 't gate option" where
  "run m \<equiv> gate_event m (rel m) dl"

lemma finish_eq:
  assumes "0 < m" and "gate_ok g" and "phase g t = InFn"
  shows "run m (Finish t) g = Some (set_phase t Finished (wake_next (g\<lparr>active := active g - 1\<rparr>)))"
  using assms card_running_pos [OF assms(2,3)] by (simp add: release_wakes)

lemma event_ok:
  assumes "0 < m" and "gate_ok g" and "run m e g = Some g'"
  shows "gate_ok g'"
proof (cases e)
  case (Arrive t)
  then show ?thesis
    using assms arrive_running [of g t m] arrive_waiting [of g t m] by (auto split: if_splits)
next
  case (Resume t)
  then show ?thesis using assms take_slot_ok [of g t] by (auto simp: woken_def split: if_splits)
next
  case (Finish t)
  with assms(2,3) have ph: "phase g t = InFn" using gate_okD(5) [OF assms(2), of t] by (auto split: if_splits)
  then show ?thesis using assms Finish finish_eq [OF assms(1,2) ph] finish_ok [OF assms(2) ph] by simp
next
  case (Expire t)
  then show ?thesis using assms leave_ok [of g t Overloaded] by (auto split: if_splits)
next
  case (Leave t)
  then show ?thesis using assms leave_ok [of g t Abandoned] by (auto split: if_splits)
qed

lemma event_commit:
  assumes "0 < m" and "gate_ok g" and "run m e g = Some g'"
  shows "committed g \<le> m + int b \<Longrightarrow> committed g' \<le> m + int (b + of_bool (overtakes m g e))"
    and "(waiters g \<noteq> [] \<Longrightarrow> m \<le> committed g + int l) \<Longrightarrow> waiters g' \<noteq> [] \<Longrightarrow>
      m \<le> committed g' + int (l + of_bool (loses g e))"
proof -
  have "(committed g \<le> m + int b \<longrightarrow> committed g' \<le> m + int (b + of_bool (overtakes m g e))) \<and>
    ((waiters g \<noteq> [] \<longrightarrow> m \<le> committed g + int l) \<longrightarrow> waiters g' \<noteq> [] \<longrightarrow>
      m \<le> committed g' + int (l + of_bool (loses g e)))" (is "?P g'")
  proof (cases e)
    case (Arrive t)
    then have ph: "phase g t = Fresh" and g': "g' = arrive m t g" using assms(3) by (auto split: if_splits)
    show ?thesis
    proof (cases "active g < m")
      case True
      then show ?thesis using arrive_running [OF assms(2) ph assms(1) True] Arrive
        by (auto simp: g' committed_def)
    next
      case False
      then show ?thesis using arrive_waiting [OF assms(2) ph assms(1) False] Arrive by (auto simp: g')
    qed
  next
    case (Resume t)
    then have "t \<in> woken g" and "g' = take_slot t g" using assms(3) by (auto simp: woken_def split: if_splits)
    then show ?thesis using take_slot_ok [OF assms(2)] Resume by auto
  next
    case (Finish t)
    with assms(2,3) have ph: "phase g t = InFn" using gate_okD(5) [OF assms(2), of t] by (auto split: if_splits)
    then show ?thesis
      using assms(3) Finish finish_eq [OF assms(1,2) ph] finish_ok [OF assms(2) ph] committed_finish [OF assms(2) ph] by auto
  next
    case (Expire t)
    then have ph: "phase g t = Waiting" "t \<notin> woken g" and g': "g' = set_phase t Overloaded (abandon_waiter t g)"
      using assms(3) by (auto simp: woken_def split: if_splits)
    then show ?thesis
      using Expire leave_ok [OF assms(2) ph(1), of Overloaded] committed_leave [OF assms(2) ph(1), of Overloaded] by auto
  next
    case (Leave t)
    then have ph: "phase g t = Waiting" and g': "g' = set_phase t Abandoned (abandon_waiter t g)"
      using assms(3) by (auto split: if_splits)
    then show ?thesis
      using Leave leave_ok [OF assms(2) ph, of Abandoned] committed_leave [OF assms(2) ph, of Abandoned] by auto
  qed
  then show "committed g \<le> m + int b \<Longrightarrow> committed g' \<le> m + int (b + of_bool (overtakes m g e))"
    and "(waiters g \<noteq> [] \<Longrightarrow> m \<le> committed g + int l) \<Longrightarrow> waiters g' \<noteq> [] \<Longrightarrow>
      m \<le> committed g' + int (l + of_bool (loses g e))" by blast+
qed

lemma new_gate_ok: "gate_ok (new_gate :: 't gate)" "committed (new_gate :: 't gate) = 0"
  by (simp_all add: gate_ok_def new_gate_def running_def committed_def woken_def)

lemma reach_ok: "gate_reach m (run m) b l g \<Longrightarrow> 0 < m \<Longrightarrow> gate_ok g"
  by (induction rule: gate_reach.induct) (simp add: new_gate_ok, blast intro: event_ok)

lemma reach_bound: "gate_reach m (run m) b l g \<Longrightarrow> 0 < m \<Longrightarrow> committed g \<le> m + int b"
  by (induction rule: gate_reach.induct) (simp add: new_gate_ok, blast intro: event_commit(1) reach_ok)

lemma reach_busy: "gate_reach m (run m) b l g \<Longrightarrow> 0 < m \<Longrightarrow> waiters g \<noteq> [] \<Longrightarrow> m \<le> committed g + int l"
proof (induction rule: gate_reach.induct)
  case (reach_event b l g e g')
  then show ?case using event_commit(2) [OF _ reach_ok [OF reach_event.hyps(1)] reach_event.hyps(2)] by blast
qed (simp add: new_gate_def)

lemma serving_loses_nobody: "serving e \<Longrightarrow> \<not> loses g e \<and> \<not> overtakes m g e"
  by (cases e) simp_all

lemma serving_decreases:
  assumes "0 < m" and "gate_ok g" and "serving e" and "run m e g = Some g'"
  shows "3 * length (waiters g') + 2 * card (woken g') + card (running g') <
    3 * length (waiters g) + 2 * card (woken g) + card (running g)"
proof (cases e)
  case (Resume t)
  then have "t \<in> woken g" and "g' = take_slot t g" using assms(4) by (auto simp: woken_def split: if_splits)
  then show ?thesis using take_slot_ok [OF assms(2), of t] by auto
next
  case (Finish t)
  with assms have ph: "phase g t = InFn" using gate_okD(5) [OF assms(2), of t] by (auto split: if_splits)
  then show ?thesis
    using assms(4) Finish finish_eq [OF assms(1,2) ph] finish_ok [OF assms(2) ph] by (cases "waiters g") auto
qed (use assms(3) in simp_all)

lemma serves:
  assumes "0 < m" and "gate_reach m (run m) b 0 g" and "list_all serving es" and "run_events (run m) es g = Some g'"
  shows "length es \<le> 3 * length (waiters g) + 2 * card (woken g) + card (running g)"
    and "(\<And>e. serving e \<Longrightarrow> run m e g' = None) \<Longrightarrow> phase g' t \<noteq> Waiting \<and> phase g' t \<noteq> InFn"
proof -
  have "length es \<le> 3 * length (waiters g) + 2 * card (woken g) + card (running g) \<and> gate_reach m (run m) b 0 g'"
    using assms(2-4)
  proof (induction es arbitrary: g)
    case (Cons e es)
    then obtain g1 where g1: "run m e g = Some g1" "run_events (run m) es g1 = Some g'" by (auto split: Option.bind_splits)
    have "gate_reach m (run m) b 0 g1"
      using reach_event [OF Cons.prems(1) g1(1)] serving_loses_nobody [of e] Cons.prems(2) by simp
    then show ?case
      using Cons.IH [OF _ _ g1(2)] serving_decreases [OF assms(1) reach_ok [OF Cons.prems(1) assms(1)] _ g1(1)] Cons.prems(2)
      by auto
  qed simp
  then have r: "gate_reach m (run m) b 0 g'" and
    len: "length es \<le> 3 * length (waiters g) + 2 * card (woken g) + card (running g)" by auto
  show "length es \<le> 3 * length (waiters g) + 2 * card (woken g) + card (running g)" by (rule len)
  assume stuck: "\<And>e. serving e \<Longrightarrow> run m e g' = None"
  have ok: "gate_ok g'" using reach_ok [OF r assms(1)] .
  have nr: "phase g' s \<noteq> InFn" for s using stuck [of "Finish s"] by auto
  have nw: "s \<notin> woken g'" for s using stuck [of "Resume s"] by (auto simp: woken_def)
  have "running g' = {}" "woken g' = {}" using nr nw by (auto simp: running_def)
  then have "committed g' = 0" using gate_okD(1) [OF ok] by (simp add: committed_def)
  then have "waiters g' = []" using reach_busy [OF r assms(1)] assms(1) by auto
  then show "phase g' t \<noteq> Waiting \<and> phase g' t \<noteq> InFn" using gate_okD(3) [OF ok, of t] nw nr by (auto simp: woken_def)
qed

end

interpretation titiler_slots: slot_gate release_slot False
  by unfold_locales (simp add: release_slot_def)

interpretation db_slots: slot_gate db_release True
  by unfold_locales (simp add: db_release_def)

section \<open>Properties\<close>

text \<open>C14: Both gates, over every interleaving of calls: the counter is the number of calls that run, and the queue
  holds, once each, the calls that wait and have not been woken.\<close>

theorem gates_count_running_calls:
  assumes "0 < m" and "gate_reach m run b l g" and "run = titiler_upstream_gate_run m \<or> run = run_gated m"
  shows "active g = int (card {t. phase g t = InFn}) \<and> distinct (waiters g) \<and>
    set (waiters g) = {t. phase g t = Waiting \<and> t \<notin> is_set g}"
proof -
  have "gate_ok g"
    using assms titiler_slots.reach_ok db_slots.reach_ok by (auto simp: titiler_upstream_gate_run_def run_gated_def)
  then show ?thesis by (simp add: gate_ok_def running_def)
qed

text \<open>One slot, held by call 0, with call 1 waiting.\<close>

definition busy_gate :: "nat gate" where
  "busy_gate = \<lparr>active = 1, waiters = [1], is_set = {}, phase = (\<lambda>_. Fresh)(0 := InFn, 1 := Waiting)\<rparr>"

lemma busy_gate_reach: "gate_reach 1 (gate_event 1 rel dl) 0 0 busy_gate"
proof -
  let ?g = "arrive 1 0 (new_gate :: nat gate)"
  have w: "woken (new_gate :: nat gate) = {}" "woken ?g = {}"
    by (auto simp: woken_def new_gate_def arrive_def set_phase_def)
  have 1: "gate_event 1 rel dl (Arrive 0) new_gate = Some ?g" by (simp add: new_gate_def)
  have 2: "gate_event 1 rel dl (Arrive 1) ?g = Some busy_gate"
    by (simp add: new_gate_def arrive_def set_phase_def busy_gate_def)
  show ?thesis using reach_event [OF reach_event [OF reach_new [of 1 "gate_event 1 rel dl"] 1] 2] w by simp
qed

theorem gates_count_running_calls_witness:
  "active busy_gate = int (card {t. phase busy_gate t = InFn}) \<and> waiters busy_gate = [1]"
  using gates_count_running_calls [of 1 "run_gated 1" 0 0 busy_gate] busy_gate_reach [of "db_release 1" True]
  by (simp add: run_gated_def busy_gate_def)

text \<open>C13: The cap. At any time, the calls that run and the woken calls about to run are at most the configured
  maximum plus the arrivals that took a slot while a woken call had not resumed yet. When no arrival does
  that, the number of running calls never exceeds the maximum.\<close>

theorem gate_cap_bound:
  assumes "0 < m" and "gate_reach m run b l g" and "run = titiler_upstream_gate_run m \<or> run = run_gated m"
  shows "int (card {t. phase g t = InFn}) + int (card {t. phase g t = Waiting \<and> t \<in> is_set g}) \<le> m + int b"
proof -
  have "gate_ok g" "committed g \<le> m + int b"
    using assms titiler_slots.reach_bound db_slots.reach_bound titiler_slots.reach_ok db_slots.reach_ok
    by (auto simp: titiler_upstream_gate_run_def run_gated_def)
  then show ?thesis by (simp add: committed_def woken_def gate_ok_def running_def)
qed

theorem gate_cap_bound_witness:
  "int (card {t. phase busy_gate t = InFn}) + int (card {t. phase busy_gate t = Waiting \<and> t \<in> is_set busy_gate}) \<le> 1"
  using gate_cap_bound [of 1 "titiler_upstream_gate_run 1" 0 0 busy_gate] busy_gate_reach [of "release_slot 1" False]
  by (simp add: titiler_upstream_gate_run_def)

text \<open>C19: Waiting calls are served. In a run in which no woken call left, let only calls resume and finish: there are
  at most three such events per call, and when none is possible any more no call waits and none runs. So
  as long as the guarded work ends, every waiting call gets its turn.\<close>

theorem gate_serves_waiters:
  assumes "0 < m" and "gate_reach m run b 0 g" and "run = titiler_upstream_gate_run m \<or> run = run_gated m"
    and "list_all serving es" and "run_events run es g = Some g'"
  shows "length es \<le> 3 * length (waiters g) + 2 * card (woken g) + card (running g) \<and>
    ((\<forall>e. serving e \<longrightarrow> run e g' = None) \<longrightarrow> (\<forall>t. phase g' t \<noteq> Waiting \<and> phase g' t \<noteq> InFn))"
  using assms(3)
proof
  assume r: "run = titiler_upstream_gate_run m"
  note * = assms(2,5) [unfolded r titiler_upstream_gate_run_def]
  show ?thesis using titiler_slots.serves [OF assms(1) *(1) assms(4) *(2)]
    unfolding r titiler_upstream_gate_run_def by blast
next
  assume r: "run = run_gated m"
  note * = assms(2,5) [unfolded r run_gated_def]
  show ?thesis using db_slots.serves [OF assms(1) *(1) assms(4) *(2)] unfolding r run_gated_def by blast
qed

theorem gate_serves_waiters_witness:
  "3 \<le> 3 * length (waiters busy_gate) + 2 * card (woken busy_gate) + card (running busy_gate)"
proof -
  have "run_events (run_gated 1) [Finish 0, Resume 1, Finish 1] busy_gate =
      Some \<lparr>active = 0, waiters = [], is_set = {1}, phase = (\<lambda>_. Fresh)(0 := Finished, 1 := Finished)\<rparr>"
    by (simp add: busy_gate_def run_gated_def db_release_def wake_next_def take_slot_def set_phase_def)
  from gate_serves_waiters [OF _ busy_gate_reach [of "db_release 1" True, folded run_gated_def] _ _ this]
  have "length [Finish 0, Resume 1, Finish (1 :: nat)] \<le>
      3 * length (waiters busy_gate) + 2 * card (woken busy_gate) + card (running busy_gate)" by simp
  then show ?thesis by simp
qed

text \<open>The cap can be exceeded: with one slot, a call that arrives after the running one has finished and
  before the woken waiter resumes takes the slot too, and two calls run.\<close>

theorem gate_cap_exceeded:
  "map_option active (run_events (titiler_upstream_gate_run 1)
     [Arrive 0, Arrive 1, Finish 0, Arrive 2, Resume (1 :: nat)] new_gate) = Some 2"
  by (simp add: titiler_upstream_gate_run_def new_gate_def arrive_def release_slot_def wake_next_def take_slot_def set_phase_def)

text \<open>A wake-up can be lost: with one slot and two waiters, when the woken one leaves before it resumes, the
  slot is free and the other waiter is not woken; no call can resume or finish any more.\<close>

theorem gate_wakeup_lost:
  "\<exists>g. run_events (titiler_upstream_gate_run 1) [Arrive 0, Arrive 1, Arrive 2, Finish 0, Leave (2 :: nat)] new_gate = Some g \<and>
     active g = 0 \<and> waiters g = [1] \<and> (\<forall>t. titiler_upstream_gate_run 1 (Resume t) g = None \<and> titiler_upstream_gate_run 1 (Finish t) g = None)"
proof -
  let ?g = "\<lparr>active = 0, waiters = [1], is_set = {2}, phase = (\<lambda>_. Fresh)(1 := Waiting, 0 := Finished, 2 := Abandoned)\<rparr> :: nat gate"
  have "run_events (titiler_upstream_gate_run 1) [Arrive 0, Arrive 1, Arrive 2, Finish 0, Leave (2 :: nat)] new_gate = Some ?g"
    by (simp add: titiler_upstream_gate_run_def new_gate_def arrive_def release_slot_def wake_next_def abandon_waiter_def
        set_phase_def)
  moreover have "titiler_upstream_gate_run 1 (Resume t) ?g = None \<and> titiler_upstream_gate_run 1 (Finish t) ?g = None" for t
    by (simp add: titiler_upstream_gate_run_def)
  ultimately show ?thesis by (intro exI [of _ ?g]) simp
qed

end
