(* ===== verification/Titiler_Client.thy ===== *)
theory Titiler_Client
  imports GFM_Prelude App_Settings
begin

text \<open>
  \<^verbatim>\<open>app/services/titiler_inflight.py\<close> and \<^verbatim>\<open>app/services/titiler_retry.py\<close>: sharing one upstream
  fetch between the callers of the same tile, and retrying upstream requests.

  The single-flight registry is a state machine. Its lock protects sections without an \<^verbatim>\<open>await\<close>, so an
  event is: a caller joins, a fetch ends, a caller is handed the result of its future, or a caller
  is cancelled, which in \<^verbatim>\<open>asyncio\<close> also cancels the future it awaits.

  Shown: at most one fetch per key runs, the registry holds exactly the running fetches, every caller
  waits for the fetch of its own key, a caller of a fetch that has ended is never left waiting, and
  callers of one fetch get one result. The retry loop repeats a request exactly while its outcome is
  retryable and attempts are left, and returns the outcome of the last one.
\<close>

section \<open>Single flight: definitions\<close>

datatype 'v future = Pending | Result 'v | Raised exn | Cancelled

record ('k, 't, 'v) flights =
  registry :: "'k \<rightharpoonup> nat"
  futures :: "nat \<Rightarrow> 'v future"
  next_future :: nat
  fetching :: "nat \<rightharpoonup> 'k"
  started :: "nat \<rightharpoonup> 'k"
  awaiting :: "'t \<rightharpoonup> 'k \<times> nat"
  received :: "'t \<rightharpoonup> 'k \<times> nat \<times> 'v future"

definition no_flights :: "('k, 't, 'v) flights" where
  "no_flights = \<lparr>registry = Map.empty, futures = (\<lambda>_. Pending), next_future = 0, fetching = Map.empty,
     started = Map.empty, awaiting = Map.empty, received = Map.empty\<rparr>"

datatype ('k, 't, 'v) flight_event = Join 't 'k | FetchEnds nat "exn + 'v" | Deliver 't | Cancel 't

definition settle :: "'v future \<Rightarrow> exn + 'v \<Rightarrow> 'v future" where
  "settle f r = (if f = Pending then (case r of Inl e \<Rightarrow> Raised e | Inr v \<Rightarrow> Result v) else f)"

text \<open>
  \<open>None\<close> where the event is not possible. \<open>fetching\<close> has the key of every fetch that runs and \<open>started\<close>
  the key of every fetch that ever ran; \<open>awaiting\<close> has the key a waiting caller asked for and the future it
  awaits, and \<open>received\<close>, for a caller that was handed the outcome of its future, also what it held. A future that was cancelled refuses
  the result (\<^verbatim>\<open>InvalidStateError\<close>); the registry is cleaned up all the same.
\<close>

fun await_tile_singleflight ::
    "('k, 't, 'v) flight_event \<Rightarrow> ('k, 't, 'v) flights \<Rightarrow> ('k, 't, 'v) flights option" where
  "await_tile_singleflight (Join t k) s =
     (if awaiting s t \<noteq> None then None
      else case registry s k of
        None \<Rightarrow> Some (s\<lparr>registry := (registry s)(k \<mapsto> next_future s),
                        fetching := (fetching s)(next_future s \<mapsto> k),
                        started := (started s)(next_future s \<mapsto> k),
                        awaiting := (awaiting s)(t \<mapsto> (k, next_future s)),
                        next_future := Suc (next_future s)\<rparr>)
      | Some f \<Rightarrow> Some (s\<lparr>awaiting := (awaiting s)(t \<mapsto> (k, f))\<rparr>))"
| "await_tile_singleflight (FetchEnds f r) s =
     (case fetching s f of
        None \<Rightarrow> None
      | Some k \<Rightarrow> Some (s\<lparr>futures := (futures s)(f := settle (futures s f) r),
                          registry := (if registry s k = Some f then (registry s)(k := None) else registry s),
                          fetching := (fetching s)(f := None)\<rparr>))"
| "await_tile_singleflight (Deliver t) s =
     (case awaiting s t of
        None \<Rightarrow> None
      | Some (k, f) \<Rightarrow> if futures s f = Pending then None
          else Some (s\<lparr>awaiting := (awaiting s)(t := None), received := (received s)(t \<mapsto> (k, f, futures s f))\<rparr>))"
| "await_tile_singleflight (Cancel t) s =
     (case awaiting s t of
        None \<Rightarrow> None
      | Some (k, f) \<Rightarrow> Some (s\<lparr>futures := (futures s)(f := (if futures s f = Pending then Cancelled else futures s f)),
                          awaiting := (awaiting s)(t := None)\<rparr>))"

inductive flight_reach :: "('k, 't, 'v) flights \<Rightarrow> bool" where
  flight_start: "flight_reach no_flights"
| flight_step: "flight_reach s \<Longrightarrow> await_tile_singleflight e s = Some s' \<Longrightarrow> flight_reach s'"

fun flight_events :: "('k, 't, 'v) flight_event list \<Rightarrow> ('k, 't, 'v) flights \<Rightarrow> ('k, 't, 'v) flights option" where
  "flight_events [] s = Some s"
| "flight_events (e # es) s = Option.bind (await_tile_singleflight e s) (flight_events es)"

section \<open>Retries: definitions\<close>

definition TITILER_RETRYABLE_HTTP_STATUS :: "int list" where
  "TITILER_RETRYABLE_HTTP_STATUS = [404, 500, 502, 503, 504]"

definition titiler_http_status_retryable :: "int \<Rightarrow> bool" where
  "titiler_http_status_retryable status_code \<longleftrightarrow> status_code \<in> set TITILER_RETRYABLE_HTTP_STATUS"

definition titiler_retry_backoff_seconds :: "int \<Rightarrow> rat \<Rightarrow> rat \<Rightarrow> rat" where
  "titiler_retry_backoff_seconds attempt_idx base max_seconds =
     (if attempt_idx < 0 then 0 else min max_seconds (base * 2 ^ nat attempt_idx))"

definition retry_settings :: "settings \<Rightarrow> int \<times> rat \<times> rat" where
  "retry_settings cfg =
     (let max_attempts = max 1 (or_default (titiler_retry_max_attempts cfg) 3);
          base = max (5 / 100) (or_default (titiler_retry_base_seconds cfg) (15 / 100));
          max_backoff = max base (or_default (titiler_retry_max_seconds cfg) 2)
      in (max_attempts, base, max_backoff))"

text \<open>
  The loop over \<^verbatim>\<open>range(attempts_limit)\<close>: \<open>n\<close> attempts are left, \<open>attempt\<close> is the index of the next.
  \<open>request_fn\<close>, the hook \<open>before_retry\<close> and the sleeping are programs; \<open>status\<close> reads the status
  code of a response.
\<close>

fun retry_attempts ::
    "('w, 'r) prog \<Rightarrow> ('r \<Rightarrow> int) \<Rightarrow> (int \<Rightarrow> exn + 'r \<Rightarrow> ('w, unit) prog) \<Rightarrow> (rat \<Rightarrow> ('w, unit) prog) \<Rightarrow>
     rat \<Rightarrow> rat \<Rightarrow> nat \<Rightarrow> int \<Rightarrow> exn option \<Rightarrow> ('w, 'r \<times> int) prog" where
  "retry_attempts request_fn status before_retry sleep base cap 0 attempt last_exc =
     (case last_exc of Some e \<Rightarrow> raise e
      | None \<Rightarrow> raise (RuntimeError ''titiler_execute_with_retry: no response''))"
| "retry_attempts request_fn status before_retry sleep base cap (Suc n) attempt last_exc =
     (\<lambda>w. case request_fn w of
        (Inl RequestError, w1) \<Rightarrow>
          if n = 0 then (Inl RequestError, w1)
          else bnd (before_retry attempt (Inl RequestError)) (\<lambda>_.
               bnd (sleep (titiler_retry_backoff_seconds attempt base cap)) (\<lambda>_.
               retry_attempts request_fn status before_retry sleep base cap n (attempt + 1) (Some RequestError))) w1
      | (Inl e, w1) \<Rightarrow> (Inl e, w1)
      | (Inr resp, w1) \<Rightarrow>
          if titiler_http_status_retryable (status resp) \<and> n \<noteq> 0
          then bnd (before_retry attempt (Inr resp)) (\<lambda>_.
               bnd (sleep (titiler_retry_backoff_seconds attempt base cap)) (\<lambda>_.
               retry_attempts request_fn status before_retry sleep base cap n (attempt + 1) last_exc)) w1
          else (Inr (resp, attempt + 1), w1))"

definition titiler_execute_with_retry ::
    "settings \<Rightarrow> ('w, 'r) prog \<Rightarrow> ('r \<Rightarrow> int) \<Rightarrow> int option \<Rightarrow> rat option \<Rightarrow> rat option \<Rightarrow>
     (int \<Rightarrow> exn + 'r \<Rightarrow> ('w, unit) prog) option \<Rightarrow> (rat \<Rightarrow> ('w, unit) prog) \<Rightarrow> ('w, 'r \<times> int) prog" where
  "titiler_execute_with_retry cfg request_fn status max_attempts base_seconds max_backoff_seconds before_retry sleep =
     (let (cfg_max, cfg_base, cfg_cap) = retry_settings cfg in
      retry_attempts request_fn status (or_else before_retry (\<lambda>_ _. ret ())) sleep
        (or_else base_seconds cfg_base) (or_else max_backoff_seconds cfg_cap) (nat (or_else max_attempts cfg_max)) 0 None)"

section \<open>Single flight: the invariant\<close>

definition flights_ok :: "('k, 't, 'v) flights \<Rightarrow> bool" where
  "flights_ok s \<longleftrightarrow> (\<forall>k f. registry s k = Some f \<longleftrightarrow> fetching s f = Some k) \<and>
     (\<forall>f. fetching s f \<noteq> None \<longrightarrow> f < next_future s) \<and>
     (\<forall>f. f < next_future s \<and> fetching s f = None \<longrightarrow> futures s f \<noteq> Pending) \<and>
     (\<forall>f k. started s f = Some k \<longrightarrow> f < next_future s) \<and>
     (\<forall>f k. fetching s f = Some k \<longrightarrow> started s f = Some k) \<and>
     (\<forall>t k f. awaiting s t = Some (k, f) \<longrightarrow> started s f = Some k) \<and>
     (\<forall>t k f v. received s t = Some (k, f, v) \<longrightarrow> started s f = Some k \<and> v = futures s f \<and> v \<noteq> Pending)"

lemma settle_done [simp]: "settle f r \<noteq> Pending" "f \<noteq> Pending \<Longrightarrow> settle f r = f"
  by (simp_all add: settle_def split: sum.split)

lemma flight_event_ok:
  assumes "flights_ok s" and "await_tile_singleflight e s = Some s'"
  shows "flights_ok s'"
proof (cases e)
  case (Join t k)
  show ?thesis
  proof (cases "registry s k")
    case None
    have "fetching s (next_future s) = None" using assms(1) by (auto simp: flights_ok_def)
    moreover have "s' = s\<lparr>registry := (registry s)(k \<mapsto> next_future s), fetching := (fetching s)(next_future s \<mapsto> k),
        started := (started s)(next_future s \<mapsto> k), awaiting := (awaiting s)(t \<mapsto> (k, next_future s)),
        next_future := Suc (next_future s)\<rparr>"
      using assms(2) Join None by (auto split: if_splits)
    moreover have "fetching s f \<noteq> Some k" for f using assms(1) None unfolding flights_ok_def by (metis option.distinct(1))
    moreover have "started s (next_future s) = None"
      using assms(1) unfolding flights_ok_def by (metis less_irrefl option.exhaust)
    ultimately show ?thesis using assms(1) None by (auto simp: flights_ok_def less_Suc_eq)
  next
    case (Some f)
    then have "s' = s\<lparr>awaiting := (awaiting s)(t \<mapsto> (k, f))\<rparr>" using assms(2) Join by (auto split: if_splits)
    then show ?thesis using assms(1) Some by (auto simp: flights_ok_def)
  qed
next
  case (FetchEnds f r)
  then obtain k where k: "fetching s f = Some k" using assms(2) by (auto split: option.splits)
  then have r: "registry s k = Some f" using assms(1) by (simp add: flights_ok_def)
  then have s': "s' = s\<lparr>futures := (futures s)(f := settle (futures s f) r), registry := (registry s)(k := None),
      fetching := (fetching s)(f := None)\<rparr>" using assms(2) FetchEnds k by simp
  have reg: "registry s k' = Some f' \<longleftrightarrow> fetching s f' = Some k'" for k' f' using assms(1) by (simp add: flights_ok_def)
  have "registry s' k' = Some f' \<longleftrightarrow> fetching s' f' = Some k'" for k' f'
    using reg [of k' f'] reg [of k f'] reg [of k' f] k by (auto simp: s')
  moreover have "fetching s' f' \<noteq> None \<Longrightarrow> f' < next_future s'" for f'
    using assms(1) by (auto simp: s' flights_ok_def split: if_splits)
  moreover have "f' < next_future s' \<Longrightarrow> fetching s' f' = None \<Longrightarrow> futures s' f' \<noteq> Pending" for f'
    using assms(1) by (simp add: s' flights_ok_def split: if_splits)
  moreover have "started s' f' = Some k' \<Longrightarrow> f' < next_future s'" for f' k'
    using assms(1) by (simp add: s' flights_ok_def)
  moreover have "fetching s' f' = Some k' \<Longrightarrow> started s' f' = Some k'" for f' k'
    using assms(1) by (simp add: s' flights_ok_def split: if_splits)
  moreover have "awaiting s' t = Some (k', f') \<Longrightarrow> started s' f' = Some k'" for t k' f'
    using assms(1) by (simp add: s' flights_ok_def)
  moreover have "started s' f' = Some k' \<and> v = futures s' f' \<and> v \<noteq> Pending" if "received s' t = Some (k', f', v)" for t k' f' v
    using assms(1) that by (auto simp: s' flights_ok_def)
  ultimately show ?thesis unfolding flights_ok_def by blast
next
  case (Deliver t)
  then obtain k f where "awaiting s t = Some (k, f)" "futures s f \<noteq> Pending"
    "s' = s\<lparr>awaiting := (awaiting s)(t := None), received := (received s)(t \<mapsto> (k, f, futures s f))\<rparr>"
    using assms(2) by (auto split: option.splits if_splits)
  then show ?thesis using assms(1) by (auto simp: flights_ok_def)
next
  case (Cancel t)
  then obtain k f where "awaiting s t = Some (k, f)"
    "s' = s\<lparr>futures := (futures s)(f := (if futures s f = Pending then Cancelled else futures s f)),
       awaiting := (awaiting s)(t := None)\<rparr>"
    using assms(2) by (auto split: option.splits)
  then show ?thesis using assms(1) by (auto simp: flights_ok_def)
qed

lemma flight_reach_ok: "flight_reach s \<Longrightarrow> flights_ok s"
proof (induction rule: flight_reach.induct)
  case flight_start
  show ?case by (simp add: flights_ok_def no_flights_def)
qed (rule flight_event_ok)

lemma flight_reach_events: "flight_reach s \<Longrightarrow> flight_events es s = Some s' \<Longrightarrow> flight_reach s'"
proof (induction es arbitrary: s)
  case (Cons e es)
  then show ?case by (auto split: Option.bind_splits intro: flight_step)
qed simp

section \<open>Retries: the requests made\<close>

text \<open>The programs run on a world with a log of the outcomes of requests that only \<open>recorded\<close> extends.\<close>

definition recorded :: "('w, 'r) prog \<Rightarrow> ('w \<times> (exn + 'r) list, 'r) prog" where
  "recorded m = (\<lambda>(w, xs). case m w of (r, w') \<Rightarrow> (r, (w', xs @ [r])))"

definition unrecorded :: "('w, 'a) prog \<Rightarrow> ('w \<times> (exn + 'r) list, 'a) prog" where
  "unrecorded m = (\<lambda>(w, xs). case m w of (r, w') \<Rightarrow> (r, (w', xs)))"

lemma snd_unrecorded [simp]: "snd (snd (unrecorded m w)) = snd w"
  by (simp add: unrecorded_def split: prod.split)

lemma snd_pair_recorded: "recorded m w = (r, w') \<Longrightarrow> snd w' = snd w @ [r]"
  by (auto simp: recorded_def split: prod.splits)

text \<open>The two steps between attempts keep the log, whatever they do otherwise.\<close>

lemma bnd_unrecorded:
  assumes "\<And>w1. snd w1 = snd w \<Longrightarrow> P (f w1)" and "\<And>e w1. snd w1 = snd w \<Longrightarrow> P (Inl e, w1)"
  shows "P (bnd (unrecorded m) (\<lambda>_. f) w)"
proof (cases "fst (unrecorded m w)")
  case (Inl e)
  then show ?thesis using assms(2) [of "snd (unrecorded m w)" e] by (simp add: bnd_def)
next
  case (Inr a)
  then show ?thesis using assms(1) [of "snd (unrecorded m w)"] by (simp add: bnd_def)
qed

text \<open>The outcomes after which the request is worth repeating.\<close>

definition retryable :: "('r \<Rightarrow> int) \<Rightarrow> exn + 'r \<Rightarrow> bool" where
  "retryable status x \<longleftrightarrow> (case x of Inl e \<Rightarrow> e = RequestError | Inr r \<Rightarrow> status r \<in> {404, 500, 502, 503, 504})"

text \<open>What the loop guarantees when \<open>n\<close> attempts were left, \<open>attempt\<close> is the index of the next and \<open>xs\<close> had been recorded: it
  logs \<open>ys\<close>, all but the last of which are retryable; the last is the outcome when it is not retryable or no attempt is left.\<close>

definition retry_outcome :: "('r \<Rightarrow> int) \<Rightarrow> nat \<Rightarrow> int \<Rightarrow> (exn + 'r) list \<Rightarrow> (exn + 'r \<times> int) \<times> ('w \<times> (exn + 'r) list) \<Rightarrow> bool" where
  "retry_outcome status n attempt xs out \<longleftrightarrow> (\<exists>ys. snd (snd out) = xs @ ys \<and> length ys \<le> n \<and> (ys = [] \<longleftrightarrow> n = 0) \<and>
     (\<forall>x\<in>set (butlast ys). retryable status x) \<and>
     (if ys \<noteq> [] \<and> (\<not> retryable status (last ys) \<or> length ys = n)
      then fst out = (case last ys of Inl e \<Rightarrow> Inl e | Inr r \<Rightarrow> Inr (r, attempt + int (length ys)))
      else \<exists>e. fst out = Inl e))"

lemma retry_outcome_one:
  assumes "snd w = xs @ [x]" and "\<not> retryable status x \<or> n = 0"
  shows "retry_outcome status (Suc n) attempt xs ((case x of Inl e \<Rightarrow> Inl e | Inr r \<Rightarrow> Inr (r, attempt + 1)), w)"
  unfolding retry_outcome_def using assms by (intro exI [of _ "[x]"]) (auto split: sum.split)

lemma retry_outcome_more:
  assumes "retry_outcome status n (attempt + 1) (xs @ [x]) out" and "retryable status x" and "n \<noteq> 0"
  shows "retry_outcome status (Suc n) attempt xs out"
proof -
  obtain ys where ys: "snd (snd out) = (xs @ [x]) @ ys" "length ys \<le> n" "ys = [] \<longleftrightarrow> n = 0" "\<forall>x\<in>set (butlast ys). retryable status x"
    "if ys \<noteq> [] \<and> (\<not> retryable status (last ys) \<or> length ys = n)
      then fst out = (case last ys of Inl e \<Rightarrow> Inl e | Inr r \<Rightarrow> Inr (r, attempt + 1 + int (length ys)))
      else \<exists>e. fst out = Inl e"
    using assms(1) unfolding retry_outcome_def by blast
  then show ?thesis
    unfolding retry_outcome_def using assms(2,3)
    by (intro exI [of _ "x # ys"]) (auto simp: add.commute add.left_commute split: sum.splits)
qed

lemma retry_attempts_outcome:
  "retry_outcome status n attempt (snd w)
     (retry_attempts (recorded m) status (\<lambda>i x. unrecorded (b i x)) (\<lambda>d. unrecorded (sl d)) base cap n attempt last_exc w)"
proof (induction n arbitrary: attempt last_exc w)
  case 0
  show ?case by (simp add: retry_outcome_def raise_def split: option.split)
next
  case (Suc n)
  obtain r w1 where r: "recorded m w = (r, w1)" by (cases "recorded m w")
  have c: "snd w1 = snd w @ [r]" using snd_pair_recorded [OF r] .
  let ?rec = "\<lambda>le. retry_attempts (recorded m) status (\<lambda>i x. unrecorded (b i x)) (\<lambda>d. unrecorded (sl d)) base cap n (attempt + 1) le"
  have stop: "retry_outcome status (Suc n) attempt (snd w) (Inl e, w2)" if "n \<noteq> 0" "retryable status r" "snd w2 = snd w1" for e w2
    unfolding retry_outcome_def using that c by (intro exI [of _ "[r]"]) auto
  have again: "retry_outcome status (Suc n) attempt (snd w)
      (bnd (unrecorded p) (\<lambda>_. bnd (unrecorded q) (\<lambda>_. ?rec le)) w1)" if n: "n \<noteq> 0" and ret: "retryable status r" for p q le
  proof (rule bnd_unrecorded)
    fix w2 :: "'b \<times> (exn + 'a) list"
    assume w2: "snd w2 = snd w1"
    show "retry_outcome status (Suc n) attempt (snd w) (bnd (unrecorded q) (\<lambda>_. ?rec le) w2)"
    proof (rule bnd_unrecorded)
      fix w3 :: "'b \<times> (exn + 'a) list"
      assume "snd w3 = snd w2"
      then have "retry_outcome status n (attempt + 1) (snd w @ [r]) (?rec le w3)"
        using Suc.IH [of "attempt + 1" w3 le] w2 c by simp
      then show "retry_outcome status (Suc n) attempt (snd w) (?rec le w3)" using ret n by (rule retry_outcome_more)
    qed (use w2 stop n ret in simp)
  qed (use stop n ret in simp)
  note one = retry_outcome_one [OF c, of status n attempt]
  show ?case
  proof (cases r)
    case (Inl e)
    then show ?thesis
      using r one again by (cases e) (auto simp: retryable_def)
  next
    case (Inr resp)
    then show ?thesis
      using r one again by (auto simp: retryable_def titiler_http_status_retryable_def TITILER_RETRYABLE_HTTP_STATUS_def)
  qed
qed

section \<open>Properties\<close>

text \<open>C22: Single flight, over every interleaving of callers, fetches and cancellations: two fetches that run are for
  different keys; the registry holds a key exactly while its fetch runs; every waiting caller awaits a fetch that was started for the
  key it asked for, and so does every caller that was handed an outcome; a caller whose fetch has ended can be handed an outcome; and
  two callers handed the outcome of one fetch got the same.\<close>

theorem singleflight_one_fetch:
  assumes "flight_reach s"
  shows "(\<forall>f f' k. fetching s f = Some k \<and> fetching s f' = Some k \<longrightarrow> f = f') \<and>
    (\<forall>k. registry s k \<noteq> None \<longleftrightarrow> (\<exists>f. fetching s f = Some k)) \<and>
    (\<forall>t k f. awaiting s t = Some (k, f) \<longrightarrow> started s f = Some k \<and> (fetching s f = Some k \<or> fetching s f = None)) \<and>
    (\<forall>t k f. awaiting s t = Some (k, f) \<and> fetching s f = None \<longrightarrow> await_tile_singleflight (Deliver t) s \<noteq> None) \<and>
    (\<forall>t k f v. received s t = Some (k, f, v) \<longrightarrow> started s f = Some k) \<and>
    (\<forall>t t' k k' f v v'. received s t = Some (k, f, v) \<and> received s t' = Some (k', f, v') \<longrightarrow> v = v')"
proof -
  have ok: "flights_ok s" using flight_reach_ok [OF assms] .
  have one: "f = f'" if "fetching s f = Some k" "fetching s f' = Some k" for f f' k
    using ok that unfolding flights_ok_def by (metis option.inject)
  have reg: "registry s k \<noteq> None \<longleftrightarrow> (\<exists>f. fetching s f = Some k)" for k
    using ok unfolding flights_ok_def by (metis not_None_eq)
  have own: "started s f = Some k \<and> (fetching s f = Some k \<or> fetching s f = None)" if "awaiting s t = Some (k, f)" for t k f
    using ok that unfolding flights_ok_def by (metis not_None_eq option.inject)
  have handed: "await_tile_singleflight (Deliver t) s \<noteq> None" if "awaiting s t = Some (k, f)" "fetching s f = None" for t k f
  proof -
    have "futures s f \<noteq> Pending" using ok that own [OF that(1)] unfolding flights_ok_def by blast
    then show ?thesis using that(1) by simp
  qed
  have got: "started s f = Some k" "v = futures s f" if "received s t = Some (k, f, v)" for t k f v
    using ok that unfolding flights_ok_def by blast+
  then have same: "v = v'" if "received s t = Some (k, f, v)" "received s t' = Some (k', f, v')" for t t' k k' f v v'
    using that by metis
  show ?thesis
  proof (intro conjI)
    show "\<forall>f f' k. fetching s f = Some k \<and> fetching s f' = Some k \<longrightarrow> f = f'" using one by blast
    show "\<forall>k. registry s k \<noteq> None \<longleftrightarrow> (\<exists>f. fetching s f = Some k)" using reg by blast
    show "\<forall>t k f. awaiting s t = Some (k, f) \<longrightarrow> started s f = Some k \<and> (fetching s f = Some k \<or> fetching s f = None)"
      using own by blast
    show "\<forall>t k f. awaiting s t = Some (k, f) \<and> fetching s f = None \<longrightarrow> await_tile_singleflight (Deliver t) s \<noteq> None"
      using handed by blast
    show "\<forall>t k f v. received s t = Some (k, f, v) \<longrightarrow> started s f = Some k" using got(1) by blast
    show "\<forall>t t' k k' f v v'. received s t = Some (k, f, v) \<and> received s t' = Some (k', f, v') \<longrightarrow> v = v'" using same by blast
  qed
qed

theorem singleflight_one_fetch_witness:
  "\<exists>s :: (string, nat, int) flights. flight_events [Join 1 ''k'', Join 2 ''l'', Join 3 ''l'', FetchEnds 1 (Inr 7), Deliver 2, Deliver 3] no_flights = Some s \<and>
     received s 2 = Some (''l'', 1, Result 7) \<and> received s 3 = Some (''l'', 1, Result 7) \<and> started s 1 = Some ''l''"
proof -
  obtain s :: "(string, nat, int) flights" where
    s: "flight_events [Join 1 ''k'', Join 2 ''l'', Join 3 ''l'', FetchEnds 1 (Inr 7), Deliver 2, Deliver 3] no_flights = Some s"
    and r: "received s 2 = Some (''l'', 1, Result 7)" "\<exists>v. received s 3 = Some (''l'', 1, v)"
    by (simp add: no_flights_def settle_def)
  have "flight_reach s" using flight_reach_events [OF flight_start s] .
  from singleflight_one_fetch [OF this] r have "received s 3 = Some (''l'', 1, Result 7)" "started s 1 = Some ''l''" by metis+
  with s r show ?thesis by blast
qed

text \<open>Cancelling one caller cancels the others: the caller that started the fetch goes away, the future is
  cancelled, and a second caller, which is still there, is handed the cancellation although the fetch succeeds.\<close>

theorem singleflight_cancel_spreads:
  "map_option (\<lambda>s. received s 2)
     (flight_events [Join 1 ''k'', Join 2 ''k'', Cancel 1, FetchEnds 0 (Inr 7), Deliver (2 :: nat)]
        (no_flights :: (string, nat, int) flights)) = Some (Some (''k'', 0, Cancelled))"
  by (simp add: no_flights_def settle_def)

text \<open>C23: Retries are bounded and made for a reason. The loop makes at least one request and at most \<^verbatim>\<open>attempts_limit\<close> (none, and it
  raises, when the limit is below one); every request but the last had a retryable outcome (a request error, or the status 404, 500,
  502, 503 or 504); when the last outcome is not retryable, or it was the last attempt, the loop returns it, with the number of
  requests made, or raises its error; otherwise it raises, which only the hook between attempts or the sleeping can make it do.\<close>

theorem titiler_retry_bounded:
  fixes m :: "('w, 'r) prog" and w :: "'w \<times> (exn + 'r) list" and cfg :: settings and status :: "'r \<Rightarrow> int" and max_attempts :: "int option"
    and base_s cap_s :: "rat option" and before :: "(int \<Rightarrow> exn + 'r \<Rightarrow> ('w, unit) prog) option" and sl :: "rat \<Rightarrow> ('w, unit) prog"
  defines "out \<equiv> titiler_execute_with_retry cfg (recorded m) status max_attempts base_s cap_s
     (map_option (\<lambda>b i x. unrecorded (b i x)) before) (\<lambda>d. unrecorded (sl d)) w"
  defines "limit \<equiv> or_else max_attempts (fst (retry_settings cfg))"
  shows "\<exists>made. snd (snd out) = snd w @ made \<and> int (length made) \<le> max 0 limit \<and> (made = [] \<longleftrightarrow> limit < 1) \<and>
    (\<forall>x\<in>set (butlast made). retryable status x) \<and>
    (if made \<noteq> [] \<and> (\<not> retryable status (last made) \<or> int (length made) = limit)
     then fst out = (case last made of Inl e \<Rightarrow> Inl e | Inr r \<Rightarrow> Inr (r, int (length made)))
     else \<exists>e. fst out = Inl e)"
proof -
  have b: "or_else (map_option (\<lambda>b i x. unrecorded (b i x)) before) (\<lambda>_ _. ret ()) =
      (\<lambda>i x. unrecorded (or_else before (\<lambda>_ _. ret ()) i x) :: ('w \<times> (exn + 'r) list, unit) prog)"
    by (cases before) (simp_all add: fun_eq_iff unrecorded_def ret_def)
  obtain bs cs where out: "out = retry_attempts (recorded m) status (\<lambda>i x. unrecorded (or_else before (\<lambda>_ _. ret ()) i x))
      (\<lambda>d. unrecorded (sl d)) bs cs (nat limit) 0 None w"
    by (simp add: out_def limit_def titiler_execute_with_retry_def b case_prod_beta Let_def)
  have "retry_outcome status (nat limit) 0 (snd w) out" unfolding out by (rule retry_attempts_outcome)
  then obtain ys where ys: "snd (snd out) = snd w @ ys" "length ys \<le> nat limit" "ys = [] \<longleftrightarrow> nat limit = 0"
    "\<forall>x\<in>set (butlast ys). retryable status x"
    "if ys \<noteq> [] \<and> (\<not> retryable status (last ys) \<or> length ys = nat limit)
      then fst out = (case last ys of Inl e \<Rightarrow> Inl e | Inr r \<Rightarrow> Inr (r, 0 + int (length ys)))
      else \<exists>e. fst out = Inl e"
    unfolding retry_outcome_def by (elim exE conjE) (rule that; assumption)
  have l: "length ys = nat limit \<longleftrightarrow> int (length ys) = limit" if "ys \<noteq> []"
    using ys(3) that by auto
  show ?thesis
  proof (intro exI [of _ ys] conjI)
    show "if ys \<noteq> [] \<and> (\<not> retryable status (last ys) \<or> int (length ys) = limit)
      then fst out = (case last ys of Inl e \<Rightarrow> Inl e | Inr r \<Rightarrow> Inr (r, int (length ys)))
      else \<exists>e. fst out = Inl e"
      using ys(5) l by (cases "ys = []") (simp_all cong: sum.case_cong split: if_splits)
  qed (use ys in auto)
qed

theorem titiler_retry_bounded_witness:
  "let out = titiler_execute_with_retry default_settings (recorded (ret 503 :: (unit, int) prog)) id (Some 2) None None None
        (\<lambda>d. unrecorded (ret ())) ((), [])
   in fst out = Inr (503, 2) \<and> snd (snd out) = [Inr 503, Inr 503]"
proof -
  let ?out = "titiler_execute_with_retry default_settings (recorded (ret 503 :: (unit, int) prog)) id (Some 2) None None None
        (\<lambda>d. unrecorded (ret ())) ((), [])"
  have log: "snd (snd ?out) = [Inr 503, Inr 503]"
    by (simp add: titiler_execute_with_retry_def retry_settings_def Let_def numeral_2_eq_2 recorded_def unrecorded_def ret_def bnd_def
        titiler_http_status_retryable_def TITILER_RETRYABLE_HTTP_STATUS_def)
  have "fst ?out = Inr (503, 2)"
    using titiler_retry_bounded [of default_settings "ret 503 :: (unit, int) prog" id "Some 2" None None None "\<lambda>d. ret ()" "((), [])"]
    by (auto simp: log)
  with log show ?thesis by (simp add: Let_def)
qed

end
