(* ===== verification/Accounts.thy ===== *)
theory Accounts
  imports Py_Json
begin

text \<open>
  Users and their passwords: \<^verbatim>\<open>app/core/auth.py\<close>, \<^verbatim>\<open>app/crud/user.py\<close>, \<^verbatim>\<open>app/utils/nickname.py\<close> and the user
  management handlers of \<^verbatim>\<open>app/api/routes/auth.py\<close>.

  The database is a record of tables, each a list of rows. A query is a filter of its table, a
  handler a program on the database, which also holds the clock and the source of fresh ids; \<^verbatim>\<open>scalar_one_or_none\<close> raises on several rows, an insert that
  breaks a unique column raises \<open>SqlError\<close>. SHA-256 and bcrypt are parameters; what is used of them
  is that a digest is 64 hexadecimal digits and that a secret verifies against its own hash. Handlers
  that answer with a page or a redirect return a \<open>page\<close> naming it.

  Shown: the user table keeps unique ids and names and always holds an administrator, whatever
  handlers are called; a new password verifies, both typed and as the digest the web page sends.
\<close>

section \<open>The database\<close>

record user =
  user_id :: int
  username :: string
  nickname :: "string option"
  password_hash :: string
  is_admin :: bool
  must_change_password :: bool

record share =
  resource_type :: string
  resource_id :: string
  share_username :: string
  role :: string

record collection =
  collection_id :: string
  owner_id :: "int option"
  visibility :: string
  viewer_can_edit :: bool

record map_row =
  map_id :: nat
  map_name :: string
  map_description :: "string option"
  map_thumbnail :: "string option"
  map_thumbnail_data :: "string option"
  map_definition :: json
  map_owner :: "int option"
  map_visibility :: string
  map_viewer_can_edit :: bool
  map_updated_at :: int

record style_row =
  style_collection :: string
  style_id :: string
  style_owner :: "int option"
  style_visibility :: string
  style_title :: "string option"
  style_spec :: "(string \<times> json) list"
  style_default :: bool

record db =
  users :: "user list"
  next_user_id :: int
  shares :: "share list"
  collections :: "collection list"
  map_rows :: "map_row list"
  style_rows :: "style_row list"
  salts :: nat
  uuid_source :: "nat \<Rightarrow> nat"
  uuids_used :: nat
  db_now :: int

record crypto =
  sha256_hex :: "string \<Rightarrow> string"
  bcrypt_hash :: "nat \<Rightarrow> string \<Rightarrow> string"
  bcrypt_verify :: "string \<Rightarrow> string \<Rightarrow> bool"

definition scalar_one_or_none :: "'a list \<Rightarrow> ('w, 'a option) prog" where
  "scalar_one_or_none rows = (case rows of [] \<Rightarrow> ret None | [x] \<Rightarrow> ret (Some x) | _ \<Rightarrow> raise MultipleResultsFound)"

section \<open>Passwords\<close>

definition HEX_64 :: "string \<Rightarrow> bool" where
  "HEX_64 s \<longleftrightarrow> length s = 64 \<and> list_all (\<lambda>c. c \<in> set ''abcdef0123456789'') s"

definition secret :: "crypto \<Rightarrow> string \<Rightarrow> string" where
  "secret c v =
     (if v = '''' then v
      else if HEX_64 (py_lower (py_strip v)) then py_lower (py_strip v)
      else sha256_hex c v)"

definition hash_password :: "crypto \<Rightarrow> nat \<Rightarrow> string \<Rightarrow> string" where
  "hash_password c salt password = bcrypt_hash c salt (secret c password)"

definition verify_password :: "crypto \<Rightarrow> string \<Rightarrow> string \<Rightarrow> bool" where
  "verify_password c password h = bcrypt_verify c (secret c password) h"

section \<open>Nicknames\<close>

definition NICKNAME_MAX_LEN :: nat where
  "NICKNAME_MAX_LEN = 128"

definition normalize_nickname :: "string option \<Rightarrow> string option" where
  "normalize_nickname v =
     (case v of None \<Rightarrow> None | Some s \<Rightarrow> if py_strip s = '''' then None else Some (py_strip s))"

definition is_ascii_alnum :: "char \<Rightarrow> bool" where
  "is_ascii_alnum c \<longleftrightarrow> c \<in> set ''ABCDEFGHIJKLMNOPQRSTUVWXYZabcdefghijklmnopqrstuvwxyz0123456789''"

definition validate_nickname :: "string option \<Rightarrow> exn + string option" where
  "validate_nickname v =
     (case normalize_nickname v of
        None \<Rightarrow> Inr None
      | Some nick \<Rightarrow>
          if NICKNAME_MAX_LEN < length nick then Inl ValueError
          else if \<not> (1 \<le> length nick \<and> length nick \<le> 128 \<and> list_all is_ascii_alnum nick) then Inl ValueError
          else Inr (Some nick))"

section \<open>User rows\<close>

definition get_user_by_id :: "int \<Rightarrow> (db, user option) prog" where
  "get_user_by_id i = (\<lambda>d. scalar_one_or_none (filter (\<lambda>u. user_id u = i) (users d)) d)"

definition get_user_by_username :: "string \<Rightarrow> (db, user option) prog" where
  "get_user_by_username n =
     (\<lambda>d. if py_strip n = '''' then ret None d
          else scalar_one_or_none (filter (\<lambda>u. username u = py_strip n) (users d)) d)"

text \<open>The order of a text column is that of the database's collation, here a key function.\<close>

definition list_users :: "(string \<Rightarrow> 'o::linorder) \<Rightarrow> (db, user list) prog" where
  "list_users collate = gets (\<lambda>d. sort_key (\<lambda>u. collate (username u)) (users d))"

definition get_usernames_by_ids :: "int list \<Rightarrow> (db, (int \<times> string) list) prog" where
  "get_usernames_by_ids ids =
     gets (\<lambda>d. if ids = [] then [] else map (\<lambda>u. (user_id u, username u)) (filter (\<lambda>u. user_id u \<in> set ids) (users d)))"

definition get_nicknames_by_ids :: "int list \<Rightarrow> (db, (int \<times> string option) list) prog" where
  "get_nicknames_by_ids ids =
     gets (\<lambda>d. if ids = [] then [] else map (\<lambda>u. (user_id u, nickname u)) (filter (\<lambda>u. user_id u \<in> set ids) (users d)))"

definition get_nicknames_by_usernames :: "string list \<Rightarrow> (db, (string \<times> string option) list) prog" where
  "get_nicknames_by_usernames usernames =
     gets (\<lambda>d. let names = map py_strip (filter (\<lambda>u. py_strip u \<noteq> '''') usernames) in
            if names = [] then []
            else map (\<lambda>u. (username u, nickname u)) (filter (\<lambda>u. username u \<in> set names) (users d)))"

definition get_user_by_nickname :: "string \<Rightarrow> int option \<Rightarrow> (db, user option) prog" where
  "get_user_by_nickname n exclude_user_id =
     (\<lambda>d. let nick = py_strip n in
          if nick = '''' then ret None d
          else scalar_one_or_none (filter (\<lambda>u. map_option py_lower (nickname u) = Some (py_lower nick) \<and>
                 (case exclude_user_id of None \<Rightarrow> True | Some i \<Rightarrow> user_id u \<noteq> i)) (users d)) d)"

definition change_user :: "int \<Rightarrow> (user \<Rightarrow> user) \<Rightarrow> (db, user option) prog" where
  "change_user i f =
     bnd (get_user_by_id i) (\<lambda>r. case r of
       None \<Rightarrow> ret None
     | Some u \<Rightarrow>
         bnd (modify (\<lambda>d. d\<lparr>users := map (\<lambda>v. if user_id v = i then f v else v) (users d)\<rparr>)) (\<lambda>_. ret (Some (f u))))"

definition set_nickname :: "int \<Rightarrow> string option \<Rightarrow> (db, user option) prog" where
  "set_nickname i nick = change_user i (\<lambda>u. u\<lparr>nickname := nick\<rparr>)"

definition fresh_salt :: "(db, nat) prog" where
  "fresh_salt = (\<lambda>d. (Inr (salts d), d\<lparr>salts := Suc (salts d)\<rparr>))"

definition create_user :: "crypto \<Rightarrow> string \<Rightarrow> string \<Rightarrow> bool \<Rightarrow> bool \<Rightarrow> (db, user) prog" where
  "create_user c n password admin must_change =
     bnd fresh_salt (\<lambda>salt d.
       let u = \<lparr>user_id = next_user_id d, username = py_strip n, nickname = None,
                password_hash = hash_password c salt password, is_admin = admin, must_change_password = must_change\<rparr> in
       if username u \<in> username ` set (users d) then (Inl SqlError, d)
       else (Inr u, d\<lparr>users := users d @ [u], next_user_id := next_user_id d + 1\<rparr>))"

definition set_password :: "crypto \<Rightarrow> int \<Rightarrow> string \<Rightarrow> bool \<Rightarrow> (db, user option) prog" where
  "set_password c i new_password must_change =
     bnd (get_user_by_id i) (\<lambda>r. case r of
       None \<Rightarrow> ret None
     | Some _ \<Rightarrow> bnd fresh_salt (\<lambda>salt.
         change_user i (\<lambda>u. u\<lparr>password_hash := hash_password c salt new_password, must_change_password := must_change\<rparr>)))"

definition update_user :: "int \<Rightarrow> bool option \<Rightarrow> bool option \<Rightarrow> (db, user option) prog" where
  "update_user i admin must_change =
     change_user i (\<lambda>u. u\<lparr>is_admin := or_else admin (is_admin u), must_change_password := or_else must_change (must_change_password u)\<rparr>)"

text \<open>The foreign keys of the owned tables are \<^verbatim>\<open>ON DELETE SET NULL\<close>; shares name users by text and stay.\<close>

definition disown :: "int \<Rightarrow> int option \<Rightarrow> int option" where
  "disown i own = (if own = Some i then None else own)"

definition delete_user :: "int \<Rightarrow> (db, bool) prog" where
  "delete_user i =
     bnd (get_user_by_id i) (\<lambda>r. case r of
       None \<Rightarrow> ret False
     | Some _ \<Rightarrow>
         bnd (modify (\<lambda>d. d\<lparr>users := filter (\<lambda>u. user_id u \<noteq> i) (users d),
                collections := map (\<lambda>x. x\<lparr>owner_id := disown i (owner_id x)\<rparr>) (collections d),
                map_rows := map (\<lambda>x. x\<lparr>map_owner := disown i (map_owner x)\<rparr>) (map_rows d),
                style_rows := map (\<lambda>x. x\<lparr>style_owner := disown i (style_owner x)\<rparr>) (style_rows d)\<rparr>))
           (\<lambda>_. ret True))"

section \<open>Handlers\<close>

datatype page = Redirect string | Form string

definition require_admin :: "user option \<Rightarrow> (db, user) prog" where
  "require_admin current_user =
     (case current_user of
        None \<Rightarrow> raise (HTTPException 401 ''Authentication required'')
      | Some u \<Rightarrow> if is_admin u then ret u else raise (HTTPException 403 ''Admin access required''))"

definition create_user_post :: "crypto \<Rightarrow> user option \<Rightarrow> string \<Rightarrow> string \<Rightarrow> bool \<Rightarrow> (db, page) prog" where
  "create_user_post c current_user form_username password admin =
     bnd (require_admin current_user) (\<lambda>_.
     let n = py_strip form_username in
     if n = '''' then ret (Form ''Username required'')
     else bnd (get_user_by_username n) (\<lambda>existing.
       if existing \<noteq> None then ret (Form ''Username already exists'')
       else if password = '''' then ret (Form ''Password required'')
       else bnd (create_user c n password admin True) (\<lambda>_. ret (Redirect ''/auth/users?f=html''))))"

definition update_user_post ::
    "crypto \<Rightarrow> user option \<Rightarrow> int \<Rightarrow> bool \<Rightarrow> bool \<Rightarrow> string \<Rightarrow> (db, page) prog" where
  "update_user_post c current_user i admin must_change form_password =
     bnd (require_admin current_user) (\<lambda>_.
     let new_password = py_strip form_password in
     bnd (get_user_by_id i) (\<lambda>r. case r of
       None \<Rightarrow> raise (HTTPException 404 ''User not found'')
     | Some u \<Rightarrow>
         bnd (gets (\<lambda>d. length (filter is_admin (users d)))) (\<lambda>admin_count.
         if is_admin u \<and> \<not> admin \<and> admin_count \<le> 1 then ret (Form ''Cannot remove the last admin'')
         else bnd (update_user i (Some admin) (Some must_change)) (\<lambda>_.
              bnd (if new_password = '''' then ret None else set_password c i new_password must_change) (\<lambda>_.
              ret (Redirect ''/auth/users?f=html''))))))"

definition delete_user_post :: "user option \<Rightarrow> int \<Rightarrow> (db, page) prog" where
  "delete_user_post current_user i =
     bnd (require_admin current_user) (\<lambda>me.
     bnd (get_user_by_id i) (\<lambda>r. case r of
       None \<Rightarrow> raise (HTTPException 404 ''User not found'')
     | Some u \<Rightarrow>
         if is_admin u \<and> user_id me \<noteq> i then raise (HTTPException 403 ''Only an admin can delete another admin'')
         else if user_id me = i then raise (HTTPException 400 ''Cannot delete your own user'')
         else bnd (delete_user i) (\<lambda>_. ret (Redirect ''/auth/users?f=html''))))"

definition user_config_set_nickname :: "user \<Rightarrow> string option \<Rightarrow> (db, page) prog" where
  "user_config_set_nickname me raw =
     (case validate_nickname raw of
        Inl e \<Rightarrow> ret (Redirect ''nickname_error'')
      | Inr nick \<Rightarrow>
          bnd (case nick of None \<Rightarrow> ret None | Some n \<Rightarrow> get_user_by_nickname n (Some (user_id me))) (\<lambda>taken.
          if taken \<noteq> None then ret (Redirect ''nickname_error'')
          else catch (bnd (set_nickname (user_id me) nick) (\<lambda>_. ret (Redirect ''nickname_ok'')))
                 (\<lambda>e. if e = SqlError then ret (Redirect ''nickname_error'') else raise e)))"

section \<open>The user table stays well formed\<close>

definition users_ok :: "db \<Rightarrow> bool" where
  "users_ok d \<longleftrightarrow> distinct (map user_id (users d)) \<and> distinct (map username (users d)) \<and>
     (\<forall>u\<in>set (users d). user_id u < next_user_id d) \<and> (\<exists>u\<in>set (users d). is_admin u)"

lemma scalar_one_or_none_key:
  "distinct (map f xs) \<Longrightarrow> scalar_one_or_none (filter (\<lambda>x. f x = k) xs) = ret (find (\<lambda>x. f x = k) xs)"
  by (simp add: filter_key scalar_one_or_none_def split: option.split)

lemma get_user_by_id_eval:
  "users_ok d \<Longrightarrow> get_user_by_id i d = (Inr (find (\<lambda>u. user_id u = i) (users d)), d)"
  by (simp add: get_user_by_id_def users_ok_def scalar_one_or_none_key ret_def)

lemma get_user_by_username_eval:
  "users_ok d \<Longrightarrow> get_user_by_username n d =
     (Inr (if py_strip n = '''' then None else find (\<lambda>u. username u = py_strip n) (users d)), d)"
  by (simp add: get_user_by_username_def users_ok_def scalar_one_or_none_key ret_def)

lemma users_ok_other: "users d' = users d \<Longrightarrow> next_user_id d' = next_user_id d \<Longrightarrow> users_ok d' \<longleftrightarrow> users_ok d"
  by (simp add: users_ok_def)

text \<open>Changing a row keeps the table when the id and the name stay and an administrator is left.\<close>

lemma change_user_eval:
  assumes "users_ok d"
  shows "change_user i f d = (case find (\<lambda>u. user_id u = i) (users d) of
     None \<Rightarrow> (Inr None, d)
   | Some u \<Rightarrow> (Inr (Some (f u)), d\<lparr>users := map (\<lambda>v. if user_id v = i then f v else v) (users d)\<rparr>))"
  using assms by (simp add: change_user_def bnd_def get_user_by_id_eval ret_def modify_def split: option.split)

lemma change_user_ok:
  assumes "users_ok d" and "\<And>u. user_id (f u) = user_id u" and "\<And>u. username (f u) = username u"
    and "(\<forall>u. is_admin u \<longrightarrow> is_admin (f u)) \<or> (\<exists>u\<in>set (users d). is_admin u \<and> user_id u \<noteq> i)"
  shows "users_ok (snd (change_user i f d))"
proof -
  define us where "us = map (\<lambda>v. if user_id v = i then f v else v) (users d)"
  have m: "map user_id us = map user_id (users d)" "map username us = map username (users d)"
    using assms(2,3) by (simp_all add: us_def)
  have "\<exists>u\<in>set us. is_admin u"
  proof -
    obtain u where u: "u \<in> set (users d)" "is_admin u" "(\<forall>u. is_admin u \<longrightarrow> is_admin (f u)) \<or> user_id u \<noteq> i"
      using assms(1,4) by (auto simp: users_ok_def)
    then have "is_admin (if user_id u = i then f u else u)" by auto
    moreover have "(if user_id u = i then f u else u) \<in> set us" unfolding us_def set_map using u(1) by (rule imageI)
    ultimately show ?thesis by (rule bexI)
  qed
  moreover have "\<forall>u\<in>set us. user_id u < next_user_id d" using assms(1,2) by (auto simp: users_ok_def us_def)
  ultimately have "users_ok (d\<lparr>users := us\<rparr>)" using assms(1) m by (simp add: users_ok_def)
  then show ?thesis using assms(1) by (simp add: change_user_eval us_def split: option.split)
qed

lemma set_password_ok:
  assumes "users_ok d"
  shows "users_ok (snd (set_password c i pw b d))"
proof -
  have "users_ok (d\<lparr>salts := Suc (salts d)\<rparr>)" using assms by (simp add: users_ok_def)
  then show ?thesis
    using assms by (auto simp: set_password_def bnd_def get_user_by_id_eval ret_def fresh_salt_def
        split: option.split intro!: change_user_ok)
qed

lemma create_user_ok:
  assumes "users_ok d"
  shows "users_ok (snd (create_user c n pw a b d))"
  using assms by (auto simp: create_user_def bnd_def fresh_salt_def Let_def users_ok_def)

lemma same_user:
  assumes "users_ok d" and "u \<in> set (users d)" and "v \<in> set (users d)" and "user_id u = user_id v"
  shows "u = v"
  using assms by (auto simp: users_ok_def distinct_map inj_on_def)

lemma find_user_unique:
  assumes "users_ok d" and "v \<in> set (users d)" and "find (\<lambda>u. user_id u = i) (users d) = Some u" and "user_id v = i"
  shows "v = u"
proof -
  have "u \<in> set (users d)" "user_id u = i" using find_SomeD [OF assms(3)] by simp_all
  then show ?thesis using same_user [OF assms(1,2), of u] assms(4) by simp
qed

lemma delete_user_ok:
  assumes "users_ok d" and "find (\<lambda>u. user_id u = i) (users d) = Some u" and "\<not> is_admin u"
  shows "users_ok (snd (delete_user i d))"
proof -
  obtain a where a: "a \<in> set (users d)" "is_admin a" using assms(1) by (auto simp: users_ok_def)
  have "user_id a \<noteq> i" using find_user_unique [OF assms(1) a(1) assms(2)] a(2) assms(3) by auto
  then show ?thesis
    using assms(1,2) a by (auto simp: delete_user_def bnd_def get_user_by_id_eval modify_def ret_def users_ok_def distinct_map_filter)
qed

lemma two_admins:
  assumes "users_ok d" and "1 < length (filter is_admin (users d))"
  shows "\<exists>u\<in>set (users d). is_admin u \<and> user_id u \<noteq> i"
proof (rule ccontr)
  assume none: "\<not> ?thesis"
  have "distinct (map user_id (filter is_admin (users d)))"
    using assms(1) by (simp add: users_ok_def distinct_map_filter)
  then have "card (set (map user_id (filter is_admin (users d)))) = length (filter is_admin (users d))"
    using distinct_card by fastforce
  moreover have "set (map user_id (filter is_admin (users d))) \<subseteq> {i}" using none by auto
  then have "card (set (map user_id (filter is_admin (users d)))) \<le> 1"
    using card_mono [of "{i}"] by fastforce
  ultimately show False using assms(2) by simp
qed

subsection \<open>Handlers\<close>

lemma after_require_admin:
  assumes "users_ok d" and "\<And>me. cu = Some me \<Longrightarrow> is_admin me \<Longrightarrow> users_ok (snd (f me d))"
  shows "users_ok (snd (bnd (require_admin cu) f d))"
  using assms by (auto simp: bnd_def require_admin_def raise_def ret_def split: option.split)

lemma create_user_post_ok: "users_ok d \<Longrightarrow> users_ok (snd (create_user_post c cu n pw a d))"
  unfolding create_user_post_def
  by (rule after_require_admin)
    (auto simp: Let_def bnd_def get_user_by_username_eval ret_def split: sum.split intro: create_user_ok)

lemma delete_user_post_ok: "users_ok d \<Longrightarrow> users_ok (snd (delete_user_post cu i d))"
  unfolding delete_user_post_def
  by (rule after_require_admin)
    (auto simp: bnd_def get_user_by_id_eval ret_def raise_def split: sum.split option.split intro: delete_user_ok)

lemma update_user_ok:
  assumes "users_ok d" and "\<not> (is_admin u \<and> \<not> a \<and> length (filter is_admin (users d)) \<le> 1)"
    and "find (\<lambda>u. user_id u = i) (users d) = Some u"
  shows "users_ok (snd (update_user i (Some a) b d))"
proof -
  have "a \<or> (\<exists>v\<in>set (users d). is_admin v \<and> user_id v \<noteq> i)"
  proof (cases "is_admin u")
    case True
    then show ?thesis using assms(2) two_admins [OF assms(1), of i] by auto
  next
    case False
    obtain v where v: "v \<in> set (users d)" "is_admin v" using assms(1) by (auto simp: users_ok_def)
    then have "user_id v \<noteq> i" using find_user_unique [OF assms(1) v(1) assms(3)] False by auto
    with v show ?thesis by blast
  qed
  then show ?thesis unfolding update_user_def using assms(1) by (intro change_user_ok) auto
qed

lemma update_user_post_ok:
  assumes "users_ok d"
  shows "users_ok (snd (update_user_post c cu i a b pw d))"
  unfolding update_user_post_def
  by (rule after_require_admin [OF assms])
    (auto simp: assms Let_def bnd_def get_user_by_id_eval gets_def ret_def raise_def
        split: option.split sum.split intro!: set_password_ok intro: update_user_ok [OF assms])

lemma set_nickname_ok: "users_ok d \<Longrightarrow> users_ok (snd (set_nickname i n d))"
  unfolding set_nickname_def by (rule change_user_ok) auto

lemma scalar_world: "snd (scalar_one_or_none xs d) = d"
  by (simp add: scalar_one_or_none_def ret_def raise_def split: list.split)

lemma user_config_set_nickname_ok: "users_ok d \<Longrightarrow> users_ok (snd (user_config_set_nickname me raw d))"
  by (auto simp: user_config_set_nickname_def bnd_def catch_def ret_def raise_def get_user_by_nickname_def Let_def scalar_world
      split: sum.split option.split intro: set_nickname_ok)

text \<open>Any sequence of the handlers, by any signed-in users and with any form values.\<close>

inductive account_step :: "crypto \<Rightarrow> db \<Rightarrow> db \<Rightarrow> bool" for c where
  step_create: "account_step c d (snd (create_user_post c cu n pw a d))"
| step_update: "account_step c d (snd (update_user_post c cu i a b pw d))"
| step_delete: "account_step c d (snd (delete_user_post cu i d))"
| step_nickname: "account_step c d (snd (user_config_set_nickname me raw d))"
| step_password: "account_step c d (snd (set_password c i pw b d))"

lemma account_step_ok: "account_step c d d' \<Longrightarrow> users_ok d \<Longrightarrow> users_ok d'"
  by (induction rule: account_step.induct)
    (simp_all add: create_user_post_ok update_user_post_ok delete_user_post_ok user_config_set_nickname_ok set_password_ok)

lemma accounts_reach_ok: "(account_step c)\<^sup>*\<^sup>* d d' \<Longrightarrow> users_ok d \<Longrightarrow> users_ok d'"
  by (induction rule: rtranclp_induct) (auto intro: account_step_ok)

section \<open>Passwords\<close>

lemma hex_char_cases: "c \<in> set ''abcdef0123456789'' \<Longrightarrow> \<not> py_isspace_char c \<and> py_lower_char c = c"
  by (auto simp: py_isspace_char_def py_lower_char_def)

lemma HEX_64_fixed:
  assumes "HEX_64 s"
  shows "py_lower (py_strip s) = s" and "s \<noteq> ''''"
proof -
  have all: "\<forall>c\<in>set s. \<not> py_isspace_char c \<and> py_lower_char c = c"
    using assms hex_char_cases by (auto simp: HEX_64_def list_all_iff)
  have drop: "dropWhile py_isspace_char xs = xs" if "\<forall>c\<in>set xs. \<not> py_isspace_char c" for xs
    using that by (cases xs) simp_all
  have "dropWhile py_isspace_char s = s" "dropWhile py_isspace_char (rev s) = rev s" using all by (simp_all add: drop)
  then have "py_strip s = s" by (simp add: py_strip_def strip_with_def)
  then show "py_lower (py_strip s) = s" using all by (simp add: py_lower_def map_idI)
  show "s \<noteq> ''''" using assms by (auto simp: HEX_64_def)
qed

lemma secret_of_digest:
  "(\<And>s. HEX_64 (sha256_hex c s)) \<Longrightarrow> pw \<noteq> '''' \<Longrightarrow> \<not> HEX_64 (py_lower (py_strip pw)) \<Longrightarrow>
     secret c (sha256_hex c pw) = secret c pw"
  by (simp add: secret_def HEX_64_fixed)

section \<open>Properties\<close>

text \<open>C7: The user table is well formed for ever: from a table with unique ids and names and an administrator, any
  sequence of user creations, updates, deletions, nickname and password changes, by anybody and with any
  form values, leaves unique ids, unique names and at least one administrator.\<close>

theorem admin_always_remains:
  assumes "users_ok d" and "(account_step c)\<^sup>*\<^sup>* d d'"
  shows "distinct (map user_id (users d')) \<and> distinct (map username (users d')) \<and> (\<exists>u\<in>set (users d'). is_admin u)"
  using accounts_reach_ok [OF assms(2,1)] by (simp add: users_ok_def)

definition example_crypto :: crypto where
  "example_crypto = \<lparr>sha256_hex = (\<lambda>_. replicate 64 CHR ''0''), bcrypt_hash = (\<lambda>_ s. s), bcrypt_verify = (=)\<rparr>"

definition root_user :: user where
  "root_user = \<lparr>user_id = 1, username = ''root'', nickname = None, password_hash = [], is_admin = True, must_change_password = False\<rparr>"

definition plain_user :: user where
  "plain_user = \<lparr>user_id = 2, username = ''ana'', nickname = None, password_hash = [], is_admin = False, must_change_password = False\<rparr>"

definition example_db :: db where
  "example_db = \<lparr>users = [root_user, plain_user], next_user_id = 3, shares = [], collections = [], map_rows = [], style_rows = [],
     salts = 0, uuid_source = id, uuids_used = 0, db_now = 0\<rparr>"

lemma example_db_ok: "users_ok example_db"
  by (simp add: users_ok_def example_db_def root_user_def plain_user_def)

theorem admin_always_remains_witness:
  "\<exists>u\<in>set (users (snd (update_user_post example_crypto (Some root_user) 1 False False '''' example_db))). is_admin u"
  using admin_always_remains [OF example_db_ok, of example_crypto
      "snd (update_user_post example_crypto (Some root_user) 1 False False [] example_db)"]
    step_update [of example_crypto example_db "Some root_user" 1 False False "[]"] by blast

text \<open>A new password works: after \<^verbatim>\<open>set_password\<close> the user's row holds a hash that the password verifies
  against, and so does the digest the web page sends in its place; no other row changes.\<close>

theorem new_password_verifies:
  assumes "\<And>salt s. bcrypt_verify c s (bcrypt_hash c salt s)" and "\<And>s. HEX_64 (sha256_hex c s)"
    and "users_ok d" and "u \<in> set (users d)" and "user_id u = i"
  shows "\<exists>h. users (snd (set_password c i pw b d)) =
      map (\<lambda>v. if user_id v = i then v\<lparr>password_hash := h, must_change_password := b\<rparr> else v) (users d) \<and>
    verify_password c pw h \<and>
    (pw \<noteq> '''' \<and> \<not> HEX_64 (py_lower (py_strip pw)) \<longrightarrow> verify_password c (sha256_hex c pw) h)"
proof -
  obtain v where v: "find (\<lambda>u. user_id u = i) (users d) = Some v"
    using find_NoneD [of "\<lambda>u. user_id u = i" "users d" u] assms(4,5) by (cases "find (\<lambda>u. user_id u = i) (users d)") auto
  let ?h = "hash_password c (salts d) pw"
  have ok: "users_ok (d\<lparr>salts := Suc (salts d)\<rparr>)" using assms(3) by (simp add: users_ok_def)
  have "users (snd (set_password c i pw b d)) =
      map (\<lambda>v. if user_id v = i then v\<lparr>password_hash := ?h, must_change_password := b\<rparr> else v) (users d)"
    using assms(3) v ok by (simp add: set_password_def bnd_def get_user_by_id_eval fresh_salt_def change_user_eval)
  moreover have "verify_password c pw ?h" using assms(1) by (simp add: verify_password_def hash_password_def)
  moreover have "verify_password c (sha256_hex c pw) ?h" if "pw \<noteq> ''''" "\<not> HEX_64 (py_lower (py_strip pw))"
    using assms(1) secret_of_digest [OF assms(2) that] by (simp add: verify_password_def hash_password_def)
  ultimately show ?thesis by blast
qed

theorem new_password_verifies_witness:
  "\<exists>h. map password_hash (users (snd (set_password example_crypto 2 ''s3'' False example_db))) = [[], h] \<and>
     verify_password example_crypto ''s3'' h"
proof -
  have "\<exists>h. users (snd (set_password example_crypto 2 ''s3'' False example_db)) =
      map (\<lambda>v. if user_id v = 2 then v\<lparr>password_hash := h, must_change_password := False\<rparr> else v) (users example_db) \<and>
    verify_password example_crypto ''s3'' h"
    using new_password_verifies [of example_crypto example_db plain_user 2 "''s3''" False] example_db_ok
    by (force simp: example_crypto_def HEX_64_def list_all_iff example_db_def plain_user_def)
  then show ?thesis by (auto simp: example_db_def root_user_def plain_user_def)
qed

end
