(* ===== verification/Permissions.thy ===== *)
theory Permissions
  imports Accounts
begin

text \<open>
  Who may see and edit what: \<^verbatim>\<open>app/core/permissions.py\<close>, \<^verbatim>\<open>app/models/resource_share.py\<close>,
  \<^verbatim>\<open>app/crud/resource_share.py\<close>, \<^verbatim>\<open>app/crud/maps.py\<close> and the share handlers of
  \<^verbatim>\<open>app/api/routes/styles.py\<close>, on the database of \<^verbatim>\<open>Accounts\<close>.

  Map ids are 128-bit numbers; \<open>uuid_str\<close> prints one and \<open>py_uuid\<close> reads one the way \<^verbatim>\<open>uuid.UUID\<close> does.
  The rows of a query without an \<^verbatim>\<open>ORDER BY\<close> that decides come in table order.

  Shown: whoever can edit a collection, map, style or mosaic can see it, and the checks never raise
  on a table of shares with one row per resource and user; the list of maps holds exactly the maps the
  check lets the user see; a share gives and its removal takes away the access it names. A share of
  a public style is stored under another key than the one the check reads.
\<close>

section \<open>Definitions\<close>

definition VISIBILITY_PUBLIC :: string where "VISIBILITY_PUBLIC = ''public''"
definition VISIBILITY_LOGGED :: string where "VISIBILITY_LOGGED = ''logged''"
definition VISIBILITY_PRIVATE :: string where "VISIBILITY_PRIVATE = ''private''"

definition RESOURCE_TYPE_COLLECTION :: string where "RESOURCE_TYPE_COLLECTION = ''collection''"
definition RESOURCE_TYPE_MAP :: string where "RESOURCE_TYPE_MAP = ''map''"
definition RESOURCE_TYPE_STYLE :: string where "RESOURCE_TYPE_STYLE = ''style''"
definition RESOURCE_TYPE_RASTER_VIEW :: string where "RESOURCE_TYPE_RASTER_VIEW = ''raster_view''"

definition ROLE_VIEWER :: string where "ROLE_VIEWER = ''viewer''"
definition ROLE_EDITOR :: string where "ROLE_EDITOR = ''editor''"

lemmas share_consts = RESOURCE_TYPE_COLLECTION_def RESOURCE_TYPE_MAP_def RESOURCE_TYPE_STYLE_def
  RESOURCE_TYPE_RASTER_VIEW_def ROLE_VIEWER_def ROLE_EDITOR_def VISIBILITY_PUBLIC_def VISIBILITY_LOGGED_def VISIBILITY_PRIVATE_def

definition style_resource_id :: "string \<Rightarrow> string \<Rightarrow> string" where
  "style_resource_id cid sid = cid @ '':'' @ sid"

definition raster_style_resource_id :: "string \<Rightarrow> string \<Rightarrow> string" where
  "raster_style_resource_id cid sid = ''raster:'' @ cid @ '':'' @ sid"

subsection \<open>Map ids as text\<close>

function remove_sub :: "string \<Rightarrow> string \<Rightarrow> string" where
  "remove_sub p s =
     (if p = [] \<or> s = [] then s
      else if starts_with p s then remove_sub p (drop (length p) s)
      else hd s # remove_sub p (tl s))"
  by pat_completeness auto
termination
  by (relation "measure (\<lambda>(p, s). length s)") auto

definition py_uuid :: "string \<Rightarrow> exn + nat" where
  "py_uuid s =
     (let h = replace_char CHR ''-'' [] (strip_with (\<lambda>c. c = CHR 0x7B \<or> c = CHR 0x7D)
                (remove_sub ''uuid:'' (remove_sub ''urn:'' s)))
      in if length h \<noteq> 32 then Inl ValueError
         else case py_int_base 16 h of
                None \<Rightarrow> Inl ValueError
              | Some i \<Rightarrow> if 0 \<le> i \<and> i < 2 ^ 128 then Inr (nat i) else Inl ValueError)"

definition hex_digit :: "nat \<Rightarrow> char" where
  "hex_digit d = ''0123456789abcdef'' ! d"

fun hex_digits :: "nat \<Rightarrow> nat \<Rightarrow> string" where
  "hex_digits 0 n = []"
| "hex_digits (Suc k) n = hex_digits k (n div 16) @ [hex_digit (n mod 16)]"

definition uuid_str :: "nat \<Rightarrow> string" where
  "uuid_str n = (let h = hex_digits 32 n in
     take 8 h @ ''-'' @ take 4 (drop 8 h) @ ''-'' @ take 4 (drop 12 h) @ ''-'' @ take 4 (drop 16 h) @ ''-'' @ drop 20 h)"

subsection \<open>Shares\<close>

definition share_rows :: "db \<Rightarrow> string \<Rightarrow> string \<Rightarrow> string \<Rightarrow> share list" where
  "share_rows d t r n = filter (\<lambda>s. resource_type s = t \<and> resource_id s = r \<and> share_username s = n) (shares d)"

definition get_share_role :: "string \<Rightarrow> string \<Rightarrow> string \<Rightarrow> (db, string option) prog" where
  "get_share_role t r n =
     (\<lambda>d. if n = '''' then ret None d
          else bnd (scalar_one_or_none (map role (share_rows d t r n)))
                 (\<lambda>row. ret (case row of None \<Rightarrow> None | Some x \<Rightarrow> if x = '''' then None else Some x)) d)"

definition list_shares_for_resource_ids ::
    "(string \<Rightarrow> 'o::linorder) \<Rightarrow> string \<Rightarrow> string list \<Rightarrow> (db, (string \<times> (string \<times> string) list) list) prog" where
  "list_shares_for_resource_ids collate t rids =
     gets (\<lambda>d. let ids = filter (\<lambda>r. r \<noteq> '''') rids in
        map (\<lambda>r. (r, map (\<lambda>s. (share_username s, role s))
               (sort_key (\<lambda>s. collate (share_username s)) (filter (\<lambda>s. resource_type s = t \<and> resource_id s = r) (shares d)))))
          (remdups ids))"

definition list_shares :: "(string \<Rightarrow> 'o::linorder) \<Rightarrow> string \<Rightarrow> string \<Rightarrow> (db, (string \<times> string) list) prog" where
  "list_shares collate t r =
     gets (\<lambda>d. map (\<lambda>s. (share_username s, role s))
        (sort_key (\<lambda>s. collate (share_username s)) (filter (\<lambda>s. resource_type s = t \<and> resource_id s = r) (shares d))))"

definition valid_role :: "string \<Rightarrow> string" where
  "valid_role x = (if x \<in> {ROLE_VIEWER, ROLE_EDITOR} then x else ROLE_VIEWER)"

definition add_share :: "string \<Rightarrow> string \<Rightarrow> string \<Rightarrow> string \<Rightarrow> (db, share option) prog" where
  "add_share t r n x =
     bnd (get_user_by_username (py_strip n)) (\<lambda>found. case found of
       None \<Rightarrow> ret None
     | Some u \<Rightarrow> (\<lambda>d.
         bnd (scalar_one_or_none (share_rows d t r (username u))) (\<lambda>row. case row of
           Some s \<Rightarrow>
             bnd (modify (\<lambda>d. d\<lparr>shares := map (\<lambda>v. if v = s then v\<lparr>role := valid_role x\<rparr> else v) (shares d)\<rparr>))
               (\<lambda>_. ret (Some (s\<lparr>role := valid_role x\<rparr>)))
         | None \<Rightarrow>
             (let s = \<lparr>resource_type = t, resource_id = r, share_username = username u, role = valid_role x\<rparr> in
              bnd (modify (\<lambda>d. d\<lparr>shares := shares d @ [s]\<rparr>)) (\<lambda>_. ret (Some s)))) d))"

definition remove_share :: "string \<Rightarrow> string \<Rightarrow> string \<Rightarrow> (db, bool) prog" where
  "remove_share t r n =
     (\<lambda>d. bnd (scalar_one_or_none (share_rows d t r (py_strip n))) (\<lambda>row. case row of
        None \<Rightarrow> ret False
      | Some s \<Rightarrow> bnd (modify (\<lambda>d. d\<lparr>shares := remove1 s (shares d)\<rparr>)) (\<lambda>_. ret True)) d)"

subsection \<open>Checks\<close>

definition visibility_visible_to_anon :: "string \<Rightarrow> bool" where
  "visibility_visible_to_anon v \<longleftrightarrow> v = VISIBILITY_PUBLIC"

definition visibility_visible_to_logged :: "string \<Rightarrow> bool" where
  "visibility_visible_to_logged v \<longleftrightarrow> v \<in> {VISIBILITY_PUBLIC, VISIBILITY_LOGGED}"

definition is_admin_user :: "user option \<Rightarrow> bool" where
  "is_admin_user user \<longleftrightarrow> (case user of None \<Rightarrow> False | Some u \<Rightarrow> is_admin u)"

definition has_role :: "string list \<Rightarrow> string \<Rightarrow> string \<Rightarrow> user \<Rightarrow> (db, bool) prog" where
  "has_role roles t r u = bnd (get_share_role t r (username u)) (\<lambda>x. ret (x \<in> Some ` set roles))"

definition can_see_collection :: "collection \<Rightarrow> user option \<Rightarrow> (db, bool) prog" where
  "can_see_collection coll user =
     (if is_admin_user user then ret True
      else if visibility_visible_to_anon (visibility coll) then ret True
      else case user of
        None \<Rightarrow> ret False
      | Some u \<Rightarrow>
          if visibility_visible_to_logged (visibility coll) then ret True
          else if owner_id coll = Some (user_id u) then ret True
          else has_role [ROLE_VIEWER, ROLE_EDITOR] RESOURCE_TYPE_COLLECTION (collection_id coll) u)"

definition can_edit_collection :: "collection \<Rightarrow> user option \<Rightarrow> (db, bool) prog" where
  "can_edit_collection coll user =
     (case user of
        None \<Rightarrow> ret False
      | Some u \<Rightarrow>
          if is_admin u then ret True
          else if owner_id coll = Some (user_id u) then ret True
          else bnd (has_role [ROLE_EDITOR] RESOURCE_TYPE_COLLECTION (collection_id coll) u) (\<lambda>ed.
            if ed then ret True
            else if viewer_can_edit coll then can_see_collection coll user
            else ret False))"

definition map_visibility_visible :: "string \<Rightarrow> user option \<Rightarrow> bool" where
  "map_visibility_visible v user \<longleftrightarrow> v = VISIBILITY_PUBLIC \<or> user \<noteq> None \<and> v = VISIBILITY_LOGGED"

text \<open>The checks of maps, styles and mosaics have one shape: \<open>t\<close> and \<open>r\<close> name the resource.\<close>

definition can_see_resource :: "string \<Rightarrow> int option \<Rightarrow> string \<Rightarrow> string \<Rightarrow> user option \<Rightarrow> (db, bool) prog" where
  "can_see_resource t own v r user =
     (if is_admin_user user then ret True
      else if map_visibility_visible v user then ret True
      else case user of
        None \<Rightarrow> ret False
      | Some u \<Rightarrow>
          if own = Some (user_id u) then ret True
          else has_role [ROLE_VIEWER, ROLE_EDITOR] t r u)"

definition can_see_map :: "int option \<Rightarrow> string \<Rightarrow> string \<Rightarrow> user option \<Rightarrow> (db, bool) prog" where
  "can_see_map own v mid user = can_see_resource RESOURCE_TYPE_MAP own v mid user"

definition can_edit_map ::
    "int option \<Rightarrow> string \<Rightarrow> user option \<Rightarrow> string option \<Rightarrow> bool option \<Rightarrow> (db, bool) prog" where
  "can_edit_map own mid user mvis vce =
     (case user of
        None \<Rightarrow> ret False
      | Some u \<Rightarrow>
          if is_admin u then ret True
          else if own = Some (user_id u) then ret True
          else bnd (has_role [ROLE_EDITOR] RESOURCE_TYPE_MAP mid u) (\<lambda>ed.
            if ed then ret True
            else
              bnd (if vce = None \<or> mvis = None
                   then (case py_uuid mid of
                           Inl _ \<Rightarrow> ret None
                         | Inr uid \<Rightarrow> (\<lambda>d. bnd (scalar_one_or_none (filter (\<lambda>m. map_id m = uid) (map_rows d))) (\<lambda>row.
                             ret (Some (case row of None \<Rightarrow> (mvis, vce)
                                    | Some m \<Rightarrow> (Some (map_visibility m), Some (map_viewer_can_edit m))))) d))
                   else ret (Some (mvis, vce))) (\<lambda>looked.
              case looked of
                None \<Rightarrow> ret False
              | Some (mvis', vce') \<Rightarrow>
                  if vce' = Some True \<and> (case mvis' of None \<Rightarrow> False | Some v \<Rightarrow> v \<noteq> '''')
                  then can_see_map own (the mvis') mid user
                  else ret False)))"

definition can_see_style :: "int option \<Rightarrow> string \<Rightarrow> string \<Rightarrow> string \<Rightarrow> user option \<Rightarrow> (db, bool) prog" where
  "can_see_style own v cid sid user = can_see_resource RESOURCE_TYPE_STYLE own v (style_resource_id cid sid) user"

definition can_see_raster_style :: "int option \<Rightarrow> string \<Rightarrow> string \<Rightarrow> string \<Rightarrow> user option \<Rightarrow> (db, bool) prog" where
  "can_see_raster_style own v cid sid user =
     can_see_resource RESOURCE_TYPE_STYLE own v (raster_style_resource_id cid sid) user"

definition can_see_raster_view :: "int option \<Rightarrow> string \<Rightarrow> string \<Rightarrow> user option \<Rightarrow> (db, bool) prog" where
  "can_see_raster_view own v vid user = can_see_resource RESOURCE_TYPE_RASTER_VIEW own v vid user"

definition can_edit_resource :: "string \<Rightarrow> int option \<Rightarrow> string \<Rightarrow> user option \<Rightarrow> (db, bool) prog" where
  "can_edit_resource t own r user =
     (case user of
        None \<Rightarrow> ret False
      | Some u \<Rightarrow>
          if is_admin u then ret True
          else if own = Some (user_id u) then ret True
          else has_role [ROLE_EDITOR] t r u)"

definition can_edit_raster_view :: "int option \<Rightarrow> string \<Rightarrow> user option \<Rightarrow> (db, bool) prog" where
  "can_edit_raster_view own vid user = can_edit_resource RESOURCE_TYPE_RASTER_VIEW own vid user"

definition can_access_raster_view_tiles_anonymous :: "string \<Rightarrow> bool \<Rightarrow> bool" where
  "can_access_raster_view_tiles_anonymous v allow_public_maps \<longleftrightarrow> v = VISIBILITY_PUBLIC \<or> allow_public_maps"

definition can_edit_style :: "int option \<Rightarrow> string \<Rightarrow> string \<Rightarrow> user option \<Rightarrow> (db, bool) prog" where
  "can_edit_style own cid sid user = can_edit_resource RESOURCE_TYPE_STYLE own (style_resource_id cid sid) user"

subsection \<open>Maps\<close>

definition list_maps :: "nat \<Rightarrow> nat \<Rightarrow> user option \<Rightarrow> (db, map_row list) prog" where
  "list_maps limit offset user =
     gets (\<lambda>d. take limit (drop offset (sort_key (\<lambda>m. - map_updated_at m) (filter (\<lambda>m.
        case user of
          None \<Rightarrow> map_visibility m = VISIBILITY_PUBLIC
        | Some u \<Rightarrow> is_admin u \<or> map_visibility m \<in> {VISIBILITY_PUBLIC, VISIBILITY_LOGGED} \<or>
            map_owner m = Some (user_id u) \<or> share_rows d RESOURCE_TYPE_MAP (uuid_str (map_id m)) (username u) \<noteq> [])
        (map_rows d)))))"

definition get_map :: "nat \<Rightarrow> (db, map_row option) prog" where
  "get_map i = (\<lambda>d. scalar_one_or_none (filter (\<lambda>m. map_id m = i) (map_rows d)) d)"

definition create_map ::
    "string \<Rightarrow> string option \<Rightarrow> string option \<Rightarrow> json \<Rightarrow> int option \<Rightarrow> string \<Rightarrow> (db, map_row) prog" where
  "create_map name desc thumb def own v =
     (\<lambda>d. let m = \<lparr>map_id = uuid_source d (uuids_used d), map_name = name, map_description = desc, map_thumbnail = thumb,
                    map_thumbnail_data = None, map_definition = def, map_owner = own, map_visibility = v,
                    map_viewer_can_edit = False, map_updated_at = db_now d\<rparr>;
               d1 = d\<lparr>uuids_used := Suc (uuids_used d)\<rparr>
          in if map_id m \<in> map_id ` set (map_rows d) then (Inl SqlError, d1)
             else (Inr m, d1\<lparr>map_rows := map_rows d @ [m]\<rparr>))"

record map_update =
  upd_name :: "string option"
  upd_description :: "string option"
  upd_thumbnail :: "string option"
  upd_definition :: "json option"
  upd_visibility :: "string option"
  upd_viewer_can_edit :: "bool option"

definition apply_map_update :: "map_update \<Rightarrow> int \<Rightarrow> map_row \<Rightarrow> map_row" where
  "apply_map_update u now m =
     m\<lparr>map_name := or_else (upd_name u) (map_name m),
       map_description := (case upd_description u of None \<Rightarrow> map_description m | Some x \<Rightarrow> Some x),
       map_thumbnail := (case upd_thumbnail u of None \<Rightarrow> map_thumbnail m | Some x \<Rightarrow> Some x),
       map_thumbnail_data := (case upd_thumbnail u of None \<Rightarrow> map_thumbnail_data m
          | Some x \<Rightarrow> if x = '''' then map_thumbnail_data m else None),
       map_definition := or_else (upd_definition u) (map_definition m),
       map_visibility := (case upd_visibility u of None \<Rightarrow> map_visibility m
          | Some v \<Rightarrow> if v \<in> {VISIBILITY_PRIVATE, VISIBILITY_LOGGED, VISIBILITY_PUBLIC} then v else map_visibility m),
       map_viewer_can_edit := or_else (upd_viewer_can_edit u) (map_viewer_can_edit m),
       map_updated_at := now\<rparr>"

definition change_map :: "nat \<Rightarrow> (int \<Rightarrow> map_row \<Rightarrow> map_row) \<Rightarrow> (db, map_row option) prog" where
  "change_map i f =
     bnd (get_map i) (\<lambda>row. case row of
       None \<Rightarrow> ret None
     | Some m \<Rightarrow> (\<lambda>d. (Inr (Some (f (db_now d) m)),
         d\<lparr>map_rows := map (\<lambda>v. if map_id v = i then f (db_now d) v else v) (map_rows d)\<rparr>)))"

definition update_map :: "nat \<Rightarrow> map_update \<Rightarrow> (db, map_row option) prog" where
  "update_map i u = change_map i (apply_map_update u)"

definition set_map_thumbnail_data :: "nat \<Rightarrow> string \<Rightarrow> (db, map_row option) prog" where
  "set_map_thumbnail_data i data =
     change_map i (\<lambda>now m. m\<lparr>map_thumbnail_data := Some data, map_thumbnail := None, map_updated_at := now\<rparr>)"

definition delete_map :: "nat \<Rightarrow> (db, bool) prog" where
  "delete_map i =
     bnd (get_map i) (\<lambda>row. case row of
       None \<Rightarrow> ret False
     | Some m \<Rightarrow> bnd (modify (\<lambda>d. d\<lparr>map_rows := filter (\<lambda>v. map_id v \<noteq> i) (map_rows d)\<rparr>)) (\<lambda>_. ret True))"

subsection \<open>Sharing a public style\<close>

definition PUBLIC_COLLECTION_ID :: string where "PUBLIC_COLLECTION_ID = ''''"

definition get_public_style :: "string \<Rightarrow> (db, style_row option) prog" where
  "get_public_style sid =
     (\<lambda>d. scalar_one_or_none (filter (\<lambda>s. style_collection s = PUBLIC_COLLECTION_ID \<and> style_id s = sid) (style_rows d)) d)"

definition get_collection_style :: "string \<Rightarrow> string \<Rightarrow> (db, style_row option) prog" where
  "get_collection_style cid sid =
     (\<lambda>d. bnd (scalar_one_or_none (filter (\<lambda>s. style_collection s = cid \<and> style_id s = sid) (style_rows d))) (\<lambda>row.
        case row of Some s \<Rightarrow> ret (Some s) | None \<Rightarrow> get_public_style sid) d)"

text \<open>The style must exist and belong to the caller, unless the caller is an administrator.\<close>

definition own_public_style :: "string \<Rightarrow> user \<Rightarrow> (db, style_row) prog" where
  "own_public_style sid me =
     bnd (get_public_style sid) (\<lambda>row. case row of
       None \<Rightarrow> raise (HTTPException 404 ''Style not found'')
     | Some s \<Rightarrow>
         if or_else (style_owner s) 0 \<noteq> user_id me \<and> \<not> is_admin me then raise (HTTPException 403 ''Permission denied'')
         else ret s)"

definition list_style_shares :: "(string \<Rightarrow> 'o::linorder) \<Rightarrow> string \<Rightarrow> user \<Rightarrow> (db, (string \<times> string) list) prog" where
  "list_style_shares collate sid me = bnd (own_public_style sid me) (\<lambda>_. list_shares collate RESOURCE_TYPE_STYLE sid)"

definition add_style_share :: "string \<Rightarrow> user \<Rightarrow> string \<Rightarrow> string \<Rightarrow> (db, share) prog" where
  "add_style_share sid me n x =
     bnd (own_public_style sid me) (\<lambda>_.
     bnd (add_share RESOURCE_TYPE_STYLE sid n x) (\<lambda>r. case r of
       None \<Rightarrow> raise (HTTPException 404 ''User not found'')
     | Some s \<Rightarrow> ret s))"

definition remove_style_share :: "string \<Rightarrow> user \<Rightarrow> string \<Rightarrow> (db, unit) prog" where
  "remove_style_share sid me n =
     bnd (own_public_style sid me) (\<lambda>_. bnd (remove_share RESOURCE_TYPE_STYLE sid n) (\<lambda>_. ret ()))"

section \<open>The policy\<close>

definition share_key :: "share \<Rightarrow> string \<times> string \<times> string" where
  "share_key s = (resource_type s, resource_id s, share_username s)"

text \<open>The unique constraint of the table, and the roles \<^verbatim>\<open>add_share\<close> writes.\<close>

definition shares_ok :: "db \<Rightarrow> bool" where
  "shares_ok d \<longleftrightarrow> distinct (map share_key (shares d)) \<and> (\<forall>s\<in>set (shares d). role s \<in> {ROLE_VIEWER, ROLE_EDITOR})"

definition role_of :: "db \<Rightarrow> string \<Rightarrow> string \<Rightarrow> string \<Rightarrow> string option" where
  "role_of d t r n = map_option role (find (\<lambda>s. share_key s = (t, r, n)) (shares d))"

definition sees :: "db \<Rightarrow> string \<Rightarrow> int option \<Rightarrow> string \<Rightarrow> string \<Rightarrow> user option \<Rightarrow> bool" where
  "sees d t own v r user \<longleftrightarrow> v = VISIBILITY_PUBLIC \<or>
     (\<exists>u. user = Some u \<and> (is_admin u \<or> v = VISIBILITY_LOGGED \<or> own = Some (user_id u) \<or>
        username u \<noteq> '''' \<and> role_of d t r (username u) \<noteq> None))"

definition edits :: "db \<Rightarrow> string \<Rightarrow> int option \<Rightarrow> string \<Rightarrow> user option \<Rightarrow> bool" where
  "edits d t own r user \<longleftrightarrow>
     (\<exists>u. user = Some u \<and> (is_admin u \<or> own = Some (user_id u) \<or>
        username u \<noteq> '''' \<and> role_of d t r (username u) = Some ROLE_EDITOR))"

lemma edits_sees: "edits d t own r user \<Longrightarrow> sees d t own v r user"
  by (auto simp: edits_def sees_def)

lemma share_rows_eval:
  assumes "shares_ok d"
  shows "scalar_one_or_none (share_rows d t r n) = ret (find (\<lambda>s. share_key s = (t, r, n)) (shares d))"
    and "share_rows d t r n = [] \<longleftrightarrow> role_of d t r n = None"
proof -
  have rows: "share_rows d t r n = filter (\<lambda>s. share_key s = (t, r, n)) (shares d)"
    by (simp add: share_rows_def share_key_def)
  have dist: "distinct (map share_key (shares d))" using assms by (simp add: shares_ok_def)
  show "scalar_one_or_none (share_rows d t r n) = ret (find (\<lambda>s. share_key s = (t, r, n)) (shares d))"
    by (simp add: rows scalar_one_or_none_key [OF dist])
  show "share_rows d t r n = [] \<longleftrightarrow> role_of d t r n = None"
    by (simp add: rows filter_key [OF dist] role_of_def split: option.split)
qed

lemma role_of_valid: "shares_ok d \<Longrightarrow> role_of d t r n = Some x \<Longrightarrow> x \<in> {ROLE_VIEWER, ROLE_EDITOR}"
  using find_SomeD [of "\<lambda>s. share_key s = (t, r, n)" "shares d"] by (auto simp: role_of_def shares_ok_def)

lemma scalar_map: "scalar_one_or_none (map f xs) = bnd (scalar_one_or_none xs) (\<lambda>x. ret (map_option f x))"
  by (simp add: scalar_one_or_none_def split: list.split)

lemma get_share_role_eval:
  assumes "shares_ok d"
  shows "get_share_role t r n d = (Inr (if n = '''' then None else role_of d t r n), d)"
  using role_of_valid [OF assms, of t r n]
  by (auto simp: get_share_role_def bnd_def scalar_map share_rows_eval(1) [OF assms] ret_def role_of_def share_consts split: option.split)

lemma has_role_eval:
  "shares_ok d \<Longrightarrow> has_role roles t r u d = (Inr (username u \<noteq> '''' \<and> role_of d t r (username u) \<in> Some ` set roles), d)"
  by (auto simp: has_role_def bnd_def get_share_role_eval ret_def)

lemma can_see_resource_eval: "shares_ok d \<Longrightarrow> can_see_resource t own v r user d = (Inr (sees d t own v r user), d)"
  by (auto simp: can_see_resource_def sees_def is_admin_user_def map_visibility_visible_def ret_def has_role_eval
      split: option.split dest: role_of_valid)

lemma can_edit_resource_eval: "shares_ok d \<Longrightarrow> can_edit_resource t own r user d = (Inr (edits d t own r user), d)"
  by (auto simp: can_edit_resource_def edits_def ret_def has_role_eval split: option.split)

lemma can_see_collection_eval:
  "shares_ok d \<Longrightarrow> can_see_collection coll user d =
     (Inr (sees d RESOURCE_TYPE_COLLECTION (owner_id coll) (visibility coll) (collection_id coll) user), d)"
  by (auto simp: can_see_collection_def sees_def is_admin_user_def visibility_visible_to_anon_def
      visibility_visible_to_logged_def ret_def has_role_eval split: option.split dest: role_of_valid)

lemma can_edit_collection_eval:
  assumes "shares_ok d"
  shows "can_edit_collection coll user d =
    (Inr (edits d RESOURCE_TYPE_COLLECTION (owner_id coll) (collection_id coll) user \<or>
       user \<noteq> None \<and> viewer_can_edit coll \<and>
       sees d RESOURCE_TYPE_COLLECTION (owner_id coll) (visibility coll) (collection_id coll) user), d)"
  using assms
  by (auto simp: can_edit_collection_def edits_def ret_def bnd_def has_role_eval can_see_collection_eval split: option.split)

lemma can_edit_map_given_eval:
  assumes "shares_ok d" and "v \<noteq> ''''"
  shows "can_edit_map own mid user (Some v) (Some b) d =
    (Inr (edits d RESOURCE_TYPE_MAP own mid user \<or> user \<noteq> None \<and> b \<and> sees d RESOURCE_TYPE_MAP own v mid user), d)"
  using assms
  by (auto simp: can_edit_map_def edits_def ret_def bnd_def has_role_eval can_see_map_def can_see_resource_eval split: option.split)

lemma can_edit_map_row_eval:
  assumes "shares_ok d" and "distinct (map map_id (map_rows d))" and "m \<in> set (map_rows d)"
    and "py_uuid mid = Inr (map_id m)" and "map_visibility m \<noteq> ''''"
  shows "can_edit_map own mid user None None d =
    (Inr (edits d RESOURCE_TYPE_MAP own mid user \<or>
       user \<noteq> None \<and> map_viewer_can_edit m \<and> sees d RESOURCE_TYPE_MAP own (map_visibility m) mid user), d)"
proof -
  obtain m' where f: "find (\<lambda>v. map_id v = map_id m) (map_rows d) = Some m'"
    using find_NoneD [of "\<lambda>v. map_id v = map_id m" "map_rows d" m] assms(3) by (cases "find (\<lambda>v. map_id v = map_id m) (map_rows d)") auto
  have "m' = m"
    using find_SomeD [OF f] assms(2,3) by (auto simp: distinct_map inj_on_def)
  then have "scalar_one_or_none (filter (\<lambda>v. map_id v = map_id m) (map_rows d)) d = (Inr (Some m), d)"
    using f by (simp add: scalar_one_or_none_key [OF assms(2)] ret_def)
  then show ?thesis
    using assms(1,4,5)
    by (auto simp: can_edit_map_def edits_def ret_def bnd_def has_role_eval can_see_map_def can_see_resource_eval split: option.split)
qed

section \<open>Changing shares\<close>

lemma find_append: "find P (xs @ ys) = (case find P xs of None \<Rightarrow> find P ys | Some x \<Rightarrow> Some x)"
  by (induction xs) (simp_all split: option.split)

lemma find_map_same: "(\<And>x. P (f x) = P x) \<Longrightarrow> find P (map f xs) = map_option f (find P xs)"
  by (induction xs) simp_all

lemma find_remove1_other: "\<not> P s \<Longrightarrow> find P (remove1 s xs) = find P xs"
  by (induction xs) auto

lemma find_remove1_key:
  "distinct (map f xs) \<Longrightarrow> s \<in> set xs \<Longrightarrow> find (\<lambda>x. f x = f s) (remove1 s xs) = None"
  by (induction xs) (auto simp: find_None_iff image_iff)

lemma distinct_map_remove1: "distinct (map f xs) \<Longrightarrow> distinct (map f (remove1 s xs))"
proof (induction xs)
  case (Cons x xs)
  then show ?case using set_remove1_subset [of s xs] by auto
qed simp

lemma share_key_role [simp]: "share_key (s\<lparr>role := x\<rparr>) = share_key s"
  by (simp add: share_key_def)

lemma add_share_eval:
  assumes "shares_ok d" and "users_ok d" and "u \<in> set (users d)" and "username u = py_strip n" and "py_strip n \<noteq> ''''"
  obtains d' where "snd (add_share t r n x d) = d'" "shares_ok d'" "users d' = users d"
    "fst (add_share t r n x d) \<noteq> Inr None" "\<exists>s. fst (add_share t r n x d) = Inr s"
    "\<And>t' r' n'. role_of d' t' r' n' = (if (t', r', n') = (t, r, py_strip n) then Some (valid_role x) else role_of d t' r' n')"
proof -
  have "find (\<lambda>v. username v = py_strip n) (users d) \<noteq> None"
    using assms(3,4) find_NoneD [of "\<lambda>v. username v = py_strip n" "users d" u] by blast
  then obtain v where v: "find (\<lambda>v. username v = py_strip n) (users d) = Some v" by blast
  have vn: "username v = py_strip n" using find_SomeD [OF v] by simp
  have ss: "py_strip (py_strip n) = py_strip n" by (rule py_strip_idem)
  have x: "valid_role x \<in> {ROLE_VIEWER, ROLE_EDITOR}" by (simp add: valid_role_def)
  let ?k = "(t, r, py_strip n)"
  show ?thesis
  proof (cases "find (\<lambda>s. share_key s = ?k) (shares d)")
    case None
    let ?s = "\<lparr>resource_type = t, resource_id = r, share_username = py_strip n, role = valid_role x\<rparr>"
    let ?d = "d\<lparr>shares := shares d @ [?s]\<rparr>"
    have "add_share t r n x d = (Inr (Some ?s), ?d)"
      using v vn None assms(2,5) ss
      by (simp add: add_share_def bnd_def get_user_by_username_eval share_rows_eval(1) [OF assms(1)] ret_def modify_def Let_def)
    moreover have "share_key ?s = ?k" by (simp add: share_key_def)
    moreover have "?k \<notin> share_key ` set (shares d)" using None by (fastforce simp: find_None_iff)
    then have "shares_ok ?d"
      using assms(1) x \<open>share_key ?s = ?k\<close> by (simp add: shares_ok_def)
    moreover have "role_of ?d t' r' n' = (if (t', r', n') = ?k then Some (valid_role x) else role_of d t' r' n')" for t' r' n'
      using None \<open>share_key ?s = ?k\<close> by (auto simp: role_of_def find_append split: option.split)
    ultimately show ?thesis using that by auto
  next
    case (Some s)
    let ?f = "\<lambda>v. if v = s then v\<lparr>role := valid_role x\<rparr> else v"
    let ?d = "d\<lparr>shares := map ?f (shares d)\<rparr>"
    have "add_share t r n x d = (Inr (Some (s\<lparr>role := valid_role x\<rparr>)), ?d)"
      using v vn Some assms(2,5) ss
      by (simp add: add_share_def bnd_def get_user_by_username_eval share_rows_eval(1) [OF assms(1)] ret_def modify_def Let_def)
    moreover have k: "share_key (?f v) = share_key v" for v by simp
    moreover have "map share_key (map ?f (shares d)) = map share_key (shares d)" by simp
    then have "shares_ok ?d"
      using assms(1) x by (auto simp: shares_ok_def simp del: map_map)
    moreover have "role_of ?d t' r' n' = (if (t', r', n') = ?k then Some (valid_role x) else role_of d t' r' n')" for t' r' n'
    proof -
      have "find (\<lambda>v. share_key v = (t', r', n')) (map ?f (shares d)) =
          map_option ?f (find (\<lambda>v. share_key v = (t', r', n')) (shares d))"
        by (rule find_map_same) simp
      moreover have "share_key s = ?k" using find_SomeD [OF Some] by simp
      ultimately show ?thesis
        using Some find_SomeD [of "\<lambda>v. share_key v = (t', r', n')" "shares d"]
        by (cases "find (\<lambda>v. share_key v = (t', r', n')) (shares d)") (auto simp: role_of_def)
    qed
    ultimately show ?thesis using that by auto
  qed
qed

lemma remove_share_eval:
  assumes "shares_ok d" and "role_of d t r (py_strip n) \<noteq> None"
  shows "fst (remove_share t r n d) = Inr True" and "shares_ok (snd (remove_share t r n d))"
    and "role_of (snd (remove_share t r n d)) t' r' n' =
      (if (t', r', n') = (t, r, py_strip n) then None else role_of d t' r' n')"
proof -
  obtain s where s: "find (\<lambda>s. share_key s = (t, r, py_strip n)) (shares d) = Some s" using assms(2) by (auto simp: role_of_def)
  then have k: "share_key s = (t, r, py_strip n)" "s \<in> set (shares d)" using find_SomeD [OF s] by simp_all
  have e: "remove_share t r n d = (Inr True, d\<lparr>shares := remove1 s (shares d)\<rparr>)"
    using s by (simp add: remove_share_def bnd_def share_rows_eval(1) [OF assms(1)] ret_def modify_def)
  have dist: "distinct (map share_key (shares d))" using assms(1) by (simp add: shares_ok_def)
  show "fst (remove_share t r n d) = Inr True" by (simp add: e)
  show "shares_ok (snd (remove_share t r n d))"
    using assms(1) by (auto simp: e shares_ok_def distinct_map_remove1 dest: notin_set_remove1 set_remove1_subset [THEN subsetD])
  show "role_of (snd (remove_share t r n d)) t' r' n' =
      (if (t', r', n') = (t, r, py_strip n) then None else role_of d t' r' n')"
    using find_remove1_key [OF dist k(2)] find_remove1_other [of "\<lambda>v. share_key v = (t', r', n')" s "shares d"] k(1)
    by (auto simp: e role_of_def)
qed

section \<open>Properties\<close>

text \<open>C9: Whoever may edit may see. On a table of shares with one row per resource and user the checks return without
  raising, and for collections, maps (with the visibility and flag of the map's row), styles and mosaics a user who
  passes the edit check passes the see check.\<close>

theorem edit_implies_see:
  assumes "shares_ok d" and "distinct (map map_id (map_rows d))" and "m \<in> set (map_rows d)"
    and "py_uuid mid = Inr (map_id m)" and "map_visibility m \<noteq> ''''"
  shows "(fst (can_edit_collection coll user d) = Inr True \<longrightarrow> fst (can_see_collection coll user d) = Inr True) \<and>
    (fst (can_edit_map own mid user None None d) = Inr True \<longrightarrow> fst (can_see_map own (map_visibility m) mid user d) = Inr True) \<and>
    (fst (can_edit_style own cid sid user d) = Inr True \<longrightarrow> fst (can_see_style own v cid sid user d) = Inr True) \<and>
    (fst (can_edit_raster_view own vid user d) = Inr True \<longrightarrow> fst (can_see_raster_view own v vid user d) = Inr True) \<and>
    (\<exists>b1 b2 b3. can_edit_collection coll user d = (Inr b1, d) \<and> can_edit_map own mid user None None d = (Inr b2, d) \<and>
       can_edit_style own cid sid user d = (Inr b3, d))"
  using assms(1) edits_sees
  by (auto simp: can_edit_collection_eval can_see_collection_eval can_edit_map_row_eval [OF assms] can_see_map_def
      can_edit_style_def can_see_style_def can_edit_raster_view_def can_see_raster_view_def
      can_see_resource_eval can_edit_resource_eval)

definition example_map :: map_row where
  "example_map = \<lparr>map_id = 5, map_name = ''m'', map_description = None, map_thumbnail = None, map_thumbnail_data = None,
     map_definition = JObj [], map_owner = Some 1, map_visibility = ''logged'', map_viewer_can_edit = True, map_updated_at = 0\<rparr>"

definition shared_db :: db where
  "shared_db = example_db\<lparr>
     shares := [\<lparr>resource_type = ''collection'', resource_id = ''c'', share_username = ''ana'', role = ''editor''\<rparr>],
     collections := [\<lparr>collection_id = ''c'', owner_id = Some 1, visibility = ''private'', viewer_can_edit = False\<rparr>],
     map_rows := [example_map],
     style_rows := [\<lparr>style_collection = '''', style_id = ''s'', style_owner = Some 1, style_visibility = ''private'',
       style_title = None, style_spec = [], style_default = False\<rparr>]\<rparr>"

lemma shared_db_ok: "shares_ok shared_db"
  by (simp add: shared_db_def shares_ok_def share_consts)

lemma shared_db_users_ok: "users_ok shared_db"
  using example_db_ok by (simp add: users_ok_def shared_db_def)

theorem edit_implies_see_witness:
  "fst (can_edit_map (Some 1) ''00000000-0000-0000-0000-000000000005'' (Some plain_user) None None shared_db) = Inr True \<and>
   fst (can_see_map (Some 1) ''logged'' ''00000000-0000-0000-0000-000000000005'' (Some plain_user) shared_db) = Inr True"
proof -
  have "py_uuid ''00000000-0000-0000-0000-000000000005'' = Inr 5" by code_simp
  then have u: "py_uuid ''00000000-0000-0000-0000-000000000005'' = Inr (map_id example_map)" by (simp add: example_map_def)
  have "fst (can_edit_map (Some 1) ''00000000-0000-0000-0000-000000000005'' (Some plain_user) None None shared_db) = Inr True"
    by code_simp
  moreover have "distinct (map map_id (map_rows shared_db))" "example_map \<in> set (map_rows shared_db)"
    "map_visibility example_map = ''logged''" by (simp_all add: shared_db_def example_map_def)
  ultimately show ?thesis using edit_implies_see [OF shared_db_ok _ _ u, where own = "Some 1" and user = "Some plain_user"] by auto
qed

text \<open>C17: The list of maps and the check agree: with a page large enough, a user with a name (or an anonymous visitor) is
  listed exactly the maps that \<^verbatim>\<open>can_see_map\<close> lets him see, newest first.\<close>

theorem listed_maps_are_visible_maps:
  assumes "shares_ok d" and "\<And>u. user = Some u \<Longrightarrow> username u \<noteq> ''''" and "length (map_rows d) \<le> n"
  shows "\<exists>ms. fst (list_maps n 0 user d) = Inr ms \<and>
    set ms = {m \<in> set (map_rows d). fst (can_see_map (map_owner m) (map_visibility m) (uuid_str (map_id m)) user d) = Inr True} \<and>
    sorted_wrt (\<lambda>m m'. map_updated_at m' \<le> map_updated_at m) ms"
proof -
  define vis where "vis m \<longleftrightarrow> (case user of
          None \<Rightarrow> map_visibility m = VISIBILITY_PUBLIC
        | Some u \<Rightarrow> is_admin u \<or> map_visibility m \<in> {VISIBILITY_PUBLIC, VISIBILITY_LOGGED} \<or>
            map_owner m = Some (user_id u) \<or> share_rows d RESOURCE_TYPE_MAP (uuid_str (map_id m)) (username u) \<noteq> [])" for m :: map_row
  let ?ms = "sort_key (\<lambda>m. - map_updated_at m) (filter vis (map_rows d))"
  have "length ?ms \<le> n" using le_trans [OF length_filter_le [of vis "map_rows d"] assms(3)] by simp
  then have "fst (list_maps n 0 user d) = Inr ?ms" by (simp add: list_maps_def gets_def vis_def [abs_def])
  moreover have "vis m \<longleftrightarrow> sees d RESOURCE_TYPE_MAP (map_owner m) (map_visibility m) (uuid_str (map_id m)) user" for m
    using assms(2) by (auto simp: vis_def sees_def share_rows_eval(2) [OF assms(1)] split: option.split)
  moreover have "sorted_wrt (\<lambda>m m'. map_updated_at m' \<le> map_updated_at m) ?ms"
    using sorted_sort_key [of "\<lambda>m. - map_updated_at m" "filter vis (map_rows d)"] by (simp add: sorted_wrt_map)
  ultimately show ?thesis
    by (intro exI [of _ ?ms]) (auto simp: can_see_map_def can_see_resource_eval [OF assms(1)])
qed

theorem listed_maps_are_visible_maps_witness:
  "\<exists>ms. fst (list_maps 9 0 (Some plain_user) shared_db) = Inr ms \<and> set ms = {example_map}"
proof -
  have "fst (can_see_map (Some 1) ''logged'' (uuid_str 5) (Some plain_user) shared_db) = Inr True" by code_simp
  then have "{m \<in> set (map_rows shared_db). fst (can_see_map (map_owner m) (map_visibility m) (uuid_str (map_id m)) (Some plain_user)
      shared_db) = Inr True} = {example_map}" by (auto simp: shared_db_def example_map_def)
  moreover have "length (map_rows shared_db) \<le> 9" by (simp add: shared_db_def)
  ultimately show ?thesis
    using listed_maps_are_visible_maps [OF shared_db_ok, of "Some plain_user" 9] by (auto simp: plain_user_def)
qed

text \<open>A share does what it says: adding one for a registered user sets exactly that user's role on exactly that
  resource (an unknown role counts as viewer), removing it takes the role away again, and both keep one row per
  resource and user.\<close>

theorem share_grants_and_revokes:
  assumes "shares_ok d" and "users_ok d" and "u \<in> set (users d)" and "username u = py_strip n" and "py_strip n \<noteq> ''''"
  shows "let d1 = snd (add_share t r n x d); d2 = snd (remove_share t r n d1) in
    shares_ok d1 \<and> fst (get_share_role t r (username u) d1) = Inr (Some (valid_role x)) \<and>
    fst (remove_share t r n d1) = Inr True \<and> shares_ok d2 \<and> fst (get_share_role t r (username u) d2) = Inr None \<and>
    (\<forall>t' r' n'. (t', r', n') \<noteq> (t, r, username u) \<longrightarrow>
       fst (get_share_role t' r' n' d1) = fst (get_share_role t' r' n' d) \<and>
       fst (get_share_role t' r' n' d2) = fst (get_share_role t' r' n' d))"
proof -
  obtain d1 where d1: "snd (add_share t r n x d) = d1" "shares_ok d1"
    "\<And>t' r' n'. role_of d1 t' r' n' = (if (t', r', n') = (t, r, py_strip n) then Some (valid_role x) else role_of d t' r' n')"
    using add_share_eval [OF assms, of t r x] by metis
  then have "role_of d1 t r (py_strip n) \<noteq> None" by simp
  note rm = remove_share_eval [OF d1(2) this]
  show ?thesis
    using assms(4,5) d1(2,3) rm by (simp add: Let_def d1(1) get_share_role_eval assms(1))
qed

theorem share_grants_and_revokes_witness:
  "fst (get_share_role ''map'' ''m'' ''ana'' (snd (add_share ''map'' ''m'' '' ana '' ''boss'' shared_db))) = Inr (Some ''viewer'')"
proof -
  have "py_strip '' ana '' = ''ana''" by code_simp
  moreover have "plain_user \<in> set (users shared_db)" by (simp add: shared_db_def example_db_def)
  moreover have "valid_role ''boss'' = ''viewer''" by (simp add: valid_role_def share_consts)
  ultimately show ?thesis
    using share_grants_and_revokes [OF shared_db_ok shared_db_users_ok, of plain_user "'' ana ''" "''map''" "''m''" "''boss''"]
    by (simp add: Let_def plain_user_def)
qed

text \<open>A share of a public style has no effect: after the owner shares a private public style with a user, with success, the
  check still refuses that user, because the share is stored under the style's id and looked up under
  \<open>:\<close> followed by it.\<close>

theorem public_style_share_ineffective:
  "let (r, d) = add_style_share ''s'' root_user ''ana'' ''editor'' shared_db in
     (case r of Inl _ \<Rightarrow> False | Inr s \<Rightarrow> share_username s = ''ana'' \<and> role s = ''editor'') \<and>
     fst (can_see_style (Some 1) ''private'' PUBLIC_COLLECTION_ID ''s'' (Some plain_user) d) = Inr False"
  by code_simp

text \<open>Shares outlive users: when a user is deleted and another is created with the same name, the new user can edit
  what was shared with the old one.\<close>

theorem deleted_users_shares_inherited:
  "let d1 = snd (delete_user_post (Some root_user) 2 shared_db);
       (r, d2) = create_user example_crypto ''ana'' ''pw'' False True d1
   in map username (users d1) = [''root''] \<and>
      (case r of Inl _ \<Rightarrow> False
       | Inr u \<Rightarrow> user_id u = 3 \<and> fst (can_edit_collection (hd (collections d2)) (Some u) d2) = Inr True)"
  by code_simp

end
