(* ===== verification/Login_Guard.thy ===== *)
theory Login_Guard
  imports Accounts App_Settings
begin

text \<open>
  Signing in, from \<^verbatim>\<open>app/api/routes/auth.py\<close>: the limiter of failed logins in its in-process form, the
  limiter of password changes, the redirect target, and the handlers \<^verbatim>\<open>login_post\<close> and
  \<^verbatim>\<open>change_password_post\<close> on top of them. Times are rationals; a handler is given the time of each of
  its clock readings. The session is what the handler stores in it, if there is one.

  The limiter's other form, on Redis, rests on the remaining life of a key and is left out.

  Shown: after the eighth failure within a minute the in-process limiter refuses logins from that address
  for exactly 240 seconds, although it announces 300, as long as no further failure is registered; a
  redirect target begins with the address of the application. One failure registered late lifts the
  login block, and the prefix test accepts other hosts.
\<close>

section \<open>Definitions\<close>

record guard =
  login_attempts :: "string \<rightharpoonup> rat list"
  pw_attempts :: "string \<rightharpoonup> rat list"
  pw_blocked_until :: "string \<rightharpoonup> rat"

definition no_attempts :: guard where
  "no_attempts = \<lparr>login_attempts = Map.empty, pw_attempts = Map.empty, pw_blocked_until = Map.empty\<rparr>"

definition client_ip :: "bool \<Rightarrow> string option \<Rightarrow> string option \<Rightarrow> string" where
  "client_ip trust_xff xff host =
     (case (if trust_xff then xff else None) of
        Some x \<Rightarrow> if x \<noteq> '''' then py_strip (takeWhile (\<lambda>c. c \<noteq> CHR '','') x)
                  else (case host of None \<Rightarrow> ''unknown'' | Some h \<Rightarrow> if h = '''' then ''unknown'' else h)
      | None \<Rightarrow> (case host of None \<Rightarrow> ''unknown'' | Some h \<Rightarrow> if h = '''' then ''unknown'' else h))"

definition prune_attempts :: "rat list \<Rightarrow> rat \<Rightarrow> rat \<Rightarrow> rat list" where
  "prune_attempts ts now window_s = filter (\<lambda>t. now - window_s \<le> t) ts"

text \<open>The in-process branch; window 60 s, 8 failures, block of 300 s.\<close>

definition is_blocked_and_register_failure :: "string \<Rightarrow> rat \<Rightarrow> bool \<Rightarrow> guard \<Rightarrow> (bool \<times> int) \<times> guard" where
  "is_blocked_and_register_failure ip now register_failure g =
     (let ts0 = prune_attempts (or_else (login_attempts g ip) []) now 60;
          ts = (if register_failure then ts0 @ [now] else ts0);
          g1 = g\<lparr>login_attempts := (login_attempts g)(ip \<mapsto> ts)\<rparr>
      in if 8 \<le> length ts then ((True, 300), g\<lparr>login_attempts := (login_attempts g)(ip \<mapsto> [now + 300])\<rparr>)
         else if length ts = 1 \<and> now < hd ts \<and> now + 60 < hd ts then ((True, \<lfloor>hd ts - now\<rfloor>), g1)
         else ((False, 0), g1))"

definition clear_failures :: "string \<Rightarrow> guard \<Rightarrow> guard" where
  "clear_failures ip g = g\<lparr>login_attempts := (login_attempts g)(ip := None)\<rparr>"

definition password_change_rate_blocked :: "string \<Rightarrow> rat \<Rightarrow> bool \<Rightarrow> bool \<Rightarrow> guard \<Rightarrow> (bool \<times> int) \<times> guard" where
  "password_change_rate_blocked ip now register_failure clear g =
     (if clear
      then ((False, 0), g\<lparr>pw_attempts := (pw_attempts g)(ip := None), pw_blocked_until := (pw_blocked_until g)(ip := None)\<rparr>)
      else if now < or_else (pw_blocked_until g ip) 0
      then ((True, \<lfloor>or_else (pw_blocked_until g ip) 0 - now\<rfloor>), g)
      else
        (let ts0 = filter (\<lambda>t. now - 900 \<le> t) (or_else (pw_attempts g ip) []) in
         if register_failure
         then (let ts = ts0 @ [now]; g1 = g\<lparr>pw_attempts := (pw_attempts g)(ip \<mapsto> ts)\<rparr> in
               if 12 \<le> length ts
               then ((True, 1800), g1\<lparr>pw_blocked_until := (pw_blocked_until g1)(ip \<mapsto> now + 1800)\<rparr>)
               else ((False, 0), g1))
         else ((False, 0), g\<lparr>pw_attempts := (pw_attempts g)(ip \<mapsto> ts0)\<rparr>)))"

definition normalize_next_url :: "string \<Rightarrow> string option \<Rightarrow> string" where
  "normalize_next_url base next_url =
     (let u = py_strip (or_else next_url ''''); home = base @ ''/collections?f=html'' in
      if u = '''' then home
      else if starts_with ''/'' u \<and> \<not> starts_with ''//'' u
      then (if starts_with ''/auth/login'' u then home else base @ u)
      else if starts_with base u
      then (if starts_with (base @ ''/auth/login'') u then home else u)
      else home)"

text \<open>\<^verbatim>\<open>urllib.parse.quote\<close> with nothing safe but the unreserved characters; text is encoded as UTF-8.\<close>

definition percent :: "nat \<Rightarrow> string" where
  "percent n = [CHR ''%'', ''0123456789ABCDEF'' ! (n div 16), ''0123456789ABCDEF'' ! (n mod 16)]"

definition quote_char :: "char \<Rightarrow> string" where
  "quote_char c =
     (let n = of_char c in
      if c \<in> set ''ABCDEFGHIJKLMNOPQRSTUVWXYZabcdefghijklmnopqrstuvwxyz0123456789_.-~'' then [c]
      else if n < 128 then percent n
      else percent (192 + n div 64) @ percent (128 + n mod 64))"

definition url_quote :: "string \<Rightarrow> string" where
  "url_quote s = concat (map quote_char s)"

subsection \<open>Handlers\<close>

definition on_db :: "(db, 'a) prog \<Rightarrow> (guard \<times> db, 'a) prog" where
  "on_db m = (\<lambda>(g, d). (fst (m d), (g, snd (m d))))"

definition on_guard :: "(guard \<Rightarrow> 'a \<times> guard) \<Rightarrow> (guard \<times> db, 'a) prog" where
  "on_guard f = (\<lambda>(g, d). (Inr (fst (f g)), (snd (f g), d)))"

text \<open>The page and, when the session was written, the user it now names.\<close>

definition login_post ::
    "crypto \<Rightarrow> string \<Rightarrow> rat \<Rightarrow> rat \<Rightarrow> bool \<Rightarrow> string \<Rightarrow> string \<Rightarrow> string \<Rightarrow> string option \<Rightarrow> (guard \<times> db, page \<times> user option) prog" where
  "login_post c ip now now' has_session base form_username password next_url =
     bnd (on_guard (is_blocked_and_register_failure ip now False)) (\<lambda>(blocked, retry_after).
     if blocked then ret (Form ''Too many login attempts'', None)
     else
       let n = py_strip form_username; target = normalize_next_url base next_url in
       if n = '''' then ret (Form ''Username required'', None)
       else bnd (on_db (get_user_by_username n)) (\<lambda>found.
         case found of
           None \<Rightarrow> bnd (on_guard (is_blocked_and_register_failure ip now' True)) (\<lambda>_. ret (Form ''Invalid username or password'', None))
         | Some u \<Rightarrow>
             if \<not> verify_password c password (password_hash u)
             then bnd (on_guard (is_blocked_and_register_failure ip now' True)) (\<lambda>_. ret (Form ''Invalid username or password'', None))
             else bnd (on_guard (\<lambda>g. ((), clear_failures ip g))) (\<lambda>_.
               if has_session
               then ret (Redirect (if must_change_password u then base @ ''/auth/change-password?next='' @ url_quote target else target), Some u)
               else raise (HTTPException 501 ''Session not configured (set auth_secret_key)''))))"

definition change_password_post ::
    "crypto \<Rightarrow> string \<Rightarrow> rat \<Rightarrow> rat \<Rightarrow> user \<Rightarrow> string \<Rightarrow> string \<Rightarrow> string \<Rightarrow> string \<Rightarrow> string option \<Rightarrow> (guard \<times> db, page) prog" where
  "change_password_post c ip now now' me base current_password new_password new_password_confirm next_url =
     bnd (on_guard (password_change_rate_blocked ip now False False)) (\<lambda>(blocked, retry_s).
     if blocked then ret (Form ''Too many attempts'')
     else if \<not> must_change_password me \<and> \<not> verify_password c current_password (password_hash me)
     then bnd (on_guard (password_change_rate_blocked ip now' True False)) (\<lambda>_. ret (Form ''Current password is incorrect''))
     else if new_password = '''' then ret (Form ''New password is required'')
     else if new_password \<noteq> new_password_confirm then ret (Form ''New password and confirmation do not match'')
     else bnd (on_db (set_password c (user_id me) new_password False)) (\<lambda>_.
          bnd (on_guard (password_change_rate_blocked ip now' False True)) (\<lambda>_.
          ret (Redirect (normalize_next_url base next_url)))))"

section \<open>Lemmas\<close>

text \<open>Checks of any addresses one after the other.\<close>

fun login_checks :: "(string \<times> rat) list \<Rightarrow> guard \<Rightarrow> guard" where
  "login_checks [] g = g"
| "login_checks ((ip, t) # qs) g = login_checks qs (snd (is_blocked_and_register_failure ip t False g))"

definition marked :: "guard \<Rightarrow> string \<Rightarrow> rat \<Rightarrow> bool" where
  "marked g ip t \<longleftrightarrow> login_attempts g ip = Some [t]"

text \<open>Once the address is blocked its entry is the marker, or nothing after the marker has been pruned; a check leaves it so.\<close>

definition unmarked :: "guard \<Rightarrow> string \<Rightarrow> bool" where
  "unmarked g ip \<longleftrightarrow> login_attempts g ip = Some []"

lemma prune_one: "prune_attempts [t] now w = (if now - w \<le> t then [t] else [])" "prune_attempts [] now w = []"
  by (simp_all add: prune_attempts_def)

lemma check_mark:
  assumes "marked g ip t"
  shows "marked (snd (is_blocked_and_register_failure ip' now False g)) ip t \<or>
    t < now \<and> unmarked (snd (is_blocked_and_register_failure ip' now False g)) ip"
proof (cases "ip' = ip \<and> t < now - 60")
  case True
  then have "\<not> now - 60 \<le> t" "t < now" by simp_all
  then show ?thesis using True assms by (simp add: marked_def unmarked_def is_blocked_and_register_failure_def Let_def prune_one)
next
  case False
  then show ?thesis
    using assms by (cases "ip' = ip") (simp_all add: marked_def is_blocked_and_register_failure_def Let_def prune_one not_less)
qed

lemma check_unmarked:
  "unmarked g ip \<Longrightarrow> unmarked (snd (is_blocked_and_register_failure ip' now False g)) ip"
  by (cases "ip' = ip") (simp_all add: unmarked_def is_blocked_and_register_failure_def Let_def prune_one)

lemma checks_unmarked: "unmarked g ip \<Longrightarrow> unmarked (login_checks qs g) ip"
  by (induction qs g rule: login_checks.induct) (auto intro: check_unmarked)

lemma checks_mark:
  "marked g ip t \<Longrightarrow> \<forall>(ip', now)\<in>set qs. now \<le> u \<Longrightarrow>
     marked (login_checks qs g) ip t \<or> t < u \<and> unmarked (login_checks qs g) ip"
proof (induction qs arbitrary: g)
  case (Cons q qs)
  obtain ip' now where q: "q = (ip', now)" by (cases q)
  have now: "now \<le> u" "\<forall>(ip', now)\<in>set qs. now \<le> u" using Cons.prems(2) q by auto
  from check_mark [OF Cons.prems(1), of ip' now] show ?case
  proof
    assume "marked (snd (is_blocked_and_register_failure ip' now False g)) ip t"
    from Cons.IH [OF this now(2)] show ?thesis by (simp add: q)
  next
    assume "t < now \<and> unmarked (snd (is_blocked_and_register_failure ip' now False g)) ip"
    then show ?thesis using now(1) checks_unmarked by (auto simp: q)
  qed
qed simp

lemma mark_blocks:
  "marked g ip t \<Longrightarrow> fst (fst (is_blocked_and_register_failure ip now False g)) \<longleftrightarrow> now + 60 < t"
  "unmarked g ip \<Longrightarrow> \<not> fst (fst (is_blocked_and_register_failure ip now False g))"
proof -
  have "now - 60 \<le> t \<and> now < t" if "now + 60 < t" using that by simp
  then show "marked g ip t \<Longrightarrow> fst (fst (is_blocked_and_register_failure ip now False g)) \<longleftrightarrow> now + 60 < t"
    by (auto simp: marked_def is_blocked_and_register_failure_def Let_def prune_one)
qed (simp add: unmarked_def is_blocked_and_register_failure_def Let_def prune_one)

lemma starts_with_base: "starts_with (base @ p) (base @ u) \<longleftrightarrow> starts_with p u"
  by (simp add: starts_with_def)

section \<open>Properties\<close>

text \<open>C18: How long the in-process limiter blocks, exactly. A failure registered when seven others of that address are less than
  a minute old is answered with a block of 300 seconds. When only checks of logins, of any addresses and at earlier times, come in
  between, the check of a login of that address at a later time finds it blocked exactly when less than 240 seconds have passed (the
  marker counts only while it lies more than a minute ahead), and the login is then refused without looking at the password.\<close>

theorem login_block_lasts:
  assumes "7 \<le> length (prune_attempts (or_else (login_attempts g ip) []) t0 60)"
    and "\<forall>(ip', t')\<in>set qs. t' \<le> t"
  defines "out \<equiv> is_blocked_and_register_failure ip t0 True g"
  shows "fst out = (True, 300) \<and>
    (fst (fst (is_blocked_and_register_failure ip t False (login_checks qs (snd out)))) \<longleftrightarrow> t < t0 + 240) \<and>
    (t < t0 + 240 \<longrightarrow>
      fst (login_post c ip t t' s base n pw next (login_checks qs (snd out), d)) = Inr (Form ''Too many login attempts'', None))"
proof -
  let ?g = "login_checks qs (snd out)"
  have out: "out = ((True, 300), g\<lparr>login_attempts := (login_attempts g)(ip \<mapsto> [t0 + 300])\<rparr>)"
    using assms(1) by (simp add: out_def is_blocked_and_register_failure_def Let_def)
  then have "marked (snd out) ip (t0 + 300)" by (simp add: marked_def)
  from checks_mark [OF this assms(2)] have "marked ?g ip (t0 + 300) \<or> t0 + 300 < t \<and> unmarked ?g ip" .
  then have b: "fst (fst (is_blocked_and_register_failure ip t False ?g)) \<longleftrightarrow> t < t0 + 240"
    using mark_blocks [of ?g ip] by auto
  have "fst (login_post c ip t t' s base n pw next (?g, d)) = Inr (Form ''Too many login attempts'', None)" if "t < t0 + 240"
  proof -
    have "fst (is_blocked_and_register_failure ip t False ?g) = (True, snd (fst (is_blocked_and_register_failure ip t False ?g)))"
      using b that by (simp add: prod_eq_iff)
    then obtain k where "fst (is_blocked_and_register_failure ip t False ?g) = (True, k)" ..
    then show ?thesis by (simp add: login_post_def bnd_def on_guard_def ret_def)
  qed
  with b show ?thesis by (simp add: out)
qed

theorem login_block_lasts_witness:
  "let g = snd (is_blocked_and_register_failure ''1.2.3.4'' 8 True (no_attempts\<lparr>login_attempts := [''1.2.3.4'' \<mapsto> [1, 2, 3, 4, 5, 6, 7]]\<rparr>))
   in fst (login_post example_crypto ''1.2.3.4'' 247 247 True ''http://h'' ''root'' ''x'' None (g, example_db)) =
        Inr (Form ''Too many login attempts'', None) \<and>
      \<not> fst (fst (is_blocked_and_register_failure ''1.2.3.4'' 248 False g))"
proof -
  let ?g = "no_attempts\<lparr>login_attempts := [''1.2.3.4'' \<mapsto> [1, 2, 3, 4, 5, 6, 7]]\<rparr>"
  have "7 \<le> length (prune_attempts (or_else (login_attempts ?g ''1.2.3.4'') []) 8 60)" by (simp add: prune_attempts_def)
  from login_block_lasts [OF this, of "[]" 247 example_crypto 247 True "''http://h''" "''root''" "''x''" None example_db]
    login_block_lasts [OF this, of "[]" 248 example_crypto 248 True "''http://h''" "''root''" "''x''" None example_db]
  show ?thesis unfolding Let_def by simp
qed

text \<open>A late failure lifts the block: nine logins from one address pass the check together, and fail; the eighth
  failure blocks the address, the ninth replaces the marker by a list of two entries, and the next check passes.\<close>

theorem login_block_lifted_by_late_failure:
  "let g8 = foldl (\<lambda>g i. snd (is_blocked_and_register_failure ''ip'' i True g)) no_attempts [1, 2, 3, 4, 5, 6, 7, 8];
       g9 = snd (is_blocked_and_register_failure ''ip'' 9 True g8)
   in fst (fst (is_blocked_and_register_failure ''ip'' 10 False g8)) \<and>
      \<not> fst (fst (is_blocked_and_register_failure ''ip'' 10 False g9))"
  by (simp add: is_blocked_and_register_failure_def prune_attempts_def no_attempts_def Let_def)

text \<open>A redirect target begins with the address of the application, and never is its login page.\<close>

theorem next_url_starts_with_base:
  "starts_with base (normalize_next_url base next) \<and> \<not> starts_with (base @ ''/auth/login'') (normalize_next_url base next)"
proof -
  let ?home = "base @ ''/collections?f=html''"
  have home: "starts_with base ?home \<and> \<not> starts_with (base @ ''/auth/login'') ?home"
    by (simp add: starts_with_base) (simp add: starts_with_def)
  show ?thesis
    unfolding normalize_next_url_def Let_def using home by (simp add: starts_with_base)
qed

text \<open>The target may be on another host: an address that continues the application's host name passes the prefix test.\<close>

theorem next_url_other_host:
  "normalize_next_url ''https://maps.example'' (Some ''https://maps.example.evil.org/login'') = ''https://maps.example.evil.org/login''"
  by code_simp

end
