(* ===== verification/Staging.thy ===== *)
theory Staging
  imports Py_Text
begin

text \<open>
  Staging tables and feature partitions: \<^verbatim>\<open>app/services/bulk_staging.py\<close>,
  \<^verbatim>\<open>app/services/bulk_staging_recovery.py\<close> (without the abandoning of a job, which is in \<^verbatim>\<open>Finalize_Worker\<close>) and the
  synchronous part of \<^verbatim>\<open>app/db/features_partitions.py\<close>.

  PostgreSQL is modelled by what these modules use of it: the ordinary tables of the schema with
  their rows in physical order, the partitions of \<^verbatim>\<open>features\<close> in catalogue order with the
  collection id each is bound to, the rows of the default partition, which tables are unlogged, and the
  names of the bound checks added to them. A statement that the
  server refuses raises; a transaction (\<^verbatim>\<open>engine.begin()\<close> or \<^verbatim>\<open>engine.connect()\<close>) is all or
  nothing, and the server may also refuse it as a whole, for instance when a lock is not granted
  in time (\<open>faults\<close> lists what happens to the next transactions). Waiting loops are bounded by the
  number of attempts their deadline allows. Geometry and attributes are one opaque field, rows are not
  tested against a bound check again once it is in place, and \<open>h\<close> stands for the hash in the name of a partition.

  Shown: replacing a collection leaves exactly the staged rows, one per key, and every other
  collection as it was, whatever lock time-outs come before; a failed replacement loses nothing and can be retried; appending adds the
  staged rows; deduplication keeps the newest row of each key. Two ways to lose live
  data are shown: the clean-up of staging tables drops the partition a finished replacement attached,
  and two collections whose ids differ in spaces share a partition.
\<close>

section \<open>The database\<close>

record frow =
  fid :: string
  fcid :: string
  fpart :: int
  fattrs :: string
  fupdated :: int

definition fkey :: "frow \<Rightarrow> string \<times> string \<times> int" where
  "fkey r = (fid r, fcid r, fpart r)"

record pg =
  tables :: "string \<rightharpoonup> frow list"
  parts :: "(string \<times> string) list"
  default_rows :: "frow list"
  unlogged :: "string list"
  checks :: "(string \<times> string) list"
  faults :: "exn option list"

text \<open>A transaction: refused as a whole, or run and rolled back when it raises.\<close>

definition all_or_nothing :: "(pg, 'a) prog \<Rightarrow> (pg, 'a) prog" where
  "all_or_nothing m = (\<lambda>p. case m p of (Inl e, _) \<Rightarrow> (Inl e, p) | (Inr a, p') \<Rightarrow> (Inr a, p'))"

definition tx :: "(pg, 'a) prog \<Rightarrow> (pg, 'a) prog" where
  "tx m = (\<lambda>p. case faults p of
       Some e # fs \<Rightarrow> (Inl e, p\<lparr>faults := fs\<rparr>)
     | None # fs \<Rightarrow> all_or_nothing m (p\<lparr>faults := fs\<rparr>)
     | [] \<Rightarrow> all_or_nothing m p)"

subsection \<open>Statements\<close>

definition table_exists :: "string \<Rightarrow> (pg, bool) prog" where
  "table_exists rel = gets (\<lambda>p. tables p rel \<noteq> None)"

definition partition_is_attached :: "string \<Rightarrow> (pg, bool) prog" where
  "partition_is_attached rel = gets (\<lambda>p. rel \<in> fst ` set (parts p))"

text \<open>What the catalogue keeps about a table besides its rows goes with it.\<close>

definition forget_table :: "string \<Rightarrow> pg \<Rightarrow> pg" where
  "forget_table rel p =
     p\<lparr>unlogged := filter (\<lambda>r. r \<noteq> rel) (unlogged p), checks := filter (\<lambda>(r, _). r \<noteq> rel) (checks p)\<rparr>"

definition drop_table_if_exists :: "string \<Rightarrow> (pg, unit) prog" where
  "drop_table_if_exists rel =
     modify (\<lambda>p. forget_table rel (p\<lparr>tables := (tables p)(rel := None), parts := filter (\<lambda>(r, _). r \<noteq> rel) (parts p)\<rparr>))"

definition detach_partition :: "string \<Rightarrow> (pg, unit) prog" where
  "detach_partition rel = modify (\<lambda>p. p\<lparr>parts := filter (\<lambda>(r, _). r \<noteq> rel) (parts p)\<rparr>)"

definition no_such_table :: "string \<Rightarrow> exn" where
  "no_such_table rel = DbError (''relation '' @ rel @ '' does not exist'')"

definition duplicate_key :: "string \<Rightarrow> exn" where
  "duplicate_key rel = IntegrityError (''UniqueViolation duplicate key value violates unique constraint '' @ rel @ ''_pkey'')"

definition select_rows :: "string \<Rightarrow> (pg, frow list) prog" where
  "select_rows rel = (\<lambda>p. case tables p rel of None \<Rightarrow> raise (no_such_table rel) p | Some rows \<Rightarrow> ret rows p)"

definition attach_partition :: "string \<Rightarrow> string \<Rightarrow> (pg, unit) prog" where
  "attach_partition rel cid = (\<lambda>p.
     case tables p rel of
       None \<Rightarrow> raise (no_such_table rel) p
     | Some rows \<Rightarrow>
         if rel \<in> fst ` set (parts p) then raise (DbError (rel @ '' is already a partition'')) p
         else if cid \<in> snd ` set (parts p) then raise (DbError (''partition would overlap'')) p
         else if cid \<in> fcid ` set (default_rows p) then raise (DbError ''updated partition constraint for default partition would be violated'') p
         else if \<exists>r\<in>set rows. fcid r \<noteq> cid then raise (IntegrityError ''partition constraint is violated by some row'') p
         else if \<not> distinct (map fkey rows) then raise (duplicate_key rel) p
         else ret () (p\<lparr>parts := parts p @ [(rel, cid)]\<rparr>))"

definition create_table_partition :: "string \<Rightarrow> string \<Rightarrow> (pg, unit) prog" where
  "create_table_partition rel cid = (\<lambda>p.
     if tables p rel \<noteq> None then raise (DbError (''relation '' @ rel @ '' already exists'')) p
     else if cid \<in> snd ` set (parts p) then raise (DbError (''partition would overlap'')) p
     else if cid \<in> fcid ` set (default_rows p) then raise (DbError ''updated partition constraint for default partition would be violated'') p
     else ret () (p\<lparr>tables := (tables p)(rel \<mapsto> []), parts := parts p @ [(rel, cid)]\<rparr>))"

text \<open>\<^verbatim>\<open>INSERT INTO features\<close> routes each row to the partition of its collection, or to the default.\<close>

definition insert_feature :: "frow \<Rightarrow> (pg, unit) prog" where
  "insert_feature r = (\<lambda>p.
     case find (\<lambda>(_, c). c = fcid r) (parts p) of
       Some (rel, _) \<Rightarrow>
         (case tables p rel of
            None \<Rightarrow> raise (no_such_table rel) p
          | Some rows \<Rightarrow>
              if fkey r \<in> fkey ` set rows then raise (duplicate_key rel) p
              else ret () (p\<lparr>tables := (tables p)(rel \<mapsto> rows @ [r])\<rparr>))
     | None \<Rightarrow>
         if fkey r \<in> fkey ` set (default_rows p) then raise (duplicate_key ''features_default'') p
         else ret () (p\<lparr>default_rows := default_rows p @ [r]\<rparr>))"

definition insert_features :: "frow list \<Rightarrow> (pg, unit) prog" where
  "insert_features rows = for_each rows (\<lambda>r _. insert_feature r) ()"

definition delete_default :: "string \<Rightarrow> (pg, unit) prog" where
  "delete_default cid = modify (\<lambda>p. p\<lparr>default_rows := filter (\<lambda>r. fcid r \<noteq> cid) (default_rows p)\<rparr>)"

section \<open>\<^verbatim>\<open>features_partitions.py\<close>\<close>

definition safe_chars :: "nat \<Rightarrow> string \<Rightarrow> string \<Rightarrow> string" where
  "safe_chars n dflt s =
     (let t = strip_with (\<lambda>c. c = CHR ''_'')
                (take n (map (\<lambda>c. if c \<in> set ''ABCDEFGHIJKLMNOPQRSTUVWXYZabcdefghijklmnopqrstuvwxyz0123456789_'' then c else CHR ''_'') s))
      in if t = '''' then dflt else t)"

definition safe_partition_name :: "(string \<Rightarrow> string) \<Rightarrow> string \<Rightarrow> string" where
  "safe_partition_name h cid = ''features_'' @ safe_chars 45 ''default'' cid @ ''_'' @ take 8 (h cid)"

text \<open>The bound of a partition as the catalogue prints it, and with all its spaces removed.\<close>

definition bound_text :: "string \<Rightarrow> string" where
  "bound_text cid = ''FOR VALUES IN ('' @ [CHR 0x27] @ replace_char CHR 0x27 [CHR 0x27, CHR 0x27] cid @ [CHR 0x27] @ '')''"

definition partition_bound_literal :: "string \<Rightarrow> string" where
  "partition_bound_literal cid = replace_char CHR '' '' [] (bound_text cid)"

definition resolve_features_partition_relname :: "string \<Rightarrow> (pg, string option) prog" where
  "resolve_features_partition_relname cid =
     gets (\<lambda>p. map_option fst (find (\<lambda>(rel, c). replace_char CHR '' '' [] (bound_text c) = partition_bound_literal cid) (parts p)))"

definition resolve_features_partition_relname_sync :: "string \<Rightarrow> (pg, string option) prog" where
  "resolve_features_partition_relname_sync cid = tx (resolve_features_partition_relname cid)"

definition partition_swap_already_complete_sync :: "string \<Rightarrow> string \<Rightarrow> (pg, bool) prog" where
  "partition_swap_already_complete_sync cid staging =
     tx (bnd (partition_is_attached staging) (\<lambda>a.
         if a then ret True
         else bnd (resolve_features_partition_relname cid) (\<lambda>live. ret (live = Some staging))))"

definition drop_orphan_detached_partition :: "string \<Rightarrow> string \<Rightarrow> (pg, unit) prog" where
  "drop_orphan_detached_partition staging canonical_old =
     (if canonical_old = '''' \<or> canonical_old = staging then ret ()
      else bnd (table_exists canonical_old) (\<lambda>ex.
           if \<not> ex then ret ()
           else bnd (partition_is_attached canonical_old) (\<lambda>a.
                if a then ret () else drop_table_if_exists canonical_old)))"

definition migrate_default_rows_to_partition :: "string \<Rightarrow> (pg, unit) prog" where
  "migrate_default_rows_to_partition cid =
     bnd (gets (\<lambda>p. filter (\<lambda>r. fcid r = cid) (default_rows p))) (\<lambda>rows.
     bnd (insert_features rows) (\<lambda>_. delete_default cid))"

definition create_partition :: "(string \<Rightarrow> string) \<Rightarrow> string \<Rightarrow> (pg, string) prog" where
  "create_partition h cid =
     bnd (create_table_partition (safe_partition_name h cid) cid) (\<lambda>_. ret (safe_partition_name h cid))"

definition message_of :: "exn \<Rightarrow> string" where
  "message_of e = (case e of DbError m \<Rightarrow> m | IntegrityError m \<Rightarrow> m | StagingDuplicateUnrecoverable m \<Rightarrow> m | RuntimeError m \<Rightarrow> m | _ \<Rightarrow> '''')"

definition ensure_features_partition_sync :: "(string \<Rightarrow> string) \<Rightarrow> string \<Rightarrow> (pg, string) prog" where
  "ensure_features_partition_sync h cid =
     bnd (resolve_features_partition_relname_sync cid) (\<lambda>existing.
     case existing of
       Some e \<Rightarrow> bnd (tx (migrate_default_rows_to_partition cid)) (\<lambda>_. ret e)
     | None \<Rightarrow> tx (
         bnd (resolve_features_partition_relname cid) (\<lambda>existing.
         case existing of
           Some e \<Rightarrow> bnd (migrate_default_rows_to_partition cid) (\<lambda>_. ret e)
         | None \<Rightarrow>
             bnd (gets (\<lambda>p. filter (\<lambda>r. fcid r = cid) (default_rows p))) (\<lambda>in_default.
             if in_default \<noteq> []
             then bnd (delete_default cid) (\<lambda>_.
                  bnd (create_partition h cid) (\<lambda>part_name.
                  bnd (insert_features in_default) (\<lambda>_. ret part_name)))
             else catch (create_partition h cid) (\<lambda>e.
                  let msg = py_lower (message_of e) in
                  if is_sub ''already exists'' msg \<or> is_sub ''duplicate'' msg
                  then bnd (resolve_features_partition_relname cid) (\<lambda>again.
                       case again of Some x \<Rightarrow> ret x | None \<Rightarrow> raise e)
                  else raise e)))))"

definition is_lock_timeout_error :: "exn \<Rightarrow> bool" where
  "is_lock_timeout_error e =
     (let msg = py_lower (message_of e) in is_sub ''lock timeout'' msg \<or> is_sub ''locknotavailable'' msg \<or> is_sub ''55p03'' msg)"

text \<open>\<open>n\<close> more attempts fit before the deadline.\<close>

primrec with_lock_retries :: "nat \<Rightarrow> (pg, 'a) prog \<Rightarrow> (pg, 'a) prog" where
  "with_lock_retries 0 m = catch (tx m) (\<lambda>e. if is_lock_timeout_error e then raise TimeoutError else raise e)"
| "with_lock_retries (Suc n) m =
     catch (tx m) (\<lambda>e. if is_lock_timeout_error e then with_lock_retries n m else raise e)"

definition drop_collection_features_data_sync :: "(string \<Rightarrow> string) \<Rightarrow> nat \<Rightarrow> string \<Rightarrow> (pg, string option) prog" where
  "drop_collection_features_data_sync h n cid =
     (if cid = '''' \<or> is_sub ''..'' cid then raise ValueError
      else with_lock_retries n (
        bnd (resolve_features_partition_relname cid) (\<lambda>part.
        bnd (case part of None \<Rightarrow> ret ()
             | Some rel \<Rightarrow> bnd (detach_partition rel) (\<lambda>_. drop_table_if_exists rel)) (\<lambda>_.
        bnd (delete_default cid) (\<lambda>_.
        bnd (table_exists (safe_partition_name h cid)) (\<lambda>ex.
        bnd (partition_is_attached (safe_partition_name h cid)) (\<lambda>a.
        if ex \<and> \<not> a
        then bnd (drop_table_if_exists (safe_partition_name h cid)) (\<lambda>_.
             ret (case part of Some rel \<Rightarrow> Some rel | None \<Rightarrow> Some (safe_partition_name h cid)))
        else ret part)))))))"

definition list_attached_feature_partitions_sync :: "(pg, (string \<times> string) list) prog" where
  "list_attached_feature_partitions_sync = tx (gets (\<lambda>p. filter (\<lambda>(rel, c). rel \<noteq> '''' \<and> c \<noteq> '''') (parts p)))"

definition cleanup_detached_orphan_feature_partitions_sync :: "(string \<Rightarrow> string) \<Rightarrow> (pg, string list) prog" where
  "cleanup_detached_orphan_feature_partitions_sync h =
     tx (bnd (gets parts) (\<lambda>rows.
         for_each rows (\<lambda>(attached, cid) dropped.
           let canonical = safe_partition_name h cid in
           if cid = '''' \<or> attached = '''' \<or> canonical = attached then ret dropped
           else bnd (table_exists canonical) (\<lambda>ex.
                bnd (partition_is_attached canonical) (\<lambda>a.
                if \<not> ex \<or> a then ret dropped
                else bnd (drop_table_if_exists canonical) (\<lambda>_. ret (dropped @ [canonical]))))) []))"

definition staging_is_unlogged :: "string \<Rightarrow> (pg, bool) prog" where
  "staging_is_unlogged relname = gets (\<lambda>p. relname \<in> set (unlogged p))"

text \<open>\<^verbatim>\<open>ALTER TABLE ... SET LOGGED\<close>, of a table the catalogue lists.\<close>

definition set_logged :: "string \<Rightarrow> (pg, unit) prog" where
  "set_logged rel = modify (\<lambda>p. p\<lparr>unlogged := filter (\<lambda>r. r \<noteq> rel) (unlogged p)\<rparr>)"

definition add_bound_check :: "string \<Rightarrow> string \<Rightarrow> string \<Rightarrow> (pg, unit) prog" where
  "add_bound_check rel check_name cid =
     bnd (select_rows rel) (\<lambda>rows.
     if \<exists>r\<in>set rows. fcid r \<noteq> cid then raise (IntegrityError ''check constraint is violated by some row'')
     else modify (\<lambda>p. p\<lparr>checks := checks p @ [(rel, check_name)]\<rparr>))"

definition bound_check_name :: "string \<Rightarrow> string" where
  "bound_check_name staging = take 63 (''chk_bound_'' @ staging)"

text \<open>This transaction is committed before the locks of the swap are asked for.\<close>

definition prepare_staging_for_attach_sync :: "string \<Rightarrow> string \<Rightarrow> (pg, unit) prog" where
  "prepare_staging_for_attach_sync cid staging =
     tx (bnd (staging_is_unlogged staging) (\<lambda>u.
         bnd (if u then set_logged staging else ret ()) (\<lambda>_.
         bnd (gets (\<lambda>p. (staging, bound_check_name staging) \<in> set (checks p))) (\<lambda>has_check.
         if has_check then ret () else add_bound_check staging (bound_check_name staging) cid))))"

definition swap_body :: "(string \<Rightarrow> string) \<Rightarrow> string \<Rightarrow> string \<Rightarrow> (pg, unit) prog" where
  "swap_body h cid staging =
     bnd (delete_default cid) (\<lambda>_.
     bnd (partition_is_attached staging) (\<lambda>a.
     if a then drop_orphan_detached_partition staging (safe_partition_name h cid)
     else bnd (resolve_features_partition_relname cid) (\<lambda>old_part.
     if old_part = Some staging then drop_orphan_detached_partition staging (safe_partition_name h cid)
     else bnd (case old_part of None \<Rightarrow> ret ()
               | Some rel \<Rightarrow> bnd (detach_partition rel) (\<lambda>_. drop_table_if_exists rel)) (\<lambda>_.
          bnd (drop_orphan_detached_partition staging (safe_partition_name h cid)) (\<lambda>_.
          attach_partition staging cid)))))"

definition swap_staging_into_collection_partition_sync :: "(string \<Rightarrow> string) \<Rightarrow> nat \<Rightarrow> string \<Rightarrow> string \<Rightarrow> (pg, unit) prog" where
  "swap_staging_into_collection_partition_sync h n cid staging =
     bnd (prepare_staging_for_attach_sync cid staging) (\<lambda>_. with_lock_retries n (swap_body h cid staging))"

section \<open>\<^verbatim>\<open>bulk_staging.py\<close> and \<^verbatim>\<open>bulk_staging_recovery.py\<close>\<close>

definition STAGING_TABLE_PREFIX :: string where
  "STAGING_TABLE_PREFIX = ''bulk_staging_''"

definition staging_table_name :: "string \<Rightarrow> string" where
  "staging_table_name job_id = STAGING_TABLE_PREFIX @ safe_chars 48 ''job'' job_id"

definition create_staging_table_sync :: "string \<Rightarrow> (pg, string) prog" where
  "create_staging_table_sync job_id =
     (let name = staging_table_name job_id in
      bnd (drop_table_if_exists name) (\<lambda>_. bnd (modify (\<lambda>p. p\<lparr>tables := (tables p)(name \<mapsto> []), unlogged := unlogged p @ [name]\<rparr>)) (\<lambda>_. ret name)))"

definition drop_staging_table_sync :: "string \<Rightarrow> (pg, unit) prog" where
  "drop_staging_table_sync job_id = tx (drop_table_if_exists (staging_table_name job_id))"

definition staging_table_exists_sync :: "string \<Rightarrow> (pg, bool) prog" where
  "staging_table_exists_sync job_id = tx (table_exists (staging_table_name job_id))"

definition staging_row_count_sync :: "string \<Rightarrow> (pg, int) prog" where
  "staging_row_count_sync job_id =
     tx (gets (\<lambda>p. case tables p (staging_table_name job_id) of None \<Rightarrow> 0 | Some rows \<Rightarrow> int (length rows)))"

definition is_staging_pk_duplicate_error :: "string \<Rightarrow> bool" where
  "is_staging_pk_duplicate_error text =
     (let msg = py_lower text in
      (is_sub ''uniqueviolation'' msg \<or> is_sub ''duplicate key value'' msg) \<and>
      (is_sub ''bulk_staging'' msg \<or> is_sub ''_pkey'' msg \<or> is_sub ''staging'' msg))"

text \<open>The rows whose \<^verbatim>\<open>ROW_NUMBER()\<close> within their key, newest and last stored first, is 1.\<close>

definition is_newest :: "frow list \<Rightarrow> nat \<Rightarrow> bool" where
  "is_newest rows i \<longleftrightarrow>
     list_all (\<lambda>j. fkey (rows ! j) = fkey (rows ! i) \<longrightarrow>
        fupdated (rows ! j) < fupdated (rows ! i) \<or> fupdated (rows ! j) = fupdated (rows ! i) \<and> j \<le> i) [0..<length rows]"

definition newest_rows :: "frow list \<Rightarrow> frow list" where
  "newest_rows rows = map (\<lambda>i. rows ! i) (filter (is_newest rows) [0..<length rows])"

definition staging_duplicate_count_sync :: "string \<Rightarrow> (pg, int) prog" where
  "staging_duplicate_count_sync job_id =
     tx (gets (\<lambda>p. case tables p (staging_table_name job_id) of
          None \<Rightarrow> 0
        | Some rows \<Rightarrow> int (length rows) - int (length (newest_rows rows))))"

definition dedupe_staging_table_sync :: "string \<Rightarrow> (pg, int) prog" where
  "dedupe_staging_table_sync job_id =
     (let staging = staging_table_name job_id in
      tx (\<lambda>p. case tables p staging of
            None \<Rightarrow> ret 0 p
          | Some rows \<Rightarrow> ret (max 0 (int (length rows) - int (length (newest_rows rows))))
              (p\<lparr>tables := (tables p)(staging \<mapsto> newest_rows rows)\<rparr>)))"

definition prepare_staging_for_promote_sync :: "string \<Rightarrow> (pg, int) prog" where
  "prepare_staging_for_promote_sync job_id =
     bnd (staging_duplicate_count_sync job_id) (\<lambda>dupes.
     if dupes \<le> 0 then ret 0
     else bnd (dedupe_staging_table_sync job_id) (\<lambda>removed.
          bnd (staging_duplicate_count_sync job_id) (\<lambda>remaining.
          if 0 < remaining
          then raise (StagingDuplicateUnrecoverable (''Staging still has '' @ int_str remaining @
                 '' duplicate primary-key rows after removing '' @ int_str removed @ ''.''))
          else ret removed)))"

definition cleanup_failed_staging_import_sync :: "(string \<Rightarrow> string) \<Rightarrow> string \<Rightarrow> string \<Rightarrow> (pg, unit) prog" where
  "cleanup_failed_staging_import_sync h job_id cid =
     (let staging = staging_table_name job_id in
      bnd (tx (bnd (table_exists staging) (\<lambda>ex.
               if \<not> ex then ret ()
               else bnd (partition_is_attached staging) (\<lambda>a.
                    bnd (if a then detach_partition staging else ret ()) (\<lambda>_. drop_table_if_exists staging))))) (\<lambda>_.
      bnd (ensure_features_partition_sync h cid) (\<lambda>_. ret ())))"

definition promote_with_staging_recovery :: "string \<Rightarrow> (pg, unit) prog \<Rightarrow> (pg, unit) prog" where
  "promote_with_staging_recovery job_id promote_fn =
     bnd (prepare_staging_for_promote_sync job_id) (\<lambda>_.
     catch promote_fn (\<lambda>e. case e of
       IntegrityError m \<Rightarrow>
         if \<not> is_staging_pk_duplicate_error m then raise e
         else bnd (prepare_staging_for_promote_sync job_id) (\<lambda>_.
              catch promote_fn (\<lambda>e2. case e2 of
                IntegrityError m2 \<Rightarrow>
                  if is_staging_pk_duplicate_error m2 then raise (StagingDuplicateUnrecoverable (take 500 m2)) else raise e2
              | _ \<Rightarrow> raise e2))
     | _ \<Rightarrow> raise e))"

definition append_promote :: "string \<Rightarrow> (pg, unit) prog" where
  "append_promote staging = tx (bnd (select_rows staging) insert_features)"

definition promote_staging_sync :: "(string \<Rightarrow> string) \<Rightarrow> nat \<Rightarrow> string \<Rightarrow> string \<Rightarrow> string \<Rightarrow> (pg, int) prog" where
  "promote_staging_sync h n cid job_id mode =
     (let staging = staging_table_name job_id in
      bnd (tx (bnd (select_rows staging) (\<lambda>rows. ret (int (length rows))))) (\<lambda>count.
      if count = 0 then bnd (drop_staging_table_sync job_id) (\<lambda>_. ret 0)
      else if mode = ''replace''
      then bnd (partition_swap_already_complete_sync cid staging) (\<lambda>complete.
           if complete then ret count
           else bnd (promote_with_staging_recovery job_id (swap_staging_into_collection_partition_sync h n cid staging))
                  (\<lambda>_. ret count))
      else bnd (ensure_features_partition_sync h cid) (\<lambda>_.
           bnd (promote_with_staging_recovery job_id (append_promote staging)) (\<lambda>_.
           bnd (drop_staging_table_sync job_id) (\<lambda>_. ret count)))))"

text \<open>
  \<open>names\<close> are the tables of the schema in the order the catalogue lists them. In the pattern
  \<^verbatim>\<open>bulk_staging_%\<close> each underscore stands for any character.
\<close>

definition like_staging :: "string \<Rightarrow> bool" where
  "like_staging rel \<longleftrightarrow> list_all2 (\<lambda>x c. x = CHR ''_'' \<or> x = c) STAGING_TABLE_PREFIX (take (length STAGING_TABLE_PREFIX) rel)"

definition list_orphan_staging_tables_sync :: "string list \<Rightarrow> (pg, string list) prog" where
  "list_orphan_staging_tables_sync names =
     tx (gets (\<lambda>p. filter (\<lambda>rel. tables p rel \<noteq> None \<and> like_staging rel) names))"

definition cleanup_orphan_staging_tables_sync :: "string list \<Rightarrow> string list \<Rightarrow> (pg, int) prog" where
  "cleanup_orphan_staging_tables_sync names active_job_ids =
     bnd (list_orphan_staging_tables_sync names) (\<lambda>rels.
     for_each rels (\<lambda>relname dropped.
       if relname \<in> staging_table_name ` set active_job_ids then ret dropped
       else bnd (tx (drop_table_if_exists relname)) (\<lambda>_. ret (dropped + 1))) 0)"

section \<open>What a query sees\<close>

definition all_features :: "pg \<Rightarrow> frow list" where
  "all_features p = concat (map (\<lambda>(rel, _). or_else (tables p rel) []) (parts p)) @ default_rows p"

text \<open>\<^verbatim>\<open>SELECT ... FROM features WHERE collection_id = ...\<close>\<close>

definition features_of :: "pg \<Rightarrow> string \<Rightarrow> frow list" where
  "features_of p cid = filter (\<lambda>r. fcid r = cid) (all_features p)"

definition pg_ok :: "pg \<Rightarrow> bool" where
  "pg_ok p \<longleftrightarrow> distinct (map fst (parts p)) \<and> distinct (map snd (parts p)) \<and>
     (\<forall>(rel, c)\<in>set (parts p). \<exists>rows. tables p rel = Some rows \<and> (\<forall>r\<in>set rows. fcid r = c) \<and> distinct (map fkey rows)) \<and>
     (\<forall>r\<in>set (default_rows p). fcid r \<notin> snd ` set (parts p)) \<and> distinct (map fkey (default_rows p))"

text \<open>No other partition's bound reads the same once spaces are removed.\<close>

definition unambiguous :: "pg \<Rightarrow> string \<Rightarrow> bool" where
  "unambiguous p cid \<longleftrightarrow> (\<forall>(rel, c)\<in>set (parts p). partition_bound_literal c = partition_bound_literal cid \<longrightarrow> c = cid)"

lemma pg_okD:
  assumes "pg_ok p" and "(rel, c) \<in> set (parts p)"
  obtains rows where "tables p rel = Some rows" "\<forall>r\<in>set rows. fcid r = c" "distinct (map fkey rows)"
  using assms by (fastforce simp: pg_ok_def)

lemma pg_ok_same_rel: "pg_ok p \<Longrightarrow> (rel, c) \<in> set (parts p) \<Longrightarrow> (rel, c') \<in> set (parts p) \<Longrightarrow> c = c'"
  using eq_key_imp_eq_value [of "parts p" rel c c'] by (simp add: pg_ok_def)

lemma pg_ok_same_cid: "pg_ok p \<Longrightarrow> (rel, c) \<in> set (parts p) \<Longrightarrow> (rel', c) \<in> set (parts p) \<Longrightarrow> rel = rel'"
  using find_key_Some [of snd "parts p" "(rel, c)" c] find_key_Some [of snd "parts p" "(rel', c)" c] by (simp add: pg_ok_def)

lemma filter_concat_parts:
  assumes "\<And>rel c r. (rel, c) \<in> set ps \<Longrightarrow> r \<in> set (or_else (tabs rel) []) \<Longrightarrow> fcid r = c"
  shows "filter (\<lambda>r. fcid r = cid) (concat (map (\<lambda>(rel, _). or_else (tabs rel) []) ps)) =
    concat (map (\<lambda>(rel, _). or_else (tabs rel) []) (filter (\<lambda>(_, c). c = cid) ps))"
  using assms
proof (induction ps)
  case (Cons q ps)
  obtain rel c where q: "q = (rel, c)" by (cases q)
  have "filter (\<lambda>r. fcid r = cid) (or_else (tabs rel) []) = (if c = cid then or_else (tabs rel) [] else [])"
    using Cons.prems [of rel c] q by (auto simp: filter_id_conv filter_empty_conv)
  then show ?case using Cons q by auto
qed simp

lemma pg_ok_rows: "pg_ok p \<Longrightarrow> (rel, c) \<in> set (parts p) \<Longrightarrow> r \<in> set (or_else (tables p rel) []) \<Longrightarrow> fcid r = c"
  by (erule pg_okD [of p rel c]) simp_all

lemma features_of_parts:
  assumes "pg_ok p"
  shows "features_of p cid =
    concat (map (\<lambda>(rel, _). or_else (tables p rel) []) (filter (\<lambda>(_, c). c = cid) (parts p))) @
    filter (\<lambda>r. fcid r = cid) (default_rows p)"
  using filter_concat_parts [of "parts p" "tables p" cid] pg_ok_rows [OF assms]
  by (simp add: features_of_def all_features_def)

lemma features_of_attached:
  assumes "pg_ok p" and "(rel, cid) \<in> set (parts p)" and "tables p rel = Some rows"
  shows "features_of p cid = rows"
proof -
  have d: "distinct (map snd (parts p))" using assms(1) by (simp add: pg_ok_def)
  have "filter (\<lambda>(_, c). c = cid) (parts p) = filter (\<lambda>q. snd q = cid) (parts p)" by (simp add: case_prod_unfold)
  also have "\<dots> = [(rel, cid)]" using find_key_Some [OF d assms(2)] by (simp add: filter_key [OF d])
  finally have "filter (\<lambda>(_, c). c = cid) (parts p) = [(rel, cid)]" .
  moreover have "filter (\<lambda>r. fcid r = cid) (default_rows p) = []"
    using assms(1,2) by (force simp: pg_ok_def filter_empty_conv)
  ultimately show ?thesis using assms(3) by (simp add: features_of_parts [OF assms(1)])
qed

section \<open>Replacing a collection\<close>

definition swapped :: "pg \<Rightarrow> pg \<Rightarrow> string \<Rightarrow> string \<Rightarrow> frow list \<Rightarrow> bool" where
  "swapped p p' s cid rows \<longleftrightarrow> parts p' = filter (\<lambda>q. snd q \<noteq> cid) (parts p) @ [(s, cid)] \<and> tables p' s = Some rows \<and>
     (\<forall>rel c. (rel, c) \<in> set (parts p) \<longrightarrow> c \<noteq> cid \<longrightarrow> tables p' rel = tables p rel) \<and>
     default_rows p' = filter (\<lambda>r. fcid r \<noteq> cid) (default_rows p)"

definition stageable :: "string \<Rightarrow> frow list \<Rightarrow> bool" where
  "stageable cid rows \<longleftrightarrow> (\<forall>r\<in>set rows. fcid r = cid) \<and> distinct (map fkey rows)"

lemma swapped_ok:
  assumes "pg_ok p" and "swapped p p' s cid rows" and "s \<notin> fst ` set (parts p)" and "stageable cid rows"
  shows "pg_ok p'" and "features_of p' cid = rows" and "c \<noteq> cid \<Longrightarrow> features_of p' c = features_of p c"
proof -
  note sw = assms(2) [unfolded swapped_def]
  show ok: "pg_ok p'"
    unfolding pg_ok_def
  proof (intro conjI)
    show "distinct (map fst (parts p'))" "distinct (map snd (parts p'))"
      using assms(1,3) sw by (auto simp: pg_ok_def distinct_map_filter)
    show "\<forall>(rel, c)\<in>set (parts p'). \<exists>rows. tables p' rel = Some rows \<and> (\<forall>r\<in>set rows. fcid r = c) \<and> distinct (map fkey rows)"
    proof (clarify)
      fix rel c assume "(rel, c) \<in> set (parts p')"
      then consider "(rel, c) \<in> set (parts p)" "c \<noteq> cid" | "rel = s" "c = cid" using sw by auto
      then show "\<exists>rows. tables p' rel = Some rows \<and> (\<forall>r\<in>set rows. fcid r = c) \<and> distinct (map fkey rows)"
      proof cases
        case 1
        then show ?thesis using sw pg_okD [OF assms(1) 1(1)] by metis
      next
        case 2
        then show ?thesis using sw assms(4) by (simp add: stageable_def)
      qed
    qed
    show "\<forall>r\<in>set (default_rows p'). fcid r \<notin> snd ` set (parts p')"
      using assms(1) sw by (auto simp: pg_ok_def)
    show "distinct (map fkey (default_rows p'))" using assms(1) sw by (simp add: pg_ok_def distinct_map_filter)
  qed
  show "features_of p' cid = rows" by (rule features_of_attached [OF ok]) (use sw in auto)
  show "features_of p' c = features_of p c" if "c \<noteq> cid"
  proof -
    have "filter (\<lambda>(_, c'). c' = c) (parts p') = filter (\<lambda>(_, c'). c' = c) (parts p)"
      using sw that by (auto simp: filter_empty_conv case_prod_unfold intro: filter_cong)
    moreover have "map (\<lambda>(rel, _). or_else (tables p' rel) []) (filter (\<lambda>(_, c'). c' = c) (parts p)) =
        map (\<lambda>(rel, _). or_else (tables p rel) []) (filter (\<lambda>(_, c'). c' = c) (parts p))"
      using sw that by (auto intro!: map_cong)
    moreover have "filter (\<lambda>r. fcid r = c) (default_rows p') = filter (\<lambda>r. fcid r = c) (default_rows p)"
      using sw that by (auto intro: filter_cong)
    ultimately show ?thesis by (simp only: features_of_parts [OF ok] features_of_parts [OF assms(1)])
  qed
qed

lemma resolve_eval:
  assumes "unambiguous p cid"
  shows "resolve_features_partition_relname cid p = (Inr (map_option fst (find (\<lambda>q. snd q = cid) (parts p))), p)"
proof -
  have "find (\<lambda>(rel, c). replace_char CHR '' '' [] (bound_text c) = partition_bound_literal cid) ps = find (\<lambda>q. snd q = cid) ps"
    if "set ps \<subseteq> set (parts p)" for ps
    using that
  proof (induction ps)
    case (Cons q ps)
    then show ?case
      using assms by (cases q) (auto simp: unambiguous_def partition_bound_literal_def)
  qed simp
  then show ?thesis by (simp add: resolve_features_partition_relname_def gets_def)
qed

lemma forget_table_simps [simp]:
  "tables (forget_table rel p) = tables p" "parts (forget_table rel p) = parts p" "default_rows (forget_table rel p) = default_rows p"
  "faults (forget_table rel p) = faults p"
  by (simp_all add: forget_table_def)

lemma drop_orphan_eval:
  "drop_orphan_detached_partition s c p = (Inr (),
     if c = '''' \<or> c = s \<or> tables p c = None \<or> c \<in> fst ` set (parts p) then p
     else forget_table c (p\<lparr>tables := (tables p)(c := None)\<rparr>))"
proof -
  have "filter (\<lambda>(r, _). r \<noteq> c) (parts p) = parts p" if "c \<notin> fst ` set (parts p)"
    using that by (auto simp: filter_id_conv image_iff)
  then show ?thesis
    by (auto simp: drop_orphan_detached_partition_def ret_def bnd_def table_exists_def partition_is_attached_def gets_def
        drop_table_if_exists_def modify_def)
qed

lemma swap_body_eval:
  assumes "pg_ok p" and "unambiguous p cid" and "tables p s = Some rows" and "stageable cid rows" and "s \<notin> fst ` set (parts p)"
  obtains p' where "swap_body h cid s p = (Inr (), p')" "swapped p p' s cid rows" "faults p' = faults p"
proof -
  let ?canon = "safe_partition_name h cid"
  define p1 where "p1 = p\<lparr>default_rows := filter (\<lambda>r. fcid r \<noteq> cid) (default_rows p)\<rparr>"
  have u1: "unambiguous p1 cid" using assms(2) by (simp add: unambiguous_def p1_def)
  define old where "old = find (\<lambda>q. snd q = cid) (parts p)"
  define p2 where "p2 = (case old of None \<Rightarrow> p1
     | Some (rel, _) \<Rightarrow> forget_table rel (p1\<lparr>tables := (tables p1)(rel := None), parts := filter (\<lambda>(r, _). r \<noteq> rel) (parts p1)\<rparr>))"
  have old_rel: "rel \<noteq> s" "(rel, cid) \<in> set (parts p)" if "old = Some (rel, c)" for rel c
    using find_SomeD [of "\<lambda>q. snd q = cid" "parts p" "(rel, c)"] that assms(5) by (auto simp: old_def image_iff)
  have parts2: "parts p2 = filter (\<lambda>q. snd q \<noteq> cid) (parts p)"
  proof (cases old)
    case None
    then have "\<forall>q\<in>set (parts p). snd q \<noteq> cid" by (auto simp: old_def find_None_iff)
    then show ?thesis using None by (simp add: p2_def p1_def filter_id_conv)
  next
    case (Some q)
    obtain rel c where q: "q = (rel, c)" by (cases q)
    have rel: "(rel, cid) \<in> set (parts p)" using old_rel(2) [of rel c] Some q by simp
    have "fst x \<noteq> rel \<longleftrightarrow> snd x \<noteq> cid" if "x \<in> set (parts p)" for x
    proof -
      have x: "(fst x, snd x) \<in> set (parts p)" using that by simp
      show ?thesis
        using pg_ok_same_cid [OF assms(1) _ rel, of "fst x"] pg_ok_same_rel [OF assms(1) _ rel, of "snd x"] x by metis
    qed
    then have "filter (\<lambda>x. fst x \<noteq> rel) (parts p) = filter (\<lambda>q. snd q \<noteq> cid) (parts p)" by (rule filter_cong [OF refl])
    then show ?thesis using Some q by (simp add: p2_def p1_def case_prod_unfold)
  qed
  have tables2: "tables p2 s = Some rows" "\<And>rel c. (rel, c) \<in> set (parts p) \<Longrightarrow> c \<noteq> cid \<Longrightarrow> tables p2 rel = tables p rel"
  proof -
    show "tables p2 s = Some rows" using assms(3) old_rel(1) by (auto simp: p2_def p1_def split: option.split)
    fix rel c assume rel: "(rel, c) \<in> set (parts p)" "c \<noteq> cid"
    have "rel \<noteq> rel'" if "old = Some (rel', c')" for rel' c'
      using pg_ok_same_rel [OF assms(1) rel(1), of cid] old_rel(2) [OF that] rel(2) by blast
    then show "tables p2 rel = tables p rel" by (auto simp: p2_def p1_def split: option.split)
  qed
  have rest2: "default_rows p2 = filter (\<lambda>r. fcid r \<noteq> cid) (default_rows p)" "faults p2 = faults p"
    by (auto simp: p2_def p1_def split: option.split)
  define p3 where "p3 = (if ?canon = '''' \<or> ?canon = s \<or> tables p2 ?canon = None \<or> ?canon \<in> fst ` set (parts p2) then p2
     else forget_table ?canon (p2\<lparr>tables := (tables p2)(?canon := None)\<rparr>))"
  have p3: "parts p3 = parts p2" "default_rows p3 = default_rows p2" "faults p3 = faults p2" "tables p3 s = tables p2 s"
    "\<And>rel c. (rel, c) \<in> set (parts p) \<Longrightarrow> c \<noteq> cid \<Longrightarrow> tables p3 rel = tables p2 rel"
    by (auto simp: p3_def parts2 image_iff)
  define p4 where "p4 = p3\<lparr>parts := parts p3 @ [(s, cid)]\<rparr>"
  have att: "attach_partition s cid p3 = (Inr (), p4)"
    using p3 parts2 tables2(1) rest2(1) assms(4,5)
    by (auto simp: attach_partition_def p4_def stageable_def ret_def)
  have na: "s \<notin> fst ` set (parts p1)" using assms(5) by (simp add: p1_def)
  have "resolve_features_partition_relname cid p1 = (Inr (map_option fst old), p1)"
    using resolve_eval [OF u1] by (simp add: old_def p1_def)
  moreover have "map_option fst old \<noteq> Some s" using old_rel by fastforce
  moreover have "(case map_option fst old of None \<Rightarrow> ret ()
       | Some rel \<Rightarrow> bnd (detach_partition rel) (\<lambda>_. drop_table_if_exists rel)) p1 = (Inr (), p2)"
    by (auto simp: p2_def ret_def bnd_def detach_partition_def drop_table_if_exists_def modify_def split: option.split)
  ultimately have "swap_body h cid s p = (Inr (), p4)"
    using na att
    by (simp add: swap_body_def bnd_def delete_default_def modify_def p1_def [symmetric] partition_is_attached_def gets_def
        drop_orphan_eval p3_def [symmetric])
  moreover have "swapped p p4 s cid rows"
    using p3 parts2 tables2 rest2 by (simp add: swapped_def p4_def)
  ultimately show ?thesis using that p3 rest2 by (simp add: p4_def)
qed

subsection \<open>Transactions\<close>

lemma no_faults: "faults p = [] \<Longrightarrow> p\<lparr>faults := []\<rparr> = p"
  by (cases p) simp

lemma tx_refused: "faults p = Some e # fs \<Longrightarrow> tx m p = (Inl e, p\<lparr>faults := fs\<rparr>)"
  by (simp add: tx_def)

lemma tx_done: "faults p = [] \<Longrightarrow> m p = (Inr a, p') \<Longrightarrow> tx m p = (Inr a, p')"
  by (simp add: tx_def all_or_nothing_def)

lemma tx_done_next: "faults p = None # fs \<Longrightarrow> m (p\<lparr>faults := fs\<rparr>) = (Inr a, p') \<Longrightarrow> tx m p = (Inr a, p')"
  by (simp add: tx_def all_or_nothing_def)

text \<open>The stored data, without the faults to come.\<close>

definition same_data :: "pg \<Rightarrow> pg \<Rightarrow> bool" where
  "same_data p p' \<longleftrightarrow> tables p' = tables p \<and> parts p' = parts p \<and> default_rows p' = default_rows p"

lemma same_data_refl [simp]: "same_data p p" "same_data p (p\<lparr>faults := fs\<rparr>)"
  by (simp_all add: same_data_def)

lemma same_data_trans: "same_data p p1 \<Longrightarrow> same_data p1 p2 \<Longrightarrow> same_data p p2"
  by (simp add: same_data_def)

definition same_catalog :: "pg \<Rightarrow> pg \<Rightarrow> bool" where
  "same_catalog p p' \<longleftrightarrow> unlogged p' = unlogged p \<and> checks p' = checks p"

lemma same_data_ok: "same_data p p' \<Longrightarrow> (pg_ok p' \<longleftrightarrow> pg_ok p) \<and> (unambiguous p' c \<longleftrightarrow> unambiguous p c)"
  by (simp add: same_data_def pg_ok_def unambiguous_def)

lemma same_data_features: "same_data p p' \<Longrightarrow> features_of p' c = features_of p c"
  by (simp add: same_data_def features_of_def all_features_def)

lemma tx_rollback: "fst (tx m p) = Inl e \<Longrightarrow> same_data p (snd (tx m p))"
  by (auto simp: tx_def all_or_nothing_def split: list.splits option.splits sum.splits prod.splits)

lemma with_lock_retries_rollback: "fst (with_lock_retries n m p) = Inl e \<Longrightarrow> same_data p (snd (with_lock_retries n m p))"
proof (induction n arbitrary: p)
  case 0
  then show ?case using tx_rollback [of m p] by (auto simp: catch_def raise_def split: sum.splits if_splits)
next
  case (Suc n)
  show ?case
  proof (cases "fst (tx m p)")
    case (Inl e')
    then have same: "same_data p (snd (tx m p))" by (rule tx_rollback)
    show ?thesis
    proof (cases "is_lock_timeout_error e'")
      case True
      then have "with_lock_retries (Suc n) m p = with_lock_retries n m (snd (tx m p))" using Inl by (simp add: catch_def)
      then show ?thesis using Suc.IH [of "snd (tx m p)"] Suc.prems same same_data_trans by metis
    qed (use same Inl in \<open>simp add: catch_def raise_def\<close>)
  qed (use Suc.prems in \<open>simp add: catch_def\<close>)
qed

lemma tx_rollback_catalog: "fst (tx m p) = Inl e \<Longrightarrow> same_catalog p (snd (tx m p))"
  by (auto simp: tx_def all_or_nothing_def same_catalog_def split: list.splits option.splits sum.splits prod.splits)

lemma with_lock_retries_catalog: "fst (with_lock_retries n m p) = Inl e \<Longrightarrow> same_catalog p (snd (with_lock_retries n m p))"
proof (induction n arbitrary: p)
  case 0
  then show ?case using tx_rollback_catalog [of m p] by (auto simp: catch_def raise_def split: sum.splits if_splits)
next
  case (Suc n)
  show ?case
  proof (cases "fst (tx m p)")
    case (Inl e')
    then have same: "same_catalog p (snd (tx m p))" by (rule tx_rollback_catalog)
    show ?thesis
    proof (cases "is_lock_timeout_error e'")
      case True
      then have "with_lock_retries (Suc n) m p = with_lock_retries n m (snd (tx m p))" using Inl by (simp add: catch_def)
      then show ?thesis using Suc.IH [of "snd (tx m p)"] Suc.prems same by (simp add: same_catalog_def)
    qed (use same Inl in \<open>simp add: catch_def raise_def\<close>)
  qed (use Suc.prems in \<open>simp add: catch_def\<close>)
qed

lemma with_lock_retries_eval:
  assumes "m (p\<lparr>faults := []\<rparr>) = (Inr a, p')"
  shows "faults p = map Some es \<Longrightarrow> \<forall>e\<in>set es. is_lock_timeout_error e \<Longrightarrow> length es \<le> n \<Longrightarrow>
    with_lock_retries n m p = (Inr a, p')"
  using assms
proof (induction es arbitrary: n p)
  case Nil
  then have "faults p = []" by simp
  from tx_done [OF this] have "tx m p = (Inr a, p')" using Nil.prems(4) unfolding no_faults [OF \<open>faults p = []\<close>] .
  then show ?case by (cases n) (simp_all add: catch_def)
next
  case (Cons e es)
  then obtain k where n: "n = Suc k" by (cases n) simp_all
  have "with_lock_retries n m p = with_lock_retries k m (p\<lparr>faults := map Some es\<rparr>)"
    using Cons.prems by (simp add: n tx_refused catch_def)
  also have "\<dots> = (Inr a, p')" using Cons.prems n by (intro Cons.IH) simp_all
  finally show ?case .
qed

lemma pg_ok_faults [simp]: "pg_ok (p\<lparr>faults := fs\<rparr>) = pg_ok p" "unambiguous (p\<lparr>faults := fs\<rparr>) c = unambiguous p c"
  by (simp_all add: pg_ok_def unambiguous_def)

text \<open>What the preparation leaves: the staging table is logged and has its check, and all else is as it was.\<close>

definition prepared :: "string \<Rightarrow> pg \<Rightarrow> pg" where
  "prepared s p = p\<lparr>unlogged := filter (\<lambda>r. r \<noteq> s) (unlogged p),
     checks := (if (s, bound_check_name s) \<in> set (checks p) then checks p else checks p @ [(s, bound_check_name s)])\<rparr>"

lemma prepared_simps [simp]:
  "tables (prepared s p) = tables p" "parts (prepared s p) = parts p" "default_rows (prepared s p) = default_rows p"
  "faults (prepared s p) = faults p" "pg_ok (prepared s p) = pg_ok p" "unambiguous (prepared s p) c = unambiguous p c"
  "(prepared s p)\<lparr>faults := fs\<rparr> = prepared s (p\<lparr>faults := fs\<rparr>)" "features_of (prepared s p) c = features_of p c"
  by (simp_all add: prepared_def pg_ok_def unambiguous_def features_of_def all_features_def)

lemma prepare_eval:
  assumes "tables p s = Some rows" and "\<forall>r\<in>set rows. fcid r = cid"
  shows "prepare_staging_for_attach_sync cid s p =
    (case faults p of
       Some e # fs \<Rightarrow> (Inl e, p\<lparr>faults := fs\<rparr>)
     | None # fs \<Rightarrow> (Inr (), prepared s (p\<lparr>faults := fs\<rparr>))
     | [] \<Rightarrow> (Inr (), prepared s p))"
proof -
  have "s \<notin> set (unlogged q) \<Longrightarrow> filter (\<lambda>r. r \<noteq> s) (unlogged q) = unlogged q" for q :: pg
    by (auto simp: filter_id_conv)
  then show ?thesis
    using assms
    by (auto simp: prepare_staging_for_attach_sync_def Let_def tx_def all_or_nothing_def bnd_def staging_is_unlogged_def gets_def
        set_logged_def modify_def ret_def add_bound_check_def select_rows_def prepared_def split: list.split option.split)
qed

lemma swap_eval:
  assumes "pg_ok p" and "unambiguous p cid" and "tables p s = Some rows" and "stageable cid rows" and "s \<notin> fst ` set (parts p)"
    and "faults p = None # map Some es \<or> faults p = [] \<and> es = []" and "\<forall>e\<in>set es. is_lock_timeout_error e" and "length es \<le> n"
  obtains p' where "swap_staging_into_collection_partition_sync h n cid s p = (Inr (), p')" "swapped p p' s cid rows" "faults p' = []"
proof -
  let ?p = "prepared s (p\<lparr>faults := map Some es\<rparr>)"
  have prep: "prepare_staging_for_attach_sync cid s p = (Inr (), ?p)"
    using assms(6)
  proof
    assume "faults p = None # map Some es"
    then show ?thesis using assms(4) by (simp add: prepare_eval [OF assms(3)] stageable_def)
  next
    assume f: "faults p = [] \<and> es = []"
    then have "p\<lparr>faults := map Some es\<rparr> = p" using no_faults by simp
    moreover have "prepare_staging_for_attach_sync cid s p = (Inr (), prepared s p)"
      using assms(4) f by (simp add: prepare_eval [OF assms(3)] stageable_def)
    ultimately show ?thesis by (simp only:)
  qed
  obtain p' where p': "swap_body h cid s (?p\<lparr>faults := []\<rparr>) = (Inr (), p')" "swapped (?p\<lparr>faults := []\<rparr>) p' s cid rows"
    "faults p' = []"
    using swap_body_eval [of "?p\<lparr>faults := []\<rparr>" cid s rows h] assms(1-5) by auto
  have "with_lock_retries n (swap_body h cid s) ?p = (Inr (), p')"
    using p'(1) assms(7,8) by (intro with_lock_retries_eval) simp_all
  with prep have "swap_staging_into_collection_partition_sync h n cid s p = (Inr (), p')"
    by (simp add: swap_staging_into_collection_partition_sync_def bnd_def)
  moreover have "swapped p p' s cid rows" using p'(2) by (simp add: swapped_def)
  ultimately show ?thesis using that p'(3) by blast
qed

text \<open>What a swap that raised leaves.\<close>

lemma swap_failed:
  assumes "tables p s = Some rows" and "stageable cid rows"
    and "swap_staging_into_collection_partition_sync h n cid s p = (Inl e, p1)"
  shows "same_data p p1 \<and> (same_catalog p p1 \<or> same_catalog (prepared s p) p1)"
proof (cases "fst (prepare_staging_for_attach_sync cid s p)")
  case (Inl e')
  then have "p1 = snd (prepare_staging_for_attach_sync cid s p)"
    using assms(3) by (simp add: swap_staging_into_collection_partition_sync_def bnd_def)
  with Inl show ?thesis
    using tx_rollback tx_rollback_catalog unfolding prepare_staging_for_attach_sync_def by blast
next
  case (Inr u)
  have rows: "\<forall>r\<in>set rows. fcid r = cid" using assms(2) by (simp add: stageable_def)
  let ?q = "snd (prepare_staging_for_attach_sync cid s p)"
  have q: "same_data p ?q" "same_catalog (prepared s p) ?q"
    using Inr by (auto simp: prepare_eval [OF assms(1) rows] same_data_def same_catalog_def prepared_def split: list.splits option.splits)
  have run: "with_lock_retries n (swap_body h cid s) ?q = (Inl e, p1)"
    using assms(3) Inr by (simp add: swap_staging_into_collection_partition_sync_def bnd_def)
  have "same_data ?q p1" using with_lock_retries_rollback [of n _ ?q e] run by (metis fst_conv snd_conv)
  moreover have "same_catalog ?q p1" using with_lock_retries_catalog [of n _ ?q e] run by (metis fst_conv snd_conv)
  ultimately show ?thesis using q same_data_trans by (auto simp: same_catalog_def)
qed

section \<open>Deduplication\<close>

lemma is_newest_iff:
  "is_newest rows i \<longleftrightarrow> (\<forall>j<length rows. fkey (rows ! j) = fkey (rows ! i) \<longrightarrow>
     fupdated (rows ! j) < fupdated (rows ! i) \<or> fupdated (rows ! j) = fupdated (rows ! i) \<and> j \<le> i)"
  by (auto simp: is_newest_def list_all_iff)

lemma newest_rows_set: "r \<in> set (newest_rows rows) \<longleftrightarrow> (\<exists>i<length rows. is_newest rows i \<and> r = rows ! i)"
  by (auto simp: newest_rows_def)

lemma newest_rows_distinct: "distinct (map fkey (newest_rows rows))"
proof -
  have "inj_on (\<lambda>i. fkey (rows ! i)) (set (filter (is_newest rows) [0..<length rows]))"
  proof (rule inj_onI)
    fix i j
    assume "i \<in> set (filter (is_newest rows) [0..<length rows])" "j \<in> set (filter (is_newest rows) [0..<length rows])"
      and k: "fkey (rows ! i) = fkey (rows ! j)"
    then have i: "i < length rows" "is_newest rows i" and j: "j < length rows" "is_newest rows j" by auto
    have "fupdated (rows ! j) < fupdated (rows ! i) \<or> fupdated (rows ! j) = fupdated (rows ! i) \<and> j \<le> i"
      using i(2) j(1) k by (simp add: is_newest_iff)
    moreover have "fupdated (rows ! i) < fupdated (rows ! j) \<or> fupdated (rows ! i) = fupdated (rows ! j) \<and> i \<le> j"
      using j(2) i(1) k by (simp add: is_newest_iff)
    ultimately show "i = j" by auto
  qed
  then show ?thesis by (simp add: newest_rows_def comp_def distinct_map)
qed

lemma newest_of_key:
  assumes "r \<in> set rows"
  obtains s where "s \<in> set (newest_rows rows)" "fkey s = fkey r" "fupdated r \<le> fupdated s"
proof -
  obtain i where i: "i < length rows" "r = rows ! i" using assms by (metis in_set_conv_nth)
  let ?S = "{j. j < length rows \<and> fkey (rows ! j) = fkey r}"
  define u where "u = Max ((\<lambda>j. fupdated (rows ! j)) ` ?S)"
  have fin: "finite ?S" and ne: "i \<in> ?S" using i by auto
  have u: "u \<in> (\<lambda>j. fupdated (rows ! j)) ` ?S" "\<And>j. j \<in> ?S \<Longrightarrow> fupdated (rows ! j) \<le> u"
    unfolding u_def using fin ne by (auto intro!: Max_in Max_ge)
  let ?T = "{j \<in> ?S. fupdated (rows ! j) = u}"
  have "finite ?T" "?T \<noteq> {}" using fin u(1) by auto
  then have m: "Max ?T \<in> ?T" "\<And>j. j \<in> ?T \<Longrightarrow> j \<le> Max ?T" using Max_in [of ?T] Max_ge [of ?T] by blast+
  have "is_newest rows (Max ?T)"
    unfolding is_newest_iff
  proof (intro allI impI)
    fix j assume j: "j < length rows" "fkey (rows ! j) = fkey (rows ! Max ?T)"
    then have "j \<in> ?S" using m(1) by simp
    then have "fupdated (rows ! j) \<le> u" by (rule u(2))
    moreover have "fupdated (rows ! Max ?T) = u" using m(1) by simp
    moreover have "j \<le> Max ?T" if "fupdated (rows ! j) = u" using m(2) [of j] \<open>j \<in> ?S\<close> that by simp
    ultimately show "fupdated (rows ! j) < fupdated (rows ! Max ?T) \<or>
        fupdated (rows ! j) = fupdated (rows ! Max ?T) \<and> j \<le> Max ?T" by auto
  qed
  then have "rows ! Max ?T \<in> set (newest_rows rows)" using m(1) by (auto simp: newest_rows_set)
  moreover have "fkey (rows ! Max ?T) = fkey r" using m(1) by simp
  moreover have "fupdated r \<le> fupdated (rows ! Max ?T)" using u(2) [OF ne] m(1) i(2) by simp
  ultimately show ?thesis using that by blast
qed

lemma newest_rows_id: "distinct (map fkey rows) \<Longrightarrow> newest_rows rows = rows"
proof -
  assume d: "distinct (map fkey rows)"
  have "is_newest rows i" if "i < length rows" for i
    unfolding is_newest_iff using d that by (auto simp: distinct_conv_nth)
  then have "filter (is_newest rows) [0..<length rows] = [0..<length rows]" by (simp add: filter_id_conv)
  then show ?thesis by (simp add: newest_rows_def map_nth)
qed

lemma length_newest_le: "length (newest_rows rows) \<le> length rows"
  using length_filter_le [of "is_newest rows" "[0..<length rows]"] by (simp add: newest_rows_def)

lemma newest_rows_full: "length (newest_rows rows) = length rows \<Longrightarrow> newest_rows rows = rows"
proof -
  assume "length (newest_rows rows) = length rows"
  then have "length (filter (is_newest rows) [0..<length rows]) = length [0..<length rows]" by (simp add: newest_rows_def)
  then have "filter (is_newest rows) [0..<length rows] = [0..<length rows]"
    by (metis filter_True length_filter_less less_irrefl)
  then show ?thesis by (simp add: newest_rows_def map_nth)
qed

lemma newest_subset: "set (newest_rows rows) \<subseteq> set rows"
  by (auto simp: newest_rows_set)

lemma prepare_staging_eval:
  assumes "faults p = []" and "tables p (staging_table_name job) = Some rows"
  obtains k where "prepare_staging_for_promote_sync job p =
    (Inr k, p\<lparr>tables := (tables p)(staging_table_name job \<mapsto> newest_rows rows)\<rparr>)"
proof -
  let ?s = "staging_table_name job"
  have count: "staging_duplicate_count_sync job q = (Inr (int (length rs) - int (length (newest_rows rs))), q)"
    if "faults q = []" "tables q ?s = Some rs" for q rs
    using that by (simp add: staging_duplicate_count_sync_def tx_def all_or_nothing_def gets_def)
  show ?thesis
  proof (cases "length (newest_rows rows) = length rows")
    case True
    then have "newest_rows rows = rows" by (rule newest_rows_full)
    then have "p\<lparr>tables := (tables p)(?s \<mapsto> newest_rows rows)\<rparr> = p" using assms(2) by (simp add: map_upd_triv)
    then show ?thesis
      using that [of 0] count [OF assms] True by (simp add: prepare_staging_for_promote_sync_def bnd_def ret_def)
  next
    case False
    then have lt: "length (newest_rows rows) < length rows" using length_newest_le [of rows] by simp
    let ?p = "p\<lparr>tables := (tables p)(?s \<mapsto> newest_rows rows)\<rparr>"
    have "staging_duplicate_count_sync job ?p = (Inr 0, ?p)"
      using count [of ?p "newest_rows rows"] assms(1) newest_rows_id [OF newest_rows_distinct] by simp
    moreover have "dedupe_staging_table_sync job p = (Inr (int (length rows) - int (length (newest_rows rows))), ?p)"
      using assms lt by (simp add: dedupe_staging_table_sync_def Let_def tx_def all_or_nothing_def ret_def)
    ultimately show ?thesis
      using that count [OF assms] lt by (simp add: prepare_staging_for_promote_sync_def bnd_def ret_def)
  qed
qed

section \<open>Promoting\<close>

lemma count_tx_eval:
  "faults p = [] \<Longrightarrow> tables p s = Some rows \<Longrightarrow>
     tx (bnd (select_rows s) (\<lambda>rows. ret (int (length rows)))) p = (Inr (int (length rows)), p)"
  by (simp add: tx_def all_or_nothing_def bnd_def select_rows_def ret_def)

lemma already_complete_eval:
  assumes "faults p = []" and "unambiguous p cid"
  shows "partition_swap_already_complete_sync cid s p =
    (Inr (s \<in> fst ` set (parts p) \<or> map_option fst (find (\<lambda>q. snd q = cid) (parts p)) = Some s), p)"
  using assms resolve_eval [OF assms(2)]
  by (simp add: partition_swap_already_complete_sync_def tx_def all_or_nothing_def bnd_def partition_is_attached_def gets_def ret_def)

lemma find_attached: "find P ps = Some q \<Longrightarrow> fst q \<in> fst ` set ps"
  by (drule find_SomeD) simp

lemma pg_ok_other_table:
  assumes "pg_ok p" and "s \<notin> fst ` set (parts p)"
  shows "pg_ok (p\<lparr>tables := (tables p)(s := x)\<rparr>)"
proof -
  have "((tables p)(s := x)) rel = tables p rel" if "(rel, c) \<in> set (parts p)" for rel c
    using assms(2) that by (metis fst_conv fun_upd_other image_eqI)
  then have "\<forall>(rel, c)\<in>set (parts p). \<exists>rows. ((tables p)(s := x)) rel = Some rows \<and> (\<forall>r\<in>set rows. fcid r = c) \<and> distinct (map fkey rows)"
    using assms(1) by (auto simp: pg_ok_def)
  then show ?thesis using assms(1) by (simp add: pg_ok_def)
qed

lemma promote_replace_eval:
  assumes "pg_ok p" and "unambiguous p cid" and "faults p = []"
    and "tables p (staging_table_name job) = Some rows" and "rows \<noteq> []" and "\<forall>r\<in>set rows. fcid r = cid"
    and "staging_table_name job \<notin> fst ` set (parts p)"
  obtains p' where "promote_staging_sync h n cid job ''replace'' p = (Inr (int (length rows)), p')"
    "swapped p p' (staging_table_name job) cid (newest_rows rows)" "faults p' = []" "stageable cid (newest_rows rows)"
proof -
  let ?s = "staging_table_name job"
  let ?p = "p\<lparr>tables := (tables p)(?s \<mapsto> newest_rows rows)\<rparr>"
  have st: "stageable cid (newest_rows rows)"
    using assms(6) newest_rows_distinct newest_subset by (auto simp: stageable_def)
  have ok: "pg_ok ?p" using assms(1,7) by (rule pg_ok_other_table)
  have un: "unambiguous ?p cid" using assms(2) by (simp add: unambiguous_def)
  obtain k where prep: "prepare_staging_for_promote_sync job p = (Inr k, ?p)"
    using prepare_staging_eval [OF assms(3,4)] .
  obtain p' where p': "swap_staging_into_collection_partition_sync h n cid ?s ?p = (Inr (), p')" "swapped ?p p' ?s cid (newest_rows rows)"
    "faults p' = []"
    using swap_eval [OF ok un _ st, of ?s "[]" n h] assms(3,7) by auto
  have nc: "map_option fst (find (\<lambda>q. snd q = cid) (parts p)) \<noteq> Some ?s"
    using find_attached [of "\<lambda>q. snd q = cid" "parts p"] assms(7) by (cases "find (\<lambda>q. snd q = cid) (parts p)") force+
  have "promote_staging_sync h n cid job ''replace'' p = (Inr (int (length rows)), p')"
    using count_tx_eval [OF assms(3,4)] assms(5,7) nc prep p'(1) already_complete_eval [OF assms(3,2), of ?s]
    by (simp add: promote_staging_sync_def Let_def bnd_def promote_with_staging_recovery_def catch_def ret_def)
  moreover have "swapped p p' ?s cid (newest_rows rows)"
    using p'(2) assms(7) by (auto simp: swapped_def image_iff)
  ultimately show ?thesis using that p'(3) st by blast
qed

lemma unambiguous_swapped: "unambiguous p cid \<Longrightarrow> swapped p p' s cid rows \<Longrightarrow> unambiguous p' cid"
  by (auto simp: unambiguous_def swapped_def)

section \<open>Appending\<close>

lemma insert_feature_eval:
  assumes "find (\<lambda>q. snd q = fcid r) (parts p) = Some (rel, fcid r)" and "tables p rel = Some old" and "fkey r \<notin> fkey ` set old"
  shows "insert_feature r p = (Inr (), p\<lparr>tables := (tables p)(rel \<mapsto> old @ [r])\<rparr>)"
proof -
  have "find (\<lambda>(_, c). c = fcid r) (parts p) = Some (rel, fcid r)" using assms(1) by (simp add: case_prod_unfold)
  then show ?thesis using assms(2,3) by (simp add: insert_feature_def ret_def)
qed

lemma insert_features_eval:
  assumes "find (\<lambda>q. snd q = cid) (parts p) = Some (rel, cid)"
  shows "tables p rel = Some old \<Longrightarrow> \<forall>r\<in>set rows. fcid r = cid \<Longrightarrow> distinct (map fkey (old @ rows)) \<Longrightarrow>
    insert_features rows p = (Inr (), p\<lparr>tables := (tables p)(rel \<mapsto> old @ rows)\<rparr>)"
  using assms
proof (induction rows arbitrary: p old)
  case Nil
  then have "p\<lparr>tables := (tables p)(rel \<mapsto> old @ [])\<rparr> = p" by (simp add: map_upd_triv)
  then show ?case by (simp only: insert_features_def for_each.simps ret_def)
next
  case (Cons r rows)
  let ?p = "p\<lparr>tables := (tables p)(rel \<mapsto> old @ [r])\<rparr>"
  have "insert_feature r p = (Inr (), ?p)" using Cons.prems by (intro insert_feature_eval) auto
  then have "insert_features (r # rows) p = insert_features rows ?p" by (simp add: insert_features_def bnd_def)
  also have "insert_features rows ?p = (Inr (), ?p\<lparr>tables := (tables ?p)(rel \<mapsto> (old @ [r]) @ rows)\<rparr>)"
    using Cons.prems by (intro Cons.IH) auto
  also have "?p\<lparr>tables := (tables ?p)(rel \<mapsto> (old @ [r]) @ rows)\<rparr> = p\<lparr>tables := (tables p)(rel \<mapsto> old @ r # rows)\<rparr>" by simp
  finally show ?case .
qed

lemma ensure_existing_eval:
  assumes "pg_ok p" and "unambiguous p cid" and "faults p = []" and "find (\<lambda>q. snd q = cid) (parts p) = Some (rel, cid)"
  shows "ensure_features_partition_sync h cid p = (Inr rel, p)"
proof -
  have "(rel, cid) \<in> set (parts p)" using find_SomeD [OF assms(4)] by simp
  then have nd: "filter (\<lambda>r. fcid r = cid) (default_rows p) = []" "filter (\<lambda>r. fcid r \<noteq> cid) (default_rows p) = default_rows p"
    using assms(1) by (force simp: pg_ok_def filter_empty_conv filter_id_conv)+
  have p: "p\<lparr>default_rows := default_rows p\<rparr> = p" by simp
  have "tx (migrate_default_rows_to_partition cid) p = (Inr (), p)"
    by (rule tx_done [OF assms(3)])
      (simp add: migrate_default_rows_to_partition_def bnd_def gets_def nd insert_features_def ret_def delete_default_def modify_def)
  moreover have "resolve_features_partition_relname_sync cid p = (Inr (Some rel), p)"
    unfolding resolve_features_partition_relname_sync_def
    by (rule tx_done [OF assms(3)]) (simp add: resolve_eval [OF assms(2)] assms(4))
  ultimately show ?thesis by (simp add: ensure_features_partition_sync_def bnd_def ret_def)
qed

definition appended :: "pg \<Rightarrow> pg \<Rightarrow> string \<Rightarrow> string \<Rightarrow> frow list \<Rightarrow> bool" where
  "appended p p' s rel rows \<longleftrightarrow>
     p' = forget_table s (p\<lparr>tables := (tables p)(rel \<mapsto> rows, s := None), parts := filter (\<lambda>(r, _). r \<noteq> s) (parts p)\<rparr>)"

lemma appended_ok:
  assumes "pg_ok p" and "(rel, cid) \<in> set (parts p)" and "stageable cid rows" and "s \<notin> fst ` set (parts p)" and "appended p p' s rel rows"
  shows "pg_ok p'" and "features_of p' cid = rows" and "c \<noteq> cid \<Longrightarrow> features_of p' c = features_of p c"
proof -
  have "filter (\<lambda>(r, _). r \<noteq> s) (parts p) = parts p" using assms(4) by (auto simp: filter_id_conv image_iff)
  then have p': "p' = forget_table s (p\<lparr>tables := (tables p)(rel \<mapsto> rows, s := None)\<rparr>)" using assms(5) by (simp add: appended_def)
  have rs: "rel \<noteq> s" using assms(2,4) by (metis fst_conv image_eqI)
  have tabs: "tables p' rel' = tables p rel'" if "(rel', c') \<in> set (parts p)" "c' \<noteq> cid" for rel' c'
  proof -
    have "rel' \<noteq> rel" using pg_ok_same_rel [OF assms(1,2), of c'] that by blast
    moreover have "rel' \<noteq> s" using assms(4) that(1) by (metis fst_conv image_eqI)
    ultimately show ?thesis by (simp add: p')
  qed
  have trel: "tables p' rel = Some rows" using rs by (simp add: p')
  have row: "\<exists>rows. tables p' rel' = Some rows \<and> (\<forall>r\<in>set rows. fcid r = c') \<and> distinct (map fkey rows)"
    if "(rel', c') \<in> set (parts p)" for rel' c'
  proof (cases "c' = cid")
    case True
    then have "rel' = rel" using pg_ok_same_cid [OF assms(1) assms(2)] that by blast
    then show ?thesis using trel assms(3) True by (simp add: stageable_def)
  next
    case False
    then show ?thesis using tabs [OF that] pg_okD [OF assms(1) that] by metis
  qed
  show ok: "pg_ok p'" using assms(1) row by (auto simp: pg_ok_def p')
  show "features_of p' cid = rows" by (rule features_of_attached [OF ok _ trel]) (simp add: p' assms(2))
  show "features_of p' c = features_of p c" if "c \<noteq> cid"
  proof -
    have "map (\<lambda>(rel, _). or_else (tables p' rel) []) (filter (\<lambda>(_, c'). c' = c) (parts p)) =
        map (\<lambda>(rel, _). or_else (tables p rel) []) (filter (\<lambda>(_, c'). c' = c) (parts p))"
      using tabs that by (auto intro!: map_cong)
    moreover have "parts p' = parts p" "default_rows p' = default_rows p" by (simp_all add: p')
    ultimately show ?thesis by (simp only: features_of_parts [OF ok] features_of_parts [OF assms(1)])
  qed
qed

lemma promote_append_eval:
  assumes "pg_ok p" and "unambiguous p cid" and "faults p = []" and "mode \<noteq> ''replace''"
    and "tables p (staging_table_name job) = Some rows" and "rows \<noteq> []" and "\<forall>r\<in>set rows. fcid r = cid"
    and "staging_table_name job \<notin> fst ` set (parts p)" and "(rel, cid) \<in> set (parts p)" and "tables p rel = Some old"
    and "distinct (map fkey (old @ newest_rows rows))"
  obtains p' where "promote_staging_sync h n cid job mode p = (Inr (int (length rows)), p')"
    "appended p p' (staging_table_name job) rel (old @ newest_rows rows)"
proof -
  let ?s = "staging_table_name job"
  have f: "find (\<lambda>q. snd q = cid) (parts p) = Some (rel, cid)"
    using find_key_Some [of snd "parts p" "(rel, cid)"] assms(1,9) by (simp add: pg_ok_def)
  let ?p1 = "p\<lparr>tables := (tables p)(?s \<mapsto> newest_rows rows)\<rparr>"
  let ?p2 = "?p1\<lparr>tables := (tables ?p1)(rel \<mapsto> old @ newest_rows rows)\<rparr>"
  let ?p3 = "forget_table ?s (?p2\<lparr>tables := (tables ?p2)(?s := None), parts := filter (\<lambda>(r, _). r \<noteq> ?s) (parts p)\<rparr>)"
  have rs: "rel \<noteq> ?s" using assms(8,9) by (metis fst_conv image_eqI)
  obtain k where prep: "prepare_staging_for_promote_sync job p = (Inr k, ?p1)" using prepare_staging_eval [OF assms(3,5)] .
  have "insert_features (newest_rows rows) ?p1 = (Inr (), ?p2)"
    using insert_features_eval [of cid ?p1 rel old "newest_rows rows"] f assms(7,10,11) rs newest_subset [of rows] by auto
  then have app: "append_promote ?s ?p1 = (Inr (), ?p2)"
    unfolding append_promote_def using assms(3) by (intro tx_done) (simp_all add: bnd_def select_rows_def ret_def)
  have drop: "drop_staging_table_sync job ?p2 = (Inr (), ?p3)"
    unfolding drop_staging_table_sync_def using assms(3) by (intro tx_done) (simp_all add: drop_table_if_exists_def modify_def)
  have "promote_staging_sync h n cid job mode p = (Inr (int (length rows)), ?p3)"
    using count_tx_eval [OF assms(3,5)] assms(4,6) ensure_existing_eval [OF assms(1-3) f, of h] prep app drop
    by (simp add: promote_staging_sync_def Let_def bnd_def promote_with_staging_recovery_def catch_def ret_def)
  moreover have "appended p ?p3 ?s rel (old @ newest_rows rows)" using rs by (simp add: appended_def fun_upd_twist)
  ultimately show ?thesis using that by blast
qed

section \<open>Cleaning up\<close>

definition dropped_tables :: "pg \<Rightarrow> pg \<Rightarrow> string set \<Rightarrow> bool" where
  "dropped_tables p p' D \<longleftrightarrow> tables p' = (\<lambda>r. if r \<in> D then None else tables p r) \<and>
     parts p' = filter (\<lambda>q. fst q \<notin> D) (parts p) \<and> default_rows p' = default_rows p"

lemma dropped_features:
  assumes "pg_ok p" and "(rel, cid) \<in> set (parts p)" and "dropped_tables p p' D"
  shows "features_of p' cid = (if rel \<in> D then [] else features_of p cid)"
proof -
  have ok: "pg_ok p'"
    using assms(1,3) by (auto simp: pg_ok_def dropped_tables_def distinct_map_filter)
  obtain rows where rows: "tables p rel = Some rows" using pg_okD [OF assms(1,2)] .
  show ?thesis
  proof (cases "rel \<in> D")
    case True
    have "\<forall>q\<in>set (parts p'). snd q \<noteq> cid"
      using assms(3) True pg_ok_same_cid [OF assms(1,2)] by (force simp: dropped_tables_def)
    moreover have "\<forall>r\<in>set (default_rows p'). fcid r \<noteq> cid" using assms by (force simp: pg_ok_def dropped_tables_def)
    ultimately have "features_of p' cid = []"
      by (auto simp: features_of_parts [OF ok] filter_empty_conv)
    with True show ?thesis by simp
  next
    case False
    then have "(rel, cid) \<in> set (parts p')" "tables p' rel = Some rows" using assms(2,3) rows by (simp_all add: dropped_tables_def)
    with False show ?thesis using features_of_attached [OF ok] features_of_attached [OF assms(1,2) rows] by simp
  qed
qed

lemma cleanup_loop_eval:
  assumes "faults p = []"
  shows "let r = for_each rels (\<lambda>relname dropped. if relname \<in> A then ret dropped
       else bnd (tx (drop_table_if_exists relname)) (\<lambda>_. ret (dropped + 1))) (k :: int) p
     in dropped_tables p (snd r) (set rels - A) \<and> faults (snd r) = []"
  using assms
proof (induction rels arbitrary: p k)
  case Nil
  then show ?case by (simp add: dropped_tables_def ret_def)
next
  case (Cons x rels)
  show ?case
  proof (cases "x \<in> A")
    case True
    then show ?thesis using Cons.IH [OF Cons.prems, of k] by (simp add: bnd_def ret_def insert_Diff_if)
  next
    case False
    let ?q = "forget_table x (p\<lparr>tables := (tables p)(x := None), parts := filter (\<lambda>(r, _). r \<noteq> x) (parts p)\<rparr>)"
    have "tx (drop_table_if_exists x) p = (Inr (), ?q)"
      using Cons.prems by (intro tx_done) (simp_all add: drop_table_if_exists_def modify_def)
    moreover have "faults ?q = []" using Cons.prems by simp
    note Cons.IH [OF this, of "k + 1"]
    ultimately show ?thesis
      using False by (auto simp: Let_def bnd_def ret_def dropped_tables_def insert_Diff_if fun_eq_iff case_prod_unfold intro: filter_cong)
  qed
qed

lemma cleanup_eval:
  assumes "faults p = []"
  shows "dropped_tables p (snd (cleanup_orphan_staging_tables_sync names active p))
    {r \<in> set names. tables p r \<noteq> None \<and> like_staging r \<and> r \<notin> staging_table_name ` set active}"
proof -
  let ?rels = "filter (\<lambda>rel. tables p rel \<noteq> None \<and> like_staging rel) names"
  have "list_orphan_staging_tables_sync names p = (Inr ?rels, p)"
    unfolding list_orphan_staging_tables_sync_def using assms by (intro tx_done) (simp_all add: gets_def)
  moreover have "set ?rels - staging_table_name ` set active =
      {r \<in> set names. tables p r \<noteq> None \<and> like_staging r \<and> r \<notin> staging_table_name ` set active}" by auto
  ultimately show ?thesis
    using cleanup_loop_eval [OF assms, of ?rels "staging_table_name ` set active" 0]
    by (simp add: cleanup_orphan_staging_tables_sync_def bnd_def Let_def)
qed

section \<open>Properties\<close>

text \<open>C6: A replacement swaps exactly one collection. From a well-formed database in which no other collection's bound reads
  the same without spaces, with a staging table of rows of the collection and one row per key, the swap succeeds
  through any number of lock time-outs within its deadline; afterwards the collection holds exactly the staged
  rows, every other collection what it held, and the database is well formed.\<close>

theorem replace_swaps_one_collection:
  assumes "pg_ok p" and "unambiguous p cid" and "tables p s = Some rows" and "stageable cid rows" and "s \<notin> fst ` set (parts p)"
    and "faults p = None # map Some es" and "\<forall>e\<in>set es. is_lock_timeout_error e" and "length es \<le> n"
  shows "\<exists>p'. swap_staging_into_collection_partition_sync h n cid s p = (Inr (), p') \<and> pg_ok p' \<and>
    features_of p' cid = rows \<and> (\<forall>c. c \<noteq> cid \<longrightarrow> features_of p' c = features_of p c)"
proof -
  obtain p' where p': "swap_staging_into_collection_partition_sync h n cid s p = (Inr (), p')" "swapped p p' s cid rows"
    using swap_eval [OF assms(1-5) disjI1 [OF assms(6)] assms(7,8), of h] by blast
  then show ?thesis using swapped_ok [OF assms(1) p'(2) assms(5,4)] by blast
qed

definition row_of :: "string \<Rightarrow> string \<Rightarrow> int \<Rightarrow> frow" where
  "row_of cid i u = \<lparr>fid = i, fcid = cid, fpart = 0, fattrs = '''', fupdated = u\<rparr>"

definition example_pg :: "exn option list \<Rightarrow> pg" where
  "example_pg fs = \<lparr>tables = [''features_a'' \<mapsto> [row_of ''a'' ''1'' 1], ''features_b'' \<mapsto> [row_of ''b'' ''1'' 1],
      ''bulk_staging_j'' \<mapsto> [row_of ''a'' ''7'' 2, row_of ''a'' ''7'' 3]],
     parts = [(''features_a'', ''a''), (''features_b'', ''b'')], default_rows = [],
     unlogged = [''bulk_staging_j''], checks = [], faults = fs\<rparr>"

lemma example_pg_ok: "pg_ok (example_pg fs)" "unambiguous (example_pg fs) ''a''"
proof -
  show "pg_ok (example_pg fs)" by (auto simp: pg_ok_def example_pg_def row_of_def fkey_def)
  have "partition_bound_literal ''b'' \<noteq> partition_bound_literal ''a''" by code_simp
  then show "unambiguous (example_pg fs) ''a''" by (simp add: unambiguous_def example_pg_def)
qed

theorem replace_swaps_one_collection_witness:
  "\<exists>p'. swap_staging_into_collection_partition_sync id 1 ''a'' ''s''
      ((example_pg [None, Some (DbError ''lock timeout'')])\<lparr>tables := (tables (example_pg []))(''s'' \<mapsto> [row_of ''a'' ''9'' 5])\<rparr>) =
      (Inr (), p') \<and> features_of p' ''a'' = [row_of ''a'' ''9'' 5] \<and> features_of p' ''b'' = [row_of ''b'' ''1'' 1]"
proof -
  let ?p = "(example_pg [None, Some (DbError ''lock timeout'')])\<lparr>tables := (tables (example_pg []))(''s'' \<mapsto> [row_of ''a'' ''9'' 5])\<rparr>"
  have ok: "pg_ok ?p" by (auto simp: pg_ok_def example_pg_def row_of_def fkey_def)
  have un: "unambiguous ?p ''a''" using example_pg_ok(2) [of "[]"] by (simp add: unambiguous_def example_pg_def)
  have lock: "is_lock_timeout_error (DbError ''lock timeout'')" by code_simp
  have fb: "features_of ?p ''b'' = [row_of ''b'' ''1'' 1]"
    by (simp add: features_of_def all_features_def example_pg_def row_of_def)
  have "\<exists>p'. swap_staging_into_collection_partition_sync id 1 ''a'' ''s'' ?p = (Inr (), p') \<and> pg_ok p' \<and>
    features_of p' ''a'' = [row_of ''a'' ''9'' 5] \<and> (\<forall>c. c \<noteq> ''a'' \<longrightarrow> features_of p' c = features_of ?p c)"
    by (rule replace_swaps_one_collection [OF ok un, where es = "[DbError ''lock timeout'']"])
      (simp_all add: example_pg_def stageable_def row_of_def lock)
  then show ?thesis using fb by auto
qed

text \<open>C12: A failed replacement loses nothing and can be retried. From a database as in the previous property, when a swap raises
  for whatever refusals of the server (a refused preparation, locks held beyond the deadline, any other error), every table,
  partition and row is as it was, the staged rows included; all that may remain of it is that the staging table is logged and
  has its bound check, which are committed before the swap. A retry then succeeds through any lock time-outs within its
  deadline and leaves in the collection exactly the staged rows, and in every other collection what it held before the failure.\<close>

theorem failed_swap_can_be_retried:
  assumes "pg_ok p" and "unambiguous p cid" and "tables p s = Some rows" and "stageable cid rows" and "s \<notin> fst ` set (parts p)"
    and "swap_staging_into_collection_partition_sync h n cid s p = (Inl e, p1)"
    and "\<forall>x\<in>set es. is_lock_timeout_error x" and "length es \<le> m"
  shows "same_data p p1 \<and>
    (unlogged p1 = unlogged p \<and> checks p1 = checks p \<or> unlogged p1 = unlogged (prepared s p) \<and> checks p1 = checks (prepared s p)) \<and>
    (\<exists>p2. swap_staging_into_collection_partition_sync h m cid s (p1\<lparr>faults := None # map Some es\<rparr>) = (Inr (), p2) \<and>
       pg_ok p2 \<and> features_of p2 cid = rows \<and> (\<forall>c. c \<noteq> cid \<longrightarrow> features_of p2 c = features_of p c))"
proof -
  have left: "same_data p p1 \<and> (same_catalog p p1 \<or> same_catalog (prepared s p) p1)"
    using assms(6) by (rule swap_failed [OF assms(3,4)])
  let ?p = "p1\<lparr>faults := None # map Some es\<rparr>"
  have same: "same_data p ?p" using left by (simp add: same_data_def)
  have s: "s \<notin> fst ` set (parts ?p)" using assms(5) left by (simp add: same_data_def)
  have ok: "pg_ok ?p" using same_data_ok [OF same] assms(1) by blast
  obtain p2 where p2: "swap_staging_into_collection_partition_sync h m cid s ?p = (Inr (), p2)" "swapped ?p p2 s cid rows"
  proof (rule swap_eval [of ?p cid s rows es m h])
    show "unambiguous ?p cid" using same_data_ok [OF same] assms(2) by blast
    show "tables ?p s = Some rows" using same assms(3) by (simp add: same_data_def)
  qed (use ok s assms(4,7,8) in simp_all)
  have f: "features_of ?p c = features_of p c" for c using same by (rule same_data_features)
  show ?thesis
    using left p2(1) swapped_ok [OF ok p2(2) s assms(4)] f by (auto simp: same_catalog_def)
qed

theorem failed_swap_can_be_retried_witness:
  "let q = example_pg []; p = q\<lparr>tables := (tables q)(''s'' \<mapsto> [row_of ''a'' ''9'' 5]), unlogged := [''s''], faults := [None, Some (DbError ''disk full'')]\<rparr>;
       p1 = snd (swap_staging_into_collection_partition_sync id 1 ''a'' ''s'' p)
   in unlogged p1 = [] \<and> (\<exists>p2. swap_staging_into_collection_partition_sync id 0 ''a'' ''s'' (p1\<lparr>faults := [None]\<rparr>) = (Inr (), p2) \<and>
        features_of p2 ''a'' = [row_of ''a'' ''9'' 5])"
proof -
  let ?q = "example_pg []"
  let ?p = "?q\<lparr>tables := (tables ?q)(''s'' \<mapsto> [row_of ''a'' ''9'' 5]), unlogged := [''s''], faults := [None, Some (DbError ''disk full'')]\<rparr>"
  let ?p1 = "snd (swap_staging_into_collection_partition_sync id 1 ''a'' ''s'' ?p)"
  have ok: "pg_ok ?p" by (auto simp: pg_ok_def example_pg_def row_of_def fkey_def)
  have un: "unambiguous ?p ''a''" using example_pg_ok(2) [of "[]"] by (simp add: unambiguous_def example_pg_def)
  have t: "tables ?p ''s'' = Some [row_of ''a'' ''9'' 5]" "stageable ''a'' [row_of ''a'' ''9'' 5]" "''s'' \<notin> fst ` set (parts ?p)"
    by (simp_all add: example_pg_def stageable_def row_of_def)
  have "\<not> is_lock_timeout_error (DbError ''disk full'')" by code_simp
  then have run: "swap_staging_into_collection_partition_sync id 1 ''a'' ''s'' ?p = (Inl (DbError ''disk full''), prepared ''s'' (?p\<lparr>faults := []\<rparr>))"
    using prepare_eval [of ?p "''s''" _ "''a''"] t
    by (simp add: swap_staging_into_collection_partition_sync_def bnd_def stageable_def tx_def catch_def raise_def)
  then have p1: "?p1 = prepared ''s'' (?p\<lparr>faults := []\<rparr>)" by simp
  have "unlogged ?p1 = []" unfolding p1 by (simp add: prepared_def)
  moreover have "\<exists>p2. swap_staging_into_collection_partition_sync id 0 ''a'' ''s'' (?p1\<lparr>faults := [None]\<rparr>) = (Inr (), p2) \<and>
        features_of p2 ''a'' = [row_of ''a'' ''9'' 5]"
    unfolding p1 using failed_swap_can_be_retried [OF ok un t run, of "[]" 0] by simp blast
  ultimately show ?thesis unfolding Let_def by blast
qed

text \<open>Promoting is idempotent. When the server refuses nothing, promoting a staging table in replace mode leaves in the
  collection exactly one row per staged key, the newest, keeps every other collection, and promoting the same job
  again changes nothing.\<close>

theorem promote_replace_idempotent:
  assumes "pg_ok p" and "unambiguous p cid" and "faults p = []"
    and "tables p (staging_table_name job) = Some rows" and "rows \<noteq> []" and "\<forall>r\<in>set rows. fcid r = cid"
    and "staging_table_name job \<notin> fst ` set (parts p)"
  shows "\<exists>p'. promote_staging_sync h n cid job ''replace'' p = (Inr (int (length rows)), p') \<and> pg_ok p' \<and>
    distinct (map fkey (features_of p' cid)) \<and> set (features_of p' cid) \<subseteq> set rows \<and>
    (\<forall>r\<in>set rows. \<exists>s\<in>set (features_of p' cid). fkey s = fkey r \<and> fupdated r \<le> fupdated s) \<and>
    (\<forall>c. c \<noteq> cid \<longrightarrow> features_of p' c = features_of p c) \<and>
    snd (promote_staging_sync h n cid job ''replace'' p') = p'"
proof -
  let ?s = "staging_table_name job"
  obtain p' where p': "promote_staging_sync h n cid job ''replace'' p = (Inr (int (length rows)), p')"
    "swapped p p' ?s cid (newest_rows rows)" "faults p' = []" "stageable cid (newest_rows rows)"
    using promote_replace_eval [OF assms, of h n] .
  note sw = swapped_ok [OF assms(1) p'(2) assms(7) p'(4)]
  have ne: "newest_rows rows \<noteq> []" using newest_of_key [of "hd rows" rows] assms(5) by (metis list.set(1) empty_iff list.set_sel(1))
  have "tables p' ?s = Some (newest_rows rows)" "?s \<in> fst ` set (parts p')" using p'(2) by (simp_all add: swapped_def)
  then have "snd (promote_staging_sync h n cid job ''replace'' p') = p'"
    using count_tx_eval [OF p'(3)] ne already_complete_eval [OF p'(3) unambiguous_swapped [OF assms(2) p'(2)], of ?s]
    by (simp add: promote_staging_sync_def Let_def bnd_def ret_def)
  moreover have "\<forall>r\<in>set rows. \<exists>s\<in>set (newest_rows rows). fkey s = fkey r \<and> fupdated r \<le> fupdated s"
    using newest_of_key by metis
  ultimately show ?thesis using p'(1) sw newest_rows_distinct newest_subset by auto
qed

lemma staging_name_j: "staging_table_name ''j'' = ''bulk_staging_j''"
  by code_simp

theorem promote_replace_idempotent_witness:
  "\<exists>p'. promote_staging_sync id 1 ''a'' ''j'' ''replace'' (example_pg []) = (Inr 2, p') \<and>
     snd (promote_staging_sync id 1 ''a'' ''j'' ''replace'' p') = p' \<and> length (features_of p' ''a'') \<le> 1"
proof -
  let ?rows = "[row_of ''a'' ''7'' 2, row_of ''a'' ''7'' 3]"
  have t: "tables (example_pg []) (staging_table_name ''j'') = Some ?rows" "faults (example_pg []) = []"
    "staging_table_name ''j'' \<notin> fst ` set (parts (example_pg []))"
    by (simp_all add: staging_name_j example_pg_def)
  obtain p' where p': "promote_staging_sync id 1 ''a'' ''j'' ''replace'' (example_pg []) = (Inr (int (length ?rows)), p')"
    "distinct (map fkey (features_of p' ''a''))" "set (features_of p' ''a'') \<subseteq> set ?rows"
    "snd (promote_staging_sync id 1 ''a'' ''j'' ''replace'' p') = p'"
    using promote_replace_idempotent [OF example_pg_ok t(2,1) _ _ t(3), of id 1] by (auto simp: row_of_def)
  have "fkey ` set (features_of p' ''a'') \<subseteq> {(''7'', ''a'', 0)}" using p'(3) by (auto simp: fkey_def row_of_def)
  then have "card (fkey ` set (features_of p' ''a'')) \<le> card {(''7'', ''a'', 0 :: int)}" by (intro card_mono) simp_all
  then have "length (features_of p' ''a'') \<le> 1" using distinct_card [OF p'(2)] by simp
  then show ?thesis using p' by auto
qed

text \<open>Appending adds. When the server refuses nothing, the collection has its partition and no staged key is in it,
  promoting in append mode leaves the old rows followed by the newest staged row of each key, keeps every
  other collection, and the staging table is gone.\<close>

theorem promote_append_adds:
  assumes "pg_ok p" and "unambiguous p cid" and "faults p = []" and "mode \<noteq> ''replace''"
    and "tables p (staging_table_name job) = Some rows" and "rows \<noteq> []" and "\<forall>r\<in>set rows. fcid r = cid"
    and "staging_table_name job \<notin> fst ` set (parts p)" and "(rel, cid) \<in> set (parts p)"
    and "distinct (map fkey (features_of p cid @ newest_rows rows))"
  shows "\<exists>p'. promote_staging_sync h n cid job mode p = (Inr (int (length rows)), p') \<and> pg_ok p' \<and>
    features_of p' cid = features_of p cid @ newest_rows rows \<and> (\<forall>c. c \<noteq> cid \<longrightarrow> features_of p' c = features_of p c) \<and>
    tables p' (staging_table_name job) = None"
proof -
  obtain old where old: "tables p rel = Some old" "\<forall>r\<in>set old. fcid r = cid" "distinct (map fkey old)" using pg_okD [OF assms(1,9)] .
  have fo: "features_of p cid = old" using features_of_attached [OF assms(1,9) old(1)] .
  have st: "stageable cid (old @ newest_rows rows)"
    using assms(7,10) old(2) newest_subset [of rows] by (auto simp: stageable_def fo)
  obtain p' where p': "promote_staging_sync h n cid job mode p = (Inr (int (length rows)), p')"
    "appended p p' (staging_table_name job) rel (old @ newest_rows rows)"
    using promote_append_eval [OF assms(1-9) old(1), of h n] assms(10) fo by auto
  moreover have "tables p' (staging_table_name job) = None" using p'(2) by (simp add: appended_def)
  ultimately show ?thesis using appended_ok [OF assms(1,9) st assms(8) p'(2)] fo by auto
qed

theorem promote_append_adds_witness:
  "\<exists>p'. promote_staging_sync id 1 ''a'' ''j'' ''append'' (example_pg []) = (Inr 2, p') \<and>
     features_of p' ''a'' = [row_of ''a'' ''1'' 1, row_of ''a'' ''7'' 3]"
proof -
  let ?rows = "[row_of ''a'' ''7'' 2, row_of ''a'' ''7'' 3]"
  have new: "newest_rows ?rows = [row_of ''a'' ''7'' 3]" by code_simp
  have t: "tables (example_pg []) (staging_table_name ''j'') = Some ?rows" "faults (example_pg []) = []"
    "staging_table_name ''j'' \<notin> fst ` set (parts (example_pg []))" "(''features_a'', ''a'') \<in> set (parts (example_pg []))"
    by (simp_all add: staging_name_j example_pg_def)
  have fo: "features_of (example_pg []) ''a'' = [row_of ''a'' ''1'' 1]"
    by (simp add: features_of_def all_features_def example_pg_def row_of_def)
  have "distinct (map fkey (features_of (example_pg []) ''a'' @ newest_rows ?rows))" unfolding fo new by (simp add: fkey_def row_of_def)
  from promote_append_adds [OF example_pg_ok t(2) _ t(1) _ _ t(3,4) this, of "''append''" id 1] fo new
  show ?thesis by (auto simp: row_of_def)
qed

text \<open>C24: The clean-up of staging tables drops live data. What the clean-up leaves of a collection's partition, exactly: a
  partition whose table is named like a staging table (as the partition of every collection that was replaced is) and
  belongs to no active job is dropped, and the collection then holds nothing; every other partition keeps its rows.\<close>

theorem staging_cleanup_drops_live_partition:
  assumes "pg_ok p" and "faults p = []" and "(rel, cid) \<in> set (parts p)" and "rel \<in> set names"
  shows "features_of (snd (cleanup_orphan_staging_tables_sync names active p)) cid =
    (if like_staging rel \<and> rel \<notin> staging_table_name ` set active then [] else features_of p cid)"
proof -
  let ?D = "{r \<in> set names. tables p r \<noteq> None \<and> like_staging r \<and> r \<notin> staging_table_name ` set active}"
  let ?p = "snd (cleanup_orphan_staging_tables_sync names active p)"
  have d: "dropped_tables p ?p ?D" by (rule cleanup_eval [OF assms(2)])
  obtain rows where rows: "tables p rel = Some rows" using pg_okD [OF assms(1,3)] .
  show ?thesis using dropped_features [OF assms(1,3) d] assms(4) rows by simp
qed

theorem staging_cleanup_drops_live_partition_witness:
  "\<exists>p1. promote_staging_sync id 1 ''a'' ''j'' ''replace'' (example_pg []) = (Inr 2, p1) \<and> features_of p1 ''a'' = [row_of ''a'' ''7'' 3] \<and>
     features_of (snd (cleanup_orphan_staging_tables_sync [''features_b'', ''bulk_staging_j''] [] p1)) ''a'' = []"
proof -
  let ?rows = "[row_of ''a'' ''7'' 2, row_of ''a'' ''7'' 3]"
  have t: "tables (example_pg []) (staging_table_name ''j'') = Some ?rows" "faults (example_pg []) = []"
    "staging_table_name ''j'' \<notin> fst ` set (parts (example_pg []))"
    by (simp_all add: staging_name_j example_pg_def)
  obtain p1 where p1: "promote_staging_sync id 1 ''a'' ''j'' ''replace'' (example_pg []) = (Inr (int (length ?rows)), p1)"
    "swapped (example_pg []) p1 (staging_table_name ''j'') ''a'' (newest_rows ?rows)" "faults p1 = []" "stageable ''a'' (newest_rows ?rows)"
    using promote_replace_eval [OF example_pg_ok t(2,1) _ _ t(3), of id 1] by (auto simp: row_of_def)
  have new: "newest_rows ?rows = [row_of ''a'' ''7'' 3]" by code_simp
  note sw = swapped_ok [OF example_pg_ok(1) p1(2) t(3) p1(4)]
  have part: "(''bulk_staging_j'', ''a'') \<in> set (parts p1)" using p1(2) by (simp add: swapped_def staging_name_j)
  have "like_staging ''bulk_staging_j''" by code_simp
  then show ?thesis
    using staging_cleanup_drops_live_partition [OF sw(1) p1(3) part, of "[''features_b'', ''bulk_staging_j'']" "[]"] p1(1) sw(2) new
    by simp
qed

text \<open>Ids that differ in spaces share a partition: deleting the features of the collection \<open>ab\<close>, which has none, drops the
  features of the collection \<open>a b\<close>.\<close>

theorem space_in_id_drops_other_collection:
  "let p = \<lparr>tables = [''features_a_b'' \<mapsto> [row_of ''a b'' ''1'' 1]], parts = [(''features_a_b'', ''a b'')], default_rows = [],
         unlogged = [], checks = [], faults = []\<rparr>;
       p' = snd (drop_collection_features_data_sync id 1 ''ab'' p)
   in length (features_of p ''a b'') = 1 \<and> features_of p ''ab'' = [] \<and> features_of p' ''a b'' = []"
  by code_simp

end
