(* ===== verification/Import_World.thy ===== *)
theory Import_World
  imports Finalize_Queue Tile_Build_Queue Staging
begin

text \<open>
  The world of the import workers: the Redis client state of the queues extended by the database with its feature
  tables and by the rows of \<^verbatim>\<open>collections\<close> (their cached feature count and time of the last change).
  A program on the database alone is lifted by \<open>on_pg\<close>.

  Also here: the helpers of \<^verbatim>\<open>bulk_import.py\<close> and \<^verbatim>\<open>bulk_copy_ingest.py\<close> that run after a promotion, the
  texts of exceptions, number formatting, and the frame rules: what a program keeps of the world. Programs on
  Redis keep the database, programs on the database keep everything else.
\<close>

section \<open>Definitions\<close>

record 's fenv = "'s qenv" +
  pgdb :: pg
  coll_rows :: "string \<rightharpoonup> int \<times> int option"

definition on_pg :: "(pg, 'a) prog \<Rightarrow> ('s fenv, 'a) prog" where
  "on_pg m = (\<lambda>w. case m (pgdb w) of (r, p) \<Rightarrow> (r, w\<lparr>pgdb := p\<rparr>))"

text \<open>\<^verbatim>\<open>f"{n:,}"\<close>.\<close>

fun group_digits :: "string \<Rightarrow> string" where
  "group_digits (a # b # c # d # ds) = a # b # c # CHR '','' # group_digits (d # ds)"
| "group_digits ds = ds"

definition commas :: "int \<Rightarrow> string" where
  "commas n = (if n < 0 then ''-'' else '''') @ rev (group_digits (rev (nat_str (nat \<bar>n\<bar>))))"

text \<open>\<^verbatim>\<open>type(e).__name__\<close> and \<^verbatim>\<open>f"{type(e).__name__}: {e}"\<close>. Database errors other than violated constraints go by the
  name of their common class.\<close>

definition exn_name :: "exn \<Rightarrow> string" where
  "exn_name e = (case e of
       ValueError \<Rightarrow> ''ValueError'' | KeyError \<Rightarrow> ''KeyError'' | TypeError \<Rightarrow> ''TypeError'' | RuntimeError _ \<Rightarrow> ''RuntimeError''
     | RedisError \<Rightarrow> ''RedisError'' | SqlError \<Rightarrow> ''DBAPIError'' | HTTPException _ _ \<Rightarrow> ''HTTPException''
     | DbLoadOverloaded _ \<Rightarrow> ''DbLoadOverloaded'' | StagingDuplicateUnrecoverable _ \<Rightarrow> ''StagingDuplicateUnrecoverableError''
     | BulkImportCancelled \<Rightarrow> ''BulkImportCancelled'' | MultipleResultsFound \<Rightarrow> ''MultipleResultsFound''
     | ClientDisconnected \<Rightarrow> ''ClientDisconnect'' | CancelledError \<Rightarrow> ''CancelledError'' | RequestError \<Rightarrow> ''RequestError''
     | TimeoutError \<Rightarrow> ''TimeoutError'' | DbError _ \<Rightarrow> ''DBAPIError'' | IntegrityError _ \<Rightarrow> ''IntegrityError''
     | GeometryTooLargeError _ _ \<Rightarrow> ''GeometryTooLargeError'' | CogPathOutsideStorageError _ \<Rightarrow> ''CogPathOutsideStorageError''
     | AssertionError \<Rightarrow> ''AssertionError'' | RecursionError \<Rightarrow> ''RecursionError'')"

definition exn_line :: "exn \<Rightarrow> string" where
  "exn_line e = exn_name e @ '': '' @ message_of e"

subsection \<open>After a promotion\<close>

definition retryable_fragments :: "string list" where
  "retryable_fragments = [''server closed the connection unexpectedly'', ''connection reset'', ''connection refused'',
     ''could not connect'', ''network is unreachable'', ''terminating connection'', ''connection is closed'',
     ''ssl syscall error'', ''deadlock detected'']"

definition is_retryable_db_error :: "exn \<Rightarrow> bool" where
  "is_retryable_db_error e \<longleftrightarrow>
     (case e of DbError _ \<Rightarrow> True | IntegrityError _ \<Rightarrow> True | SqlError \<Rightarrow> True
      | _ \<Rightarrow> list_ex (\<lambda>frag. is_sub frag (py_lower (message_of e))) retryable_fragments)"

text \<open>\<open>n\<close> attempts remain after this one; the pauses leave the world alone.\<close>

primrec db_retry_loop :: "nat \<Rightarrow> ('w, 'a) prog \<Rightarrow> ('w, 'a) prog" where
  "db_retry_loop 0 m = m"
| "db_retry_loop (Suc n) m = catch m (\<lambda>e. if \<not> is_retryable_db_error e then raise e else db_retry_loop n m)"

definition run_db_retry :: "settings \<Rightarrow> ('w, 'a) prog \<Rightarrow> ('w, 'a) prog" where
  "run_db_retry cfg fn = db_retry_loop (nat (max 1 (or_default (bulk_db_retry_max_attempts cfg) 4) - 1)) fn"

text \<open>One transaction that reads the feature rows of a collection and writes its row of \<^verbatim>\<open>collections\<close>, if there is one.\<close>

definition update_collection_row :: "string \<Rightarrow> (frow list \<Rightarrow> int \<times> int option \<Rightarrow> int \<times> int option) \<Rightarrow> ('s fenv, unit) prog" where
  "update_collection_row cid f =
     bnd (on_pg (tx (gets (\<lambda>p. features_of p cid)))) (\<lambda>rows.
     modify (\<lambda>w. case coll_rows w cid of None \<Rightarrow> w | Some row \<Rightarrow> w\<lparr>coll_rows := (coll_rows w)(cid \<mapsto> f rows row)\<rparr>))"

definition update_feature_count_sync :: "settings \<Rightarrow> string \<Rightarrow> ('s fenv, unit) prog" where
  "update_feature_count_sync cfg cid =
     run_db_retry cfg (update_collection_row cid (\<lambda>rows (_, t). (int (length (remdups (map fid rows))), t)))"

definition refresh_collection_features_last_updated_sync :: "string \<Rightarrow> ('s fenv, unit) prog" where
  "refresh_collection_features_last_updated_sync cid =
     update_collection_row cid (\<lambda>rows (n, _). (n, if rows = [] then None else Some (foldr max (map fupdated rows) (fupdated (hd rows)))))"

text \<open>\<open>recompute_extent\<close> is the PostGIS aggregate over the geometries; the default mode \<^verbatim>\<open>deferred\<close> never calls it.\<close>

definition finalize_after_promote :: "settings \<Rightarrow> (string \<Rightarrow> ('s fenv, unit) prog) \<Rightarrow> string \<Rightarrow> ('s fenv, unit) prog" where
  "finalize_after_promote cfg recompute_extent cid =
     bnd (update_feature_count_sync cfg cid) (\<lambda>_.
     let extent_mode = py_lower (if bulk_extent_update_mode cfg = '''' then ''deferred'' else bulk_extent_update_mode cfg) in
     bnd (if extent_mode = ''deferred'' then ret ()
          else catch (recompute_extent cid) (\<lambda>e. if extent_mode = ''immediate'' then raise e else ret ())) (\<lambda>_.
     if bulk_skip_features_touch_trigger cfg then refresh_collection_features_last_updated_sync cid else ret ()))"

section \<open>Frames\<close>

text \<open>What no program on Redis changes: the database and the clock.\<close>

definition outside_redis :: "'s fenv \<Rightarrow> pg \<times> (string \<rightharpoonup> int \<times> int option) \<times> (nat \<Rightarrow> datetime)" where
  "outside_redis w = (pgdb w, coll_rows w, clock w)"

lemma keeps_rcall [keeps_intros]: "keeps outside_redis (rcall srv q)" "keeps outside_redis utcnow" "keeps outside_redis uuid4"
  by (simp_all add: keeps_def outside_redis_def prog_simps)

lemma keeps_client [keeps_intros]:
  "keeps outside_redis (r_get srv k)" "keeps outside_redis (r_set srv k v ex nx)" "keeps outside_redis (r_int srv q)" "keeps outside_redis (r_unit srv q)"
  "keeps outside_redis (r_hget srv k f)" "keeps outside_redis (r_hgetall srv k)" "keeps outside_redis (r_lrange srv k a b)"
  "keeps outside_redis (r_blpop srv k)" "keeps outside_redis (r_scan srv k)"
  by (simp_all add: keeps_def outside_redis_def prog_simps)

lemma keeps_mem [keeps_intros]:
  "keeps outside_redis (modify (\<lambda>w. w\<lparr>mem_jobs := g w\<rparr>))" "keeps outside_redis (modify (\<lambda>w. w\<lparr>mem_bulk_storage := h w\<rparr>))"
  by (simp_all add: keeps_def outside_redis_def prog_simps)

lemma keeps_mutex [keeps_intros]:
  "keeps outside_redis (get_collection_bulk_mutex_holder srv cfg c)" "keeps outside_redis (holds_collection_bulk_mutex srv cfg c i)"
  "keeps outside_redis (release_collection_bulk_mutex srv cfg c i)" "keeps outside_redis (release_bulk_mutex_for_job srv cfg c i)"
  unfolding get_collection_bulk_mutex_holder_def holds_collection_bulk_mutex_def release_eq
    release_bulk_mutex_for_job_def
  by (intro keeps_intros; simp)+

lemma keeps_job [keeps_intros]:
  "keeps outside_redis (get_job srv cfg i)" "keeps outside_redis (update_job srv cfg i u)" "keeps outside_redis (create_job srv cfg c o' l)"
  "keeps outside_redis (list_all_jobs srv cfg n o' k)"
  unfolding get_job_def get_job_redis_def get_job_memory_def update_job_def update_job_redis_def update_job_memory_def
    write_job_update_def sets_finished_def release_bulk_mutex_on_terminal_def create_job_def create_job_redis_def create_job_memory_def
    list_all_jobs_def list_all_jobs_redis_def list_all_jobs_memory_def get_jobs_redis_def
  by (intro keeps_intros)+

lemma keeps_queues [keeps_intros]:
  "keeps outside_redis (is_finalize_pending srv cfg i)" "keeps outside_redis (get_finalize_state srv cfg i)"
  "keeps outside_redis (mark_finalize_pending srv cfg p)" "keeps outside_redis (clear_finalize_pending srv cfg i)"
  "keeps outside_redis (record_finalize_error srv cfg i m n)" "keeps outside_redis (enqueue_finalize srv cfg p b)"
  "keeps outside_redis (remove_finalize_from_queue srv cfg i)" "keeps outside_redis (unregister_bulk_import_job srv cfg i)"
  unfolding is_finalize_pending_def get_finalize_state_def mark_finalize_pending_def clear_finalize_pending_def
    record_finalize_error_def enqueue_finalize_def remove_finalize_from_queue_def remove_one_finalize_def unregister_bulk_import_job_def
  by (intro keeps_intros)+

lemma keeps_tile_build [keeps_intros]:
  "keeps outside_redis (create_tile_build_job srv cfg c o')" "keeps outside_redis (update_tile_build_job srv cfg i st m)"
  "keeps outside_redis (enqueue_tile_build srv cfg c i opts b)"
  unfolding create_tile_build_job_def update_tile_build_job_def enqueue_tile_build_def tile_build_is_pending_def
    push_tile_build_def set_pending_def get_pending_job_id_def
  by (intro keeps_intros)+

end
