(* ===== verification/Staging_Isolation.thy ===== *)
theory Staging_Isolation
  imports Staging
begin

text \<open>
  Work on one collection leaves the others alone, whatever the database refuses: every operation of the staging
  and partition modules that finalizing a job can reach keeps the tables well formed and every other collection
  as it was, on success, on error and after any sequence of refused transactions.

  The invariant \<open>isolated cid s F\<close> speaks of the collection \<open>cid\<close>, its staging table \<open>s\<close>
  and the features \<open>F\<close> of the other collections.
\<close>

definition elsewhere :: "string \<Rightarrow> pg \<Rightarrow> (string \<times> frow list option) list \<times> frow list" where
  "elsewhere cid p = (map (\<lambda>(rel, c). (c, tables p rel)) (filter (\<lambda>(_, c). c \<noteq> cid) (parts p)),
     filter (\<lambda>r. fcid r \<noteq> cid) (default_rows p))"

definition isolated :: "string \<Rightarrow> string \<Rightarrow> (string \<times> frow list option) list \<times> frow list \<Rightarrow> pg \<Rightarrow> bool" where
  "isolated cid s F p \<longleftrightarrow> pg_ok p \<and> unambiguous p cid \<and> elsewhere cid p = F \<and>
     (\<forall>rows. tables p s = Some rows \<longrightarrow> (\<forall>r\<in>set rows. fcid r = cid)) \<and> (\<forall>c. (s, c) \<in> set (parts p) \<longrightarrow> c = cid)"

lemma elsewhere_features:
  assumes "pg_ok p" and "pg_ok p'" and "elsewhere cid p' = elsewhere cid p" and "c \<noteq> cid"
  shows "features_of p' c = features_of p c"
proof -
  have f: "features_of q c = concat (map (\<lambda>(_, rows). or_else rows []) (filter (\<lambda>(c', _). c' = c) (fst (elsewhere cid q)))) @
      filter (\<lambda>r. fcid r = c) (snd (elsewhere cid q))" if "pg_ok q" for q
  proof -
    have "snd x \<noteq> cid \<and> snd x = c \<longleftrightarrow> snd x = c" "fcid r \<noteq> cid \<and> fcid r = c \<longleftrightarrow> fcid r = c" for x :: "string \<times> string" and r :: frow
      using assms(4) by auto
    then show ?thesis
      by (simp add: features_of_parts [OF that] elsewhere_def filter_map comp_def case_prod_unfold)
  qed
  show ?thesis using f [OF assms(1)] f [OF assms(2)] assms(3) by simp
qed

lemma isolated_features:
  "pg_ok p \<Longrightarrow> isolated cid s (elsewhere cid p) p' \<Longrightarrow> c \<noteq> cid \<Longrightarrow> features_of p' c = features_of p c"
  by (rule elsewhere_features) (simp_all add: isolated_def)

section \<open>Statements\<close>

text \<open>A table that, if it is attached, belongs to the collection.\<close>

definition mine :: "string \<Rightarrow> string \<Rightarrow> pg \<Rightarrow> bool" where
  "mine cid rel p \<longleftrightarrow> (\<forall>c. (rel, c) \<in> set (parts p) \<longrightarrow> c = cid)"

lemma pg_okI:
  assumes "distinct (map fst (parts p))" and "distinct (map snd (parts p))"
    and "\<And>rel c. (rel, c) \<in> set (parts p) \<Longrightarrow> \<exists>rows. tables p rel = Some rows \<and> (\<forall>r\<in>set rows. fcid r = c) \<and> distinct (map fkey rows)"
    and "\<And>r. r \<in> set (default_rows p) \<Longrightarrow> fcid r \<notin> snd ` set (parts p)" and "distinct (map fkey (default_rows p))"
  shows "pg_ok p"
  using assms by (auto simp: pg_ok_def)

text \<open>A change of tables and partitions of the collection only.\<close>

lemma isolated_change:
  assumes "isolated cid s F p"
    and "filter (\<lambda>(_, c). c \<noteq> cid) (parts p') = filter (\<lambda>(_, c). c \<noteq> cid) (parts p)"
    and "\<And>rel c. (rel, c) \<in> set (parts p) \<Longrightarrow> c \<noteq> cid \<Longrightarrow> tables p' rel = tables p rel"
    and "filter (\<lambda>r. fcid r \<noteq> cid) (default_rows p') = filter (\<lambda>r. fcid r \<noteq> cid) (default_rows p)"
    and "pg_ok p'" and "\<And>rows r. tables p' s = Some rows \<Longrightarrow> r \<in> set rows \<Longrightarrow> fcid r = cid" and "mine cid s p'"
  shows "isolated cid s F p'"
proof -
  have "map (\<lambda>(rel, c). (c, tables p' rel)) (filter (\<lambda>(_, c). c \<noteq> cid) (parts p)) =
      map (\<lambda>(rel, c). (c, tables p rel)) (filter (\<lambda>(_, c). c \<noteq> cid) (parts p))"
    using assms(3) by (auto intro!: map_cong)
  then have "elsewhere cid p' = elsewhere cid p" by (simp only: elsewhere_def assms(2,4))
  then have "elsewhere cid p' = F" using assms(1) by (simp add: isolated_def)
  moreover have "unambiguous p' cid"
  proof -
    have "(rel, c) \<in> set (parts p)" if "(rel, c) \<in> set (parts p')" "c \<noteq> cid" for rel c
    proof -
      have "(rel, c) \<in> set (filter (\<lambda>(_, c). c \<noteq> cid) (parts p'))" using that by simp
      then show ?thesis unfolding assms(2) by simp
    qed
    then show ?thesis using assms(1) unfolding unambiguous_def isolated_def by blast
  qed
  ultimately show ?thesis using assms(5-7) by (auto simp: isolated_def mine_def)
qed

lemma isolated_drop:
  assumes "isolated cid s F p" and "mine cid rel p"
  shows "isolated cid s F (p\<lparr>tables := (tables p)(rel := None), parts := filter (\<lambda>(r, _). r \<noteq> rel) (parts p)\<rparr>)"
    and "isolated cid s F (p\<lparr>parts := filter (\<lambda>(r, _). r \<noteq> rel) (parts p)\<rparr>)"
proof -
  have ok: "pg_ok p" using assms(1) by (simp add: isolated_def)
  have f: "filter (\<lambda>(_, c). c \<noteq> cid) (filter (\<lambda>(r, _). r \<noteq> rel) (parts p)) = filter (\<lambda>(_, c). c \<noteq> cid) (parts p)"
    using assms(2) by (auto simp: mine_def intro!: filter_cong)
  have r: "rel' \<noteq> rel" if "(rel', c) \<in> set (parts p)" "c \<noteq> cid" for rel' c using that assms(2) by (auto simp: mine_def)
  show "isolated cid s F (p\<lparr>tables := (tables p)(rel := None), parts := filter (\<lambda>(r, _). r \<noteq> rel) (parts p)\<rparr>)"
  proof (rule isolated_change [OF assms(1)])
    show "pg_ok (p\<lparr>tables := (tables p)(rel := None), parts := filter (\<lambda>(r, _). r \<noteq> rel) (parts p)\<rparr>)"
      using ok by (intro pg_okI) (auto simp: pg_ok_def distinct_map_filter)
  qed (use f r assms(1) in \<open>auto simp: isolated_def mine_def split: if_splits\<close>)
  show "isolated cid s F (p\<lparr>parts := filter (\<lambda>(r, _). r \<noteq> rel) (parts p)\<rparr>)"
  proof (rule isolated_change [OF assms(1)])
    show "pg_ok (p\<lparr>parts := filter (\<lambda>(r, _). r \<noteq> rel) (parts p)\<rparr>)"
      using ok by (intro pg_okI) (auto simp: pg_ok_def distinct_map_filter)
  qed (use f r assms(1) in \<open>auto simp: isolated_def mine_def\<close>)
qed

lemma isolated_attach:
  assumes "isolated cid s F p" and "fst (attach_partition s cid p) = Inr ()"
  shows "isolated cid s F (snd (attach_partition s cid p))"
proof -
  obtain rows where rows: "tables p s = Some rows" using assms(2) by (auto simp: attach_partition_def raise_def split: option.splits)
  then have a: "s \<notin> fst ` set (parts p)" "cid \<notin> snd ` set (parts p)" "cid \<notin> fcid ` set (default_rows p)"
      "\<forall>r\<in>set rows. fcid r = cid" "distinct (map fkey rows)" "snd (attach_partition s cid p) = p\<lparr>parts := parts p @ [(s, cid)]\<rparr>"
    using assms(2) by (simp_all add: attach_partition_def raise_def ret_def split: if_splits)
  have ok: "pg_ok p" using assms(1) by (simp add: isolated_def)
  show ?thesis
    unfolding a(6)
  proof (rule isolated_change [OF assms(1)])
    show "pg_ok (p\<lparr>parts := parts p @ [(s, cid)]\<rparr>)"
      using ok a rows by (intro pg_okI) (auto simp: pg_ok_def)
  qed (use assms(1) in \<open>auto simp: isolated_def mine_def\<close>)
qed

lemma isolated_create:
  assumes "isolated cid s F p" and "fst (create_table_partition rel cid p) = Inr ()"
  shows "isolated cid s F (snd (create_table_partition rel cid p))"
proof -
  have ok: "pg_ok p" using assms(1) by (simp add: isolated_def)
  have a: "tables p rel = None" "cid \<notin> snd ` set (parts p)" "cid \<notin> fcid ` set (default_rows p)"
      "snd (create_table_partition rel cid p) = p\<lparr>tables := (tables p)(rel \<mapsto> []), parts := parts p @ [(rel, cid)]\<rparr>"
    using assms(2) unfolding create_table_partition_def raise_def ret_def by (simp_all split: if_splits)
  have n: "rel' \<noteq> rel" if "(rel', c) \<in> set (parts p)" for rel' c
    using pg_okD [OF ok that] a(1) by (metis option.distinct(1))
  show ?thesis
    unfolding a(4)
  proof (rule isolated_change [OF assms(1)])
    show "pg_ok (p\<lparr>tables := (tables p)(rel \<mapsto> []), parts := parts p @ [(rel, cid)]\<rparr>)"
      using ok a n by (intro pg_okI) (auto simp: pg_ok_def image_iff)
  qed (use assms(1) n in \<open>auto simp: isolated_def mine_def split: if_splits\<close>)
qed

text \<open>New contents for the table of the collection.\<close>

lemma isolated_rows:
  assumes "isolated cid s F p" and "mine cid rel p" and "stageable cid rows"
  shows "isolated cid s F (p\<lparr>tables := (tables p)(rel \<mapsto> rows)\<rparr>)"
proof (rule isolated_change [OF assms(1)])
  have ok: "pg_ok p" using assms(1) by (simp add: isolated_def)
  have row: "\<exists>rows'. ((tables p)(rel \<mapsto> rows)) rel' = Some rows' \<and> (\<forall>r\<in>set rows'. fcid r = c) \<and> distinct (map fkey rows')"
    if "(rel', c) \<in> set (parts p)" for rel' c
  proof (cases "rel' = rel")
    case True
    then show ?thesis using that assms(2,3) by (auto simp: mine_def stageable_def)
  next
    case False
    then show ?thesis using pg_okD [OF ok that] by (metis fun_upd_other)
  qed
  show "pg_ok (p\<lparr>tables := (tables p)(rel \<mapsto> rows)\<rparr>)"
    using ok row by (intro pg_okI) (auto simp: pg_ok_def)
  show "fcid r = cid" if "tables (p\<lparr>tables := (tables p)(rel \<mapsto> rows)\<rparr>) s = Some rows'" "r \<in> set rows'" for rows' r
    using that assms(1,3) by (cases "s = rel") (auto simp: isolated_def stageable_def)
qed (use assms in \<open>auto simp: isolated_def mine_def\<close>)

lemma isolated_insert:
  assumes "isolated cid s F p" and "fcid r = cid" and "fst (insert_feature r p) = Inr ()"
  shows "isolated cid s F (snd (insert_feature r p))"
proof (cases "find (\<lambda>(_, c). c = fcid r) (parts p)")
  case None
  then have n: "cid \<notin> snd ` set (parts p)" using assms(2) by (auto simp: find_None_iff)
  have k: "fkey r \<notin> fkey ` set (default_rows p)" and e: "snd (insert_feature r p) = p\<lparr>default_rows := default_rows p @ [r]\<rparr>"
    using assms(3) None by (auto simp: insert_feature_def raise_def ret_def split: if_splits)
  have ok: "pg_ok p" using assms(1) by (simp add: isolated_def)
  show ?thesis
    unfolding e
  proof (rule isolated_change [OF assms(1)])
    show "pg_ok (p\<lparr>default_rows := default_rows p @ [r]\<rparr>)" using ok k n assms(2) by (intro pg_okI) (auto simp: pg_ok_def)
  qed (use assms(1,2) in \<open>auto simp: isolated_def mine_def\<close>)
next
  case (Some q)
  obtain rel c where q: "q = (rel, c)" by (cases q)
  have rel: "(rel, cid) \<in> set (parts p)" using find_SomeD [OF Some] assms(2) q by auto
  have ok: "pg_ok p" using assms(1) by (simp add: isolated_def)
  have m: "mine cid rel p" using pg_ok_same_rel [OF ok rel] by (auto simp: mine_def)
  obtain rows where rows: "tables p rel = Some rows" "\<forall>r\<in>set rows. fcid r = cid" "distinct (map fkey rows)" using pg_okD [OF ok rel] .
  have k: "fkey r \<notin> fkey ` set rows" and e: "snd (insert_feature r p) = p\<lparr>tables := (tables p)(rel \<mapsto> rows @ [r])\<rparr>"
    using assms(3) Some q rows(1) by (auto simp: insert_feature_def raise_def ret_def split: if_splits)
  show ?thesis
    unfolding e using rows k assms(2) by (intro isolated_rows [OF assms(1) m]) (auto simp: stageable_def)
qed

lemma isolated_delete_default:
  "isolated cid s F p \<Longrightarrow> isolated cid s F (p\<lparr>default_rows := filter (\<lambda>r. fcid r \<noteq> cid) (default_rows p)\<rparr>)"
proof (rule isolated_change)
  assume i: "isolated cid s F p"
  then have ok: "pg_ok p" by (simp add: isolated_def)
  show "pg_ok (p\<lparr>default_rows := filter (\<lambda>r. fcid r \<noteq> cid) (default_rows p)\<rparr>)"
    using ok by (intro pg_okI) (auto simp: pg_ok_def distinct_map_filter)
qed (auto simp: isolated_def mine_def)

section \<open>Programs\<close>

named_theorems isolation_intros \<open>programs that work on one collection only\<close>

lemma isolated_faults [simp]: "isolated cid s F (p\<lparr>faults := fs\<rparr>) = isolated cid s F p"
  by (simp add: isolated_def elsewhere_def)

text \<open>Being isolated does not depend on what the catalogue keeps besides rows and partitions.\<close>

lemma isolated_catalog [simp]:
  "isolated cid s F (p\<lparr>unlogged := u\<rparr>) = isolated cid s F p" "isolated cid s F (p\<lparr>checks := k\<rparr>) = isolated cid s F p"
  "isolated cid s F (forget_table rel p) = isolated cid s F p"
  by (simp_all add: isolated_def elsewhere_def forget_table_def pg_ok_def unambiguous_def)

lemma preserves_catalog:
  "preserves (isolated cid s F) (staging_is_unlogged rel)" "preserves (isolated cid s F) (set_logged rel)"
  "preserves (isolated cid s F) (add_bound_check rel k c)"
  by (auto simp: triple_def staging_is_unlogged_def set_logged_def add_bound_check_def gets_def modify_def bnd_def select_rows_def
      raise_def ret_def split: option.split)

lemma preserves_tx [isolation_intros]: "preserves (isolated cid s F) m \<Longrightarrow> preserves (isolated cid s F) (tx m)"
proof (rule preservesI)
  fix p assume m: "preserves (isolated cid s F) m" and p: "isolated cid s F p"
  have "isolated cid s F (snd (all_or_nothing m q))" if "isolated cid s F q" for q
    using preservesD [OF m that] that by (auto simp: all_or_nothing_def split: prod.split sum.split)
  then show "isolated cid s F (snd (tx m p))"
    using p by (simp add: tx_def split: list.split option.split)
qed

lemma raise_unchanged:
  "fst (attach_partition rel c p) = Inl e \<Longrightarrow> snd (attach_partition rel c p) = p"
  "fst (create_table_partition rel c p) = Inl e \<Longrightarrow> snd (create_table_partition rel c p) = p"
  "fst (insert_feature r p) = Inl e \<Longrightarrow> snd (insert_feature r p) = p"
  by (auto simp: attach_partition_def create_table_partition_def insert_feature_def raise_def ret_def split: option.splits if_splits)

lemma preserves_attach [isolation_intros]: "preserves (isolated cid s F) (attach_partition s cid)"
  by (rule preservesI) (metis isolated_attach raise_unchanged(1) old.sum.exhaust old.unit.exhaust)

lemma preserves_create [isolation_intros]: "preserves (isolated cid s F) (create_table_partition rel cid)"
  by (rule preservesI) (metis isolated_create raise_unchanged(2) old.sum.exhaust old.unit.exhaust)

lemma preserves_insert [isolation_intros]: "fcid r = cid \<Longrightarrow> preserves (isolated cid s F) (insert_feature r)"
  by (rule preservesI) (metis isolated_insert raise_unchanged(3) old.sum.exhaust old.unit.exhaust)

lemma preserves_inserts: "\<forall>r\<in>set rows. fcid r = cid \<Longrightarrow> preserves (isolated cid s F) (insert_features rows)"
  unfolding insert_features_def by (rule triple_for_each) (simp add: preserves_insert)

lemma triple_select:
  "triple (isolated cid s F) (select_rows s) (\<lambda>rows p. isolated cid s F p \<and> (\<forall>r\<in>set rows. fcid r = cid)) (\<lambda>_. isolated cid s F)"
  by (auto simp: triple_def select_rows_def raise_def ret_def isolated_def split: option.split)

lemma preserves_reads [isolation_intros]:
  "preserves (isolated cid s F) (table_exists rel)" "preserves (isolated cid s F) (partition_is_attached rel)"
  "preserves (isolated cid s F) (resolve_features_partition_relname c)" "preserves (isolated cid s F) (gets f)"
  "preserves (isolated cid s F) (select_rows rel)" "preserves (isolated cid s F) (ret a)" "preserves (isolated cid s F) (raise e)"
  by (auto simp: triple_def table_exists_def partition_is_attached_def resolve_features_partition_relname_def gets_def
      select_rows_def raise_def ret_def split: option.split)

lemma isolated_mine: "isolated cid s F p \<Longrightarrow> mine cid s p"
  by (simp add: isolated_def mine_def)

lemma preserves_drop [isolation_intros]:
  "preserves (isolated cid s F) (drop_table_if_exists s)" "preserves (isolated cid s F) (detach_partition s)"
  "preserves (isolated cid s F) (delete_default cid)" "preserves (isolated cid s F) (drop_orphan_detached_partition s' c)"
proof -
  show "preserves (isolated cid s F) (drop_orphan_detached_partition s' c)"
  proof (rule preservesI)
    fix p assume p: "isolated cid s F p"
    have "isolated cid s F (p\<lparr>tables := (tables p)(c := None)\<rparr>)" if "c \<notin> fst ` set (parts p)"
    proof -
      have "filter (\<lambda>(r, _). r \<noteq> c) (parts p) = parts p" "mine cid c p"
        using that by (auto simp: filter_id_conv image_iff mine_def)
      then show ?thesis using isolated_drop(1) [OF p, of c] by simp
    qed
    then show "isolated cid s F (snd (drop_orphan_detached_partition s' c p))" using p by (simp add: drop_orphan_eval)
  qed
qed (auto intro!: preservesI isolated_drop isolated_mine isolated_delete_default
      simp: drop_table_if_exists_def detach_partition_def delete_default_def modify_def)

lemma preserves_comb:
  "preserves I m \<Longrightarrow> (\<And>a. preserves I (f a)) \<Longrightarrow> preserves I (bnd m f)"
  "preserves I m' \<Longrightarrow> (\<And>e. preserves I (h e)) \<Longrightarrow> preserves I (catch m' h)"
  by (rule triple_bnd, assumption, blast) (rule triple_catch, assumption, blast)

lemmas isolation_comb = preserves_comb triple_if triple_case_option

lemma triple_pure: "(b \<Longrightarrow> triple P m Q E) \<Longrightarrow> triple (\<lambda>w. P w \<and> b) m Q E"
  by (auto simp: triple_def)

lemma triple_default_rows:
  "triple (isolated cid s F) (gets (\<lambda>p. filter (\<lambda>r. fcid r = cid) (default_rows p)))
     (\<lambda>rows p. isolated cid s F p \<and> (\<forall>r\<in>set rows. fcid r = cid)) (\<lambda>_. isolated cid s F)"
  by (auto intro!: triple_gets)

lemma preserves_migrate [isolation_intros]: "preserves (isolated cid s F) (migrate_default_rows_to_partition cid)"
  unfolding migrate_default_rows_to_partition_def
  by (intro triple_bnd [OF triple_default_rows] triple_pure triple_bnd [OF preserves_inserts] isolation_intros)

lemma preserves_create_partition [isolation_intros]: "preserves (isolated cid s F) (create_partition h cid)"
  unfolding create_partition_def by (intro isolation_intros isolation_comb)

lemma preserves_ensure [isolation_intros]: "preserves (isolated cid s F) (ensure_features_partition_sync h cid)"
proof -
  have new: "preserves (isolated cid s F) (bnd (gets (\<lambda>p. filter (\<lambda>r. fcid r = cid) (default_rows p))) f)"
    if "\<And>rows. \<forall>r\<in>set rows. fcid r = cid \<Longrightarrow> preserves (isolated cid s F) (f rows)" for f :: "_ \<Rightarrow> (pg, string) prog"
    using that by (intro triple_bnd [OF triple_default_rows] triple_pure)
  show ?thesis
    unfolding ensure_features_partition_sync_def resolve_features_partition_relname_sync_def Let_def
    by (rule new | rule isolation_intros isolation_comb | rule preserves_inserts, assumption)+
qed

lemma preserves_prepare_attach [isolation_intros]: "preserves (isolated cid s F) (prepare_staging_for_attach_sync c rel)"
  unfolding prepare_staging_for_attach_sync_def by (intro isolation_intros isolation_comb preserves_catalog)

lemma preserves_swap_body [isolation_intros]: "preserves (isolated cid s F) (swap_body h cid s)"
proof -
  have res: "triple (isolated cid s F) (resolve_features_partition_relname cid)
      (\<lambda>old p. isolated cid s F p \<and> (\<forall>rel. old = Some rel \<longrightarrow> (rel, cid) \<in> set (parts p))) (\<lambda>_. isolated cid s F)"
  proof -
    have "(rel, cid) \<in> set (parts p)" if "find (\<lambda>q. snd q = cid) (parts p) = Some (rel, c)" for rel c and p :: pg
      using find_SomeD [OF that] by auto
    then show ?thesis by (auto simp: triple_def isolated_def resolve_eval)
  qed
  have drop: "triple (\<lambda>p. isolated cid s F p \<and> (\<forall>r. old = Some r \<longrightarrow> (r, cid) \<in> set (parts p)))
      (case old of None \<Rightarrow> ret () | Some rel \<Rightarrow> bnd (detach_partition rel) (\<lambda>_. drop_table_if_exists rel))
      (\<lambda>_. isolated cid s F) (\<lambda>_. isolated cid s F)" for old
  proof (cases old)
    case (Some rel)
    have "isolated cid s F (snd (bnd (detach_partition rel) (\<lambda>_. drop_table_if_exists rel) p))"
      if p: "isolated cid s F p" and rel: "(rel, cid) \<in> set (parts p)" for p
    proof -
      have "mine cid rel p" using pg_ok_same_rel [OF _ rel] p by (auto simp: isolated_def mine_def)
      from isolated_drop(1) [OF p this] show ?thesis by (simp add: bnd_def detach_partition_def drop_table_if_exists_def modify_def)
    qed
    then show ?thesis using Some by (simp add: triple_def bnd_def detach_partition_def drop_table_if_exists_def modify_def)
  qed (simp add: triple_def ret_def)
  note tail = triple_bnd [OF drop preserves_comb(1) [OF preserves_drop(4) preserves_attach]]
  have first: "triple (\<lambda>p. isolated cid s F p \<and> (\<forall>rel. old = Some rel \<longrightarrow> (rel, cid) \<in> set (parts p)))
      (drop_orphan_detached_partition s c) (\<lambda>_. isolated cid s F) (\<lambda>_. isolated cid s F)" for old c
    by (rule triple_weaken [OF preserves_drop(4)]) auto
  show ?thesis
    unfolding swap_body_def
    by (rule preserves_comb(1) [OF preserves_drop(3)] preserves_comb(1) [OF preserves_reads(2)] triple_if preserves_drop(4)
        triple_bnd [OF res] first tail)+
qed

lemma preserves_lock_retries [isolation_intros]:
  "preserves (isolated cid s F) m \<Longrightarrow> preserves (isolated cid s F) (with_lock_retries n m)"
  by (induction n) (auto intro!: isolation_intros isolation_comb)

lemma preserves_swap [isolation_intros]: "preserves (isolated cid s F) (swap_staging_into_collection_partition_sync h n cid s)"
  unfolding swap_staging_into_collection_partition_sync_def by (intro isolation_intros isolation_comb)

lemma preserves_append [isolation_intros]: "preserves (isolated cid s F) (append_promote s)"
  unfolding append_promote_def
  by (intro preserves_tx triple_bnd [OF triple_select] triple_pure preserves_inserts)

lemma preserves_already_complete [isolation_intros]: "preserves (isolated cid s F) (partition_swap_already_complete_sync c rel)"
  unfolding partition_swap_already_complete_sync_def by (intro isolation_intros isolation_comb)

text \<open>The operations on the staging table of a job.\<close>

lemma preserves_staging_reads [isolation_intros]:
  "preserves (isolated cid s F) (staging_row_count_sync job)" "preserves (isolated cid s F) (staging_duplicate_count_sync job)"
  "preserves (isolated cid s F) (staging_table_exists_sync job)"
  unfolding staging_row_count_sync_def staging_duplicate_count_sync_def staging_table_exists_sync_def
  by (intro isolation_intros)+

lemma preserves_drop_staging [isolation_intros]: "preserves (isolated cid (staging_table_name job) F) (drop_staging_table_sync job)"
  unfolding drop_staging_table_sync_def by (intro isolation_intros)

lemma preserves_dedupe [isolation_intros]: "preserves (isolated cid (staging_table_name job) F) (dedupe_staging_table_sync job)"
proof -
  let ?s = "staging_table_name job"
  have "isolated cid ?s F (p\<lparr>tables := (tables p)(?s \<mapsto> newest_rows rows)\<rparr>)"
    if p: "isolated cid ?s F p" and "tables p ?s = Some rows" for p rows
  proof (rule isolated_rows [OF p isolated_mine [OF p]])
    show "stageable cid (newest_rows rows)"
      using that newest_subset [of rows] newest_rows_distinct [of rows] by (auto simp: isolated_def stageable_def)
  qed
  then show ?thesis
    unfolding dedupe_staging_table_sync_def Let_def
    by (intro preserves_tx) (auto simp: triple_def ret_def split: option.split)
qed

lemma preserves_prepare [isolation_intros]: "preserves (isolated cid (staging_table_name job) F) (prepare_staging_for_promote_sync job)"
  unfolding prepare_staging_for_promote_sync_def by (intro isolation_intros isolation_comb)

lemma preserves_case_exn:
  "(\<And>m. preserves I (f m)) \<Longrightarrow> preserves I g \<Longrightarrow> preserves I (case e of IntegrityError m \<Rightarrow> f m | _ \<Rightarrow> g)"
  "(\<And>m. preserves I (f m)) \<Longrightarrow> preserves I g \<Longrightarrow> preserves I (case e of StagingDuplicateUnrecoverable m \<Rightarrow> f m | _ \<Rightarrow> g)"
  "(\<And>m. preserves I (f m)) \<Longrightarrow> preserves I b \<Longrightarrow> preserves I g \<Longrightarrow>
     preserves I (case e of BulkImportCancelled \<Rightarrow> b | StagingDuplicateUnrecoverable m \<Rightarrow> f m | _ \<Rightarrow> g)"
  by (cases e; simp)+

lemma preserves_recovery [isolation_intros]:
  "preserves (isolated cid (staging_table_name job) F) m \<Longrightarrow> preserves (isolated cid (staging_table_name job) F) (promote_with_staging_recovery job m)"
  unfolding promote_with_staging_recovery_def by (intro isolation_intros isolation_comb preserves_case_exn)

lemma preserves_promote [isolation_intros]:
  "preserves (isolated cid (staging_table_name job) F) (promote_staging_sync h n cid job mode)"
  unfolding promote_staging_sync_def Let_def by (intro isolation_intros isolation_comb)

lemma preserves_cleanup_failed [isolation_intros]:
  "preserves (isolated cid (staging_table_name job) F) (cleanup_failed_staging_import_sync h job cid)"
  unfolding cleanup_failed_staging_import_sync_def Let_def by (intro isolation_intros isolation_comb)

end
