(* ===== verification/Finalize_Worker.thy ===== *)
theory Finalize_Worker
  imports Import_World Staging_Isolation
begin

text \<open>
  \<^verbatim>\<open>app/services/bulk_finalize_worker.py\<close>, with \<^verbatim>\<open>abandon_staging_finalize_job\<close> of \<^verbatim>\<open>bulk_staging_recovery.py\<close> and the
  tile build hook of \<^verbatim>\<open>bulk_worker.py\<close>: one message of the finalize queue is one call of
  \<^verbatim>\<open>process_bulk_finalize_job\<close>, which promotes the staging table of the job, refreshes the collection's row, closes the
  job, and on an error leaves the job to be tried again.

  \<open>h\<close> is the hash that shortens table names, \<open>n\<close> the number of attempts that fit before the deadline of
  the swap, \<open>ext\<close> the PostGIS computation of the extent. In the texts written to a job the ellipsis and the
  dash are ASCII.

  Shown: what a successful run leaves in the database, in the job, in the queue state and in the lock of the collection;
  that, returning or raising, it keeps every other collection, when no other collection's id differs from the job's in spaces only; that
  the message is put back with the next attempt number. A duplicate key is recognised by the message of the error alone.
\<close>

section \<open>Definitions\<close>

definition finalize_backoff_seconds :: "settings \<Rightarrow> int \<Rightarrow> rat \<Rightarrow> rat" where
  "finalize_backoff_seconds cfg attempt u =
     (let base = max 1 (or_default (bulk_finalize_retry_base_seconds cfg) 2);
          cap = max base (or_default (bulk_finalize_retry_max_seconds cfg) 120)
      in retry_wait_seconds (max 1 attempt) base cap u)"

definition duplicate_give_up_attempts :: "settings \<Rightarrow> int" where
  "duplicate_give_up_attempts cfg = max 1 (or_default (bulk_finalize_duplicate_give_up_attempts cfg) 3)"

text \<open>The update of status, message and both counts that the worker makes in every branch.\<close>

definition job_state :: "string \<Rightarrow> string \<Rightarrow> int \<Rightarrow> int \<Rightarrow> job_update" where
  "job_state st msg created failed =
     no_update\<lparr>u_status := Some st, u_message := Some msg, u_items_created := Some created, u_items_failed := Some failed\<rparr>"

definition abandon_staging_finalize_job ::
    "'s redis \<Rightarrow> settings \<Rightarrow> (string \<Rightarrow> string) \<Rightarrow> string \<Rightarrow> string \<Rightarrow> string \<Rightarrow> int \<Rightarrow> int \<Rightarrow> ('s fenv, unit) prog" where
  "abandon_staging_finalize_job srv cfg h job_id cid reason created failed =
     bnd (on_pg (cleanup_failed_staging_import_sync h job_id cid)) (\<lambda>_.
     bnd (remove_finalize_from_queue srv cfg job_id) (\<lambda>_.
     bnd (clear_finalize_pending srv cfg job_id) (\<lambda>_.
     bnd (unregister_bulk_import_job srv cfg job_id) (\<lambda>_.
     bnd (update_job srv cfg job_id (job_state ''failed''
            (take 2000 (''Bulk import abandoned: '' @ reason @ '' '' @ ''Staging was removed - please re-import this file.''))
            created failed)) (\<lambda>_.
     ret ())))))"

text \<open>\<^verbatim>\<open>{c.strip() for c in raw.split(",") if c.strip()}\<close>.\<close>

definition allowed_collections :: "string \<Rightarrow> string list" where
  "allowed_collections raw = filter (\<lambda>c. c \<noteq> '''') (map py_strip (split_max (length raw) CHR '','' raw))"

definition queue_tile_build_if_requested :: "'s redis \<Rightarrow> settings \<Rightarrow> string \<Rightarrow> int option \<Rightarrow> bool \<Rightarrow> ('s fenv, unit) prog" where
  "queue_tile_build_if_requested srv cfg cid owner_id queue_requested =
     (if \<not> queue_requested \<or> bulk_queue_type cfg \<noteq> ''redis'' then ret ()
      else
        let allowed = allowed_collections (py_strip (bulk_auto_tile_build_collections cfg)) in
        if allowed = [] \<or> cid \<notin> set allowed then ret ()
        else catch
          (bnd (create_tile_build_job srv cfg cid owner_id) (\<lambda>tile_job.
           bnd (update_tile_build_job srv cfg (j_job_id tile_job) None (Some ''Tile build'')) (\<lambda>_.
           bnd (enqueue_tile_build srv cfg cid (j_job_id tile_job) None False) (\<lambda>_. ret ()))))
          (\<lambda>_. ret ()))"

text \<open>The end of every branch in which the job is done with.\<close>

definition close_job :: "'s redis \<Rightarrow> settings \<Rightarrow> string \<Rightarrow> ('s fenv, unit) prog" where
  "close_job srv cfg job_id = bnd (clear_finalize_pending srv cfg job_id) (\<lambda>_. unregister_bulk_import_job srv cfg job_id)"

text \<open>The body of the \<^verbatim>\<open>try\<close> statement.\<close>

definition finalize_body ::
    "'s redis \<Rightarrow> settings \<Rightarrow> (string \<Rightarrow> string) \<Rightarrow> nat \<Rightarrow> (string \<Rightarrow> ('s fenv, unit) prog) \<Rightarrow> BulkFinalizePayload \<Rightarrow> ('s fenv, unit) prog" where
  "finalize_body srv cfg h n ext p =
     bnd (on_pg (staging_row_count_sync (f_job_id p))) (\<lambda>staged.
     if staged \<le> 0
     then bnd (update_job srv cfg (f_job_id p) (job_state ''completed'' ''Finalize skipped: staging table empty (already promoted?).''
                (f_items_created p) (f_items_failed p))) (\<lambda>_. close_job srv cfg (f_job_id p))
     else
       bnd (update_job srv cfg (f_job_id p) (job_state ''finalizing''
              (''Swapping '' @ commas staged @ '' staged features into live partition...'')
              (or_default (f_items_created p) staged) (f_items_failed p))) (\<lambda>_.
       bnd (catch (bnd (on_pg (prepare_staging_for_promote_sync (f_job_id p))) (\<lambda>_. ret True))
              (\<lambda>e. case e of
                 StagingDuplicateUnrecoverable m \<Rightarrow>
                   bnd (abandon_staging_finalize_job srv cfg h (f_job_id p) (f_collection_id p) m
                     (or_default (f_items_created p) staged) (f_items_failed p)) (\<lambda>_. ret False)
               | _ \<Rightarrow> raise e)) (\<lambda>prepared.
       if \<not> prepared then ret ()
       else
         bnd (on_pg (promote_staging_sync h n (f_collection_id p) (f_job_id p) (f_mode p))) (\<lambda>count.
         bnd (finalize_after_promote cfg ext (f_collection_id p)) (\<lambda>_.
         let total = or_default count (or_default (f_items_created p) staged) in
         bnd (update_job srv cfg (f_job_id p) (job_state ''completed''
                (''Imported '' @ commas total @ '' features.'' @
                  (if f_items_failed p = 0 then '''' else '' '' @ int_str (f_items_failed p) @ '' failed.''))
                total (f_items_failed p))) (\<lambda>_.
         bnd (close_job srv cfg (f_job_id p)) (\<lambda>_.
         queue_tile_build_if_requested srv cfg (f_collection_id p) (f_owner_id p) (f_queue_compute_tiles p))))))))"

text \<open>The last \<^verbatim>\<open>except\<close> clause: give up on duplicates that come back, otherwise record the error and re-raise.\<close>

definition finalize_failed ::
    "'s redis \<Rightarrow> settings \<Rightarrow> (string \<Rightarrow> string) \<Rightarrow> BulkFinalizePayload \<Rightarrow> exn \<Rightarrow> ('s fenv, unit) prog" where
  "finalize_failed srv cfg h p e =
     (let err = exn_line e;
          abandon = (\<lambda>reason. abandon_staging_finalize_job srv cfg h (f_job_id p) (f_collection_id p) reason
                       (f_items_created p) (f_items_failed p));
          retry_later =
            bnd (record_finalize_error srv cfg (f_job_id p) err (f_attempt p)) (\<lambda>_.
            bnd (update_job srv cfg (f_job_id p) (job_state ''finalizing''
                   (''Partition swap failed (attempt '' @ int_str (f_attempt p + 1) @ ''); will retry automatically. '' @ take 300 err)
                   (f_items_created p) (f_items_failed p))) (\<lambda>_.
            raise e))
      in if \<not> is_staging_pk_duplicate_error (message_of e) then retry_later
         else
           bnd (catch (bnd (on_pg (prepare_staging_for_promote_sync (f_job_id p))) (\<lambda>_. ret True))
                  (\<lambda>d. case d of StagingDuplicateUnrecoverable m \<Rightarrow> bnd (abandon m) (\<lambda>_. ret False) | _ \<Rightarrow> raise d)) (\<lambda>prepared.
           if \<not> prepared then ret ()
           else if duplicate_give_up_attempts cfg \<le> f_attempt p
           then abandon (''Duplicate staging primary keys persisted after '' @ int_str (f_attempt p + 1) @
                         '' finalize attempts. '' @ take 200 err)
           else retry_later))"

definition process_bulk_finalize_job ::
    "'s redis \<Rightarrow> settings \<Rightarrow> (string \<Rightarrow> string) \<Rightarrow> nat \<Rightarrow> (string \<Rightarrow> ('s fenv, unit) prog) \<Rightarrow> BulkFinalizePayload \<Rightarrow> ('s fenv, unit) prog" where
  "process_bulk_finalize_job srv cfg h n ext p =
     bnd (get_job srv cfg (f_job_id p)) (\<lambda>job.
     if (case job of None \<Rightarrow> False | Some j \<Rightarrow> j_status j = ''cancelled'')
     then bnd (on_pg (drop_staging_table_sync (f_job_id p))) (\<lambda>_. close_job srv cfg (f_job_id p))
     else catch (finalize_body srv cfg h n ext p) (\<lambda>e. case e of
       BulkImportCancelled \<Rightarrow>
         bnd (catch (on_pg (drop_staging_table_sync (f_job_id p))) (\<lambda>_. ret ())) (\<lambda>_. close_job srv cfg (f_job_id p))
     | StagingDuplicateUnrecoverable m \<Rightarrow>
         abandon_staging_finalize_job srv cfg h (f_job_id p) (f_collection_id p) m (f_items_created p) (f_items_failed p)
     | _ \<Rightarrow> finalize_failed srv cfg h p e))"

definition requeue_finalize_after_failure :: "'s redis \<Rightarrow> settings \<Rightarrow> BulkFinalizePayload \<Rightarrow> ('s fenv, BulkFinalizePayload) prog" where
  "requeue_finalize_after_failure srv cfg p =
     (let p' = p\<lparr>f_attempt := f_attempt p + 1\<rparr> in
      bnd (enqueue_finalize srv cfg p' True) (\<lambda>_. ret p'))"

section \<open>One collection at a time\<close>

named_theorems apart_intros \<open>programs of the worker that keep the other collections\<close>

lemma preserves_on_pg [apart_intros]: "preserves I m \<Longrightarrow> preserves (\<lambda>w. I (pgdb w)) (on_pg m)"
  by (rule preservesI) (auto simp: on_pg_def dest: preservesD split: prod.split)

lemma keeps_preserves: "keeps outside_redis m \<Longrightarrow> preserves (\<lambda>w. I (pgdb w)) m"
  by (rule preservesI) (metis keepsD outside_redis_def prod.inject)

lemma preserves_collection_row [apart_intros]:
  "preserves (\<lambda>w. isolated cid s F (pgdb w)) (update_collection_row c f)"
  unfolding update_collection_row_def
  by (intro preserves_comb preserves_on_pg isolation_intros) (auto intro!: triple_modify split: option.split)

lemma preserves_db_retry [apart_intros]: "preserves I m \<Longrightarrow> preserves I (run_db_retry cfg m)"
proof -
  assume m: "preserves I m"
  have "preserves I (db_retry_loop n m)" for n
    by (induction n) (auto intro!: m isolation_comb triple_raise)
  then show ?thesis by (simp add: run_db_retry_def)
qed

lemma preserves_plain [apart_intros]: "preserves I (ret a)" "preserves I (raise e)"
  by (simp_all add: triple_ret triple_raise)

lemma preserves_after_promote [apart_intros]:
  "keeps pgdb (ext c) \<Longrightarrow> preserves (\<lambda>w. isolated cid s F (pgdb w)) (finalize_after_promote cfg ext c)"
  unfolding finalize_after_promote_def update_feature_count_sync_def refresh_collection_features_last_updated_sync_def Let_def
  by (intro apart_intros isolation_comb; rule preservesI; simp add: keeps_def)

lemma keeps_close [keeps_intros]: "keeps outside_redis (close_job srv cfg i)" "keeps outside_redis (queue_tile_build_if_requested srv cfg c o' b)"
  unfolding close_job_def queue_tile_build_if_requested_def by (intro keeps_intros)+

lemma preserves_abandon [apart_intros]:
  "preserves (\<lambda>w. isolated cid (staging_table_name i) F (pgdb w)) (abandon_staging_finalize_job srv cfg h i cid reason a b)"
  unfolding abandon_staging_finalize_job_def
  by (intro apart_intros isolation_intros isolation_comb keeps_preserves keeps_intros)

lemma process_isolated:
  assumes "keeps pgdb (ext (f_collection_id p))"
  shows "preserves (\<lambda>w. isolated (f_collection_id p) (staging_table_name (f_job_id p)) F (pgdb w))
    (process_bulk_finalize_job srv cfg h n ext p)"
  unfolding process_bulk_finalize_job_def finalize_body_def finalize_failed_def Let_def
  by (intro preserves_after_promote apart_intros isolation_intros isolation_comb preserves_case_exn keeps_preserves keeps_intros assms)

section \<open>A run without faults\<close>

lemma on_pg_run: "m (pgdb w) = (r, p) \<Longrightarrow> on_pg m w = (r, w\<lparr>pgdb := p\<rparr>)"
  by (simp add: on_pg_def)

lemma update_collection_row_run:
  assumes "faults (pgdb w) = []"
  shows "update_collection_row cid f w = (Inr (), case coll_rows w cid of None \<Rightarrow> w
     | Some row \<Rightarrow> w\<lparr>coll_rows := (coll_rows w)(cid \<mapsto> f (features_of (pgdb w) cid) row)\<rparr>)"
proof -
  have "on_pg (tx (gets (\<lambda>p. features_of p cid))) w = (Inr (features_of (pgdb w) cid), w)"
    using tx_done [OF assms, of "gets (\<lambda>p. features_of p cid)"] by (simp add: on_pg_def gets_def)
  then show ?thesis by (simp add: update_collection_row_def bnd_def modify_def)
qed

lemma run_db_retry_done: "m w = (Inr a, w') \<Longrightarrow> run_db_retry cfg m w = (Inr a, w')"
proof -
  assume m: "m w = (Inr a, w')"
  have "db_retry_loop n m w = (Inr a, w')" for n
    by (cases n) (simp_all add: m catch_def)
  then show ?thesis by (simp add: run_db_retry_def)
qed

lemma after_promote_run:
  assumes "faults (pgdb w) = []" and "bulk_extent_update_mode cfg = ''deferred''"
  obtains w' where "finalize_after_promote cfg ext cid w = (Inr (), w')" "pgdb w' = pgdb w" "clock w' = clock w" "ticks w' = ticks w" "rds w' = rds w"
    "map_option fst (coll_rows w' cid) = map_option (\<lambda>_. int (card (fid ` set (features_of (pgdb w) cid)))) (coll_rows w cid)"
proof -
  let ?f = "\<lambda>rows (_ :: int, t :: int option). (int (length (remdups (map fid rows))), t)"
  obtain w1 where w1: "update_feature_count_sync cfg cid w = (Inr (), w1)" "pgdb w1 = pgdb w" "clock w1 = clock w" "ticks w1 = ticks w"
    "rds w1 = rds w" "map_option fst (coll_rows w1 cid) = map_option (\<lambda>_. int (card (fid ` set (features_of (pgdb w) cid)))) (coll_rows w cid)"
    using run_db_retry_done [where m = "update_collection_row cid ?f" and w = w and cfg = cfg] update_collection_row_run [OF assms(1), of cid ?f]
    by (auto simp: update_feature_count_sync_def length_remdups_card_conv split: option.splits)
  have "\<exists>w'. (if bulk_skip_features_touch_trigger cfg then refresh_collection_features_last_updated_sync cid else ret ()) w1 = (Inr (), w') \<and>
      pgdb w' = pgdb w1 \<and> clock w' = clock w1 \<and> ticks w' = ticks w1 \<and> rds w' = rds w1 \<and>
      map_option fst (coll_rows w' cid) = map_option fst (coll_rows w1 cid)"
    using update_collection_row_run [of w1 cid] assms(1) w1(2)
    by (auto simp: refresh_collection_features_last_updated_sync_def ret_def split: option.splits)
  moreover have "py_lower ''deferred'' = ''deferred''" by code_simp
  ultimately show ?thesis
    using that w1 assms(2) by (auto simp: finalize_after_promote_def bnd_def)
qed

context redis_up
begin

lemma update_job_run:
  fixes w :: "'a fenv"
  assumes "uses_redis cfg" and "stored (view (rds w)) i job" and "\<forall>k. naive (clock w k)"
  obtains w' where "update_job srv cfg i (job_state st msg a b) w = (Inr (Some (job_after (clock w (ticks w)) (job_state st msg a b) job)), w')"
    "stored (view (rds w')) i (job_after (clock w (ticks w)) (job_state st msg a b) job)" "outside_redis w' = outside_redis w"
    "\<And>k. k \<noteq> redis_key i \<Longrightarrow> view (rds w') k =
      (if is_terminal (Some st) \<and> k = mutex_key (j_collection_id job) \<and> j_collection_id job \<noteq> [] \<and>
          held_by (view (rds w)) (j_collection_id job) i then None else view (rds w) k)"
proof -
  let ?u = "job_state st msg a b"
  have n: "naive (clock w (ticks w))" "pred_option naive (u_finished_at ?u)" using assms(3) by (simp_all add: job_state_def no_update_def)
  have st: "u_status ?u = Some st" by (simp add: job_state_def)
  have u: "update_job srv cfg i ?u w = update_job_redis srv cfg i ?u w" using assms(1) by (simp add: update_job_def uses_redis_def)
  note r = update_job_redis_stored [OF assms(1,2) n, unfolded st]
  show ?thesis
    using that [of "snd (update_job srv cfg i ?u w)"] r(1,3) r(2) keepsD [OF keeps_job(2), of srv cfg i ?u w]
    unfolding u by (metis prod.collapse)
qed

lemma close_job_run:
  fixes w :: "'a fenv"
  assumes "uses_redis cfg"
  obtains w' where "close_job srv cfg i w = (Inr (), w')" "outside_redis w' = outside_redis w"
    "\<And>k. view (rds w') k = (if k \<in> {dedupe_key i, state_key i, reg_key i} then None else view (rds w) k)"
proof -
  have "fst (close_job srv cfg i w) = Inr ()"
    "view (rds (snd (close_job srv cfg i w))) = (\<lambda>k. if k \<in> {dedupe_key i, state_key i, reg_key i} then None else view (rds w) k)"
    using assms by (auto simp: close_job_def clear_finalize_pending_def unregister_bulk_import_job_def uses_redis_def prog_simps redis_simps)
  then show ?thesis
    using that [of "snd (close_job srv cfg i w)"] keepsD [OF keeps_close(1), of srv cfg i w] by (metis prod.collapse)
qed

end

lemma finalize_key_distinct [simp]:
  "redis_key j \<noteq> dedupe_key i" "redis_key j \<noteq> state_key i" "redis_key j \<noteq> reg_key i"
  "mutex_key c \<noteq> dedupe_key i" "mutex_key c \<noteq> state_key i" "mutex_key c \<noteq> reg_key i"
  by (simp_all add: redis_key_def dedupe_key_def state_key_def reg_key_def mutex_key_def BULK_COLLECTION_MUTEX_PREFIX_def
      FINALIZE_DEDUPE_PREFIX_def FINALIZE_STATE_PREFIX_def BULK_IMPORT_REG_PREFIX_def)

lemma completed_terminal: "is_terminal (Some ''completed'')" "\<not> is_terminal (Some ''finalizing'')"
  by code_simp+

lemma job_after_state:
  "j_status (job_after t (job_state st msg a b) job) = st" "j_items_created (job_after t (job_state st msg a b) job) = a"
  "j_items_failed (job_after t (job_state st msg a b) job) = b" "j_collection_id (job_after t (job_state st msg a b) job) = j_collection_id job"
  by (simp_all add: job_after_def job_state_def no_update_def empty_update_def)

text \<open>What promoting finds in the database, and leaves there.\<close>

definition promotable :: "pg \<Rightarrow> string \<Rightarrow> string \<Rightarrow> frow list \<Rightarrow> bool" where
  "promotable p cid i rows \<longleftrightarrow> pg_ok p \<and> unambiguous p cid \<and> faults p = [] \<and> tables p (staging_table_name i) = Some rows \<and>
     rows \<noteq> [] \<and> (\<forall>r\<in>set rows. fcid r = cid) \<and> staging_table_name i \<notin> fst ` set (parts p)"

lemma newest_fids: "fid ` set (newest_rows rows) = fid ` set rows"
proof
  show "fid ` set rows \<subseteq> fid ` set (newest_rows rows)"
  proof
    fix x assume "x \<in> fid ` set rows"
    then obtain r where r: "r \<in> set rows" "x = fid r" by blast
    obtain s where "s \<in> set (newest_rows rows)" "fkey s = fkey r" using newest_of_key [OF r(1)] by metis
    then show "x \<in> fid ` set (newest_rows rows)" using r(2) by (auto simp: fkey_def image_iff intro!: bexI [of _ s])
  qed
qed (use newest_subset in blast)

lemma prepare_and_promote:
  assumes "promotable p cid i rows"
  obtains k p1 p2 where "prepare_staging_for_promote_sync i p = (Inr k, p1)"
    "promote_staging_sync h n cid i ''replace'' p1 = (Inr (int (length (newest_rows rows))), p2)"
    "features_of p2 cid = newest_rows rows" "\<And>c. c \<noteq> cid \<Longrightarrow> features_of p2 c = features_of p c" "faults p2 = []"
proof -
  let ?s = "staging_table_name i" let ?new = "newest_rows rows"
  let ?p1 = "p\<lparr>tables := (tables p)(?s \<mapsto> ?new)\<rparr>"
  note p = assms [unfolded promotable_def]
  obtain k where k: "prepare_staging_for_promote_sync i p = (Inr k, ?p1)" using prepare_staging_eval [of p i rows] p by blast
  have ok: "pg_ok ?p1" using p by (intro pg_ok_other_table) simp_all
  have un: "unambiguous ?p1 cid" using p by (simp add: unambiguous_def)
  have ne: "?new \<noteq> []" using newest_fids [of rows] p by (metis image_is_empty set_empty)
  have in_cid: "\<forall>r\<in>set ?new. fcid r = cid" using p newest_subset [of rows] by auto
  have nn: "newest_rows ?new = ?new" by (rule newest_rows_id) (rule newest_rows_distinct)
  obtain p2 where p2: "promote_staging_sync h n cid i ''replace'' ?p1 = (Inr (int (length ?new)), p2)"
      "swapped ?p1 p2 ?s cid ?new" "faults p2 = []" "stageable cid ?new"
    using promote_replace_eval [OF ok un _ _ ne in_cid, of i h n] p nn by auto
  have at: "?s \<notin> fst ` set (parts ?p1)" using p by simp
  note sw = swapped_ok [OF ok p2(2) at p2(4)]
  have el: "elsewhere cid ?p1 = elsewhere cid p"
    using p by (auto simp: elsewhere_def image_iff intro!: map_cong)
  have "features_of p2 c = features_of p c" if "c \<noteq> cid" for c
    using sw(3) [OF that] elsewhere_features [OF _ ok el that] p by simp
  then show ?thesis using that [OF k p2(1) sw(2)] p2(3) by blast
qed

context redis_up
begin

lemma finalize_body_run:
  fixes w :: "'a fenv"
  assumes "uses_redis cfg" and "stored (view (rds w)) (f_job_id p) job" and "\<forall>k. naive (clock w k)"
    and "promotable (pgdb w) (f_collection_id p) (f_job_id p) rows" and "f_mode p = ''replace''"
    and "bulk_extent_update_mode cfg = ''deferred''" and "\<not> f_queue_compute_tiles p"
  obtains w' job' where "finalize_body srv cfg h n ext p w = (Inr (), w')" "features_of (pgdb w') (f_collection_id p) = newest_rows rows"
    "\<And>c. c \<noteq> f_collection_id p \<Longrightarrow> features_of (pgdb w') c = features_of (pgdb w) c"
    "stored (view (rds w')) (f_job_id p) job'" "j_status job' = ''completed''" "j_items_created job' = int (length (newest_rows rows))"
    "view (rds w') (dedupe_key (f_job_id p)) = None" "j_collection_id job \<noteq> [] \<Longrightarrow> \<not> held_by (view (rds w')) (j_collection_id job) (f_job_id p)"
    "map_option fst (coll_rows w' (f_collection_id p)) = map_option (\<lambda>_. int (card (fid ` set rows))) (coll_rows w (f_collection_id p))"
proof -
  let ?i = "f_job_id p" let ?c = "f_collection_id p" let ?new = "newest_rows rows"
  note pr = assms(4) [unfolded promotable_def]
  have count: "on_pg (staging_row_count_sync ?i) w = (Inr (int (length rows)), w)"
    using pr by (simp add: on_pg_def staging_row_count_sync_def tx_def all_or_nothing_def gets_def)
  let ?u1 = "job_state ''finalizing'' (''Swapping '' @ commas (int (length rows)) @ '' staged features into live partition...'')
      (or_default (f_items_created p) (int (length rows))) (f_items_failed p)"
  obtain w1 where w1: "update_job srv cfg ?i ?u1 w = (Inr (Some (job_after (clock w (ticks w)) ?u1 job)), w1)"
      "stored (view (rds w1)) ?i (job_after (clock w (ticks w)) ?u1 job)" "outside_redis w1 = outside_redis w"
    using update_job_run [OF assms(1-3)] by metis
  obtain k p1 p2 where p12: "prepare_staging_for_promote_sync ?i (pgdb w) = (Inr k, p1)"
      "promote_staging_sync h n ?c ?i ''replace'' p1 = (Inr (int (length ?new)), p2)" "features_of p2 ?c = ?new"
      "\<And>c. c \<noteq> ?c \<Longrightarrow> features_of p2 c = features_of (pgdb w) c" "faults p2 = []"
    using prepare_and_promote [OF assms(4)] by metis
  have o1: "pgdb w1 = pgdb w" "coll_rows w1 = coll_rows w" "clock w1 = clock w" using w1(3) by (simp_all add: outside_redis_def)
  define w2 where "w2 = w1\<lparr>pgdb := p2\<rparr>"
  have prep: "on_pg (prepare_staging_for_promote_sync ?i) w1 = (Inr k, w1\<lparr>pgdb := p1\<rparr>)" using p12(1) o1 by (simp add: on_pg_def)
  have prom: "on_pg (promote_staging_sync h n ?c ?i ''replace'') (w1\<lparr>pgdb := p1\<rparr>) = (Inr (int (length ?new)), w2)"
    using p12(2) by (simp add: on_pg_def w2_def)
  have "faults (pgdb w2) = []" using p12(5) by (simp add: w2_def)
  then obtain w3 where w3: "finalize_after_promote cfg ext ?c w2 = (Inr (), w3)" "pgdb w3 = p2" "clock w3 = clock w" "rds w3 = rds w1"
      "map_option fst (coll_rows w3 ?c) = map_option (\<lambda>_. int (card (fid ` set rows))) (coll_rows w ?c)"
    using after_promote_run [OF _ assms(6), of w2 ext ?c] p12(3) newest_fids [of rows] o1 by (auto simp: w2_def)
  have ne: "int (length ?new) \<noteq> 0" using newest_fids [of rows] pr by (metis image_is_empty length_0_conv of_nat_eq_0_iff set_empty)
  define total where "total = int (length ?new)"
  have tot: "or_default total (or_default (f_items_created p) (int (length rows))) = total" using ne by (simp add: or_default_def total_def)
  let ?u2 = "job_state ''completed'' (''Imported '' @ commas total @ '' features.'' @
      (if f_items_failed p = 0 then '''' else '' '' @ int_str (f_items_failed p) @ '' failed.'')) total (f_items_failed p)"
  define job2 where "job2 = job_after (clock w (ticks w)) ?u1 job"
  have st3: "stored (view (rds w3)) ?i job2" "\<forall>k. naive (clock w3 k)" using w1(2) w3(3,4) assms(3) by (simp_all add: job2_def)
  define job' where "job' = job_after (clock w3 (ticks w3)) ?u2 job2"
  obtain w4 where w4: "update_job srv cfg ?i ?u2 w3 = (Inr (Some job'), w4)" "stored (view (rds w4)) ?i job'"
      "outside_redis w4 = outside_redis w3"
      "\<And>k. k \<noteq> redis_key ?i \<Longrightarrow> view (rds w4) k =
        (if is_terminal (Some ''completed'') \<and> k = mutex_key (j_collection_id job2) \<and> j_collection_id job2 \<noteq> [] \<and>
            held_by (view (rds w3)) (j_collection_id job2) ?i then None else view (rds w3) k)"
    using update_job_run [OF assms(1) st3] unfolding job'_def by metis
  obtain w5 where w5: "close_job srv cfg ?i w4 = (Inr (), w5)" "outside_redis w5 = outside_redis w4"
      "\<And>k. view (rds w5) k = (if k \<in> {dedupe_key ?i, state_key ?i, reg_key ?i} then None else view (rds w4) k)"
    using close_job_run [OF assms(1)] by metis
  have body: "finalize_body srv cfg h n ext p w = (Inr (), w5)"
    using count w1(1) prep prom w3(1) w4(1) w5(1) pr assms(5,7) tot
    by (simp add: finalize_body_def bnd_def catch_def ret_def queue_tile_build_if_requested_def Let_def total_def)
  have o5: "pgdb w5 = p2" "coll_rows w5 = coll_rows w3" using w5(2) w4(3) w3(2) by (simp_all add: outside_redis_def)
  have c2: "j_collection_id job2 = j_collection_id job" by (simp add: job2_def job_after_state)
  have free: "\<not> held_by (view (rds w5)) (j_collection_id job) ?i" if "j_collection_id job \<noteq> []"
    using w5(3) [of "mutex_key (j_collection_id job)"] w4(4) [of "mutex_key (j_collection_id job)"] that completed_terminal(1) c2
    by (auto simp: held_by_def split: if_splits)
  have "stored (view (rds w5)) ?i job'" using w4(2) w5(3) by (simp add: stored_def)
  moreover have "view (rds w5) (dedupe_key ?i) = None" using w5(3) by simp
  moreover have "j_status job' = ''completed''" "j_items_created job' = int (length ?new)"
    by (simp_all add: job'_def job_after_state total_def)
  ultimately show ?thesis using that [OF body] p12(3,4) o5 w3(5) free by metis
qed

end

section \<open>Properties\<close>

text \<open>C1: Finalizing a replace import. Assume that Redis answers, the database refuses nothing and is well formed, and no partition of
  another collection has the same bound as the job's collection once spaces are removed (else the swap resolves to the
  other collection's partition). Assume further that the job is stored and not cancelled, its staging table is not attached and holds at least
  one row, all of the job's collection, the extent is updated in the deferred mode, and no tile build is asked for. Then
  the worker returns; the collection then holds the newest staged row of each key and every other collection what
  it held, the cached feature count is the number of distinct feature ids, the job is completed with the number of rows,
  its lock on the collection is free and it is no longer marked as waiting to be finalized.\<close>

theorem finalize_promotes_and_closes:
  fixes w :: "'s fenv"
  assumes "redis_up srv view" and "uses_redis cfg" and "stored (view (rds w)) (f_job_id p) job" and "j_status job \<noteq> ''cancelled''"
    and "j_collection_id job \<noteq> []" and "\<forall>k. naive (clock w k)"
    and "f_mode p = ''replace''" and "bulk_extent_update_mode cfg = ''deferred''" and "\<not> f_queue_compute_tiles p"
    and "faults (pgdb w) = []" and "pg_ok (pgdb w)" and "unambiguous (pgdb w) (f_collection_id p)"
    and "tables (pgdb w) (staging_table_name (f_job_id p)) = Some rows" and "rows \<noteq> []" and "\<forall>r\<in>set rows. fcid r = f_collection_id p"
    and "staging_table_name (f_job_id p) \<notin> fst ` set (parts (pgdb w))"
  shows "\<exists>w' job'. process_bulk_finalize_job srv cfg h n ext p w = (Inr (), w') \<and>
    features_of (pgdb w') (f_collection_id p) = newest_rows rows \<and>
    (\<forall>c. c \<noteq> f_collection_id p \<longrightarrow> features_of (pgdb w') c = features_of (pgdb w) c) \<and>
    map_option fst (coll_rows w' (f_collection_id p)) = map_option (\<lambda>_. int (card (fid ` set rows))) (coll_rows w (f_collection_id p)) \<and>
    stored (view (rds w')) (f_job_id p) job' \<and> j_status job' = ''completed'' \<and> j_items_created job' = int (length (newest_rows rows)) \<and>
    \<not> held_by (view (rds w')) (j_collection_id job) (f_job_id p) \<and> view (rds w') (dedupe_key (f_job_id p)) = None"
proof -
  have pr: "promotable (pgdb w) (f_collection_id p) (f_job_id p) rows" using assms(10-16) by (simp add: promotable_def)
  define w0 where "w0 = snd (get_job srv cfg (f_job_id p) w)"
  have g: "fst (get_job srv cfg (f_job_id p) w) = Inr (Some job)" "view (rds w0) = view (rds w)"
    using redis_up.get_job_redis_stored [OF assms(1,3), of cfg] assms(2) by (simp_all add: get_job_def uses_redis_def w0_def)
  have o: "pgdb w0 = pgdb w" "coll_rows w0 = coll_rows w" "clock w0 = clock w"
    using keepsD [OF keeps_job(1), of srv cfg "f_job_id p" w] by (simp_all add: outside_redis_def w0_def)
  have run: "process_bulk_finalize_job srv cfg h n ext p w = (Inr (), w')"
    if "finalize_body srv cfg h n ext p w0 = (Inr (), w')" for w'
    using that g(1) assms(4) by (simp add: process_bulk_finalize_job_def bnd_def w0_def [symmetric] catch_def)
  obtain w' job' where w': "finalize_body srv cfg h n ext p w0 = (Inr (), w')" "features_of (pgdb w') (f_collection_id p) = newest_rows rows"
      "\<And>c. c \<noteq> f_collection_id p \<Longrightarrow> features_of (pgdb w') c = features_of (pgdb w0) c"
      "stored (view (rds w')) (f_job_id p) job'" "j_status job' = ''completed''" "j_items_created job' = int (length (newest_rows rows))"
      "view (rds w') (dedupe_key (f_job_id p)) = None" "j_collection_id job \<noteq> [] \<Longrightarrow> \<not> held_by (view (rds w')) (j_collection_id job) (f_job_id p)"
      "map_option fst (coll_rows w' (f_collection_id p)) = map_option (\<lambda>_. int (card (fid ` set rows))) (coll_rows w0 (f_collection_id p))"
    using redis_up.finalize_body_run [OF assms(1,2), of w0 p job rows] assms(3,6-9) pr g(2) o by metis
  then show ?thesis using run [OF w'(1)] assms(5) o by auto
qed

definition example_swap :: BulkFinalizePayload where
  "example_swap = \<lparr>f_job_id = ''j'', f_collection_id = ''a'', f_mode = ''replace'', f_items_created = 2,
     f_items_failed = 0, f_owner_id = Some 1, f_queue_compute_tiles = False, f_attempt = 0\<rparr>"

definition example_job :: jobinfo where
  "example_job = new_job ''j'' ''a'' (noon 0) (noon 0) None None"

definition example_world :: "(string \<times> rval \<times> int option) list fenv" where
  "example_world = \<lparr>rds = [(redis_key ''j'', (RHash (hash_updates (job_mapping example_job) []), None)), (mutex_key ''a'', (RString ''j'', None))],
     clock = noon, ticks = 0, uuids = (\<lambda>n. ''job'' @ nat_str n), uuid_n = 0, mem_jobs = [], mem_bulk_storage = [], memory_queue = [],
     pgdb = example_pg [], coll_rows = [''a'' \<mapsto> (1, None)]\<rparr>"

lemma example_stored: "stored (map_of (rds example_world)) ''j'' (as_read example_job)"
proof -
  have "naive_job example_job" by (simp add: naive_job_def example_job_def new_job_def)
  then show ?thesis by (simp add: stored_def example_world_def decode_job_mapping)
qed

lemma example_promotable: "promotable (pgdb example_world) ''a'' ''j'' [row_of ''a'' ''7'' 2, row_of ''a'' ''7'' 3]"
  using example_pg_ok by (simp add: promotable_def example_world_def staging_name_j example_pg_def row_of_def)

theorem finalize_promotes_and_closes_witness:
  "\<exists>w' job'. process_bulk_finalize_job mem_srv default_settings id 1 (\<lambda>_. ret ()) example_swap example_world = (Inr (), w') \<and>
     features_of (pgdb w') ''a'' = [row_of ''a'' ''7'' 3] \<and> coll_rows w' ''a'' \<noteq> None \<and> stored (map_of (rds w')) ''j'' job' \<and>
     j_status job' = ''completed'' \<and> \<not> held_by (map_of (rds w')) ''a'' ''j''"
proof -
  have new: "newest_rows [row_of ''a'' ''7'' 2, row_of ''a'' ''7'' 3] = [row_of ''a'' ''7'' 3]" by code_simp
  have "\<exists>w' job'. process_bulk_finalize_job mem_srv default_settings id 1 (\<lambda>_. ret ()) example_swap example_world = (Inr (), w') \<and>
    features_of (pgdb w') (f_collection_id example_swap) = newest_rows [row_of ''a'' ''7'' 2, row_of ''a'' ''7'' 3] \<and>
    (\<forall>c. c \<noteq> f_collection_id example_swap \<longrightarrow> features_of (pgdb w') c = features_of (pgdb example_world) c) \<and>
    map_option fst (coll_rows w' (f_collection_id example_swap)) =
      map_option (\<lambda>_. int (card (fid ` set [row_of ''a'' ''7'' 2, row_of ''a'' ''7'' 3]))) (coll_rows example_world (f_collection_id example_swap)) \<and>
    stored (map_of (rds w')) (f_job_id example_swap) job' \<and> j_status job' = ''completed'' \<and>
    j_items_created job' = int (length (newest_rows [row_of ''a'' ''7'' 2, row_of ''a'' ''7'' 3])) \<and>
    \<not> held_by (map_of (rds w')) (j_collection_id (as_read example_job)) (f_job_id example_swap) \<and>
    map_of (rds w') (dedupe_key (f_job_id example_swap)) = None"
    by (rule finalize_promotes_and_closes [OF mem.redis_up_axioms uses_redis_default])
      (use example_stored example_promotable in \<open>simp_all add: promotable_def example_swap_def example_job_def as_read_def new_job_def example_world_def default_settings_def\<close>)
  then show ?thesis
    unfolding new by (fastforce simp: example_swap_def example_world_def example_job_def as_read_def new_job_def)
qed

text \<open>C5: One collection at a time. Whatever Redis does and whatever the database refuses, whether the call returns or
  raises, promoting, abandoning or dropping a job's import leaves the tables well formed and the features of every other
  collection as they were, provided that no partition of another collection has the same bound as the job's collection once spaces
  are removed (otherwise the finding on ids that differ in spaces only applies, and the other collection's partition is the one that is
  dropped), the staging table holds rows of the job's collection only and is attached, if at all, to that collection,
  and the computation of the extent writes no features.\<close>

theorem finalize_touches_one_collection:
  fixes w :: "'s fenv"
  assumes "pg_ok (pgdb w)" and "unambiguous (pgdb w) (f_collection_id p)"
    and "\<And>rows r. tables (pgdb w) (staging_table_name (f_job_id p)) = Some rows \<Longrightarrow> r \<in> set rows \<Longrightarrow> fcid r = f_collection_id p"
    and "\<And>c. (staging_table_name (f_job_id p), c) \<in> set (parts (pgdb w)) \<Longrightarrow> c = f_collection_id p"
    and "keeps pgdb (ext (f_collection_id p))" and "c \<noteq> f_collection_id p"
  shows "pg_ok (pgdb (snd (process_bulk_finalize_job srv cfg h n ext p w))) \<and>
    features_of (pgdb (snd (process_bulk_finalize_job srv cfg h n ext p w))) c = features_of (pgdb w) c"
proof -
  let ?F = "elsewhere (f_collection_id p) (pgdb w)"
  have "isolated (f_collection_id p) (staging_table_name (f_job_id p)) ?F (pgdb w)" using assms(1-4) by (auto simp: isolated_def)
  then have "isolated (f_collection_id p) (staging_table_name (f_job_id p)) ?F (pgdb (snd (process_bulk_finalize_job srv cfg h n ext p w)))"
    by (rule preservesD [OF process_isolated [where ext = ext and p = p, OF assms(5)]])
  then show ?thesis using isolated_features [OF assms(1) _ assms(6)] by (simp add: isolated_def)
qed

theorem finalize_touches_one_collection_witness:
  "features_of (pgdb (snd (process_bulk_finalize_job mem_srv default_settings id 1 (\<lambda>_. ret ()) example_swap example_world))) ''b'' =
     [row_of ''b'' ''1'' 1]"
proof -
  let ?w = "snd (process_bulk_finalize_job mem_srv default_settings id 1 (\<lambda>_. ret ()) example_swap example_world)"
  have "pg_ok (pgdb ?w) \<and> features_of (pgdb ?w) ''b'' = features_of (pgdb example_world) ''b''"
    by (rule finalize_touches_one_collection)
      (use example_promotable in \<open>auto simp: promotable_def example_swap_def keeps_ret image_iff row_of_def\<close>)
  moreover have "features_of (pgdb example_world) ''b'' = [row_of ''b'' ''1'' 1]"
    by (simp add: example_world_def features_of_def all_features_def example_pg_def row_of_def)
  ultimately show ?thesis by simp
qed

end
