(* ===== verification/Bulk_Watchdog.thy ===== *)
theory Bulk_Watchdog
  imports Finalize_Worker
begin

text \<open>
  \<^verbatim>\<open>app/services/bulk_watchdog.py\<close>: the periodic passes that free locks of dead jobs, fail jobs that stopped making
  progress, and hand loaded but unpromoted imports to the finalize queue.

  A job read from the store always has \<^verbatim>\<open>updated_at\<close>, so the tests for a missing timestamp never skip a job.
  \<open>names\<close> lists the tables of the schema in catalogue order.
\<close>

section \<open>Definitions\<close>

definition stale_seconds :: "settings \<Rightarrow> rat" where
  "stale_seconds cfg = max 60 (or_default (bulk_job_stale_seconds cfg) 14400)"

definition finalize_stale_seconds :: "settings \<Rightarrow> rat" where
  "finalize_stale_seconds cfg = max 300 (or_default (bulk_finalize_stale_seconds cfg) 86400)"

definition should_fail_stale_running :: "settings \<Rightarrow> bool" where
  "should_fail_stale_running cfg =
     (case bulk_watchdog_fail_stale_running cfg of Some b \<Rightarrow> b | None \<Rightarrow> \<not> bulk_finalize_queue_enabled cfg)"

definition job_last_progress :: "jobinfo \<Rightarrow> datetime" where
  "job_last_progress job = (case j_last_progress_at job of Some t \<Rightarrow> t | None \<Rightarrow> j_updated_at job)"

definition running_recover_min_age_seconds :: "settings \<Rightarrow> rat" where
  "running_recover_min_age_seconds cfg = max 300 (or_default (bulk_running_recover_staging_seconds cfg) 600)"

text \<open>Seconds since the last progress of a job, at the time \<open>now\<close>.\<close>

definition progress_age :: "datetime \<Rightarrow> jobinfo \<Rightarrow> rat" where
  "progress_age now job = total_seconds (dt_micros now - dt_micros (assume_utc (job_last_progress job)))"

definition should_attempt_running_staging_recovery :: "'s redis \<Rightarrow> settings \<Rightarrow> jobinfo \<Rightarrow> ('s fenv, bool) prog" where
  "should_attempt_running_staging_recovery srv cfg job =
     bnd now_utc (\<lambda>now.
     let age = progress_age now job in
     if age < running_recover_min_age_seconds cfg then ret False
     else bnd (holds_collection_bulk_mutex srv cfg (j_collection_id job) (j_job_id job)) (\<lambda>holds.
          ret (\<not> (holds \<and> age < stale_seconds cfg))))"

definition finalize_queue_on :: "settings \<Rightarrow> bool" where
  "finalize_queue_on cfg \<longleftrightarrow> bulk_queue_type cfg = ''redis'' \<and> bulk_finalize_queue_enabled cfg"

text \<open>The rows staged for a job, 0 when they cannot be counted.\<close>

definition staged_or_0 :: "string \<Rightarrow> ('s fenv, int) prog" where
  "staged_or_0 job_id = catch (on_pg (staging_row_count_sync job_id)) (\<lambda>_. ret 0)"

definition inferred_mode :: "jobinfo \<Rightarrow> string" where
  "inferred_mode job =
     (if is_sub ''replace'' (py_lower (or_else (j_message job) [])) \<or> j_status job = ''replacing'' then ''replace'' else ''append'')"

definition status_update :: "string \<Rightarrow> string \<Rightarrow> job_update" where
  "status_update st msg = no_update\<lparr>u_status := Some st, u_message := Some msg\<rparr>"

definition recover_running_job_to_finalize :: "'s redis \<Rightarrow> settings \<Rightarrow> jobinfo \<Rightarrow> ('s fenv, bool) prog" where
  "recover_running_job_to_finalize srv cfg job =
     (if \<not> finalize_queue_on cfg then ret False
      else bnd (staged_or_0 (j_job_id job)) (\<lambda>staged.
        if staged \<le> 0 then ret False
        else bnd (is_finalize_pending srv cfg (j_job_id job)) (\<lambda>pending.
        if pending
        then bnd (update_job srv cfg (j_job_id job) ((status_update ''finalizing''
               (''Loaded '' @ commas staged @ '' features into staging; partition swap queued...''))\<lparr>u_items_created := Some staged\<rparr>))
               (\<lambda>_. ret True)
        else
          bnd (enqueue_finalize srv cfg \<lparr>f_job_id = j_job_id job, f_collection_id = j_collection_id job, f_mode = inferred_mode job,
                 f_items_created = staged, f_items_failed = j_items_failed job, f_owner_id = j_owner_id job,
                 f_queue_compute_tiles = False, f_attempt = 0\<rparr> False) (\<lambda>queued.
          if \<not> queued then ret False
          else
            bnd (update_job srv cfg (j_job_id job) ((status_update ''finalizing''
                   (''Recovered: '' @ commas staged @ '' features in staging; partition swap queued (watchdog).''))\<lparr>u_items_created := Some staged\<rparr>)) (\<lambda>_.
            bnd (release_collection_bulk_mutex srv cfg (j_collection_id job) (j_job_id job)) (\<lambda>_.
            ret True))))))"

definition scan_mutex_keys :: "'s redis \<Rightarrow> settings \<Rightarrow> ('s fenv, string list) prog" where
  "scan_mutex_keys srv cfg = catch (run_redis_retry cfg None (r_scan srv (BULK_COLLECTION_MUTEX_PREFIX @ ''*''))) (\<lambda>_. ret [])"

definition fail_stale_pending_mutex_holders :: "'s redis \<Rightarrow> settings \<Rightarrow> ('s fenv, string list) prog" where
  "fail_stale_pending_mutex_holders srv cfg =
     (if bulk_queue_type cfg \<noteq> ''redis'' then ret []
      else bnd (scan_mutex_keys srv cfg) (\<lambda>keys.
        for_each keys (\<lambda>key failed.
          let cid = drop (length BULK_COLLECTION_MUTEX_PREFIX) key in
          if cid = [] then ret failed
          else bnd (get_collection_bulk_mutex_holder srv cfg cid) (\<lambda>holder. case holder of
            None \<Rightarrow> ret failed
          | Some h \<Rightarrow> bnd (get_job srv cfg h) (\<lambda>job. case job of
              None \<Rightarrow> ret failed
            | Some j \<Rightarrow>
                if py_lower (j_status j) \<noteq> ''pending'' then ret failed
                else bnd now_utc (\<lambda>now.
                  let age = job_age_seconds now j in
                  if age < pending_stale_seconds cfg then ret failed
                  else bnd (release_collection_bulk_mutex srv cfg cid h) (\<lambda>_.
                    catch (bnd (update_job srv cfg h (status_update ''failed''
                             (''Bulk import interrupted before start (pending '' @ int_str \<lfloor>age\<rfloor> @
                              ''s with collection lock); re-submit the upload.''))) (\<lambda>_. ret (failed @ [h])))
                      (\<lambda>_. ret failed)))))) []))"

definition fail_stale_running_jobs :: "'s redis \<Rightarrow> settings \<Rightarrow> string list \<Rightarrow> ('s fenv, string list) prog" where
  "fail_stale_running_jobs srv cfg names =
     (if bulk_queue_type cfg \<noteq> ''redis'' \<or> \<not> should_fail_stale_running cfg then ret []
      else bnd now_utc (\<lambda>now.
        bnd (list_all_jobs srv cfg 500 None 0) (\<lambda>jobs.
        bnd (for_each jobs (\<lambda>job (failed, active_ids).
          let active_ids = (if j_status job \<in> set [''pending'', ''running'', ''replacing'', ''finalizing''] then active_ids @ [j_job_id job] else active_ids);
              age = progress_age now job in
          if j_status job \<notin> set [''running'', ''replacing''] \<or> age < stale_seconds cfg then ret (failed, active_ids)
          else bnd (bnd (should_attempt_running_staging_recovery srv cfg job) (\<lambda>try.
                      if try then recover_running_job_to_finalize srv cfg job else ret False)) (\<lambda>recovered.
            if recovered then ret (failed, active_ids @ [j_job_id job])
            else
              bnd (catch (bnd (update_job srv cfg (j_job_id job) (status_update ''failed''
                     (''Bulk import stalled (no progress for '' @ int_str \<lfloor>age\<rfloor> @ ''s); job marked failed by watchdog.''))) (\<lambda>_. ret True))
                     (\<lambda>_. ret False)) (\<lambda>written.
              if \<not> written then ret (failed, active_ids)
              else
                bnd (release_collection_bulk_mutex srv cfg (j_collection_id job) (j_job_id job)) (\<lambda>_.
                bnd (catch (on_pg (drop_staging_table_sync (j_job_id job))) (\<lambda>_. ret ())) (\<lambda>_.
                ret (failed @ [j_job_id job], active_ids)))))) ([], [])) (\<lambda>(failed, active_ids).
        bnd (catch (bnd (on_pg (cleanup_orphan_staging_tables_sync names active_ids)) (\<lambda>_. ret ())) (\<lambda>_. ret ())) (\<lambda>_.
        ret failed)))))"

definition recover_stale_running_jobs_with_staging :: "'s redis \<Rightarrow> settings \<Rightarrow> ('s fenv, string list) prog" where
  "recover_stale_running_jobs_with_staging srv cfg =
     (if \<not> finalize_queue_on cfg then ret []
      else bnd (list_all_jobs srv cfg 500 None 0) (\<lambda>jobs.
        for_each jobs (\<lambda>job recovered.
          if j_status job \<notin> set [''running'', ''replacing''] then ret recovered
          else bnd (should_attempt_running_staging_recovery srv cfg job) (\<lambda>try.
            if \<not> try then ret recovered
            else bnd (recover_running_job_to_finalize srv cfg job) (\<lambda>ok.
              ret (if ok then recovered @ [j_job_id job] else recovered)))) []))"

definition fail_stale_finalizing_jobs :: "'s redis \<Rightarrow> settings \<Rightarrow> ('s fenv, string list) prog" where
  "fail_stale_finalizing_jobs srv cfg =
     (if bulk_queue_type cfg \<noteq> ''redis'' then ret []
      else bnd now_utc (\<lambda>now.
        bnd (list_all_jobs srv cfg 500 None 0) (\<lambda>jobs.
        for_each jobs (\<lambda>job failed.
          let age = progress_age now job in
          if py_lower (j_status job) \<noteq> ''finalizing'' \<or> age < finalize_stale_seconds cfg then ret failed
          else catch (bnd (update_job srv cfg (j_job_id job) (status_update ''failed''
                 (''Partition swap stalled (no progress for '' @ int_str \<lfloor>age\<rfloor> @
                  ''s). Staging data kept; re-run bulk_recover_staging or re-upload.''))) (\<lambda>_. ret (failed @ [j_job_id job])))
               (\<lambda>_. ret failed)) [])))"

definition run_bulk_watchdog_pass :: "'s redis \<Rightarrow> settings \<Rightarrow> string list \<Rightarrow> bool option \<Rightarrow> ('s fenv, unit) prog" where
  "run_bulk_watchdog_pass srv cfg names fail_stale_running =
     (if bulk_queue_type cfg \<noteq> ''redis'' then ret ()
      else
        bnd (scan_mutex_keys srv cfg) (\<lambda>keys.
        bnd (for_each keys (\<lambda>key _.
          let cid = drop (length BULK_COLLECTION_MUTEX_PREFIX) key in
          bnd (get_collection_bulk_mutex_holder srv cfg cid) (\<lambda>holder. case holder of
            None \<Rightarrow> ret ()
          | Some h \<Rightarrow> bnd (get_job srv cfg h) (\<lambda>job.
              if (case job of None \<Rightarrow> True | Some j \<Rightarrow> is_terminal_job_status (Some (j_status j)) \<or> j_finished_at j \<noteq> None)
              then bnd (reclaim_stale_collection_bulk_mutex srv cfg cid) (\<lambda>_. ret ())
              else ret ()))) ()) (\<lambda>_.
        bnd (fail_stale_pending_mutex_holders srv cfg) (\<lambda>_.
        bnd (recover_stale_running_jobs_with_staging srv cfg) (\<lambda>_.
        if or_else fail_stale_running (should_fail_stale_running cfg)
        then bnd (fail_stale_running_jobs srv cfg names) (\<lambda>_. ret ()) else ret ())))))"

text \<open>\<^verbatim>\<open>int(state.get(k) or dflt)\<close>.\<close>

definition state_int :: "(string \<times> string) list \<Rightarrow> string \<Rightarrow> int \<Rightarrow> exn + int" where
  "state_int state k dflt = (case field_of state k of None \<Rightarrow> Inr dflt | Some s \<Rightarrow> py_int s)"

definition orphan_payload :: "(string \<times> string) list \<Rightarrow> jobinfo \<Rightarrow> int \<Rightarrow> exn + BulkFinalizePayload" where
  "orphan_payload state job staged =
     (let status = py_lower (j_status job); msg = py_lower (or_else (j_message job) []);
          owner_raw = or_else (map_of state ''owner_id'') [] in
      sbind (if py_isdigit owner_raw then sbind (py_int owner_raw) (\<lambda>i. Inr (Some i)) else Inr (j_owner_id job)) (\<lambda>owner_id.
      sbind (state_int state ''items_created'' (or_default (j_items_created job) staged)) (\<lambda>created.
      sbind (state_int state ''items_failed'' (j_items_failed job)) (\<lambda>failed.
      Inr \<lparr>f_job_id = j_job_id job, f_collection_id = or_else (field_of state ''collection_id'') (j_collection_id job),
           f_mode = or_else (field_of state ''mode'') (if is_sub ''replace'' msg \<or> status = ''replacing'' then ''replace'' else ''append''),
           f_items_created = created, f_items_failed = failed, f_owner_id = owner_id,
           f_queue_compute_tiles = (py_lower (or_else (map_of state ''queue_compute_tiles'') ''0'') \<in> set [''1'', ''true'', ''yes'']),
           f_attempt = 0\<rparr>))))"

definition reconcile_orphan_finalize_jobs :: "'s redis \<Rightarrow> settings \<Rightarrow> ('s fenv, string list) prog" where
  "reconcile_orphan_finalize_jobs srv cfg =
     (if \<not> finalize_queue_on cfg then ret []
      else bnd (list_all_jobs srv cfg 500 None 0) (\<lambda>jobs.
        for_each jobs (\<lambda>job requeued.
          let status = py_lower (j_status job) in
          if status \<notin> set [''finalizing'', ''failed'', ''running'', ''replacing''] then ret requeued
          else bnd (is_finalize_pending srv cfg (j_job_id job)) (\<lambda>pending.
          if pending then ret requeued
          else bnd (staged_or_0 (j_job_id job)) (\<lambda>staged.
          if staged \<le> 0 then ret requeued
          else bnd (get_finalize_state srv cfg (j_job_id job)) (\<lambda>state.
          let msg = py_lower (or_else (j_message job) []) in
          if status = ''failed'' \<and> state = [] \<and>
             \<not> list_ex (\<lambda>frag. is_sub frag msg) [''deadlock'', ''partition swap'', ''staging'', ''watchdog'']
          then ret requeued
          else bnd (lift_exn (orphan_payload state job staged)) (\<lambda>payload.
          bnd (enqueue_finalize srv cfg payload True) (\<lambda>ok.
          if \<not> ok then ret requeued
          else bnd (update_job srv cfg (j_job_id job) ((status_update ''finalizing''
                 (''Re-queued partition swap for '' @ commas staged @ '' staged features (self-heal).''))\<lparr>u_items_created :=
                    Some (or_default (j_items_created job) staged)\<rparr>)) (\<lambda>_.
               ret (requeued @ [j_job_id job])))))))) []))"

end
