(* ===== verification/Finalize_Reconcile.thy ===== *)
theory Finalize_Reconcile
  imports Bulk_Watchdog
begin

text \<open>
  \<^verbatim>\<open>app/services/bulk_finalize_reconcile.py\<close>: the fleet-wide repair of jobs that got stuck between loading and promoting.
  The statistics object is threaded through the calls; what is printed is left out. As in the other worker
  theories \<open>h\<close> shortens table names, \<open>n\<close> bounds the attempts of a swap and \<open>ext\<close> computes the extent.

  Shown: the repair of one job keeps every other collection whatever Redis and the database do, when no other
  collection's id differs from the job's in spaces only, and a dry run changes neither the database nor Redis.
\<close>

section \<open>Definitions\<close>

record ReconcileStats =
  orphans_dropped :: int
  completed_already_swapped :: int
  promoted :: int
  enqueued :: int
  empty_closed :: int
  abandoned :: int
  skipped :: int
  errors :: "(string \<times> string) list"

definition no_stats :: ReconcileStats where
  "no_stats = \<lparr>orphans_dropped = 0, completed_already_swapped = 0, promoted = 0, enqueued = 0, empty_closed = 0,
     abandoned = 0, skipped = 0, errors = []\<rparr>"

definition infer_import_mode :: "'s redis \<Rightarrow> settings \<Rightarrow> jobinfo \<Rightarrow> ('s fenv, string) prog" where
  "infer_import_mode srv cfg job =
     (if j_status job = ''replacing'' \<or> is_sub ''replace'' (py_lower (or_else (j_message job) [])) then ret ''replace''
      else bnd (get_finalize_state srv cfg (j_job_id job)) (\<lambda>state.
           ret (case map_of state ''mode'' of
                  Some m \<Rightarrow> if m \<in> set [''replace'', ''append''] then m else ''append''
                | None \<Rightarrow> ''append'')))"

definition job_activity_age_seconds :: "datetime \<Rightarrow> jobinfo \<Rightarrow> rat" where
  "job_activity_age_seconds now job = max 0 (progress_age now job)"

definition load_still_in_progress :: "'s redis \<Rightarrow> settings \<Rightarrow> jobinfo \<Rightarrow> ('s fenv, bool) prog" where
  "load_still_in_progress srv cfg job =
     (let status = py_lower (j_status job) in
      if status \<in> set [''pending'', ''running'', ''replacing''] then ret True
      else bnd (holds_collection_bulk_mutex srv cfg (j_collection_id job) (j_job_id job)) (\<lambda>holds.
        if holds then ret True
        else
          let min_age = max 60 (or_default (bulk_running_recover_staging_seconds cfg) 600) in
          if status = ''finalizing'' \<and> j_items_created job \<le> 0
          then bnd now_utc (\<lambda>now. ret (job_activity_age_seconds now job < min_age))
          else ret False))"

definition reconcile_fragments :: "string list" where
  "reconcile_fragments = [''partition swap'', ''overlap'', ''deadlock'', ''watchdog'', ''finalize'', ''bulk import stalled'',
     ''duplicate key'', ''uniqueviolation'']"

definition is_reconcile_candidate :: "'s redis \<Rightarrow> settings \<Rightarrow> jobinfo \<Rightarrow> ('s fenv, bool) prog" where
  "is_reconcile_candidate srv cfg job =
     (let status = py_lower (j_status job) in
      if status \<notin> set [''finalizing'', ''failed'', ''running'', ''replacing''] then ret False
      else bnd (load_still_in_progress srv cfg job) (\<lambda>busy.
        ret (\<not> busy \<and> (status = ''finalizing'' \<or> 0 < j_items_created job \<or>
               list_ex (\<lambda>k. is_sub k (py_lower (or_else (j_message job) []))) reconcile_fragments))))"

text \<open>\<^verbatim>\<open>re.search(r"attempt\\s+(\\d+)", msg, re.IGNORECASE)\<close>: the digits of the first match.\<close>

fun attempt_in :: "string \<Rightarrow> string option" where
  "attempt_in [] = None"
| "attempt_in (c # cs) =
     (let rest = drop 7 (c # cs); digits = takeWhile is_ascii_digit (dropWhile py_isspace_char rest) in
      if starts_with ''attempt'' (py_lower (c # cs)) \<and> rest \<noteq> [] \<and> py_isspace_char (hd rest) \<and> digits \<noteq> [] then Some digits
      else attempt_in cs)"

definition should_abandon_duplicate_job :: "'s redis \<Rightarrow> settings \<Rightarrow> jobinfo \<Rightarrow> ('s fenv, bool) prog" where
  "should_abandon_duplicate_job srv cfg job =
     (let msg = or_else (j_message job) [] in
      if \<not> is_staging_pk_duplicate_error msg then ret False
      else bnd (get_finalize_state srv cfg (j_job_id job)) (\<lambda>state.
        bnd (lift_exn (state_int state ''attempt'' 0)) (\<lambda>attempt.
        if duplicate_give_up_attempts cfg \<le> attempt then ret True
        else if is_sub ''attempt '' (py_lower msg)
        then (case attempt_in msg of
                None \<Rightarrow> ret False
              | Some d \<Rightarrow> bnd (lift_exn (py_int d)) (\<lambda>k. ret (duplicate_give_up_attempts cfg \<le> k)))
        else ret False)))"

definition abandon_duplicate_job ::
    "'s redis \<Rightarrow> settings \<Rightarrow> (string \<Rightarrow> string) \<Rightarrow> jobinfo \<Rightarrow> int \<Rightarrow> string \<Rightarrow> ReconcileStats \<Rightarrow> ('s fenv, ReconcileStats) prog" where
  "abandon_duplicate_job srv cfg h job staged reason stats =
     bnd (abandon_staging_finalize_job srv cfg h (j_job_id job) (j_collection_id job) reason
            (or_default staged (j_items_created job)) (j_items_failed job)) (\<lambda>_.
     ret (stats\<lparr>abandoned := abandoned stats + 1\<rparr>))"

text \<open>The closing steps of a promoted job.\<close>

definition complete_job :: "'s redis \<Rightarrow> settings \<Rightarrow> (string \<Rightarrow> ('s fenv, unit) prog) \<Rightarrow> jobinfo \<Rightarrow> string \<Rightarrow> int \<Rightarrow> ('s fenv, unit) prog" where
  "complete_job srv cfg ext job msg n_items =
     bnd (finalize_after_promote cfg ext (j_collection_id job)) (\<lambda>_.
     bnd (update_job srv cfg (j_job_id job) (job_state ''completed'' msg n_items (j_items_failed job))) (\<lambda>_.
     close_job srv cfg (j_job_id job)))"

definition complete_swapped_job ::
    "'s redis \<Rightarrow> settings \<Rightarrow> (string \<Rightarrow> ('s fenv, unit) prog) \<Rightarrow> bool \<Rightarrow> jobinfo \<Rightarrow> int \<Rightarrow> string \<Rightarrow> ReconcileStats \<Rightarrow> ('s fenv, ReconcileStats) prog" where
  "complete_swapped_job srv cfg ext dry_run job row_count note stats =
     (if dry_run then ret (stats\<lparr>completed_already_swapped := completed_already_swapped stats + 1\<rparr>)
      else bnd (complete_job srv cfg ext job (''Recovered: '' @ note @ '' ('' @ commas row_count @ '' features).'') row_count) (\<lambda>_.
           ret (stats\<lparr>completed_already_swapped := completed_already_swapped stats + 1\<rparr>)))"

text \<open>\<^verbatim>\<open>SELECT COUNT(*)\<close> on a table, or the count kept in the job.\<close>

definition live_count :: "string \<Rightarrow> jobinfo \<Rightarrow> ('s fenv, int) prog" where
  "live_count live job =
     catch (on_pg (tx (bnd (select_rows live) (\<lambda>rows. ret (int (length rows)))))) (\<lambda>_. ret (j_items_created job))"

text \<open>The case of a missing staging table, of an empty one, and of staged rows.\<close>

definition reconcile_no_staging ::
    "'s redis \<Rightarrow> settings \<Rightarrow> (string \<Rightarrow> ('s fenv, unit) prog) \<Rightarrow> bool \<Rightarrow> jobinfo \<Rightarrow> ReconcileStats \<Rightarrow> ('s fenv, ReconcileStats) prog" where
  "reconcile_no_staging srv cfg ext dry_run job stats =
     bnd (on_pg (resolve_features_partition_relname_sync (j_collection_id job))) (\<lambda>live.
     if (case live of None \<Rightarrow> False | Some l \<Rightarrow> l \<noteq> '''' \<and> starts_with STAGING_TABLE_PREFIX l) \<and> py_lower (j_status job) = ''finalizing''
     then bnd (live_count (the live) job) (\<lambda>count.
          complete_swapped_job srv cfg ext dry_run job (or_default count (j_items_created job)) ''live partition already attached'' stats)
     else ret (stats\<lparr>skipped := skipped stats + 1\<rparr>))"

definition reconcile_empty_staging ::
    "'s redis \<Rightarrow> settings \<Rightarrow> (string \<Rightarrow> ('s fenv, unit) prog) \<Rightarrow> jobinfo \<Rightarrow> ReconcileStats \<Rightarrow> ('s fenv, ReconcileStats) prog" where
  "reconcile_empty_staging srv cfg ext job stats =
     bnd (load_still_in_progress srv cfg job) (\<lambda>busy.
     if busy then ret (stats\<lparr>skipped := skipped stats + 1\<rparr>)
     else bnd (on_pg (resolve_features_partition_relname_sync (j_collection_id job))) (\<lambda>live.
       bnd (case live of
              None \<Rightarrow> ret None
            | Some l \<Rightarrow> if l = '''' \<or> starts_with STAGING_TABLE_PREFIX l then ret None
                        else bnd (live_count l job) (\<lambda>count.
                          ret (if 0 < count \<or> 0 < j_items_created job then Some (or_default count (j_items_created job)) else None))) (\<lambda>have_data.
       case have_data of
         Some rows \<Rightarrow> complete_swapped_job srv cfg ext False job rows ''live partition already has data (staging dropped)'' stats
       | None \<Rightarrow>
           bnd (catch (on_pg (drop_staging_table_sync (j_job_id job))) (\<lambda>_. ret ())) (\<lambda>_.
           let fail_msg = (if 0 < j_items_created job
                 then ''Bulk import lost staged data before partition swap could complete. Please re-import this file.''
                 else ''Bulk import produced no features (empty staging table). Check the source file and re-import.'') in
           bnd (update_job srv cfg (j_job_id job) (job_state ''failed'' fail_msg 0 (j_items_failed job))) (\<lambda>_.
           bnd (close_job srv cfg (j_job_id job)) (\<lambda>_.
           ret (stats\<lparr>empty_closed := empty_closed stats + 1\<rparr>)))))))"

text \<open>Deduplicate; \<open>None\<close> when that is hopeless and the job was abandoned.\<close>

definition prepare_or_abandon ::
    "'s redis \<Rightarrow> settings \<Rightarrow> (string \<Rightarrow> string) \<Rightarrow> jobinfo \<Rightarrow> int \<Rightarrow> ReconcileStats \<Rightarrow> ('s fenv, ReconcileStats option) prog" where
  "prepare_or_abandon srv cfg h job staged stats =
     catch (bnd (on_pg (prepare_staging_for_promote_sync (j_job_id job))) (\<lambda>_. ret None))
       (\<lambda>e. case e of
          StagingDuplicateUnrecoverable m \<Rightarrow> bnd (abandon_duplicate_job srv cfg h job staged m stats) (\<lambda>s. ret (Some s))
        | _ \<Rightarrow> raise e)"

text \<open>\<^verbatim>\<open>promote_staging_sync\<close> and the closing steps, with the text of the message before and after the number.\<close>

definition promote_and_complete ::
    "'s redis \<Rightarrow> settings \<Rightarrow> (string \<Rightarrow> string) \<Rightarrow> nat \<Rightarrow> (string \<Rightarrow> ('s fenv, unit) prog) \<Rightarrow> jobinfo \<Rightarrow> string \<Rightarrow> string \<Rightarrow> ('s fenv, unit) prog" where
  "promote_and_complete srv cfg h n ext job mode verb =
     bnd (on_pg (promote_staging_sync h n (j_collection_id job) (j_job_id job) mode)) (\<lambda>count.
     complete_job srv cfg ext job (''Recovered: '' @ verb @ commas count @ '' staged features (bulk reconcile).'') count)"

definition reconcile_promote_failed ::
    "'s redis \<Rightarrow> settings \<Rightarrow> jobinfo \<Rightarrow> int \<Rightarrow> string \<Rightarrow> string \<Rightarrow> ReconcileStats \<Rightarrow> ('s fenv, ReconcileStats) prog" where
  "reconcile_promote_failed srv cfg job staged mode err stats =
     (let stats1 = stats\<lparr>errors := errors stats @ [(j_job_id job, err)]\<rparr> in
      bnd (is_finalize_pending srv cfg (j_job_id job)) (\<lambda>pending.
      bnd (if pending then ret stats1
           else bnd (enqueue_finalize srv cfg \<lparr>f_job_id = j_job_id job, f_collection_id = j_collection_id job, f_mode = mode,
                       f_items_created = staged, f_items_failed = j_items_failed job, f_owner_id = j_owner_id job,
                       f_queue_compute_tiles = False, f_attempt = 0\<rparr> True) (\<lambda>_.
                ret (stats1\<lparr>enqueued := enqueued stats1 + 1\<rparr>))) (\<lambda>stats2.
      bnd (update_job srv cfg (j_job_id job) ((status_update ''finalizing''
             (''Reconcile: queued partition swap for '' @ commas staged @ '' features after error: '' @ take 200 err))\<lparr>u_items_created := Some staged\<rparr>)) (\<lambda>_.
      ret stats2))))"

definition reconcile_staged ::
    "'s redis \<Rightarrow> settings \<Rightarrow> (string \<Rightarrow> string) \<Rightarrow> nat \<Rightarrow> (string \<Rightarrow> ('s fenv, unit) prog) \<Rightarrow> jobinfo \<Rightarrow> int \<Rightarrow> string \<Rightarrow> ReconcileStats \<Rightarrow>
     ('s fenv, ReconcileStats) prog" where
  "reconcile_staged srv cfg h n ext job staged mode stats =
     catch
       (bnd (promote_and_complete srv cfg h n ext job mode ''promoted '') (\<lambda>_. ret (stats\<lparr>promoted := promoted stats + 1\<rparr>)))
       (\<lambda>e. case e of
          StagingDuplicateUnrecoverable m \<Rightarrow> abandon_duplicate_job srv cfg h job staged m stats
        | _ \<Rightarrow>
            if is_staging_pk_duplicate_error (message_of e)
            then catch
              (bnd (on_pg (prepare_staging_for_promote_sync (j_job_id job))) (\<lambda>_.
               bnd (promote_and_complete srv cfg h n ext job mode ''deduped and promoted '') (\<lambda>_. ret (stats\<lparr>promoted := promoted stats + 1\<rparr>))))
              (\<lambda>d. case d of StagingDuplicateUnrecoverable m \<Rightarrow> abandon_duplicate_job srv cfg h job staged m stats | _ \<Rightarrow> raise d)
            else reconcile_promote_failed srv cfg job staged mode (message_of e) stats)"

definition reconcile_one_job ::
    "'s redis \<Rightarrow> settings \<Rightarrow> (string \<Rightarrow> string) \<Rightarrow> nat \<Rightarrow> (string \<Rightarrow> ('s fenv, unit) prog) \<Rightarrow> bool \<Rightarrow> jobinfo \<Rightarrow> ReconcileStats \<Rightarrow>
     ('s fenv, ReconcileStats) prog" where
  "reconcile_one_job srv cfg h n ext dry_run job stats =
     (let staging = staging_table_name (j_job_id job) in
      bnd (on_pg (staging_table_exists_sync (j_job_id job))) (\<lambda>exists.
      if \<not> exists then reconcile_no_staging srv cfg ext dry_run job stats
      else bnd (catch (bnd (on_pg (staging_row_count_sync (j_job_id job))) (\<lambda>k. ret (Inr k))) (\<lambda>e. ret (Inl (message_of e)))) (\<lambda>counted.
      case counted of
        Inl err \<Rightarrow> ret (stats\<lparr>errors := errors stats @ [(j_job_id job, err)]\<rparr>)
      | Inr staged \<Rightarrow>
          bnd (on_pg (partition_swap_already_complete_sync (j_collection_id job) staging)) (\<lambda>complete.
          if complete
          then complete_swapped_job srv cfg ext dry_run job (or_default staged (j_items_created job)) ''staging partition already attached'' stats
          else if staged \<le> 0
          then (if dry_run then ret (stats\<lparr>empty_closed := empty_closed stats + 1\<rparr>) else reconcile_empty_staging srv cfg ext job stats)
          else
            bnd (infer_import_mode srv cfg job) (\<lambda>mode.
            bnd (should_abandon_duplicate_job srv cfg job) (\<lambda>hopeless.
            if dry_run
            then ret (if hopeless then stats\<lparr>abandoned := abandoned stats + 1\<rparr> else stats\<lparr>enqueued := enqueued stats + 1\<rparr>)
            else
              bnd (if hopeless then prepare_or_abandon srv cfg h job staged stats else ret None) (\<lambda>done1. case done1 of
                Some s \<Rightarrow> ret s
              | None \<Rightarrow> bnd (prepare_or_abandon srv cfg h job staged stats) (\<lambda>done2. case done2 of
                  Some s \<Rightarrow> ret s
                | None \<Rightarrow> reconcile_staged srv cfg h n ext job staged mode stats))))))))"

text \<open>A later job with the same table name replaces an earlier one in the dictionary.\<close>

definition reconcile_jobs_by_staging_table ::
    "'s redis \<Rightarrow> settings \<Rightarrow> (string \<Rightarrow> string) \<Rightarrow> nat \<Rightarrow> (string \<Rightarrow> ('s fenv, unit) prog) \<Rightarrow> bool \<Rightarrow> ReconcileStats \<Rightarrow> ('s fenv, ReconcileStats) prog" where
  "reconcile_jobs_by_staging_table srv cfg h n ext dry_run stats =
     bnd (list_all_jobs srv cfg 5000 None 0) (\<lambda>jobs.
     bnd (on_pg list_attached_feature_partitions_sync) (\<lambda>attached.
     for_each attached (\<lambda>part stats.
       let relname = fst part in
       if \<not> starts_with STAGING_TABLE_PREFIX relname then ret stats
       else case find (\<lambda>j. staging_table_name (j_job_id j) = relname) (rev jobs) of
         None \<Rightarrow> ret stats
       | Some job \<Rightarrow>
           if py_lower (j_status job) = ''completed'' then ret stats
           else bnd (is_reconcile_candidate srv cfg job) (\<lambda>cand.
             if cand then reconcile_one_job srv cfg h n ext dry_run job stats else ret stats)) stats))"

text \<open>The dry run of the clean-up: the canonical tables it would drop.\<close>

definition would_drop :: "(string \<Rightarrow> string) \<Rightarrow> (pg, string list) prog" where
  "would_drop h =
     bnd list_attached_feature_partitions_sync (\<lambda>attached.
     tx (for_each attached (\<lambda>(relname, cid) names.
       let canonical = safe_partition_name h cid in
       if canonical = relname then ret names
       else bnd (table_exists canonical) (\<lambda>ex.
         if \<not> ex then ret names
         else bnd (partition_is_attached canonical) (\<lambda>a. ret (if a then names else names @ [canonical])))) []))"

definition reconcile_all_stuck_finalize_jobs ::
    "'s redis \<Rightarrow> settings \<Rightarrow> (string \<Rightarrow> string) \<Rightarrow> nat \<Rightarrow> (string \<Rightarrow> ('s fenv, unit) prog) \<Rightarrow> bool \<Rightarrow> int \<Rightarrow> ('s fenv, ReconcileStats) prog" where
  "reconcile_all_stuck_finalize_jobs srv cfg h n ext dry_run limit =
     bnd (if dry_run then on_pg (would_drop h) else on_pg (cleanup_detached_orphan_feature_partitions_sync h)) (\<lambda>dropped.
     let stats0 = no_stats\<lparr>orphans_dropped := int (length dropped)\<rparr> in
     bnd (list_all_jobs srv cfg limit None 0) (\<lambda>jobs.
     bnd (for_each jobs (\<lambda>job stats.
       bnd (is_reconcile_candidate srv cfg job) (\<lambda>cand.
       if cand then reconcile_one_job srv cfg h n ext dry_run job stats else ret stats)) stats0) (\<lambda>stats1.
     reconcile_jobs_by_staging_table srv cfg h n ext dry_run stats1)))"

definition run_finalize_watchdog_pass ::
    "'s redis \<Rightarrow> settings \<Rightarrow> (string \<Rightarrow> string) \<Rightarrow> nat \<Rightarrow> (string \<Rightarrow> ('s fenv, unit) prog) \<Rightarrow> ('s fenv, unit) prog" where
  "run_finalize_watchdog_pass srv cfg h n ext =
     bnd (reconcile_all_stuck_finalize_jobs srv cfg h n ext False 5000) (\<lambda>_. ret ())"

section \<open>One collection at a time\<close>

lemma keeps_now [keeps_intros]: "keeps outside_redis now_utc"
  unfolding now_utc_def by (intro keeps_intros)

lemma keeps_judgements [keeps_intros]:
  "keeps outside_redis (infer_import_mode srv cfg job)" "keeps outside_redis (load_still_in_progress srv cfg job)"
  "keeps outside_redis (is_reconcile_candidate srv cfg job)" "keeps outside_redis (should_abandon_duplicate_job srv cfg job)"
  unfolding infer_import_mode_def load_still_in_progress_def is_reconcile_candidate_def should_abandon_duplicate_job_def
  by (intro keeps_intros)+

lemma preserves_resolve_sync [isolation_intros]: "preserves (isolated cid s F) (resolve_features_partition_relname_sync c)"
  unfolding resolve_features_partition_relname_sync_def by (intro isolation_intros)

lemma preserves_live_count [apart_intros]: "preserves (\<lambda>w. isolated cid s F (pgdb w)) (live_count l job)"
  unfolding live_count_def by (intro apart_intros isolation_intros isolation_comb)

lemma preserves_complete [apart_intros]:
  "keeps pgdb (ext (j_collection_id job)) \<Longrightarrow> preserves (\<lambda>w. isolated cid s F (pgdb w)) (complete_job srv cfg ext job msg k)"
  "keeps pgdb (ext (j_collection_id job)) \<Longrightarrow> preserves (\<lambda>w. isolated cid s F (pgdb w)) (complete_swapped_job srv cfg ext b job k note stats)"
  unfolding complete_job_def complete_swapped_job_def
  by (intro apart_intros isolation_comb keeps_preserves keeps_intros; assumption)+

lemma preserves_abandon_duplicate [apart_intros]:
  "preserves (\<lambda>w. isolated (j_collection_id job) (staging_table_name (j_job_id job)) F (pgdb w)) (abandon_duplicate_job srv cfg h job k m stats)"
  unfolding abandon_duplicate_job_def by (intro apart_intros isolation_comb)

lemma preserves_case_sum [apart_intros]: "(\<And>a. preserves I (f a)) \<Longrightarrow> (\<And>b. preserves I (g b)) \<Longrightarrow> preserves I (case x of Inl a \<Rightarrow> f a | Inr b \<Rightarrow> g b)"
  by (cases x) simp_all

lemma reconcile_one_isolated:
  assumes "keeps pgdb (ext (j_collection_id job))"
  shows "preserves (\<lambda>w. isolated (j_collection_id job) (staging_table_name (j_job_id job)) F (pgdb w))
    (reconcile_one_job srv cfg h n ext b job stats)"
  unfolding reconcile_one_job_def reconcile_no_staging_def reconcile_empty_staging_def prepare_or_abandon_def reconcile_staged_def
    promote_and_complete_def reconcile_promote_failed_def Let_def
  by (intro preserves_complete [where ext = ext, OF assms] apart_intros isolation_intros isolation_comb preserves_case_exn keeps_preserves keeps_intros)

section \<open>Dry runs\<close>

text \<open>Reading Redis changes nothing a client can see, whatever requests and replies are lost.\<close>

context redis_server
begin

lemma keeps_view_reads:
  "keeps (\<lambda>w. view (rds w)) (r_get srv k)" "keeps (\<lambda>w. view (rds w)) (r_int srv (One (Exists k)))" "keeps (\<lambda>w. view (rds w)) (r_hgetall srv k)"
  "keeps (\<lambda>w. view (rds w)) (r_scan srv k)" "keeps (\<lambda>w. view (rds w)) (r_lrange srv k a b)"
  using any_eff by (fastforce simp: keeps_def prog_simps redis_simps)+

lemma keeps_view_plain: "keeps (\<lambda>w. view (rds w)) (on_pg m)" "keeps (\<lambda>w. view (rds w)) utcnow"
  by (simp_all add: keeps_def on_pg_def prog_simps split: prod.split)

lemma keeps_view_judgements:
  "keeps (\<lambda>w. view (rds w)) (list_all_jobs srv cfg k o' l)" "keeps (\<lambda>w. view (rds w)) (is_reconcile_candidate srv cfg job)"
  "keeps (\<lambda>w. view (rds w)) (infer_import_mode srv cfg job)" "keeps (\<lambda>w. view (rds w)) (should_abandon_duplicate_job srv cfg job)"
  unfolding list_all_jobs_def list_all_jobs_redis_def list_all_jobs_memory_def get_jobs_redis_def get_job_redis_def
    is_reconcile_candidate_def load_still_in_progress_def holds_collection_bulk_mutex_def get_collection_bulk_mutex_holder_def
    now_utc_def infer_import_mode_def get_finalize_state_def should_abandon_duplicate_job_def Let_def
  by (intro keeps_view_reads keeps_view_plain keeps_intros)+

lemma dry_run_view: "keeps (\<lambda>w. view (rds w)) (reconcile_all_stuck_finalize_jobs srv cfg h n ext True limit)"
  unfolding reconcile_all_stuck_finalize_jobs_def reconcile_jobs_by_staging_table_def reconcile_one_job_def reconcile_no_staging_def
    complete_swapped_job_def live_count_def Let_def if_True
  by (intro keeps_view_judgements keeps_view_plain keeps_view_reads keeps_intros)

end

text \<open>The queries of a dry run only read.\<close>

lemma same_data_sym: "same_data p q \<Longrightarrow> same_data q p"
  by (simp add: same_data_def)

lemma reads_tx: "preserves (same_data p0) m \<Longrightarrow> preserves (same_data p0) (tx m)"
proof (rule preservesI)
  fix p assume m: "preserves (same_data p0) m" and p: "same_data p0 p"
  have "same_data p0 (snd (all_or_nothing m q))" if "same_data p0 q" for q
    using preservesD [OF m that] that by (auto simp: all_or_nothing_def split: prod.split sum.split)
  then show "same_data p0 (snd (tx m p))"
    using p by (auto simp: tx_def same_data_def split: list.split option.split)
qed

lemma reads_statements:
  "preserves (same_data p0) (table_exists rel)" "preserves (same_data p0) (partition_is_attached rel)"
  "preserves (same_data p0) (resolve_features_partition_relname c)" "preserves (same_data p0) (gets f)"
  "preserves (same_data p0) (select_rows rel)"
  by (auto simp: triple_def table_exists_def partition_is_attached_def resolve_features_partition_relname_def gets_def
      select_rows_def raise_def ret_def split: option.split)

lemma reads_for_each: "(\<And>x a. preserves I (body x a)) \<Longrightarrow> preserves I (for_each xs body acc)"
  by (rule triple_for_each) blast

lemma reads_queries:
  "preserves (same_data p0) (staging_table_exists_sync i)" "preserves (same_data p0) (staging_row_count_sync i)"
  "preserves (same_data p0) (partition_swap_already_complete_sync c rel)" "preserves (same_data p0) (resolve_features_partition_relname_sync c)"
  "preserves (same_data p0) list_attached_feature_partitions_sync" "preserves (same_data p0) (would_drop h)"
  unfolding staging_table_exists_sync_def staging_row_count_sync_def partition_swap_already_complete_sync_def
    resolve_features_partition_relname_sync_def list_attached_feature_partitions_sync_def would_drop_def Let_def case_prod_beta
  by (intro reads_tx reads_statements reads_for_each preserves_plain isolation_comb)+

definition reads_world :: "pg \<Rightarrow> (string \<rightharpoonup> int \<times> int option) \<Rightarrow> 's fenv \<Rightarrow> bool" where
  "reads_world p0 rows w \<longleftrightarrow> same_data p0 (pgdb w) \<and> coll_rows w = rows"

lemma reads_on_pg: "preserves (same_data p0) m \<Longrightarrow> preserves (reads_world p0 rows) (on_pg m)"
  by (rule preservesI) (auto simp: reads_world_def on_pg_def dest: preservesD split: prod.split)

lemma keeps_reads: "keeps outside_redis m \<Longrightarrow> preserves (reads_world p0 rows) m"
  by (rule preservesI) (simp add: keeps_def outside_redis_def reads_world_def)

lemma dry_run_database: "preserves (reads_world p0 rows) (reconcile_all_stuck_finalize_jobs srv cfg h n ext True limit)"
  unfolding reconcile_all_stuck_finalize_jobs_def reconcile_jobs_by_staging_table_def reconcile_one_job_def reconcile_no_staging_def
    complete_swapped_job_def live_count_def Let_def if_True
  by (intro reads_on_pg reads_queries reads_tx reads_statements reads_for_each preserves_plain preserves_case_sum isolation_comb
      keeps_reads keeps_intros)

section \<open>Properties\<close>

text \<open>C25: Repairing one stuck job. Whatever Redis does and whatever the database refuses, returning or raising, the
  repair keeps the tables well formed and the features of every collection but the job's, provided, as for finalizing, that no
  partition of another collection has the same bound as the job's collection once spaces are removed, the staging
  table holds rows of the job's collection only and is attached, if at all, to that collection, and the computation of
  the extent writes no features.\<close>

theorem reconcile_touches_one_collection:
  fixes w :: "'s fenv"
  assumes "pg_ok (pgdb w)" and "unambiguous (pgdb w) (j_collection_id job)"
    and "\<And>rows r. tables (pgdb w) (staging_table_name (j_job_id job)) = Some rows \<Longrightarrow> r \<in> set rows \<Longrightarrow> fcid r = j_collection_id job"
    and "\<And>c. (staging_table_name (j_job_id job), c) \<in> set (parts (pgdb w)) \<Longrightarrow> c = j_collection_id job"
    and "keeps pgdb (ext (j_collection_id job))" and "c \<noteq> j_collection_id job"
  shows "pg_ok (pgdb (snd (reconcile_one_job srv cfg h n ext dry_run job stats w))) \<and>
    features_of (pgdb (snd (reconcile_one_job srv cfg h n ext dry_run job stats w))) c = features_of (pgdb w) c"
proof -
  let ?F = "elsewhere (j_collection_id job) (pgdb w)"
  have "isolated (j_collection_id job) (staging_table_name (j_job_id job)) ?F (pgdb w)" using assms(1-4) by (auto simp: isolated_def)
  then have "isolated (j_collection_id job) (staging_table_name (j_job_id job)) ?F
      (pgdb (snd (reconcile_one_job srv cfg h n ext dry_run job stats w)))"
    by (rule preservesD [OF reconcile_one_isolated [where ext = ext and job = job, OF assms(5)]])
  then show ?thesis using isolated_features [OF assms(1) _ assms(6)] by (simp add: isolated_def)
qed

theorem reconcile_touches_one_collection_witness:
  "features_of (pgdb (snd (reconcile_one_job mem_srv default_settings id 1 (\<lambda>_. ret ()) False (as_read example_job) no_stats example_world))) ''b'' =
     [row_of ''b'' ''1'' 1]"
proof -
  let ?w = "snd (reconcile_one_job mem_srv default_settings id 1 (\<lambda>_. ret ()) False (as_read example_job) no_stats example_world)"
  have "pg_ok (pgdb ?w) \<and> features_of (pgdb ?w) ''b'' = features_of (pgdb example_world) ''b''"
    by (rule reconcile_touches_one_collection)
      (use example_promotable in \<open>auto simp: promotable_def example_job_def as_read_def new_job_def keeps_ret image_iff row_of_def\<close>)
  moreover have "features_of (pgdb example_world) ''b'' = [row_of ''b'' ''1'' 1]"
    by (simp add: example_world_def features_of_def all_features_def example_pg_def row_of_def)
  ultimately show ?thesis by simp
qed

text \<open>A dry run is one: on a Redis server that may lose requests and replies and a database that may refuse any transaction,
  no table, partition, row, collection row or Redis key has changed when it ends, with a report or with an exception.\<close>

theorem reconcile_dry_run_changes_nothing:
  fixes w :: "'s fenv" and cfg :: settings and h :: "string \<Rightarrow> string" and n :: nat and limit :: int
    and ext :: "string \<Rightarrow> ('s fenv, unit) prog"
  assumes "redis_server srv view"
  defines "w' \<equiv> snd (reconcile_all_stuck_finalize_jobs srv cfg h n ext True limit w)"
  shows "same_data (pgdb w) (pgdb w') \<and> coll_rows w' = coll_rows w \<and> view (rds w') = view (rds w)"
proof -
  have "reads_world (pgdb w) (coll_rows w) w'"
    unfolding w'_def by (rule preservesD [OF dry_run_database]) (simp add: reads_world_def)
  then show ?thesis using keepsD [OF redis_server.dry_run_view [OF assms(1)]] by (simp add: reads_world_def w'_def)
qed

theorem reconcile_dry_run_changes_nothing_witness:
  "features_of (pgdb (snd (reconcile_all_stuck_finalize_jobs mem_srv default_settings id 1 (\<lambda>_. ret ()) True 10 example_world))) ''a'' =
     [row_of ''a'' ''1'' 1]"
proof -
  have "features_of (pgdb (snd (reconcile_all_stuck_finalize_jobs mem_srv default_settings id 1 (\<lambda>_. ret ()) True 10 example_world))) ''a'' =
      features_of (pgdb example_world) ''a''"
    using reconcile_dry_run_changes_nothing [OF mem.redis_server_axioms] same_data_features by blast
  then show ?thesis by (simp add: example_world_def features_of_def all_features_def example_pg_def row_of_def)
qed

text \<open>The watchdog's pass leaves the database alone unless it is told to fail stale jobs: whatever Redis and the database
  do, with the setting that goes with the finalize queue it only counts staged rows.\<close>

theorem watchdog_pass_only_reads_database:
  fixes w :: "'s fenv"
  assumes "\<not> or_else fail_stale_running (should_fail_stale_running cfg)"
  shows "same_data (pgdb w) (pgdb (snd (run_bulk_watchdog_pass srv cfg names fail_stale_running w))) \<and>
    coll_rows (snd (run_bulk_watchdog_pass srv cfg names fail_stale_running w)) = coll_rows w"
proof -
  have "preserves (reads_world (pgdb w) (coll_rows w)) (run_bulk_watchdog_pass srv cfg names fail_stale_running)"
    unfolding run_bulk_watchdog_pass_def fail_stale_pending_mutex_holders_def recover_stale_running_jobs_with_staging_def scan_mutex_keys_def
      should_attempt_running_staging_recovery_def recover_running_job_to_finalize_def staged_or_0_def reclaim_stale_collection_bulk_mutex_def
      pending_mutex_holder_is_stale_def Let_def if_not_P [OF assms]
    by (intro reads_on_pg reads_queries reads_for_each preserves_plain isolation_comb keeps_reads keeps_intros)
  then have "reads_world (pgdb w) (coll_rows w) (snd (run_bulk_watchdog_pass srv cfg names fail_stale_running w))"
    by (rule preservesD) (simp add: reads_world_def)
  then show ?thesis by (simp add: reads_world_def)
qed

theorem watchdog_pass_only_reads_database_witness:
  "same_data (pgdb example_world) (pgdb (snd (run_bulk_watchdog_pass mem_srv default_settings [''bulk_staging_j''] None example_world)))"
  using watchdog_pass_only_reads_database [of None default_settings example_world mem_srv "[''bulk_staging_j'']"]
  by (simp add: should_fail_stale_running_def default_settings_def)

end
