(* ===== verification/Tile_Cache.thy ===== *)
theory Tile_Cache
  imports Redis_Client Json_Fields "HOL-Library.List_Lexorder" "HOL-Library.Char_ord" "HOL-Library.Multiset"
begin

text \<open>
  The Redis caches of the read paths: \<^verbatim>\<open>app/services/dynamic_tile_cache.py\<close> (tiles, parametrised
  tiles, item lists, search results), \<^verbatim>\<open>composite_tiles_cache.py\<close>, \<^verbatim>\<open>stac_search_cache.py\<close> and
  \<^verbatim>\<open>titiler_tile_cache.py\<close>. Cached bytes and the text they encode are both character lists (content
  types are ASCII); \<open>sha\<close> stands for the hexadecimal SHA-256 digest. \<^verbatim>\<open>scan_iter\<close> and a loop over the pages
  of \<^verbatim>\<open>SCAN\<close> are one enumeration of the matching keys.

  Shown: what is put under a key is what is read back and no other key is served it, because the key
  functions are injective on the inputs they separate (locale \<open>cache_keys\<close>, interpreted on each of
  them); no cache operation raises, whatever the server does; dropping the cache of a collection removes exactly
  the keys it names. The item lists of a collection survive that.
\<close>

section \<open>Reading and writing one entry\<close>

text \<open>The shape all caches share: disabled by a non-positive time to live, and silent on failure.\<close>

definition cache_get :: "'s redis \<Rightarrow> int \<Rightarrow> string \<Rightarrow> (('s, 'z) env_scheme, string option) prog" where
  "cache_get srv ttl key = (if ttl \<le> 0 then ret None else catch (r_get srv key) (\<lambda>_. ret None))"

definition cache_put :: "'s redis \<Rightarrow> int \<Rightarrow> string \<Rightarrow> string \<Rightarrow> (('s, 'z) env_scheme, unit) prog" where
  "cache_put srv ttl key payload =
     (if ttl \<le> 0 then ret ()
      else catch (bnd (r_set srv key payload (Some ttl) False) (\<lambda>_. ret ())) (\<lambda>_. ret ()))"

section \<open>\<^verbatim>\<open>dynamic_tile_cache.py\<close>\<close>

definition DYNAMIC_TILE_CACHE_PREFIX :: string where
  "DYNAMIC_TILE_CACHE_PREFIX = ''geofastmap:dynamic_tile:v4:''"

definition DYNAMIC_TILE_CACHE_PARAMS_PREFIX :: string where
  "DYNAMIC_TILE_CACHE_PARAMS_PREFIX = ''geofastmap:dynamic_tile_p:v4:''"

definition SEARCH_RESULT_PREFIX :: string where
  "SEARCH_RESULT_PREFIX = ''geofastmap:search_result:''"

definition ITEMS_LIST_PREFIX :: string where
  "ITEMS_LIST_PREFIX = ''geofastmap:items_list:''"

definition cache_key :: "string \<Rightarrow> int \<Rightarrow> int \<Rightarrow> int \<Rightarrow> string" where
  "cache_key cid z x y =
     DYNAMIC_TILE_CACHE_PREFIX @ cid @ '':'' @ int_str z @ '':'' @ int_str x @ '':'' @ int_str y"

definition params_cache_key :: "string \<Rightarrow> int \<Rightarrow> int \<Rightarrow> int \<Rightarrow> string \<Rightarrow> string" where
  "params_cache_key cid z x y params_key =
     DYNAMIC_TILE_CACHE_PARAMS_PREFIX @ cid @ '':'' @ int_str z @ '':'' @ int_str x @ '':'' @ int_str y @ '':'' @ params_key"

definition search_result_key :: "string \<Rightarrow> string \<Rightarrow> string" where
  "search_result_key cid params_key = SEARCH_RESULT_PREFIX @ cid @ '':'' @ params_key"

definition items_list_key :: "string \<Rightarrow> string \<Rightarrow> string" where
  "items_list_key cid params_key = ITEMS_LIST_PREFIX @ cid @ '':'' @ params_key"

text \<open>The arguments of \<^verbatim>\<open>_params_key_from_query\<close>.\<close>

record tile_query =
  q_limit :: "int option"
  q_offset :: int
  q_sortby :: "string option"
  q_sortdesc :: bool
  q_bbox :: "string option"
  q_datetime :: "string option"
  q_filter :: "string list option"
  q_q :: "string option"
  q_ids :: "string option"
  q_properties :: "string option"

definition bool_str :: "bool \<Rightarrow> string" where
  "bool_str b = (if b then ''True'' else ''False'')"

definition limit_str :: "int option \<Rightarrow> string" where
  "limit_str limit = (case limit of None \<Rightarrow> ''None'' | Some n \<Rightarrow> int_str n)"

definition query_parts :: "tile_query \<Rightarrow> string list" where
  "query_parts q =
     [''l='' @ limit_str (q_limit q),
      ''o='' @ int_str (q_offset q),
      ''s='' @ or_else (q_sortby q) [],
      ''d='' @ bool_str (q_sortdesc q),
      ''b='' @ or_else (q_bbox q) [],
      ''dt='' @ or_else (q_datetime q) [],
      ''f='' @ join_with '','' (or_else (q_filter q) []),
      ''q='' @ or_else (q_q q) [],
      ''ids='' @ or_else (q_ids q) [],
      ''p='' @ or_else (q_properties q) []]"

definition query_text :: "tile_query \<Rightarrow> string" where
  "query_text q = join_with ''&'' (query_parts q)"

definition params_key_from_query :: "(string \<Rightarrow> string) \<Rightarrow> tile_query \<Rightarrow> string" where
  "params_key_from_query sha q = take 24 (sha (query_text q))"

definition get_tile :: "'s redis \<Rightarrow> settings \<Rightarrow> string \<Rightarrow> int \<Rightarrow> int \<Rightarrow> int \<Rightarrow> (('s, 'z) env_scheme, string option) prog" where
  "get_tile srv cfg cid z x y = cache_get srv (tiles_dynamic_cache_ttl_seconds cfg) (cache_key cid z x y)"

definition set_tile ::
    "'s redis \<Rightarrow> settings \<Rightarrow> string \<Rightarrow> int \<Rightarrow> int \<Rightarrow> int \<Rightarrow> string \<Rightarrow> (('s, 'z) env_scheme, unit) prog" where
  "set_tile srv cfg cid z x y payload =
     cache_put srv (tiles_dynamic_cache_ttl_seconds cfg) (cache_key cid z x y) payload"

definition get_tile_with_params ::
    "'s redis \<Rightarrow> settings \<Rightarrow> string \<Rightarrow> int \<Rightarrow> int \<Rightarrow> int \<Rightarrow> string \<Rightarrow> (('s, 'z) env_scheme, string option) prog" where
  "get_tile_with_params srv cfg cid z x y params_key =
     (if \<not> tiles_dynamic_cache_with_params cfg then ret None
      else cache_get srv (tiles_dynamic_cache_params_ttl_seconds cfg) (params_cache_key cid z x y params_key))"

definition set_tile_with_params ::
    "'s redis \<Rightarrow> settings \<Rightarrow> string \<Rightarrow> int \<Rightarrow> int \<Rightarrow> int \<Rightarrow> string \<Rightarrow> string \<Rightarrow> (('s, 'z) env_scheme, unit) prog" where
  "set_tile_with_params srv cfg cid z x y params_key payload =
     (if \<not> tiles_dynamic_cache_with_params cfg then ret ()
      else cache_put srv (tiles_dynamic_cache_params_ttl_seconds cfg) (params_cache_key cid z x y params_key) payload)"

definition get_items_list :: "'s redis \<Rightarrow> settings \<Rightarrow> string \<Rightarrow> string \<Rightarrow> (('s, 'z) env_scheme, string option) prog" where
  "get_items_list srv cfg cid params_key =
     cache_get srv (collections_items_cache_ttl_seconds cfg) (items_list_key cid params_key)"

definition set_items_list :: "'s redis \<Rightarrow> settings \<Rightarrow> string \<Rightarrow> string \<Rightarrow> string \<Rightarrow> (('s, 'z) env_scheme, unit) prog" where
  "set_items_list srv cfg cid params_key payload =
     cache_put srv (collections_items_cache_ttl_seconds cfg) (items_list_key cid params_key) payload"

definition get_search_result :: "'s redis \<Rightarrow> settings \<Rightarrow> string \<Rightarrow> string \<Rightarrow> (('s, 'z) env_scheme, string option) prog" where
  "get_search_result srv cfg cid params_key =
     cache_get srv (tiles_search_result_cache_ttl_seconds cfg) (search_result_key cid params_key)"

definition set_search_result :: "'s redis \<Rightarrow> settings \<Rightarrow> string \<Rightarrow> string \<Rightarrow> string \<Rightarrow> (('s, 'z) env_scheme, unit) prog" where
  "set_search_result srv cfg cid params_key payload =
     cache_put srv (tiles_search_result_cache_ttl_seconds cfg) (search_result_key cid params_key) payload"

definition cache_patterns :: "string \<Rightarrow> string list" where
  "cache_patterns cid =
     [DYNAMIC_TILE_CACHE_PREFIX @ cid @ '':*'', DYNAMIC_TILE_CACHE_PARAMS_PREFIX @ cid @ '':*'',
      SEARCH_RESULT_PREFIX @ cid @ '':*'']"

definition drop_matching :: "'s redis \<Rightarrow> string \<Rightarrow> (('s, 'z) env_scheme, unit) prog" where
  "drop_matching srv pattern =
     bnd (r_scan srv pattern) (\<lambda>ks. for_each ks (\<lambda>k _. bnd (r_delete srv [k]) (\<lambda>_. ret ())) ())"

definition invalidate_collection_cache :: "'s redis \<Rightarrow> string \<Rightarrow> (('s, 'z) env_scheme, unit) prog" where
  "invalidate_collection_cache srv cid =
     catch (for_each (cache_patterns cid) (\<lambda>p _. drop_matching srv p) ()) (\<lambda>_. ret ())"

section \<open>\<^verbatim>\<open>composite_tiles_cache.py\<close>\<close>

definition COMPOSITE_TILE_CACHE_PREFIX :: string where
  "COMPOSITE_TILE_CACHE_PREFIX = ''geofastmap:composite_tile:''"

definition composite_cache_key :: "string \<Rightarrow> int \<Rightarrow> int \<Rightarrow> int \<Rightarrow> string \<Rightarrow> string" where
  "composite_cache_key composite_id z x y revision =
     COMPOSITE_TILE_CACHE_PREFIX @ composite_id @ '':'' @ revision @ '':'' @ int_str z @ '':'' @ int_str x @ '':'' @ int_str y"

definition get_composite_tile ::
    "'s redis \<Rightarrow> settings \<Rightarrow> string \<Rightarrow> int \<Rightarrow> int \<Rightarrow> int \<Rightarrow> string \<Rightarrow> (('s, 'z) env_scheme, string option) prog" where
  "get_composite_tile srv cfg composite_id z x y revision =
     cache_get srv (composite_tiles_cache_ttl_seconds cfg) (composite_cache_key composite_id z x y revision)"

definition set_composite_tile ::
    "'s redis \<Rightarrow> settings \<Rightarrow> string \<Rightarrow> int \<Rightarrow> int \<Rightarrow> int \<Rightarrow> string \<Rightarrow> string \<Rightarrow> (('s, 'z) env_scheme, unit) prog" where
  "set_composite_tile srv cfg composite_id z x y revision payload =
     cache_put srv (composite_tiles_cache_ttl_seconds cfg) (composite_cache_key composite_id z x y revision) payload"

definition invalidate_composite_tiles_cache :: "'s redis \<Rightarrow> settings \<Rightarrow> string \<Rightarrow> (('s, 'z) env_scheme, unit) prog" where
  "invalidate_composite_tiles_cache srv cfg composite_id =
     (if composite_tiles_cache_ttl_seconds cfg \<le> 0 then ret ()
      else catch
        (bnd (r_scan srv (COMPOSITE_TILE_CACHE_PREFIX @ composite_id @ '':*'')) (\<lambda>keys.
         if keys = [] then ret () else bnd (r_delete srv keys) (\<lambda>_. ret ())))
        (\<lambda>_. ret ()))"

section \<open>\<^verbatim>\<open>stac_search_cache.py\<close>\<close>

definition STAC_SEARCH_PREFIX :: string where
  "STAC_SEARCH_PREFIX = ''geofastmap:stac_search:''"

definition STAC_COLLECTIONS_PREFIX :: string where
  "STAC_COLLECTIONS_PREFIX = ''geofastmap:stac_collections:v1:''"

definition STAC_ITEM_PREFIX :: string where
  "STAC_ITEM_PREFIX = ''geofastmap:stac_item:v1:''"

text \<open>\<^verbatim>\<open>json.dumps(..., sort_keys=True)\<close> prints the dicts of every level by ascending key.\<close>

fun sort_keys :: "json \<Rightarrow> json" where
  "sort_keys (JArr xs) = JArr (map sort_keys xs)"
| "sort_keys (JObj ps) = JObj (sort_key fst (map (\<lambda>p. (fst p, sort_keys (snd p))) ps))"
| "sort_keys j = j"

definition search_cache_key :: "(string \<Rightarrow> string) \<Rightarrow> (string \<times> json) list \<Rightarrow> string list option \<Rightarrow> string" where
  "search_cache_key sha body catalog_ids =
     STAC_SEARCH_PREFIX @ sha (dumps_compact (sort_keys (JObj
       [(''body'', JObj body),
        (''catalog_ids'', case catalog_ids of None \<Rightarrow> JNull | Some ids \<Rightarrow> if ids = [] then JNull else JStrs (sort ids))])))"

definition collections_cache_key :: "string \<Rightarrow> string" where
  "collections_cache_key catalog_id = STAC_COLLECTIONS_PREFIX @ catalog_id"

definition stac_item_redis_cache_key :: "string \<Rightarrow> string \<Rightarrow> string \<Rightarrow> string" where
  "stac_item_redis_cache_key catalog_id cid item_id = STAC_ITEM_PREFIX @ catalog_id @ '':'' @ cid @ '':'' @ item_id"

definition cache_get_str :: "'s redis \<Rightarrow> string \<Rightarrow> (('s, 'z) env_scheme, string option) prog" where
  "cache_get_str srv key = catch (r_get srv key) (\<lambda>_. ret None)"

definition cache_set_str :: "'s redis \<Rightarrow> string \<Rightarrow> string \<Rightarrow> int \<Rightarrow> (('s, 'z) env_scheme, unit) prog" where
  "cache_set_str srv key payload ttl_seconds = cache_put srv ttl_seconds key payload"

definition get_cached :: "'s redis \<Rightarrow> settings \<Rightarrow> string \<Rightarrow> (('s, 'z) env_scheme, json option) prog" where
  "get_cached srv cfg key =
     (if stac_search_cache_ttl_seconds cfg \<le> 0 then ret None
      else catch
        (bnd (r_get srv key) (\<lambda>raw.
         case raw of None \<Rightarrow> ret None | Some s \<Rightarrow> bnd (lift_exn (loads s)) (\<lambda>j. ret (Some j))))
        (\<lambda>_. ret None))"

definition set_cached :: "'s redis \<Rightarrow> settings \<Rightarrow> string \<Rightarrow> json \<Rightarrow> (('s, 'z) env_scheme, unit) prog" where
  "set_cached srv cfg key data = cache_put srv (stac_search_cache_ttl_seconds cfg) key (dumps_compact data)"

section \<open>\<^verbatim>\<open>titiler_tile_cache.py\<close>\<close>

definition TITILER_PREFIX :: string where
  "TITILER_PREFIX = ''geofastmap:titiler_tile:v1:''"

text \<open>\<^verbatim>\<open>n.to_bytes(2, "big")\<close> for a length below 65536, and back.\<close>

definition two_bytes :: "nat \<Rightarrow> string" where
  "two_bytes n = [char_of (n div 256), char_of (n mod 256)]"

definition from_two_bytes :: "char \<Rightarrow> char \<Rightarrow> nat" where
  "from_two_bytes a b = of_char a * 256 + of_char b"

definition pack :: "string \<Rightarrow> string \<Rightarrow> string" where
  "pack content_type body =
     (let ctb = (if length content_type > 65535 then take 65535 content_type else content_type)
      in two_bytes (length ctb) @ ctb @ body)"

definition unpack :: "string \<Rightarrow> (string \<times> string) option" where
  "unpack raw =
     (case raw of
        a # b # r \<Rightarrow>
          (let n = from_two_bytes a b
           in if length raw < 2 + n then None else Some (take n r, drop n r))
      | _ \<Rightarrow> None)"

definition cache_key_for_titiler_request ::
    "(string \<Rightarrow> string) \<Rightarrow> string \<Rightarrow> (string \<times> string) list \<Rightarrow> string option \<Rightarrow> string" where
  "cache_key_for_titiler_request sha forward_path param_pairs key_extra =
     TITILER_PREFIX @ sha (join_with [CHR 0x0A]
       (forward_path # map (\<lambda>(k, v). k @ [CHR 0x09] @ v) param_pairs
        @ (case key_extra of None \<Rightarrow> [] | Some e \<Rightarrow> if e = [] then [] else [''extra'' @ [CHR 0x09] @ e])))"

definition get_cached_tile :: "'s redis \<Rightarrow> settings \<Rightarrow> string \<Rightarrow> (('s, 'z) env_scheme, (string \<times> string) option) prog" where
  "get_cached_tile srv cfg key =
     (if titiler_tile_cache_ttl_seconds cfg \<le> 0 then ret None
      else catch
        (bnd (r_get srv key) (\<lambda>blob.
         case blob of
           None \<Rightarrow> ret None
         | Some raw \<Rightarrow> (if raw = [] then ret None
             else ret (case unpack raw of None \<Rightarrow> None | Some (ct, body) \<Rightarrow> Some (body, ct)))))
        (\<lambda>_. ret None))"

definition set_cached_tile ::
    "'s redis \<Rightarrow> settings \<Rightarrow> string \<Rightarrow> string \<Rightarrow> string \<Rightarrow> int option \<Rightarrow> (('s, 'z) env_scheme, unit) prog" where
  "set_cached_tile srv cfg key body content_type ttl_seconds =
     (let ttl = (case ttl_seconds of None \<Rightarrow> titiler_tile_cache_ttl_seconds cfg | Some t \<Rightarrow> t);
          max_b = titiler_tile_cache_max_body_bytes cfg
      in if ttl \<le> 0 \<or> body = [] then ret ()
         else if int (length body) > max_b then ret ()
         else if \<not> (starts_with ''image/'' content_type \<or> content_type = ''application/octet-stream'') then ret ()
         else catch
           (bnd (r_set srv key (pack (if content_type = [] then ''image/png'' else content_type) body) (Some ttl) False)
              (\<lambda>_. ret ()))
           (\<lambda>_. ret ()))"

section \<open>Keys\<close>

lemma int_str_chars: "c \<in> set (int_str i) \<Longrightarrow> c = CHR ''-'' \<or> is_ascii_digit c"
  by (auto simp: int_str_def dest: nat_str_digits split: if_splits)

lemma int_str_no_sep [simp]: "CHR '':'' \<notin> set (int_str i)" "CHR ''&'' \<notin> set (int_str i)"
  by (auto dest!: int_str_chars simp: is_ascii_digit_def)

text \<open>A text splits at its first separator, and at its last, in one way only.\<close>

lemma first_sep_unique:
  "s @ x # a = t @ x # b \<Longrightarrow> x \<notin> set s \<Longrightarrow> x \<notin> set t \<Longrightarrow> s = t \<and> a = b"
  using takeWhile_neq_sep [of x s a] takeWhile_neq_sep [of x t b] by auto

lemma last_sep_unique:
  assumes "a @ x # s = b @ x # t" and "x \<notin> set s" and "x \<notin> set t"
  shows "a = b \<and> s = t"
proof -
  have "rev s @ x # rev a = rev t @ x # rev b" using arg_cong [OF assms(1), of rev] by simp
  moreover have "x \<notin> set (rev s)" "x \<notin> set (rev t)" using assms by simp_all
  ultimately have "rev s = rev t \<and> rev a = rev b" by (rule first_sep_unique)
  then show ?thesis by simp
qed

lemma cache_key_inj: "inj (\<lambda>(cid, z, x, y). cache_key cid z x y)"
proof (rule injI, clarsimp simp only: prod.case prod.inject)
  fix c z x y c' z' x' y' assume "cache_key c z x y = cache_key c' z' x' y'"
  then have "(c @ '':'' @ int_str z @ '':'' @ int_str x) @ CHR '':'' # int_str y =
      (c' @ '':'' @ int_str z' @ '':'' @ int_str x') @ CHR '':'' # int_str y'"
    by (simp add: cache_key_def)
  from last_sep_unique [OF this] have y: "y = y'" and
    "(c @ '':'' @ int_str z) @ CHR '':'' # int_str x = (c' @ '':'' @ int_str z') @ CHR '':'' # int_str x'"
    by (simp_all add: int_str_inj)
  from last_sep_unique [OF this(2)] have x: "x = x'" and "c @ CHR '':'' # int_str z = c' @ CHR '':'' # int_str z'"
    by (simp_all add: int_str_inj)
  from last_sep_unique [OF this(2)] show "c = c' \<and> z = z' \<and> x = x' \<and> y = y'"
    using x y by (simp add: int_str_inj)
qed

definition no_colon :: "string \<Rightarrow> bool" where
  "no_colon s \<longleftrightarrow> CHR '':'' \<notin> set s"

lemma params_cache_key_inj:
  "inj_on (\<lambda>(cid, z, x, y, p). params_cache_key cid z x y p) {(cid, z, x, y, p). no_colon p}"
proof (rule inj_onI, clarsimp simp only: mem_Collect_eq prod.case prod.inject)
  fix c z x y p c' z' x' y' p'
  assume eq: "params_cache_key c z x y p = params_cache_key c' z' x' y' p'" and p: "no_colon p" "no_colon p'"
  then have "(c @ '':'' @ int_str z @ '':'' @ int_str x @ '':'' @ int_str y) @ CHR '':'' # p =
      (c' @ '':'' @ int_str z' @ '':'' @ int_str x' @ '':'' @ int_str y') @ CHR '':'' # p'"
    by (simp add: params_cache_key_def)
  from last_sep_unique [OF this] p
  have "cache_key c z x y = cache_key c' z' x' y'" "p = p'" by (simp_all add: no_colon_def cache_key_def)
  then show "c = c' \<and> z = z' \<and> x = x' \<and> y = y' \<and> p = p'"
    using injD [OF cache_key_inj, of "(c, z, x, y)" "(c', z', x', y')"] by simp
qed

lemma two_part_key_inj:
  "no_colon p \<Longrightarrow> no_colon p' \<Longrightarrow> c @ CHR '':'' # p = c' @ CHR '':'' # p' \<longleftrightarrow> c = c' \<and> p = p'"
  using last_sep_unique [of c "CHR '':''" p c' p'] by (auto simp: no_colon_def)

lemma search_result_key_inj: "inj_on (\<lambda>(cid, p). search_result_key cid p) {(cid, p). no_colon p}"
  by (rule inj_onI) (clarsimp simp: search_result_key_def two_part_key_inj)

lemma items_list_key_inj: "inj_on (\<lambda>(cid, p). items_list_key cid p) {(cid, p). no_colon p}"
  by (rule inj_onI) (clarsimp simp: items_list_key_def two_part_key_inj)

lemma composite_cache_key_inj:
  "inj_on (\<lambda>(cid, z, x, y, r). composite_cache_key cid z x y r) {(cid, z, x, y, r). no_colon r}"
proof (rule inj_onI, clarsimp simp only: mem_Collect_eq prod.case prod.inject)
  fix c z x y p c' z' x' y' p'
  assume eq: "composite_cache_key c z x y p = composite_cache_key c' z' x' y' p'" and p: "no_colon p" "no_colon p'"
  then have "cache_key (c @ '':'' @ p) z x y = cache_key (c' @ '':'' @ p') z' x' y'"
    by (simp add: composite_cache_key_def cache_key_def)
  then have "c @ '':'' @ p = c' @ '':'' @ p' \<and> z = z' \<and> x = x' \<and> y = y'"
    using injD [OF cache_key_inj, of "(c @ '':'' @ p, z, x, y)" "(c' @ '':'' @ p', z', x', y')"] by simp
  then show "c = c' \<and> z = z' \<and> x = x' \<and> y = y' \<and> p = p'" by (simp add: two_part_key_inj [OF p])
qed

lemma stac_item_key_inj:
  "inj_on (\<lambda>(cat, cid, i). stac_item_redis_cache_key cat cid i) {(cat, cid, i). no_colon cid \<and> no_colon i}"
proof (rule inj_onI, clarsimp simp only: mem_Collect_eq prod.case prod.inject)
  fix cat c i cat' c' i'
  assume n: "no_colon c" "no_colon i" "no_colon c'" "no_colon i'"
    and "stac_item_redis_cache_key cat c i = stac_item_redis_cache_key cat' c' i'"
  then have "(cat @ CHR '':'' # c) @ CHR '':'' # i = (cat' @ CHR '':'' # c') @ CHR '':'' # i'"
    by (simp add: stac_item_redis_cache_key_def)
  with n show "cat = cat' \<and> c = c' \<and> i = i'" by (simp only: two_part_key_inj simp_thms)
qed

lemma prefixes_apart:
  "search_result_key c p \<noteq> cache_key c' z x y" "search_result_key c p \<noteq> params_cache_key c' z x y q"
  "search_result_key c p \<noteq> items_list_key c' q" "cache_key c z x y \<noteq> params_cache_key c' z' x' y' q"
  "items_list_key c p \<noteq> cache_key c' z x y" "items_list_key c p \<noteq> params_cache_key c' z x y q"
  by (simp_all add: search_result_key_def cache_key_def params_cache_key_def items_list_key_def
      SEARCH_RESULT_PREFIX_def DYNAMIC_TILE_CACHE_PREFIX_def DYNAMIC_TILE_CACHE_PARAMS_PREFIX_def ITEMS_LIST_PREFIX_def)

section \<open>What is put is what is read\<close>

context redis_up
begin

lemma eval_cache_get:
  "fst (cache_get srv ttl key w) = Inr (if ttl \<le> 0 then None
     else case as_string (view (rds w) key) of None \<Rightarrow> None | Some (v, _) \<Rightarrow> v)"
  by (auto simp: cache_get_def prog_simps redis_simps split: option.split)

lemma view_cache_put:
  "view (rds (snd (cache_put srv ttl key payload w))) =
     (if ttl \<le> 0 then view (rds w) else (view (rds w))(key \<mapsto> (RString payload, Some ttl)))"
  by (auto simp: cache_put_def prog_simps redis_simps split: option.split)

end

locale cache_keys =
  fixes key :: "'k \<Rightarrow> string" and K :: "'k set"
  assumes key_inj: "inj_on key K"
begin

lemma put_then_get:
  assumes "redis_up srv view" and "k \<in> K" and "k' \<in> K" and "0 < ttl" and "0 < ttl'"
  shows "fst (cache_get srv ttl (key k') (snd (cache_put srv ttl' (key k) payload w))) =
     (if k' = k then Inr (Some payload) else fst (cache_get srv ttl (key k') w))"
proof -
  have "key k' = key k \<longleftrightarrow> k' = k" using assms key_inj by (auto dest: inj_onD)
  then show ?thesis
    using assms by (simp add: redis_up.eval_cache_get redis_up.view_cache_put redis_simps)
qed

end

interpretation tile_keys: cache_keys "\<lambda>(cid, z, x, y). cache_key cid z x y" UNIV
  by unfold_locales (rule cache_key_inj)

interpretation params_keys: cache_keys "\<lambda>(cid, z, x, y, p). params_cache_key cid z x y p" "{(cid, z, x, y, p). no_colon p}"
  by unfold_locales (rule params_cache_key_inj)

interpretation search_keys: cache_keys "\<lambda>(cid, p). search_result_key cid p" "{(cid, p). no_colon p}"
  by unfold_locales (rule search_result_key_inj)

interpretation items_keys: cache_keys "\<lambda>(cid, p). items_list_key cid p" "{(cid, p). no_colon p}"
  by unfold_locales (rule items_list_key_inj)

interpretation composite_keys: cache_keys "\<lambda>(cid, z, x, y, r). composite_cache_key cid z x y r" "{(cid, z, x, y, r). no_colon r}"
  by unfold_locales (rule composite_cache_key_inj)

interpretation stac_item_keys: cache_keys "\<lambda>(cat, cid, i). stac_item_redis_cache_key cat cid i"
    "{(cat, cid, i). no_colon cid \<and> no_colon i}"
  by unfold_locales (rule stac_item_key_inj)

text \<open>A tile put in the cache is the tile read back for the same collection and the same zoom,
  column and row, and putting it changes what is read for no other tile of any collection.\<close>

theorem tile_cache_roundtrip:
  assumes "redis_up srv view" and "0 < tiles_dynamic_cache_ttl_seconds cfg"
  shows "fst (get_tile srv cfg c z x y (snd (set_tile srv cfg c' z' x' y' payload w))) =
    (if (c, z, x, y) = (c', z', x', y') then Inr (Some payload) else fst (get_tile srv cfg c z x y w))"
  using tile_keys.put_then_get [OF assms(1), of "(c', z', x', y')" "(c, z, x, y)" "tiles_dynamic_cache_ttl_seconds cfg" "tiles_dynamic_cache_ttl_seconds cfg" payload w] assms(2)
  by (simp add: get_tile_def set_tile_def)

theorem tile_cache_roundtrip_witness:
  "fst (get_tile mem_srv default_settings ''roads'' 3 1 2
      (snd (set_tile mem_srv default_settings ''roads'' 3 1 2 ''mvt'' (env0 [])))) = Inr (Some ''mvt'')"
  using tile_cache_roundtrip [OF mem.redis_up_axioms, of default_settings "''roads''" 3 1 2 "''roads''" 3 1 2 "''mvt''" "env0 []"]
  by (simp add: default_settings_def)

text \<open>The same for the other caches of byte strings.\<close>

lemma params_tile_cache_roundtrip:
  assumes "redis_up srv view" and "0 < tiles_dynamic_cache_params_ttl_seconds cfg" and "tiles_dynamic_cache_with_params cfg"
    and "no_colon p" and "no_colon p'"
  shows "fst (get_tile_with_params srv cfg c z x y p (snd (set_tile_with_params srv cfg c' z' x' y' p' payload w))) =
    (if (c, z, x, y, p) = (c', z', x', y', p') then Inr (Some payload) else fst (get_tile_with_params srv cfg c z x y p w))"
  using params_keys.put_then_get [OF assms(1), of "(c', z', x', y', p')" "(c, z, x, y, p)" "tiles_dynamic_cache_params_ttl_seconds cfg" "tiles_dynamic_cache_params_ttl_seconds cfg" payload w] assms(2-)
  by (simp add: get_tile_with_params_def set_tile_with_params_def)

lemma search_result_roundtrip:
  assumes "redis_up srv view" and "0 < tiles_search_result_cache_ttl_seconds cfg" and "no_colon p" and "no_colon p'"
  shows "fst (get_search_result srv cfg c p (snd (set_search_result srv cfg c' p' payload w))) =
    (if (c, p) = (c', p') then Inr (Some payload) else fst (get_search_result srv cfg c p w))"
  using search_keys.put_then_get [OF assms(1), of "(c', p')" "(c, p)" "tiles_search_result_cache_ttl_seconds cfg" "tiles_search_result_cache_ttl_seconds cfg" payload w] assms(2-)
  by (simp add: get_search_result_def set_search_result_def)

lemma items_list_roundtrip:
  assumes "redis_up srv view" and "0 < collections_items_cache_ttl_seconds cfg" and "no_colon p" and "no_colon p'"
  shows "fst (get_items_list srv cfg c p (snd (set_items_list srv cfg c' p' payload w))) =
    (if (c, p) = (c', p') then Inr (Some payload) else fst (get_items_list srv cfg c p w))"
  using items_keys.put_then_get [OF assms(1), of "(c', p')" "(c, p)" "collections_items_cache_ttl_seconds cfg" "collections_items_cache_ttl_seconds cfg" payload w] assms(2-)
  by (simp add: get_items_list_def set_items_list_def)

lemma composite_tile_roundtrip:
  assumes "redis_up srv view" and "0 < composite_tiles_cache_ttl_seconds cfg" and "no_colon r" and "no_colon r'"
  shows "fst (get_composite_tile srv cfg c z x y r (snd (set_composite_tile srv cfg c' z' x' y' r' payload w))) =
    (if (c, z, x, y, r) = (c', z', x', y', r') then Inr (Some payload) else fst (get_composite_tile srv cfg c z x y r w))"
  using composite_keys.put_then_get [OF assms(1), of "(c', z', x', y', r')" "(c, z, x, y, r)" "composite_tiles_cache_ttl_seconds cfg" "composite_tiles_cache_ttl_seconds cfg" payload w] assms(2-)
  by (simp add: get_composite_tile_def set_composite_tile_def)

section \<open>Titiler tiles and STAC searches\<close>

lemma two_bytes_back: "n < 65536 \<Longrightarrow> two_bytes n = [a, b] \<Longrightarrow> from_two_bytes a b = n"
  by (auto simp: two_bytes_def from_two_bytes_def)

lemma unpack_pack: "unpack (pack ct body) = Some (take 65535 ct, body)"
proof -
  let ?t = "if length ct > 65535 then take 65535 ct else ct"
  have t: "?t = take 65535 ct" by simp
  have "from_two_bytes (char_of (length ?t div 256)) (char_of (length ?t mod 256)) = length ?t"
    by (rule two_bytes_back) (auto simp: two_bytes_def)
  moreover have "take (min (length ct) 65535) ct = take 65535 ct" by (simp add: min_def)
  ultimately show ?thesis by (simp add: pack_def Let_def two_bytes_def unpack_def t)
qed

definition cacheable_tile :: "settings \<Rightarrow> string \<Rightarrow> string \<Rightarrow> bool" where
  "cacheable_tile cfg body content_type \<longleftrightarrow>
     body \<noteq> [] \<and> int (length body) \<le> titiler_tile_cache_max_body_bytes cfg \<and> length content_type \<le> 65535 \<and>
     (starts_with ''image/'' content_type \<or> content_type = ''application/octet-stream'')"

context redis_up
begin

lemma titiler_put_get:
  assumes "0 < titiler_tile_cache_ttl_seconds cfg"
    and "length content_type \<le> 65535"
  shows "fst (get_cached_tile srv cfg k' (snd (set_cached_tile srv cfg k body content_type None w))) =
    (if k' = k \<and> cacheable_tile cfg body content_type then Inr (Some (body, content_type))
     else fst (get_cached_tile srv cfg k' w))"
proof -
  have ct: "content_type \<noteq> []" if "cacheable_tile cfg body content_type"
    using that by (auto simp: cacheable_tile_def starts_with_def)
  have p: "unpack (pack content_type body) = Some (content_type, body)" "pack content_type body \<noteq> []"
    using assms(2) unpack_pack [of content_type body] by (auto simp: pack_def two_bytes_def Let_def)
  show ?thesis
  proof (cases "cacheable_tile cfg body content_type")
    case True
    then have "view (rds (snd (set_cached_tile srv cfg k body content_type None w))) =
        (view (rds w))(k \<mapsto> (RString (pack content_type body), Some (titiler_tile_cache_ttl_seconds cfg)))"
      using assms(1) ct by (auto simp: set_cached_tile_def cacheable_tile_def Let_def prog_simps redis_simps split: option.split)
    with True assms(1) p show ?thesis
      by (auto simp: get_cached_tile_def prog_simps redis_simps split: option.split)
  next
    case False
    then have "snd (set_cached_tile srv cfg k body content_type None w) = w"
      using assms(2) by (auto simp: set_cached_tile_def cacheable_tile_def Let_def prog_simps)
    with False show ?thesis by simp
  qed
qed

lemma search_put_get:
  assumes "0 < stac_search_cache_ttl_seconds cfg" and "json_ok data"
  shows "fst (get_cached srv cfg k' (snd (set_cached srv cfg k data w))) =
    (if k' = k then Inr (Some data) else fst (get_cached srv cfg k' w))"
  using assms by (auto simp: get_cached_def set_cached_def view_cache_put prog_simps redis_simps split: option.split sum.split)

end

text \<open>A proxied raster tile that may be cached is read back with its own body and content type,
  under every other key nothing changes, and a tile that may not be cached is not written.\<close>

theorem titiler_tile_roundtrip:
  assumes "redis_up srv view" and "0 < titiler_tile_cache_ttl_seconds cfg"
    and "length content_type \<le> 65535"
  shows "fst (get_cached_tile srv cfg k' (snd (set_cached_tile srv cfg k body content_type None w))) =
    (if k' = k \<and> cacheable_tile cfg body content_type then Inr (Some (body, content_type))
     else fst (get_cached_tile srv cfg k' w))"
  using assms by (rule redis_up.titiler_put_get)

theorem titiler_tile_roundtrip_witness:
  "fst (get_cached_tile mem_srv default_settings ''k''
      (snd (set_cached_tile mem_srv default_settings ''k'' ''PNG'' ''image/png'' None (env0 [])))) = Inr (Some (''PNG'', ''image/png''))"
  using titiler_tile_roundtrip [OF mem.redis_up_axioms, of default_settings "''image/png''" "''k''" "''k''" "''PNG''" "env0 []"]
  by (simp add: default_settings_def cacheable_tile_def starts_with_def)

subsection \<open>The key of a search\<close>

lemma sort_key_fst_perm:
  assumes "mset ps = mset qs" and "distinct (map fst ps)"
  shows "sort_key fst ps = sort_key fst qs"
proof -
  have "distinct (map fst qs)" using assms by (metis distinct_map mset_eq_imp_distinct_iff set_mset_mset)
  moreover have "mset (sort_key fst ps) = mset (sort_key fst qs)" using assms by simp
  ultimately show ?thesis
    using assms(2) by (intro map_sorted_distinct_set_unique [where f = fst])
      (auto simp: distinct_map dest: mset_eq_setD)
qed

text \<open>The key under which a federated search is cached does not depend on the order in which the
  client wrote the members of the request body nor on the order of the catalogues asked.\<close>

theorem search_cache_key_canonical:
  assumes "mset body = mset body'" and "distinct (map fst body)" and "mset ids = mset ids'"
  shows "search_cache_key sha body (Some ids) = search_cache_key sha body' (Some ids')"
proof -
  have "ids = [] \<longleftrightarrow> ids' = []" using assms(3) by auto
  moreover have "sort ids = sort ids'" using assms(3) by (metis sorted_list_of_multiset_mset)
  moreover have "sort_keys (JObj body) = sort_keys (JObj body')"
    using assms(1, 2) by (auto intro!: sort_key_fst_perm simp: comp_def)
  ultimately show ?thesis by (simp add: search_cache_key_def)
qed

theorem search_cache_key_canonical_witness:
  "search_cache_key (\<lambda>s. s) [(''limit'', JInt 5), (''bbox'', JNull)] (Some [''b'', ''a'']) =
   search_cache_key (\<lambda>s. s) [(''bbox'', JNull), (''limit'', JInt 5)] (Some [''a'', ''b''])"
  by (rule search_cache_key_canonical) (simp_all add: add_mset_commute)

section \<open>The key of a query\<close>

text \<open>Two requests get the same text only when they ask the same thing, provided that no value holds
  the separators \<^verbatim>\<open>&\<close> and, in a filter, \<^verbatim>\<open>,\<close>.\<close>

definition no_amp :: "string option \<Rightarrow> bool" where
  "no_amp s \<longleftrightarrow> CHR ''&'' \<notin> set (or_else s [])"

definition clean_query :: "tile_query \<Rightarrow> bool" where
  "clean_query q \<longleftrightarrow> no_amp (q_sortby q) \<and> no_amp (q_bbox q) \<and> no_amp (q_datetime q) \<and> no_amp (q_q q) \<and>
     no_amp (q_ids q) \<and> no_amp (q_properties q) \<and>
     (\<forall>f\<in>set (or_else (q_filter q) []). f \<noteq> [] \<and> CHR ''&'' \<notin> set f \<and> CHR '','' \<notin> set f)"

definition asked :: "tile_query \<Rightarrow> tile_query" where
  "asked q = q\<lparr>q_sortby := Some (or_else (q_sortby q) []), q_bbox := Some (or_else (q_bbox q) []),
     q_datetime := Some (or_else (q_datetime q) []), q_filter := Some (or_else (q_filter q) []),
     q_q := Some (or_else (q_q q) []), q_ids := Some (or_else (q_ids q) []),
     q_properties := Some (or_else (q_properties q) [])\<rparr>"

lemma int_str_not_None: "int_str n \<noteq> ''None''"
proof
  assume "int_str n = ''None''"
  then have "CHR ''N'' \<in> set (int_str n)" by simp
  then show False by (auto dest!: int_str_chars simp: is_ascii_digit_def)
qed

lemma limit_str_inj: "limit_str a = limit_str b \<longleftrightarrow> a = b"
  using int_str_not_None by (auto simp: limit_str_def int_str_inj split: option.split) metis

lemma bool_str_no_amp [simp]: "CHR ''&'' \<notin> set (bool_str b)"
  by (simp add: bool_str_def)

lemma limit_str_no_amp [simp]: "CHR ''&'' \<notin> set (limit_str a)"
  by (simp add: limit_str_def split: option.split)

lemma join_with_inj:
  assumes "\<forall>x\<in>set xs. c \<notin> set x" and "\<forall>y\<in>set ys. c \<notin> set y" and "xs \<noteq> []" and "ys \<noteq> []"
    and "join_with [c] xs = join_with [c] ys"
  shows "xs = ys"
  using assms
proof (induction xs arbitrary: ys rule: induct_list012)
  case (2 x)
  then show ?case
    by (cases ys rule: remdups_adj.cases) (auto dest: arg_cong [where f = set])
next
  case (3 x x' xs)
  then obtain y y' zs where ys: "ys = y # y' # zs"
    by (cases ys rule: remdups_adj.cases) (auto dest: arg_cong [where f = set])
  have "x = y \<and> join_with [c] (x' # xs) = join_with [c] (y' # zs)"
    by (rule first_sep_unique [of _ c]) (use 3 ys in simp_all)
  moreover have "x' # xs = y' # zs" using 3 ys calculation by (intro "3.IH"(2)) simp_all
  ultimately show ?case using ys by simp
qed simp

lemma set_join_with: "set (join_with s xs) \<subseteq> set s \<union> (\<Union>x\<in>set xs. set x)"
  by (induction s xs rule: join_with.induct) auto

lemma join_with_filters:
  assumes "\<forall>f\<in>set fs. f \<noteq> [] \<and> CHR '','' \<notin> set f" and "\<forall>f\<in>set gs. f \<noteq> [] \<and> CHR '','' \<notin> set f"
    and "join_with '','' fs = join_with '','' gs"
  shows "fs = gs"
proof -
  have "join_with '','' xs \<noteq> []" if "xs \<noteq> []" "\<forall>f\<in>set xs. f \<noteq> []" for xs
    using that by (cases xs rule: remdups_adj.cases) auto
  then have "fs = [] \<longleftrightarrow> gs = []" using assms by (metis join_with.simps(1))
  then show ?thesis using assms join_with_inj [of fs "CHR '',''" gs] by blast
qed

text \<open>Two clean queries with the same text under the hash ask for the same page: a cached tile, search
  result or item list is never shared by different questions.\<close>

theorem query_text_separates:
  assumes "clean_query q" and "clean_query q'" and "query_text q = query_text q'"
  shows "asked q = asked q'"
proof -
  have amp: "list_all (\<lambda>t. CHR ''&'' \<notin> set t) (query_parts p)" if "clean_query p" for p
  proof -
    have "CHR ''&'' \<notin> set (join_with '','' (or_else (q_filter p) []))"
      using that set_join_with [of "'',''" "or_else (q_filter p) []"] by (fastforce simp: clean_query_def)
    then show ?thesis using that by (simp add: query_parts_def clean_query_def no_amp_def)
  qed
  have "query_parts q = query_parts q'"
  proof (rule join_with_inj [where c = "CHR ''&''"])
    show "\<forall>t\<in>set (query_parts q). CHR ''&'' \<notin> set t" "\<forall>t\<in>set (query_parts q'). CHR ''&'' \<notin> set t"
      using amp assms by (simp_all add: list_all_iff)
    show "query_parts q \<noteq> []" "query_parts q' \<noteq> []" by (simp_all add: query_parts_def)
    show "join_with ''&'' (query_parts q) = join_with ''&'' (query_parts q')" using assms(3) by (simp only: query_text_def)
  qed
  then have lim: "limit_str (q_limit q) = limit_str (q_limit q')" and off: "int_str (q_offset q) = int_str (q_offset q')"
    and desc: "bool_str (q_sortdesc q) = bool_str (q_sortdesc q')"
    and fil: "join_with '','' (or_else (q_filter q) []) = join_with '','' (or_else (q_filter q') [])"
    and texts: "or_else (q_sortby q) [] = or_else (q_sortby q') []" "or_else (q_bbox q) [] = or_else (q_bbox q') []"
      "or_else (q_datetime q) [] = or_else (q_datetime q') []" "or_else (q_q q) [] = or_else (q_q q') []"
      "or_else (q_ids q) [] = or_else (q_ids q') []" "or_else (q_properties q) [] = or_else (q_properties q') []"
    by (simp_all add: query_parts_def)
  have "or_else (q_filter q) [] = or_else (q_filter q') []"
    by (rule join_with_filters) (use assms(1, 2) fil in \<open>auto simp: clean_query_def\<close>)
  moreover have "q_limit q = q_limit q'" "q_offset q = q_offset q'" "q_sortdesc q = q_sortdesc q'"
    using lim off desc by (simp_all add: limit_str_inj int_str_inj bool_str_def split: if_splits)
  ultimately show ?thesis using texts by (cases q; cases q') (simp add: asked_def)
qed

theorem query_text_separates_witness:
  "let q = \<lparr>q_limit = Some 10, q_offset = 0, q_sortby = None, q_sortdesc = False, q_bbox = None, q_datetime = None,
        q_filter = Some [''a:eq:1'', ''b:eq:2''], q_q = None, q_ids = None, q_properties = None\<rparr>
   in clean_query q \<and> asked q = asked (q\<lparr>q_sortby := Some []\<rparr>)"
proof -
  define q where "q = \<lparr>q_limit = Some 10, q_offset = 0, q_sortby = None, q_sortdesc = False, q_bbox = None, q_datetime = None,
        q_filter = Some [''a:eq:1'', ''b:eq:2''], q_q = None, q_ids = None, q_properties = None\<rparr>"
  have "clean_query q" "clean_query (q\<lparr>q_sortby := Some []\<rparr>)" "query_text q = query_text (q\<lparr>q_sortby := Some []\<rparr>)"
    by (simp_all add: q_def clean_query_def no_amp_def query_text_def query_parts_def)
  with query_text_separates [OF this] show ?thesis by (simp add: q_def)
qed

text \<open>Without that proviso they do: one filter whose value holds a comma and two filters.\<close>

lemma query_text_collision:
  "query_text (q\<lparr>q_filter := Some [''name:eq:a,kind:eq:b'']\<rparr>) = query_text (q\<lparr>q_filter := Some [''name:eq:a'', ''kind:eq:b'']\<rparr>)"
  by (simp add: query_text_def query_parts_def)

section \<open>Dropping the cache of a collection\<close>

definition plain :: "string \<Rightarrow> bool" where
  "plain s \<longleftrightarrow> list_all (\<lambda>c. c \<notin> {CHR ''*'', CHR ''?'', CHR ''['', CHR 0x5C}) s"

lemma glob_star [simp]: "glob ''*'' s"
  by (induction s) simp_all

lemma glob_Nil: "glob [] s \<longleftrightarrow> s = []"
  by simp

lemma glob_plain_Cons:
  "c \<notin> {CHR ''*'', CHR ''?'', CHR ''['', CHR 0x5C} \<Longrightarrow> glob (c # p) s \<longleftrightarrow> (case s of [] \<Rightarrow> False | x # t \<Rightarrow> c = x \<and> glob p t)"
  by (simp split: list.split)

declare glob.simps [simp del]

lemma glob_prefix: "plain p \<Longrightarrow> glob (p @ ''*'') s \<longleftrightarrow> starts_with p s"
proof (induction p arbitrary: s)
  case (Cons c p)
  then show ?case by (cases s) (auto simp: plain_def starts_with_def glob_plain_Cons)
qed (simp add: starts_with_def)

lemma plain_append [simp]: "plain (a @ b) \<longleftrightarrow> plain a \<and> plain b"
  by (simp add: plain_def)

definition without :: "(string \<Rightarrow> bool) \<Rightarrow> store \<Rightarrow> store" where
  "without P st = (\<lambda>k. if P k then None else st k)"

lemma without_twice [simp]: "without P (without Q st) = without (\<lambda>k. P k \<or> Q k) st"
  by (auto simp: without_def)

context redis_up
begin

lemma view_delete_all:
  "fst (for_each ks (\<lambda>k _. bnd (r_delete srv [k]) (\<lambda>_. ret ())) () w) = Inr ()"
  "view (rds (snd (for_each ks (\<lambda>k _. bnd (r_delete srv [k]) (\<lambda>_. ret ())) () w))) = without (\<lambda>k. k \<in> set ks) (view (rds w))"
  by (induction ks arbitrary: w) (simp_all add: prog_simps redis_simps without_def fun_eq_iff)

lemma view_drop_matching:
  "fst (drop_matching srv p w) = Inr ()"
  "view (rds (snd (drop_matching srv p w))) = without (glob p) (view (rds w))"
proof -
  obtain ks where ks: "fst (r_scan srv p w) = Inr ks" "set ks = {k. view (rds w) k \<noteq> None \<and> glob p k}"
    using eval_scan by blast
  then show "fst (drop_matching srv p w) = Inr ()" by (simp add: drop_matching_def prog_simps view_delete_all)
  show "view (rds (snd (drop_matching srv p w))) = without (glob p) (view (rds w))"
    using ks by (auto simp: drop_matching_def prog_simps redis_simps view_delete_all without_def fun_eq_iff) (metis option.exhaust surj_pair)
qed

lemma view_invalidate:
  "view (rds (snd (invalidate_collection_cache srv cid w))) = without (\<lambda>k. \<exists>p\<in>set (cache_patterns cid). glob p k) (view (rds w))"
  by (simp add: invalidate_collection_cache_def cache_patterns_def prog_simps view_drop_matching)
     (simp add: without_def fun_eq_iff)

end

definition cached_for :: "string \<Rightarrow> string \<Rightarrow> bool" where
  "cached_for cid k \<longleftrightarrow> starts_with (DYNAMIC_TILE_CACHE_PREFIX @ cid @ '':'') k \<or>
     starts_with (DYNAMIC_TILE_CACHE_PARAMS_PREFIX @ cid @ '':'') k \<or> starts_with (SEARCH_RESULT_PREFIX @ cid @ '':'') k"

lemma cache_patterns_plain: "plain cid \<Longrightarrow> (\<exists>p\<in>set (cache_patterns cid). glob p k) \<longleftrightarrow> cached_for cid k"
proof -
  assume p: "plain cid"
  have *: "glob (a @ cid @ '':*'') k \<longleftrightarrow> starts_with (a @ cid @ '':'') k" if "plain a" for a
    using glob_prefix [of "a @ cid @ '':''" k] p that by (simp add: plain_def)
  have "plain DYNAMIC_TILE_CACHE_PREFIX" "plain DYNAMIC_TILE_CACHE_PARAMS_PREFIX" "plain SEARCH_RESULT_PREFIX"
    by (simp_all add: plain_def DYNAMIC_TILE_CACHE_PREFIX_def DYNAMIC_TILE_CACHE_PARAMS_PREFIX_def SEARCH_RESULT_PREFIX_def)
  then show ?thesis by (simp add: cache_patterns_def cached_for_def *)
qed

text \<open>Dropping the cache of a collection whose id holds no glob character removes exactly the keys of
  its tiles, parametrised tiles and search results; no other key of the server changes.\<close>

theorem invalidate_drops_exactly:
  assumes "redis_up srv view" and "plain cid"
  shows "view (rds (snd (invalidate_collection_cache srv cid w))) = without (cached_for cid) (view (rds w))"
  by (simp add: redis_up.view_invalidate [OF assms(1)] cache_patterns_plain [OF assms(2)] without_def)

theorem invalidate_drops_exactly_witness:
  "map_of (rds (snd (invalidate_collection_cache mem_srv ''roads''
       (env0 [(cache_key ''roads'' 1 0 0, (RString ''mvt'', None)), (cache_key ''rivers'' 1 0 0, (RString ''mvt'', None))]))))
     (cache_key ''roads'' 1 0 0) = None"
proof -
  have p: "plain ''roads''" by (simp add: plain_def)
  have "cached_for ''roads'' (cache_key ''roads'' 1 0 0)"
    by (simp add: cached_for_def cache_key_def starts_with_def)
  then show ?thesis by (simp only: invalidate_drops_exactly [OF mem.redis_up_axioms p] without_def if_True)
qed

text \<open>The cached item lists of a collection are still served after its cache has been dropped: a
  list read before a feature was written is repeated until it expires.\<close>

theorem items_list_survives_invalidation:
  assumes "redis_up srv view" and "plain cid"
  shows "fst (get_items_list srv cfg c p (snd (invalidate_collection_cache srv cid w))) = fst (get_items_list srv cfg c p w)"
proof -
  have "\<not> cached_for cid (items_list_key c p)"
    by (simp add: cached_for_def items_list_key_def starts_with_def ITEMS_LIST_PREFIX_def DYNAMIC_TILE_CACHE_PREFIX_def
        DYNAMIC_TILE_CACHE_PARAMS_PREFIX_def SEARCH_RESULT_PREFIX_def)
  then show ?thesis
    using assms by (simp add: get_items_list_def redis_up.eval_cache_get redis_up.view_invalidate cache_patterns_plain without_def)
qed

theorem items_list_survives_invalidation_witness:
  "fst (get_items_list mem_srv default_settings ''roads'' ''ab'' (snd (invalidate_collection_cache mem_srv ''roads''
      (snd (set_items_list mem_srv default_settings ''roads'' ''ab'' ''stale'' (env0 [])))))) = Inr (Some ''stale'')"
proof -
  have p: "plain ''roads''" and k: "no_colon ''ab''" and t: "0 < collections_items_cache_ttl_seconds default_settings"
    by (simp_all add: plain_def no_colon_def default_settings_def)
  show ?thesis
    by (simp only: items_list_survives_invalidation [OF mem.redis_up_axioms p] items_list_roundtrip [OF mem.redis_up_axioms t k k] if_True refl)
qed

section \<open>No cache operation raises\<close>

lemma catch_ret_ok [simp]: "fst (catch m (\<lambda>_. ret a) w) \<noteq> Inl e"
  by (simp add: catch_def prog_simps split: sum.split)

text \<open>Whatever the Redis server does, no read, write or invalidation of a cache raises: a broken
  cache never breaks a request.\<close>

theorem cache_operations_never_raise:
  "\<not> isl (fst (get_tile srv cfg c z x y w)) \<and> \<not> isl (fst (set_tile srv cfg c z x y v w)) \<and>
   \<not> isl (fst (get_tile_with_params srv cfg c z x y p w)) \<and> \<not> isl (fst (set_tile_with_params srv cfg c z x y p v w)) \<and>
   \<not> isl (fst (get_items_list srv cfg c p w)) \<and> \<not> isl (fst (set_items_list srv cfg c p v w)) \<and>
   \<not> isl (fst (get_search_result srv cfg c p w)) \<and> \<not> isl (fst (set_search_result srv cfg c p v w)) \<and>
   \<not> isl (fst (invalidate_collection_cache srv c w)) \<and> \<not> isl (fst (get_composite_tile srv cfg c z x y p w)) \<and>
   \<not> isl (fst (set_composite_tile srv cfg c z x y p v w)) \<and> \<not> isl (fst (invalidate_composite_tiles_cache srv cfg c w)) \<and>
   \<not> isl (fst (get_cached srv cfg k w)) \<and> \<not> isl (fst (set_cached srv cfg k j w)) \<and>
   \<not> isl (fst (get_cached_tile srv cfg k w)) \<and> \<not> isl (fst (set_cached_tile srv cfg k v t ttl w))"
  by (auto simp: isl_def get_tile_def set_tile_def get_tile_with_params_def set_tile_with_params_def get_items_list_def
      set_items_list_def get_search_result_def set_search_result_def invalidate_collection_cache_def get_composite_tile_def
      set_composite_tile_def invalidate_composite_tiles_cache_def get_cached_def set_cached_def get_cached_tile_def
      set_cached_tile_def cache_get_def cache_put_def Let_def ret_eval)

end
