(* ===== verification/Tile_Jobs.thy ===== *)
theory Tile_Jobs
  imports Tile_Cache
begin

text \<open>
  The queue of dynamic tile jobs (\<^verbatim>\<open>push_tile_job\<close> and \<^verbatim>\<open>pop_tile_job\<close> of
  \<^verbatim>\<open>app/services/dynamic_tile_cache.py\<close>), its worker (\<^verbatim>\<open>app/tile_queue_worker.py\<close>, one job; the processes that
  run it in a loop are not modelled) and the single flight of \<^verbatim>\<open>app/services/search_result_cache.py\<close>.
  \<^verbatim>\<open>time.time()\<close> is a clock reading in seconds since 1970, exact to the microsecond and printed with six
  decimals. \<open>pop_loop n\<close> runs at most \<open>n\<close> rounds; its outer \<open>None\<close> says that it is still
  running, and one round more than there are queued jobs is shown to be enough. \<open>filt\<close> and \<open>enc\<close> stand for the
  selection of the features of a tile and their encoding, \<open>query\<close> for the database query.

  Shown: the queue is last in first out and never grows beyond its bound; popping ends and hands out the newest job
  that is not stale; the tiles a worker adds to the queue exist; looking twice for a search result runs the query
  once; the lock of a key survives fewer than 256 other keys.
\<close>

section \<open>Time and numbers\<close>

definition time_time :: "(('s, 'z) env_scheme, int) prog" where
  "time_time = bnd utcnow (\<lambda>t. ret (dt_micros t - dt_micros epoch))"

definition seconds_json :: "int \<Rightarrow> json" where
  "seconds_json us = JDec (us < 0) (nat (\<bar>us\<bar> div 1000000)) (pad 6 (nat (\<bar>us\<bar> mod 1000000)))"

definition dec_value :: "bool \<Rightarrow> nat \<Rightarrow> string \<Rightarrow> rat" where
  "dec_value neg n f =
     (let v = of_nat n + of_nat (or_else (digits_us 10 False 0 f) 0) / 10 ^ length f in if neg then - v else v)"

text \<open>\<^verbatim>\<open>float(x)\<close>; a text is read when it is a plain decimal literal.\<close>

definition float_text :: "string \<Rightarrow> exn + rat" where
  "float_text s =
     (case p_num (py_strip s) of
        Some (JInt i, []) \<Rightarrow> Inr (of_int i)
      | Some (JDec neg n f, []) \<Rightarrow> Inr (dec_value neg n f)
      | _ \<Rightarrow> Inl ValueError)"

definition json_float :: "json \<Rightarrow> exn + rat" where
  "json_float v =
     (case v of
        JInt i \<Rightarrow> Inr (of_int i)
      | JBool b \<Rightarrow> Inr (if b then 1 else 0)
      | JDec neg n f \<Rightarrow> Inr (dec_value neg n f)
      | JStr s \<Rightarrow> float_text s
      | _ \<Rightarrow> Inl TypeError)"

section \<open>The queue\<close>

definition TILE_JOBS_QUEUE_KEY :: string where
  "TILE_JOBS_QUEUE_KEY = ''geofastmap:tile_jobs''"

definition tile_job_fields :: "string \<Rightarrow> string \<Rightarrow> int \<Rightarrow> int \<Rightarrow> int \<Rightarrow> int \<Rightarrow> (string \<times> json) list" where
  "tile_job_fields cid params_key z x y now =
     [(''collection_id'', JStr cid), (''params_key'', JStr params_key), (''z'', JInt z), (''x'', JInt x), (''y'', JInt y),
      (''enqueued_at'', seconds_json now)]"

definition tile_job_payload :: "string \<Rightarrow> string \<Rightarrow> int \<Rightarrow> int \<Rightarrow> int \<Rightarrow> int \<Rightarrow> json" where
  "tile_job_payload cid params_key z x y now = JObj (tile_job_fields cid params_key z x y now)"

definition push_tile_job ::
    "'s redis \<Rightarrow> settings \<Rightarrow> string \<Rightarrow> string \<Rightarrow> int \<Rightarrow> int \<Rightarrow> int \<Rightarrow> (('s, 'z) env_scheme, unit) prog" where
  "push_tile_job srv cfg cid params_key z x y =
     catch
       (bnd time_time (\<lambda>now.
        let payload = dumps (tile_job_payload cid params_key z x y now); max_jobs = tiles_dynamic_queue_max_jobs cfg
        in r_pipe srv (LPush TILE_JOBS_QUEUE_KEY payload #
             (if max_jobs > 0 then [LTrim TILE_JOBS_QUEUE_KEY 0 (max_jobs - 1)] else []))))
       (\<lambda>_. ret ())"

text \<open>The age test on one decoded job: \<open>True\<close> when the job is dropped.\<close>

definition is_stale_job :: "rat \<Rightarrow> json \<Rightarrow> (('s, 'z) env_scheme, bool) prog" where
  "is_stale_job max_age job =
     (if max_age \<le> 0 then ret False
      else
        bnd (lift_exn (sbind (json_obj job) (\<lambda>d.
               let v = jget d ''enqueued_at'' in if truthy v then json_float v else Inr 0))) (\<lambda>enqueued_at.
        if enqueued_at = 0 then ret False
        else bnd time_time (\<lambda>now. ret (total_seconds now - enqueued_at > max_age))))"

primrec pop_loop :: "nat \<Rightarrow> 's redis \<Rightarrow> rat \<Rightarrow> rat \<Rightarrow> (('s, 'z) env_scheme, json option option) prog" where
  "pop_loop 0 srv deadline max_age = ret None"
| "pop_loop (Suc n) srv deadline max_age =
     bnd time_time (\<lambda>now.
     if deadline - total_seconds now \<le> 0 then ret (Some None)
     else
       bnd (r_blpop srv TILE_JOBS_QUEUE_KEY) (\<lambda>result.
       case result of
         None \<Rightarrow> ret (Some None)
       | Some payload \<Rightarrow>
           bnd (lift_exn (loads payload)) (\<lambda>job.
           bnd (is_stale_job max_age job) (\<lambda>stale.
           if stale then pop_loop n srv deadline max_age else ret (Some (Some job))))))"

definition pop_tile_job :: "nat \<Rightarrow> 's redis \<Rightarrow> settings \<Rightarrow> rat \<Rightarrow> (('s, 'z) env_scheme, json option option) prog" where
  "pop_tile_job n srv cfg timeout =
     catch
       (bnd time_time (\<lambda>now.
        pop_loop n srv (total_seconds now + max (5 / 100) timeout) (tiles_dynamic_queue_job_max_age_seconds cfg)))
       (\<lambda>_. ret (Some None))"

section \<open>The worker\<close>

definition adjacent_tiles :: "int \<Rightarrow> int \<Rightarrow> int \<Rightarrow> (int \<times> int \<times> int) list" where
  "adjacent_tiles z x y =
     (if z > 0 then [(z - 1, x div 2, y div 2)] else []) @
     (if z < 22 then [(z + 1, x * 2, y * 2), (z + 1, x * 2 + 1, y * 2), (z + 1, x * 2, y * 2 + 1), (z + 1, x * 2 + 1, y * 2 + 1)]
      else [])"

definition encode_job ::
    "(string \<Rightarrow> int \<Rightarrow> int \<Rightarrow> int \<Rightarrow> exn + string) \<Rightarrow> (string \<Rightarrow> string \<Rightarrow> int \<Rightarrow> int \<Rightarrow> int \<Rightarrow> exn + string) \<Rightarrow>
     's redis \<Rightarrow> settings \<Rightarrow> (string \<times> json) list \<Rightarrow> bool \<Rightarrow> (('s, 'z) env_scheme, string) prog" where
  "encode_job filt enc srv cfg job precompute_adjacent_zooms =
     bnd (lift_exn (sbind (jreq job ''collection_id'') j_str)) (\<lambda>collection_id.
     bnd (lift_exn (sbind (jreq job ''params_key'') j_str)) (\<lambda>params_key.
     bnd (lift_exn (sbind (jreq job ''z'') json_int)) (\<lambda>z.
     bnd (lift_exn (sbind (jreq job ''x'') json_int)) (\<lambda>x.
     bnd (lift_exn (sbind (jreq job ''y'') json_int)) (\<lambda>y.
     bnd (get_search_result srv cfg collection_id params_key) (\<lambda>geojson_bytes.
     case geojson_bytes of
       None \<Rightarrow> ret ''cache_miss''
     | Some bytes \<Rightarrow>
         if bytes = [] then ret ''cache_miss''
         else
           bnd (lift_exn (filt bytes z x y)) (\<lambda>filtered.
           case enc filtered collection_id z x y of
             Inl _ \<Rightarrow> ret ''encode_error''
           | Inr tile_bytes \<Rightarrow>
               bnd (set_tile_with_params srv cfg collection_id z x y params_key tile_bytes) (\<lambda>_.
               bnd (if precompute_adjacent_zooms
                    then for_each (adjacent_tiles z x y) (\<lambda>(z', x', y') _. push_tile_job srv cfg collection_id params_key z' x' y') ()
                    else ret ()) (\<lambda>_.
               ret ''ok'')))))))))"

definition process_one_job ::
    "(string \<Rightarrow> int \<Rightarrow> int \<Rightarrow> int \<Rightarrow> exn + string) \<Rightarrow> (string \<Rightarrow> string \<Rightarrow> int \<Rightarrow> int \<Rightarrow> int \<Rightarrow> exn + string) \<Rightarrow>
     nat \<Rightarrow> 's redis \<Rightarrow> settings \<Rightarrow> bool \<Rightarrow> (('s, 'z) env_scheme, bool option) prog" where
  "process_one_job filt enc n srv cfg precompute =
     bnd (pop_tile_job n srv cfg 5) (\<lambda>r.
     case r of
       None \<Rightarrow> ret None
     | Some None \<Rightarrow> ret (Some False)
     | Some (Some job) \<Rightarrow>
         if \<not> truthy job then ret (Some False)
         else bnd (lift_exn (json_obj job)) (\<lambda>d.
              bnd (encode_job filt enc srv cfg d precompute) (\<lambda>_. ret (Some True))))"

definition resolve_concurrency :: "int \<Rightarrow> int option \<Rightarrow> int" where
  "resolve_concurrency configured cpu_count =
     (if configured > 0 then max 1 configured
      else let cpus = (case cpu_count of None \<Rightarrow> 2 | Some n \<Rightarrow> if n = 0 then 2 else n) in max 1 (min cpus 8))"

section \<open>Single flight (\<^verbatim>\<open>search_result_cache.py\<close>)\<close>

definition MAX_CACHE_LOCKS :: nat where
  "MAX_CACHE_LOCKS = 256"

text \<open>The table of locks, oldest use first; a lock is known by its number.\<close>

type_synonym lock_table = "((string \<times> string) \<times> nat) list"

record 's senv = "'s env" +
  cache_locks :: lock_table
  next_lock :: nat

definition senv0 :: "'s \<Rightarrow> 's senv" where
  "senv0 s = \<lparr>rds = s, clock = noon, ticks = 0, uuids = (\<lambda>n. ''job'' @ nat_str n), uuid_n = 0, cache_locks = [], next_lock = 0\<rparr>"

function evict_oldest :: "lock_table \<Rightarrow> lock_table" where
  "evict_oldest ls = (if MAX_CACHE_LOCKS \<le> length ls \<and> ls \<noteq> [] then evict_oldest (tl ls) else ls)"
  by pat_completeness auto
termination
  by (relation "measure length") auto

declare evict_oldest.simps [simp del]

definition get_or_create_lock :: "string \<Rightarrow> string \<Rightarrow> (('s, 'z) senv_scheme, nat) prog" where
  "get_or_create_lock cid params_key = (\<lambda>w.
     let key = (cid, params_key); ls = cache_locks w in
     case map_of ls key of
       Some l \<Rightarrow> (Inr l, w\<lparr>cache_locks := filter (\<lambda>p. fst p \<noteq> key) ls @ [(key, l)]\<rparr>)
     | None \<Rightarrow> (Inr (next_lock w), w\<lparr>cache_locks := evict_oldest ls @ [(key, next_lock w)], next_lock := Suc (next_lock w)\<rparr>))"

definition parse_bbox :: "string option \<Rightarrow> (rat \<times> rat \<times> rat \<times> rat) option" where
  "parse_bbox bbox =
     (case bbox of
        None \<Rightarrow> None
      | Some s \<Rightarrow>
          if s = [] then None
          else (case map py_strip (split_max (length s) CHR '','' s) of
                  [a, b, c, d] \<Rightarrow>
                    (case (float_text a, float_text b, float_text c, float_text d) of
                       (Inr a, Inr b, Inr c, Inr d) \<Rightarrow> Some (a, b, c, d)
                     | _ \<Rightarrow> None)
                | _ \<Rightarrow> None))"

definition parse_ids :: "string option \<Rightarrow> string list option" where
  "parse_ids ids =
     (case ids of
        None \<Rightarrow> None
      | Some s \<Rightarrow> if s = [] then None
                  else Some (filter (\<lambda>i. i \<noteq> []) (map py_strip (split_max (length s) CHR '','' s))))"

text \<open>The part under the lock, then the whole.\<close>

definition fill_search_result ::
    "((rat \<times> rat \<times> rat \<times> rat) option \<Rightarrow> string list option \<Rightarrow> (('s, 'z) env_scheme, string) prog) \<Rightarrow>
     's redis \<Rightarrow> settings \<Rightarrow> string \<Rightarrow> string \<Rightarrow> string option \<Rightarrow> string option \<Rightarrow> (('s, 'z) env_scheme, bool) prog" where
  "fill_search_result query srv cfg cid params_key bbox ids =
     bnd (get_search_result srv cfg cid params_key) (\<lambda>hit.
     if hit \<noteq> None then ret True
     else catch
       (bnd (query (parse_bbox bbox) (parse_ids ids)) (\<lambda>geojson_bytes.
        bnd (set_search_result srv cfg cid params_key geojson_bytes) (\<lambda>_. ret True)))
       (\<lambda>_. ret False))"

definition ensure_search_result_cached ::
    "((rat \<times> rat \<times> rat \<times> rat) option \<Rightarrow> string list option \<Rightarrow> (('s, 'z) senv_scheme, string) prog) \<Rightarrow>
     's redis \<Rightarrow> settings \<Rightarrow> string \<Rightarrow> string \<Rightarrow> string option \<Rightarrow> string option \<Rightarrow> (('s, 'z) senv_scheme, bool) prog" where
  "ensure_search_result_cached query srv cfg cid params_key bbox ids =
     bnd (get_search_result srv cfg cid params_key) (\<lambda>hit.
     if hit \<noteq> None then ret True
     else bnd (get_or_create_lock cid params_key) (\<lambda>_. fill_search_result query srv cfg cid params_key bbox ids))"

section \<open>Numbers and clock readings\<close>

definition now_at :: "('s, 'z) env_scheme \<Rightarrow> nat \<Rightarrow> int" where
  "now_at w i = dt_micros (clock w i) - dt_micros epoch"

lemma time_time_eval [prog_simps]:
  "fst (time_time w) = Inr (now_at w (ticks w))" "snd (time_time w) = w\<lparr>ticks := Suc (ticks w)\<rparr>"
  by (simp_all add: time_time_def prog_simps now_at_def)

lemma now_at_update [simp]:
  "now_at (w\<lparr>ticks := n\<rparr>) = now_at w" "now_at (w\<lparr>rds := s\<rparr>) = now_at w"
  by (simp_all add: now_at_def fun_eq_iff)

lemma json_ok_seconds [simp]: "json_ok (seconds_json us)"
  using length_pad [of 6 "nat (\<bar>us\<bar> mod 1000000)"] by (auto simp: seconds_json_def list_all_iff pad_digits simp del: length_pad)

lemma json_ok_payload [simp]: "json_ok (tile_job_payload cid p z x y now)"
  by (simp add: tile_job_payload_def tile_job_fields_def)

lemma dec_value_pad: "n < 1000000 \<Longrightarrow> dec_value neg m (pad 6 n) = (if neg then - 1 else 1) * (of_nat m + of_nat n / 1000000)"
  using digits_us_pad [of 6 n] by (simp add: dec_value_def)

lemma total_seconds_parts: "total_seconds us =
    (if us < 0 then - 1 else 1) * (of_nat (nat (\<bar>us\<bar> div 1000000)) + of_nat (nat (\<bar>us\<bar> mod 1000000)) / 1000000)"
proof -
  have *: "of_nat (nat (a div 1000000)) + of_nat (nat (a mod 1000000)) / 1000000 = (of_int a / 1000000 :: rat)" if "0 \<le> a" for a :: int
  proof -
    have "(of_int a :: rat) = of_int (a div 1000000 * 1000000 + a mod 1000000)" by simp
    also have "\<dots> = of_int (a div 1000000) * 1000000 + of_int (a mod 1000000)" by (simp only: of_int_add of_int_mult of_int_numeral)
    finally show ?thesis using that by (simp add: of_nat_nat pos_imp_zdiv_nonneg_iff field_simps)
  qed
  show ?thesis unfolding * [OF abs_ge_zero] by (simp add: total_seconds_def)
qed

lemma json_float_seconds: "json_float (seconds_json us) = Inr (total_seconds us)"
  by (simp add: json_float_def seconds_json_def dec_value_pad total_seconds_parts nat_less_iff)

lemma truthy_seconds: "truthy (seconds_json us) \<Longrightarrow> us \<noteq> 0"
proof -
  have "\<not> truthy (seconds_json 0)" by code_simp
  then show "truthy (seconds_json us) \<Longrightarrow> us \<noteq> 0" by metis
qed

section \<open>The queue is bounded and last in first out\<close>

lemma lrange_take: "0 < m \<Longrightarrow> lrange_list 0 (m - 1) xs = take (nat m) xs"
  by (auto simp: lrange_list_def Let_def min_def)

definition queued :: "store \<Rightarrow> string list option" where
  "queued st = map_option fst (as_list (st TILE_JOBS_QUEUE_KEY))"

definition kept_jobs :: "settings \<Rightarrow> string list \<Rightarrow> string list" where
  "kept_jobs cfg l = (if tiles_dynamic_queue_max_jobs cfg > 0 then take (nat (tiles_dynamic_queue_max_jobs cfg)) l else l)"

lemma set_kept_jobs: "x \<in> set (kept_jobs cfg l) \<Longrightarrow> x \<in> set l"
  by (auto simp: kept_jobs_def dest: in_set_takeD split: if_splits)

context redis_up
begin

lemma view_push_tile_job:
  assumes "queued (view (rds w)) = Some l"
  shows "queued (view (rds (snd (push_tile_job srv cfg cid p z x y w)))) =
      Some (kept_jobs cfg (dumps (tile_job_payload cid p z x y (now_at w (ticks w))) # l))"
    and "k \<noteq> TILE_JOBS_QUEUE_KEY \<Longrightarrow> view (rds (snd (push_tile_job srv cfg cid p z x y w))) k = view (rds w) k"
proof -
  let ?pl = "dumps (tile_job_payload cid p z x y (now_at w (ticks w)))"
  let ?m = "tiles_dynamic_queue_max_jobs cfg"
  let ?cs = "LPush TILE_JOBS_QUEUE_KEY ?pl # (if ?m > 0 then [LTrim TILE_JOBS_QUEUE_KEY 0 (?m - 1)] else [])"
  let ?w = "w\<lparr>ticks := Suc (ticks w)\<rparr>"
  obtain t where l: "as_list (view (rds w) TILE_JOBS_QUEUE_KEY) = Some (l, t)"
    using assms by (auto simp: queued_def)
  have fine: "pipe_fine ?cs (view (rds ?w))"
    using l by (simp add: redis_simps)
  have v: "view (rds (snd (push_tile_job srv cfg cid p z x y w))) = effs ?cs (view (rds w))"
    using eval_pipe [OF fine] by (simp add: push_tile_job_def prog_simps Let_def)
  show "queued (view (rds (snd (push_tile_job srv cfg cid p z x y w)))) = Some (kept_jobs cfg (?pl # l))"
    unfolding v queued_def using l by (auto simp: redis_simps kept_jobs_def lrange_take)
  show "view (rds (snd (push_tile_job srv cfg cid p z x y w))) k = view (rds w) k" if "k \<noteq> TILE_JOBS_QUEUE_KEY"
    unfolding v using l that by (simp add: redis_simps)
qed

end

lemma ticks_push: "ticks (snd (push_tile_job srv cfg cid p z x y w)) = Suc (ticks w)"
  and clock_push: "clock (snd (push_tile_job srv cfg cid p z x y w)) = clock w"
  by (simp_all add: push_tile_job_def prog_simps Let_def split: sum.split)

text \<open>Pushing a tile job on a bounded queue puts it first, keeps the newest jobs and leaves at most
  the configured number of them.\<close>

theorem tile_queue_bounded:
  assumes "redis_up srv view" and "queued (view (rds w)) = Some l" and "0 < tiles_dynamic_queue_max_jobs cfg"
  shows "\<exists>l'. queued (view (rds (snd (push_tile_job srv cfg cid p z x y w)))) = Some l' \<and>
    int (length l') \<le> tiles_dynamic_queue_max_jobs cfg \<and>
    l' = take (nat (tiles_dynamic_queue_max_jobs cfg)) (dumps (tile_job_payload cid p z x y (now_at w (ticks w))) # l)"
  using redis_up.view_push_tile_job(1) [OF assms(1, 2)] assms(3) by (simp add: kept_jobs_def)

theorem tile_queue_bounded_witness:
  "\<exists>l'. queued (map_of (rds (snd (push_tile_job mem_srv default_settings ''roads'' ''ab'' 3 1 2 (env0 []))))) = Some l' \<and>
    int (length l') \<le> 512"
  using tile_queue_bounded [OF mem.redis_up_axioms, of "env0 []" "[]" default_settings "''roads''" "''ab''" 3 1 2]
  by (auto simp: queued_def redis_simps default_settings_def)

section \<open>Popping\<close>

definition enqueued_at :: "json \<Rightarrow> exn + rat" where
  "enqueued_at job = sbind (json_obj job) (\<lambda>d. let v = jget d ''enqueued_at'' in if truthy v then json_float v else Inr 0)"

definition stale_at :: "rat \<Rightarrow> json \<Rightarrow> int \<Rightarrow> bool" where
  "stale_at max_age job now \<longleftrightarrow> 0 < max_age \<and> (\<exists>e. enqueued_at job = Inr e \<and> e \<noteq> 0 \<and> max_age < total_seconds now - e)"

lemma is_stale_job_eval:
  "fst (is_stale_job a job w) = Inr b \<Longrightarrow> b \<longleftrightarrow> stale_at a job (now_at w (ticks w))"
  by (auto simp: is_stale_job_def stale_at_def enqueued_at_def [symmetric] prog_simps split: sum.splits if_splits)

lemma is_stale_job_frame: "rds (snd (is_stale_job a job w)) = rds w" "clock (snd (is_stale_job a job w)) = clock w"
  by (simp_all add: is_stale_job_def prog_simps split: sum.split)

text \<open>What a run of the loop does to the jobs \<open>l\<close>: all the jobs before the one handed out were stale when
  they were looked at.\<close>

definition popped :: "rat \<Rightarrow> (nat \<Rightarrow> int) \<Rightarrow> string list \<Rightarrow> json option \<Rightarrow> string list \<Rightarrow> bool" where
  "popped max_age now l job rest \<longleftrightarrow>
     (\<exists>pre. list_all (\<lambda>raw. \<exists>j i. loads raw = Inr j \<and> stale_at max_age j (now i)) pre \<and>
        (case job of None \<Rightarrow> l = pre @ rest | Some j \<Rightarrow> \<exists>raw. l = pre @ raw # rest \<and> loads raw = Inr j))"

lemma popped_stale:
  "loads raw = Inr j \<Longrightarrow> stale_at a j (now i) \<Longrightarrow> popped a now l job rest \<Longrightarrow> popped a now (raw # l) job rest"
  unfolding popped_def by (elim exE conjE, rule_tac x = "raw # pre" in exI) (auto split: option.splits)

lemma popped_none: "popped a now l None l"
  by (simp add: popped_def)

lemma popped_some: "loads raw = Inr j \<Longrightarrow> popped a now (raw # l) (Some j) l"
  by (auto simp: popped_def)

context redis_up
begin

lemma pop_loop_spec:
  assumes "queued (view (rds w)) = Some l" and "length l < n" and "fst (pop_loop n srv d a w) = Inr r"
  shows "\<exists>job rest. r = Some job \<and> queued (view (rds (snd (pop_loop n srv d a w)))) = Some rest \<and> popped a (now_at w) l job rest"
  using assms
proof (induction n arbitrary: w l)
  case (Suc n)
  let ?w1 = "w\<lparr>ticks := Suc (ticks w)\<rparr>"
  obtain t where l: "as_list (view (rds w) TILE_JOBS_QUEUE_KEY) = Some (l, t)"
    using Suc.prems(1) by (auto simp: queued_def)
  show ?case
  proof (cases "d - total_seconds (now_at w (ticks w)) \<le> 0")
    case True
    then show ?thesis using Suc.prems popped_none by (auto simp: prog_simps)
  next
    case time: False
    show ?thesis
    proof (cases l)
      case Nil
      then show ?thesis using Suc.prems time l popped_none by (fastforce simp: prog_simps redis_simps queued_def)
    next
      case (Cons raw l')
      let ?w2 = "snd (r_blpop srv TILE_JOBS_QUEUE_KEY ?w1)"
      have q2: "queued (view (rds ?w2)) = Some l'"
        using l Cons by (auto simp: prog_simps redis_simps queued_def)
      have now: "now_at ?w2 = now_at w" by (simp add: prog_simps)
      obtain j where j: "loads raw = Inr j"
        using Suc.prems(3) time l Cons by (cases "loads raw") (auto simp: prog_simps redis_simps)
      obtain s where s: "fst (is_stale_job a j ?w2) = Inr s"
        using Suc.prems(3) time l Cons j by (cases "fst (is_stale_job a j ?w2)") (auto simp: prog_simps redis_simps)
      let ?w3 = "snd (is_stale_job a j ?w2)"
      have w3: "rds ?w3 = rds ?w2" "now_at ?w3 = now_at w"
        using now by (simp_all add: is_stale_job_frame now_at_def fun_eq_iff)
      have step: "pop_loop (Suc n) srv d a w = (if s then pop_loop n srv d a ?w3 else (Inr (Some (Some j)), ?w3))"
        using time l Cons j s by (simp add: prod_eq_iff prog_simps redis_simps)
      show ?thesis
      proof (cases s)
        case True
        then have "stale_at a j (now_at w (ticks ?w2))" using is_stale_job_eval [OF s] now by simp
        moreover obtain job rest where "r = Some job" "queued (view (rds (snd (pop_loop n srv d a ?w3)))) = Some rest"
            "popped a (now_at w) l' job rest"
          using Suc.IH [of ?w3 l'] Suc.prems step True q2 w3 Cons by auto
        ultimately show ?thesis using step True Cons popped_stale [OF j] by auto
      next
        case False
        then show ?thesis using Suc.prems(3) step q2 w3 Cons popped_some [OF j] by auto
      qed
    qed
  qed
qed simp

end

text \<open>The texts the queue may hold: a JSON object with texts for the collection and the parameters, whole numbers for the tile and a
  decimal number for the time it was queued.\<close>

type_synonym tile_request = "string \<times> string \<times> int \<times> int \<times> int"

definition job_for :: "tile_request \<Rightarrow> json \<Rightarrow> bool" where
  "job_for q j \<longleftrightarrow> (case q of (cid, params_key, z, x, y) \<Rightarrow>
     (case j of
        JObj d \<Rightarrow> map_of d ''collection_id'' = Some (JStr cid) \<and> map_of d ''params_key'' = Some (JStr params_key) \<and>
          map_of d ''z'' = Some (JInt z) \<and> map_of d ''x'' = Some (JInt x) \<and> map_of d ''y'' = Some (JInt y) \<and>
          (case map_of d ''enqueued_at'' of Some (JDec _ _ _) \<Rightarrow> True | _ \<Rightarrow> False)
      | _ \<Rightarrow> False))"

definition job_text_for :: "tile_request \<Rightarrow> string \<Rightarrow> bool" where
  "job_text_for q raw \<longleftrightarrow> (case loads raw of Inl _ \<Rightarrow> False | Inr j \<Rightarrow> job_for q j)"

definition job_text :: "string \<Rightarrow> bool" where
  "job_text raw \<longleftrightarrow> (\<exists>q. job_text_for q raw)"

lemma enqueued_at_payload: "enqueued_at (tile_job_payload cid p z x y now) = Inr (total_seconds now)"
proof -
  have "total_seconds now = 0" if "\<not> truthy (seconds_json now)"
  proof -
    let ?f = "pad 6 (nat (\<bar>now\<bar> mod 1000000))"
    have n: "nat (\<bar>now\<bar> div 1000000) = 0" and f: "\<forall>c\<in>set ?f. c = CHR ''0''"
      using that unfolding seconds_json_def truthy.simps list_all_iff by blast+
    have "replicate 6 CHR ''0'' = ''000000''" by (simp add: numeral_eq_Suc)
    moreover from f have "replicate (length ?f) CHR ''0'' = ?f" by (intro replicate_length_same)
    ultimately have "?f = ''000000''" by (simp only: length_pad)
    moreover have "dec_value neg 0 ''000000'' = 0" for neg by (simp add: dec_value_def digit_val_def)
    ultimately have "json_float (seconds_json now) = Inr 0" by (simp add: json_float_def seconds_json_def n)
    then show ?thesis by (simp add: json_float_seconds)
  qed
  then show ?thesis
    by (simp add: enqueued_at_def tile_job_payload_def tile_job_fields_def json_obj_def jget_def json_float_seconds Let_def)
qed

lemma job_text_for_payload: "job_text_for (cid, p, z, x, y) (dumps (tile_job_payload cid p z x y now))"
proof -
  have "job_for (cid, p, z, x, y) (tile_job_payload cid p z x y now)"
    by (simp add: job_for_def tile_job_payload_def tile_job_fields_def seconds_json_def)
  then show ?thesis by (simp add: job_text_for_def)
qed

lemma job_text_payload: "job_text (dumps (tile_job_payload cid p z x y now))"
  unfolding job_text_def using job_text_for_payload by blast

lemma job_textD:
  assumes "job_text raw"
  shows "\<exists>j e. loads raw = Inr j \<and> enqueued_at j = Inr e"
proof -
  obtain q where "job_text_for q raw" using assms by (auto simp: job_text_def)
  then obtain j where j: "loads raw = Inr j" "job_for q j" by (cases "loads raw") (simp_all add: job_text_for_def)
  obtain d where d: "j = JObj d" "case map_of d ''enqueued_at'' of Some (JDec _ _ _) \<Rightarrow> True | _ \<Rightarrow> False"
    using j(2) by (cases q; cases j) (simp_all add: job_for_def)
  then obtain v where v: "map_of d ''enqueued_at'' = Some v" by (cases "map_of d ''enqueued_at''") simp_all
  then obtain neg n f where "v = JDec neg n f" using d(2) by (cases v) simp_all
  with d(1) v show ?thesis using j(1) by (auto simp: enqueued_at_def json_obj_def jget_def json_float_def Let_def)
qed

lemma is_stale_job_ok: "enqueued_at j = Inr e \<Longrightarrow> \<exists>b. fst (is_stale_job a j w) = Inr b"
  by (auto simp: is_stale_job_def enqueued_at_def [symmetric] prog_simps)

context redis_up
begin

lemma pop_loop_ok:
  assumes "queued (view (rds w)) = Some l" and "list_all job_text l"
  shows "\<exists>r. fst (pop_loop n srv d a w) = Inr r"
  using assms
proof (induction n arbitrary: w l)
  case (Suc n)
  let ?w1 = "w\<lparr>ticks := Suc (ticks w)\<rparr>"
  let ?w2 = "snd (r_blpop srv TILE_JOBS_QUEUE_KEY ?w1)"
  obtain t where l: "as_list (view (rds w) TILE_JOBS_QUEUE_KEY) = Some (l, t)"
    using Suc.prems(1) by (auto simp: queued_def)
  show ?case
  proof (cases l)
    case (Cons raw l')
    have q2: "queued (view (rds ?w2)) = Some l'" using l Cons by (auto simp: prog_simps redis_simps queued_def)
    obtain j e where j: "loads raw = Inr j" "enqueued_at j = Inr e" using Suc.prems(2) Cons job_textD [of raw] by auto
    obtain b where b: "fst (is_stale_job a j ?w2) = Inr b" using is_stale_job_ok [OF j(2)] by blast
    have "queued (view (rds (snd (is_stale_job a j ?w2)))) = Some l'" by (simp add: is_stale_job_frame q2)
    from Suc.IH [OF this] Suc.prems(2) Cons
    obtain r where "fst (pop_loop n srv d a (snd (is_stale_job a j ?w2))) = Inr r" by auto
    with l Cons j b show ?thesis by (auto simp: prog_simps redis_simps)
  qed (use l in \<open>auto simp: prog_simps redis_simps\<close>)
qed (simp add: prog_simps)

text \<open>Whatever happens, popping takes jobs off the front of the queue, and hands out one of them.\<close>

lemma pop_loop_rest:
  assumes "queued (view (rds w)) = Some l"
  shows "(\<exists>k. queued (view (rds (snd (pop_loop n srv d a w)))) = Some (drop k l)) \<and>
    (\<forall>j. fst (pop_loop n srv d a w) = Inr (Some (Some j)) \<longrightarrow> (\<exists>raw\<in>set l. loads raw = Inr j))"
  using assms
proof (induction n arbitrary: w l)
  case 0
  then show ?case by (auto simp: prog_simps intro: exI [of _ 0])
next
  case (Suc n)
  let ?w1 = "w\<lparr>ticks := Suc (ticks w)\<rparr>"
  let ?w2 = "snd (r_blpop srv TILE_JOBS_QUEUE_KEY ?w1)"
  obtain t where l: "as_list (view (rds w) TILE_JOBS_QUEUE_KEY) = Some (l, t)"
    using Suc.prems by (auto simp: queued_def)
  show ?case
  proof (cases "d - total_seconds (now_at w (ticks w)) \<le> 0")
    case True
    then show ?thesis using Suc.prems by (auto simp: prog_simps intro: exI [of _ 0])
  next
    case time: False
    show ?thesis
    proof (cases l)
      case Nil
      then show ?thesis using time l by (auto simp: prog_simps redis_simps queued_def)
    next
      case (Cons raw l')
      have q2: "queued (view (rds ?w2)) = Some l'" using l Cons by (auto simp: prog_simps redis_simps queued_def)
      then have q2': "queued (view (rds ?w2)) = Some (drop 1 l)" by (simp add: Cons)
      show ?thesis
      proof (cases "loads raw")
        case (Inl e)
        then have "pop_loop (Suc n) srv d a w = (Inl e, ?w2)" using time l Cons by (simp add: prod_eq_iff prog_simps redis_simps)
        then show ?thesis using q2' by auto
      next
        case (Inr j)
        let ?w3 = "snd (is_stale_job a j ?w2)"
        have q3: "queued (view (rds ?w3)) = Some l'" by (simp add: is_stale_job_frame q2)
        have step: "pop_loop (Suc n) srv d a w = (case fst (is_stale_job a j ?w2) of
            Inl e \<Rightarrow> (Inl e, ?w3) | Inr b \<Rightarrow> if b then pop_loop n srv d a ?w3 else (Inr (Some (Some j)), ?w3))"
          using time l Cons Inr by (simp add: prod_eq_iff prog_simps redis_simps split: sum.split)
        obtain k where k: "queued (view (rds (snd (pop_loop n srv d a ?w3)))) = Some (drop k l')"
            "\<forall>j. fst (pop_loop n srv d a ?w3) = Inr (Some (Some j)) \<longrightarrow> (\<exists>raw\<in>set l'. loads raw = Inr j)"
          using Suc.IH [OF q3] by blast
        have "drop (Suc k) l = drop k l'" "drop 1 l = l'" by (simp_all add: Cons)
        then have "\<exists>k'. queued (view (rds (snd (pop_loop (Suc n) srv d a w)))) = Some (drop k' l)"
          unfolding step using k(1) q3 by (auto split: sum.split intro: exI [of _ 1] exI [of _ "Suc k"])
        moreover have "\<exists>raw\<in>set l. loads raw = Inr j'" if "fst (pop_loop (Suc n) srv d a w) = Inr (Some (Some j'))" for j'
          using that k(2) Inr unfolding step by (auto simp: Cons split: sum.splits if_splits)
        ultimately show ?thesis by blast
      qed
    qed
  qed
qed

lemma pop_tile_job_rest:
  assumes "queued (view (rds w)) = Some l"
  shows "\<exists>k. queued (view (rds (snd (pop_tile_job n srv cfg timeout w)))) = Some (drop k l)"
    and "fst (pop_tile_job n srv cfg timeout w) = Inr (Some (Some j)) \<Longrightarrow> \<exists>raw\<in>set l. loads raw = Inr j"
proof -
  let ?w1 = "w\<lparr>ticks := Suc (ticks w)\<rparr>"
  let ?m = "pop_loop n srv (total_seconds (now_at w (ticks w)) + max (5 / 100) timeout) (tiles_dynamic_queue_job_max_age_seconds cfg)"
  have q: "queued (view (rds ?w1)) = Some l" using assms by simp
  have run: "pop_tile_job n srv cfg timeout w = (case fst (?m ?w1) of Inl e \<Rightarrow> (Inr (Some None), snd (?m ?w1)) | Inr r \<Rightarrow> (Inr r, snd (?m ?w1)))"
    by (simp add: pop_tile_job_def prod_eq_iff prog_simps split: sum.split)
  show "\<exists>k. queued (view (rds (snd (pop_tile_job n srv cfg timeout w)))) = Some (drop k l)"
    unfolding run using pop_loop_rest [OF q] by (auto split: sum.split)
  show "\<exists>raw\<in>set l. loads raw = Inr j" if "fst (pop_tile_job n srv cfg timeout w) = Inr (Some (Some j))"
    using that pop_loop_rest [OF q, of n] unfolding run by (auto split: sum.splits)
qed

lemma pop_tile_job_spec:
  assumes "queued (view (rds w)) = Some l" and "list_all job_text l" and "length l < n"
  shows "\<exists>job rest. fst (pop_tile_job n srv cfg timeout w) = Inr (Some job) \<and>
    queued (view (rds (snd (pop_tile_job n srv cfg timeout w)))) = Some rest \<and>
    popped (tiles_dynamic_queue_job_max_age_seconds cfg) (now_at w) l job rest"
proof -
  let ?w1 = "w\<lparr>ticks := Suc (ticks w)\<rparr>"
  let ?m = "pop_loop n srv (total_seconds (now_at w (ticks w)) + max (5 / 100) timeout) (tiles_dynamic_queue_job_max_age_seconds cfg)"
  obtain r where r: "fst (?m ?w1) = Inr r" using pop_loop_ok [of ?w1 l n] assms by auto
  have "fst (pop_tile_job n srv cfg timeout w) = Inr r" "snd (pop_tile_job n srv cfg timeout w) = snd (?m ?w1)"
    using r by (simp_all add: pop_tile_job_def prog_simps)
  with pop_loop_spec [OF _ assms(3) r] assms(1) show ?thesis by auto
qed

end

text \<open>With one round more than there are queued jobs, popping ends: it hands out the newest job that is
  not stale and drops only the stale jobs before it, or finds none before its deadline.\<close>

theorem pop_tile_job_newest_fresh:
  assumes "redis_up srv view" and "queued (view (rds w)) = Some l" and "list_all job_text l" and "length l < n"
  shows "\<exists>job rest. fst (pop_tile_job n srv cfg timeout w) = Inr (Some job) \<and>
    queued (view (rds (snd (pop_tile_job n srv cfg timeout w)))) = Some rest \<and>
    popped (tiles_dynamic_queue_job_max_age_seconds cfg) (now_at w) l job rest"
  using assms by (rule redis_up.pop_tile_job_spec)

theorem pop_tile_job_newest_fresh_witness:
  "let raw = dumps (tile_job_payload ''roads'' ''ab'' 3 1 2 5000000); w = env0 [(TILE_JOBS_QUEUE_KEY, (RList [raw], None))] in
   \<exists>job rest. fst (pop_tile_job 2 mem_srv default_settings 5 w) = Inr (Some job) \<and>
    popped (tiles_dynamic_queue_job_max_age_seconds default_settings) (now_at w) [raw] job rest"
proof -
  define raw where "raw = dumps (tile_job_payload ''roads'' ''ab'' 3 1 2 5000000)"
  define w where "w = env0 [(TILE_JOBS_QUEUE_KEY, (RList [raw], None :: int option))]"
  have "list_all job_text [raw]" unfolding raw_def by (simp add: job_text_payload)
  moreover have "queued (map_of (rds w)) = Some [raw]" by (simp add: w_def queued_def redis_simps)
  ultimately have "\<exists>job rest. fst (pop_tile_job 2 mem_srv default_settings 5 w) = Inr (Some job) \<and>
      queued (map_of (rds (snd (pop_tile_job 2 mem_srv default_settings 5 w)))) = Some rest \<and>
      popped (tiles_dynamic_queue_job_max_age_seconds default_settings) (now_at w) [raw] job rest"
    by (intro pop_tile_job_newest_fresh [OF mem.redis_up_axioms]) simp_all
  then show ?thesis unfolding Let_def raw_def [symmetric] w_def [symmetric] by blast
qed

subsection \<open>Runs of the queue\<close>

text \<open>Pushes and pops by any processes, one after the other; the jobs that were handed out are collected.\<close>

datatype tile_op = Push tile_request | Pop nat rat

fun tile_step :: "'s redis \<Rightarrow> settings \<Rightarrow> tile_op \<Rightarrow> ('s, 'z) env_scheme \<Rightarrow> json list \<times> ('s, 'z) env_scheme" where
  "tile_step srv cfg (Push (cid, p, z, x, y)) w = ([], snd (push_tile_job srv cfg cid p z x y w))"
| "tile_step srv cfg (Pop n timeout) w =
     (case fst (pop_tile_job n srv cfg timeout w) of Inr (Some (Some j)) \<Rightarrow> [j] | _ \<Rightarrow> [], snd (pop_tile_job n srv cfg timeout w))"

fun tile_run :: "'s redis \<Rightarrow> settings \<Rightarrow> tile_op list \<Rightarrow> ('s, 'z) env_scheme \<Rightarrow> json list \<times> ('s, 'z) env_scheme" where
  "tile_run srv cfg [] w = ([], w)"
| "tile_run srv cfg (e # es) w =
     (let (js, w1) = tile_step srv cfg e w; (js', w2) = tile_run srv cfg es w1 in (js @ js', w2))"

definition queue_holds :: "settings \<Rightarrow> tile_request set \<Rightarrow> string list \<Rightarrow> bool" where
  "queue_holds cfg Q l \<longleftrightarrow> (\<forall>raw\<in>set l. \<exists>q\<in>Q. job_text_for q raw) \<and>
     (0 < tiles_dynamic_queue_max_jobs cfg \<longrightarrow> int (length l) \<le> tiles_dynamic_queue_max_jobs cfg)"

lemma queue_holds_drop: "queue_holds cfg Q l \<Longrightarrow> queue_holds cfg Q (drop k l)"
  by (auto simp: queue_holds_def dest: in_set_dropD)

lemma queue_holds_mono: "queue_holds cfg Q l \<Longrightarrow> Q \<subseteq> Q' \<Longrightarrow> queue_holds cfg Q' l"
  unfolding queue_holds_def by blast

lemma queue_holds_push:
  assumes "queue_holds cfg Q l"
  shows "queue_holds cfg (insert (cid, p, z, x, y) Q) (kept_jobs cfg (dumps (tile_job_payload cid p z x y now) # l))"
proof -
  have "\<exists>q\<in>insert (cid, p, z, x, y) Q. job_text_for q raw" if "raw \<in> set (dumps (tile_job_payload cid p z x y now) # l)" for raw
    using that assms job_text_for_payload [of cid p z x y now] by (auto simp: queue_holds_def)
  moreover have "0 < tiles_dynamic_queue_max_jobs cfg \<Longrightarrow> int (length (kept_jobs cfg xs)) \<le> tiles_dynamic_queue_max_jobs cfg" for xs :: "string list"
    by (simp add: kept_jobs_def)
  ultimately show ?thesis using set_kept_jobs unfolding queue_holds_def by blast
qed

context redis_up
begin

lemma tile_step_holds:
  fixes e :: tile_op
  assumes "queued (view (rds w)) = Some l" and "queue_holds cfg Q l"
  defines "Q' \<equiv> (case e of Push q \<Rightarrow> insert q Q | Pop _ _ \<Rightarrow> Q)"
  shows "\<exists>l'. queued (view (rds (snd (tile_step srv cfg e w)))) = Some l' \<and> queue_holds cfg Q' l'"
    and "\<forall>j\<in>set (fst (tile_step srv cfg e w)). \<exists>q\<in>Q'. job_for q j"
proof -
  show "\<exists>l'. queued (view (rds (snd (tile_step srv cfg e w)))) = Some l' \<and> queue_holds cfg Q' l'"
  proof (cases e)
    case (Push q)
    obtain cid p z x y where q: "q = (cid, p, z, x, y)" by (cases q)
    then show ?thesis
      using view_push_tile_job(1) [OF assms(1)] queue_holds_push [OF assms(2)] by (auto simp: Push Q'_def)
  next
    case (Pop n timeout)
    then show ?thesis using pop_tile_job_rest(1) [OF assms(1), of n cfg timeout] queue_holds_drop [OF assms(2)] by (auto simp: Q'_def)
  qed
  show "\<forall>j\<in>set (fst (tile_step srv cfg e w)). \<exists>q\<in>Q'. job_for q j"
  proof (cases e)
    case (Push q)
    then show ?thesis by (cases q) simp
  next
    case (Pop n timeout)
    show ?thesis
    proof
      fix j assume "j \<in> set (fst (tile_step srv cfg e w))"
      then have "fst (pop_tile_job n srv cfg timeout w) = Inr (Some (Some j))" by (auto simp: Pop split: sum.splits option.splits)
      from pop_tile_job_rest(2) [OF assms(1) this] obtain raw where raw: "raw \<in> set l" "loads raw = Inr j" by blast
      then obtain q where "q \<in> Q" "job_text_for q raw" using assms(2) by (auto simp: queue_holds_def)
      with raw(2) show "\<exists>q\<in>Q'. job_for q j" by (auto simp: Pop Q'_def job_text_for_def)
    qed
  qed
qed

lemma tile_run_holds:
  assumes "queued (view (rds w)) = Some l" and "queue_holds cfg Q l"
  shows "(\<exists>l'. queued (view (rds (snd (tile_run srv cfg es w)))) = Some l' \<and> queue_holds cfg (Q \<union> {q. Push q \<in> set es}) l') \<and>
    (\<forall>j\<in>set (fst (tile_run srv cfg es w)). \<exists>q\<in>Q \<union> {q. Push q \<in> set es}. job_for q j)"
  using assms
proof (induction es arbitrary: w l Q)
  case (Cons e es)
  let ?w = "snd (tile_step srv cfg e w)"
  let ?Q = "case e of Push q \<Rightarrow> insert q Q | Pop _ _ \<Rightarrow> Q"
  let ?all = "Q \<union> {q. Push q \<in> set (e # es)}"
  have Q: "?Q \<union> {q. Push q \<in> set es} = ?all" by (cases e) auto
  note step = tile_step_holds [OF Cons.prems, of e]
  obtain l' where l': "queued (view (rds ?w)) = Some l'" "queue_holds cfg ?Q l'" using step(1) by blast
  note ih = Cons.IH [OF l', unfolded Q]
  have run: "tile_run srv cfg (e # es) w = (fst (tile_step srv cfg e w) @ fst (tile_run srv cfg es ?w), snd (tile_run srv cfg es ?w))"
    by (simp add: case_prod_beta Let_def)
  have "?Q \<subseteq> ?all" using Q by blast
  then have "\<forall>j\<in>set (fst (tile_step srv cfg e w)). \<exists>q\<in>?all. job_for q j" using step(2) by blast
  with ih show ?case unfolding run by auto
qed simp

end

text \<open>C29: The tile queue is well typed and bounded. While Redis answers, after any sequence of pushes and pops that starts with an empty
  queue, every entry of the queue is the text of a JSON object whose \<^verbatim>\<open>collection_id\<close> and \<^verbatim>\<open>params_key\<close> are the texts, and whose
  \<^verbatim>\<open>z\<close>, \<^verbatim>\<open>x\<close> and \<^verbatim>\<open>y\<close> the whole numbers, of one of the requests that were pushed, with a decimal \<^verbatim>\<open>enqueued_at\<close>; so is every job that
  was handed out; and a positive bound on the number of queued jobs is kept.\<close>

theorem tile_queue_well_typed:
  assumes "redis_up srv view" and "queued (view (rds w)) = Some []"
  shows "\<exists>l. queued (view (rds (snd (tile_run srv cfg es w)))) = Some l \<and>
      (\<forall>raw\<in>set l. \<exists>q. Push q \<in> set es \<and> job_text_for q raw) \<and>
      (0 < tiles_dynamic_queue_max_jobs cfg \<longrightarrow> int (length l) \<le> tiles_dynamic_queue_max_jobs cfg) \<and>
      (\<forall>j\<in>set (fst (tile_run srv cfg es w)). \<exists>q. Push q \<in> set es \<and> job_for q j)"
proof -
  have "queue_holds cfg {} []" by (simp add: queue_holds_def)
  from redis_up.tile_run_holds [OF assms this, of es] show ?thesis by (auto simp: queue_holds_def)
qed

theorem tile_queue_well_typed_witness:
  "\<exists>l. queued (map_of (rds (snd (tile_run mem_srv default_settings
       [Push (''roads'', ''ab'', 3, 1, 2), Push (''roads'', ''ab'', 4, 2, 4), Pop 1 5] (env0 []))))) = Some l \<and>
     (\<forall>raw\<in>set l. job_text_for (''roads'', ''ab'', 3, 1, 2) raw \<or> job_text_for (''roads'', ''ab'', 4, 2, 4) raw)"
proof -
  let ?es = "[Push (''roads'', ''ab'', 3, 1, 2), Push (''roads'', ''ab'', 4, 2, 4), Pop 1 5]"
  have "queued (map_of (rds (env0 []))) = Some []" by (simp add: queued_def redis_simps)
  from tile_queue_well_typed [OF mem.redis_up_axioms this, of default_settings ?es]
  obtain l where l: "queued (map_of (rds (snd (tile_run mem_srv default_settings ?es (env0 []))))) = Some l"
    "\<forall>raw\<in>set l. \<exists>q. Push q \<in> set ?es \<and> job_text_for q raw" by blast
  have "q \<in> {(''roads'', ''ab'', 3, 1, 2), (''roads'', ''ab'', 4, 2, 4)}" if "Push q \<in> set ?es" for q using that by auto
  with l show ?thesis by fast
qed

text \<open>The job pushed last is the job popped next, while it is not stale and the deadline has not passed.\<close>

context redis_up
begin

lemma pop_head:
  assumes "queued (view (rds w)) = Some (raw # l)" and "raw = dumps (tile_job_payload cid p z x y t0)"
    and "total_seconds (now_at w (Suc (ticks w)) - now_at w (ticks w)) < max (5 / 100) timeout"
    and "tiles_dynamic_queue_job_max_age_seconds cfg \<le> 0 \<or>
      total_seconds (now_at w (ticks w + 2) - t0) \<le> tiles_dynamic_queue_job_max_age_seconds cfg"
  shows "fst (pop_tile_job (Suc n) srv cfg timeout w) = Inr (Some (Some (tile_job_payload cid p z x y t0)))"
    and "queued (view (rds (snd (pop_tile_job (Suc n) srv cfg timeout w)))) = Some l"
proof -
  let ?a = "tiles_dynamic_queue_job_max_age_seconds cfg"
  let ?j = "tile_job_payload cid p z x y t0"
  let ?w1 = "w\<lparr>ticks := Suc (Suc (ticks w))\<rparr>"
  let ?w2 = "snd (r_blpop srv TILE_JOBS_QUEUE_KEY ?w1)"
  obtain t where l: "as_list (view (rds w) TILE_JOBS_QUEUE_KEY) = Some (raw # l, t)"
    using assms(1) by (auto simp: queued_def)
  obtain b where b: "fst (is_stale_job ?a ?j ?w2) = Inr b" using is_stale_job_ok [OF enqueued_at_payload] by blast
  have now: "now_at ?w2 = now_at w" "ticks ?w2 = ticks w + 2" by (simp_all add: prog_simps)
  have "\<not> b"
    using is_stale_job_eval [OF b] assms(4) unfolding now
    by (auto simp: stale_at_def enqueued_at_payload total_seconds_def diff_divide_distrib)
  moreover have "\<not> total_seconds (now_at w (ticks w)) + max (5 / 100) timeout - total_seconds (now_at w (Suc (ticks w))) \<le> 0"
    using assms(3) by (simp add: total_seconds_def diff_divide_distrib)
  ultimately show "fst (pop_tile_job (Suc n) srv cfg timeout w) = Inr (Some (Some ?j))"
      and "queued (view (rds (snd (pop_tile_job (Suc n) srv cfg timeout w)))) = Some l"
    using l b assms(2)
    by (auto simp: pop_tile_job_def prog_simps redis_simps is_stale_job_frame queued_def)
qed

end

text \<open>The tile queue is last in first out: the job pushed last is the one popped next, unless it has
  become stale or the waiting time has passed in between.\<close>

theorem push_then_pop:
  assumes "redis_up srv view" and "queued (view (rds w)) = Some l"
    and "total_seconds (now_at w (ticks w + 2) - now_at w (ticks w + 1)) < max (5 / 100) timeout"
    and "tiles_dynamic_queue_job_max_age_seconds cfg \<le> 0 \<or>
      total_seconds (now_at w (ticks w + 3) - now_at w (ticks w)) \<le> tiles_dynamic_queue_job_max_age_seconds cfg"
  shows "fst (pop_tile_job (Suc n) srv cfg timeout (snd (push_tile_job srv cfg cid p z x y w))) =
    Inr (Some (Some (tile_job_payload cid p z x y (now_at w (ticks w)))))"
proof -
  let ?w = "snd (push_tile_job srv cfg cid p z x y w)"
  let ?raw = "dumps (tile_job_payload cid p z x y (now_at w (ticks w)))"
  have "\<exists>l'. kept_jobs cfg (?raw # l) = ?raw # l'"
    by (cases "nat (tiles_dynamic_queue_max_jobs cfg)") (auto simp: kept_jobs_def)
  then obtain l' where q: "queued (view (rds ?w)) = Some (?raw # l')"
    using redis_up.view_push_tile_job(1) [OF assms(1, 2)] by metis
  have "now_at ?w = now_at w" by (simp add: now_at_def fun_eq_iff clock_push)
  then show ?thesis
    using assms(3, 4) by (intro redis_up.pop_head(1) [OF assms(1) q refl]) (simp_all add: ticks_push eval_nat_numeral)
qed

theorem push_then_pop_witness:
  "fst (pop_tile_job 1 mem_srv default_settings 5 (snd (push_tile_job mem_srv default_settings ''roads'' ''ab'' 3 1 2 (env0 [])))) =
    Inr (Some (Some (tile_job_payload ''roads'' ''ab'' 3 1 2 (now_at (env0 ([] :: (string \<times> rentry) list)) 0))))"
proof -
  let ?w = "env0 ([] :: (string \<times> rentry) list)"
  have "dt_micros (noon i) - dt_micros (noon j) = int i - int j" if "i < 10" "j < 10" for i j
    using that by (simp add: dt_micros_def noon_def toordinal_def)
  then have "total_seconds (now_at ?w (ticks ?w + 2) - now_at ?w (ticks ?w + 1)) < max (5 / 100) 5"
      and "total_seconds (now_at ?w (ticks ?w + 3) - now_at ?w (ticks ?w)) \<le> tiles_dynamic_queue_job_max_age_seconds default_settings"
    by (simp_all add: now_at_def total_seconds_def default_settings_def)
  then show ?thesis
    using push_then_pop [OF mem.redis_up_axioms, of ?w "[]" 5 default_settings 0 "''roads''" "''ab''" 3 1 2]
    by (simp add: queued_def redis_simps)
qed

section \<open>The tiles a worker adds\<close>

definition valid_tile :: "int \<Rightarrow> int \<Rightarrow> int \<Rightarrow> bool" where
  "valid_tile z x y \<longleftrightarrow> 0 \<le> z \<and> z \<le> 22 \<and> 0 \<le> x \<and> x < 2 ^ nat z \<and> 0 \<le> y \<and> y < 2 ^ nat z"

lemma half_bound: "0 \<le> x \<Longrightarrow> x < 2 ^ nat z \<Longrightarrow> 0 < z \<Longrightarrow> 0 \<le> x div 2 \<and> x div 2 < 2 ^ nat (z - 1)" for x z :: int
proof -
  assume x: "0 \<le> x" "x < 2 ^ nat z" and z: "0 < z"
  have "nat z = Suc (nat (z - 1))" using z by simp
  then have "x < 2 * 2 ^ nat (z - 1)" using x by simp
  then show ?thesis using x by linarith
qed

lemma double_bound: "0 \<le> x \<Longrightarrow> x < 2 ^ nat z \<Longrightarrow> 0 \<le> z \<Longrightarrow> 2 * x + 1 < 2 ^ nat (z + 1)" for x z :: int
proof -
  assume x: "0 \<le> x" "x < 2 ^ nat z" and z: "0 \<le> z"
  have "nat (z + 1) = Suc (nat z)" using z by simp
  then show ?thesis using x by simp
qed

text \<open>Every tile a worker adds to the queue after encoding an existing tile exists: its zoom is between 0
  and 22 and its column and row lie within the grid of that zoom.\<close>

theorem adjacent_tiles_valid:
  assumes "valid_tile z x y" and "(z', x', y') \<in> set (adjacent_tiles z x y)"
  shows "valid_tile z' x' y'"
proof -
  have "valid_tile (z - 1) (x div 2) (y div 2)" if "0 < z"
    using assms(1) half_bound [of x z] half_bound [of y z] that by (simp add: valid_tile_def)
  moreover have "valid_tile (z + 1) (2 * x + i) (2 * y + j)" if "z < 22" "i \<in> {0, 1}" "j \<in> {0, 1}" for i j
    using assms(1) double_bound [of x z] double_bound [of y z] that by (auto simp: valid_tile_def)
  ultimately show ?thesis
    using assms(2) by (auto simp: adjacent_tiles_def mult.commute split: if_splits)
       (metis add.right_neutral insertI1 insert_commute)+
qed

theorem adjacent_tiles_valid_witness: "valid_tile 3 1 2 \<and> valid_tile 4 3 5"
  using adjacent_tiles_valid [of 3 1 2 4 3 5] by (simp add: valid_tile_def adjacent_tiles_def)

text \<open>The relation is symmetric, so a tile's neighbours queue the tile again: precomputing never drains the queue
  while the search result stays cached.\<close>

lemma adjacent_tiles_symmetric:
  assumes "valid_tile z x y" and "(z', x', y') \<in> set (adjacent_tiles z x y)"
  shows "(z, x, y) \<in> set (adjacent_tiles z' x' y')"
proof -
  from assms(2) consider
      (up) "0 < z" "z' = z - 1" "x' = x div 2" "y' = y div 2"
    | (down) "z' = z + 1" "z < 22" "x' div 2 = x" "y' div 2 = y"
    by (auto simp: adjacent_tiles_def split: if_splits)
  then show ?thesis
  proof cases
    case up
    have "x = x' * 2 \<or> x = x' * 2 + 1" "y = y' * 2 \<or> y = y' * 2 + 1" unfolding up by presburger+
    then show ?thesis using up(2) assms(1) by (fastforce simp: adjacent_tiles_def valid_tile_def)
  next
    case down
    then show ?thesis using assms(1) by (simp add: adjacent_tiles_def valid_tile_def)
  qed
qed

section \<open>What a worker computes is what the API reads\<close>

lemma queue_key_apart [simp]:
  "params_cache_key cid z x y p \<noteq> TILE_JOBS_QUEUE_KEY" "search_result_key cid p \<noteq> TILE_JOBS_QUEUE_KEY"
  "TILE_JOBS_QUEUE_KEY \<noteq> params_cache_key cid z x y p" "TILE_JOBS_QUEUE_KEY \<noteq> search_result_key cid p"
  by (simp_all add: params_cache_key_def search_result_key_def TILE_JOBS_QUEUE_KEY_def
      DYNAMIC_TILE_CACHE_PARAMS_PREFIX_def SEARCH_RESULT_PREFIX_def)

lemma push_tile_job_ok: "fst (push_tile_job srv cfg cid p z x y w) = Inr ()"
  by (simp add: push_tile_job_def prog_simps split: sum.split)

context redis_up
begin

lemma push_all_frame:
  assumes "queued (view (rds w)) = Some l"
  shows "fst (for_each ts (\<lambda>(z, x, y) _. push_tile_job srv cfg cid p z x y) () w) = Inr () \<and>
    (\<forall>k. k \<noteq> TILE_JOBS_QUEUE_KEY \<longrightarrow> view (rds (snd (for_each ts (\<lambda>(z, x, y) _. push_tile_job srv cfg cid p z x y) () w))) k = view (rds w) k)"
  using assms
proof (induction ts arbitrary: w l)
  case (Cons t ts)
  obtain z x y where t: "t = (z, x, y)" by (metis prod_cases3)
  from Cons.IH [OF view_push_tile_job(1) [OF Cons.prems]] show ?case
    by (simp add: t prog_simps push_tile_job_ok view_push_tile_job(2) [OF Cons.prems])
qed (simp add: prog_simps)

lemma encode_job_fills:
  assumes "queued (view (rds w)) = Some l"
    and "tiles_dynamic_cache_with_params cfg" and "0 < tiles_dynamic_cache_params_ttl_seconds cfg"
    and "fst (get_search_result srv cfg cid p w) = Inr (Some bytes)" and "bytes \<noteq> []"
    and "filt bytes z x y = Inr f" and "enc f cid z x y = Inr tile"
  shows "fst (encode_job filt enc srv cfg (tile_job_fields cid p z x y now) pre w) = Inr ''ok''"
    and "fst (get_tile_with_params srv cfg cid z x y p (snd (encode_job filt enc srv cfg (tile_job_fields cid p z x y now) pre w))) =
      Inr (Some tile)"
proof -
  let ?k = "params_cache_key cid z x y p"
  let ?w1 = "snd (get_search_result srv cfg cid p w)"
  let ?w2 = "snd (set_tile_with_params srv cfg cid z x y p tile ?w1)"
  let ?rest = "if pre then for_each (adjacent_tiles z x y) (\<lambda>(z', x', y') _. push_tile_job srv cfg cid p z' x' y') () else ret ()"
  have v1: "view (rds ?w1) = view (rds w)"
    by (auto simp: get_search_result_def cache_get_def prog_simps redis_simps split: sum.split option.split)
  have v2: "view (rds ?w2) = (view (rds w))(?k \<mapsto> (RString tile, Some (tiles_dynamic_cache_params_ttl_seconds cfg)))"
    using assms(2, 3) by (simp add: set_tile_with_params_def view_cache_put v1)
  then have "queued (view (rds ?w2)) = Some l" using assms(1) by (simp add: queued_def)
  from push_all_frame [OF this] have r: "fst (?rest ?w2) = Inr ()" "view (rds (snd (?rest ?w2))) ?k = view (rds ?w2) ?k"
    by (simp_all add: prog_simps)
  have fields: "sbind (jreq (tile_job_fields cid p z x y now) ''collection_id'') j_str = Inr cid"
      "sbind (jreq (tile_job_fields cid p z x y now) ''params_key'') j_str = Inr p"
      "sbind (jreq (tile_job_fields cid p z x y now) ''z'') json_int = Inr z"
      "sbind (jreq (tile_job_fields cid p z x y now) ''x'') json_int = Inr x"
      "sbind (jreq (tile_job_fields cid p z x y now) ''y'') json_int = Inr y"
    by (simp_all add: tile_job_fields_def jreq_def j_str_def json_int_def)
  have put: "fst (set_tile_with_params srv cfg cid z x y p tile ?w1) = Inr ()"
    by (auto simp: set_tile_with_params_def cache_put_def prog_simps split: sum.split)
  have e: "encode_job filt enc srv cfg (tile_job_fields cid p z x y now) pre w = (Inr ''ok'', snd (?rest ?w2))"
    using assms(4-7) r(1) put by (simp add: encode_job_def fields prod_eq_iff prog_simps)
  show "fst (encode_job filt enc srv cfg (tile_job_fields cid p z x y now) pre w) = Inr ''ok''" by (simp add: e)
  show "fst (get_tile_with_params srv cfg cid z x y p (snd (encode_job filt enc srv cfg (tile_job_fields cid p z x y now) pre w))) =
      Inr (Some tile)"
    using assms(2, 3) r(2) by (simp add: e get_tile_with_params_def eval_cache_get v2 redis_simps)
qed

end

text \<open>A worker that runs a tile job whose search result is cached answers ok and leaves the encoding of
  exactly the features selected for that tile where the API looks for the tile, whatever it queues next.\<close>

theorem tile_job_fills_cache:
  assumes "redis_up srv view" and "queued (view (rds w)) = Some l"
    and "tiles_dynamic_cache_with_params cfg" and "0 < tiles_dynamic_cache_params_ttl_seconds cfg"
    and "fst (get_search_result srv cfg cid p w) = Inr (Some bytes)" and "bytes \<noteq> []"
    and "filt bytes z x y = Inr f" and "enc f cid z x y = Inr tile"
  shows "fst (encode_job filt enc srv cfg (tile_job_fields cid p z x y now) pre w) = Inr ''ok'' \<and>
    fst (get_tile_with_params srv cfg cid z x y p (snd (encode_job filt enc srv cfg (tile_job_fields cid p z x y now) pre w))) =
      Inr (Some tile)"
  using redis_up.encode_job_fills [OF assms(1), where filt = filt and enc = enc, OF assms(2-)] by simp

theorem tile_job_fills_cache_witness:
  "fst (get_tile_with_params mem_srv default_settings ''roads'' 3 1 2 ''ab''
      (snd (encode_job (\<lambda>b z x y. Inr b) (\<lambda>f c z x y. Inr (''mvt:'' @ f)) mem_srv default_settings
        (tile_job_fields ''roads'' ''ab'' 3 1 2 0) True
        (env0 [(search_result_key ''roads'' ''ab'', (RString ''fc'', None))])))) = Inr (Some ''mvt:fc'')"
  using tile_job_fills_cache [OF mem.redis_up_axioms,
      of "env0 [(search_result_key ''roads'' ''ab'', (RString ''fc'', None))]" "[]" default_settings "''roads''" "''ab''" "''fc''"
        "\<lambda>b z x y. Inr b" 3 1 2 "''fc''" "\<lambda>f c z x y. Inr (''mvt:'' @ f)" "''mvt:fc''" 0 True]
  by (simp add: queued_def redis_simps get_search_result_def mem.eval_cache_get default_settings_def)

section \<open>One query per search result\<close>

context redis_up
begin

lemma fill_true_cached:
  assumes "0 < tiles_search_result_cache_ttl_seconds cfg"
    and "fst (fill_search_result query srv cfg cid p bbox ids w) = Inr True"
  shows "\<exists>v. fst (get_search_result srv cfg cid p (snd (fill_search_result query srv cfg cid p bbox ids w))) = Inr (Some v)"
proof -
  let ?w1 = "snd (get_search_result srv cfg cid p w)"
  have v1: "view (rds ?w1) = view (rds w)"
    by (auto simp: get_search_result_def cache_get_def prog_simps redis_simps split: sum.split option.split)
  obtain hit where hit: "fst (get_search_result srv cfg cid p w) = Inr hit"
    by (simp add: get_search_result_def eval_cache_get)
  show ?thesis
  proof (cases hit)
    case (Some v)
    then show ?thesis
      using hit v1 by (auto simp: fill_search_result_def prog_simps get_search_result_def eval_cache_get)
  next
    case None
    then obtain v where "fst (query (parse_bbox bbox) (parse_ids ids) ?w1) = Inr v"
      using assms(2) hit by (auto simp: fill_search_result_def prog_simps split: sum.splits)
    then show ?thesis
      using hit None assms(1)
      by (auto simp: fill_search_result_def prog_simps get_search_result_def eval_cache_get set_search_result_def
          cache_put_def redis_simps split: sum.split option.split)
  qed
qed

end

text \<open>Once a caller has filled the search result under the lock, every caller that comes after it answers
  yes without running its own query: even a query that would fail is never asked.\<close>

theorem search_result_single_flight:
  assumes "redis_up srv view" and "0 < tiles_search_result_cache_ttl_seconds cfg"
    and "fst (fill_search_result query srv cfg cid p bbox ids w) = Inr True"
  shows "fst (fill_search_result (\<lambda>_ _. raise SqlError) srv cfg cid p bbox ids (snd (fill_search_result query srv cfg cid p bbox ids w))) = Inr True"
  using redis_up.fill_true_cached [OF assms] by (auto simp: fill_search_result_def [of "\<lambda>_ _. raise SqlError"] prog_simps)

theorem search_result_single_flight_witness:
  "fst (fill_search_result (\<lambda>_ _. raise SqlError) mem_srv default_settings ''roads'' ''ab'' None None
      (snd (fill_search_result (\<lambda>_ _. ret ''fc'') mem_srv default_settings ''roads'' ''ab'' None None (env0 [])))) = Inr True"
proof -
  have "fst (get_search_result mem_srv default_settings ''roads'' ''ab'' (env0 [])) = Inr None"
    by (simp add: get_search_result_def mem.eval_cache_get redis_simps)
  then have "fst (fill_search_result (\<lambda>_ _. ret ''fc'') mem_srv default_settings ''roads'' ''ab'' None None (env0 [])) = Inr True"
    by (auto simp: fill_search_result_def prog_simps set_search_result_def cache_put_def split: sum.split)
  then show ?thesis
    by (intro search_result_single_flight [OF mem.redis_up_axioms]) (simp_all add: default_settings_def)
qed

section \<open>The table of locks\<close>

text \<open>Keys are distinct and there are at most 256 of them.\<close>

definition locks_ok :: "lock_table \<Rightarrow> bool" where
  "locks_ok ls \<longleftrightarrow> distinct (map fst ls) \<and> length ls \<le> MAX_CACHE_LOCKS"

lemma evict_oldest_eq: "evict_oldest ls = drop (length ls - (MAX_CACHE_LOCKS - 1)) ls"
proof (induction ls rule: evict_oldest.induct)
  case (1 ls)
  show ?case
  proof (cases "MAX_CACHE_LOCKS \<le> length ls \<and> ls \<noteq> []")
    case True
    then have "evict_oldest ls = drop (length (tl ls) - (MAX_CACHE_LOCKS - 1)) (tl ls)"
      using 1 by (simp add: evict_oldest.simps [of ls])
    moreover have "length ls - (MAX_CACHE_LOCKS - 1) = Suc (length (tl ls) - (MAX_CACHE_LOCKS - 1))"
      using True by (auto simp: MAX_CACHE_LOCKS_def)
    ultimately show ?thesis by (simp add: drop_Suc)
  qed (auto simp: evict_oldest.simps [of ls] MAX_CACHE_LOCKS_def)
qed

lemma get_lock_hit: "map_of (cache_locks w) (cid, p) = Some l \<Longrightarrow> fst (get_or_create_lock cid p w) = Inr l"
  by (simp add: get_or_create_lock_def Let_def)

lemma lock_removed_length:
  assumes "distinct (map fst ls)" and "map_of ls k = Some l"
  shows "length (filter (\<lambda>p. fst p \<noteq> k) ls) = length ls - 1"
proof -
  have "(k, l) \<in> set ls" using assms(2) by (rule map_of_SomeD)
  then obtain a b where ls: "ls = a @ (k, l) # b" by (meson split_list)
  then have "k \<notin> fst ` set a" "k \<notin> fst ` set b" using assms(1) by auto
  then have "filter (\<lambda>p. fst p \<noteq> k) a = a" "filter (\<lambda>p. fst p \<noteq> k) b = b" by (auto simp: filter_id_conv)
  then show ?thesis using ls by simp
qed

lemma lock_table_ok_step:
  assumes "locks_ok (cache_locks w)"
  shows "locks_ok (cache_locks (snd (get_or_create_lock cid p w)))"
proof (cases "map_of (cache_locks w) (cid, p)")
  case None
  have "distinct (map fst (evict_oldest (cache_locks w)))"
    using assms by (simp add: evict_oldest_eq locks_ok_def drop_map [symmetric] distinct_drop)
  moreover have "(cid, p) \<notin> fst ` set (evict_oldest (cache_locks w))"
    using None by (auto simp: evict_oldest_eq map_of_eq_None_iff dest: in_set_dropD)
  ultimately show ?thesis
    using None by (auto simp: get_or_create_lock_def Let_def locks_ok_def evict_oldest_eq MAX_CACHE_LOCKS_def)
next
  case (Some l)
  then have "cache_locks w \<noteq> []" by auto
  then show ?thesis
    using Some assms lock_removed_length [OF _ Some]
    by (auto simp: get_or_create_lock_def locks_ok_def distinct_map_filter Let_def)
qed

text \<open>The table of locks never holds more than 256 of them nor two for one key: asking for a lock keeps it so.\<close>

theorem lock_table_bounded:
  assumes "locks_ok (cache_locks w)"
  shows "locks_ok (cache_locks (snd (get_or_create_lock cid p w)))"
  using assms by (rule lock_table_ok_step)

theorem lock_table_bounded_witness:
  "locks_ok (cache_locks (snd (get_or_create_lock ''roads'' ''ab'' (senv0 ()))))"
  by (rule lock_table_bounded) (simp add: locks_ok_def senv0_def)

text \<open>While fewer than 256 other keys have been asked for since, the lock of a key is the same lock: the keys used
  after it stand behind it in the table.\<close>

definition lock_kept :: "(string \<times> string) \<Rightarrow> nat \<Rightarrow> (string \<times> string) set \<Rightarrow> lock_table \<Rightarrow> bool" where
  "lock_kept k l S ls \<longleftrightarrow> (\<exists>pre post. ls = pre @ (k, l) # post \<and> fst ` set post \<subseteq> S - {k})"

lemma lock_kept_step:
  assumes "locks_ok (cache_locks w)" and "lock_kept k l S (cache_locks w)" and "(cid, p) \<in> S"
    and "(cid, p) \<noteq> k" and "finite S" and "card (S - {k}) < MAX_CACHE_LOCKS"
  shows "lock_kept k l S (cache_locks (snd (get_or_create_lock cid p w)))"
proof -
  obtain pre post where ls: "cache_locks w = pre @ (k, l) # post" and post: "fst ` set post \<subseteq> S - {k}"
    using assms(2) by (auto simp: lock_kept_def)
  show ?thesis
  proof (cases "map_of (cache_locks w) (cid, p)")
    case (Some m)
    have "filter (\<lambda>x. fst x \<noteq> (cid, p)) (cache_locks w) @ [((cid, p), m)] =
        filter (\<lambda>x. fst x \<noteq> (cid, p)) pre @ (k, l) # (filter (\<lambda>x. fst x \<noteq> (cid, p)) post @ [((cid, p), m)])"
      using ls assms(4) by auto
    moreover have "fst ` set (filter (\<lambda>x. fst x \<noteq> (cid, p)) post @ [((cid, p), m)]) \<subseteq> S - {k}"
      using post assms(3, 4) by auto
    ultimately show ?thesis
      unfolding lock_kept_def get_or_create_lock_def Let_def Some by fastforce
  next
    case None
    let ?n = "length (cache_locks w) - (MAX_CACHE_LOCKS - 1)"
    have "distinct (map fst post)" "(cid, p) \<notin> fst ` set post"
      using assms(1) None unfolding ls locks_ok_def map_of_eq_None_iff by (simp_all add: image_Un)
    then have "card (insert (cid, p) (fst ` set post)) = Suc (length post)"
      by (simp add: card_image distinct_map distinct_card)
    moreover have "insert (cid, p) (fst ` set post) \<subseteq> S - {k}" using post assms(3, 4) by auto
    ultimately have "Suc (length post) < MAX_CACHE_LOCKS"
      using assms(5, 6) card_mono [of "S - {k}" "insert (cid, p) (fst ` set post)"] by simp
    then have "?n \<le> length pre" using ls by (simp add: MAX_CACHE_LOCKS_def)
    then have "evict_oldest (cache_locks w) = drop ?n pre @ (k, l) # post" by (simp add: evict_oldest_eq ls)
    moreover have "fst ` set (post @ [((cid, p), next_lock w)]) \<subseteq> S - {k}" using post assms(3, 4) by auto
    ultimately show ?thesis
      unfolding lock_kept_def get_or_create_lock_def Let_def None by fastforce
  qed
qed

fun ask_locks :: "(string \<times> string) list \<Rightarrow> ('s, 'z) senv_scheme \<Rightarrow> ('s, 'z) senv_scheme" where
  "ask_locks [] w = w"
| "ask_locks ((cid, p) # ks) w = ask_locks ks (snd (get_or_create_lock cid p w))"

lemma lock_kept_asks:
  assumes "locks_ok (cache_locks w)" and "lock_kept k l S (cache_locks w)" and "set ks \<subseteq> S" and "k \<notin> set ks"
    and "finite S" and "card (S - {k}) < MAX_CACHE_LOCKS"
  shows "lock_kept k l S (cache_locks (ask_locks ks w)) \<and> locks_ok (cache_locks (ask_locks ks w))"
  using assms
proof (induction ks w rule: ask_locks.induct)
  case (2 cid p ks w)
  then show ?case using lock_kept_step [of w k l S cid p] lock_table_ok_step [of w cid p] by auto
qed simp

text \<open>Two callers that ask for the lock of the same search get the same lock, as long as fewer than 256 other
  searches were asked for in between, so that the second one waits for the first.\<close>

theorem same_lock_under_load:
  assumes "locks_ok (cache_locks w)" and "(cid, p) \<notin> set ks" and "card (set ks) < MAX_CACHE_LOCKS"
  shows "fst (get_or_create_lock cid p (ask_locks ks (snd (get_or_create_lock cid p w)))) = fst (get_or_create_lock cid p w)"
proof -
  let ?w = "snd (get_or_create_lock cid p w)"
  obtain l where l: "fst (get_or_create_lock cid p w) = Inr l"
    by (cases "map_of (cache_locks w) (cid, p)") (auto simp: get_or_create_lock_def Let_def)
  have "lock_kept (cid, p) l (set ks) (cache_locks ?w)"
    using l unfolding lock_kept_def
    by (cases "map_of (cache_locks w) (cid, p)") (force simp: get_or_create_lock_def Let_def)+
  then have "lock_kept (cid, p) l (set ks) (cache_locks (ask_locks ks ?w)) \<and> locks_ok (cache_locks (ask_locks ks ?w))"
    using assms lock_table_ok_step [OF assms(1)] by (intro lock_kept_asks) simp_all
  then have "map_of (cache_locks (ask_locks ks ?w)) (cid, p) = Some l"
    by (auto simp: lock_kept_def locks_ok_def)
  then show ?thesis using get_lock_hit [of "ask_locks ks ?w"] l by simp
qed

theorem same_lock_under_load_witness:
  "let w = senv0 () in
   fst (get_or_create_lock ''roads'' ''ab'' (ask_locks [(''rivers'', ''cd'')] (snd (get_or_create_lock ''roads'' ''ab'' w)))) =
   fst (get_or_create_lock ''roads'' ''ab'' w)"
  unfolding Let_def by (rule same_lock_under_load) (simp_all add: locks_ok_def senv0_def MAX_CACHE_LOCKS_def)

end
