(* ===== verification/Feature_Parts.thy ===== *)
theory Feature_Parts
  imports Py_Datetime Py_Json App_Settings
begin

text \<open>
  \<^verbatim>\<open>app/utils/feature_subdivide.py\<close> and \<^verbatim>\<open>app/utils/geometry_limits.py\<close>: a logical feature is stored as one row per
  part of its geometry. Shapely geometries are the seven types the code distinguishes, with exact
  coordinates; their intersection with a box is the parameter \<open>isect\<close>, the length of their binary form \<open>wkb_len\<close>, and
  PostGIS' \<^verbatim>\<open>ST_Subdivide\<close> of a WKT text \<open>st_subdivide\<close>. The number given to \<open>subdivide_geometry_by_vertices\<close> first is the
  depth of calls the interpreter still allows: a deeper call raises, and the call above it keeps its geometry whole.
  An \<^verbatim>\<open>INSERT\<close> statement is the list of rows it inserts.

  Shown: for any intersection that obeys the laws of the locale \<open>planar_geometry\<close> the pieces of a geometry cover exactly
  what it covers, even when intersections fail or the call stack is exhausted; the rows of one feature carry distinct
  part numbers and its non-empty pieces in order.
\<close>

section \<open>Geometries\<close>

type_synonym coord = "rat \<times> rat"
type_synonym bbox = "rat \<times> rat \<times> rat \<times> rat"

datatype geom =
    Point "coord list"
  | LineString "coord list"
  | Polygon "coord list" "coord list list"
  | MultiPoint "coord list"
  | MultiLineString "coord list list"
  | MultiPolygon "(coord list \<times> coord list list) list"
  | GeometryCollection "geom list"

fun coords :: "geom \<Rightarrow> coord list" where
  "coords (Point cs) = cs"
| "coords (LineString cs) = cs"
| "coords (Polygon ext holes) = ext @ concat holes"
| "coords (MultiPoint cs) = cs"
| "coords (MultiLineString ls) = concat ls"
| "coords (MultiPolygon ps) = concat (map (\<lambda>(ext, holes). ext @ concat holes) ps)"
| "coords (GeometryCollection gs) = concat (map coords gs)"

definition is_empty :: "geom \<Rightarrow> bool" where
  "is_empty g \<longleftrightarrow> coords g = []"

definition bounds :: "geom \<Rightarrow> bbox" where
  "bounds g = (let xs = map fst (coords g); ys = map snd (coords g)
     in (fold min (tl xs) (hd xs), fold min (tl ys) (hd ys), fold max (tl xs) (hd xs), fold max (tl ys) (hd ys)))"

definition MAX_COORDS_FOR_DB_SUBDIVIDE :: int where
  "MAX_COORDS_FOR_DB_SUBDIVIDE = 35000"

fun coord_count :: "geom \<Rightarrow> int" where
  "coord_count (Polygon ext holes) = int (length ext) + sum_list (map (int \<circ> length) holes)"
| "coord_count (MultiPolygon ps) = sum_list (map (\<lambda>(ext, holes). int (length ext) + sum_list (map (int \<circ> length) holes)) ps)"
| "coord_count (GeometryCollection gs) = sum_list (map coord_count gs)"
| "coord_count (LineString cs) = int (length cs)"
| "coord_count (MultiLineString ls) = sum_list (map (int \<circ> length) ls)"
| "coord_count (MultiPoint cs) = int (length cs)"
| "coord_count (Point cs) = (if cs = [] then 0 else 1)"

section \<open>Subdivision\<close>

text \<open>Run over several geometries until one of them raises; the flag says that one did.\<close>

fun gather :: "(geom \<Rightarrow> exn + geom list) \<Rightarrow> geom list \<Rightarrow> geom list \<times> bool" where
  "gather f [] = ([], False)"
| "gather f (g # gs) =
     (case f g of Inl _ \<Rightarrow> ([], True) | Inr ps \<Rightarrow> (let (qs, failed) = gather f gs in (ps @ qs, failed)))"

definition cell_pieces ::
    "(geom \<Rightarrow> bbox \<Rightarrow> exn + geom) \<Rightarrow> (geom \<Rightarrow> exn + geom list) \<Rightarrow> geom \<Rightarrow> bbox \<Rightarrow> geom list \<times> bool" where
  "cell_pieces isect f g cell =
     (case isect g cell of
        Inl _ \<Rightarrow> ([], True)
      | Inr piece \<Rightarrow>
          if is_empty piece then ([], False)
          else (case piece of
                  GeometryCollection gs \<Rightarrow> gather f (filter (\<lambda>g. \<not> is_empty g) gs)
                | _ \<Rightarrow> gather f [piece]))"

definition halves :: "bbox \<Rightarrow> bbox \<times> bbox" where
  "halves b =
     (case b of (minx, miny, maxx, maxy) \<Rightarrow>
        let dx = maxx - minx; dy = maxy - miny in
        if dy \<le> dx
        then (let mid = minx + dx * (1 / 2) in ((minx, miny, mid, maxy), (mid, miny, maxx, maxy)))
        else (let mid = miny + dy * (1 / 2) in ((minx, miny, maxx, mid), (minx, mid, maxx, maxy))))"

text \<open>The loop over the two cells: a failure keeps the geometry whole and ends the loop.\<close>

definition split_pieces :: "(geom \<Rightarrow> bbox \<Rightarrow> exn + geom) \<Rightarrow> (geom \<Rightarrow> exn + geom list) \<Rightarrow> geom \<Rightarrow> geom list" where
  "split_pieces isect f g =
     (let l = cell_pieces isect f g (fst (halves (bounds g))) in
      if snd l then fst l @ [g]
      else let r = cell_pieces isect f g (snd (halves (bounds g))) in
           if snd r then fst l @ fst r @ [g] else fst l @ fst r)"

primrec subdivide_geometry_by_vertices ::
    "nat \<Rightarrow> (geom \<Rightarrow> bbox \<Rightarrow> exn + geom) \<Rightarrow> int \<Rightarrow> geom \<Rightarrow> exn + geom list" where
  "subdivide_geometry_by_vertices 0 isect max_vertices g = Inl RecursionError"
| "subdivide_geometry_by_vertices (Suc n) isect max_vertices g =
     (if is_empty g then Inr []
      else
        let mv = (if max_vertices \<le> 0 then 256 else max_vertices) in
        if coord_count g \<le> mv then Inr [g]
        else
          case bounds g of (minx, miny, maxx, maxy) \<Rightarrow>
            if maxx - minx \<le> 0 \<and> maxy - miny \<le> 0 then Inr [g]
            else
              let out = split_pieces isect (subdivide_geometry_by_vertices n isect mv) g
              in Inr (if out = [] then [g] else out))"

section \<open>Rows\<close>

record feature_row =
  fr_id :: string
  fr_collection_id :: string
  fr_part_index :: int
  fr_geometry :: "string option"
  fr_properties :: "(string \<times> json) list option"
  fr_created_at :: datetime
  fr_updated_at :: datetime
  fr_bulk_import_job_id :: "string option"

definition py_upper_ascii :: "string \<Rightarrow> string" where
  "py_upper_ascii s = map (\<lambda>c. let n = (of_char c :: nat) in if 97 \<le> n \<and> n \<le> 122 then char_of (n - 32) else c) s"

definition is_empty_or_null_wkt :: "string option \<Rightarrow> bool" where
  "is_empty_or_null_wkt wkt =
     (case wkt of
        None \<Rightarrow> True
      | Some s \<Rightarrow>
          if py_strip s = [] then True
          else let u = py_upper_ascii (py_strip s) in u = ''EMPTY'' \<or> starts_with (rev '' EMPTY'') (rev u))"

text \<open>The columns every row of a feature shares; empty properties are stored as null.\<close>

definition mk_row ::
    "string \<Rightarrow> string \<Rightarrow> (string \<times> json) list option \<Rightarrow> datetime \<Rightarrow> string option \<Rightarrow> int \<Rightarrow> string option \<Rightarrow> feature_row" where
  "mk_row fid cid props now job part geometry =
     \<lparr>fr_id = fid, fr_collection_id = cid, fr_part_index = part, fr_geometry = geometry,
      fr_properties = (case props of None \<Rightarrow> None | Some d \<Rightarrow> if d = [] then None else Some d),
      fr_created_at = now, fr_updated_at = now, fr_bulk_import_job_id = job\<rparr>"

definition insert_feature_subdivided_sql ::
    "(string \<Rightarrow> int \<Rightarrow> exn + string list) \<Rightarrow> string \<Rightarrow> string \<Rightarrow> string option \<Rightarrow> (string \<times> json) list option \<Rightarrow> datetime \<Rightarrow>
     int \<Rightarrow> string option \<Rightarrow> exn + feature_row list" where
  "insert_feature_subdivided_sql st_subdivide fid cid wkt props now max_vertices job =
     (if is_empty_or_null_wkt wkt then Inr [mk_row fid cid props now job 0 None]
      else sbind (st_subdivide (the wkt) max_vertices) (\<lambda>gs.
           Inr (map (\<lambda>(i, g). mk_row fid cid props now job (int i) (Some g)) (enumerate 0 gs))))"

primrec values_parts :: "(int \<Rightarrow> string \<Rightarrow> feature_row) \<Rightarrow> int \<Rightarrow> feature_row list \<Rightarrow> string list \<Rightarrow> feature_row list" where
  "values_parts row start acc [] = acc"
| "values_parts row start acc (wkt # wkts) =
     (if wkt = [] \<or> is_empty_or_null_wkt (Some wkt) then values_parts row start acc wkts
      else values_parts row start (acc @ [row (start + int (length acc)) wkt]) wkts)"

text \<open>\<^verbatim>\<open>range(start, ..., batch_size)\<close> over the rest of the list, for a positive step.\<close>

function batches_from :: "(int \<Rightarrow> string \<Rightarrow> feature_row) \<Rightarrow> nat \<Rightarrow> int \<Rightarrow> string list \<Rightarrow> feature_row list list" where
  "batches_from row step start wkts =
     (if wkts = [] \<or> step = 0 then []
      else
        let rows = values_parts row start [] (take step wkts)
        in (if rows = [] then [] else [rows]) @ batches_from row step (start + int step) (drop step wkts))"
  by pat_completeness auto
termination
  by (relation "measure (\<lambda>(_, _, _, wkts). length wkts)") (auto simp: length_greater_0_conv)

declare batches_from.simps [simp del]

definition insert_feature_parts_batched ::
    "string \<Rightarrow> string \<Rightarrow> string list \<Rightarrow> (string \<times> json) list option \<Rightarrow> datetime \<Rightarrow> int \<Rightarrow> string option \<Rightarrow> exn + feature_row list list" where
  "insert_feature_parts_batched fid cid wkt_list props now batch_size job =
     (if batch_size = 0 then Inl ValueError
      else if batch_size < 0 then Inr []
      else Inr (batches_from (\<lambda>i wkt. mk_row fid cid props now job i (Some wkt)) (nat batch_size) 0 wkt_list))"

section \<open>The insert buffer\<close>

record pending_feature =
  pf_feature_id :: string
  pf_wkt :: "string option"
  pf_properties :: "(string \<times> json) list option"
  pf_wkt_list :: "string list option"

record feature_insert_buffer =
  fb_collection_id :: string
  fb_now :: datetime
  fb_max_vertices :: int
  fb_bulk_import_job_id :: "string option"
  fb_insert_parts_batch_size :: int
  fb_pending :: "pending_feature list"

definition buffer_add :: "pending_feature \<Rightarrow> feature_insert_buffer \<Rightarrow> feature_insert_buffer" where
  "buffer_add f b = b\<lparr>fb_pending := fb_pending b @ [f]\<rparr>"

definition pending_statements ::
    "(string \<Rightarrow> int \<Rightarrow> exn + string list) \<Rightarrow> feature_insert_buffer \<Rightarrow> pending_feature \<Rightarrow> exn + feature_row list list" where
  "pending_statements st_subdivide b item =
     (if pf_wkt_list item \<noteq> None \<and> pf_wkt_list item \<noteq> Some []
      then insert_feature_parts_batched (pf_feature_id item) (fb_collection_id b) (the (pf_wkt_list item)) (pf_properties item)
             (fb_now b) (fb_insert_parts_batch_size b) (fb_bulk_import_job_id b)
      else sbind (insert_feature_subdivided_sql st_subdivide (pf_feature_id item) (fb_collection_id b) (pf_wkt item) (pf_properties item)
             (fb_now b) (fb_max_vertices b) (fb_bulk_import_job_id b)) (\<lambda>rows. Inr [rows]))"

text \<open>The buffer is emptied only after every statement has been executed.\<close>

definition buffer_flush ::
    "(string \<Rightarrow> int \<Rightarrow> exn + string list) \<Rightarrow> (feature_row list \<Rightarrow> ('w, unit) prog) \<Rightarrow> feature_insert_buffer \<Rightarrow>
     ('w, int \<times> feature_insert_buffer) prog" where
  "buffer_flush st_subdivide execute b =
     (if fb_pending b = [] then ret (0, b)
      else
        bnd (for_each (fb_pending b) (\<lambda>item _.
               bnd (lift_exn (pending_statements st_subdivide b item)) (\<lambda>stmts.
               for_each stmts (\<lambda>rows _. execute rows) ())) ()) (\<lambda>_.
        ret (int (length (fb_pending b)), b\<lparr>fb_pending := []\<rparr>)))"

section \<open>\<^verbatim>\<open>geometry_limits.py\<close>\<close>

definition geometry_wkb_byte_length :: "(geom \<Rightarrow> int) \<Rightarrow> geom option \<Rightarrow> int" where
  "geometry_wkb_byte_length wkb_len g = (case g of None \<Rightarrow> 0 | Some g \<Rightarrow> if is_empty g then 0 else wkb_len g)"

definition max_geometry_bytes :: "settings \<Rightarrow> int option \<Rightarrow> int" where
  "max_geometry_bytes cfg max_bytes = (case max_bytes of None \<Rightarrow> features_max_geometry_bytes cfg | Some m \<Rightarrow> m)"

definition geometry_exceeds_limit :: "(geom \<Rightarrow> int) \<Rightarrow> settings \<Rightarrow> int option \<Rightarrow> geom option \<Rightarrow> bool" where
  "geometry_exceeds_limit wkb_len cfg max_bytes g =
     (case g of
        None \<Rightarrow> False
      | Some g' \<Rightarrow>
          if is_empty g' then False
          else let max_b = max_geometry_bytes cfg max_bytes
               in if max_b \<le> 0 then False else geometry_wkb_byte_length wkb_len g > max_b)"

definition check_geometry_size_limit :: "(geom \<Rightarrow> int) \<Rightarrow> settings \<Rightarrow> int option \<Rightarrow> geom option \<Rightarrow> exn + unit" where
  "check_geometry_size_limit wkb_len cfg max_bytes g =
     (case g of
        None \<Rightarrow> Inr ()
      | Some g' \<Rightarrow>
          if is_empty g' then Inr ()
          else let max_b = max_geometry_bytes cfg max_bytes
               in if max_b \<le> 0 then Inr ()
                  else let n = geometry_wkb_byte_length wkb_len g
                       in if n > max_b then Inl (GeometryTooLargeError n max_b) else Inr ())"

section \<open>The pieces cover the geometry\<close>

lemma subdivide_cases:
  assumes "subdivide_geometry_by_vertices (Suc n) isect mv g = Inr ps"
  shows "is_empty g \<and> ps = [] \<or> \<not> is_empty g \<and> ps = [g] \<or>
    \<not> is_empty g \<and> ps \<noteq> [] \<and> (\<exists>m. ps = split_pieces isect (subdivide_geometry_by_vertices n isect m) g)"
  using assms by (auto simp: Let_def split: if_splits prod.splits)

lemma cell_pieces_gather:
  assumes "isect g b = Inr h" and "\<not> is_empty h"
  shows "\<exists>hs. cell_pieces isect f g b = gather f hs \<and>
    (hs = [h] \<or> (\<exists>gs. h = GeometryCollection gs \<and> hs = filter (\<lambda>g. \<not> is_empty g) gs))"
  using assms by (cases h) (auto simp: cell_pieces_def simp del: gather.simps)

definition box_region :: "bbox \<Rightarrow> coord set" where
  "box_region b = (case b of (minx, miny, maxx, maxy) \<Rightarrow> {(x, y). minx \<le> x \<and> x \<le> maxx \<and> miny \<le> y \<and> y \<le> maxy})"

text \<open>What the code relies on: \<open>region g\<close> is the set of points of \<open>g\<close>, an intersection that succeeds is exact, and a
  geometry lies within its bounds.\<close>

locale planar_geometry =
  fixes isect :: "geom \<Rightarrow> bbox \<Rightarrow> exn + geom" and region :: "geom \<Rightarrow> coord set"
  assumes region_isect: "isect g b = Inr h \<Longrightarrow> region h = region g \<inter> box_region b"
    and region_collection: "region (GeometryCollection gs) = (\<Union>g\<in>set gs. region g)"
    and region_empty: "is_empty g \<Longrightarrow> region g = {}"
    and region_bounds: "\<not> is_empty g \<Longrightarrow> region g \<subseteq> box_region (bounds g)"
begin

definition covers :: "geom list \<Rightarrow> coord set" where
  "covers ps = (\<Union>p\<in>set ps. region p)"

lemma covers_simps [simp]: "covers [] = {}" "covers (p # ps) = region p \<union> covers ps" "covers (ps @ qs) = covers ps \<union> covers qs"
  by (simp_all add: covers_def)

lemma covers_nonempty: "covers (filter (\<lambda>g. \<not> is_empty g) gs) = covers gs"
  using region_empty by (induction gs) auto

lemma gather_covers:
  assumes "\<And>g ps. g \<in> set gs \<Longrightarrow> f g = Inr ps \<Longrightarrow> covers ps = region g"
  shows "covers (fst (gather f gs)) \<subseteq> covers gs \<and> (snd (gather f gs) \<or> covers (fst (gather f gs)) = covers gs)"
  using assms
proof (induction gs)
  case (Cons g gs)
  then show ?case by (cases "f g") (auto simp: Let_def split: prod.splits)
qed simp

lemma cell_pieces_covers:
  assumes "\<And>g ps. f g = Inr ps \<Longrightarrow> covers ps = region g"
  shows "covers (fst (cell_pieces isect f g b)) \<subseteq> region g \<inter> box_region b \<and>
    (snd (cell_pieces isect f g b) \<or> covers (fst (cell_pieces isect f g b)) = region g \<inter> box_region b)"
proof (cases "isect g b")
  case (Inr h)
  note r = region_isect [OF Inr]
  show ?thesis
  proof (cases "is_empty h")
    case True
    then show ?thesis using Inr r region_empty by (simp add: cell_pieces_def)
  next
    case False
    then obtain hs where "cell_pieces isect f g b = gather f hs"
      and "hs = [h] \<or> (\<exists>gs. h = GeometryCollection gs \<and> hs = filter (\<lambda>g. \<not> is_empty g) gs)"
      using cell_pieces_gather [of isect g b h f] Inr by blast
    moreover from this(2) have "covers hs = region h"
      using region_collection covers_nonempty by (auto simp: covers_def)
    ultimately show ?thesis using gather_covers [of hs f] assms r by simp
  qed
qed (simp add: cell_pieces_def)

lemma halves_cover: "box_region b \<subseteq> box_region (fst (halves b)) \<union> box_region (snd (halves b))"
  by (cases b) (auto simp: halves_def Let_def box_region_def)

lemma split_pieces_covers:
  assumes "\<And>g ps. f g = Inr ps \<Longrightarrow> covers ps = region g" and "\<not> is_empty g"
  shows "covers (split_pieces isect f g) = region g"
proof -
  let ?bl = "box_region (fst (halves (bounds g)))" and ?br = "box_region (snd (halves (bounds g)))"
  have "region g \<subseteq> ?bl \<union> ?br" using region_bounds [OF assms(2)] halves_cover by blast
  moreover note cell_pieces_covers [of f g "fst (halves (bounds g))", OF assms(1)]
    and cell_pieces_covers [of f g "snd (halves (bounds g))", OF assms(1)]
  ultimately show ?thesis by (auto simp: split_pieces_def Let_def)
qed

lemma subdivide_covers:
  assumes "subdivide_geometry_by_vertices n isect mv g = Inr ps"
  shows "covers ps = region g"
  using assms
proof (induction n arbitrary: mv g ps)
  case (Suc n)
  from subdivide_cases [OF Suc.prems] show ?case
    using Suc.IH split_pieces_covers region_empty by (elim disjE conjE exE) auto
qed simp

end

lemma gather_nonempty:
  "(\<And>g ps. f g = Inr ps \<Longrightarrow> list_all (\<lambda>p. \<not> is_empty p) ps) \<Longrightarrow> list_all (\<lambda>p. \<not> is_empty p) (fst (gather f gs))"
  by (induction gs) (auto simp: Let_def split: sum.split prod.split)

lemma cell_pieces_nonempty:
  assumes "\<And>g ps. f g = Inr ps \<Longrightarrow> list_all (\<lambda>p. \<not> is_empty p) ps"
  shows "list_all (\<lambda>p. \<not> is_empty p) (fst (cell_pieces isect f g b))"
proof (cases "isect g b")
  case (Inr h)
  show ?thesis
  proof (cases "is_empty h")
    case False
    then obtain hs where "cell_pieces isect f g b = gather f hs" using cell_pieces_gather [of isect g b h f] Inr by blast
    then show ?thesis using gather_nonempty assms by metis
  qed (simp add: cell_pieces_def Inr)
qed (simp add: cell_pieces_def)

lemma subdivide_nonempty:
  "subdivide_geometry_by_vertices n isect mv g = Inr ps \<Longrightarrow> list_all (\<lambda>p. \<not> is_empty p) ps"
proof (induction n arbitrary: mv g ps)
  case (Suc n)
  have c: "list_all (\<lambda>p. \<not> is_empty p) (fst (cell_pieces isect (subdivide_geometry_by_vertices n isect m) g b))" for m b
    using Suc.IH by (intro cell_pieces_nonempty) blast
  from subdivide_cases [OF Suc.prems] show ?case
    using c by (elim disjE conjE exE) (auto simp: split_pieces_def Let_def)
qed simp

lemma subdivide_returns: "\<exists>ps. subdivide_geometry_by_vertices (Suc n) isect mv g = Inr ps"
  by (simp add: Let_def split: prod.split)

text \<open>A concrete intersection that obeys the laws: the vertices of a geometry that lie in the box.\<close>

definition isect_points :: "geom \<Rightarrow> bbox \<Rightarrow> exn + geom" where
  "isect_points g b = (case b of (minx, miny, maxx, maxy) \<Rightarrow>
     Inr (MultiPoint (filter (\<lambda>(x, y). minx \<le> x \<and> x \<le> maxx \<and> miny \<le> y \<and> y \<le> maxy) (coords g))))"

lemma fold_min_le: "x \<in> set (a # xs) \<Longrightarrow> fold min xs a \<le> x" for x :: "'a::linorder"
  by (simp only: Min.set_eq_fold [symmetric]) simp

lemma fold_max_ge: "x \<in> set (a # xs) \<Longrightarrow> x \<le> fold max xs a" for x :: "'a::linorder"
  by (simp only: Max.set_eq_fold [symmetric]) simp

interpretation points: planar_geometry isect_points "\<lambda>g. set (coords g)"
proof unfold_locales
  fix g b h assume "isect_points g b = Inr h"
  then show "set (coords h) = set (coords g) \<inter> box_region b"
    by (cases b) (auto simp: isect_points_def box_region_def)
next
  fix g assume "\<not> is_empty g"
  then show "set (coords g) \<subseteq> box_region (bounds g)"
    by (cases "coords g") (auto simp: is_empty_def bounds_def Let_def box_region_def
        intro!: fold_min_le fold_max_ge rev_image_eqI)
qed (auto simp: is_empty_def)

text \<open>For every intersection that obeys the laws of planar geometry, the pieces a geometry is split into cover
  exactly the points of the geometry, also when an intersection fails or the depth of calls is exhausted on the way; none of
  them is empty, and a geometry that is not empty has at least one.\<close>

theorem subdivision_covers_geometry:
  assumes "planar_geometry isect region"
  shows "\<exists>ps. subdivide_geometry_by_vertices (Suc n) isect max_vertices g = Inr ps \<and>
    (\<Union>p\<in>set ps. region p) = region g \<and> list_all (\<lambda>p. \<not> is_empty p) ps \<and> (ps = [] \<longleftrightarrow> is_empty g)"
proof -
  obtain ps where ps: "subdivide_geometry_by_vertices (Suc n) isect max_vertices g = Inr ps" using subdivide_returns by blast
  have "ps = [] \<longleftrightarrow> is_empty g" using subdivide_cases [OF ps] by auto
  then show ?thesis
    using ps planar_geometry.subdivide_covers [OF assms ps] subdivide_nonempty [OF ps]
    by (auto simp: planar_geometry.covers_def [OF assms])
qed

theorem subdivision_covers_geometry_witness:
  "\<exists>ps. subdivide_geometry_by_vertices 10 isect_points 2 (MultiPoint [(0, 0), (1, 5), (2, 2), (7, 1)]) = Inr ps \<and>
    (\<Union>p\<in>set ps. set (coords p)) = {(0, 0), (1, 5), (2, 2), (7, 1)}"
proof -
  have "(10 :: nat) = Suc 9" by simp
  then show ?thesis
    using subdivision_covers_geometry [OF points.planar_geometry_axioms, of 9 2 "MultiPoint [(0, 0), (1, 5), (2, 2), (7, 1)]"]
    by (simp only: coords.simps list.set) blast
qed

section \<open>Part numbers\<close>

definition live_wkt :: "string \<Rightarrow> bool" where
  "live_wkt wkt \<longleftrightarrow> wkt \<noteq> [] \<and> \<not> is_empty_or_null_wkt (Some wkt)"

lemma values_parts_eq:
  "values_parts row start acc wkts = acc @ map (\<lambda>(i, w). row (start + int i) w) (enumerate (length acc) (filter live_wkt wkts))"
  by (induction wkts arbitrary: acc) (simp_all add: live_wkt_def)

lemma values_parts_geometry:
  assumes "\<And>i w. fr_geometry (row i w) = Some w"
  shows "map fr_geometry (values_parts row start [] wkts) = map Some (filter live_wkt wkts)"
proof -
  have "map (fr_geometry \<circ> (\<lambda>(i, w). row (start + int i) w)) (enumerate n ws) = map Some ws" for n ws
    by (induction ws arbitrary: n) (simp_all add: assms)
  then show ?thesis by (simp add: values_parts_eq)
qed

lemma values_parts_index:
  assumes "\<And>i w. fr_part_index (row i w) = i"
  shows "map fr_part_index (values_parts row start [] wkts) = map (\<lambda>i. start + int i) [0..<length (filter live_wkt wkts)]"
proof -
  have "map (fr_part_index \<circ> (\<lambda>(i, w). row (start + int i) w)) (enumerate n ws) = map (\<lambda>i. start + int i) [n..<n + length ws]" for n ws
    by (induction ws arbitrary: n) (simp_all add: assms upt_rec)
  then show ?thesis by (simp add: values_parts_eq)
qed

text \<open>All rows of a run of batches: the live texts in order, with strictly increasing numbers below the end of the run.\<close>

lemma batches_rows:
  assumes "\<And>i w. fr_geometry (row i w) = Some w" and "\<And>i w. fr_part_index (row i w) = i" and "0 < step"
  shows "map fr_geometry (concat (batches_from row step start wkts)) = map Some (filter live_wkt wkts) \<and>
    sorted_wrt (<) (map fr_part_index (concat (batches_from row step start wkts))) \<and>
    (\<forall>r\<in>set (concat (batches_from row step start wkts)). start \<le> fr_part_index r \<and> fr_part_index r < start + int (length wkts)) \<and>
    (\<forall>b\<in>set (batches_from row step start wkts). b \<noteq> [] \<and> length b \<le> step)"
proof (induction "length wkts" arbitrary: start wkts rule: less_induct)
  case less
  show ?case
  proof (cases "wkts = []")
    case False
    let ?vp = "values_parts row start [] (take step wkts)"
    let ?rest = "batches_from row step (start + int step) (drop step wkts)"
    have eq: "concat (batches_from row step start wkts) = ?vp @ concat ?rest"
      using False assms(3) by (subst batches_from.simps) (auto simp: Let_def)
    have b: "x = ?vp \<and> ?vp \<noteq> [] \<or> x \<in> set ?rest" if "x \<in> set (batches_from row step start wkts)" for x
      using that False assms(3) by (subst (asm) batches_from.simps) (auto simp: Let_def split: if_splits)
    have "length (drop step wkts) < length wkts" using False assms(3) by simp
    note IH = less [OF this, of "start + int step"]
    have IHg: "map fr_geometry (concat ?rest) = map Some (filter live_wkt (drop step wkts))"
      and IHs: "sorted_wrt (<) (map fr_part_index (concat ?rest))"
      and IHr: "\<And>r. r \<in> set (concat ?rest) \<Longrightarrow> start + int step \<le> fr_part_index r \<and>
          fr_part_index r < start + int step + int (length (drop step wkts))"
      and IHb: "\<And>b. b \<in> set ?rest \<Longrightarrow> b \<noteq> [] \<and> length b \<le> step"
      using IH by blast+
    have vi: "map fr_part_index ?vp = map (\<lambda>i. start + int i) [0..<length (filter live_wkt (take step wkts))]"
      by (rule values_parts_index) (rule assms(2))
    have len: "length (filter live_wkt (take step wkts)) \<le> min step (length wkts)"
      by (metis length_filter_le length_take min.commute)
    have vr: "start \<le> fr_part_index r \<and> fr_part_index r < start + int (min step (length wkts))" if "r \<in> set ?vp" for r
    proof -
      have "fr_part_index r \<in> set (map fr_part_index ?vp)" using that by simp
      then show ?thesis unfolding vi using len by auto
    qed
    have "length ?vp = length (map fr_part_index ?vp)" by simp
    then have lv: "length ?vp \<le> step" unfolding vi using len by simp
    have "filter live_wkt wkts = filter live_wkt (take step wkts) @ filter live_wkt (drop step wkts)"
      by (simp only: filter_append [symmetric] append_take_drop_id)
    then have g: "map fr_geometry (?vp @ concat ?rest) = map Some (filter live_wkt wkts)"
      using values_parts_geometry [of row start "take step wkts", OF assms(1)] IHg by (simp only: map_append)
    have "sorted_wrt (<) (map fr_part_index ?vp)" unfolding vi by (simp add: sorted_wrt_map)
    moreover have "a < c" if a: "a \<in> fr_part_index ` set ?vp" and c: "c \<in> fr_part_index ` set (concat ?rest)" for a c
    proof -
      have "a < start + int step" using a vr by fastforce
      also have "\<dots> \<le> c" using c IHr by blast
      finally show ?thesis .
    qed
    ultimately have srt: "sorted_wrt (<) (map fr_part_index (?vp @ concat ?rest))"
      using IHs by (simp only: map_append sorted_wrt_append set_map) blast
    have rng: "start \<le> fr_part_index r \<and> fr_part_index r < start + int (length wkts)" if "r \<in> set (?vp @ concat ?rest)" for r
    proof (cases "r \<in> set ?vp")
      case True
      then show ?thesis using vr [of r] by auto
    next
      case f: False
      then have "r \<in> set (concat ?rest)" using that by auto
      moreover from this have "drop step wkts \<noteq> []" by (auto simp: batches_from.simps)
      ultimately show ?thesis using IHr [of r] by auto
    qed
    have bts: "b \<noteq> [] \<and> length b \<le> step" if "b \<in> set (batches_from row step start wkts)" for b
      using b [OF that] lv IHb by (elim disjE conjE) simp_all
    show ?thesis unfolding eq using g srt rng bts by blast
  qed (simp add: batches_from.simps)
qed

lemma mk_row_simps [simp]:
  "fr_geometry (mk_row fid cid props now job i g) = g" "fr_part_index (mk_row fid cid props now job i g) = i"
  "fr_id (mk_row fid cid props now job i g) = fid" "fr_collection_id (mk_row fid cid props now job i g) = cid"
  "fr_created_at (mk_row fid cid props now job i g) = now" "fr_updated_at (mk_row fid cid props now job i g) = now"
  "fr_bulk_import_job_id (mk_row fid cid props now job i g) = job"
  by (simp_all add: mk_row_def)

text \<open>The statements that store a feature split in Python insert its live pieces in order, at most a batch per
  statement and never an empty statement, under strictly increasing part numbers, so that no two rows of the feature collide.\<close>

theorem batched_parts_distinct:
  assumes "0 < batch_size"
  shows "\<exists>bs. insert_feature_parts_batched fid cid wkts props now batch_size job = Inr bs \<and>
    map fr_geometry (concat bs) = map Some (filter live_wkt wkts) \<and>
    sorted_wrt (<) (map fr_part_index (concat bs)) \<and>
    (\<forall>r\<in>set (concat bs). 0 \<le> fr_part_index r \<and> fr_part_index r < int (length wkts)) \<and>
    (\<forall>b\<in>set bs. b \<noteq> [] \<and> int (length b) \<le> batch_size)"
proof -
  have "b \<le> nat batch_size \<longleftrightarrow> int b \<le> batch_size" for b using assms by linarith
  then show ?thesis
    using batches_rows [of "\<lambda>i wkt. mk_row fid cid props now job i (Some wkt)" "nat batch_size" 0 wkts] assms
    by (simp add: insert_feature_parts_batched_def)
qed

theorem batched_parts_distinct_witness:
  "\<exists>bs. insert_feature_parts_batched ''f1'' ''roads'' [''POINT (1 1)'', '''', ''POINT (2 2)''] None epoch 2 None = Inr bs \<and>
    map fr_geometry (concat bs) = [Some ''POINT (1 1)'', Some ''POINT (2 2)'']"
proof -
  have "filter live_wkt [''POINT (1 1)'', '''', ''POINT (2 2)''] = [''POINT (1 1)'', ''POINT (2 2)'']" by code_simp
  then show ?thesis
    using batched_parts_distinct [of 2 "''f1''" "''roads''" "[''POINT (1 1)'', '''', ''POINT (2 2)'']" None epoch None] by auto
qed

text \<open>What the size limit refuses is what it reports as too large.\<close>

lemma check_geometry_size_limit_iff:
  "isl (check_geometry_size_limit wkb_len cfg m g) \<longleftrightarrow> geometry_exceeds_limit wkb_len cfg m g"
  by (auto simp: check_geometry_size_limit_def geometry_exceeds_limit_def Let_def split: option.split)

end
