(* ===== verification/Feature_Store.thy ===== *)
theory Feature_Store
  imports Feature_Parts Tile_Cache Bulk_Activity
begin

text \<open>
  Writing and reading single features: \<^verbatim>\<open>get_feature\<close>, \<^verbatim>\<open>create_feature\<close>, \<^verbatim>\<open>create_feature_with_id\<close>,
  \<^verbatim>\<open>replace_feature\<close>, \<^verbatim>\<open>update_feature\<close> and \<^verbatim>\<open>delete_feature\<close> of \<^verbatim>\<open>app/crud/features.py\<close>, with \<^verbatim>\<open>app/services/shadow_import.py\<close>
  and the path check of \<^verbatim>\<open>app/services/coverages.py\<close>. The rows are the parts of
  \<^verbatim>\<open>Feature_Parts\<close>, the cached counts are those of the table \<^verbatim>\<open>collections\<close>. A request has a session: \<open>live\<close> is what its
  transaction sees, \<open>saved\<close> what is committed; every statement and the commit may be refused by the server (\<open>db_faults\<close>), and
  what is not committed when the request ends is lost. \<open>geo_lib\<close> bundles what Shapely and PostGIS do.
  Paths have no symbolic links and \<^verbatim>\<open>expanduser\<close> leaves them alone.

  Shown: each operation keeps the store well formed (distinct keys, a first part for every feature, the
  count of each collection equal to its number of features) whether it succeeds or fails at any statement; a failed
  replacement or deletion changes nothing; no operation touches another feature; after a write no cached tile of the collection is served.
\<close>

section \<open>What is outside the program\<close>

record geo_lib =
  gl_shape :: "(string \<times> json) list \<Rightarrow> exn + geom"
  gl_is_valid :: "geom \<Rightarrow> bool"
  gl_make_valid :: "geom \<Rightarrow> geom"
  gl_isect :: "geom \<Rightarrow> bbox \<Rightarrow> exn + geom"
  gl_wkb_len :: "geom \<Rightarrow> int"
  gl_wkt :: "geom \<Rightarrow> string"
  gl_st_subdivide :: "string \<Rightarrow> int \<Rightarrow> exn + string list"
  gl_st_union :: "string list \<Rightarrow> string option"
  gl_geojson :: "string \<Rightarrow> (string \<times> json) list"
  gl_depth :: nat

record fdb =
  fd_rows :: "feature_row list"
  fd_counts :: "string \<rightharpoonup> int"

record 's wenv = "'s jenv" +
  live :: fdb
  saved :: fdb
  db_faults :: "exn option list"

section \<open>Statements\<close>

definition sql :: "(fdb \<Rightarrow> (exn + 'a) \<times> fdb) \<Rightarrow> (('s, 'z) wenv_scheme, 'a) prog" where
  "sql f = (\<lambda>w. case db_faults w of
       Some e # fs \<Rightarrow> (Inl e, w\<lparr>db_faults := fs\<rparr>)
     | None # fs \<Rightarrow> (fst (f (live w)), w\<lparr>db_faults := fs, live := snd (f (live w))\<rparr>)
     | [] \<Rightarrow> (fst (f (live w)), w\<lparr>live := snd (f (live w))\<rparr>))"

definition commit :: "(('s, 'z) wenv_scheme, unit) prog" where
  "commit = bnd (sql (\<lambda>db. (Inr (), db))) (\<lambda>_. modify (\<lambda>w. w\<lparr>saved := live w\<rparr>))"

definition row_key :: "feature_row \<Rightarrow> string \<times> string \<times> int" where
  "row_key r = (fr_id r, fr_collection_id r, fr_part_index r)"

definition is_feature :: "string \<Rightarrow> string \<Rightarrow> feature_row \<Rightarrow> bool" where
  "is_feature cid fid r \<longleftrightarrow> fr_collection_id r = cid \<and> fr_id r = fid"

definition exec_insert :: "feature_row list \<Rightarrow> (('s, 'z) wenv_scheme, unit) prog" where
  "exec_insert rows = sql (\<lambda>db.
     if \<exists>r\<in>set rows. fd_counts db (fr_collection_id r) = None then (Inl (IntegrityError ''features_collection_id_fkey''), db)
     else if \<not> distinct (map row_key (fd_rows db @ rows)) then (Inl (IntegrityError ''features_pkey''), db)
     else (Inr (), db\<lparr>fd_rows := fd_rows db @ rows\<rparr>))"

definition exec_delete :: "string \<Rightarrow> string \<Rightarrow> (('s, 'z) wenv_scheme, nat) prog" where
  "exec_delete cid fid = sql (\<lambda>db.
     (Inr (length (filter (is_feature cid fid) (fd_rows db))),
      db\<lparr>fd_rows := filter (\<lambda>r. \<not> is_feature cid fid r) (fd_rows db)\<rparr>))"

definition exec_count :: "string \<Rightarrow> (int \<Rightarrow> int) \<Rightarrow> (('s, 'z) wenv_scheme, unit) prog" where
  "exec_count cid f = sql (\<lambda>db.
     (Inr (), case fd_counts db cid of None \<Rightarrow> db | Some n \<Rightarrow> db\<lparr>fd_counts := (fd_counts db)(cid \<mapsto> f n)\<rparr>))"

section \<open>Reading\<close>

definition active_shadow_exclude_job_ids :: "'s redis \<Rightarrow> settings \<Rightarrow> string \<Rightarrow> (('s, 'z) wenv_scheme, string list) prog" where
  "active_shadow_exclude_job_ids srv cfg cid =
     (if \<not> bulk_replace_shadow_import cfg then ret [] else get_active_bulk_job_ids srv cfg cid)"

record logical_feature =
  lf_id :: string
  lf_collection_id :: string
  lf_geometry :: "string option"
  lf_properties :: "(string \<times> json) list option"
  lf_created_at :: datetime
  lf_updated_at :: datetime

definition nonempty_text :: "string option \<Rightarrow> string option" where
  "nonempty_text s = (case s of None \<Rightarrow> None | Some t \<Rightarrow> if t = [] then None else Some t)"

definition row_to_logical_feature :: "geo_lib \<Rightarrow> feature_row list \<Rightarrow> logical_feature" where
  "row_to_logical_feature L rows =
     \<lparr>lf_id = fr_id (hd rows), lf_collection_id = fr_collection_id (hd rows),
      lf_geometry = nonempty_text (gl_st_union L (List.map_filter fr_geometry rows)),
      lf_properties = fr_properties (hd (sort_key fr_part_index rows)),
      lf_created_at = fr_created_at (hd (sort_key (\<lambda>r. dt_micros (fr_created_at r)) rows)),
      lf_updated_at = fr_updated_at (last (sort_key (\<lambda>r. dt_micros (fr_updated_at r)) rows))\<rparr>"

definition shadow_visible :: "string list \<Rightarrow> feature_row \<Rightarrow> bool" where
  "shadow_visible jobs r \<longleftrightarrow> (case fr_bulk_import_job_id r of None \<Rightarrow> True | Some j \<Rightarrow> j \<notin> set jobs)"

definition get_feature :: "geo_lib \<Rightarrow> 's redis \<Rightarrow> settings \<Rightarrow> string \<Rightarrow> string \<Rightarrow> (('s, 'z) wenv_scheme, logical_feature option) prog" where
  "get_feature L srv cfg cid fid =
     bnd (active_shadow_exclude_job_ids srv cfg cid) (\<lambda>shadow_jobs.
     sql (\<lambda>db. let rows = filter (\<lambda>r. is_feature cid fid r \<and> shadow_visible shadow_jobs r) (fd_rows db)
               in (Inr (if rows = [] then None else Some (row_to_logical_feature L rows)), db)))"

section \<open>Preparing what is written\<close>

definition PROPERTIES_READONLY_KEYS :: "string list" where
  "PROPERTIES_READONLY_KEYS = [''id'']"

definition properties_without_readonly :: "(string \<times> json) list option \<Rightarrow> (string \<times> json) list option" where
  "properties_without_readonly props = map_option (filter (\<lambda>p. fst p \<notin> set PROPERTIES_READONLY_KEYS)) props"

text \<open>Absolute, lexically normalised paths as lists of components.\<close>

primrec norm_parts :: "string list \<Rightarrow> string list \<Rightarrow> string list" where
  "norm_parts acc [] = rev acc"
| "norm_parts acc (p # ps) =
     (if p = [] \<or> p = ''.'' then norm_parts acc ps
      else if p = ''..'' then norm_parts (tl acc) ps
      else norm_parts (p # acc) ps)"

definition path_parts :: "string \<Rightarrow> string list" where
  "path_parts s = split_max (length s) CHR ''/'' s"

definition resolve_stored_cog_path :: "string \<Rightarrow> string \<Rightarrow> exn + string list" where
  "resolve_stored_cog_path cog_path storage_root =
     (if py_strip cog_path = [] then Inl (CogPathOutsideStorageError ''cog_path is empty'')
      else
        let root = norm_parts [] (path_parts storage_root);
            candidate = (if starts_with ''/'' cog_path then norm_parts [] (path_parts cog_path)
                         else norm_parts (rev root) (path_parts cog_path))
        in if take (length root) candidate = root then Inr candidate
           else Inl (CogPathOutsideStorageError ''cog_path must be under raster storage root''))"

definition validate_raster_cog_path_in_properties :: "(string \<times> json) list option \<Rightarrow> string \<Rightarrow> exn + unit" where
  "validate_raster_cog_path_in_properties props storage_root =
     (case props of
        None \<Rightarrow> Inr ()
      | Some d \<Rightarrow>
          (case map_of d ''raster'' of
             Some (JObj raster) \<Rightarrow>
               (case map_of raster ''cog_path'' of
                  Some (JStr cp) \<Rightarrow>
                    if py_strip cp = [] then Inr () else sbind (resolve_stored_cog_path cp storage_root) (\<lambda>_. Inr ())
                | _ \<Rightarrow> Inr ())
           | _ \<Rightarrow> Inr ()))"

definition load_geometry :: "geo_lib \<Rightarrow> (string \<times> json) list option \<Rightarrow> exn + geom option" where
  "load_geometry L geom_dict =
     (case geom_dict of
        None \<Rightarrow> Inr None
      | Some d \<Rightarrow>
          if d = [] then Inr None
          else sbind (gl_shape L d) (\<lambda>g.
               let g' = (if gl_is_valid L g then g else gl_make_valid L g) in Inr (if is_empty g' then None else Some g')))"

definition checked_geometry :: "geo_lib \<Rightarrow> settings \<Rightarrow> (string \<times> json) list option \<Rightarrow> exn + geom option" where
  "checked_geometry L cfg geom_dict =
     sbind (load_geometry L geom_dict) (\<lambda>g.
     sbind (check_geometry_size_limit (gl_wkb_len L) cfg None g) (\<lambda>_. Inr g))"

definition part_statements ::
    "geo_lib \<Rightarrow> settings \<Rightarrow> string \<Rightarrow> string \<Rightarrow> geom option \<Rightarrow> (string \<times> json) list option \<Rightarrow> datetime \<Rightarrow> exn + feature_row list list" where
  "part_statements L cfg fid cid geom props now =
     (let max_vertices = features_subdivide_max_vertices cfg in
      if (case geom of None \<Rightarrow> False | Some g \<Rightarrow> coord_count g > MAX_COORDS_FOR_DB_SUBDIVIDE)
      then sbind (subdivide_geometry_by_vertices (gl_depth L) (gl_isect L) max_vertices (the geom)) (\<lambda>parts.
           insert_feature_parts_batched fid cid (map (gl_wkt L) (filter (\<lambda>p. \<not> is_empty p) parts)) props now 80 None)
      else sbind (insert_feature_subdivided_sql (gl_st_subdivide L) fid cid (map_option (gl_wkt L) geom) props now max_vertices None) (\<lambda>rows.
           Inr [rows]))"

definition store_parts ::
    "geo_lib \<Rightarrow> settings \<Rightarrow> string \<Rightarrow> string \<Rightarrow> geom option \<Rightarrow> (string \<times> json) list option \<Rightarrow> (('s, 'z) wenv_scheme, unit) prog" where
  "store_parts L cfg fid cid geom props =
     bnd now_utc (\<lambda>now.
     bnd (lift_exn (part_statements L cfg fid cid geom props now)) (\<lambda>stmts.
     for_each stmts (\<lambda>rows _. exec_insert rows) ()))"

section \<open>Writing\<close>

record feature_data =
  d_geometry :: "(string \<times> json) list option"
  d_properties :: "(string \<times> json) list option"

text \<open>The common body of \<^verbatim>\<open>create_feature\<close> and \<^verbatim>\<open>create_feature_with_id\<close>: the second takes the id as given.\<close>

definition create_feature_as ::
    "geo_lib \<Rightarrow> 's redis \<Rightarrow> settings \<Rightarrow> string \<Rightarrow> feature_data \<Rightarrow> (('s, 'z) wenv_scheme, string) prog \<Rightarrow> (('s, 'z) wenv_scheme, logical_feature) prog" where
  "create_feature_as L srv cfg cid data new_id =
     bnd (lift_exn (checked_geometry L cfg (d_geometry data))) (\<lambda>geom.
     let props = properties_without_readonly (d_properties data) in
     bnd (lift_exn (validate_raster_cog_path_in_properties props (raster_storage_path cfg))) (\<lambda>_.
     bnd new_id (\<lambda>fid.
     bnd (store_parts L cfg fid cid geom props) (\<lambda>_.
     bnd (exec_count cid (\<lambda>n. n + 1)) (\<lambda>_.
     bnd commit (\<lambda>_.
     bnd (invalidate_collection_cache srv cid) (\<lambda>_.
     bnd (get_feature L srv cfg cid fid) (\<lambda>feature.
     case feature of None \<Rightarrow> raise AssertionError | Some f \<Rightarrow> ret f))))))))"

definition create_feature :: "geo_lib \<Rightarrow> 's redis \<Rightarrow> settings \<Rightarrow> string \<Rightarrow> feature_data \<Rightarrow> (('s, 'z) wenv_scheme, logical_feature) prog" where
  "create_feature L srv cfg cid data = create_feature_as L srv cfg cid data uuid4"

definition create_feature_with_id ::
    "geo_lib \<Rightarrow> 's redis \<Rightarrow> settings \<Rightarrow> string \<Rightarrow> feature_data \<Rightarrow> string \<Rightarrow> (('s, 'z) wenv_scheme, logical_feature) prog" where
  "create_feature_with_id L srv cfg cid data feature_id = create_feature_as L srv cfg cid data (ret feature_id)"

definition replace_feature ::
    "geo_lib \<Rightarrow> 's redis \<Rightarrow> settings \<Rightarrow> string \<Rightarrow> string \<Rightarrow> feature_data \<Rightarrow> (('s, 'z) wenv_scheme, bool) prog" where
  "replace_feature L srv cfg cid fid data =
     bnd (get_feature L srv cfg cid fid) (\<lambda>feature.
     if feature = None then ret False
     else
       bnd (exec_delete cid fid) (\<lambda>_.
       bnd (lift_exn (checked_geometry L cfg (d_geometry data))) (\<lambda>geom.
       let props = properties_without_readonly (d_properties data) in
       bnd (lift_exn (validate_raster_cog_path_in_properties props (raster_storage_path cfg))) (\<lambda>_.
       bnd (store_parts L cfg fid cid geom props) (\<lambda>_.
       bnd commit (\<lambda>_.
       bnd (invalidate_collection_cache srv cid) (\<lambda>_.
       ret True)))))))"

text \<open>A patch names the members it sets: the outer \<open>None\<close> is a member that was not sent.\<close>

record feature_patch =
  p_geometry :: "(string \<times> json) list option option"
  p_properties :: "(string \<times> json) list option option"

definition merged_properties :: "(string \<times> json) list option \<Rightarrow> (string \<times> json) list option option \<Rightarrow> (string \<times> json) list" where
  "merged_properties existing patch =
     (let incoming = (case patch of None \<Rightarrow> None | Some props \<Rightarrow> properties_without_readonly props)
      in foldl (\<lambda>d (k, v). AList.update k v d) (or_else existing []) (or_else incoming []))"

definition update_feature ::
    "geo_lib \<Rightarrow> 's redis \<Rightarrow> settings \<Rightarrow> string \<Rightarrow> string \<Rightarrow> feature_patch \<Rightarrow> (('s, 'z) wenv_scheme, logical_feature option) prog" where
  "update_feature L srv cfg cid fid patch =
     bnd (get_feature L srv cfg cid fid) (\<lambda>feature.
     case feature of
       None \<Rightarrow> ret None
     | Some old \<Rightarrow>
         let geom_dict = (case p_geometry patch of Some g \<Rightarrow> g | None \<Rightarrow> map_option (gl_geojson L) (lf_geometry old));
             props = merged_properties (lf_properties old) (p_properties patch) in
         bnd (lift_exn (validate_raster_cog_path_in_properties (Some props) (raster_storage_path cfg))) (\<lambda>_.
         bnd (lift_exn (checked_geometry L cfg geom_dict)) (\<lambda>geom.
         bnd (exec_delete cid fid) (\<lambda>_.
         bnd (store_parts L cfg fid cid geom (Some props)) (\<lambda>_.
         bnd commit (\<lambda>_.
         bnd (invalidate_collection_cache srv cid) (\<lambda>_.
         get_feature L srv cfg cid fid)))))))"

definition delete_feature :: "'s redis \<Rightarrow> string \<Rightarrow> string \<Rightarrow> (('s, 'z) wenv_scheme, bool) prog" where
  "delete_feature srv cid fid =
     bnd (exec_delete cid fid) (\<lambda>rowcount.
     if rowcount = 0 then ret False
     else
       bnd (exec_count cid (\<lambda>n. max 0 (n - 1))) (\<lambda>_.
       bnd commit (\<lambda>_.
       bnd (invalidate_collection_cache srv cid) (\<lambda>_.
       ret True))))"

section \<open>Reasoning about sessions\<close>

text \<open>Triples whose assertions speak of the live and of the saved database only.\<close>

abbreviation dtriple ::
  "(fdb \<Rightarrow> fdb \<Rightarrow> bool) \<Rightarrow> (('s, 'z) wenv_scheme, 'a) prog \<Rightarrow> ('a \<Rightarrow> fdb \<Rightarrow> fdb \<Rightarrow> bool) \<Rightarrow> (fdb \<Rightarrow> fdb \<Rightarrow> bool) \<Rightarrow> bool" where
  "dtriple A m Q E \<equiv> triple (\<lambda>w. A (live w) (saved w)) m (\<lambda>a w. Q a (live w) (saved w)) (\<lambda>_ w. E (live w) (saved w))"

definition dbs :: "('s, 'z) wenv_scheme \<Rightarrow> fdb \<times> fdb" where
  "dbs w = (live w, saved w)"

lemma dtriple_keeps: "keeps dbs m \<Longrightarrow> dtriple A m (\<lambda>_. A) A"
  by (auto simp: triple_def keeps_def dbs_def split: sum.split)

lemma dtriple_sql:
  assumes "\<And>d s. A d s \<Longrightarrow> E d s"
    and "\<And>d s e. A d s \<Longrightarrow> fst (f d) = Inl e \<Longrightarrow> E (snd (f d)) s"
    and "\<And>d s a. A d s \<Longrightarrow> fst (f d) = Inr a \<Longrightarrow> Q a (snd (f d)) s"
  shows "dtriple A (sql f) Q E"
  unfolding triple_def
proof (intro allI impI)
  fix w assume w: "A (live w) (saved w)"
  show "case fst (sql f w) of Inl e \<Rightarrow> E (live (snd (sql f w))) (saved (snd (sql f w)))
      | Inr a \<Rightarrow> Q a (live (snd (sql f w))) (saved (snd (sql f w)))"
    using assms w by (cases "fst (f (live w))") (auto simp: sql_def split: list.split option.split)
qed

lemma dtriple_lift:
  "(\<And>e d s. A d s \<Longrightarrow> r = Inl e \<Longrightarrow> E d s) \<Longrightarrow> (\<And>a d s. A d s \<Longrightarrow> r = Inr a \<Longrightarrow> Q a d s) \<Longrightarrow> dtriple A (lift_exn r) Q E"
  by (rule triple_lift_exn) auto

lemma keeps_wenv [keeps_intros]:
  "keeps dbs (rcall srv q)" "keeps dbs utcnow" "keeps dbs uuid4"
  "keeps dbs (r_get srv k)" "keeps dbs (r_set srv k v ex nx)" "keeps dbs (r_int srv q)" "keeps dbs (r_unit srv q)"
  "keeps dbs (r_hget srv k f)" "keeps dbs (r_hgetall srv k)" "keeps dbs (r_lrange srv k a b)" "keeps dbs (r_scan srv k)"
  "keeps dbs (modify (\<lambda>w. w\<lparr>mem_jobs := g w\<rparr>))"
  by (simp_all add: keeps_def dbs_def prog_simps)

lemma keeps_shadow [keeps_intros]:
  "keeps dbs (active_shadow_exclude_job_ids srv cfg cid)" "keeps dbs (invalidate_collection_cache srv cid)" "keeps dbs now_utc"
  unfolding active_shadow_exclude_job_ids_def get_active_bulk_job_ids_def get_collection_bulk_mutex_holder_def list_jobs_for_collection_def
    list_jobs_for_collection_redis_def list_jobs_for_collection_memory_def get_jobs_redis_def
    get_job_redis_def invalidate_collection_cache_def drop_matching_def now_utc_def
  by (intro keeps_intros; simp)+

section \<open>Well-formed stores\<close>

definition ids_of :: "feature_row list \<Rightarrow> string \<Rightarrow> string set" where
  "ids_of rows cid = {fr_id r | r. r \<in> set rows \<and> fr_collection_id r = cid}"

definition store_ok :: "fdb \<Rightarrow> bool" where
  "store_ok db \<longleftrightarrow> distinct (map row_key (fd_rows db)) \<and>
     (\<forall>r\<in>set (fd_rows db). \<exists>r0\<in>set (fd_rows db). is_feature (fr_collection_id r) (fr_id r) r0 \<and> fr_part_index r0 = 0) \<and>
     (\<forall>r\<in>set (fd_rows db). fd_counts db (fr_collection_id r) \<noteq> None) \<and>
     (\<forall>cid n. fd_counts db cid = Some n \<longrightarrow> n = int (card (ids_of (fd_rows db) cid)))"

text \<open>The rows of one stored feature: its parts, a first one among them.\<close>

definition own_row :: "string \<Rightarrow> string \<Rightarrow> (string \<times> json) list option \<Rightarrow> feature_row \<Rightarrow> bool" where
  "own_row cid fid ps r \<longleftrightarrow> is_feature cid fid r \<and> fr_properties r = ps \<and> fr_bulk_import_job_id r = None"

definition rows_of_feature :: "string \<Rightarrow> string \<Rightarrow> (string \<times> json) list option \<Rightarrow> feature_row list \<Rightarrow> bool" where
  "rows_of_feature cid fid ps rows \<longleftrightarrow> list_all (own_row cid fid ps) rows \<and> (\<exists>r\<in>set rows. fr_part_index r = 0)"

definition added :: "string \<Rightarrow> string \<Rightarrow> (string \<times> json) list option \<Rightarrow> fdb \<Rightarrow> fdb \<Rightarrow> bool" where
  "added cid fid ps D d \<longleftrightarrow> (\<exists>new. d = D\<lparr>fd_rows := fd_rows D @ new\<rparr> \<and> rows_of_feature cid fid ps new \<and>
     distinct (map row_key (fd_rows D @ new)) \<and> fd_counts D cid \<noteq> None)"

definition removed :: "string \<Rightarrow> string \<Rightarrow> fdb \<Rightarrow> fdb" where
  "removed cid fid D = D\<lparr>fd_rows := filter (\<lambda>r. \<not> is_feature cid fid r) (fd_rows D)\<rparr>"

definition counted :: "string \<Rightarrow> (int \<Rightarrow> int) \<Rightarrow> fdb \<Rightarrow> fdb" where
  "counted cid f D = (case fd_counts D cid of None \<Rightarrow> D | Some n \<Rightarrow> D\<lparr>fd_counts := (fd_counts D)(cid \<mapsto> f n)\<rparr>)"

lemma ids_of_append: "ids_of (a @ b) cid = ids_of a cid \<union> ids_of b cid"
  by (auto simp: ids_of_def)

lemma finite_ids_of [simp]: "finite (ids_of rows cid)"
  by (auto simp: ids_of_def)

lemma ids_of_new: "rows_of_feature cid fid ps new \<Longrightarrow> ids_of new c = (if c = cid then {fid} else {})"
  by (auto simp: rows_of_feature_def own_row_def ids_of_def is_feature_def list_all_iff)

lemma ids_of_removed: "ids_of (fd_rows (removed cid fid D)) c = (if c = cid then ids_of (fd_rows D) c - {fid} else ids_of (fd_rows D) c)"
  by (auto simp: removed_def ids_of_def is_feature_def)

text \<open>The keys of a stored feature leave no room for another one of the same name.\<close>

lemma added_fresh:
  assumes "store_ok D" and "added cid fid ps D d"
  shows "fid \<notin> ids_of (fd_rows D) cid"
proof
  assume "fid \<in> ids_of (fd_rows D) cid"
  then obtain r0 where r0: "r0 \<in> set (fd_rows D)" "is_feature cid fid r0" "fr_part_index r0 = 0"
    using assms(1) by (auto simp: ids_of_def store_ok_def)
  obtain new r1 where "r1 \<in> set new" "is_feature cid fid r1" "fr_part_index r1 = 0" "distinct (map row_key (fd_rows D @ new))"
    using assms(2) by (auto simp: added_def rows_of_feature_def own_row_def list_all_iff)
  moreover from this(2, 3) r0 have "row_key r1 = row_key r0" by (simp add: row_key_def is_feature_def)
  ultimately show False using r0(1) by auto
qed

lemma store_ok_removed_rows:
  assumes "store_ok D"
  shows "distinct (map row_key (fd_rows (removed cid fid D)))"
    and "r \<in> set (fd_rows (removed cid fid D)) \<Longrightarrow>
      \<exists>r0\<in>set (fd_rows (removed cid fid D)). is_feature (fr_collection_id r) (fr_id r) r0 \<and> fr_part_index r0 = 0"
    and "r \<in> set (fd_rows (removed cid fid D)) \<Longrightarrow> fd_counts D (fr_collection_id r) \<noteq> None"
proof -
  show "distinct (map row_key (fd_rows (removed cid fid D)))"
    using assms by (simp add: removed_def store_ok_def distinct_map_filter)
  show "\<exists>r0\<in>set (fd_rows (removed cid fid D)). is_feature (fr_collection_id r) (fr_id r) r0 \<and> fr_part_index r0 = 0"
    if r: "r \<in> set (fd_rows (removed cid fid D))"
  proof -
    obtain r0 where "r0 \<in> set (fd_rows D)" "is_feature (fr_collection_id r) (fr_id r) r0" "fr_part_index r0 = 0"
      using r assms by (auto simp: removed_def store_ok_def)
    then show ?thesis using r by (auto simp: removed_def is_feature_def)
  qed
  show "fd_counts D (fr_collection_id r) \<noteq> None" if "r \<in> set (fd_rows (removed cid fid D))"
    using that assms unfolding store_ok_def removed_def by auto
qed

lemma store_ok_created:
  assumes "store_ok D" and "added cid fid ps D d"
  shows "store_ok (counted cid (\<lambda>n. n + 1) d)"
proof -
  obtain new where d: "d = D\<lparr>fd_rows := fd_rows D @ new\<rparr>" and new: "rows_of_feature cid fid ps new"
    and dist: "distinct (map row_key (fd_rows D @ new))" and c: "fd_counts D cid \<noteq> None"
    using assms(2) by (auto simp: added_def)
  obtain r1 where r1: "r1 \<in> set new" "is_feature cid fid r1" "fr_part_index r1 = 0"
    using new by (auto simp: rows_of_feature_def own_row_def list_all_iff)
  have parts: "\<exists>r0\<in>set (fd_rows D @ new). is_feature (fr_collection_id r) (fr_id r) r0 \<and> fr_part_index r0 = 0"
      and cnt: "fd_counts D (fr_collection_id r) \<noteq> None" if "r \<in> set (fd_rows D @ new)" for r
    using that assms(1) new r1 c unfolding store_ok_def rows_of_feature_def own_row_def list_all_iff
    by (auto simp: is_feature_def) blast+
  have card: "card (ids_of (fd_rows D @ new) c') = card (ids_of (fd_rows D) c') + (if c' = cid then 1 else 0)" for c'
    using added_fresh [OF assms] by (auto simp: ids_of_append ids_of_new [OF new])
  obtain n where n: "fd_counts D cid = Some n" using c by auto
  show ?thesis
    unfolding store_ok_def
  proof (intro conjI allI impI ballI)
    fix c' m assume "fd_counts (counted cid (\<lambda>n. n + 1) d) c' = Some m"
    then show "m = int (card (ids_of (fd_rows (counted cid (\<lambda>n. n + 1) d)) c'))"
      using assms(1) n by (auto simp: counted_def d card store_ok_def split: if_splits)
  qed (use dist parts cnt n in \<open>auto simp: counted_def d\<close>)
qed

lemma store_ok_replaced:
  assumes "store_ok D" and "fid \<in> ids_of (fd_rows D) cid" and "added cid fid ps (removed cid fid D) d"
  shows "store_ok d"
proof -
  obtain new where d: "d = (removed cid fid D)\<lparr>fd_rows := fd_rows (removed cid fid D) @ new\<rparr>" and new: "rows_of_feature cid fid ps new"
    and dist: "distinct (map row_key (fd_rows (removed cid fid D) @ new))" and c: "fd_counts D cid \<noteq> None"
    using assms(3) by (auto simp: added_def removed_def)
  obtain r1 where r1: "r1 \<in> set new" "is_feature cid fid r1" "fr_part_index r1 = 0"
    using new by (auto simp: rows_of_feature_def own_row_def list_all_iff)
  have counts: "fd_counts d = fd_counts D" by (simp add: d removed_def)
  have rows: "fd_rows d = fd_rows (removed cid fid D) @ new" by (simp add: d)
  have ids: "ids_of (fd_rows d) c' = ids_of (fd_rows D) c'" for c'
    using assms(2) unfolding rows ids_of_append ids_of_removed ids_of_new [OF new] by auto
  have "\<exists>r0\<in>set (fd_rows d). is_feature (fr_collection_id r) (fr_id r) r0 \<and> fr_part_index r0 = 0"
      and "fd_counts D (fr_collection_id r) \<noteq> None" if r: "r \<in> set (fd_rows d)" for r
  proof -
    consider "r \<in> set (fd_rows (removed cid fid D))" | "r \<in> set new" using r rows by auto
    then show "\<exists>r0\<in>set (fd_rows d). is_feature (fr_collection_id r) (fr_id r) r0 \<and> fr_part_index r0 = 0"
    proof cases
      case 1
      from store_ok_removed_rows(2) [OF assms(1) this] show ?thesis using rows by auto
    next
      case 2
      then have "fr_collection_id r = cid" "fr_id r = fid"
        using new by (auto simp: rows_of_feature_def own_row_def list_all_iff is_feature_def)
      then show ?thesis using r1 rows by auto
    qed
    show "fd_counts D (fr_collection_id r) \<noteq> None"
      using r rows new c store_ok_removed_rows(3) [OF assms(1)]
      by (auto simp: rows_of_feature_def own_row_def list_all_iff is_feature_def)
  qed
  then show ?thesis
    using assms(1) dist by (simp add: store_ok_def counts ids) (simp add: rows)
qed

lemma store_ok_deleted:
  assumes "store_ok D" and "fid \<in> ids_of (fd_rows D) cid"
  shows "store_ok (counted cid (\<lambda>n. max 0 (n - 1)) (removed cid fid D))"
proof -
  obtain r where "r \<in> set (fd_rows D)" "fr_collection_id r = cid" using assms(2) by (auto simp: ids_of_def)
  then obtain n where n: "fd_counts D cid = Some n" using assms(1) unfolding store_ok_def by fastforce
  then have card: "n = int (card (ids_of (fd_rows D) cid))" using assms(1) by (auto simp: store_ok_def)
  have pos: "0 < card (ids_of (fd_rows D) cid)" using assms(2) by (auto simp: card_gt_0_iff)
  let ?d = "counted cid (\<lambda>n. max 0 (n - 1)) (removed cid fid D)"
  have rows: "fd_rows ?d = fd_rows (removed cid fid D)" and counts: "fd_counts ?d = (fd_counts D)(cid \<mapsto> max 0 (n - 1))"
    using n by (simp_all add: counted_def removed_def)
  show ?thesis
    unfolding store_ok_def rows counts
  proof (intro conjI allI impI ballI)
    fix c m assume "((fd_counts D)(cid \<mapsto> max 0 (n - 1))) c = Some m"
    then show "m = int (card (ids_of (fd_rows (removed cid fid D)) c))"
      using assms card pos by (auto simp: ids_of_removed store_ok_def split: if_splits)
  qed (use store_ok_removed_rows [OF assms(1)] in auto)
qed

section \<open>The statements that store a feature\<close>

text \<open>What the code relies on: a geometry has at least one part after \<^verbatim>\<open>ST_Subdivide\<close>, and the text of a geometry that is
  not empty does not read as an empty one.\<close>

definition geo_ok :: "geo_lib \<Rightarrow> bool" where
  "geo_ok L \<longleftrightarrow> (\<forall>wkt mv gs. gl_st_subdivide L wkt mv = Inr gs \<longrightarrow> gs \<noteq> []) \<and>
     (\<forall>g. \<not> is_empty g \<longrightarrow> live_wkt (gl_wkt L g))"

lemma sum_list_all_zero: "(\<And>x. x \<in> set xs \<Longrightarrow> f x = 0) \<Longrightarrow> sum_list (map f xs) = 0" for f :: "'a \<Rightarrow> int"
  by (induction xs) simp_all

definition stored_props :: "(string \<times> json) list option \<Rightarrow> (string \<times> json) list option" where
  "stored_props props = (case props of None \<Rightarrow> None | Some d \<Rightarrow> if d = [] then None else Some d)"

abbreviation written_props :: "feature_data \<Rightarrow> (string \<times> json) list option" where
  "written_props data \<equiv> stored_props (properties_without_readonly (d_properties data))"

lemma mk_row_properties [simp]: "fr_properties (mk_row fid cid props now job i g) = stored_props props"
  by (simp add: mk_row_def stored_props_def)

lemma is_empty_count: "is_empty g \<Longrightarrow> coord_count g = 0"
  unfolding is_empty_def
proof (induction g)
  case (MultiPolygon ps)
  then have "a = [] \<and> concat b = []" if "(a, b) \<in> set ps" for a b using that by (fastforce simp: concat_eq_Nil_conv)
  then show ?case by (fastforce intro!: sum_list_all_zero split: prod.split)
qed (auto intro!: sum_list_all_zero)

lemma insert_subdivided_rows:
  assumes "geo_ok L" and "insert_feature_subdivided_sql (gl_st_subdivide L) fid cid wkt props now mv None = Inr rows"
  shows "rows_of_feature cid fid (stored_props props) rows"
proof (cases "is_empty_or_null_wkt wkt")
  case True
  then show ?thesis using assms(2) by (auto simp: insert_feature_subdivided_sql_def rows_of_feature_def own_row_def is_feature_def)
next
  case False
  then obtain gs where gs: "gl_st_subdivide L (the wkt) mv = Inr gs"
      "rows = map (\<lambda>(i, g). mk_row fid cid props now None (int i) (Some g)) (enumerate 0 gs)"
    using assms(2) by (auto simp: insert_feature_subdivided_sql_def sbind_def split: sum.splits)
  then have "gs \<noteq> []" using assms(1) by (auto simp: geo_ok_def)
  then show ?thesis using gs(2) by (cases gs) (auto simp: rows_of_feature_def own_row_def is_feature_def list_all_iff)
qed

lemma values_parts_first:
  assumes "\<And>i w. fr_part_index (row i w) = i" and "wkts \<noteq> []" and "list_all live_wkt wkts" and "0 < step"
  shows "\<exists>r\<in>set (concat (batches_from row step start wkts)). fr_part_index r = start"
proof -
  have "filter live_wkt (take step wkts) \<noteq> []"
    using assms(2-4) by (cases wkts; cases step) (auto simp: list_all_iff)
  then have "start \<in> set (map fr_part_index (values_parts row start [] (take step wkts)))"
    using values_parts_index [of row start "take step wkts", OF assms(1)]
    by (auto simp: image_iff intro!: bexI [of _ 0])
  then show ?thesis
    using assms(2, 4) by (subst batches_from.simps) (auto simp: Let_def)
qed

lemma batches_is_feature:
  assumes "\<And>i w. own_row cid fid ps (row i w)"
  shows "b \<in> set (batches_from row step start wkts) \<Longrightarrow> list_all (own_row cid fid ps) b"
proof (induction "length wkts" arbitrary: start wkts rule: less_induct)
  case less
  have v: "list_all (own_row cid fid ps) (values_parts row start [] ws)" for ws
    by (auto simp: values_parts_eq list_all_iff assms)
  show ?case
    using less.prems less.hyps [of "drop step wkts" "start + int step"] v
    by (subst (asm) batches_from.simps) (auto simp: Let_def split: if_splits)
qed

lemma part_statements_rows:
  assumes "geo_ok L" and "\<forall>g. geom = Some g \<longrightarrow> \<not> is_empty g" and "part_statements L cfg fid cid geom props now = Inr stmts"
  shows "rows_of_feature cid fid (stored_props props) (concat stmts)"
proof (cases "case geom of None \<Rightarrow> False | Some g \<Rightarrow> coord_count g > MAX_COORDS_FOR_DB_SUBDIVIDE")
  case True
  then obtain g where g: "geom = Some g" "\<not> is_empty g" using assms(2) by (auto split: option.splits)
  obtain parts where parts: "subdivide_geometry_by_vertices (gl_depth L) (gl_isect L) (features_subdivide_max_vertices cfg) g = Inr parts"
    using assms(3) True g by (auto simp: part_statements_def Let_def sbind_def split: sum.splits)
  let ?wkts = "map (gl_wkt L) (filter (\<lambda>p. \<not> is_empty p) parts)"
  let ?row = "\<lambda>i wkt. mk_row fid cid props now None i (Some wkt)"
  have st: "stmts = batches_from ?row 80 0 ?wkts"
    using assms(3) True g parts by (auto simp: part_statements_def Let_def insert_feature_parts_batched_def)
  have "parts \<noteq> []"
    using parts g(2) subdivide_cases [of "gl_depth L - 1" "gl_isect L" "features_subdivide_max_vertices cfg" g parts]
    by (cases "gl_depth L") (simp_all del: subdivide_geometry_by_vertices.simps(2), blast)
  then have "?wkts \<noteq> []" using subdivide_nonempty [OF parts] by (auto simp: filter_empty_conv list_all_iff neq_Nil_conv)
  moreover have "list_all live_wkt ?wkts" using assms(1) by (auto simp: geo_ok_def list_all_iff)
  ultimately have "\<exists>r\<in>set (concat stmts). fr_part_index r = 0"
    unfolding st by (intro values_parts_first) auto
  moreover have "list_all (own_row cid fid (stored_props props)) (concat stmts)"
    using batches_is_feature [of cid fid "stored_props props" ?row] unfolding st by (fastforce simp: list_all_iff is_feature_def own_row_def)
  ultimately show ?thesis by (simp add: rows_of_feature_def own_row_def)
next
  case False
  then show ?thesis
    using assms(3) insert_subdivided_rows [OF assms(1)]
    by (auto simp: part_statements_def Let_def sbind_def split: sum.splits)
qed

section \<open>What each operation commits\<close>

lemma addedI:
  "rows_of_feature cid fid ps new \<Longrightarrow> distinct (map row_key (fd_rows D @ new)) \<Longrightarrow> fd_counts D cid \<noteq> None \<Longrightarrow>
    added cid fid ps D (D\<lparr>fd_rows := fd_rows D @ new\<rparr>)"
  unfolding added_def by blast

lemma dt_inserts:
  assumes "distinct (map row_key (fd_rows D))"
  shows "dtriple (\<lambda>d s. d = D \<and> s = S) (for_each stmts (\<lambda>rows _. exec_insert rows) () :: (('s, 'z) wenv_scheme, unit) prog)
    (\<lambda>_ d s. s = S \<and> d = D\<lparr>fd_rows := fd_rows D @ concat stmts\<rparr> \<and> distinct (map row_key (fd_rows D @ concat stmts)) \<and>
       (\<forall>r\<in>set (concat stmts). fd_counts D (fr_collection_id r) \<noteq> None))
    (\<lambda>d s. s = S)"
  using assms
proof (induction stmts arbitrary: D)
  case Nil
  then show ?case by (auto intro: triple_ret)
next
  case (Cons rows stmts)
  let ?D = "D\<lparr>fd_rows := fd_rows D @ rows\<rparr>"
  have "dtriple (\<lambda>d s. d = D \<and> s = S) (exec_insert rows :: (('s, 'z) wenv_scheme, unit) prog)
      (\<lambda>_ d s. d = ?D \<and> s = S \<and> distinct (map row_key (fd_rows ?D)) \<and> (\<forall>r\<in>set rows. fd_counts D (fr_collection_id r) \<noteq> None))
      (\<lambda>d s. s = S)"
    unfolding exec_insert_def by (rule dtriple_sql) (auto split: if_splits)
  moreover have "dtriple (\<lambda>d s. d = ?D \<and> s = S \<and> distinct (map row_key (fd_rows ?D)) \<and> (\<forall>r\<in>set rows. fd_counts D (fr_collection_id r) \<noteq> None))
      (for_each stmts (\<lambda>rows _. exec_insert rows) () :: (('s, 'z) wenv_scheme, unit) prog)
      (\<lambda>_ d s. s = S \<and> d = D\<lparr>fd_rows := fd_rows D @ concat (rows # stmts)\<rparr> \<and> distinct (map row_key (fd_rows D @ concat (rows # stmts))) \<and>
         (\<forall>r\<in>set (concat (rows # stmts)). fd_counts D (fr_collection_id r) \<noteq> None))
      (\<lambda>d s. s = S)"
  proof (cases "distinct (map row_key (fd_rows ?D)) \<and> (\<forall>r\<in>set rows. fd_counts D (fr_collection_id r) \<noteq> None)")
    case True
    then have "distinct (map row_key (fd_rows ?D))" by blast
    from Cons.IH [OF this] show ?thesis by (rule triple_weaken) (use True in auto)
  next
    case False
    then show ?thesis unfolding triple_def by blast
  qed
  ultimately show ?case unfolding for_each.simps by (intro triple_bnd) simp_all
qed

lemma dt_store_parts:
  assumes "geo_ok L" and "\<forall>g. geom = Some g \<longrightarrow> \<not> is_empty g" and "distinct (map row_key (fd_rows D))"
  shows "dtriple (\<lambda>d s. d = D \<and> s = S) (store_parts L cfg fid cid geom props) (\<lambda>_ d s. s = S \<and> added cid fid (stored_props props) D d) (\<lambda>d s. s = S)"
  unfolding store_parts_def
proof (intro triple_bnd)
  show "dtriple (\<lambda>d s. d = D \<and> s = S) now_utc (\<lambda>_ d s. d = D \<and> s = S) (\<lambda>d s. s = S)"
    by (rule triple_weaken [OF dtriple_keeps [OF keeps_shadow(3), of "\<lambda>d s. d = D \<and> s = S"]]) auto
next
  fix now
  show "dtriple (\<lambda>d s. d = D \<and> s = S) (lift_exn (part_statements L cfg fid cid geom props now))
      (\<lambda>stmts d s. d = D \<and> s = S \<and> part_statements L cfg fid cid geom props now = Inr stmts) (\<lambda>d s. s = S)"
    by (rule dtriple_lift) auto
next
  fix now stmts
  show "dtriple (\<lambda>d s. d = D \<and> s = S \<and> part_statements L cfg fid cid geom props now = Inr stmts)
      (for_each stmts (\<lambda>rows _. exec_insert rows) ()) (\<lambda>_ d s. s = S \<and> added cid fid (stored_props props) D d) (\<lambda>d s. s = S)"
  proof (cases "part_statements L cfg fid cid geom props now = Inr stmts")
    case True
    have rows: "rows_of_feature cid fid (stored_props props) (concat stmts)" by (rule part_statements_rows [OF assms(1, 2) True])
    then obtain r where "r \<in> set (concat stmts)" "fr_collection_id r = cid"
      by (auto simp: rows_of_feature_def own_row_def list_all_iff is_feature_def)
    then show ?thesis
      by (intro triple_weaken [OF dt_inserts [OF assms(3), of S stmts]]) (use addedI [OF rows] in auto)
  next
    case False
    then show ?thesis unfolding triple_def by blast
  qed
qed

lemma dt_commit: "dtriple (\<lambda>d s. P d \<and> s = S) commit (\<lambda>_ d s. P d \<and> s = d) (\<lambda>d s. s = S)"
  unfolding commit_def
proof (rule triple_bnd)
  show "dtriple (\<lambda>d s. P d \<and> s = S) (sql (\<lambda>db. (Inr (), db))) (\<lambda>_ d s. P d \<and> s = S) (\<lambda>d s. s = S)"
    by (rule dtriple_sql) auto
qed (auto simp: triple_def prog_simps)

lemma dt_count: "dtriple (\<lambda>d s. P d \<and> s = S) (exec_count cid f) (\<lambda>_ d s. (\<exists>e. P e \<and> d = counted cid f e) \<and> s = S) (\<lambda>d s. s = S)"
  unfolding exec_count_def by (rule dtriple_sql) (auto simp: counted_def)

lemma dt_delete:
  "dtriple (\<lambda>d s. d = D \<and> s = S) (exec_delete cid fid)
     (\<lambda>n d s. d = removed cid fid D \<and> s = S \<and> (0 < n \<longleftrightarrow> fid \<in> ids_of (fd_rows D) cid)) (\<lambda>d s. s = S)"
  unfolding exec_delete_def
  by (rule dtriple_sql) (auto simp: removed_def ids_of_def is_feature_def filter_empty_conv)

definition read_feature :: "geo_lib \<Rightarrow> string \<Rightarrow> string \<Rightarrow> fdb \<Rightarrow> logical_feature \<Rightarrow> bool" where
  "read_feature L cid fid d f \<longleftrightarrow> (\<exists>jobs rows. rows = filter (\<lambda>r. is_feature cid fid r \<and> shadow_visible jobs r) (fd_rows d) \<and>
     rows \<noteq> [] \<and> f = row_to_logical_feature L rows)"

lemma read_feature_id: "read_feature L cid fid d f \<Longrightarrow> fid \<in> ids_of (fd_rows d) cid"
  by (auto simp: read_feature_def ids_of_def is_feature_def filter_empty_conv)

lemma dt_get_read:
  "dtriple (\<lambda>d s. P d s) (get_feature L srv cfg cid fid)
     (\<lambda>f d s. P d s \<and> (\<forall>x. f = Some x \<longrightarrow> read_feature L cid fid d x)) P"
  unfolding get_feature_def
proof (rule triple_bnd)
  show "dtriple P (active_shadow_exclude_job_ids srv cfg cid) (\<lambda>_. P) P"
    by (rule dtriple_keeps) (rule keeps_shadow)
  show "dtriple P (sql (\<lambda>db. let rows = filter (\<lambda>r. is_feature cid fid r \<and> shadow_visible jobs r) (fd_rows db)
         in (Inr (if rows = [] then None else Some (row_to_logical_feature L rows)), db)))
      (\<lambda>f d s. P d s \<and> (\<forall>x. f = Some x \<longrightarrow> read_feature L cid fid d x)) P" for jobs
    by (rule dtriple_sql) (auto simp: Let_def read_feature_def split: if_splits)
qed

lemma dt_get:
  "dtriple (\<lambda>d s. P d s) (get_feature L srv cfg cid fid)
     (\<lambda>f d s. P d s \<and> (f \<noteq> None \<longrightarrow> fid \<in> ids_of (fd_rows d) cid)) P"
  by (rule triple_weaken [OF dt_get_read [of P L srv cfg cid fid]]) (auto dest: read_feature_id)

lemma checked_geometry_nonempty: "checked_geometry L cfg d = Inr geom \<Longrightarrow> \<forall>g. geom = Some g \<longrightarrow> \<not> is_empty g"
  by (auto simp: checked_geometry_def load_geometry_def sbind_def Let_def split: sum.splits option.splits if_splits)

lemma dt_keep: "keeps dbs m \<Longrightarrow> (\<And>d s. A d s \<Longrightarrow> E d s) \<Longrightarrow> dtriple A m (\<lambda>_. A) E"
  by (rule triple_weaken [OF dtriple_keeps [of m A]]) auto

lemma invalidate_not_raises: "fst (invalidate_collection_cache srv cid w) \<noteq> Inl e"
  by (simp add: invalidate_collection_cache_def)

lemma dt_invalidate: "dtriple A (invalidate_collection_cache srv cid :: (('s, 'z) wenv_scheme, unit) prog) (\<lambda>_. A) E"
  unfolding triple_def
proof (intro allI impI)
  fix w :: "('s, 'z) wenv_scheme" assume A: "A (live w) (saved w)"
  obtain a where "fst (invalidate_collection_cache srv cid w) = Inr a"
    using invalidate_not_raises by (cases "fst (invalidate_collection_cache srv cid w)") auto
  moreover have "dbs (snd (invalidate_collection_cache srv cid w)) = dbs w"
    by (rule keepsD [OF keeps_shadow(2)])
  ultimately show "case fst (invalidate_collection_cache srv cid w) of
      Inl e \<Rightarrow> E (live (snd (invalidate_collection_cache srv cid w))) (saved (snd (invalidate_collection_cache srv cid w)))
    | Inr a \<Rightarrow> A (live (snd (invalidate_collection_cache srv cid w))) (saved (snd (invalidate_collection_cache srv cid w)))"
    using A by (simp add: dbs_def)
qed

text \<open>A condition on no world that the precondition implies may be assumed.\<close>

lemma triple_when: "(\<And>w. P w \<Longrightarrow> c) \<Longrightarrow> (c \<Longrightarrow> triple P m Q E) \<Longrightarrow> triple P m Q E"
  by (cases c) (auto simp: triple_def)

lemma dt_create:
  assumes "geo_ok L" and "distinct (map row_key (fd_rows D))"
    and new_id: "dtriple (\<lambda>d s. d = D \<and> s = D) new_id (\<lambda>fid d s. d = D \<and> s = D \<and> F fid) (\<lambda>d s. s = D)"
  shows "dtriple (\<lambda>d s. d = D \<and> s = D) (create_feature_as L srv cfg cid data new_id)
    (\<lambda>f d s. \<exists>fid e. F fid \<and> added cid fid (written_props data) D e \<and> s = counted cid (\<lambda>n. n + 1) e \<and>
       read_feature L cid fid s f)
    (\<lambda>d s. s = D \<or> (\<exists>fid e. F fid \<and> added cid fid (written_props data) D e \<and> s = counted cid (\<lambda>n. n + 1) e))"
  unfolding create_feature_as_def Let_def
proof (intro triple_bnd)
  let ?E = "\<lambda>d s. s = D \<or> (\<exists>fid e. F fid \<and> added cid fid (written_props data) D e \<and> s = counted cid (\<lambda>n. n + 1) e)"
  show "dtriple (\<lambda>d s. d = D \<and> s = D) (lift_exn (checked_geometry L cfg (d_geometry data)))
      (\<lambda>geom d s. d = D \<and> s = D \<and> checked_geometry L cfg (d_geometry data) = Inr geom) ?E"
    by (rule dtriple_lift) auto
  fix geom
  let ?G = "checked_geometry L cfg (d_geometry data) = Inr geom"
  let ?props = "properties_without_readonly (d_properties data)"
  show "dtriple (\<lambda>d s. d = D \<and> s = D \<and> ?G)
      (lift_exn (validate_raster_cog_path_in_properties ?props (raster_storage_path cfg))) (\<lambda>_ d s. d = D \<and> s = D \<and> ?G) ?E"
    by (rule dtriple_lift) auto
  show "dtriple (\<lambda>d s. d = D \<and> s = D \<and> ?G) new_id (\<lambda>fid d s. d = D \<and> s = D \<and> ?G \<and> F fid) ?E"
    using new_id by (fastforce simp: triple_def split: sum.splits)
  fix fid
  show "dtriple (\<lambda>d s. d = D \<and> s = D \<and> ?G \<and> F fid) (store_parts L cfg fid cid geom ?props)
      (\<lambda>_ d s. (F fid \<and> added cid fid (written_props data) D d) \<and> s = D) ?E"
    by (rule triple_when [of _ "?G \<and> F fid"])
       (auto intro!: triple_weaken [OF dt_store_parts [OF assms(1) checked_geometry_nonempty assms(2), of L cfg]])
  show "dtriple (\<lambda>d s. (F fid \<and> added cid fid (written_props data) D d) \<and> s = D) (exec_count cid (\<lambda>n. n + 1))
      (\<lambda>_ d s. (\<exists>e. (F fid \<and> added cid fid (written_props data) D e) \<and> d = counted cid (\<lambda>n. n + 1) e) \<and> s = D) ?E"
    by (rule triple_weaken [OF dt_count [where P = "\<lambda>d. F fid \<and> added cid fid (written_props data) D d" and S = D]]) auto
  show "dtriple (\<lambda>d s. (\<exists>e. (F fid \<and> added cid fid (written_props data) D e) \<and> d = counted cid (\<lambda>n. n + 1) e) \<and> s = D) commit
      (\<lambda>_ d s. (\<exists>e. (F fid \<and> added cid fid (written_props data) D e) \<and> d = counted cid (\<lambda>n. n + 1) e) \<and> s = d) ?E"
    by (rule triple_weaken [OF dt_commit [where P = "\<lambda>d. \<exists>e. (F fid \<and> added cid fid (written_props data) D e) \<and> d = counted cid (\<lambda>n. n + 1) e" and S = D]]) auto
  show "dtriple (\<lambda>d s. (\<exists>e. (F fid \<and> added cid fid (written_props data) D e) \<and> d = counted cid (\<lambda>n. n + 1) e) \<and> s = d) (invalidate_collection_cache srv cid)
      (\<lambda>_ d s. (\<exists>e. (F fid \<and> added cid fid (written_props data) D e) \<and> d = counted cid (\<lambda>n. n + 1) e) \<and> s = d) ?E"
    by (rule dt_keep [OF keeps_shadow(2)]) auto
  let ?C = "\<lambda>s. \<exists>e. F fid \<and> added cid fid (written_props data) D e \<and> s = counted cid (\<lambda>n. n + 1) e"
  show "dtriple (\<lambda>d s. (\<exists>e. (F fid \<and> added cid fid (written_props data) D e) \<and> d = counted cid (\<lambda>n. n + 1) e) \<and> s = d) (get_feature L srv cfg cid fid)
      (\<lambda>f d s. ?C s \<and> (\<forall>x. f = Some x \<longrightarrow> read_feature L cid fid s x)) ?E"
    by (rule triple_weaken [OF dt_get_read [where P = "\<lambda>d s. ?C d \<and> s = d"]]) auto
  fix f :: "logical_feature option"
  show "dtriple (\<lambda>d s. ?C s \<and> (\<forall>x. f = Some x \<longrightarrow> read_feature L cid fid s x))
      (case f of None \<Rightarrow> raise AssertionError | Some f \<Rightarrow> ret f)
      (\<lambda>f d s. \<exists>fid e. F fid \<and> added cid fid (written_props data) D e \<and> s = counted cid (\<lambda>n. n + 1) e \<and>
         read_feature L cid fid s f) ?E"
    by (cases f) (auto intro!: triple_ret triple_raise)
qed

lemma dt_replace:
  assumes "geo_ok L" and "store_ok D"
  shows "dtriple (\<lambda>d s. d = D \<and> s = D) (replace_feature L srv cfg cid fid data)
    (\<lambda>b d s. if b then fid \<in> ids_of (fd_rows D) cid \<and> added cid fid (written_props data) (removed cid fid D) s else s = D) (\<lambda>d s. s = D)"
  unfolding replace_feature_def Let_def
proof (intro triple_bnd triple_if)
  let ?E = "\<lambda>d s. s = D"
  show "dtriple (\<lambda>d s. d = D \<and> s = D) (get_feature L srv cfg cid fid)
      (\<lambda>f d s. d = D \<and> s = D \<and> (f \<noteq> None \<longrightarrow> fid \<in> ids_of (fd_rows D) cid)) ?E"
    by (rule triple_weaken [OF dt_get [where P = "\<lambda>d s. d = D \<and> s = D"]]) auto
  fix f :: "logical_feature option"
  show "f = None \<Longrightarrow> dtriple (\<lambda>d s. d = D \<and> s = D \<and> (f \<noteq> None \<longrightarrow> fid \<in> ids_of (fd_rows D) cid)) (ret False)
      (\<lambda>b d s. if b then fid \<in> ids_of (fd_rows D) cid \<and> added cid fid (written_props data) (removed cid fid D) s else s = D) ?E"
    by (auto intro: triple_ret)
  assume f: "f \<noteq> None"
  let ?R = "removed cid fid D" and ?I = "fid \<in> ids_of (fd_rows D) cid"
  show "dtriple (\<lambda>d s. d = D \<and> s = D \<and> (f \<noteq> None \<longrightarrow> ?I)) (exec_delete cid fid) (\<lambda>_ d s. d = ?R \<and> s = D \<and> ?I) ?E"
    by (rule triple_when [of _ ?I]) (use f in \<open>auto intro!: triple_weaken [OF dt_delete [of D D cid fid]]\<close>)
  show "dtriple (\<lambda>d s. d = ?R \<and> s = D \<and> ?I) (lift_exn (checked_geometry L cfg (d_geometry data)))
      (\<lambda>geom d s. d = ?R \<and> s = D \<and> ?I \<and> checked_geometry L cfg (d_geometry data) = Inr geom) ?E"
    by (rule dtriple_lift) auto
  fix geom
  let ?G = "?I \<and> checked_geometry L cfg (d_geometry data) = Inr geom"
  let ?props = "properties_without_readonly (d_properties data)"
  show "dtriple (\<lambda>d s. d = ?R \<and> s = D \<and> ?G)
      (lift_exn (validate_raster_cog_path_in_properties ?props (raster_storage_path cfg))) (\<lambda>_ d s. d = ?R \<and> s = D \<and> ?G) ?E"
    by (rule dtriple_lift) auto
  show "dtriple (\<lambda>d s. d = ?R \<and> s = D \<and> ?G) (store_parts L cfg fid cid geom ?props) (\<lambda>_ d s. (?I \<and> added cid fid (written_props data) ?R d) \<and> s = D) ?E"
    by (rule triple_when [of _ ?G])
       (auto intro!: triple_weaken [OF dt_store_parts [OF assms(1) checked_geometry_nonempty store_ok_removed_rows(1) [OF assms(2)]]])
  show "dtriple (\<lambda>d s. (?I \<and> added cid fid (written_props data) ?R d) \<and> s = D) commit (\<lambda>_ d s. (?I \<and> added cid fid (written_props data) ?R d) \<and> s = d) ?E"
    by (rule dt_commit)
  show "dtriple (\<lambda>d s. (?I \<and> added cid fid (written_props data) ?R d) \<and> s = d) (invalidate_collection_cache srv cid) (\<lambda>_ d s. (?I \<and> added cid fid (written_props data) ?R d) \<and> s = d) ?E"
    by (rule dt_invalidate)
qed (auto intro: triple_ret)

lemma dt_update:
  assumes "geo_ok L" and "store_ok D"
  shows "dtriple (\<lambda>d s. d = D \<and> s = D) (update_feature L srv cfg cid fid patch)
    (\<lambda>f d s. s = D \<or> fid \<in> ids_of (fd_rows D) cid \<and> (\<exists>ps. added cid fid ps (removed cid fid D) s))
    (\<lambda>d s. s = D \<or> fid \<in> ids_of (fd_rows D) cid \<and> (\<exists>ps. added cid fid ps (removed cid fid D) s))"
  unfolding update_feature_def Let_def
proof (intro triple_bnd triple_case_option)
  let ?R = "removed cid fid D" and ?I = "fid \<in> ids_of (fd_rows D) cid"
  let ?E = "\<lambda>d s. s = D \<or> ?I \<and> (\<exists>ps. added cid fid ps ?R s)"
  show "dtriple (\<lambda>d s. d = D \<and> s = D) (get_feature L srv cfg cid fid)
      (\<lambda>f d s. d = D \<and> s = D \<and> (f \<noteq> None \<longrightarrow> ?I)) ?E"
    by (rule triple_weaken [OF dt_get [where P = "\<lambda>d s. d = D \<and> s = D"]]) auto
  fix f :: "logical_feature option"
  show "f = None \<Longrightarrow> dtriple (\<lambda>d s. d = D \<and> s = D \<and> (f \<noteq> None \<longrightarrow> ?I)) (ret None) (\<lambda>f. ?E) ?E"
    by (auto intro: triple_ret)
  fix old assume f: "f = Some old"
  let ?props = "merged_properties (lf_properties old) (p_properties patch)"
  let ?dict = "case p_geometry patch of Some g \<Rightarrow> g | None \<Rightarrow> map_option (gl_geojson L) (lf_geometry old)"
  show "dtriple (\<lambda>d s. d = D \<and> s = D \<and> (f \<noteq> None \<longrightarrow> ?I))
      (lift_exn (validate_raster_cog_path_in_properties (Some ?props) (raster_storage_path cfg))) (\<lambda>_ d s. d = D \<and> s = D \<and> ?I) ?E"
    by (rule dtriple_lift) (use f in auto)
  show "dtriple (\<lambda>d s. d = D \<and> s = D \<and> ?I) (lift_exn (checked_geometry L cfg ?dict))
      (\<lambda>geom d s. d = D \<and> s = D \<and> ?I \<and> checked_geometry L cfg ?dict = Inr geom) ?E"
    by (rule dtriple_lift) auto
  fix geom
  let ?G = "?I \<and> checked_geometry L cfg ?dict = Inr geom"
  show "dtriple (\<lambda>d s. d = D \<and> s = D \<and> ?G) (exec_delete cid fid) (\<lambda>_ d s. d = ?R \<and> s = D \<and> ?G) ?E"
    by (rule triple_when [of _ ?G]) (auto intro!: triple_weaken [OF dt_delete [of D D cid fid]])
  show "dtriple (\<lambda>d s. d = ?R \<and> s = D \<and> ?G) (store_parts L cfg fid cid geom (Some ?props)) (\<lambda>_ d s. (?I \<and> (\<exists>ps. added cid fid ps ?R d)) \<and> s = D) ?E"
    by (rule triple_when [of _ ?G])
       (auto intro!: triple_weaken [OF dt_store_parts [OF assms(1) checked_geometry_nonempty store_ok_removed_rows(1) [OF assms(2)]]])
  show "dtriple (\<lambda>d s. (?I \<and> (\<exists>ps. added cid fid ps ?R d)) \<and> s = D) commit (\<lambda>_ d s. (?I \<and> (\<exists>ps. added cid fid ps ?R d)) \<and> s = d) ?E"
    by (rule triple_weaken [OF dt_commit [where P = "\<lambda>d. ?I \<and> (\<exists>ps. added cid fid ps ?R d)" and S = D]]) auto
  show "dtriple (\<lambda>d s. (?I \<and> (\<exists>ps. added cid fid ps ?R d)) \<and> s = d) (invalidate_collection_cache srv cid) (\<lambda>_ d s. (?I \<and> (\<exists>ps. added cid fid ps ?R d)) \<and> s = d) ?E"
    by (rule dt_invalidate)
  show "dtriple (\<lambda>d s. (?I \<and> (\<exists>ps. added cid fid ps ?R d)) \<and> s = d) (get_feature L srv cfg cid fid) (\<lambda>f. ?E) ?E"
    by (rule triple_weaken [OF dt_get [where P = "\<lambda>d s. (?I \<and> (\<exists>ps. added cid fid ps ?R d)) \<and> s = d"]]) auto
qed

lemma dt_delete_feature:
  "dtriple (\<lambda>d s. d = D \<and> s = D) (delete_feature srv cid fid)
    (\<lambda>b d s. if b then fid \<in> ids_of (fd_rows D) cid \<and> s = counted cid (\<lambda>n. max 0 (n - 1)) (removed cid fid D) else s = D)
    (\<lambda>d s. s = D)"
  unfolding delete_feature_def
proof (intro triple_bnd triple_if)
  let ?R = "removed cid fid D" and ?I = "fid \<in> ids_of (fd_rows D) cid"
  let ?Q = "\<lambda>b d s. if b then ?I \<and> s = counted cid (\<lambda>n. max 0 (n - 1)) ?R else s = D"
  show "dtriple (\<lambda>d s. d = D \<and> s = D) (exec_delete cid fid) (\<lambda>n d s. d = ?R \<and> s = D \<and> (0 < n \<longleftrightarrow> ?I)) (\<lambda>d s. s = D)"
    by (rule dt_delete)
  fix n :: nat
  show "n = 0 \<Longrightarrow> dtriple (\<lambda>d s. d = ?R \<and> s = D \<and> (0 < n \<longleftrightarrow> ?I)) (ret False) ?Q (\<lambda>d s. s = D)"
    by (auto intro: triple_ret)
  assume n: "n \<noteq> 0"
  show "dtriple (\<lambda>d s. d = ?R \<and> s = D \<and> (0 < n \<longleftrightarrow> ?I)) (exec_count cid (\<lambda>n. max 0 (n - 1)))
      (\<lambda>_ d s. (?I \<and> d = counted cid (\<lambda>n. max 0 (n - 1)) ?R) \<and> s = D) (\<lambda>d s. s = D)"
    by (rule triple_weaken [OF dt_count [where P = "\<lambda>d. ?I \<and> d = ?R" and S = D]]) (use n in auto)
  show "dtriple (\<lambda>d s. (?I \<and> d = counted cid (\<lambda>n. max 0 (n - 1)) ?R) \<and> s = D) commit
      (\<lambda>_ d s. (?I \<and> d = counted cid (\<lambda>n. max 0 (n - 1)) ?R) \<and> s = d) (\<lambda>d s. s = D)"
    by (rule dt_commit)
  show "dtriple (\<lambda>d s. (?I \<and> d = counted cid (\<lambda>n. max 0 (n - 1)) ?R) \<and> s = d) (invalidate_collection_cache srv cid)
      (\<lambda>_ d s. (?I \<and> d = counted cid (\<lambda>n. max 0 (n - 1)) ?R) \<and> s = d) (\<lambda>d s. s = D)"
    by (rule dt_invalidate)
qed (auto intro: triple_ret)

section \<open>The store stays well formed\<close>

lemma dtriple_after:
  assumes "dtriple A m Q E" and "A (live w) (saved w)" and "\<And>a d s. Q a d s \<Longrightarrow> G d s" and "\<And>d s. E d s \<Longrightarrow> G d s"
  shows "G (live (snd (m w))) (saved (snd (m w)))"
  using assms by (cases "fst (m w)") (auto simp: triple_def)

lemma dtriple_result:
  assumes "dtriple A m Q E" and "A (live w) (saved w)" and "fst (m w) = Inr a"
  shows "Q a (live (snd (m w))) (saved (snd (m w)))"
  using assms by (auto simp: triple_def)

lemma new_id_uuid: "dtriple (\<lambda>d s. d = D \<and> s = D) uuid4 (\<lambda>fid d s. d = D \<and> s = D \<and> True) (\<lambda>d s. s = D)"
  using dt_keep [OF keeps_wenv(3), of "\<lambda>d s. d = D \<and> s = D" "\<lambda>d s. s = D"] by simp

lemma new_id_given: "dtriple (\<lambda>d s. d = D \<and> s = D) (ret fid) (\<lambda>x d s. d = D \<and> s = D \<and> x = fid) (\<lambda>d s. s = D)"
  by (auto intro: triple_ret)

lemma saved_cases:
  assumes "geo_ok L" and "live w = saved w" and "store_ok (saved w)"
  shows "saved (snd (create_feature L srv cfg cid data w)) = saved w \<or>
      (\<exists>fid e ps. added cid fid ps (saved w) e \<and> saved (snd (create_feature L srv cfg cid data w)) = counted cid (\<lambda>n. n + 1) e)"
    and "saved (snd (create_feature_with_id L srv cfg cid data fid w)) = saved w \<or>
      (\<exists>e ps. added cid fid ps (saved w) e \<and> saved (snd (create_feature_with_id L srv cfg cid data fid w)) = counted cid (\<lambda>n. n + 1) e)"
    and "saved (snd (replace_feature L srv cfg cid fid data w)) = saved w \<or> fid \<in> ids_of (fd_rows (saved w)) cid \<and>
      (\<exists>ps. added cid fid ps (removed cid fid (saved w)) (saved (snd (replace_feature L srv cfg cid fid data w))))"
    and "saved (snd (update_feature L srv cfg cid fid patch w)) = saved w \<or> fid \<in> ids_of (fd_rows (saved w)) cid \<and>
      (\<exists>ps. added cid fid ps (removed cid fid (saved w)) (saved (snd (update_feature L srv cfg cid fid patch w))))"
    and "saved (snd (delete_feature srv cid fid w)) = saved w \<or> fid \<in> ids_of (fd_rows (saved w)) cid \<and>
      saved (snd (delete_feature srv cid fid w)) = counted cid (\<lambda>n. max 0 (n - 1)) (removed cid fid (saved w))"
proof -
  have dist: "distinct (map row_key (fd_rows (saved w)))" using assms(3) by (simp add: store_ok_def)
  have P: "live w = saved w \<and> saved w = saved w" using assms(2) by simp
  let ?ps = "written_props data"
  show "saved (snd (create_feature L srv cfg cid data w)) = saved w \<or>
      (\<exists>fid e ps. added cid fid ps (saved w) e \<and> saved (snd (create_feature L srv cfg cid data w)) = counted cid (\<lambda>n. n + 1) e)"
    unfolding create_feature_def
    by (rule dtriple_after [OF dt_create [OF assms(1) dist new_id_uuid],
          where G = "\<lambda>d s. s = saved w \<or> (\<exists>fid e ps. added cid fid ps (saved w) e \<and> s = counted cid (\<lambda>n. n + 1) e)"])
       (use P in auto)
  show "saved (snd (create_feature_with_id L srv cfg cid data fid w)) = saved w \<or>
      (\<exists>e ps. added cid fid ps (saved w) e \<and> saved (snd (create_feature_with_id L srv cfg cid data fid w)) = counted cid (\<lambda>n. n + 1) e)"
    unfolding create_feature_with_id_def
    by (rule dtriple_after [OF dt_create [OF assms(1) dist new_id_given],
          where G = "\<lambda>d s. s = saved w \<or> (\<exists>e ps. added cid fid ps (saved w) e \<and> s = counted cid (\<lambda>n. n + 1) e)"])
       (use P in auto)
  show "saved (snd (replace_feature L srv cfg cid fid data w)) = saved w \<or> fid \<in> ids_of (fd_rows (saved w)) cid \<and>
      (\<exists>ps. added cid fid ps (removed cid fid (saved w)) (saved (snd (replace_feature L srv cfg cid fid data w))))"
    by (rule dtriple_after [OF dt_replace [OF assms(1, 3)],
          where G = "\<lambda>d s. s = saved w \<or> fid \<in> ids_of (fd_rows (saved w)) cid \<and> (\<exists>ps. added cid fid ps (removed cid fid (saved w)) s)"])
       (use P in \<open>auto split: if_splits\<close>)
  show "saved (snd (update_feature L srv cfg cid fid patch w)) = saved w \<or> fid \<in> ids_of (fd_rows (saved w)) cid \<and>
      (\<exists>ps. added cid fid ps (removed cid fid (saved w)) (saved (snd (update_feature L srv cfg cid fid patch w))))"
    by (rule dtriple_after [OF dt_update [OF assms(1, 3)],
          where G = "\<lambda>d s. s = saved w \<or> fid \<in> ids_of (fd_rows (saved w)) cid \<and> (\<exists>ps. added cid fid ps (removed cid fid (saved w)) s)"])
       (use P in auto)
  show "saved (snd (delete_feature srv cid fid w)) = saved w \<or> fid \<in> ids_of (fd_rows (saved w)) cid \<and>
      saved (snd (delete_feature srv cid fid w)) = counted cid (\<lambda>n. max 0 (n - 1)) (removed cid fid (saved w))"
    by (rule dtriple_after [OF dt_delete_feature,
          where G = "\<lambda>d s. s = saved w \<or> fid \<in> ids_of (fd_rows (saved w)) cid \<and> s = counted cid (\<lambda>n. max 0 (n - 1)) (removed cid fid (saved w))"])
       (use P in \<open>auto split: if_splits\<close>)
qed

subsection \<open>Requests\<close>

text \<open>A request runs in a session of its own: what it has not committed when it ends is rolled back.\<close>

datatype feature_request =
    CreateFeature feature_data
  | CreateFeatureWithId feature_data string
  | ReplaceFeature string feature_data
  | UpdateFeature string feature_patch
  | DeleteFeature string

definition serve :: "geo_lib \<Rightarrow> 's redis \<Rightarrow> settings \<Rightarrow> string \<Rightarrow> feature_request \<Rightarrow> ('s, 'z) wenv_scheme \<Rightarrow> ('s, 'z) wenv_scheme" where
  "serve L srv cfg cid q w =
     (let w0 = w\<lparr>live := saved w\<rparr>;
          w1 = (case q of
                  CreateFeature data \<Rightarrow> snd (create_feature L srv cfg cid data w0)
                | CreateFeatureWithId data fid \<Rightarrow> snd (create_feature_with_id L srv cfg cid data fid w0)
                | ReplaceFeature fid data \<Rightarrow> snd (replace_feature L srv cfg cid fid data w0)
                | UpdateFeature fid patch \<Rightarrow> snd (update_feature L srv cfg cid fid patch w0)
                | DeleteFeature fid \<Rightarrow> snd (delete_feature srv cid fid w0))
      in w1\<lparr>live := saved w1\<rparr>)"

definition serve_all :: "geo_lib \<Rightarrow> 's redis \<Rightarrow> settings \<Rightarrow> (string \<times> feature_request) list \<Rightarrow> ('s, 'z) wenv_scheme \<Rightarrow> ('s, 'z) wenv_scheme" where
  "serve_all L srv cfg qs w = foldl (\<lambda>w (cid, q). serve L srv cfg cid q w) w qs"

text \<open>What one request may do to the committed database.\<close>

inductive db_step :: "string \<Rightarrow> feature_request \<Rightarrow> fdb \<Rightarrow> fdb \<Rightarrow> bool" for cid :: string where
  unchanged: "db_step cid q D D"
| created: "added cid fid ps D e \<Longrightarrow> db_step cid (CreateFeature data) D (counted cid (\<lambda>n. n + 1) e)"
| created_as: "added cid fid ps D e \<Longrightarrow> db_step cid (CreateFeatureWithId data fid) D (counted cid (\<lambda>n. n + 1) e)"
| replaced: "fid \<in> ids_of (fd_rows D) cid \<Longrightarrow> added cid fid ps (removed cid fid D) d \<Longrightarrow> db_step cid (ReplaceFeature fid data) D d"
| updated: "fid \<in> ids_of (fd_rows D) cid \<Longrightarrow> added cid fid ps (removed cid fid D) d \<Longrightarrow> db_step cid (UpdateFeature fid patch) D d"
| deleted: "fid \<in> ids_of (fd_rows D) cid \<Longrightarrow> db_step cid (DeleteFeature fid) D (counted cid (\<lambda>n. max 0 (n - 1)) (removed cid fid D))"

lemma serve_db_step:
  assumes "geo_ok L" and "store_ok (saved w)"
  shows "db_step cid q (saved w) (saved (serve L srv cfg cid q w))"
proof -
  let ?w = "w\<lparr>live := saved w\<rparr>"
  have w: "live ?w = saved ?w" "store_ok (saved ?w)" and s: "saved ?w = saved w" using assms(2) by simp_all
  note * = saved_cases [OF assms(1) w, unfolded s]
  show ?thesis
  proof (cases q)
    case (CreateFeature data)
    with *(1) [of srv cfg cid data] show ?thesis by (auto simp: serve_def Let_def intro: db_step.intros)
  next
    case (CreateFeatureWithId data fid)
    with *(2) [of srv cfg cid data fid] show ?thesis by (auto simp: serve_def Let_def intro: db_step.intros)
  next
    case (ReplaceFeature fid data)
    with *(3) [of srv cfg cid fid data] show ?thesis by (auto simp: serve_def Let_def intro: db_step.intros)
  next
    case (UpdateFeature fid patch)
    with *(4) [of srv cfg cid fid patch] show ?thesis by (auto simp: serve_def Let_def intro: db_step.intros)
  next
    case (DeleteFeature fid)
    with *(5) [of srv cid fid] show ?thesis by (auto simp: serve_def Let_def intro: db_step.intros)
  qed
qed

lemma db_step_ok: "db_step cid q D d \<Longrightarrow> store_ok D \<Longrightarrow> store_ok d"
  by (induction rule: db_step.induct) (auto intro: store_ok_created store_ok_replaced store_ok_deleted)

text \<open>A concrete geometry library and world for examples: one collection with one feature.\<close>

definition plain_geo :: geo_lib where
  "plain_geo = \<lparr>gl_shape = (\<lambda>_. Inr (Point [(1, 2)])), gl_is_valid = (\<lambda>_. True), gl_make_valid = (\<lambda>g. g),
     gl_isect = (\<lambda>g _. Inr g), gl_wkb_len = (\<lambda>_. 21), gl_wkt = (\<lambda>_. ''POINT (1 2)''),
     gl_st_subdivide = (\<lambda>wkt _. Inr [wkt]), gl_st_union = (\<lambda>gs. case gs of [] \<Rightarrow> None | g # _ \<Rightarrow> Some g),
     gl_geojson = (\<lambda>_. [(''type'', JStr ''Point'')]), gl_depth = 1\<rparr>"

definition one_feature :: fdb where
  "one_feature = \<lparr>fd_rows = [mk_row ''f1'' ''roads'' None (noon 0) None 0 (Some ''POINT (1 2)'')], fd_counts = [''roads'' \<mapsto> 1]\<rparr>"

definition wenv0 :: "'s \<Rightarrow> 's wenv" where
  "wenv0 s = \<lparr>rds = s, clock = noon, ticks = 0, uuids = (\<lambda>n. ''job'' @ nat_str n), uuid_n = 0, mem_jobs = [],
     live = one_feature, saved = one_feature, db_faults = []\<rparr>"

lemma plain_geo_ok: "geo_ok plain_geo"
proof -
  have "live_wkt ''POINT (1 2)''" by code_simp
  then show ?thesis by (simp add: geo_ok_def plain_geo_def)
qed

lemma one_feature_ok: "store_ok one_feature"
proof -
  have "ids_of (fd_rows one_feature) ''roads'' = {''f1''}" by (auto simp: ids_of_def one_feature_def mk_row_def)
  then show ?thesis by (simp add: store_ok_def one_feature_def mk_row_def is_feature_def)
qed

lemma wenv0_simps [simp]: "rds (wenv0 s) = s" "live (wenv0 s) = one_feature" "saved (wenv0 s) = one_feature" "db_faults (wenv0 s) = []"
  by (simp_all add: wenv0_def)

text \<open>C2: Whatever requests create, replace, update and delete features, in any order and whichever statements the
  database refuses, the committed store stays well formed: row keys are distinct, every feature has its first part, every row
  belongs to a collection and the cached count of each collection is the number of its features.\<close>

theorem feature_store_stays_well_formed:
  assumes "geo_ok L" and "store_ok (saved w)"
  shows "store_ok (saved (serve_all L srv cfg qs w))"
  using assms(2) unfolding serve_all_def
proof (induction qs arbitrary: w)
  case (Cons q qs)
  obtain cid r where q: "q = (cid, r)" by (cases q)
  have "store_ok (saved (serve L srv cfg cid r w))"
    using db_step_ok [OF serve_db_step [OF assms(1) Cons.prems] Cons.prems] .
  from Cons.IH [OF this] show ?case by (simp add: q)
qed simp

theorem feature_store_stays_well_formed_witness:
  "geo_ok plain_geo \<and> store_ok (saved (wenv0 [])) \<and>
   store_ok (saved (serve_all plain_geo mem_srv default_settings
     [(''roads'', CreateFeature \<lparr>d_geometry = None, d_properties = None\<rparr>), (''roads'', DeleteFeature ''f1'')] (wenv0 [])))"
  using feature_store_stays_well_formed [OF plain_geo_ok, of "wenv0 []" mem_srv default_settings] plain_geo_ok one_feature_ok by simp

fun request_target :: "feature_request \<Rightarrow> string option" where
  "request_target (CreateFeature data) = None"
| "request_target (CreateFeatureWithId data fid) = Some fid"
| "request_target (ReplaceFeature fid data) = Some fid"
| "request_target (UpdateFeature fid patch) = Some fid"
| "request_target (DeleteFeature fid) = Some fid"

lemma added_others:
  assumes "added cid fid ps D d" and "\<And>r. own_row cid fid ps r \<Longrightarrow> \<not> P r"
  shows "filter P (fd_rows d) = filter P (fd_rows D)" and "fd_counts d = fd_counts D"
  using assms by (auto simp: added_def rows_of_feature_def list_all_iff filter_empty_conv)

lemma removed_others:
  assumes "\<And>r. is_feature cid fid r \<Longrightarrow> \<not> P r"
  shows "filter P (fd_rows (removed cid fid D)) = filter P (fd_rows D)" and "fd_counts (removed cid fid D) = fd_counts D"
  using assms by (auto simp: removed_def intro!: filter_cong)

lemma counted_others [simp]: "fd_rows (counted cid f D) = fd_rows D" "c \<noteq> cid \<Longrightarrow> fd_counts (counted cid f D) c = fd_counts D c"
  by (auto simp: counted_def split: option.split)

lemma other_row:
  "own_row cid fid ps r \<Longrightarrow> fr_collection_id r = cid" "own_row cid fid ps r \<Longrightarrow> fr_id r = fid"
  "is_feature cid fid r \<Longrightarrow> fr_collection_id r = cid" "is_feature cid fid r \<Longrightarrow> fr_id r = fid"
  by (auto simp: own_row_def is_feature_def)

text \<open>What a step leaves alone: everything that no row of its feature satisfies.\<close>

lemma db_step_others:
  assumes "db_step cid q D d" and "store_ok D"
    and "\<And>r. fr_collection_id r = cid \<Longrightarrow> (case request_target q of None \<Rightarrow> fr_id r \<notin> ids_of (fd_rows D) cid | Some f \<Rightarrow> fr_id r = f) \<Longrightarrow> \<not> P r"
  shows "filter P (fd_rows d) = filter P (fd_rows D)"
  using assms(1)
proof cases
  case (created fid ps e data)
  then show ?thesis using added_fresh [OF assms(2) created(3)] assms(3) other_row by (simp add: added_others(1) [OF created(3), of P])
next
  case (created_as fid ps e data)
  then show ?thesis using assms(3) other_row by (simp add: added_others(1) [OF created_as(3), of P])
next
  case (replaced fid ps data)
  then show ?thesis using assms(3) other_row
    by (simp add: added_others(1) [OF replaced(3), of P] removed_others(1) [of cid fid P])
next
  case (updated fid ps patch)
  then show ?thesis using assms(3) other_row
    by (simp add: added_others(1) [OF updated(3), of P] removed_others(1) [of cid fid P])
next
  case (deleted fid)
  then show ?thesis using assms(3) other_row by (simp add: removed_others(1) [of cid fid P])
qed simp

lemma db_step_counts: "db_step cid q D d \<Longrightarrow> c \<noteq> cid \<Longrightarrow> fd_counts d c = fd_counts D c"
  by (induction rule: db_step.induct) (auto simp: added_def removed_def)

text \<open>C3: A request about one feature leaves the others alone: the rows and the count of every other collection,
  and the rows of every other feature of the collection, are the same after it, committed or failed.\<close>

theorem requests_touch_one_feature:
  assumes "geo_ok L" and "store_ok (saved w)"
  shows "(c \<noteq> cid \<longrightarrow> fd_counts (saved (serve L srv cfg cid q w)) c = fd_counts (saved w) c \<and>
      filter (\<lambda>r. fr_collection_id r = c) (fd_rows (saved (serve L srv cfg cid q w))) = filter (\<lambda>r. fr_collection_id r = c) (fd_rows (saved w))) \<and>
    (f \<in> ids_of (fd_rows (saved w)) cid \<and> request_target q \<noteq> Some f \<longrightarrow>
      filter (is_feature cid f) (fd_rows (saved (serve L srv cfg cid q w))) = filter (is_feature cid f) (fd_rows (saved w)))"
  using serve_db_step [OF assms, of cid q srv cfg]
  by (auto simp: db_step_counts is_feature_def split: option.splits intro!: db_step_others [OF _ assms(2)])

theorem requests_touch_one_feature_witness:
  "filter (is_feature ''roads'' ''f1'') (fd_rows (saved (serve plain_geo mem_srv default_settings ''roads'' (DeleteFeature ''f2'') (wenv0 [])))) =
   filter (is_feature ''roads'' ''f1'') (fd_rows one_feature)"
proof -
  have "''f1'' \<in> ids_of (fd_rows (saved (wenv0 []))) ''roads''" by (auto simp: ids_of_def one_feature_def mk_row_def)
  then show ?thesis
    using requests_touch_one_feature [OF plain_geo_ok, of "wenv0 []" "''rivers''" "''roads''" mem_srv default_settings "DeleteFeature ''f2''" "''f1''"]
      one_feature_ok by simp
qed

text \<open>C27: A replacement or a deletion that raises, or finds no feature, has committed nothing.\<close>

theorem failed_write_commits_nothing:
  assumes "geo_ok L" and "store_ok (saved w)" and "live w = saved w"
  shows "(fst (replace_feature L srv cfg cid fid data w) \<noteq> Inr True \<longrightarrow> saved (snd (replace_feature L srv cfg cid fid data w)) = saved w) \<and>
    (fst (delete_feature srv cid fid w) \<noteq> Inr True \<longrightarrow> saved (snd (delete_feature srv cid fid w)) = saved w)"
proof (intro conjI impI)
  have P: "live w = saved w \<and> saved w = saved w" using assms(3) by simp
  show "saved (snd (replace_feature L srv cfg cid fid data w)) = saved w" if "fst (replace_feature L srv cfg cid fid data w) \<noteq> Inr True"
    using dt_replace [OF assms(1, 2), of srv cfg cid fid data] P that
    by (cases "fst (replace_feature L srv cfg cid fid data w)") (force simp: triple_def)+
  show "saved (snd (delete_feature srv cid fid w)) = saved w" if "fst (delete_feature srv cid fid w) \<noteq> Inr True"
    using dt_delete_feature [of "saved w" srv cid fid] P that
    by (cases "fst (delete_feature srv cid fid w)") (force simp: triple_def)+
qed

text \<open>The third statement of a request, the commit, is refused.\<close>

theorem failed_write_commits_nothing_witness:
  "let w = (wenv0 [])\<lparr>db_faults := [None, None, Some (RuntimeError ''connection lost'')]\<rparr> in
   fst (delete_feature mem_srv ''roads'' ''f1'' w) = Inl (RuntimeError ''connection lost'') \<and>
   saved (snd (delete_feature mem_srv ''roads'' ''f1'' w)) = one_feature"
proof -
  define w :: "(string \<times> rval \<times> int option) list wenv" where "w = (wenv0 [])\<lparr>db_faults := [None, None, Some (RuntimeError ''connection lost'')]\<rparr>"
  have w: "store_ok (saved w)" "live w = saved w" and s: "saved w = one_feature" by (simp_all add: w_def one_feature_ok)
  have f: "fst (delete_feature mem_srv ''roads'' ''f1'' w) = Inl (RuntimeError ''connection lost'')"
    by (simp add: w_def delete_feature_def exec_delete_def exec_count_def commit_def sql_def prog_simps one_feature_def is_feature_def mk_row_def)
  with failed_write_commits_nothing [OF plain_geo_ok w, of mem_srv default_settings "''roads''" "''f1''"]
  show ?thesis unfolding w_def [symmetric] Let_def by (simp add: s)
qed

lemma added_read:
  assumes "store_ok D" and "added cid fid ps D e" and "fd_rows s = fd_rows e" and "read_feature L cid fid s f"
  shows "\<exists>new. fd_rows s = fd_rows D @ new \<and> rows_of_feature cid fid ps new \<and> f = row_to_logical_feature L new"
proof -
  obtain new where e: "fd_rows e = fd_rows D @ new" and new: "rows_of_feature cid fid ps new"
    using assms(2) by (auto simp: added_def)
  obtain jobs where f: "f = row_to_logical_feature L (filter (\<lambda>r. is_feature cid fid r \<and> shadow_visible jobs r) (fd_rows s))"
    using assms(4) by (auto simp: read_feature_def)
  have "filter (\<lambda>r. is_feature cid fid r \<and> shadow_visible jobs r) (fd_rows D) = []"
    using added_fresh [OF assms(1, 2)] by (auto simp: filter_empty_conv ids_of_def is_feature_def)
  moreover have "filter (\<lambda>r. is_feature cid fid r \<and> shadow_visible jobs r) new = new"
    using new by (auto simp: rows_of_feature_def own_row_def list_all_iff shadow_visible_def intro!: filter_True)
  ultimately show ?thesis using e new f assms(3) by auto
qed

lemma logical_feature_of_rows:
  assumes "rows_of_feature cid fid ps new"
  shows "lf_id (row_to_logical_feature L new) = fid" and "lf_collection_id (row_to_logical_feature L new) = cid"
    and "lf_properties (row_to_logical_feature L new) = ps"
proof -
  have *: "new \<noteq> []" "\<And>r. r \<in> set new \<Longrightarrow> own_row cid fid ps r" using assms by (auto simp: rows_of_feature_def list_all_iff)
  then have "hd new \<in> set new" "hd (sort_key fr_part_index new) \<in> set new"
    by (simp, metis hd_in_set set_sort sort_key_simps(1) length_0_conv length_sort)
  with *(2) show "lf_id (row_to_logical_feature L new) = fid" "lf_collection_id (row_to_logical_feature L new) = cid"
      "lf_properties (row_to_logical_feature L new) = ps"
    by (simp_all add: row_to_logical_feature_def own_row_def is_feature_def)
qed

text \<open>C26: When a feature is created under a given id, the id was free, its parts are stored after the rows that were there,
  the count of its collection is one higher, and the feature that is returned is the stored one: it has that id and the given properties without
  the read-only ones.\<close>

theorem created_feature_is_stored:
  assumes "geo_ok L" and "store_ok (saved w)" and "live w = saved w"
    and "fst (create_feature_with_id L srv cfg cid data fid w) = Inr f"
  shows "fid \<notin> ids_of (fd_rows (saved w)) cid \<and>
    (\<exists>new n. fd_rows (saved (snd (create_feature_with_id L srv cfg cid data fid w))) = fd_rows (saved w) @ new \<and>
       rows_of_feature cid fid (written_props data) new \<and> f = row_to_logical_feature L new \<and> fd_counts (saved w) cid = Some n \<and>
       fd_counts (saved (snd (create_feature_with_id L srv cfg cid data fid w))) = (fd_counts (saved w))(cid \<mapsto> n + 1)) \<and>
    lf_id f = fid \<and> lf_collection_id f = cid \<and> lf_properties f = written_props data"
proof -
  let ?s = "saved (snd (create_feature_with_id L srv cfg cid data fid w))"
  have dist: "distinct (map row_key (fd_rows (saved w)))" using assms(2) by (simp add: store_ok_def)
  obtain e where e: "added cid fid (written_props data) (saved w) e" "?s = counted cid (\<lambda>n. n + 1) e" "read_feature L cid fid ?s f"
    using dtriple_result [OF dt_create [OF assms(1) dist new_id_given, of srv cfg cid data fid], of w f] assms(3, 4)
    by (auto simp: create_feature_with_id_def)
  have rows: "fd_rows ?s = fd_rows e" by (simp add: e(2))
  from added_read [OF assms(2) e(1) rows e(3)] obtain new
    where new: "fd_rows ?s = fd_rows (saved w) @ new" "rows_of_feature cid fid (written_props data) new" "f = row_to_logical_feature L new"
    by blast
  obtain n where "fd_counts (saved w) cid = Some n" "fd_counts ?s = (fd_counts (saved w))(cid \<mapsto> n + 1)"
    using e(1) unfolding e(2) by (auto simp: added_def counted_def)
  with new added_fresh [OF assms(2) e(1)] logical_feature_of_rows [OF new(2), of L] show ?thesis by blast
qed

theorem created_feature_is_stored_witness:
  "\<exists>f. fst (create_feature_with_id plain_geo mem_srv default_settings ''roads''
        \<lparr>d_geometry = None, d_properties = Some [(''id'', JStr ''x''), (''name'', JStr ''A1'')]\<rparr> ''f2'' (wenv0 [])) = Inr f \<and>
     lf_id f = ''f2'' \<and> lf_properties f = Some [(''name'', JStr ''A1'')]"
proof -
  let ?d = "\<lparr>d_geometry = None, d_properties = Some [(''id'', JStr ''x''), (''name'', JStr ''A1'')]\<rparr>"
  have "\<not> isl (fst (create_feature_with_id plain_geo mem_srv default_settings ''roads'' ?d ''f2'' (wenv0 [])))"
    by code_simp
  then obtain f where f: "fst (create_feature_with_id plain_geo mem_srv default_settings ''roads'' ?d ''f2'' (wenv0 [])) = Inr f"
    by (cases "fst (create_feature_with_id plain_geo mem_srv default_settings ''roads'' ?d ''f2'' (wenv0 []))") auto
  have "lf_id f = ''f2'' \<and> lf_properties f = written_props ?d"
    using created_feature_is_stored [OF plain_geo_ok _ _ f] one_feature_ok by simp
  then show ?thesis using f by (simp add: stored_props_def properties_without_readonly_def PROPERTIES_READONLY_KEYS_def)
qed

lemma get_after_invalidate:
  assumes "redis_up srv view" and "plain cid"
  shows "fst (get_tile srv cfg cid z x y (snd (invalidate_collection_cache srv cid w))) = Inr None"
    and "fst (get_search_result srv cfg cid p (snd (invalidate_collection_cache srv cid w))) = Inr None"
    and "fst (get_tile_with_params srv cfg cid z x y p (snd (invalidate_collection_cache srv cid w))) = Inr None"
proof -
  have "cached_for cid (cache_key cid z x y)" "cached_for cid (search_result_key cid p)" "cached_for cid (params_cache_key cid z x y p)"
    by (simp_all add: cached_for_def cache_key_def search_result_key_def params_cache_key_def starts_with_def)
  then show "fst (get_tile srv cfg cid z x y (snd (invalidate_collection_cache srv cid w))) = Inr None"
    "fst (get_search_result srv cfg cid p (snd (invalidate_collection_cache srv cid w))) = Inr None"
    "fst (get_tile_with_params srv cfg cid z x y p (snd (invalidate_collection_cache srv cid w))) = Inr None"
    using assms
    by (simp_all add: get_tile_def get_search_result_def get_tile_with_params_def prog_simps redis_up.eval_cache_get redis_up.view_invalidate
        cache_patterns_plain without_def as_string_def)
qed

lemma bnd_then:
  assumes "fst (bnd m f w) = Inr b" and "\<And>a w'. fst (f a w') = Inr b \<Longrightarrow> P (snd (f a w'))"
  shows "P (snd (bnd m f w))"
  using assms by (cases "fst (m w)") (auto simp: bnd_eval)

lemma invalidate_last: "bnd (invalidate_collection_cache srv cid) (\<lambda>_. ret a) = (\<lambda>w. (Inr a, snd (invalidate_collection_cache srv cid w)))"
  using invalidate_not_raises [of srv cid] by (fastforce simp: fun_eq_iff bnd_def ret_def prod_eq_iff split: sum.split)

lemma write_ends_with_invalidation:
  "fst (replace_feature L srv cfg cid fid data w) = Inr True \<Longrightarrow> \<exists>w1. snd (replace_feature L srv cfg cid fid data w) = snd (invalidate_collection_cache srv cid w1)"
  "fst (delete_feature srv cid fid w) = Inr True \<Longrightarrow> \<exists>w1. snd (delete_feature srv cid fid w) = snd (invalidate_collection_cache srv cid w1)"
  unfolding replace_feature_def delete_feature_def Let_def invalidate_last
  by ((erule bnd_then, auto simp: ret_def split: if_splits elim!: bnd_then)+) blast

text \<open>C28: After a replacement or a deletion that succeeds, no cached tile, with parameters or without, and no cached search
  result of the collection is served, provided that Redis answers every request (an error during the invalidation is
  swallowed, and the old tiles stay) and that the collection's id holds none of the characters that mean something in a key
  pattern (\<^term>\<open>plain\<close>).\<close>

theorem written_collection_not_served_stale:
  assumes "redis_up srv view" and "plain cid"
    and "w' = snd (replace_feature L srv cfg cid fid data w) \<and> fst (replace_feature L srv cfg cid fid data w) = Inr True \<or>
         w' = snd (delete_feature srv cid fid w) \<and> fst (delete_feature srv cid fid w) = Inr True"
  shows "fst (get_tile srv cfg cid z x y w') = Inr None \<and> fst (get_tile_with_params srv cfg cid z x y p w') = Inr None \<and>
    fst (get_search_result srv cfg cid p w') = Inr None"
proof -
  obtain w1 where "w' = snd (invalidate_collection_cache srv cid w1)"
    using assms(3) write_ends_with_invalidation by blast
  then show ?thesis by (simp add: get_after_invalidate [OF assms(1, 2)])
qed

theorem written_collection_not_served_stale_witness:
  "fst (get_tile mem_srv default_settings ''roads'' 3 1 2 (snd (delete_feature mem_srv ''roads'' ''f1''
      (snd (set_tile mem_srv default_settings ''roads'' 3 1 2 ''mvt'' (wenv0 [])))))) = Inr None"
proof -
  let ?w = "snd (set_tile mem_srv default_settings ''roads'' 3 1 2 ''mvt'' (wenv0 []))"
  have d: "fst (delete_feature mem_srv ''roads'' ''f1'' ?w) = Inr True" by code_simp
  have p: "plain ''roads''" by (simp add: plain_def)
  show ?thesis
    using written_collection_not_served_stale [OF mem.redis_up_axioms p, of "snd (delete_feature mem_srv ''roads'' ''f1'' ?w)"
        plain_geo default_settings "''f1''" undefined ?w 3 1 2] d by blast
qed

text \<open>A geometry over the size limit is refused before anything is written: creating the feature raises
  the error with the size and the limit, and no part of the world changes.\<close>

theorem oversized_geometry_refused:
  assumes "load_geometry L (d_geometry data) = Inr (Some g)" and "0 < max_geometry_bytes cfg None" and "max_geometry_bytes cfg None < gl_wkb_len L g"
  shows "create_feature L srv cfg cid data w = (Inl (GeometryTooLargeError (gl_wkb_len L g) (max_geometry_bytes cfg None)), w)"
proof -
  have "\<not> is_empty g"
    using assms(1) by (auto simp: load_geometry_def sbind_def Let_def split: option.splits if_splits sum.splits)
  then have "checked_geometry L cfg (d_geometry data) = Inl (GeometryTooLargeError (gl_wkb_len L g) (max_geometry_bytes cfg None))"
    using assms by (simp add: checked_geometry_def check_geometry_size_limit_def geometry_wkb_byte_length_def sbind_def Let_def)
  then show ?thesis by (simp add: create_feature_def create_feature_as_def bnd_def lift_exn_def)
qed

theorem oversized_geometry_refused_witness:
  "let L = plain_geo\<lparr>gl_wkb_len := (\<lambda>_. 10 ^ 12)\<rparr> in
   fst (create_feature L mem_srv default_settings ''roads'' \<lparr>d_geometry = Some [(''type'', JStr ''Point'')], d_properties = None\<rparr> (wenv0 []))
     = Inl (GeometryTooLargeError (10 ^ 12) (max_geometry_bytes default_settings None))"
proof -
  let ?L = "plain_geo\<lparr>gl_wkb_len := (\<lambda>_. 10 ^ 12)\<rparr>" and ?d = "\<lparr>d_geometry = Some [(''type'', JStr ''Point'')], d_properties = None\<rparr>"
  have l: "load_geometry ?L (d_geometry ?d) = Inr (Some (Point [(1, 2)]))"
    by (simp add: load_geometry_def plain_geo_def sbind_def is_empty_def)
  have m: "0 < max_geometry_bytes default_settings None" "max_geometry_bytes default_settings None < gl_wkb_len ?L (Point [(1, 2)])"
    by code_simp+
  from oversized_geometry_refused [OF l m, of mem_srv "''roads''" "wenv0 []"]
  show ?thesis by (simp add: plain_geo_def)
qed

end
