(* ===== verification/Mosaic_Dates.thy ===== *)
theory Mosaic_Dates
  imports Py_Datetime GFM_Prelude
begin

text \<open>
  The date side of the mosaic planner (\<^verbatim>\<open>app/services/mosaic_plan.py\<close>, \<^verbatim>\<open>_parse_date\<close> to
  \<^verbatim>\<open>season_datetime_slices\<close>): the user's date range is cut into the \<^verbatim>\<open>datetime\<close> intervals of the STAC searches,
  by calendar month or by season. Python's \<^verbatim>\<open>date\<close> is a datatype with its lexicographic order; \<open>mk_date\<close> raises as the
  constructor does, so that a range that reaches the year 9999 may fail.

  Shown: without seasons the intervals partition the range; with seasons the days that are searched are exactly the days of the
  range in a wanted season, the whole range when there is none. Winter as the code has it is not whole: January and February of the
  first year, and the 29th of February, are left out (\<open>winter_loses_january\<close>).
\<close>

section \<open>Dates\<close>

datatype date = Date (yr: nat) (mon: nat) (mday: nat)

instantiation date :: linorder
begin

definition less_eq_date :: "date \<Rightarrow> date \<Rightarrow> bool" where
  "a \<le> b \<longleftrightarrow> yr a < yr b \<or> yr a = yr b \<and> (mon a < mon b \<or> mon a = mon b \<and> mday a \<le> mday b)"

definition less_date :: "date \<Rightarrow> date \<Rightarrow> bool" where
  "a < b \<longleftrightarrow> yr a < yr b \<or> yr a = yr b \<and> (mon a < mon b \<or> mon a = mon b \<and> mday a < mday b)"

instance
  by standard (auto simp: less_eq_date_def less_date_def date.expand)

end

definition date_ok :: "date \<Rightarrow> bool" where
  "date_ok d \<longleftrightarrow> 1 \<le> yr d \<and> yr d \<le> 9999 \<and> 1 \<le> mon d \<and> mon d \<le> 12 \<and> 1 \<le> mday d \<and> mday d \<le> days_in_month (yr d) (mon d)"

definition mk_date :: "nat \<Rightarrow> nat \<Rightarrow> nat \<Rightarrow> exn + date" where
  "mk_date y m d = (if date_ok (Date y m d) then Inr (Date y m d) else Inl ValueError)"

definition date_ordinal :: "date \<Rightarrow> nat" where
  "date_ordinal d = days_before_year (yr d) + days_before_month (yr d) (mon d) + mday d"

text \<open>\<^verbatim>\<open>d - timedelta(days=1)\<close> for a day after the first of year 1.\<close>

definition day_before :: "date \<Rightarrow> date" where
  "day_before d =
     (if 1 < mday d then Date (yr d) (mon d) (mday d - 1)
      else if 1 < mon d then Date (yr d) (mon d - 1) (days_in_month (yr d) (mon d - 1))
      else Date (yr d - 1) 12 31)"

definition date_iso :: "date \<Rightarrow> string" where
  "date_iso d = pad 4 (yr d) @ ''-'' @ pad 2 (mon d) @ ''-'' @ pad 2 (mday d)"

section \<open>Parsing\<close>

text \<open>\<^verbatim>\<open>strptime(t, "%Y-%m-%d")\<close>: four digits, then months and days of one or two digits, the regular expression of
  each tried in its order and nothing left over.\<close>

definition dig :: "char \<Rightarrow> nat option" where
  "dig c = (if is_ascii_digit c then digit_val 10 c else None)"

definition p_two :: "(nat \<Rightarrow> nat \<Rightarrow> bool) \<Rightarrow> string \<Rightarrow> (nat \<times> string) option" where
  "p_two ok s = (case s of
      c # d # r \<Rightarrow> (case (dig c, dig d) of (Some a, Some b) \<Rightarrow> if ok a b then Some (10 * a + b, r) else None | _ \<Rightarrow> None)
    | _ \<Rightarrow> None)"

definition p_one :: "string \<Rightarrow> (nat \<times> string) option" where
  "p_one s = (case s of c # r \<Rightarrow> (case dig c of Some a \<Rightarrow> if 1 \<le> a then Some (a, r) else None | None \<Rightarrow> None) | _ \<Rightarrow> None)"

definition p_month :: "string \<Rightarrow> (nat \<times> string) option" where
  "p_month s = (case p_two (\<lambda>a b. a = 1 \<and> b \<le> 2 \<or> a = 0 \<and> 1 \<le> b) s of Some x \<Rightarrow> Some x | None \<Rightarrow> p_one s)"

definition p_day :: "string \<Rightarrow> (nat \<times> string) option" where
  "p_day s =
     (case p_two (\<lambda>a b. a = 3 \<and> b \<le> 1 \<or> a \<in> {1, 2} \<or> a = 0 \<and> 1 \<le> b) s of
        Some x \<Rightarrow> Some x
      | None \<Rightarrow> (case p_one s of
           Some x \<Rightarrow> Some x
         | None \<Rightarrow> (case s of c # r \<Rightarrow> if c = CHR '' '' then p_one r else None | [] \<Rightarrow> None)))"

definition strptime_ymd :: "string \<Rightarrow> date option" where
  "strptime_ymd t =
     do { (y, s) \<leftarrow> p_digits 4 t; s \<leftarrow> p_char CHR ''-'' s; (m, s) \<leftarrow> p_month s; s \<leftarrow> p_char CHR ''-'' s; (d, s) \<leftarrow> p_day s;
          if s = [] \<and> date_ok (Date y m d) then Some (Date y m d) else None }"

definition parse_date :: "string option \<Rightarrow> date option" where
  "parse_date s =
     (case s of
        None \<Rightarrow> None
      | Some x \<Rightarrow> if py_strip x = [] then None else strptime_ymd (take 10 (py_strip x)))"

section \<open>Intervals\<close>

definition datetime_range :: "date \<times> date \<Rightarrow> string" where
  "datetime_range p = date_iso (fst p) @ ''T00:00:00Z/'' @ date_iso (snd p) @ ''T23:59:59Z''"

definition next_month :: "date \<Rightarrow> exn + date" where
  "next_month cur = (if mon cur = 12 then mk_date (yr cur + 1) 1 1 else mk_date (yr cur) (mon cur + 1) 1)"

definition month_index :: "date \<Rightarrow> nat" where
  "month_index d = 12 * yr d + mon d"

lemma next_month_index: "next_month cur = Inr n \<Longrightarrow> mon cur \<le> 12 \<Longrightarrow> month_index cur < month_index n"
  by (auto simp: next_month_def mk_date_def month_index_def split: if_splits)

text \<open>The loop of \<^verbatim>\<open>_calendar_month_datetime_slices\<close> from the month \<open>cur\<close> on; months beyond December do not occur.\<close>

function month_slices_from :: "date \<Rightarrow> date \<Rightarrow> date \<Rightarrow> exn + (date \<times> date) list" where
  "month_slices_from ds de cur =
     (if cur \<le> de \<and> mon cur \<le> 12 then
        (case next_month cur of
           Inl e \<Rightarrow> Inl e
         | Inr next_m \<Rightarrow>
             let month_last = day_before next_m; s1 = max ds cur; e1 = min de month_last
             in sbind (month_slices_from ds de next_m) (\<lambda>rest.
                Inr ((if s1 \<le> e1 then [(s1, e1)] else []) @ rest)))
      else Inr [])"
  by pat_completeness auto
termination
proof (relation "measure (\<lambda>(ds, de, cur). Suc (12 * yr de + 12) - month_index cur)")
  fix ds de cur n x assume a: "cur \<le> de \<and> mon cur \<le> 12" and n: "next_month cur = Inr n"
  have "month_index cur < month_index n" using n a by (intro next_month_index) auto
  moreover have "month_index cur \<le> 12 * yr de + 12" using a by (auto simp: month_index_def less_eq_date_def)
  ultimately show "((ds, de, n), ds, de, cur) \<in> measure (\<lambda>(ds, de, cur). Suc (12 * yr de + 12) - month_index cur)" by simp
qed auto

definition calendar_month_datetime_slices :: "date \<Rightarrow> date \<Rightarrow> exn + (date \<times> date) list" where
  "calendar_month_datetime_slices ds de = sbind (mk_date (yr ds) (mon ds) 1) (\<lambda>cur. month_slices_from ds de cur)"

section \<open>Seasons\<close>

definition SEASON_MONTHS :: "(string \<times> nat \<times> nat) list" where
  "SEASON_MONTHS = [(''spring'', 3, 5), (''summer'', 6, 8), (''autumn'', 9, 11), (''winter'', 12, 2)]"

definition NO_SEASON_SPLIT_MIN_DAYS :: int where
  "NO_SEASON_SPLIT_MIN_DAYS = 31"

definition clip :: "date \<Rightarrow> date \<Rightarrow> date \<Rightarrow> date \<Rightarrow> (date \<times> date) list" where
  "clip ds de d1 d2 =
     (if ds \<le> d2 \<and> d1 \<le> de then (if max d1 ds \<le> min d2 de then [(max d1 ds, min d2 de)] else []) else [])"

definition last_of_month :: "nat \<Rightarrow> nat \<Rightarrow> nat" where
  "last_of_month year b =
     (if b = 2 then (if year mod 4 = 0 \<and> (year mod 100 \<noteq> 0 \<or> year mod 400 = 0) then 29 else 28)
      else if b \<in> {1, 3, 5, 7, 8, 10, 12} then 31 else 30)"

definition season_slices_of_year :: "date \<Rightarrow> date \<Rightarrow> nat \<Rightarrow> string \<Rightarrow> exn + (date \<times> date) list" where
  "season_slices_of_year ds de year sn =
     (case map_of SEASON_MONTHS sn of
        None \<Rightarrow> Inr []
      | Some (a, b) \<Rightarrow>
          if sn = ''winter'' then
            sbind (mk_date year 12 1) (\<lambda>d1. sbind (mk_date year 12 31) (\<lambda>d2.
            sbind (mk_date (year + 1) 1 1) (\<lambda>d3. sbind (mk_date (year + 1) 2 28) (\<lambda>d4.
            Inr (clip ds de d1 d2 @ clip ds de d3 d4)))))
          else
            sbind (mk_date year a 1) (\<lambda>d1. sbind (mk_date year b (last_of_month year b)) (\<lambda>d2.
            Inr (clip ds de d1 d2))))"

fun concat_exn :: "(exn + 'a list) list \<Rightarrow> exn + 'a list" where
  "concat_exn [] = Inr []"
| "concat_exn (x # xs) = sbind x (\<lambda>a. sbind (concat_exn xs) (\<lambda>b. Inr (a @ b)))"

text \<open>The elements of the Python set \<^verbatim>\<open>want\<close> are visited in the order of the list here; the sorting by start makes the order irrelevant.\<close>

definition season_slices :: "date \<Rightarrow> date \<Rightarrow> string list \<Rightarrow> exn + (date \<times> date) list" where
  "season_slices ds de seasons =
     (let want = remdups (map (\<lambda>s. py_strip (py_lower s)) (filter (\<lambda>s. s \<noteq> []) seasons))
      in sbind (concat_exn [season_slices_of_year ds de year sn. year \<leftarrow> [yr ds..<yr de + 1], sn \<leftarrow> want]) (\<lambda>slices.
         Inr (sort_key fst slices)))"

text \<open>The bounds of the range: a missing one is the other one, and they are put in order.\<close>

definition date_bounds :: "string option \<Rightarrow> string option \<Rightarrow> (date \<times> date) option" where
  "date_bounds date_start date_end =
     (case (parse_date date_start, parse_date date_end) of
        (None, None) \<Rightarrow> None
      | (None, Some e) \<Rightarrow> Some (e, e)
      | (Some s, None) \<Rightarrow> Some (s, s)
      | (Some s, Some e) \<Rightarrow> Some (if e < s then (e, s) else (s, e)))"

definition season_intervals :: "date \<Rightarrow> date \<Rightarrow> string list option \<Rightarrow> exn + (date \<times> date) list" where
  "season_intervals ds de seasons =
     (if or_else seasons [] = [] then
        (if int (date_ordinal de) - int (date_ordinal ds) > NO_SEASON_SPLIT_MIN_DAYS then
           sbind (calendar_month_datetime_slices ds de) (\<lambda>chunks. Inr (if chunks \<noteq> [] then chunks else [(ds, de)]))
         else Inr [(ds, de)])
      else sbind (season_slices ds de (or_else seasons [])) (\<lambda>slices. Inr (if slices = [] then [(ds, de)] else slices)))"

definition season_datetime_slices :: "string option \<Rightarrow> string option \<Rightarrow> string list option \<Rightarrow> exn + string list" where
  "season_datetime_slices date_start date_end seasons =
     (case date_bounds date_start date_end of
        None \<Rightarrow> Inr []
      | Some (ds, de) \<Rightarrow> sbind (season_intervals ds de seasons) (\<lambda>xs. Inr (map datetime_range xs)))"

section \<open>Months partition a range\<close>

lemma date_le: "Date y m d \<le> x \<longleftrightarrow> y < yr x \<or> y = yr x \<and> (m < mon x \<or> m = mon x \<and> d \<le> mday x)"
    "x \<le> Date y m d \<longleftrightarrow> yr x < y \<or> yr x = y \<and> (mon x < m \<or> mon x = m \<and> mday x \<le> d)"
  by (auto simp: less_eq_date_def)

lemma days_in_month_bounds: "28 \<le> days_in_month y m" "days_in_month y m \<le> 31"
  by (auto simp: days_in_month_def)

definition covers_day :: "date \<Rightarrow> date \<times> date \<Rightarrow> bool" where
  "covers_day d p \<longleftrightarrow> fst p \<le> d \<and> d \<le> snd p"

text \<open>A real day is compared with the ends of a month by its year and month.\<close>

lemma month_end: "date_ok d \<Longrightarrow> d \<le> Date y m (days_in_month y m) \<longleftrightarrow> yr d < y \<or> yr d = y \<and> mon d \<le> m"
  by (cases "yr d = y \<and> mon d = m") (auto simp: date_le date_ok_def)

lemma month_start: "date_ok d \<Longrightarrow> Date y m 1 \<le> d \<longleftrightarrow> y < yr d \<or> y = yr d \<and> m \<le> mon d"
  by (cases "yr d = y \<and> mon d = m") (auto simp: date_le date_ok_def)

lemma next_monthE:
  assumes "next_month cur = Inr n" and "date_ok cur" and "mday cur = 1"
  shows "date_ok n" "mday n = 1" "day_before n = Date (yr cur) (mon cur) (days_in_month (yr cur) (mon cur))"
    "date_ok d \<Longrightarrow> n \<le> d \<longleftrightarrow> \<not> d \<le> day_before n" "cur \<le> n"
proof -
  have m: "1 \<le> mon cur" "mon cur \<le> 12" using assms(2) by (auto simp: date_ok_def)
  have n: "n = (if mon cur = 12 then Date (yr cur + 1) 1 1 else Date (yr cur) (mon cur + 1) 1)"
    using assms(1) by (auto simp: next_month_def mk_date_def split: if_splits)
  show "date_ok n" "mday n = 1" using assms(1) by (auto simp: next_month_def mk_date_def split: if_splits)
  show l: "day_before n = Date (yr cur) (mon cur) (days_in_month (yr cur) (mon cur))"
    using m by (auto simp: n day_before_def days_in_month_def)
  show "n \<le> d \<longleftrightarrow> \<not> d \<le> day_before n" if d: "date_ok d"
  proof -
    have "1 \<le> mon d" "mon d \<le> 12" using d by (auto simp: date_ok_def)
    then show ?thesis
      using m unfolding l month_end [OF d] by (cases "mon cur = 12") (auto simp: n month_start [OF d, simplified])
  qed
  show "cur \<le> n" using m by (auto simp: n less_eq_date_def)
qed

declare month_slices_from.simps [simp del]

lemma single_cover:
  "length (filter (covers_day d) (if max a b \<le> min c e then [(max a b, min c e)] else [])) =
     (if a \<le> d \<and> b \<le> d \<and> d \<le> c \<and> d \<le> e then 1 else 0)"
  by (auto simp: covers_day_def)

lemma month_slices_partition:
  assumes "date_ok cur" and "mday cur = 1" and "month_slices_from ds de cur = Inr xs" and d: "date_ok d"
  shows "length (filter (covers_day d) xs) = (if cur \<le> d \<and> ds \<le> d \<and> d \<le> de then 1 else 0)"
  using assms(1-3)
proof (induction ds de cur arbitrary: xs rule: month_slices_from.induct)
  case (1 ds de cur)
  show ?case
  proof (cases "cur \<le> de \<and> mon cur \<le> 12")
    case False
    then have "\<not> cur \<le> de" using "1.prems"(1) by (simp add: date_ok_def)
    moreover have "xs = []" using "1.prems"(3) False by (simp add: month_slices_from.simps [of ds de cur])
    ultimately show ?thesis by auto
  next
    case True
    then obtain n rest where n: "next_month cur = Inr n" and rest: "month_slices_from ds de n = Inr rest"
      and xs: "xs = (if max ds cur \<le> min de (day_before n) then [(max ds cur, min de (day_before n))] else []) @ rest"
      using "1.prems"(3) by (subst (asm) month_slices_from.simps) (auto simp: Let_def sbind_def split: sum.splits)
    note nx = next_monthE [OF n "1.prems"(1, 2)]
    have IH: "length (filter (covers_day d) rest) = (if n \<le> d \<and> ds \<le> d \<and> d \<le> de then 1 else 0)"
      by (rule "1.IH" [OF True n refl refl refl nx(1, 2) rest])
    have "length (filter (covers_day d) xs) = (if ds \<le> d \<and> cur \<le> d \<and> d \<le> de \<and> d \<le> day_before n then 1 else 0) +
        (if n \<le> d \<and> ds \<le> d \<and> d \<le> de then 1 else 0)"
      unfolding xs filter_append length_append single_cover IH ..
    moreover have "n \<le> d \<Longrightarrow> cur \<le> d" using nx(5) by (rule order_trans)
    ultimately show ?thesis using nx(4) [OF d] by auto
  qed
qed

lemma month_slices_total:
  assumes "date_ok cur" and "mday cur = 1" and "yr de < 9999"
  shows "\<exists>xs. month_slices_from ds de cur = Inr xs"
  using assms
proof (induction ds de cur rule: month_slices_from.induct)
  case (1 ds de cur)
  show ?case
  proof (cases "cur \<le> de \<and> mon cur \<le> 12")
    case True
    then have "yr cur < 9999" using "1.prems"(3) by (auto simp: less_eq_date_def)
    then have "\<exists>n. next_month cur = Inr n"
      using "1.prems"(1) by (auto simp: next_month_def mk_date_def date_ok_def days_in_month_def)
    then obtain n where n: "next_month cur = Inr n" ..
    note nx = next_monthE [OF n "1.prems"(1, 2)]
    obtain rest where "month_slices_from ds de n = Inr rest"
      using "1.IH" [OF True n refl refl refl nx(1, 2) "1.prems"(3)] by blast
    with n True show ?thesis by (subst month_slices_from.simps) (simp add: Let_def)
  qed (subst month_slices_from.simps, auto)
qed

text \<open>Without seasons the searched intervals partition the range: every day of it lies in exactly one interval and no other
  day in any, whenever the range ends before the year 9999.\<close>

theorem month_intervals_partition:
  assumes "date_ok ds" and "ds \<le> de" and "yr de < 9999"
  shows "\<exists>xs. season_intervals ds de None = Inr xs \<and>
    (\<forall>d. date_ok d \<longrightarrow> length (filter (covers_day d) xs) = (if ds \<le> d \<and> d \<le> de then 1 else 0))"
proof -
  let ?cur = "Date (yr ds) (mon ds) 1"
  have cur: "date_ok ?cur" "mday ?cur = 1" "mk_date (yr ds) (mon ds) 1 = Inr ?cur"
    using assms(1) by (auto simp: date_ok_def mk_date_def)
  have le: "?cur \<le> d" if "date_ok d" "ds \<le> d" for d
    using that by (auto simp: date_ok_def less_eq_date_def)
  obtain ys where ys: "month_slices_from ds de ?cur = Inr ys"
    using month_slices_total [OF cur(1, 2) assms(3)] by blast
  have part: "length (filter (covers_day d) ys) = (if ds \<le> d \<and> d \<le> de then 1 else 0)" if "date_ok d" for d
    using month_slices_partition [OF cur(1, 2) ys that] le [OF that] by auto
  have single: "length (filter (covers_day d) [(ds, de)]) = (if ds \<le> d \<and> d \<le> de then 1 else 0)" for d
    by (simp add: covers_day_def)
  have "calendar_month_datetime_slices ds de = Inr ys"
    by (simp only: calendar_month_datetime_slices_def cur(3) sbind_simps ys)
  then have "season_intervals ds de None = Inr ys \<or> season_intervals ds de None = Inr [(ds, de)]"
    by (simp add: season_intervals_def)
  then show ?thesis using part single by blast
qed

theorem month_intervals_partition_witness:
  "\<exists>xs. season_intervals (Date 2024 1 15) (Date 2024 3 10) None = Inr xs \<and> length (filter (covers_day (Date 2024 2 29)) xs) = 1"
  using month_intervals_partition [of "Date 2024 1 15" "Date 2024 3 10"]
  by (auto simp: date_ok_def days_in_month_def is_leap_def date_le)

section \<open>Seasons\<close>

definition wanted :: "string list \<Rightarrow> string set" where
  "wanted seasons = {py_strip (py_lower s) | s. s \<in> set seasons \<and> s \<noteq> []}"

definition in_season :: "string \<Rightarrow> nat \<Rightarrow> bool" where
  "in_season sn m \<longleftrightarrow> sn = ''spring'' \<and> 3 \<le> m \<and> m \<le> 5 \<or> sn = ''summer'' \<and> 6 \<le> m \<and> m \<le> 8 \<or>
     sn = ''autumn'' \<and> 9 \<le> m \<and> m \<le> 11 \<or> sn = ''winter'' \<and> (m = 12 \<or> m \<le> 2)"

text \<open>The days of a season as the code has it, for a range that starts in the year \<open>y0\<close>: of winter, January and February of
  the first year and the 29th of February are missing.\<close>

definition season_day :: "nat \<Rightarrow> string \<Rightarrow> date \<Rightarrow> bool" where
  "season_day y0 sn d \<longleftrightarrow> in_season sn (mon d) \<and>
     (sn = ''winter'' \<longrightarrow> mon d = 12 \<or> y0 < yr d \<and> \<not> (mon d = 2 \<and> mday d = 29))"

lemma concat_exn_Inr: "concat_exn xs = Inr ys \<Longrightarrow> (p \<in> set ys \<longleftrightarrow> (\<exists>a. Inr a \<in> set xs \<and> p \<in> set a)) \<and> (\<forall>x\<in>set xs. \<not> isl x)"
proof (induction xs arbitrary: ys)
  case (Cons x xs)
  then obtain a b where "x = Inr a" "concat_exn xs = Inr b" "ys = a @ b"
    by (auto simp: sbind_def split: sum.splits)
  with Cons.IH [of b] show ?case by auto
qed simp

lemma clip_days: "p \<in> set (clip ds de d1 d2) \<Longrightarrow> covers_day d p \<longleftrightarrow> ds \<le> d \<and> d \<le> de \<and> d1 \<le> d \<and> d \<le> d2"
  by (auto simp: clip_def covers_day_def split: if_splits)

lemma clip_nonempty: "ds \<le> d \<Longrightarrow> d \<le> de \<Longrightarrow> d1 \<le> d \<Longrightarrow> d \<le> d2 \<Longrightarrow> clip ds de d1 d2 \<noteq> []"
  by (auto simp: clip_def)

lemma mk_date_Inr: "mk_date y m d = Inr x \<longleftrightarrow> x = Date y m d \<and> date_ok (Date y m d)"
  by (auto simp: mk_date_def)

lemma last_of_month_eq: "m \<in> {5, 8, 11} \<Longrightarrow> last_of_month y m = days_in_month y m"
  by (auto simp: last_of_month_def days_in_month_def)

text \<open>The intervals of one season in one year.\<close>

lemma season_year_sound:
  assumes "season_slices_of_year ds de y sn = Inr xs" and "p \<in> set xs" and "covers_day d p" and d: "date_ok d" and "yr ds \<le> y"
  shows "ds \<le> d \<and> d \<le> de \<and> season_day (yr ds) sn d"
proof -
  have sn: "sn \<in> {''spring'', ''summer'', ''autumn'', ''winter''}"
    using assms(1, 2) by (auto simp: season_slices_of_year_def SEASON_MONTHS_def split: if_splits)
  show ?thesis
  proof (cases "sn = ''winter''")
    case True
    then have "p \<in> set (clip ds de (Date y 12 1) (Date y 12 31)) \<or> p \<in> set (clip ds de (Date (y + 1) 1 1) (Date (y + 1) 2 28))"
      using assms(1, 2) by (auto simp: season_slices_of_year_def SEASON_MONTHS_def sbind_def mk_date_Inr split: sum.splits)
    then show ?thesis
    proof
      assume "p \<in> set (clip ds de (Date y 12 1) (Date y 12 31))"
      then have c: "ds \<le> d" "d \<le> de" "Date y 12 1 \<le> d" "d \<le> Date y 12 31" using assms(3) by (simp_all add: clip_days)
      have "mon d \<le> 12" using d by (simp add: date_ok_def)
      then have "mon d = 12" using c(3, 4) unfolding date_le by linarith
      with c(1, 2) True show ?thesis by (simp add: in_season_def season_day_def)
    next
      assume "p \<in> set (clip ds de (Date (y + 1) 1 1) (Date (y + 1) 2 28))"
      then have c: "ds \<le> d" "d \<le> de" "Date (y + 1) 1 1 \<le> d" "d \<le> Date (y + 1) 2 28" using assms(3) by (simp_all add: clip_days)
      have "1 \<le> mon d" using d by (simp add: date_ok_def)
      moreover have "yr d = y + 1" "mon d \<le> 2" using c(3, 4) unfolding date_le by linarith+
      ultimately have "mon d = 1 \<or> mon d = 2" by linarith
      moreover have "mon d = 2 \<Longrightarrow> mday d \<le> 28" using c(4) \<open>yr d = y + 1\<close> unfolding date_le by linarith
      ultimately show ?thesis using c(1, 2) True \<open>yr d = y + 1\<close> assms(5) by (auto simp: in_season_def season_day_def)
    qed
  next
    case False
    obtain a b where ab: "map_of SEASON_MONTHS sn = Some (a, b)" "(a, b) \<in> {(3, 5), (6, 8), (9, 11)}"
      "in_season sn (mon d) \<longleftrightarrow> a \<le> mon d \<and> mon d \<le> b"
      using sn False by (elim insertE) (simp_all add: SEASON_MONTHS_def in_season_def)
    have "p \<in> set (clip ds de (Date y a 1) (Date y b (days_in_month y b)))"
      using assms(1, 2) ab(1, 2) False last_of_month_eq [of b y]
      by (auto simp: season_slices_of_year_def sbind_def mk_date_Inr split: sum.splits)
    then show ?thesis
      using assms(3) ab(3) False by (auto simp: clip_days season_day_def month_end [OF d] month_start [OF d, simplified])
  qed
qed

text \<open>The first day of an interval is a day it covers.\<close>

lemma season_year_start:
  assumes "season_slices_of_year ds de y sn = Inr xs" and "p \<in> set xs" and "date_ok ds"
  shows "date_ok (fst p) \<and> covers_day (fst p) p"
proof -
  have "\<exists>d1 d2. p \<in> set (clip ds de d1 d2) \<and> date_ok d1"
    using assms(1, 2)
    by (auto simp: season_slices_of_year_def sbind_def mk_date_Inr split: option.splits sum.splits prod.splits if_splits)
       blast+
  then show ?thesis using assms(3) by (auto simp: clip_def covers_day_def max_def split: if_splits)
qed

lemma season_year_complete:
  assumes "season_slices_of_year ds de (yr d) sn = Inr xs" and "ds \<le> d" and "d \<le> de" and d: "date_ok d"
    and "in_season sn (mon d)" and "sn \<noteq> ''winter''"
  shows "\<exists>p\<in>set xs. covers_day d p"
proof -
  obtain a b where ab: "map_of SEASON_MONTHS sn = Some (a, b)" "(a, b) \<in> {(3, 5), (6, 8), (9, 11)}" "a \<le> mon d" "mon d \<le> b"
    using assms(5, 6) by (auto simp: SEASON_MONTHS_def in_season_def)
  have xs: "xs = clip ds de (Date (yr d) a 1) (Date (yr d) b (days_in_month (yr d) b))"
    using assms(1) ab(1, 2) assms(6) last_of_month_eq [of b "yr d"]
    by (auto simp: season_slices_of_year_def sbind_def mk_date_Inr split: sum.splits)
  have "Date (yr d) a 1 \<le> d" "d \<le> Date (yr d) b (days_in_month (yr d) b)"
    using ab(3, 4) by (simp_all add: month_end [OF d] month_start [OF d, simplified])
  with assms(2, 3) clip_days [of _ ds de "Date (yr d) a 1" _ d] clip_nonempty [of ds d de] show ?thesis
    unfolding xs by (metis list.set_sel(1))
qed

lemma winter_year_complete:
  assumes "season_slices_of_year ds de y ''winter'' = Inr xs" and "ds \<le> d" and "d \<le> de"
    and "y = yr d \<and> mon d = 12 \<and> mday d \<le> 31 \<or> y + 1 = yr d \<and> mon d \<le> 2 \<and> \<not> (mon d = 2 \<and> mday d = 29)" and d: "date_ok d"
  shows "\<exists>p\<in>set xs. covers_day d p"
proof -
  have xs: "xs = clip ds de (Date y 12 1) (Date y 12 31) @ clip ds de (Date (y + 1) 1 1) (Date (y + 1) 2 28)"
    using assms(1) by (auto simp: season_slices_of_year_def SEASON_MONTHS_def sbind_def mk_date_Inr split: sum.splits)
  have b: "1 \<le> mon d" "1 \<le> mday d" "mday d \<le> days_in_month (yr d) (mon d)" using d by (auto simp: date_ok_def)
  from assms(4) show ?thesis
  proof
    assume y: "y = yr d \<and> mon d = 12 \<and> mday d \<le> 31"
    then have i: "Date y 12 1 \<le> d" "d \<le> Date y 12 31" using b by (auto simp: date_le)
    from clip_nonempty [OF assms(2, 3) i] obtain p where "p \<in> set (clip ds de (Date y 12 1) (Date y 12 31))" by (meson last_in_set)
    with clip_days [OF this, of d] i assms(2, 3) show ?thesis by (auto simp: xs)
  next
    assume y: "y + 1 = yr d \<and> mon d \<le> 2 \<and> \<not> (mon d = 2 \<and> mday d = 29)"
    have "mday d \<le> 29" if "mon d = 2" using b(3) that by (auto simp: days_in_month_def split: if_splits)
    then have i: "Date (y + 1) 1 1 \<le> d" "d \<le> Date (y + 1) 2 28" using y b by (auto simp: date_le)
    from clip_nonempty [OF assms(2, 3) i] obtain p where "p \<in> set (clip ds de (Date (y + 1) 1 1) (Date (y + 1) 2 28))"
      by (meson last_in_set)
    with clip_days [OF this, of d] i assms(2, 3) show ?thesis by (auto simp: xs)
  qed
qed

lemma season_slicesE:
  assumes "season_slices ds de seasons = Inr xs"
  shows "p \<in> set xs \<longleftrightarrow> (\<exists>y sn ys. yr ds \<le> y \<and> y \<le> yr de \<and> sn \<in> wanted seasons \<and> season_slices_of_year ds de y sn = Inr ys \<and> p \<in> set ys)"
    and "yr ds \<le> y \<Longrightarrow> y \<le> yr de \<Longrightarrow> sn \<in> wanted seasons \<Longrightarrow> \<exists>ys. season_slices_of_year ds de y sn = Inr ys"
    and "sorted (map fst xs)"
proof -
  define want where "want = remdups (map (\<lambda>s. py_strip (py_lower s)) (filter (\<lambda>s. s \<noteq> []) seasons))"
  let ?parts = "[season_slices_of_year ds de year sn. year \<leftarrow> [yr ds..<yr de + 1], sn \<leftarrow> want]"
  obtain zs where zs: "concat_exn ?parts = Inr zs" "xs = sort_key fst zs"
    using assms by (auto simp: season_slices_def Let_def sbind_def want_def split: sum.splits)
  have w: "set want = wanted seasons" by (auto simp: wanted_def want_def)
  have parts: "set ?parts = {season_slices_of_year ds de y sn | y sn. yr ds \<le> y \<and> y \<le> yr de \<and> sn \<in> wanted seasons}"
    unfolding w [symmetric] by (force simp: less_Suc_eq_le)
  note c = concat_exn_Inr [OF zs(1)]
  show "p \<in> set xs \<longleftrightarrow> (\<exists>y sn ys. yr ds \<le> y \<and> y \<le> yr de \<and> sn \<in> wanted seasons \<and> season_slices_of_year ds de y sn = Inr ys \<and> p \<in> set ys)"
  proof -
    have "p \<in> set xs \<longleftrightarrow> (\<exists>ys. Inr ys \<in> set ?parts \<and> p \<in> set ys)" using c [of p] by (simp only: zs(2) set_sort)
    then show ?thesis unfolding parts by (simp only: mem_Collect_eq) metis
  qed
  show "\<exists>ys. season_slices_of_year ds de y sn = Inr ys" if "yr ds \<le> y" "y \<le> yr de" "sn \<in> wanted seasons"
  proof -
    have "season_slices_of_year ds de y sn \<in> set ?parts" unfolding parts using that by blast
    then have "\<not> isl (season_slices_of_year ds de y sn)" using c by blast
    then show ?thesis by (metis isl_def sum.exhaust)
  qed
  show "sorted (map fst xs)" by (simp add: zs(2))
qed

lemma season_intervals_Some:
  "seasons \<noteq> [] \<Longrightarrow> season_intervals ds de (Some seasons) = Inr xs \<Longrightarrow>
     \<exists>ys. season_slices ds de seasons = Inr ys \<and> xs = (if ys = [] then [(ds, de)] else ys)"
  by (cases "season_slices ds de seasons") (simp_all add: season_intervals_def)

lemma season_slices_days:
  assumes "season_slices ds de seasons = Inr ys" and d: "date_ok d"
  shows "(\<exists>p\<in>set ys. covers_day d p) \<longleftrightarrow> ds \<le> d \<and> d \<le> de \<and> (\<exists>sn\<in>wanted seasons. season_day (yr ds) sn d)"
proof
  note E = season_slicesE [OF assms(1)]
  show "ds \<le> d \<and> d \<le> de \<and> (\<exists>sn\<in>wanted seasons. season_day (yr ds) sn d)" if "\<exists>p\<in>set ys. covers_day d p"
    using that E(1) season_year_sound [OF _ _ _ d] by metis
  assume s: "ds \<le> d \<and> d \<le> de \<and> (\<exists>sn\<in>wanted seasons. season_day (yr ds) sn d)"
  then obtain sn where sn: "sn \<in> wanted seasons" "season_day (yr ds) sn d" by blast
  have y: "yr ds \<le> yr d" "yr d \<le> yr de" using s by (auto simp: less_eq_date_def)
  define y where "y = (if sn = ''winter'' \<and> mon d \<noteq> 12 then yr d - 1 else yr d)"
  have y': "yr ds \<le> y" "y \<le> yr de" using y sn(2) by (auto simp: y_def season_day_def)
  obtain zs where zs: "season_slices_of_year ds de y sn = Inr zs" using E(2) [OF y' sn(1)] by blast
  have "\<exists>p\<in>set zs. covers_day d p"
  proof (cases "sn = ''winter''")
    case True
    have "mon d = 12 \<Longrightarrow> mday d \<le> 31" using d by (simp add: date_ok_def days_in_month_def)
    then have "y = yr d \<and> mon d = 12 \<and> mday d \<le> 31 \<or> y + 1 = yr d \<and> mon d \<le> 2 \<and> \<not> (mon d = 2 \<and> mday d = 29)"
      using True sn(2) by (auto simp: y_def season_day_def in_season_def)
    then show ?thesis using winter_year_complete [OF zs [unfolded True]] s d by blast
  next
    case False
    then show ?thesis using season_year_complete [of ds de d sn zs] zs s d sn(2) by (auto simp: y_def season_day_def)
  qed
  then show "\<exists>p\<in>set ys. covers_day d p" using E(1) zs y' sn(1) by metis
qed

lemma season_slices_start:
  assumes "season_slices ds de seasons = Inr ys" and "date_ok ds" and "p \<in> set ys"
  shows "date_ok (fst p) \<and> covers_day (fst p) p"
  using season_slicesE(1) [OF assms(1)] assms(3) season_year_start [OF _ _ assms(2)] by metis

text \<open>C40: With seasons, the intervals are sorted by start, and the days they search are exactly the days of the range in a wanted season
  as the code has it: all days of spring, summer and autumn, and of winter December and, after the first year of the range, January and
  February without the 29th. Only when the range has no such day at all, the whole range is searched.\<close>

theorem season_intervals_exact:
  assumes "seasons \<noteq> []" and "season_intervals ds de (Some seasons) = Inr xs" and "date_ok ds"
  defines "day d \<equiv> date_ok d \<and> ds \<le> d \<and> d \<le> de \<and> (\<exists>sn\<in>wanted seasons. season_day (yr ds) sn d)"
  shows "sorted (map fst xs) \<and>
    (if \<exists>d. day d then \<forall>d. date_ok d \<longrightarrow> ((\<exists>p\<in>set xs. covers_day d p) \<longleftrightarrow> day d) else xs = [(ds, de)])"
proof -
  obtain ys where ys: "season_slices ds de seasons = Inr ys" and xs: "xs = (if ys = [] then [(ds, de)] else ys)"
    using season_intervals_Some [OF assms(1, 2)] by blast
  have days: "(\<exists>p\<in>set ys. covers_day d p) \<longleftrightarrow> day d" if "date_ok d" for d
    using season_slices_days [OF ys that] that by (auto simp: day_def)
  have "(\<exists>d. day d) \<longleftrightarrow> ys \<noteq> []"
  proof
    show "ys \<noteq> []" if "\<exists>d. day d" using that days by (auto simp: day_def)
    assume "ys \<noteq> []"
    then obtain p where p: "p \<in> set ys" by (meson last_in_set)
    show "\<exists>d. day d" using season_slices_start [OF ys assms(3) p] days [of "fst p"] p by blast
  qed
  with days season_slicesE(3) [OF ys] show ?thesis by (auto simp: xs)
qed

text \<open>The intervals of a concrete range, computed.\<close>

lemmas season_eval = season_intervals_def season_slices_def season_slices_of_year_def SEASON_MONTHS_def mk_date_def date_ok_def
  days_in_month_def is_leap_def clip_def less_eq_date_def max_def min_def last_of_month_def

lemma season_names: "py_strip (py_lower ''Summer'') = ''summer''" "py_strip (py_lower ''winter'') = ''winter''"
  by code_simp+

theorem season_intervals_exact_witness:
  "\<exists>xs. season_intervals (Date 2024 1 1) (Date 2024 12 31) (Some [''Summer'']) = Inr xs \<and>
     (\<exists>p\<in>set xs. covers_day (Date 2024 7 14) p) \<and> \<not> (\<exists>p\<in>set xs. covers_day (Date 2024 5 14) p)"
proof -
  let ?xs = "[(Date 2024 6 1, Date 2024 8 31)]"
  have run: "season_intervals (Date 2024 1 1) (Date 2024 12 31) (Some [''Summer'']) = Inr ?xs"
    by (simp add: season_eval season_names)
  have w: "wanted [''Summer''] = {''summer''}" using season_names(1) by (auto simp: wanted_def)
  have ok: "date_ok (Date 2024 1 1)" "date_ok (Date 2024 7 14)" "date_ok (Date 2024 5 14)" by (simp_all add: season_eval)
  let ?day = "\<lambda>d. date_ok d \<and> Date 2024 1 1 \<le> d \<and> d \<le> Date 2024 12 31 \<and> (\<exists>sn\<in>wanted [''Summer'']. season_day (yr (Date 2024 1 1)) sn d)"
  have day: "?day (Date 2024 7 14)" "\<not> ?day (Date 2024 5 14)"
    using ok by (simp_all add: w season_day_def in_season_def date_le)
  then have "\<exists>d. ?day d" by blast
  with season_intervals_exact [OF _ run ok(1)] have "\<forall>d. date_ok d \<longrightarrow> ((\<exists>p\<in>set ?xs. covers_day d p) \<longleftrightarrow> ?day d)" by simp
  with day ok run show ?thesis by blast
qed

text \<open>A winter search over the year 2024 asks for December only: January and February of the first year of a range are
  never searched; and a search from June 2023 to June 2024 leaves out the 29th of February.\<close>

theorem winter_loses_january:
  "season_intervals (Date 2024 1 1) (Date 2024 12 31) (Some [''winter'']) = Inr [(Date 2024 12 1, Date 2024 12 31)] \<and>
   season_intervals (Date 2023 6 1) (Date 2024 6 1) (Some [''winter'']) =
     Inr [(Date 2023 12 1, Date 2023 12 31), (Date 2024 1 1, Date 2024 2 28)]"
  by (simp add: season_eval season_names)

end
