(* ===== verification/Mosaic_Cover.thy ===== *)
theory Mosaic_Cover
  imports Mosaic_Dates App_Settings "HOL-Library.Char_ord" "HOL-Library.List_Lexorder"
begin

text \<open>
  The choice of images in \<^verbatim>\<open>app/services/mosaic_plan.py\<close>: \<^verbatim>\<open>greedy_cover_aoi\<close> with its tie-breaks, the deduplication of candidates,
  and the choice of a seven-day window. Geometry is a parameter: a record of the Shapely operations, the spatial index, and the laws the
  code relies on as the locale \<open>planar_cover\<close> (a difference has the points of the one without the other, its area
  is smaller by the area of the intersection), interpreted on finite sets of grid cells. Floats are rationals; the
  time stamp of a naive date is read as UTC.

  The days of a window are day numbers (\<open>date_ordinal\<close>).

  Shown: the greedy cover picks candidates with different keys, each covering something new; what it reports as uncovered is exactly the area
  minus the footprints it picked, and its fraction lies between 0 and 1; when it stops early without a threshold no candidate
  it could see adds anything. The seven-day window is centred on an acquisition and no other such window has less cloud, or as little
  and more scenes.
\<close>

section \<open>Candidates\<close>

record 'g candidate =
  c_geom :: 'g
  c_key :: string
  c_cloud :: "rat option"
  c_dt :: "datetime option"

definition dt_date :: "datetime \<Rightarrow> date" where
  "dt_date d = Date (dt_year d) (dt_month d) (dt_day d)"

definition timestamp :: "datetime \<Rightarrow> rat" where
  "timestamp d = total_seconds (dt_micros d - dt_micros epoch)"

definition sort_key_lowest_cloud :: "'g candidate \<Rightarrow> rat \<times> string" where
  "sort_key_lowest_cloud c = (case c_cloud c of None \<Rightarrow> (10 ^ 9, c_key c) | Some cc \<Rightarrow> (cc, c_key c))"

definition sort_key_newest :: "'g candidate \<Rightarrow> rat \<times> string" where
  "sort_key_newest c = (case c_dt c of None \<Rightarrow> (- (10 ^ 9), c_key c) | Some d \<Rightarrow> (- timestamp d, c_key c))"

definition tuple_less :: "'a::linorder \<times> 'b::linorder \<Rightarrow> 'a \<times> 'b \<Rightarrow> bool" where
  "tuple_less a b \<longleftrightarrow> fst a < fst b \<or> fst a = fst b \<and> snd a < snd b"

definition greedy_pick_better :: "rat \<Rightarrow> rat \<Rightarrow> rat \<times> string \<Rightarrow> rat \<Rightarrow> rat \<Rightarrow> rat \<times> string \<Rightarrow> bool" where
  "greedy_pick_better g1 r1 t1 g2 r2 t2 =
     (if g1 > g2 + 1 / 10 ^ 12 then True
      else if g2 > g1 + 1 / 10 ^ 12 then False
      else if r1 > r2 + 1 / 10 ^ 15 then True
      else if r2 > r1 + 1 / 10 ^ 15 then False
      else tuple_less t1 t2)"

definition bounds_intersect :: "rat \<times> rat \<times> rat \<times> rat \<Rightarrow> rat \<times> rat \<times> rat \<times> rat \<Rightarrow> bool" where
  "bounds_intersect a b =
     (let (a0, a1, a2, a3) = a; (b0, b1, b2, b3) = b in \<not> (a2 \<le> b0 \<or> b2 \<le> a0 \<or> a3 \<le> b1 \<or> b3 \<le> a1))"

primrec dedupe_candidates_from :: "string list \<Rightarrow> 'g candidate list \<Rightarrow> 'g candidate list" where
  "dedupe_candidates_from seen [] = []"
| "dedupe_candidates_from seen (c # cs) =
     (if c_key c \<in> set seen then dedupe_candidates_from seen cs
      else c # dedupe_candidates_from (c_key c # seen) cs)"

definition dedupe_candidates_by_key :: "'g candidate list \<Rightarrow> 'g candidate list" where
  "dedupe_candidates_by_key cands = dedupe_candidates_from [] cands"

definition mean_cloud_candidates :: "'g candidate list \<Rightarrow> rat" where
  "mean_cloud_candidates cands =
     (let xs = List.map_filter c_cloud cands in if xs = [] then 50 else sum_list xs / of_nat (length xs))"

section \<open>Greedy cover\<close>

record 'g geo_ops =
  g_area :: "'g \<Rightarrow> rat"
  g_empty :: "'g \<Rightarrow> bool"
  g_inter :: "'g \<Rightarrow> 'g \<Rightarrow> exn + 'g"
  g_diff :: "'g \<Rightarrow> 'g \<Rightarrow> exn + 'g"
  g_bounds :: "'g \<Rightarrow> rat \<times> rat \<times> rat \<times> rat"
  g_wkb :: "'g \<Rightarrow> exn + string"
  g_query :: "'g list \<Rightarrow> 'g \<Rightarrow> exn + 'g list"

text \<open>The candidates of the geometries the index returns, found by the bytes of the geometry; any failure, or an empty
  answer, falls back to all candidates.\<close>

definition same_wkb :: "'g geo_ops \<Rightarrow> string \<Rightarrow> 'g candidate list \<Rightarrow> 'g candidate list" where
  "same_wkb G b cands = filter (\<lambda>c. g_wkb G (c_geom c) = Inr b) cands"

fun pool_of :: "'g geo_ops \<Rightarrow> 'g candidate list \<Rightarrow> 'g list \<Rightarrow> exn + 'g candidate list" where
  "pool_of G cands [] = Inr []"
| "pool_of G cands (g # gs) =
     sbind (g_wkb G g) (\<lambda>b. sbind (pool_of G cands gs) (\<lambda>rest. Inr (same_wkb G b cands @ rest)))"

definition candidate_pool :: "'g geo_ops \<Rightarrow> 'g candidate list \<Rightarrow> 'g \<Rightarrow> 'g candidate list" where
  "candidate_pool G cands remaining =
     (case sbind (g_query G (map c_geom cands) remaining) (pool_of G cands) of
        Inl _ \<Rightarrow> cands
      | Inr pool \<Rightarrow> if pool = [] then cands else pool)"

definition gain_of :: "'g geo_ops \<Rightarrow> 'g \<Rightarrow> 'g candidate \<Rightarrow> rat" where
  "gain_of G remaining c = (case g_inter G remaining (c_geom c) of Inl _ \<Rightarrow> 0 | Inr i \<Rightarrow> g_area G i)"

definition ratio_of :: "'g geo_ops \<Rightarrow> rat \<Rightarrow> 'g candidate \<Rightarrow> rat" where
  "ratio_of G gain c = (let ga = g_area G (c_geom c) in if ga > 1 / 10 ^ 20 then gain / ga else 0)"

type_synonym 'g best = "('g candidate \<times> rat \<times> rat \<times> (rat \<times> string)) option"

text \<open>The inner loop over the pool; \<open>seen\<close> are the keys in use or already met.\<close>

primrec pick_loop :: "'g geo_ops \<Rightarrow> ('g candidate \<Rightarrow> rat \<times> string) \<Rightarrow> 'g \<Rightarrow> string set \<Rightarrow> 'g best \<Rightarrow> 'g candidate list \<Rightarrow> 'g best" where
  "pick_loop G tie remaining seen best [] = best"
| "pick_loop G tie remaining seen best (c # pool) =
     (if c_key c \<in> seen then pick_loop G tie remaining seen best pool
      else
        let seen' = insert (c_key c) seen in
        if \<not> bounds_intersect (g_bounds G remaining) (g_bounds G (c_geom c)) then pick_loop G tie remaining seen' best pool
        else
          let gain = gain_of G remaining c in
          if gain \<le> 0 then pick_loop G tie remaining seen' best pool
          else
            let t = tie c; ratio = ratio_of G gain c;
                better = (case best of None \<Rightarrow> True | Some (_, g2, r2, t2) \<Rightarrow> greedy_pick_better gain ratio t g2 r2 t2)
            in pick_loop G tie remaining seen' (if better then Some (c, gain, ratio, t) else best) pool)"

text \<open>One value of the loop: the picked candidates and what is left of the area.\<close>

primrec greedy_loop ::
    "nat \<Rightarrow> 'g geo_ops \<Rightarrow> 'g candidate list \<Rightarrow> ('g candidate \<Rightarrow> rat \<times> string) \<Rightarrow> rat \<Rightarrow> rat \<Rightarrow> rat \<Rightarrow>
     'g candidate list \<Rightarrow> 'g \<Rightarrow> 'g candidate list \<times> 'g" where
  "greedy_loop 0 G cands tie aoi_area min_coverage margin selected remaining = (selected, remaining)"
| "greedy_loop (Suc n) G cands tie aoi_area min_coverage margin selected remaining =
     (let uncovered_frac = (if aoi_area > 0 then g_area G remaining / aoi_area else 0);
          rem_area = (if g_area G remaining > 0 then g_area G remaining else 0)
      in if uncovered_frac \<le> 1 - min_coverage \<or> g_empty G remaining then (selected, remaining)
         else if rem_area \<le> 0 then (selected, remaining)
         else case pick_loop G tie remaining (set (map c_key selected)) None (candidate_pool G cands remaining) of
             None \<Rightarrow> (selected, remaining)
           | Some (best, best_gain, _, _) \<Rightarrow>
               if length selected > 0 \<and> margin > 0 \<and> best_gain < rem_area * margin then (selected, remaining)
               else case g_diff G remaining (c_geom best) of
                   Inl _ \<Rightarrow> (selected @ [best], remaining)
                 | Inr rest \<Rightarrow>
                     if g_empty G rest then (selected @ [best], rest)
                     else greedy_loop n G cands tie aoi_area min_coverage margin (selected @ [best]) rest)"

definition marginal_fraction :: "settings \<Rightarrow> rat option \<Rightarrow> rat" where
  "marginal_fraction cfg f =
     (case f of
        None \<Rightarrow> max 0 (min 1 (mosaic_greedy_min_marginal_coverage_fraction cfg))
      | Some x \<Rightarrow> max 0 (min 1 x))"

definition greedy_cover_aoi ::
    "'g geo_ops \<Rightarrow> settings \<Rightarrow> 'g \<Rightarrow> 'g candidate list \<Rightarrow> string \<Rightarrow> rat \<Rightarrow> nat \<Rightarrow> rat option \<Rightarrow> 'g candidate list \<times> 'g option \<times> rat" where
  "greedy_cover_aoi G cfg aoi candidates sort_mode min_coverage max_iterations min_marginal =
     (if candidates = [] then ([], Some aoi, 1)
      else if g_area G aoi \<le> 0 then ([], Some aoi, 1)
      else
        let tie = (if sort_mode = ''lowest_cloud'' then sort_key_lowest_cloud else sort_key_newest);
            (selected, remaining) = greedy_loop max_iterations G candidates tie (g_area G aoi) min_coverage (marginal_fraction cfg min_marginal) [] aoi;
            uncovered_frac = (if g_area G aoi > 0 \<and> \<not> g_empty G remaining then g_area G remaining / g_area G aoi else 0)
        in (selected, if g_empty G remaining then None else Some remaining, uncovered_frac))"

section \<open>The seven-day window\<close>

definition add_days :: "date \<Rightarrow> int \<Rightarrow> int" where
  "add_days d k = int (date_ordinal d) + k"

definition candidate_in_date_window :: "'g candidate \<Rightarrow> int \<Rightarrow> int \<Rightarrow> bool" where
  "candidate_in_date_window c start stop =
     (case c_dt c of None \<Rightarrow> False | Some d \<Rightarrow> start \<le> int (date_ordinal (dt_date d)) \<and> int (date_ordinal (dt_date d)) \<le> stop)"

definition filter_candidates_to_date_window :: "'g candidate list \<Rightarrow> int \<Rightarrow> int \<Rightarrow> 'g candidate list" where
  "filter_candidates_to_date_window cands start stop = filter (\<lambda>c. candidate_in_date_window c start stop) cands"

definition window_key :: "'g candidate list \<Rightarrow> rat \<times> int" where
  "window_key in_win = (mean_cloud_candidates in_win, - int (length in_win))"

primrec window_loop :: "'g candidate list \<Rightarrow> ((int \<times> int) \<times> (rat \<times> int)) option \<Rightarrow> date list \<Rightarrow> ((int \<times> int) \<times> (rat \<times> int)) option" where
  "window_loop dated best [] = best"
| "window_loop dated best (anchor # anchors) =
     (let start = add_days anchor (- 3); stop = add_days anchor 3;
          in_win = filter_candidates_to_date_window dated start stop
      in if in_win = [] then window_loop dated best anchors
         else let key = window_key in_win
              in window_loop dated
                   (case best of
                      None \<Rightarrow> Some ((start, stop), key)
                    | Some (_, best_key) \<Rightarrow> if tuple_less key best_key then Some ((start, stop), key) else best) anchors)"

definition pick_best_seven_day_window_from_candidates :: "'g candidate list \<Rightarrow> (int \<times> int) option" where
  "pick_best_seven_day_window_from_candidates candidates =
     (let dated = filter (\<lambda>c. c_dt c \<noteq> None) candidates;
          anchor_dates = sort (remdups (map (\<lambda>c. dt_date (the (c_dt c))) dated))
      in map_option fst (window_loop dated None anchor_dates))"

section \<open>One pick\<close>

definition offers :: "'g geo_ops \<Rightarrow> 'g \<Rightarrow> 'g candidate \<Rightarrow> bool" where
  "offers G remaining c \<longleftrightarrow> bounds_intersect (g_bounds G remaining) (g_bounds G (c_geom c)) \<and> 0 < gain_of G remaining c"

definition best_ok :: "'g geo_ops \<Rightarrow> 'g \<Rightarrow> ('g candidate \<Rightarrow> bool) \<Rightarrow> 'g best \<Rightarrow> bool" where
  "best_ok G remaining P best \<longleftrightarrow> (\<forall>c g r t. best = Some (c, g, r, t) \<longrightarrow> P c \<and> offers G remaining c \<and> g = gain_of G remaining c)"

lemma pick_loop_step:
  "pick_loop G tie remaining seen best (c # pool) =
     pick_loop G tie remaining (insert (c_key c) seen)
       (if c_key c \<notin> seen \<and> offers G remaining c \<and>
           (case best of None \<Rightarrow> True | Some (_, g2, r2, t2) \<Rightarrow>
              greedy_pick_better (gain_of G remaining c) (ratio_of G (gain_of G remaining c) c) (tie c) g2 r2 t2)
        then Some (c, gain_of G remaining c, ratio_of G (gain_of G remaining c) c, tie c) else best) pool"
  by (simp add: offers_def Let_def insert_absorb not_le)

lemma pick_loop_ok:
  assumes "best_ok G remaining P best" and "\<And>c. c \<in> set pool \<Longrightarrow> c_key c \<notin> seen \<Longrightarrow> P c"
  shows "best_ok G remaining P (pick_loop G tie remaining seen best pool)"
  using assms
proof (induction pool arbitrary: seen best)
  case (Cons c pool)
  show ?case
    unfolding pick_loop_step
  proof (rule Cons.IH)
    show "P c'" if "c' \<in> set pool" "c_key c' \<notin> insert (c_key c) seen" for c' using that Cons.prems(2) by simp
  qed (use Cons.prems in \<open>auto simp: best_ok_def split: if_splits\<close>)
qed simp

lemma pick_loop_keeps: "best \<noteq> None \<Longrightarrow> pick_loop G tie remaining seen best pool \<noteq> None"
proof (induction pool arbitrary: seen best)
  case (Cons c pool)
  show ?case unfolding pick_loop_step by (rule Cons.IH) (use Cons.prems in \<open>auto split: if_split\<close>)
qed simp

text \<open>When nothing is picked, nothing was on offer under an unused key.\<close>

lemma pick_loop_None:
  "pick_loop G tie remaining seen None pool = None \<Longrightarrow> inj_on c_key (set pool) \<Longrightarrow> c \<in> set pool \<Longrightarrow> c_key c \<notin> seen \<Longrightarrow> \<not> offers G remaining c"
proof (induction pool arbitrary: seen)
  case (Cons d pool)
  have step: "pick_loop G tie remaining (insert (c_key d) seen)
      (if c_key d \<notin> seen \<and> offers G remaining d
       then Some (d, gain_of G remaining d, ratio_of G (gain_of G remaining d) d, tie d) else None) pool = None"
    using Cons.prems(1) unfolding pick_loop_step by simp
  have no: "\<not> (c_key d \<notin> seen \<and> offers G remaining d)"
  proof
    assume "c_key d \<notin> seen \<and> offers G remaining d"
    then have "pick_loop G tie remaining (insert (c_key d) seen)
        (Some (d, gain_of G remaining d, ratio_of G (gain_of G remaining d) d, tie d)) pool = None" using step by simp
    with pick_loop_keeps [of "Some (d, gain_of G remaining d, ratio_of G (gain_of G remaining d) d, tie d)"] show False by blast
  qed
  have rest: "pick_loop G tie remaining (insert (c_key d) seen) None pool = None" using step unfolding if_not_P [OF no] .
  show ?case
  proof (cases "c_key c = c_key d")
    case True
    then have "c = d" by (rule inj_onD [OF Cons.prems(2)]) (use Cons.prems(3) in simp_all)
    with no Cons.prems(4) show ?thesis by simp
  next
    case False
    then show ?thesis using Cons.IH [OF rest] Cons.prems by (auto simp: inj_on_def)
  qed
qed simp

section \<open>One turn\<close>

definition enough :: "'g geo_ops \<Rightarrow> rat \<Rightarrow> rat \<Rightarrow> 'g \<Rightarrow> bool" where
  "enough G aoi_area min_coverage a \<longleftrightarrow>
     (if aoi_area > 0 then g_area G a / aoi_area else 0) \<le> 1 - min_coverage \<or> g_empty G a \<or> g_area G a \<le> 0"

abbreviation next_pick :: "'g geo_ops \<Rightarrow> 'g candidate list \<Rightarrow> ('g candidate \<Rightarrow> rat \<times> string) \<Rightarrow> 'g candidate list \<Rightarrow> 'g \<Rightarrow> 'g best" where
  "next_pick G cands tie sel a \<equiv> pick_loop G tie a (set (map c_key sel)) None (candidate_pool G cands a)"

lemma greedy_loop_cases:
  assumes "greedy_loop (Suc n) G cands tie A mc m sel a = res"
  obtains (finished) "enough G A mc a" "res = (sel, a)"
    | (no_pick) "next_pick G cands tie sel a = None" "res = (sel, a)"
    | (too_little) best g r t where "next_pick G cands tie sel a = Some (best, g, r, t)" "sel \<noteq> []" "0 < m" "res = (sel, a)"
    | (failed) best g r t e where "next_pick G cands tie sel a = Some (best, g, r, t)" "g_diff G a (c_geom best) = Inl e" "res = (sel @ [best], a)"
    | (covered) best g r t d where "next_pick G cands tie sel a = Some (best, g, r, t)" "g_diff G a (c_geom best) = Inr d" "g_empty G d" "res = (sel @ [best], d)"
    | (more) best g r t d where "next_pick G cands tie sel a = Some (best, g, r, t)" "g_diff G a (c_geom best) = Inr d"
        "greedy_loop n G cands tie A mc m (sel @ [best]) d = res"
proof (cases "enough G A mc a")
  case True
  then have "res = (sel, a)" using assms by (auto simp: enough_def Let_def)
  with True show ?thesis by (rule finished)
next
  case nd: False
  show ?thesis
  proof (cases "next_pick G cands tie sel a")
    case None
    then have "res = (sel, a)" using assms nd by (simp add: enough_def Let_def)
    with None show ?thesis by (rule no_pick)
  next
    case (Some x)
    obtain best g r t where x: "x = (best, g, r, t)" by (cases x)
    note pick = Some [unfolded x]
    have eq: "res = (if sel \<noteq> [] \<and> 0 < m \<and> g < g_area G a * m then (sel, a)
        else case g_diff G a (c_geom best) of Inl _ \<Rightarrow> (sel @ [best], a)
          | Inr d \<Rightarrow> if g_empty G d then (sel @ [best], d) else greedy_loop n G cands tie A mc m (sel @ [best]) d)"
      using assms nd pick by (simp add: enough_def Let_def)
    show ?thesis
    proof (cases "sel \<noteq> [] \<and> 0 < m \<and> g < g_area G a * m")
      case True
      then show ?thesis using too_little [OF pick] eq by simp
    next
      case False
      then show ?thesis
        using eq failed [OF pick] covered [OF pick] more [OF pick] by (cases "g_diff G a (c_geom best)") (simp_all split: if_splits)
    qed
  qed
qed

section \<open>What the geometry must satisfy\<close>

locale planar_cover =
  fixes G :: "'g geo_ops" and pts :: "'g \<Rightarrow> 'p set"
  assumes area_nonneg: "0 \<le> g_area G a"
    and empty_pts: "g_empty G a \<longleftrightarrow> pts a = {}"
    and empty_area: "g_empty G a \<Longrightarrow> g_area G a = 0"
    and diff_pts: "g_diff G a b = Inr d \<Longrightarrow> pts d = pts a - pts b"
    and diff_area: "g_diff G a b = Inr d \<Longrightarrow> g_inter G a b = Inr i \<Longrightarrow> g_area G d = g_area G a - g_area G i"
    and bounds_area: "\<not> bounds_intersect (g_bounds G a) (g_bounds G b) \<Longrightarrow> g_inter G a b = Inr i \<Longrightarrow> g_area G i = 0"
    and query_hits: "g_query G gs a = Inr hits \<Longrightarrow> g \<in> set gs \<Longrightarrow> g_inter G a g = Inr i \<Longrightarrow> 0 < g_area G i \<Longrightarrow> g \<in> set hits"
begin

definition footprints :: "'g candidate list \<Rightarrow> 'p set" where
  "footprints sel = (\<Union>c\<in>set sel. pts (c_geom c))"

lemma offers_iff: "offers G a c \<longleftrightarrow> 0 < gain_of G a c"
proof
  assume "0 < gain_of G a c"
  then obtain i where "g_inter G a (c_geom c) = Inr i" "0 < g_area G i" by (auto simp: gain_of_def split: sum.splits)
  then have "bounds_intersect (g_bounds G a) (g_bounds G (c_geom c))" using bounds_area [of a "c_geom c" i] by auto
  with \<open>0 < gain_of G a c\<close> show "offers G a c" by (simp add: offers_def)
qed (simp add: offers_def)

lemma pool_of_subset: "pool_of G cands gs = Inr pool \<Longrightarrow> set pool \<subseteq> set cands"
  by (induction gs arbitrary: pool) (auto simp: sbind_def same_wkb_def split: sum.splits)

lemma pool_of_mem: "pool_of G cands gs = Inr pool \<Longrightarrow> c \<in> set cands \<Longrightarrow> c_geom c \<in> set gs \<Longrightarrow> c \<in> set pool"
proof (induction gs arbitrary: pool)
  case (Cons g gs)
  then obtain b rest where "g_wkb G g = Inr b" "pool_of G cands gs = Inr rest" "pool = same_wkb G b cands @ rest"
    by (auto simp: sbind_def split: sum.splits)
  with Cons show ?case by (auto simp: same_wkb_def)
qed simp

lemma pool_subset: "set (candidate_pool G cands a) \<subseteq> set cands"
proof (cases "sbind (g_query G (map c_geom cands) a) (pool_of G cands)")
  case (Inr pool)
  then obtain hits where "pool_of G cands hits = Inr pool" by (auto simp: sbind_def split: sum.splits)
  with pool_of_subset [OF this] show ?thesis by (simp add: candidate_pool_def Inr)
qed (simp add: candidate_pool_def)

lemma pool_offers:
  assumes "c \<in> set cands" and "0 < gain_of G a c"
  shows "c \<in> set (candidate_pool G cands a)"
proof (cases "g_query G (map c_geom cands) a")
  case (Inr hits)
  obtain i where "g_inter G a (c_geom c) = Inr i" "0 < g_area G i" using assms(2) by (auto simp: gain_of_def split: sum.splits)
  then have "c_geom c \<in> set hits" using query_hits [OF Inr] assms(1) by auto
  then show ?thesis
    using Inr assms(1) pool_of_mem [of cands hits _ c] by (auto simp: candidate_pool_def split: sum.splits)
qed (use assms(1) in \<open>simp add: candidate_pool_def\<close>)

text \<open>The pick of one turn.\<close>

lemma pick_some:
  assumes "pick_loop G tie a seen None (candidate_pool G cands a) = Some (best, g, r, t)"
  shows "best \<in> set cands" and "c_key best \<notin> seen" and "g = gain_of G a best" and "0 < g"
proof -
  have "best_ok G a (\<lambda>c. c \<in> set cands \<and> c_key c \<notin> seen) (pick_loop G tie a seen None (candidate_pool G cands a))"
    by (rule pick_loop_ok) (use pool_subset in \<open>auto simp: best_ok_def\<close>)
  then show "best \<in> set cands" "c_key best \<notin> seen" "g = gain_of G a best" "0 < g"
    using assms by (auto simp: best_ok_def offers_def)
qed

lemma pick_none:
  assumes "pick_loop G tie a seen None (candidate_pool G cands a) = None" and "distinct (map c_key cands)"
    and "c \<in> set cands" and "c_key c \<notin> seen"
  shows "gain_of G a c \<le> 0"
proof (rule ccontr)
  assume "\<not> gain_of G a c \<le> 0"
  then have g: "0 < gain_of G a c" by simp
  have "inj_on c_key (set (candidate_pool G cands a))"
    using assms(2) pool_subset by (auto simp: distinct_map intro: inj_on_subset)
  from pick_loop_None [OF assms(1) this pool_offers [OF assms(3) g] assms(4)] show False using g offers_iff by simp
qed

text \<open>The loop: what it keeps of the points, the area and the keys.\<close>

lemma greedy_loop_sound:
  assumes "greedy_loop n G cands tie A mc m sel a = (sel', a')"
  shows "\<exists>new. sel' = sel @ new \<and> set new \<subseteq> set cands \<and> length new \<le> n \<and> pts a - footprints new \<subseteq> pts a' \<and> pts a' \<subseteq> pts a \<and>
    g_area G a' \<le> g_area G a \<and> (distinct (map c_key sel) \<longrightarrow> distinct (map c_key sel')) \<and>
    ((\<forall>b c. \<not> isl (g_diff G b c)) \<longrightarrow> pts a' = pts a - footprints new)"
  using assms
proof (induction n arbitrary: sel a)
  case (Suc n)
  have stop: ?case if "(sel', a') = (sel, a)" using that by (auto simp: footprints_def)
  have best: "best \<in> set cands" "distinct (map c_key sel) \<longrightarrow> distinct (map c_key (sel @ [best]))"
    and area: "g_diff G a (c_geom best) = Inr d \<Longrightarrow> g_area G d \<le> g_area G a"
    if pick: "next_pick G cands tie sel a = Some (best, g, r, t)" for best g r t d
  proof -
    note p = pick_some [OF pick]
    show "best \<in> set cands" "distinct (map c_key sel) \<longrightarrow> distinct (map c_key (sel @ [best]))" using p by auto
    obtain i where "g_inter G a (c_geom best) = Inr i" using p(3, 4) by (auto simp: gain_of_def split: sum.splits)
    then show "g_diff G a (c_geom best) = Inr d \<Longrightarrow> g_area G d \<le> g_area G a"
      using diff_area [of a "c_geom best" d i] area_nonneg [of i] by simp
  qed
  have one: "footprints [best] = pts (c_geom best)" for best by (simp add: footprints_def)
  show ?case
    using Suc.prems
  proof (cases rule: greedy_loop_cases)
    case (failed best g r t e)
    then show ?thesis using best [OF failed(1)] one by (intro exI [of _ "[best]"]) (auto simp: isl_def)
  next
    case (covered best g r t d)
    then show ?thesis using best [OF covered(1)] area [OF covered(1, 2)] diff_pts [OF covered(2)] one
      by (intro exI [of _ "[best]"]) auto
  next
    case (more best g r t d)
    from Suc.IH [OF more(3)] obtain new where new: "sel' = (sel @ [best]) @ new" "set new \<subseteq> set cands" "length new \<le> n"
      "pts d - footprints new \<subseteq> pts a'" "pts a' \<subseteq> pts d" "g_area G a' \<le> g_area G d"
      "distinct (map c_key (sel @ [best])) \<longrightarrow> distinct (map c_key sel')"
      "(\<forall>b c. \<not> isl (g_diff G b c)) \<longrightarrow> pts a' = pts d - footprints new" by blast
    have "footprints (best # new) = pts (c_geom best) \<union> footprints new" by (simp add: footprints_def)
    then show ?thesis
      using new diff_pts [OF more(2)] area [OF more(1, 2)] best [OF more(1)] by (intro exI [of _ "best # new"]) auto
  qed (use stop in auto)
qed (auto simp: footprints_def)

text \<open>Without a threshold the loop stops only when enough is covered, when it has made all its turns, or when nothing unused adds area.\<close>

lemma greedy_loop_stops:
  assumes "greedy_loop n G cands tie A mc 0 sel a = (sel', a')" and "\<And>b c. \<not> isl (g_diff G b c)" and "distinct (map c_key cands)"
    and "set sel \<subseteq> set cands"
  shows "enough G A mc a' \<or> length sel' = length sel + n \<or> (\<forall>c\<in>set cands - set sel'. gain_of G a' c \<le> 0)"
  using assms(1, 4)
proof (induction n arbitrary: sel a)
  case (Suc n)
  show ?case
    using Suc.prems(1)
  proof (cases rule: greedy_loop_cases)
    case no_pick
    have "gain_of G a c \<le> 0" if "c \<in> set cands - set sel" for c
    proof (rule pick_none [OF no_pick(1) assms(3)])
      show "c \<in> set cands" using that by simp
      show "c_key c \<notin> set (map c_key sel)"
        using that Suc.prems(2) assms(3) by (auto simp: distinct_map inj_on_def)
    qed
    with no_pick(2) show ?thesis by simp
  next
    case (failed best g r t e)
    then show ?thesis using assms(2) [of a "c_geom best"] by simp
  next
    case (more best g r t d)
    have "set (sel @ [best]) \<subseteq> set cands" using Suc.prems(2) pick_some(1) [OF more(1)] by simp
    from Suc.IH [OF more(3) this] show ?thesis by simp
  qed (auto simp: enough_def)
qed simp

lemma greedy_sound:
  assumes "greedy_cover_aoi G cfg aoi cands mode mc n mm = (sel, rest, f)"
  shows "set sel \<subseteq> set cands \<and> distinct (map c_key sel) \<and> length sel \<le> n \<and> 0 \<le> f \<and> f \<le> 1 \<and>
    pts aoi - footprints sel \<subseteq> (case rest of None \<Rightarrow> {} | Some r \<Rightarrow> pts r) \<and>
    ((\<forall>b c. \<not> isl (g_diff G b c)) \<longrightarrow> (case rest of None \<Rightarrow> {} | Some r \<Rightarrow> pts r) = pts aoi - footprints sel)"
proof (cases "cands = [] \<or> g_area G aoi \<le> 0")
  case True
  then show ?thesis using assms by (auto simp: greedy_cover_aoi_def footprints_def split: if_splits)
next
  case False
  define tie where "tie = (if mode = ''lowest_cloud'' then sort_key_lowest_cloud else sort_key_newest :: 'g candidate \<Rightarrow> rat \<times> string)"
  obtain a where loop: "greedy_loop n G cands tie (g_area G aoi) mc (marginal_fraction cfg mm) [] aoi = (sel, a)"
      and rest: "rest = (if g_empty G a then None else Some a)" and f: "f = (if g_empty G a then 0 else g_area G a / g_area G aoi)"
    using assms False by (auto simp: greedy_cover_aoi_def Let_def tie_def [symmetric] split: prod.splits if_splits)
  note s = greedy_loop_sound [OF loop]
  have r: "(case rest of None \<Rightarrow> {} | Some r \<Rightarrow> pts r) = pts a" using rest empty_pts [of a] by simp
  have "0 \<le> f \<and> f \<le> 1" using s False area_nonneg [of a] by (auto simp: f)
  with s show ?thesis unfolding r by auto
qed

lemma greedy_complete:
  assumes "greedy_cover_aoi G cfg aoi cands mode mc n (Some 0) = (sel, Some a, f)" and "\<And>b c. \<not> isl (g_diff G b c)"
    and "distinct (map c_key cands)" and "cands \<noteq> []" and "0 < g_area G aoi" and "length sel < n" and "1 - mc < f" and "mc \<le> 1"
  shows "\<forall>c\<in>set cands - set sel. gain_of G a c \<le> 0"
proof -
  define tie where "tie = (if mode = ''lowest_cloud'' then sort_key_lowest_cloud else sort_key_newest :: 'g candidate \<Rightarrow> rat \<times> string)"
  have m: "marginal_fraction cfg (Some 0) = 0" by (simp add: marginal_fraction_def)
  have loop: "greedy_loop n G cands tie (g_area G aoi) mc 0 [] aoi = (sel, a)" and ne: "\<not> g_empty G a" and f: "f = g_area G a / g_area G aoi"
    using assms(1, 4, 5) by (auto simp: greedy_cover_aoi_def Let_def m tie_def [symmetric] split: prod.splits if_splits)
  have "0 < g_area G a"
  proof (rule ccontr)
    assume "\<not> 0 < g_area G a"
    then have "f \<le> 0" using assms(5) by (simp add: f divide_nonpos_pos)
    then show False using assms(7, 8) by linarith
  qed
  then have "\<not> enough G (g_area G aoi) mc a" using assms(5, 7) ne by (simp add: enough_def f)
  moreover have "length sel \<noteq> length ([] :: 'g candidate list) + n" using assms(6) by simp
  ultimately show ?thesis using greedy_loop_stops [OF loop assms(2, 3)] by simp
qed

end

section \<open>Grid cells\<close>

text \<open>Areas as lists of unit cells of a grid, by their lower left corners.\<close>

definition cell_bounds :: "(int \<times> int) list \<Rightarrow> rat \<times> rat \<times> rat \<times> rat" where
  "cell_bounds g =
     (if g = [] then (0, 0, 0, 0)
      else (of_int (Min (fst ` set g)), of_int (Min (snd ` set g)), of_int (Max (fst ` set g) + 1), of_int (Max (snd ` set g) + 1)))"

definition cell_ops :: "(int \<times> int) list geo_ops" where
  "cell_ops = \<lparr>g_area = (\<lambda>g. of_nat (card (set g))), g_empty = (\<lambda>g. g = []),
     g_inter = (\<lambda>a b. Inr (filter (\<lambda>x. x \<in> set b) a)), g_diff = (\<lambda>a b. Inr (filter (\<lambda>x. x \<notin> set b) a)),
     g_bounds = cell_bounds, g_wkb = (\<lambda>g. Inr (concat (map (\<lambda>p. int_str (fst p) @ '' '' @ int_str (snd p) @ '','') g))),
     g_query = (\<lambda>gs a. Inr (filter (\<lambda>g. \<exists>x\<in>set g. x \<in> set a) gs))\<rparr>"

lemma cell_bounds_meet: "x \<in> set a \<Longrightarrow> x \<in> set b \<Longrightarrow> bounds_intersect (cell_bounds a) (cell_bounds b)"
proof -
  assume x: "x \<in> set a" "x \<in> set b"
  have *: "Min (fst ` set c) \<le> fst x" "fst x \<le> Max (fst ` set c)" "Min (snd ` set c) \<le> snd x" "snd x \<le> Max (snd ` set c)"
    if "x \<in> set c" for c :: "(int \<times> int) list" using that by (auto intro: Min_le Max_ge)
  have "a \<noteq> []" "b \<noteq> []" using x by auto
  then show ?thesis using * [OF x(1)] * [OF x(2)] by (simp add: bounds_intersect_def cell_bounds_def Let_def not_le)
qed

interpretation cells: planar_cover cell_ops set
proof
  fix a b i :: "(int \<times> int) list"
  assume nb: "\<not> bounds_intersect (g_bounds cell_ops a) (g_bounds cell_ops b)" and i: "g_inter cell_ops a b = Inr i"
  have "i = []" using nb i cell_bounds_meet by (fastforce simp: cell_ops_def filter_empty_conv)
  then show "g_area cell_ops i = 0" by (simp add: cell_ops_def)
next
  fix a b d i :: "(int \<times> int) list"
  assume "g_diff cell_ops a b = Inr d" "g_inter cell_ops a b = Inr i"
  then have "set d = set a - set i" "set i \<subseteq> set a" by (auto simp: cell_ops_def)
  then show "g_area cell_ops d = g_area cell_ops a - g_area cell_ops i"
    by (simp add: cell_ops_def card_Diff_subset of_nat_diff card_mono)
next
  fix gs a hits g i
  assume "g_query cell_ops gs a = Inr hits" "g \<in> set gs" "g_inter cell_ops a g = Inr i" "0 < g_area cell_ops i"
  then have "set i \<noteq> {}" "set i \<subseteq> set g \<inter> set a" "hits = filter (\<lambda>g. \<exists>x\<in>set g. x \<in> set a) gs"
    by (auto simp: cell_ops_def card_gt_0_iff)
  then show "g \<in> set hits" using \<open>g \<in> set gs\<close> by (auto simp: neq_Nil_conv)
qed (auto simp: cell_ops_def)

section \<open>Properties of the cover\<close>

definition footprint_union :: "('g \<Rightarrow> 'p set) \<Rightarrow> 'g candidate list \<Rightarrow> 'p set" where
  "footprint_union pts sel = (\<Union>c\<in>set sel. pts (c_geom c))"

definition rest_points :: "('g \<Rightarrow> 'p set) \<Rightarrow> 'g option \<Rightarrow> 'p set" where
  "rest_points pts rest = (case rest of None \<Rightarrow> {} | Some r \<Rightarrow> pts r)"

text \<open>C30: The greedy cover picks some of the candidates, under different keys and no more than its number of turns; the fraction it
  reports lies between 0 and 1; every point of the area that no picked footprint covers is in the rest it returns, and when no difference fails the rest
  is exactly those points.\<close>

theorem greedy_cover_exact:
  assumes "planar_cover G pts" and "greedy_cover_aoi G cfg aoi cands mode mc n mm = (sel, rest, f)"
  shows "set sel \<subseteq> set cands \<and> distinct (map c_key sel) \<and> length sel \<le> n \<and> 0 \<le> f \<and> f \<le> 1 \<and>
    pts aoi - footprint_union pts sel \<subseteq> rest_points pts rest \<and>
    ((\<forall>b c. \<not> isl (g_diff G b c)) \<longrightarrow> rest_points pts rest = pts aoi - footprint_union pts sel)"
  using planar_cover.greedy_sound [OF assms] planar_cover.footprints_def [OF assms(1)]
  by (simp add: footprint_union_def rest_points_def)

text \<open>Two images over a row of three cells; the second one is enough.\<close>

definition two_images :: "(int \<times> int) list candidate list" where
  "two_images = [\<lparr>c_geom = [(0, 0)], c_key = ''a'', c_cloud = Some 10, c_dt = None\<rparr>,
     \<lparr>c_geom = [(0, 0), (1, 0), (2, 0)], c_key = ''b'', c_cloud = None, c_dt = None\<rparr>]"

theorem greedy_cover_exact_witness:
  "\<exists>sel rest f. greedy_cover_aoi cell_ops default_settings [(0, 0), (1, 0), (2, 0)] two_images ''lowest_cloud'' (995 / 1000) 500 None = (sel, rest, f) \<and>
     rest_points set rest = {(0, 0), (1, 0), (2, 0)} - footprint_union set sel"
proof -
  obtain sel rest f where r: "greedy_cover_aoi cell_ops default_settings [(0, 0), (1, 0), (2, 0)] two_images ''lowest_cloud'' (995 / 1000) 500 None = (sel, rest, f)"
    by (cases "greedy_cover_aoi cell_ops default_settings [(0, 0), (1, 0), (2, 0)] two_images ''lowest_cloud'' (995 / 1000) 500 None")
  have "\<forall>b c. \<not> isl (g_diff cell_ops b c)" by (simp add: cell_ops_def)
  with greedy_cover_exact [OF cells.planar_cover_axioms r] r show ?thesis by simp
qed

text \<open>Without a threshold on the marginal gain, a greedy cover that stops before its last turn with too much uncovered has left out only
  candidates that add no area to what it covers.\<close>

theorem greedy_cover_complete:
  assumes "planar_cover G pts" and "greedy_cover_aoi G cfg aoi cands mode mc n (Some 0) = (sel, Some rest, f)"
    and "\<forall>b c. \<not> isl (g_diff G b c)" and "distinct (map c_key cands)" and "cands \<noteq> []" and "0 < g_area G aoi"
    and "length sel < n" and "1 - mc < f" and "mc \<le> 1" and "c \<in> set cands - set sel"
  shows "gain_of G rest c \<le> 0"
  using planar_cover.greedy_complete [OF assms(1, 2) _ assms(4-9)] assms(3, 10) by blast

theorem greedy_cover_complete_witness:
  "\<exists>sel rest f. greedy_cover_aoi cell_ops default_settings [(0, 0), (1, 0)] [two_images ! 0] ''newest'' 1 5 (Some 0) = (sel, Some rest, f) \<and>
     1 - 1 < f \<and> (\<forall>c\<in>set [two_images ! 0] - set sel. gain_of cell_ops rest c \<le> 0)"
proof -
  have r: "greedy_cover_aoi cell_ops default_settings [(0, 0), (1, 0)] [two_images ! 0] ''newest'' 1 5 (Some 0) = ([two_images ! 0], Some [(1, 0)], 1 / 2)"
    by code_simp
  have "\<forall>b c. \<not> isl (g_diff cell_ops b c)" by (simp add: cell_ops_def)
  then have "gain_of cell_ops [(1, 0)] c \<le> 0" if "c \<in> set [two_images ! 0] - set [two_images ! 0]" for c
    by (rule greedy_cover_complete [OF cells.planar_cover_axioms r]) (use that in \<open>simp_all add: cell_ops_def\<close>)
  with r show ?thesis by (intro exI [of _ "[two_images ! 0]"] exI [of _ "[(1, 0)]"] exI [of _ "1 / 2"]) simp
qed

section \<open>The window\<close>

definition window_of :: "'g candidate list \<Rightarrow> date \<Rightarrow> 'g candidate list" where
  "window_of dated anchor = filter_candidates_to_date_window dated (add_days anchor (- 3)) (add_days anchor 3)"

lemma tuple_less_trans: "tuple_less a b \<Longrightarrow> tuple_less b c \<Longrightarrow> tuple_less a c" for a :: "'a::linorder \<times> 'b::linorder"
  by (auto simp: tuple_less_def)

lemma tuple_less_total: "\<not> tuple_less a b \<Longrightarrow> tuple_less a c \<Longrightarrow> tuple_less b c" for a :: "'a::linorder \<times> 'b::linorder"
  by (auto simp: tuple_less_def)

definition window_best :: "'g candidate list \<Rightarrow> date set \<Rightarrow> ((int \<times> int) \<times> (rat \<times> int)) option \<Rightarrow> bool" where
  "window_best dated A best \<longleftrightarrow>
     (case best of
        None \<Rightarrow> \<forall>a\<in>A. window_of dated a = []
      | Some (w, k) \<Rightarrow> (\<exists>a\<in>A. w = (add_days a (- 3), add_days a 3) \<and> window_of dated a \<noteq> [] \<and> k = window_key (window_of dated a)) \<and>
          (\<forall>a\<in>A. window_of dated a \<noteq> [] \<longrightarrow> \<not> tuple_less (window_key (window_of dated a)) k))"

lemma window_loop_best:
  "window_best dated A best \<Longrightarrow> window_best dated (A \<union> set anchors) (window_loop dated best anchors)"
proof (induction anchors arbitrary: A best)
  case (Cons a anchors)
  let ?k = "window_key (window_of dated a)"
  define best' where "best' = (if window_of dated a = [] then best else case best of
      None \<Rightarrow> Some ((add_days a (- 3), add_days a 3), ?k)
    | Some (_, bk) \<Rightarrow> if tuple_less ?k bk then Some ((add_days a (- 3), add_days a 3), ?k) else best)"
  have loop: "window_loop dated best (a # anchors) = window_loop dated best' anchors"
    by (cases best) (auto simp: best'_def window_of_def Let_def)
  have "window_best dated (insert a A) best'"
  proof (cases best)
    case None
    then show ?thesis using Cons.prems by (auto simp: window_best_def best'_def tuple_less_def)
  next
    case (Some x)
    obtain w k where x: "x = (w, k)" by (cases x)
    show ?thesis
    proof (cases "window_of dated a \<noteq> [] \<and> tuple_less ?k k")
      case True
      then have "\<not> tuple_less (window_key (window_of dated b)) ?k" if "b \<in> A" "window_of dated b \<noteq> []" for b
        using Cons.prems that tuple_less_trans [of "window_key (window_of dated b)" ?k k] by (auto simp: window_best_def Some x)
      with True show ?thesis by (auto simp: window_best_def best'_def Some x tuple_less_def)
    next
      case False
      then have "best' = best" by (auto simp: best'_def Some x)
      with Cons.prems False show ?thesis by (auto simp: window_best_def Some x)
    qed
  qed
  from Cons.IH [OF this] show ?case unfolding loop by simp
qed simp

text \<open>The seven-day window is chosen well: there is one as soon as a candidate has a date; it spans three days around an acquisition, and no
  window around another acquisition has a lower mean cloud cover, or the same and more scenes.\<close>

theorem seven_day_window_best:
  fixes candidates :: "'g candidate list"
  defines "dated \<equiv> filter (\<lambda>c. c_dt c \<noteq> None) candidates"
  assumes "c \<in> set candidates" and "c_dt c = Some d"
  shows "\<exists>anchor. anchor \<in> (\<lambda>c. dt_date (the (c_dt c))) ` set dated \<and>
    pick_best_seven_day_window_from_candidates candidates = Some (add_days anchor (- 3), add_days anchor 3) \<and>
    \<not> tuple_less (window_key (window_of dated (dt_date d))) (window_key (window_of dated anchor))"
proof -
  let ?A = "(\<lambda>c. dt_date (the (c_dt c))) ` set dated"
  let ?loop = "window_loop dated None (sort (remdups (map (\<lambda>c. dt_date (the (c_dt c))) dated)))"
  have best: "window_best dated ?A ?loop"
    using window_loop_best [of dated "{}" None "sort (remdups (map (\<lambda>c. dt_date (the (c_dt c))) dated))"] by (simp add: window_best_def)
  have c: "c \<in> set dated" using assms by simp
  have d: "dt_date d \<in> ?A" using c assms(3) by force
  have w: "window_of dated (dt_date d) \<noteq> []"
    using c assms(3) by (auto simp: window_of_def filter_candidates_to_date_window_def candidate_in_date_window_def add_days_def filter_empty_conv
        intro!: bexI [of _ c])
  have p: "pick_best_seven_day_window_from_candidates candidates = map_option fst ?loop"
    by (simp add: pick_best_seven_day_window_from_candidates_def dated_def Let_def)
  obtain x k where loop: "?loop = Some (x, k)" using best d w by (auto simp: window_best_def split: option.splits)
  then have "(\<exists>a\<in>?A. x = (add_days a (- 3), add_days a 3) \<and> window_of dated a \<noteq> [] \<and> k = window_key (window_of dated a)) \<and>
      (\<forall>a\<in>?A. window_of dated a \<noteq> [] \<longrightarrow> \<not> tuple_less (window_key (window_of dated a)) k)"
    using best unfolding window_best_def by simp
  then obtain a where "a \<in> ?A" "x = (add_days a (- 3), add_days a 3)" "k = window_key (window_of dated a)"
    and "\<not> tuple_less (window_key (window_of dated (dt_date d))) k"
    using d w by blast
  then show ?thesis using p loop by (intro exI [of _ a]) simp
qed

theorem seven_day_window_best_witness:
  "let c = \<lparr>c_geom = (), c_key = ''a'', c_cloud = Some 10, c_dt = Some epoch\<rparr> in
   pick_best_seven_day_window_from_candidates [c] = Some (add_days (dt_date epoch) (- 3), add_days (dt_date epoch) 3)"
proof -
  define c where "c = \<lparr>c_geom = (), c_key = ''a'', c_cloud = Some 10, c_dt = Some epoch\<rparr>"
  have "c_dt c = Some epoch" by (simp add: c_def)
  with seven_day_window_best [of c "[c]" epoch] show ?thesis unfolding Let_def c_def [symmetric] by auto
qed

end
