(* ===== verification/Mosaic_Jobs.thy ===== *)
theory Mosaic_Jobs
  imports Job_Store
begin

text \<open>
  The queue and status store of mosaic planner jobs (\<^verbatim>\<open>app/services/mosaic_plan_jobs.py\<close>): a plan job is a Redis hash and a
  message on the plan queue; a plan splits into subtasks (STAC searches) and footprint subtasks, each a hash, a message on its
  queue and a result on the result list of its round or batch. The world adds the readings of \<^verbatim>\<open>time.monotonic()\<close> and the
  table \<^verbatim>\<open>_LAST_PROGRESS_WRITE_TS\<close> of the process. \<open>sha256\<close> is the hexadecimal digest, a parameter. Free-form Python values (a
  result, a path, the coordinates of a box) are JSON documents.

  Shown: a queued job is read back as pending with its message, and its result as it was stored; a subtask is
  queued once however often it is asked for; the results of a round are handed out one by one, last in first out, and
  none is lost.
\<close>

section \<open>The world\<close>

record 's menv = "'s env" +
  mono_time :: "nat \<Rightarrow> rat"
  mono_n :: nat
  last_progress :: "(string \<times> rat) list"

definition menv0 :: "'s \<Rightarrow> 's menv" where
  "menv0 s = \<lparr>rds = s, clock = noon, ticks = 0, uuids = (\<lambda>n. ''job'' @ nat_str n), uuid_n = 0,
     mono_time = (\<lambda>n. of_nat n), mono_n = 0, last_progress = []\<rparr>"

definition time_monotonic :: "(('s, 'z) menv_scheme, rat) prog" where
  "time_monotonic w = (Inr (mono_time w (mono_n w)), w\<lparr>mono_n := Suc (mono_n w)\<rparr>)"

section \<open>Keys\<close>

definition MOSAIC_PLAN_QUEUE_KEY :: string where
  "MOSAIC_PLAN_QUEUE_KEY = ''geofastmap:mosaic_plan_queue''"

definition MOSAIC_PLAN_JOB_KEY_PREFIX :: string where
  "MOSAIC_PLAN_JOB_KEY_PREFIX = ''geofastmap:mosaic_plan_job:''"

definition MOSAIC_PLAN_SUBTASK_QUEUE_KEY :: string where
  "MOSAIC_PLAN_SUBTASK_QUEUE_KEY = ''geofastmap:mosaic_plan_subtask_queue''"

definition MOSAIC_PLAN_SUBTASK_KEY_PREFIX :: string where
  "MOSAIC_PLAN_SUBTASK_KEY_PREFIX = ''geofastmap:mosaic_plan_subtask:''"

definition MOSAIC_PLAN_SUBTASK_RESULT_KEY :: string where
  "MOSAIC_PLAN_SUBTASK_RESULT_KEY = ''geofastmap:mosaic_plan_subtask_result:''"

definition MOSAIC_PLAN_FOOTPRINT_SUBTASK_QUEUE_KEY :: string where
  "MOSAIC_PLAN_FOOTPRINT_SUBTASK_QUEUE_KEY = ''geofastmap:mosaic_footprint_subtask_queue''"

definition MOSAIC_PLAN_FOOTPRINT_SUBTASK_KEY_PREFIX :: string where
  "MOSAIC_PLAN_FOOTPRINT_SUBTASK_KEY_PREFIX = ''geofastmap:mosaic_footprint_subtask:''"

definition MOSAIC_PLAN_FOOTPRINT_SUBTASK_RESULT_KEY :: string where
  "MOSAIC_PLAN_FOOTPRINT_SUBTASK_RESULT_KEY = ''geofastmap:mosaic_footprint_subtask_result:''"

lemmas mosaic_key_defs = MOSAIC_PLAN_QUEUE_KEY_def MOSAIC_PLAN_JOB_KEY_PREFIX_def MOSAIC_PLAN_SUBTASK_QUEUE_KEY_def
  MOSAIC_PLAN_SUBTASK_KEY_PREFIX_def MOSAIC_PLAN_SUBTASK_RESULT_KEY_def MOSAIC_PLAN_FOOTPRINT_SUBTASK_QUEUE_KEY_def
  MOSAIC_PLAN_FOOTPRINT_SUBTASK_KEY_PREFIX_def MOSAIC_PLAN_FOOTPRINT_SUBTASK_RESULT_KEY_def

definition mosaic_job_key :: "string \<Rightarrow> string" where
  "mosaic_job_key job_id = MOSAIC_PLAN_JOB_KEY_PREFIX @ job_id"

definition subtask_key :: "string \<Rightarrow> string" where
  "subtask_key task_id = MOSAIC_PLAN_SUBTASK_KEY_PREFIX @ task_id"

definition subtask_result_key :: "string \<Rightarrow> int \<Rightarrow> string" where
  "subtask_result_key job_id round_idx = MOSAIC_PLAN_SUBTASK_RESULT_KEY @ job_id @ '':'' @ int_str round_idx"

definition footprint_subtask_key :: "string \<Rightarrow> string" where
  "footprint_subtask_key task_id = MOSAIC_PLAN_FOOTPRINT_SUBTASK_KEY_PREFIX @ task_id"

definition footprint_subtask_result_key :: "string \<Rightarrow> int \<Rightarrow> string" where
  "footprint_subtask_result_key job_id batch_idx = MOSAIC_PLAN_FOOTPRINT_SUBTASK_RESULT_KEY @ job_id @ '':'' @ int_str batch_idx"

definition to_iso_now :: "(('s, 'z) env_scheme, string) prog" where
  "to_iso_now = bnd utcnow (\<lambda>t. ret (iso_z t))"

section \<open>Plan jobs\<close>

definition plan_job_message :: "string \<Rightarrow> int \<Rightarrow> (string \<times> json) list \<Rightarrow> json" where
  "plan_job_message job_id owner_id body = JObj [(''job_id'', JStr job_id), (''owner_id'', JInt owner_id), (''body'', JObj body)]"

definition plan_job_mapping :: "string \<Rightarrow> string \<Rightarrow> int \<Rightarrow> (string \<times> json) list \<Rightarrow> (string \<times> string) list" where
  "plan_job_mapping now job_id owner_id body =
     [(''job_id'', job_id), (''owner_id'', int_str owner_id), (''status'', ''pending''), (''message'', ''Queued''),
      (''created_at'', now), (''updated_at'', now), (''payload'', dumps_compact (plan_job_message job_id owner_id body))]"

definition enqueue_mosaic_plan_job ::
    "'s redis \<Rightarrow> settings \<Rightarrow> (string \<times> json) list \<Rightarrow> int \<Rightarrow> (('s, 'z) env_scheme, string) prog" where
  "enqueue_mosaic_plan_job srv cfg body owner_id =
     bnd uuid4 (\<lambda>job_id.
     bnd to_iso_now (\<lambda>now.
     bnd (run_redis_retry cfg None
       (bnd (r_hset srv (mosaic_job_key job_id) (plan_job_mapping now job_id owner_id body)) (\<lambda>_.
        bnd (r_expire srv (mosaic_job_key job_id) 86400) (\<lambda>_.
        r_lpush srv MOSAIC_PLAN_QUEUE_KEY (dumps_compact (plan_job_message job_id owner_id body)))))) (\<lambda>_.
     ret job_id)))"

definition set_mosaic_plan_job_status ::
    "'s redis \<Rightarrow> string \<Rightarrow> string \<Rightarrow> string option \<Rightarrow> (('s, 'z) env_scheme, unit) prog" where
  "set_mosaic_plan_job_status srv job_id status message =
     bnd to_iso_now (\<lambda>now.
     let m1 = [(''status'', status), (''updated_at'', now)] @ (case message of None \<Rightarrow> [] | Some m \<Rightarrow> [(''message'', m)]) in
     bnd (if status \<in> set [''completed'', ''failed'', ''cancelled'']
          then bnd to_iso_now (\<lambda>t. ret (m1 @ [(''finished_at'', t)]))
          else ret m1) (\<lambda>mapping.
     bnd (r_hset srv (mosaic_job_key job_id) mapping) (\<lambda>_. ret ())))"

text \<open>The keyword arguments of a progress report, \<^verbatim>\<open>None\<close> as \<open>JNull\<close>.\<close>

definition progress_fields :: "(string \<times> json) list \<Rightarrow> (string \<times> string) list" where
  "progress_fields flds =
     map (\<lambda>(k, v). (k, case v of JObj _ \<Rightarrow> dumps_compact v | JArr _ \<Rightarrow> dumps_compact v | _ \<Rightarrow> py_str v))
       (filter (\<lambda>(k, v). v \<noteq> JNull) flds)"

definition set_mosaic_plan_job_progress ::
    "'s redis \<Rightarrow> settings \<Rightarrow> string \<Rightarrow> (string \<times> json) list \<Rightarrow> (('s, 'z) menv_scheme, unit) prog" where
  "set_mosaic_plan_job_progress srv cfg job_id flds =
     bnd time_monotonic (\<lambda>now_mono.
     let min_interval = max (1 / 2) (of_int (or_default (mosaic_job_heartbeat_seconds cfg) 10) / 4);
         has_important = list_ex (\<lambda>k. k \<in> fst ` set flds) [''phase'', ''round'', ''children_done'', ''children_failed''] in
     bnd (gets (\<lambda>w. or_else (map_of (last_progress w) job_id) 0)) (\<lambda>last.
     if \<not> has_important \<and> now_mono - last < min_interval then ret ()
     else
       bnd to_iso_now (\<lambda>now.
       bnd (r_hset srv (mosaic_job_key job_id) ((''updated_at'', now) # progress_fields flds)) (\<lambda>_.
       modify (\<lambda>w. w\<lparr>last_progress := AList.update job_id now_mono (last_progress w)\<rparr>)))))"

definition set_mosaic_plan_job_result ::
    "'s redis \<Rightarrow> string \<Rightarrow> json \<Rightarrow> string \<Rightarrow> string option \<Rightarrow> (('s, 'z) env_scheme, unit) prog" where
  "set_mosaic_plan_job_result srv job_id result status message =
     bnd to_iso_now (\<lambda>updated_at.
     bnd to_iso_now (\<lambda>finished_at.
     bnd (r_hset srv (mosaic_job_key job_id)
       [(''status'', status), (''updated_at'', updated_at), (''finished_at'', finished_at),
        (''result'', dumps_compact result),
        (''message'', if or_else message [] \<noteq> [] then or_else message []
           else if status = ''completed_with_errors'' then ''Completed with warnings'' else ''Completed'')]) (\<lambda>_.
     ret ())))"

definition set_mosaic_plan_job_error :: "'s redis \<Rightarrow> string \<Rightarrow> string \<Rightarrow> (('s, 'z) env_scheme, unit) prog" where
  "set_mosaic_plan_job_error srv job_id message =
     bnd to_iso_now (\<lambda>updated_at.
     bnd to_iso_now (\<lambda>finished_at.
     bnd (r_hset srv (mosaic_job_key job_id)
       [(''status'', ''failed''), (''updated_at'', updated_at), (''finished_at'', finished_at), (''message'', take 2000 message)]) (\<lambda>_.
     ret ())))"

definition PROGRESS_KEYS :: "string list" where
  "PROGRESS_KEYS = [''phase'', ''round'', ''rounds_max'', ''features_seen'', ''retry_after_seconds'', ''children_total'',
     ''children_done'', ''children_failed'']"

definition progress_value :: "string \<Rightarrow> string \<Rightarrow> json" where
  "progress_value k v =
     (if k \<in> set (tl PROGRESS_KEYS) then (case py_int v of Inl _ \<Rightarrow> JStr v | Inr i \<Rightarrow> JInt i) else JStr v)"

definition document_field :: "(string \<times> string) list \<Rightarrow> string \<Rightarrow> (string \<times> json) list" where
  "document_field raw k =
     (case field_of raw k of None \<Rightarrow> [] | Some s \<Rightarrow> (case loads s of Inl _ \<Rightarrow> [] | Inr j \<Rightarrow> [(k, j)]))"

definition job_document :: "string \<Rightarrow> (string \<times> string) list \<Rightarrow> exn + (string \<times> json) list" where
  "job_document job_id raw =
     sbind (case field_of raw ''owner_id'' of None \<Rightarrow> Inr 0 | Some s \<Rightarrow> py_int s) (\<lambda>owner_id.
     Inr ([(''job_id'', JStr (or_else (field_of raw ''job_id'') job_id)), (''owner_id'', JInt owner_id),
           (''status'', JStr (or_else (field_of raw ''status'') ''unknown'')),
           (''message'', JStr (or_else (field_of raw ''message'') [])),
           (''created_at'', opt_json JStr (map_of raw ''created_at'')),
           (''updated_at'', opt_json JStr (map_of raw ''updated_at'')),
           (''finished_at'', opt_json JStr (map_of raw ''finished_at''))]
          @ document_field raw ''result'' @ document_field raw ''payload''
          @ List.map_filter (\<lambda>k. map_option (\<lambda>v. (k, progress_value k v)) (map_of raw k)) PROGRESS_KEYS))"

definition get_mosaic_plan_job :: "'s redis \<Rightarrow> string \<Rightarrow> (('s, 'z) env_scheme, (string \<times> json) list option) prog" where
  "get_mosaic_plan_job srv job_id =
     bnd (r_hgetall srv (mosaic_job_key job_id)) (\<lambda>raw.
     if raw = [] then ret None
     else bnd (lift_exn (job_document job_id raw)) (\<lambda>out. ret (Some out)))"

section \<open>Subtasks\<close>

definition mosaic_task_id :: "(string \<Rightarrow> string) \<Rightarrow> string \<Rightarrow> int \<Rightarrow> string \<Rightarrow> string" where
  "mosaic_task_id sha256 job_id round_idx shard_key =
     take 32 (sha256 (job_id @ '':'' @ int_str round_idx @ '':'' @ shard_key))"

text \<open>The part the two kinds of subtasks share: unless the hash exists already, write it, let it expire and push the
  message.\<close>

definition create_subtask ::
    "'s redis \<Rightarrow> string \<Rightarrow> string \<Rightarrow> (string \<Rightarrow> (string \<times> string) list) \<Rightarrow> json \<Rightarrow> int \<Rightarrow> (('s, 'z) env_scheme, unit) prog" where
  "create_subtask srv tkey queue mapping body ttl_seconds =
     bnd (r_exists srv tkey) (\<lambda>n.
     if n \<noteq> 0 then ret ()
     else
       bnd to_iso_now (\<lambda>now.
       bnd (r_hset srv tkey (mapping now @ [(''payload'', dumps_compact body)])) (\<lambda>_.
       bnd (r_expire srv tkey ttl_seconds) (\<lambda>_.
       bnd (r_lpush srv queue (dumps_compact body)) (\<lambda>_. ret ())))))"

definition subtask_message :: "string \<Rightarrow> string \<Rightarrow> int \<Rightarrow> int \<Rightarrow> string \<Rightarrow> json \<Rightarrow> json" where
  "subtask_message task_id job_id owner_id round_idx shard_key payload =
     JObj [(''task_id'', JStr task_id), (''job_id'', JStr job_id), (''owner_id'', JInt owner_id), (''round_idx'', JInt round_idx),
           (''shard_key'', JStr shard_key), (''payload'', payload)]"

definition enqueue_mosaic_plan_subtask ::
    "(string \<Rightarrow> string) \<Rightarrow> 's redis \<Rightarrow> string \<Rightarrow> int \<Rightarrow> int \<Rightarrow> string \<Rightarrow> json \<Rightarrow> int \<Rightarrow> (('s, 'z) env_scheme, string) prog" where
  "enqueue_mosaic_plan_subtask sha256 srv job_id owner_id round_idx shard_key payload ttl_seconds =
     (let task_id = mosaic_task_id sha256 job_id round_idx shard_key in
      bnd (create_subtask srv (subtask_key task_id) MOSAIC_PLAN_SUBTASK_QUEUE_KEY
        (\<lambda>now. [(''task_id'', task_id), (''job_id'', job_id), (''owner_id'', int_str owner_id), (''round_idx'', int_str round_idx),
           (''shard_key'', shard_key), (''status'', ''pending''), (''created_at'', now), (''updated_at'', now)])
        (subtask_message task_id job_id owner_id round_idx shard_key payload) ttl_seconds) (\<lambda>_.
      ret task_id))"

definition set_subtask_status :: "'s redis \<Rightarrow> string \<Rightarrow> string \<Rightarrow> string option \<Rightarrow> (('s, 'z) env_scheme, unit) prog" where
  "set_subtask_status srv tkey status message =
     bnd to_iso_now (\<lambda>now.
     bnd (r_hset srv tkey ([(''status'', status), (''updated_at'', now)] @
       (case message of None \<Rightarrow> [] | Some m \<Rightarrow> [(''message'', take 500 m)]))) (\<lambda>_. ret ()))"

definition set_mosaic_plan_subtask_status ::
    "'s redis \<Rightarrow> string \<Rightarrow> string \<Rightarrow> string option \<Rightarrow> (('s, 'z) env_scheme, unit) prog" where
  "set_mosaic_plan_subtask_status srv task_id status message = set_subtask_status srv (subtask_key task_id) status message"

text \<open>Storing a result: the hash first, then the list of results.\<close>

definition report_result ::
    "'s redis \<Rightarrow> string \<Rightarrow> string \<Rightarrow> string \<Rightarrow> json \<Rightarrow> json \<Rightarrow> (('s, 'z) env_scheme, unit) prog" where
  "report_result srv tkey result_key status result entry =
     bnd to_iso_now (\<lambda>updated_at.
     bnd to_iso_now (\<lambda>finished_at.
     bnd (r_hset srv tkey
       [(''status'', status), (''updated_at'', updated_at), (''finished_at'', finished_at), (''result'', dumps_compact result)]) (\<lambda>_.
     bnd (r_rpush srv result_key (dumps_compact entry)) (\<lambda>_. ret ()))))"

definition subtask_result_entry :: "string \<Rightarrow> string \<Rightarrow> json \<Rightarrow> json" where
  "subtask_result_entry task_id status result = JObj [(''task_id'', JStr task_id), (''status'', JStr status), (''result'', result)]"

definition set_mosaic_plan_subtask_result ::
    "'s redis \<Rightarrow> string \<Rightarrow> string \<Rightarrow> int \<Rightarrow> json \<Rightarrow> string \<Rightarrow> (('s, 'z) env_scheme, unit) prog" where
  "set_mosaic_plan_subtask_result srv task_id job_id round_idx result status =
     report_result srv (subtask_key task_id) (subtask_result_key job_id round_idx) status result
       (subtask_result_entry task_id status result)"

text \<open>Waiting for results: each turn takes one entry off the list; an empty reply (the time ran out) ends the wait.\<close>

primrec await_loop :: "nat \<Rightarrow> 's redis \<Rightarrow> string \<Rightarrow> json \<Rightarrow> json list \<Rightarrow> (('s, 'z) env_scheme, json list) prog" where
  "await_loop 0 srv key unreadable out = ret out"
| "await_loop (Suc remaining) srv key unreadable out =
     bnd (r_brpop srv [key]) (\<lambda>item.
     case item of
       None \<Rightarrow> ret out
     | Some (_, raw) \<Rightarrow>
         await_loop remaining srv key unreadable (out @ [case loads raw of Inl _ \<Rightarrow> unreadable | Inr j \<Rightarrow> j]))"

definition await_mosaic_plan_subtask_results :: "'s redis \<Rightarrow> string \<Rightarrow> int \<Rightarrow> int \<Rightarrow> (('s, 'z) env_scheme, json list) prog" where
  "await_mosaic_plan_subtask_results srv job_id round_idx expected_count =
     await_loop (nat (max 0 expected_count)) srv (subtask_result_key job_id round_idx)
       (JObj [(''status'', JStr ''failed''),
              (''result'', JObj [(''errors'', JArr [JObj [(''detail'', JStr ''invalid-subtask-result'')]])])]) []"

section \<open>Footprint subtasks\<close>

definition footprint_task_id :: "(string \<Rightarrow> string) \<Rightarrow> string \<Rightarrow> int \<Rightarrow> json list \<Rightarrow> string" where
  "footprint_task_id sha256 job_id batch_idx path =
     take 32 (sha256 (dumps_compact (JObj [(''job_id'', JStr job_id), (''batch_idx'', JInt batch_idx), (''path'', JArr path)])))"

definition clear_mosaic_footprint_subtask_results :: "'s redis \<Rightarrow> string \<Rightarrow> int \<Rightarrow> (('s, 'z) env_scheme, unit) prog" where
  "clear_mosaic_footprint_subtask_results srv job_id batch_idx =
     bnd (r_delete srv [footprint_subtask_result_key job_id batch_idx]) (\<lambda>_. ret ())"

definition footprint_message :: "string \<Rightarrow> string \<Rightarrow> int \<Rightarrow> int \<Rightarrow> json list \<Rightarrow> string \<Rightarrow> json list \<Rightarrow> json" where
  "footprint_message task_id job_id owner_id batch_idx path url bbox4 =
     JObj [(''task_id'', JStr task_id), (''job_id'', JStr job_id), (''owner_id'', JInt owner_id), (''batch_idx'', JInt batch_idx),
           (''path'', JArr path), (''url'', JStr url), (''bbox4'', JArr (take 4 bbox4))]"

definition enqueue_mosaic_footprint_display_subtask ::
    "(string \<Rightarrow> string) \<Rightarrow> 's redis \<Rightarrow> string \<Rightarrow> int \<Rightarrow> int \<Rightarrow> json list \<Rightarrow> string \<Rightarrow> json list \<Rightarrow> int \<Rightarrow> (('s, 'z) env_scheme, string) prog" where
  "enqueue_mosaic_footprint_display_subtask sha256 srv job_id owner_id batch_idx path url bbox4 ttl_seconds =
     (let task_id = footprint_task_id sha256 job_id batch_idx path in
      bnd (create_subtask srv (footprint_subtask_key task_id) MOSAIC_PLAN_FOOTPRINT_SUBTASK_QUEUE_KEY
        (\<lambda>now. [(''task_id'', task_id), (''job_id'', job_id), (''owner_id'', int_str owner_id), (''batch_idx'', int_str batch_idx),
           (''status'', ''pending''), (''created_at'', now), (''updated_at'', now)])
        (footprint_message task_id job_id owner_id batch_idx path url bbox4) ttl_seconds) (\<lambda>_.
      ret task_id))"

definition set_mosaic_footprint_subtask_status ::
    "'s redis \<Rightarrow> string \<Rightarrow> string \<Rightarrow> string option \<Rightarrow> (('s, 'z) env_scheme, unit) prog" where
  "set_mosaic_footprint_subtask_status srv task_id status message = set_subtask_status srv (footprint_subtask_key task_id) status message"

definition footprint_result_entry :: "string \<Rightarrow> string \<Rightarrow> json list \<Rightarrow> json \<Rightarrow> json" where
  "footprint_result_entry task_id status path footprint_display =
     JObj [(''task_id'', JStr task_id), (''status'', JStr status), (''path'', JArr path), (''footprint_display'', footprint_display)]"

definition set_mosaic_footprint_subtask_result ::
    "'s redis \<Rightarrow> string \<Rightarrow> string \<Rightarrow> int \<Rightarrow> json list \<Rightarrow> json \<Rightarrow> string \<Rightarrow> (('s, 'z) env_scheme, unit) prog" where
  "set_mosaic_footprint_subtask_result srv task_id job_id batch_idx path footprint_display status =
     report_result srv (footprint_subtask_key task_id) (footprint_subtask_result_key job_id batch_idx) status
       (JObj [(''path'', JArr path), (''footprint_display'', footprint_display)])
       (footprint_result_entry task_id status path footprint_display)"

definition await_mosaic_footprint_subtask_results :: "'s redis \<Rightarrow> string \<Rightarrow> int \<Rightarrow> int \<Rightarrow> (('s, 'z) env_scheme, json list) prog" where
  "await_mosaic_footprint_subtask_results srv job_id batch_idx expected_count =
     await_loop (nat (max 0 expected_count)) srv (footprint_subtask_result_key job_id batch_idx)
       (JObj [(''status'', JStr ''failed''), (''path'', JArr []), (''footprint_display'', JNull)]) []"

section \<open>Keys do not clash\<close>

lemma mosaic_keys [simp]:
  "mosaic_job_key i \<noteq> MOSAIC_PLAN_QUEUE_KEY" "MOSAIC_PLAN_QUEUE_KEY \<noteq> mosaic_job_key i"
  "subtask_key i \<noteq> MOSAIC_PLAN_SUBTASK_QUEUE_KEY" "MOSAIC_PLAN_SUBTASK_QUEUE_KEY \<noteq> subtask_key i"
  "subtask_key i \<noteq> subtask_result_key j r" "subtask_result_key j r \<noteq> subtask_key i"
  "subtask_result_key j r \<noteq> MOSAIC_PLAN_SUBTASK_QUEUE_KEY" "MOSAIC_PLAN_SUBTASK_QUEUE_KEY \<noteq> subtask_result_key j r"
  "mosaic_job_key i \<noteq> subtask_key k" "subtask_key k \<noteq> mosaic_job_key i"
  "mosaic_job_key i \<noteq> subtask_result_key j r" "subtask_result_key j r \<noteq> mosaic_job_key i"
  "mosaic_job_key i \<noteq> MOSAIC_PLAN_SUBTASK_QUEUE_KEY" "MOSAIC_PLAN_SUBTASK_QUEUE_KEY \<noteq> mosaic_job_key i"
  "mosaic_job_key i = mosaic_job_key j' \<longleftrightarrow> i = j'" "subtask_key i = subtask_key j' \<longleftrightarrow> i = j'"
  by (simp_all add: mosaic_job_key_def subtask_key_def subtask_result_key_def mosaic_key_defs)

lemma to_iso_now_eval [prog_simps]:
  "fst (to_iso_now w) = Inr (iso_z (clock w (ticks w)))" "snd (to_iso_now w) = w\<lparr>ticks := Suc (ticks w)\<rparr>"
  by (simp_all add: to_iso_now_def prog_simps)

lemma time_monotonic_eval [prog_simps]:
  "fst (time_monotonic w) = Inr (mono_time w (mono_n w))" "snd (time_monotonic w) = w\<lparr>mono_n := Suc (mono_n w)\<rparr>"
  by (simp_all add: time_monotonic_def)

section \<open>A queued job is read back\<close>

lemma json_ok_plan_job [simp]: "json_ok (plan_job_message job_id owner_id body) \<longleftrightarrow> json_ok (JObj body)"
  by (auto simp: plan_job_message_def)

lemma printed_nonempty [simp]: "dumps_compact j \<noteq> []"
  using hd_json [of _ _ j] by (auto simp: dumps_compact_def)

context redis_up
begin

lemma queued_job:
  assumes "json_ok (JObj body)" and "uuids w (uuid_n w) = job_id" and "job_id \<noteq> []"
    and "view (rds w) (mosaic_job_key job_id) = None" and "as_list (view (rds w) MOSAIC_PLAN_QUEUE_KEY) = Some (l, t)"
  shows "fst (enqueue_mosaic_plan_job srv cfg body owner_id w) = Inr job_id"
    and "view (rds (snd (enqueue_mosaic_plan_job srv cfg body owner_id w))) =
      (view (rds w))(mosaic_job_key job_id \<mapsto> (RHash (plan_job_mapping (iso_z (clock w (ticks w))) job_id owner_id body), Some 86400),
        MOSAIC_PLAN_QUEUE_KEY \<mapsto> (RList (dumps_compact (plan_job_message job_id owner_id body) # l), t))"
  using assms by (simp_all add: enqueue_mosaic_plan_job_def prog_simps redis_simps plan_job_mapping_def)

lemma job_lookup:
  assumes "as_hash (view (rds w) (mosaic_job_key job_id)) = Some (raw, t)"
  shows "fst (get_mosaic_plan_job srv job_id w) = (if raw = [] then Inr None else map_sum id Some (job_document job_id raw))"
  using assms by (simp add: get_mosaic_plan_job_def prog_simps redis_simps split: sum.split)

end

text \<open>A plan job that is queued is pending: its message heads the plan queue and decodes to the request, and looking the
  job up returns its owner, the status, the time and the message.\<close>

theorem mosaic_job_queued:
  assumes "redis_up srv view" and "json_ok (JObj body)" and "uuids w (uuid_n w) = job_id" and "job_id \<noteq> []"
    and "view (rds w) (mosaic_job_key job_id) = None" and "as_list (view (rds w) MOSAIC_PLAN_QUEUE_KEY) = Some (l, t)"
  shows "\<exists>w' text now. enqueue_mosaic_plan_job srv cfg body owner_id w = (Inr job_id, w') \<and>
    as_list (view (rds w') MOSAIC_PLAN_QUEUE_KEY) = Some (text # l, t) \<and>
    loads text = Inr (plan_job_message job_id owner_id body) \<and>
    fst (get_mosaic_plan_job srv job_id w') = Inr (Some
      [(''job_id'', JStr job_id), (''owner_id'', JInt owner_id), (''status'', JStr ''pending''), (''message'', JStr ''Queued''),
       (''created_at'', JStr now), (''updated_at'', JStr now), (''finished_at'', JNull),
       (''payload'', plan_job_message job_id owner_id body)])"
proof -
  let ?now = "iso_z (clock w (ticks w))"
  let ?w = "snd (enqueue_mosaic_plan_job srv cfg body owner_id w)"
  note q = redis_up.queued_job [OF assms(1, 2, 3, 4, 5, 6), of cfg owner_id]
  have "as_hash (view (rds ?w) (mosaic_job_key job_id)) = Some (plan_job_mapping ?now job_id owner_id body, Some 86400)"
    using q(2) by (simp add: redis_simps)
  from redis_up.job_lookup [OF assms(1) this]
  have "fst (get_mosaic_plan_job srv job_id ?w) = Inr (Some
      [(''job_id'', JStr job_id), (''owner_id'', JInt owner_id), (''status'', JStr ''pending''), (''message'', JStr ''Queued''),
       (''created_at'', JStr ?now), (''updated_at'', JStr ?now), (''finished_at'', JNull),
       (''payload'', plan_job_message job_id owner_id body)])"
    using assms(2, 4) by (simp add: job_document_def plan_job_mapping_def field_of_def document_field_def PROGRESS_KEYS_def List.map_filter_simps json_simps)
  moreover have "as_list (view (rds ?w) MOSAIC_PLAN_QUEUE_KEY) = Some (dumps_compact (plan_job_message job_id owner_id body) # l, t)"
    using q(2) by (simp add: redis_simps)
  ultimately show ?thesis using q(1) assms(2) by (metis json_ok_plan_job loads_dumps_compact prod.collapse)
qed

definition example_body :: "(string \<times> json) list" where
  "example_body = [(''stac_collection'', JStr ''sentinel-2-l2a''), (''limit'', JInt 5)]"

theorem mosaic_job_queued_witness:
  "\<exists>w' text now. enqueue_mosaic_plan_job mem_srv default_settings example_body 7 (menv0 []) = (Inr ''job0'', w') \<and>
    as_list (map_of (rds w') MOSAIC_PLAN_QUEUE_KEY) = Some ([text], None) \<and>
    loads text = Inr (plan_job_message ''job0'' 7 example_body) \<and>
    fst (get_mosaic_plan_job mem_srv ''job0'' w') = Inr (Some
      [(''job_id'', JStr ''job0''), (''owner_id'', JInt 7), (''status'', JStr ''pending''), (''message'', JStr ''Queued''),
       (''created_at'', JStr now), (''updated_at'', JStr now), (''finished_at'', JNull),
       (''payload'', plan_job_message ''job0'' 7 example_body)])"
  by (rule mosaic_job_queued [OF mem.redis_up_axioms]) (simp_all add: example_body_def menv0_def redis_simps nat_str_zero)

section \<open>A stored result is read back\<close>

lemma map_of_picked: "map_of (List.map_filter (\<lambda>k. map_option (\<lambda>v. (k, f k v)) (m k)) ks) k' =
    (if k' \<in> set ks then map_option (f k') (m k') else None)"
  by (induction ks) (auto simp: List.map_filter_simps split: option.split)

lemma map_of_document: "map_of (document_field raw k) k' =
    (if k' = k then (case field_of raw k of None \<Rightarrow> None | Some s \<Rightarrow> (case loads s of Inl _ \<Rightarrow> None | Inr j \<Rightarrow> Some j)) else None)"
  by (simp add: document_field_def split: option.split sum.split)

lemma document_get:
  assumes "job_document job_id raw = Inr d"
  shows "jget d ''job_id'' = JStr (or_else (field_of raw ''job_id'') job_id)"
    and "Inr (jget d ''owner_id'') = map_sum id JInt (case field_of raw ''owner_id'' of None \<Rightarrow> Inr 0 | Some s \<Rightarrow> py_int s)"
    and "jget d ''status'' = JStr (or_else (field_of raw ''status'') ''unknown'')"
    and "jget d ''message'' = JStr (or_else (field_of raw ''message'') [])"
    and "jget d ''created_at'' = opt_json JStr (map_of raw ''created_at'')"
    and "jget d ''updated_at'' = opt_json JStr (map_of raw ''updated_at'')"
    and "jget d ''finished_at'' = opt_json JStr (map_of raw ''finished_at'')"
    and "jget d ''result'' = (case field_of raw ''result'' of None \<Rightarrow> JNull | Some s \<Rightarrow> (case loads s of Inl _ \<Rightarrow> JNull | Inr j \<Rightarrow> j))"
    and "jget d ''payload'' = (case field_of raw ''payload'' of None \<Rightarrow> JNull | Some s \<Rightarrow> (case loads s of Inl _ \<Rightarrow> JNull | Inr j \<Rightarrow> j))"
    and "k \<in> set PROGRESS_KEYS \<Longrightarrow> jget d k = (case map_of raw k of None \<Rightarrow> JNull | Some v \<Rightarrow> progress_value k v)"
proof -
  obtain i where i: "(case field_of raw ''owner_id'' of None \<Rightarrow> Inr 0 | Some s \<Rightarrow> py_int s) = Inr i"
    using assms by (cases "case field_of raw ''owner_id'' of None \<Rightarrow> Inr 0 | Some s \<Rightarrow> py_int s") (simp_all add: job_document_def)
  let ?picked = "List.map_filter (\<lambda>k. map_option (\<lambda>v. (k, progress_value k v)) (map_of raw k)) PROGRESS_KEYS"
  let ?docs = "document_field raw ''result'' @ document_field raw ''payload'' @ ?picked"
  note d = assms [unfolded job_document_def i sbind_simps sum.inject, symmetric]
  have get: "jget (xs @ ys) k = (case map_of xs k of None \<Rightarrow> jget ys k | Some v \<Rightarrow> v)" for xs ys k
    by (simp add: jget_def map_add_def split: option.split)
  have doc: "jget ?docs k = (case map_of (document_field raw ''result'') k of Some v \<Rightarrow> v
      | None \<Rightarrow> (case map_of (document_field raw ''payload'') k of Some v \<Rightarrow> v | None \<Rightarrow> jget ?picked k))" for k
    unfolding get ..
  have picked: "jget ?picked k = (if k \<in> set PROGRESS_KEYS then (case map_of raw k of None \<Rightarrow> JNull | Some v \<Rightarrow> progress_value k v) else JNull)" for k
    by (simp add: jget_def map_of_picked split: option.split)
  show "jget d ''job_id'' = JStr (or_else (field_of raw ''job_id'') job_id)"
    "Inr (jget d ''owner_id'') = map_sum id JInt (case field_of raw ''owner_id'' of None \<Rightarrow> Inr 0 | Some s \<Rightarrow> py_int s)"
    "jget d ''status'' = JStr (or_else (field_of raw ''status'') ''unknown'')"
    "jget d ''message'' = JStr (or_else (field_of raw ''message'') [])"
    "jget d ''created_at'' = opt_json JStr (map_of raw ''created_at'')"
    "jget d ''updated_at'' = opt_json JStr (map_of raw ''updated_at'')"
    "jget d ''finished_at'' = opt_json JStr (map_of raw ''finished_at'')"
    unfolding d get i by simp_all
  have keys: "''result'' \<notin> set PROGRESS_KEYS" "''payload'' \<notin> set PROGRESS_KEYS" by (simp_all add: PROGRESS_KEYS_def)
  show "jget d ''result'' = (case field_of raw ''result'' of None \<Rightarrow> JNull | Some s \<Rightarrow> (case loads s of Inl _ \<Rightarrow> JNull | Inr j \<Rightarrow> j))"
    "jget d ''payload'' = (case field_of raw ''payload'' of None \<Rightarrow> JNull | Some s \<Rightarrow> (case loads s of Inl _ \<Rightarrow> JNull | Inr j \<Rightarrow> j))"
    unfolding d get doc picked map_of_document by (simp_all add: keys split: option.split sum.split)
  show "jget d k = (case map_of raw k of None \<Rightarrow> JNull | Some v \<Rightarrow> progress_value k v)" if k: "k \<in> set PROGRESS_KEYS"
  proof -
    have "k \<notin> {''job_id'', ''owner_id'', ''status'', ''message'', ''created_at'', ''updated_at'', ''finished_at'', ''result'', ''payload''}"
      using k by (auto simp: PROGRESS_KEYS_def)
    then show ?thesis unfolding d get doc picked map_of_document using k by simp
  qed
qed

context redis_up
begin

lemma view_result:
  assumes "as_hash (view (rds w) (mosaic_job_key job_id)) = Some (h, t)"
  shows "fst (set_mosaic_plan_job_result srv job_id result status message w) = Inr ()"
    and "\<exists>t1 t2 msg. view (rds (snd (set_mosaic_plan_job_result srv job_id result status message w))) =
      (view (rds w))(mosaic_job_key job_id \<mapsto> (RHash (hash_updates
        [(''status'', status), (''updated_at'', iso_z t1), (''finished_at'', iso_z t2), (''result'', dumps_compact result), (''message'', msg)] h), t))"
  using assms by (simp_all add: set_mosaic_plan_job_result_def prog_simps redis_simps) (blast | metis)+

end

text \<open>The result of a finished plan job is read back as it was stored, with its status and a time of finishing; its
  identity, owner, time of creation, request and progress are as before.\<close>

theorem mosaic_result_read_back:
  assumes "redis_up srv view" and "view (rds w) (mosaic_job_key job_id) = Some (RHash h, t)"
    and "fst (get_mosaic_plan_job srv job_id w) = Inr (Some d)" and "json_ok result" and "status \<noteq> []"
  shows "\<exists>w' d'. set_mosaic_plan_job_result srv job_id result status message w = (Inr (), w') \<and>
    fst (get_mosaic_plan_job srv job_id w') = Inr (Some d') \<and> jget d' ''status'' = JStr status \<and> jget d' ''result'' = result \<and>
    truthy (jget d' ''finished_at'') \<and>
    (\<forall>k\<in>set ([''job_id'', ''owner_id'', ''created_at'', ''payload''] @ PROGRESS_KEYS). jget d' k = jget d k)"
proof -
  let ?w = "snd (set_mosaic_plan_job_result srv job_id result status message w)"
  have h: "as_hash (view (rds w) (mosaic_job_key job_id)) = Some (h, t)" using assms(2) by (simp add: redis_simps)
  obtain t1 t2 msg where v: "view (rds ?w) = (view (rds w))(mosaic_job_key job_id \<mapsto> (RHash (hash_updates
        [(''status'', status), (''updated_at'', iso_z t1), (''finished_at'', iso_z t2), (''result'', dumps_compact result), (''message'', msg)] h), t))"
    using redis_up.view_result(2) [OF assms(1) h] by blast
  let ?h' = "hash_updates [(''status'', status), (''updated_at'', iso_z t1), (''finished_at'', iso_z t2),
    (''result'', dumps_compact result), (''message'', msg)] h"
  have h': "as_hash (view (rds ?w) (mosaic_job_key job_id)) = Some (?h', t)" using v by (simp add: redis_simps)
  have d: "job_document job_id h = Inr d" using redis_up.job_lookup [OF assms(1) h] assms(3) by (auto split: if_splits simp: map_sum_def split: sum.splits)
  obtain d' where d': "job_document job_id ?h' = Inr d'"
    using d by (simp add: job_document_def field_of_def del: or_else_simps)
       (cases "case (case map_of h ''owner_id'' of None \<Rightarrow> None | Some s \<Rightarrow> if s = [] then None else Some s) of None \<Rightarrow> Inr 0 | Some s \<Rightarrow> py_int s"; simp)
  have "fst (get_mosaic_plan_job srv job_id ?w) = Inr (Some d')"
    using redis_up.job_lookup [OF assms(1) h'] d' by simp
  moreover have "jget d' ''status'' = JStr status" "jget d' ''result'' = result" "truthy (jget d' ''finished_at'')"
    using document_get [OF d'] assms(4, 5) by (simp_all add: field_of_def json_simps)
  moreover have "jget d' k = jget d k" if "k \<in> set ([''job_id'', ''owner_id'', ''created_at'', ''payload''] @ PROGRESS_KEYS)" for k
  proof -
    have "map_of ?h' k = map_of h k" using that by (auto simp: PROGRESS_KEYS_def)
    then have f: "field_of ?h' k = field_of h k" "map_of ?h' k = map_of h k" by (simp_all add: field_of_def)
    have "Inr (jget d' ''owner_id'') = (Inr (jget d ''owner_id'') :: exn + json)"
      unfolding document_get(2) [OF d] document_get(2) [OF d'] by (simp add: field_of_def)
    with that consider "k = ''job_id''" | "k = ''owner_id''" "jget d' k = jget d k" | "k = ''created_at''" | "k = ''payload''" | "k \<in> set PROGRESS_KEYS"
      by (auto simp del: set_simps) (auto)
    then show ?thesis
      by cases (use f document_get [OF d'] document_get [OF d] in simp_all)
  qed
  ultimately show ?thesis using redis_up.view_result(1) [OF assms(1) h] by (metis prod.collapse)
qed

text \<open>A store with one pending job.\<close>

definition one_job :: "(string \<times> rentry) list" where
  "one_job = [(mosaic_job_key ''j'', (RHash (plan_job_mapping ''now'' ''j'' 7 example_body), Some 86400))]"

theorem mosaic_result_read_back_witness:
  "\<exists>w' d'. set_mosaic_plan_job_result mem_srv ''j'' (JObj [(''images'', JInt 3)]) ''completed'' None (menv0 one_job) = (Inr (), w') \<and>
    fst (get_mosaic_plan_job mem_srv ''j'' w') = Inr (Some d') \<and> jget d' ''result'' = JObj [(''images'', JInt 3)] \<and>
    jget d' ''owner_id'' = JInt 7"
proof -
  have v: "map_of (rds (menv0 one_job)) (mosaic_job_key ''j'') = Some (RHash (plan_job_mapping ''now'' ''j'' 7 example_body), Some 86400)"
    by (simp add: menv0_def one_job_def)
  then have h: "as_hash (map_of (rds (menv0 one_job)) (mosaic_job_key ''j'')) = Some (plan_job_mapping ''now'' ''j'' 7 example_body, Some 86400)"
    by (simp add: redis_simps)
  obtain d where d: "job_document ''j'' (plan_job_mapping ''now'' ''j'' 7 example_body) = Inr d"
    by (simp add: job_document_def plan_job_mapping_def field_of_def)
  then have g: "fst (get_mosaic_plan_job mem_srv ''j'' (menv0 one_job)) = Inr (Some d)"
    using redis_up.job_lookup [OF mem.redis_up_axioms h] by (simp add: plan_job_mapping_def)
  have "(Inr (jget d ''owner_id'') :: exn + json) = Inr (JInt 7)"
    unfolding document_get(2) [OF d] by (simp add: plan_job_mapping_def field_of_def)
  then show ?thesis
    using mosaic_result_read_back [OF mem.redis_up_axioms v g, of "JObj [(''images'', JInt 3)]" "''completed''" None] by auto
qed

section \<open>Subtasks are queued once\<close>

lemma json_ok_subtask_message [simp]: "json_ok (subtask_message tid jid oid r sk payload) \<longleftrightarrow> json_ok payload"
  by (auto simp: subtask_message_def)

context redis_up
begin

lemma create_subtask_new:
  assumes "view (rds w) tkey = None" and "as_list (view (rds w) queue) = Some (l, t)" and "tkey \<noteq> queue" and "0 < ttl"
  shows "fst (create_subtask srv tkey queue mapping body ttl w) = Inr ()"
    and "view (rds (snd (create_subtask srv tkey queue mapping body ttl w))) = (view (rds w))
      (tkey \<mapsto> (RHash (hash_updates (mapping (iso_z (clock w (ticks w))) @ [(''payload'', dumps_compact body)]) []), Some ttl),
       queue \<mapsto> (RList (dumps_compact body # l), t))"
  using assms by (simp_all add: create_subtask_def prog_simps redis_simps)

lemma create_subtask_again:
  assumes "view (rds w) tkey \<noteq> None"
  shows "fst (create_subtask srv tkey queue mapping body ttl w) = Inr ()"
    and "view (rds (snd (create_subtask srv tkey queue mapping body ttl w))) = view (rds w)"
  using assms by (auto simp: create_subtask_def prog_simps redis_simps)

end

text \<open>Asking for a subtask puts its message at the head of the queue; asking again for the same shard of the same round, with
  whatever owner and payload, returns the same identifier and changes nothing in Redis.\<close>

theorem subtask_queued_once:
  fixes w :: "('s, 'z) env_scheme" and job_id shard_key :: string and round_idx :: int and sha256 :: "string \<Rightarrow> string"
  defines "tid \<equiv> mosaic_task_id sha256 job_id round_idx shard_key"
  assumes "redis_up srv view" and "view (rds w) (subtask_key tid) = None" and "json_ok payload" and "0 < ttl"
    and "as_list (view (rds w) MOSAIC_PLAN_SUBTASK_QUEUE_KEY) = Some (l, t)"
  shows "\<exists>w1 w2 text. enqueue_mosaic_plan_subtask sha256 srv job_id owner_id round_idx shard_key payload ttl w = (Inr tid, w1) \<and>
    enqueue_mosaic_plan_subtask sha256 srv job_id owner_id' round_idx shard_key payload' ttl' w1 = (Inr tid, w2) \<and>
    as_list (view (rds w1) MOSAIC_PLAN_SUBTASK_QUEUE_KEY) = Some (text # l, t) \<and>
    loads text = Inr (subtask_message tid job_id owner_id round_idx shard_key payload) \<and> view (rds w2) = view (rds w1)"
proof -
  let ?call = "enqueue_mosaic_plan_subtask sha256 srv job_id owner_id round_idx shard_key payload ttl"
  let ?again = "enqueue_mosaic_plan_subtask sha256 srv job_id owner_id' round_idx shard_key payload' ttl'"
  let ?w1 = "snd (?call w)" and ?text = "dumps_compact (subtask_message tid job_id owner_id round_idx shard_key payload)"
  note new = redis_up.create_subtask_new [OF assms(2, 3, 6) mosaic_keys(3) assms(5)]
  have 1: "fst (?call w) = Inr tid" "as_list (view (rds ?w1) MOSAIC_PLAN_SUBTASK_QUEUE_KEY) = Some (?text # l, t)"
      "view (rds ?w1) (subtask_key tid) \<noteq> None"
    using new by (simp_all add: enqueue_mosaic_plan_subtask_def tid_def [symmetric] prog_simps redis_simps)
  have 2: "fst (?again ?w1) = Inr tid" "view (rds (snd (?again ?w1))) = view (rds ?w1)"
    using redis_up.create_subtask_again [OF assms(2) 1(3)]
    by (simp_all add: enqueue_mosaic_plan_subtask_def tid_def [symmetric] prog_simps)
  show ?thesis using 1 2 assms(4) by (metis json_ok_subtask_message loads_dumps_compact prod.collapse)
qed

theorem subtask_queued_once_witness:
  "\<exists>w1 w2 text. enqueue_mosaic_plan_subtask (\<lambda>s. s) mem_srv ''j'' 7 0 ''k'' (JObj []) 600 (menv0 []) = (Inr ''j:0:k'', w1) \<and>
    enqueue_mosaic_plan_subtask (\<lambda>s. s) mem_srv ''j'' 7 0 ''k'' (JObj []) 600 w1 = (Inr ''j:0:k'', w2) \<and>
    as_list (map_of (rds w1) MOSAIC_PLAN_SUBTASK_QUEUE_KEY) = Some ([text], None) \<and> map_of (rds w2) = map_of (rds w1)"
proof -
  have "mosaic_task_id (\<lambda>s. s) ''j'' 0 ''k'' = ''j:0:k''" by code_simp
  then show ?thesis
    using subtask_queued_once [OF mem.redis_up_axioms, of "menv0 []" "\<lambda>s. s" "''j''" 0 "''k''" "JObj []" 600 "[]" None 7 7 "JObj []" 600]
    by (auto simp: menv0_def redis_simps)
qed

section \<open>Results are handed out one by one\<close>

definition decode_entry :: "json \<Rightarrow> string \<Rightarrow> json" where
  "decode_entry unreadable raw = (case loads raw of Inl _ \<Rightarrow> unreadable | Inr j \<Rightarrow> j)"

context redis_up
begin

lemma await_loop_takes:
  assumes "as_list (view (rds w) key) = Some (l, t)"
  shows "fst (await_loop n srv key unreadable out w) = Inr (out @ map (decode_entry unreadable) (take n (rev l))) \<and>
    as_list (view (rds (snd (await_loop n srv key unreadable out w))) key) = Some (take (length l - n) l, if n < length l then t else if l = [] then t else None) \<and>
    (\<forall>k. k \<noteq> key \<longrightarrow> view (rds (snd (await_loop n srv key unreadable out w))) k = view (rds w) k)"
  using assms
proof (induction n arbitrary: w l out t)
  case (Suc n)
  show ?case
  proof (cases l rule: rev_exhaust)
    case Nil
    with Suc.prems show ?thesis by (simp add: prog_simps redis_simps)
  next
    case (snoc xs x)
    let ?w = "w\<lparr>rds := snd (srv (One (BRPop [key])) (rds w))\<rparr>"
    have v: "view (rds ?w) = (view (rds w))(key := if xs = [] then None else Some (RList xs, t))"
      using Suc.prems snoc by (simp add: redis_simps)
    then have "as_list (view (rds ?w) key) = Some (xs, if xs = [] then None else t)" by (simp add: redis_simps)
    from Suc.IH [OF this, of "out @ [decode_entry unreadable x]"] Suc.prems snoc v
    show ?thesis by (auto simp: prog_simps redis_simps decode_entry_def)
  qed
qed (auto simp: prog_simps)

end

text \<open>Waiting for results takes as many as are asked for and stored, the newest first and each as it was reported, and
  leaves the others in place.\<close>

theorem results_handed_out:
  assumes "redis_up srv view" and "\<forall>e\<in>set entries. json_ok e"
    and "as_list (view (rds w) (subtask_result_key job_id r)) = Some (map dumps_compact entries, t)"
  shows "\<exists>w' t'. await_mosaic_plan_subtask_results srv job_id r n w = (Inr (take (nat n) (rev entries)), w') \<and>
    as_list (view (rds w') (subtask_result_key job_id r)) = Some (map dumps_compact (take (length entries - nat n) entries), t')"
proof -
  let ?m = "\<lambda>u. await_loop (nat (max 0 n)) srv (subtask_result_key job_id r) u [] w"
  have dec: "map (decode_entry u) (take k (rev (map dumps_compact entries))) = take k (rev entries)" for u k
    using assms(2) by (auto simp: rev_map take_map decode_entry_def intro!: map_idI dest!: in_set_takeD)
  note a = redis_up.await_loop_takes [OF assms(1, 3), of "nat (max 0 n)"]
  have "fst (?m u) = Inr (take (nat n) (rev entries))" for u using a [of u "[]"] by (simp add: dec max_def)
  moreover have "\<exists>t'. as_list (view (rds (snd (?m u))) (subtask_result_key job_id r)) = Some (map dumps_compact (take (length entries - nat n) entries), t')" for u
    using a [of u "[]"] by (auto simp: take_map max_def split: if_splits)
  ultimately show ?thesis unfolding await_mosaic_plan_subtask_results_def by (metis prod.collapse)
qed

theorem results_handed_out_witness:
  "\<exists>w'. await_mosaic_plan_subtask_results mem_srv ''j'' 0 1
      (menv0 [(subtask_result_key ''j'' 0, (RList [dumps_compact (JInt 1), dumps_compact (JInt 2)], None))]) = (Inr [JInt 2], w')"
  using results_handed_out [OF mem.redis_up_axioms, of "[JInt 1, JInt 2]"
      "menv0 [(subtask_result_key ''j'' 0, (RList [dumps_compact (JInt 1), dumps_compact (JInt 2)], None))]" "''j''" 0 None 1]
  by (auto simp: menv0_def redis_simps)

end
