(* ===== verification/Mosaic_Worker.thy ===== *)
theory Mosaic_Worker
  imports Mosaic_Jobs Import_World Tile_Jobs
begin

text \<open>
  The mosaic worker (\<^verbatim>\<open>app/mosaic_worker_main.py\<close>) with the payload of a subtask (\<^verbatim>\<open>build_subtask_payload\<close> and
  \<^verbatim>\<open>execute_subtask_payload\<close> of \<^verbatim>\<open>app/services/mosaic_plan_distributed.py\<close>): one plan job, one subtask, one footprint
  subtask, and the loop that takes them from their queues.

  Parameters: \<open>str_e\<close> is \<^verbatim>\<open>str(e)\<close>; \<open>parse\<close> is the validation of the request body, \<open>load_user\<close> the query for the
  owner, \<open>compute\<close> the planning, \<open>collect\<close> the federated STAC search and \<open>fetch\<close> the download of a footprint. The heartbeat task
  is run for \<open>n\<close> beats before the owner is looked up, as whole calls; what it raised is seen where the code awaits it.
  The loop of the worker is a transition system over the sets of started tasks: a step is a task that finishes, a wait
  that collects finished tasks, or a message taken from one of the queues the code waits on.

  Shown: a subtask that is taken reports exactly one result as long as Redis answers; a plan job ends with a terminal status
  whatever the planning does, unless the query for the owner fails, which leaves the job running for ever; a lost
  reply makes a subtask report twice; the worker never runs more tasks of a kind than configured; a
  finished plan job that is not collected can keep a worker from ever taking a subtask again.
\<close>

section \<open>Payloads\<close>

record catalog_lite =
  cat_id :: string
  cat_root :: string
  cat_default :: "json list"

definition catalog_payload :: "catalog_lite list \<Rightarrow> json" where
  "catalog_payload catalogs = JArr (map (\<lambda>c. JObj
     [(''id'', JStr (cat_id c)), (''stac_api_root_url'', JStr (cat_root c)), (''default_collections'', JArr (cat_default c))]) catalogs)"

text \<open>\<^verbatim>\<open>list(x or [])\<close>: the elements of an array, the keys of an object, the characters of a text.\<close>

definition py_list :: "json \<Rightarrow> exn + json list" where
  "py_list v =
     (if \<not> truthy v then Inr []
      else case v of
          JArr xs \<Rightarrow> Inr xs
        | JObj ps \<Rightarrow> Inr (map (JStr \<circ> fst) ps)
        | JStr s \<Rightarrow> Inr (map (\<lambda>c. JStr [c]) s)
        | _ \<Rightarrow> Inl TypeError)"

definition str_of_field :: "(string \<times> json) list \<Rightarrow> string \<Rightarrow> string" where
  "str_of_field d k = (let v = jget d k in if truthy v then py_str v else [])"

definition int_of_field :: "(string \<times> json) list \<Rightarrow> string \<Rightarrow> int \<Rightarrow> exn + int" where
  "int_of_field d k dflt = (let v = jget d k in if truthy v then json_int v else Inr dflt)"

fun catalogs_from_rows :: "json list \<Rightarrow> exn + catalog_lite list" where
  "catalogs_from_rows [] = Inr []"
| "catalogs_from_rows (JObj r # rows) =
     sbind (py_list (jget r ''default_collections'')) (\<lambda>dc.
     sbind (catalogs_from_rows rows) (\<lambda>rest.
     Inr (\<lparr>cat_id = str_of_field r ''id'', cat_root = str_of_field r ''stac_api_root_url'', cat_default = dc\<rparr> # rest)))"
| "catalogs_from_rows (_ # rows) = catalogs_from_rows rows"

text \<open>\<open>fl\<close> prints a float; the largest cloud cover is passed on as it is.\<close>

definition build_subtask_payload ::
    "(rat \<Rightarrow> json) \<Rightarrow> catalog_lite list \<Rightarrow> string \<Rightarrow> rat list \<Rightarrow> string \<Rightarrow> json \<Rightarrow> string \<Rightarrow> int \<Rightarrow> (string \<times> json) list" where
  "build_subtask_payload fl catalogs stac_collection bbox datetime_slice cloud_cover_max sort_mode fetch_limit =
     [(''catalogs'', catalog_payload catalogs), (''stac_collection'', JStr stac_collection), (''bbox'', JArr (map fl bbox)),
      (''datetime_slices'', JArr [JStr datetime_slice]), (''cloud_cover_max'', cloud_cover_max), (''sort_mode'', JStr sort_mode),
      (''fetch_limit'', JInt fetch_limit)]"

record search_args =
  sa_catalogs :: "catalog_lite list"
  sa_collection :: string
  sa_bbox :: "rat list"
  sa_slices :: "string list"
  sa_cloud :: json
  sa_sort :: string
  sa_limit :: int

definition search_args_of :: "(string \<times> json) list \<Rightarrow> exn + search_args" where
  "search_args_of payload =
     sbind (sbind (py_list (jget payload ''catalogs'')) catalogs_from_rows) (\<lambda>catalogs.
     sbind (sbind (py_list (jget payload ''bbox'')) (\<lambda>xs. j_list json_float (take 4 xs))) (\<lambda>bbox.
     sbind (py_list (jget payload ''datetime_slices'')) (\<lambda>slices.
     sbind (int_of_field payload ''fetch_limit'' 200) (\<lambda>fetch_limit.
     Inr \<lparr>sa_catalogs = catalogs, sa_collection = str_of_field payload ''stac_collection'', sa_bbox = bbox,
          sa_slices = map py_str slices, sa_cloud = jget payload ''cloud_cover_max'',
          sa_sort = (let s = str_of_field payload ''sort_mode'' in if s = [] then ''lowest_cloud'' else s),
          sa_limit = fetch_limit\<rparr>))))"

definition execute_subtask_payload ::
    "(search_args \<Rightarrow> ('w, json list \<times> json list) prog) \<Rightarrow> (string \<times> json) list \<Rightarrow> ('w, (string \<times> json) list) prog" where
  "execute_subtask_payload collect payload =
     bnd (lift_exn (search_args_of payload)) (\<lambda>args.
     bnd (collect args) (\<lambda>(features, errors).
     ret [(''features'', JArr features), (''errors'', JArr errors)]))"

section \<open>A subtask\<close>

definition error_text :: "(exn \<Rightarrow> string) \<Rightarrow> exn \<Rightarrow> string" where
  "error_text str_e e = (if str_e e = [] then exn_name e else str_e e)"

definition is_dict :: "json \<Rightarrow> bool" where
  "is_dict j = (case j of JObj _ \<Rightarrow> True | _ \<Rightarrow> False)"

definition dict_items :: "json \<Rightarrow> (string \<times> json) list" where
  "dict_items j = (case j of JObj ps \<Rightarrow> ps | _ \<Rightarrow> [])"

text \<open>\<^verbatim>\<open>payload.get(key) or {}\<close>.\<close>

definition dict_field :: "(string \<times> json) list \<Rightarrow> string \<Rightarrow> json" where
  "dict_field d k = (let v = jget d k in if truthy v then v else JObj [])"

definition run_subtask ::
    "(exn \<Rightarrow> string) \<Rightarrow> ((string \<times> json) list \<Rightarrow> (('s, 'z) env_scheme, (string \<times> json) list) prog) \<Rightarrow> 's redis \<Rightarrow>
     (string \<times> json) list \<Rightarrow> (('s, 'z) env_scheme, unit) prog" where
  "run_subtask str_e exec srv payload =
     (let task_id = str_of_field payload ''task_id''; job_id = str_of_field payload ''job_id''; body = dict_field payload ''payload'' in
      bnd (lift_exn (int_of_field payload ''round_idx'' 0)) (\<lambda>round_idx.
      if task_id = [] \<or> job_id = [] \<or> \<not> is_dict body then ret ()
      else
        bnd (set_mosaic_plan_subtask_status srv task_id ''running'' None) (\<lambda>_.
        catch
          (bnd (exec (dict_items body)) (\<lambda>result.
           bnd (lift_exn (py_list (jget result ''errors''))) (\<lambda>errs.
           bnd (set_mosaic_plan_subtask_result srv task_id job_id round_idx (JObj result)
             (if errs \<noteq> [] then ''completed_with_errors'' else ''completed'')) (\<lambda>_.
           bnd (lift_exn (py_list (jget result ''features''))) (\<lambda>_. ret ())))))
          (\<lambda>e. set_mosaic_plan_subtask_result srv task_id job_id round_idx
             (JObj [(''features'', JArr []), (''errors'', JArr [JObj [(''detail'', JStr (error_text str_e e))]])]) ''failed''))))"

section \<open>A footprint subtask\<close>

text \<open>The coordinates are read by position, which a dictionary has none of.\<close>

definition bbox_numbers :: "json \<Rightarrow> json list \<Rightarrow> exn + rat list" where
  "bbox_numbers v elems = (case v of JObj _ \<Rightarrow> Inl KeyError | _ \<Rightarrow> j_list json_float (take 4 elems))"

definition run_footprint_subtask ::
    "(string \<Rightarrow> rat list \<Rightarrow> (('s, 'z) env_scheme, json) prog) \<Rightarrow> 's redis \<Rightarrow> (string \<times> json) list \<Rightarrow> (('s, 'z) env_scheme, unit) prog" where
  "run_footprint_subtask fetch srv payload =
     (let task_id = str_of_field payload ''task_id''; job_id = str_of_field payload ''job_id''; url = str_of_field payload ''url'' in
      bnd (lift_exn (int_of_field payload ''batch_idx'' 0)) (\<lambda>batch_idx.
      if task_id = [] \<or> job_id = [] then ret ()
      else case jget payload ''path'' of
        JArr path \<Rightarrow>
          bnd (lift_exn (py_list (jget payload ''bbox4''))) (\<lambda>bbox4.
          if length bbox4 < 4 then ret ()
          else
            bnd (set_mosaic_footprint_subtask_status srv task_id ''running'' None) (\<lambda>_.
            catch
              (case bbox_numbers (jget payload ''bbox4'') bbox4 of
                 Inl KeyError \<Rightarrow> raise KeyError
               | Inl _ \<Rightarrow> set_mosaic_footprint_subtask_result srv task_id job_id batch_idx path JNull ''completed''
               | Inr bb \<Rightarrow>
                   bnd (fetch url bb) (\<lambda>geo.
                   set_mosaic_footprint_subtask_result srv task_id job_id batch_idx path geo
                     (if geo \<noteq> JNull then ''completed'' else ''completed_with_errors'')))
              (\<lambda>_. set_mosaic_footprint_subtask_result srv task_id job_id batch_idx path JNull ''failed'')))
      | _ \<Rightarrow> ret ()))"

section \<open>A plan job\<close>

definition beat :: "'s redis \<Rightarrow> settings \<Rightarrow> string \<Rightarrow> (('s, 'z) menv_scheme, unit) prog" where
  "beat srv cfg job_id =
     set_mosaic_plan_job_progress srv cfg job_id
       [(''phase'', JStr ''planning''), (''rounds_max'', JInt (max 1 (or_default (mosaic_void_fill_max_rounds cfg) 1))),
        (''retry_after_seconds'', JInt 1)]"

primrec heartbeat :: "nat \<Rightarrow> 's redis \<Rightarrow> settings \<Rightarrow> string \<Rightarrow> (('s, 'z) menv_scheme, unit) prog" where
  "heartbeat 0 srv cfg job_id = ret ()"
| "heartbeat (Suc n) srv cfg job_id = bnd (beat srv cfg job_id) (\<lambda>_. heartbeat n srv cfg job_id)"

text \<open>A task that runs on its own: what it raises is kept until it is awaited.\<close>

definition outcome :: "('w, 'a) prog \<Rightarrow> ('w, exn + 'a) prog" where
  "outcome m w = (Inr (fst (m w)), snd (m w))"

text \<open>The planning itself, once the request and its owner are known; \<open>hb_task\<close> is what the heartbeat came to.\<close>

definition plan_and_store ::
    "(exn \<Rightarrow> string) \<Rightarrow> ('b \<Rightarrow> 'u \<Rightarrow> string \<Rightarrow> (('s, 'z) menv_scheme, (string \<times> json) list) prog) \<Rightarrow> 's redis \<Rightarrow> settings \<Rightarrow>
     string \<Rightarrow> exn + unit \<Rightarrow> 'b \<Rightarrow> 'u \<Rightarrow> (('s, 'z) menv_scheme, unit) prog" where
  "plan_and_store str_e compute srv cfg job_id hb_task body u =
     catch
       (bnd (compute body u job_id) (\<lambda>result.
        bnd (set_mosaic_plan_job_progress srv cfg job_id
          [(''phase'', JStr ''finalizing''), (''round'', jget result ''void_fill_rounds''),
           (''features_seen'', jget result ''stac_feature_pool_size''), (''retry_after_seconds'', JInt 2)]) (\<lambda>_.
        bnd (lift_exn hb_task) (\<lambda>_.
        bnd (lift_exn (py_list (jget result ''stac_errors''))) (\<lambda>errs.
        set_mosaic_plan_job_result srv job_id (JObj result)
          (if errs \<noteq> [] then ''completed_with_errors'' else ''completed'') None)))))
       (\<lambda>e. bnd (lift_exn hb_task) (\<lambda>_. set_mosaic_plan_job_error srv job_id (error_text str_e e)))"

definition plan_for_owner ::
    "(exn \<Rightarrow> string) \<Rightarrow> (int \<Rightarrow> (('s, 'z) menv_scheme, 'u option) prog) \<Rightarrow>
     ('b \<Rightarrow> 'u \<Rightarrow> string \<Rightarrow> (('s, 'z) menv_scheme, (string \<times> json) list) prog) \<Rightarrow> nat \<Rightarrow> 's redis \<Rightarrow> settings \<Rightarrow>
     string \<Rightarrow> int \<Rightarrow> 'b \<Rightarrow> (('s, 'z) menv_scheme, unit) prog" where
  "plan_for_owner str_e load_user compute n srv cfg job_id owner_id body =
     bnd (outcome (heartbeat n srv cfg job_id)) (\<lambda>hb_task.
     bnd (load_user owner_id) (\<lambda>user.
     case user of
       None \<Rightarrow> bnd (lift_exn hb_task) (\<lambda>_. set_mosaic_plan_job_error srv job_id ''User not found'')
     | Some u \<Rightarrow> plan_and_store str_e compute srv cfg job_id hb_task body u))"

definition run_job ::
    "(exn \<Rightarrow> string) \<Rightarrow> ((string \<times> json) list \<Rightarrow> exn + 'b) \<Rightarrow> (int \<Rightarrow> (('s, 'z) menv_scheme, 'u option) prog) \<Rightarrow>
     ('b \<Rightarrow> 'u \<Rightarrow> string \<Rightarrow> (('s, 'z) menv_scheme, (string \<times> json) list) prog) \<Rightarrow> nat \<Rightarrow> 's redis \<Rightarrow> settings \<Rightarrow>
     (string \<times> json) list \<Rightarrow> (('s, 'z) menv_scheme, unit) prog" where
  "run_job str_e parse load_user compute n srv cfg payload =
     (let job_id = str_of_field payload ''job_id''; body_raw = dict_field payload ''body'' in
      bnd (lift_exn (int_of_field payload ''owner_id'' 0)) (\<lambda>owner_id.
      if job_id = [] \<or> owner_id = 0 \<or> \<not> is_dict body_raw then ret ()
      else
        bnd (set_mosaic_plan_job_status srv job_id ''running'' (Some ''Computing mosaic plan'')) (\<lambda>_.
        case parse (dict_items body_raw) of
          Inl e \<Rightarrow> set_mosaic_plan_job_error srv job_id (''Invalid payload: '' @ str_e e)
        | Inr body \<Rightarrow> plan_for_owner str_e load_user compute n srv cfg job_id owner_id body)))"

section \<open>The loop\<close>

text \<open>The tasks started and not yet collected, by number, and the numbers of the finished ones.\<close>

record mworker =
  active_parent :: "nat list"
  active_subtask :: "nat list"
  active_footprint :: "nat list"
  finished :: "nat list"
  next_task :: nat

definition max_concurrent :: "settings \<Rightarrow> nat" where
  "max_concurrent cfg = (if mosaic_worker_max_concurrent cfg \<le> 0 then 0 else nat (mosaic_worker_max_concurrent cfg))"

definition subtask_workers :: "settings \<Rightarrow> nat" where
  "subtask_workers cfg = nat (max 0 (mosaic_subjob_worker_concurrency cfg))"

definition footprint_budget :: "settings \<Rightarrow> nat" where
  "footprint_budget cfg =
     (let fp_sub_cfg = nat (max 0 (mosaic_footprint_subjob_worker_concurrency cfg)) in if fp_sub_cfg > 0 then fp_sub_cfg else subtask_workers cfg)"

definition st_full :: "settings \<Rightarrow> mworker \<Rightarrow> bool" where
  "st_full cfg s \<longleftrightarrow> subtask_workers cfg > 0 \<and> mosaic_subjob_queue_enabled cfg \<and> length (active_subtask s) \<ge> subtask_workers cfg"

definition fp_full :: "settings \<Rightarrow> mworker \<Rightarrow> bool" where
  "fp_full cfg s \<longleftrightarrow> footprint_budget cfg > 0 \<and> mosaic_footprint_distributed_enabled cfg \<and> length (active_footprint s) \<ge> footprint_budget cfg"

definition wait_on :: "settings \<Rightarrow> mworker \<Rightarrow> nat list" where
  "wait_on cfg s = (if st_full cfg s then active_subtask s else []) @ (if fp_full cfg s then active_footprint s else [])"

text \<open>The wait for room: the finished tasks among those waited for leave the sets.\<close>

definition collect_aux :: "settings \<Rightarrow> mworker \<Rightarrow> mworker" where
  "collect_aux cfg s =
     (let gone = filter (\<lambda>t. t \<in> set (finished s)) (wait_on cfg s)
      in s\<lparr>active_subtask := filter (\<lambda>t. t \<notin> set gone) (active_subtask s),
           active_footprint := filter (\<lambda>t. t \<notin> set gone) (active_footprint s)\<rparr>)"

definition can_take_subtasks :: "settings \<Rightarrow> mworker \<Rightarrow> bool" where
  "can_take_subtasks cfg s \<longleftrightarrow> subtask_workers cfg > 0 \<and> mosaic_subjob_queue_enabled cfg \<and>
     length (active_subtask s) < subtask_workers cfg \<and>
     (mosaic_subjob_consume_subtasks_while_parent_active cfg \<or> length (active_parent s) = 0)"

definition can_take_footprints :: "settings \<Rightarrow> mworker \<Rightarrow> bool" where
  "can_take_footprints cfg s \<longleftrightarrow> footprint_budget cfg > 0 \<and> mosaic_footprint_distributed_enabled cfg \<and>
     length (active_footprint s) < footprint_budget cfg \<and>
     (mosaic_subjob_consume_subtasks_while_parent_active cfg \<or> length (active_parent s) = 0)"

definition aux_keys :: "settings \<Rightarrow> mworker \<Rightarrow> string list" where
  "aux_keys cfg s =
     (if can_take_footprints cfg s then [MOSAIC_PLAN_FOOTPRINT_SUBTASK_QUEUE_KEY] else []) @
     (if can_take_subtasks cfg s then [MOSAIC_PLAN_SUBTASK_QUEUE_KEY] else [])"

definition parents_full :: "settings \<Rightarrow> mworker \<Rightarrow> bool" where
  "parents_full cfg s \<longleftrightarrow> max_concurrent cfg > 0 \<and> length (active_parent s) \<ge> max_concurrent cfg"

text \<open>The queues the worker waits on; the aux queues only while the plan slots are full.\<close>

definition poll_keys :: "settings \<Rightarrow> mworker \<Rightarrow> string list" where
  "poll_keys cfg s =
     (if parents_full cfg s then aux_keys cfg s
      else aux_keys cfg s @ (if max_concurrent cfg > 0 then [MOSAIC_PLAN_QUEUE_KEY] else []))"

definition dispatch_brpop_item :: "string \<Rightarrow> string \<Rightarrow> mworker \<Rightarrow> mworker" where
  "dispatch_brpop_item key raw s =
     (case loads raw of
        Inl _ \<Rightarrow> s
      | Inr _ \<Rightarrow>
          let t = next_task s; s' = s\<lparr>next_task := Suc t\<rparr>
          in if key = MOSAIC_PLAN_SUBTASK_QUEUE_KEY then s'\<lparr>active_subtask := t # active_subtask s\<rparr>
             else if key = MOSAIC_PLAN_FOOTPRINT_SUBTASK_QUEUE_KEY then s'\<lparr>active_footprint := t # active_footprint s\<rparr>
             else s'\<lparr>active_parent := t # active_parent s\<rparr>)"

definition running :: "mworker \<Rightarrow> nat set" where
  "running s = (set (active_parent s) \<union> set (active_subtask s) \<union> set (active_footprint s)) - set (finished s)"

inductive worker_step :: "settings \<Rightarrow> mworker \<Rightarrow> mworker \<Rightarrow> bool" for cfg where
  Finish: "t \<in> running s \<Longrightarrow> worker_step cfg s (s\<lparr>finished := t # finished s\<rparr>)"
| Collect_aux: "set (wait_on cfg s) \<inter> set (finished s) \<noteq> {} \<Longrightarrow> worker_step cfg s (collect_aux cfg s)"
| Take: "\<not> st_full cfg s \<Longrightarrow> \<not> fp_full cfg s \<Longrightarrow> k \<in> set (poll_keys cfg s) \<Longrightarrow> worker_step cfg s (dispatch_brpop_item k raw s)"
| Collect_parents: "\<not> st_full cfg s \<Longrightarrow> \<not> fp_full cfg s \<Longrightarrow> parents_full cfg s \<Longrightarrow>
    set (active_parent s) \<inter> set (finished s) \<noteq> {} \<Longrightarrow>
    worker_step cfg s (s\<lparr>active_parent := filter (\<lambda>t. t \<notin> set (finished s)) (active_parent s)\<rparr>)"

definition worker0 :: mworker where
  "worker0 = \<lparr>active_parent = [], active_subtask = [], active_footprint = [], finished = [], next_task = 0\<rparr>"

section \<open>Payloads are read back\<close>

lemma py_list_JArr [simp]: "py_list (JArr xs) = Inr xs"
  by (simp add: py_list_def)

lemma str_of_field_JStr: "jget d k = JStr s \<Longrightarrow> str_of_field d k = s"
  by (simp add: str_of_field_def py_str_def)

lemma catalogs_back:
  "catalogs_from_rows (map (\<lambda>c. JObj [(''id'', JStr (cat_id c)), (''stac_api_root_url'', JStr (cat_root c)),
     (''default_collections'', JArr (cat_default c))]) cs) = Inr cs"
  by (induction cs) (simp_all add: str_of_field_def jget_def py_str_def)

lemma j_list_all: "(\<And>x. x \<in> set xs \<Longrightarrow> f (g x) = Inr x) \<Longrightarrow> j_list f (map g xs) = Inr xs"
  by (induction xs) simp_all

text \<open>What the coordinator puts into a subtask is what the worker searches for: the same catalogues, collection, box, slice, cloud
  cover, order and limit, for a box of four numbers whose printed form is read back as the same number.\<close>

theorem subtask_payload_read_back:
  assumes "\<forall>x\<in>set bbox. json_float (fl x) = Inr x" and "length bbox = 4" and "sort_mode \<noteq> []" and "fetch_limit \<noteq> 0"
  shows "search_args_of (build_subtask_payload fl catalogs stac_collection bbox slice cloud sort_mode fetch_limit) =
    Inr \<lparr>sa_catalogs = catalogs, sa_collection = stac_collection, sa_bbox = bbox, sa_slices = [slice], sa_cloud = cloud,
         sa_sort = sort_mode, sa_limit = fetch_limit\<rparr>"
proof -
  have "j_list json_float (take 4 (map fl bbox)) = Inr bbox"
    using assms(1, 2) by (subst take_all) (auto intro: j_list_all)
  then show ?thesis
    using assms(3, 4) by (simp add: search_args_of_def build_subtask_payload_def catalog_payload_def jget_def catalogs_back
        str_of_field_def int_of_field_def py_str_def json_int_def Let_def)
qed

definition whole :: "rat \<Rightarrow> json" where
  "whole x = JInt \<lfloor>x\<rfloor>"

theorem subtask_payload_read_back_witness:
  "search_args_of (build_subtask_payload whole [] ''sentinel-2-l2a'' [3, 40, 7, 44] ''2024-01-01T00:00:00Z/2024-01-31T23:59:59Z''
      (JInt 20) ''newest'' 250) =
    Inr \<lparr>sa_catalogs = [], sa_collection = ''sentinel-2-l2a'', sa_bbox = [3, 40, 7, 44],
         sa_slices = [''2024-01-01T00:00:00Z/2024-01-31T23:59:59Z''], sa_cloud = JInt 20, sa_sort = ''newest'', sa_limit = 250\<rparr>"
  by (rule subtask_payload_read_back) (simp_all add: whole_def json_float_def)

section \<open>A subtask reports once\<close>

definition mosaic_space :: "string set" where
  "mosaic_space = {k. \<exists>r. k = ''geofastmap:mosaic_'' @ r}"

lemma mosaic_space_keys [simp]:
  "mosaic_job_key i \<in> mosaic_space" "subtask_key i \<in> mosaic_space" "subtask_result_key j r \<in> mosaic_space"
  "MOSAIC_PLAN_SUBTASK_QUEUE_KEY \<in> mosaic_space" "MOSAIC_PLAN_QUEUE_KEY \<in> mosaic_space"
  by (simp_all add: mosaic_space_def mosaic_job_key_def subtask_key_def subtask_result_key_def mosaic_key_defs)

text \<open>A program that leaves the keys of the planner alone.\<close>

definition spares :: "('s \<Rightarrow> store) \<Rightarrow> (('s, 'z) env_scheme, 'a) prog \<Rightarrow> bool" where
  "spares view m \<longleftrightarrow> (\<forall>w. \<forall>k\<in>mosaic_space. view (rds (snd (m w))) k = view (rds w) k)"

text \<open>The entry a subtask reports, given how its search ended.\<close>

definition subtask_answer :: "(exn \<Rightarrow> string) \<Rightarrow> string \<Rightarrow> exn + json list \<times> json list \<Rightarrow> json" where
  "subtask_answer str_e task_id found =
     (case found of
        Inl e \<Rightarrow> subtask_result_entry task_id ''failed''
          (JObj [(''features'', JArr []), (''errors'', JArr [JObj [(''detail'', JStr (error_text str_e e))]])])
      | Inr (features, errors) \<Rightarrow>
          subtask_result_entry task_id (if errors \<noteq> [] then ''completed_with_errors'' else ''completed'')
            (JObj [(''features'', JArr features), (''errors'', JArr errors)]))"

definition search_of :: "(search_args \<Rightarrow> ('w, json list \<times> json list) prog) \<Rightarrow> (string \<times> json) list \<Rightarrow> ('w, json list \<times> json list) prog" where
  "search_of collect body = bnd (lift_exn (search_args_of body)) collect"

lemma execute_search: "execute_subtask_payload collect body =
    bnd (search_of collect body) (\<lambda>(features, errors). ret [(''features'', JArr features), (''errors'', JArr errors)])"
  by (simp add: execute_subtask_payload_def search_of_def bnd_assoc)

lemma spares_search: "(\<And>a. spares view (collect a)) \<Longrightarrow> spares view (search_of collect body)"
  by (auto simp: spares_def search_of_def prog_simps split: sum.split)

lemma subtask_fields:
  assumes "subtask_message tid jid oid r sk (JObj body) = JObj payload"
  shows "str_of_field payload ''task_id'' = tid" "str_of_field payload ''job_id'' = jid" "int_of_field payload ''round_idx'' 0 = Inr r"
    "dict_field payload ''payload'' = JObj body"
  using assms by (auto simp: subtask_message_def str_of_field_def int_of_field_def dict_field_def jget_def py_str_def json_int_def Let_def)

context redis_up
begin

lemma subtask_status_run:
  assumes "as_hash (view (rds w) tkey) = Some (h, t)"
  shows "fst (set_subtask_status srv tkey status None w) = Inr ()"
    and "\<exists>h'. view (rds (snd (set_subtask_status srv tkey status None w))) = (view (rds w))(tkey \<mapsto> (RHash h', t))"
  using assms by (simp_all add: set_subtask_status_def prog_simps redis_simps) blast

lemma report_result_run:
  assumes "as_hash (view (rds w) tkey) = Some (h, t)" and "as_list (view (rds w) key) = Some (l, t')" and "tkey \<noteq> key"
  shows "fst (report_result srv tkey key status result entry w) = Inr ()"
    and "\<exists>h'. view (rds (snd (report_result srv tkey key status result entry w))) =
      (view (rds w))(tkey \<mapsto> (RHash h', t), key \<mapsto> (RList (l @ [dumps_compact entry]), t')) \<and> map_of h' ''status'' = Some status"
  using assms by (simp_all add: report_result_def prog_simps redis_simps) (intro exI conjI, rule refl, simp)

lemma run_subtask_once:
  assumes msg: "subtask_message tid jid oid r sk (JObj body) = JObj payload" and ids: "tid \<noteq> []" "jid \<noteq> []"
    and h: "as_hash (view (rds w) (subtask_key tid)) = Some (h, th)" and l: "as_list (view (rds w) (subtask_result_key jid r)) = Some (l, t)"
    and sp: "\<And>a. spares view (collect a)"
  shows "\<exists>w1 w' h'. run_subtask str_e (execute_subtask_payload collect) srv payload w = (Inr (), w') \<and>
     view (rds w') (subtask_key tid) = Some (RHash h', th) \<and>
     view (rds w') (subtask_result_key jid r) =
       Some (RList (l @ [dumps_compact (subtask_answer str_e tid (fst (search_of collect body w1)))]), t) \<and>
     (\<forall>k\<in>mosaic_space - {subtask_key tid, subtask_result_key jid r}. view (rds w') k = view (rds w) k)"
proof -
  let ?k = "subtask_key tid" and ?rk = "subtask_result_key jid r"
  define w1 where "w1 = snd (set_subtask_status srv ?k ''running'' None w)"
  define w2 where "w2 = snd (search_of collect body w1)"
  obtain h1 where v1: "view (rds w1) = (view (rds w))(?k \<mapsto> (RHash h1, th))"
    using subtask_status_run(2) [OF h] by (auto simp: w1_def)
  have v2: "view (rds w2) k = view (rds w1) k" if "k \<in> mosaic_space" for k
    using spares_search [of view collect body, OF sp] that by (auto simp: spares_def w2_def)
  have hl: "as_hash (view (rds w2) ?k) = Some (h1, th)" "as_list (view (rds w2) ?rk) = Some (l, t)"
    using v1 v2 l by (simp_all add: redis_simps)
  have run: "run_subtask str_e (execute_subtask_payload collect) srv payload w =
      (case fst (search_of collect body w1) of
         Inl e \<Rightarrow> set_mosaic_plan_subtask_result srv tid jid r
             (JObj [(''features'', JArr []), (''errors'', JArr [JObj [(''detail'', JStr (error_text str_e e))]])]) ''failed'' w2
       | Inr (features, errors) \<Rightarrow> set_mosaic_plan_subtask_result srv tid jid r (JObj [(''features'', JArr features), (''errors'', JArr errors)])
             (if errors \<noteq> [] then ''completed_with_errors'' else ''completed'') w2)"
  proof -
    have a: "\<not> (tid = [] \<or> jid = [] \<or> \<not> is_dict (JObj body))" using ids by (simp add: is_dict_def)
    have "set_mosaic_plan_subtask_status srv tid ''running'' None w = (Inr (), w1)"
      using subtask_status_run(1) [OF h] by (simp add: set_mosaic_plan_subtask_status_def w1_def prod_eq_iff)
    then have "run_subtask str_e (execute_subtask_payload collect) srv payload w =
        catch (bnd (execute_subtask_payload collect body) (\<lambda>result.
             bnd (lift_exn (py_list (jget result ''errors''))) (\<lambda>errs.
             bnd (set_mosaic_plan_subtask_result srv tid jid r (JObj result)
               (if errs \<noteq> [] then ''completed_with_errors'' else ''completed'')) (\<lambda>_.
             bnd (lift_exn (py_list (jget result ''features''))) (\<lambda>_. ret ())))))
          (\<lambda>e. set_mosaic_plan_subtask_result srv tid jid r
             (JObj [(''features'', JArr []), (''errors'', JArr [JObj [(''detail'', JStr (error_text str_e e))]])]) ''failed'') w1"
      using a by (simp add: run_subtask_def subtask_fields [OF msg] Let_def lift_exn_def dict_items_def bnd_def [where w = w] bnd_def)
    also have "\<dots> = (case fst (search_of collect body w1) of
         Inl e \<Rightarrow> set_mosaic_plan_subtask_result srv tid jid r
             (JObj [(''features'', JArr []), (''errors'', JArr [JObj [(''detail'', JStr (error_text str_e e))]])]) ''failed'' w2
       | Inr (features, errors) \<Rightarrow> set_mosaic_plan_subtask_result srv tid jid r (JObj [(''features'', JArr features), (''errors'', JArr errors)])
             (if errors \<noteq> [] then ''completed_with_errors'' else ''completed'') w2)"
    proof (cases "fst (search_of collect body w1)")
      case (Inl e)
      then show ?thesis by (simp add: execute_search catch_def bnd_def w2_def)
    next
      case (Inr fe)
      obtain fs es where fe: "fe = (fs, es)" by (cases fe)
      have "fst (set_mosaic_plan_subtask_result srv tid jid r result st w2) = Inr ()" for result st
        unfolding set_mosaic_plan_subtask_result_def by (rule report_result_run(1) [OF hl]) simp
      then show ?thesis using Inr
        by (simp add: execute_search catch_def bnd_def fe ret_def lift_exn_def jget_def prod_eq_iff flip: w2_def)
    qed
    finally show ?thesis .
  qed
  obtain st res where eq: "run_subtask str_e (execute_subtask_payload collect) srv payload w =
      report_result srv ?k ?rk st res (subtask_answer str_e tid (fst (search_of collect body w1))) w2"
  proof (cases "fst (search_of collect body w1)")
    case (Inl e)
    show thesis by (rule that, unfold run) (simp add: Inl subtask_answer_def set_mosaic_plan_subtask_result_def)
  next
    case (Inr fe)
    obtain fs es where fe: "fe = (fs, es)" by (cases fe)
    show thesis by (rule that, unfold run) (simp only: Inr fe subtask_answer_def set_mosaic_plan_subtask_result_def sum.case prod.case)
  qed
  note rep = report_result_run [OF hl mosaic_keys(5), of st res "subtask_answer str_e tid (fst (search_of collect body w1))"]
  let ?R = "report_result srv ?k ?rk st res (subtask_answer str_e tid (fst (search_of collect body w1))) w2"
  obtain h' where v3: "view (rds (snd ?R)) = (view (rds w2))(?k \<mapsto> (RHash h', th),
      ?rk \<mapsto> (RList (l @ [dumps_compact (subtask_answer str_e tid (fst (search_of collect body w1)))]), t))" using rep(2) by blast
  have others: "view (rds (snd ?R)) k = view (rds w) k" if "k \<in> mosaic_space - {?k, ?rk}" for k
    using that v1 v2 [of k] by (simp add: v3)
  have "?R = (Inr (), snd ?R)" using rep(1) by (simp add: prod_eq_iff)
  then show ?thesis unfolding eq using others by (intro exI [of _ w1] exI [of _ "snd ?R"] exI [of _ h']) (simp add: v3)
qed

end

text \<open>As long as Redis answers, a subtask taken from its queue reports exactly one entry on the result list of its round: what the search found,
  or its failure; nothing else of the planner's keys changes but the hash of the subtask.\<close>

theorem subtask_reports_once:
  assumes "redis_up srv view" and "subtask_message tid jid oid r sk (JObj body) = JObj payload" and "tid \<noteq> []" and "jid \<noteq> []"
    and "as_hash (view (rds w) (subtask_key tid)) = Some (h, th)" and "as_list (view (rds w) (subtask_result_key jid r)) = Some (l, t)"
    and "\<forall>a. spares view (collect a)"
  shows "\<exists>w1 w'. run_subtask str_e (execute_subtask_payload collect) srv payload w = (Inr (), w') \<and>
     as_list (view (rds w') (subtask_result_key jid r)) =
       Some (l @ [dumps_compact (subtask_answer str_e tid (fst (search_of collect body w1)))], t) \<and>
     (\<forall>k\<in>mosaic_space - {subtask_key tid, subtask_result_key jid r}. view (rds w') k = view (rds w) k)"
proof -
  have "spares view (collect a)" for a using assms(7) by blast
  from redis_up.run_subtask_once [where collect = collect, OF assms(1-6) this, of str_e]
  show ?thesis by (auto simp: as_simps)
qed

definition example_subtask :: "(string \<times> json) list" where
  "example_subtask = dict_items (subtask_message ''t'' ''j'' 7 0 ''k''
     (JObj [(''stac_collection'', JStr ''s2'')]))"

definition finds_one :: "search_args \<Rightarrow> (('s, 'z) env_scheme, json list \<times> json list) prog" where
  "finds_one a = ret ([JStr (sa_collection a)], [])"

definition subtask_store :: "(string \<times> rentry) list" where
  "subtask_store = [(subtask_key ''t'', (RHash [(''status'', ''pending'')], Some 3600))]"

lemma spares_ret: "spares view (ret a)"
  by (simp add: spares_def prog_simps)

theorem subtask_reports_once_witness:
  "\<exists>w' entry. run_subtask exn_name (execute_subtask_payload finds_one) mem_srv example_subtask (menv0 subtask_store) = (Inr (), w') \<and>
    as_list (map_of (rds w') (subtask_result_key ''j'' 0)) = Some ([dumps_compact entry], None)"
proof -
  have "subtask_message ''t'' ''j'' 7 0 ''k'' (JObj [(''stac_collection'', JStr ''s2'')]) =
      JObj example_subtask" by (simp add: example_subtask_def dict_items_def subtask_message_def)
  from subtask_reports_once [OF mem.redis_up_axioms this, where w = "menv0 subtask_store" and collect = finds_one and str_e = exn_name
      and l = "[]" and t = None and h = "[(''status'', ''pending'')]" and th = "Some 3600"]
  show ?thesis by (auto simp: menv0_def subtask_store_def redis_simps finds_one_def spares_ret) 
qed

lemma script_step:
  "fst (script_srv (One c) (Fine # fs, db)) = fst (mem_srv (One c) db)" "snd (script_srv (One c) (Fine # fs, db)) = (fs, snd (mem_srv (One c) db))"
  "fst (script_srv (One c) (Lost # fs, db)) = Inl RedisError" "snd (script_srv (One c) (Lost # fs, db)) = (fs, snd (mem_srv (One c) db))"
  "fst (script_srv (One c) (Dropped # fs, db)) = Inl RedisError" "snd (script_srv (One c) (Dropped # fs, db)) = (fs, db)"
  "fst (script_srv (One c) ([], db)) = fst (mem_srv (One c) db)" "snd (script_srv (One c) ([], db)) = ([], snd (mem_srv (One c) db))"
  by (simp_all add: script_srv_def split: prod.split)

text \<open>When the reply to the report of a subtask is lost, the worker takes the search as failed and reports again: the round has two
  entries for one subtask, one of them a failure.\<close>

theorem lost_reply_reports_twice:
  "map_option fst (as_list (map_of (snd (rds (snd
      (run_subtask exn_name (execute_subtask_payload finds_one) script_srv example_subtask
        (env0 ([Fine, Fine, Lost], subtask_store)))))) (subtask_result_key ''j'' 0))) =
   Some (map dumps_compact
        [subtask_result_entry ''t'' ''completed'' (JObj [(''features'', JArr [JStr ''s2'']), (''errors'', JArr [])]),
         subtask_result_entry ''t'' ''failed'' (JObj [(''features'', JArr []), (''errors'', JArr [JObj [(''detail'', JStr ''RedisError'')]])])])"
proof -
  let ?w = "env0 ([Fine, Fine, Lost], subtask_store)"
  let ?found = "[(''features'', JArr [JStr ''s2'']), (''errors'', JArr [])]"
  have msg: "subtask_message ''t'' ''j'' 7 0 ''k'' (JObj [(''stac_collection'', JStr ''s2'')]) = JObj example_subtask"
    by (simp add: example_subtask_def dict_items_def subtask_message_def)
  have exec: "execute_subtask_payload finds_one [(''stac_collection'', JStr ''s2'')] = ret ?found"
    by (simp add: execute_subtask_payload_def finds_one_def search_args_of_def jget_def py_list_def int_of_field_def str_of_field_def
        py_str_def Let_def lift_exn_def bnd_def ret_def fun_eq_iff)
  show ?thesis
    by (simp add: run_subtask_def subtask_fields [OF msg] is_dict_def dict_items_def exec jget_def Let_def
        set_mosaic_plan_subtask_status_def set_subtask_status_def set_mosaic_plan_subtask_result_def report_result_def
        prog_simps client_defs script_step mem.up_rep mem.up_view1 redis_simps subtask_store_def error_text_def exn_name_def)
qed

section \<open>A plan job ends\<close>

definition has_hash :: "('s \<Rightarrow> store) \<Rightarrow> string \<Rightarrow> ('s, 'z) env_scheme \<Rightarrow> bool" where
  "has_hash view job_id w \<longleftrightarrow> as_hash (view (rds w) (mosaic_job_key job_id)) \<noteq> None"

definition job_field :: "('s \<Rightarrow> store) \<Rightarrow> string \<Rightarrow> ('s, 'z) env_scheme \<Rightarrow> string \<Rightarrow> string option" where
  "job_field view job_id w f = (case as_hash (view (rds w) (mosaic_job_key job_id)) of None \<Rightarrow> None | Some (h, _) \<Rightarrow> map_of h f)"

definition ended :: "('s \<Rightarrow> store) \<Rightarrow> string \<Rightarrow> ('s, 'z) env_scheme \<Rightarrow> bool" where
  "ended view job_id w \<longleftrightarrow> job_field view job_id w ''status'' \<in> Some ` {''completed'', ''completed_with_errors'', ''failed''} \<and>
     job_field view job_id w ''finished_at'' \<noteq> None"

abbreviation never :: "exn \<Rightarrow> 'w \<Rightarrow> bool" where
  "never \<equiv> \<lambda>_ _. False"

lemma triple_outcome: "triple P m Q never \<Longrightarrow> triple P (outcome m) (\<lambda>r w. \<exists>a. r = Inr a \<and> Q a w) E"
proof (simp add: triple_def outcome_def, intro allI impI)
  fix w assume "\<forall>w. P w \<longrightarrow> (case fst (m w) of Inl e \<Rightarrow> False | Inr a \<Rightarrow> Q a (snd (m w)))" and "P w"
  then show "\<exists>a. fst (m w) = Inr a \<and> Q a (snd (m w))" by (cases "fst (m w)") (metis sum.case(1), metis sum.case(2))
qed

lemma triple_never: "triple P m Q never \<Longrightarrow> triple P m Q E"
  by (erule triple_weaken) auto

context redis_up
begin

lemma triple_hset:
  assumes "ps \<noteq> []"
  shows "triple (has_hash view job_id) (r_hset srv (mosaic_job_key job_id) ps)
    (\<lambda>_ w. has_hash view job_id w \<and> (\<forall>f v. map_of (rev ps) f = Some v \<longrightarrow> job_field view job_id w f = Some v)) never"
  using assms unfolding triple_def has_hash_def job_field_def
  by (auto simp: prog_simps redis_simps map_of_hash_updates_rev split: option.splits)

lemma triple_now: "triple (has_hash view job_id) to_iso_now (\<lambda>_. has_hash view job_id) never"
  by (simp add: triple_def has_hash_def prog_simps)

lemma triple_progress:
  "triple (has_hash view job_id) (set_mosaic_plan_job_progress srv cfg job_id flds) (\<lambda>_. has_hash view job_id) never"
  unfolding set_mosaic_plan_job_progress_def Let_def
proof (intro triple_bnd [where R = "\<lambda>_. has_hash view job_id"] triple_if)
  show "triple (has_hash view job_id) time_monotonic (\<lambda>_. has_hash view job_id) never"
    by (simp add: triple_def has_hash_def prog_simps)
  show "triple (has_hash view job_id) (r_hset srv (mosaic_job_key job_id) ((''updated_at'', a) # progress_fields flds))
      (\<lambda>_. has_hash view job_id) never" for a
    by (rule triple_weaken [OF triple_hset]) auto
qed (auto simp: has_hash_def intro: triple_gets triple_ret triple_modify triple_now)

lemma triple_heartbeat: "triple (has_hash view job_id) (heartbeat n srv cfg job_id) (\<lambda>_. has_hash view job_id) never"
  by (induction n) (auto simp: beat_def intro: triple_ret triple_bnd triple_progress)

lemma triple_running:
  "triple (has_hash view job_id) (set_mosaic_plan_job_status srv job_id ''running'' (Some m))
     (\<lambda>_ w. has_hash view job_id w \<and> job_field view job_id w ''status'' = Some ''running'') never"
  unfolding set_mosaic_plan_job_status_def Let_def
proof (rule triple_bnd [OF triple_now])
  fix now
  let ?m = "[(''status'', ''running''), (''updated_at'', now)] @ (case Some m of None \<Rightarrow> [] | Some m \<Rightarrow> [(''message'', m)])"
  have "triple (has_hash view job_id) (r_hset srv (mosaic_job_key job_id) ?m)
      (\<lambda>_ w. has_hash view job_id w \<and> job_field view job_id w ''status'' = Some ''running'') never"
    by (rule triple_weaken [OF triple_hset]) auto
  then show "triple (has_hash view job_id)
     (bnd (if ''running'' \<in> set [''completed'', ''failed'', ''cancelled''] then bnd to_iso_now (\<lambda>t. ret (?m @ [(''finished_at'', t)])) else ret ?m)
       (\<lambda>mapping. bnd (r_hset srv (mosaic_job_key job_id) mapping) (\<lambda>_. ret ())))
     (\<lambda>_ w. has_hash view job_id w \<and> job_field view job_id w ''status'' = Some ''running'') never"
    by (auto intro!: triple_bnd triple_ret)
qed

lemma triple_ends:
  assumes "st \<in> {''completed'', ''completed_with_errors'', ''failed''}"
    and extra: "\<And>u f. fst ` set (extra u f) \<inter> {''status'', ''finished_at''} = {}"
  shows "triple (has_hash view job_id) (bnd to_iso_now (\<lambda>u. bnd to_iso_now (\<lambda>f.
      bnd (r_hset srv (mosaic_job_key job_id) ((''status'', st) # (''updated_at'', u) # (''finished_at'', f) # extra u f)) (\<lambda>_. ret ()))))
    (\<lambda>_. ended view job_id) never"
proof (rule triple_bnd [OF triple_now], rule triple_bnd [OF triple_now])
  fix u f
  have "map_of (rev (extra u f)) k = None" if "k \<in> {''status'', ''finished_at''}" for k
    using that extra [of u f] by (force simp: map_of_eq_None_iff)
  then show "triple (has_hash view job_id)
      (bnd (r_hset srv (mosaic_job_key job_id) ((''status'', st) # (''updated_at'', u) # (''finished_at'', f) # extra u f)) (\<lambda>_. ret ()))
      (\<lambda>_. ended view job_id) never"
    using assms by (intro triple_bnd [OF triple_hset] triple_ret) (auto simp: ended_def map_add_def)
qed

lemma triple_error: "triple (has_hash view job_id) (set_mosaic_plan_job_error srv job_id m) (\<lambda>_. ended view job_id) never"
  unfolding set_mosaic_plan_job_error_def by (rule triple_ends) auto

lemma triple_result:
  "st \<in> {''completed'', ''completed_with_errors'', ''failed''} \<Longrightarrow>
   triple (has_hash view job_id) (set_mosaic_plan_job_result srv job_id result st m) (\<lambda>_. ended view job_id) never"
  unfolding set_mosaic_plan_job_result_def by (rule triple_ends) auto

lemma triple_plan_and_store:
  assumes comp: "\<And>b u. preserves (has_hash view job_id) (compute b u job_id)"
  shows "triple (has_hash view job_id) (plan_and_store str_e compute srv cfg job_id (Inr ()) body u) (\<lambda>_. ended view job_id) never"
  unfolding plan_and_store_def
proof (rule triple_catch [where R = "\<lambda>_. has_hash view job_id"])
  show "triple (has_hash view job_id) (bnd (lift_exn (Inr ())) (\<lambda>_. set_mosaic_plan_job_error srv job_id (error_text str_e e)))
      (\<lambda>_. ended view job_id) never" for e
    by (rule triple_bnd [OF _ triple_error]) (auto intro: triple_lift_exn)
qed (intro triple_bnd [OF comp] triple_bnd [OF triple_never [OF triple_progress]] triple_bnd [where R = "\<lambda>_. has_hash view job_id"]
      triple_never [OF triple_result] triple_lift_exn; auto)

lemma triple_plan_for_owner:
  assumes user: "triple (has_hash view job_id) (load_user owner) (\<lambda>_. has_hash view job_id) never"
    and comp: "\<And>b u. preserves (has_hash view job_id) (compute b u job_id)"
  shows "triple (has_hash view job_id) (plan_for_owner str_e load_user compute n srv cfg job_id owner body) (\<lambda>_. ended view job_id) never"
  unfolding plan_for_owner_def
proof (rule triple_bnd [OF triple_outcome [OF triple_heartbeat]])
  fix hb
  show "triple (\<lambda>w. \<exists>a. hb = Inr a \<and> has_hash view job_id w) (bnd (load_user owner) (\<lambda>user.
     case user of
       None \<Rightarrow> bnd (lift_exn hb) (\<lambda>_. set_mosaic_plan_job_error srv job_id ''User not found'')
     | Some u \<Rightarrow> plan_and_store str_e compute srv cfg job_id hb body u)) (\<lambda>_. ended view job_id) never"
  proof (cases hb)
    case (Inr a)
    then have [simp]: "hb = Inr ()" by simp
    have "triple (has_hash view job_id) (bnd (lift_exn (Inr ())) (\<lambda>_. set_mosaic_plan_job_error srv job_id ''User not found'')) (\<lambda>_. ended view job_id) never"
      by (rule triple_bnd [OF _ triple_error]) (auto intro: triple_lift_exn)
    then show ?thesis by (auto intro!: triple_bnd [OF user] triple_case_option triple_plan_and_store comp)
  qed (simp add: triple_def)
qed

lemma triple_run_job:
  assumes ids: "str_of_field payload ''job_id'' = job_id" "job_id \<noteq> []" "int_of_field payload ''owner_id'' 0 = Inr owner" "owner \<noteq> 0"
      "is_dict (dict_field payload ''body'')"
    and user: "triple (has_hash view job_id) (load_user owner) (\<lambda>_. has_hash view job_id) never"
    and comp: "\<And>b u. preserves (has_hash view job_id) (compute b u job_id)"
  shows "triple (has_hash view job_id) (run_job str_e parse load_user compute n srv cfg payload) (\<lambda>_. ended view job_id) never"
proof -
  have run: "run_job str_e parse load_user compute n srv cfg payload =
      bnd (set_mosaic_plan_job_status srv job_id ''running'' (Some ''Computing mosaic plan'')) (\<lambda>_.
        case parse (dict_items (dict_field payload ''body'')) of
          Inl e \<Rightarrow> set_mosaic_plan_job_error srv job_id (''Invalid payload: '' @ str_e e)
        | Inr body \<Rightarrow> plan_for_owner str_e load_user compute n srv cfg job_id owner body)"
    using ids by (simp add: run_job_def Let_def lift_exn_def bnd_def fun_eq_iff)
  have body: "triple (has_hash view job_id) (case parse (dict_items (dict_field payload ''body'')) of
          Inl e \<Rightarrow> set_mosaic_plan_job_error srv job_id (''Invalid payload: '' @ str_e e)
        | Inr body \<Rightarrow> plan_for_owner str_e load_user compute n srv cfg job_id owner body) (\<lambda>_. ended view job_id) never"
    by (simp add: triple_error triple_plan_for_owner [where load_user = load_user and compute = compute and owner = owner and job_id = job_id] user comp split: sum.split)
  have status: "triple (has_hash view job_id) (set_mosaic_plan_job_status srv job_id ''running'' (Some ''Computing mosaic plan''))
      (\<lambda>_. has_hash view job_id) never" by (rule triple_weaken [OF triple_running]) auto
  show ?thesis unfolding run by (rule triple_bnd [OF status body])
qed

lemma triple_other_field:
  assumes "ps \<noteq> []" and "f \<notin> fst ` set ps"
  shows "triple (\<lambda>w. has_hash view job_id w \<and> job_field view job_id w f = v) (r_hset srv (mosaic_job_key job_id) ps)
    (\<lambda>_ w. has_hash view job_id w \<and> job_field view job_id w f = v) never"
proof -
  have "map_of (rev ps) f = None" using assms(2) by (force simp: map_of_eq_None_iff)
  then show ?thesis using assms(1) unfolding triple_def has_hash_def job_field_def
    by (auto simp: prog_simps redis_simps map_of_hash_updates_rev map_add_def split: option.splits)
qed

lemma triple_beat:
  "triple (\<lambda>w. has_hash view job_id w \<and> job_field view job_id w ''status'' = v) (beat srv cfg job_id)
    (\<lambda>_ w. has_hash view job_id w \<and> job_field view job_id w ''status'' = v) never" (is "triple ?P _ _ _")
proof -
  have world: "?P (w\<lparr>mono_n := k\<rparr>) = ?P w" "?P (w\<lparr>ticks := k\<rparr>) = ?P w" "?P (w\<lparr>last_progress := lp\<rparr>) = ?P w" for w k lp
    by (simp_all add: has_hash_def job_field_def)
  show ?thesis
    unfolding beat_def set_mosaic_plan_job_progress_def Let_def
  proof (intro triple_bnd [where R = "\<lambda>_. ?P"] triple_if)
    show "triple ?P time_monotonic (\<lambda>_. ?P) never" "triple ?P to_iso_now (\<lambda>_. ?P) never"
      by (auto simp: triple_def prog_simps world)
    show "triple ?P (r_hset srv (mosaic_job_key job_id) ((''updated_at'', a) # progress_fields
          [(''phase'', JStr ''planning''), (''rounds_max'', JInt r), (''retry_after_seconds'', JInt 1)])) (\<lambda>_. ?P) never" for a r
      by (rule triple_other_field) (simp_all add: progress_fields_def)
  qed (simp_all add: triple_def prog_simps has_hash_def job_field_def)
qed

lemma triple_heartbeat_status:
  "triple (\<lambda>w. has_hash view job_id w \<and> job_field view job_id w ''status'' = v) (heartbeat n srv cfg job_id)
    (\<lambda>_ w. has_hash view job_id w \<and> job_field view job_id w ''status'' = v) never"
  by (induction n) (auto intro: triple_ret triple_bnd triple_beat)

end

text \<open>C32: As long as Redis answers and the owner of a job can be looked up, a plan job that is taken ends: its status is completed, completed with
  errors or failed and it has a time of finishing, whatever the planning does, returns or raises.\<close>

theorem plan_job_ends:
  assumes "redis_up srv view" and "str_of_field payload ''job_id'' = job_id" and "job_id \<noteq> []"
    and "int_of_field payload ''owner_id'' 0 = Inr owner" and "owner \<noteq> 0" and "is_dict (dict_field payload ''body'')"
    and "has_hash view job_id w" and "triple (has_hash view job_id) (load_user owner) (\<lambda>_. has_hash view job_id) never"
    and "\<forall>b u. preserves (has_hash view job_id) (compute b u job_id)"
  shows "\<exists>w'. run_job str_e parse load_user compute n srv cfg payload w = (Inr (), w') \<and> ended view job_id w'"
proof -
  have "preserves (has_hash view job_id) (compute b u job_id)" for b u using assms(9) by blast
  from redis_up.triple_run_job [where compute = compute and load_user = load_user, OF assms(1-6, 8) this]
  have "triple (has_hash view job_id) (run_job str_e parse load_user compute n srv cfg payload) (\<lambda>_. ended view job_id) never" .
  then have "case fst (run_job str_e parse load_user compute n srv cfg payload w) of
      Inl e \<Rightarrow> False | Inr a \<Rightarrow> ended view job_id (snd (run_job str_e parse load_user compute n srv cfg payload w))"
    using assms(7) by (simp add: triple_def)
  then show ?thesis by (cases "run_job str_e parse load_user compute n srv cfg payload w") (auto split: sum.splits)
qed

definition example_job :: "(string \<times> json) list" where
  "example_job = dict_items (plan_job_message ''j'' 7 example_body)"

lemma example_job_fields:
  "str_of_field example_job ''job_id'' = ''j''" "int_of_field example_job ''owner_id'' 0 = Inr 7" "dict_field example_job ''body'' = JObj example_body"
  by (simp_all add: example_job_def dict_items_def plan_job_message_def str_of_field_def int_of_field_def dict_field_def jget_def
      py_str_def json_int_def Let_def example_body_def)

theorem plan_job_ends_witness:
  "\<exists>w'. run_job exn_name Inr (\<lambda>_. ret (Some ())) (\<lambda>_ _ _. raise (RuntimeError ''no images'')) 2 mem_srv default_settings example_job
      (menv0 one_job) = (Inr (), w') \<and> ended map_of ''j'' w'"
  by (rule plan_job_ends [OF mem.redis_up_axioms example_job_fields(1) _ example_job_fields(2)])
     (auto simp: example_job_fields is_dict_def has_hash_def menv0_def one_job_def redis_simps intro: triple_ret triple_raise)

text \<open>When the query for the owner of a job fails, the exception leaves the worker's task: the job stays running without a
  result or an error, although nothing will finish it.\<close>

theorem failed_lookup_leaves_job_running:
  assumes "redis_up srv view" and "str_of_field payload ''job_id'' = job_id" and "job_id \<noteq> []"
    and "int_of_field payload ''owner_id'' 0 = Inr owner" and "owner \<noteq> 0" and "is_dict (dict_field payload ''body'')"
    and "has_hash view job_id w" and "parse (dict_items (dict_field payload ''body'')) = Inr body"
    and "\<forall>w. load_user owner w = (Inl e, w)"
  shows "\<exists>w'. run_job str_e parse load_user compute n srv cfg payload w = (Inl e, w') \<and> job_field view job_id w' ''status'' = Some ''running''"
proof -
  let ?R = "\<lambda>w. has_hash view job_id w \<and> job_field view job_id w ''status'' = Some ''running''"
  let ?m = "run_job str_e parse load_user compute n srv cfg payload"
  have run: "?m = bnd (set_mosaic_plan_job_status srv job_id ''running'' (Some ''Computing mosaic plan'')) (\<lambda>_.
        plan_for_owner str_e load_user compute n srv cfg job_id owner body)"
    using assms(2-6, 8) by (simp add: run_job_def Let_def lift_exn_def bnd_def fun_eq_iff)
  have "triple ?R (plan_for_owner str_e load_user compute n srv cfg job_id owner body) (\<lambda>_ _. False) (\<lambda>e' w. e' = e \<and> ?R w)"
    unfolding plan_for_owner_def
    by (rule triple_bnd [OF triple_outcome [OF redis_up.triple_heartbeat_status [OF assms(1)]]])
       (use assms(9) in \<open>auto simp: triple_def bnd_def\<close>)
  then have "triple (has_hash view job_id) ?m (\<lambda>_ _. False) (\<lambda>e' w. e' = e \<and> ?R w)"
    unfolding run by (rule triple_bnd [OF triple_never [OF redis_up.triple_running [OF assms(1)]]])
  then have "case fst (?m w) of Inl e' \<Rightarrow> e' = e \<and> ?R (snd (?m w)) | Inr a \<Rightarrow> False" using assms(7) by (simp add: triple_def)
  then show ?thesis by (cases "?m w") (auto split: sum.splits)
qed

theorem failed_lookup_leaves_job_running_witness:
  "\<exists>w'. run_job exn_name Inr (\<lambda>_. raise SqlError :: ((string \<times> rentry) list menv, unit option) prog) (\<lambda>_ _ _. ret []) 1 mem_srv default_settings
      example_job (menv0 one_job) = (Inl SqlError, w') \<and> job_field map_of ''j'' w' ''status'' = Some ''running''"
  by (rule failed_lookup_leaves_job_running [OF mem.redis_up_axioms example_job_fields(1) _ example_job_fields(2)])
     (auto simp: example_job_fields is_dict_def has_hash_def menv0_def one_job_def redis_simps raise_def)

text \<open>One heartbeat that Redis does not take loses a plan that was computed: the exception of the heartbeat is raised again where the
  worker means to report the error, and the job stays running.\<close>

theorem lost_heartbeat_loses_result:
  "let r = run_job exn_name Inr (\<lambda>_. ret (Some ())) (\<lambda>_ _ _. ret [(''images'', JInt 3)]) 1 script_srv default_settings example_job
       (menv0 ([Fine, Dropped], one_job))
   in fst r = Inl RedisError \<and> job_field (map_of \<circ> snd) ''j'' (snd r) ''status'' = Some ''running'' \<and>
      job_field (map_of \<circ> snd) ''j'' (snd r) ''result'' = None"
  by (simp add: run_job_def example_job_fields is_dict_def Let_def plan_for_owner_def plan_and_store_def outcome_def beat_def dict_items_def
      set_mosaic_plan_job_status_def set_mosaic_plan_job_progress_def set_mosaic_plan_job_result_def set_mosaic_plan_job_error_def
      prog_simps client_defs script_step mem.up_rep mem.up_view1 redis_simps menv0_def one_job_def job_field_def progress_fields_def
      plan_job_mapping_def jget_def py_list_def)

section \<open>The worker stays within its limits\<close>

definition worker_ok :: "settings \<Rightarrow> mworker \<Rightarrow> bool" where
  "worker_ok cfg s \<longleftrightarrow>
     length (active_parent s) \<le> max_concurrent cfg \<and>
     length (active_subtask s) \<le> (if mosaic_subjob_queue_enabled cfg then subtask_workers cfg else 0) \<and>
     length (active_footprint s) \<le> (if mosaic_footprint_distributed_enabled cfg then footprint_budget cfg else 0) \<and>
     distinct (active_parent s @ active_subtask s @ active_footprint s) \<and>
     (\<forall>t\<in>set (active_parent s @ active_subtask s @ active_footprint s) \<union> set (finished s). t < next_task s)"

lemma filter_le: "length xs \<le> n \<Longrightarrow> length (filter P xs) \<le> n"
  by (meson le_trans length_filter_le)

lemma worker_ok_dispatch:
  assumes "worker_ok cfg s" and "k \<in> set (poll_keys cfg s)"
  shows "worker_ok cfg (dispatch_brpop_item k raw s)"
proof -
  let ?new = "next_task s"
  have fresh: "?new \<notin> set (active_parent s)" "?new \<notin> set (active_subtask s)" "?new \<notin> set (active_footprint s)"
    using assms(1) by (auto simp: worker_ok_def)
  have keys: "MOSAIC_PLAN_QUEUE_KEY \<noteq> MOSAIC_PLAN_SUBTASK_QUEUE_KEY" "MOSAIC_PLAN_QUEUE_KEY \<noteq> MOSAIC_PLAN_FOOTPRINT_SUBTASK_QUEUE_KEY"
      "MOSAIC_PLAN_FOOTPRINT_SUBTASK_QUEUE_KEY \<noteq> MOSAIC_PLAN_SUBTASK_QUEUE_KEY"
    by (simp_all add: mosaic_key_defs)
  consider "k = MOSAIC_PLAN_SUBTASK_QUEUE_KEY" "can_take_subtasks cfg s" | "k = MOSAIC_PLAN_FOOTPRINT_SUBTASK_QUEUE_KEY" "can_take_footprints cfg s"
    | "k = MOSAIC_PLAN_QUEUE_KEY" "length (active_parent s) < max_concurrent cfg"
    using assms(2) by (auto simp: poll_keys_def aux_keys_def parents_full_def split: if_splits)
  then show ?thesis
  proof cases
    case 1
    with assms(1) fresh show ?thesis
      by (cases "loads raw") (simp_all add: dispatch_brpop_item_def Let_def worker_ok_def can_take_subtasks_def less_Suc_eq ball_Un)
  next
    case 2
    with assms(1) fresh keys show ?thesis
      by (cases "loads raw") (simp_all add: dispatch_brpop_item_def Let_def worker_ok_def can_take_footprints_def less_Suc_eq ball_Un)
  next
    case 3
    with assms(1) fresh keys show ?thesis
      by (cases "loads raw") (simp_all add: dispatch_brpop_item_def Let_def worker_ok_def less_Suc_eq ball_Un)
  qed
qed

lemma worker_ok_step: "worker_step cfg s s' \<Longrightarrow> worker_ok cfg s \<Longrightarrow> worker_ok cfg s'"
proof (induction rule: worker_step.induct)
  case (Finish t s)
  then show ?case by (auto simp: worker_ok_def running_def)
next
  case (Take s k raw)
  then show ?case by (blast intro: worker_ok_dispatch)
next
  case (Collect_aux s)
  then show ?case by (simp add: worker_ok_def collect_aux_def Let_def filter_le) blast
next
  case (Collect_parents s)
  then show ?case by (simp add: worker_ok_def filter_le) blast
qed

text \<open>C33: In every state the worker can reach it has at most the configured number of plan jobs, subtasks and footprint subtasks started and
  not collected; none of a kind that is switched off, and no plan job when it is set up for subtasks only.\<close>

theorem worker_within_limits:
  assumes "rtranclp (worker_step cfg) worker0 s"
  shows "length (active_parent s) \<le> max_concurrent cfg \<and>
     length (active_subtask s) \<le> (if mosaic_subjob_queue_enabled cfg then subtask_workers cfg else 0) \<and>
     length (active_footprint s) \<le> (if mosaic_footprint_distributed_enabled cfg then footprint_budget cfg else 0) \<and>
     card (running s) \<le> length (active_parent s) + length (active_subtask s) + length (active_footprint s)"
proof -
  have "worker_ok cfg s"
    using assms
  proof (induction rule: rtranclp_induct)
    case base
    show ?case by (simp add: worker_ok_def worker0_def)
  qed (rule worker_ok_step)
  moreover have "card (running s) \<le> card (set (active_parent s @ active_subtask s @ active_footprint s))"
    unfolding running_def by (rule card_mono) auto
  ultimately show ?thesis using card_length [of "active_parent s @ active_subtask s @ active_footprint s"] by (auto simp: worker_ok_def)
qed

definition subtask_cfg :: settings where
  "subtask_cfg = default_settings\<lparr>mosaic_worker_max_concurrent := 2, mosaic_subjob_queue_enabled := True,
     mosaic_subjob_consume_subtasks_while_parent_active := False\<rparr>"

definition one_finished :: mworker where
  "one_finished = \<lparr>active_parent = [0], active_subtask = [], active_footprint = [], finished = [0], next_task = 1\<rparr>"

lemmas worker_eval = worker0_def one_finished_def subtask_cfg_def default_settings_def poll_keys_def parents_full_def aux_keys_def
  can_take_footprints_def can_take_subtasks_def max_concurrent_def st_full_def fp_full_def wait_on_def running_def
  subtask_workers_def footprint_budget_def

lemma one_finished_reachable: "rtranclp (worker_step subtask_cfg) worker0 one_finished"
proof -
  let ?s = "dispatch_brpop_item MOSAIC_PLAN_QUEUE_KEY (dumps_compact JNull) worker0"
  have s: "?s = \<lparr>active_parent = [0], active_subtask = [], active_footprint = [], finished = [], next_task = 1\<rparr>"
    by (simp add: dispatch_brpop_item_def worker0_def mosaic_key_defs)
  have "worker_step subtask_cfg worker0 ?s" by (rule Take) (simp_all add: worker_eval)
  moreover have "worker_step subtask_cfg ?s (?s\<lparr>finished := 0 # finished ?s\<rparr>)" by (rule Finish) (simp add: s running_def)
  moreover have "?s\<lparr>finished := 0 # finished ?s\<rparr> = one_finished" by (simp add: s one_finished_def)
  ultimately show ?thesis by (metis rtranclp.simps)
qed

theorem worker_within_limits_witness: "length (active_parent one_finished) \<le> 2"
  using worker_within_limits [OF one_finished_reachable] by (simp add: subtask_cfg_def max_concurrent_def)

text \<open>With room for two plan jobs and subtasks only taken while no plan job is active, a worker whose only plan job has finished is stuck
  without subtasks: it waits on the plan queue alone, and the only way on is another plan job.\<close>

theorem finished_job_blocks_subtasks:
  "rtranclp (worker_step subtask_cfg) worker0 one_finished \<and> running one_finished = {} \<and>
   poll_keys subtask_cfg one_finished = [MOSAIC_PLAN_QUEUE_KEY] \<and>
   (\<forall>s'. worker_step subtask_cfg one_finished s' \<longrightarrow> s' = one_finished \<or> active_parent s' = [1, 0])"
proof (intro conjI allI impI)
  show "s' = one_finished \<or> active_parent s' = [1, 0]" if "worker_step subtask_cfg one_finished s'" for s'
    using that by (cases rule: worker_step.cases)
      (auto simp: worker_eval dispatch_brpop_item_def mosaic_key_defs split: sum.splits)
qed (simp_all add: one_finished_reachable, simp_all add: worker_eval)

end
