(* ===== verification/Mosaic_Boxes.thy ===== *)
theory Mosaic_Boxes
  imports GFM_Prelude App_Settings
begin

text \<open>
  The search boxes of the mosaic planner (\<^verbatim>\<open>app/services/mosaic_plan.py\<close> and \<^verbatim>\<open>app/services/mosaic_plan_distributed.py\<close>): sizes,
  halving in both directions, the initial grid over a large area, the box around an uncovered rest, and the shards of a
  round. A bounding box is a list of numbers, as in the code; floats are rationals, and \<open>py_round\<close> is \<^verbatim>\<open>round\<close> on them (halves go
  to the even neighbour).

  Shown: deduplication yields distinct boxes that are not degenerate, each a rounding of one it was given; the boxes of the grid and of the halving cover
  the box they were cut from up to the rounding; there are at most 100 boxes of the grid; a search box around a rest
  stays in the user's box. A round searches all its boxes in all intervals, or, when the boxes exceed the budget, nothing at all
  (\<open>large_area_searches_nothing\<close>).
\<close>

section \<open>Numbers\<close>

definition py_round :: "nat \<Rightarrow> rat \<Rightarrow> rat" where
  "py_round n x =
     (let y = x * 10 ^ n; f = \<lfloor>y\<rfloor>; r = y - of_int f
      in of_int (if r < 1 / 2 then f else if 1 / 2 < r then f + 1 else if even f then f else f + 1) / 10 ^ n)"

definition tiny :: rat where "tiny = 1 / 10 ^ 9"

definition tiniest :: rat where "tiniest = 1 / 10 ^ 12"

section \<open>Boxes\<close>

fun bbox_size_degrees :: "rat list \<Rightarrow> rat \<times> rat" where
  "bbox_size_degrees (a # b # c # d # _) = (max 0 (c - a), max 0 (d - b))"
| "bbox_size_degrees _ = (0, 0)"

fun is_bbox_degenerate :: "rat list \<Rightarrow> bool" where
  "is_bbox_degenerate (a # b # c # d # _) \<longleftrightarrow> c - tiniest \<le> a \<or> d - tiniest \<le> b"
| "is_bbox_degenerate _ \<longleftrightarrow> True"

fun box_key :: "rat list \<Rightarrow> rat list" where
  "box_key (a # b # c # d # _) = [py_round 6 a, py_round 6 b, py_round 6 c, py_round 6 d]"
| "box_key _ = []"

definition key_degenerate :: "rat list \<Rightarrow> bool" where
  "key_degenerate k \<longleftrightarrow> k ! 2 - tiny \<le> k ! 0 \<or> k ! 3 - tiny \<le> k ! 1"

text \<open>The loop of \<^verbatim>\<open>_dedupe_bboxes\<close>; the boxes that are kept are the keys in \<open>seen\<close>, in their order.\<close>

primrec dedupe_loop :: "rat list list \<Rightarrow> rat list list \<Rightarrow> rat list list" where
  "dedupe_loop seen [] = seen"
| "dedupe_loop seen (bb # bbs) =
     (if length bb < 4 then dedupe_loop seen bbs
      else if box_key bb \<in> set seen then dedupe_loop seen bbs
      else if key_degenerate (box_key bb) then dedupe_loop seen bbs
      else dedupe_loop (seen @ [box_key bb]) bbs)"

definition dedupe_bboxes :: "rat list list \<Rightarrow> rat list list" where
  "dedupe_bboxes bboxes = dedupe_loop [] bboxes"

definition subdivide_bbox_2x2 :: "rat list \<Rightarrow> rat list list" where
  "subdivide_bbox_2x2 bb =
     (if is_bbox_degenerate bb then []
      else let minx = bb ! 0; miny = bb ! 1; maxx = bb ! 2; maxy = bb ! 3; mx = (minx + maxx) / 2; my = (miny + maxy) / 2
           in dedupe_bboxes [[minx, miny, mx, my], [mx, miny, maxx, my], [minx, my, mx, maxy], [mx, my, maxx, maxy]])"

section \<open>The initial grid\<close>

definition split_threshold :: "settings \<Rightarrow> rat" where
  "split_threshold cfg = max (1 / 10) (or_default (mosaic_stac_initial_split_threshold_degrees cfg) 6)"

definition grid_size :: "settings \<Rightarrow> rat \<Rightarrow> rat \<Rightarrow> nat \<times> nat" where
  "grid_size cfg w h =
     (let grid_cfg = mosaic_stac_initial_split_grid cfg; thr = split_threshold cfg
      in if grid_cfg > 1 then (nat (min 10 grid_cfg), nat (min 10 grid_cfg))
         else (nat (min 10 (max 2 \<lceil>w / thr\<rceil>)), nat (min 10 (max 2 \<lceil>h / thr\<rceil>))))"

text \<open>The cuts along one axis: cell \<open>i\<close> of \<open>n\<close> between \<open>lo\<close> and \<open>hi\<close>.\<close>

definition cell_side :: "rat \<Rightarrow> rat \<Rightarrow> nat \<Rightarrow> nat \<Rightarrow> rat \<times> rat" where
  "cell_side lo hi n i =
     (let d = (hi - lo) / of_nat n
      in (lo + of_nat i * d, if i = n - 1 then hi else lo + (of_nat i + 1) * d))"

definition grid_cells :: "rat \<Rightarrow> rat \<Rightarrow> rat \<Rightarrow> rat \<Rightarrow> nat \<Rightarrow> nat \<Rightarrow> rat list list" where
  "grid_cells minx miny maxx maxy gx gy =
     concat (map (\<lambda>iy. concat (map (\<lambda>ix.
       let (x0, x1) = cell_side minx maxx gx ix; (y0, y1) = cell_side miny maxy gy iy
       in if x0 < x1 - tiny \<and> y0 < y1 - tiny then [[x0, y0, x1, y1]] else []) [0..<gx])) [0..<gy])"

definition split_initial_search_bboxes :: "settings \<Rightarrow> rat list \<Rightarrow> rat list list" where
  "split_initial_search_bboxes cfg search_bbox =
     (case search_bbox of
        minx # miny # maxx # maxy # _ \<Rightarrow>
          if maxx - tiny \<le> minx \<or> maxy - tiny \<le> miny then []
          else
            let w = maxx - minx; h = maxy - miny; thr = split_threshold cfg
            in if w \<le> thr \<and> h \<le> thr then [[minx, miny, maxx, maxy]]
               else let (gx, gy) = grid_size cfg w h in dedupe_bboxes (grid_cells minx miny maxx maxy gx gy)
      | _ \<Rightarrow> [])"

section \<open>Gaps\<close>

text \<open>\<open>bounds\<close> are the bounds of the uncovered rest, \<open>None\<close> when there is none or it has no bounds.\<close>

definition void_search_bbox :: "(rat \<times> rat \<times> rat \<times> rat) option \<Rightarrow> rat \<times> rat \<times> rat \<times> rat \<Rightarrow> rat list option" where
  "void_search_bbox bounds clip_bbox =
     (case bounds of
        None \<Rightarrow> None
      | Some (b0, b1, b2, b3) \<Rightarrow>
          let (c0, c1, c2, c3) = clip_bbox;
              pad = max (max ((b2 - b0) * (3 / 100)) ((b3 - b1) * (3 / 100))) (8 / 1000);
              ox = max (max (- 180) (b0 - pad)) c0; oy = max (max (- 85) (b1 - pad)) c1;
              ox2 = min (min 180 (b2 + pad)) c2; oy2 = min (min 85 (b3 + pad)) c3
          in if ox2 - tiny \<le> ox \<or> oy2 - tiny \<le> oy then None else Some [ox, oy, ox2, oy2])"

text \<open>A gap by its area and an inner point; \<open>sqrt_f\<close> is \<^verbatim>\<open>math.sqrt\<close>.\<close>

definition pinpoint_box :: "(rat \<Rightarrow> rat) \<Rightarrow> rat \<times> rat \<times> rat \<times> rat \<Rightarrow> rat \<times> rat \<times> rat \<Rightarrow> rat list option" where
  "pinpoint_box sqrt_f clip_bbox gap =
     (let (c0, c1, c2, c3) = clip_bbox; (ar, px, py) = gap;
          half = max (25 / 10000) (min (sqrt_f (max ar tiniest) * (32 / 100)) (11 / 100));
          ox = max (max (- 180) (px - half)) c0; oy = max (max (- 85) (py - half)) c1;
          ox2 = min (min 180 (px + half)) c2; oy2 = min (min 85 (py + half)) c3
      in if ox2 - tiny \<le> ox \<or> oy2 - tiny \<le> oy then None else Some [ox, oy, ox2, oy2])"

definition pinpoint_bboxes_from_remainder ::
    "(rat \<Rightarrow> rat) \<Rightarrow> (rat \<times> rat \<times> rat) list \<Rightarrow> rat \<times> rat \<times> rat \<times> rat \<Rightarrow> nat \<Rightarrow> rat list list" where
  "pinpoint_bboxes_from_remainder sqrt_f gaps clip_bbox max_parts =
     dedupe_bboxes (List.map_filter (pinpoint_box sqrt_f clip_bbox) (take max_parts (sort_key (\<lambda>g. - fst g) gaps)))"

section \<open>The shards of a round\<close>

text \<open>\<^verbatim>\<open>_bbox_key\<close> prints the numbers rounded to eight digits; the key here is the list of the rounded numbers.\<close>

definition bbox_key :: "rat list \<Rightarrow> rat list" where
  "bbox_key bb = map (py_round 8) (take 4 bb)"

primrec round_boxes :: "(rat list \<times> rat list) list \<Rightarrow> rat list list \<Rightarrow> (rat list \<times> rat list) list" where
  "round_boxes known [] = known"
| "round_boxes known (bb # bbs) =
     (if bbox_key bb \<in> fst ` set known then round_boxes known bbs
      else round_boxes (known @ [(bbox_key bb, take 4 bb)]) bbs)"

text \<open>The loop \<^verbatim>\<open>while bbox_queue and len(bbox_key_to_bbox) <= bbox_budget\<close>: the queue shrinks, the table of boxes does not.\<close>

primrec shard_loop :: "nat \<Rightarrow> nat \<Rightarrow> string list \<Rightarrow> (rat list \<times> rat list) list \<Rightarrow> (rat list \<times> rat list \<times> string) list" where
  "shard_loop n_boxes bbox_budget datetime_slices [] = []"
| "shard_loop n_boxes bbox_budget datetime_slices (kb # queue) =
     (if n_boxes \<le> bbox_budget
      then map (\<lambda>dt. (fst kb, snd kb, dt)) datetime_slices @ shard_loop n_boxes bbox_budget datetime_slices queue
      else [])"

definition bbox_budget :: "settings \<Rightarrow> nat" where
  "bbox_budget cfg = nat (max 1 (or_default (mosaic_stac_max_bbox_tasks_per_round cfg) 1))"

definition round_shards :: "settings \<Rightarrow> rat list list \<Rightarrow> string list \<Rightarrow> (rat list \<times> rat list \<times> string) list" where
  "round_shards cfg q_bboxes datetime_slices =
     (let boxes = round_boxes [] q_bboxes in shard_loop (length boxes) (bbox_budget cfg) datetime_slices boxes)"

definition effective_fetch_limit_for_bbox :: "settings \<Rightarrow> rat list \<Rightarrow> int \<Rightarrow> int" where
  "effective_fetch_limit_for_bbox cfg bbox fetch_limit =
     (let large_limit = max 1 (or_default (mosaic_stac_large_bbox_limit cfg) 1);
          min_deg = max (5 / 100) (or_default (mosaic_stac_min_bbox_degrees cfg) (1 / 2));
          (w, h) = bbox_size_degrees bbox
      in if max w h \<ge> max 2 (min_deg * 2) then min fetch_limit large_limit else fetch_limit)"

definition can_split_bbox :: "rat list \<Rightarrow> int \<Rightarrow> int \<Rightarrow> rat \<Rightarrow> bool" where
  "can_split_bbox bbox depth max_depth min_bbox_deg =
     (if depth \<ge> max_depth then False
      else let (w, h) = bbox_size_degrees bbox in w > min_bbox_deg \<or> h > min_bbox_deg)"

section \<open>Rounding and deduplication\<close>

lemma py_round_error: "\<bar>py_round n x - x\<bar> \<le> 1 / (2 * 10 ^ n)"
proof -
  let ?y = "x * 10 ^ n" and ?p = "(10 ^ n :: rat)"
  let ?k = "if ?y - of_int \<lfloor>?y\<rfloor> < 1 / 2 then \<lfloor>?y\<rfloor> else if 1 / 2 < ?y - of_int \<lfloor>?y\<rfloor> then \<lfloor>?y\<rfloor> + 1
    else if even \<lfloor>?y\<rfloor> then \<lfloor>?y\<rfloor> else \<lfloor>?y\<rfloor> + 1"
  have f: "of_int \<lfloor>?y\<rfloor> \<le> ?y" "?y < of_int \<lfloor>?y\<rfloor> + 1" by linarith+
  have k: "\<bar>of_int ?k - ?y\<bar> \<le> 1 / 2" using f by (auto simp: abs_le_iff)
  have p: "0 < ?p" by simp
  have "py_round n x - x = (of_int ?k - ?y) / ?p" using p by (simp add: py_round_def Let_def field_simps)
  then have "\<bar>py_round n x - x\<bar> = \<bar>of_int ?k - ?y\<bar> / ?p" by (simp add: abs_divide)
  also have "\<dots> \<le> (1 / 2) / ?p" using k p by (intro divide_right_mono) auto
  finally show ?thesis by simp
qed

lemma py_round_bounds: "x - 1 / (2 * 10 ^ n) \<le> py_round n x" "py_round n x \<le> x + 1 / (2 * 10 ^ n)"
  using py_round_error [of n x] by (auto simp: abs_le_iff)

lemma py_round6: "x - 1 / (2 * 10 ^ 6) \<le> py_round 6 x \<and> py_round 6 x \<le> x + 1 / (2 * 10 ^ 6)"
  using py_round_bounds [where n = 6] by blast

lemma py_round_int [simp]: "py_round n (of_int i) = of_int i"
proof -
  have "(of_int i :: rat) * 10 ^ n = of_int (i * 10 ^ n)" by simp
  then have "\<lfloor>(of_int i :: rat) * 10 ^ n\<rfloor> = i * 10 ^ n" by (simp only: floor_of_int)
  then show ?thesis by (simp add: py_round_def)
qed

definition kept_box :: "rat list \<Rightarrow> bool" where
  "kept_box bb \<longleftrightarrow> 4 \<le> length bb \<and> \<not> key_degenerate (box_key bb)"

lemma dedupe_loop_step:
  "dedupe_loop seen (bb # bbs) = dedupe_loop (if kept_box bb \<and> box_key bb \<notin> set seen then seen @ [box_key bb] else seen) bbs"
  by (simp add: kept_box_def)

lemma dedupe_loop_distinct: "distinct seen \<Longrightarrow> distinct (dedupe_loop seen bbs)"
  by (induction bbs arbitrary: seen) (simp_all only: dedupe_loop_step dedupe_loop.simps(1), simp)

lemma dedupe_loop_mem: "k \<in> set (dedupe_loop seen bbs) \<longleftrightarrow> k \<in> set seen \<or> (\<exists>bb\<in>set bbs. kept_box bb \<and> k = box_key bb)"
proof (induction bbs arbitrary: seen)
  case (Cons bb bbs)
  then show ?case unfolding dedupe_loop_step Cons.IH by (cases "kept_box bb \<and> box_key bb \<notin> set seen") auto
qed simp

lemma dedupe_loop_length: "length (dedupe_loop seen bbs) \<le> length seen + length bbs"
proof (induction bbs arbitrary: seen)
  case (Cons bb bbs)
  show ?case unfolding dedupe_loop_step by (rule order_trans [OF Cons.IH]) simp
qed simp

lemma dedupe_loop_all:
  "list_all kept_box bbs \<Longrightarrow> distinct (map box_key bbs) \<Longrightarrow> set (map box_key bbs) \<inter> set seen = {} \<Longrightarrow>
     dedupe_loop seen bbs = seen @ map box_key bbs"
proof (induction bbs arbitrary: seen)
  case (Cons bb bbs)
  then have "kept_box bb \<and> box_key bb \<notin> set seen" by simp
  moreover have "dedupe_loop (seen @ [box_key bb]) bbs = (seen @ [box_key bb]) @ map box_key bbs"
    using Cons.prems by (intro Cons.IH) auto
  ultimately show ?case unfolding dedupe_loop_step by simp
qed simp

lemma dedupe_bboxes_props:
  "distinct (dedupe_bboxes bbs)" "k \<in> set (dedupe_bboxes bbs) \<longleftrightarrow> (\<exists>bb\<in>set bbs. kept_box bb \<and> k = box_key bb)"
  "length (dedupe_bboxes bbs) \<le> length bbs"
  "list_all kept_box bbs \<Longrightarrow> distinct (map box_key bbs) \<Longrightarrow> dedupe_bboxes bbs = map box_key bbs"
  using dedupe_loop_distinct [of "[]" bbs] dedupe_loop_length [of "[]" bbs] dedupe_loop_all [of bbs "[]"]
  by (simp_all add: dedupe_bboxes_def dedupe_loop_mem)

section \<open>Coverage\<close>

definition in_box :: "rat \<Rightarrow> rat \<times> rat \<Rightarrow> rat list \<Rightarrow> bool" where
  "in_box eps p b \<longleftrightarrow> b ! 0 - eps \<le> fst p \<and> fst p \<le> b ! 2 + eps \<and> b ! 1 - eps \<le> snd p \<and> snd p \<le> b ! 3 + eps"

lemma box_key_in_box: "in_box 0 p [a, b, c, d] \<Longrightarrow> in_box (1 / 10 ^ 6) p (box_key [a, b, c, d])"
  using py_round6 [of a] py_round6 [of b] py_round6 [of c] py_round6 [of d]
  by (simp add: in_box_def)

text \<open>A box of at least ten roundings in both directions keeps its extent.\<close>

lemma key_wide:
  assumes "1 / 10 ^ 5 \<le> c - a" and "1 / 10 ^ 5 \<le> d - b"
  shows "\<not> key_degenerate (box_key [a, b, c, d])"
  using assms py_round6 [of a] py_round6 [of b] py_round6 [of c] py_round6 [of d]
  by (simp add: key_degenerate_def tiny_def)

lemma dedupe_covers:
  assumes "[a, b, c, d] \<in> set bbs" and "1 / 10 ^ 5 \<le> c - a" and "1 / 10 ^ 5 \<le> d - b" and "in_box 0 p [a, b, c, d]"
  shows "\<exists>k\<in>set (dedupe_bboxes bbs). in_box (1 / 10 ^ 6) p k"
proof -
  have "kept_box [a, b, c, d]" using key_wide [OF assms(2, 3)] by (simp add: kept_box_def)
  then have "box_key [a, b, c, d] \<in> set (dedupe_bboxes bbs)" using assms(1) dedupe_bboxes_props(2) by blast
  with box_key_in_box [OF assms(4)] show ?thesis by blast
qed

lemma cell_side_covers:
  fixes lo hi x :: rat
  assumes "lo \<le> x" and "x \<le> hi" and "lo < hi" and n: "0 < n"
  shows "\<exists>i<n. fst (cell_side lo hi n i) \<le> x \<and> x \<le> snd (cell_side lo hi n i)"
proof -
  define d where "d = (hi - lo) / of_nat n"
  have d: "0 < d" and nd: "of_nat n * d = hi - lo" using assms by (simp_all add: d_def)
  define j where "j = nat \<lfloor>(x - lo) / d\<rfloor>"
  have q: "0 \<le> (x - lo) / d" using assms(1) d by simp
  then have j: "of_nat j \<le> (x - lo) / d" "(x - lo) / d < of_nat j + 1"
    unfolding j_def by (simp_all add: of_nat_nat) linarith+
  have j': "lo + of_nat j * d \<le> x" "x < lo + (of_nat j + 1) * d" using j d by (simp_all add: field_simps)
  show ?thesis
  proof (cases "j < n - 1")
    case True
    then show ?thesis using j' by (intro exI [of _ j]) (simp add: cell_side_def Let_def d_def [symmetric])
  next
    case False
    then have "of_nat (n - 1) * d \<le> of_nat j * d" using d by (intro mult_right_mono) simp_all
    then have "lo + of_nat (n - 1) * d \<le> x" using j'(1) by linarith
    then show ?thesis using assms(2) n by (intro exI [of _ "n - 1"]) (simp add: cell_side_def Let_def d_def [symmetric])
  qed
qed

lemma cell_side_width:
  fixes lo hi :: rat
  assumes "i < n"
  shows "snd (cell_side lo hi n i) - fst (cell_side lo hi n i) = (hi - lo) / of_nat n"
proof -
  define d where "d = (hi - lo) / of_nat n"
  have hi: "hi = lo + of_nat n * d" using assms by (simp add: d_def)
  have n: "of_nat n = (of_nat (n - 1) + 1 :: rat)" using assms by (simp add: of_nat_diff)
  show ?thesis
  proof (cases "i = n - 1")
    case True
    have "hi - (lo + of_nat (n - 1) * d) = d" unfolding hi n by (simp add: algebra_simps)
    then show ?thesis using True by (simp add: cell_side_def d_def [symmetric])
  next
    case False
    then show ?thesis by (simp add: cell_side_def d_def [symmetric] algebra_simps)
  qed
qed

lemma tenth_le: "0 \<le> w \<Longrightarrow> 0 < n \<Longrightarrow> n \<le> 10 \<Longrightarrow> w / 10 \<le> w / of_nat n" for w :: rat
  by (rule divide_left_mono) (use of_nat_mono [of n 10, where 'a = rat] in simp_all)

lemma grid_cells_mem:
  assumes "ix < gx" and "iy < gy" and "tiny < (maxx - minx) / of_nat gx" and "tiny < (maxy - miny) / of_nat gy"
  shows "[fst (cell_side minx maxx gx ix), fst (cell_side miny maxy gy iy), snd (cell_side minx maxx gx ix), snd (cell_side miny maxy gy iy)]
    \<in> set (grid_cells minx miny maxx maxy gx gy)"
proof -
  have w: "fst (cell_side minx maxx gx ix) < snd (cell_side minx maxx gx ix) - tiny"
      "fst (cell_side miny maxy gy iy) < snd (cell_side miny maxy gy iy) - tiny"
    using cell_side_width [OF assms(1), of minx maxx] cell_side_width [OF assms(2), of miny maxy] assms(3, 4) by linarith+
  let ?f = "\<lambda>iy ix. let (x0, x1) = cell_side minx maxx gx ix; (y0, y1) = cell_side miny maxy gy iy
    in if x0 < x1 - tiny \<and> y0 < y1 - tiny then [[x0, y0, x1, y1]] else []"
  have "[fst (cell_side minx maxx gx ix), fst (cell_side miny maxy gy iy), snd (cell_side minx maxx gx ix), snd (cell_side miny maxy gy iy)]
      \<in> set (?f iy ix)"
    using w by (simp add: case_prod_beta)
  then have "[fst (cell_side minx maxx gx ix), fst (cell_side miny maxy gy iy), snd (cell_side minx maxx gx ix), snd (cell_side miny maxy gy iy)]
      \<in> (\<Union>iy\<in>{0..<gy}. \<Union>ix\<in>{0..<gx}. set (?f iy ix))"
    using assms(1, 2) by (intro UN_I [of iy] UN_I [of ix]) simp_all
  then show ?thesis by (simp only: grid_cells_def set_concat set_map set_upt image_image)
qed

lemma grid_size_bounds: "0 < fst (grid_size cfg w h)" "fst (grid_size cfg w h) \<le> 10" "0 < snd (grid_size cfg w h)" "snd (grid_size cfg w h) \<le> 10"
  by (auto simp: grid_size_def Let_def)

lemma length_grid_cells: "length (grid_cells minx miny maxx maxy gx gy) \<le> gx * gy"
proof -
  have *: "length (concat (map f [0..<n])) \<le> n * k" if "\<And>i. length (f i) \<le> k" for f :: "nat \<Rightarrow> 'a list" and n k
    using that by (induction n) (simp_all add: add_mono add.commute)
  have "length (grid_cells minx miny maxx maxy gx gy) \<le> gy * (gx * 1)"
    unfolding grid_cells_def by (intro *) (simp add: Let_def case_prod_beta)
  then show ?thesis by (simp add: mult.commute)
qed

text \<open>C38: The boxes of the first search cover the user's box: every point of a box of at least a ten-thousandth of a degree lies in one of
  them, up to a millionth of a degree of rounding; and there are at most one hundred.\<close>

theorem search_boxes_cover:
  assumes "1 / 10 ^ 4 \<le> maxx - minx" and "1 / 10 ^ 4 \<le> maxy - miny" and "in_box 0 p [minx, miny, maxx, maxy]"
  shows "(\<exists>b\<in>set (split_initial_search_bboxes cfg [minx, miny, maxx, maxy]). in_box (1 / 10 ^ 6) p b) \<and>
    length (split_initial_search_bboxes cfg [minx, miny, maxx, maxy]) \<le> 100"
proof -
  let ?w = "maxx - minx" and ?h = "maxy - miny"
  define gx gy where "gx = fst (grid_size cfg ?w ?h)" and "gy = snd (grid_size cfg ?w ?h)"
  note g = grid_size_bounds [of cfg ?w ?h, folded gx_def gy_def]
  have nd: "\<not> (maxx - tiny \<le> minx \<or> maxy - tiny \<le> miny)" using assms(1, 2) by (auto simp: tiny_def)
  show ?thesis
  proof (cases "?w \<le> split_threshold cfg \<and> ?h \<le> split_threshold cfg")
    case True
    then show ?thesis using nd assms(3) by (auto simp: split_initial_search_bboxes_def Let_def in_box_def)
  next
    case False
    then have s: "split_initial_search_bboxes cfg [minx, miny, maxx, maxy] = dedupe_bboxes (grid_cells minx miny maxx maxy gx gy)"
      using nd by (auto simp: split_initial_search_bboxes_def Let_def gx_def gy_def split: prod.split)
    have "?w / 10 \<le> ?w / of_nat gx" "?h / 10 \<le> ?h / of_nat gy"
      by (rule tenth_le; use assms(1, 2) g in simp)+
    moreover have "1 / 10 ^ 5 \<le> ?w / 10" "1 / 10 ^ 5 \<le> ?h / 10" using assms(1, 2) by simp_all
    ultimately have wide: "1 / 10 ^ 5 \<le> ?w / of_nat gx" "1 / 10 ^ 5 \<le> ?h / of_nat gy" by (metis order_trans)+
    have "tiny < 1 / 10 ^ 5" by (simp add: tiny_def)
    then have t: "tiny < ?w / of_nat gx" "tiny < ?h / of_nat gy" using wide by (metis less_le_trans)+
    have x: "minx \<le> fst p" "fst p \<le> maxx" "minx < maxx" and y: "miny \<le> snd p" "snd p \<le> maxy" "miny < maxy"
      using assms by (auto simp: in_box_def)
    obtain ix where ix: "ix < gx" "fst (cell_side minx maxx gx ix) \<le> fst p" "fst p \<le> snd (cell_side minx maxx gx ix)"
      using cell_side_covers [OF x g(1)] by blast
    obtain iy where iy: "iy < gy" "fst (cell_side miny maxy gy iy) \<le> snd p" "snd p \<le> snd (cell_side miny maxy gy iy)"
      using cell_side_covers [OF y g(3)] by blast
    have "\<exists>k\<in>set (dedupe_bboxes (grid_cells minx miny maxx maxy gx gy)). in_box (1 / 10 ^ 6) p k"
    proof (rule dedupe_covers [OF grid_cells_mem [OF ix(1) iy(1) t]])
      show "1 / 10 ^ 5 \<le> snd (cell_side minx maxx gx ix) - fst (cell_side minx maxx gx ix)"
        "1 / 10 ^ 5 \<le> snd (cell_side miny maxy gy iy) - fst (cell_side miny maxy gy iy)"
        using wide by (simp_all only: cell_side_width [OF ix(1)] cell_side_width [OF iy(1)])
    qed (use ix iy in \<open>simp add: in_box_def\<close>)
    moreover have "length (dedupe_bboxes (grid_cells minx miny maxx maxy gx gy)) \<le> 100"
    proof -
      have "gx * gy \<le> 10 * 10" by (rule mult_le_mono) (use g in auto)
      then show ?thesis
        using dedupe_bboxes_props(3) [of "grid_cells minx miny maxx maxy gx gy"] length_grid_cells [of minx miny maxx maxy gx gy] by linarith
    qed
    ultimately show ?thesis unfolding s by blast
  qed
qed

theorem search_boxes_cover_witness:
  "\<exists>b\<in>set (split_initial_search_bboxes default_settings [0, 0, 20, 7]). in_box (1 / 10 ^ 6) (13, 5) b"
  using search_boxes_cover [of 20 0 7 0 "(13, 5)" default_settings] by (simp add: in_box_def)

text \<open>The four quarters of a box cover it up to the rounding.\<close>

theorem quarters_cover:
  assumes "2 / 10 ^ 5 \<le> maxx - minx" and "2 / 10 ^ 5 \<le> maxy - miny" and "in_box 0 p [minx, miny, maxx, maxy]"
  shows "\<exists>b\<in>set (subdivide_bbox_2x2 [minx, miny, maxx, maxy]). in_box (1 / 10 ^ 6) p b"
proof -
  let ?mx = "(minx + maxx) / 2" and ?my = "(miny + maxy) / 2"
  have s: "subdivide_bbox_2x2 [minx, miny, maxx, maxy] =
      dedupe_bboxes [[minx, miny, ?mx, ?my], [?mx, miny, maxx, ?my], [minx, ?my, ?mx, maxy], [?mx, ?my, maxx, maxy]]"
    using assms(1, 2) by (simp add: subdivide_bbox_2x2_def tiniest_def Let_def)
  have w: "1 / 10 ^ 5 \<le> ?mx - minx" "1 / 10 ^ 5 \<le> maxx - ?mx" "1 / 10 ^ 5 \<le> ?my - miny" "1 / 10 ^ 5 \<le> maxy - ?my"
    using assms(1, 2) by (simp_all add: field_simps)
  define x0 x1 y0 y1 where "x0 = (if fst p \<le> ?mx then minx else ?mx)" and "x1 = (if fst p \<le> ?mx then ?mx else maxx)"
    and "y0 = (if snd p \<le> ?my then miny else ?my)" and "y1 = (if snd p \<le> ?my then ?my else maxy)"
  note q = x0_def x1_def y0_def y1_def
  show ?thesis
    unfolding s
  proof (rule dedupe_covers [of x0 y0 x1 y1])
    show "1 / 10 ^ 5 \<le> x1 - x0" "1 / 10 ^ 5 \<le> y1 - y0" using w unfolding q by simp_all
    show "in_box 0 p [x0, y0, x1, y1]" using assms(3) unfolding q in_box_def by auto
  qed (simp add: q)
qed

theorem quarters_cover_witness: "\<exists>b\<in>set (subdivide_bbox_2x2 [0, 0, 8, 4]). in_box (1 / 10 ^ 6) (5, 1) b"
  using quarters_cover [of 8 0 4 0 "(5, 1)"] by (simp add: in_box_def)

text \<open>The box searched for an uncovered rest lies inside the user's box and inside the world, is not degenerate, and holds
  every point of the rest's bounds that lies in both.\<close>

theorem void_box_in_search_area:
  assumes "void_search_bbox (Some (b0, b1, b2, b3)) (c0, c1, c2, c3) = Some b" and "b0 \<le> b2" and "b1 \<le> b3"
  shows "b ! 0 < b ! 2 \<and> b ! 1 < b ! 3 \<and> c0 \<le> b ! 0 \<and> c1 \<le> b ! 1 \<and> b ! 2 \<le> c2 \<and> b ! 3 \<le> c3 \<and>
    - 180 \<le> b ! 0 \<and> - 85 \<le> b ! 1 \<and> b ! 2 \<le> 180 \<and> b ! 3 \<le> 85 \<and>
    (in_box 0 p [b0, b1, b2, b3] \<and> in_box 0 p [c0, c1, c2, c3] \<and> in_box 0 p [- 180, - 85, 180, 85] \<longrightarrow> in_box 0 p b)"
proof -
  define pad where "pad = max (max ((b2 - b0) * (3 / 100)) ((b3 - b1) * (3 / 100))) (8 / 1000)"
  have pad: "0 < pad" by (simp add: pad_def less_max_iff_disj)
  define ox oy ox2 oy2 where "ox = max (max (- 180) (b0 - pad)) c0" and "oy = max (max (- 85) (b1 - pad)) c1"
    and "ox2 = min (min 180 (b2 + pad)) c2" and "oy2 = min (min 85 (b3 + pad)) c3"
  note o = ox_def oy_def ox2_def oy2_def
  have b: "b = [ox, oy, ox2, oy2]" and nd: "\<not> (ox2 - tiny \<le> ox \<or> oy2 - tiny \<le> oy)"
    using assms(1) unfolding void_search_bbox_def option.case prod.case Let_def pad_def [symmetric] o [symmetric]
    by (simp_all split: if_split_asm)
  have t: "0 < tiny" by (simp add: tiny_def)
  have "ox < ox2" "oy < oy2" using nd t by linarith+
  moreover have "c0 \<le> ox" "c1 \<le> oy" "ox2 \<le> c2" "oy2 \<le> c3" "- 180 \<le> ox" "- 85 \<le> oy" "ox2 \<le> 180" "oy2 \<le> 85"
    by (simp_all add: o le_max_iff_disj min_le_iff_disj)
  moreover have "in_box 0 p b" if "in_box 0 p [b0, b1, b2, b3]" "in_box 0 p [c0, c1, c2, c3]" "in_box 0 p [- 180, - 85, 180, 85]"
    using that pad by (simp add: b o in_box_def)
  ultimately show ?thesis by (simp add: b)
qed

theorem void_box_in_search_area_witness:
  "\<exists>b. void_search_bbox (Some (1, 1, 2, 2)) (0, 0, 10, 10) = Some b \<and> in_box 0 (3 / 2, 1) b"
proof -
  let ?b = "[max (max (- 180) (1 - 3 / 100)) 0, max (max (- 85) (1 - 3 / 100)) 0, min (min 180 (2 + 3 / 100)) 10, min (min 85 (2 + 3 / 100)) 10] :: rat list"
  have "void_search_bbox (Some (1, 1, 2, 2)) (0, 0, 10, 10) = Some ?b" by (simp add: void_search_bbox_def tiny_def Let_def max_def min_def)
  with void_box_in_search_area [OF this, of "(3 / 2, 1)"] show ?thesis by (auto simp: in_box_def)
qed

section \<open>The budget of a round\<close>

lemma shard_loop_eq:
  "shard_loop n b slices queue = (if n \<le> b then concat (map (\<lambda>kb. map (\<lambda>dt. (fst kb, snd kb, dt)) slices) queue) else [])"
  by (induction queue) simp_all

lemma round_boxes_keys:
  "distinct (map fst known) \<Longrightarrow> distinct (map fst (round_boxes known bbs)) \<and>
     fst ` set (round_boxes known bbs) = fst ` set known \<union> bbox_key ` set bbs"
proof (induction bbs arbitrary: known)
  case (Cons bb bbs)
  show ?case
  proof (cases "bbox_key bb \<in> fst ` set known")
    case True
    then show ?thesis using Cons by auto
  next
    case False
    then have "distinct (map fst (known @ [(bbox_key bb, take 4 bb)]))" using Cons.prems by simp
    from Cons.IH [OF this] False show ?thesis by auto
  qed
qed simp

lemma length_round_boxes: "length (round_boxes [] bbs) = card (bbox_key ` set bbs)"
proof -
  have "distinct (map fst (round_boxes [] bbs))" "fst ` set (round_boxes [] bbs) = bbox_key ` set bbs"
    using round_boxes_keys [of "[]" bbs] by simp_all
  then show ?thesis by (metis distinct_card length_map list.set_map)
qed

text \<open>The grid over sixty by sixty degrees around the origin has one hundred cells with whole corners.\<close>

definition corner :: "nat \<Rightarrow> rat" where
  "corner i = of_int (6 * int i - 30)"

lemma corner_cell: "i < 10 \<Longrightarrow> cell_side (- 30) 30 10 i = (corner i, corner (i + 1))"
  by (simp add: cell_side_def corner_def)

definition corner_box :: "nat \<times> nat \<Rightarrow> rat list" where
  "corner_box p = [corner (fst p), corner (snd p), corner (fst p + 1), corner (snd p + 1)]"

lemma py_round_corner [simp]: "py_round n (corner i) = corner i"
  unfolding corner_def by (rule py_round_int)

lemma corner_box_keys: "box_key (corner_box p) = corner_box p" "bbox_key (corner_box p) = corner_box p" "kept_box (corner_box p)"
proof -
  show "box_key (corner_box p) = corner_box p" "bbox_key (corner_box p) = corner_box p"
    by (simp_all add: corner_box_def bbox_key_def)
  then show "kept_box (corner_box p)"
    by (simp add: kept_box_def) (simp add: corner_box_def key_degenerate_def corner_def tiny_def)
qed

lemma corner_box_searched:
  assumes "fst p < 10" and "snd p < 10"
  shows "corner_box p \<in> bbox_key ` set (dedupe_bboxes (grid_cells (- 30) (- 30) 30 30 10 10))"
proof -
  have "corner_box p \<in> set (grid_cells (- 30) (- 30) 30 30 10 10)"
    using grid_cells_mem [of "fst p" 10 "snd p" 10 30 "- 30" 30 "- 30"] assms by (simp add: corner_cell corner_box_def tiny_def)
  then have "corner_box p \<in> set (dedupe_bboxes (grid_cells (- 30) (- 30) 30 30 10 10))"
    unfolding dedupe_bboxes_props(2) using corner_box_keys by metis
  then show ?thesis by (rule rev_image_eqI) (simp add: corner_box_keys)
qed

lemma inj_corner_box: "inj corner_box"
  by (auto simp: inj_def corner_box_def corner_def)

text \<open>C39: A round of the distributed search is all or nothing, for any boxes and settings: when its distinct boxes fit the budget of
  a round, there is one shard for every distinct box and time interval and no other; when they exceed the budget, there is no shard
  and no catalogue is asked. The grid of a large area has more boxes than the default budget: sixty by sixty degrees around the origin
  are cut into one hundred, with a budget of sixty-four.\<close>

theorem large_area_searches_nothing:
  "(\<lambda>(key, box, dt). (key, dt)) ` set (round_shards cfg q_bboxes slices) =
     (if card (bbox_key ` set q_bboxes) \<le> bbox_budget cfg then (bbox_key ` set q_bboxes) \<times> set slices else {}) \<and>
   length (round_shards cfg q_bboxes slices) =
     (if card (bbox_key ` set q_bboxes) \<le> bbox_budget cfg then card (bbox_key ` set q_bboxes) * length slices else 0)"
proof -
  let ?boxes = "round_boxes [] q_bboxes"
  have keys: "fst ` set ?boxes = bbox_key ` set q_bboxes" using round_boxes_keys [of "[]" q_bboxes] by simp
  have shards: "round_shards cfg q_bboxes slices = (if card (bbox_key ` set q_bboxes) \<le> bbox_budget cfg
      then concat (map (\<lambda>kb. map (\<lambda>dt. (fst kb, snd kb, dt)) slices) ?boxes) else [])"
    by (simp add: round_shards_def Let_def shard_loop_eq length_round_boxes)
  have "(\<lambda>(key, box, dt). (key, dt)) ` set (concat (map (\<lambda>kb. map (\<lambda>dt. (fst kb, snd kb, dt)) slices) ?boxes)) = fst ` set ?boxes \<times> set slices"
    by force
  moreover have "length (concat (map (\<lambda>kb. map (\<lambda>dt. (fst kb, snd kb, dt)) slices) bs)) = length bs * length slices"
    for bs :: "(rat list \<times> rat list) list"
    by (induction bs) simp_all
  ultimately show ?thesis unfolding shards keys by (simp only: length_round_boxes split: if_split) simp
qed

theorem large_area_searches_nothing_witness:
  "split_initial_search_bboxes default_settings [- 30, - 30, 30, 30] \<noteq> [] \<and>
   (\<forall>slices. round_shards default_settings (split_initial_search_bboxes default_settings [- 30, - 30, 30, 30]) slices = [])"
proof -
  let ?cells = "dedupe_bboxes (grid_cells (- 30) (- 30) 30 30 10 10)"
  have s: "split_initial_search_bboxes default_settings [- 30, - 30, 30, 30] = ?cells"
    by (simp add: split_initial_search_bboxes_def tiny_def split_threshold_def grid_size_def or_default_def default_settings_def Let_def)
  have "card (corner_box ` ({0..<10} \<times> {0..<10})) = 100"
    by (subst card_image) (auto intro: inj_on_subset [OF inj_corner_box])
  moreover have "corner_box ` ({0..<10} \<times> {0..<10}) \<subseteq> bbox_key ` set ?cells" using corner_box_searched by auto
  ultimately have c: "100 \<le> card (bbox_key ` set ?cells)" by (metis List.finite_set card_mono finite_imageI)
  have b: "bbox_budget default_settings = 64" by (simp add: bbox_budget_def or_default_def default_settings_def)
  have "round_shards default_settings ?cells slices = []" for slices
    using large_area_searches_nothing [of default_settings ?cells slices] b c by simp
  moreover have "?cells \<noteq> []" using corner_box_searched [of "(0, 0)"] by auto
  ultimately show ?thesis unfolding s by blast
qed

end
