(* ===== verification/Mosaic_Rounds.thy ===== *)
theory Mosaic_Rounds
  imports Mosaic_Worker Mosaic_Boxes
begin

text \<open>
  The coordinator of a distributed mosaic plan (\<^verbatim>\<open>plan_mosaic_with_void_fill_distributed\<close> of
  \<^verbatim>\<open>app/services/mosaic_plan_distributed.py\<close>): the rounds, the shards of a round handed out slot by slot, the splitting of boxes that failed
  or found little, the merging of what was found and the reason the plan stopped.

  The record \<open>tools\<close> holds what is not code of the repository or not modelled: the printing of floats and box keys, SHA-256, the square
  root, the planning over a list of scenes (\<open>t_plan\<close>), the reading of a remaining geometry into its parts and bounds
  (\<open>t_gaps\<close>) and of a pair of dates (\<open>t_window\<close>). \<open>others\<close> is what the other processes do to the world while the coordinator
  waits for results. The times measured for the log are left out.

  Shown: when workers take subtasks and answer them, every shard of a round comes back exactly once, in whatever order; the loop of the
  worker modelled in \<^verbatim>\<open>Mosaic_Worker\<close> is such a worker; merging loses no scene; the plan always says why it stopped, and
  says that the coverage was met only when it was.
\<close>

section \<open>Requests and tools\<close>

record plan_request =
  q_job_id :: string
  q_owner_id :: int
  q_catalogs :: "catalog_lite list"
  q_collection :: string
  q_search_bbox :: "rat list"
  q_slices :: "string list"
  q_cloud :: json
  q_sort :: string
  q_limit :: int
  q_same_pass :: bool

record 'd tools =
  t_float :: "rat \<Rightarrow> json"
  t_key_text :: "rat list \<Rightarrow> string"
  t_sha256 :: "string \<Rightarrow> string"
  t_sqrt :: "rat \<Rightarrow> rat"
  t_plan :: "json list \<Rightarrow> 'd option \<Rightarrow> (string \<times> json) list"
  t_gaps :: "json \<Rightarrow> exn + (rat \<times> rat \<times> rat) list \<times> (rat \<times> rat \<times> rat \<times> rat) option"
  t_window :: "string \<Rightarrow> string \<Rightarrow> 'd option"

type_synonym shard = "string \<times> (string \<times> json) list \<times> rat list"

definition shard_key :: "int \<Rightarrow> string \<Rightarrow> string \<Rightarrow> string" where
  "shard_key round_idx k dt = int_str round_idx @ '':'' @ k @ '':'' @ dt"

definition shard_row :: "'d tools \<Rightarrow> settings \<Rightarrow> plan_request \<Rightarrow> int \<Rightarrow> rat list \<times> rat list \<times> string \<Rightarrow> shard" where
  "shard_row T cfg q round_idx kbd =
     (let (k, bb, dt) = kbd; lim_eff = effective_fetch_limit_for_bbox cfg bb (q_limit q)
      in (shard_key round_idx (t_key_text T k) dt,
          build_subtask_payload (t_float T) (q_catalogs q) (q_collection q) bb dt (q_cloud q) (q_sort q) lim_eff, k))"

definition shard_rows :: "'d tools \<Rightarrow> settings \<Rightarrow> plan_request \<Rightarrow> int \<Rightarrow> rat list list \<Rightarrow> shard list" where
  "shard_rows T cfg q round_idx q_bboxes = map (shard_row T cfg q round_idx) (round_shards cfg q_bboxes (q_slices q))"

definition ttl_seconds :: "settings \<Rightarrow> int" where
  "ttl_seconds cfg = max 600 (or_default (mosaic_subjob_result_ttl_seconds cfg) 3600)"

definition shard_wave :: "settings \<Rightarrow> nat" where
  "shard_wave cfg = nat (max 1 (or_default (mosaic_subjob_bbox_datetime_parallelism cfg) 1))"

definition rounds_limit :: "settings \<Rightarrow> nat" where
  "rounds_limit cfg = nat (max 1 (or_default (mosaic_void_fill_max_rounds cfg) 6))"

definition enqueue_row :: "'d tools \<Rightarrow> 's redis \<Rightarrow> settings \<Rightarrow> plan_request \<Rightarrow> int \<Rightarrow> shard \<Rightarrow> (('s, 'z) env_scheme, unit) prog" where
  "enqueue_row T srv cfg q round_idx row =
     bnd (enqueue_mosaic_plan_subtask (t_sha256 T) srv (q_job_id q) (q_owner_id q) round_idx (fst row) (JObj (fst (snd row))) (ttl_seconds cfg))
       (\<lambda>_. ret ())"

section \<open>Handing out the shards\<close>

definition round_progress ::
    "'s redis \<Rightarrow> settings \<Rightarrow> plan_request \<Rightarrow> string \<Rightarrow> int \<Rightarrow> (string \<times> json) list \<Rightarrow> (('s, 'z) menv_scheme, unit) prog" where
  "round_progress srv cfg q phase round_idx counts =
     set_mosaic_plan_job_progress srv cfg (q_job_id q)
       ([(''phase'', JStr phase), (''round'', JInt (round_idx + 1)), (''rounds_max'', JInt (int (rounds_limit cfg)))] @ counts)"

text \<open>The loop of slots; every turn that goes on has received one result, so the number of results still missing
  bounds the turns. \<open>rows\<close> are the shards not yet queued.\<close>

primrec dispatch_loop ::
    "nat \<Rightarrow> 'd tools \<Rightarrow> (('s, 'z) menv_scheme \<Rightarrow> ('s, 'z) menv_scheme) \<Rightarrow> 's redis \<Rightarrow> settings \<Rightarrow> plan_request \<Rightarrow> int \<Rightarrow> nat \<Rightarrow>
     shard list \<Rightarrow> nat \<Rightarrow> json list \<Rightarrow> (('s, 'z) menv_scheme, json list) prog" where
  "dispatch_loop 0 T others srv cfg q round_idx children_total rows in_flight results = ret results"
| "dispatch_loop (Suc missing) T others srv cfg q round_idx children_total rows in_flight results =
     (let free = min (shard_wave cfg - in_flight) (length rows); in_flight' = in_flight + free in
      bnd (for_each (take free rows) (\<lambda>row _. enqueue_row T srv cfg q round_idx row) ()) (\<lambda>_.
      if in_flight' = 0 then ret results
      else
        bnd (modify others) (\<lambda>_.
        bnd (await_mosaic_plan_subtask_results srv (q_job_id q) round_idx 1) (\<lambda>got.
        if got = [] then ret results
        else
          bnd (round_progress srv cfg q ''collecting_subjobs'' round_idx
            [(''children_total'', JInt (int children_total)), (''children_done'', JInt (int (length (results @ got))))]) (\<lambda>_.
          dispatch_loop missing T others srv cfg q round_idx children_total (drop free rows) (in_flight' - length got) (results @ got))))))"

definition dispatch_shards ::
    "'d tools \<Rightarrow> (('s, 'z) menv_scheme \<Rightarrow> ('s, 'z) menv_scheme) \<Rightarrow> 's redis \<Rightarrow> settings \<Rightarrow> plan_request \<Rightarrow> int \<Rightarrow>
     shard list \<Rightarrow> (('s, 'z) menv_scheme, json list) prog" where
  "dispatch_shards T others srv cfg q round_idx rows =
     (let children_total = length rows in
      bnd (round_progress srv cfg q ''collecting_subjobs'' round_idx
        [(''children_total'', JInt (int children_total)), (''children_done'', JInt 0)]) (\<lambda>_.
      bnd (dispatch_loop children_total T others srv cfg q round_idx children_total rows 0 []) (\<lambda>results.
      if length results < children_total \<and> mosaic_parent_fail_on_partial cfg
      then raise (RuntimeError ''Subjob round timed out before all shard results completed'')
      else ret results)))"

section \<open>Splitting boxes\<close>

text \<open>The features and errors of one result.\<close>

definition result_lists :: "(string \<times> json) list \<Rightarrow> exn + json list \<times> json list" where
  "result_lists d =
     (let res = dict_items (jget d ''result'') in
      sbind (py_list (jget res ''features'')) (\<lambda>feats. sbind (py_list (jget res ''errors'')) (\<lambda>errs. Inr (feats, errs))))"

type_synonym box_stats = "(rat list \<times> (nat \<times> bool)) list"

fun collect_stats :: "(string \<rightharpoonup> rat list) \<Rightarrow> json list \<Rightarrow> box_stats \<Rightarrow> exn + box_stats" where
  "collect_stats task_to_bbox [] stats = Inr stats"
| "collect_stats task_to_bbox (r # rs) stats =
     sbind (json_obj r) (\<lambda>d.
     case task_to_bbox (str_of_field d ''task_id'') of
       None \<Rightarrow> collect_stats task_to_bbox rs stats
     | Some bk \<Rightarrow>
         sbind (result_lists d) (\<lambda>(feats, errs).
         let (n, had_errors) = or_else (map_of stats bk) (0, False)
         in collect_stats task_to_bbox rs (AList.update bk (n + length feats, had_errors \<or> errs \<noteq> []) stats)))"

definition min_bbox_degrees :: "settings \<Rightarrow> rat" where
  "min_bbox_degrees cfg = max (5 / 100) (or_default (mosaic_stac_min_bbox_degrees cfg) (1 / 2))"

text \<open>A box is split when it may be (the boxes of the first round have depth 0) and it had errors or, being large, found fewer than ten scenes.\<close>

definition needs_split :: "settings \<Rightarrow> rat list \<Rightarrow> nat \<times> bool \<Rightarrow> bool" where
  "needs_split cfg bb st \<longleftrightarrow>
     (let (feat_n, had_err) = st; (w, h) = bbox_size_degrees bb; min_deg = min_bbox_degrees cfg;
          low_yield = (max w h \<ge> max 2 (min_deg * 2) \<and> feat_n < 10)
      in can_split_bbox bb 0 (max 0 (mosaic_stac_max_split_depth cfg)) min_deg \<and> (had_err \<or> low_yield))"

type_synonym box_table = "(rat list \<times> rat list) list"

primrec add_children :: "nat \<Rightarrow> rat list list \<Rightarrow> box_table \<times> rat list list \<Rightarrow> box_table \<times> rat list list" where
  "add_children budget [] acc = acc"
| "add_children budget (ch # chs) acc =
     (let (known, added) = acc; ck = bbox_key ch in
      if length known \<ge> budget then acc
      else if ck \<in> fst ` set known then add_children budget chs acc
      else add_children budget chs (known @ [(ck, take 4 ch)], added @ [ck]))"

primrec split_boxes :: "settings \<Rightarrow> box_stats \<Rightarrow> box_table \<times> rat list list \<Rightarrow> box_table \<times> rat list list" where
  "split_boxes cfg [] acc = acc"
| "split_boxes cfg (bs # stats) acc =
     split_boxes cfg stats
       (case map_of (fst acc) (fst bs) of
          None \<Rightarrow> acc
        | Some bb \<Rightarrow> if needs_split cfg bb (snd bs) then add_children (bbox_budget cfg) (subdivide_bbox_2x2 bb) acc else acc)"

definition extra_rows :: "'d tools \<Rightarrow> settings \<Rightarrow> plan_request \<Rightarrow> int \<Rightarrow> box_table \<times> rat list list \<Rightarrow> shard list" where
  "extra_rows T cfg q round_idx acc =
     concat (map (\<lambda>ck. map (\<lambda>dt. shard_row T cfg q round_idx (ck, or_else (map_of (fst acc) ck) [], dt)) (q_slices q)) (snd acc))"

definition split_round ::
    "'d tools \<Rightarrow> (('s, 'z) menv_scheme \<Rightarrow> ('s, 'z) menv_scheme) \<Rightarrow> 's redis \<Rightarrow> settings \<Rightarrow> plan_request \<Rightarrow> int \<Rightarrow> box_table \<Rightarrow>
     shard list \<Rightarrow> json list \<Rightarrow> (('s, 'z) menv_scheme, json list) prog" where
  "split_round T others srv cfg q round_idx boxes rows results =
     (if round_idx = 0 \<and> max 0 (mosaic_stac_max_split_depth cfg) > 0 \<and> length boxes < bbox_budget cfg then
        bnd (lift_exn (collect_stats
          (map_of (rev (map (\<lambda>(sk, _, bk). (mosaic_task_id (t_sha256 T) (q_job_id q) round_idx sk, bk)) rows))) results [])) (\<lambda>stats.
        let acc = split_boxes cfg stats (boxes, []); extra = extra_rows T cfg q round_idx acc in
        if snd acc = [] then ret results
        else
          bnd (for_each extra (\<lambda>row _. enqueue_row T srv cfg q round_idx row) ()) (\<lambda>_.
          bnd (modify others) (\<lambda>_.
          bnd (await_mosaic_plan_subtask_results srv (q_job_id q) round_idx (int (length extra))) (\<lambda>got.
          ret (results @ got)))))
      else ret results)"

section \<open>Merging\<close>

definition scene_key :: "(string \<times> json) list \<Rightarrow> exn + string" where
  "scene_key feat =
     (let props = dict_field feat ''properties'' in
      sbind (json_obj props) (\<lambda>p.
      let coll = (if truthy (jget feat ''collection'') then jget feat ''collection'' else jget p ''collection'') in
      Inr (str_of_field p ''geofast:sourceCatalog'' @ '':'' @ (if truthy coll then py_str coll else []) @ '':'' @ str_of_field feat ''id'')))"

type_synonym scene_table = "(string \<times> json) list"

fun merge_features :: "json list \<Rightarrow> scene_table \<Rightarrow> exn + scene_table" where
  "merge_features [] merged = Inr merged"
| "merge_features (JObj f # fs) merged = sbind (scene_key f) (\<lambda>k. merge_features fs (AList.update k (JObj f) merged))"
| "merge_features (_ # fs) merged = merge_features fs merged"

definition error_rows :: "json list \<Rightarrow> (string \<times> string) list" where
  "error_rows errs =
     map (\<lambda>e. let d = dict_items e; detail = str_of_field d ''detail''
               in (str_of_field d ''catalog_id'', if detail = [] then ''subtask_failed'' else detail)) (filter is_dict errs)"

record merge_state =
  m_ok :: nat
  m_fail :: nat
  m_merged :: scene_table
  m_errors :: "(string \<times> string) list"

fun merge_results :: "json list \<Rightarrow> merge_state \<Rightarrow> exn + merge_state" where
  "merge_results [] m = Inr m"
| "merge_results (row # rows) m =
     sbind (json_obj row) (\<lambda>d.
     sbind (result_lists d) (\<lambda>(feats, errs).
     sbind (merge_features feats (m_merged m)) (\<lambda>merged.
     let good = (str_of_field d ''status'' \<in> {''completed'', ''completed_with_errors''}) in
     merge_results rows
       (m\<lparr>m_ok := m_ok m + (if good then 1 else 0), m_fail := m_fail m + (if good then 0 else 1), m_merged := merged,
          m_errors := m_errors m @ error_rows errs\<rparr>))))"

section \<open>Rounds\<close>

definition run_round ::
    "'d tools \<Rightarrow> (('s, 'z) menv_scheme \<Rightarrow> ('s, 'z) menv_scheme) \<Rightarrow> 's redis \<Rightarrow> settings \<Rightarrow> plan_request \<Rightarrow> int \<Rightarrow> rat list list \<Rightarrow>
     scene_table \<Rightarrow> (string \<times> string) list \<Rightarrow> (('s, 'z) menv_scheme, scene_table \<times> (string \<times> string) list) prog" where
  "run_round T others srv cfg q round_idx q_bboxes merged all_errors =
     (let rows = shard_rows T cfg q round_idx q_bboxes in
      bnd (dispatch_shards T others srv cfg q round_idx rows) (\<lambda>results.
      bnd (split_round T others srv cfg q round_idx (round_boxes [] q_bboxes) rows results) (\<lambda>results'.
      bnd (lift_exn (merge_results results' \<lparr>m_ok = 0, m_fail = 0, m_merged = merged, m_errors = all_errors\<rparr>)) (\<lambda>m.
      bnd (round_progress srv cfg q ''planning'' round_idx
        [(''children_total'', JInt (int (length rows))), (''children_done'', JInt (int (m_ok m + m_fail m))),
         (''children_failed'', JInt (int (m_fail m))), (''features_seen'', JInt (int (length (m_merged m))))]) (\<lambda>_.
      ret (m_merged m, m_errors m))))))"

definition min_uncovered :: "settings \<Rightarrow> rat" where
  "min_uncovered cfg = or_default (mosaic_void_fill_min_uncovered cfg) (1 / 1000)"

text \<open>\<^verbatim>\<open>float(last_result.get("uncovered_fraction") or dflt)\<close>.\<close>

definition uncovered :: "rat \<Rightarrow> (string \<times> json) list \<Rightarrow> exn + rat" where
  "uncovered dflt last_result = (let v = jget last_result ''uncovered_fraction'' in if truthy v then json_float v else Inr dflt)"

definition stopped :: "string \<Rightarrow> (string \<times> json) list \<Rightarrow> (string \<times> json) list" where
  "stopped reason last_result = AList.update ''void_fill_stopped'' (JStr reason) last_result"

text \<open>The boxes of the next round, or the result with the reason to stop.\<close>

definition next_boxes :: "'d tools \<Rightarrow> settings \<Rightarrow> plan_request \<Rightarrow> (string \<times> json) list \<Rightarrow> exn + (string \<times> json) list + rat list list" where
  "next_boxes T cfg q last_result =
     sbind (uncovered 1 last_result) (\<lambda>uf.
     if uf \<le> min_uncovered cfg then Inr (Inl (stopped ''coverage_met'' last_result))
     else if \<not> truthy (jget last_result ''remaining_uncovered'') then Inr (Inl (stopped ''no_remaining_geometry'' last_result))
     else case t_gaps T (jget last_result ''remaining_uncovered'') of
         Inl _ \<Rightarrow> Inr (Inl (stopped ''invalid_remaining'' last_result))
       | Inr (gaps, bounds) \<Rightarrow>
           let b = q_search_bbox q; clip_bbox = (b ! 0, b ! 1, b ! 2, b ! 3);
               pin = pinpoint_bboxes_from_remainder (t_sqrt T) gaps clip_bbox (nat (max 1 (or_default (mosaic_void_pinpoint_max_parts cfg) 16)))
           in if pin \<noteq> [] then Inr (Inr pin)
              else case void_search_bbox bounds clip_bbox of
                  None \<Rightarrow> Inr (Inl (stopped ''void_bbox_degenerate'' last_result))
                | Some vb \<Rightarrow> Inr (Inr [vb]))"

definition lock_window :: "'d tools \<Rightarrow> plan_request \<Rightarrow> (string \<times> json) list \<Rightarrow> 'd option \<Rightarrow> 'd option" where
  "lock_window T q last_result locked =
     (if q_same_pass q \<and> locked = None then
        (case jget last_result ''same_seven_day_window'' of
           JObj sw \<Rightarrow> if truthy (jget sw ''start'') \<and> truthy (jget sw ''end'')
                     then t_window T (take 10 (py_str (jget sw ''start''))) (take 10 (py_str (jget sw ''end''))) else locked
         | _ \<Rightarrow> locked)
      else locked)"

definition planned :: "'d tools \<Rightarrow> plan_request \<Rightarrow> int \<Rightarrow> scene_table \<Rightarrow> 'd option \<Rightarrow> (string \<times> json) list" where
  "planned T q round_idx merged locked =
     (let last_result = t_plan T (map snd merged) (if round_idx = 0 then locked else None);
          last_result' = (if round_idx > 0 \<and> q_same_pass q then AList.update ''void_fill_relaxed_date_lock'' (JBool True) last_result else last_result)
      in AList.update ''stac_feature_pool_size'' (JInt (int (length merged)))
           (AList.update ''void_fill_rounds'' (JInt (round_idx + 1)) last_result'))"

primrec plan_rounds ::
    "nat \<Rightarrow> 'd tools \<Rightarrow> (('s, 'z) menv_scheme \<Rightarrow> ('s, 'z) menv_scheme) \<Rightarrow> 's redis \<Rightarrow> settings \<Rightarrow> plan_request \<Rightarrow> int \<Rightarrow>
     scene_table \<Rightarrow> (string \<times> string) list \<Rightarrow> (string \<times> json) list option \<Rightarrow> 'd option \<Rightarrow>
     (('s, 'z) menv_scheme, (string \<times> json) list option \<times> (string \<times> string) list \<times> scene_table) prog" where
  "plan_rounds 0 T others srv cfg q round_idx merged all_errors last_result locked = ret (last_result, all_errors, merged)"
| "plan_rounds (Suc n) T others srv cfg q round_idx merged all_errors last_result locked =
     bnd (if round_idx = 0 then ret (Inr (split_initial_search_bboxes cfg (q_search_bbox q)))
          else case last_result of None \<Rightarrow> raise AssertionError | Some l \<Rightarrow> lift_exn (next_boxes T cfg q l)) (\<lambda>next.
     case next of
       Inl l \<Rightarrow> ret (Some l, all_errors, merged)
     | Inr q_bboxes \<Rightarrow>
         if q_bboxes = [] then ret (last_result, all_errors, merged)
         else
           bnd (run_round T others srv cfg q round_idx q_bboxes merged all_errors) (\<lambda>(merged', errors').
           let l = planned T q round_idx merged' locked; locked' = lock_window T q l locked in
           bnd (lift_exn (uncovered 0 l)) (\<lambda>uf.
           if uf \<le> min_uncovered cfg then ret (Some (stopped ''coverage_met'' l), errors', merged')
           else plan_rounds n T others srv cfg q (round_idx + 1) merged' errors' (Some l) locked')))"

definition error_map :: "(string \<times> string) list \<Rightarrow> (string \<times> string) list" where
  "error_map errs = foldl (\<lambda>m (cid, detail). if cid \<noteq> [] then AList.update cid detail m else m) [] errs"

definition plan_mosaic_with_void_fill_distributed ::
    "'d tools \<Rightarrow> (('s, 'z) menv_scheme \<Rightarrow> ('s, 'z) menv_scheme) \<Rightarrow> 's redis \<Rightarrow> settings \<Rightarrow> plan_request \<Rightarrow>
     (('s, 'z) menv_scheme, (string \<times> json) list \<times> (string \<times> string) list \<times> json list) prog" where
  "plan_mosaic_with_void_fill_distributed T others srv cfg q =
     bnd (plan_rounds (rounds_limit cfg) T others srv cfg q 0 [] [] None None) (\<lambda>(last_result, all_errors, merged).
     let l = (case last_result of
           Some l \<Rightarrow> l
         | None \<Rightarrow> AList.update ''stac_feature_pool_size'' (JInt 0) (AList.update ''void_fill_rounds'' (JInt 0) (t_plan T [] None))) in
     bnd (if map_of l ''void_fill_stopped'' \<noteq> None then ret l
          else bnd (lift_exn (uncovered 0 l)) (\<lambda>uf.
               ret (stopped (if uf > min_uncovered cfg then ''max_rounds'' else ''coverage_met'') l))) (\<lambda>out.
     ret (out, error_map all_errors, map snd merged)))"

section \<open>Every shard comes back\<close>

text \<open>The identifier a message or a result carries.\<close>

definition json_id :: "json \<Rightarrow> string" where
  "json_id j = str_of_field (dict_items j) ''task_id''"

definition text_id :: "string \<Rightarrow> string" where
  "text_id m = (case loads m of Inl _ \<Rightarrow> [] | Inr j \<Rightarrow> json_id j)"

definition row_id :: "'d tools \<Rightarrow> plan_request \<Rightarrow> int \<Rightarrow> shard \<Rightarrow> string" where
  "row_id T q round_idx row = mosaic_task_id (t_sha256 T) (q_job_id q) round_idx (fst row)"

definition has_task :: "('s \<Rightarrow> store) \<Rightarrow> ('s, 'z) env_scheme \<Rightarrow> string \<Rightarrow> bool" where
  "has_task view w tid \<longleftrightarrow> view (rds w) (subtask_key tid) \<noteq> None \<and> as_hash (view (rds w) (subtask_key tid)) \<noteq> None"

definition queued_ok :: "('s \<Rightarrow> store) \<Rightarrow> string \<Rightarrow> int \<Rightarrow> ('s, 'z) env_scheme \<Rightarrow> string \<Rightarrow> bool" where
  "queued_ok view jid r w m \<longleftrightarrow> (\<exists>tid oid sk body. loads m = Inr (subtask_message tid jid oid r sk (JObj body)) \<and> tid \<noteq> [] \<and>
     has_task view w tid)"

text \<open>The state of a round: \<open>queue\<close> are the subtasks waiting, \<open>found\<close> the results reported.\<close>

definition round_state ::
    "('s \<Rightarrow> store) \<Rightarrow> string \<Rightarrow> int \<Rightarrow> string list \<Rightarrow> string list \<Rightarrow> ('s, 'z) env_scheme \<Rightarrow> bool" where
  "round_state view jid r queue found w \<longleftrightarrow>
     map_option fst (as_list (view (rds w) MOSAIC_PLAN_SUBTASK_QUEUE_KEY)) = Some queue \<and>
     map_option fst (as_list (view (rds w) (subtask_result_key jid r))) = Some found \<and>
     has_hash view jid w \<and> (\<forall>m\<in>set queue. queued_ok view jid r w m) \<and> (\<forall>e\<in>set found. \<exists>d. loads e = Inr (JObj d))"

text \<open>What the coordinator relies on while it waits: subtasks become results under the same identifier, one at least when there is any, and no
  subtask that was not queued appears.\<close>

locale subtask_service =
  fixes view :: "'s \<Rightarrow> store" and others :: "('s, 'z) menv_scheme \<Rightarrow> ('s, 'z) menv_scheme" and jid :: string and r :: int
  assumes serves: "round_state view jid r queue found w \<Longrightarrow> \<exists>queue' found'. round_state view jid r queue' found' (others w) \<and>
      mset (map text_id queue') + mset (map text_id found') = mset (map text_id queue) + mset (map text_id found) \<and>
      (queue \<noteq> [] \<or> found \<noteq> [] \<longrightarrow> found' \<noteq> [])"
    and no_new: "round_state view jid r queue found w \<Longrightarrow> view (rds w) (subtask_key t) = None \<Longrightarrow> view (rds (others w)) (subtask_key t) = None"

lemma queued_ok_mono:
  assumes "queued_ok view jid r w m" and "\<And>t. has_task view w t \<Longrightarrow> has_task view w' t"
  shows "queued_ok view jid r w' m"
  using assms unfolding queued_ok_def by blast

lemma text_id_message: "json_ok payload \<Longrightarrow> text_id (dumps_compact (subtask_message tid jid oid r sk payload)) = tid"
  by (simp add: text_id_def json_id_def subtask_message_def dict_items_def str_of_field_def jget_def py_str_def)

context redis_up
begin

lemma round_state_cong:
  assumes "round_state view jid r queue found w" and "has_hash view jid w'"
    and "\<And>k. k \<noteq> mosaic_job_key jid \<Longrightarrow> view (rds w') k = view (rds w) k"
  shows "round_state view jid r queue found w'"
  using assms by (simp add: round_state_def queued_ok_def has_task_def)

lemma progress_run:
  assumes "has_hash view jid w"
  shows "fst (set_mosaic_plan_job_progress srv cfg jid flds w) = Inr ()"
    and "has_hash view jid (snd (set_mosaic_plan_job_progress srv cfg jid flds w))"
    and "k \<noteq> mosaic_job_key jid \<Longrightarrow> view (rds (snd (set_mosaic_plan_job_progress srv cfg jid flds w))) k = view (rds w) k"
proof -
  show "fst (set_mosaic_plan_job_progress srv cfg jid flds w) = Inr ()"
    "has_hash view jid (snd (set_mosaic_plan_job_progress srv cfg jid flds w))"
    using triple_progress [of jid cfg flds] assms
    by (cases "fst (set_mosaic_plan_job_progress srv cfg jid flds w)"; force simp: triple_def)+
  show "view (rds (snd (set_mosaic_plan_job_progress srv cfg jid flds w))) k = view (rds w) k" if "k \<noteq> mosaic_job_key jid"
    using that assms unfolding set_mosaic_plan_job_progress_def Let_def has_hash_def
    by (auto simp: prog_simps redis_simps split: option.split)
qed

lemma enqueue_row_run:
  assumes st: "round_state view jid r queue found w" and new: "view (rds w) (subtask_key (row_id T q r row)) = None"
    and row: "json_ok (JObj (fst (snd row)))" "row_id T q r row \<noteq> []" and jid: "q_job_id q = jid"
  shows "\<exists>w' m. enqueue_row T srv cfg q r row w = (Inr (), w') \<and> round_state view jid r (m # queue) found w' \<and> text_id m = row_id T q r row \<and>
    (\<forall>k. k \<noteq> row_id T q r row \<longrightarrow> view (rds w') (subtask_key k) = view (rds w) (subtask_key k))"
proof -
  let ?tid = "row_id T q r row"
  let ?msg = "subtask_message ?tid jid (q_owner_id q) r (fst row) (JObj (fst (snd row)))"
  obtain tq where l: "as_list (view (rds w) MOSAIC_PLAN_SUBTASK_QUEUE_KEY) = Some (queue, tq)" using st by (auto simp: round_state_def)
  have ttl: "0 < ttl_seconds cfg" by (simp add: ttl_seconds_def)
  define w' where "w' = snd (enqueue_row T srv cfg q r row w)"
  note new_run = create_subtask_new [OF new l mosaic_keys(3) ttl]
  obtain mapping where call: "enqueue_row T srv cfg q r row w =
      bnd (create_subtask srv (subtask_key ?tid) MOSAIC_PLAN_SUBTASK_QUEUE_KEY mapping ?msg (ttl_seconds cfg)) (\<lambda>_. ret ()) w"
    by (simp add: enqueue_row_def enqueue_mosaic_plan_subtask_def Let_def bnd_assoc row_id_def jid)
  have run: "enqueue_row T srv cfg q r row w = (Inr (), w')"
    unfolding w'_def call using new_run(1) by (simp add: prog_simps prod_eq_iff)
  obtain h where v: "view (rds w') = (view (rds w))(subtask_key ?tid \<mapsto> (RHash h, Some (ttl_seconds cfg)),
      MOSAIC_PLAN_SUBTASK_QUEUE_KEY \<mapsto> (RList (dumps_compact ?msg # queue), tq))"
    unfolding w'_def call using new_run by (simp add: prog_simps)
  have "loads (dumps_compact ?msg) = Inr ?msg" using row(1) by (intro loads_dumps_compact) (simp only: json_ok_subtask_message)
  then have "queued_ok view jid r w' (dumps_compact ?msg)"
    unfolding queued_ok_def using row(2)
    by (intro exI [of _ ?tid] exI [of _ "q_owner_id q"] exI [of _ "fst row"] exI [of _ "fst (snd row)"]) (simp add: v redis_simps has_task_def)
  moreover have "queued_ok view jid r w' m" if "queued_ok view jid r w m" for m
    using that by (rule queued_ok_mono) (simp add: v redis_simps has_task_def)
  ultimately have "round_state view jid r (dumps_compact ?msg # queue) found w'"
    using st by (auto simp: round_state_def v redis_simps has_hash_def)
  then show ?thesis using run row(1) by (intro exI [of _ w'] exI [of _ "dumps_compact ?msg"]) (simp add: text_id_message v)
qed

lemma enqueue_rows_run:
  assumes "round_state view jid r queue found w" and "\<forall>row\<in>set rows. view (rds w) (subtask_key (row_id T q r row)) = None"
    and "\<forall>row\<in>set rows. json_ok (JObj (fst (snd row))) \<and> row_id T q r row \<noteq> []" and "distinct (map (row_id T q r) rows)" and "q_job_id q = jid"
  shows "\<exists>w' queue'. for_each rows (\<lambda>row _. enqueue_row T srv cfg q r row) () w = (Inr (), w') \<and> round_state view jid r queue' found w' \<and>
    mset (map text_id queue') = mset (map (row_id T q r) rows) + mset (map text_id queue) \<and>
    (\<forall>k. k \<notin> row_id T q r ` set rows \<longrightarrow> view (rds w') (subtask_key k) = view (rds w) (subtask_key k))"
  using assms
proof (induction rows arbitrary: w queue)
  case (Cons row rows)
  obtain w1 m where 1: "enqueue_row T srv cfg q r row w = (Inr (), w1)" "round_state view jid r (m # queue) found w1" "text_id m = row_id T q r row"
      "\<forall>k. k \<noteq> row_id T q r row \<longrightarrow> view (rds w1) (subtask_key k) = view (rds w) (subtask_key k)"
    using enqueue_row_run [OF Cons.prems(1), of T q row cfg] Cons.prems by auto
  have "\<forall>row'\<in>set rows. view (rds w1) (subtask_key (row_id T q r row')) = None"
    using 1(4) Cons.prems(2, 4) by (metis distinct.simps(2) image_eqI image_set list.set_intros(2) list.simps(9))
  from Cons.IH [OF 1(2) this] Cons.prems(3-5) obtain w' queue' where
    2: "for_each rows (\<lambda>row _. enqueue_row T srv cfg q r row) () w1 = (Inr (), w')" "round_state view jid r queue' found w'"
      "mset (map text_id queue') = mset (map (row_id T q r) rows) + mset (map text_id (m # queue))"
      "\<forall>k. k \<notin> row_id T q r ` set rows \<longrightarrow> view (rds w') (subtask_key k) = view (rds w1) (subtask_key k)" by auto
  have "for_each (row # rows) (\<lambda>row _. enqueue_row T srv cfg q r row) () w = (Inr (), w')" using 1(1) 2(1) by (simp add: bnd_def)
  with 1(3, 4) 2(2-4) show ?case by (intro exI [of _ w'] exI [of _ queue']) auto
qed (auto simp: ret_def)

text \<open>Taking one result.\<close>

lemma await_one_run:
  assumes "round_state view jid r queue found w" and "found \<noteq> []"
  shows "\<exists>w' j. await_mosaic_plan_subtask_results srv jid r 1 w = (Inr [j], w') \<and> json_id j = text_id (last found) \<and>
    round_state view jid r queue (butlast found) w' \<and> (\<forall>k. view (rds w') (subtask_key k) = view (rds w) (subtask_key k))"
proof -
  let ?rk = "subtask_result_key jid r"
  obtain t where l: "as_list (view (rds w) ?rk) = Some (found, t)" using assms(1) by (auto simp: round_state_def)
  have "last found \<in> set found" using assms(2) by simp
  then have "\<exists>d. loads (last found) = Inr (JObj d)" using assms(1) unfolding round_state_def by blast
  then obtain d where d: "loads (last found) = Inr (JObj d)" by blast
  let ?m = "await_mosaic_plan_subtask_results srv jid r 1"
  note a = await_loop_takes [OF l, of "Suc 0", folded One_nat_def]
  have first: "take (Suc 0) (rev found) = [last found]" using assms(2) by (cases found rule: rev_exhaust) auto
  have f: "fst (?m w) = Inr [JObj d]"
    using a d first by (simp add: await_mosaic_plan_subtask_results_def decode_entry_def)
  have l': "map_option fst (as_list (view (rds (snd (?m w))) ?rk)) = Some (butlast found)"
    using a by (simp add: await_mosaic_plan_subtask_results_def butlast_conv_take)
  have o: "view (rds (snd (?m w))) k = view (rds w) k" if "k \<noteq> ?rk" for k
    using a that by (simp add: await_mosaic_plan_subtask_results_def)
  have "round_state view jid r queue (butlast found) (snd (?m w))"
    using assms(1) l' o by (auto simp: round_state_def queued_ok_def has_task_def has_hash_def dest: in_set_butlastD)
  moreover have "json_id (JObj d) = text_id (last found)" by (simp add: text_id_def d)
  ultimately show ?thesis using f o by (intro exI [of _ "snd (?m w)"] exI [of _ "JObj d"]) (simp add: prod_eq_iff)
qed

end

text \<open>The coordinator of a round, with a server that answers and workers that answer.\<close>

locale round_coordination =
  redis_up srv view + subtask_service view others jid r
  for srv :: "'s redis" and view and others :: "('s, 'z) menv_scheme \<Rightarrow> ('s, 'z) menv_scheme" and jid and r
begin

lemma others_run:
  assumes "round_state view jid r queue found w" and "length queue + length found = n" and "0 < n"
  shows "\<exists>queue' found'. round_state view jid r queue' found' (others w) \<and> found' \<noteq> [] \<and> length queue' + length found' = n \<and>
    mset (map text_id queue') + mset (map text_id found') = mset (map text_id queue) + mset (map text_id found)"
proof -
  obtain queue' found' where s: "round_state view jid r queue' found' (others w)"
      "mset (map text_id queue') + mset (map text_id found') = mset (map text_id queue) + mset (map text_id found)"
      "queue \<noteq> [] \<or> found \<noteq> [] \<longrightarrow> found' \<noteq> []"
    using serves [OF assms(1)] by blast
  have "length queue' + length found' = length queue + length found"
    using arg_cong [OF s(2), of size] by simp
  then show ?thesis using s assms(2, 3) by (intro exI [of _ queue'] exI [of _ found']) auto
qed

text \<open>One turn: the free slots are filled, the others work, one result is taken and the progress is written.\<close>

lemma dispatch_turn_run:
  fixes T :: "'d tools"
  assumes st: "round_state view jid r queue found w" and new: "new = take (min (shard_wave cfg - in_flight) (length rows)) rows"
    and old: "old = drop (min (shard_wave cfg - in_flight) (length rows)) rows"
    and fresh: "\<forall>row\<in>set new. view (rds w) (subtask_key (row_id T q r row)) = None"
    and ok: "\<forall>row\<in>set new. json_ok (JObj (fst (snd row))) \<and> row_id T q r row \<noteq> []" and dist: "distinct (map (row_id T q r) new)"
    and jid: "q_job_id q = jid" and len: "length queue + length found = in_flight" "in_flight + length new = Suc n"
  shows "\<exists>w' j queue' found'. dispatch_loop (Suc missing) T others srv cfg q r n_all rows in_flight results w =
      dispatch_loop missing T others srv cfg q r n_all old n (results @ [j]) w' \<and>
    round_state view jid r queue' found' w' \<and> length queue' + length found' = n \<and>
    add_mset (json_id j) (mset (map text_id queue') + mset (map text_id found')) =
      mset (map text_id queue) + mset (map text_id found) + mset (map (row_id T q r) new) \<and>
    (\<forall>k. k \<notin> row_id T q r ` set new \<and> view (rds w) (subtask_key k) = None \<longrightarrow> view (rds w') (subtask_key k) = None)"
proof -
  let ?rows = "take (min (shard_wave cfg - in_flight) (length rows)) rows"
  obtain w1 queue1 where 1: "for_each new (\<lambda>row _. enqueue_row T srv cfg q r row) () w = (Inr (), w1)"
      "round_state view jid r queue1 found w1"
      "mset (map text_id queue1) = mset (map (row_id T q r) new) + mset (map text_id queue)"
      "\<forall>k. k \<notin> row_id T q r ` set new \<longrightarrow> view (rds w1) (subtask_key k) = view (rds w) (subtask_key k)"
    using enqueue_rows_run [OF st fresh ok dist jid, of cfg] by blast
  have len1: "length queue1 + length found = Suc n" using arg_cong [OF 1(3), of size] len by simp
  obtain queue2 found2 where 2: "round_state view jid r queue2 found2 (others w1)" "found2 \<noteq> []" "length queue2 + length found2 = Suc n"
      "mset (map text_id queue2) + mset (map text_id found2) = mset (map text_id queue1) + mset (map text_id found)"
    using others_run [OF 1(2) len1] by blast
  obtain w3 j where 3: "await_mosaic_plan_subtask_results srv jid r 1 (others w1) = (Inr [j], w3)" "json_id j = text_id (last found2)"
      "round_state view jid r queue2 (butlast found2) w3" "\<forall>k. view (rds w3) (subtask_key k) = view (rds (others w1)) (subtask_key k)"
    using await_one_run [OF 2(1, 2)] by blast
  let ?prog = "round_progress srv cfg q ''collecting_subjobs'' r
      [(''children_total'', JInt (int n_all)), (''children_done'', JInt (int (length (results @ [j]))))]"
  have h3: "has_hash view jid w3" using 3(3) by (simp add: round_state_def)
  define w4 where "w4 = snd (?prog w3)"
  have p: "?prog w3 = (Inr (), w4)" "has_hash view jid w4" "\<And>k. k \<noteq> mosaic_job_key jid \<Longrightarrow> view (rds w4) k = view (rds w3) k"
    using progress_run [OF h3] by (simp_all only: round_progress_def w4_def jid prod_eq_iff fst_conv snd_conv simp_thms)
  have n: "in_flight + min (shard_wave cfg - in_flight) (length rows) = Suc n" using len(2) new by simp
  have run: "dispatch_loop (Suc missing) T others srv cfg q r n_all rows in_flight results w =
      dispatch_loop missing T others srv cfg q r n_all old n (results @ [j]) w4"
    unfolding dispatch_loop.simps Let_def n
    by (simp only: bnd_def modify_def 1(1) [unfolded new] 3(1) p(1) jid old fst_conv snd_conv sum.case if_False nat.distinct list.distinct)
      simp
  have "mset (map text_id found2) = add_mset (json_id j) (mset (map text_id (butlast found2)))"
    unfolding 3(2) using 2(2) by (cases found2 rule: rev_exhaust) simp_all
  then have "add_mset (json_id j) (mset (map text_id queue2) + mset (map text_id (butlast found2))) =
      mset (map text_id queue2) + mset (map text_id found2)" by simp
  then have ids: "add_mset (json_id j) (mset (map text_id queue2) + mset (map text_id (butlast found2))) =
      mset (map text_id queue) + mset (map text_id found) + mset (map (row_id T q r) new)"
    unfolding 2(4) 1(3) by (simp only: ac_simps)
  have gone: "view (rds w4) (subtask_key k) = None" if "k \<notin> row_id T q r ` set new" "view (rds w) (subtask_key k) = None" for k
    using that 1(4) 3(4) p(3) no_new [OF 1(2), of k] by (metis mosaic_keys(9))
  have "length queue2 + length (butlast found2) = n" using 2(2, 3) by (cases found2 rule: rev_exhaust) auto
  then show ?thesis
    using run round_state_cong [OF 3(3) p(2, 3)] ids gone by blast
qed

lemma dispatch_loop_run:
  fixes T :: "'d tools"
  assumes "round_state view jid r queue found w" and "\<forall>row\<in>set rows. view (rds w) (subtask_key (row_id T q r row)) = None"
    and "\<forall>row\<in>set rows. json_ok (JObj (fst (snd row))) \<and> row_id T q r row \<noteq> []" and "distinct (map (row_id T q r) rows)" and "q_job_id q = jid"
    and "length queue + length found = in_flight" and "missing = in_flight + length rows"
  shows "\<exists>more w'. dispatch_loop missing T others srv cfg q r n_all rows in_flight results w = (Inr (results @ more), w') \<and>
    mset (map json_id more) = mset (map text_id queue) + mset (map text_id found) + mset (map (row_id T q r) rows)"
  using assms
proof (induction missing arbitrary: w queue found rows in_flight results)
  case 0
  then show ?case by (auto simp: ret_def)
next
  case (Suc missing)
  define free where "free = min (shard_wave cfg - in_flight) (length rows)"
  define new old where nd: "new = take free rows" and od: "old = drop free rows"
  have rows: "rows = new @ old" by (simp add: nd od)
  have "0 < shard_wave cfg" by (simp add: shard_wave_def)
  then have busy: "0 < in_flight + free" using Suc.prems(7) by (auto simp: free_def)
  then obtain n where n: "in_flight + length new = Suc n" by (metis gr0_conv_Suc nd free_def length_take min.cobounded2 min.absorb2 min.commute)
  have missing: "missing = n + length old" using Suc.prems(7) n rows by simp
  have ok: "\<forall>row\<in>set new. view (rds w) (subtask_key (row_id T q r row)) = None"
      "\<forall>row\<in>set new. json_ok (JObj (fst (snd row))) \<and> row_id T q r row \<noteq> []" "distinct (map (row_id T q r) new)"
    using Suc.prems(2-4) rows by auto
  obtain w1 j queue1 found1 where 1: "dispatch_loop (Suc missing) T others srv cfg q r n_all rows in_flight results w =
        dispatch_loop missing T others srv cfg q r n_all old n (results @ [j]) w1"
      "round_state view jid r queue1 found1 w1" "length queue1 + length found1 = n"
      "add_mset (json_id j) (mset (map text_id queue1) + mset (map text_id found1)) =
        mset (map text_id queue) + mset (map text_id found) + mset (map (row_id T q r) new)"
      "\<forall>k. k \<notin> row_id T q r ` set new \<and> view (rds w) (subtask_key k) = None \<longrightarrow> view (rds w1) (subtask_key k) = None"
    using dispatch_turn_run [OF Suc.prems(1) nd [unfolded free_def] od [unfolded free_def] ok Suc.prems(5, 6) n, of missing n_all results] by blast
  have apart: "row_id T q r ` set new \<inter> row_id T q r ` set old = {}" using Suc.prems(4) rows by simp
  have old: "\<forall>row\<in>set old. view (rds w1) (subtask_key (row_id T q r row)) = None"
    using 1(5) Suc.prems(2) rows apart by (metis IntI UnCI empty_iff image_eqI set_append)
  have old': "\<forall>row\<in>set old. json_ok (JObj (fst (snd row))) \<and> row_id T q r row \<noteq> []" "distinct (map (row_id T q r) old)"
    using Suc.prems(3, 4) rows by auto
  obtain more w' where more: "dispatch_loop missing T others srv cfg q r n_all old n (results @ [j]) w1 = (Inr ((results @ [j]) @ more), w')"
      "mset (map json_id more) = mset (map text_id queue1) + mset (map text_id found1) + mset (map (row_id T q r) old)"
    using Suc.IH [OF 1(2) old old' Suc.prems(5) 1(3) missing, of "results @ [j]"] by blast
  moreover have "mset (map json_id (j # more)) = mset (map text_id queue) + mset (map text_id found) + mset (map (row_id T q r) rows)"
    using 1(4) more(2) by (simp add: rows)
  ultimately show ?case using 1(1) by (intro exI [of _ "j # more"] exI [of _ w']) simp
qed

lemma dispatch_shards_run:
  fixes T :: "'d tools"
  assumes "round_state view jid r [] [] w" and "\<forall>row\<in>set rows. view (rds w) (subtask_key (row_id T q r row)) = None"
    and "\<forall>row\<in>set rows. json_ok (JObj (fst (snd row))) \<and> row_id T q r row \<noteq> []" and "distinct (map (row_id T q r) rows)" and "q_job_id q = jid"
  shows "\<exists>results w'. dispatch_shards T others srv cfg q r rows w = (Inr results, w') \<and> mset (map json_id results) = mset (map (row_id T q r) rows)"
proof -
  let ?prog = "round_progress srv cfg q ''collecting_subjobs'' r [(''children_total'', JInt (int (length rows))), (''children_done'', JInt 0)]"
  have h: "has_hash view jid w" using assms(1) by (simp add: round_state_def)
  define w1 where "w1 = snd (?prog w)"
  have p: "?prog w = (Inr (), w1)" "has_hash view jid w1" "\<And>k. k \<noteq> mosaic_job_key jid \<Longrightarrow> view (rds w1) k = view (rds w) k"
    using progress_run [OF h] by (simp_all only: round_progress_def w1_def assms(5) prod_eq_iff fst_conv snd_conv simp_thms)
  have "\<forall>row\<in>set rows. view (rds w1) (subtask_key (row_id T q r row)) = None" using assms(2) p(3) by simp
  from dispatch_loop_run [OF round_state_cong [OF assms(1) p(2, 3)] this assms(3-5), where in_flight = 0 and results = "[]" and cfg = cfg and n_all = "length rows"]
  obtain more w2 where loop: "dispatch_loop (length rows) T others srv cfg q r (length rows) rows 0 [] w1 = (Inr more, w2)"
    and ids: "mset (map json_id more) = mset (map (row_id T q r) rows)" by auto
  have len: "length more = length rows" using arg_cong [OF ids, of size] by simp
  have "dispatch_shards T others srv cfg q r rows w = (Inr more, w2)"
    unfolding dispatch_shards_def Let_def by (simp only: bnd_def p(1) loop len fst_conv snd_conv sum.case) (simp add: ret_def)
  then show ?thesis using ids by blast
qed

end

section \<open>The workers serve\<close>

text \<open>What a free worker does with the queue of subtasks: wait for one, read it, run it. The task it starts swallows whatever escapes.\<close>

definition serve_subtask ::
    "(exn \<Rightarrow> string) \<Rightarrow> (search_args \<Rightarrow> (('s, 'z) env_scheme, json list \<times> json list) prog) \<Rightarrow> 's redis \<Rightarrow> (('s, 'z) env_scheme, unit) prog" where
  "serve_subtask str_e collect srv =
     bnd (r_brpop srv [MOSAIC_PLAN_SUBTASK_QUEUE_KEY]) (\<lambda>item.
     case item of
       None \<Rightarrow> ret ()
     | Some (_, raw) \<Rightarrow>
         (case loads raw of
            Inr (JObj payload) \<Rightarrow> catch (run_subtask str_e (execute_subtask_payload collect) srv payload) (\<lambda>_. ret ())
          | _ \<Rightarrow> ret ()))"

primrec serve_subtasks ::
    "nat \<Rightarrow> (exn \<Rightarrow> string) \<Rightarrow> (search_args \<Rightarrow> (('s, 'z) env_scheme, json list \<times> json list) prog) \<Rightarrow> 's redis \<Rightarrow> ('s, 'z) env_scheme \<Rightarrow> ('s, 'z) env_scheme" where
  "serve_subtasks 0 str_e collect srv w = w"
| "serve_subtasks (Suc n) str_e collect srv w = serve_subtasks n str_e collect srv (snd (serve_subtask str_e collect srv w))"

text \<open>A search that leaves the planner's keys alone and returns values JSON can hold.\<close>

definition search_fair :: "('s \<Rightarrow> store) \<Rightarrow> (search_args \<Rightarrow> (('s, 'z) env_scheme, json list \<times> json list) prog) \<Rightarrow> bool" where
  "search_fair view collect \<longleftrightarrow> (\<forall>a. spares view (collect a)) \<and>
     (\<forall>a w fs es. fst (collect a w) = Inr (fs, es) \<longrightarrow> json_ok (JArr fs) \<and> json_ok (JArr es))"

lemma search_fair_answer:
  assumes "search_fair view collect"
  shows "text_id (dumps_compact (subtask_answer str_e tid (fst (search_of collect body w)))) = tid"
    and "\<exists>d. loads (dumps_compact (subtask_answer str_e tid (fst (search_of collect body w)))) = Inr (JObj d)"
proof -
  let ?a = "subtask_answer str_e tid (fst (search_of collect body w))"
  have "json_ok ?a"
    using assms by (auto simp: subtask_answer_def subtask_result_entry_def search_fair_def search_of_def prog_simps split: sum.split prod.split)
  then have l: "loads (dumps_compact ?a) = Inr ?a" by (rule loads_dumps_compact)
  show "text_id (dumps_compact ?a) = tid"
    unfolding text_id_def l
    by (auto simp: json_id_def dict_items_def subtask_answer_def subtask_result_entry_def str_of_field_def jget_def py_str_def split: sum.split prod.split)
  show "\<exists>d. loads (dumps_compact ?a) = Inr (JObj d)"
    unfolding l by (auto simp: subtask_answer_def subtask_result_entry_def split: sum.split prod.split)
qed

locale serving_workers =
  redis_up srv view for srv :: "'s redis" and view +
  fixes str_e :: "exn \<Rightarrow> string" and collect :: "search_args \<Rightarrow> (('s, 'z) menv_scheme, json list \<times> json list) prog"
    and pace :: "('s, 'z) menv_scheme \<Rightarrow> nat" and jid :: string and r :: int
  assumes fair: "search_fair view collect" and job: "jid \<noteq> []"
begin

lemma serve_run:
  assumes st: "round_state view jid r queue found w"
  shows "\<exists>queue' found'. round_state view jid r queue' found' (snd (serve_subtask str_e collect srv w)) \<and>
      mset (map text_id queue') + mset (map text_id found') = mset (map text_id queue) + mset (map text_id found) \<and>
      (queue \<noteq> [] \<or> found \<noteq> [] \<longrightarrow> found' \<noteq> []) \<and>
      (\<forall>t. view (rds w) (subtask_key t) = None \<longrightarrow> view (rds (snd (serve_subtask str_e collect srv w))) (subtask_key t) = None)"
proof -
  let ?Q = MOSAIC_PLAN_SUBTASK_QUEUE_KEY and ?rk = "subtask_result_key jid r"
  obtain tq tf where l: "as_list (view (rds w) ?Q) = Some (queue, tq)" "as_list (view (rds w) ?rk) = Some (found, tf)"
    using st by (auto simp: round_state_def)
  define w1 where "w1 = w\<lparr>rds := snd (srv (One (BRPop [?Q])) (rds w))\<rparr>"
  show ?thesis
  proof (cases queue rule: rev_exhaust)
    case Nil
    then have "view (rds (snd (serve_subtask str_e collect srv w))) = view (rds w)"
      using l by (simp add: serve_subtask_def prog_simps redis_simps)
    then show ?thesis using st Nil by (intro exI [of _ queue] exI [of _ found]) (simp add: round_state_def queued_ok_def has_task_def has_hash_def)
  next
    case (snoc rest m)
    have v1: "view (rds w1) = (view (rds w))(?Q := if rest = [] then None else Some (RList rest, tq))"
      using l(1) snoc by (simp add: w1_def redis_simps)
    obtain tid oid sk body where m: "loads m = Inr (subtask_message tid jid oid r sk (JObj body))" "tid \<noteq> []"
        "has_task view w tid"
      using st snoc by (auto simp: round_state_def queued_ok_def)
    then obtain h th where h: "as_hash (view (rds w1) (subtask_key tid)) = Some (h, th)" by (auto simp: v1 has_task_def)
    have l1: "as_list (view (rds w1) ?rk) = Some (found, tf)" using l(2) by (simp add: v1)
    obtain payload where msg: "subtask_message tid jid oid r sk (JObj body) = JObj payload" by (simp add: subtask_message_def)
    have "\<And>a. spares view (collect a)" using fair by (simp add: search_fair_def)
    from run_subtask_once [where collect = collect, OF msg m(2) job h l1 this, of str_e] obtain w2 w' h' where
      run: "run_subtask str_e (execute_subtask_payload collect) srv payload w1 = (Inr (), w')"
      and v': "view (rds w') (subtask_key tid) = Some (RHash h', th)"
        "view (rds w') ?rk = Some (RList (found @ [dumps_compact (subtask_answer str_e tid (fst (search_of collect body w2)))]), tf)"
        "\<forall>k\<in>mosaic_space - {subtask_key tid, ?rk}. view (rds w') k = view (rds w1) k" by blast
    let ?e = "dumps_compact (subtask_answer str_e tid (fst (search_of collect body w2)))"
    note e = search_fair_answer [OF fair, of str_e tid body w2]
    have m_id: "text_id m = tid" using m(1) msg by (simp add: text_id_def json_id_def dict_items_def subtask_fields [OF msg])
    have w': "snd (serve_subtask str_e collect srv w) = w'"
      using l(1) snoc m(1) msg run by (simp add: serve_subtask_def prog_simps redis_simps w1_def [symmetric])
    have sub: "view (rds w') (subtask_key k) = view (rds w) (subtask_key k)" if "k \<noteq> tid" for k
      using v'(3) that by (simp add: v1)
    have "has_task view w' k" if "has_task view w k" for k
      using that sub [of k] v'(1) by (cases "k = tid") (simp_all add: redis_simps has_task_def)
    then have q: "queued_ok view jid r w' x" if "queued_ok view jid r w x" for x using that by (rule queued_ok_mono [rotated])
    have "map_option fst (as_list (view (rds w') ?Q)) = Some rest" using v'(3) by (simp add: v1 redis_simps)
    moreover have "has_hash view jid w'" using st v'(3) by (simp add: round_state_def has_hash_def v1)
    ultimately have "round_state view jid r rest (found @ [?e]) w'"
      using st snoc v'(2) e(2) q by (auto simp: round_state_def redis_simps)
    moreover have "view (rds w') (subtask_key t) = None" if "view (rds w) (subtask_key t) = None" for t
      using that sub [of t] m(3) by (cases "t = tid") (auto simp: has_task_def)
    ultimately show ?thesis unfolding w' using snoc e(1) m_id by (intro exI [of _ rest] exI [of _ "found @ [?e]"]) simp
  qed
qed

lemma serves_run:
  assumes "round_state view jid r queue found w"
  shows "\<exists>queue' found'. round_state view jid r queue' found' (serve_subtasks (Suc n) str_e collect srv w) \<and>
      mset (map text_id queue') + mset (map text_id found') = mset (map text_id queue) + mset (map text_id found) \<and>
      (queue \<noteq> [] \<or> found \<noteq> [] \<longrightarrow> found' \<noteq> []) \<and>
      (\<forall>t. view (rds w) (subtask_key t) = None \<longrightarrow> view (rds (serve_subtasks (Suc n) str_e collect srv w)) (subtask_key t) = None)"
  using assms
proof (induction n arbitrary: w queue found)
  case 0
  then show ?case using serve_run by simp
next
  case (Suc n)
  obtain queue1 found1 where 1: "round_state view jid r queue1 found1 (snd (serve_subtask str_e collect srv w))"
      "mset (map text_id queue1) + mset (map text_id found1) = mset (map text_id queue) + mset (map text_id found)"
      "queue \<noteq> [] \<or> found \<noteq> [] \<longrightarrow> found1 \<noteq> []"
      "\<forall>t. view (rds w) (subtask_key t) = None \<longrightarrow> view (rds (snd (serve_subtask str_e collect srv w))) (subtask_key t) = None"
    using serve_run [OF Suc.prems] by blast
  from Suc.IH [OF 1(1)] 1(2-4) show ?case by (subst (1 2) serve_subtasks.simps(2)) metis
qed

end

sublocale serving_workers \<subseteq> round_coordination srv view "\<lambda>w. serve_subtasks (Suc (pace w)) str_e collect srv w" jid r
proof (unfold_locales, goal_cases)
  case (1 queue found w)
  from serves_run [OF 1, of "pace w"] show ?case by blast
next
  case (2 queue found w t)
  from serves_run [OF 2(1), of "pace w"] 2(2) show ?case by blast
qed

context serving_workers
begin

lemmas round_served = dispatch_shards_run

end

lemma shard_rows_ok:
  assumes "\<forall>x. json_ok (t_float T x)" and "json_ok (q_cloud q)" and "\<forall>c\<in>set (q_catalogs q). json_ok (JArr (cat_default c))"
    and "row \<in> set (shard_rows T cfg q r q_bboxes)"
  shows "json_ok (JObj (fst (snd row)))"
  using assms by (auto simp: shard_rows_def shard_row_def Let_def build_subtask_payload_def catalog_payload_def split: prod.splits)

text \<open>C8: a round of shards handed out slot by slot to the workers of \<^verbatim>\<open>mosaic_worker_main\<close> comes back whole: with a Redis that answers,
  whatever the number of slots and however many subtasks the workers take while the coordinator waits, dispatching ends without an error and
  every shard is answered exactly once, whether its search succeeded or failed (the shard identifiers being distinct and new).\<close>

theorem every_shard_answered:
  assumes "redis_up srv view" and "search_fair view collect" and "q_job_id q \<noteq> []" and "round_state view (q_job_id q) r [] [] w"
    and "rows = shard_rows T cfg q r q_bboxes" and "distinct (map (row_id T q r) rows)"
    and "\<forall>row\<in>set rows. view (rds w) (subtask_key (row_id T q r row)) = None \<and> row_id T q r row \<noteq> []"
    and "\<forall>x. json_ok (t_float T x)" and "json_ok (q_cloud q)" and "\<forall>c\<in>set (q_catalogs q). json_ok (JArr (cat_default c))"
  shows "\<exists>results w'. dispatch_shards T (\<lambda>w. serve_subtasks (Suc (pace w)) str_e collect srv w) srv cfg q r rows w = (Inr results, w') \<and>
    mset (map json_id results) = mset (map (row_id T q r) rows)"
proof -
  have "serving_workers srv view collect (q_job_id q)"
    using assms(1-3) by (simp add: serving_workers_def serving_workers_axioms_def)
  from serving_workers.round_served [OF this assms(4), of rows T q pace str_e cfg] show ?thesis
    using assms(5-7) shard_rows_ok [OF assms(8-10)] by blast
qed

definition example_tools :: "unit tools" where
  "example_tools = \<lparr>t_float = whole, t_key_text = (\<lambda>_. ''k''), t_sha256 = (\<lambda>s. s), t_sqrt = (\<lambda>x. x),
     t_plan = (\<lambda>fs _. [(''uncovered_fraction'', JInt (if fs = [] then 1 else 0))]), t_gaps = (\<lambda>_. Inr ([], None)), t_window = (\<lambda>_ _. None)\<rparr>"

definition example_request :: plan_request where
  "example_request = \<lparr>q_job_id = ''j'', q_owner_id = 7, q_catalogs = [], q_collection = ''s2'', q_search_bbox = [0, 0, 1, 1],
     q_slices = [''a'', ''b''], q_cloud = JNull, q_sort = ''best'', q_limit = 100, q_same_pass = False\<rparr>"

definition round_store :: "(string \<times> rentry) list" where
  "round_store = [(mosaic_job_key ''j'', (RHash [(''status'', ''running'')], None))]"

lemma finds_one_fair: "search_fair view finds_one"
  by (auto simp: search_fair_def finds_one_def spares_ret ret_def)

interpretation mem_workers: serving_workers mem_srv map_of exn_name finds_one "\<lambda>_. 0" "''j''" 0
  by unfold_locales (simp_all add: finds_one_fair)

lemma example_rows:
  "map (row_id example_tools example_request 0) (shard_rows example_tools default_settings example_request 0 [[0, 0, 1, 1]]) = [''j:0:0:k:a'', ''j:0:0:k:b'']"
proof -
  have "int_str 0 = ''0''" by code_simp
  then show ?thesis
    by (simp add: example_tools_def example_request_def shard_rows_def shard_row_def round_shards_def bbox_budget_def default_settings_def Let_def row_id_def
        shard_key_def mosaic_task_id_def or_default_def)
qed

theorem every_shard_answered_witness:
  "\<exists>results w'. dispatch_shards example_tools (\<lambda>w. serve_subtasks (Suc 0) exn_name finds_one mem_srv w) mem_srv default_settings example_request 0
      (shard_rows example_tools default_settings example_request 0 [[0, 0, 1, 1]]) (menv0 round_store) = (Inr results, w') \<and>
    mset (map json_id results) = {#''j:0:0:k:a'', ''j:0:0:k:b''#}"
proof -
  let ?rows = "shard_rows example_tools default_settings example_request 0 [[0, 0, 1, 1]]"
  have ids: "row_id example_tools example_request 0 ` set ?rows = {''j:0:0:k:a'', ''j:0:0:k:b''}"
    using example_rows by (metis list.set_map list.simps(15) empty_set)
  have fresh: "\<forall>row\<in>set ?rows. map_of (rds (menv0 round_store)) (subtask_key (row_id example_tools example_request 0 row)) = None \<and>
      row_id example_tools example_request 0 row \<noteq> []"
  proof
    fix row
    assume "row \<in> set ?rows"
    then have "row_id example_tools example_request 0 row \<in> {''j:0:0:k:a'', ''j:0:0:k:b''}" using ids by blast
    then show "map_of (rds (menv0 round_store)) (subtask_key (row_id example_tools example_request 0 row)) = None \<and>
        row_id example_tools example_request 0 row \<noteq> []"
      by (auto simp: menv0_def round_store_def)
  qed
  have st: "round_state map_of (q_job_id example_request) 0 [] [] (menv0 round_store)"
    by (simp add: round_state_def example_request_def menv0_def round_store_def has_hash_def redis_simps)
  have "\<exists>results w'. dispatch_shards example_tools (\<lambda>w. serve_subtasks (Suc 0) exn_name finds_one mem_srv w) mem_srv default_settings example_request 0
      ?rows (menv0 round_store) = (Inr results, w') \<and> mset (map json_id results) = mset (map (row_id example_tools example_request 0) ?rows)"
    by (rule every_shard_answered [OF mem.redis_up_axioms finds_one_fair _ st refl _ fresh])
       (simp_all only: example_rows, simp_all add: example_request_def example_tools_def whole_def)
  then show ?thesis unfolding example_rows by simp
qed

section \<open>Merging loses no scene\<close>

definition row_features :: "json \<Rightarrow> json set" where
  "row_features row = (case py_list (jget (dict_items (jget (dict_items row) ''result'')) ''features'') of Inl _ \<Rightarrow> {} | Inr fs \<Rightarrow> set fs)"

lemma merge_features_keys:
  "merge_features fs merged = Inr merged' \<Longrightarrow>
     fst ` set merged' = fst ` set merged \<union> {k. \<exists>f. JObj f \<in> set fs \<and> scene_key f = Inr k} \<and>
     (distinct (map fst merged) \<longrightarrow> distinct (map fst merged'))"
proof (induction fs merged rule: merge_features.induct)
  case (2 f fs merged)
  then obtain k where k: "scene_key f = Inr k" "merge_features fs (AList.update k (JObj f) merged) = Inr merged'"
    by (auto simp: sbind_def split: sum.splits)
  from "2.IH" [OF k(2)] k(1) show ?case by (auto simp: dom_update distinct_update)
qed auto

text \<open>C31: merging the results of a round keeps every scene: the pool afterwards has exactly the scenes it had before and those of every result,
  each once under its catalogue, collection and identifier, and every result is counted as a success or a failure.\<close>

theorem merge_keeps_scenes:
  assumes "merge_results rows m = Inr m'" and "distinct (map fst (m_merged m))"
  shows "fst ` set (m_merged m') = fst ` set (m_merged m) \<union> {k. \<exists>row\<in>set rows. \<exists>f. JObj f \<in> row_features row \<and> scene_key f = Inr k} \<and>
    distinct (map fst (m_merged m')) \<and> m_ok m' + m_fail m' = m_ok m + m_fail m + length rows"
  using assms
proof (induction rows m rule: merge_results.induct)
  case (2 row rows m)
  then obtain d feats errs merged where
    d: "row = JObj d" "result_lists d = Inr (feats, errs)" "merge_features feats (m_merged m) = Inr merged"
    by (auto simp: sbind_def json_obj_def split: sum.splits json.splits)
  let ?good = "str_of_field d ''status'' \<in> {''completed'', ''completed_with_errors''}"
  let ?m = "m\<lparr>m_ok := m_ok m + (if ?good then 1 else 0), m_fail := m_fail m + (if ?good then 0 else 1), m_merged := merged,
      m_errors := m_errors m @ error_rows errs\<rparr>"
  have step: "merge_results rows ?m = Inr m'" using "2.prems"(1) d by (simp add: json_obj_def Let_def)
  have f: "row_features row = set feats"
    using d(1, 2) by (auto simp: row_features_def result_lists_def dict_items_def sbind_def Let_def split: sum.splits)
  note keys = merge_features_keys [OF d(3)]
  have ih: "fst ` set (m_merged m') = fst ` set (m_merged ?m) \<union> {k. \<exists>row\<in>set rows. \<exists>f. JObj f \<in> row_features row \<and> scene_key f = Inr k} \<and>
      distinct (map fst (m_merged m')) \<and> m_ok m' + m_fail m' = m_ok ?m + m_fail ?m + length rows"
    using "2.IH" [OF refl step] keys "2.prems"(2) by simp
  then show ?case using keys f by auto
qed simp

definition two_scenes :: "json list" where
  "two_scenes = [JObj [(''status'', JStr ''completed''), (''result'', JObj [(''features'', JArr [JObj [(''id'', JStr ''x'')], JObj [(''id'', JStr ''x'')]])])],
     JObj [(''status'', JStr ''failed'')]]"

theorem merge_keeps_scenes_witness:
  "\<exists>m'. merge_results two_scenes \<lparr>m_ok = 0, m_fail = 0, m_merged = [], m_errors = []\<rparr> = Inr m' \<and> distinct (map fst (m_merged m')) \<and>
     m_ok m' + m_fail m' = 2"
proof -
  let ?m = "\<lparr>m_ok = 0, m_fail = 0, m_merged = [], m_errors = []\<rparr>"
  have "\<exists>m'. merge_results two_scenes ?m = Inr m'"
    by (simp add: two_scenes_def json_obj_def result_lists_def jget_def dict_items_def scene_key_def dict_field_def py_list_def Let_def)
  then obtain m' where m': "merge_results two_scenes ?m = Inr m'" by blast
  with merge_keeps_scenes [OF this] show ?thesis by (simp add: two_scenes_def)
qed

section \<open>The plan says why it stopped\<close>

definition says_why :: "settings \<Rightarrow> (string \<times> json) list \<Rightarrow> bool" where
  "says_why cfg l \<longleftrightarrow>
     (\<exists>reason \<in> {''coverage_met'', ''no_remaining_geometry'', ''invalid_remaining'', ''void_bbox_degenerate'', ''max_rounds''}.
        map_of l ''void_fill_stopped'' = Some (JStr reason) \<and>
        (reason = ''coverage_met'' \<longrightarrow> (\<exists>uf. uncovered 0 l = Inr uf \<and> uf \<le> min_uncovered cfg)) \<and>
        (reason = ''max_rounds'' \<longrightarrow> (\<exists>uf. uncovered 0 l = Inr uf \<and> uf > min_uncovered cfg)))"

definition counts_rounds :: "nat \<Rightarrow> (string \<times> json) list \<Rightarrow> bool" where
  "counts_rounds n l \<longleftrightarrow> (\<exists>k. map_of l ''void_fill_rounds'' = Some (JInt k) \<and> 0 \<le> k \<and> k \<le> int n)"

text \<open>A result on the way: it counts its rounds and has either no reason to stop yet or a true one.\<close>

definition result_ok :: "settings \<Rightarrow> nat \<Rightarrow> (string \<times> json) list \<Rightarrow> bool" where
  "result_ok cfg n l \<longleftrightarrow> counts_rounds n l \<and> (map_of l ''void_fill_stopped'' = None \<or> says_why cfg l)"

lemma stopped_fields [simp]:
  "uncovered d (stopped reason l) = uncovered d l" "map_of (stopped reason l) ''void_fill_stopped'' = Some (JStr reason)"
  "counts_rounds n (stopped reason l) = counts_rounds n l"
  by (simp_all add: uncovered_def stopped_def jget_def counts_rounds_def update_conv')

lemma stopped_says_why:
  assumes "reason \<in> {''no_remaining_geometry'', ''invalid_remaining'', ''void_bbox_degenerate''} \<or>
    (reason = ''coverage_met'' \<and> (\<exists>uf. uncovered 0 l = Inr uf \<and> uf \<le> min_uncovered cfg)) \<or>
    (reason = ''max_rounds'' \<and> (\<exists>uf. uncovered 0 l = Inr uf \<and> uf > min_uncovered cfg))"
  shows "says_why cfg (stopped reason l)"
  using assms unfolding says_why_def by (intro bexI [of _ reason]) auto

lemma uncovered_default: "uncovered 1 l = Inr uf \<Longrightarrow> uf \<le> c \<Longrightarrow> \<exists>uf. uncovered 0 l = Inr uf \<and> uf \<le> c"
  by (auto simp: uncovered_def Let_def split: if_splits intro: order_trans [OF zero_le_one])

lemma next_boxes_ok:
  assumes "next_boxes T cfg q l = Inr (Inl l')" and "counts_rounds n l"
  shows "result_ok cfg n l'"
proof -
  obtain uf where uf: "uncovered 1 l = Inr uf" using assms(1) by (cases "uncovered 1 l") (auto simp: next_boxes_def)
  have "\<exists>reason. l' = stopped reason l \<and>
      (reason \<in> {''no_remaining_geometry'', ''invalid_remaining'', ''void_bbox_degenerate''} \<or> reason = ''coverage_met'' \<and> uf \<le> min_uncovered cfg)"
    using assms(1) unfolding next_boxes_def uf sbind_simps Let_def by (auto split: if_split_asm sum.split_asm prod.split_asm option.split_asm)
  then obtain reason where l': "l' = stopped reason l" and why:
      "reason \<in> {''no_remaining_geometry'', ''invalid_remaining'', ''void_bbox_degenerate''} \<or> reason = ''coverage_met'' \<and> uf \<le> min_uncovered cfg" by blast
  have "says_why cfg l'"
    unfolding l' using why uncovered_default [OF uf, of "min_uncovered cfg"] by (intro stopped_says_why) (elim disjE conjE, simp_all)
  then show ?thesis using assms(2) by (simp add: result_ok_def l')
qed

lemma planned_ok:
  assumes "\<forall>fs d. map_of (t_plan T fs d) ''void_fill_stopped'' = None" and "0 \<le> r" and "r < int n"
  shows "counts_rounds n (planned T q r merged locked)" and "map_of (planned T q r merged locked) ''void_fill_stopped'' = None"
  using assms by (auto simp: planned_def Let_def counts_rounds_def update_conv')

lemma plan_rounds_ok:
  assumes plan: "\<forall>fs d. map_of (t_plan T fs d) ''void_fill_stopped'' = None"
  shows "\<forall>l. last_result = Some l \<longrightarrow> counts_rounds n l \<and> map_of l ''void_fill_stopped'' = None \<Longrightarrow> 0 \<le> r \<Longrightarrow> r + int m = int n \<Longrightarrow>
     triple (\<lambda>_. True) (plan_rounds m T others srv cfg q r merged errs last_result locked)
       (\<lambda>(lr, _) _. \<forall>l. lr = Some l \<longrightarrow> result_ok cfg n l) (\<lambda>_ _. True)"
proof (induction m arbitrary: r merged errs last_result locked)
  case 0
  then show ?case by (auto simp: result_ok_def intro!: triple_intros)
next
  case (Suc m)
  have rounds: "triple (\<lambda>_. True) (case nxt of
       Inl l \<Rightarrow> ret (Some l, errs, merged)
     | Inr q_bboxes \<Rightarrow>
         if q_bboxes = [] then ret (last_result, errs, merged)
         else
           bnd (run_round T others srv cfg q r q_bboxes merged errs) (\<lambda>(merged', errors').
           let l = planned T q r merged' locked; locked' = lock_window T q l locked in
           bnd (lift_exn (uncovered 0 l)) (\<lambda>uf.
           if uf \<le> min_uncovered cfg then ret (Some (stopped ''coverage_met'' l), errors', merged')
           else plan_rounds m T others srv cfg q (r + 1) merged' errors' (Some l) locked')))
      (\<lambda>(lr, _) _. \<forall>l. lr = Some l \<longrightarrow> result_ok cfg n l) (\<lambda>_ _. True)"
    if "\<forall>l. nxt = Inl l \<longrightarrow> result_ok cfg n l" for nxt
  proof (cases nxt)
    case (Inl l)
    then show ?thesis using that by (auto intro!: triple_intros)
  next
    case (Inr q_bboxes)
    have end_ok: "triple (\<lambda>_. True) (let l = planned T q r merged' locked; locked' = lock_window T q l locked in
           bnd (lift_exn (uncovered 0 l)) (\<lambda>uf.
           if uf \<le> min_uncovered cfg then ret (Some (stopped ''coverage_met'' l), errors', merged')
           else plan_rounds m T others srv cfg q (r + 1) merged' errors' (Some l) locked'))
         (\<lambda>(lr, _) _. \<forall>l. lr = Some l \<longrightarrow> result_ok cfg n l) (\<lambda>_ _. True)" for merged' errors'
    proof -
      have p: "counts_rounds n (planned T q r merged' locked)" "map_of (planned T q r merged' locked) ''void_fill_stopped'' = None"
        using planned_ok [OF plan Suc.prems(2), of n q merged' locked] Suc.prems(3) by linarith+
      show ?thesis
        unfolding Let_def
      proof (rule triple_bnd [where R = "\<lambda>uf _. uncovered 0 (planned T q r merged' locked) = Inr uf"], goal_cases)
        case 1
        then show ?case by (rule triple_lift_exn) simp_all
      next
        case (2 uf)
        have "triple (\<lambda>_. True) (plan_rounds m T others srv cfg q (r + 1) merged' errors' (Some (planned T q r merged' locked))
            (lock_window T q (planned T q r merged' locked) locked)) (\<lambda>(lr, _) _. \<forall>l. lr = Some l \<longrightarrow> result_ok cfg n l) (\<lambda>_ _. True)"
          by (rule Suc.IH) (use p Suc.prems(2, 3) in simp_all)
        moreover have "triple (\<lambda>_. uncovered 0 (planned T q r merged' locked) = Inr uf)
            (ret (Some (stopped ''coverage_met'' (planned T q r merged' locked)), errors', merged'))
            (\<lambda>(lr, _) _. \<forall>l. lr = Some l \<longrightarrow> result_ok cfg n l) (\<lambda>_ _. True)" if "uf \<le> min_uncovered cfg"
          by (rule triple_ret) (use p(1) that stopped_says_why in \<open>simp add: result_ok_def\<close>)
        ultimately show ?case by (intro triple_if) (simp_all add: triple_def)
      qed
    qed
    show ?thesis
      unfolding Inr sum.case
    proof (rule triple_if, goal_cases)
      case 1
      show ?case by (rule triple_ret) (use Suc.prems(1) in \<open>simp add: result_ok_def\<close>)
    next
      case 2
      show ?case by (rule triple_bnd [OF triple_any]) (split prod.split, use end_ok in blast)
    qed
  qed
  show ?case
    unfolding plan_rounds.simps
  proof (rule triple_bnd [where R = "\<lambda>nxt _. \<forall>l. nxt = Inl l \<longrightarrow> result_ok cfg n l"])
    show "triple (\<lambda>_. True) (if r = 0 then ret (Inr (split_initial_search_bboxes cfg (q_search_bbox q)))
          else case last_result of None \<Rightarrow> raise AssertionError | Some l \<Rightarrow> lift_exn (next_boxes T cfg q l))
        (\<lambda>nxt _. \<forall>l. nxt = Inl l \<longrightarrow> result_ok cfg n l) (\<lambda>_ _. True)"
      using Suc.prems(1) by (auto intro!: triple_intros next_boxes_ok)
  qed (use rounds in \<open>auto simp: triple_def\<close>)
qed

text \<open>C11: a distributed plan always says why it stopped, whatever Redis and the workers do: a plan that is returned carries one of the five reasons;
  \<^verbatim>\<open>coverage_met\<close> only if the uncovered fraction is within the configured limit, \<^verbatim>\<open>max_rounds\<close> only if it is not; and
  it counts no more rounds than are configured.\<close>

theorem plan_says_why_it_stopped:
  assumes "\<forall>fs d. map_of (t_plan T fs d) ''void_fill_stopped'' = None"
    and "plan_mosaic_with_void_fill_distributed T others srv cfg q w = (Inr (out, errs, feats), w')"
  shows "says_why cfg out \<and> counts_rounds (rounds_limit cfg) out"
proof -
  let ?n = "rounds_limit cfg"
  have rounds: "triple (\<lambda>_. True) (plan_rounds ?n T others srv cfg q 0 [] [] None None)
       (\<lambda>(lr, _) _. \<forall>l. lr = Some l \<longrightarrow> result_ok cfg ?n l) (\<lambda>_ _. True)"
    by (rule plan_rounds_ok [OF assms(1)]) simp_all
  have empty: "result_ok cfg ?n (AList.update ''stac_feature_pool_size'' (JInt 0) (AList.update ''void_fill_rounds'' (JInt 0) (t_plan T [] None)))"
    using assms(1) by (simp add: result_ok_def counts_rounds_def update_conv')
  have why: "says_why cfg (stopped (if uf > min_uncovered cfg then ''max_rounds'' else ''coverage_met'') l)" if "uncovered 0 l = Inr uf" for l uf
    using that stopped_says_why [of "''max_rounds''" l cfg] stopped_says_why [of "''coverage_met''" l cfg]
    by (cases "uf > min_uncovered cfg") (simp_all add: not_less)
  have finish: "triple (\<lambda>_. result_ok cfg ?n l)
      (bnd (if map_of l ''void_fill_stopped'' \<noteq> None then ret l
            else bnd (lift_exn (uncovered 0 l)) (\<lambda>uf. ret (stopped (if uf > min_uncovered cfg then ''max_rounds'' else ''coverage_met'') l)))
        (\<lambda>out. ret (out, error_map all_errors, map snd merged)))
      (\<lambda>(out, _) _. says_why cfg out \<and> counts_rounds ?n out) (\<lambda>_ _. True)" for l all_errors merged
  proof (cases "map_of l ''void_fill_stopped'' = None")
    case True
    then show ?thesis
      by (cases "uncovered 0 l") (simp_all add: triple_def bnd_def lift_exn_def ret_def result_ok_def why)
  qed (auto simp: triple_def bnd_def ret_def result_ok_def)
  have start: "result_ok cfg ?n (case lr of Some l \<Rightarrow> l
         | None \<Rightarrow> AList.update ''stac_feature_pool_size'' (JInt 0) (AList.update ''void_fill_rounds'' (JInt 0) (t_plan T [] None)))"
    if "\<forall>l. lr = Some l \<longrightarrow> result_ok cfg ?n l" for lr
    using that empty by (cases lr) simp_all
  have "triple (\<lambda>_. True) (plan_mosaic_with_void_fill_distributed T others srv cfg q)
      (\<lambda>(out, _) _. says_why cfg out \<and> counts_rounds ?n out) (\<lambda>_ _. True)"
    unfolding plan_mosaic_with_void_fill_distributed_def Let_def
  proof (rule triple_bnd [OF rounds], goal_cases)
    case (1 a)
    obtain lr e m where a: "a = (lr, e, m)" by (cases a)
    show ?case unfolding a prod.case by (rule triple_weaken [OF finish]) (simp_all add: start)
  qed
  from tripleD_ret [OF this _ assms(2)] show ?thesis by simp
qed

text \<open>A plan over no dates: its only round has no shards.\<close>

lemma no_slices: "shard_loop n b [] boxes = []"
  by (induction boxes) simp_all

lemma empty_round_run:
  assumes "redis_up srv view" and "has_hash view (q_job_id q) w" and "q_slices q = []"
  shows "\<exists>w'. run_round T others srv cfg q r boxes merged errs w = (Inr (merged, errs), w')"
proof -
  have rows: "shard_rows T cfg q r boxes = []" by (simp add: shard_rows_def round_shards_def assms(3) no_slices Let_def)
  note p = redis_up.progress_run(1, 2) [OF assms(1)]
  have d: "\<exists>w1. dispatch_shards T others srv cfg q r [] w = (Inr [], w1) \<and> has_hash view (q_job_id q) w1"
    using p [OF assms(2)] by (simp add: dispatch_shards_def round_progress_def bnd_def ret_def)
  then obtain w1 where w1: "dispatch_shards T others srv cfg q r [] w = (Inr [], w1)" "has_hash view (q_job_id q) w1" by blast
  have "split_round T others srv cfg q r (round_boxes [] boxes) [] [] w1 = (Inr [], w1)"
    by (simp add: split_round_def bnd_def lift_exn_def ret_def)
  then show ?thesis
    using p(1) [OF w1(2), of cfg] unfolding run_round_def rows Let_def
    by (simp add: bnd_def w1 lift_exn_def round_progress_def ret_def)
qed

theorem plan_says_why_it_stopped_witness:
  "\<exists>out errs feats w'. plan_mosaic_with_void_fill_distributed (example_tools\<lparr>t_plan := \<lambda>_ _. []\<rparr>) id mem_srv default_settings
      (example_request\<lparr>q_slices := []\<rparr>) (menv0 round_store) = (Inr (out, errs, feats), w') \<and>
     says_why default_settings out \<and> counts_rounds (rounds_limit default_settings) out"
proof -
  let ?w = "menv0 round_store"
  define T q where T: "T = example_tools\<lparr>t_plan := \<lambda>_ _. []\<rparr>" and q: "q = example_request\<lparr>q_slices := []\<rparr>"
  have h: "has_hash map_of (q_job_id q) ?w"
    by (simp add: q example_request_def menv0_def round_store_def has_hash_def redis_simps)
  have boxes: "split_initial_search_bboxes default_settings (q_search_bbox q) = [[0, 0, 1, 1]]"
    by (simp add: q split_initial_search_bboxes_def example_request_def tiny_def split_threshold_def default_settings_def or_default_def Let_def)
  obtain w' where run: "run_round T id mem_srv default_settings q 0 [[0, 0, 1, 1]] [] [] ?w = (Inr ([], []), w')"
    using empty_round_run [OF mem.redis_up_axioms h, of T id default_settings 0 "[[0, 0, 1, 1]]" "[]" "[]"] by (auto simp: q)
  have l: "uncovered 0 (planned T q 0 [] None) = Inr 0"
    by (simp add: T uncovered_def planned_def jget_def Let_def)
  have "rounds_limit default_settings \<noteq> 0" by (simp add: rounds_limit_def)
  then obtain k where n: "rounds_limit default_settings = Suc k" by (auto simp: gr0_conv_Suc)
  have m: "0 \<le> min_uncovered default_settings" by (simp add: min_uncovered_def default_settings_def or_default_def)
  have "fst (plan_mosaic_with_void_fill_distributed T id mem_srv default_settings q ?w) =
      Inr (stopped ''coverage_met'' (planned T q 0 [] None), [], [])"
    by (simp add: plan_mosaic_with_void_fill_distributed_def bnd_def boxes run l n m ret_def lift_exn_def Let_def error_map_def)
  then obtain w2 where "plan_mosaic_with_void_fill_distributed T id mem_srv default_settings q ?w =
      (Inr (stopped ''coverage_met'' (planned T q 0 [] None), [], []), w2)" by (metis prod.collapse)
  with plan_says_why_it_stopped [OF _ this] show ?thesis
    unfolding T [symmetric] q [symmetric] by (auto simp: T)
qed

end
