(* ===== verification/Layer_Styles.thy ===== *)
theory Layer_Styles
  imports Permissions
begin

text \<open>
  The styles of layers: \<^verbatim>\<open>app/crud/styles.py\<close> and the handlers of \<^verbatim>\<open>app/api/routes/styles.py\<close> (public styles) and
  \<^verbatim>\<open>app/api/routes/collection_styles.py\<close>, on the table \<open>style_rows\<close> of \<^verbatim>\<open>Accounts\<close>. The key of a style is its collection and
  identifier; the empty collection holds the public styles. The times of creation and change and the HTTP envelope (links) are left out.

  Shown: whatever style requests are served, in any order, keys stay unique, every collection has at most one default style
  and a public style is never a default, so looking up the default never fails; a request touches the styles of one collection; a
  saved style is read back as it was normalised, and normalising again changes nothing. Also: any user may replace, patch or delete any
  public style; an anonymous visitor sees private styles a logged-in user does not; the shares of a deleted style survive it.
\<close>

section \<open>Requests\<close>

record style_create =
  sc_id :: string
  sc_title :: "string option"
  sc_spec :: "(string \<times> json) list"
  sc_default :: bool

record style_replace =
  sr_title :: "string option"
  sr_spec :: "(string \<times> json) list"
  sr_default :: bool

record style_patch =
  sp_title :: "string option"
  sp_spec :: "(string \<times> json) list option"
  sp_default :: "bool option"
  sp_visibility :: "string option"

record style_read =
  rd_id :: string
  rd_title :: "string option"
  rd_collection :: "string option"
  rd_default :: bool
  rd_spec :: "(string \<times> json) list"
  rd_visibility :: string

definition style_to_read :: "style_row \<Rightarrow> string \<Rightarrow> style_read" where
  "style_to_read s cid =
     \<lparr>rd_id = style_id s, rd_title = style_title s, rd_collection = (if cid = [] then None else Some cid), rd_default = style_default s,
      rd_spec = style_spec s, rd_visibility = (if style_visibility s = [] then ''private'' else style_visibility s)\<rparr>"

section \<open>Identifiers and specifications\<close>

definition style_char :: "char \<Rightarrow> bool" where
  "style_char c \<longleftrightarrow> is_ascii_alnum c \<or> c = CHR ''_'' \<or> c = CHR ''-''"

text \<open>\<^verbatim>\<open>^[a-zA-Z0-9_-]+$\<close>: the dollar also matches before a final newline.\<close>

definition STYLE_ID_PATTERN :: "string \<Rightarrow> bool" where
  "STYLE_ID_PATTERN s \<longleftrightarrow>
     (let core = (if s \<noteq> [] \<and> last s = CHR 0x0A then butlast s else s) in core \<noteq> [] \<and> list_all style_char core)"

definition validate_style_id :: "string \<Rightarrow> ('w, unit) prog" where
  "validate_style_id sid =
     (if sid = [] \<or> \<not> STYLE_ID_PATTERN sid
      then raise (HTTPException 400 ''Style id must be non-empty and contain only letters, numbers, hyphen, underscore'')
      else ret ())"

definition default_style_spec :: "(string \<times> json) list" where
  "default_style_spec =
     [(''fillColor'', JStr ''#58a6ff''), (''lineColor'', JStr ''#58a6ff''), (''fillOpacity'', JDec False 0 ''6''),
      (''lineOpacity'', JDec False 1 ''0''), (''lineWidth'', JDec False 1 ''0''), (''linePattern'', JStr ''solid''),
      (''fillEnabled'', JBool True), (''lineEnabled'', JBool True), (''pointEnabled'', JBool True), (''pointColor'', JStr ''#58a6ff''),
      (''pointOpacity'', JDec False 1 ''0''), (''pointSize'', JDec False 8 ''0''), (''pointIcon'', JStr ''circle'')]"

definition extended_keys :: "string list" where
  "extended_keys = [''pointOpacity'', ''fillOpacityZoom'', ''lineWidthZoom'', ''lineOpacityZoom'', ''pointSizeZoom'', ''pointOpacityZoom'', ''rules'']"

definition keep_extended :: "(string \<times> json) list \<Rightarrow> string \<Rightarrow> (string \<times> json) list \<Rightarrow> (string \<times> json) list" where
  "keep_extended spec key d = (case map_of spec key of None \<Rightarrow> d | Some v \<Rightarrow> if v = JNull then d else AList.update key v d)"

definition normalize_spec :: "(string \<times> json) list \<Rightarrow> (string \<times> json) list" where
  "normalize_spec spec =
     (if spec = [] then default_style_spec
      else fold (keep_extended spec) extended_keys (map (\<lambda>(k, v). (k, or_else (map_of spec k) v)) default_style_spec))"

section \<open>The table\<close>

definition is_style :: "string \<Rightarrow> string \<Rightarrow> style_row \<Rightarrow> bool" where
  "is_style cid sid s \<longleftrightarrow> style_collection s = cid \<and> style_id s = sid"

text \<open>The order of a text column is that of the database's collation, here a key function.\<close>

definition list_collection_styles :: "(string \<Rightarrow> 'o::linorder) \<Rightarrow> string \<Rightarrow> (db, style_row list) prog" where
  "list_collection_styles collate cid =
     gets (\<lambda>d. sort_key (\<lambda>s. collate (style_id s)) (filter (\<lambda>s. style_collection s = cid) (style_rows d)))"

definition list_public_styles :: "(string \<Rightarrow> 'o::linorder) \<Rightarrow> (db, style_row list) prog" where
  "list_public_styles collate =
     gets (\<lambda>d. sort_key (\<lambda>s. collate (style_id s)) (filter (\<lambda>s. style_collection s = PUBLIC_COLLECTION_ID) (style_rows d)))"

definition get_default_style :: "string \<Rightarrow> (db, style_row option) prog" where
  "get_default_style cid = (\<lambda>d. scalar_one_or_none (filter (\<lambda>s. style_collection s = cid \<and> style_default s) (style_rows d)) d)"

definition unset_default_for_collection :: "string \<Rightarrow> style_row list \<Rightarrow> style_row list" where
  "unset_default_for_collection cid =
     map (\<lambda>s. if style_collection s = cid \<and> style_default s then s\<lparr>style_default := False\<rparr> else s)"

text \<open>Creating under a key that exists breaks the primary key: the commit raises and nothing is kept.\<close>

definition create_style ::
    "string \<Rightarrow> (string \<times> json) list \<Rightarrow> string option \<Rightarrow> string \<Rightarrow> bool \<Rightarrow> int option \<Rightarrow> string \<Rightarrow> (db, style_row) prog" where
  "create_style sid spec title cid set_default own vis =
     (\<lambda>d. let rows = (if cid \<noteq> [] \<and> set_default then unset_default_for_collection cid (style_rows d) else style_rows d);
              style = \<lparr>style_collection = cid, style_id = sid, style_owner = own, style_visibility = vis, style_title = title, style_spec = spec,
                       style_default = set_default\<rparr>
          in if \<exists>s\<in>set rows. is_style cid sid s then raise SqlError d
             else bnd (modify (\<lambda>d. d\<lparr>style_rows := rows @ [style]\<rparr>)) (\<lambda>_. ret style) d)"

text \<open>Committing the changes \<open>f\<close> to the style \<open>s\<close>; \<open>unset\<close> when the other defaults of its collection are taken away first.\<close>

definition commit_style :: "bool \<Rightarrow> style_row \<Rightarrow> (style_row \<Rightarrow> style_row) \<Rightarrow> (db, style_row) prog" where
  "commit_style unset s f =
     bnd (modify (\<lambda>d. d\<lparr>style_rows := map (\<lambda>x. if is_style (style_collection s) (style_id s) x then f s else x)
            (if unset then unset_default_for_collection (style_collection s) (style_rows d) else style_rows d)\<rparr>)) (\<lambda>_. ret (f s))"

definition replace_style :: "string \<Rightarrow> string \<Rightarrow> (string \<times> json) list \<Rightarrow> string option \<Rightarrow> bool \<Rightarrow> (db, style_row option) prog" where
  "replace_style cid sid spec title set_default =
     bnd (get_collection_style cid sid) (\<lambda>row. case row of
       None \<Rightarrow> ret None
     | Some s \<Rightarrow>
         if style_collection s \<noteq> cid then ret None
         else bnd (commit_style set_default s (\<lambda>s. s\<lparr>style_title := title, style_spec := spec, style_default := set_default\<rparr>)) (\<lambda>s'. ret (Some s')))"

definition patched :: "string option \<Rightarrow> (string \<times> json) list option \<Rightarrow> bool option \<Rightarrow> string option \<Rightarrow> style_row \<Rightarrow> style_row" where
  "patched title spec set_default vis s =
     s\<lparr>style_title := (case title of None \<Rightarrow> style_title s | Some t \<Rightarrow> Some t), style_spec := or_else spec (style_spec s),
       style_default := or_else set_default (style_default s),
       style_visibility := (case vis of Some v \<Rightarrow> if v \<in> {VISIBILITY_PRIVATE, VISIBILITY_LOGGED, VISIBILITY_PUBLIC} then v else style_visibility s
                            | None \<Rightarrow> style_visibility s)\<rparr>"

definition patch_style ::
    "string \<Rightarrow> string \<Rightarrow> string option \<Rightarrow> (string \<times> json) list option \<Rightarrow> bool option \<Rightarrow> string option \<Rightarrow> (db, style_row option) prog" where
  "patch_style cid sid title spec set_default vis =
     bnd (get_collection_style cid sid) (\<lambda>row. case row of
       None \<Rightarrow> ret None
     | Some s \<Rightarrow>
         if style_collection s \<noteq> cid then ret None
         else bnd (commit_style (set_default = Some True) s (patched title spec set_default vis)) (\<lambda>s'. ret (Some s')))"

definition replace_public_style :: "string \<Rightarrow> (string \<times> json) list \<Rightarrow> string option \<Rightarrow> (db, style_row option) prog" where
  "replace_public_style sid spec title =
     bnd (get_public_style sid) (\<lambda>row. case row of
       None \<Rightarrow> ret None
     | Some s \<Rightarrow> bnd (commit_style False s (\<lambda>s. s\<lparr>style_title := title, style_spec := spec\<rparr>)) (\<lambda>s'. ret (Some s')))"

definition patch_public_style :: "string \<Rightarrow> string option \<Rightarrow> (string \<times> json) list option \<Rightarrow> string option \<Rightarrow> (db, style_row option) prog" where
  "patch_public_style sid title spec vis =
     bnd (get_public_style sid) (\<lambda>row. case row of
       None \<Rightarrow> ret None
     | Some s \<Rightarrow> bnd (commit_style False s (patched title spec None vis)) (\<lambda>s'. ret (Some s')))"

definition delete_style :: "string \<Rightarrow> string \<Rightarrow> (db, bool) prog" where
  "delete_style cid sid =
     (\<lambda>d. bnd (scalar_one_or_none (filter (is_style cid sid) (style_rows d))) (\<lambda>row. case row of
        None \<Rightarrow> ret False
      | Some s \<Rightarrow> bnd (modify (\<lambda>d. d\<lparr>style_rows := filter (\<lambda>x. \<not> is_style cid sid x) (style_rows d)\<rparr>)) (\<lambda>_. ret True)) d)"

definition delete_collection_styles :: "string \<Rightarrow> (db, unit) prog" where
  "delete_collection_styles cid = modify (\<lambda>d. d\<lparr>style_rows := filter (\<lambda>s. style_collection s \<noteq> cid) (style_rows d)\<rparr>)"

section \<open>Public styles\<close>

definition style_not_found :: exn where
  "style_not_found = HTTPException 404 ''Style not found''"

text \<open>The styles of a list the check lets the caller see.\<close>

definition seen_styles :: "string \<Rightarrow> user option \<Rightarrow> style_row list \<Rightarrow> (db, style_row list) prog" where
  "seen_styles cid me items =
     for_each items (\<lambda>s acc. bnd (can_see_style (style_owner s) (style_visibility s) cid (style_id s) me) (\<lambda>ok.
       ret (if ok then acc @ [s] else acc))) []"

definition list_styles_api :: "(string \<Rightarrow> 'o::linorder) \<Rightarrow> user option \<Rightarrow> (db, style_read list) prog" where
  "list_styles_api collate me =
     bnd (list_public_styles collate) (\<lambda>items.
     bnd (seen_styles PUBLIC_COLLECTION_ID me items) (\<lambda>visible.
     ret (map (\<lambda>s. style_to_read s (style_collection s)) visible)))"

definition get_style_api :: "string \<Rightarrow> user option \<Rightarrow> (db, style_read) prog" where
  "get_style_api sid me =
     bnd (get_public_style sid) (\<lambda>row. case row of
       None \<Rightarrow> raise style_not_found
     | Some s \<Rightarrow>
         bnd (can_see_style (style_owner s) (style_visibility s) PUBLIC_COLLECTION_ID sid me) (\<lambda>ok.
         if \<not> ok then raise style_not_found else ret (style_to_read s (style_collection s))))"

definition create_style_api :: "style_create \<Rightarrow> user \<Rightarrow> (db, style_read) prog" where
  "create_style_api payload me =
     bnd (validate_style_id (sc_id payload)) (\<lambda>_.
     bnd (get_public_style (sc_id payload)) (\<lambda>existing.
     if existing \<noteq> None then raise (HTTPException 409 ''A public style with this id already exists'')
     else
       bnd (create_style (sc_id payload) (normalize_spec (sc_spec payload)) (sc_title payload) PUBLIC_COLLECTION_ID False (Some (user_id me)) ''public'')
         (\<lambda>s. ret (style_to_read s (style_collection s)))))"

definition read_or_404 :: "style_row option \<Rightarrow> ('w, style_read) prog" where
  "read_or_404 row = (case row of None \<Rightarrow> raise style_not_found | Some s \<Rightarrow> ret (style_to_read s (style_collection s)))"

text \<open>The caller of the next three is any user who is logged in.\<close>

definition replace_style_api :: "string \<Rightarrow> style_replace \<Rightarrow> user \<Rightarrow> (db, style_read) prog" where
  "replace_style_api sid payload me =
     bnd (replace_public_style sid (normalize_spec (sr_spec payload)) (sr_title payload)) read_or_404"

definition patch_style_api :: "string \<Rightarrow> style_patch \<Rightarrow> user \<Rightarrow> (db, style_read) prog" where
  "patch_style_api sid payload me =
     bnd (patch_public_style sid (sp_title payload) (map_option normalize_spec (sp_spec payload)) (sp_visibility payload)) read_or_404"

definition delete_style_api :: "string \<Rightarrow> user \<Rightarrow> (db, unit) prog" where
  "delete_style_api sid me =
     bnd (delete_style PUBLIC_COLLECTION_ID sid) (\<lambda>gone. if \<not> gone then raise style_not_found else ret ())"

section \<open>Styles of a collection\<close>

definition get_collection :: "string \<Rightarrow> (db, collection option) prog" where
  "get_collection cid = (\<lambda>d. scalar_one_or_none (filter (\<lambda>c. collection_id c = cid) (collections d)) d)"

definition collection_not_found :: exn where
  "collection_not_found = HTTPException 404 ''Collection not found''"

definition permission_denied :: exn where
  "permission_denied = HTTPException 403 ''Permission denied''"

definition list_collection_styles_api :: "(string \<Rightarrow> 'o::linorder) \<Rightarrow> string \<Rightarrow> user option \<Rightarrow> (db, style_read list) prog" where
  "list_collection_styles_api collate cid me =
     bnd (get_collection cid) (\<lambda>row. case row of
       None \<Rightarrow> raise collection_not_found
     | Some c \<Rightarrow>
         bnd (can_see_collection c me) (\<lambda>ok.
         if \<not> ok then raise collection_not_found
         else
           bnd (list_collection_styles collate cid) (\<lambda>items.
           bnd (if me = None then ret items else seen_styles cid me items) (\<lambda>visible.
           ret (map (\<lambda>s. style_to_read s cid) visible)))))"

definition get_collection_style_api :: "string \<Rightarrow> string \<Rightarrow> user option \<Rightarrow> (db, style_read) prog" where
  "get_collection_style_api cid sid me =
     bnd (get_collection cid) (\<lambda>row. case row of
       None \<Rightarrow> raise collection_not_found
     | Some c \<Rightarrow>
         bnd (can_see_collection c me) (\<lambda>ok.
         if \<not> ok then raise collection_not_found
         else
           bnd (get_collection_style cid sid) (\<lambda>found. case found of
             None \<Rightarrow> raise style_not_found
           | Some s \<Rightarrow>
               bnd (if me = None then ret True else can_see_style (style_owner s) (style_visibility s) cid sid me) (\<lambda>ok.
               if \<not> ok then raise style_not_found
               else ret (style_to_read s (if style_collection s = [] then cid else style_collection s))))))"

definition save_collection_style_api :: "string \<Rightarrow> style_create \<Rightarrow> user option \<Rightarrow> (db, style_read) prog" where
  "save_collection_style_api cid payload me =
     bnd (get_collection cid) (\<lambda>row. case row of
       None \<Rightarrow> raise collection_not_found
     | Some c \<Rightarrow>
         bnd (can_edit_collection c me) (\<lambda>ok.
         if \<not> ok then raise permission_denied
         else
           bnd (validate_style_id (sc_id payload)) (\<lambda>_.
           let spec = normalize_spec (sc_spec payload) in
           bnd (get_collection_style cid (sc_id payload)) (\<lambda>existing.
           bnd (if (case existing of None \<Rightarrow> False | Some s \<Rightarrow> style_collection s = cid)
                then replace_style cid (sc_id payload) spec (sc_title payload) (sc_default payload)
                else bnd (create_style (sc_id payload) spec (sc_title payload) cid (sc_default payload) (map_option user_id me) ''private'')
                       (\<lambda>s. ret (Some s))) (\<lambda>saved.
           case saved of None \<Rightarrow> raise TypeError | Some s \<Rightarrow> ret (style_to_read s cid))))))"

text \<open>A style of the collection, or a public one under the same identifier, that the caller may edit.\<close>

definition editable_style :: "string \<Rightarrow> string \<Rightarrow> user option \<Rightarrow> (db, style_row) prog" where
  "editable_style cid sid me =
     bnd (get_collection cid) (\<lambda>row. case row of
       None \<Rightarrow> raise collection_not_found
     | Some c \<Rightarrow>
         bnd (get_collection_style cid sid) (\<lambda>found. case found of
           None \<Rightarrow> raise style_not_found
         | Some s \<Rightarrow>
             bnd (can_edit_style (style_owner s) cid sid me) (\<lambda>ok. if \<not> ok then raise permission_denied else ret s)))"

definition collection_read_or_404 :: "string \<Rightarrow> style_row option \<Rightarrow> ('w, style_read) prog" where
  "collection_read_or_404 cid row = (case row of None \<Rightarrow> raise style_not_found | Some s \<Rightarrow> ret (style_to_read s cid))"

definition replace_collection_style_api :: "string \<Rightarrow> string \<Rightarrow> style_replace \<Rightarrow> user option \<Rightarrow> (db, style_read) prog" where
  "replace_collection_style_api cid sid payload me =
     bnd (editable_style cid sid me) (\<lambda>_.
     bnd (replace_style cid sid (normalize_spec (sr_spec payload)) (sr_title payload) (sr_default payload)) (collection_read_or_404 cid))"

definition patch_collection_style_api :: "string \<Rightarrow> string \<Rightarrow> style_patch \<Rightarrow> user option \<Rightarrow> (db, style_read) prog" where
  "patch_collection_style_api cid sid payload me =
     bnd (editable_style cid sid me) (\<lambda>_.
     bnd (patch_style cid sid (sp_title payload) (map_option normalize_spec (sp_spec payload)) (sp_default payload) (sp_visibility payload))
       (collection_read_or_404 cid))"

definition delete_collection_style_api :: "string \<Rightarrow> string \<Rightarrow> user option \<Rightarrow> (db, unit) prog" where
  "delete_collection_style_api cid sid me =
     bnd (editable_style cid sid me) (\<lambda>_.
     bnd (delete_style cid sid) (\<lambda>gone. if \<not> gone then raise style_not_found else ret ()))"

definition shareable_style :: "string \<Rightarrow> string \<Rightarrow> user option \<Rightarrow> (db, style_row) prog" where
  "shareable_style cid sid me =
     bnd (get_collection_style cid sid) (\<lambda>found. case found of
       None \<Rightarrow> raise style_not_found
     | Some s \<Rightarrow>
         if style_collection s \<noteq> cid then raise style_not_found
         else bnd (can_edit_style (style_owner s) cid sid me) (\<lambda>ok. if \<not> ok then raise permission_denied else ret s))"

definition list_collection_style_shares :: "(string \<Rightarrow> 'o::linorder) \<Rightarrow> string \<Rightarrow> string \<Rightarrow> user option \<Rightarrow> (db, (string \<times> string) list) prog" where
  "list_collection_style_shares collate cid sid me =
     bnd (shareable_style cid sid me) (\<lambda>_. list_shares collate RESOURCE_TYPE_STYLE (style_resource_id cid sid))"

definition add_collection_style_share :: "string \<Rightarrow> string \<Rightarrow> user option \<Rightarrow> string \<Rightarrow> string \<Rightarrow> (db, share) prog" where
  "add_collection_style_share cid sid me n x =
     bnd (shareable_style cid sid me) (\<lambda>_.
     bnd (add_share RESOURCE_TYPE_STYLE (style_resource_id cid sid) n x) (\<lambda>r. case r of
       None \<Rightarrow> raise (HTTPException 404 ''User not found'')
     | Some s \<Rightarrow> ret s))"

definition remove_collection_style_share :: "string \<Rightarrow> string \<Rightarrow> user option \<Rightarrow> string \<Rightarrow> (db, unit) prog" where
  "remove_collection_style_share cid sid me n =
     bnd (shareable_style cid sid me) (\<lambda>_. bnd (remove_share RESOURCE_TYPE_STYLE (style_resource_id cid sid) n) (\<lambda>_. ret ()))"

section \<open>Requests in sequence\<close>

datatype style_request =
    CreatePublic style_create user
  | ReplacePublic string style_replace user
  | PatchPublic string style_patch user
  | DeletePublic string user
  | SharePublic string user string string
  | UnsharePublic string user string
  | SaveStyle string style_create "user option"
  | ReplaceStyle string string style_replace "user option"
  | PatchStyle string string style_patch "user option"
  | DeleteStyle string string "user option"
  | ShareStyle string string "user option" string string
  | UnshareStyle string string "user option" string
  | DropCollection string

fun serve_style :: "style_request \<Rightarrow> db \<Rightarrow> db" where
  "serve_style (CreatePublic payload me) d = snd (create_style_api payload me d)"
| "serve_style (ReplacePublic sid payload me) d = snd (replace_style_api sid payload me d)"
| "serve_style (PatchPublic sid payload me) d = snd (patch_style_api sid payload me d)"
| "serve_style (DeletePublic sid me) d = snd (delete_style_api sid me d)"
| "serve_style (SharePublic sid me n x) d = snd (add_style_share sid me n x d)"
| "serve_style (UnsharePublic sid me n) d = snd (remove_style_share sid me n d)"
| "serve_style (SaveStyle cid payload me) d = snd (save_collection_style_api cid payload me d)"
| "serve_style (ReplaceStyle cid sid payload me) d = snd (replace_collection_style_api cid sid payload me d)"
| "serve_style (PatchStyle cid sid payload me) d = snd (patch_collection_style_api cid sid payload me d)"
| "serve_style (DeleteStyle cid sid me) d = snd (delete_collection_style_api cid sid me d)"
| "serve_style (ShareStyle cid sid me n x) d = snd (add_collection_style_share cid sid me n x d)"
| "serve_style (UnshareStyle cid sid me n) d = snd (remove_collection_style_share cid sid me n d)"
| "serve_style (DropCollection cid) d = snd (delete_collection_styles cid d)"

text \<open>The collection a request names; one in a path is not empty.\<close>

fun request_collection :: "style_request \<Rightarrow> string" where
  "request_collection (SaveStyle cid _ _) = cid"
| "request_collection (ReplaceStyle cid _ _ _) = cid"
| "request_collection (PatchStyle cid _ _ _) = cid"
| "request_collection (DeleteStyle cid _ _) = cid"
| "request_collection (ShareStyle cid _ _ _ _) = cid"
| "request_collection (UnshareStyle cid _ _ _) = cid"
| "request_collection (DropCollection cid) = cid"
| "request_collection _ = PUBLIC_COLLECTION_ID"

fun request_ok :: "style_request \<Rightarrow> bool" where
  "request_ok (SaveStyle cid _ _) \<longleftrightarrow> cid \<noteq> []"
| "request_ok (ReplaceStyle cid _ _ _) \<longleftrightarrow> cid \<noteq> []"
| "request_ok (PatchStyle cid _ _ _) \<longleftrightarrow> cid \<noteq> []"
| "request_ok _ \<longleftrightarrow> True"

section \<open>The invariant\<close>

definition style_key :: "style_row \<Rightarrow> string \<times> string" where
  "style_key s = (style_collection s, style_id s)"

definition styles_ok :: "style_row list \<Rightarrow> bool" where
  "styles_ok rows \<longleftrightarrow> distinct (map style_key rows) \<and> (\<forall>s\<in>set rows. style_default s \<longrightarrow> style_collection s \<noteq> []) \<and>
     (\<forall>s\<in>set rows. \<forall>t\<in>set rows. style_default s \<and> style_default t \<and> style_collection s = style_collection t \<longrightarrow> style_id s = style_id t)"

lemma styles_okI:
  assumes "distinct (map style_key rows)" and "\<And>s. s \<in> set rows \<Longrightarrow> style_default s \<Longrightarrow> style_collection s \<noteq> []"
    and "\<And>s t. s \<in> set rows \<Longrightarrow> t \<in> set rows \<Longrightarrow> style_default s \<Longrightarrow> style_default t \<Longrightarrow> style_collection s = style_collection t \<Longrightarrow> style_id s = style_id t"
  shows "styles_ok rows"
  using assms unfolding styles_ok_def by blast

lemma styles_okD:
  assumes "styles_ok rows"
  shows "distinct (map style_key rows)" and "s \<in> set rows \<Longrightarrow> style_default s \<Longrightarrow> style_collection s \<noteq> []"
    and "s \<in> set rows \<Longrightarrow> t \<in> set rows \<Longrightarrow> style_default s \<Longrightarrow> style_default t \<Longrightarrow> style_collection s = style_collection t \<Longrightarrow> style_id s = style_id t"
  using assms unfolding styles_ok_def by blast+

lemma styles_ok_filter: "styles_ok rows \<Longrightarrow> styles_ok (filter P rows)"
  by (rule styles_okI, simp add: styles_okD(1) distinct_map_filter) (blast dest: styles_okD(2, 3) filter_is_subset [THEN subsetD])+

lemma unset_keys [simp]: "map style_key (unset_default_for_collection cid rows) = map style_key rows"
  by (simp add: unset_default_for_collection_def style_key_def comp_def)

lemma unset_mem:
  "s \<in> set (unset_default_for_collection cid rows) \<Longrightarrow> style_collection s = cid \<Longrightarrow> \<not> style_default s"
  "s \<in> set (unset_default_for_collection cid rows) \<Longrightarrow> style_default s \<Longrightarrow> s \<in> set rows"
  unfolding unset_default_for_collection_def set_map by (elim imageE; simp split: if_split_asm)+

lemma unset_others [simp]:
  "filter (\<lambda>s. style_collection s \<noteq> cid) (unset_default_for_collection cid rows) = filter (\<lambda>s. style_collection s \<noteq> cid) rows"
  by (induction rows) (auto simp: unset_default_for_collection_def)

lemma styles_ok_unset: "styles_ok rows \<Longrightarrow> styles_ok (unset_default_for_collection cid rows)"
  by (rule styles_okI, simp add: styles_okD(1)) (blast dest: styles_okD(2, 3) unset_mem(2))+

lemma styles_ok_add:
  assumes "styles_ok rows" and "style_key s \<notin> style_key ` set rows"
    and "style_default s \<Longrightarrow> style_collection s \<noteq> [] \<and> (\<forall>t\<in>set rows. style_collection t = style_collection s \<longrightarrow> \<not> style_default t)"
  shows "styles_ok (rows @ [s])"
proof (rule styles_okI)
  fix x y
  assume "x \<in> set (rows @ [s])" "y \<in> set (rows @ [s])" "style_default x" "style_default y" "style_collection x = style_collection y"
  then consider "x \<in> set rows" "y \<in> set rows" | "x = y" using assms(3) by fastforce
  then show "style_id x = style_id y"
    using styles_okD(3) [OF assms(1), of x y] \<open>style_default x\<close> \<open>style_default y\<close> \<open>style_collection x = style_collection y\<close> by cases blast+
next
  show "distinct (map style_key (rows @ [s]))" using assms(2) styles_okD(1) [OF assms(1)] by simp
next
  fix x
  assume "x \<in> set (rows @ [s])" "style_default x"
  then show "style_collection x \<noteq> []" using assms(3) styles_okD(2) [OF assms(1), of x] by auto
qed

text \<open>One row replaced by another under the same key.\<close>

lemma styles_ok_replace:
  assumes "styles_ok rows" and "style_key s' = (cid, sid)"
    and "style_default s' \<Longrightarrow> cid \<noteq> [] \<and> (\<forall>t\<in>set rows. style_collection t = cid \<and> style_id t \<noteq> sid \<longrightarrow> \<not> style_default t)"
  shows "styles_ok (map (\<lambda>x. if is_style cid sid x then s' else x) rows)"
proof -
  have "map style_key (map (\<lambda>x. if is_style cid sid x then s' else x) rows) = map style_key rows"
    using assms(2) by (auto simp: is_style_def style_key_def)
  then have keys: "distinct (map style_key (map (\<lambda>x. if is_style cid sid x then s' else x) rows))" using styles_okD(1) [OF assms(1)] by (simp only:)
  have mem: "x = s' \<or> x \<in> set rows \<and> \<not> is_style cid sid x" if "x \<in> set (map (\<lambda>x. if is_style cid sid x then s' else x) rows)" for x
    using that by (auto split: if_splits)
  have s': "style_collection s' = cid" "style_id s' = sid" using assms(2) by (simp_all add: style_key_def)
  show ?thesis
  proof (rule styles_okI [OF keys])
    fix x
    assume "x \<in> set (map (\<lambda>x. if is_style cid sid x then s' else x) rows)" "style_default x"
    with mem [OF this(1)] assms(3) s' styles_okD(2) [OF assms(1), of x] show "style_collection x \<noteq> []" by auto
  next
    fix x y
    assume xy: "x \<in> set (map (\<lambda>x. if is_style cid sid x then s' else x) rows)" "y \<in> set (map (\<lambda>x. if is_style cid sid x then s' else x) rows)"
      "style_default x" "style_default y" "style_collection x = style_collection y"
    have other: "style_default s' \<Longrightarrow> z \<in> set rows \<Longrightarrow> \<not> is_style cid sid z \<Longrightarrow> style_collection z = cid \<Longrightarrow> \<not> style_default z" for z
      using assms(3) by (auto simp: is_style_def)
    from mem [OF xy(1)] mem [OF xy(2)] show "style_id x = style_id y"
      using other [of x] other [of y] styles_okD(3) [OF assms(1), of x y] xy(3-5) s' by metis
  qed
qed

lemma replace_others [simp]:
  "style_collection s' = cid \<Longrightarrow>
   filter (\<lambda>s. style_collection s \<noteq> cid) (map (\<lambda>x. if is_style cid sid x then s' else x) rows) = filter (\<lambda>s. style_collection s \<noteq> cid) rows"
  by (induction rows) (auto simp: is_style_def)

section \<open>Every request keeps it\<close>

text \<open>The styles are well formed and those outside the collection are \<open>rest\<close>.\<close>

definition styles_inv :: "string \<Rightarrow> style_row list \<Rightarrow> db \<Rightarrow> bool" where
  "styles_inv cid rest d \<longleftrightarrow> styles_ok (style_rows d) \<and> filter (\<lambda>s. style_collection s \<noteq> cid) (style_rows d) = rest"

lemma inv_scalar: "triple P (\<lambda>d. scalar_one_or_none (f d) d) (\<lambda>row d. P d \<and> (\<forall>s. row = Some s \<longrightarrow> f d = [s])) (\<lambda>_. P)"
  by (auto simp: triple_def scalar_one_or_none_def prog_simps split: list.split)

lemma filter_singleton: "filter P xs = [x] \<Longrightarrow> x \<in> set xs \<and> P x"
  by (metis filter_id_conv filter_eq_ConsD filter_is_subset list.set_intros(1) subsetD mem_Collect_eq set_filter)

lemma inv_public_style:
  "triple P (get_public_style sid) (\<lambda>row d. P d \<and> (\<forall>s. row = Some s \<longrightarrow> s \<in> set (style_rows d) \<and> style_key s = ([], sid))) (\<lambda>_. P)"
  unfolding get_public_style_def PUBLIC_COLLECTION_ID_def style_key_def
  by (rule triple_weaken [OF inv_scalar]) (auto dest: filter_singleton)

lemma inv_collection_style:
  "triple P (get_collection_style cid sid)
     (\<lambda>row d. P d \<and> (\<forall>s. row = Some s \<longrightarrow> s \<in> set (style_rows d) \<and> style_key s \<in> {(cid, sid), ([], sid)})) (\<lambda>_. P)"
proof -
  have "get_collection_style cid sid = bnd (\<lambda>d. scalar_one_or_none (filter (\<lambda>s. style_collection s = cid \<and> style_id s = sid) (style_rows d)) d)
      (\<lambda>row. case row of Some s \<Rightarrow> ret (Some s) | None \<Rightarrow> get_public_style sid)"
    by (rule ext) (simp add: get_collection_style_def bnd_def)
  then show ?thesis
    by (simp only:, intro triple_bnd [OF inv_scalar] triple_case_option triple_weaken [OF inv_public_style] triple_ret)
      (auto simp: style_key_def dest: filter_singleton)
qed

lemma inv_commit:
  assumes "style_key (f s) = style_key s" and "style_collection s = cid"
    and "style_default (f s) \<Longrightarrow> unset \<and> cid \<noteq> [] \<or> style_default s"
  shows "triple (\<lambda>d. styles_inv cid rest d \<and> s \<in> set (style_rows d)) (commit_style unset s f) (\<lambda>_. styles_inv cid rest) (\<lambda>_. styles_inv cid rest)"
proof -
  have key: "style_key (f s) = (cid, style_id s)" "style_collection (f s) = cid" using assms(1, 2) by (simp_all add: style_key_def)
  have "styles_inv cid rest (d\<lparr>style_rows := map (\<lambda>x. if is_style (style_collection s) (style_id s) x then f s else x)
      (if unset then unset_default_for_collection (style_collection s) (style_rows d) else style_rows d)\<rparr>)"
    if d: "styles_inv cid rest d" "s \<in> set (style_rows d)" for d
  proof -
    have ok: "styles_ok (style_rows d)" using d(1) by (simp add: styles_inv_def)
    have other: "\<not> style_default t" if "t \<in> set (style_rows d)" "style_default s" "style_collection t = cid" "style_id t \<noteq> style_id s" for t
      using styles_okD(3) [OF ok that(1) d(2) _ that(2)] that(3, 4) assms(2) by metis
    have some: "style_default s \<Longrightarrow> cid \<noteq> []" using styles_okD(2) [OF ok d(2)] assms(2) by blast
    show ?thesis
    proof (cases unset)
      case True
      then show ?thesis using d ok key assms(2, 3) some
        by (auto simp: styles_inv_def dest: unset_mem(1) intro!: styles_ok_replace styles_ok_unset)
    next
      case False
      then show ?thesis using d ok key assms(2, 3) other some
        by (auto simp: styles_inv_def intro!: styles_ok_replace)
    qed
  qed
  then show ?thesis by (simp add: commit_style_def triple_def prog_simps)
qed

lemma inv_create:
  assumes "cid \<noteq> [] \<or> \<not> set_default"
  shows "triple (styles_inv cid rest) (create_style sid spec title cid set_default own vis) (\<lambda>_. styles_inv cid rest) (\<lambda>_. styles_inv cid rest)"
proof -
  have "styles_inv cid rest (d\<lparr>style_rows := rows @ [s]\<rparr>)"
    if d: "styles_inv cid rest d" and rows: "rows = (if cid \<noteq> [] \<and> set_default then unset_default_for_collection cid (style_rows d) else style_rows d)"
      and new: "\<not> (\<exists>x\<in>set rows. is_style cid sid x)" and s: "style_collection s = cid" "style_id s = sid" "style_default s = set_default" for d rows s
  proof -
    have ok: "styles_ok rows" using d rows by (simp add: styles_inv_def styles_ok_unset)
    have "style_key s \<notin> style_key ` set rows" using new s by (auto simp: style_key_def is_style_def)
    then have "styles_ok (rows @ [s])"
      using ok s rows assms by (intro styles_ok_add) (auto dest: unset_mem(1))
    then show ?thesis using d rows s(1) by (simp add: styles_inv_def)
  qed
  then show ?thesis unfolding create_style_def triple_def Let_def by (simp add: prog_simps)
qed

lemma inv_delete: "triple (styles_inv cid rest) (delete_style cid sid) (\<lambda>_. styles_inv cid rest) (\<lambda>_. styles_inv cid rest)"
proof -
  have "delete_style cid sid = bnd (\<lambda>d. scalar_one_or_none (filter (is_style cid sid) (style_rows d)) d) (\<lambda>row. case row of
        None \<Rightarrow> ret False
      | Some s \<Rightarrow> bnd (modify (\<lambda>d. d\<lparr>style_rows := filter (\<lambda>x. \<not> is_style cid sid x) (style_rows d)\<rparr>)) (\<lambda>_. ret True))"
    by (rule ext) (simp add: delete_style_def bnd_def)
  moreover have "filter (\<lambda>s. style_collection s \<noteq> cid \<and> \<not> is_style cid sid s) rows = filter (\<lambda>s. style_collection s \<noteq> cid) rows" for rows
    by (rule filter_cong) (auto simp: is_style_def)
  ultimately show ?thesis
    by (simp only:, intro triple_bnd [OF inv_scalar] triple_case_option triple_ret triple_bnd [OF triple_modify])
      (auto simp: styles_inv_def styles_ok_filter conj_commute)
qed

lemma reads_only [simp]:
  "snd (scalar_one_or_none rows d) = d" "snd (has_role roles t r u d) = d" "snd (get_collection c d) = d" "snd (get_user_by_username n d) = d"
  by (auto simp: scalar_one_or_none_def has_role_def get_share_role_def get_collection_def get_user_by_username_def prog_simps
      split: list.split sum.split)

lemma see_reads_only [simp]: "snd (can_see_collection col me d) = d"
  by (auto simp: can_see_collection_def ret_def split: option.split)

lemma checks_read_only [simp]:
  "snd (can_see_style own v c sid me d) = d" "snd (can_edit_style own c sid me d) = d"
  "snd (can_edit_collection col me d) = d" "snd (validate_style_id sid d) = d"
proof -
  show "snd (can_see_style own v c sid me d) = d"
    by (auto simp: can_see_style_def can_see_resource_def ret_def split: option.split)
  show "snd (can_edit_style own c sid me d) = d"
    by (auto simp: can_edit_style_def can_edit_resource_def ret_def split: option.split)
  show "snd (can_edit_collection col me d) = d"
    by (auto simp: can_edit_collection_def ret_def bnd_def split: option.split sum.split)
  show "snd (validate_style_id sid d) = d"
    by (simp add: validate_style_id_def ret_def raise_def)
qed

lemma inv_reads: "(\<And>d. snd (m d) = d) \<Longrightarrow> triple P m (\<lambda>_. P) (\<lambda>_. P)"
  by (simp add: triple_def split: sum.split)

lemma share_styles [simp]:
  "style_rows (snd (add_share t r n x d)) = style_rows d" "style_rows (snd (remove_share t r n d)) = style_rows d"
  by (auto simp: add_share_def remove_share_def scalar_one_or_none_def prog_simps Let_def split: option.split sum.split list.split)

lemma inv_rows: "(\<And>d. style_rows (snd (m d)) = style_rows d) \<Longrightarrow> triple (styles_inv cid rest) m (\<lambda>_. styles_inv cid rest) (\<lambda>_. styles_inv cid rest)"
  by (simp add: triple_def styles_inv_def split: sum.split)

lemma inv_replace:
  assumes "cid \<noteq> [] \<or> \<not> set_default"
  shows "triple (styles_inv cid rest) (replace_style cid sid spec title set_default) (\<lambda>_. styles_inv cid rest) (\<lambda>_. styles_inv cid rest)"
  unfolding replace_style_def
  by (rule triple_bnd [OF inv_collection_style], rule triple_case_option, rule triple_ret, simp, rule triple_if, rule triple_ret, simp,
      rule triple_bnd [where R = "\<lambda>_. styles_inv cid rest"], rule triple_weaken [OF inv_commit [where cid = cid]])
     (use assms in \<open>auto simp: style_key_def intro!: triple_ret\<close>)

lemma patched_fields [simp]:
  "style_key (patched title spec set_default vis s) = style_key s"
  "style_default (patched title spec set_default vis s) = or_else set_default (style_default s)"
  by (simp_all add: patched_def style_key_def)

lemma inv_patch:
  assumes "cid \<noteq> []"
  shows "triple (styles_inv cid rest) (patch_style cid sid title spec set_default vis) (\<lambda>_. styles_inv cid rest) (\<lambda>_. styles_inv cid rest)"
proof -
  have "triple (\<lambda>d. styles_inv cid rest d \<and> s \<in> set (style_rows d)) (commit_style (set_default = Some True) s (patched title spec set_default vis))
      (\<lambda>_. styles_inv cid rest) (\<lambda>_. styles_inv cid rest)" if "style_collection s = cid" for s
    by (rule inv_commit) (use assms that in \<open>cases set_default; simp\<close>)+
  then show ?thesis
    unfolding patch_style_def
    by (intro triple_bnd [OF inv_collection_style] triple_case_option triple_ret triple_if triple_bnd [where R = "\<lambda>_. styles_inv cid rest"])
       (auto simp: triple_def)
qed

lemma inv_replace_public:
  "triple (styles_inv [] rest) (replace_public_style sid spec title) (\<lambda>_. styles_inv [] rest) (\<lambda>_. styles_inv [] rest)"
proof -
  have "triple (\<lambda>d. styles_inv [] rest d \<and> s \<in> set (style_rows d)) (commit_style False s (\<lambda>s. s\<lparr>style_title := title, style_spec := spec\<rparr>))
      (\<lambda>_. styles_inv [] rest) (\<lambda>_. styles_inv [] rest)" if "style_collection s = []" for s
    by (rule inv_commit) (use that in \<open>auto simp: style_key_def\<close>)
  then show ?thesis
    unfolding replace_public_style_def
    by (intro triple_bnd [OF inv_public_style] triple_case_option triple_ret triple_bnd [where R = "\<lambda>_. styles_inv [] rest"])
       (auto simp: style_key_def triple_def)
qed

lemma inv_patch_public:
  "triple (styles_inv [] rest) (patch_public_style sid title spec vis) (\<lambda>_. styles_inv [] rest) (\<lambda>_. styles_inv [] rest)"
proof -
  have "triple (\<lambda>d. styles_inv [] rest d \<and> s \<in> set (style_rows d)) (commit_style False s (patched title spec None vis))
      (\<lambda>_. styles_inv [] rest) (\<lambda>_. styles_inv [] rest)" if "style_collection s = []" for s
    by (rule inv_commit) (use that in simp_all)
  then show ?thesis
    unfolding patch_public_style_def
    by (intro triple_bnd [OF inv_public_style] triple_case_option triple_ret triple_bnd [where R = "\<lambda>_. styles_inv [] rest"])
       (auto simp: style_key_def triple_def)
qed

lemmas inv_ops = inv_create inv_delete inv_replace inv_patch inv_replace_public inv_patch_public

text \<open>The programs that only decide whether to go on.\<close>

lemma inv_editable: "triple (styles_inv c rest) (editable_style cid sid me) (\<lambda>_. styles_inv c rest) (\<lambda>_. styles_inv c rest)"
  "triple (styles_inv c rest) (shareable_style cid sid me) (\<lambda>_. styles_inv c rest) (\<lambda>_. styles_inv c rest)"
  "triple (styles_inv c rest) (own_public_style sid u) (\<lambda>_. styles_inv c rest) (\<lambda>_. styles_inv c rest)"
proof -
  have col: "triple (styles_inv c rest) (get_collection_style cid sid) (\<lambda>_. styles_inv c rest) (\<lambda>_. styles_inv c rest)"
    by (rule triple_weaken [OF inv_collection_style]) auto
  have pub: "triple (styles_inv c rest) (get_public_style sid) (\<lambda>_. styles_inv c rest) (\<lambda>_. styles_inv c rest)"
    by (rule triple_weaken [OF inv_public_style]) auto
  show "triple (styles_inv c rest) (editable_style cid sid me) (\<lambda>_. styles_inv c rest) (\<lambda>_. styles_inv c rest)"
    unfolding editable_style_def by (intro triple_intros) (auto intro: inv_reads col)
  show "triple (styles_inv c rest) (shareable_style cid sid me) (\<lambda>_. styles_inv c rest) (\<lambda>_. styles_inv c rest)"
    unfolding shareable_style_def by (intro triple_intros) (auto intro: inv_reads col)
  show "triple (styles_inv c rest) (own_public_style sid u) (\<lambda>_. styles_inv c rest) (\<lambda>_. styles_inv c rest)"
    unfolding own_public_style_def by (intro triple_intros) (auto intro: inv_reads pub)
qed

lemma inv_lookups:
  "preserves (styles_inv c rest) (get_public_style sid)" "preserves (styles_inv c rest) (get_collection_style cid sid)"
  "preserves (styles_inv c rest) (add_share t r n x)" "preserves (styles_inv c rest) (remove_share t r n)"
proof -
  show "preserves (styles_inv c rest) (get_public_style sid)" by (rule triple_weaken [OF inv_public_style]) auto
  show "preserves (styles_inv c rest) (get_collection_style cid sid)" by (rule triple_weaken [OF inv_collection_style]) auto
qed (rule inv_rows; simp)+

lemma public_styles_inv:
  "preserves (styles_inv [] rest) (create_style_api create me)" "preserves (styles_inv [] rest) (replace_style_api sid replace me)"
  "preserves (styles_inv [] rest) (patch_style_api sid patch me)" "preserves (styles_inv [] rest) (delete_style_api sid me)"
  "preserves (styles_inv [] rest) (add_style_share sid me n x)" "preserves (styles_inv [] rest) (remove_style_share sid me n)"
  unfolding create_style_api_def replace_style_api_def patch_style_api_def delete_style_api_def add_style_share_def remove_style_share_def
    read_or_404_def PUBLIC_COLLECTION_ID_def
  by (intro triple_intros; auto intro: inv_reads inv_lookups inv_create inv_replace_public inv_patch_public inv_delete inv_editable)+

lemma collection_styles_inv:
  "cid \<noteq> [] \<Longrightarrow> preserves (styles_inv cid rest) (save_collection_style_api cid create me)"
  "cid \<noteq> [] \<Longrightarrow> preserves (styles_inv cid rest) (replace_collection_style_api cid sid replace me)"
  "cid \<noteq> [] \<Longrightarrow> preserves (styles_inv cid rest) (patch_collection_style_api cid sid patch me)"
  "preserves (styles_inv cid rest) (delete_collection_style_api cid sid me)"
  "preserves (styles_inv cid rest) (add_collection_style_share cid sid me n x)"
  "preserves (styles_inv cid rest) (remove_collection_style_share cid sid me n)"
  "preserves (styles_inv cid rest) (delete_collection_styles cid)"
proof -
  show "preserves (styles_inv cid rest) (delete_collection_styles cid)"
    by (auto simp: triple_def delete_collection_styles_def modify_def styles_inv_def styles_ok_filter)
qed (unfold save_collection_style_api_def replace_collection_style_api_def patch_collection_style_api_def delete_collection_style_api_def
    add_collection_style_share_def remove_collection_style_share_def collection_read_or_404_def Let_def,
  (intro triple_intros; auto intro: inv_reads inv_lookups inv_create inv_replace inv_patch inv_delete inv_editable)+)

lemma serve_style_inv:
  assumes "request_ok rq" and "styles_inv (request_collection rq) rest d"
  shows "styles_inv (request_collection rq) rest (serve_style rq d)"
  using assms by (cases rq) (simp_all add: PUBLIC_COLLECTION_ID_def public_styles_inv [THEN preservesD] collection_styles_inv [THEN preservesD])

lemma scalar_short: "length xs \<le> 1 \<Longrightarrow> \<exists>row. scalar_one_or_none xs d = (Inr row, d)"
  by (cases xs; cases "tl xs") (auto simp: scalar_one_or_none_def ret_def)

lemma two_elements:
  assumes "\<not> length xs \<le> 1"
  obtains x y rest where "xs = x # y # rest"
  using assms by (cases xs; cases "tl xs") auto

text \<open>C10: whatever requests on layer styles are served, in whatever order and by whomever, the table stays well formed: no two styles
  share a collection and identifier, no public style is a default and no collection has two defaults, so that looking up the default style of a
  collection never fails.\<close>

theorem styles_stay_well_formed:
  assumes "styles_ok (style_rows d)" and "\<forall>rq\<in>set rqs. request_ok rq"
  shows "styles_ok (style_rows (fold serve_style rqs d)) \<and>
    (\<exists>row. get_default_style cid (fold serve_style rqs d) = (Inr row, fold serve_style rqs d))"
proof -
  have ok: "styles_ok (style_rows (fold serve_style rqs d))"
    using assms
  proof (induction rqs arbitrary: d)
    case (Cons rq rqs)
    have "styles_ok (style_rows (serve_style rq d))"
      using serve_style_inv [of rq _ d] Cons.prems by (simp add: styles_inv_def)
    then show ?case using Cons by simp
  qed simp
  let ?rows = "filter (\<lambda>s. style_collection s = cid \<and> style_default s) (style_rows (fold serve_style rqs d))"
  have same: "style_key s = style_key t" if "s \<in> set ?rows" "t \<in> set ?rows" for s t
    unfolding style_key_def using that by (intro prod_eqI) (auto intro: styles_okD(3) [OF ok])
  have "length ?rows \<le> 1"
  proof (rule ccontr)
    assume "\<not> length ?rows \<le> 1"
    then obtain s t rest where r: "?rows = s # t # rest" by (rule two_elements)
    have "distinct (map style_key ?rows)" using styles_okD(1) [OF ok] by (rule distinct_map_filter)
    then have "style_key s \<noteq> style_key t" unfolding r by simp
    moreover have "s \<in> set ?rows" "t \<in> set ?rows" unfolding r by simp_all
    ultimately show False using same by blast
  qed
  from scalar_short [OF this, of "fold serve_style rqs d"] show ?thesis using ok unfolding get_default_style_def by blast
qed

text \<open>a request on the styles of a collection, or on the public styles, leaves the styles of every other collection as they are.\<close>

theorem style_request_touches_one_collection:
  assumes "styles_ok (style_rows d)" and "request_ok rq" and "cid \<noteq> request_collection rq"
  shows "filter (\<lambda>s. style_collection s = cid) (style_rows (serve_style rq d)) = filter (\<lambda>s. style_collection s = cid) (style_rows d)"
proof -
  let ?c = "request_collection rq"
  have "filter (\<lambda>s. style_collection s \<noteq> ?c) (style_rows (serve_style rq d)) = filter (\<lambda>s. style_collection s \<noteq> ?c) (style_rows d)"
    using serve_style_inv [of rq _ d] assms(1, 2) by (simp add: styles_inv_def)
  then have "filter (\<lambda>s. style_collection s = cid) (filter (\<lambda>s. style_collection s \<noteq> ?c) (style_rows (serve_style rq d))) =
      filter (\<lambda>s. style_collection s = cid) (filter (\<lambda>s. style_collection s \<noteq> ?c) (style_rows d))" by simp
  moreover have "filter (\<lambda>s. style_collection s = cid) (filter (\<lambda>s. style_collection s \<noteq> ?c) rows) = filter (\<lambda>s. style_collection s = cid) rows" for rows
    using assms(3) by (simp add: filter_filter) (rule filter_cong, auto)
  ultimately show ?thesis by metis
qed

text \<open>Two collections' styles and a public one.\<close>

definition styles_db :: db where
  "styles_db = shared_db\<lparr>
     collections := [\<lparr>collection_id = ''c'', owner_id = Some 1, visibility = ''public'', viewer_can_edit = False\<rparr>],
     style_rows := [
       \<lparr>style_collection = [], style_id = ''p'', style_owner = Some 1, style_visibility = ''public'', style_title = None, style_spec = [], style_default = False\<rparr>,
       \<lparr>style_collection = ''c'', style_id = ''s'', style_owner = Some 1, style_visibility = ''private'', style_title = None, style_spec = [], style_default = True\<rparr>]\<rparr>"

definition new_style :: style_create where
  "new_style = \<lparr>sc_id = ''t'', sc_title = None, sc_spec = [(''rules'', JArr [])], sc_default = True\<rparr>"

lemma styles_db_ok: "styles_ok (style_rows styles_db)"
  by (simp add: styles_ok_def styles_db_def style_key_def)

theorem styles_stay_well_formed_witness:
  "\<exists>row. get_default_style ''c'' (fold serve_style [SaveStyle ''c'' new_style (Some root_user)] styles_db) =
     (Inr row, fold serve_style [SaveStyle ''c'' new_style (Some root_user)] styles_db)"
proof -
  have "\<forall>rq\<in>set [SaveStyle ''c'' new_style (Some root_user)]. request_ok rq" by simp
  from styles_stay_well_formed [OF styles_db_ok this, of "''c''"] show ?thesis by blast
qed

theorem style_request_touches_one_collection_witness:
  "filter (\<lambda>s. style_collection s = []) (style_rows (serve_style (DeleteStyle ''c'' ''s'' (Some root_user)) styles_db)) =
   filter (\<lambda>s. style_collection s = []) (style_rows styles_db)"
  by (rule style_request_touches_one_collection [OF styles_db_ok]) simp_all

section \<open>Specifications\<close>

lemma update_same: "map_of d k = Some v \<Longrightarrow> AList.update k v d = d"
  by (induction d) auto

lemma update_new: "k \<notin> fst ` set d \<Longrightarrow> AList.update k v d = d @ [(k, v)]"
  by (induction d) auto

definition base_spec :: "(string \<times> json) list \<Rightarrow> (string \<times> json) list" where
  "base_spec spec = map (\<lambda>(k, v). (k, or_else (map_of spec k) v)) default_style_spec"

definition extra_spec :: "(string \<times> json) list \<Rightarrow> string list \<Rightarrow> (string \<times> json) list" where
  "extra_spec spec ks = concat (map (\<lambda>k. case map_of spec k of None \<Rightarrow> [] | Some v \<Rightarrow> if v = JNull then [] else [(k, v)]) ks)"

lemma fold_extended:
  "distinct ks \<Longrightarrow> fst ` set d \<inter> set ks = {} \<Longrightarrow> fold (keep_extended spec) ks d = d @ extra_spec spec ks"
proof (induction ks arbitrary: d)
  case (Cons k ks)
  have step: "keep_extended spec k d = d @ extra_spec spec [k]"
    using Cons.prems(2) by (auto simp: keep_extended_def extra_spec_def update_new split: option.split)
  have "fst ` set (d @ extra_spec spec [k]) \<inter> set ks = {}"
    using Cons.prems by (auto simp: extra_spec_def split: option.splits if_splits)
  from Cons.IH [OF _ this] Cons.prems(1) show ?case by (simp add: step) (simp add: extra_spec_def)
qed (simp add: extra_spec_def)

lemma keys_base [simp]: "map fst (base_spec spec) = map fst default_style_spec"
  by (simp add: base_spec_def comp_def case_prod_beta)

lemma map_of_base: "k \<in> fst ` set default_style_spec \<Longrightarrow> map_of (base_spec spec) k = Some (or_else (map_of spec k) (the (map_of default_style_spec k)))"
  by (auto simp: base_spec_def default_style_spec_def)

lemma extended_parts:
  "extended_keys = ''pointOpacity'' # tl extended_keys" "distinct (tl extended_keys)" "fst ` set default_style_spec \<inter> set (tl extended_keys) = {}"
  by (simp_all add: extended_keys_def default_style_spec_def)

lemma normalize_parts: "normalize_spec spec = base_spec spec @ extra_spec spec (tl extended_keys)"
proof (cases "spec = []")
  case True
  then show ?thesis by (simp add: normalize_spec_def base_spec_def extra_spec_def)
next
  case False
  have "map_of (base_spec spec) ''pointOpacity'' = Some v" if "map_of spec ''pointOpacity'' = Some v" for v
    using that by (subst map_of_base) (simp_all add: default_style_spec_def)
  then have "keep_extended spec ''pointOpacity'' (base_spec spec) = base_spec spec"
    by (auto simp: keep_extended_def update_same split: option.split)
  then have "fold (keep_extended spec) extended_keys (base_spec spec) = fold (keep_extended spec) (tl extended_keys) (base_spec spec)"
    by (subst extended_parts(1)) simp
  moreover have "fst ` set (base_spec spec) = fst ` set default_style_spec" by (metis keys_base list.set_map)
  ultimately show ?thesis
    using False fold_extended [OF extended_parts(2), of "base_spec spec" spec] extended_parts(3)
    by (simp add: normalize_spec_def base_spec_def [symmetric])
qed

lemma map_of_extra:
  "map_of (extra_spec spec ks) k = (if k \<in> set ks then (case map_of spec k of None \<Rightarrow> None | Some v \<Rightarrow> if v = JNull then None else Some v) else None)"
  by (induction ks) (auto simp: extra_spec_def map_add_def split: option.splits)

theorem normalize_spec_idempotent: "normalize_spec (normalize_spec spec) = normalize_spec spec"
proof -
  let ?n = "normalize_spec spec" and ?ks = "tl extended_keys"
  have base: "base_spec ?n = base_spec spec"
    unfolding base_spec_def
  proof (rule map_cong [OF refl])
    fix x
    assume "x \<in> set default_style_spec"
    moreover obtain k v where x: "x = (k, v)" by (rule prod.exhaust)
    ultimately have kv: "(k, v) \<in> set default_style_spec" by simp
    then have d: "map_of default_style_spec k = Some v" by (intro map_of_is_SomeI) (simp add: default_style_spec_def)
    have "k \<in> fst ` set default_style_spec" using kv by force
    then have "map_of ?n k = Some (or_else (map_of spec k) v)" by (simp add: normalize_parts map_of_base d map_add_def)
    then show "(case x of (k, v) \<Rightarrow> (k, or_else (map_of ?n k) v)) = (case x of (k, v) \<Rightarrow> (k, or_else (map_of spec k) v))" by (simp add: x)
  qed
  have "map_of ?n k = map_of (extra_spec spec ?ks) k" if "k \<in> set ?ks" for k
  proof -
    have "k \<notin> fst ` set (base_spec spec)" using that extended_parts(3) by (metis IntI empty_iff keys_base list.set_map)
    then have "map_of (base_spec spec) k = None" by (simp add: map_of_eq_None_iff)
    then show ?thesis by (simp add: normalize_parts map_add_def split: option.split)
  qed
  then have "extra_spec ?n ?ks = extra_spec spec ?ks"
    unfolding extra_spec_def by (intro arg_cong [where f = concat] map_cong refl) (simp add: map_of_extra [unfolded extra_spec_def] split: option.split)
  then show ?thesis by (simp add: normalize_parts [of ?n] base normalize_parts [of spec, symmetric])
qed

section \<open>A saved style is read back\<close>

lemma unique_row: "distinct (map style_key rows) \<Longrightarrow> s \<in> set rows \<Longrightarrow> style_key s = (cid, sid) \<Longrightarrow>
    filter (\<lambda>x. style_collection x = cid \<and> style_id x = sid) rows = [s]"
proof (induction rows)
  case (Cons x rows)
  have none: "filter (\<lambda>y. style_collection y = cid \<and> style_id y = sid) rows = []" if "style_key x = (cid, sid)"
    using Cons.prems(1) that unfolding filter_empty_conv by (auto simp: style_key_def [abs_def] image_iff)
  show ?case
  proof (cases "x = s")
    case True
    then show ?thesis using Cons.prems(3) none by (simp add: style_key_def)
  next
    case False
    then have "s \<in> set rows" using Cons.prems(2) by simp
    then have "style_key x \<noteq> (cid, sid)" using Cons.prems(1, 3) by (metis distinct.simps(2) image_eqI list.set_map list.simps(9))
    then show ?thesis using Cons \<open>s \<in> set rows\<close> by (auto simp: style_key_def)
  qed
qed simp

lemma map_if_hit: "\<exists>x\<in>set xs. P x \<Longrightarrow> y \<in> set (map (\<lambda>x. if P x then y else x) xs)"
  by (induction xs) auto

lemma commit_post:
  "triple (\<lambda>d. s \<in> set (style_rows d) \<and> C) (commit_style unset s f) (\<lambda>s' d. s' = f s \<and> s' \<in> set (style_rows d) \<and> C) (\<lambda>_ _. True)"
proof -
  have "\<exists>x\<in>set (if unset then unset_default_for_collection (style_collection s) rows else rows). is_style (style_collection s) (style_id s) x"
    if s: "s \<in> set rows" for rows
  proof (cases unset)
    case True
    let ?g = "\<lambda>x. if style_collection x = style_collection s \<and> style_default x then x\<lparr>style_default := False\<rparr> else x"
    have "?g s \<in> set (unset_default_for_collection (style_collection s) rows)"
      unfolding unset_default_for_collection_def set_map using s by (rule imageI)
    moreover have "is_style (style_collection s) (style_id s) (?g s)" by (simp add: is_style_def)
    ultimately have "\<exists>x\<in>set (unset_default_for_collection (style_collection s) rows). is_style (style_collection s) (style_id s) x" by (rule bexI [rotated])
    then show ?thesis using True by simp
  next
    case False
    then show ?thesis using s by (auto simp: is_style_def)
  qed
  then have "f s \<in> set (map (\<lambda>x. if is_style (style_collection s) (style_id s) x then f s else x)
      (if unset then unset_default_for_collection (style_collection s) rows else rows))" if "s \<in> set rows" for rows
    using that by (intro map_if_hit) blast
  then show ?thesis by (simp only: triple_def commit_style_def prog_simps) simp
qed

text \<open>The row a save leaves.\<close>

definition saved_row :: "string \<Rightarrow> style_create \<Rightarrow> style_row \<Rightarrow> bool" where
  "saved_row cid payload s \<longleftrightarrow> style_key s = (cid, sc_id payload) \<and> style_spec s = normalize_spec (sc_spec payload) \<and>
     style_title s = sc_title payload \<and> style_default s = sc_default payload"

lemma replace_post:
  "triple (\<lambda>_. True) (replace_style cid (sc_id payload) (normalize_spec (sc_spec payload)) (sc_title payload) (sc_default payload))
     (\<lambda>row d. \<forall>s. row = Some s \<longrightarrow> s \<in> set (style_rows d) \<and> saved_row cid payload s) (\<lambda>_ _. True)"
  unfolding replace_style_def
proof (rule triple_bnd [OF inv_collection_style], goal_cases)
  case (1 row)
  show ?case
  proof (cases "\<exists>s. row = Some s \<and> style_collection s = cid")
    case True
    then obtain s where s: "row = Some s" "style_collection s = cid" by blast
    let ?f = "\<lambda>s. s\<lparr>style_title := sc_title payload, style_spec := normalize_spec (sc_spec payload), style_default := sc_default payload\<rparr>"
    have "triple (\<lambda>d. s \<in> set (style_rows d) \<and> style_id s = sc_id payload) (bnd (commit_style (sc_default payload) s ?f) (\<lambda>s'. ret (Some s')))
        (\<lambda>row d. \<forall>s. row = Some s \<longrightarrow> s \<in> set (style_rows d) \<and> saved_row cid payload s) (\<lambda>_ _. True)"
      by (rule triple_bnd [OF commit_post triple_ret]) (auto simp: style_key_def saved_row_def s(2))
    then show ?thesis unfolding s(1) using s(2) by (auto simp: style_key_def elim!: triple_weaken)
  qed (auto intro!: triple_ret split: option.split)
qed

lemma create_post:
  "triple (\<lambda>_. True) (create_style (sc_id payload) (normalize_spec (sc_spec payload)) (sc_title payload) cid (sc_default payload) own vis)
     (\<lambda>s d. s \<in> set (style_rows d) \<and> saved_row cid payload s) (\<lambda>_ _. True)"
  unfolding create_style_def triple_def Let_def by (simp add: prog_simps saved_row_def style_key_def)

lemma save_post:
  "triple (\<lambda>_. True) (save_collection_style_api cid payload me)
     (\<lambda>rd d. \<exists>s\<in>set (style_rows d). rd = style_to_read s cid \<and> saved_row cid payload s) (\<lambda>_ _. True)"
proof -
  let ?Q = "\<lambda>row d. \<forall>s. row = Some s \<longrightarrow> s \<in> set (style_rows d) \<and> saved_row cid payload s"
  have create: "triple (\<lambda>_. True) (bnd (create_style (sc_id payload) (normalize_spec (sc_spec payload)) (sc_title payload) cid (sc_default payload)
      (map_option user_id me) ''private'') (\<lambda>s. ret (Some s))) ?Q (\<lambda>_ _. True)"
    by (rule triple_bnd [OF create_post triple_ret]) auto
  have save: "triple (\<lambda>_. True) (bnd (if c then replace_style cid (sc_id payload) (normalize_spec (sc_spec payload)) (sc_title payload) (sc_default payload)
        else bnd (create_style (sc_id payload) (normalize_spec (sc_spec payload)) (sc_title payload) cid (sc_default payload)
          (map_option user_id me) ''private'') (\<lambda>s. ret (Some s)))
      (\<lambda>saved. case saved of None \<Rightarrow> raise TypeError | Some s \<Rightarrow> ret (style_to_read s cid)))
      (\<lambda>rd d. \<exists>s\<in>set (style_rows d). rd = style_to_read s cid \<and> saved_row cid payload s) (\<lambda>_ _. True)" for c
    by (rule triple_bnd [where R = ?Q], rule triple_if [OF replace_post create], intro triple_case_option triple_raise triple_ret) auto
  show ?thesis
    unfolding save_collection_style_api_def Let_def
    by (intro triple_bnd [OF triple_any] triple_case_option triple_if triple_raise save) auto
qed

text \<open>C34: a style that was saved is there: the collection then has, under the identifier of the request, the style that was returned, with
  the title and the normalised specification of the request, and as default exactly if that was asked for; normalising it again changes nothing.\<close>

theorem saved_style_read_back:
  assumes "styles_ok (style_rows d)" and "cid \<noteq> []" and "save_collection_style_api cid payload me d = (Inr rd, d')"
  shows "\<exists>s. get_collection_style cid (sc_id payload) d' = (Inr (Some s), d') \<and> rd = style_to_read s cid \<and> saved_row cid payload s \<and>
    normalize_spec (style_spec s) = style_spec s"
proof -
  from tripleD_ret [OF save_post _ assms(3)] obtain s where s: "s \<in> set (style_rows d')" "rd = style_to_read s cid" "saved_row cid payload s" by blast
  have "styles_ok (style_rows d')"
    using preservesD [OF collection_styles_inv(1) [OF assms(2)], of _ d payload me] assms(1, 3) by (simp add: styles_inv_def)
  from unique_row [OF styles_okD(1) [OF this] s(1)] s(3)
  have "filter (\<lambda>x. style_collection x = cid \<and> style_id x = sc_id payload) (style_rows d') = [s]" by (simp add: saved_row_def)
  then have "get_collection_style cid (sc_id payload) d' = (Inr (Some s), d')"
    by (simp add: get_collection_style_def scalar_one_or_none_def bnd_def ret_def)
  then show ?thesis using s(2, 3) by (auto simp: saved_row_def normalize_spec_idempotent)
qed

theorem saved_style_read_back_witness:
  "\<exists>s d'. save_collection_style_api ''c'' new_style (Some root_user) styles_db = (Inr (style_to_read s ''c''), d') \<and>
     get_collection_style ''c'' ''t'' d' = (Inr (Some s), d') \<and> style_default s"
proof -
  have "\<exists>rd d'. save_collection_style_api ''c'' new_style (Some root_user) styles_db = (Inr rd, d')"
    by (simp add: save_collection_style_api_def get_collection_def styles_db_def scalar_one_or_none_def bnd_def ret_def modify_def can_edit_collection_def root_user_def
        new_style_def validate_style_id_def STYLE_ID_PATTERN_def style_char_def is_ascii_alnum_def get_collection_style_def get_public_style_def
        PUBLIC_COLLECTION_ID_def create_style_def is_style_def unset_default_for_collection_def Let_def)
  then obtain rd d' where run: "save_collection_style_api ''c'' new_style (Some root_user) styles_db = (Inr rd, d')" by blast
  from saved_style_read_back [OF styles_db_ok _ run] show ?thesis using run by (auto simp: saved_row_def new_style_def)
qed

section \<open>Where the checks fall short\<close>

text \<open>C35: public styles are not protected: any user who is logged in, owner or not, replaces and deletes any public style, although the sharing of
  the same style, and the handlers of public raster styles, demand its owner or an administrator.\<close>

theorem public_styles_unprotected:
  assumes "styles_ok (style_rows d)" and "s \<in> set (style_rows d)" and "style_key s = ([], sid)"
  shows "(\<exists>d' s'. replace_style_api sid payload me d = (Inr (style_to_read s' []), d') \<and> get_public_style sid d' = (Inr (Some s'), d') \<and>
      style_spec s' = normalize_spec (sr_spec payload) \<and> style_owner s' = style_owner s) \<and>
    (\<exists>d'. delete_style_api sid me d = (Inr (), d') \<and> get_public_style sid d' = (Inr None, d'))"
proof
  have key: "style_collection s = []" "style_id s = sid" using assms(3) by (simp_all add: style_key_def)
  have get: "get_public_style sid e = (Inr (Some x), e)" if "styles_ok (style_rows e)" "x \<in> set (style_rows e)" "style_key x = ([], sid)" for e x
    using unique_row [OF styles_okD(1) [OF that(1)] that(2, 3)]
    by (simp add: get_public_style_def PUBLIC_COLLECTION_ID_def scalar_one_or_none_def ret_def)
  let ?f = "\<lambda>s. s\<lparr>style_title := sr_title payload, style_spec := normalize_spec (sr_spec payload)\<rparr>"
  let ?c = "commit_style False s ?f d"
  define d' where "d' = snd ?c"
  have c: "fst ?c = Inr (?f s)" by (simp add: commit_style_def prog_simps)
  then have run: "replace_style_api sid payload me d = (Inr (style_to_read (?f s) []), d')"
    by (simp add: replace_style_api_def replace_public_style_def read_or_404_def bnd_def get [OF assms] ret_def d'_def key)
  have "styles_ok (style_rows d')"
    using preservesD [OF public_styles_inv(2), of _ d sid payload me] assms(1) run by (simp add: styles_inv_def)
  moreover have "?f s \<in> set (style_rows d')"
    using tripleD_fst [OF commit_post [where C = True], of s d False ?f] assms(2) c by (simp add: d'_def)
  ultimately have "get_public_style sid d' = (Inr (Some (?f s)), d')" by (rule get) (simp add: style_key_def key)
  then show "\<exists>d' s'. replace_style_api sid payload me d = (Inr (style_to_read s' []), d') \<and> get_public_style sid d' = (Inr (Some s'), d') \<and>
      style_spec s' = normalize_spec (sr_spec payload) \<and> style_owner s' = style_owner s"
    using run by (intro exI [of _ d'] exI [of _ "?f s"]) simp
  have "filter (is_style [] sid) (style_rows d) = [s]"
    using unique_row [OF styles_okD(1) [OF assms(1)] assms(2, 3)] by (simp add: is_style_def [abs_def])
  then show "\<exists>d'. delete_style_api sid me d = (Inr (), d') \<and> get_public_style sid d' = (Inr None, d')"
    by (simp add: delete_style_api_def delete_style_def PUBLIC_COLLECTION_ID_def scalar_one_or_none_def bnd_def ret_def modify_def
        get_public_style_def is_style_def [abs_def] filter_filter filter_empty_conv)
qed

theorem public_styles_unprotected_witness:
  "\<exists>d'. delete_style_api ''p'' plain_user styles_db = (Inr (), d') \<and> get_public_style ''p'' d' = (Inr None, d')"
proof -
  let ?s = "\<lparr>style_collection = [], style_id = ''p'', style_owner = Some 1, style_visibility = ''public'', style_title = None, style_spec = [], style_default = False\<rparr>"
  have "?s \<in> set (style_rows styles_db)" "style_key ?s = ([], ''p'')" by (simp_all add: styles_db_def style_key_def)
  from public_styles_unprotected [OF styles_db_ok this] show ?thesis by blast
qed

text \<open>A visitor who is not logged in is shown the private styles of a public collection; a user who is logged in is not.\<close>

theorem anonymous_sees_more:
  "map_sum id (map rd_id) (fst (list_collection_styles_api length ''c'' None styles_db)) = Inr [''s''] \<and>
   map_sum id (map rd_id) (fst (list_collection_styles_api length ''c'' (Some plain_user) styles_db)) = Inr []"
  by code_simp

text \<open>Replacing a style of a collection demands the right to edit the style; saving under its identifier demands only the right to edit the
  collection and replaces it as well.\<close>

theorem save_bypasses_style_permission:
  "fst (replace_collection_style_api ''c'' ''s'' \<lparr>sr_title = None, sr_spec = [], sr_default = False\<rparr> (Some plain_user) styles_db) = Inl permission_denied \<and>
   map_sum id rd_title (fst (save_collection_style_api ''c'' \<lparr>sc_id = ''s'', sc_title = Some ''x'', sc_spec = [], sc_default = False\<rparr> (Some plain_user) styles_db)) =
     Inr (Some ''x'')"
  by code_simp

text \<open>The shares of a style survive its deletion and apply to the next style of that identifier.\<close>

theorem deleted_style_keeps_shares:
  "fst (can_edit_style (Some 1) ''c'' ''s'' (Some plain_user)
     (fold serve_style [ShareStyle ''c'' ''s'' (Some root_user) ''ana'' ''editor'', DeleteStyle ''c'' ''s'' (Some root_user),
        SaveStyle ''c'' (new_style\<lparr>sc_id := ''s''\<rparr>) (Some root_user)] styles_db)) = Inr True"
  by code_simp

end
