(* ===== verification/Raster_Spec.thy ===== *)
theory Raster_Spec
  imports Tile_Jobs "HOL-Library.List_Lexorder" "HOL-Library.Product_Lexorder"
begin

text \<open>
  The specification of a raster style (\<^verbatim>\<open>app/services/raster_style_spec.py\<close>): colours, pixel values, colour maps, classes, and the
  parameters they become for the tile server.

  Python's floats are the record \<open>floats\<close>: \<open>fl_parse\<close> is \<^verbatim>\<open>float(s)\<close> of a text (\<open>None\<close> for its \<^verbatim>\<open>ValueError\<close>), \<open>fl_print\<close> is \<^verbatim>\<open>str\<close>, \<open>fl_num\<close> is the
  number a float literal stands for after rounding, as a rank (\<open>0\<close> for a finite float, \<open>- 1\<close> and \<open>1\<close> for the infinities) and a value, and
  \<open>fl_int\<close> is \<^verbatim>\<open>float(i)\<close> of an integer (\<open>None\<close> for its \<^verbatim>\<open>OverflowError\<close>). So a text such as \<^verbatim>\<open>1e999\<close> may read as an infinite float, and two
  large integers may become the same float. The error of the module is a \<open>ValueError\<close>; its messages are left out.

  Shown: a specification that is accepted has at most 256 colours in canonical form, one per pixel value, classes sorted by value that
  agree with the colour map; normalising what was accepted accepts it again and changes nothing, unless its nodata value was a text that
  Python reads as an infinite float, and then it is refused.
\<close>

record floats =
  fl_parse :: "string \<Rightarrow> json option"
  fl_print :: "json \<Rightarrow> string"
  fl_num :: "json \<Rightarrow> int \<times> rat"
  fl_int :: "int \<Rightarrow> rat option"

text \<open>\<^verbatim>\<open>int(s)\<close>, which refuses a text of more than 4300 digits.\<close>

definition int_of_text :: "string \<Rightarrow> exn + int" where
  "int_of_text s = (if 4300 < length (filter (\<lambda>c. digit_val 10 c \<noteq> None) s) then Inl ValueError else py_int s)"

definition str_of :: "floats \<Rightarrow> json \<Rightarrow> string" where
  "str_of F v = (case v of JDec _ _ _ \<Rightarrow> fl_print F v | _ \<Rightarrow> py_str v)"

definition MAX_CLASSIFICATION_ENTRIES :: nat where
  "MAX_CLASSIFICATION_ENTRIES = 256"

section \<open>Values\<close>

text \<open>A float that is a whole number is printed as one.\<close>

definition normalize_pixel_value_key :: "floats \<Rightarrow> json \<Rightarrow> exn + string" where
  "normalize_pixel_value_key F raw =
     (case raw of
        JInt i \<Rightarrow> Inr (int_str i)
      | JDec _ _ _ \<Rightarrow>
          if fst (fl_num F raw) \<noteq> 0 then Inl ValueError
          else if snd (fl_num F raw) = of_int \<lfloor>snd (fl_num F raw)\<rfloor> then Inr (int_str \<lfloor>snd (fl_num F raw)\<rfloor>)
          else Inr (fl_print F raw)
      | JStr s \<Rightarrow> if py_strip s = [] then Inl ValueError else Inr (py_strip s)
      | _ \<Rightarrow> Inl ValueError)"

text \<open>\<open>JNull\<close> stands for \<^verbatim>\<open>None\<close>.\<close>

definition parse_nodata_value :: "floats \<Rightarrow> json \<Rightarrow> exn + json" where
  "parse_nodata_value F raw =
     (case raw of
        JNull \<Rightarrow> Inr JNull
      | JInt i \<Rightarrow> Inr raw
      | JDec _ _ _ \<Rightarrow> if fst (fl_num F raw) \<noteq> 0 then Inl ValueError else Inr raw
      | JStr s0 \<Rightarrow>
          let s = py_strip s0 in
          if s = [] then Inr JNull
          else if CHR ''.'' \<in> set s \<or> CHR ''e'' \<in> set (py_lower s) then Inr (or_else (fl_parse F s) (JStr s))
          else Inr (case int_of_text s of Inr i \<Rightarrow> JInt i | Inl _ \<Rightarrow> JStr s)
      | _ \<Rightarrow> Inl ValueError)"

definition is_hex :: "char \<Rightarrow> bool" where
  "is_hex c \<longleftrightarrow> c \<in> set ''0123456789abcdefABCDEF''"

definition hex_upper :: "char \<Rightarrow> char" where
  "hex_upper c = or_else (map_of (zip ''abcdef'' ''ABCDEF'') c) c"

definition HEX_COLOR_RE :: "string \<Rightarrow> bool" where
  "HEX_COLOR_RE s \<longleftrightarrow> s \<noteq> [] \<and> hd s = CHR ''#'' \<and> list_all is_hex (tl s) \<and> (length s = 4 \<or> length s = 7)"

definition normalize_hex_color :: "json \<Rightarrow> exn + string" where
  "normalize_hex_color raw =
     (case raw of
        JStr r \<Rightarrow>
          let s = py_strip r; digits = map hex_upper (tl s) in
          if \<not> HEX_COLOR_RE s then Inl ValueError
          else if length s = 4 then Inr (CHR ''#'' # concat (map (\<lambda>c. [c, c]) digits))
          else Inr (CHR ''#'' # digits)
      | _ \<Rightarrow> Inl ValueError)"

definition parse_json_input :: "json \<Rightarrow> exn + json" where
  "parse_json_input raw =
     (case raw of
        JStr s0 \<Rightarrow> let s = py_strip s0 in if s = [] then Inr JNull else (case loads s of Inl _ \<Rightarrow> Inl ValueError | Inr j \<Rightarrow> Inr j)
      | _ \<Rightarrow> Inr raw)"

section \<open>Colour maps and classes\<close>

type_synonym colormap = "(string \<times> string) list"

fun colormap_items :: "floats \<Rightarrow> (string \<times> json) list \<Rightarrow> colormap \<Rightarrow> exn + colormap" where
  "colormap_items F [] out = Inr out"
| "colormap_items F ((k, v) # items) out =
     sbind (normalize_pixel_value_key F (JStr k)) (\<lambda>key.
     if key \<in> fst ` set out then Inl ValueError
     else sbind (normalize_hex_color v) (\<lambda>c. colormap_items F items (out @ [(key, c)])))"

definition parse_colormap_dict :: "floats \<Rightarrow> json \<Rightarrow> exn + colormap" where
  "parse_colormap_dict F raw = (case raw of JNull \<Rightarrow> Inr [] | JObj items \<Rightarrow> colormap_items F items [] | _ \<Rightarrow> Inl ValueError)"

record style_class =
  cl_value :: string
  cl_name :: string
  cl_color :: string

definition class_of :: "string \<Rightarrow> (string \<times> json) list \<Rightarrow> exn + style_class" where
  "class_of value_key item =
     (case jget item ''name'' of
        JStr name \<Rightarrow>
          if py_strip name = [] then Inl ValueError
          else if jget item ''color'' = JNull then Inl ValueError
          else sbind (normalize_hex_color (jget item ''color'')) (\<lambda>c. Inr \<lparr>cl_value = value_key, cl_name = py_strip name, cl_color = c\<rparr>)
      | _ \<Rightarrow> Inl ValueError)"

definition class_of_item :: "floats \<Rightarrow> json \<Rightarrow> exn + style_class" where
  "class_of_item F j =
     (case j of
        JObj item \<Rightarrow>
          (case map_of item ''value'' of
             None \<Rightarrow> Inl ValueError
           | Some v \<Rightarrow> sbind (normalize_pixel_value_key F v) (\<lambda>value_key. class_of value_key item))
      | _ \<Rightarrow> Inl ValueError)"

definition class_of_pair :: "floats \<Rightarrow> string \<times> json \<Rightarrow> exn + style_class" where
  "class_of_pair F kv =
     sbind (normalize_pixel_value_key F (JStr (fst kv))) (\<lambda>value_key.
     case snd kv of JObj item \<Rightarrow> class_of value_key item | _ \<Rightarrow> Inl ValueError)"

fun try_map :: "('a \<Rightarrow> exn + 'b) \<Rightarrow> 'a list \<Rightarrow> exn + 'b list" where
  "try_map f [] = Inr []"
| "try_map f (x # xs) = sbind (f x) (\<lambda>y. sbind (try_map f xs) (\<lambda>ys. Inr (y # ys)))"

definition parse_classes_list :: "floats \<Rightarrow> json \<Rightarrow> exn + style_class list" where
  "parse_classes_list F raw =
     (case raw of
        JNull \<Rightarrow> Inr []
      | JArr items \<Rightarrow> try_map (class_of_item F) items
      | JObj items \<Rightarrow> try_map (class_of_pair F) items
      | _ \<Rightarrow> Inl ValueError)"

text \<open>The colours of the classes join the map or must agree with it.\<close>

fun merge_classes :: "style_class list \<Rightarrow> colormap \<Rightarrow> exn + colormap \<times> style_class list" where
  "merge_classes [] cm = Inr (cm, [])"
| "merge_classes (e # es) cm =
     (case map_of cm (cl_value e) of
        None \<Rightarrow> sbind (merge_classes es (cm @ [(cl_value e, cl_color e)])) (\<lambda>(cm', es'). Inr (cm', e # es'))
      | Some c \<Rightarrow>
          if map hex_upper c \<noteq> map hex_upper (cl_color e) then Inl ValueError
          else sbind (merge_classes es cm) (\<lambda>(cm', es'). Inr (cm', e\<lparr>cl_color := c\<rparr> # es')))"

text \<open>Numbers come first, in the order of their floats; a tuple of Python is compared from the left. Only a \<^verbatim>\<open>ValueError\<close> is caught: the
  \<^verbatim>\<open>OverflowError\<close> of an integer that has no float escapes. All keys are computed before anything is compared.\<close>

type_synonym sort_key = "nat \<times> (int \<times> rat) \<times> nat list"

definition class_sort_key :: "floats \<Rightarrow> string \<Rightarrow> exn + sort_key" where
  "class_sort_key F v =
     (if CHR ''.'' \<in> set v then
        (case fl_parse F v of
           None \<Rightarrow> Inr (1, (0, 0), map of_char v)
         | Some x \<Rightarrow> Inr (0, fl_num F x, map of_char v))
      else
        (case int_of_text v of
           Inl _ \<Rightarrow> Inr (1, (0, 0), map of_char v)
         | Inr i \<Rightarrow> (case fl_int F i of None \<Rightarrow> Inl OverflowError | Some x \<Rightarrow> Inr (0, (0, x), map of_char v))))"

definition sort_classes :: "floats \<Rightarrow> style_class list \<Rightarrow> exn + style_class list" where
  "sort_classes F cls =
     sbind (try_map (\<lambda>c. class_sort_key F (cl_value c)) cls) (\<lambda>_. Inr (sort_key (\<lambda>c. projr (class_sort_key F (cl_value c))) cls))"

definition parse_classification_inputs :: "floats \<Rightarrow> json \<Rightarrow> json \<Rightarrow> exn + colormap \<times> style_class list" where
  "parse_classification_inputs F colormap_raw classes_raw =
     sbind (sbind (parse_json_input colormap_raw) (parse_colormap_dict F)) (\<lambda>cm0.
     sbind (sbind (parse_json_input classes_raw) (parse_classes_list F)) (\<lambda>cls0.
     if cm0 = [] \<and> cls0 = [] then Inl ValueError
     else
       sbind (merge_classes cls0 cm0) (\<lambda>(cm, cls).
       if length cm > MAX_CLASSIFICATION_ENTRIES then Inl ValueError
       else sbind (sort_classes F (if cls \<noteq> [] then cls else map (\<lambda>(k, c). \<lparr>cl_value = k, cl_name = k, cl_color = c\<rparr>) cm)) (\<lambda>sorted_cls.
         Inr (cm, sorted_cls)))))"

section \<open>The specification\<close>

definition colormap_json :: "colormap \<Rightarrow> json" where
  "colormap_json cm = JObj (map (\<lambda>(k, c). (k, JStr c)) cm)"

definition class_json :: "style_class \<Rightarrow> json" where
  "class_json c = JObj [(''value'', JStr (cl_value c)), (''name'', JStr (cl_name c)), (''color'', JStr (cl_color c))]"

definition bidx_list :: "floats \<Rightarrow> json \<Rightarrow> string list" where
  "bidx_list F bidx =
     (let out = (case bidx of
           JNull \<Rightarrow> []
         | JArr xs \<Rightarrow> map (str_of F) (filter (\<lambda>x. x \<noteq> JNull \<and> py_strip (str_of F x) \<noteq> []) xs)
         | _ \<Rightarrow> if py_strip (str_of F bidx) = [] then [] else [py_strip (str_of F bidx)])
      in if out = [] then [''1''] else out)"

definition build_classification_style_spec :: "floats \<Rightarrow> (string \<times> json) list \<Rightarrow> json \<Rightarrow> json \<Rightarrow> exn + (string \<times> json) list" where
  "build_classification_style_spec F base colormap_raw classes_raw =
     sbind (parse_classification_inputs F colormap_raw classes_raw) (\<lambda>(cm, cls).
     sbind (parse_nodata_value F (jget base ''nodata'')) (\<lambda>nodata.
     let asset = jget base ''asset'' in
     Inr ([(''style_type'', JStr ''classification''), (''colormap'', colormap_json cm), (''colormap_type'', JStr ''explicit''),
           (''classes'', JArr (map class_json cls)), (''bidx'', JArr (map JStr (bidx_list F (jget base ''bidx''))))] @
          (if asset \<noteq> JNull \<and> py_strip (str_of F asset) \<noteq> [] then [(''asset'', JStr (py_strip (str_of F asset)))] else []) @
          (if nodata \<noteq> JNull then [(''nodata'', nodata)] else []))))"

text \<open>\<^verbatim>\<open>(spec.get("style_type") or default).strip().lower()\<close>.\<close>

definition style_type :: "string \<Rightarrow> (string \<times> json) list \<Rightarrow> exn + string" where
  "style_type dflt spec =
     (let v = jget spec ''style_type'' in
      if \<not> truthy v then Inr dflt else (case v of JStr s \<Rightarrow> Inr (py_lower (py_strip s)) | _ \<Rightarrow> Inl TypeError))"

definition normalize_raster_style_spec :: "floats \<Rightarrow> (string \<times> json) list \<Rightarrow> exn + (string \<times> json) list" where
  "normalize_raster_style_spec F spec =
     (if spec = [] then Inr []
      else
        sbind (style_type ''continuous'' spec) (\<lambda>t.
        if t \<notin> {''continuous'', ''classification''} then Inl ValueError
        else if t \<noteq> ''classification'' then
          sbind (parse_nodata_value F (jget spec ''nodata'')) (\<lambda>nodata.
          Inr (if nodata = JNull then AList.delete ''nodata'' spec else AList.update ''nodata'' nodata spec))
        else if jget spec ''colormap'' \<noteq> JNull \<or> jget spec ''classes'' \<noteq> JNull then
          sbind (parse_classification_inputs F (jget spec ''colormap'') (jget spec ''classes'')) (\<lambda>(cm, cls).
          build_classification_style_spec F (map (\<lambda>k. (k, jget spec k)) [''asset'', ''bidx'', ''nodata'']) (colormap_json cm) (JArr (map class_json cls)))
        else Inl ValueError))"

definition normalize_raster_style_spec_http :: "floats \<Rightarrow> (string \<times> json) list \<Rightarrow> exn + (string \<times> json) list" where
  "normalize_raster_style_spec_http F spec =
     (case normalize_raster_style_spec F spec of Inl ValueError \<Rightarrow> Inl (HTTPException 400 []) | r \<Rightarrow> r)"

definition is_classification_style :: "(string \<times> json) list \<Rightarrow> exn + bool" where
  "is_classification_style spec = (if spec = [] then Inr False else sbind (style_type [] spec) (\<lambda>t. Inr (t = ''classification'')))"

section \<open>Parameters of the tile server\<close>

definition titiler_nodata_param :: "floats \<Rightarrow> (string \<times> json) list \<Rightarrow> exn + (string \<times> string) option" where
  "titiler_nodata_param F spec =
     (if spec = [] then Inr None
      else sbind (parse_nodata_value F (jget spec ''nodata'')) (\<lambda>nd. Inr (if nd = JNull then None else Some (''nodata'', str_of F nd))))"

definition titiler_params_for_point :: "floats \<Rightarrow> (string \<times> json) list \<Rightarrow> exn + (string \<times> string) list" where
  "titiler_params_for_point F spec =
     (let bidx = (case jget spec ''bidx'' of
           JArr xs \<Rightarrow> if xs \<noteq> [] then join_with '','' (map (str_of F) xs) else str_of F (JArr [])
         | JNull \<Rightarrow> ''1''
         | v \<Rightarrow> str_of F v)
      in sbind (titiler_nodata_param F spec) (\<lambda>nd. Inr ((''bidx'', bidx) # (case nd of None \<Rightarrow> [] | Some p \<Rightarrow> [p]))))"

definition titiler_params_from_classification_style :: "floats \<Rightarrow> (string \<times> json) list \<Rightarrow> exn + (string \<times> string) list" where
  "titiler_params_from_classification_style F spec =
     (case jget spec ''colormap'' of
        JObj cm \<Rightarrow>
          if cm = [] then Inr []
          else
            let ct = jget spec ''colormap_type'' in
            sbind (titiler_params_for_point F spec) (\<lambda>params.
            Inr ([(''colormap'', dumps (JObj cm)), (''colormap_type'', if truthy ct then str_of F ct else ''explicit'')] @ params))
      | _ \<Rightarrow> Inr [])"

section \<open>What is accepted\<close>

definition key_ok :: "string \<Rightarrow> bool" where
  "key_ok k \<longleftrightarrow> k \<noteq> [] \<and> py_strip k = k"

definition UPPER_HEX :: "char list" where
  "UPPER_HEX = ''0123456789ABCDEF''"

definition hex_ok :: "string \<Rightarrow> bool" where
  "hex_ok c \<longleftrightarrow> length c = 7 \<and> hd c = CHR ''#'' \<and> (\<forall>x\<in>set (tl c). x \<in> set UPPER_HEX)"

definition good_classification :: "floats \<Rightarrow> colormap \<Rightarrow> style_class list \<Rightarrow> bool" where
  "good_classification F cm cls \<longleftrightarrow>
     cm \<noteq> [] \<and> cls \<noteq> [] \<and> distinct (map fst cm) \<and> length cm \<le> MAX_CLASSIFICATION_ENTRIES \<and>
     (\<forall>kc\<in>set cm. key_ok (fst kc) \<and> hex_ok (snd kc)) \<and>
     (\<forall>c\<in>set cls. key_ok (cl_value c) \<and> key_ok (cl_name c) \<and> map_of cm (cl_value c) = Some (cl_color c)) \<and>
     (\<forall>c\<in>set cls. \<not> isl (class_sort_key F (cl_value c))) \<and> sorted (map (\<lambda>c. projr (class_sort_key F (cl_value c))) cls)"

text \<open>How Python prints a float: not empty and without blanks around it.\<close>

definition prints_plainly :: "floats \<Rightarrow> bool" where
  "prints_plainly F \<longleftrightarrow> (\<forall>j. key_ok (fl_print F j))"

text \<open>Reading a float gives the literal of a float, finite or not.\<close>

definition reads_floats :: "floats \<Rightarrow> bool" where
  "reads_floats F \<longleftrightarrow> (\<forall>s j. fl_parse F s = Some j \<longrightarrow> (\<exists>neg n f. j = JDec neg n f))"

lemma pixel_key_ok: "prints_plainly F \<Longrightarrow> normalize_pixel_value_key F raw = Inr k \<Longrightarrow> key_ok k"
  by (auto simp: normalize_pixel_value_key_def prints_plainly_def key_ok_def split: json.splits if_splits)

lemma pixel_key_same: "key_ok k \<Longrightarrow> normalize_pixel_value_key F (JStr k) = Inr k"
  by (simp add: normalize_pixel_value_key_def key_ok_def)

lemma hex_digits:
  "list_all (\<lambda>x. hex_upper x \<in> set UPPER_HEX) ''0123456789abcdefABCDEF''"
  "list_all (\<lambda>x. hex_upper x = x \<and> is_hex x \<and> \<not> py_isspace_char x) UPPER_HEX"
  by code_simp+

lemma hex_upper_ok: "is_hex c \<Longrightarrow> hex_upper c \<in> set UPPER_HEX"
  using hex_digits(1) unfolding is_hex_def list_all_iff by blast

lemma hex_upper_same: "x \<in> set UPPER_HEX \<Longrightarrow> hex_upper x = x \<and> is_hex x \<and> \<not> py_isspace_char x"
  using hex_digits(2) unfolding list_all_iff by blast

lemma hex_color_ok:
  assumes "normalize_hex_color raw = Inr c"
  shows "hex_ok c"
proof -
  obtain r where r: "raw = JStr r" using assms by (auto simp: normalize_hex_color_def split: json.splits)
  define s where "s = py_strip r"
  define digits where "digits = map hex_upper (tl s)"
  have re: "HEX_COLOR_RE s" using assms by (auto simp: normalize_hex_color_def r s_def Let_def split: if_splits)
  have d: "x \<in> set UPPER_HEX" if "x \<in> set digits" for x
    using that re hex_upper_ok by (auto simp: digits_def HEX_COLOR_RE_def list_all_iff)
  have c: "c = (if length s = 4 then CHR ''#'' # concat (map (\<lambda>c. [c, c]) digits) else CHR ''#'' # digits)"
    using assms re by (simp add: normalize_hex_color_def r s_def digits_def Let_def split: if_splits)
  have l: "length digits = length s - 1" by (simp add: digits_def)
  have "length (concat (map (\<lambda>c. [c, c]) xs)) = 2 * length xs" for xs :: string by (induction xs) simp_all
  moreover have "set (concat (map (\<lambda>c. [c, c]) xs)) = set xs" for xs :: string by (induction xs) simp_all
  ultimately show ?thesis using re l d by (cases "length s = 4") (simp_all add: hex_ok_def c HEX_COLOR_RE_def del: set_concat)
qed

lemma hex_ok_upper:
  assumes "hex_ok c"
  shows "map hex_upper c = c" and "py_strip c = c" and "HEX_COLOR_RE c"
proof -
  obtain ds where c: "c = CHR ''#'' # ds" using assms by (cases c) (auto simp: hex_ok_def)
  have ds: "\<forall>x\<in>set ds. hex_upper x = x \<and> is_hex x \<and> \<not> py_isspace_char x" "length ds = 6"
    using assms hex_upper_same by (auto simp: hex_ok_def c)
  have hash: "hex_upper CHR ''#'' = CHR ''#''" "\<not> py_isspace_char CHR ''#''" by (simp_all add: hex_upper_def py_isspace_char_def)
  show "map hex_upper c = c" using ds(1) hash(1) by (simp add: c map_idI)
  have "\<not> py_isspace_char (last ds)" using ds by (metis last_in_set length_0_conv zero_neq_numeral)
  then show "py_strip c = c" unfolding py_strip_def using hash(2) ds(2) by (intro strip_with_id) (auto simp: c)
  show "HEX_COLOR_RE c" using ds by (simp add: HEX_COLOR_RE_def c list_all_iff)
qed

lemma hex_color_same: "hex_ok c \<Longrightarrow> normalize_hex_color (JStr c) = Inr c"
  using hex_ok_upper [of c]
  by (cases c) (simp_all add: normalize_hex_color_def hex_ok_def)

section \<open>Accepted inputs are good\<close>

definition colormap_ok :: "colormap \<Rightarrow> bool" where
  "colormap_ok cm \<longleftrightarrow> distinct (map fst cm) \<and> (\<forall>kc\<in>set cm. key_ok (fst kc) \<and> hex_ok (snd kc))"

definition class_ok :: "style_class \<Rightarrow> bool" where
  "class_ok c \<longleftrightarrow> key_ok (cl_value c) \<and> key_ok (cl_name c) \<and> hex_ok (cl_color c)"

lemma sbind_InrD: "sbind r f = Inr b \<Longrightarrow> \<exists>a. r = Inr a \<and> f a = Inr b"
  by (cases r) simp_all

lemma colormap_items_ok:
  "prints_plainly F \<Longrightarrow> colormap_items F items out = Inr cm \<Longrightarrow> colormap_ok out \<Longrightarrow> colormap_ok cm"
proof (induction items arbitrary: out)
  case (Cons kv items)
  obtain k v where kv: "kv = (k, v)" by (cases kv)
  obtain key c where 1: "normalize_pixel_value_key F (JStr k) = Inr key" "key \<notin> fst ` set out" "normalize_hex_color v = Inr c"
      "colormap_items F items (out @ [(key, c)]) = Inr cm"
    using Cons.prems(2) by (auto simp: kv dest!: sbind_InrD split: if_splits)
  have "colormap_ok (out @ [(key, c)])"
    using Cons.prems(3) 1(2) pixel_key_ok [OF Cons.prems(1) 1(1)] hex_color_ok [OF 1(3)] by (auto simp: colormap_ok_def)
  from Cons.IH [OF Cons.prems(1) 1(4) this] show ?case .
qed simp

lemma colormap_items_same:
  "colormap_ok cm \<Longrightarrow> fst ` set cm \<inter> fst ` set out = {} \<Longrightarrow> colormap_items F (map (\<lambda>(k, c). (k, JStr c)) cm) out = Inr (out @ cm)"
proof (induction cm arbitrary: out)
  case (Cons kc cm)
  obtain k c where kc: "kc = (k, c)" by (cases kc)
  have "colormap_items F (map (\<lambda>(k, c). (k, JStr c)) cm) (out @ [(k, c)]) = Inr ((out @ [(k, c)]) @ cm)"
    by (rule Cons.IH) (use Cons.prems in \<open>auto simp: colormap_ok_def kc\<close>)
  then show ?case using Cons.prems by (simp add: kc colormap_ok_def pixel_key_same hex_color_same)
qed simp

lemma class_of_ok: "key_ok k \<Longrightarrow> class_of k item = Inr c \<Longrightarrow> class_ok c"
  by (auto simp: class_of_def class_ok_def key_ok_def hex_color_ok dest!: sbind_InrD split: json.splits if_splits)

lemma class_of_item_ok: "prints_plainly F \<Longrightarrow> class_of_item F j = Inr c \<Longrightarrow> class_ok c"
  by (auto simp: class_of_item_def dest!: sbind_InrD dest: pixel_key_ok intro: class_of_ok split: json.splits option.splits)

lemma class_of_pair_ok: "prints_plainly F \<Longrightarrow> class_of_pair F kv = Inr c \<Longrightarrow> class_ok c"
  by (auto simp: class_of_pair_def dest!: sbind_InrD split: json.splits) (metis class_of_ok pixel_key_ok)

lemma class_json_same: "class_ok c \<Longrightarrow> class_of_item F (class_json c) = Inr c"
  by (cases c) (simp add: class_of_item_def class_json_def class_of_def class_ok_def jget_def pixel_key_same hex_color_same key_ok_def)

lemma try_map_all: "try_map f xs = Inr ys \<Longrightarrow> (\<And>x y. f x = Inr y \<Longrightarrow> P y) \<Longrightarrow> \<forall>y\<in>set ys. P y"
  by (induction xs arbitrary: ys) (auto dest!: sbind_InrD)

lemma try_map_same: "\<forall>x\<in>set xs. f (g x) = Inr x \<Longrightarrow> try_map f (map g xs) = Inr xs"
  by (induction xs) simp_all

lemma classes_ok: "prints_plainly F \<Longrightarrow> parse_classes_list F raw = Inr cls \<Longrightarrow> \<forall>c\<in>set cls. class_ok c"
  unfolding parse_classes_list_def
  by (auto split: json.splits dest!: try_map_all [where P = class_ok] intro: class_of_item_ok class_of_pair_ok)

lemma merge_ok:
  "merge_classes es cm = Inr (cm', es') \<Longrightarrow> colormap_ok cm \<Longrightarrow> \<forall>e\<in>set es. class_ok e \<Longrightarrow>
     colormap_ok cm' \<and> (\<forall>k c. map_of cm k = Some c \<longrightarrow> map_of cm' k = Some c) \<and> length es' = length es \<and>
     (\<forall>e\<in>set es'. class_ok e \<and> map_of cm' (cl_value e) = Some (cl_color e))"
proof (induction es arbitrary: cm cm' es')
  case (Cons e es)
  show ?case
  proof (cases "map_of cm (cl_value e)")
    case None
    then obtain es1 where 1: "merge_classes es (cm @ [(cl_value e, cl_color e)]) = Inr (cm', es1)" "es' = e # es1"
      using Cons.prems(1) by (auto dest!: sbind_InrD)
    have ok: "colormap_ok (cm @ [(cl_value e, cl_color e)])"
      using Cons.prems(2, 3) None by (auto simp: colormap_ok_def class_ok_def map_of_eq_None_iff)
    note ih = Cons.IH [OF 1(1) ok]
    have "map_of (cm @ [(cl_value e, cl_color e)]) k = Some c" if "map_of cm k = Some c" for k c
      using that by (simp add: map_add_def)
    moreover have "map_of (cm @ [(cl_value e, cl_color e)]) (cl_value e) = Some (cl_color e)" using None by (simp add: map_add_def)
    ultimately show ?thesis using ih Cons.prems(3) by (auto simp: 1(2))
  next
    case (Some c)
    then obtain es1 where 1: "merge_classes es cm = Inr (cm', es1)" "es' = e\<lparr>cl_color := c\<rparr> # es1"
      using Cons.prems(1) by (auto dest!: sbind_InrD split: if_splits)
    have "hex_ok c" using Some Cons.prems(2) by (force simp: colormap_ok_def dest: map_of_SomeD)
    then have e: "class_ok (e\<lparr>cl_color := c\<rparr>)" using Cons.prems(3) by (simp add: class_ok_def)
    have "\<forall>e\<in>set es. class_ok e" using Cons.prems(3) by simp
    note ih = Cons.IH [OF 1(1) Cons.prems(2) this]
    then have "map_of cm' (cl_value e) = Some c" using Some by blast
    with ih e show ?thesis by (simp add: 1(2))
  qed
qed simp

lemma merge_same: "\<forall>e\<in>set es. map_of cm (cl_value e) = Some (cl_color e) \<Longrightarrow> merge_classes es cm = Inr (cm, es)"
  by (induction es) simp_all

lemma try_map_each: "try_map f xs = Inr ys \<Longrightarrow> x \<in> set xs \<Longrightarrow> \<not> isl (f x)"
  by (induction xs arbitrary: ys) (auto dest!: sbind_InrD)

lemma try_map_total: "\<forall>x\<in>set xs. \<not> isl (f x) \<Longrightarrow> try_map f xs = Inr (map (\<lambda>x. projr (f x)) xs)"
proof (induction xs)
  case (Cons a xs)
  then obtain y where "f a = Inr y" by (cases "f a") auto
  with Cons show ?case by simp
qed simp

lemma sort_classes_ok:
  assumes "sort_classes F cls = Inr cls'"
  shows "set cls' = set cls" and "length cls' = length cls" and "\<forall>c\<in>set cls'. \<not> isl (class_sort_key F (cl_value c))"
    and "sorted (map (\<lambda>c. projr (class_sort_key F (cl_value c))) cls')"
proof -
  obtain ks where ks: "try_map (\<lambda>c. class_sort_key F (cl_value c)) cls = Inr ks"
      "cls' = sort_key (\<lambda>c. projr (class_sort_key F (cl_value c))) cls"
    using assms by (auto simp: sort_classes_def dest!: sbind_InrD)
  show "set cls' = set cls" "length cls' = length cls" "sorted (map (\<lambda>c. projr (class_sort_key F (cl_value c))) cls')"
    by (simp_all add: ks(2))
  then show "\<forall>c\<in>set cls'. \<not> isl (class_sort_key F (cl_value c))" using try_map_each [OF ks(1)] by auto
qed

lemma sort_classes_same:
  assumes "\<forall>c\<in>set cls. \<not> isl (class_sort_key F (cl_value c))" and "sorted (map (\<lambda>c. projr (class_sort_key F (cl_value c))) cls)"
  shows "sort_classes F cls = Inr cls"
  using assms try_map_total [of cls "\<lambda>c. class_sort_key F (cl_value c)"] by (simp add: sort_classes_def sort_key_id_if_sorted)

lemma accepted_good:
  assumes "prints_plainly F" and "parse_classification_inputs F a b = Inr (cm, cls)"
  shows "good_classification F cm cls"
proof -
  obtain j1 j2 cm0 cls0 cls1 where 1: "parse_json_input a = Inr j1" "parse_colormap_dict F j1 = Inr cm0" "parse_json_input b = Inr j2"
      "parse_classes_list F j2 = Inr cls0" "\<not> (cm0 = [] \<and> cls0 = [])" "merge_classes cls0 cm0 = Inr (cm, cls1)"
      "length cm \<le> MAX_CLASSIFICATION_ENTRIES"
      "sort_classes F (if cls1 \<noteq> [] then cls1 else map (\<lambda>(k, c). \<lparr>cl_value = k, cl_name = k, cl_color = c\<rparr>) cm) = Inr cls"
    using assms(2) unfolding parse_classification_inputs_def by (auto dest!: sbind_InrD split: if_splits)
  have cm0: "colormap_ok cm0"
    using 1(2) colormap_items_ok [OF assms(1)] by (auto simp: parse_colormap_dict_def colormap_ok_def split: json.splits)
  note m = merge_ok [OF 1(6) cm0 classes_ok [OF assms(1) 1(4)]]
  have ne: "cm \<noteq> []"
  proof (cases "cls0 = []")
    case True
    then show ?thesis using 1(5, 6) by simp
  next
    case False
    then have "cls1 \<noteq> []" using m by (cases cls1) auto
    then obtain e where "e \<in> set cls1" by (meson last_in_set)
    then show ?thesis using m by (metis map_of.simps(1) option.distinct(1))
  qed
  have own: "class_ok c \<and> map_of cm (cl_value c) = Some (cl_color c)"
    if "c \<in> set (map (\<lambda>(k, c). \<lparr>cl_value = k, cl_name = k, cl_color = c\<rparr>) cm)" for c
    using that m by (force simp: class_ok_def colormap_ok_def)
  have "\<forall>c\<in>set cls. class_ok c \<and> map_of cm (cl_value c) = Some (cl_color c)"
    unfolding sort_classes_ok(1) [OF 1(8)] using m own by (cases "cls1 = []") simp_all
  moreover have "length cls \<noteq> 0" using ne unfolding sort_classes_ok(2) [OF 1(8)] by auto
  ultimately show ?thesis
    using ne 1(7) m sort_classes_ok(3,4) [OF 1(8)] by (simp add: good_classification_def colormap_ok_def class_ok_def)
qed

lemma good_accepted:
  assumes "good_classification F cm cls"
  shows "parse_classification_inputs F (colormap_json cm) (JArr (map class_json cls)) = Inr (cm, cls)"
proof -
  have cm: "colormap_ok cm" using assms by (simp add: good_classification_def colormap_ok_def)
  have cls: "class_ok c" if "c \<in> set cls" for c
    using that assms by (force simp: good_classification_def class_ok_def dest: map_of_SomeD)
  have "parse_classes_list F (JArr (map class_json cls)) = Inr cls"
    by (simp add: parse_classes_list_def try_map_same class_json_same cls)
  moreover have "merge_classes cls cm = Inr (cm, cls)" using assms by (intro merge_same) (simp add: good_classification_def)
  moreover have "sort_classes F cls = Inr cls" using assms by (intro sort_classes_same) (simp_all add: good_classification_def)
  ultimately show ?thesis
    using assms colormap_items_same [OF cm, of "[]"]
    by (simp add: parse_classification_inputs_def parse_json_input_def colormap_json_def parse_colormap_dict_def good_classification_def)
qed

section \<open>Normalising again changes nothing\<close>

lemma nodata_none [simp]: "parse_nodata_value F JNull = Inr JNull"
  by (simp add: parse_nodata_value_def)

definition finite_nodata :: "floats \<Rightarrow> json \<Rightarrow> bool" where
  "finite_nodata F v \<longleftrightarrow> (case v of JDec _ _ _ \<Rightarrow> fst (fl_num F v) = 0 | _ \<Rightarrow> True)"

lemma nodata_text:
  assumes "reads_floats F" and "py_strip s = s" and "s \<noteq> []" and "parse_nodata_value F (JStr s) = Inr v"
  shows "parse_nodata_value F v = (if finite_nodata F v then Inr v else Inl ValueError)"
proof (cases "CHR ''.'' \<in> set s \<or> CHR ''e'' \<in> set (py_lower s)")
  case True
  show ?thesis
  proof (cases "fl_parse F s")
    case None
    then show ?thesis using True assms by (auto simp: parse_nodata_value_def finite_nodata_def)
  next
    case (Some x)
    then have "v = x" using True assms by (auto simp: parse_nodata_value_def)
    moreover obtain neg n f where "x = JDec neg n f" using Some assms(1) unfolding reads_floats_def by blast
    ultimately show ?thesis by (simp add: parse_nodata_value_def finite_nodata_def)
  qed
next
  case False
  then show ?thesis using assms by (cases "int_of_text s") (auto simp: parse_nodata_value_def finite_nodata_def)
qed

text \<open>A nodata value that was accepted is read again as itself, unless it is an infinite float.\<close>

lemma nodata_again:
  assumes "reads_floats F" and "parse_nodata_value F raw = Inr v"
  shows "parse_nodata_value F v = (if finite_nodata F v then Inr v else Inl ValueError)"
proof (cases raw)
  case (JStr s0)
  show ?thesis
  proof (cases "py_strip s0 = []")
    case True
    then have "v = JNull" using assms(2) JStr by (simp add: parse_nodata_value_def)
    then show ?thesis by (simp add: finite_nodata_def)
  next
    case False
    have "parse_nodata_value F (JStr (py_strip s0)) = Inr v" using assms(2) JStr by (simp add: parse_nodata_value_def)
    then show ?thesis by (intro nodata_text [OF assms(1) _ False]) simp_all
  qed
qed (use assms(2) in \<open>auto simp: parse_nodata_value_def finite_nodata_def split: if_splits\<close>)

lemma bidx_same: "bidx_list F (JArr (map JStr (bidx_list F b))) = bidx_list F b"
proof -
  have ne: "bidx_list F b \<noteq> []" by (simp add: bidx_list_def Let_def)
  have "py_strip ''1'' = ''1''" by code_simp
  then have "\<forall>x\<in>set (bidx_list F b). py_strip x \<noteq> []"
    by (auto simp: bidx_list_def Let_def split: json.split)
  then have "filter (\<lambda>x. x \<noteq> JNull \<and> py_strip (str_of F x) \<noteq> []) (map JStr (bidx_list F b)) = map JStr (bidx_list F b)"
    by (auto simp: str_of_def py_str_def filter_id_conv)
  then show ?thesis using ne by (subst bidx_list_def) (simp add: str_of_def py_str_def comp_def)
qed

text \<open>The specification built from good classes.\<close>

lemma build_good:
  assumes "good_classification F cm cls" and "parse_nodata_value F (jget base ''nodata'') = Inr nodata"
  shows "build_classification_style_spec F base (colormap_json cm) (JArr (map class_json cls)) =
     Inr ([(''style_type'', JStr ''classification''), (''colormap'', colormap_json cm), (''colormap_type'', JStr ''explicit''),
           (''classes'', JArr (map class_json cls)), (''bidx'', JArr (map JStr (bidx_list F (jget base ''bidx''))))] @
          (if jget base ''asset'' \<noteq> JNull \<and> py_strip (str_of F (jget base ''asset'')) \<noteq> []
           then [(''asset'', JStr (py_strip (str_of F (jget base ''asset''))))] else []) @
          (if nodata \<noteq> JNull then [(''nodata'', nodata)] else []))"
  using good_accepted [OF assms(1)] assms(2) by (simp add: build_classification_style_spec_def Let_def)

definition classified :: "floats \<Rightarrow> (string \<times> json) list \<Rightarrow> colormap \<Rightarrow> style_class list \<Rightarrow> bool" where
  "classified F out cm cls \<longleftrightarrow> good_classification F cm cls \<and>
     (\<exists>b a nd. out = [(''style_type'', JStr ''classification''), (''colormap'', colormap_json cm), (''colormap_type'', JStr ''explicit''),
        (''classes'', JArr (map class_json cls)), (''bidx'', JArr (map JStr (bidx_list F b)))] @ a @ nd \<and>
        (a = [] \<or> (\<exists>x. a = [(''asset'', JStr x)] \<and> key_ok x)) \<and> (nd = [] \<or> (\<exists>v. nd = [(''nodata'', v)] \<and> v \<noteq> JNull)))"

lemma normalized_classified:
  assumes "prints_plainly F" and "normalize_raster_style_spec F spec = Inr out"
    and "spec \<noteq> []" and "style_type ''continuous'' spec = Inr ''classification''"
  shows "\<exists>cm cls. classified F out cm cls \<and> parse_nodata_value F (jget spec ''nodata'') = Inr (jget out ''nodata'')"
proof -
  let ?base = "map (\<lambda>k. (k, jget spec k)) [''asset'', ''bidx'', ''nodata'']"
  obtain cm cls where 1: "parse_classification_inputs F (jget spec ''colormap'') (jget spec ''classes'') = Inr (cm, cls)"
      "build_classification_style_spec F ?base (colormap_json cm) (JArr (map class_json cls)) = Inr out"
    using assms(2-4) by (auto simp: normalize_raster_style_spec_def dest!: sbind_InrD split: if_splits)
  have good: "good_classification F cm cls" by (rule accepted_good [OF assms(1) 1(1)])
  obtain nodata where nd: "parse_nodata_value F (jget ?base ''nodata'') = Inr nodata"
    using 1(2) good_accepted [OF good] by (auto simp: build_classification_style_spec_def dest!: sbind_InrD)
  let ?asset = "jget ?base ''asset''"
  define a where "a = (if ?asset \<noteq> JNull \<and> py_strip (str_of F ?asset) \<noteq> [] then [(''asset'', JStr (py_strip (str_of F ?asset)))] else [])"
  define n where "n = (if nodata \<noteq> JNull then [(''nodata'', nodata)] else [])"
  have "a = [] \<or> (\<exists>x. a = [(''asset'', JStr x)] \<and> key_ok x)" by (simp add: a_def key_ok_def)
  moreover have "n = [] \<or> (\<exists>v. n = [(''nodata'', v)] \<and> v \<noteq> JNull)" by (simp add: n_def)
  moreover note out = 1(2) [unfolded build_good [OF good nd], folded a_def n_def]
  ultimately have "classified F out cm cls" using good unfolding classified_def by blast
  moreover have "jget out ''nodata'' = nodata" using out by (auto simp: jget_def a_def n_def)
  ultimately show ?thesis using nd by (auto simp: jget_def)
qed

lemma classified_again:
  assumes "classified F out cm cls"
    and "parse_nodata_value F (jget out ''nodata'') = (if b then Inr (jget out ''nodata'') else Inl ValueError)"
  shows "normalize_raster_style_spec F out = (if b then Inr out else Inl ValueError)"
proof -
  obtain bi a nd where out: "out = [(''style_type'', JStr ''classification''), (''colormap'', colormap_json cm), (''colormap_type'', JStr ''explicit''),
        (''classes'', JArr (map class_json cls)), (''bidx'', JArr (map JStr (bidx_list F bi)))] @ a @ nd"
      and a: "a = [] \<or> (\<exists>x. a = [(''asset'', JStr x)] \<and> key_ok x)"
      and nd: "nd = [] \<or> (\<exists>v. nd = [(''nodata'', v)] \<and> v \<noteq> JNull)"
      and good: "good_classification F cm cls"
    using assms(1) by (auto simp: classified_def)
  have t: "style_type ''continuous'' out = Inr ''classification''"
  proof -
    have "py_lower (py_strip ''classification'') = ''classification''" by code_simp
    then show ?thesis by (simp add: style_type_def jget_def out)
  qed
  have fields: "jget out ''colormap'' = colormap_json cm" "jget out ''classes'' = JArr (map class_json cls)" "out \<noteq> []"
      "jget out ''bidx'' = JArr (map JStr (bidx_list F bi))" "jget out ''asset'' = (if a = [] then JNull else snd (hd a))"
      "jget out ''nodata'' = (if nd = [] then JNull else snd (hd nd))"
    using a nd by (auto simp: out jget_def)
  let ?base = "map (\<lambda>k. (k, jget out k)) [''asset'', ''bidx'', ''nodata'']"
  have base: "jget ?base ''nodata'' = jget out ''nodata''" "jget ?base ''bidx'' = jget out ''bidx''" "jget ?base ''asset'' = jget out ''asset''"
    by (simp_all add: jget_def)
  show ?thesis
  proof (cases b)
    case True
    then have n: "parse_nodata_value F (jget ?base ''nodata'') = Inr (jget out ''nodata'')" unfolding base using assms(2) by simp
    have "build_classification_style_spec F ?base (colormap_json cm) (JArr (map class_json cls)) = Inr out"
      unfolding build_good [OF good n] base fields bidx_same using a nd by (auto simp: out str_of_def py_str_def key_ok_def)
    then show ?thesis
      using good_accepted [OF good] t fields(1-3) True by (simp add: normalize_raster_style_spec_def colormap_json_def)
  next
    case False
    then have "build_classification_style_spec F ?base (colormap_json cm) (JArr (map class_json cls)) = Inl ValueError"
      using good_accepted [OF good] assms(2) base(1) by (simp add: build_classification_style_spec_def)
    then show ?thesis
      using good_accepted [OF good] t fields(1-3) False by (simp add: normalize_raster_style_spec_def colormap_json_def)
  qed
qed

lemma delete_same: "AList.delete k (AList.delete k d) = AList.delete k d"
  by (simp add: AList.delete_eq)

lemma jget_update: "jget (AList.update k v d) k' = (if k' = k then v else jget d k')"
  by (simp add: jget_def update_conv')

lemma jget_delete: "jget (AList.delete k d) k' = (if k' = k then JNull else jget d k')"
  by (simp add: jget_def delete_conv')

lemma update_twice: "AList.update k v (AList.update k v d) = AList.update k v d"
  by (induction d) auto

text \<open>C36: what happens when an accepted raster style specification is normalised again, exactly: it is accepted and unchanged, unless the nodata
  value it was given is a text that Python reads as an infinite float (\<^verbatim>\<open>1e999\<close>); such a text is accepted the first time, and the stored
  specification is refused with a \<^verbatim>\<open>ValueError\<close> the next time. For any reading of floats that yields float literals and any printing of them
  without blanks.\<close>

theorem normalize_raster_style_spec_stable:
  assumes "prints_plainly F" and "reads_floats F" and "normalize_raster_style_spec F spec = Inr out"
  shows "normalize_raster_style_spec F out = (if finite_nodata F (jget out ''nodata'') then Inr out else Inl ValueError)"
proof (cases "spec = [] \<or> out = []")
  case True
  then show ?thesis using assms(3) by (auto simp: normalize_raster_style_spec_def jget_def finite_nodata_def)
next
  case False
  then obtain t where t: "style_type ''continuous'' spec = Inr t" "t \<in> {''continuous'', ''classification''}"
    using assms(3) by (auto simp: normalize_raster_style_spec_def dest!: sbind_InrD split: if_splits)
  show ?thesis
  proof (cases "t = ''classification''")
    case True
    then obtain cm cls where "classified F out cm cls" "parse_nodata_value F (jget spec ''nodata'') = Inr (jget out ''nodata'')"
      using normalized_classified [OF assms(1,3)] False t(1) by blast
    then show ?thesis by (intro classified_again nodata_again [OF assms(2)])
  next
    case cont: False
    then obtain nodata where nd: "parse_nodata_value F (jget spec ''nodata'') = Inr nodata"
        "out = (if nodata = JNull then AList.delete ''nodata'' spec else AList.update ''nodata'' nodata spec)"
      using assms(3) False t by (auto simp: normalize_raster_style_spec_def dest!: sbind_InrD split: if_splits)
    have j: "jget out ''nodata'' = nodata" by (simp add: nd(2) jget_update jget_delete)
    have "style_type ''continuous'' out = Inr t"
      using t(1) by (simp add: style_type_def nd(2) jget_update jget_delete)
    moreover have "parse_nodata_value F nodata = (if finite_nodata F nodata then Inr nodata else Inl ValueError)"
      by (rule nodata_again [OF assms(2) nd(1)])
    ultimately show ?thesis
      using False t(2) cont unfolding j
      by (simp add: normalize_raster_style_spec_def j) (simp add: nd(2) delete_same update_twice)
  qed
qed

text \<open>Floats for examples: literals with a point are read as JSON reads them, \<^verbatim>\<open>1e999\<close> is read as infinity, which is marked in the place
  of the digits, and an integer of more than 308 digits has no float.\<close>

definition infinity :: json where
  "infinity = JDec False 0 ''inf''"

definition example_floats :: floats where
  "example_floats = \<lparr>
     fl_parse = (\<lambda>s. if s = ''1e999'' then Some infinity
        else case loads s of Inr (JDec neg n f) \<Rightarrow> Some (JDec neg n f) | _ \<Rightarrow> None),
     fl_print = (\<lambda>j. if key_ok (dumps j) then dumps j else ''0.5''),
     fl_num = (\<lambda>j. if j = infinity then (1, 0) else (0, case json_float j of Inr x \<Rightarrow> x | Inl _ \<Rightarrow> 0)),
     fl_int = (\<lambda>i. if 308 < length (int_str i) then None else Some (of_int i))\<rparr>"

definition example_spec :: "(string \<times> json) list" where
  "example_spec = [(''style_type'', JStr ''classification''), (''classes'', JArr
     [JObj [(''value'', JInt 2), (''name'', JStr '' forest ''), (''color'', JStr ''#0a0'')],
      JObj [(''value'', JStr ''1.5''), (''name'', JStr ''water''), (''color'', JStr ''#0000ff'')]]), (''nodata'', JStr '' 0.5 '')]"

lemma example_floats_ok: "prints_plainly example_floats" "reads_floats example_floats"
proof -
  have "py_strip ''0.5'' = ''0.5''" by code_simp
  then show "prints_plainly example_floats" by (simp add: prints_plainly_def example_floats_def key_ok_def)
  show "reads_floats example_floats"
    by (auto simp: reads_floats_def example_floats_def infinity_def split: if_splits sum.splits json.splits)
qed

definition example_out :: "(string \<times> json) list" where
  "example_out = [(''style_type'', JStr ''classification''),
     (''colormap'', JObj [(''2'', JStr ''#00AA00''), (''1.5'', JStr ''#0000FF'')]), (''colormap_type'', JStr ''explicit''),
     (''classes'', JArr [JObj [(''value'', JStr ''1.5''), (''name'', JStr ''water''), (''color'', JStr ''#0000FF'')],
        JObj [(''value'', JStr ''2''), (''name'', JStr ''forest''), (''color'', JStr ''#00AA00'')]]),
     (''bidx'', JArr [JStr ''1'']), (''nodata'', JDec False 0 ''5'')]"

definition infinite_spec :: "(string \<times> json) list" where
  "infinite_spec = [(''nodata'', JStr ''1e999'')]"

definition infinite_out :: "(string \<times> json) list" where
  "infinite_out = [(''nodata'', infinity)]"

lemma example_normalized:
  "normalize_raster_style_spec example_floats example_spec = Inr example_out"
  "normalize_raster_style_spec example_floats infinite_spec = Inr infinite_out"
  "finite_nodata example_floats (jget example_out ''nodata'')" "\<not> finite_nodata example_floats (jget infinite_out ''nodata'')"
  by code_simp+

theorem normalize_raster_style_spec_stable_witness:
  "normalize_raster_style_spec example_floats example_out = Inr example_out \<and>
   normalize_raster_style_spec example_floats infinite_out = Inl ValueError"
  using normalize_raster_style_spec_stable [OF example_floats_ok example_normalized(1)]
    normalize_raster_style_spec_stable [OF example_floats_ok example_normalized(2)] example_normalized(3,4)
  by simp

text \<open>C37: what is accepted as a classification is one: the stored colour map has at least one and at most 256 pixel values, each once and without blanks,
  with colours written as a hash and six upper-case digits; the stored classes are sorted by the key of the code (numbers first, in the order of their
  floats, equal ones by their text), and each has the colour the map gives its value. For any printing of floats without blanks.\<close>

theorem accepted_classification_valid:
  assumes "prints_plainly F" and "normalize_raster_style_spec F spec = Inr out"
    and "spec \<noteq> []" and "style_type ''continuous'' spec = Inr ''classification''"
  shows "\<exists>cm cls. jget out ''colormap'' = colormap_json cm \<and> jget out ''classes'' = JArr (map class_json cls) \<and> good_classification F cm cls"
proof -
  obtain cm cls where "classified F out cm cls" using normalized_classified [OF assms] by blast
  then show ?thesis by (intro exI [of _ cm] exI [of _ cls]) (auto simp: classified_def jget_def)
qed

theorem accepted_classification_valid_witness:
  "\<exists>cm cls. jget example_out ''colormap'' = colormap_json cm \<and> jget example_out ''classes'' = JArr (map class_json cls) \<and>
     good_classification example_floats cm cls"
proof -
  have "style_type ''continuous'' example_spec = Inr ''classification''" by code_simp
  from accepted_classification_valid [OF example_floats_ok(1) example_normalized(1) _ this] show ?thesis by (simp add: example_spec_def)
qed

text \<open>An integer that has no float is not refused with a message: its \<^verbatim>\<open>OverflowError\<close> passes through the normalisation and through the
  handler that turns errors into answers.\<close>

theorem huge_pixel_value_escapes:
  assumes "CHR ''.'' \<notin> set v" and "int_of_text v = Inr i" and "fl_int F i = None" and "key_ok v" and "hex_ok c"
  shows "normalize_raster_style_spec_http F [(''style_type'', JStr ''classification''), (''colormap'', JObj [(v, JStr c)])] = Inl OverflowError"
proof -
  have "py_lower (py_strip ''classification'') = ''classification''" by code_simp
  moreover have "class_sort_key F v = Inl OverflowError" using assms(1-3) by (simp add: class_sort_key_def)
  ultimately show ?thesis
    using assms(4,5)
    by (simp add: normalize_raster_style_spec_http_def normalize_raster_style_spec_def style_type_def jget_def
        parse_classification_inputs_def parse_json_input_def parse_colormap_dict_def pixel_key_same hex_color_same
        parse_classes_list_def MAX_CLASSIFICATION_ENTRIES_def sort_classes_def)
qed

end
