(* ===== verification/Spec2Isabelle.thy ===== *)
theory Spec2Isabelle
  imports Upload_Sessions Bulk_Activity Finalize_Queue Tile_Build_Queue Process_Queue Load_Gates Titiler_Client Permissions
    Login_Guard Finalize_Reconcile Tile_Jobs Feature_Store Mosaic_Cover Mosaic_Rounds Layer_Styles Raster_Spec
begin

text \<open>
  A verification library for geofastmapAPI, a FastAPI service that stores geographic features in a partitioned PostgreSQL
  table, imports them in bulk through worker processes that talk over Redis, and serves them as maps and tiles.

  \<^bold>\<open>How the program is modelled.\<close> A Python procedure is a program \<open>'w \<Rightarrow> (exn + 'a) \<times> 'w\<close> on a world
  \<open>'w\<close> (\<^verbatim>\<open>GFM_Prelude\<close>): it returns a value or the exception that escapes, and the world it leaves. Worlds are
  records that grow with the component: the Redis connection with a clock and a source of identifiers
  (\<open>env\<close>), the in-memory job table (\<open>jenv\<close>), the in-memory queue (\<open>qenv\<close>), the database
  (\<open>fenv\<close>); user accounts and permissions live on a record of tables (\<open>db\<close>). Redis is a parameter
  \<open>srv\<close>: its laws are the locales \<open>redis_server\<close> (each request is carried out or lost, the reply may be
  lost) and \<open>redis_up\<close> (it answers), interpreted by the executable server \<open>mem_srv\<close>. The sync part of
  PostgreSQL is the record \<open>pg\<close>: named tables, the partitions of \<^verbatim>\<open>features\<close>, the default partition, and a list
  of refusals, one per transaction, so that every theorem can be about a database that fails at any point.

  \<^bold>\<open>Theories and sources\<close> (below \<^verbatim>\<open>src/app\<close>).
  \<^item> Language: \<^verbatim>\<open>GFM_Prelude\<close> (exceptions, the program monad, Hoare triples), \<^verbatim>\<open>Py_Text\<close>, \<^verbatim>\<open>Py_Datetime\<close>, \<^verbatim>\<open>Py_Json\<close>,
    \<^verbatim>\<open>Json_Fields\<close> (strings, ISO dates, \<^verbatim>\<open>json.dumps\<close> and \<^verbatim>\<open>json.loads\<close> with their round trip), \<^verbatim>\<open>App_Settings\<close>
    (\<^verbatim>\<open>core/config.py\<close>, the fields that are read).
  \<^item> Redis: \<^verbatim>\<open>Redis\<close> (commands and server laws), \<^verbatim>\<open>Redis_Client\<close> (the client calls, \<^verbatim>\<open>services/redis_resilience.py\<close>).
  \<^item> Bulk imports: \<^verbatim>\<open>Bulk_Mutex\<close> and \<^verbatim>\<open>Bulk_Activity\<close> (\<^verbatim>\<open>services/bulk_collection_activity.py\<close>), \<^verbatim>\<open>Job_Store\<close>
    (\<^verbatim>\<open>services/job_store.py\<close>), \<^verbatim>\<open>Property_Filters\<close> (\<^verbatim>\<open>utils/property_filters.py\<close>, \<^verbatim>\<open>utils/property_filter.py\<close>,
    \<^verbatim>\<open>services/bulk_import_params.py\<close>), \<^verbatim>\<open>Bulk_Queue\<close>, \<^verbatim>\<open>Finalize_Queue\<close>, \<^verbatim>\<open>Tile_Build_Queue\<close>, \<^verbatim>\<open>Process_Queue\<close>,
    \<^verbatim>\<open>Upload_Sessions\<close> (the queue modules of the same names in \<^verbatim>\<open>services\<close>).
  \<^item> The database side: \<^verbatim>\<open>Staging\<close> (\<^verbatim>\<open>services/bulk_staging.py\<close>, \<^verbatim>\<open>services/bulk_staging_recovery.py\<close>,
    \<^verbatim>\<open>db/features_partitions.py\<close>), \<^verbatim>\<open>Staging_Isolation\<close> (their invariant), \<^verbatim>\<open>Import_World\<close> (Redis and database together,
    the steps after a promotion), \<^verbatim>\<open>Finalize_Worker\<close> (\<^verbatim>\<open>services/bulk_finalize_worker.py\<close>), \<^verbatim>\<open>Bulk_Watchdog\<close>
    (\<^verbatim>\<open>services/bulk_watchdog.py\<close>), \<^verbatim>\<open>Finalize_Reconcile\<close> (\<^verbatim>\<open>services/bulk_finalize_reconcile.py\<close>).
  \<^item> Request handling: \<^verbatim>\<open>Load_Gates\<close> (\<^verbatim>\<open>services/titiler_gate.py\<close>, \<^verbatim>\<open>services/db_load_gate.py\<close>), \<^verbatim>\<open>Titiler_Client\<close>
    (\<^verbatim>\<open>services/titiler_inflight.py\<close>, \<^verbatim>\<open>services/titiler_retry.py\<close>).
  \<^item> Users: \<^verbatim>\<open>Accounts\<close> (\<^verbatim>\<open>core/auth.py\<close>, \<^verbatim>\<open>crud/user.py\<close>, \<^verbatim>\<open>utils/nickname.py\<close>, the administration handlers of
    \<^verbatim>\<open>api/routes/auth.py\<close>), \<^verbatim>\<open>Permissions\<close> (\<^verbatim>\<open>core/permissions.py\<close>, \<^verbatim>\<open>crud/resource_share.py\<close>, \<^verbatim>\<open>crud/maps.py\<close>, style
    sharing), \<^verbatim>\<open>Layer_Styles\<close> (\<^verbatim>\<open>crud/styles.py\<close>, \<^verbatim>\<open>api/routes/styles.py\<close>,
    \<^verbatim>\<open>api/routes/collection_styles.py\<close>), \<^verbatim>\<open>Raster_Spec\<close> (\<^verbatim>\<open>services/raster_style_spec.py\<close>),
    \<^verbatim>\<open>Login_Guard\<close> (login and password change in \<^verbatim>\<open>api/routes/auth.py\<close>).
  \<^item> Features and tiles: \<^verbatim>\<open>Tile_Cache\<close> (\<^verbatim>\<open>services/dynamic_tile_cache.py\<close> and the caches beside it), \<^verbatim>\<open>Tile_Jobs\<close>
    (\<^verbatim>\<open>tile_queue_worker.py\<close> and the queue it serves), \<^verbatim>\<open>Feature_Parts\<close> (the splitting of large geometries),
    \<^verbatim>\<open>Feature_Store\<close> (the requests on single features in \<^verbatim>\<open>crud/features.py\<close>, on a world with the state of the session and the
    committed state of the database).
  \<^item> Mosaics: \<^verbatim>\<open>Mosaic_Dates\<close>, \<^verbatim>\<open>Mosaic_Boxes\<close>, \<^verbatim>\<open>Mosaic_Cover\<close> (dates, boxes and the greedy cover of
    \<^verbatim>\<open>services/mosaic_plan.py\<close>), \<^verbatim>\<open>Mosaic_Jobs\<close> (\<^verbatim>\<open>services/mosaic_plan_jobs.py\<close>), \<^verbatim>\<open>Mosaic_Worker\<close>
    (\<^verbatim>\<open>mosaic_worker_main.py\<close>), \<^verbatim>\<open>Mosaic_Rounds\<close> (\<^verbatim>\<open>services/mosaic_plan_distributed.py\<close>, the coordinator and its
    composition with the workers: the locales \<open>subtask_service\<close>, what the coordinator relies on, and \<open>serving_workers\<close>, which provides it).

  \<^bold>\<open>What is shown.\<close> The lock of a collection is held by one job at a time over any interleaving of
  single requests and lost messages that keeps a stated discipline (no key expires in use, no two concurrent releases for
  one job), and may be held by two without it. Jobs, upload sessions and filters are read back as they were written, queue messages in
  a stated normal form. A replace import swaps exactly one collection, a failed swap loses nothing and can be retried, and the finalize worker
  and the repair tool never touch another collection whatever Redis and the database do, as long as no other collection's id
  differs from the job's in spaces only; a successful run closes the job and frees its lock. The gates count the calls they admit, respect their cap up to stated overtakings and
  serve every waiter; a tile is fetched once at a time per key, for the callers of that key; requests are retried only for a reason and boundedly. An administrator always
  remains, whoever may edit may see, every collection has at most one default style and a saved style is read back,
  normalising a raster style twice changes nothing unless its nodata text reads as an infinite float, the SQL listing of maps agrees with the permission check, and failed logins block
  an address for a time that is stated exactly. Any sequence of requests on features keeps the committed store well formed and touches one feature each;
  a failed request commits nothing and, while Redis answers, no stale tile is served after a write. The dates and boxes a mosaic searches
  cover what was asked, the greedy cover reports exactly what it leaves open, every shard of a round is answered once, merging loses
  no scene, a plan job ends and says why it stopped. Where the code falls short of what it means to do, a theorem exhibits the run.

  \<^bold>\<open>Bounds and fuel.\<close> Retry loops run for the configured number of attempts. The swap's loop until a deadline takes
  the number \<open>n\<close> of attempts that fit; theorems hold for every \<open>n\<close> or say how many time-outs they
  cover. The loop that hands out shards is bounded by the results still missing, since each turn receives one or ends; the rounds of a plan by
  the configured number; taking a tile job by the length of the queue. Waiting for an idle collection takes a number of polls and returns \<open>None\<close> when they run out. Redis
  counters are bounded to 64 bits.

  \<^bold>\<open>Simplifications.\<close> Operations of different processes interleave as whole calls except in \<^verbatim>\<open>Load_Gates\<close>, \<^verbatim>\<open>Titiler_Client\<close>,
  for the exclusion of the bulk mutex in \<^verbatim>\<open>Bulk_Mutex\<close> (single requests) and where a theorem splits a call; a mosaic worker serves one entry of the
  subtask queue as one call. The time to live of a Redis key is recorded but does not elapse, but for the expiry steps of \<^verbatim>\<open>Bulk_Mutex\<close>. A duplicate
  key is recognised by the message of the error alone. The bound check of a staging table is recorded and tested once, when it is added. Strings are Latin-1; the ellipsis and the dash in messages are ASCII. Sleeping and printing are left out.
  Rows of an unordered query come in table order. Floats are rationals where a theorem is about numbers; in \<^verbatim>\<open>Raster_Spec\<close>
  reading, printing and rounding them are parameters. Geometry operations, SHA-256,
  the search of a STAC catalogue and the planning over a list of scenes are parameters. While a coordinator waits, the other processes act once per wait,
  by any number of whole subtasks; the heartbeats of a plan job come before the look-up of its owner. Calling a method of a
  value of the wrong type raises \<open>TypeError\<close>. Feature rows carry their key, time of change and an opaque payload.

  \<^bold>\<open>Not modelled.\<close> The SQL of collections and of feature listings with PostGIS (\<^verbatim>\<open>crud/collections.py\<close>, the queries of
  \<^verbatim>\<open>crud/features.py\<close>), the parsing of uploaded files (\<^verbatim>\<open>services/bulk_import.py\<close>, \<^verbatim>\<open>services/bulk_copy_ingest.py\<close> but for
  the helpers named above), spatial processes (\<^verbatim>\<open>services/process_worker.py\<close>, SQL over user tables), the search of STAC catalogues, swap
  options and MosaicJSON, raster views, STAC federation, tile building, the HTTP routes that only
  format what the layers below return, the Redis branch of the login limiter, the blocking main loops of the
  workers but for that of the mosaic worker, templates, migrations and scripts.
\<close>

section \<open>The messages between the API and the workers\<close>

lemma nonempty_id: "nonempty x = x \<longleftrightarrow> x \<noteq> Some []"
  by (cases x) (auto simp: nonempty_def)

lemma nonempty_idem: "nonempty (nonempty x) = nonempty x"
  by (cases x) (auto simp: nonempty_def)

lemma as_queued_id:
  "as_queued b = b \<longleftrightarrow> b_zip_inner_shp_paths b \<noteq> Some [] \<and> b_job_kind b \<noteq> [] \<and> b_parent_job_id b \<noteq> Some [] \<and> b_replace_filters b \<noteq> Some []"
  for b :: BulkJobPayload
  by (cases b) (auto simp: as_queued_def nonempty_id)

lemma as_sent_id:
  "as_sent p = p \<longleftrightarrow> p_tile_build_options p \<noteq> Some [] \<and> p_result_collection_id p \<noteq> Some [] \<and>
     (if p_collection_ids p = [] then p_feature_ref p = None \<and> p_feature_geojson p = None
      else p_feature_ref p \<noteq> Some [] \<and> p_feature_geojson p \<noteq> Some [])" for p :: ProcessJobPayload
  by (cases p) (auto simp: as_sent_def nonempty_id)

text \<open>C21: What a worker reads of a message the API queued, exactly. A tile build is read back as it was sent. A bulk import
  is read back with an empty list of shape files, an empty parent id and empty replace filters as absent and an empty kind as
  \<^verbatim>\<open>single\<close>; a finalize request with an empty mode as \<^verbatim>\<open>append\<close>. A process job, whose embedded objects have distinct keys and whose
  distance is a number, is read back with empty tile options and an empty result id as absent, and its \<^verbatim>\<open>feature_ref\<close> and
  \<^verbatim>\<open>feature_geojson\<close> absent when they are empty, and also, whatever they are, when there are no \<^verbatim>\<open>collection_ids\<close>; its mode (one
  feature against layers or not) stays the same. Hence the message read is the message sent exactly when it has none of these.\<close>

theorem queue_messages_roundtrip:
  fixes b :: BulkJobPayload and t :: TileBuildPayload and f :: BulkFinalizePayload
  assumes "payload_ok p"
  shows "BulkJobPayload_from_json (BulkJobPayload_to_json b) = Inr (as_queued b) \<and>
         ProcessJobPayload_from_json (ProcessJobPayload_to_json p) = Inr (as_sent p) \<and>
         TileBuildPayload_from_json (TileBuildPayload_to_json t) = Inr t \<and>
         BulkFinalizePayload_from_json (BulkFinalizePayload_to_json f) =
           Inr (f\<lparr>f_mode := if f_mode f = [] then ''append'' else f_mode f\<rparr>) \<and>
         (BulkJobPayload_from_json (BulkJobPayload_to_json b) = Inr b \<longleftrightarrow>
            b_zip_inner_shp_paths b \<noteq> Some [] \<and> b_job_kind b \<noteq> [] \<and> b_parent_job_id b \<noteq> Some [] \<and> b_replace_filters b \<noteq> Some []) \<and>
         (ProcessJobPayload_from_json (ProcessJobPayload_to_json p) = Inr p \<longleftrightarrow>
            p_tile_build_options p \<noteq> Some [] \<and> p_result_collection_id p \<noteq> Some [] \<and>
            (if p_collection_ids p = [] then p_feature_ref p = None \<and> p_feature_geojson p = None
             else p_feature_ref p \<noteq> Some [] \<and> p_feature_geojson p \<noteq> Some [])) \<and>
         (BulkFinalizePayload_from_json (BulkFinalizePayload_to_json f) = Inr f \<longleftrightarrow> f_mode f \<noteq> []) \<and>
         is_feature_vs_layers (as_sent p) = is_feature_vs_layers p"
proof -
  have f: "f\<lparr>f_mode := if f_mode f = [] then ''append'' else f_mode f\<rparr> = f \<longleftrightarrow> f_mode f \<noteq> []" by (cases f) auto
  have m: "is_feature_vs_layers (as_sent p) = is_feature_vs_layers p"
    by (simp add: is_feature_vs_layers_def as_sent_def nonempty_idem)
  show ?thesis
    unfolding payload_roundtrip process_payload_roundtrip [OF assms] tile_payload_roundtrip finalize_payload_roundtrip
      sum.inject as_queued_id as_sent_id f m
    by simp
qed

definition example_finalize :: BulkFinalizePayload where
  "example_finalize = \<lparr>f_job_id = ''j'', f_collection_id = ''a'', f_mode = ''replace'', f_items_created = 3,
     f_items_failed = 0, f_owner_id = Some 1, f_queue_compute_tiles = True, f_attempt = 1\<rparr>"

theorem queue_messages_roundtrip_witness:
  "ProcessJobPayload_from_json (ProcessJobPayload_to_json example_process) = Inr (as_sent example_process) \<and>
   BulkFinalizePayload_from_json (BulkFinalizePayload_to_json example_finalize) = Inr example_finalize"
proof -
  have "payload_ok example_process"
    by (simp add: payload_ok_def example_process_def j_num_def is_ascii_digit_def)
  from queue_messages_roundtrip [OF this, of _ _ example_finalize] show ?thesis
    by (simp add: example_finalize_def)
qed

end
